(* ===== verification/Prelude.thy ===== *)
theory Prelude
  imports Complex_Main "HOL-Library.Word"
begin

section \<open>Shared vocabulary of the HiNA-DCN model\<close>

text \<open>
  Vocabulary used by every component theory: the ways a handler can fail, the result
  type, the reading of C++ numeric types, substring search on packet names, and generic
  lemmas on lists.

  \<^item> A C++ \<open>double\<close> and an OMNeT++ \<open>simtime_t\<close> are read as an exact \<open>real\<close>; rounding, NaN
    and the infinities are outside the model.  Where the code divides by a value that can be zero
    and turns the quotient into a simulation time, the model has an error branch.
  \<^item> \<open>uint32_t\<close>, \<open>uint\<close> and \<open>uint64_t\<close> are words of their width, so wrap-around and the
    signed-to-unsigned conversion of a mixed comparison are those of the code.  Signed
    lengths in bits or bytes are \<open>int\<close>.
\<close>

type_synonym double = real
type_synonym simtime = real
type_synonym u32 = "32 word"
type_synonym u64 = "64 word"

text \<open>
  Failures.  \<open>RuntimeError\<close> is a \<open>throw cRuntimeError\<close> of the source with its message;
  \<open>AlreadyScheduled\<close> is the error the simulation kernel documents for scheduling a message that
  is already scheduled; the other constructors are undefined behaviour of C++ that a path of
  the source can reach.
\<close>

datatype sim_error =
    RuntimeError string
  | AlreadyScheduled
  | SimTimeOverflow
  | EndIterator
  | OutOfBounds
  | Uninitialized
  | FloatConversion
  | NullPointer
  | NoProgress

type_synonym 'a res = "sim_error + 'a"

named_theorems hina_defs "definitions of handlers, unfolded on demand"
named_theorems hina_inv "preservation lemmas of component invariants"

definition rbind :: "'a res \<Rightarrow> ('a \<Rightarrow> 'b res) \<Rightarrow> 'b res" where
  "rbind r f = (case r of Inl e \<Rightarrow> Inl e | Inr x \<Rightarrow> f x)"

lemma rbind_Inr [simp]: "rbind (Inr x) f = f x"
  by (simp add: rbind_def)

lemma rbind_Inl [simp]: "rbind (Inl e) f = Inl e"
  by (simp add: rbind_def)

lemma rbind_cong [fundef_cong]:
  "x = y \<Longrightarrow> (\<And>v. y = Inr v \<Longrightarrow> f v = g v) \<Longrightarrow> rbind x f = rbind y g"
  by (cases y) auto

lemma rbind_eq_Inr: "rbind r f = Inr y \<longleftrightarrow> (\<exists>x. r = Inr x \<and> f x = Inr y)"
  by (cases r) auto

definition is_ok :: "'a res \<Rightarrow> bool" where
  "is_ok r = (case r of Inl _ \<Rightarrow> False | Inr _ \<Rightarrow> True)"

lemma is_ok_Inr [simp]: "is_ok (Inr x)"
  by (simp add: is_ok_def)

lemma is_ok_Inl [simp]: "\<not> is_ok (Inl e)"
  by (simp add: is_ok_def)

lemma is_ok_iff: "is_ok r \<longleftrightarrow> (\<exists>x. r = Inr x)"
  by (cases r) auto

subsection \<open>Numeric conversions of C++\<close>

text \<open>
  \<open>double\<close> to an unsigned integer discards the fraction; it is undefined when the truncated
  value does not fit.
\<close>

definition trunc_real :: "double \<Rightarrow> int" where
  "trunc_real x = (if 0 \<le> x then \<lfloor>x\<rfloor> else - \<lfloor>- x\<rfloor>)"

definition dbl_to_u64 :: "double \<Rightarrow> u64 res" where
  "dbl_to_u64 x = (if -1 < x \<and> x < 2 ^ 64 then Inr (word_of_int (trunc_real x)) else Inl FloatConversion)"

definition dbl_to_u32 :: "double \<Rightarrow> u32 res" where
  "dbl_to_u32 x = (if -1 < x \<and> x < 2 ^ 32 then Inr (word_of_int (trunc_real x)) else Inl FloatConversion)"

lemma trunc_real_nonneg: "0 \<le> x \<Longrightarrow> trunc_real x = \<lfloor>x\<rfloor>"
  by (simp add: trunc_real_def)

lemma dbl_to_u64_uint:
  assumes "0 \<le> x" and "x < 2 ^ 64"
  shows "\<exists>w. dbl_to_u64 x = Inr w \<and> uint w = \<lfloor>x\<rfloor>"
proof -
  have "0 \<le> \<lfloor>x\<rfloor>" using assms(1) by simp
  moreover have "\<lfloor>x\<rfloor> < 2 ^ 64" using assms(2) by (simp add: floor_less_iff)
  ultimately have "uint (word_of_int \<lfloor>x\<rfloor> :: u64) = \<lfloor>x\<rfloor>"
    by (simp add: uint_word_of_int)
  then show ?thesis using assms by (simp add: dbl_to_u64_def trunc_real_def)
qed

lemma dbl_to_u32_uint:
  assumes "0 \<le> x" and "x < 2 ^ 32"
  shows "\<exists>w. dbl_to_u32 x = Inr w \<and> uint w = \<lfloor>x\<rfloor>"
proof -
  have "0 \<le> \<lfloor>x\<rfloor>" using assms(1) by simp
  moreover have "\<lfloor>x\<rfloor> < 2 ^ 32" using assms(2) by (simp add: floor_less_iff)
  ultimately have "uint (word_of_int \<lfloor>x\<rfloor> :: u32) = \<lfloor>x\<rfloor>"
    by (simp add: uint_word_of_int)
  then show ?thesis using assms by (simp add: dbl_to_u32_def trunc_real_def)
qed

text \<open>A mixed comparison \<open>int64 > uint64\<close> converts the signed operand to unsigned.\<close>

definition gt_mixed64 :: "int \<Rightarrow> u64 \<Rightarrow> bool" where
  "gt_mixed64 a w \<longleftrightarrow> w < word_of_int a"

lemma gt_mixed64_nonneg:
  assumes "0 \<le> a" and "a < 2 ^ 64"
  shows "gt_mixed64 a w \<longleftrightarrow> uint w < a"
proof -
  have "uint (word_of_int a :: u64) = a" using assms by (simp add: uint_word_of_int)
  then show ?thesis by (simp add: gt_mixed64_def word_less_def)
qed

lemma gt_mixed64_neg:
  assumes "- (2 ^ 63) \<le> a" and "a < 0"
  shows "gt_mixed64 a w \<longleftrightarrow> uint w < a + 2 ^ 64"
proof -
  have "a mod 2 ^ 64 = (a + 2 ^ 64) mod 2 ^ 64" by simp
  also have "\<dots> = a + 2 ^ 64" using assms by (intro mod_pos_pos_trivial) auto
  finally have "uint (word_of_int a :: u64) = a + 2 ^ 64" by (simp add: uint_word_of_int)
  then show ?thesis by (simp add: gt_mixed64_def word_less_def)
qed

subsection \<open>Substring search\<close>

text \<open>\<open>contains pat s\<close> is \<open>s.find(pat) != std::string::npos\<close>.\<close>

fun starts_with :: "string \<Rightarrow> string \<Rightarrow> bool" where
  "starts_with [] s = True"
| "starts_with (c # cs) [] = False"
| "starts_with (c # cs) (d # ds) = (c = d \<and> starts_with cs ds)"

fun contains :: "string \<Rightarrow> string \<Rightarrow> bool" where
  "contains pat [] = (pat = [])"
| "contains pat (c # cs) = (starts_with pat (c # cs) \<or> contains pat cs)"

lemma starts_with_append: "starts_with pat s \<longleftrightarrow> (\<exists>t. s = pat @ t)"
  by (induction pat s rule: starts_with.induct) auto

lemma contains_append: "contains pat s \<longleftrightarrow> (\<exists>u v. s = u @ pat @ v)"
proof (induction s)
  case Nil
  then show ?case by auto
next
  case (Cons c cs)
  have "contains pat (c # cs) \<longleftrightarrow> (\<exists>t. c # cs = pat @ t) \<or> (\<exists>u v. cs = u @ pat @ v)"
    using Cons.IH by (simp add: starts_with_append)
  also have "\<dots> \<longleftrightarrow> (\<exists>u v. c # cs = u @ pat @ v)"
  proof
    assume "(\<exists>t. c # cs = pat @ t) \<or> (\<exists>u v. cs = u @ pat @ v)"
    then show "\<exists>u v. c # cs = u @ pat @ v"
      by (metis append_Cons append_Nil)
  next
    assume "\<exists>u v. c # cs = u @ pat @ v"
    then obtain u v where uv: "c # cs = u @ pat @ v" by blast
    show "(\<exists>t. c # cs = pat @ t) \<or> (\<exists>u v. cs = u @ pat @ v)"
    proof (cases u)
      case Nil
      with uv show ?thesis by auto
    next
      case (Cons a us)
      with uv show ?thesis by auto
    qed
  qed
  finally show ?case .
qed

subsection \<open>Lists\<close>

text \<open>The first index from \<open>i\<close> on that satisfies a predicate, as a C++ search loop returns it.\<close>

fun find_idx :: "(nat \<Rightarrow> bool) \<Rightarrow> nat list \<Rightarrow> nat option" where
  "find_idx p [] = None"
| "find_idx p (i # is) = (if p i then Some i else find_idx p is)"

lemma find_idx_None: "find_idx p is = None \<longleftrightarrow> (\<forall>i\<in>set is. \<not> p i)"
  by (induction "is") auto

lemma find_idx_Some: "find_idx p is = Some i \<Longrightarrow> i \<in> set is \<and> p i"
  by (induction "is") (auto split: if_splits)

lemma find_idx_upt_Some:
  "find_idx p [a..<b] = Some i \<longleftrightarrow> a \<le> i \<and> i < b \<and> p i \<and> (\<forall>j. a \<le> j \<longrightarrow> j < i \<longrightarrow> \<not> p j)"
proof (induction "b - a" arbitrary: a)
  case 0
  then show ?case by auto
next
  case (Suc n)
  then have "a < b" and "n = b - Suc a" by auto
  from \<open>a < b\<close> have "[a..<b] = a # [Suc a..<b]" by (rule upt_conv_Cons)
  then show ?case
    using Suc.hyps(1)[OF \<open>n = b - Suc a\<close>] \<open>a < b\<close>
    by (auto simp: Suc_le_eq) (metis le_neq_implies_less less_or_eq_imp_le)+
qed

lemma sum_list_take_drop: "sum_list (take n xs) + sum_list (drop n xs) = sum_list (xs :: int list)"
  by (metis append_take_drop_id sum_list_append)

lemma sum_list_nonneg_int: "(\<And>x. x \<in> set xs \<Longrightarrow> 0 \<le> x) \<Longrightarrow> 0 \<le> sum_list (xs :: int list)"
  by (induction xs) auto

text \<open>Index-wise update of a counter array, as \<open>a[i]--\<close> and \<open>a[i]++\<close>.\<close>

definition arr_dec :: "u32 list \<Rightarrow> nat \<Rightarrow> u32 list" where
  "arr_dec a i = a[i := a ! i - 1]"

lemma length_arr_dec [simp]: "length (arr_dec a i) = length a"
  by (simp add: arr_dec_def)

lemma arr_dec_nth: "i < length a \<Longrightarrow> arr_dec a i ! j = (if j = i then a ! i - 1 else a ! j)"
  by (simp add: arr_dec_def nth_list_update)

lemma unat_dec: "0 < w \<Longrightarrow> unat (w - 1) = unat (w :: u32) - 1"
  by (metis unat_minus_one word_gt_0)

end
