(* ===== verification/Packets.thy ===== *)
theory Packets
  imports Prelude "HOL-Library.Multiset"
begin

section \<open>Packets as the queues, schedulers and transports see them\<close>

text \<open>
  A \<open>Packet\<close> of the simulator is a tree of chunks with tags.  The model keeps what the modelled
  code reads and writes: the name the code dispatches on, the length in bits, the ECN code
  point of its IPv4 header (None when the ECN marker finds no IPv4 header), the interface it
  came in on, the \<open>HiTag\<close> region tags, the \<open>BFCHeader\<close> and the \<open>isPause\<close> tag.  \<open>p_id\<close> is the identity
  of the object, which pointer comparisons use.  Of a \<open>HiTag\<close> it keeps the fields the modelled code
  uses; a priority and a sender priority are the values their readers get, who all read them into an \<open>int\<close> (a
  tag that sets none has -1).
\<close>

datatype ecn = NotECT | ECT1 | ECT0 | CE

record hitag =
  ht_flowid :: u32
  ht_priority :: int
  ht_flowsize :: u64
  ht_cretime :: simtime
  ht_packetid :: int
  ht_last :: bool
  ht_queueid :: u32
  ht_decel :: bool
  ht_speedup :: bool
  ht_sender_priority :: int

record bfc_header =
  upstreamQueueID :: int
  queueID :: int

record packet =
  p_id :: nat
  p_name :: string
  p_len :: nat
  p_iface :: int
  p_ecn :: "ecn option"
  p_tags :: "hitag list"
  p_bfc :: "bfc_header option"
  p_ispause :: "bool option"

text \<open>The in-band telemetry header of HPCC: one record per hop, in an array of five.\<close>

record hop_inf =
  TS :: simtime
  hopQueueLength :: int
  hopTxBytes :: u64
  hopTxRate :: double

record int_header =
  nHop :: int
  pathID :: int
  hopInfs :: "hop_inf list"

record psd_header =
  psdTS :: simtime
  psdMPD :: simtime

text \<open>Lengths in bits are never negative; arithmetic on them is signed.\<close>

abbreviation p_bits :: "'m packet_scheme \<Rightarrow> int" where
  "p_bits p \<equiv> int (p_len p)"

text \<open>
  \<open>for (auto& region : getAllTags<HiTag>()) v = region...\<close> leaves the value of the last region in
  \<open>v\<close>, and an uninitialised \<open>v\<close> when the packet carries no such tag.
\<close>

definition last_tag :: "'m packet_scheme \<Rightarrow> hitag res" where
  "last_tag p = (if p_tags p = [] then Inl Uninitialized else Inr (last (p_tags p)))"

lemma last_tag_Inr [simp]: "p_tags p \<noteq> [] \<Longrightarrow> last_tag p = Inr (last (p_tags p))"
  by (simp add: last_tag_def)

text \<open>\<open>EcnMarker::getEcn\<close> and \<open>EcnMarker::setEcn\<close>: without an IPv4 header nothing is read or set.\<close>

definition getEcn :: "'m packet_scheme \<Rightarrow> ecn" where
  "getEcn p = (case p_ecn p of None \<Rightarrow> NotECT | Some e \<Rightarrow> e)"

definition setEcn :: "ecn \<Rightarrow> 'm packet_scheme \<Rightarrow> 'm packet_scheme" where
  "setEcn e p = (case p_ecn p of None \<Rightarrow> p | Some _ \<Rightarrow> p\<lparr>p_ecn := Some e\<rparr>)"

lemma getEcn_setEcn: "getEcn p \<noteq> NotECT \<Longrightarrow> getEcn (setEcn e p) = e"
  by (auto simp: getEcn_def setEcn_def split: option.splits)

lemma setEcn_frame [simp]:
  "p_len (setEcn e p) = p_len p" "p_id (setEcn e p) = p_id p" "p_name (setEcn e p) = p_name p"
  "p_tags (setEcn e p) = p_tags p"
  by (auto simp: setEcn_def split: option.splits)

text \<open>Lengths of a stored sequence of packets: bits, and bytes rounded up.\<close>

definition bitLength :: "'m packet_scheme list \<Rightarrow> int" where
  "bitLength q = sum_list (map p_bits q)"

definition bytes_of :: "int \<Rightarrow> int" where
  "bytes_of n = (n + 7) div 8"

definition byteLength :: "'m packet_scheme list \<Rightarrow> int" where
  "byteLength q = bytes_of (bitLength q)"

lemma bitLength_Nil [simp]: "bitLength [] = 0"
  by (simp add: bitLength_def)

lemma bitLength_Cons [simp]: "bitLength (p # q) = p_bits p + bitLength q"
  by (simp add: bitLength_def)

lemma bitLength_append [simp]: "bitLength (q @ r) = bitLength q + bitLength r"
  by (simp add: bitLength_def)

lemma bitLength_mset: "mset q = mset r \<Longrightarrow> bitLength q = bitLength r"
  by (metis bitLength_def mset_map sum_mset_sum_list)

lemma bitLength_nonneg [simp]: "0 \<le> bitLength q"
  by (induction q) auto

text \<open>
  \<open>cPacketQueue::insert\<close> belongs to the simulation library: a queue with a comparator inserts in
  the order the comparator gives, one without appends.  It is a parameter of the model; what
  the code relies on is that insertion adds the packet and loses none.
\<close>

type_synonym 'p inserter_of = "'p \<Rightarrow> 'p list \<Rightarrow> 'p list"

type_synonym inserter = "packet inserter_of"

definition inserts :: "'p inserter_of \<Rightarrow> bool" where
  "inserts ins \<longleftrightarrow> (\<forall>p q. mset (ins p q) = add_mset p (mset q))"

definition fifo_insert :: "'p inserter_of" where
  "fifo_insert p q = q @ [p]"

lemma inserts_fifo: "inserts fifo_insert"
  by (simp add: inserts_def fifo_insert_def)

lemma inserts_length: "inserts ins \<Longrightarrow> length (ins p q) = Suc (length q)"
  by (metis inserts_def size_add_mset size_mset)

lemma inserts_bitLength: "inserts ins \<Longrightarrow> bitLength (ins p q) = p_bits p + bitLength q"
  using bitLength_mset[of "ins p q" "p # q"] by (simp add: inserts_def)

text \<open>
  \<open>cQueue::remove(ptr)\<close> takes out the object with the given identity and leaves the queue as it is
  when the object is not in it.
\<close>

fun remove_ptr :: "nat \<Rightarrow> 'm packet_scheme list \<Rightarrow> 'm packet_scheme list" where
  "remove_ptr i [] = []"
| "remove_ptr i (p # q) = (if p_id p = i then q else p # remove_ptr i q)"

lemma remove_ptr_absent: "i \<notin> p_id ` set q \<Longrightarrow> remove_ptr i q = q"
  by (induction q) auto

text \<open>
  The loop \<open>for (i = 0; i < getNumPackets(); i++) packets.push_back(queue.pop())\<close> that all queue
  classes use in \<open>removeAllPackets\<close>: the bound is re-read in every iteration while the body pops.
\<close>

function pop_loop :: "nat \<Rightarrow> 'p list \<Rightarrow> 'p list \<Rightarrow> 'p list \<times> 'p list" where
  "pop_loop i q acc = (if i < length q then pop_loop (Suc i) (tl q) (acc @ [hd q]) else (q, acc))"
  by pat_completeness auto
termination
  by (relation "measure (\<lambda>(i, q, acc). length q - i)") auto

declare pop_loop.simps [simp del]

lemma pop_loop_halves:
  assumes "i \<le> length q"
  shows "pop_loop i q acc = (drop ((length q - i + 1) div 2) q, acc @ take ((length q - i + 1) div 2) q)"
  using assms
proof (induction i q acc rule: pop_loop.induct)
  case (1 i q acc)
  show ?case
  proof (cases "i < length q")
    case False
    with 1(2) show ?thesis by (subst pop_loop.simps) simp
  next
    case True
    then obtain p r where q: "q = p # r" by (cases q) auto
    show ?thesis
    proof (cases "Suc i \<le> length r")
      case True
      let ?k = "(length r - Suc i + 1) div 2"
      have k: "(length q - i + 1) div 2 = Suc ?k" using True q by auto
      have "pop_loop (Suc i) (tl q) (acc @ [hd q]) = (drop ?k r, (acc @ [p]) @ take ?k r)"
        using 1(1) \<open>i < length q\<close> True q by simp
      moreover have "pop_loop i q acc = pop_loop (Suc i) (tl q) (acc @ [hd q])"
        by (subst pop_loop.simps) (simp add: \<open>i < length q\<close>)
      ultimately show ?thesis using k q by simp
    next
      case False
      with \<open>i < length q\<close> q have "i = length r" by simp
      have "pop_loop i q acc = pop_loop (Suc i) r (acc @ [p])"
        by (subst pop_loop.simps) (simp add: q \<open>i = length r\<close>)
      also have "\<dots> = (r, acc @ [p])"
        using \<open>i = length r\<close> by (subst pop_loop.simps) simp
      finally show ?thesis using q \<open>i = length r\<close> by simp
    qed
  qed
qed

end
