(* ===== verification/Machine.thy ===== *)
theory Machine
  imports Prelude
begin

section \<open>Runs of event handlers\<close>

text \<open>
  Every module of the simulator is a state and a set of handlers; a handler either fails or
  returns the new state with the effects it had on other modules (signals emitted, packets
  sent, timers armed), in order.  This theory holds the run of a handler over a list of events
  and the two interfaces the components instantiate: a machine with an invariant, and a
  machine with an account that every step changes by a known amount.
\<close>

fun run_out :: "('op \<Rightarrow> 's \<Rightarrow> ('s \<times> 'e list) res) \<Rightarrow> 'op list \<Rightarrow> 's \<Rightarrow> ('s \<times> 'e list) res" where
  "run_out f [] s = Inr (s, [])"
| "run_out f (x # xs) s =
     rbind (f x s) (\<lambda>(s', es). rbind (run_out f xs s') (\<lambda>(s'', es'). Inr (s'', es @ es')))"

lemma run_out_Cons_Inr:
  "run_out f (x # xs) s = Inr (t, out) \<longleftrightarrow>
     (\<exists>s' es es'. f x s = Inr (s', es) \<and> run_out f xs s' = Inr (t, es') \<and> out = es @ es')"
  by (auto simp: rbind_eq_Inr split: prod.splits)

lemma run_out_append:
  "run_out f (xs @ ys) s =
     rbind (run_out f xs s) (\<lambda>(s', es). rbind (run_out f ys s') (\<lambda>(s'', es'). Inr (s'', es @ es')))"
proof (induction xs arbitrary: s)
  case Nil
  then show ?case by (cases "run_out f ys s") auto
next
  case (Cons x xs)
  show ?case
  proof (cases "f x s")
    case (Inl e)
    then show ?thesis by simp
  next
    case (Inr r)
    obtain s' es where r: "r = (s', es)" by (cases r)
    show ?thesis
    proof (cases "run_out f xs s'")
      case (Inl e)
      with Inr r Cons.IH[of s'] show ?thesis by simp
    next
      case run1: (Inr q)
      obtain s2 es2 where q: "q = (s2, es2)" by (cases q)
      with Inr r run1 Cons.IH[of s'] show ?thesis
        by (cases "run_out f ys s2") auto
    qed
  qed
qed

text \<open>
  A machine whose successful steps, on the events its surroundings may send, keep an invariant.
\<close>

locale machine =
  fixes step :: "'op \<Rightarrow> 's \<Rightarrow> ('s \<times> 'e list) res"
    and inv :: "'s \<Rightarrow> bool"
    and accepts :: "'op \<Rightarrow> bool"
  assumes inv_step: "inv s \<Longrightarrow> accepts x \<Longrightarrow> step x s = Inr (s', es) \<Longrightarrow> inv s'"
begin

lemma inv_run: "inv s \<Longrightarrow> \<forall>x\<in>set xs. accepts x \<Longrightarrow> run_out step xs s = Inr (s', es) \<Longrightarrow> inv s'"
proof (induction xs arbitrary: s es)
  case Nil
  then show ?case by simp
next
  case (Cons x xs)
  from Cons.prems(3) obtain s1 es1 es2 where
    s1: "step x s = Inr (s1, es1)" and r: "run_out step xs s1 = Inr (s', es2)"
    by (auto simp: run_out_Cons_Inr simp del: run_out.simps)
  have "inv s1" by (rule inv_step[OF Cons.prems(1) _ s1]) (simp add: Cons.prems(2))
  then show ?case using _ r by (rule Cons.IH) (simp add: Cons.prems(2))
qed

end

text \<open>A machine that cannot fail on the events it accepts.\<close>

locale total_machine = machine +
  assumes step_ok: "inv s \<Longrightarrow> accepts x \<Longrightarrow> is_ok (step x s)"
begin

lemma run_ok:
  assumes "inv s" and "\<forall>x\<in>set xs. accepts x"
  shows "is_ok (run_out step xs s)"
  using assms
proof (induction xs arbitrary: s)
  case Nil
  then show ?case by simp
next
  case (Cons x xs)
  then have "is_ok (step x s)" by (intro step_ok) auto
  then obtain s' es where s': "step x s = Inr (s', es)" by (auto simp: is_ok_iff)
  with Cons.prems have "inv s'" by (auto intro: inv_step)
  with Cons have "is_ok (run_out step xs s')" by simp
  with s' show ?case by (auto simp: is_ok_iff)
qed

end

text \<open>
  A machine with an account: a quantity every step increases by exactly what \<open>delta\<close> says.
  Over a run the increases add up.
\<close>

locale accounted_machine = machine +
  fixes account :: "'b \<Rightarrow> int"
    and delta :: "'a \<Rightarrow> 'b \<Rightarrow> int"
  assumes account_step:
      "inv s \<Longrightarrow> accepts x \<Longrightarrow> step x s = Inr (s', es) \<Longrightarrow> account s' = account s + delta x s"
    and delta_nonneg: "inv s \<Longrightarrow> accepts x \<Longrightarrow> step x s = Inr (s', es) \<Longrightarrow> 0 \<le> delta x s"
begin

lemma account_run:
  "inv s \<Longrightarrow> \<forall>x\<in>set xs. accepts x \<Longrightarrow> run_out step xs s = Inr (s', es) \<Longrightarrow> account s \<le> account s'"
proof (induction xs arbitrary: s es)
  case Nil
  then show ?case by simp
next
  case (Cons x xs)
  from Cons.prems(3) obtain s1 es1 es2 where
    s1: "step x s = Inr (s1, es1)" and r: "run_out step xs s1 = Inr (s', es2)"
    by (auto simp: run_out_Cons_Inr simp del: run_out.simps)
  have x: "accepts x" using Cons.prems(2) by simp
  have "inv s1" using Cons.prems(1) x s1 by (rule inv_step)
  then have "account s1 \<le> account s'" using _ r by (rule Cons.IH) (simp add: Cons.prems(2))
  moreover have "account s \<le> account s1"
    using account_step[OF Cons.prems(1) x s1] delta_nonneg[OF Cons.prems(1) x s1] by simp
  ultimately show ?case by simp
qed

end

text \<open>
  A machine that signals the changes of a flag: the log of the signals in the effects of a step
  alternates from the flag before to the flag after.  Then the log of a run does.
\<close>

fun alternates :: "bool \<Rightarrow> bool list \<Rightarrow> bool \<Rightarrow> bool" where
  "alternates b [] c = (b = c)"
| "alternates b (x # xs) c = (x \<noteq> b \<and> alternates x xs c)"

lemma alternates_append: "alternates a xs b \<Longrightarrow> alternates b ys c \<Longrightarrow> alternates a (xs @ ys) c"
  by (induction xs arbitrary: a) auto

lemma alternates_balance:
  "alternates b xs c \<Longrightarrow> length (filter (\<lambda>x. x) xs) + of_bool b = length (filter Not xs) + of_bool c"
proof (induction xs arbitrary: b)
  case Nil
  then show ?case by simp
next
  case (Cons x xs)
  then have "x \<noteq> b" and "alternates x xs c" by auto
  with Cons.IH[of x] show ?case by (cases x) auto
qed

locale signalled_machine = machine +
  fixes log :: "'c list \<Rightarrow> bool list"
    and flag :: "'b \<Rightarrow> bool"
  assumes log_Nil: "log [] = []"
    and log_append: "log (es @ fs) = log es @ log fs"
    and signal_step:
      "inv s \<Longrightarrow> accepts x \<Longrightarrow> step x s = Inr (s', es) \<Longrightarrow> alternates (flag s) (log es) (flag s')"
begin

lemma signal_run:
  "inv s \<Longrightarrow> \<forall>x\<in>set xs. accepts x \<Longrightarrow> run_out step xs s = Inr (s', es) \<Longrightarrow>
     alternates (flag s) (log es) (flag s')"
proof (induction xs arbitrary: s es)
  case Nil
  then show ?case by (simp add: log_Nil)
next
  case (Cons x xs)
  from Cons.prems(3) obtain s1 es1 es2 where s1: "step x s = Inr (s1, es1)"
    and r: "run_out step xs s1 = Inr (s', es2)" and es: "es = es1 @ es2"
    by (auto simp: run_out_Cons_Inr simp del: run_out.simps)
  have x: "accepts x" using Cons.prems(2) by simp
  have "inv s1" using Cons.prems(1) x s1 by (rule inv_step)
  then have "alternates (flag s1) (log es2) (flag s')" using _ r by (rule Cons.IH) (simp add: Cons.prems(2))
  with signal_step[OF Cons.prems(1) x s1] show ?case
    by (simp add: es log_append alternates_append)
qed

end

text \<open>A machine whose state stands in a relation to everything it has done so far.\<close>

locale recorded_machine = machine +
  fixes recorded :: "'b \<Rightarrow> 'c list \<Rightarrow> bool"
  assumes record_step:
      "inv s \<Longrightarrow> accepts x \<Longrightarrow> recorded s past \<Longrightarrow> step x s = Inr (s', es) \<Longrightarrow> recorded s' (past @ es)"
begin

lemma record_run:
  "inv s \<Longrightarrow> \<forall>x\<in>set xs. accepts x \<Longrightarrow> recorded s past \<Longrightarrow> run_out step xs s = Inr (s', es) \<Longrightarrow> recorded s' (past @ es)"
proof (induction xs arbitrary: s past es)
  case Nil
  then show ?case by simp
next
  case (Cons x xs)
  from Cons.prems(4) obtain s1 es1 es2 where s1: "step x s = Inr (s1, es1)"
    and r: "run_out step xs s1 = Inr (s', es2)" and es: "es = es1 @ es2"
    by (auto simp: run_out_Cons_Inr simp del: run_out.simps)
  have x: "accepts x" using Cons.prems(2) by simp
  have "inv s1" using Cons.prems(1) x s1 by (rule inv_step)
  moreover have "recorded s1 (past @ es1)" using Cons.prems(1) x Cons.prems(3) s1 by (rule record_step)
  ultimately have "recorded s' ((past @ es1) @ es2)" using _ _ r by (intro Cons.IH) (simp_all add: Cons.prems(2))
  then show ?case by (simp add: es)
qed

end

text \<open>A machine one of whose outputs is a function of its inputs alone.\<close>

locale observed_machine =
  fixes step :: "'op \<Rightarrow> 's \<Rightarrow> ('s \<times> 'e list) res"
    and observe :: "'e list \<Rightarrow> 'o list" and given :: "'op \<Rightarrow> 'o list"
  assumes observe_Nil: "observe [] = []"
    and observe_append: "observe (es @ fs) = observe es @ observe fs"
    and observe_step: "step x s = Inr (s', es) \<Longrightarrow> observe es = given x"
begin

lemma observe_run: "run_out step xs s = Inr (s', es) \<Longrightarrow> observe es = concat (map given xs)"
proof (induction xs arbitrary: s es)
  case Nil
  then show ?case by (simp add: observe_Nil)
next
  case (Cons x xs)
  from Cons.prems obtain s1 es1 es2 where "step x s = Inr (s1, es1)" "run_out step xs s1 = Inr (s', es2)" "es = es1 @ es2"
    by (auto simp: run_out_Cons_Inr simp del: run_out.simps)
  with Cons.IH observe_step show ?case by (auto simp: observe_append)
qed

end

end
