(* ===== verification/RED_PFC_Queue.thy ===== *)
theory RED_PFC_Queue
  imports Packets Machine
begin

section \<open>REDPFCQueue: admission, RED marking and priority flow control\<close>

text \<open>
  \<open>HiNA/Ethernet/HiQueue/REDPFCQueue\<close>.  A switch egress queue that charges a buffer shared by all
  queues of the switch, marks ECN on dequeue and asks upstream interfaces to pause.  The
  configuration is what \<open>initialize\<close> reads from the module parameters; the static array
  \<open>sharedBuffer[]\<close>, indexed by the switch, is the store \<open>sb\<close> passed along with the queue.
  \<open>doRandomEarlyDetection\<close> draws one random number, an argument here.
\<close>

type_synonym sbuf = "int \<Rightarrow> int"

datatype red_result = RANDOMLY_ABOVE_LIMIT | RANDOMLY_BELOW_LIMIT | ABOVE_MAX_LIMIT | BELOW_MIN_LIMIT

record red_cfg =
  packetCapacity :: int
  dataCapacity :: int
  headroom :: int
  alpha :: double
  usePfc :: bool
  XON :: int
  XOFF :: int
  priority :: int
  Kmax :: int
  Kmin :: int
  Pmax :: double
  useEcn :: bool
  S_drop :: int
  switchid :: int
  hasDropper :: bool
  hasCollector :: bool
  insertPacket :: inserter

record redq =
  queue :: "packet list"
  paused :: "int list"
  markNext :: bool
  redCount :: double
  ecncount :: int
  maxSize :: u64
  lastResult :: red_result

text \<open>What the queue does to its surroundings.\<close>

datatype qeffect =
    PushStarted nat
  | PfcPause int int
  | PfcResume int int
  | NotifyCollector
  | PushEnded
  | Pulled nat
  | Removed nat
  | Dropped nat

text \<open>
  The pools of the shared buffer are \<open>static b sharedBuffer[100]\<close>: a switch whose module id is
  not below 100 has no pool.
\<close>

definition REDPFCQueue_initialize :: "red_cfg \<Rightarrow> int \<Rightarrow> sbuf \<Rightarrow> (redq \<times> sbuf) res" where
  "REDPFCQueue_initialize cfg parSharedBuffer sb =
     (if switchid cfg < 0 \<or> 100 \<le> switchid cfg then Inl OutOfBounds
      else Inr (\<lparr>queue = [], paused = [], markNext = False, redCount = -1, ecncount = 0,
                 maxSize = 0, lastResult = BELOW_MIN_LIMIT\<rparr>,
                sb(switchid cfg := parSharedBuffer)))"

definition REDPFCQueue_getNumPackets :: "'a redq_scheme \<Rightarrow> int" where
  "REDPFCQueue_getNumPackets s = int (length (queue s))"

definition REDPFCQueue_getTotalLength :: "'a redq_scheme \<Rightarrow> int" where
  "REDPFCQueue_getTotalLength s = bitLength (queue s)"

definition REDPFCQueue_isOverloaded :: "red_cfg \<Rightarrow> 'a redq_scheme \<Rightarrow> bool" where
  "REDPFCQueue_isOverloaded cfg s \<longleftrightarrow>
     (packetCapacity cfg \<noteq> -1 \<and> REDPFCQueue_getNumPackets s > packetCapacity cfg) \<or>
     (dataCapacity cfg \<noteq> -1 \<and> REDPFCQueue_getTotalLength s > dataCapacity cfg)"

definition REDPFCQueue_getPacket :: "'a redq_scheme \<Rightarrow> int \<Rightarrow> packet res" where
  "REDPFCQueue_getPacket s index =
     (if index < 0 \<or> index \<ge> int (length (queue s)) then Inl (RuntimeError ''index out of range'')
      else Inr (queue s ! nat index))"

text \<open>
  \<open>BufferManagement\<close>: \<open>wrrTotal\<close> is the length the sibling WRR scheduler reports.  The threshold
  \<open>maxSize\<close> is unsigned, so the comparison with the signed excess is done unsigned.
\<close>

definition REDPFCQueue_BufferManagement ::
    "red_cfg \<Rightarrow> int \<Rightarrow> packet \<Rightarrow> 'a redq_scheme \<Rightarrow> sbuf \<Rightarrow> (bool \<times> 'a redq_scheme \<times> sbuf) res" where
  "REDPFCQueue_BufferManagement cfg wrrTotal pck s sb =
     (let queueLength = bitLength (queue s) in
      if S_drop cfg > 0 \<and> contains ''UData'' (p_name pck) \<and> wrrTotal > S_drop cfg then Inr (False, s, sb)
      else if \<not> REDPFCQueue_isOverloaded cfg s then Inr (True, s, sb)
      else
        let remaining = sb (switchid cfg) in
        rbind (dbl_to_u64 (alpha cfg * of_int remaining)) (\<lambda>mx.
          let s' = s\<lparr>maxSize := mx\<rparr> in
          if gt_mixed64 (queueLength - dataCapacity cfg + p_bits pck) mx then Inr (False, s', sb)
          else Inr (True, s', sb(switchid cfg := remaining - p_bits pck))))"

definition REDPFCQueue_mustPause :: "red_cfg \<Rightarrow> 'a redq_scheme \<Rightarrow> sbuf \<Rightarrow> int \<Rightarrow> bool" where
  "REDPFCQueue_mustPause cfg s sb iface \<longleftrightarrow>
     usePfc cfg \<and>
     (byteLength (queue s) \<ge> XOFF cfg \<or>
      (bitLength (queue s) > dataCapacity cfg \<and> sb (switchid cfg) < headroom cfg)) \<and>
     iface \<notin> set (paused s)"

definition REDPFCQueue_pushPacket ::
    "red_cfg \<Rightarrow> packet \<Rightarrow> 'a redq_scheme \<Rightarrow> sbuf \<Rightarrow> 'a redq_scheme \<times> qeffect list" where
  "REDPFCQueue_pushPacket cfg pck s sb =
     (let s1 = s\<lparr>queue := insertPacket cfg pck (queue s)\<rparr>;
          iface = p_iface pck;
          (s2, pauseEff) =
            (if REDPFCQueue_mustPause cfg s1 sb iface
             then (s1\<lparr>paused := paused s1 @ [iface]\<rparr>, [PfcPause (priority cfg) iface])
             else (s1, []));
          notifyEff = (if hasCollector cfg \<and> REDPFCQueue_getNumPackets s2 \<noteq> 0 then [NotifyCollector] else [])
      in (s2, [PushStarted (p_id pck)] @ pauseEff @ notifyEff @ [PushEnded]))"

text \<open>
  \<open>handleMessage\<close> calls the virtual \<open>BufferManagement\<close>; a subclass passes its own.
\<close>

type_synonym 'a admission = "packet \<Rightarrow> 'a redq_scheme \<Rightarrow> sbuf \<Rightarrow> (bool \<times> 'a redq_scheme \<times> sbuf) res"

definition REDPFCQueue_handleMessage ::
    "red_cfg \<Rightarrow> 'a admission \<Rightarrow> packet \<Rightarrow> 'a redq_scheme \<times> sbuf \<Rightarrow>
       (('a redq_scheme \<times> sbuf) \<times> qeffect list) res" where
  "REDPFCQueue_handleMessage cfg bm pck st =
     rbind (bm pck (fst st) (snd st)) (\<lambda>(ok, s, sb).
       if ok then (let (s', es) = REDPFCQueue_pushPacket cfg pck s sb in Inr ((s', sb), es))
       else Inr ((s, sb), [Dropped (p_id pck)]))"

definition REDPFCQueue_doRandomEarlyDetection ::
    "red_cfg \<Rightarrow> double \<Rightarrow> 'a redq_scheme \<Rightarrow> red_result \<times> 'a redq_scheme" where
  "REDPFCQueue_doRandomEarlyDetection cfg rnd s =
     (let queueLength = byteLength (queue s) in
      if Kmin cfg \<le> queueLength \<and> queueLength < Kmax cfg then
        (let s1 = s\<lparr>redCount := redCount s + 1\<rparr>;
             pb = Pmax cfg * of_int (queueLength - Kmin cfg) / of_int (Kmax cfg - Kmin cfg) in
         if rnd < pb then (RANDOMLY_ABOVE_LIMIT, s1\<lparr>redCount := 0\<rparr>)
         else (RANDOMLY_BELOW_LIMIT, s1))
      else if queueLength \<ge> Kmax cfg then (ABOVE_MAX_LIMIT, s\<lparr>redCount := 0\<rparr>)
      else (BELOW_MIN_LIMIT, s\<lparr>redCount := -1\<rparr>))"

text \<open>The marking block of \<open>pullPacket\<close>, shared with the packet-conserving subclass.\<close>

definition REDPFCQueue_markEcn :: "packet \<Rightarrow> 'a redq_scheme \<Rightarrow> packet \<times> 'a redq_scheme" where
  "REDPFCQueue_markEcn pck s =
     (let ecn = getEcn pck in
      if ecn \<noteq> NotECT then
        (if markNext s \<and> ecn \<noteq> CE
         then (setEcn CE pck, s\<lparr>ecncount := ecncount s + 1, markNext := False\<rparr>)
         else if ecn = CE then (pck, s\<lparr>markNext := True\<rparr>)
         else (setEcn CE pck, s\<lparr>ecncount := ecncount s + 1\<rparr>))
      else (pck, s))"

text \<open>Returning buffer to the pool when the head packet leaves.\<close>

definition REDPFCQueue_credit :: "int \<Rightarrow> packet \<Rightarrow> packet list \<Rightarrow> int" where
  "REDPFCQueue_credit cap pck q =
     (if bitLength q - cap \<ge> p_bits pck then p_bits pck
      else if bitLength q \<ge> cap then bitLength q - cap
      else 0)"

definition REDPFCQueue_pullPacket ::
    "red_cfg \<Rightarrow> double \<Rightarrow> 'a redq_scheme \<times> sbuf \<Rightarrow>
       (packet \<times> ('a redq_scheme \<times> sbuf) \<times> qeffect list) res" where
  "REDPFCQueue_pullPacket cfg rnd st =
     (case queue (fst st) of
        [] \<Rightarrow> Inl NullPointer
      | pck # rest \<Rightarrow>
          let s = fst st;
              sb = (snd st)(switchid cfg := snd st (switchid cfg) + REDPFCQueue_credit (dataCapacity cfg) pck (queue s));
              (res, s2) = REDPFCQueue_doRandomEarlyDetection cfg rnd (s\<lparr>queue := rest\<rparr>);
              s3 = s2\<lparr>lastResult := res\<rparr>;
              (pck', s4) =
                (if (res = RANDOMLY_ABOVE_LIMIT \<or> res = ABOVE_MAX_LIMIT) \<and> useEcn cfg
                 then REDPFCQueue_markEcn pck s3 else (pck, s3));
              (s5, resumeEff) =
                (if usePfc cfg \<and> byteLength (queue s4) \<le> XON cfg \<and>
                    (bitLength (queue s4) < dataCapacity cfg \<or> sb (switchid cfg) > headroom cfg)
                 then (s4\<lparr>paused := []\<rparr>, map (PfcResume (priority cfg)) (paused s4))
                 else (s4, []))
          in Inr (pck', (s5, sb), [Pulled (p_id pck)] @ resumeEff))"

definition REDPFCQueue_removePacket :: "nat \<Rightarrow> 'a redq_scheme \<Rightarrow> 'a redq_scheme \<times> qeffect list" where
  "REDPFCQueue_removePacket i s = (s\<lparr>queue := remove_ptr i (queue s)\<rparr>, [Removed i])"

definition REDPFCQueue_removeAllPackets :: "'a redq_scheme \<Rightarrow> 'a redq_scheme \<times> qeffect list" where
  "REDPFCQueue_removeAllPackets s =
     (let (q, packets) = pop_loop 0 (queue s) [] in (s\<lparr>queue := q\<rparr>, map (\<lambda>p. Removed (p_id p)) packets))"

definition REDPFCQueue_canPushSomePacket :: "red_cfg \<Rightarrow> 'a redq_scheme \<Rightarrow> bool" where
  "REDPFCQueue_canPushSomePacket cfg s \<longleftrightarrow>
     (if hasDropper cfg then True
      else if packetCapacity cfg \<noteq> -1 \<and> REDPFCQueue_getNumPackets s \<ge> packetCapacity cfg then False
      else if dataCapacity cfg \<noteq> -1 \<and> REDPFCQueue_getTotalLength s \<ge> dataCapacity cfg then False
      else True)"

definition REDPFCQueue_canPushPacket :: "red_cfg \<Rightarrow> packet \<Rightarrow> 'a redq_scheme \<Rightarrow> bool" where
  "REDPFCQueue_canPushPacket cfg pck s \<longleftrightarrow>
     (if hasDropper cfg then True
      else if packetCapacity cfg \<noteq> -1 \<and> REDPFCQueue_getNumPackets s \<ge> packetCapacity cfg then False
      else if dataCapacity cfg \<noteq> -1 \<and> dataCapacity cfg - REDPFCQueue_getTotalLength s < p_bits pck then False
      else True)"

definition REDPFCQueue_canPullSomePacket :: "'a redq_scheme \<Rightarrow> bool" where
  "REDPFCQueue_canPullSomePacket s \<longleftrightarrow> REDPFCQueue_getNumPackets s \<noteq> 0"

definition REDPFCQueue_handlePacketRemoved :: "nat \<Rightarrow> 'a redq_scheme \<Rightarrow> 'a redq_scheme \<times> qeffect list" where
  "REDPFCQueue_handlePacketRemoved i s =
     (if i \<in> p_id ` set (queue s) then REDPFCQueue_removePacket i s else (s, []))"

text \<open>One event of the queue's life: a packet arrives, or the scheduler pulls one.\<close>

datatype qop = Arrive int packet | Pull double

fun REDPFCQueue_step :: "red_cfg \<Rightarrow> qop \<Rightarrow> redq \<times> sbuf \<Rightarrow> ((redq \<times> sbuf) \<times> qeffect list) res" where
  "REDPFCQueue_step cfg (Arrive wrr pck) st =
     REDPFCQueue_handleMessage cfg (REDPFCQueue_BufferManagement cfg wrr) pck st"
| "REDPFCQueue_step cfg (Pull rnd) st =
     rbind (REDPFCQueue_pullPacket cfg rnd st) (\<lambda>(p, st', es). Inr (st', es))"


lemmas red_defs [hina_defs] =
  REDPFCQueue_handleMessage_def REDPFCQueue_pullPacket_def REDPFCQueue_pushPacket_def
  REDPFCQueue_getNumPackets_def REDPFCQueue_getTotalLength_def

subsection \<open>One arrival, one pull\<close>

lemma mustPause_queue_cong:
  "queue t = queue s \<Longrightarrow> paused t = paused s \<Longrightarrow>
     REDPFCQueue_mustPause cfg t sb i = REDPFCQueue_mustPause cfg s sb i"
  by (simp add: REDPFCQueue_mustPause_def)

lemma push_queue:
  "REDPFCQueue_pushPacket cfg p s sb = (s', es) \<Longrightarrow> queue s' = insertPacket cfg p (queue s)"
  by (auto simp: REDPFCQueue_pushPacket_def Let_def split: if_splits)

text \<open>Admission changes neither the queue nor what is paused; the verdict decides whether the packet is pushed.\<close>

lemma BufferManagement_frame:
  "REDPFCQueue_BufferManagement cfg wrr p s sb = Inr (ok, s', sb') \<Longrightarrow>
     queue s' = queue s \<and> paused s' = paused s \<and> markNext s' = markNext s"
  by (auto simp: REDPFCQueue_BufferManagement_def Let_def rbind_eq_Inr split: if_splits)

text \<open>What the pool of the switch is charged for an arrival that was let in or turned away.\<close>

definition red_charge :: "red_cfg \<Rightarrow> packet \<Rightarrow> 'a redq_scheme \<Rightarrow> bool \<Rightarrow> int" where
  "red_charge cfg p s ok = (if ok \<and> REDPFCQueue_isOverloaded cfg s then p_bits p else 0)"

lemma BufferManagement_charge:
  "REDPFCQueue_BufferManagement cfg wrr p s sb = Inr (ok, s', sb') \<Longrightarrow>
     sb' = sb(switchid cfg := sb (switchid cfg) - red_charge cfg p s ok)"
  by (auto simp: REDPFCQueue_BufferManagement_def Let_def rbind_eq_Inr red_charge_def
      split: if_splits)

text \<open>The effects of an arrival in one equation: pushed or dropped.\<close>

lemma handleMessage_Inr:
  assumes "REDPFCQueue_handleMessage cfg bm p (s, sb) = Inr ((s', sb'), es)"
  obtains (admitted) t where "bm p s sb = Inr (True, t, sb')"
      and "REDPFCQueue_pushPacket cfg p t sb' = (s', es)"
    | (dropped) "bm p s sb = Inr (False, s', sb')" and "es = [Dropped (p_id p)]"
proof -
  obtain ok t sb1 where bm: "bm p s sb = Inr (ok, t, sb1)"
    using assms by (auto simp: REDPFCQueue_handleMessage_def rbind_eq_Inr)
  then have rest: "(if ok then (let (u, es) = REDPFCQueue_pushPacket cfg p t sb1 in Inr ((u, sb1), es))
           else Inr ((t, sb1), [Dropped (p_id p)])) = Inr ((s', sb'), es)"
    using assms by (simp add: REDPFCQueue_handleMessage_def Let_def split: if_splits prod.splits)
  show thesis
  proof (cases ok)
    case True
    with rest have "sb1 = sb'" "REDPFCQueue_pushPacket cfg p t sb' = (s', es)"
      by (auto simp: Let_def split: prod.splits)
    with bm True show thesis by (intro admitted) auto
  next
    case False
    with rest bm show thesis by (intro dropped) auto
  qed
qed

lemma red_frame [simp]:
  "queue (snd (REDPFCQueue_doRandomEarlyDetection cfg r s)) = queue s"
  "paused (snd (REDPFCQueue_doRandomEarlyDetection cfg r s)) = paused s"
  "markNext (snd (REDPFCQueue_doRandomEarlyDetection cfg r s)) = markNext s"
  by (auto simp: REDPFCQueue_doRandomEarlyDetection_def Let_def)

lemma mark_frame:
  "REDPFCQueue_markEcn p s = (q, t) \<Longrightarrow>
     queue t = queue s \<and> paused t = paused s \<and> p_id q = p_id p \<and> p_len q = p_len p"
  by (auto simp: REDPFCQueue_markEcn_def Let_def split: if_splits)

definition red_resumes :: "red_cfg \<Rightarrow> packet list \<Rightarrow> sbuf \<Rightarrow> bool" where
  "red_resumes cfg q sb \<longleftrightarrow>
     usePfc cfg \<and> byteLength q \<le> XON cfg \<and>
     (bitLength q < dataCapacity cfg \<or> sb (switchid cfg) > headroom cfg)"

text \<open>A pull, with the parts that only concern the mark left to \<open>p'\<close>.\<close>

lemma pull_Inr:
  assumes "REDPFCQueue_pullPacket cfg r (s, sb) = Inr (p', (s', sb'), es)"
  obtains p rest where "queue s = p # rest" and "queue s' = rest"
    and "sb' = sb(switchid cfg := sb (switchid cfg) + REDPFCQueue_credit (dataCapacity cfg) p (queue s))"
    and "p_id p' = p_id p" and "p_len p' = p_len p"
    and "paused s' = (if red_resumes cfg rest sb' then [] else paused s)"
    and "es = Pulled (p_id p) # (if red_resumes cfg rest sb' then map (PfcResume (priority cfg)) (paused s) else [])"
proof (cases "queue s")
  case Nil
  with assms show thesis by (simp add: REDPFCQueue_pullPacket_def)
next
  case (Cons p rest)
  obtain res s2 where red: "REDPFCQueue_doRandomEarlyDetection cfg r (s\<lparr>queue := rest\<rparr>) = (res, s2)"
    by fastforce
  then have s2: "queue s2 = rest" "paused s2 = paused s"
    using red_frame[of cfg r "s\<lparr>queue := rest\<rparr>"] by auto
  obtain q s4 where mark: "(if (res = RANDOMLY_ABOVE_LIMIT \<or> res = ABOVE_MAX_LIMIT) \<and> useEcn cfg
       then REDPFCQueue_markEcn p (s2\<lparr>lastResult := res\<rparr>) else (p, s2\<lparr>lastResult := res\<rparr>)) = (q, s4)"
    by fastforce
  then have s4: "queue s4 = rest" "paused s4 = paused s" "p_id q = p_id p" "p_len q = p_len p"
    using s2 by (auto split: if_splits dest: mark_frame)
  from Cons red mark s4 assms show thesis
    by (intro that[of p rest]) (auto simp: REDPFCQueue_pullPacket_def Let_def red_resumes_def split: if_splits)
qed

lemma pull_ok: "is_ok (REDPFCQueue_pullPacket cfg r (s, sb)) \<longleftrightarrow> queue s \<noteq> []"
  by (cases "queue s") (auto simp: REDPFCQueue_pullPacket_def Let_def split: prod.splits)


subsection \<open>The account of the shared buffer\<close>

text \<open>
  What the switch has in its pool plus what this queue holds beyond its reserved capacity.  A
  pull leaves the account as it is; an admission that was charged leaves it as it is; an
  admission below the capacity that crosses it adds the part beyond the capacity, which nobody
  paid for.
\<close>

definition red_excess :: "red_cfg \<Rightarrow> packet list \<Rightarrow> int" where
  "red_excess cfg q = max 0 (bitLength q - dataCapacity cfg)"

definition red_account :: "red_cfg \<Rightarrow> 'a redq_scheme \<times> sbuf \<Rightarrow> int" where
  "red_account cfg st = snd st (switchid cfg) + red_excess cfg (queue (fst st))"

definition red_pool_cfg :: "red_cfg \<Rightarrow> bool" where
  "red_pool_cfg cfg \<longleftrightarrow> inserts (insertPacket cfg) \<and> 0 \<le> dataCapacity cfg \<and> packetCapacity cfg = -1"

lemma overloaded_pool:
  "red_pool_cfg cfg \<Longrightarrow> REDPFCQueue_isOverloaded cfg s \<longleftrightarrow> bitLength (queue s) > dataCapacity cfg"
  by (auto simp: red_pool_cfg_def REDPFCQueue_isOverloaded_def REDPFCQueue_getTotalLength_def)

lemma credit_excess:
  "0 \<le> cap \<Longrightarrow> queue s = p # rest \<Longrightarrow>
     REDPFCQueue_credit cap p (queue s) + max 0 (bitLength rest - cap) = max 0 (bitLength (queue s) - cap)"
  by (auto simp: REDPFCQueue_credit_def max_def)

lemma pull_account:
  assumes "red_pool_cfg cfg" and "REDPFCQueue_pullPacket cfg r (s, sb) = Inr (p', (s', sb'), es)"
  shows "red_account cfg (s', sb') = red_account cfg (s, sb)"
  using assms(2)
proof (rule pull_Inr)
  fix p rest
  assume q: "queue s = p # rest" "queue s' = rest"
    and sb': "sb' = sb(switchid cfg := sb (switchid cfg) + REDPFCQueue_credit (dataCapacity cfg) p (queue s))"
  have "0 \<le> dataCapacity cfg" using assms(1) by (simp add: red_pool_cfg_def)
  with q(1) have "REDPFCQueue_credit (dataCapacity cfg) p (queue s) + max 0 (bitLength rest - dataCapacity cfg)
      = max 0 (bitLength (queue s) - dataCapacity cfg)"
    by (intro credit_excess)
  with q sb' show ?thesis by (simp add: red_account_def red_excess_def)
qed

definition red_overshoot :: "red_cfg \<Rightarrow> packet \<Rightarrow> 'a redq_scheme \<Rightarrow> int" where
  "red_overshoot cfg p s =
     (if bitLength (queue s) \<le> dataCapacity cfg then max 0 (bitLength (queue s) + p_bits p - dataCapacity cfg) else 0)"

lemma arrival_account:
  assumes cfg: "red_pool_cfg cfg"
    and step: "REDPFCQueue_handleMessage cfg (REDPFCQueue_BufferManagement cfg wrr) p (s, sb) = Inr ((s', sb'), es)"
  shows "red_account cfg (s', sb') =
    red_account cfg (s, sb) + (if es = [Dropped (p_id p)] then 0 else red_overshoot cfg p s)"
  using step
proof (cases rule: handleMessage_Inr)
  case (admitted t)
  have q: "queue s' = insertPacket cfg p (queue s)"
    using push_queue[OF admitted(2)] BufferManagement_frame[OF admitted(1)] by simp
  have len: "bitLength (queue s') = bitLength (queue s) + p_bits p"
    using cfg by (simp add: q inserts_bitLength red_pool_cfg_def)
  have "es \<noteq> [Dropped (p_id p)]"
    using admitted(2) by (auto simp: REDPFCQueue_pushPacket_def Let_def split: if_splits)
  with len BufferManagement_charge[OF admitted(1)] cfg show ?thesis
    by (auto simp: red_account_def red_excess_def red_overshoot_def red_charge_def overloaded_pool max_def)
next
  case dropped
  with BufferManagement_frame[OF dropped(1)] BufferManagement_charge[OF dropped(1)] show ?thesis
    by (simp add: red_account_def red_charge_def)
qed

fun red_delta :: "red_cfg \<Rightarrow> qop \<Rightarrow> redq \<times> sbuf \<Rightarrow> int" where
  "red_delta cfg (Arrive wrr p) st =
     (case REDPFCQueue_step cfg (Arrive wrr p) st of
        Inl _ \<Rightarrow> 0
      | Inr (_, es) \<Rightarrow> if es = [Dropped (p_id p)] then 0 else red_overshoot cfg p (fst st))"
| "red_delta cfg (Pull r) st = 0"

lemma overshoot_nonneg: "0 \<le> red_overshoot cfg p s"
  by (simp add: red_overshoot_def)

interpretation red_pool: accounted_machine
    "REDPFCQueue_step cfg" "\<lambda>_. True" "\<lambda>_. red_pool_cfg cfg" "red_account cfg" "red_delta cfg" for cfg
proof (unfold_locales, goal_cases)
  case 1
  show ?case by simp
next
  case (2 st x st' es)
  then show ?case
    by (cases st; cases st'; cases x)
      (auto simp: rbind_eq_Inr pull_account arrival_account split: if_splits)
next
  case (3 st x st' es)
  then show ?case
    by (cases x) (auto simp: overshoot_nonneg split: sum.splits)
qed

subsection \<open>The pause protocol\<close>

text \<open>The pauses (\<open>True\<close>) and resumes (\<open>False\<close>) sent to one interface, in order.\<close>

fun pfc_log :: "int \<Rightarrow> qeffect list \<Rightarrow> bool list" where
  "pfc_log i [] = []"
| "pfc_log i (PfcPause pr j # es) = (if j = i then True # pfc_log i es else pfc_log i es)"
| "pfc_log i (PfcResume pr j # es) = (if j = i then False # pfc_log i es else pfc_log i es)"
| "pfc_log i (_ # es) = pfc_log i es"

lemma pfc_log_append: "pfc_log i (es @ fs) = pfc_log i es @ pfc_log i fs"
  by (induction i es rule: pfc_log.induct) auto

lemma pfc_log_resumes:
  "distinct js \<Longrightarrow> pfc_log i (map (PfcResume pr) js) = (if i \<in> set js then [False] else [])"
  by (induction js) auto

lemma push_pfc:
  assumes "REDPFCQueue_pushPacket cfg p s sb = (s', es)" and "distinct (paused s)"
  shows "distinct (paused s') \<and> alternates (i \<in> set (paused s)) (pfc_log i es) (i \<in> set (paused s'))"
  using assms
  by (auto simp: REDPFCQueue_pushPacket_def REDPFCQueue_mustPause_def Let_def split: if_splits)

lemma arrival_pfc:
  assumes "REDPFCQueue_handleMessage cfg (REDPFCQueue_BufferManagement cfg wrr) p (s, sb) = Inr ((s', sb'), es)"
    and "distinct (paused s)"
  shows "distinct (paused s') \<and> alternates (i \<in> set (paused s)) (pfc_log i es) (i \<in> set (paused s'))"
  using assms(1)
proof (cases rule: handleMessage_Inr)
  case (admitted t)
  with BufferManagement_frame[OF admitted(1)] assms(2) show ?thesis
    using push_pfc[OF admitted(2)] by simp
next
  case dropped
  with BufferManagement_frame[OF dropped(1)] assms(2) show ?thesis by simp
qed

lemma pull_pfc:
  assumes "REDPFCQueue_pullPacket cfg r (s, sb) = Inr (p', (s', sb'), es)" and "distinct (paused s)"
  shows "distinct (paused s') \<and> alternates (i \<in> set (paused s)) (pfc_log i es) (i \<in> set (paused s'))"
  using assms(1)
  by (rule pull_Inr) (use assms(2) in \<open>auto simp: pfc_log_resumes\<close>)

lemma step_pfc:
  assumes "REDPFCQueue_step cfg x (s, sb) = Inr ((s', sb'), es)" and "distinct (paused s)"
  shows "distinct (paused s') \<and> alternates (i \<in> set (paused s)) (pfc_log i es) (i \<in> set (paused s'))"
  using assms by (cases x) (auto simp: rbind_eq_Inr arrival_pfc pull_pfc)

interpretation red_pause: signalled_machine
    "REDPFCQueue_step cfg" "\<lambda>st. distinct (paused (fst st))" "\<lambda>_. True"
    "pfc_log i" "\<lambda>st. i \<in> set (paused (fst st))" for cfg i
proof (unfold_locales, goal_cases)
  case (1 st x st' es)
  then show ?case using step_pfc by (cases st; cases st') auto
next
  case 2
  show ?case by simp
next
  case (3 es fs)
  show ?case by (rule pfc_log_append)
next
  case (4 st x st' es)
  then show ?case using step_pfc by (cases st; cases st') auto
qed

subsection \<open>Order of service\<close>

text \<open>The identities of the packets that entered and that left, read off the effects.\<close>

fun entered :: "qeffect list \<Rightarrow> nat list" where
  "entered [] = []"
| "entered (PushStarted i # es) = i # entered es"
| "entered (_ # es) = entered es"

fun departed :: "qeffect list \<Rightarrow> nat list" where
  "departed [] = []"
| "departed (Pulled i # es) = i # departed es"
| "departed (_ # es) = departed es"

lemma entered_append: "entered (es @ fs) = entered es @ entered fs"
  by (induction es rule: entered.induct) auto

lemma departed_append: "departed (es @ fs) = departed es @ departed fs"
  by (induction es rule: departed.induct) auto

lemma resumes_silent [simp]:
  "entered (map (PfcResume pr) js) = []" "departed (map (PfcResume pr) js) = []"
  by (induction js) auto

lemma step_fifo:
  assumes "insertPacket cfg = fifo_insert" and "REDPFCQueue_step cfg x (s, sb) = Inr ((s', sb'), es)"
  shows "map p_id (queue s) @ entered es = departed es @ map p_id (queue s')"
proof (cases x)
  case (Arrive wrr p)
  with assms(2) have h: "REDPFCQueue_handleMessage cfg (REDPFCQueue_BufferManagement cfg wrr) p (s, sb)
      = Inr ((s', sb'), es)" by simp
  then show ?thesis
  proof (cases rule: handleMessage_Inr)
    case (admitted t)
    with BufferManagement_frame[OF admitted(1)] push_queue[OF admitted(2)] assms(1) show ?thesis
      by (auto simp: REDPFCQueue_pushPacket_def fifo_insert_def Let_def split: if_splits)
  next
    case dropped
    with BufferManagement_frame[OF dropped(1)] show ?thesis by simp
  qed
next
  case (Pull r)
  with assms(2) obtain p' where "REDPFCQueue_pullPacket cfg r (s, sb) = Inr (p', (s', sb'), es)"
    by (auto simp: rbind_eq_Inr)
  then show ?thesis by (rule pull_Inr) (auto split: if_splits)
qed

lemma arrival_not_overloaded:
  assumes "S_drop cfg \<le> 0" and "\<not> REDPFCQueue_isOverloaded cfg s"
  shows "REDPFCQueue_handleMessage cfg (REDPFCQueue_BufferManagement cfg wrr) p (s, sb) =
     (let (s', es) = REDPFCQueue_pushPacket cfg p s sb in Inr ((s', sb), es))"
  using assms by (simp add: REDPFCQueue_handleMessage_def REDPFCQueue_BufferManagement_def Let_def)

text \<open>A configuration used to evaluate the properties: one queue of switch 3 with 1000 bits reserved.\<close>

definition sample_red :: red_cfg where
  "sample_red = \<lparr>packetCapacity = -1, dataCapacity = 1000, headroom = 1, alpha = 1, usePfc = True,
     XON = 50, XOFF = 100, priority = 2, Kmax = 50, Kmin = 20, Pmax = 1, useEcn = True, S_drop = 0,
     switchid = 3, hasDropper = True, hasCollector = True, insertPacket = fifo_insert\<rparr>"

definition sample_pkt :: "nat \<Rightarrow> nat \<Rightarrow> packet" where
  "sample_pkt i n = \<lparr>p_id = i, p_name = ''DcqcnData-1'', p_len = n, p_iface = 7, p_ecn = Some ECT0,
     p_tags = [], p_bfc = None, p_ispause = None\<rparr>"

definition sample_redq :: redq where
  "sample_redq = \<lparr>queue = [], paused = [], markNext = False, redCount = -1, ecncount = 0, maxSize = 0,
     lastResult = BELOW_MIN_LIMIT\<rparr>"

lemma sample_red_pool: "red_pool_cfg sample_red"
  by (simp add: red_pool_cfg_def sample_red_def inserts_fifo)

lemmas red_eval = sample_red_def sample_redq_def sample_pkt_def REDPFCQueue_handleMessage_def
  REDPFCQueue_BufferManagement_def REDPFCQueue_isOverloaded_def REDPFCQueue_getNumPackets_def
  REDPFCQueue_getTotalLength_def REDPFCQueue_pushPacket_def REDPFCQueue_mustPause_def
  REDPFCQueue_pullPacket_def REDPFCQueue_credit_def REDPFCQueue_doRandomEarlyDetection_def
  REDPFCQueue_markEcn_def getEcn_def setEcn_def byteLength_def bytes_of_def fifo_insert_def Let_def

subsection \<open>Properties\<close>

text \<open>C9: Along any run of arrivals and pulls of a queue with a byte capacity and no packet-count
  capacity, the pool of the switch plus what the queue holds beyond its reserved capacity never
  decreases: every bit charged on admission comes back on dequeue.\<close>

theorem red_pool_account:
  assumes "red_pool_cfg cfg" and "run_out (REDPFCQueue_step cfg) ops st = Inr (st', es)"
  shows "red_account cfg st \<le> red_account cfg st'"
  using red_pool.account_run[where cfg = cfg and xs = ops and s = st and s' = st' and es = es] assms by simp

theorem red_pool_account_witness:
  "red_account sample_red (sample_redq, \<lambda>_. 500) = 500 \<and>
   (\<exists>st' es. run_out (REDPFCQueue_step sample_red) [Arrive 0 (sample_pkt 1 600), Pull 0] (sample_redq, \<lambda>_. 500)
      = Inr (st', es) \<and> 500 \<le> red_account sample_red st')"
proof -
  have a: "red_account sample_red (sample_redq, \<lambda>_. 500) = 500"
    by (simp add: red_account_def red_excess_def sample_red_def sample_redq_def)
  obtain st' es where r: "run_out (REDPFCQueue_step sample_red) [Arrive 0 (sample_pkt 1 600), Pull 0]
      (sample_redq, \<lambda>_. 500) = Inr (st', es)"
    by (simp add: red_eval)
  from red_pool_account[OF sample_red_pool r] a r show ?thesis by auto
qed

text \<open>The account is not conserved.  Two packets that fit below and then cross the reserved
  capacity are both admitted for free; when they have left, the pool of the switch has grown by
  the part that was beyond the capacity.\<close>

theorem red_pool_leak:
  assumes cfg: "red_pool_cfg cfg" "S_drop cfg \<le> 0" and empty: "queue s = []"
    and a: "p_bits a \<le> dataCapacity cfg" and ab: "dataCapacity cfg < p_bits a + p_bits b"
  shows "\<exists>s' sb' es. run_out (REDPFCQueue_step cfg) [Arrive wrr a, Arrive wrr b, Pull r1, Pull r2] (s, sb)
      = Inr ((s', sb'), es) \<and> queue s' = [] \<and>
      sb' (switchid cfg) = sb (switchid cfg) + (p_bits a + p_bits b - dataCapacity cfg)"
proof -
  have ins: "inserts (insertPacket cfg)" and cap: "0 \<le> dataCapacity cfg"
    using cfg by (auto simp: red_pool_cfg_def)
  obtain s1 e1 where p1: "REDPFCQueue_pushPacket cfg a s sb = (s1, e1)" by fastforce
  have q1: "queue s1 = insertPacket cfg a []" using push_queue[OF p1] empty by simp
  then have l1: "bitLength (queue s1) = p_bits a" "length (queue s1) = 1"
    using ins by (simp_all add: inserts_bitLength inserts_length)
  obtain s2 e2 where p2: "REDPFCQueue_pushPacket cfg b s1 sb = (s2, e2)" by fastforce
  have q2: "queue s2 = insertPacket cfg b (queue s1)" using push_queue[OF p2] by simp
  then have l2: "bitLength (queue s2) = p_bits a + p_bits b" "length (queue s2) = 2"
    using ins l1 by (simp_all add: inserts_bitLength inserts_length)
  obtain p3 s3 sb3 e3 where p3: "REDPFCQueue_pullPacket cfg r1 (s2, sb) = Inr (p3, (s3, sb3), e3)"
    using pull_ok[of cfg r1 s2 sb] l2(2) by (auto simp: is_ok_iff)
  then have l3: "length (queue s3) = 1"
    by (rule pull_Inr) (use l2 in auto)
  obtain p4 s4 sb4 e4 where p4: "REDPFCQueue_pullPacket cfg r2 (s3, sb3) = Inr (p4, (s4, sb4), e4)"
    using pull_ok[of cfg r2 s3 sb3] l3 by (auto simp: is_ok_iff)
  then have q4: "queue s4 = []" by (rule pull_Inr) (use l3 in auto)
  have acc: "red_account cfg (s4, sb4) = red_account cfg (s2, sb)"
    using pull_account[OF cfg(1) p3] pull_account[OF cfg(1) p4] by simp
  have "run_out (REDPFCQueue_step cfg) [Arrive wrr a, Arrive wrr b, Pull r1, Pull r2] (s, sb)
      = Inr ((s4, sb4), e1 @ e2 @ e3 @ e4)"
    using p1 p2 p3 p4 cfg l1 a empty cap by (simp add: arrival_not_overloaded overloaded_pool)
  moreover have "sb4 (switchid cfg) = sb (switchid cfg) + (p_bits a + p_bits b - dataCapacity cfg)"
    using acc q4 l2 ab cap by (simp add: red_account_def red_excess_def)
  ultimately show ?thesis using q4 by blast
qed

theorem red_pool_leak_witness:
  "\<exists>s' sb' es. run_out (REDPFCQueue_step sample_red)
       [Arrive 0 (sample_pkt 1 900), Arrive 0 (sample_pkt 2 900), Pull 0, Pull 0] (sample_redq, \<lambda>_. 500)
      = Inr ((s', sb'), es) \<and> queue s' = [] \<and> sb' 3 = 1300"
  using red_pool_leak[OF sample_red_pool, of sample_redq "sample_pkt 1 900" "sample_pkt 2 900" 0 0 0 "\<lambda>_. 500"]
  by (simp add: sample_red_def sample_redq_def sample_pkt_def)


text \<open>C5: With a FIFO store the queue refines a first-in first-out channel: what was waiting
  followed by what was admitted is what left followed by what still waits, and dropped packets
  appear on neither side.\<close>

theorem red_fifo_refinement:
  assumes "insertPacket cfg = fifo_insert" and "run_out (REDPFCQueue_step cfg) ops (s, sb) = Inr ((s', sb'), es)"
  shows "map p_id (queue s) @ entered es = departed es @ map p_id (queue s')"
  using assms(2)
proof (induction ops arbitrary: s sb es)
  case Nil
  then show ?case by simp
next
  case (Cons x xs)
  from Cons.prems obtain s1 sb1 es1 es2 where
    s1: "REDPFCQueue_step cfg x (s, sb) = Inr ((s1, sb1), es1)"
    and r: "run_out (REDPFCQueue_step cfg) xs (s1, sb1) = Inr ((s', sb'), es2)" and es: "es = es1 @ es2"
    by (auto simp: run_out_Cons_Inr simp del: run_out.simps REDPFCQueue_step.simps)
  have "map p_id (queue s) @ entered es = (map p_id (queue s) @ entered es1) @ entered es2"
    by (simp add: es entered_append)
  also have "\<dots> = departed es1 @ (map p_id (queue s1) @ entered es2)"
    using step_fifo[OF assms(1) s1] by simp
  also have "\<dots> = departed es @ map p_id (queue s')"
    using Cons.IH[OF r] by (simp add: es departed_append)
  finally show ?case .
qed

theorem red_fifo_refinement_witness:
  "\<exists>s' sb' es. run_out (REDPFCQueue_step sample_red)
       [Arrive 0 (sample_pkt 1 600), Arrive 0 (sample_pkt 2 800), Pull 0] (sample_redq, \<lambda>_. 500)
      = Inr ((s', sb'), es) \<and> entered es = departed es @ map p_id (queue s') \<and> departed es = [1]"
proof -
  have ins: "insertPacket sample_red = fifo_insert" by (simp add: sample_red_def)
  obtain s' sb' es where r: "run_out (REDPFCQueue_step sample_red)
       [Arrive 0 (sample_pkt 1 600), Arrive 0 (sample_pkt 2 800), Pull 0] (sample_redq, \<lambda>_. 500)
      = Inr ((s', sb'), es)" and d: "departed es = [1]"
    by (simp add: red_eval)
  from red_fifo_refinement[OF ins r] r d show ?thesis by (auto simp: sample_redq_def)
qed

text \<open>C37: From initialisation on, the pause and resume frames a queue asks for on behalf of one
  interface strictly alternate and start with a pause; the interface is in \<open>paused\<close> exactly while
  its last frame is a pause.  No interface is paused twice, and every pause is resumed at most once.\<close>

theorem red_pfc_alternates:
  assumes "REDPFCQueue_initialize cfg par sb0 = Inr (s, sb)"
    and "run_out (REDPFCQueue_step cfg) ops (s, sb) = Inr ((s', sb'), es)"
  shows "alternates False (pfc_log i es) (i \<in> set (paused s'))"
proof -
  have "paused s = []" using assms(1) by (auto simp: REDPFCQueue_initialize_def split: if_splits)
  with red_pause.signal_run[OF _ _ assms(2), of i] show ?thesis by simp
qed

theorem red_pfc_alternates_witness:
  "\<exists>s sb s' sb' es. REDPFCQueue_initialize sample_red 500 (\<lambda>_. 0) = Inr (s, sb) \<and>
     run_out (REDPFCQueue_step sample_red) [Arrive 0 (sample_pkt 1 900), Pull 0] (s, sb) = Inr ((s', sb'), es) \<and>
     pfc_log 7 es = [True, False] \<and> alternates False (pfc_log 7 es) (7 \<in> set (paused s'))"
proof -
  obtain s sb where i: "REDPFCQueue_initialize sample_red 500 (\<lambda>_. 0) = Inr (s, sb)"
    and s: "s = sample_redq" "sb = (\<lambda>_. 0)(3 := 500)"
    by (simp add: REDPFCQueue_initialize_def sample_red_def sample_redq_def)
  obtain s' sb' es where r: "run_out (REDPFCQueue_step sample_red)
      [Arrive 0 (sample_pkt 1 900), Pull 0] (s, sb) = Inr ((s', sb'), es)" and l: "pfc_log 7 es = [True, False]"
    unfolding s by (simp add: red_eval)
  from red_pfc_alternates[OF i r, of 7] i r l show ?thesis by blast
qed

text \<open>A lossless queue at or above \<open>XOFF\<close> never leaves a contributing interface unpaused: after
  every push that brings the queue to \<open>XOFF\<close> bytes or more, the interface the packet came from is
  paused.\<close>

theorem red_push_xoff_paused:
  assumes "usePfc cfg" and "REDPFCQueue_pushPacket cfg p s sb = (s', es)"
    and "XOFF cfg \<le> byteLength (queue s')"
  shows "p_iface p \<in> set (paused s')"
  using assms
  by (auto simp: REDPFCQueue_pushPacket_def REDPFCQueue_mustPause_def Let_def split: if_splits)

theorem red_push_xoff_paused_witness:
  "\<exists>s' es. REDPFCQueue_pushPacket sample_red (sample_pkt 1 900) sample_redq (\<lambda>_. 500) = (s', es) \<and>
     7 \<in> set (paused s')"
proof -
  obtain s' es where p: "REDPFCQueue_pushPacket sample_red (sample_pkt 1 900) sample_redq (\<lambda>_. 500) = (s', es)"
    by fastforce
  have "usePfc sample_red" "XOFF sample_red \<le> byteLength (queue s')"
    using push_queue[OF p] by (simp_all add: red_eval)
  from red_push_xoff_paused[OF this(1) p this(2)] p show ?thesis
    by (auto simp: sample_pkt_def)
qed

text \<open>Admission never overdraws the pool: with a threshold factor of at most one, a packet that
  is let into a queue beyond its reserved capacity leaves the pool of the switch non-negative.\<close>

theorem red_pool_nonneg:
  assumes cfg: "red_pool_cfg cfg" and al: "0 \<le> alpha cfg" "alpha cfg \<le> 1"
    and pool: "0 \<le> sb (switchid cfg)" and small: "bitLength (queue s) + p_bits p < 2 ^ 63"
    and step: "REDPFCQueue_handleMessage cfg (REDPFCQueue_BufferManagement cfg wrr) p (s, sb) = Inr ((s', sb'), es)"
  shows "0 \<le> sb' (switchid cfg)"
  using step
proof (cases rule: handleMessage_Inr)
  case dropped
  with BufferManagement_charge[OF dropped(1)] pool show ?thesis by (simp add: red_charge_def)
next
  case (admitted t)
  show ?thesis
  proof (cases "REDPFCQueue_isOverloaded cfg s")
    case False
    with BufferManagement_charge[OF admitted(1)] pool show ?thesis by (simp add: red_charge_def)
  next
    case True
    let ?R = "sb (switchid cfg)" and ?e = "bitLength (queue s) - dataCapacity cfg + p_bits p"
    from True cfg have over: "dataCapacity cfg < bitLength (queue s)" and cap: "0 \<le> dataCapacity cfg"
      by (auto simp: overloaded_pool red_pool_cfg_def)
    from admitted(1) True obtain mx where mx: "dbl_to_u64 (alpha cfg * of_int ?R) = Inr mx"
      and fits: "\<not> gt_mixed64 ?e mx"
      by (auto simp: REDPFCQueue_BufferManagement_def Let_def rbind_eq_Inr split: if_splits)
    have "0 \<le> alpha cfg * of_int ?R" using al pool by simp
    moreover have "alpha cfg * of_int ?R < 2 ^ 64"
      using mx by (auto simp: dbl_to_u64_def split: if_splits)
    ultimately have "uint mx = \<lfloor>alpha cfg * of_int ?R\<rfloor>"
      using dbl_to_u64_uint mx by fastforce
    also have "\<dots> \<le> ?R"
    proof -
      have "alpha cfg * of_int ?R \<le> 1 * of_int ?R" using al pool by (intro mult_right_mono) auto
      then show ?thesis by (simp add: floor_le_iff)
    qed
    finally have "uint mx \<le> ?R" .
    moreover have "?e \<le> uint mx"
      using fits over cap small by (subst (asm) gt_mixed64_nonneg) auto
    ultimately have "p_bits p \<le> ?R" using over by simp
    with BufferManagement_charge[OF admitted(1)] show ?thesis by (simp add: red_charge_def)
  qed
qed

theorem red_pool_nonneg_witness:
  "\<exists>s' sb' es. REDPFCQueue_handleMessage sample_red (REDPFCQueue_BufferManagement sample_red 0) (sample_pkt 2 300)
      (sample_redq\<lparr>queue := [sample_pkt 1 1100]\<rparr>, \<lambda>_. 500) = Inr ((s', sb'), es) \<and> 0 \<le> sb' 3"
proof -
  obtain s' sb' es where r: "REDPFCQueue_handleMessage sample_red (REDPFCQueue_BufferManagement sample_red 0)
      (sample_pkt 2 300) (sample_redq\<lparr>queue := [sample_pkt 1 1100]\<rparr>, \<lambda>_. 500) = Inr ((s', sb'), es)"
    by (simp add: red_eval dbl_to_u64_def gt_mixed64_def trunc_real_def word_less_def)
  have "0 \<le> sb' (switchid sample_red)"
    by (rule red_pool_nonneg[OF sample_red_pool _ _ _ _ r]) (simp_all add: red_eval)
  with r show ?thesis by (auto simp: sample_red_def)
qed


text \<open>Marking on dequeue follows the queue left behind: an ECN-capable packet leaves with
  congestion experienced whenever \<open>Kmax\<close> or more bytes remain, and leaves unchanged when fewer
  than \<open>Kmin\<close> remain or ECN is switched off.\<close>

theorem red_pull_marks:
  assumes "queue s = p # rest" and "getEcn p \<noteq> NotECT" and "Kmin cfg \<le> Kmax cfg"
    and "REDPFCQueue_pullPacket cfg rnd (s, sb) = Inr (p', st', es)"
  shows "(useEcn cfg \<and> Kmax cfg \<le> byteLength rest \<longrightarrow> getEcn p' = CE) \<and>
         (byteLength rest < Kmin cfg \<or> \<not> useEcn cfg \<longrightarrow> p' = p)"
  using assms
  by (auto simp: REDPFCQueue_pullPacket_def REDPFCQueue_doRandomEarlyDetection_def REDPFCQueue_markEcn_def
      Let_def getEcn_setEcn split: if_splits)

theorem red_pull_marks_witness:
  "\<exists>p' st' es. REDPFCQueue_pullPacket sample_red 0
      (sample_redq\<lparr>queue := [sample_pkt 1 400, sample_pkt 2 800]\<rparr>, \<lambda>_. 500) = Inr (p', st', es) \<and> getEcn p' = CE"
proof -
  let ?s = "sample_redq\<lparr>queue := [sample_pkt 1 400, sample_pkt 2 800]\<rparr>"
  obtain p' st' es where r: "REDPFCQueue_pullPacket sample_red 0 (?s, \<lambda>_. 500) = Inr (p', st', es)"
    using pull_ok[of sample_red 0 ?s "\<lambda>_. 500"] by (auto simp: is_ok_iff)
  have "queue ?s = sample_pkt 1 400 # [sample_pkt 2 800]" "getEcn (sample_pkt 1 400) \<noteq> NotECT"
    "Kmin sample_red \<le> Kmax sample_red"
    by (simp_all add: red_eval)
  from red_pull_marks[OF this r] r show ?thesis by (auto simp: red_eval)
qed

text \<open>\<open>removeAllPackets\<close> does not empty the queue: its loop re-reads the shrinking length while it
  pops, so it removes the first half (rounded up) and leaves the rest.\<close>

theorem red_removeAll_half:
  "queue (fst (REDPFCQueue_removeAllPackets s)) = drop ((length (queue s) + 1) div 2) (queue s) \<and>
   length (snd (REDPFCQueue_removeAllPackets s)) = (length (queue s) + 1) div 2"
  by (simp add: REDPFCQueue_removeAllPackets_def pop_loop_halves)

end
