(* ===== verification/RED_PFC_Subclasses.thy ===== *)
theory RED_PFC_Subclasses
  imports RED_PFC_Queue
begin

section \<open>ABMQueue and PCNQueue\<close>

text \<open>
  The two subclasses of \<open>REDPFCQueue\<close>.  \<open>ABMQueue\<close> replaces the admission test by one whose
  threshold is divided among the congested queues of a priority; \<open>PCNQueue\<close> replaces the dequeue
  so that packets that were held back by a pause are not marked.  What they inherit is the code
  of the base class, on a state record that extends it.  The ABM queues of a whole network are run
  together on the arrays they share.
\<close>

subsection \<open>ABMQueue\<close>

record abmq = redq +
  DeqRate :: "double option"
  congested :: bool
  lasttime :: simtime
  numberofP :: u32

text \<open>
  \<open>congestedNum[100][11]\<close> is static: one counter per switch and priority.  \<open>deqrate[11]\<close> is an array of
  the MAC of the interface.  A priority outside 0..10 indexes past both arrays; the default queue
  of the interface has priority 99.
\<close>

type_synonym congestion = "int \<Rightarrow> int \<Rightarrow> u32"

text \<open>\<open>initialize\<close> sets the pool of the switch, which is static too, but leaves the counters as they are; \<open>DeqRate\<close> has no
  value yet.\<close>

definition ABMQueue_initialize :: "red_cfg \<Rightarrow> int \<Rightarrow> sbuf \<Rightarrow> (abmq \<times> sbuf) res" where
  "ABMQueue_initialize cfg parSharedBuffer sb =
     (if switchid cfg < 0 \<or> 100 \<le> switchid cfg then Inl OutOfBounds
      else Inr (\<lparr>queue = [], paused = [], markNext = False, redCount = -1, ecncount = 0, maxSize = 0, lastResult = BELOW_MIN_LIMIT,
                 DeqRate = None, congested = False, lasttime = 0, numberofP = 1\<rparr>,
                sb(switchid cfg := parSharedBuffer)))"

definition abm_index_ok :: "red_cfg \<Rightarrow> bool" where
  "abm_index_ok cfg \<longleftrightarrow> 0 \<le> priority cfg \<and> priority cfg < 11"

definition ABMQueue_refresh ::
    "red_cfg \<Rightarrow> simtime \<Rightarrow> simtime \<Rightarrow> (int \<Rightarrow> double) \<Rightarrow> congestion \<Rightarrow> 'a abmq_scheme \<Rightarrow> 'a abmq_scheme res" where
  "ABMQueue_refresh cfg interval now deqrate cn s =
     (if now - lasttime s > interval then
        if \<not> abm_index_ok cfg then Inl OutOfBounds
        else Inr (s\<lparr>DeqRate := Some (deqrate (priority cfg)),
                    numberofP := (if cn (switchid cfg) (priority cfg) \<noteq> 0 then cn (switchid cfg) (priority cfg) else 1),
                    lasttime := now\<rparr>)
      else Inr s)"

text \<open>The two-threshold switch between the congested and the uncongested state.\<close>

definition ABMQueue_congestion ::
    "red_cfg \<Rightarrow> packet \<Rightarrow> u64 \<Rightarrow> congestion \<Rightarrow> 'a abmq_scheme \<Rightarrow> 'a abmq_scheme \<times> congestion" where
  "ABMQueue_congestion cfg pck mx cn s =
     (let len = of_int (bitLength (queue s) + p_bits pck) :: double;
          limit = 9 / 10 * of_int (uint mx) :: double;
          sw = switchid cfg; pr = priority cfg; c = cn sw pr in
      if len > limit \<and> \<not> congested s
      then (s\<lparr>congested := True\<rparr>, cn(sw := (cn sw)(pr := c + 1)))
      else if len \<le> limit \<and> c > 0 \<and> congested s
      then (s\<lparr>congested := False\<rparr>, cn(sw := (cn sw)(pr := c - 1)))
      else (s, cn))"

definition ABMQueue_BufferManagement ::
    "red_cfg \<Rightarrow> simtime \<Rightarrow> simtime \<Rightarrow> (int \<Rightarrow> double) \<Rightarrow> packet \<Rightarrow> 'a abmq_scheme \<Rightarrow> sbuf \<Rightarrow> congestion \<Rightarrow>
       (bool \<times> 'a abmq_scheme \<times> sbuf \<times> congestion) res" where
  "ABMQueue_BufferManagement cfg interval now deqrate pck s0 sb cn =
     rbind (ABMQueue_refresh cfg interval now deqrate cn s0) (\<lambda>s.
       if \<not> REDPFCQueue_isOverloaded cfg s then Inr (True, s, sb, cn)
       else if \<not> abm_index_ok cfg then Inl OutOfBounds
       else
         (let remaining = sb (switchid cfg) in
          case DeqRate s of None \<Rightarrow> Inl Uninitialized
          | Some rate \<Rightarrow>
            rbind (dbl_to_u64 (alpha cfg * of_int remaining / of_int (uint (numberofP s)) * rate)) (\<lambda>mx.
              let (s2, cn2) = ABMQueue_congestion cfg pck mx cn (s\<lparr>maxSize := mx\<rparr>) in
              if gt_mixed64 (bitLength (queue s2) - dataCapacity cfg + p_bits pck) mx
              then Inr (False, s2, sb, cn2)
              else Inr (True, s2, sb(switchid cfg := remaining - p_bits pck), cn2))))"

text \<open>The inherited \<open>handleMessage\<close>, which calls this \<open>BufferManagement\<close>.\<close>

definition ABMQueue_handleMessage ::
    "red_cfg \<Rightarrow> simtime \<Rightarrow> simtime \<Rightarrow> (int \<Rightarrow> double) \<Rightarrow> packet \<Rightarrow> abmq \<times> sbuf \<times> congestion \<Rightarrow>
       ((abmq \<times> sbuf \<times> congestion) \<times> qeffect list) res" where
  "ABMQueue_handleMessage cfg interval now deqrate pck st =
     (let (s, sb, cn) = st in
      rbind (ABMQueue_BufferManagement cfg interval now deqrate pck s sb cn) (\<lambda>(ok, s1, sb1, cn1).
        if ok then (let (s2, es) = REDPFCQueue_pushPacket cfg pck s1 sb1 in Inr ((s2, sb1, cn1), es))
        else Inr ((s1, sb1, cn1), [Dropped (p_id pck)])))"

lemma congestion_frame:
  "ABMQueue_congestion cfg p mx cn s = (s', cn') \<Longrightarrow> queue s' = queue s \<and> paused s' = paused s"
  by (auto simp: ABMQueue_congestion_def Let_def split: if_splits)

lemma congestion_other:
  "ABMQueue_congestion cfg p mx cn s = (s', cn') \<Longrightarrow>
     (sw, pr) \<noteq> (switchid cfg, priority cfg) \<Longrightarrow> cn' sw pr = cn sw pr"
  by (auto simp: ABMQueue_congestion_def Let_def split: if_splits)

text \<open>The counter and the queue's own flag move together.\<close>

lemma congestion_balance:
  assumes "ABMQueue_congestion cfg p mx cn s = (s', cn')"
    and "unat (cn (switchid cfg) (priority cfg)) < 2 ^ 32 - 1"
    and "congested s \<longrightarrow> 0 < cn (switchid cfg) (priority cfg)"
  shows "unat (cn' (switchid cfg) (priority cfg)) + of_bool (congested s) =
         unat (cn (switchid cfg) (priority cfg)) + of_bool (congested s')"
proof -
  let ?c = "cn (switchid cfg) (priority cfg)"
  have up: "unat (?c + 1) = unat ?c + 1"
    using assms(2) by (simp add: unat_word_ariths)
  have down: "0 < ?c \<Longrightarrow> unat (?c - 1) + 1 = unat ?c"
    using unat_dec[of ?c] by (simp add: unat_gt_0 word_gt_0 Suc_leI)
  show ?thesis
    using assms(1,3) up down
    by (auto simp: ABMQueue_congestion_def Let_def split: if_splits)
qed

lemma refresh_frame:
  "ABMQueue_refresh cfg iv now dr cn s = Inr s' \<Longrightarrow>
     queue s' = queue s \<and> congested s' = congested s \<and> paused s' = paused s"
  by (auto simp: ABMQueue_refresh_def split: if_splits)

lemma length_filter_update:
  "i < length xs \<Longrightarrow> length (filter P (xs[i := y])) + of_bool (P (xs ! i)) = length (filter P xs) + of_bool (P y)"
proof (induction xs arbitrary: i)
  case Nil
  then show ?case by simp
next
  case (Cons x xs)
  then show ?case by (cases i) auto
qed

lemma BM_abm_cases:
  assumes "ABMQueue_BufferManagement cfg iv now dr p s0 sb cn = Inr (ok, s', sb', cn')"
  obtains (free) "ok" "cn' = cn" "congested s' = congested s0" "sb' = sb" "queue s' = queue s0"
    | (charged) mx t where "congested t = congested s0" "ABMQueue_congestion cfg p mx cn t = (s', cn')"
        "queue s' = queue s0"
proof -
  from assms obtain s where s: "ABMQueue_refresh cfg iv now dr cn s0 = Inr s"
    by (auto simp: ABMQueue_BufferManagement_def rbind_eq_Inr)
  note fr = refresh_frame[OF s]
  show thesis
  proof (cases "REDPFCQueue_isOverloaded cfg s")
    case False
    with assms s fr show thesis by (intro free) (auto simp: ABMQueue_BufferManagement_def)
  next
    case True
    with assms s obtain rate mx where rate: "DeqRate s = Some rate" and
      mx: "dbl_to_u64 (alpha cfg * of_int (sb (switchid cfg)) / of_int (uint (numberofP s)) * rate) = Inr mx"
      by (auto simp: ABMQueue_BufferManagement_def Let_def rbind_eq_Inr split: if_splits option.splits)
    obtain u d where ud: "ABMQueue_congestion cfg p mx cn (s\<lparr>maxSize := mx\<rparr>) = (u, d)" by fastforce
    from assms s True rate mx ud have c: "ABMQueue_congestion cfg p mx cn (s\<lparr>maxSize := mx\<rparr>) = (s', cn')"
      by (auto simp: ABMQueue_BufferManagement_def Let_def split: if_splits)
    from congestion_frame[OF c] c fr show thesis
      by (intro charged[of "s\<lparr>maxSize := mx\<rparr>" mx]) auto
  qed
qed

subsection \<open>The ABM queues of a network\<close>

text \<open>
  All queues of a simulation, on any number of switches, with the two static arrays they share: the pools and the
  counters.  A port is its configuration, the parameter \<open>Timer\<close> and the parameter \<open>sharedBuffer\<close>.  First every queue is
  initialised; then packets arrive at the queues, with the rates their MAC has measured, and are pulled from them.
\<close>

type_synonym abm_port = "red_cfg \<times> simtime \<times> int"

fun abm_start :: "abm_port list \<Rightarrow> sbuf \<Rightarrow> congestion \<Rightarrow> (abmq list \<times> sbuf \<times> congestion) res" where
  "abm_start [] sb cn = Inr ([], sb, cn)"
| "abm_start ((cfg, iv, b) # ps) sb cn =
     rbind (ABMQueue_initialize cfg b sb) (\<lambda>(s, sb). rbind (abm_start ps sb cn) (\<lambda>(qs, sb, cn). Inr (s # qs, sb, cn)))"

datatype abm_op = PortArrives nat simtime "int \<Rightarrow> double" packet | PortPulled nat double

fun abm_step ::
    "abm_port list \<Rightarrow> abm_op \<Rightarrow> abmq list \<times> sbuf \<times> congestion \<Rightarrow> ((abmq list \<times> sbuf \<times> congestion) \<times> qeffect list) res" where
  "abm_step ps (PortArrives i now deqrate pck) (qs, sb, cn) =
     (if i < length qs then
        rbind (ABMQueue_handleMessage (fst (ps ! i)) (fst (snd (ps ! i))) now deqrate pck (qs ! i, sb, cn)) (\<lambda>((s, sb, cn), es).
          Inr ((qs[i := s], sb, cn), es))
      else Inr ((qs, sb, cn), []))"
| "abm_step ps (PortPulled i rnd) (qs, sb, cn) =
     (if i < length qs then
        rbind (REDPFCQueue_pullPacket (fst (ps ! i)) rnd (qs ! i, sb)) (\<lambda>(p, (s, sb), es). Inr ((qs[i := s], sb, cn), es))
      else Inr ((qs, sb, cn), []))"

text \<open>The congested queues of a switch and a priority.\<close>

definition abm_at :: "int \<Rightarrow> int \<Rightarrow> abm_port \<Rightarrow> bool" where
  "abm_at sw pr c \<longleftrightarrow> switchid (fst c) = sw \<and> priority (fst c) = pr"

definition abm_congested :: "int \<Rightarrow> int \<Rightarrow> abm_port list \<Rightarrow> abmq list \<Rightarrow> nat" where
  "abm_congested sw pr ps qs = length (filter (\<lambda>(c, q). abm_at sw pr c \<and> congested q) (zip ps qs))"

lemma abm_recount:
  assumes "i < length qs" and "length qs = length ps"
  shows "abm_congested sw pr ps (qs[i := y]) + of_bool (abm_at sw pr (ps ! i) \<and> congested (qs ! i)) =
    abm_congested sw pr ps qs + of_bool (abm_at sw pr (ps ! i) \<and> congested y)"
proof -
  have "zip ps (qs[i := y]) = (zip ps qs)[i := (ps ! i, y)]" using update_zip[of ps qs i "(ps ! i, y)"] by simp
  with length_filter_update[of i "zip ps qs" "\<lambda>(c, q). abm_at sw pr c \<and> congested q" "(ps ! i, y)"] assms
  show ?thesis by (simp add: abm_congested_def)
qed

lemma abm_congested_le: "abm_congested sw pr ps qs \<le> length ps"
  unfolding abm_congested_def by (rule order_trans[OF length_filter_le]) simp

lemma abm_congested_pos:
  "i < length qs \<Longrightarrow> length qs = length ps \<Longrightarrow> abm_at sw pr (ps ! i) \<Longrightarrow> congested (qs ! i) \<Longrightarrow> 0 < abm_congested sw pr ps qs"
  unfolding abm_congested_def by (auto simp: filter_empty_conv in_set_zip intro!: bexI[of _ "(ps ! i, qs ! i)"])

text \<open>Each counter is what it was at first, and the number of congested queues.\<close>

definition abm_inv :: "abm_port list \<Rightarrow> congestion \<Rightarrow> abmq list \<times> sbuf \<times> congestion \<Rightarrow> bool" where
  "abm_inv ps cn0 st \<longleftrightarrow>
     (case st of (qs, sb, cn) \<Rightarrow> length qs = length ps \<and> (\<forall>sw pr. unat (cn0 sw pr) + length ps < 2 ^ 32 - 1 \<longrightarrow>
        unat (cn sw pr) = unat (cn0 sw pr) + abm_congested sw pr ps qs))"

lemma abm_start_inv: "abm_start ps sb cn0 = Inr st \<Longrightarrow> abm_inv ps cn0 st"
proof (induction ps sb cn0 arbitrary: st rule: abm_start.induct)
  case (2 cfg iv b ps sb cn)
  from "2.prems" obtain s sb1 qs sb2 cn2 where s: "ABMQueue_initialize cfg b sb = Inr (s, sb1)"
    and r: "abm_start ps sb1 cn = Inr (qs, sb2, cn2)" and st: "st = (s # qs, sb2, cn2)" by (auto simp: rbind_eq_Inr)
  have "\<not> congested s" using s by (auto simp: ABMQueue_initialize_def split: if_splits)
  with "2.IH"[OF s refl r] show ?case by (simp add: abm_inv_def st abm_congested_def)
qed (simp add: abm_inv_def abm_congested_def)

lemma push_congested: "REDPFCQueue_pushPacket cfg p s sb = (s', es) \<Longrightarrow> congested s' = congested s"
  by (auto simp: REDPFCQueue_pushPacket_def Let_def split: if_splits)

lemma pull_congested:
  assumes "REDPFCQueue_pullPacket cfg r (s, sb) = Inr (p, (s', sb'), es)"
  shows "congested s' = congested s"
proof -
  have red: "congested (snd (REDPFCQueue_doRandomEarlyDetection cfg r t)) = congested t" for t :: "'a abmq_scheme"
    by (auto simp: REDPFCQueue_doRandomEarlyDetection_def Let_def)
  have mark: "congested (snd (REDPFCQueue_markEcn q t)) = congested t" for q and t :: "'a abmq_scheme"
    by (auto simp: REDPFCQueue_markEcn_def Let_def)
  obtain q rest where q: "queue s = q # rest" using assms by (cases "queue s") (auto simp: REDPFCQueue_pullPacket_def)
  obtain res t where t: "REDPFCQueue_doRandomEarlyDetection cfg r (s\<lparr>queue := rest\<rparr>) = (res, t)" by fastforce
  obtain q' u where u: "(if (res = RANDOMLY_ABOVE_LIMIT \<or> res = ABOVE_MAX_LIMIT) \<and> useEcn cfg
       then REDPFCQueue_markEcn q (t\<lparr>lastResult := res\<rparr>) else (q, t\<lparr>lastResult := res\<rparr>)) = (q', u)" by fastforce
  have "congested t = congested s" using red[of "s\<lparr>queue := rest\<rparr>"] t by simp
  moreover have "congested u = congested t" using u mark[of q "t\<lparr>lastResult := res\<rparr>"] by (auto split: if_splits)
  ultimately show ?thesis using assms q t u by (auto simp: REDPFCQueue_pullPacket_def Let_def split: if_splits)
qed

lemma abm_arrival_inv:
  assumes "ABMQueue_handleMessage (fst (ps ! i)) iv now dr p (qs ! i, sb, cn) = Inr ((s', sb', cn'), es)" and "i < length qs"
    and "abm_inv ps cn0 (qs, sb, cn)"
  shows "abm_inv ps cn0 (qs[i := s'], sb', cn')"
proof -
  let ?c = "fst (ps ! i)"
  from assms(1) obtain ok s1 where bm: "ABMQueue_BufferManagement ?c iv now dr p (qs ! i) sb cn = Inr (ok, s1, sb', cn')"
    and cg: "congested s' = congested s1"
    by (auto simp: ABMQueue_handleMessage_def rbind_eq_Inr Let_def push_congested split: if_splits prod.splits)
  have len: "length qs = length ps" and cnt: "\<And>sw pr. unat (cn0 sw pr) + length ps < 2 ^ 32 - 1 \<Longrightarrow>
      unat (cn sw pr) = unat (cn0 sw pr) + abm_congested sw pr ps qs" using assms(3) by (auto simp: abm_inv_def)
  have "unat (cn' sw pr) = unat (cn0 sw pr) + abm_congested sw pr ps (qs[i := s'])"
    if small: "unat (cn0 sw pr) + length ps < 2 ^ 32 - 1" for sw pr
    using bm
  proof (cases rule: BM_abm_cases)
    case free
    with abm_recount[OF assms(2) len, of sw pr s'] cnt[OF small] cg show ?thesis by simp
  next
    case (charged mx t)
    show ?thesis
    proof (cases "abm_at sw pr (ps ! i)")
      case False
      with congestion_other[OF charged(2)] have "cn' sw pr = cn sw pr" by (auto simp: abm_at_def)
      with abm_recount[OF assms(2) len, of sw pr s'] cnt[OF small] False show ?thesis by simp
    next
      case True
      then have here: "sw = switchid ?c" "pr = priority ?c" by (simp_all add: abm_at_def)
      have "unat (cn sw pr) < 2 ^ 32 - 1" using cnt[OF small] small abm_congested_le[of sw pr ps qs] by linarith
      moreover have "congested t \<longrightarrow> 0 < cn sw pr"
        using abm_congested_pos[OF assms(2) len True] cnt[OF small] charged(1) by (auto simp: word_gt_0)
      ultimately have "unat (cn' sw pr) + of_bool (congested t) = unat (cn sw pr) + of_bool (congested s1)"
        using congestion_balance[OF charged(2)] by (simp add: here)
      with abm_recount[OF assms(2) len, of sw pr s'] cnt[OF small] True cg charged(1) show ?thesis by simp
    qed
  qed
  with len show ?thesis by (simp add: abm_inv_def)
qed

lemma abm_step_inv:
  assumes "abm_step ps x st = Inr (st', es)" and "abm_inv ps cn0 st"
  shows "abm_inv ps cn0 st'"
proof -
  obtain qs sb cn where st: "st = (qs, sb, cn)" by (cases st)
  show ?thesis
  proof (cases x)
    case (PortArrives i now dr p)
    show ?thesis
    proof (cases "i < length qs")
      case True
      with assms(1) st PortArrives obtain s' sb' cn' where
        "ABMQueue_handleMessage (fst (ps ! i)) (fst (snd (ps ! i))) now dr p (qs ! i, sb, cn) = Inr ((s', sb', cn'), es)"
        "st' = (qs[i := s'], sb', cn')" by (auto simp: rbind_eq_Inr)
      with abm_arrival_inv True assms(2) st show ?thesis by blast
    qed (use assms st PortArrives in simp)
  next
    case (PortPulled i rnd)
    show ?thesis
    proof (cases "i < length qs")
      case True
      with assms(1) st PortPulled obtain p s' sb' where
        r: "REDPFCQueue_pullPacket (fst (ps ! i)) rnd (qs ! i, sb) = Inr (p, (s', sb'), es)" and st': "st' = (qs[i := s'], sb', cn)"
        by (auto simp: rbind_eq_Inr)
      have len: "length qs = length ps" using assms(2) st by (simp add: abm_inv_def)
      have "abm_congested sw pr ps (qs[i := s']) = abm_congested sw pr ps qs" for sw pr
        using abm_recount[OF True len, of sw pr s'] pull_congested[OF r] by simp
      with assms(2) st st' show ?thesis by (simp add: abm_inv_def)
    qed (use assms st PortPulled in simp)
  qed
qed

interpretation abm_ports: machine "abm_step ps" "abm_inv ps cn0" "\<lambda>_. True" for ps cn0
  by unfold_locales (blast intro: abm_step_inv)

text \<open>C39: The static counters \<open>congestedNum\<close>.  After the initialisation of all ABM queues of a simulation and any sequence of
  arrivals and pulls at them, on all switches, the counter of each switch and priority has grown by exactly the number of that switch's
  queues of that priority that are congested.  So it is that number when the counters start at zero, as in a new process.
  No \<open>initialize\<close> resets them: what an earlier simulation in the same process has left stays in every count.  The start value and the number
  of queues add up to less than 2^32 - 1.\<close>

theorem abm_counter_exact:
  assumes "abm_start ps sb0 cn0 = Inr st" and "run_out (abm_step ps) xs st = Inr ((qs, sb, cn), es)"
    and "unat (cn0 sw pr) + length ps < 2 ^ 32 - 1"
  shows "unat (cn sw pr) = unat (cn0 sw pr) + abm_congested sw pr ps qs"
  using abm_ports.inv_run[OF abm_start_inv[OF assms(1)] _ assms(2)] assms(3) by (simp add: abm_inv_def)

text \<open>Two queues of one switch and priority, the counter having a stale 4: the first of them becomes congested with its second packet.\<close>

lemma sample_abm_start:
  "abm_start [(sample_red, 1, 500), (sample_red, 1, 500)] (\<lambda>_. 0) (\<lambda>_ _. 4) =
     Inr (let q = \<lparr>queue = [], paused = [], markNext = False, redCount = -1, ecncount = 0, maxSize = 0, lastResult = BELOW_MIN_LIMIT,
                 DeqRate = None, congested = False, lasttime = 0, numberofP = 1\<rparr> in
          ([q, q], (\<lambda>_. 0)(switchid sample_red := 500), \<lambda>_ _. 4))"
  by (simp add: ABMQueue_initialize_def sample_red_def Let_def)

theorem abm_counter_exact_witness:
  "\<exists>st qs sb cn es. abm_start [(sample_red, 1, 500), (sample_red, 1, 500)] (\<lambda>_. 0) (\<lambda>_ _. 4) = Inr st \<and>
     run_out (abm_step [(sample_red, 1, 500), (sample_red, 1, 500)])
       [PortArrives 0 2 (\<lambda>_. 1) (sample_pkt 1 2000), PortArrives 0 3 (\<lambda>_. 1) (sample_pkt 2 100)] st = Inr ((qs, sb, cn), es) \<and>
     congested (qs ! 0) \<and> \<not> congested (qs ! 1) \<and>
     unat (cn 3 2) = 4 + abm_congested 3 2 [(sample_red, 1, 500), (sample_red, 1, 500)] qs \<and> unat (cn 3 2) = 5"
proof -
  let ?ps = "[(sample_red, 1, 500), (sample_red, 1, 500)] :: abm_port list"
  let ?xs = "[PortArrives 0 2 (\<lambda>_. 1) (sample_pkt 1 2000), PortArrives 0 3 (\<lambda>_. 1) (sample_pkt 2 100)]"
  obtain st where st: "abm_start ?ps (\<lambda>_. 0) (\<lambda>_ _. 4) = Inr st" using sample_abm_start by blast
  have "\<exists>qs sb cn es. run_out (abm_step ?ps) ?xs st = Inr ((qs, sb, cn), es) \<and> length qs = 2 \<and> congested (qs ! 0) \<and> \<not> congested (qs ! 1)"
    using st unfolding sample_abm_start
    by (auto simp: ABMQueue_handleMessage_def ABMQueue_BufferManagement_def ABMQueue_refresh_def ABMQueue_congestion_def
        red_eval abm_index_ok_def dbl_to_u64_def trunc_real_def gt_mixed64_def word_less_def)
  then obtain qs sb cn es where r: "run_out (abm_step ?ps) ?xs st = Inr ((qs, sb, cn), es)" and q: "length qs = 2" "congested (qs ! 0)" "\<not> congested (qs ! 1)"
    by blast
  have c: "unat (cn 3 2) = unat (4 :: u32) + abm_congested 3 2 ?ps qs" by (rule abm_counter_exact[OF st r]) simp
  obtain a b where "qs = [a, b]" using q(1) by (auto simp: numeral_2_eq_2 length_Suc_conv)
  with q have "abm_congested 3 2 ?ps qs = 1" by (simp add: abm_congested_def abm_at_def sample_red_def)
  with st r q c show ?thesis by fastforce
qed

subsection \<open>PCNQueue\<close>

text \<open>
  \<open>PN\<close> counts the packets that were waiting when the port was paused; they are released without a
  mark.  The constructor and \<open>initialize\<close> leave \<open>PN\<close> uninitialised.
\<close>

record pcnq = redq +
  PN :: "int option"

definition PCNQueue_initialize :: "red_cfg \<Rightarrow> int \<Rightarrow> sbuf \<Rightarrow> (pcnq \<times> sbuf) res" where
  "PCNQueue_initialize cfg parSharedBuffer sb =
     rbind (REDPFCQueue_initialize cfg parSharedBuffer sb) (\<lambda>(s, sb').
       Inr (redq.extend s (pcnq.fields None), sb'))"

definition PCNQueue_pfcpaused :: "'a pcnq_scheme \<Rightarrow> 'a pcnq_scheme" where
  "PCNQueue_pfcpaused s = s\<lparr>PN := Some (int (length (queue s)))\<rparr>"

definition PCNQueue_markEcn :: "packet \<Rightarrow> 'a pcnq_scheme \<Rightarrow> packet \<times> 'a pcnq_scheme" where
  "PCNQueue_markEcn pck s =
     (let ecn = getEcn pck in
      if ecn \<noteq> NotECT then
        (if markNext s \<and> ecn \<noteq> CE then (setEcn CE pck, s\<lparr>markNext := False\<rparr>)
         else if ecn = CE then (pck, s\<lparr>markNext := True\<rparr>)
         else (setEcn CE pck, s))
      else (pck, s))"

definition PCNQueue_pullPacket ::
    "red_cfg \<Rightarrow> 'a pcnq_scheme \<times> sbuf \<Rightarrow> (packet \<times> ('a pcnq_scheme \<times> sbuf) \<times> qeffect list) res" where
  "PCNQueue_pullPacket cfg st =
     (case queue (fst st) of
        [] \<Rightarrow> Inl NullPointer
      | pck # rest \<Rightarrow>
          let s = fst st;
              sb = (snd st)(switchid cfg := snd st (switchid cfg) + REDPFCQueue_credit (dataCapacity cfg) pck (queue s));
              s2 = s\<lparr>queue := rest\<rparr> in
          (case PN s of
             None \<Rightarrow> Inl Uninitialized
           | Some n \<Rightarrow>
               (let (pck', s3) =
                  (if n = 0 then (if byteLength rest > 0 then PCNQueue_markEcn pck s2 else (pck, s2))
                   else (pck, s2\<lparr>PN := Some (n - 1)\<rparr>))
                in Inr (pck', (s3, sb), [Pulled (p_id pck)]))))"

fun PCNQueue_step :: "red_cfg \<Rightarrow> qop \<Rightarrow> pcnq \<times> sbuf \<Rightarrow> ((pcnq \<times> sbuf) \<times> qeffect list) res" where
  "PCNQueue_step cfg (Arrive wrr pck) st =
     REDPFCQueue_handleMessage cfg (REDPFCQueue_BufferManagement cfg wrr) pck st"
| "PCNQueue_step cfg (Pull rnd) st =
     rbind (PCNQueue_pullPacket cfg st) (\<lambda>(p, st', es). Inr (st', es))"

lemma pcn_pull_effects:
  "PCNQueue_pullPacket cfg st = Inr (p', st', es) \<Longrightarrow> pfc_log i es = []"
  by (auto simp: PCNQueue_pullPacket_def Let_def split: list.splits option.splits if_splits prod.splits)

lemma push_no_resume:
  "REDPFCQueue_pushPacket cfg p s sb = (s', es) \<Longrightarrow> False \<notin> set (pfc_log i es)"
  by (auto simp: REDPFCQueue_pushPacket_def Let_def split: if_splits)

text \<open>Pulling \<open>n\<close> packets one after the other, as the scheduler does after a resume.\<close>

fun pcn_pulls :: "red_cfg \<Rightarrow> nat \<Rightarrow> pcnq \<times> sbuf \<Rightarrow> (packet list \<times> (pcnq \<times> sbuf)) res" where
  "pcn_pulls cfg 0 st = Inr ([], st)"
| "pcn_pulls cfg (Suc n) st =
     rbind (PCNQueue_pullPacket cfg st) (\<lambda>(p, st', es). rbind (pcn_pulls cfg n st') (\<lambda>(ps, st''). Inr (p # ps, st'')))"

lemma pcn_pull_held:
  assumes "queue s = p # rest" and "PN s = Some n" and "n \<noteq> 0"
  obtains s' sb' where "PCNQueue_pullPacket cfg (s, sb) = Inr (p, (s', sb'), [Pulled (p_id p)])"
    and "queue s' = rest" and "PN s' = Some (n - 1)"
  using assms by (auto simp: PCNQueue_pullPacket_def Let_def)

lemma pcn_held_run:
  "PN s = Some (int k) \<Longrightarrow> k \<le> length (queue s) \<Longrightarrow>
     \<exists>s' sb'. pcn_pulls cfg k (s, sb) = Inr (take k (queue s), (s', sb')) \<and>
       queue s' = drop k (queue s) \<and> PN s' = Some 0"
proof (induction k arbitrary: s sb)
  case 0
  then show ?case by simp
next
  case (Suc k)
  then obtain p rest where q: "queue s = p # rest" by (cases "queue s") auto
  have nz: "int (Suc k) \<noteq> 0" by simp
  obtain s1 sb1 where s1: "PCNQueue_pullPacket cfg (s, sb) = Inr (p, (s1, sb1), [Pulled (p_id p)])"
    "queue s1 = rest" "PN s1 = Some (int (Suc k) - 1)"
    using pcn_pull_held[OF q Suc.prems(1) nz] by blast
  then have "PN s1 = Some (int k)" "k \<le> length (queue s1)" using Suc.prems(2) q by auto
  from Suc.IH[OF this, of sb1] s1 q show ?case by auto
qed

text \<open>The packets that were waiting when a pause arrived are released unmarked: pulling as many
  packets as were waiting returns exactly the waiting packets, with their ECN codes unchanged,
  and marking starts again only after the last of them.\<close>

theorem pcn_paused_packets_unmarked:
  "\<exists>s' sb'. pcn_pulls cfg (length (queue s)) (PCNQueue_pfcpaused s, sb) = Inr (queue s, (s', sb')) \<and>
     queue s' = [] \<and> PN s' = Some 0"
  using pcn_held_run[of "PCNQueue_pfcpaused s" "length (queue s)" cfg sb]
  by (auto simp: PCNQueue_pfcpaused_def)

text \<open>The dequeue of the packet-conserving queue drops the resume part of the base class while the
  inherited push still sends pauses: no run ever resumes an interface, so a paused upstream port
  stays paused.\<close>

theorem pcn_never_resumes:
  assumes "run_out (PCNQueue_step cfg) ops st = Inr (st', es)"
  shows "False \<notin> set (pfc_log i es)"
  using assms
proof (induction ops arbitrary: st es)
  case Nil
  then show ?case by simp
next
  case (Cons x xs)
  from Cons.prems obtain st1 es1 es2 where
    s1: "PCNQueue_step cfg x st = Inr (st1, es1)"
    and r: "run_out (PCNQueue_step cfg) xs st1 = Inr (st', es2)" and es: "es = es1 @ es2"
    by (auto simp: run_out_Cons_Inr simp del: run_out.simps PCNQueue_step.simps)
  have "False \<notin> set (pfc_log i es1)"
  proof (cases x)
    case (Arrive wrr p)
    obtain s sb s2 sb2 where st: "st = (s, sb)" "st1 = (s2, sb2)" by fastforce
    with s1 Arrive have h: "REDPFCQueue_handleMessage cfg (REDPFCQueue_BufferManagement cfg wrr) p (s, sb)
        = Inr ((s2, sb2), es1)"
      by simp
    then show ?thesis
      by (cases rule: handleMessage_Inr) (auto dest: push_no_resume[of _ _ _ _ _ _ i])
  next
    case (Pull rnd)
    with s1 show ?thesis by (auto simp: rbind_eq_Inr dest: pcn_pull_effects[of _ _ _ _ _ i])
  qed
  with Cons.IH[OF r] show ?case by (simp add: es pfc_log_append)
qed

theorem pcn_never_resumes_witness:
  "\<exists>st' es. run_out (PCNQueue_step sample_red) [Arrive 0 (sample_pkt 1 900), Pull 0]
      (\<lparr>queue = [], paused = [], markNext = False, redCount = -1, ecncount = 0, maxSize = 0,
        lastResult = BELOW_MIN_LIMIT, PN = Some 0\<rparr>, \<lambda>_. 500) = Inr (st', es) \<and>
     pfc_log 7 es = [True] \<and> False \<notin> set (pfc_log 7 es)"
proof -
  let ?st = "(\<lparr>queue = [], paused = [], markNext = False, redCount = -1, ecncount = 0, maxSize = 0,
        lastResult = BELOW_MIN_LIMIT, PN = Some 0\<rparr>, \<lambda>_. 500) :: pcnq \<times> sbuf"
  obtain st' es where r: "run_out (PCNQueue_step sample_red) [Arrive 0 (sample_pkt 1 900), Pull 0] ?st = Inr (st', es)"
    and l: "pfc_log 7 es = [True]"
    by (simp add: PCNQueue_pullPacket_def red_eval)
  from pcn_never_resumes[OF r, of 7] r l show ?thesis by blast
qed

end
