(* ===== verification/Std_Map.thy ===== *)
theory Std_Map
  imports Prelude
begin

section \<open>std::map and its iterators\<close>

text \<open>
  The senders keep their flows in a \<open>std::map\<close> and walk it with an iterator that lives across
  events.  A map is the list of its entries in ascending key order, which is the order an
  iterator visits; an iterator is the key it points at, or the end.  The contract the
  senders rely on is the locale \<open>ordered_map\<close>.
\<close>

type_synonym ('k, 'v) smap = "('k \<times> 'v) list"

definition wf_map :: "('k::linorder, 'v) smap \<Rightarrow> bool" where
  "wf_map m \<longleftrightarrow> sorted_wrt (<) (map fst m)"

fun map_get :: "('k::linorder, 'v) smap \<Rightarrow> 'k \<Rightarrow> 'v option" where
  "map_get [] k = None"
| "map_get ((a, v) # m) k = (if k = a then Some v else map_get m k)"

text \<open>\<open>m[k] = v\<close>\<close>

fun map_put :: "'k::linorder \<Rightarrow> 'v \<Rightarrow> ('k, 'v) smap \<Rightarrow> ('k, 'v) smap" where
  "map_put k v [] = [(k, v)]"
| "map_put k v ((a, w) # m) =
     (if k < a then (k, v) # (a, w) # m
      else if k = a then (k, v) # m
      else (a, w) # map_put k v m)"

text \<open>\<open>m.erase(k)\<close>\<close>

fun map_erase :: "'k::linorder \<Rightarrow> ('k, 'v) smap \<Rightarrow> ('k, 'v) smap" where
  "map_erase k [] = []"
| "map_erase k ((a, w) # m) = (if k = a then m else (a, w) # map_erase k m)"

text \<open>\<open>m.begin()\<close> and \<open>++it\<close>: the least key, and the least key above the current one.\<close>

fun map_begin :: "('k::linorder, 'v) smap \<Rightarrow> 'k option" where
  "map_begin [] = None"
| "map_begin ((a, w) # m) = Some a"

fun map_next :: "'k::linorder \<Rightarrow> ('k, 'v) smap \<Rightarrow> 'k option" where
  "map_next k [] = None"
| "map_next k ((a, w) # m) = (if k < a then Some a else map_next k m)"

lemma wf_map_Nil [simp]: "wf_map []"
  by (simp add: wf_map_def)

lemma wf_map_Cons: "wf_map ((a, v) # m) \<longleftrightarrow> (\<forall>b \<in> fst ` set m. a < b) \<and> wf_map m"
  by (simp add: wf_map_def)

lemma map_get_None: "map_get m k = None \<longleftrightarrow> k \<notin> fst ` set m"
  by (induction m k rule: map_get.induct) auto

lemma map_get_Some_mem: "map_get m k = Some v \<Longrightarrow> k \<in> fst ` set m"
  by (metis map_get_None option.distinct(1))

lemma keys_put: "fst ` set (map_put k v m) = insert k (fst ` set m)"
  by (induction k v m rule: map_put.induct) auto

lemma keys_erase: "wf_map m \<Longrightarrow> fst ` set (map_erase k m) = fst ` set m - {k}"
  by (induction k m rule: map_erase.induct) (auto simp: wf_map_Cons)

lemma wf_put: "wf_map m \<Longrightarrow> wf_map (map_put k v m)"
  by (induction k v m rule: map_put.induct) (auto simp: wf_map_Cons keys_put)

lemma wf_erase: "wf_map m \<Longrightarrow> wf_map (map_erase k m)"
  by (induction k m rule: map_erase.induct) (auto simp: wf_map_Cons keys_erase)

lemma get_put: "map_get (map_put k v m) j = (if j = k then Some v else map_get m j)"
  by (induction k v m rule: map_put.induct) auto

lemma get_erase: "wf_map m \<Longrightarrow> map_get (map_erase k m) j = (if j = k then None else map_get m j)"
  by (induction k m rule: map_erase.induct) (force simp: wf_map_Cons map_get_None)+

lemma put_not_Nil [simp]: "map_put k v m \<noteq> []"
  by (induction k v m rule: map_put.induct) auto

lemma map_put_put [simp]: "map_put k v (map_put k w m) = map_put k v m"
  by (induction k w m rule: map_put.induct) auto

lemma map_next_Some:
  "wf_map m \<Longrightarrow> map_next k m = Some j \<longleftrightarrow>
     j \<in> fst ` set m \<and> k < j \<and> (\<forall>i \<in> fst ` set m. k < i \<longrightarrow> j \<le> i)"
  by (induction k m rule: map_next.induct) (force simp: wf_map_Cons)+

lemma map_next_None: "map_next k m = None \<longleftrightarrow> (\<forall>i \<in> fst ` set m. i \<le> k)"
  by (induction k m rule: map_next.induct) (auto simp: not_less)

lemma map_begin_Some: "map_begin m = Some k \<Longrightarrow> k \<in> fst ` set m"
  by (cases m) auto

lemma map_begin_put_Nil: "map_begin (map_put k v []) = Some k"
  by simp

lemma map_get_entry: "map_get m k = Some v \<Longrightarrow> (k, v) \<in> set m"
  by (induction m k rule: map_get.induct) (auto split: if_splits)

lemma set_put: "set (map_put k v m) \<subseteq> insert (k, v) (set m)"
  by (induction k v m rule: map_put.induct) auto

lemma set_erase: "set (map_erase k m) \<subseteq> set m"
  by (induction k m rule: map_erase.induct) auto

lemmas smap_simps = wf_put wf_erase get_put get_erase keys_put keys_erase map_get_None

text \<open>
  The interface.  A client needs lookups after updates, the invariant kept, and the successor
  operation of the iterator: it is the least key above, and its absence means that no key is
  above.
\<close>

locale ordered_map =
  fixes get :: "'m \<Rightarrow> 'k::linorder \<Rightarrow> 'v option"
    and put :: "'k \<Rightarrow> 'v \<Rightarrow> 'm \<Rightarrow> 'm"
    and erase :: "'k \<Rightarrow> 'm \<Rightarrow> 'm"
    and succ_key :: "'k \<Rightarrow> 'm \<Rightarrow> 'k option"
    and ok :: "'m \<Rightarrow> bool"
  assumes get_after_put: "ok m \<Longrightarrow> get (put k v m) j = (if j = k then Some v else get m j)"
    and get_after_erase: "ok m \<Longrightarrow> get (erase k m) j = (if j = k then None else get m j)"
    and ok_put: "ok m \<Longrightarrow> ok (put k v m)"
    and ok_erase: "ok m \<Longrightarrow> ok (erase k m)"
    and succ_Some: "ok m \<Longrightarrow> succ_key k m = Some j \<Longrightarrow> get m j \<noteq> None \<and> k < j"
    and succ_least: "ok m \<Longrightarrow> succ_key k m = Some j \<Longrightarrow> get m i \<noteq> None \<Longrightarrow> k < i \<Longrightarrow> j \<le> i"
    and succ_None: "ok m \<Longrightarrow> succ_key k m = None \<Longrightarrow> get m i \<noteq> None \<Longrightarrow> i \<le> k"
begin

text \<open>The iterator step followed by erasing the entry it left: the new position is still in the map.\<close>

lemma advance_erase:
  assumes "ok m" and "succ_key k m = Some j"
  shows "get (erase k m) j \<noteq> None"
  using succ_Some[OF assms] assms(1) by (auto simp: get_after_erase)

lemma advance_erase_end:
  assumes "ok m" and "succ_key k m = None" and "\<And>i. get m i \<noteq> None \<Longrightarrow> k \<le> i"
  shows "get (erase k m) i = None"
  using assms succ_None[OF assms(1,2)] by (fastforce simp: get_after_erase)

text \<open>Everything below the iterator stays below it: entries it has left behind are never visited again.\<close>

lemma advance_skips:
  assumes "ok m" and "succ_key k m = Some j" and "get m i \<noteq> None" and "i < j"
  shows "i \<le> k"
  using succ_least[OF assms(1,2,3)] assms(4) by force

lemma put_keeps: "ok m \<Longrightarrow> get m i \<noteq> None \<Longrightarrow> get (put k v m) i \<noteq> None"
  by (simp add: get_after_put)

end

interpretation stdmap: ordered_map map_get map_put map_erase map_next wf_map
proof (unfold_locales, goal_cases)
  case 1
  then show ?case by (simp add: get_put)
next
  case 2
  then show ?case by (simp add: get_erase)
next
  case 3
  then show ?case by (rule wf_put)
next
  case 4
  then show ?case by (rule wf_erase)
next
  case (5 m k j)
  then show ?case by (auto simp: map_next_Some map_get_None)
next
  case (6 m k j i)
  then show ?case by (auto simp: map_next_Some map_get_None)
next
  case (7 m k i)
  then show ?case by (auto simp: map_next_None map_get_None)
qed

end
