(* ===== verification/Rate_Limit_Queue.thy ===== *)
theory Rate_Limit_Queue
  imports Packets Machine
begin

section \<open>RateLimitQueue: the credit queue\<close>

text \<open>
  \<open>HiNA/Ethernet/HiQueue/RateLimitQueue\<close>: a queue that hands out its head only when the time
  since the last dequeue covers the transmission of the head at \<open>limrate\<close>.  The model is the
  queue without an external \<open>bufferModule\<close> (the default); the dropper is the default
  \<open>PacketAtCollectionEndDropper\<close> or none.  A zero \<open>limrate\<close> makes the interval infinite, which
  no simulation time can hold.
\<close>

record rl_cfg =
  rl_packetCapacity :: int
  rl_dataCapacity :: int
  rl_hasDropper :: bool
  rl_hasCollector :: bool
  limrate :: double
  rl_insert :: inserter

record rlq =
  rl_queue :: "packet list"
  rl_lasttime :: simtime
  canpull :: "simtime option"

datatype rleffect =
    RlPushStarted nat
  | RlNotifyCollector
  | RlPushEnded
  | RlPulled nat
  | RlRemoved nat
  | RlDropped nat
  | RlArmed simtime

definition RateLimitQueue_isOverloaded :: "rl_cfg \<Rightarrow> packet list \<Rightarrow> bool" where
  "RateLimitQueue_isOverloaded cfg q \<longleftrightarrow>
     (rl_packetCapacity cfg \<noteq> -1 \<and> int (length q) > rl_packetCapacity cfg) \<or>
     (rl_dataCapacity cfg \<noteq> -1 \<and> bitLength q > rl_dataCapacity cfg)"

definition RateLimitQueue_getPacket :: "packet list \<Rightarrow> int \<Rightarrow> packet res" where
  "RateLimitQueue_getPacket q index =
     (if index < 0 \<or> index \<ge> int (length q) then Inl (RuntimeError ''index out of range'') else Inr (q ! nat index))"

text \<open>\<open>PacketAtCollectionEndDropper::selectPacket\<close>\<close>

definition PacketAtCollectionEndDropper_selectPacket :: "packet list \<Rightarrow> packet res" where
  "PacketAtCollectionEndDropper_selectPacket q = RateLimitQueue_getPacket q (int (length q) - 1)"

text \<open>\<open>while (isOverloaded()) { select; remove; drop }\<close>: every iteration removes the last packet.\<close>

function RateLimitQueue_dropLoop :: "rl_cfg \<Rightarrow> packet list \<Rightarrow> (packet list \<times> rleffect list) res" where
  "RateLimitQueue_dropLoop cfg q =
     (if \<not> RateLimitQueue_isOverloaded cfg q then Inr (q, [])
      else case PacketAtCollectionEndDropper_selectPacket q of
        Inl e \<Rightarrow> Inl e
      | Inr p \<Rightarrow> rbind (RateLimitQueue_dropLoop cfg (butlast q)) (\<lambda>(q', es). Inr (q', RlDropped (p_id p) # es)))"
  by pat_completeness auto
termination
  by (relation "measure (\<lambda>(cfg, q). length q)")
    (auto simp: PacketAtCollectionEndDropper_selectPacket_def RateLimitQueue_getPacket_def split: if_splits)

declare RateLimitQueue_dropLoop.simps [simp del]

definition RateLimitQueue_pushPacket :: "rl_cfg \<Rightarrow> packet \<Rightarrow> rlq \<Rightarrow> (rlq \<times> rleffect list) res" where
  "RateLimitQueue_pushPacket cfg pck s =
     (let q = rl_insert cfg pck (rl_queue s) in
      rbind (if rl_hasDropper cfg then RateLimitQueue_dropLoop cfg q else Inr (q, [])) (\<lambda>(q', dropEff).
        if RateLimitQueue_isOverloaded cfg q' then Inl (RuntimeError ''ASSERT(!isOverloaded())'')
        else Inr (s\<lparr>rl_queue := q'\<rparr>,
                  [RlPushStarted (p_id pck)] @ dropEff @
                  (if rl_hasCollector cfg \<and> q' \<noteq> [] then [RlNotifyCollector] else []) @ [RlPushEnded])))"

text \<open>The self message only wakes the collector.\<close>

definition RateLimitQueue_handleSelfMessage :: "rl_cfg \<Rightarrow> rlq \<Rightarrow> rlq \<times> rleffect list" where
  "RateLimitQueue_handleSelfMessage cfg s =
     (s\<lparr>canpull := None\<rparr>, if rl_hasCollector cfg \<and> rl_queue s \<noteq> [] then [RlNotifyCollector] else [])"

definition RateLimitQueue_mintime :: "rl_cfg \<Rightarrow> packet \<Rightarrow> simtime" where
  "RateLimitQueue_mintime cfg p = of_int (p_bits p + 8 * 8) / limrate cfg + of_int (12 * 8) / 10 ^ 10"

definition RateLimitQueue_canPullSomePacket :: "rl_cfg \<Rightarrow> simtime \<Rightarrow> rlq \<Rightarrow> bool res" where
  "RateLimitQueue_canPullSomePacket cfg now s =
     (case rl_queue s of
        [] \<Rightarrow> Inr False
      | p # _ \<Rightarrow>
          if limrate cfg = 0 then Inl SimTimeOverflow
          else if RateLimitQueue_mintime cfg p > now - rl_lasttime s then Inr False
          else Inr True)"

definition RateLimitQueue_pullPacket ::
    "rl_cfg \<Rightarrow> simtime \<Rightarrow> rlq \<Rightarrow> (packet \<times> rlq \<times> rleffect list) res" where
  "RateLimitQueue_pullPacket cfg now s =
     (case rl_queue s of
        [] \<Rightarrow> Inl NullPointer
      | p # rest \<Rightarrow>
          let s1 = s\<lparr>rl_queue := rest, rl_lasttime := now\<rparr> in
          (case rest of
             [] \<Rightarrow> Inr (p, s1, [RlPulled (p_id p)])
           | np # _ \<Rightarrow>
               if limrate cfg = 0 then Inl SimTimeOverflow
               else (let t = now + RateLimitQueue_mintime cfg np in
                     Inr (p, s1\<lparr>canpull := Some t\<rparr>, [RlArmed t, RlPulled (p_id p)]))))"

definition RateLimitQueue_removePacket :: "nat \<Rightarrow> rlq \<Rightarrow> rlq \<times> rleffect list" where
  "RateLimitQueue_removePacket i s = (s\<lparr>rl_queue := remove_ptr i (rl_queue s)\<rparr>, [RlRemoved i])"

definition RateLimitQueue_removeAllPackets :: "rlq \<Rightarrow> rlq \<times> rleffect list" where
  "RateLimitQueue_removeAllPackets s =
     (let (q, packets) = pop_loop 0 (rl_queue s) [] in (s\<lparr>rl_queue := q\<rparr>, map (\<lambda>p. RlRemoved (p_id p)) packets))"

definition RateLimitQueue_canPushSomePacket :: "rl_cfg \<Rightarrow> rlq \<Rightarrow> bool" where
  "RateLimitQueue_canPushSomePacket cfg s \<longleftrightarrow>
     (if rl_hasDropper cfg then True
      else if rl_packetCapacity cfg \<noteq> -1 \<and> int (length (rl_queue s)) \<ge> rl_packetCapacity cfg then False
      else if rl_dataCapacity cfg \<noteq> -1 \<and> bitLength (rl_queue s) \<ge> rl_dataCapacity cfg then False
      else True)"

definition RateLimitQueue_canPushPacket :: "rl_cfg \<Rightarrow> packet \<Rightarrow> rlq \<Rightarrow> bool" where
  "RateLimitQueue_canPushPacket cfg pck s \<longleftrightarrow>
     (if rl_hasDropper cfg then True
      else if rl_packetCapacity cfg \<noteq> -1 \<and> int (length (rl_queue s)) \<ge> rl_packetCapacity cfg then False
      else if rl_dataCapacity cfg \<noteq> -1 \<and> rl_dataCapacity cfg - bitLength (rl_queue s) < p_bits pck then False
      else True)"

definition RateLimitQueue_handlePacketRemoved :: "nat \<Rightarrow> rlq \<Rightarrow> rlq \<times> rleffect list" where
  "RateLimitQueue_handlePacketRemoved i s =
     (if i \<in> p_id ` set (rl_queue s) then RateLimitQueue_removePacket i s else (s, []))"

text \<open>
  The collector's side of the contract: it asks before it pulls.  A poll at time \<open>t\<close> pulls when the
  queue allows it and does nothing otherwise.
\<close>

datatype rlop = RlPush packet | RlPoll simtime | RlTimer

fun RateLimitQueue_step :: "rl_cfg \<Rightarrow> rlop \<Rightarrow> rlq \<Rightarrow> (rlq \<times> rleffect list) res" where
  "RateLimitQueue_step cfg (RlPush p) s = RateLimitQueue_pushPacket cfg p s"
| "RateLimitQueue_step cfg (RlPoll t) s =
     rbind (RateLimitQueue_canPullSomePacket cfg t s) (\<lambda>b.
       if b then rbind (RateLimitQueue_pullPacket cfg t s) (\<lambda>(p, s', es). Inr (s', es)) else Inr (s, []))"
| "RateLimitQueue_step cfg RlTimer s = Inr (RateLimitQueue_handleSelfMessage cfg s)"

subsection \<open>The drop loop\<close>

lemma dropLoop_result:
  "RateLimitQueue_dropLoop cfg q = Inr (q', es) \<Longrightarrow>
     \<not> RateLimitQueue_isOverloaded cfg q' \<and> (\<exists>n. q' = take n q) \<and> length es = length q - length q'"
proof (induction cfg q arbitrary: q' es rule: RateLimitQueue_dropLoop.induct)
  case (1 cfg q)
  show ?case
  proof (cases "RateLimitQueue_isOverloaded cfg q")
    case False
    with 1(2) show ?thesis by (subst (asm) RateLimitQueue_dropLoop.simps) (auto intro!: exI[of _ "length q"])
  next
    case True
    with 1(2) obtain p es1 where sel: "PacketAtCollectionEndDropper_selectPacket q = Inr p"
      and rec: "RateLimitQueue_dropLoop cfg (butlast q) = Inr (q', es1)" and es: "es = RlDropped (p_id p) # es1"
      by (subst (asm) RateLimitQueue_dropLoop.simps) (auto simp: rbind_eq_Inr split: sum.splits)
    from 1(1)[OF _ sel rec] True obtain n where n: "\<not> RateLimitQueue_isOverloaded cfg q'"
      "q' = take n (butlast q)" "length es1 = length (butlast q) - length q'"
      by auto
    have "q \<noteq> []" using sel
      by (auto simp: PacketAtCollectionEndDropper_selectPacket_def RateLimitQueue_getPacket_def)
    let ?m = "min n (length q - 1)"
    have m: "?m < length q" using \<open>q \<noteq> []\<close> by (cases q) auto
    have q': "q' = take ?m q" using n(2) by (simp add: butlast_conv_take min.commute)
    have "length es = length q - length q'" using n(3) m es by (simp add: q' Suc_diff_Suc)
    with n(1) q' show ?thesis by blast
  qed
qed

lemma overloaded_Nil: "0 \<le> rl_packetCapacity cfg \<or> rl_packetCapacity cfg = -1 \<Longrightarrow>
    0 \<le> rl_dataCapacity cfg \<or> rl_dataCapacity cfg = -1 \<Longrightarrow> \<not> RateLimitQueue_isOverloaded cfg []"
  by (auto simp: RateLimitQueue_isOverloaded_def)

lemma dropLoop_ok:
  assumes "0 \<le> rl_packetCapacity cfg \<or> rl_packetCapacity cfg = -1"
    and "0 \<le> rl_dataCapacity cfg \<or> rl_dataCapacity cfg = -1"
  shows "is_ok (RateLimitQueue_dropLoop cfg q)"
proof (induction "length q" arbitrary: q)
  case 0
  with overloaded_Nil[OF assms] show ?case by (subst RateLimitQueue_dropLoop.simps) simp
next
  case (Suc n)
  then have "n = length (butlast q)" and "q \<noteq> []" by auto
  with Suc.hyps(1) have "is_ok (RateLimitQueue_dropLoop cfg (butlast q))" by blast
  moreover from \<open>q \<noteq> []\<close> obtain p where "PacketAtCollectionEndDropper_selectPacket q = Inr p"
    by (auto simp: PacketAtCollectionEndDropper_selectPacket_def RateLimitQueue_getPacket_def not_le)
  ultimately show ?case
    by (subst RateLimitQueue_dropLoop.simps) (auto simp: is_ok_iff)
qed


subsection \<open>Spacing\<close>

lemma push_frame:
  "RateLimitQueue_pushPacket cfg p s = Inr (s', es) \<Longrightarrow> rl_lasttime s' = rl_lasttime s \<and> canpull s' = canpull s"
  by (auto simp: RateLimitQueue_pushPacket_def Let_def rbind_eq_Inr split: if_splits)

text \<open>The time the packets handed out by a run need at the limit rate, read off the states.\<close>

fun rl_served :: "rl_cfg \<Rightarrow> rlop list \<Rightarrow> rlq \<Rightarrow> packet list" where
  "rl_served cfg [] s = []"
| "rl_served cfg (x # xs) s =
     (case RateLimitQueue_step cfg x s of
        Inl _ \<Rightarrow> []
      | Inr (s', es) \<Rightarrow>
          (case x of RlPoll t \<Rightarrow> if es = [] then [] else [hd (rl_queue s)] | _ \<Rightarrow> []) @ rl_served cfg xs s')"

lemma poll_spacing:
  assumes "RateLimitQueue_step cfg (RlPoll t) s = Inr (s', es)"
  shows "(es = [] \<and> s' = s) \<or>
     (es \<noteq> [] \<and> rl_lasttime s' = t \<and> RateLimitQueue_mintime cfg (hd (rl_queue s)) \<le> t - rl_lasttime s)"
  using assms
  by (auto simp: RateLimitQueue_canPullSomePacket_def RateLimitQueue_pullPacket_def Let_def rbind_eq_Inr
      split: list.splits if_splits)

text \<open>C38: The credit queue never exceeds its limit rate: over any run of pushes, wake-ups and polls,
  the time that all packets handed out need at \<open>limrate\<close> (with preamble and inter-frame gap) fits
  between the dequeue before the run and the last dequeue of the run.\<close>

theorem ratelimit_long_run:
  assumes "run_out (RateLimitQueue_step cfg) ops s = Inr (s', es)"
  shows "sum_list (map (RateLimitQueue_mintime cfg) (rl_served cfg ops s)) \<le> rl_lasttime s' - rl_lasttime s"
  using assms
proof (induction ops arbitrary: s es)
  case Nil
  then show ?case by simp
next
  case (Cons x xs)
  from Cons.prems obtain s1 es1 es2 where s1: "RateLimitQueue_step cfg x s = Inr (s1, es1)"
    and r: "run_out (RateLimitQueue_step cfg) xs s1 = Inr (s', es2)"
    by (auto simp: run_out_Cons_Inr simp del: run_out.simps RateLimitQueue_step.simps)
  note IH = Cons.IH[OF r]
  show ?case
  proof (cases x)
    case (RlPush p)
    with s1 have "rl_lasttime s1 = rl_lasttime s" using push_frame[of cfg p s s1 es1] by simp
    with IH s1 RlPush show ?thesis by simp
  next
    case (RlPoll t)
    from poll_spacing[OF s1[unfolded RlPoll]] show ?thesis
    proof
      assume "es1 = [] \<and> s1 = s"
      with IH s1 RlPoll show ?thesis by (simp del: RateLimitQueue_step.simps)
    next
      assume "es1 \<noteq> [] \<and> rl_lasttime s1 = t \<and>
        RateLimitQueue_mintime cfg (hd (rl_queue s)) \<le> t - rl_lasttime s"
      with IH s1 RlPoll show ?thesis by (simp del: RateLimitQueue_step.simps)
    qed
  next
    case RlTimer
    with s1 have "rl_lasttime s1 = rl_lasttime s" by (auto simp: RateLimitQueue_handleSelfMessage_def)
    with IH s1 RlTimer show ?thesis by simp
  qed
qed

definition sample_rl :: rl_cfg where
  "sample_rl = \<lparr>rl_packetCapacity = -1, rl_dataCapacity = 5376, rl_hasDropper = True, rl_hasCollector = True,
     limrate = 1000, rl_insert = fifo_insert\<rparr>"

definition sample_credit :: "nat \<Rightarrow> packet" where
  "sample_credit i = \<lparr>p_id = i, p_name = ''credit'', p_len = 672, p_iface = 1, p_ecn = None,
     p_tags = [], p_bfc = None, p_ispause = None\<rparr>"

lemmas rl_eval = sample_rl_def sample_credit_def RateLimitQueue_pushPacket_def RateLimitQueue_dropLoop.simps
  RateLimitQueue_isOverloaded_def RateLimitQueue_canPullSomePacket_def RateLimitQueue_pullPacket_def
  RateLimitQueue_mintime_def fifo_insert_def Let_def

theorem ratelimit_long_run_witness:
  "\<exists>s' es. run_out (RateLimitQueue_step sample_rl) [RlPush (sample_credit 1), RlPoll 1, RlPoll 2]
      \<lparr>rl_queue = [], rl_lasttime = 0, canpull = None\<rparr> = Inr (s', es) \<and>
     sum_list (map (RateLimitQueue_mintime sample_rl) [sample_credit 1]) \<le> rl_lasttime s'"
proof -
  let ?s = "\<lparr>rl_queue = [], rl_lasttime = 0, canpull = None\<rparr>"
  let ?ops = "[RlPush (sample_credit 1), RlPoll 1, RlPoll 2]"
  obtain s' es where r: "run_out (RateLimitQueue_step sample_rl) ?ops ?s = Inr (s', es)"
    by (simp add: rl_eval)
  have "rl_served sample_rl ?ops ?s = [sample_credit 1]" by (simp add: rl_eval)
  with ratelimit_long_run[OF r] r show ?thesis by auto
qed

text \<open>The drop loop of the credit queue terminates with the queue inside its capacities and drops
  only packets from the end, so a push with a dropper never fails and never reaches the assertion.\<close>

theorem ratelimit_push_total:
  assumes "rl_hasDropper cfg" and "0 \<le> rl_packetCapacity cfg \<or> rl_packetCapacity cfg = -1"
    and "0 \<le> rl_dataCapacity cfg \<or> rl_dataCapacity cfg = -1"
  shows "\<exists>s' es n. RateLimitQueue_pushPacket cfg p s = Inr (s', es) \<and>
     \<not> RateLimitQueue_isOverloaded cfg (rl_queue s') \<and> rl_queue s' = take n (rl_insert cfg p (rl_queue s))"
proof -
  let ?q = "rl_insert cfg p (rl_queue s)"
  from dropLoop_ok[OF assms(2,3), of ?q] obtain q' es where d: "RateLimitQueue_dropLoop cfg ?q = Inr (q', es)"
    by (auto simp: is_ok_iff)
  with dropLoop_result[OF d] assms(1) show ?thesis
    by (auto simp: RateLimitQueue_pushPacket_def Let_def)
qed

theorem ratelimit_push_total_witness:
  "\<exists>s' es n. RateLimitQueue_pushPacket sample_rl (sample_credit 9)
       \<lparr>rl_queue = map sample_credit [1,2,3,4,5,6,7,8], rl_lasttime = 0, canpull = None\<rparr> = Inr (s', es) \<and>
     \<not> RateLimitQueue_isOverloaded sample_rl (rl_queue s') \<and>
     rl_queue s' = take n (map sample_credit [1,2,3,4,5,6,7,8,9])"
  using ratelimit_push_total[of sample_rl "sample_credit 9"
      "\<lparr>rl_queue = map sample_credit [1,2,3,4,5,6,7,8], rl_lasttime = 0, canpull = None\<rparr>"]
  by (simp add: sample_rl_def fifo_insert_def)

text \<open>A credit can be stranded.  A packet pushed into the empty queue before the interval since the
  last dequeue has passed is refused to the collector the push wakes, and no timer is armed that
  would wake it again.\<close>

theorem ratelimit_stranded:
  assumes "rl_queue s = []" and "canpull s = None" and "limrate cfg \<noteq> 0"
    and "inserts (rl_insert cfg)" and early: "now - rl_lasttime s < RateLimitQueue_mintime cfg p"
    and "\<not> RateLimitQueue_isOverloaded cfg [p]"
  shows "\<exists>s' es. RateLimitQueue_pushPacket cfg p s = Inr (s', es) \<and> rl_queue s' = [p] \<and>
     RateLimitQueue_canPullSomePacket cfg now s' = Inr False \<and> canpull s' = None \<and> (\<forall>t. RlArmed t \<notin> set es)"
proof -
  have "mset (rl_insert cfg p []) = {#p#}" using assms(4) by (simp add: inserts_def)
  then have "rl_insert cfg p [] = [p]" by simp
  with assms show ?thesis
    by (auto simp: RateLimitQueue_pushPacket_def RateLimitQueue_dropLoop.simps[of cfg "[p]"]
        RateLimitQueue_canPullSomePacket_def Let_def)
qed

theorem ratelimit_stranded_witness:
  "\<exists>s' es. RateLimitQueue_pushPacket sample_rl (sample_credit 2) \<lparr>rl_queue = [], rl_lasttime = 1, canpull = None\<rparr>
      = Inr (s', es) \<and> rl_queue s' = [sample_credit 2] \<and>
     RateLimitQueue_canPullSomePacket sample_rl (11 / 10) s' = Inr False \<and> canpull s' = None"
  using ratelimit_stranded[of "\<lparr>rl_queue = [], rl_lasttime = 1, canpull = None\<rparr>" sample_rl "11 / 10" "sample_credit 2"]
  by (auto simp: rl_eval inserts_fifo[unfolded fifo_insert_def] inserts_def)

end
