(* ===== verification/Wrr_Scheduler.thy ===== *)
theory Wrr_Scheduler
  imports Packets Machine RED_PFC_Queue
begin

section \<open>WrrScheduler: weighted round robin over the queues of an interface\<close>

text \<open>
  \<open>HiNA/Ethernet/HiQueue/HiScheduler/WrrScheduler\<close> with the parts of \<open>queueing/base/PacketSchedulerBase\<close>
  it runs on.  The scheduler keeps an array of weights and an array of buckets; its inputs are
  asked through \<open>canPullSomePacket\<close> and pulled through \<open>pullPacket\<close>, two operations on the state of
  the providers.  The BFC and BCN schedulers run the same scan over other eligibility tests.
\<close>

record wrr =
  weights :: "u32 list"
  buckets :: "u32 list"

text \<open>
  \<open>initialize\<close>: the parsed values of the parameter \<open>weights\<close> fill both arrays; one value per
  provider is required.
\<close>

definition WrrScheduler_initialize :: "nat \<Rightarrow> u32 list \<Rightarrow> wrr res" where
  "WrrScheduler_initialize n tokens =
     (if length tokens < n then Inl (RuntimeError ''Too few values given in the weights parameter.'')
      else if n < length tokens then Inl (RuntimeError ''Too many values given in the weights parameter.'')
      else Inr \<lparr>weights = tokens, buckets = tokens\<rparr>)"

text \<open>
  The scan: the first eligible input with a token is returned at once; on the way the first
  eligible weighted and the first eligible non-weighted input are remembered.
\<close>

fun wrr_scan :: "(nat \<Rightarrow> bool) \<Rightarrow> u32 list \<Rightarrow> u32 list \<Rightarrow> nat list \<Rightarrow> nat option \<Rightarrow> nat option \<Rightarrow>
    nat + (nat option \<times> nat option)" where
  "wrr_scan elig w b [] fw fn = Inr (fw, fn)"
| "wrr_scan elig w b (i # is) fw fn =
     (if elig i then
        (if b ! i > 0 then Inl i
         else if fw = None \<and> w ! i > 0 then wrr_scan elig w b is (Some i) fn
         else if fn = None \<and> w ! i = 0 then wrr_scan elig w b is fw (Some i)
         else wrr_scan elig w b is fw fn)
      else wrr_scan elig w b is fw fn)"

definition WrrScheduler_schedulePacket :: "(nat \<Rightarrow> bool) \<Rightarrow> wrr \<Rightarrow> int \<times> wrr" where
  "WrrScheduler_schedulePacket canPull s =
     (case wrr_scan canPull (weights s) (buckets s) [0..<length (buckets s)] None None of
        Inl i \<Rightarrow> (int i, s\<lparr>buckets := arr_dec (buckets s) i\<rparr>)
      | Inr (Some i, _) \<Rightarrow> (int i, s\<lparr>buckets := arr_dec (weights s) i\<rparr>)
      | Inr (None, Some i) \<Rightarrow> (int i, s)
      | Inr (None, None) \<Rightarrow> (-1, s))"

text \<open>\<open>PacketSchedulerBase::callSchedulePacket\<close>\<close>

definition callSchedulePacket :: "nat \<Rightarrow> int \<times> 's \<Rightarrow> (nat \<times> 's) res" where
  "callSchedulePacket n r =
     (if fst r < 0 \<or> nat (fst r) \<ge> n then Inl (RuntimeError ''Scheduled packet from invalid input gate'')
      else Inr (nat (fst r), snd r))"

text \<open>
  \<open>pullPacket\<close>: \<open>canPull g i\<close> and \<open>pull i g\<close> are the operations of provider \<open>i\<close> in the state \<open>g\<close> of all
  providers.
\<close>

definition WrrScheduler_pullPacket ::
    "('g \<Rightarrow> nat \<Rightarrow> bool) \<Rightarrow> (nat \<Rightarrow> 'g \<Rightarrow> ('p \<times> 'g) res) \<Rightarrow> nat \<Rightarrow> 'g \<Rightarrow> wrr \<Rightarrow> ('p \<times> 'g \<times> wrr) res" where
  "WrrScheduler_pullPacket canPull pull n g s =
     rbind (callSchedulePacket n (WrrScheduler_schedulePacket (canPull g) s)) (\<lambda>(i, s').
       rbind (pull i g) (\<lambda>(p, g'). Inr (p, g', s')))"

definition PacketSchedulerBase_canPullSomePacket :: "nat \<Rightarrow> (nat \<Rightarrow> bool) \<Rightarrow> bool" where
  "PacketSchedulerBase_canPullSomePacket n canPull \<longleftrightarrow> (\<exists>i\<in>set [0..<n]. canPull i)"

definition WrrScheduler_getNumPackets :: "packet list list \<Rightarrow> int" where
  "WrrScheduler_getNumPackets qs = sum_list (map (\<lambda>q. int (length q)) qs)"

definition WrrScheduler_getTotalLength :: "packet list list \<Rightarrow> int" where
  "WrrScheduler_getTotalLength qs = sum_list (map bitLength qs)"

subsection \<open>What the scan returns\<close>

lemma wrr_scan_Inl:
  "wrr_scan elig w b is fw fn = Inl i \<Longrightarrow> i \<in> set is \<and> elig i \<and> b ! i > 0"
  by (induction "is" arbitrary: fw fn) (auto split: if_splits)

lemma scan_no_token:
  "wrr_scan elig w b is fw fn = Inr r \<Longrightarrow> \<forall>i\<in>set is. elig i \<longrightarrow> b ! i = 0"
  by (induction "is" arbitrary: fw fn) (auto split: if_splits simp: word_gt_0)

lemma scan_keeps_fw: "wrr_scan elig w b is (Some i) fn = Inr (fw', fn') \<Longrightarrow> fw' = Some i"
  by (induction "is" arbitrary: fn) (auto split: if_splits)

lemma scan_keeps_fn: "wrr_scan elig w b is fw (Some i) = Inr (fw', fn') \<Longrightarrow> fn' = Some i"
  by (induction "is" arbitrary: fw) (auto split: if_splits)

lemma scan_fw:
  "wrr_scan elig w b is fw fn = Inr (Some i, fn') \<Longrightarrow> fw = Some i \<or> (i \<in> set is \<and> elig i \<and> w ! i > 0)"
proof (induction "is" arbitrary: fw fn)
  case Nil
  then show ?case by simp
next
  case (Cons j js)
  show ?case
    using Cons.prems Cons.IH[of fw fn] Cons.IH[of fw "Some j"] scan_keeps_fw[of elig w b js j fn "Some i" fn']
    by (auto split: if_splits)
qed

lemma scan_fn:
  "wrr_scan elig w b is fw fn = Inr (fw', Some i) \<Longrightarrow> fn = Some i \<or> (i \<in> set is \<and> elig i \<and> w ! i = 0)"
proof (induction "is" arbitrary: fw fn)
  case Nil
  then show ?case by simp
next
  case (Cons j js)
  show ?case
    using Cons.prems Cons.IH[of fw fn] Cons.IH[of "Some j" fn] scan_keeps_fn[of elig w b js fw j fw' "Some i"]
    by (auto split: if_splits)
qed

lemma scan_fw_None:
  "wrr_scan elig w b is fw fn = Inr (None, fn') \<Longrightarrow> \<forall>i\<in>set is. elig i \<longrightarrow> w ! i = 0"
proof (induction "is" arbitrary: fw fn)
  case Nil
  then show ?case by simp
next
  case (Cons j js)
  show ?case
    using Cons.prems Cons.IH[of fw fn] Cons.IH[of fw "Some j"]
      scan_keeps_fw[of elig w b js j fn None fn'] scan_keeps_fw[of elig w b "j # js" _ fn None fn']
    by (cases fw) (auto split: if_splits simp: word_gt_0)
qed

lemma scan_none:
  "wrr_scan elig w b is fw fn = Inr (None, None) \<Longrightarrow> \<forall>i\<in>set is. \<not> elig i"
proof (induction "is" arbitrary: fw fn)
  case Nil
  then show ?case by simp
next
  case (Cons j js)
  have fw: "fw = None"
    using scan_keeps_fw[of elig w b "j # js" _ fn None None] Cons.prems by (cases fw) auto
  have fn: "fn = None"
    using scan_keeps_fn[of elig w b "j # js" fw _ None None] Cons.prems by (cases fn) auto
  show ?case
    using Cons.prems Cons.IH[of None None] scan_keeps_fw[of elig w b js j None None None]
      scan_keeps_fn[of elig w b js None j None None]
    unfolding fw fn by (auto split: if_splits simp: word_gt_0)
qed

lemmas scan_facts = scan_no_token scan_fw scan_fn scan_fw_None scan_none

definition wrr_ok :: "nat \<Rightarrow> wrr \<Rightarrow> bool" where
  "wrr_ok n s \<longleftrightarrow> length (weights s) = n \<and> length (buckets s) = n \<and>
     (\<forall>i<n. unat (buckets s ! i) \<le> unat (weights s ! i))"

lemma initialize_wrr_ok: "WrrScheduler_initialize n tokens = Inr s \<Longrightarrow> wrr_ok n s"
  by (auto simp: WrrScheduler_initialize_def wrr_ok_def split: if_splits)

lemma schedule_cases:
  obtains (token) i where "WrrScheduler_schedulePacket c s = (int i, s\<lparr>buckets := arr_dec (buckets s) i\<rparr>)"
      "i < length (buckets s)" "c i" "buckets s ! i > 0"
    | (refill) i where "WrrScheduler_schedulePacket c s = (int i, s\<lparr>buckets := arr_dec (weights s) i\<rparr>)"
      "i < length (buckets s)" "c i" "weights s ! i > 0" "\<forall>j<length (buckets s). c j \<longrightarrow> buckets s ! j = 0"
    | (unweighted) i where "WrrScheduler_schedulePacket c s = (int i, s)" "i < length (buckets s)" "c i"
      "weights s ! i = 0" "\<forall>j<length (buckets s). c j \<longrightarrow> weights s ! j = 0"
    | (idle) "WrrScheduler_schedulePacket c s = (-1, s)" "\<forall>j<length (buckets s). \<not> c j"
proof (cases "wrr_scan c (weights s) (buckets s) [0..<length (buckets s)] None None")
  case (Inl i)
  with wrr_scan_Inl[OF Inl] show thesis
    by (intro token[of i]) (auto simp: WrrScheduler_schedulePacket_def)
next
  case (Inr r)
  obtain fw fn where r: "r = (fw, fn)" by (cases r)
  note scan = Inr[unfolded r]
  show thesis
  proof (cases fw)
    case (Some i)
    with scan_no_token[OF Inr] scan_fw[OF scan[unfolded Some]] Inr r show thesis
      by (intro refill[of i]) (auto simp: WrrScheduler_schedulePacket_def)
  next
    case fw: None
    note scan' = scan[unfolded fw]
    show thesis
    proof (cases fn)
      case (Some i)
      with fw scan_fn[OF scan'[unfolded Some]] scan_fw_None[OF scan'] Inr r show thesis
        by (intro unweighted[of i]) (auto simp: WrrScheduler_schedulePacket_def)
    next
      case None
      with fw scan_none[OF scan'[unfolded None]] Inr r show thesis
        by (intro idle) (auto simp: WrrScheduler_schedulePacket_def)
    qed
  qed
qed

lemma wrr_ok_schedule:
  assumes "wrr_ok n s" and "WrrScheduler_schedulePacket c s = (r, s')"
  shows "wrr_ok n s' \<and> weights s' = weights s"
proof (cases rule: schedule_cases[of c s])
  case (token i)
  with assms unat_dec[of "buckets s ! i"] show ?thesis
    by (auto simp: wrr_ok_def arr_dec_nth intro!: le_trans[OF diff_le_self[of "unat (buckets s ! i)" "Suc 0"]])
next
  case (refill i)
  with assms unat_dec[of "weights s ! i"] show ?thesis
    by (auto simp: wrr_ok_def arr_dec_nth)
qed (use assms in auto)

lemma schedule_available:
  assumes "wrr_ok n s" and "WrrScheduler_schedulePacket c s = (r, s')"
  shows "(r = -1 \<and> (\<forall>i<n. \<not> c i)) \<or> (0 \<le> r \<and> nat r < n \<and> c (nat r))"
proof (cases rule: schedule_cases[of c s])
  case (token i)
  with assms show ?thesis by (auto simp: wrr_ok_def)
next
  case (refill i)
  with assms show ?thesis by (auto simp: wrr_ok_def)
next
  case (unweighted i)
  with assms show ?thesis by (auto simp: wrr_ok_def)
next
  case idle
  with assms show ?thesis by (auto simp: wrr_ok_def)
qed

subsection \<open>The providers\<close>

text \<open>
  What the scheduler asks of a provider: one that says it can be pulled can be pulled.
\<close>

locale packet_sources =
  fixes canPull :: "'g \<Rightarrow> nat \<Rightarrow> bool"
    and pull :: "nat \<Rightarrow> 'g \<Rightarrow> ('p \<times> 'g) res"
    and n :: nat
  assumes pull_possible: "i < n \<Longrightarrow> canPull g i \<Longrightarrow> is_ok (pull i g)"
begin

lemma wrr_pull_iff:
  assumes "wrr_ok n s"
  shows "is_ok (WrrScheduler_pullPacket canPull pull n g s) \<longleftrightarrow> PacketSchedulerBase_canPullSomePacket n (canPull g)"
proof -
  obtain r s' where sch: "WrrScheduler_schedulePacket (canPull g) s = (r, s')" by fastforce
  from schedule_available[OF assms sch] show ?thesis
  proof
    assume "r = -1 \<and> (\<forall>i<n. \<not> canPull g i)"
    with sch show ?thesis
      by (auto simp: WrrScheduler_pullPacket_def callSchedulePacket_def PacketSchedulerBase_canPullSomePacket_def)
  next
    assume r: "0 \<le> r \<and> nat r < n \<and> canPull g (nat r)"
    then have "is_ok (pull (nat r) g)" by (intro pull_possible) auto
    with r sch show ?thesis
      by (auto simp: WrrScheduler_pullPacket_def callSchedulePacket_def is_ok_iff
          PacketSchedulerBase_canPullSomePacket_def)
  qed
qed

end

text \<open>The queues of one interface of a switch: their states and the shared buffer.\<close>

type_synonym red_bank = "redq list \<times> sbuf"

definition bank_canPull :: "red_bank \<Rightarrow> nat \<Rightarrow> bool" where
  "bank_canPull g i = REDPFCQueue_canPullSomePacket (fst g ! i)"

definition bank_pull :: "(nat \<Rightarrow> red_cfg) \<Rightarrow> (nat \<Rightarrow> double) \<Rightarrow> nat \<Rightarrow> red_bank \<Rightarrow> (packet \<times> red_bank) res" where
  "bank_pull cfg rnd i g =
     rbind (REDPFCQueue_pullPacket (cfg i) (rnd i) (fst g ! i, snd g)) (\<lambda>(p, (s', sb'), es).
       Inr (p, ((fst g)[i := s'], sb')))"

interpretation red_bank: packet_sources bank_canPull "bank_pull cfg rnd" n for cfg rnd n
proof (unfold_locales, goal_cases)
  case (1 i g)
  then have "queue (fst g ! i) \<noteq> []"
    by (simp add: bank_canPull_def REDPFCQueue_canPullSomePacket_def REDPFCQueue_getNumPackets_def)
  then have "is_ok (REDPFCQueue_pullPacket (cfg i) (rnd i) (fst g ! i, snd g))"
    by (simp add: pull_ok)
  then show ?case by (auto simp: bank_pull_def is_ok_iff)
qed

subsection \<open>One round\<close>

text \<open>Services while every provider always has a packet.\<close>

fun wrr_serve :: "nat \<Rightarrow> wrr \<Rightarrow> int list \<times> wrr" where
  "wrr_serve 0 s = ([], s)"
| "wrr_serve (Suc k) s =
     (let (i, s') = WrrScheduler_schedulePacket (\<lambda>_. True) s; (is, s'') = wrr_serve k s' in (i # is, s''))"

text \<open>The order a round follows: each input as often as its bucket says, in index order.\<close>

fun round_from :: "nat \<Rightarrow> u32 list \<Rightarrow> int list" where
  "round_from k [] = []"
| "round_from k (b # bs) = replicate (unat b) (int k) @ round_from (Suc k) bs"

definition tokens :: "u32 list \<Rightarrow> nat" where
  "tokens b = sum_list (map unat b)"

lemma length_round_from: "length (round_from k b) = tokens b"
  by (induction b arbitrary: k) (auto simp: tokens_def)

lemma round_count: "k \<le> i \<Longrightarrow> i < k + length b \<Longrightarrow> count_list (round_from k b) (int i) = unat (b ! (i - k))"
proof (induction b arbitrary: k)
  case Nil
  then show ?case by simp
next
  case (Cons a b)
  have late: "count_list (round_from (Suc k) b) (int k) = 0"
  proof -
    have "int k \<notin> set (round_from (Suc k) b)"
    proof -
      have "j \<in> set (round_from m b) \<Longrightarrow> int m \<le> j" for j m
        by (induction b arbitrary: m) fastforce+
      then show ?thesis by fastforce
    qed
    then show ?thesis by (simp add: count_list_0_iff)
  qed
  have rep: "count_list (replicate m (x::int)) y = (if x = y then m else 0)" for m x y
    by (induction m) auto
  show ?case
  proof (cases "i = k")
    case True
    with late rep show ?thesis by simp
  next
    case False
    with Cons.prems have "Suc k \<le> i" "i < Suc k + length b" by auto
    from Cons.IH[OF this] False Cons.prems rep show ?thesis
      by (simp add: nth_Cons' Suc_diff_Suc diff_Suc)
  qed
qed

text \<open>With a token somewhere, the scan takes the first; the round loses its head.\<close>

lemma scan_first_token:
  assumes "i < length b" "b ! i > 0" "\<forall>j<i. b ! j = 0"
  shows "wrr_scan (\<lambda>_. True) w b [0..<length b] None None = Inl i"
proof -
  have skip: "\<forall>j\<in>set is. b ! j = 0 \<Longrightarrow> wrr_scan (\<lambda>_. True) w b (is @ i # js) fw fn = Inl i" for "is" js fw fn
    using assms(2) by (induction "is" arbitrary: fw fn) auto
  have "[0..<length b] = [0..<i] @ i # [Suc i..<length b]"
    using assms(1) by (metis less_imp_le_nat upt_add_eq_append upt_conv_Cons le_add_diff_inverse zero_le)
  then show ?thesis using skip[of "[0..<i]"] assms(3) by simp
qed

lemma round_step:
  "i < length b \<Longrightarrow> b ! i > 0 \<Longrightarrow> \<forall>j<i. b ! j = 0 \<Longrightarrow>
     round_from k b = int (k + i) # round_from k (arr_dec b i)"
proof (induction b arbitrary: i k)
  case Nil
  then show ?case by simp
next
  case (Cons a b)
  show ?case
  proof (cases i)
    case 0
    with Cons.prems have a: "a > 0" by simp
    then have "unat a = Suc (unat (a - 1))" using unat_dec[of a] by (simp add: word_gt_0 unat_gt_0)
    with 0 show ?thesis by (simp add: arr_dec_def)
  next
    case (Suc m)
    with Cons.prems have a0: "a = 0" by force
    from Suc Cons.prems have "m < length b" "b ! m > 0" "\<forall>j<m. b ! j = 0" by force+
    from Cons.IH[OF this, of "Suc k"] Suc a0 show ?thesis by (simp add: arr_dec_def)
  qed
qed

lemma exists_first_token:
  assumes "tokens b > 0"
  obtains i where "i < length b" "b ! i > 0" "\<forall>j<i. b ! j = 0"
proof -
  have "\<exists>i<length b. b ! i > 0"
  proof (rule ccontr)
    assume "\<not> ?thesis"
    then have "\<forall>x\<in>set b. unat x = 0" by (auto simp: in_set_conv_nth word_gt_0)
    then have "tokens b = 0" by (simp add: tokens_def)
    with assms show False by simp
  qed
  then obtain i where i: "i < length b \<and> b ! i > 0" by blast
  define m where "m = (LEAST i. i < length b \<and> b ! i > 0)"
  have "m < length b \<and> b ! m > 0" unfolding m_def using i by (rule LeastI)
  moreover have "\<forall>j<m. b ! j = 0"
    using not_less_Least[of _ "\<lambda>i. i < length b \<and> b ! i > 0"] calculation
    unfolding m_def[symmetric] by (metis less_trans word_gt_0)
  ultimately show thesis by (intro that) auto
qed

lemma tokens_dec: "i < length b \<Longrightarrow> b ! i > 0 \<Longrightarrow> \<forall>j<i. b ! j = 0 \<Longrightarrow> tokens b = Suc (tokens (arr_dec b i))"
  using round_step[of i b 0] length_round_from[of 0 b] length_round_from[of 0 "arr_dec b i"] by simp

lemma serve_round:
  "tokens (buckets s) = m \<Longrightarrow> length (weights s) = length (buckets s) \<Longrightarrow>
     \<exists>s'. wrr_serve m s = (round_from 0 (buckets s), s') \<and> weights s' = weights s \<and>
       length (buckets s') = length (buckets s) \<and> tokens (buckets s') = 0"
proof (induction m arbitrary: s)
  case 0
  then have "round_from 0 (buckets s) = []" by (metis length_round_from length_0_conv)
  with 0 show ?case by simp
next
  case (Suc m)
  then obtain i where i: "i < length (buckets s)" "buckets s ! i > 0" "\<forall>j<i. buckets s ! j = 0"
    using exists_first_token by (metis zero_less_Suc)
  let ?s1 = "s\<lparr>buckets := arr_dec (buckets s) i\<rparr>"
  have sch: "WrrScheduler_schedulePacket (\<lambda>_. True) s = (int i, ?s1)"
    using scan_first_token[OF i] by (simp add: WrrScheduler_schedulePacket_def)
  have "tokens (buckets ?s1) = m" using tokens_dec[OF i] Suc.prems(1) by simp
  with Suc.IH[of ?s1] Suc.prems obtain s' where
    s': "wrr_serve m ?s1 = (round_from 0 (buckets ?s1), s')" "weights s' = weights s"
      "length (buckets s') = length (buckets s)" "tokens (buckets s') = 0"
    by auto
  with sch round_step[OF i, of 0] show ?case by simp
qed


text \<open>Without tokens the first weighted input triggers the refill, so the next round is the round of the weights.\<close>

lemma scan_refill:
  assumes "tokens b = 0" "length b = length w" "i < length w" "w ! i > 0" "\<forall>j<i. w ! j = 0"
  shows "\<exists>fn. wrr_scan (\<lambda>_. True) w b [0..<length b] None None = Inr (Some i, fn)"
proof -
  have b0: "\<forall>j<length b. b ! j = 0"
    using assms(1) by (auto simp: tokens_def unat_eq_0)
  have pre: "\<forall>j\<in>set is. b ! j = 0 \<and> w ! j = 0 \<Longrightarrow>
      \<exists>fn'. wrr_scan (\<lambda>_. True) w b (is @ js) None fn = wrr_scan (\<lambda>_. True) w b js None fn'" for "is" js fn
    by (induction "is" arbitrary: fn) (auto simp: word_gt_0)
  have rest: "\<forall>j\<in>set js. b ! j = 0 \<Longrightarrow> \<exists>fn'. wrr_scan (\<lambda>_. True) w b js (Some i) fn = Inr (Some i, fn')" for js fn
    by (induction js arbitrary: fn) auto
  have split: "[0..<length b] = [0..<i] @ i # [Suc i..<length b]"
    using assms(2,3) by (metis less_imp_le_nat upt_add_eq_append upt_conv_Cons le_add_diff_inverse zero_le)
  obtain fn where "wrr_scan (\<lambda>_. True) w b ([0..<i] @ i # [Suc i..<length b]) None None
      = wrr_scan (\<lambda>_. True) w b (i # [Suc i..<length b]) None fn"
    using pre[of "[0..<i]" "i # [Suc i..<length b]" None] b0 assms(2,3,5) by auto
  also have "\<dots> = wrr_scan (\<lambda>_. True) w b [Suc i..<length b] (Some i) fn"
    using b0 assms(2-4) by (simp add: word_gt_0)
  finally show ?thesis using rest[of "[Suc i..<length b]" fn] b0 split by auto
qed

lemma refill_step:
  assumes "tokens (buckets s) = 0" "length (buckets s) = length (weights s)" "tokens (weights s) > 0"
  shows "WrrScheduler_schedulePacket (\<lambda>_. True) s =
         WrrScheduler_schedulePacket (\<lambda>_. True) (s\<lparr>buckets := weights s\<rparr>)"
proof -
  obtain i where i: "i < length (weights s)" "weights s ! i > 0" "\<forall>j<i. weights s ! j = 0"
    using assms(3) by (rule exists_first_token)
  from scan_refill[OF assms(1,2) i] scan_first_token[OF i, of "weights s"] show ?thesis
    by (auto simp: WrrScheduler_schedulePacket_def)
qed

lemma serve_after_refill:
  assumes "tokens (buckets s) = 0" "length (buckets s) = length (weights s)" "tokens (weights s) > 0"
  shows "wrr_serve (Suc m) s = wrr_serve (Suc m) (s\<lparr>buckets := weights s\<rparr>)"
  using refill_step[OF assms] by simp

lemma serve_add:
  "wrr_serve (m + k) s = (let (xs, s1) = wrr_serve m s; (ys, s2) = wrr_serve k s1 in (xs @ ys, s2))"
  by (induction m arbitrary: s) (auto simp: Let_def split: prod.splits)

lemma serve_rounds:
  assumes "length (buckets s) = length (weights s)" and "tokens (weights s) > 0"
    and "tokens (buckets s) = 0"
  shows "\<exists>s'. wrr_serve (r * tokens (weights s)) s = (concat (replicate r (round_from 0 (weights s))), s') \<and>
     weights s' = weights s \<and> length (buckets s') = length (weights s) \<and> tokens (buckets s') = 0"
proof (induction r)
  case 0
  then show ?case using assms by simp
next
  case (Suc r)
  let ?W = "tokens (weights s)"
  from Suc obtain s1 where s1: "wrr_serve (r * ?W) s = (concat (replicate r (round_from 0 (weights s))), s1)"
    "weights s1 = weights s" "length (buckets s1) = length (weights s)" "tokens (buckets s1) = 0"
    by blast
  obtain m where m: "?W = Suc m" using assms(2) by (cases ?W) auto
  have "wrr_serve ?W s1 = wrr_serve ?W (s1\<lparr>buckets := weights s1\<rparr>)"
    using serve_after_refill[of s1 m] s1 m assms(2) by simp
  moreover obtain s2 where "wrr_serve ?W (s1\<lparr>buckets := weights s1\<rparr>) = (round_from 0 (weights s1), s2)"
    "weights s2 = weights s1" "length (buckets s2) = length (weights s1)" "tokens (buckets s2) = 0"
    using serve_round[of "s1\<lparr>buckets := weights s1\<rparr>" ?W] s1 by auto
  ultimately have "wrr_serve ?W s1 = (round_from 0 (weights s), s2)" "weights s2 = weights s"
    "length (buckets s2) = length (weights s)" "tokens (buckets s2) = 0"
    using s1 by auto
  moreover have "Suc r * ?W = r * ?W + ?W" by simp
  moreover have "concat (replicate (Suc r) (round_from 0 (weights s)))
      = concat (replicate r (round_from 0 (weights s))) @ round_from 0 (weights s)"
    by (metis append_Nil2 concat.simps concat_append replicate_Suc replicate_append_same)
  ultimately show ?case using s1(1) serve_add[of "r * ?W" ?W s] by (simp add: add.commute)
qed

subsection \<open>Properties\<close>

text \<open>C8: The scheduler picks an input exactly when one can be pulled: the index it returns is an
  input whose provider has a packet, and it returns \<open>-1\<close> only when no provider has one, whatever
  the weights and the token state.\<close>

theorem wrr_schedule_correct:
  assumes "wrr_ok n s" and "WrrScheduler_schedulePacket canPull s = (r, s')"
  shows "(r = -1 \<longleftrightarrow> (\<forall>i<n. \<not> canPull i)) \<and> (r \<noteq> -1 \<longrightarrow> 0 \<le> r \<and> nat r < n \<and> canPull (nat r))"
  using schedule_available[OF assms] by auto

theorem wrr_schedule_correct_witness:
  "fst (WrrScheduler_schedulePacket (\<lambda>i. i = 1) \<lparr>weights = [1, 0, 2], buckets = [0, 0, 1]\<rparr>) = 1 \<and>
   (\<lambda>i. i = 1) (nat 1)"
proof -
  let ?s = "\<lparr>weights = [1, 0, 2], buckets = [0, 0, 1]\<rparr> :: wrr"
  have ok: "wrr_ok 3 ?s" by (auto simp: wrr_ok_def less_Suc_eq numeral_3_eq_3)
  obtain r s' where r: "WrrScheduler_schedulePacket (\<lambda>i. i = 1) ?s = (r, s')" by fastforce
  have "r \<noteq> -1" using wrr_schedule_correct[OF ok r] by auto
  with wrr_schedule_correct[OF ok r] r show ?thesis by auto
qed

fun wrr_run :: "(nat \<Rightarrow> bool) list \<Rightarrow> wrr \<Rightarrow> wrr" where
  "wrr_run [] s = s"
| "wrr_run (c # cs) s = wrr_run cs (snd (WrrScheduler_schedulePacket c s))"

text \<open>Tokens are bounded: from initialisation on, after any sequence of scheduling decisions every
  bucket is at most its weight, so the unsigned decrements of the code never wrap.\<close>

theorem wrr_tokens_bounded:
  assumes "WrrScheduler_initialize n ws = Inr s"
  shows "wrr_ok n (wrr_run cs s) \<and> weights (wrr_run cs s) = ws"
proof -
  have "wrr_ok n t \<Longrightarrow> wrr_ok n (wrr_run cs t) \<and> weights (wrr_run cs t) = weights t" for t
  proof (induction cs arbitrary: t)
    case Nil
    then show ?case by simp
  next
    case (Cons c cs)
    obtain r t' where "WrrScheduler_schedulePacket c t = (r, t')" by fastforce
    with wrr_ok_schedule[OF Cons.prems this] Cons.IH[of t'] show ?case by simp
  qed
  moreover have "weights s = ws" using assms by (auto simp: WrrScheduler_initialize_def split: if_splits)
  ultimately show ?thesis using initialize_wrr_ok[OF assms] by blast
qed

theorem wrr_tokens_bounded_witness:
  "\<exists>s. WrrScheduler_initialize 2 [3, 1] = Inr s \<and> wrr_ok 2 (wrr_run [\<lambda>_. True, \<lambda>i. i = 1] s)"
proof -
  obtain s where "WrrScheduler_initialize 2 [3, 1] = Inr s" by (simp add: WrrScheduler_initialize_def)
  with wrr_tokens_bounded[OF this] show ?thesis by blast
qed

text \<open>C40: Weighted fairness.  While every input stays backlogged the service sequence is periodic:
  after the tokens of the current round are used up, every block of \<open>sum of weights\<close> services
  serves input \<open>i\<close> exactly \<open>weights[i]\<close> times, in index order.\<close>

theorem wrr_weighted_fairness:
  assumes "length (buckets s) = length (weights s)" and "tokens (weights s) > 0"
    and "tokens (buckets s) = 0" and "i < length (weights s)"
  shows "fst (wrr_serve (r * tokens (weights s)) s) = concat (replicate r (round_from 0 (weights s))) \<and>
     count_list (round_from 0 (weights s)) (int i) = unat (weights s ! i)"
  using serve_rounds[OF assms(1-3), of r] round_count[of 0 i "weights s"] assms(4) by auto

theorem wrr_weighted_fairness_witness:
  "fst (wrr_serve (2 * 3) \<lparr>weights = [2, 0, 1], buckets = [0, 0, 0]\<rparr>) = [0, 0, 2, 0, 0, 2] \<and>
   count_list (round_from 0 [2, 0, 1]) (int 2) = 1"
proof -
  have t: "tokens [2, 0, 1] = 3" "tokens [0, 0, 0] = 0" by (simp_all add: tokens_def)
  have r: "round_from 0 [2, 0, 1] = [0, 0, 2]" by code_simp
  have two: "concat (replicate 2 xs) = xs @ xs" for xs :: "int list" by (simp add: numeral_2_eq_2)
  have rep: "replicate 2 x = [x, x]" for x :: int by (simp add: numeral_2_eq_2)
  show ?thesis
    using wrr_weighted_fairness[of "\<lparr>weights = [2, 0, 1], buckets = [0, 0, 0]\<rparr>" 2 2]
    by (simp add: t r two rep)
qed

text \<open>Over the queues of an interface the scheduler's answer to \<open>canPullSomePacket\<close> is honest: a
  \<open>pullPacket\<close> succeeds exactly when it says that some packet can be pulled.\<close>

theorem wrr_pull_exactly_when_possible:
  assumes "wrr_ok n s"
  shows "is_ok (WrrScheduler_pullPacket bank_canPull (bank_pull cfg rnd) n g s) \<longleftrightarrow>
     PacketSchedulerBase_canPullSomePacket n (bank_canPull g)"
  using assms by (rule red_bank.wrr_pull_iff)

theorem wrr_pull_exactly_when_possible_witness:
  "is_ok (WrrScheduler_pullPacket bank_canPull (bank_pull (\<lambda>_. sample_red) (\<lambda>_. 0)) 2
      ([sample_redq, sample_redq\<lparr>queue := [sample_pkt 1 400]\<rparr>], \<lambda>_. 500) \<lparr>weights = [1, 1], buckets = [1, 1]\<rparr>)"
proof -
  let ?s = "\<lparr>weights = [1, 1], buckets = [1, 1]\<rparr> :: wrr"
  have ok: "wrr_ok 2 ?s" by (auto simp: wrr_ok_def less_Suc_eq numeral_2_eq_2)
  show ?thesis
    unfolding wrr_pull_exactly_when_possible[OF ok]
    by (simp add: PacketSchedulerBase_canPullSomePacket_def bank_canPull_def REDPFCQueue_canPullSomePacket_def
        REDPFCQueue_getNumPackets_def sample_redq_def numeral_2_eq_2)
qed

end
