(* ===== verification/Pause_Schedulers.thy ===== *)
theory Pause_Schedulers
  imports Wrr_Scheduler RED_PFC_Subclasses Std_Map
begin

section \<open>Schedulers that react to pause frames\<close>

text \<open>
  \<open>HiPriorityScheduler\<close> serves the priorities of an interface in strict order and skips paused ones.
  \<open>BFCScheduler\<close> and \<open>BCNScheduler\<close> count the pauses of every queue and share the weighted scan of
  the WRR scheduler.  All three keep a \<open>std::map\<close> from queue to pause state that \<open>initialize\<close> fills
  for every input; a lookup of a missing key dereferences the end iterator.
\<close>

datatype pause_op = PFC_PAUSE | PFC_RESUME | PFC_OTHER

subsection \<open>HiPriorityScheduler\<close>

record prio_sched =
  ps_ispaused :: "(int, bool) smap"
  ps_inProgress :: int
  ps_reverse :: bool

definition ps_lookup :: "(int, 'v) smap \<Rightarrow> nat \<Rightarrow> 'v res" where
  "ps_lookup m i = (case map_get m (int i) of None \<Rightarrow> Inl EndIterator | Some b \<Rightarrow> Inr b)"

text \<open>\<open>PacketSchedulerBase::getInputGateIndex\<close>\<close>

definition getInputGateIndex :: "bool \<Rightarrow> nat \<Rightarrow> nat \<Rightarrow> nat" where
  "getInputGateIndex rvs n i = (if rvs then n - i - 1 else i)"

fun init_map :: "'v \<Rightarrow> nat list \<Rightarrow> (int, 'v) smap \<Rightarrow> (int, 'v) smap" where
  "init_map v [] m = m"
| "init_map v (i # is) m = init_map v is (map_put (int i) v m)"

definition HiPriorityScheduler_initialize :: "nat \<Rightarrow> bool \<Rightarrow> prio_sched" where
  "HiPriorityScheduler_initialize numInputs rvs =
     \<lparr>ps_ispaused = init_map False [0..<numInputs] [], ps_inProgress = -1, ps_reverse = rvs\<rparr>"

fun HiPriorityScheduler_canPullLoop :: "(nat \<Rightarrow> bool) \<Rightarrow> (int, bool) smap \<Rightarrow> nat list \<Rightarrow> bool res" where
  "HiPriorityScheduler_canPullLoop canPull m [] = Inr False"
| "HiPriorityScheduler_canPullLoop canPull m (i # is) =
     rbind (ps_lookup m i) (\<lambda>pausd.
       if pausd then HiPriorityScheduler_canPullLoop canPull m is
       else if canPull i then Inr True
       else HiPriorityScheduler_canPullLoop canPull m is)"

definition HiPriorityScheduler_canPullSomePacket :: "nat \<Rightarrow> (nat \<Rightarrow> bool) \<Rightarrow> prio_sched \<Rightarrow> bool res" where
  "HiPriorityScheduler_canPullSomePacket n canPull s =
     HiPriorityScheduler_canPullLoop canPull (ps_ispaused s) [0..<n]"

fun HiPriorityScheduler_scheduleLoop :: "nat \<Rightarrow> (nat \<Rightarrow> bool) \<Rightarrow> prio_sched \<Rightarrow> nat list \<Rightarrow> int res" where
  "HiPriorityScheduler_scheduleLoop n canPull s [] = Inr (-1)"
| "HiPriorityScheduler_scheduleLoop n canPull s (i # is) =
     rbind (ps_lookup (ps_ispaused s) i) (\<lambda>pausd.
       if pausd then HiPriorityScheduler_scheduleLoop n canPull s is
       else
         let inputIndex = getInputGateIndex (ps_reverse s) n i in
         if int inputIndex = ps_inProgress s \<or> canPull inputIndex then Inr (int inputIndex)
         else HiPriorityScheduler_scheduleLoop n canPull s is)"

definition HiPriorityScheduler_schedulePacket :: "nat \<Rightarrow> (nat \<Rightarrow> bool) \<Rightarrow> prio_sched \<Rightarrow> int res" where
  "HiPriorityScheduler_schedulePacket n canPull s = HiPriorityScheduler_scheduleLoop n canPull s [0..<n]"

text \<open>
  \<open>processpfcframe\<close>: sets the flag of the frame's priority and calls \<open>pfcpaused()\<close> or \<open>pfcresumed()\<close>
  on the queues of that priority; \<open>calls\<close> are the indices of those queues.
\<close>

definition HiPriorityScheduler_processpfcframe ::
    "pause_op \<Rightarrow> int \<Rightarrow> int list \<Rightarrow> prio_sched \<Rightarrow> prio_sched \<times> nat list" where
  "HiPriorityScheduler_processpfcframe opc pr prios s =
     (let calls = filter (\<lambda>i. prios ! i = pr) [0..<length prios] in
      case opc of
        PFC_PAUSE \<Rightarrow> (s\<lparr>ps_ispaused := map_put pr True (ps_ispaused s)\<rparr>, calls)
      | PFC_RESUME \<Rightarrow> (s\<lparr>ps_ispaused := map_put pr False (ps_ispaused s)\<rparr>, calls)
      | PFC_OTHER \<Rightarrow> (s, []))"

text \<open>The collection view: packets of the inputs in input order.\<close>

fun HiPriorityScheduler_getPacket :: "packet list list \<Rightarrow> int \<Rightarrow> packet res" where
  "HiPriorityScheduler_getPacket [] index = Inl (RuntimeError ''Index out of range'')"
| "HiPriorityScheduler_getPacket (q # qs) index =
     (if index < int (length q)
      then (if index < 0 then Inl (RuntimeError ''index out of range'') else Inr (q ! nat index))
      else HiPriorityScheduler_getPacket qs (index - int (length q)))"

fun HiPriorityScheduler_removePacket :: "nat \<Rightarrow> packet list list \<Rightarrow> packet list list res" where
  "HiPriorityScheduler_removePacket i [] = Inl (RuntimeError ''Cannot find packet'')"
| "HiPriorityScheduler_removePacket i (q # qs) =
     (if i \<in> p_id ` set q then Inr (remove_ptr i q # qs)
      else rbind (HiPriorityScheduler_removePacket i qs) (\<lambda>qs'. Inr (q # qs')))"

definition HiPriorityScheduler_getNumPackets :: "packet list option list \<Rightarrow> int" where
  "HiPriorityScheduler_getNumPackets cs =
     (if None \<in> set cs then -1 else sum_list (map (\<lambda>q. int (length (the q))) cs))"

definition HiPriorityScheduler_getTotalLength :: "packet list option list \<Rightarrow> int" where
  "HiPriorityScheduler_getTotalLength cs =
     (if None \<in> set cs then -1 else sum_list (map (\<lambda>q. bitLength (the q)) cs))"

definition HiPriorityScheduler_removeAllPackets :: "packet list list \<Rightarrow> packet list list" where
  "HiPriorityScheduler_removeAllPackets qs = map (\<lambda>q. fst (pop_loop 0 q [])) qs"

lemma get_init_map:
  "map_get (init_map v is m) k = (if k \<in> int ` set is then Some v else map_get m k)"
  by (induction "is" arbitrary: m) (auto simp: get_put)

text \<open>Every input has an entry.\<close>

definition ps_ok :: "nat \<Rightarrow> prio_sched \<Rightarrow> bool" where
  "ps_ok n s \<longleftrightarrow> (\<forall>i<n. map_get (ps_ispaused s) (int i) \<noteq> None)"

definition ps_paused :: "prio_sched \<Rightarrow> nat \<Rightarrow> bool" where
  "ps_paused s i \<longleftrightarrow> map_get (ps_ispaused s) (int i) = Some True"

lemma ps_ok_init: "ps_ok n (HiPriorityScheduler_initialize n rvs)"
  by (auto simp: ps_ok_def HiPriorityScheduler_initialize_def get_init_map)

lemma ps_ok_frame: "ps_ok n s \<Longrightarrow> ps_ok n (fst (HiPriorityScheduler_processpfcframe opc pr prios s))"
  by (cases opc) (auto simp: ps_ok_def HiPriorityScheduler_processpfcframe_def get_put Let_def)

lemma ps_lookup_ok: "map_get m (int i) \<noteq> None \<Longrightarrow> ps_lookup m i = Inr (map_get m (int i) = Some True)"
  by (auto simp: ps_lookup_def)

lemma canPullLoop_find:
  assumes "\<forall>i\<in>set is. map_get m (int i) \<noteq> None"
  shows "HiPriorityScheduler_canPullLoop c m is =
     Inr (find_idx (\<lambda>i. map_get m (int i) \<noteq> Some True \<and> c i) is \<noteq> None)"
  using assms by (induction "is") (auto simp: ps_lookup_ok)

lemma scheduleLoop_find:
  assumes "\<forall>i\<in>set is. map_get (ps_ispaused s) (int i) \<noteq> None"
  shows "HiPriorityScheduler_scheduleLoop n c s is =
     Inr (case find_idx (\<lambda>i. \<not> ps_paused s i \<and>
              (int (getInputGateIndex (ps_reverse s) n i) = ps_inProgress s \<or> c (getInputGateIndex (ps_reverse s) n i))) is of
            None \<Rightarrow> -1 | Some i \<Rightarrow> int (getInputGateIndex (ps_reverse s) n i))"
  using assms by (induction "is") (auto simp: ps_lookup_ok Let_def ps_paused_def)

text \<open>Strict priority with pause: the scheduler returns the lowest-numbered input that is neither
  paused nor empty, never a paused one, and \<open>-1\<close> only when every input is paused or empty.\<close>

theorem priority_schedule_strict:
  assumes "ps_ok n s" and "\<not> ps_reverse s" and "ps_inProgress s = -1"
    and "HiPriorityScheduler_schedulePacket n canPull s = Inr r"
  shows "(r = -1 \<and> (\<forall>i<n. ps_paused s i \<or> \<not> canPull i)) \<or>
     (\<exists>i<n. r = int i \<and> \<not> ps_paused s i \<and> canPull i \<and> (\<forall>j<i. ps_paused s j \<or> \<not> canPull j))"
proof -
  let ?P = "\<lambda>i. \<not> ps_paused s i \<and> canPull i"
  have "\<forall>i\<in>set [0..<n]. map_get (ps_ispaused s) (int i) \<noteq> None"
    using assms(1) by (auto simp: ps_ok_def)
  from scheduleLoop_find[OF this, of n canPull] assms(2-4)
  have r: "r = (case find_idx ?P [0..<n] of None \<Rightarrow> -1 | Some i \<Rightarrow> int i)"
    by (auto simp: HiPriorityScheduler_schedulePacket_def getInputGateIndex_def split: option.splits)
  show ?thesis
  proof (cases "find_idx ?P [0..<n]")
    case None
    then have "\<forall>i\<in>set [0..<n]. \<not> ?P i" by (simp only: find_idx_None)
    with None r show ?thesis by auto
  next
    case (Some i)
    then have "i < n \<and> ?P i \<and> (\<forall>j. 0 \<le> j \<longrightarrow> j < i \<longrightarrow> \<not> ?P j)" by (simp only: find_idx_upt_Some) blast
    with Some r show ?thesis by auto
  qed
qed

theorem priority_schedule_strict_witness:
  "HiPriorityScheduler_schedulePacket 3 (\<lambda>i. i > 0)
     (fst (HiPriorityScheduler_processpfcframe PFC_PAUSE 1 [0, 1, 2] (HiPriorityScheduler_initialize 3 False))) = Inr 2 \<and>
   \<not> ps_paused (fst (HiPriorityScheduler_processpfcframe PFC_PAUSE 1 [0, 1, 2] (HiPriorityScheduler_initialize 3 False))) 2"
proof -
  let ?s = "fst (HiPriorityScheduler_processpfcframe PFC_PAUSE 1 [0, 1, 2] (HiPriorityScheduler_initialize 3 False))"
  have m: "ps_ispaused ?s = [(0, False), (1, True), (2, False)]" "\<not> ps_reverse ?s" "ps_inProgress ?s = -1"
    by (simp_all add: HiPriorityScheduler_processpfcframe_def HiPriorityScheduler_initialize_def numeral_3_eq_3)
  have r: "HiPriorityScheduler_schedulePacket 3 (\<lambda>i. i > 0) ?s = Inr 2"
    using m by (simp add: HiPriorityScheduler_schedulePacket_def ps_lookup_def getInputGateIndex_def numeral_3_eq_3)
  have "ps_ok 3 ?s" by (rule ps_ok_frame[OF ps_ok_init])
  from priority_schedule_strict[OF this m(2,3) r] r show ?thesis by auto
qed

text \<open>The two loops of the priority scheduler agree: in every state it can reach,
  \<open>canPullSomePacket\<close> holds exactly when \<open>schedulePacket\<close> finds an input.\<close>

theorem priority_canPull_iff_schedule:
  assumes "ps_ok n s" and "\<not> ps_reverse s" and "ps_inProgress s = -1"
  shows "\<exists>b r. HiPriorityScheduler_canPullSomePacket n canPull s = Inr b \<and>
     HiPriorityScheduler_schedulePacket n canPull s = Inr r \<and> (b \<longleftrightarrow> r \<noteq> -1)"
proof -
  have all: "\<forall>i\<in>set [0..<n]. map_get (ps_ispaused s) (int i) \<noteq> None"
    using assms(1) by (auto simp: ps_ok_def)
  show ?thesis
    using canPullLoop_find[OF all, of canPull] scheduleLoop_find[OF all, of n canPull] assms(2,3)
    by (auto simp: HiPriorityScheduler_canPullSomePacket_def HiPriorityScheduler_schedulePacket_def
        getInputGateIndex_def ps_paused_def split: option.splits)
qed

theorem priority_canPull_iff_schedule_witness:
  "\<exists>b r. HiPriorityScheduler_canPullSomePacket 2 (\<lambda>i. i = 1) (HiPriorityScheduler_initialize 2 False) = Inr b \<and>
     HiPriorityScheduler_schedulePacket 2 (\<lambda>i. i = 1) (HiPriorityScheduler_initialize 2 False) = Inr r \<and> (b \<longleftrightarrow> r \<noteq> -1)"
  by (rule priority_canPull_iff_schedule[OF ps_ok_init])
    (simp_all add: HiPriorityScheduler_initialize_def)

subsection \<open>BFCScheduler and BCNScheduler\<close>

record bfc_sched =
  bs_wrr :: wrr
  bs_ispaused :: "(int, int) smap"
  bs_inProgress :: int
  bs_reverse :: bool

definition BFCScheduler_initialize :: "nat \<Rightarrow> u32 list \<Rightarrow> bool \<Rightarrow> bfc_sched res" where
  "BFCScheduler_initialize n toks rvs =
     rbind (WrrScheduler_initialize n toks) (\<lambda>w.
       Inr \<lparr>bs_wrr = w, bs_ispaused = init_map 0 [0..<n] [], bs_inProgress = -1, bs_reverse = rvs\<rparr>)"

fun BFCScheduler_canPullLoop :: "(nat \<Rightarrow> bool) \<Rightarrow> (int, int) smap \<Rightarrow> nat list \<Rightarrow> bool res" where
  "BFCScheduler_canPullLoop canPull m [] = Inr False"
| "BFCScheduler_canPullLoop canPull m (i # is) =
     rbind (ps_lookup m i) (\<lambda>c.
       if c \<noteq> 0 then BFCScheduler_canPullLoop canPull m is
       else if canPull i then Inr True
       else BFCScheduler_canPullLoop canPull m is)"

definition BFCScheduler_canPullSomePacket :: "nat \<Rightarrow> (nat \<Rightarrow> bool) \<Rightarrow> bfc_sched \<Rightarrow> bool res" where
  "BFCScheduler_canPullSomePacket n canPull s = BFCScheduler_canPullLoop canPull (bs_ispaused s) [0..<n]"

text \<open>
  \<open>schedulePacket\<close>: the token branch returns the gate index of the input, the refill and the
  non-weighted branch return the loop index; the pause map is not consulted.
\<close>

definition BFCScheduler_schedulePacket :: "nat \<Rightarrow> (nat \<Rightarrow> bool) \<Rightarrow> bfc_sched \<Rightarrow> int \<times> bfc_sched" where
  "BFCScheduler_schedulePacket n canPull s =
     (let gate = getInputGateIndex (bs_reverse s) n;
          elig = (\<lambda>i. int (gate i) = bs_inProgress s \<or> canPull (gate i));
          w = bs_wrr s in
      case wrr_scan elig (weights w) (buckets w) [0..<n] None None of
        Inl i \<Rightarrow> (int (gate i), s\<lparr>bs_wrr := w\<lparr>buckets := arr_dec (buckets w) i\<rparr>\<rparr>)
      | Inr (Some i, _) \<Rightarrow> (int i, s\<lparr>bs_wrr := w\<lparr>buckets := arr_dec (weights w) i\<rparr>\<rparr>)
      | Inr (None, Some i) \<Rightarrow> (int i, s)
      | Inr (None, None) \<Rightarrow> (-1, s))"

definition BFCScheduler_pullPacket ::
    "('g \<Rightarrow> nat \<Rightarrow> bool) \<Rightarrow> (nat \<Rightarrow> 'g \<Rightarrow> ('p \<times> 'g) res) \<Rightarrow> nat \<Rightarrow> 'g \<Rightarrow> bfc_sched \<Rightarrow> ('p \<times> 'g \<times> bfc_sched) res" where
  "BFCScheduler_pullPacket canPull pull n g s =
     rbind (callSchedulePacket n (BFCScheduler_schedulePacket n (canPull g) s)) (\<lambda>(i, s').
       rbind (pull i g) (\<lambda>(p, g'). Inr (p, g', s')))"

definition BFCScheduler_processbfcframe :: "pause_op \<Rightarrow> int \<Rightarrow> bfc_sched \<Rightarrow> bfc_sched" where
  "BFCScheduler_processbfcframe opc q s =
     (let c = (case map_get (bs_ispaused s) q of None \<Rightarrow> 0 | Some c \<Rightarrow> c) in
      case opc of
        PFC_PAUSE \<Rightarrow> s\<lparr>bs_ispaused := map_put q (c + 1) (bs_ispaused s)\<rparr>
      | PFC_RESUME \<Rightarrow> s\<lparr>bs_ispaused := map_put q (c - 1) (bs_ispaused s)\<rparr>
      | PFC_OTHER \<Rightarrow> s)"

definition BFCScheduler_getNumPackets :: "packet list option list \<Rightarrow> int" where
  "BFCScheduler_getNumPackets cs =
     (if None \<in> set cs then -1 else sum_list (map (\<lambda>q. int (length (the q))) cs))"

definition BFCScheduler_getTotalLength :: "packet list option list \<Rightarrow> int" where
  "BFCScheduler_getTotalLength cs =
     (if None \<in> set cs then -1 else sum_list (map (\<lambda>q. bitLength (the q)) cs))"

fun BFCScheduler_getPacket :: "packet list list \<Rightarrow> int \<Rightarrow> packet res" where
  "BFCScheduler_getPacket [] index = Inl (RuntimeError ''Index out of range'')"
| "BFCScheduler_getPacket (q # qs) index =
     (if index < int (length q)
      then (if index < 0 then Inl (RuntimeError ''index out of range'') else Inr (q ! nat index))
      else BFCScheduler_getPacket qs (index - int (length q)))"

fun BFCScheduler_removePacket :: "nat \<Rightarrow> packet list list \<Rightarrow> packet list list res" where
  "BFCScheduler_removePacket i [] = Inl (RuntimeError ''Cannot find packet'')"
| "BFCScheduler_removePacket i (q # qs) =
     (if i \<in> p_id ` set q then Inr (remove_ptr i q # qs)
      else rbind (BFCScheduler_removePacket i qs) (\<lambda>qs'. Inr (q # qs')))"

definition BFCScheduler_removeAllPackets :: "packet list list \<Rightarrow> packet list list" where
  "BFCScheduler_removeAllPackets qs = map (\<lambda>q. fst (pop_loop 0 q [])) qs"

text \<open>A sequence of pause frames for the queues.\<close>

fun bfc_frames :: "(pause_op \<times> int) list \<Rightarrow> bfc_sched \<Rightarrow> bfc_sched" where
  "bfc_frames [] s = s"
| "bfc_frames ((opc, q) # fs) s = bfc_frames fs (BFCScheduler_processbfcframe opc q s)"

definition pause_balance :: "int \<Rightarrow> (pause_op \<times> int) list \<Rightarrow> int" where
  "pause_balance q fs =
     int (length (filter (\<lambda>f. f = (PFC_PAUSE, q)) fs)) - int (length (filter (\<lambda>f. f = (PFC_RESUME, q)) fs))"

lemma frames_count:
  "map_get (bs_ispaused s) q = Some c \<Longrightarrow>
     map_get (bs_ispaused (bfc_frames fs s)) q = Some (c + pause_balance q fs)"
proof (induction fs arbitrary: s c)
  case Nil
  then show ?case by (simp add: pause_balance_def)
next
  case (Cons f fs)
  obtain opc k where f: "f = (opc, k)" by (cases f)
  let ?c = "if k = q then (case opc of PFC_PAUSE \<Rightarrow> c + 1 | PFC_RESUME \<Rightarrow> c - 1 | PFC_OTHER \<Rightarrow> c) else c"
  have "map_get (bs_ispaused (BFCScheduler_processbfcframe opc k s)) q = Some ?c"
    using Cons.prems by (cases opc) (auto simp: BFCScheduler_processbfcframe_def Let_def get_put)
  from Cons.IH[OF this] show ?case
    by (cases opc) (auto simp: f pause_balance_def)
qed

text \<open>The per-queue pause state is a reference count: after any sequence of frames, the number
  stored for a queue is its pauses minus its resumes, so a queue paused by several downstream
  ports counts as paused until each of them has resumed it.\<close>

theorem bfc_pause_refcount:
  assumes "BFCScheduler_initialize n toks rvs = Inr s" and "q < n"
  shows "map_get (bs_ispaused (bfc_frames fs s)) (int q) = Some (pause_balance (int q) fs)"
proof -
  have "map_get (bs_ispaused s) (int q) = Some 0"
    using assms by (auto simp: BFCScheduler_initialize_def rbind_eq_Inr get_init_map)
  from frames_count[OF this, of fs] show ?thesis by simp
qed

theorem bfc_pause_refcount_witness:
  "\<exists>s. BFCScheduler_initialize 2 [1, 1] False = Inr s \<and>
     map_get (bs_ispaused (bfc_frames [(PFC_PAUSE, 1), (PFC_PAUSE, 1), (PFC_RESUME, 1)] s)) 1 = Some 1"
proof -
  obtain s where s: "BFCScheduler_initialize 2 [1, 1] False = Inr s"
    by (simp add: BFCScheduler_initialize_def WrrScheduler_initialize_def)
  from bfc_pause_refcount[OF s, of 1 "[(PFC_PAUSE, 1), (PFC_PAUSE, 1), (PFC_RESUME, 1)]"] s show ?thesis
    by (simp add: pause_balance_def)
qed

text \<open>The BFC scheduler does not honour pauses when it picks a queue: its choice is the same
  whatever the pause map says, so a paused queue that holds a token is served whenever any other
  queue makes the interface ready.\<close>

theorem bfc_schedule_ignores_pause:
  "fst (BFCScheduler_schedulePacket n canPull (s\<lparr>bs_ispaused := m\<rparr>)) = fst (BFCScheduler_schedulePacket n canPull s) \<and>
   bs_wrr (snd (BFCScheduler_schedulePacket n canPull (s\<lparr>bs_ispaused := m\<rparr>))) =
   bs_wrr (snd (BFCScheduler_schedulePacket n canPull s))"
  by (auto simp: BFCScheduler_schedulePacket_def Let_def split: sum.splits option.splits)

text \<open>The BCN scheduler is a second copy of the same code over \<open>weights02\<close> and \<open>buckets02\<close>.\<close>

definition BCNScheduler_initialize :: "nat \<Rightarrow> u32 list \<Rightarrow> bool \<Rightarrow> bfc_sched res" where
  "BCNScheduler_initialize n toks rvs =
     rbind (WrrScheduler_initialize n toks) (\<lambda>w.
       Inr \<lparr>bs_wrr = w, bs_ispaused = init_map 0 [0..<n] [], bs_inProgress = -1, bs_reverse = rvs\<rparr>)"

definition BCNScheduler_canPullSomePacket :: "nat \<Rightarrow> (nat \<Rightarrow> bool) \<Rightarrow> bfc_sched \<Rightarrow> bool res" where
  "BCNScheduler_canPullSomePacket n canPull s = BFCScheduler_canPullLoop canPull (bs_ispaused s) [0..<n]"

definition BCNScheduler_schedulePacket :: "nat \<Rightarrow> (nat \<Rightarrow> bool) \<Rightarrow> bfc_sched \<Rightarrow> int \<times> bfc_sched" where
  "BCNScheduler_schedulePacket n canPull s =
     (let gate = getInputGateIndex (bs_reverse s) n;
          elig = (\<lambda>i. int (gate i) = bs_inProgress s \<or> canPull (gate i));
          w = bs_wrr s in
      case wrr_scan elig (weights w) (buckets w) [0..<n] None None of
        Inl i \<Rightarrow> (int (gate i), s\<lparr>bs_wrr := w\<lparr>buckets := arr_dec (buckets w) i\<rparr>\<rparr>)
      | Inr (Some i, _) \<Rightarrow> (int i, s\<lparr>bs_wrr := w\<lparr>buckets := arr_dec (weights w) i\<rparr>\<rparr>)
      | Inr (None, Some i) \<Rightarrow> (int i, s)
      | Inr (None, None) \<Rightarrow> (-1, s))"

definition BCNScheduler_processbfcframe :: "pause_op \<Rightarrow> int \<Rightarrow> bfc_sched \<Rightarrow> bfc_sched" where
  "BCNScheduler_processbfcframe opc q s =
     (let c = (case map_get (bs_ispaused s) q of None \<Rightarrow> 0 | Some c \<Rightarrow> c) in
      case opc of
        PFC_PAUSE \<Rightarrow> s\<lparr>bs_ispaused := map_put q (c + 1) (bs_ispaused s)\<rparr>
      | PFC_RESUME \<Rightarrow> s\<lparr>bs_ispaused := map_put q (c - 1) (bs_ispaused s)\<rparr>
      | PFC_OTHER \<Rightarrow> s)"

definition BCNScheduler_pullPacket ::
    "('g \<Rightarrow> nat \<Rightarrow> bool) \<Rightarrow> (nat \<Rightarrow> 'g \<Rightarrow> ('p \<times> 'g) res) \<Rightarrow> nat \<Rightarrow> 'g \<Rightarrow> bfc_sched \<Rightarrow> ('p \<times> 'g \<times> bfc_sched) res" where
  "BCNScheduler_pullPacket canPull pull n g s =
     rbind (callSchedulePacket n (BCNScheduler_schedulePacket n (canPull g) s)) (\<lambda>(i, s').
       rbind (pull i g) (\<lambda>(p, g'). Inr (p, g', s')))"

definition BCNScheduler_getNumPackets :: "packet list option list \<Rightarrow> int" where
  "BCNScheduler_getNumPackets cs =
     (if None \<in> set cs then -1 else sum_list (map (\<lambda>q. int (length (the q))) cs))"

definition BCNScheduler_getTotalLength :: "packet list option list \<Rightarrow> int" where
  "BCNScheduler_getTotalLength cs =
     (if None \<in> set cs then -1 else sum_list (map (\<lambda>q. bitLength (the q)) cs))"

fun BCNScheduler_getPacket :: "packet list list \<Rightarrow> int \<Rightarrow> packet res" where
  "BCNScheduler_getPacket [] index = Inl (RuntimeError ''Index out of range'')"
| "BCNScheduler_getPacket (q # qs) index =
     (if index < int (length q)
      then (if index < 0 then Inl (RuntimeError ''index out of range'') else Inr (q ! nat index))
      else BCNScheduler_getPacket qs (index - int (length q)))"

fun BCNScheduler_removePacket :: "nat \<Rightarrow> packet list list \<Rightarrow> packet list list res" where
  "BCNScheduler_removePacket i [] = Inl (RuntimeError ''Cannot find packet'')"
| "BCNScheduler_removePacket i (q # qs) =
     (if i \<in> p_id ` set q then Inr (remove_ptr i q # qs)
      else rbind (BCNScheduler_removePacket i qs) (\<lambda>qs'. Inr (q # qs')))"

definition BCNScheduler_removeAllPackets :: "packet list list \<Rightarrow> packet list list" where
  "BCNScheduler_removeAllPackets qs = map (\<lambda>q. fst (pop_loop 0 q [])) qs"

text \<open>It works as the other does.\<close>

lemma bcn_scheduler_is_bfc:
  "BCNScheduler_schedulePacket = BFCScheduler_schedulePacket" "BCNScheduler_processbfcframe = BFCScheduler_processbfcframe"
  "BCNScheduler_canPullSomePacket = BFCScheduler_canPullSomePacket" "BCNScheduler_initialize = BFCScheduler_initialize"
  by (intro ext, simp add: BCNScheduler_schedulePacket_def BFCScheduler_schedulePacket_def BCNScheduler_processbfcframe_def
      BFCScheduler_processbfcframe_def BCNScheduler_canPullSomePacket_def BFCScheduler_canPullSomePacket_def
      BCNScheduler_initialize_def BFCScheduler_initialize_def)+

end
