(* ===== verification/Classifiers.thy ===== *)
theory Classifiers
  imports Packets Std_Map Machine
begin

section \<open>HiClassifier, BFCClassifier and BCNClassifier\<close>

text \<open>
  The classifiers pick the queue of an arriving packet.  \<open>HiClassifier\<close> looks the packet's priority
  up among the priorities of the gates.  \<open>BFCClassifier\<close> keeps a table from flow to queue, puts a
  new flow into the first empty queue (or a random one when none is empty) and forgets a flow with
  its last packet; \<open>BCNClassifier\<close> does the same without forgetting.  The lengths of the queues and
  the random draw are arguments.
\<close>

datatype out_gate = CreditOut | Out int | DefaultOut

subsection \<open>HiClassifier\<close>

record hi_classifier =
  priorityToGate :: "(int \<times> int) list"
  numRcvd :: int

text \<open>
  \<open>initialize\<close>: more priorities than gates is an error; fewer reads past the end of the vector.
\<close>

definition HiClassifier_initialize :: "nat \<Rightarrow> int list \<Rightarrow> hi_classifier res" where
  "HiClassifier_initialize numOutGates priorities =
     (if length priorities > numOutGates then Inl (RuntimeError ''priority values are given, but the module has only'')
      else if length priorities < numOutGates then Inl OutOfBounds
      else Inr \<lparr>priorityToGate = map (\<lambda>i. (int i, priorities ! i)) [0..<numOutGates], numRcvd = 0\<rparr>)"

text \<open>The search loop over the map from gate to priority, in gate order.\<close>

fun gate_of :: "(int \<times> int) list \<Rightarrow> int \<Rightarrow> int" where
  "gate_of [] v = -1"
| "gate_of ((g, w) # m) v = (if w = v then g else gate_of m v)"

text \<open>
  \<open>classifyPacket\<close>: ARP packets go to the default queue; a packet without a \<open>HiTag\<close> leaves the
  local \<open>priority\<close> uninitialised.
\<close>

definition HiClassifier_classifyPacket :: "hi_classifier \<Rightarrow> packet \<Rightarrow> int res" where
  "HiClassifier_classifyPacket s pck =
     (if contains ''arp'' (p_name pck) then Inr (-1)
      else rbind (last_tag pck) (\<lambda>t. Inr (gate_of (priorityToGate s) (ht_priority t))))"

definition HiClassifier_handleMessage :: "packet \<Rightarrow> hi_classifier \<Rightarrow> (hi_classifier \<times> out_gate list) res" where
  "HiClassifier_handleMessage pck s =
     (let s' = s\<lparr>numRcvd := numRcvd s + 1\<rparr> in
      rbind (HiClassifier_classifyPacket s' pck) (\<lambda>index.
        Inr (s', [if p_name pck = ''credit'' then CreditOut
                  else if index \<ge> 0 then Out index
                  else DefaultOut])))"

lemma gate_of_upt:
  "gate_of (map (\<lambda>i. (int i, ps ! i)) [a..<b]) v =
     (case find_idx (\<lambda>i. ps ! i = v) [a..<b] of None \<Rightarrow> -1 | Some i \<Rightarrow> int i)"
proof (induction "b - a" arbitrary: a)
  case 0
  then show ?case by simp
next
  case (Suc m)
  then have ab: "[a..<b] = a # [Suc a..<b]" by (simp add: upt_conv_Cons)
  have "m = b - Suc a" using Suc.hyps(2) by simp
  from Suc.hyps(1)[OF this] show ?case by (simp add: ab)
qed

subsection \<open>BFCClassifier\<close>

record bfc_classifier =
  flowid_queue :: "(int, int) smap"
  numbToGate :: "(int \<times> int) list"
  numsSize :: int
  bc_numRcvd :: int

definition BFCClassifier_initialize :: "nat \<Rightarrow> int list \<Rightarrow> bfc_classifier res" where
  "BFCClassifier_initialize numOutGates nums =
     (if length nums > numOutGates then Inl (RuntimeError ''priority values are given, but the module has only'')
      else if length nums < numOutGates then Inl OutOfBounds
      else Inr \<lparr>flowid_queue = [], numbToGate = map (\<lambda>i. (int i, nums ! i)) [0..<numOutGates],
                numsSize = int (length nums), bc_numRcvd = 0\<rparr>)"

text \<open>
  The queues of the parent module in submodule order: the number in the name \<open>Num_i\<close> and the bits
  stored.  The first empty one is taken; when none is empty the number is \<open>rand() % Nums_size\<close>.
\<close>

fun first_empty :: "(int \<times> int) list \<Rightarrow> int option" where
  "first_empty [] = None"
| "first_empty ((num, bits) # qs) = (if bits = 0 then Some num else first_empty qs)"

definition choose_queue :: "(int \<times> int) list \<Rightarrow> int \<Rightarrow> int \<Rightarrow> int res" where
  "choose_queue qs rnd nsize =
     (case first_empty qs of
        Some num \<Rightarrow> Inr num
      | None \<Rightarrow> if nsize = 0 then Inl OutOfBounds else Inr (rnd mod nsize))"

definition set_queueID :: "int \<Rightarrow> packet \<Rightarrow> packet res" where
  "set_queueID q pck =
     (case p_bfc pck of
        None \<Rightarrow> Inl NullPointer
      | Some h \<Rightarrow> Inr (pck\<lparr>p_bfc := Some (h\<lparr>queueID := q\<rparr>)\<rparr>))"

text \<open>The key of the table is the flow id as a signed \<open>int\<close>.\<close>

definition flow_key :: "hitag \<Rightarrow> int" where
  "flow_key t = sint (ht_flowid t)"

definition BFCClassifier_classifyPacket ::
    "(int \<times> int) list \<Rightarrow> int \<Rightarrow> packet \<Rightarrow> bfc_classifier \<Rightarrow> (int \<times> packet \<times> bfc_classifier) res" where
  "BFCClassifier_classifyPacket qs rnd pck s =
     (if contains ''BFC'' (p_name pck) then
        rbind (last_tag pck) (\<lambda>t.
          let flowID = flow_key t in
          case map_get (flowid_queue s) flowID of
            Some queueId \<Rightarrow>
              rbind (set_queueID queueId pck) (\<lambda>pck'.
                let s' = (if ht_last t then s\<lparr>flowid_queue := map_erase flowID (flowid_queue s)\<rparr> else s) in
                Inr (gate_of (numbToGate s) queueId, pck', s'))
          | None \<Rightarrow>
              rbind (choose_queue qs rnd (numsSize s)) (\<lambda>q.
                let s' = s\<lparr>flowid_queue := map_put flowID q (flowid_queue s)\<rparr> in
                rbind (set_queueID q pck) (\<lambda>pck'. Inr (gate_of (numbToGate s) q, pck', s'))))
      else Inr (-1, pck, s))"

definition BFCClassifier_handleMessage ::
    "(int \<times> int) list \<Rightarrow> int \<Rightarrow> packet \<Rightarrow> bfc_classifier \<Rightarrow> (bfc_classifier \<times> (packet \<times> out_gate) list) res" where
  "BFCClassifier_handleMessage qs rnd pck s =
     rbind (BFCClassifier_classifyPacket qs rnd pck (s\<lparr>bc_numRcvd := bc_numRcvd s + 1\<rparr>)) (\<lambda>(index, pck', s').
       Inr (s', [(pck', if p_name pck = ''credit'' then CreditOut
                        else if index \<ge> 0 then Out index
                        else DefaultOut)]))"

text \<open>\<open>BCNClassifier\<close>: BCN and BFC packets, no forgetting, and the router's own CNPs to the default queue.\<close>

definition BCNClassifier_classifyPacket ::
    "(int \<times> int) list \<Rightarrow> int \<Rightarrow> packet \<Rightarrow> bfc_classifier \<Rightarrow> (int \<times> packet \<times> bfc_classifier) res" where
  "BCNClassifier_classifyPacket qs rnd pck s =
     (if contains ''BCN'' (p_name pck) \<or> contains ''BFC'' (p_name pck) then
        rbind (last_tag pck) (\<lambda>t.
          let flowID = flow_key t in
          case map_get (flowid_queue s) flowID of
            Some queueId \<Rightarrow>
              rbind (set_queueID queueId pck) (\<lambda>pck'. Inr (gate_of (numbToGate s) queueId, pck', s))
          | None \<Rightarrow>
              rbind (choose_queue qs rnd (numsSize s)) (\<lambda>q.
                let s' = s\<lparr>flowid_queue := map_put flowID q (flowid_queue s)\<rparr> in
                rbind (set_queueID q pck) (\<lambda>pck'. Inr (gate_of (numbToGate s) q, pck', s'))))
      else Inr (-1, pck, s))"

definition BCNClassifier_handleMessage ::
    "(int \<times> int) list \<Rightarrow> int \<Rightarrow> packet \<Rightarrow> bfc_classifier \<Rightarrow> (bfc_classifier \<times> (packet \<times> out_gate) list) res" where
  "BCNClassifier_handleMessage qs rnd pck s =
     rbind (BCNClassifier_classifyPacket qs rnd pck (s\<lparr>bc_numRcvd := bc_numRcvd s + 1\<rparr>)) (\<lambda>(index, pck', s').
       Inr (s', [(pck', if p_name pck = ''credit'' then CreditOut
                        else if p_name pck = ''routerCNP'' then DefaultOut
                        else if index \<ge> 0 then Out index
                        else DefaultOut)]))"

subsection \<open>Flow tables\<close>

definition table_ok :: "bfc_classifier \<Rightarrow> bool" where
  "table_ok s \<longleftrightarrow> wf_map (flowid_queue s)"

lemma classify_table_ok:
  "BFCClassifier_classifyPacket qs rnd pck s = Inr (i, pck', s') \<Longrightarrow> table_ok s \<Longrightarrow> table_ok s'"
  by (auto simp: BFCClassifier_classifyPacket_def table_ok_def rbind_eq_Inr Let_def wf_put wf_erase
      split: if_splits option.splits)

text \<open>
  What one arrival does to the entry of a flow: another flow's packet leaves it, its own packet
  creates or uses it and the last one removes it.
\<close>

lemma classify_entry:
  assumes "BFCClassifier_classifyPacket qs rnd pck s = Inr (i, pck', s')" and "table_ok s"
    and "map_get (flowid_queue s) f = Some q"
    and "\<not> (contains ''BFC'' (p_name pck) \<and> flow_key (last (p_tags pck)) = f \<and> ht_last (last (p_tags pck)))"
  shows "map_get (flowid_queue s') f = Some q"
  using assms
  by (auto simp: BFCClassifier_classifyPacket_def rbind_eq_Inr Let_def get_put get_erase table_ok_def last_tag_def
      split: if_splits option.splits)

lemma classify_known:
  assumes "BFCClassifier_classifyPacket qs rnd pck s = Inr (i, pck', s')"
    and "contains ''BFC'' (p_name pck)" and "map_get (flowid_queue s) (flow_key (last (p_tags pck))) = Some q"
  shows "i = gate_of (numbToGate s) q \<and> (\<exists>h. p_bfc pck' = Some h \<and> queueID h = q)"
  using assms
  by (auto simp: BFCClassifier_classifyPacket_def rbind_eq_Inr Let_def set_queueID_def last_tag_def
      split: if_splits option.splits)

lemma classify_numb:
  "BFCClassifier_classifyPacket qs rnd pck s = Inr (i, pck', s') \<Longrightarrow>
     numbToGate s' = numbToGate s \<and> numsSize s' = numsSize s"
  by (auto simp: BFCClassifier_classifyPacket_def rbind_eq_Inr Let_def split: if_splits option.splits)

text \<open>A stretch of arrivals, each with the queue lengths and the random draw of its moment.\<close>

fun classify_run :: "((int \<times> int) list \<times> int \<times> packet) list \<Rightarrow> bfc_classifier \<Rightarrow> (int list \<times> bfc_classifier) res" where
  "classify_run [] s = Inr ([], s)"
| "classify_run ((qs, rnd, p) # xs) s =
     rbind (BFCClassifier_classifyPacket qs rnd p s) (\<lambda>(i, p', s').
       rbind (classify_run xs s') (\<lambda>(is, s''). Inr (i # is, s'')))"

definition ends_flow :: "int \<Rightarrow> packet \<Rightarrow> bool" where
  "ends_flow f p \<longleftrightarrow> contains ''BFC'' (p_name p) \<and> flow_key (last (p_tags p)) = f \<and> ht_last (last (p_tags p))"

definition of_flow :: "int \<Rightarrow> packet \<Rightarrow> bool" where
  "of_flow f p \<longleftrightarrow> contains ''BFC'' (p_name p) \<and> flow_key (last (p_tags p)) = f"

text \<open>A flow keeps its queue.  From the moment a flow has an entry until its last packet, whatever
  other packets arrive, however full the queues are and whatever is drawn, every packet of the
  flow is sent to the same gate, so a flow is not reordered across queues.\<close>

theorem bfc_flow_sticky:
  assumes "classify_run xs s = Inr (is, s')" and "table_ok s"
    and "map_get (flowid_queue s) f = Some q"
    and "\<forall>(qs, rnd, p) \<in> set xs. \<not> ends_flow f p"
  shows "\<forall>k < length xs. of_flow f (snd (snd (xs ! k))) \<longrightarrow> is ! k = gate_of (numbToGate s) q"
  using assms
proof (induction xs arbitrary: s "is")
  case Nil
  then show ?case by simp
next
  case (Cons x xs)
  obtain qs rnd p where x: "x = (qs, rnd, p)" by (cases x)
  with Cons.prems(1) obtain i p' s1 is1 where c: "BFCClassifier_classifyPacket qs rnd p s = Inr (i, p', s1)"
    and r: "classify_run xs s1 = Inr (is1, s')" and "is": "is = i # is1"
    by (auto simp: rbind_eq_Inr)
  have ne: "\<not> ends_flow f p" using Cons.prems(4) x by simp
  have e1: "map_get (flowid_queue s1) f = Some q"
    by (rule classify_entry[OF c Cons.prems(2,3)]) (use ne in \<open>auto simp: ends_flow_def\<close>)
  have "\<forall>(qs, rnd, p) \<in> set xs. \<not> ends_flow f p" using Cons.prems(4) by simp
  note tail = Cons.IH[OF r classify_table_ok[OF c Cons.prems(2)] e1 this]
  have head: "of_flow f p \<longrightarrow> i = gate_of (numbToGate s) q"
    using classify_known[OF c] Cons.prems(3) by (auto simp: of_flow_def)
  show ?case
  proof (intro allI impI)
    fix k
    assume k: "k < length (x # xs)" and f: "of_flow f (snd (snd ((x # xs) ! k)))"
    show "is ! k = gate_of (numbToGate s) q"
    proof (cases k)
      case 0
      with f x head "is" show ?thesis by simp
    next
      case (Suc m)
      with k f tail classify_numb[OF c] "is" show ?thesis by simp
    qed
  qed
qed

definition sample_bfc :: "nat \<Rightarrow> u32 \<Rightarrow> bool \<Rightarrow> packet" where
  "sample_bfc i fl lst = \<lparr>p_id = i, p_name = ''BFCData-1'', p_len = 800, p_iface = 1, p_ecn = None,
     p_tags = [\<lparr>ht_flowid = fl, ht_priority = 0, ht_flowsize = 0, ht_cretime = 0, ht_packetid = 0, ht_last = lst,
        ht_queueid = 0, ht_decel = False, ht_speedup = False, ht_sender_priority = -1\<rparr>],
     p_bfc = Some \<lparr>upstreamQueueID = 0, queueID = 0\<rparr>, p_ispause = None\<rparr>"

theorem bfc_flow_sticky_witness:
  "\<exists>is s'. classify_run [([(0, 0)], 0, sample_bfc 1 9 False), ([(0, 0)], 0, sample_bfc 2 7 False)]
      \<lparr>flowid_queue = [(7, 1)], numbToGate = [(0, 0), (1, 1)], numsSize = 2, bc_numRcvd = 0\<rparr> = Inr (is, s') \<and> is ! 1 = 1"
proof -
  let ?s = "\<lparr>flowid_queue = [(7, 1)], numbToGate = [(0, 0), (1, 1)], numsSize = 2, bc_numRcvd = 0\<rparr>"
  let ?xs = "[([(0, 0)], 0, sample_bfc 1 9 False), ([(0, 0)], 0, sample_bfc 2 7 False)] :: ((int \<times> int) list \<times> int \<times> packet) list"
  obtain "is" s' where r: "classify_run ?xs ?s = Inr (is, s')"
    by (simp add: BFCClassifier_classifyPacket_def sample_bfc_def flow_key_def choose_queue_def set_queueID_def Let_def)
  have ok: "table_ok ?s" by (simp add: table_ok_def wf_map_def)
  have e: "map_get (flowid_queue ?s) 7 = Some 1" by simp
  have ne: "\<forall>(qs, rnd, p) \<in> set ?xs. \<not> ends_flow 7 p" by (simp add: ends_flow_def sample_bfc_def)
  have "of_flow 7 (sample_bfc 2 7 False)" by (simp add: of_flow_def sample_bfc_def flow_key_def)
  with bfc_flow_sticky[OF r ok e ne] r show ?thesis by auto
qed

text \<open>\<open>HiClassifier\<close> sends a tagged data packet to the lowest-numbered gate configured with its
  priority, and to the default queue exactly when no gate has that priority.\<close>

theorem hi_classifier_lowest_gate:
  assumes "HiClassifier_initialize n ps = Inr s" and "\<not> contains ''arp'' (p_name pck)" and "p_tags pck \<noteq> []"
  shows "\<exists>g. HiClassifier_classifyPacket s pck = Inr g \<and>
     (g = -1 \<longrightarrow> (\<forall>i<n. ps ! i \<noteq> ht_priority (last (p_tags pck)))) \<and>
     (g \<noteq> -1 \<longrightarrow> 0 \<le> g \<and> nat g < n \<and> ps ! nat g = ht_priority (last (p_tags pck)) \<and>
        (\<forall>j<nat g. ps ! j \<noteq> ht_priority (last (p_tags pck))))"
proof -
  let ?v = "ht_priority (last (p_tags pck))"
  have "priorityToGate s = map (\<lambda>i. (int i, ps ! i)) [0..<n]"
    using assms(1) by (auto simp: HiClassifier_initialize_def split: if_splits)
  then have c: "HiClassifier_classifyPacket s pck =
      Inr (case find_idx (\<lambda>i. ps ! i = ?v) [0..<n] of None \<Rightarrow> -1 | Some i \<Rightarrow> int i)"
    using assms(2,3) by (simp add: HiClassifier_classifyPacket_def gate_of_upt)
  show ?thesis
  proof (cases "find_idx (\<lambda>i. ps ! i = ?v) [0..<n]")
    case None
    then have "\<forall>i\<in>set [0..<n]. ps ! i \<noteq> ?v" by (simp only: find_idx_None)
    with c None show ?thesis by auto
  next
    case (Some i)
    then have "i < n \<and> ps ! i = ?v \<and> (\<forall>j. 0 \<le> j \<longrightarrow> j < i \<longrightarrow> ps ! j \<noteq> ?v)"
      by (simp only: find_idx_upt_Some) blast
    with c Some show ?thesis by auto
  qed
qed

theorem hi_classifier_lowest_gate_witness:
  "\<exists>s g. HiClassifier_initialize 3 [5, 0, 0] = Inr s \<and> HiClassifier_classifyPacket s (sample_bfc 1 7 False) = Inr g \<and> g = 1"
proof -
  obtain s where s: "HiClassifier_initialize 3 [5, 0, 0] = Inr s" by (simp add: HiClassifier_initialize_def)
  have p: "\<not> contains ''arp'' (p_name (sample_bfc 1 7 False))" "p_tags (sample_bfc 1 7 False) \<noteq> []"
    by (simp_all add: sample_bfc_def)
  obtain g where g: "HiClassifier_classifyPacket s (sample_bfc 1 7 False) = Inr g"
    and no: "g = -1 \<longrightarrow> (\<forall>i<3. [5, 0, 0 :: int] ! i \<noteq> 0)"
    and yes: "g \<noteq> -1 \<longrightarrow> 0 \<le> g \<and> nat g < 3 \<and> [5, 0, 0 :: int] ! nat g = 0 \<and> (\<forall>j<nat g. [5, 0, 0 :: int] ! j \<noteq> 0)"
    using hi_classifier_lowest_gate[OF s p] by (auto simp: sample_bfc_def)
  have "g \<noteq> -1"
  proof
    assume "g = -1"
    with no have "[5, 0, 0 :: int] ! 1 \<noteq> 0" by (metis one_less_numeral_iff semiring_norm(77))
    then show False by simp
  qed
  with yes have y: "0 \<le> g" "nat g < 3" "[5, 0, 0 :: int] ! nat g = 0" "\<forall>j<nat g. [5, 0, 0 :: int] ! j \<noteq> 0" by simp_all
  have "\<not> 1 < nat g"
  proof
    assume "1 < nat g"
    with y(4) have "[5, 0, 0 :: int] ! 1 \<noteq> 0" by blast
    then show False by simp
  qed
  moreover have "nat g \<noteq> 0" using y(3) by (cases "nat g") auto
  ultimately have "g = 1" using y(1) by linarith
  with s g show ?thesis by blast
qed

end
