(* ===== verification/Switch_Mac_Queue.thy ===== *)
theory Switch_Mac_Queue
  imports Wrr_Scheduler
begin

section \<open>SwitchMacQueue: the queue in front of the switch MAC\<close>

text \<open>
  \<open>HiNA/Ethernet/SwitchMacQueue\<close>.  The MAC dequeues through this queue: \<open>dequeuePacket\<close> pulls one
  packet from the provider (the scheduler in front of it), pushes it into the storage and takes
  the head of the storage out.  The provider is the parameter \<open>pull\<close>, a function from the
  provider's state to the packet and its next state; the model's own scheduler is put in for it
  below.
\<close>

type_synonym ('f, 'p) provider = "'p \<Rightarrow> ('f \<times> 'p \<times> qeffect list) res"

definition SwitchMacQueue_getNumPackets :: "'m packet_scheme list \<Rightarrow> int" where
  "SwitchMacQueue_getNumPackets q = int (length q)"

definition SwitchMacQueue_getPacket :: "'m packet_scheme list \<Rightarrow> int \<Rightarrow> 'm packet_scheme res" where
  "SwitchMacQueue_getPacket q index =
     (if index < 0 \<or> index \<ge> int (length q) then Inl (RuntimeError ''index out of range'')
      else Inr (q ! nat index))"

definition SwitchMacQueue_pushPacket :: "'m packet_scheme inserter_of \<Rightarrow> 'm packet_scheme \<Rightarrow> 'm packet_scheme list \<Rightarrow> 'm packet_scheme list \<times> qeffect list" where
  "SwitchMacQueue_pushPacket ins pck q = (ins pck q, [PushStarted (p_id pck), PushEnded])"

definition SwitchMacQueue_pullPacket :: "'m packet_scheme list \<Rightarrow> ('m packet_scheme \<times> 'm packet_scheme list \<times> qeffect list) res" where
  "SwitchMacQueue_pullPacket q =
     (case q of [] \<Rightarrow> Inl NullPointer | pck # rest \<Rightarrow> Inr (pck, rest, [Pulled (p_id pck)]))"

definition SwitchMacQueue_canPullSomePacket :: "('p \<Rightarrow> bool) \<Rightarrow> 'p \<Rightarrow> bool" where
  "SwitchMacQueue_canPullSomePacket providerCanPull ps = providerCanPull ps"

definition SwitchMacQueue_dequeuePacket ::
    "'m packet_scheme inserter_of \<Rightarrow> ('m packet_scheme, 'p) provider \<Rightarrow> 'm packet_scheme list \<times> 'p \<Rightarrow> ('m packet_scheme \<times> ('m packet_scheme list \<times> 'p) \<times> qeffect list) res" where
  "SwitchMacQueue_dequeuePacket ins pull st =
     rbind (pull (snd st)) (\<lambda>(pck, ps, es1).
       let (q1, es2) = SwitchMacQueue_pushPacket ins pck (fst st) in
       rbind (SwitchMacQueue_pullPacket q1) (\<lambda>(out, q2, es3).
         Inr (out, (q2, ps), es1 @ es2 @ es3)))"

definition SwitchMacQueue_removePacket :: "nat \<Rightarrow> 'm packet_scheme list \<Rightarrow> 'm packet_scheme list \<times> qeffect list" where
  "SwitchMacQueue_removePacket i q = (remove_ptr i q, [Removed i])"

definition SwitchMacQueue_removeAllPackets :: "'m packet_scheme list \<Rightarrow> 'm packet_scheme list \<times> qeffect list" where
  "SwitchMacQueue_removeAllPackets q =
     (let (rest, packets) = pop_loop 0 q [] in (rest, map (\<lambda>p. Removed (p_id p)) packets))"

definition SwitchMacQueue_canPushSomePacket :: "'m packet_scheme list \<Rightarrow> bool" where
  "SwitchMacQueue_canPushSomePacket q = True"

definition SwitchMacQueue_canPushPacket :: "'m packet_scheme \<Rightarrow> 'm packet_scheme list \<Rightarrow> bool" where
  "SwitchMacQueue_canPushPacket pck q = True"

definition SwitchMacQueue_handlePacketRemoved :: "nat \<Rightarrow> 'm packet_scheme list \<Rightarrow> 'm packet_scheme list \<times> qeffect list" where
  "SwitchMacQueue_handlePacketRemoved i q =
     (if i \<in> p_id ` set q then SwitchMacQueue_removePacket i q else (q, []))"

definition SwitchMacQueue_handleCanPullPacketChanged :: "bool \<Rightarrow> qeffect list" where
  "SwitchMacQueue_handleCanPullPacketChanged hasColl = (if hasColl then [NotifyCollector] else [])"

lemmas smq_defs [hina_defs] =
  SwitchMacQueue_dequeuePacket_def SwitchMacQueue_pushPacket_def SwitchMacQueue_pullPacket_def

subsection \<open>Transparency\<close>

text \<open>
  An empty storage stays empty over every dequeue, whatever the comparator does, and the packet
  handed to the MAC is the one the provider gave: the queue adds no delay of its own.
\<close>

lemma inserts_singleton: "inserts ins \<Longrightarrow> ins p [] = [p]"
  by (metis add_mset_eq_singleton_iff inserts_def mset.simps(1) mset_single_iff_right)

lemma dequeue_from_empty:
  assumes "inserts ins" and "pull ps = Inr (p, ps', es)"
  shows "SwitchMacQueue_dequeuePacket ins pull ([], ps) =
     Inr (p, ([], ps'), es @ [PushStarted (p_id p), PushEnded, Pulled (p_id p)])"
  using assms by (simp add: smq_defs inserts_singleton)

text \<open>Repeated dequeues and repeated pulls from the provider alone.\<close>

fun dequeue_run :: "'m packet_scheme inserter_of \<Rightarrow> ('m packet_scheme, 'p) provider \<Rightarrow> nat \<Rightarrow> 'm packet_scheme list \<times> 'p \<Rightarrow> ('m packet_scheme list \<times> 'm packet_scheme list \<times> 'p) res" where
  "dequeue_run ins pull 0 st = Inr ([], st)"
| "dequeue_run ins pull (Suc k) st =
     rbind (SwitchMacQueue_dequeuePacket ins pull st) (\<lambda>(p, st', es).
       rbind (dequeue_run ins pull k st') (\<lambda>(ps, st''). Inr (p # ps, st'')))"

fun pull_run :: "('m packet_scheme, 'p) provider \<Rightarrow> nat \<Rightarrow> 'p \<Rightarrow> ('m packet_scheme list \<times> 'p) res" where
  "pull_run pull 0 s = Inr ([], s)"
| "pull_run pull (Suc k) s =
     rbind (pull s) (\<lambda>(p, s', es). rbind (pull_run pull k s') (\<lambda>(ps, s''). Inr (p # ps, s'')))"

text \<open>The switch MAC queue is transparent.  Started with an empty storage, any number of dequeues
  hands out exactly the packets the provider would have given to the same number of pulls, fails
  exactly when the provider fails and leaves the storage empty, for every insertion order.\<close>

theorem switch_mac_transparent:
  assumes "inserts ins"
  shows "dequeue_run ins pull k ([], ps) =
     rbind (pull_run pull k ps) (\<lambda>(out, ps'). Inr (out, [], ps'))"
proof (induction k arbitrary: ps)
  case 0
  then show ?case by simp
next
  case (Suc k)
  show ?case
  proof (cases "pull ps")
    case (Inl e)
    then show ?thesis by (simp add: SwitchMacQueue_dequeuePacket_def)
  next
    case (Inr r)
    obtain p ps' es where r: "r = (p, ps', es)" by (cases r)
    have "SwitchMacQueue_dequeuePacket ins pull ([], ps) =
        Inr (p, ([], ps'), es @ [PushStarted (p_id p), PushEnded, Pulled (p_id p)])"
      by (rule dequeue_from_empty[OF assms]) (simp add: Inr r)
    with Inr r Suc.IH[of ps'] show ?thesis
      by (cases "pull_run pull k ps'") auto
  qed
qed

theorem switch_mac_transparent_witness:
  "dequeue_run fifo_insert SwitchMacQueue_pullPacket 1 ([], [sample_pkt 3 800]) =
     Inr ([sample_pkt 3 800], [], [])"
  by (subst switch_mac_transparent[OF inserts_fifo])
    (simp add: SwitchMacQueue_pullPacket_def)

subsection \<open>The interface the MAC dequeues through\<close>

text \<open>
  A source of packets: when it says a packet can be pulled, the pull succeeds and gives a packet
  with the property the source promises.
\<close>

locale packet_source =
  fixes can :: "'p \<Rightarrow> bool"
    and pull :: "'p \<Rightarrow> ('f \<times> 'p \<times> qeffect list) res"
    and holds :: "'p \<Rightarrow> bool"
    and good :: "'f \<Rightarrow> bool"
  assumes pull_ok: "holds s \<Longrightarrow> can s \<Longrightarrow> \<exists>p s' es. pull s = Inr (p, s', es) \<and> good p \<and> holds s'"
begin

lemma pullE:
  assumes "holds s" and "can s"
  obtains p s' es where "pull s = Inr (p, s', es)" and "good p" and "holds s'"
  using pull_ok[OF assms] by blast

end

text \<open>In front of such a source, the switch MAC queue is one again.\<close>

locale mac_queue = packet_source can pull holds good
  for can and pull :: "'p \<Rightarrow> ('m packet_scheme \<times> 'p \<times> qeffect list) res" and holds good +
  fixes ins :: "'m packet_scheme inserter_of"
  assumes ins: "inserts ins"
begin

lemma dequeue_ok:
  assumes "holds ps" and "can ps"
  shows "\<exists>p ps' es. SwitchMacQueue_dequeuePacket ins pull ([], ps) = Inr (p, ([], ps'), es) \<and> good p \<and> holds ps'"
proof -
  obtain p ps' es where "pull ps = Inr (p, ps', es)" "good p" "holds ps'" by (rule pullE[OF assms])
  with dequeue_from_empty[OF ins, of pull ps p ps' es] show ?thesis by auto
qed

end

sublocale mac_queue \<subseteq> dequeuer: packet_source
    "\<lambda>st. SwitchMacQueue_canPullSomePacket can (snd st)" "SwitchMacQueue_dequeuePacket ins pull"
    "\<lambda>st. fst st = [] \<and> holds (snd st)" good
proof (unfold_locales, goal_cases)
  case (1 st)
  then show ?case using dequeue_ok[of "snd st"]
    by (cases st) (auto simp: SwitchMacQueue_canPullSomePacket_def)
qed

text \<open>A queue of packets, the RED queue, and the switch MAC queue in front of each.\<close>

interpretation storage: packet_source
    "\<lambda>q. SwitchMacQueue_getNumPackets q \<noteq> 0" SwitchMacQueue_pullPacket "\<lambda>q. \<forall>p\<in>set q. good p" good
    for good :: "'m packet_scheme \<Rightarrow> bool"
  by unfold_locales
    (auto simp: SwitchMacQueue_pullPacket_def SwitchMacQueue_getNumPackets_def split: list.splits)

interpretation storage_mac: mac_queue
    "\<lambda>q. SwitchMacQueue_getNumPackets q \<noteq> 0" SwitchMacQueue_pullPacket "\<lambda>q. \<forall>p\<in>set q. good p" good fifo_insert
    for good :: "'m packet_scheme \<Rightarrow> bool"
  by unfold_locales (rule inserts_fifo)

interpretation red_mac: mac_queue
    "\<lambda>st. REDPFCQueue_canPullSomePacket (fst st)" "REDPFCQueue_pullPacket cfg rnd" "\<lambda>_. True" "\<lambda>_. True" fifo_insert
    for cfg rnd
proof (unfold_locales, goal_cases)
  case (1 st)
  obtain s sb where st: "st = (s, sb)" by (cases st)
  with 1 have "queue s \<noteq> []" by (simp add: REDPFCQueue_canPullSomePacket_def REDPFCQueue_getNumPackets_def)
  with pull_ok[of cfg rnd s sb] st show ?case by (auto simp: is_ok_iff)
next
  case 2
  show ?case by (rule inserts_fifo)
qed

end
