(* ===== verification/Ethernet_Mac.thy ===== *)
theory Ethernet_Mac
  imports Switch_Mac_Queue
begin

section \<open>HiEthernetMac: the full-duplex MAC of hosts and switches\<close>

text \<open>
  \<open>HiNA/Ethernet/HiEthernetMac\<close> and the parts of \<open>linklayer/ethernet/base/EthernetMacBase\<close> it runs
  on.  A frame is a packet with its MAC header, the in-band telemetry headers the MAC stamps and
  a timestamp.  The transmitter is a state machine driven by three timers; the kernel delivers a
  timer only when it is armed, and scheduling an armed timer is an error.
\<close>

unbundle bit_operations_syntax

datatype mac_addr = Unspecified | HostAddr nat | GroupAddr nat | PauseAddr | BroadcastAddr

definition isMulticast :: "mac_addr \<Rightarrow> bool" where
  "isMulticast a = (case a of GroupAddr _ \<Rightarrow> True | PauseAddr \<Rightarrow> True | BroadcastAddr \<Rightarrow> True | _ \<Rightarrow> False)"

datatype frame_kind =
    Payload
  | PauseFrame int
  | PfcPauseFrame int
  | PfcResumeFrame int
  | BfcPauseFrame int
  | BfcResumeFrame int
  | OtherControl

definition isFlowControl :: "frame_kind \<Rightarrow> bool" where
  "isFlowControl k \<longleftrightarrow> k \<noteq> Payload"

record frame = packet +
  f_src :: mac_addr
  f_dest :: mac_addr
  f_kind :: frame_kind
  f_ipsrc :: int
  f_ipdest :: int
  f_int :: "int_header option"
  f_psd :: "psd_header option"
  f_time :: simtime

datatype tx_state = TX_IDLE_STATE | WAIT_IFG_STATE | TRANSMITTING_STATE | PAUSE_STATE

text \<open>
  Configuration.  \<open>txFinishTime\<close> is the channel's transmission finish time; \<open>stackPriority\<close> is what
  the uninitialised local of \<open>updateStats\<close> holds when a frame carries no \<open>HiTag\<close>.
\<close>

record mac_cfg =
  connected :: bool
  duplexMode :: bool
  promiscuous :: bool
  macAddress :: mac_addr
  interfaceId :: int
  hostId :: int
  txrate :: double
  useTIMELY :: bool
  useHPCC :: bool
  usePSD :: bool
  useCoRe :: bool
  stopTime :: simtime
  batchSize :: u32
  maxInterval :: simtime
  txFinishTime :: "simtime \<Rightarrow> frame \<Rightarrow> simtime"
  stackPriority :: int

record mac =
  transmitState :: tx_state
  currentTxFrame :: "frame option"
  curTxSignal :: "frame option"
  endTxTimer :: "simtime option"
  endIfgTimer :: "simtime option"
  endPauseTimer :: "simtime option"
  pauseUnitsRequested :: int
  lastTxFinishTime :: simtime
  numFramesSent :: int
  numBytesSent :: int
  numFramesFromHL :: int
  numFramesReceivedOK :: int
  numFramesPassedToHL :: int
  numDroppedPkFromHLIfaceDown :: int
  numDroppedIfaceDown :: int
  numDroppedBitError :: int
  numDroppedNotForUs :: int
  numPauseFramesRcvd :: int
  numPauseFramesSent :: int
  sendpause :: int
  sendresume :: int
  receivepause :: int
  receiveresume :: int
  txBytes :: u64
  numPackets :: int
  numBits :: int
  intvlStartTime :: simtime
  intvlNumPackets :: int
  intvlNumBits :: int
  intvlPriBits :: "int list"
  deqrate :: "double list"
  totalSuccessfulRxTime :: simtime

datatype meffect =
    MacSend frame
  | MacUp frame
  | MacDrop frame
  | MacLate frame
  | ArmEndTx simtime
  | ArmEndIfg simtime
  | ArmEndPause simtime
  | PfcPausedFrame int
  | PfcResumedFrame int
  | BfcPausedFrame int
  | BfcResumedFrame int
  | MacQueue qeffect

definition EthernetMacBase_frameBytes :: "'m packet_scheme \<Rightarrow> int" where
  "EthernetMacBase_frameBytes f = bytes_of (p_bits f)"

text \<open>\<open>addPaddingAndSetFcs\<close>, \<open>encapsulate\<close> and \<open>decapsulate\<close>: a 64 byte minimum and an 8 byte physical header.\<close>

definition EthernetMacBase_addPaddingAndSetFcs :: "'m packet_scheme \<Rightarrow> int \<Rightarrow> 'm packet_scheme" where
  "EthernetMacBase_addPaddingAndSetFcs f requiredMinBytes =
     (let paddingLength = requiredMinBytes - EthernetMacBase_frameBytes f in
      if paddingLength > 0 then f\<lparr>p_len := p_len f + 8 * nat paddingLength\<rparr> else f)"

definition EthernetMacBase_encapsulate :: "frame \<Rightarrow> frame" where
  "EthernetMacBase_encapsulate f = f\<lparr>p_len := p_len f + 64\<rparr>"

definition EthernetMacBase_decapsulate :: "frame \<Rightarrow> frame res" where
  "EthernetMacBase_decapsulate f =
     (if p_len f < 64 + 512 then Inl (RuntimeError ''ASSERT: short frame'')
      else Inr (f\<lparr>p_len := p_len f - 64\<rparr>))"

definition EthernetMacBase_dropFrameNotForUs :: "mac_cfg \<Rightarrow> frame \<Rightarrow> bool" where
  "EthernetMacBase_dropFrameNotForUs cfg f =
     (if f_dest f = macAddress cfg then False
      else if f_dest f = BroadcastAddr then False
      else if \<not> isFlowControl (f_kind f) \<and> (promiscuous cfg \<or> isMulticast (f_dest f)) then False
      else if isFlowControl (f_kind f) \<and> f_dest f = PauseAddr then False
      else True)"

text \<open>\<open>initialize\<close>, stages \<open>LOCAL\<close> (the half-duplex check) and \<open>LINK_LAYER\<close> (\<open>beginSendFrames\<close>).\<close>

definition HiEthernetMac_initial :: mac where
  "HiEthernetMac_initial =
     \<lparr>transmitState = TX_IDLE_STATE, currentTxFrame = None, curTxSignal = None, endTxTimer = None,
      endIfgTimer = None, endPauseTimer = None, pauseUnitsRequested = 0, lastTxFinishTime = -1,
      numFramesSent = 0, numBytesSent = 0, numFramesFromHL = 0, numFramesReceivedOK = 0,
      numFramesPassedToHL = 0, numDroppedPkFromHLIfaceDown = 0, numDroppedIfaceDown = 0,
      numDroppedBitError = 0, numDroppedNotForUs = 0, numPauseFramesRcvd = 0, numPauseFramesSent = 0,
      sendpause = 0, sendresume = 0, receivepause = 0, receiveresume = 0, txBytes = 0, numPackets = 0,
      numBits = 0, intvlStartTime = 0, intvlNumPackets = 0, intvlNumBits = 0,
      intvlPriBits = replicate 11 0, deqrate = replicate 11 0, totalSuccessfulRxTime = 0\<rparr>"

definition HiEthernetMac_updateStats :: "mac_cfg \<Rightarrow> frame \<Rightarrow> mac \<Rightarrow> mac res" where
  "HiEthernetMac_updateStats cfg f s =
     (let bits = p_bits f;
          priority0 = (if p_tags f = [] then stackPriority cfg else ht_priority (last (p_tags f)));
          priority = (if priority0 > 11 \<or> priority0 < 0 then 10 else priority0)
      in if nat priority \<ge> length (intvlPriBits s) then Inl OutOfBounds
         else Inr (s\<lparr>numPackets := numPackets s + 1, numBits := numBits s + bits,
                     intvlNumPackets := intvlNumPackets s + 1, intvlNumBits := intvlNumBits s + bits,
                     intvlPriBits := (intvlPriBits s)[nat priority := intvlPriBits s ! nat priority + bits]\<rparr>))"

text \<open>The rates are \<open>double\<close> quotients; the interval is never empty, since a frame gap has passed.\<close>

definition HiEthernetMac_beginNewInterval :: "mac_cfg \<Rightarrow> simtime \<Rightarrow> mac \<Rightarrow> mac" where
  "HiEthernetMac_beginNewInterval cfg now s =
     (let duration = now - intvlStartTime s in
      s\<lparr>deqrate := map (\<lambda>bits. of_int bits / duration / txrate cfg) (intvlPriBits s),
        intvlPriBits := map (\<lambda>_. 0) (intvlPriBits s),
        intvlStartTime := now, intvlNumPackets := 0, intvlNumBits := 0\<rparr>)"

text \<open>The telemetry stamps of \<open>startFrameTransmission\<close>, on the copy that is sent.\<close>

definition HiEthernetMac_stampHPCC :: "mac_cfg \<Rightarrow> simtime \<Rightarrow> int \<Rightarrow> frame \<Rightarrow> mac \<Rightarrow> (frame \<times> mac) res" where
  "HiEthernetMac_stampHPCC cfg now wrrTotal f s =
     (if useHPCC cfg then
        (let s' = s\<lparr>txBytes := txBytes s + word_of_int (EthernetMacBase_frameBytes f)\<rparr> in
         if contains ''HPCCData'' (p_name f) then
           (case f_int f of
              None \<Rightarrow> Inl NullPointer
            | Some h \<Rightarrow>
                let n = nHop h + 1;
                    cur = \<lparr>TS = now, hopQueueLength = wrrTotal, hopTxBytes = txBytes s', hopTxRate = txrate cfg\<rparr>
                in if n - 1 < 0 \<or> int (length (hopInfs h)) \<le> n - 1
                   then Inl (RuntimeError ''Array of size 5 indexed'')
                   else Inr (f\<lparr>f_int := Some (h\<lparr>nHop := n, pathID := pathID h XOR hostId cfg,
                                   hopInfs := (hopInfs h)[nat (n - 1) := cur]\<rparr>)\<rparr>, s'))
         else Inr (f, s'))
      else Inr (f, s))"

definition HiEthernetMac_stampPSD :: "bool \<Rightarrow> string \<Rightarrow> simtime \<Rightarrow> frame \<Rightarrow> frame res" where
  "HiEthernetMac_stampPSD enabled nm now f =
     (if enabled \<and> contains nm (p_name f) then
        (case f_psd f of
           None \<Rightarrow> Inl NullPointer
         | Some h \<Rightarrow>
             let h1 = (if now - psdTS h > psdMPD h then h\<lparr>psdMPD := now - psdTS h\<rparr> else h) in
             Inr (f\<lparr>f_psd := Some (h1\<lparr>psdTS := now\<rparr>)\<rparr>))
      else Inr f)"

definition HiEthernetMac_startFrameTransmission ::
    "mac_cfg \<Rightarrow> simtime \<Rightarrow> int \<Rightarrow> mac \<Rightarrow> (mac \<times> meffect list) res" where
  "HiEthernetMac_startFrameTransmission cfg now wrrTotal s =
     (case currentTxFrame s of
        None \<Rightarrow> Inl (RuntimeError ''ASSERT: currentTxFrame'')
      | Some frame \<Rightarrow>
          if f_src frame = Unspecified then Inl (RuntimeError ''ASSERT: source address'')
          else
            rbind (HiEthernetMac_stampHPCC cfg now wrrTotal frame s) (\<lambda>(f1, s1).
            rbind (HiEthernetMac_stampPSD (usePSD cfg) ''PSDData'' now f1) (\<lambda>f2.
            rbind (HiEthernetMac_stampPSD (useCoRe cfg) ''CoRe'' now f2) (\<lambda>f3.
            let f4 = EthernetMacBase_encapsulate f3 in
            rbind (HiEthernetMac_updateStats cfg f4 s1) (\<lambda>s2.
            let f5 = (if useTIMELY cfg \<and> contains ''TIMELYData'' (p_name f4) then f4\<lparr>f_time := now\<rparr> else f4) in
            if curTxSignal s2 \<noteq> None then Inl (RuntimeError ''ASSERT: curTxSignal'')
            else if endTxTimer s2 \<noteq> None then Inl AlreadyScheduled
            else
              let t = txFinishTime cfg now f5 in
              Inr (s2\<lparr>curTxSignal := Some f5, endTxTimer := Some t, transmitState := TRANSMITTING_STATE\<rparr>,
                   [MacSend f5, ArmEndTx t]))))))"

definition HiEthernetMac_handleUpperPacket ::
    "mac_cfg \<Rightarrow> simtime \<Rightarrow> int \<Rightarrow> frame \<Rightarrow> mac \<Rightarrow> (mac \<times> meffect list) res" where
  "HiEthernetMac_handleUpperPacket cfg now wrrTotal pck s =
     (if now > stopTime cfg then Inr (s, [MacLate pck])
      else
        let s1 = s\<lparr>numFramesFromHL := numFramesFromHL s + 1\<rparr> in
        if f_dest pck = macAddress cfg then Inl (RuntimeError ''logic error: frame has local MAC address as dest'')
        else if p_bits pck > 8 * 1526 then Inl (RuntimeError ''packet from higher layer exceeds maximum Ethernet frame size'')
        else if \<not> connected cfg then
          Inr (s1\<lparr>numDroppedPkFromHLIfaceDown := numDroppedPkFromHLIfaceDown s1 + 1\<rparr>, [MacDrop pck])
        else
          let pck1 = (if f_src pck = Unspecified then pck\<lparr>f_src := macAddress cfg\<rparr> else pck) in
          if transmitState s1 \<noteq> TX_IDLE_STATE then Inl (RuntimeError ''not in TX_IDLE_STATE when packet arrived from upper layer'')
          else if currentTxFrame s1 \<noteq> None then Inl (RuntimeError ''already has a transmit packet'')
          else HiEthernetMac_startFrameTransmission cfg now wrrTotal
                 (s1\<lparr>currentTxFrame := Some (EthernetMacBase_addPaddingAndSetFcs pck1 64)\<rparr>))"

text \<open>Arming the gap and pause timers; a quotient by a zero rate is no simulation time.\<close>

definition HiEthernetMac_scheduleEndIFGPeriod ::
    "mac_cfg \<Rightarrow> simtime \<Rightarrow> 'm mac_scheme \<Rightarrow> ('m mac_scheme \<times> meffect list) res" where
  "HiEthernetMac_scheduleEndIFGPeriod cfg now s =
     (if currentTxFrame s \<noteq> None then Inl (RuntimeError ''ASSERT: currentTxFrame is null'')
      else if txrate cfg = 0 then Inl SimTimeOverflow
      else if endIfgTimer s \<noteq> None then Inl AlreadyScheduled
      else
        let t = now + 96 / txrate cfg in
        Inr (s\<lparr>transmitState := WAIT_IFG_STATE, endIfgTimer := Some t\<rparr>, [ArmEndIfg t]))"

definition HiEthernetMac_scheduleEndPausePeriod ::
    "mac_cfg \<Rightarrow> simtime \<Rightarrow> int \<Rightarrow> 'm mac_scheme \<Rightarrow> ('m mac_scheme \<times> meffect list) res" where
  "HiEthernetMac_scheduleEndPausePeriod cfg now pauseUnits s =
     (if currentTxFrame s \<noteq> None then Inl (RuntimeError ''ASSERT: currentTxFrame is null'')
      else if txrate cfg = 0 then Inl SimTimeOverflow
      else if pauseUnits < 0 then Inl (RuntimeError ''cannot schedule a message to the past'')
      else if endPauseTimer s \<noteq> None then Inl AlreadyScheduled
      else
        let t = now + of_int (pauseUnits * 512) / txrate cfg in
        Inr (s\<lparr>endPauseTimer := Some t, transmitState := PAUSE_STATE\<rparr>, [ArmEndPause t]))"

definition HiEthernetMac_processPauseCommand ::
    "mac_cfg \<Rightarrow> simtime \<Rightarrow> int \<Rightarrow> 'm mac_scheme \<Rightarrow> ('m mac_scheme \<times> meffect list) res" where
  "HiEthernetMac_processPauseCommand cfg now pauseUnits s =
     (case transmitState s of
        TX_IDLE_STATE \<Rightarrow>
          (if pauseUnits > 0 then HiEthernetMac_scheduleEndPausePeriod cfg now pauseUnits s else Inr (s, []))
      | PAUSE_STATE \<Rightarrow> HiEthernetMac_scheduleEndPausePeriod cfg now pauseUnits (s\<lparr>endPauseTimer := None\<rparr>)
      | _ \<Rightarrow> Inr (s\<lparr>pauseUnitsRequested := pauseUnits\<rparr>, []))"

text \<open>Dequeuing through the transmit queue, whose state is threaded along.\<close>

definition HiEthernetMac_dequeue ::
    "mac_cfg \<Rightarrow> ('q \<Rightarrow> bool) \<Rightarrow> (frame, 'q) provider \<Rightarrow> simtime \<Rightarrow> int \<Rightarrow> mac \<times> 'q \<Rightarrow>
       ((mac \<times> 'q) \<times> meffect list) res" where
  "HiEthernetMac_dequeue cfg can deq now wrrTotal st =
     (if can (snd st) then
        rbind (deq (snd st)) (\<lambda>(pck, q, qes).
          rbind (HiEthernetMac_handleUpperPacket cfg now wrrTotal pck (fst st)) (\<lambda>(s, es).
            Inr ((s, q), map MacQueue qes @ es)))
      else Inr (st, []))"

definition HiEthernetMac_handleEndIFGPeriod ::
    "mac_cfg \<Rightarrow> ('q \<Rightarrow> bool) \<Rightarrow> (frame, 'q) provider \<Rightarrow> simtime \<Rightarrow> int \<Rightarrow> mac \<times> 'q \<Rightarrow>
       ((mac \<times> 'q) \<times> meffect list) res" where
  "HiEthernetMac_handleEndIFGPeriod cfg can deq now wrrTotal st =
     (let s = fst st in
      if currentTxFrame s \<noteq> None then Inl (RuntimeError ''ASSERT: currentTxFrame is null'')
      else if transmitState s \<noteq> WAIT_IFG_STATE then Inl (RuntimeError ''Not in WAIT_IFG_STATE at the end of IFG period'')
      else
        let s1 = (if intvlNumPackets s \<ge> uint (batchSize cfg) \<or> now - intvlStartTime s \<ge> maxInterval cfg
                  then HiEthernetMac_beginNewInterval cfg now s else s);
            s2 = s1\<lparr>transmitState := TX_IDLE_STATE\<rparr>
        in HiEthernetMac_dequeue cfg can deq now wrrTotal (s2, snd st))"

definition HiEthernetMac_handleEndPausePeriod ::
    "mac_cfg \<Rightarrow> ('q \<Rightarrow> bool) \<Rightarrow> (frame, 'q) provider \<Rightarrow> simtime \<Rightarrow> int \<Rightarrow> mac \<times> 'q \<Rightarrow>
       ((mac \<times> 'q) \<times> meffect list) res" where
  "HiEthernetMac_handleEndPausePeriod cfg can deq now wrrTotal st =
     (let s = fst st in
      if currentTxFrame s \<noteq> None then Inl (RuntimeError ''ASSERT: currentTxFrame is null'')
      else if transmitState s \<noteq> PAUSE_STATE then Inl (RuntimeError ''End of PAUSE event occurred when not in PAUSE_STATE!'')
      else HiEthernetMac_dequeue cfg can deq now wrrTotal (s\<lparr>transmitState := TX_IDLE_STATE\<rparr>, snd st))"

definition HiEthernetMac_handleEndTxPeriod ::
    "mac_cfg \<Rightarrow> simtime \<Rightarrow> 'm mac_scheme \<Rightarrow> ('m mac_scheme \<times> meffect list) res" where
  "HiEthernetMac_handleEndTxPeriod cfg now s =
     (if transmitState s \<noteq> TRANSMITTING_STATE then Inl (RuntimeError ''End of transmission, and incorrect state detected'')
      else case currentTxFrame s of
        None \<Rightarrow> Inl (RuntimeError ''Frame under transmission cannot be found'')
      | Some f \<Rightarrow>
          if curTxSignal s = None then Inl (RuntimeError ''ASSERT: curTxSignal'')
          else
            let s1 = s\<lparr>numFramesSent := numFramesSent s + 1, numBytesSent := numBytesSent s + EthernetMacBase_frameBytes f,
                       curTxSignal := None,
                       numPauseFramesSent := numPauseFramesSent s + (case f_kind f of PauseFrame _ \<Rightarrow> 1 | _ \<Rightarrow> 0),
                       currentTxFrame := None, lastTxFinishTime := now\<rparr>
            in if pauseUnitsRequested s1 > 0
               then rbind (HiEthernetMac_scheduleEndPausePeriod cfg now (pauseUnitsRequested s1) s1) (\<lambda>(s2, es).
                      Inr (s2\<lparr>pauseUnitsRequested := 0\<rparr>, es))
               else HiEthernetMac_scheduleEndIFGPeriod cfg now s1)"

definition HiEthernetMac_handleCanPullPacketChanged ::
    "mac_cfg \<Rightarrow> ('q \<Rightarrow> bool) \<Rightarrow> (frame, 'q) provider \<Rightarrow> simtime \<Rightarrow> int \<Rightarrow> mac \<times> 'q \<Rightarrow>
       ((mac \<times> 'q) \<times> meffect list) res" where
  "HiEthernetMac_handleCanPullPacketChanged cfg can deq now wrrTotal st =
     (if currentTxFrame (fst st) = None \<and> transmitState (fst st) = TX_IDLE_STATE
      then HiEthernetMac_dequeue cfg can deq now wrrTotal st
      else Inr (st, []))"

text \<open>
  \<open>processpfccommand\<close>: the signal of a queue, for this interface or another.  The loop runs while the
  transmitter is free; a command that is neither a pause nor a resume changes nothing in it.
\<close>

datatype pfc_op = ETHERNET_PFC_PAUSE | ETHERNET_PFC_RESUME | OTHER_OP

definition HiEthernetMac_pfcFrame :: "mac_cfg \<Rightarrow> string \<Rightarrow> frame_kind \<Rightarrow> frame" where
  "HiEthernetMac_pfcFrame cfg nm k =
     EthernetMacBase_addPaddingAndSetFcs
       \<lparr>p_id = 0, p_name = nm, p_len = 304, p_iface = 0, p_ecn = None, p_tags = [], p_bfc = None, p_ispause = None,
        f_src = macAddress cfg, f_dest = PauseAddr, f_kind = k, f_ipsrc = 0, f_ipdest = 0,
        f_int = None, f_psd = None, f_time = 0\<rparr> 64"

definition HiEthernetMac_processpfccommand ::
    "mac_cfg \<Rightarrow> simtime \<Rightarrow> int \<Rightarrow> pfc_op \<Rightarrow> int \<Rightarrow> int \<Rightarrow> mac \<Rightarrow> (mac \<times> meffect list) res" where
  "HiEthernetMac_processpfccommand cfg now wrrTotal oper iface prio s =
     (if interfaceId cfg \<noteq> iface then Inr (s, [])
      else if currentTxFrame s \<noteq> None \<or> transmitState s \<noteq> TX_IDLE_STATE then Inr (s, [])
      else case oper of
        ETHERNET_PFC_PAUSE \<Rightarrow>
          HiEthernetMac_startFrameTransmission cfg now wrrTotal
            (s\<lparr>sendpause := sendpause s + 1,
               currentTxFrame := Some (HiEthernetMac_pfcFrame cfg ''Pause'' (PfcPauseFrame prio))\<rparr>)
      | ETHERNET_PFC_RESUME \<Rightarrow>
          HiEthernetMac_startFrameTransmission cfg now wrrTotal
            (s\<lparr>sendresume := sendresume s + 1,
               currentTxFrame := Some (HiEthernetMac_pfcFrame cfg ''Resume'' (PfcResumeFrame prio))\<rparr>)
      | OTHER_OP \<Rightarrow> Inl NoProgress)"

subsection \<open>Reception\<close>

text \<open>What arrives on the wire; \<open>sg_crcOk\<close> is the verdict of \<open>verifyCrcAndLength\<close> on the frame.\<close>

datatype signal_kind = EthernetSignal | EthernetFilledIfgSignal | EthernetJamSignal

record wire_signal =
  sg_kind :: signal_kind
  sg_frame :: frame
  sg_duration :: simtime
  sg_fullDuplex :: bool
  sg_bitError :: bool
  sg_crcOk :: bool

text \<open>
  The acknowledgement the MAC itself makes for the last packet of a TIMELY segment: the headers
  of the data frame with the IP addresses swapped, a one byte payload with priority \<open>-1\<close> and the
  timestamp of the data.
\<close>

definition HiEthernetMac_timelyAck :: "mac_cfg \<Rightarrow> frame \<Rightarrow> frame" where
  "HiEthernetMac_timelyAck cfg f =
     EthernetMacBase_addPaddingAndSetFcs
       \<lparr>p_id = 0, p_name = ''TIMELYACK'', p_len = 376, p_iface = 0, p_ecn = p_ecn f,
        p_tags = [\<lparr>ht_flowid = 0, ht_priority = -1, ht_flowsize = 0, ht_cretime = 0, ht_packetid = 0, ht_last = False,
        ht_queueid = 0, ht_decel = False, ht_speedup = False, ht_sender_priority = -1\<rparr>],
        p_bfc = None, p_ispause = None,
        f_src = macAddress cfg, f_dest = BroadcastAddr, f_kind = Payload, f_ipsrc = f_ipdest f, f_ipdest = f_ipsrc f,
        f_int = None, f_psd = None, f_time = f_time f\<rparr> 64"

definition HiEthernetMac_receiveTIMELY ::
    "mac_cfg \<Rightarrow> simtime \<Rightarrow> int \<Rightarrow> frame \<Rightarrow> mac \<Rightarrow> (frame \<times> mac \<times> meffect list) res" where
  "HiEthernetMac_receiveTIMELY cfg now wrrTotal f s =
     (if \<not> useTIMELY cfg then Inr (f, s, [])
      else if contains ''TIMELYACK'' (p_name f) then
        (if txrate cfg = 0 then Inl SimTimeOverflow
         else Inr (f\<lparr>f_time := now - f_time f - of_int (EthernetMacBase_frameBytes f * 8) / txrate cfg\<rparr>, s, []))
      else if contains ''TIMELYData'' (p_name f) then
        rbind (last_tag (packet.truncate f)) (\<lambda>tag.
          if ht_last tag \<and> currentTxFrame s = None \<and> transmitState s = TX_IDLE_STATE
          then rbind (HiEthernetMac_startFrameTransmission cfg now wrrTotal
                        (s\<lparr>currentTxFrame := Some (HiEthernetMac_timelyAck cfg f)\<rparr>)) (\<lambda>(s', es). Inr (f, s', es))
          else Inr (f, s, []))
      else Inr (f, s, []))"

definition HiEthernetMac_processReceivedDataFrame :: "mac_cfg \<Rightarrow> frame \<Rightarrow> mac \<Rightarrow> mac \<times> meffect list" where
  "HiEthernetMac_processReceivedDataFrame cfg f s =
     (s\<lparr>numFramesReceivedOK := numFramesReceivedOK s + 1, numFramesPassedToHL := numFramesPassedToHL s + 1\<rparr>,
      [MacUp (f\<lparr>p_iface := interfaceId cfg\<rparr>)])"

definition HiEthernetMac_receiveFrame ::
    "mac_cfg \<Rightarrow> simtime \<Rightarrow> int \<Rightarrow> frame \<Rightarrow> mac \<Rightarrow> (mac \<times> meffect list) res" where
  "HiEthernetMac_receiveFrame cfg now wrrTotal f s =
     rbind (HiEthernetMac_receiveTIMELY cfg now wrrTotal f s) (\<lambda>(f1, s1, es1).
       if EthernetMacBase_dropFrameNotForUs cfg f1
       then Inr (s1\<lparr>numDroppedNotForUs := numDroppedNotForUs s1 + 1\<rparr>, es1 @ [MacDrop f1])
       else case f_kind f1 of
         PauseFrame u \<Rightarrow>
           rbind (HiEthernetMac_processPauseCommand cfg now u
                    (s1\<lparr>numPauseFramesRcvd := numPauseFramesRcvd s1 + 1\<rparr>)) (\<lambda>(s2, es2). Inr (s2, es1 @ es2))
       | PfcPauseFrame p \<Rightarrow> Inr (s1\<lparr>receivepause := receivepause s1 + 1\<rparr>, es1 @ [PfcPausedFrame p])
       | PfcResumeFrame p \<Rightarrow> Inr (s1\<lparr>receiveresume := receiveresume s1 + 1\<rparr>, es1 @ [PfcResumedFrame p])
       | Payload \<Rightarrow>
           let (s2, es2) = HiEthernetMac_processReceivedDataFrame cfg f1 s1 in Inr (s2, es1 @ es2)
       | _ \<Rightarrow> Inr (s1, es1))"

definition HiEthernetMac_processMsgFromNetwork ::
    "mac_cfg \<Rightarrow> simtime \<Rightarrow> int \<Rightarrow> wire_signal \<Rightarrow> mac \<Rightarrow> (mac \<times> meffect list) res" where
  "HiEthernetMac_processMsgFromNetwork cfg now wrrTotal sg s =
     (if \<not> connected cfg then
        (if sg_kind sg = EthernetSignal
         then rbind (EthernetMacBase_decapsulate (sg_frame sg)) (\<lambda>f.
                Inr (s\<lparr>numDroppedIfaceDown := numDroppedIfaceDown s + 1\<rparr>, [MacDrop f]))
         else Inr (s, []))
      else
        let s1 = s\<lparr>totalSuccessfulRxTime := totalSuccessfulRxTime s + sg_duration sg\<rparr> in
        if sg_fullDuplex sg \<noteq> duplexMode cfg then Inl (RuntimeError ''Ethernet misconfiguration: duplex mode'')
        else if sg_kind sg = EthernetFilledIfgSignal then Inl (RuntimeError ''There is no burst mode in full-duplex operation'')
        else if sg_kind sg = EthernetJamSignal then Inl (RuntimeError ''There is no JAM signal in full-duplex operation'')
        else
          rbind (EthernetMacBase_decapsulate (sg_frame sg)) (\<lambda>f.
            if sg_bitError sg \<or> \<not> sg_crcOk sg
            then Inr (s1\<lparr>numDroppedBitError := numDroppedBitError s1 + 1\<rparr>, [MacDrop f])
            else HiEthernetMac_receiveFrame cfg now wrrTotal f s1))"

subsection \<open>The event loop\<close>

datatype mac_event =
    EndTx
  | EndIfg
  | EndPause
  | FromUpper frame
  | FromNetwork wire_signal
  | CanPullChanged
  | PfcCommand pfc_op int int

text \<open>
  One event at time \<open>now\<close>.  The kernel delivers a timer only while it is armed and disarms it by
  delivering it.  \<open>handleMessageWhenUp\<close> and \<open>handleSelfMessage\<close> are the dispatch below.
\<close>

definition lift_mac :: "'q \<Rightarrow> (mac \<times> meffect list) res \<Rightarrow> ((mac \<times> 'q) \<times> meffect list) res" where
  "lift_mac q r = rbind r (\<lambda>(s, es). Inr ((s, q), es))"

fun HiEthernetMac_handleEvent ::
    "mac_cfg \<Rightarrow> ('q \<Rightarrow> bool) \<Rightarrow> (frame, 'q) provider \<Rightarrow> simtime \<times> int \<times> mac_event \<Rightarrow> mac \<times> 'q \<Rightarrow>
       ((mac \<times> 'q) \<times> meffect list) res" where
  "HiEthernetMac_handleEvent cfg can deq (now, wrr, EndTx) (s, q) =
     (if endTxTimer s = None then Inr ((s, q), [])
      else lift_mac q (HiEthernetMac_handleEndTxPeriod cfg now (s\<lparr>endTxTimer := None\<rparr>)))"
| "HiEthernetMac_handleEvent cfg can deq (now, wrr, EndIfg) (s, q) =
     (if endIfgTimer s = None then Inr ((s, q), [])
      else HiEthernetMac_handleEndIFGPeriod cfg can deq now wrr (s\<lparr>endIfgTimer := None\<rparr>, q))"
| "HiEthernetMac_handleEvent cfg can deq (now, wrr, EndPause) (s, q) =
     (if endPauseTimer s = None then Inr ((s, q), [])
      else HiEthernetMac_handleEndPausePeriod cfg can deq now wrr (s\<lparr>endPauseTimer := None\<rparr>, q))"
| "HiEthernetMac_handleEvent cfg can deq (now, wrr, FromUpper f) (s, q) =
     lift_mac q (HiEthernetMac_handleUpperPacket cfg now wrr f s)"
| "HiEthernetMac_handleEvent cfg can deq (now, wrr, FromNetwork sg) (s, q) =
     lift_mac q (HiEthernetMac_processMsgFromNetwork cfg now wrr sg s)"
| "HiEthernetMac_handleEvent cfg can deq (now, wrr, CanPullChanged) (s, q) =
     HiEthernetMac_handleCanPullPacketChanged cfg can deq now wrr (s, q)"
| "HiEthernetMac_handleEvent cfg can deq (now, wrr, PfcCommand oper iface prio) (s, q) =
     lift_mac q (HiEthernetMac_processpfccommand cfg now wrr oper iface prio s)"

subsection \<open>The transmitter invariant\<close>

text \<open>
  The state of the transmitter says which frame, signal and timer exist: a frame and its signal
  exactly while transmitting, and in every state but idle exactly the timer that ends it.
\<close>

definition mac_inv :: "'m mac_scheme \<Rightarrow> bool" where
  "mac_inv s \<longleftrightarrow>
     (currentTxFrame s \<noteq> None \<longleftrightarrow> transmitState s = TRANSMITTING_STATE) \<and>
     (curTxSignal s \<noteq> None \<longleftrightarrow> transmitState s = TRANSMITTING_STATE) \<and>
     (endTxTimer s \<noteq> None \<longleftrightarrow> transmitState s = TRANSMITTING_STATE) \<and>
     (endIfgTimer s \<noteq> None \<longleftrightarrow> transmitState s = WAIT_IFG_STATE) \<and>
     (endPauseTimer s \<noteq> None \<longleftrightarrow> transmitState s = PAUSE_STATE) \<and>
     length (intvlPriBits s) = 11 \<and> 0 \<le> pauseUnitsRequested s"

definition mac_free :: "'m mac_scheme \<Rightarrow> bool" where
  "mac_free s \<longleftrightarrow> transmitState s = TX_IDLE_STATE \<and> curTxSignal s = None \<and> endTxTimer s = None \<and>
     endIfgTimer s = None \<and> endPauseTimer s = None \<and> length (intvlPriBits s) = 11 \<and> 0 \<le> pauseUnitsRequested s"

lemma mac_inv_idle: "mac_inv s \<Longrightarrow> transmitState s = TX_IDLE_STATE \<Longrightarrow> mac_free s \<and> currentTxFrame s = None"
  by (auto simp: mac_inv_def mac_free_def)

lemma mac_free_inv: "mac_free s \<Longrightarrow> currentTxFrame s = None \<Longrightarrow> mac_inv s"
  by (auto simp: mac_inv_def mac_free_def)

text \<open>Everything the invariant looks at, and how the parts of a transmission change it.\<close>

definition tx_view where
  "tx_view s = (transmitState s, currentTxFrame s, curTxSignal s, endTxTimer s, endIfgTimer s, endPauseTimer s,
     pauseUnitsRequested s, length (intvlPriBits s))"

lemma mac_inv_view: "tx_view s = tx_view t \<Longrightarrow> mac_inv s = mac_inv t"
  by (simp add: tx_view_def mac_inv_def)

lemma mac_free_view: "tx_view s = tx_view t \<Longrightarrow> mac_free s = mac_free t"
  by (simp add: tx_view_def mac_free_def)

lemma stampHPCC_Inr:
  "HiEthernetMac_stampHPCC cfg now w f s = Inr (g, t) \<Longrightarrow>
     tx_view t = tx_view s \<and> p_name g = p_name f \<and> f_kind g = f_kind f \<and> f_src g = f_src f \<and> f_dest g = f_dest f \<and>
     p_tags g = p_tags f \<and> p_len g = p_len f \<and> f_psd g = f_psd f"
  by (auto simp: HiEthernetMac_stampHPCC_def tx_view_def Let_def split: if_splits option.splits)

lemma stampPSD_Inr:
  "HiEthernetMac_stampPSD b nm now f = Inr g \<Longrightarrow>
     p_name g = p_name f \<and> f_kind g = f_kind f \<and> f_src g = f_src f \<and> f_dest g = f_dest f \<and>
     p_tags g = p_tags f \<and> p_len g = p_len f \<and> (f_psd f \<noteq> None \<longrightarrow> f_psd g \<noteq> None)"
  by (auto simp: HiEthernetMac_stampPSD_def Let_def split: if_splits option.splits)

lemma updateStats_Inr: "HiEthernetMac_updateStats cfg f s = Inr t \<Longrightarrow> tx_view t = tx_view s"
  by (auto simp: HiEthernetMac_updateStats_def tx_view_def Let_def split: if_splits)

lemma beginNewInterval_view [simp]: "tx_view (HiEthernetMac_beginNewInterval cfg now s) = tx_view s"
  by (simp add: HiEthernetMac_beginNewInterval_def tx_view_def Let_def)

text \<open>A transmission that starts: the frame on the wire and the armed timer.\<close>

lemma start_Inr:
  assumes "HiEthernetMac_startFrameTransmission cfg now w s = Inr (s', es)"
  obtains f g t where "currentTxFrame s = Some f" and "p_name g = p_name f" and "f_kind g = f_kind f"
    and "f_dest g = f_dest f" and "p_len g = p_len f + 64" and "es = [MacSend g, ArmEndTx t]"
    and "tx_view s' = (TRANSMITTING_STATE, Some f, Some g, Some t, endIfgTimer s, endPauseTimer s,
        pauseUnitsRequested s, length (intvlPriBits s))"
proof -
  obtain f where f: "currentTxFrame s = Some f" and src: "f_src f \<noteq> Unspecified"
    using assms by (auto simp: HiEthernetMac_startFrameTransmission_def split: option.splits if_splits)
  then obtain f1 s1 f2 f3 s2 where 1: "HiEthernetMac_stampHPCC cfg now w f s = Inr (f1, s1)"
    and 2: "HiEthernetMac_stampPSD (usePSD cfg) ''PSDData'' now f1 = Inr f2"
    and 3: "HiEthernetMac_stampPSD (useCoRe cfg) ''CoRe'' now f2 = Inr f3"
    and 4: "HiEthernetMac_updateStats cfg (EthernetMacBase_encapsulate f3) s1 = Inr s2"
    using assms by (auto simp: HiEthernetMac_startFrameTransmission_def rbind_eq_Inr Let_def)
  define g where "g = (if useTIMELY cfg \<and> contains ''TIMELYData'' (p_name (EthernetMacBase_encapsulate f3))
      then EthernetMacBase_encapsulate f3\<lparr>f_time := now\<rparr> else EthernetMacBase_encapsulate f3)"
  have g: "p_name g = p_name f" "f_kind g = f_kind f" "f_dest g = f_dest f" "p_len g = p_len f + 64"
    using stampHPCC_Inr[OF 1] stampPSD_Inr[OF 2] stampPSD_Inr[OF 3]
    by (auto simp: g_def EthernetMacBase_encapsulate_def)
  have v: "tx_view s2 = tx_view s" using stampHPCC_Inr[OF 1] updateStats_Inr[OF 4] by simp
  have o: "es = [MacSend g, ArmEndTx (txFinishTime cfg now g)]"
    "s' = s2\<lparr>curTxSignal := Some g, endTxTimer := Some (txFinishTime cfg now g), transmitState := TRANSMITTING_STATE\<rparr>"
    using assms f src 1 2 3 4
    by (auto simp: HiEthernetMac_startFrameTransmission_def Let_def g_def[symmetric] split: if_splits)
  have "tx_view s' = (TRANSMITTING_STATE, Some f, Some g, Some (txFinishTime cfg now g), endIfgTimer s,
      endPauseTimer s, pauseUnitsRequested s, length (intvlPriBits s))"
    using v f by (simp add: tx_view_def o(2))
  from that[OF f g o(1) this] show thesis .
qed

lemma start_inv:
  assumes "HiEthernetMac_startFrameTransmission cfg now w s = Inr (s', es)" and "mac_free s"
  shows "mac_inv s' \<and> transmitState s' = TRANSMITTING_STATE"
  using assms(1) by (rule start_Inr) (use assms(2) in \<open>auto simp: tx_view_def mac_inv_def mac_free_def\<close>)

lemma upper_inv:
  assumes "HiEthernetMac_handleUpperPacket cfg now w p s = Inr (s', es)" and "mac_inv s"
  shows "mac_inv s'"
proof -
  have v: "mac_inv (s\<lparr>numFramesFromHL := n, numDroppedPkFromHLIfaceDown := m\<rparr>)"
    and v2: "mac_inv (s\<lparr>numFramesFromHL := n\<rparr>)" for n m
    using assms(2) by (simp_all add: mac_inv_def)
  consider (same) "s' = s"
    | (down) "\<exists>n m. s' = s\<lparr>numFramesFromHL := n, numDroppedPkFromHLIfaceDown := m\<rparr>"
    | (sent) n f where "HiEthernetMac_startFrameTransmission cfg now w
         (s\<lparr>numFramesFromHL := n, currentTxFrame := Some f\<rparr>) = Inr (s', es)" and "transmitState s = TX_IDLE_STATE"
    using assms(1) by (auto simp: HiEthernetMac_handleUpperPacket_def Let_def split: if_splits)
  then show ?thesis
  proof cases
    case sent
    have "mac_free (s\<lparr>numFramesFromHL := n, currentTxFrame := Some f\<rparr>)"
      using mac_inv_idle[OF assms(2) sent(2)] by (simp add: mac_free_def)
    from start_inv[OF sent(1) this] show ?thesis by simp
  qed (use assms(2) v in auto)
qed

lemma dequeue_inv:
  "HiEthernetMac_dequeue cfg can deq now w (s, q) = Inr ((s', q'), es) \<Longrightarrow> mac_inv s \<Longrightarrow> mac_inv s'"
  by (auto simp: HiEthernetMac_dequeue_def rbind_eq_Inr split: if_splits dest: upper_inv)

lemma scheduleIFG_inv:
  assumes "HiEthernetMac_scheduleEndIFGPeriod cfg now s = Inr (s', es)"
    and "currentTxFrame s = None" "curTxSignal s = None" "endTxTimer s = None" "endPauseTimer s = None"
    and "length (intvlPriBits s) = 11" "0 \<le> pauseUnitsRequested s"
  shows "mac_inv s'"
  using assms by (auto simp: HiEthernetMac_scheduleEndIFGPeriod_def mac_inv_def Let_def split: if_splits)

lemma schedulePause_inv:
  assumes "HiEthernetMac_scheduleEndPausePeriod cfg now u s = Inr (s', es)"
    and "currentTxFrame s = None" "curTxSignal s = None" "endTxTimer s = None" "endIfgTimer s = None"
    and "length (intvlPriBits s) = 11" "0 \<le> pauseUnitsRequested s"
  shows "mac_inv s' \<and> mac_inv (s'\<lparr>pauseUnitsRequested := 0\<rparr>)"
  using assms by (auto simp: HiEthernetMac_scheduleEndPausePeriod_def mac_inv_def Let_def split: if_splits)

lemma pauseCommand_inv:
  assumes "HiEthernetMac_processPauseCommand cfg now u s = Inr (s', es)" and "mac_inv s" and "0 \<le> u"
  shows "mac_inv s'"
proof (cases "transmitState s")
  case PAUSE_STATE
  with assms(1) have "HiEthernetMac_scheduleEndPausePeriod cfg now u (s\<lparr>endPauseTimer := None\<rparr>) = Inr (s', es)"
    by (simp add: HiEthernetMac_processPauseCommand_def)
  from schedulePause_inv[OF this] show ?thesis using assms(2) PAUSE_STATE by (auto simp: mac_inv_def)
next
  case TX_IDLE_STATE
  show ?thesis
  proof (cases "u > 0")
    case True
    with TX_IDLE_STATE assms(1) have "HiEthernetMac_scheduleEndPausePeriod cfg now u s = Inr (s', es)"
      by (simp add: HiEthernetMac_processPauseCommand_def)
    from schedulePause_inv[OF this] show ?thesis using assms(2) TX_IDLE_STATE by (auto simp: mac_inv_def)
  qed (use TX_IDLE_STATE assms in \<open>auto simp: HiEthernetMac_processPauseCommand_def\<close>)
qed (use assms in \<open>auto simp: HiEthernetMac_processPauseCommand_def mac_inv_def\<close>)

lemma timely_inv:
  assumes "HiEthernetMac_receiveTIMELY cfg now w f s = Inr (g, s', es)" and "mac_inv s"
  shows "mac_inv s' \<and> f_kind g = f_kind f"
proof -
  consider (same) "s' = s" "f_kind g = f_kind f"
    | (ack) a where "HiEthernetMac_startFrameTransmission cfg now w (s\<lparr>currentTxFrame := Some a\<rparr>) = Inr (s', es)"
       "transmitState s = TX_IDLE_STATE" "g = f"
    using assms(1) by (auto simp: HiEthernetMac_receiveTIMELY_def rbind_eq_Inr Let_def split: if_splits)
  then show ?thesis
  proof cases
    case ack
    have "mac_free (s\<lparr>currentTxFrame := Some a\<rparr>)" using mac_inv_idle[OF assms(2) ack(2)] by (simp add: mac_free_def)
    from start_inv[OF ack(1) this] ack(3) show ?thesis by simp
  qed (use assms(2) in simp)
qed

lemma mac_inv_counters [simp]:
  "mac_inv (s\<lparr>numDroppedNotForUs := a\<rparr>) = mac_inv s" "mac_inv (s\<lparr>numPauseFramesRcvd := a\<rparr>) = mac_inv s"
  "mac_inv (s\<lparr>receivepause := c\<rparr>) = mac_inv s" "mac_inv (s\<lparr>receiveresume := c\<rparr>) = mac_inv s"
  "mac_inv (s\<lparr>numDroppedBitError := a\<rparr>) = mac_inv s" "mac_inv (s\<lparr>numDroppedIfaceDown := a\<rparr>) = mac_inv s"
  "mac_inv (s\<lparr>totalSuccessfulRxTime := r\<rparr>) = mac_inv s"
  "mac_inv (s\<lparr>numFramesReceivedOK := a, numFramesPassedToHL := b\<rparr>) = mac_inv s"
  "mac_inv (s\<lparr>totalSuccessfulRxTime := r, numDroppedBitError := a\<rparr>) = mac_inv s"
  by (simp_all add: mac_inv_def)

text \<open>A frame whose pause time is a pause time.\<close>

definition pause_ok :: "frame \<Rightarrow> bool" where
  "pause_ok f \<longleftrightarrow> (case f_kind f of PauseFrame u \<Rightarrow> 0 \<le> u | _ \<Rightarrow> True)"

lemma receiveFrame_inv:
  assumes "HiEthernetMac_receiveFrame cfg now w f s = Inr (s', es)" and "mac_inv s" and "pause_ok f"
  shows "mac_inv s'"
proof -
  obtain g s1 es1 where t: "HiEthernetMac_receiveTIMELY cfg now w f s = Inr (g, s1, es1)"
    using assms(1) by (auto simp: HiEthernetMac_receiveFrame_def rbind_eq_Inr)
  from timely_inv[OF t assms(2)] have i: "mac_inv s1" and k: "f_kind g = f_kind f" by auto
  with assms(1,3) t show ?thesis
    by (auto simp: HiEthernetMac_receiveFrame_def rbind_eq_Inr HiEthernetMac_processReceivedDataFrame_def pause_ok_def
        split: if_splits frame_kind.splits elim!: pauseCommand_inv)
qed

lemma network_inv:
  assumes "HiEthernetMac_processMsgFromNetwork cfg now w sg s = Inr (s', es)" and "mac_inv s"
    and "pause_ok (sg_frame sg)"
  shows "mac_inv s'"
proof -
  have p: "pause_ok f" if "EthernetMacBase_decapsulate (sg_frame sg) = Inr f" for f
    using that assms(3) by (auto simp: EthernetMacBase_decapsulate_def pause_ok_def split: if_splits)
  then show ?thesis
    using assms(1,2)
    by (auto simp: HiEthernetMac_processMsgFromNetwork_def rbind_eq_Inr Let_def split: if_splits
        elim!: receiveFrame_inv)
qed

lemma pfc_inv:
  assumes "HiEthernetMac_processpfccommand cfg now w oper i pr s = Inr (s', es)" and "mac_inv s"
  shows "mac_inv s'"
proof -
  consider (same) "s' = s"
    | (sent) t where "HiEthernetMac_startFrameTransmission cfg now w t = Inr (s', es)" "mac_free t"
    using assms(1) mac_inv_idle[OF assms(2)]
    by (auto simp: HiEthernetMac_processpfccommand_def mac_free_def split: if_splits pfc_op.splits)
  then show ?thesis by cases (use assms(2) start_inv in auto)
qed

lemma endTx_inv:
  assumes "HiEthernetMac_handleEndTxPeriod cfg now (s\<lparr>endTxTimer := None\<rparr>) = Inr (s', es)" and "mac_inv s"
  shows "mac_inv s'"
proof -
  have st: "transmitState s = TRANSMITTING_STATE"
    using assms(1) by (auto simp: HiEthernetMac_handleEndTxPeriod_def split: if_splits)
  with assms show ?thesis
    by (auto simp: HiEthernetMac_handleEndTxPeriod_def rbind_eq_Inr mac_inv_def Let_def
        HiEthernetMac_scheduleEndIFGPeriod_def HiEthernetMac_scheduleEndPausePeriod_def
        split: if_splits option.splits)
qed

text \<open>What the surroundings of the MAC may send it.\<close>

fun mac_accepts :: "mac_cfg \<Rightarrow> simtime \<times> int \<times> mac_event \<Rightarrow> bool" where
  "mac_accepts cfg (now, w, FromNetwork sg) \<longleftrightarrow> pause_ok (sg_frame sg)"
| "mac_accepts cfg (now, w, e) \<longleftrightarrow> True"

lemma endIfg_inv:
  assumes "HiEthernetMac_handleEndIFGPeriod cfg can deq now w (s\<lparr>endIfgTimer := None\<rparr>, q) = Inr ((s', q'), es)"
    and "mac_inv s"
  shows "mac_inv s'"
proof -
  have st: "transmitState s = WAIT_IFG_STATE"
    using assms(1) by (auto simp: HiEthernetMac_handleEndIFGPeriod_def Let_def split: if_splits)
  let ?t = "s\<lparr>endIfgTimer := None, transmitState := TX_IDLE_STATE\<rparr>"
  obtain u where d: "HiEthernetMac_dequeue cfg can deq now w (u, q) = Inr ((s', q'), es)"
    and v: "tx_view u = tx_view ?t"
    using assms(1) by (auto simp: HiEthernetMac_handleEndIFGPeriod_def Let_def tx_view_def
        HiEthernetMac_beginNewInterval_def split: if_splits)
  have "mac_inv ?t" using st assms(2) by (auto simp: mac_inv_def)
  then have "mac_inv u" unfolding mac_inv_view[OF v] .
  with d show ?thesis by (rule dequeue_inv)
qed

lemma endPause_inv:
  assumes "HiEthernetMac_handleEndPausePeriod cfg can deq now w (s\<lparr>endPauseTimer := None\<rparr>, q) = Inr ((s', q'), es)"
    and "mac_inv s"
  shows "mac_inv s'"
proof -
  have st: "transmitState s = PAUSE_STATE"
    using assms(1) by (auto simp: HiEthernetMac_handleEndPausePeriod_def Let_def split: if_splits)
  have "HiEthernetMac_dequeue cfg can deq now w
      (s\<lparr>endPauseTimer := None, transmitState := TX_IDLE_STATE\<rparr>, q) = Inr ((s', q'), es)"
    using assms(1) by (auto simp: HiEthernetMac_handleEndPausePeriod_def Let_def split: if_splits)
  moreover have "mac_inv (s\<lparr>endPauseTimer := None, transmitState := TX_IDLE_STATE\<rparr>)"
    using st assms(2) by (auto simp: mac_inv_def)
  ultimately show ?thesis by (rule dequeue_inv)
qed

lemma handleEvent_inv:
  assumes "HiEthernetMac_handleEvent cfg can deq x (s, q) = Inr ((s', q'), es)" and "mac_inv s"
    and "mac_accepts cfg x"
  shows "mac_inv s'"
proof -
  obtain now w e where x: "x = (now, w, e)" by (cases x)
  show ?thesis
    using assms x
    by (cases e)
      (auto simp: lift_mac_def rbind_eq_Inr HiEthernetMac_handleCanPullPacketChanged_def split: if_splits
        elim: endTx_inv endIfg_inv endPause_inv upper_inv network_inv pfc_inv dequeue_inv)
qed

interpretation mac_tx: machine
    "HiEthernetMac_handleEvent cfg can deq" "\<lambda>st. mac_inv (fst st)" "mac_accepts cfg" for cfg can deq
proof (unfold_locales, goal_cases)
  case (1 st x st' es)
  then show ?case using handleEvent_inv[of cfg can deq x "fst st" "snd st" "fst st'" "snd st'" es] by simp
qed

subsection \<open>Nothing fails\<close>

definition mac_cfg_ok :: "mac_cfg \<Rightarrow> bool" where
  "mac_cfg_ok cfg \<longleftrightarrow> txrate cfg \<noteq> 0 \<and> macAddress cfg \<noteq> Unspecified \<and> stackPriority cfg \<noteq> 11"

text \<open>Frames the MAC can send: within the size, with the headers their name promises and a priority it can count.\<close>

definition stampable :: "mac_cfg \<Rightarrow> frame \<Rightarrow> bool" where
  "stampable cfg f \<longleftrightarrow>
     (useHPCC cfg \<and> contains ''HPCCData'' (p_name f) \<longrightarrow>
        (\<exists>h. f_int f = Some h \<and> 0 \<le> nHop h \<and> nHop h < int (length (hopInfs h)))) \<and>
     (usePSD cfg \<and> contains ''PSDData'' (p_name f) \<longrightarrow> f_psd f \<noteq> None) \<and>
     (useCoRe cfg \<and> contains ''CoRe'' (p_name f) \<longrightarrow> f_psd f \<noteq> None) \<and>
     (p_tags f \<noteq> [] \<longrightarrow> ht_priority (last (p_tags f)) \<noteq> 11)"

definition sendable :: "mac_cfg \<Rightarrow> frame \<Rightarrow> bool" where
  "sendable cfg f \<longleftrightarrow> stampable cfg f \<and> f_dest f \<noteq> macAddress cfg \<and> p_bits f \<le> 8 * 1526"

lemma stampHPCC_ok: "stampable cfg f \<Longrightarrow> is_ok (HiEthernetMac_stampHPCC cfg now w f s)"
  by (auto simp: HiEthernetMac_stampHPCC_def stampable_def Let_def)

lemma stampPSD_ok: "(b \<and> contains nm (p_name f) \<longrightarrow> f_psd f \<noteq> None) \<Longrightarrow> is_ok (HiEthernetMac_stampPSD b nm now f)"
  by (auto simp: HiEthernetMac_stampPSD_def Let_def)

lemma updateStats_ok:
  "length (intvlPriBits s) = 11 \<Longrightarrow> stackPriority cfg \<noteq> 11 \<Longrightarrow> (p_tags f \<noteq> [] \<Longrightarrow> ht_priority (last (p_tags f)) \<noteq> 11) \<Longrightarrow>
     is_ok (HiEthernetMac_updateStats cfg f s)"
  by (auto simp: HiEthernetMac_updateStats_def Let_def nat_less_iff)

lemma start_ok:
  assumes "mac_free s" and "currentTxFrame s = Some f" and "f_src f \<noteq> Unspecified" and "stampable cfg f"
    and "mac_cfg_ok cfg"
  shows "is_ok (HiEthernetMac_startFrameTransmission cfg now w s)"
proof -
  obtain f1 s1 where 1: "HiEthernetMac_stampHPCC cfg now w f s = Inr (f1, s1)"
    using stampHPCC_ok[OF assms(4), of now w s] by (auto simp: is_ok_iff)
  note k1 = stampHPCC_Inr[OF 1]
  obtain f2 where 2: "HiEthernetMac_stampPSD (usePSD cfg) ''PSDData'' now f1 = Inr f2"
    using stampPSD_ok[of "usePSD cfg" "''PSDData''" f1 now] k1 assms(4) by (auto simp: is_ok_iff stampable_def)
  note k2 = stampPSD_Inr[OF 2]
  obtain f3 where 3: "HiEthernetMac_stampPSD (useCoRe cfg) ''CoRe'' now f2 = Inr f3"
    using stampPSD_ok[of "useCoRe cfg" "''CoRe''" f2 now] k1 k2 assms(4) by (auto simp: is_ok_iff stampable_def)
  note k3 = stampPSD_Inr[OF 3]
  have v: "tx_view s1 = tx_view s" using k1 by simp
  then have "length (intvlPriBits s1) = 11" using assms(1) by (simp add: tx_view_def mac_free_def)
  then have "is_ok (HiEthernetMac_updateStats cfg (EthernetMacBase_encapsulate f3) s1)"
    using assms(4,5) k1 k2 k3
    by (intro updateStats_ok) (auto simp: mac_cfg_ok_def stampable_def EthernetMacBase_encapsulate_def)
  then obtain s2 where 4: "HiEthernetMac_updateStats cfg (EthernetMacBase_encapsulate f3) s1 = Inr s2"
    by (auto simp: is_ok_iff)
  have "tx_view s2 = tx_view s" using updateStats_Inr[OF 4] v by simp
  with assms(1) have "curTxSignal s2 = None" "endTxTimer s2 = None" by (auto simp: tx_view_def mac_free_def)
  with 1 2 3 4 assms(2,3) show ?thesis
    by (simp add: HiEthernetMac_startFrameTransmission_def Let_def)
qed

lemma sendable_padded:
  "sendable cfg f \<Longrightarrow> stampable cfg (EthernetMacBase_addPaddingAndSetFcs (if c then f\<lparr>f_src := a\<rparr> else f) n)"
  by (auto simp: sendable_def stampable_def EthernetMacBase_addPaddingAndSetFcs_def Let_def)

lemma padded_src [simp]: "f_src (EthernetMacBase_addPaddingAndSetFcs f n) = f_src f"
  by (simp add: EthernetMacBase_addPaddingAndSetFcs_def Let_def)

lemma upper_ok:
  assumes "mac_inv s" and "transmitState s = TX_IDLE_STATE" and "sendable cfg p" and "mac_cfg_ok cfg"
  shows "is_ok (HiEthernetMac_handleUpperPacket cfg now w p s)"
proof -
  let ?p = "if f_src p = Unspecified then p\<lparr>f_src := macAddress cfg\<rparr> else p"
  let ?t = "s\<lparr>numFramesFromHL := numFramesFromHL s + 1,
      currentTxFrame := Some (EthernetMacBase_addPaddingAndSetFcs ?p 64)\<rparr>"
  from mac_inv_idle[OF assms(1,2)] have f: "mac_free ?t" "currentTxFrame s = None" by (auto simp: mac_free_def)
  have "f_src ?p \<noteq> Unspecified" using assms(4) by (simp add: mac_cfg_ok_def)
  then have "is_ok (HiEthernetMac_startFrameTransmission cfg now w ?t)"
    by (intro start_ok[OF f(1), where f = "EthernetMacBase_addPaddingAndSetFcs ?p 64"])
      (use assms(3,4) in \<open>simp_all only: padded_src sendable_padded not_False_eq_True, simp_all\<close>)
  with assms(2,3) f(2) show ?thesis
    by (simp add: HiEthernetMac_handleUpperPacket_def Let_def sendable_def)
qed

lemma schedulePause_ok:
  "mac_cfg_ok cfg \<Longrightarrow> currentTxFrame s = None \<Longrightarrow> endPauseTimer s = None \<Longrightarrow> 0 \<le> u \<Longrightarrow>
     is_ok (HiEthernetMac_scheduleEndPausePeriod cfg now u s)"
  by (simp add: HiEthernetMac_scheduleEndPausePeriod_def mac_cfg_ok_def Let_def)

lemma endTx_ok:
  assumes "mac_inv s" and "mac_cfg_ok cfg" and "endTxTimer s \<noteq> None"
  shows "is_ok (HiEthernetMac_handleEndTxPeriod cfg now (s\<lparr>endTxTimer := None\<rparr>))"
proof -
  from assms have "transmitState s = TRANSMITTING_STATE" "endIfgTimer s = None" "endPauseTimer s = None"
    "curTxSignal s \<noteq> None"
    by (auto simp: mac_inv_def)
  moreover obtain f where "currentTxFrame s = Some f" using assms by (auto simp: mac_inv_def)
  ultimately show ?thesis
    using assms(2) by (auto simp: HiEthernetMac_handleEndTxPeriod_def HiEthernetMac_scheduleEndIFGPeriod_def
        HiEthernetMac_scheduleEndPausePeriod_def Let_def mac_cfg_ok_def)
qed

lemma pauseCommand_ok:
  "mac_inv s \<Longrightarrow> mac_cfg_ok cfg \<Longrightarrow> 0 \<le> u \<Longrightarrow> is_ok (HiEthernetMac_processPauseCommand cfg now u s)"
  by (cases "transmitState s")
    (auto simp: HiEthernetMac_processPauseCommand_def mac_inv_def intro!: schedulePause_ok)

lemma ack_stampable: "stampable cfg (HiEthernetMac_timelyAck cfg f)"
  by (simp add: stampable_def HiEthernetMac_timelyAck_def EthernetMacBase_addPaddingAndSetFcs_def
      EthernetMacBase_frameBytes_def bytes_of_def Let_def)

lemma pfc_stampable: "stampable cfg (HiEthernetMac_pfcFrame cfg ''Pause'' k)" "stampable cfg (HiEthernetMac_pfcFrame cfg ''Resume'' k)"
  by (simp_all add: stampable_def HiEthernetMac_pfcFrame_def EthernetMacBase_addPaddingAndSetFcs_def
      EthernetMacBase_frameBytes_def bytes_of_def Let_def)

text \<open>
  Events in a well configured network: full-duplex signals with whole frames, pause commands that
  are one of the two, and no frames but those the MAC dequeues itself.
\<close>

fun mac_good :: "mac_cfg \<Rightarrow> simtime \<times> int \<times> mac_event \<Rightarrow> bool" where
  "mac_good cfg (now, w, FromNetwork sg) \<longleftrightarrow>
     pause_ok (sg_frame sg) \<and> sg_fullDuplex sg = duplexMode cfg \<and> sg_kind sg = EthernetSignal \<and>
     576 \<le> p_len (sg_frame sg) \<and>
     (useTIMELY cfg \<and> contains ''TIMELYData'' (p_name (sg_frame sg)) \<longrightarrow> p_tags (sg_frame sg) \<noteq> [])"
| "mac_good cfg (now, w, PfcCommand oper i pr) \<longleftrightarrow> oper \<noteq> OTHER_OP"
| "mac_good cfg (now, w, FromUpper f) \<longleftrightarrow> False"
| "mac_good cfg (now, w, e) \<longleftrightarrow> True"

lemma mac_good_accepts: "mac_good cfg x \<Longrightarrow> mac_accepts cfg x"
  by (induction cfg x rule: mac_good.induct) auto

lemma own_frame_ok:
  assumes "mac_inv s" and "transmitState s = TX_IDLE_STATE" and "mac_cfg_ok cfg"
    and "stampable cfg f" and "f_src f = macAddress cfg" and "tx_view t = tx_view (s\<lparr>currentTxFrame := Some f\<rparr>)"
  shows "is_ok (HiEthernetMac_startFrameTransmission cfg now w t)"
proof (rule start_ok[where f = f])
  have "mac_free (s\<lparr>currentTxFrame := Some f\<rparr>)"
    using mac_inv_idle[OF assms(1,2)] by (simp add: mac_free_def)
  then show "mac_free t" unfolding mac_free_view[OF assms(6)] .
  show "currentTxFrame t = Some f" using assms(6) by (simp add: tx_view_def)
qed (use assms in \<open>simp_all add: mac_cfg_ok_def\<close>)

lemma pfc_ok:
  assumes "mac_inv s" and "mac_cfg_ok cfg" and "oper \<noteq> OTHER_OP"
  shows "is_ok (HiEthernetMac_processpfccommand cfg now w oper i pr s)"
proof (cases "interfaceId cfg = i \<and> currentTxFrame s = None \<and> transmitState s = TX_IDLE_STATE")
  case True
  have src: "f_src (HiEthernetMac_pfcFrame cfg nm k) = macAddress cfg" for nm k
    by (simp add: HiEthernetMac_pfcFrame_def)
  have "is_ok (HiEthernetMac_startFrameTransmission cfg now w
      (s\<lparr>sendpause := a, currentTxFrame := Some (HiEthernetMac_pfcFrame cfg ''Pause'' k)\<rparr>))" for a k
    by (rule own_frame_ok[OF assms(1) _ assms(2) pfc_stampable(1) src]) (use True in \<open>simp_all add: tx_view_def\<close>)
  moreover have "is_ok (HiEthernetMac_startFrameTransmission cfg now w
      (s\<lparr>sendresume := a, currentTxFrame := Some (HiEthernetMac_pfcFrame cfg ''Resume'' k)\<rparr>))" for a k
    by (rule own_frame_ok[OF assms(1) _ assms(2) pfc_stampable(2) src]) (use True in \<open>simp_all add: tx_view_def\<close>)
  ultimately show ?thesis
    using assms(3) True by (cases oper) (simp_all add: HiEthernetMac_processpfccommand_def)
qed (auto simp: HiEthernetMac_processpfccommand_def)

lemma timely_ok:
  assumes "mac_inv s" and "mac_cfg_ok cfg"
    and "useTIMELY cfg \<and> contains ''TIMELYData'' (p_name f) \<longrightarrow> p_tags f \<noteq> []"
  shows "is_ok (HiEthernetMac_receiveTIMELY cfg now w f s)"
proof -
  have src: "f_src (HiEthernetMac_timelyAck cfg f) = macAddress cfg" by (simp add: HiEthernetMac_timelyAck_def)
  have t: "p_tags (packet.truncate f) = p_tags f" by (simp add: packet.truncate_def)
  have "is_ok (HiEthernetMac_startFrameTransmission cfg now w (s\<lparr>currentTxFrame := Some (HiEthernetMac_timelyAck cfg f)\<rparr>))"
    if "transmitState s = TX_IDLE_STATE"
    by (rule own_frame_ok[OF assms(1) that assms(2) ack_stampable src]) simp
  then have "is_ok (rbind (HiEthernetMac_startFrameTransmission cfg now w
      (s\<lparr>currentTxFrame := Some (HiEthernetMac_timelyAck cfg f)\<rparr>)) (\<lambda>(s', es). Inr (f, s', es)))"
    if "transmitState s = TX_IDLE_STATE"
    using that by (auto simp: is_ok_iff)
  then show ?thesis
    using assms(2,3) by (auto simp: HiEthernetMac_receiveTIMELY_def mac_cfg_ok_def t)
qed

lemma network_ok:
  assumes "mac_inv s" and "mac_cfg_ok cfg" and "mac_good cfg (now, w, FromNetwork sg)"
  shows "is_ok (HiEthernetMac_processMsgFromNetwork cfg now w sg s)"
proof -
  obtain f where f: "EthernetMacBase_decapsulate (sg_frame sg) = Inr f" and n: "p_name f = p_name (sg_frame sg)"
    "p_tags f = p_tags (sg_frame sg)" "f_kind f = f_kind (sg_frame sg)"
    using assms(3) by (simp add: EthernetMacBase_decapsulate_def)
  have i: "mac_inv (s\<lparr>totalSuccessfulRxTime := t\<rparr>)" for t using assms(1) by simp
  have "is_ok (HiEthernetMac_receiveFrame cfg now w f (s\<lparr>totalSuccessfulRxTime := t\<rparr>))" for t
  proof -
    obtain g s1 es1 where r: "HiEthernetMac_receiveTIMELY cfg now w f (s\<lparr>totalSuccessfulRxTime := t\<rparr>) = Inr (g, s1, es1)"
      using timely_ok[OF i assms(2), of f now w t] n assms(3) by (auto simp: is_ok_iff)
    from timely_inv[OF r i] have s1: "mac_inv s1" and k: "f_kind g = f_kind f" by auto
    have "is_ok (rbind (HiEthernetMac_processPauseCommand cfg now u (s1\<lparr>numPauseFramesRcvd := c\<rparr>))
        (\<lambda>(s2, es2). Inr (s2, es1 @ es2)))" if "f_kind g = PauseFrame u" for u c
    proof -
      have "is_ok (HiEthernetMac_processPauseCommand cfg now u (s1\<lparr>numPauseFramesRcvd := c\<rparr>))"
        using that k n(3) s1 assms(2,3) by (intro pauseCommand_ok) (auto simp: pause_ok_def)
      then show ?thesis by (auto simp: is_ok_iff)
    qed
    with r show ?thesis
      by (auto simp: HiEthernetMac_receiveFrame_def HiEthernetMac_processReceivedDataFrame_def split: frame_kind.splits)
  qed
  with f assms(3) show ?thesis by (simp add: HiEthernetMac_processMsgFromNetwork_def Let_def)
qed

text \<open>A MAC in front of a source of sendable frames.\<close>

locale mac_client = packet_source can deq holds "sendable cfg"
  for can :: "'q \<Rightarrow> bool" and deq :: "(frame, 'q) provider" and holds and cfg :: mac_cfg
begin

definition client_inv :: "mac \<times> 'q \<Rightarrow> bool" where
  "client_inv st \<longleftrightarrow> mac_inv (fst st) \<and> holds (snd st) \<and> mac_cfg_ok cfg"

lemma dequeue_total:
  assumes "mac_inv s" and "transmitState s = TX_IDLE_STATE" and "holds q" and "mac_cfg_ok cfg"
  shows "\<exists>s' q' es. HiEthernetMac_dequeue cfg can deq now w (s, q) = Inr ((s', q'), es) \<and> holds q'"
proof (cases "can q")
  case True
  obtain p q' qes where "deq q = Inr (p, q', qes)" "sendable cfg p" "holds q'" by (rule pullE[OF assms(3) True])
  with upper_ok[OF assms(1,2) this(2) assms(4), of now w] True show ?thesis
    by (auto simp: HiEthernetMac_dequeue_def is_ok_iff)
qed (use assms in \<open>simp add: HiEthernetMac_dequeue_def\<close>)

lemma lift_total: "is_ok r \<Longrightarrow> \<exists>s' es. lift_mac q r = Inr ((s', q), es)"
  by (auto simp: lift_mac_def is_ok_iff)

lemma ifg_total:
  assumes "mac_inv s" and "endIfgTimer s \<noteq> None" and "holds q" and "mac_cfg_ok cfg"
  shows "\<exists>s' q' es. HiEthernetMac_handleEndIFGPeriod cfg can deq now w (s\<lparr>endIfgTimer := None\<rparr>, q) = Inr ((s', q'), es) \<and> holds q'"
proof -
  let ?t = "s\<lparr>endIfgTimer := None, transmitState := TX_IDLE_STATE\<rparr>"
  have st: "transmitState s = WAIT_IFG_STATE" "currentTxFrame s = None" using assms(1,2) by (auto simp: mac_inv_def)
  have t: "mac_inv ?t" using st assms(1) by (auto simp: mac_inv_def)
  define u where "u = (if intvlNumPackets s \<ge> uint (batchSize cfg) \<or> now - intvlStartTime s \<ge> maxInterval cfg
      then HiEthernetMac_beginNewInterval cfg now (s\<lparr>endIfgTimer := None\<rparr>) else s\<lparr>endIfgTimer := None\<rparr>)
        \<lparr>transmitState := TX_IDLE_STATE\<rparr>"
  have v: "tx_view u = tx_view ?t"
    by (simp add: u_def tx_view_def HiEthernetMac_beginNewInterval_def Let_def)
  have u: "mac_inv u" using t unfolding mac_inv_view[OF v] .
  have ui: "transmitState u = TX_IDLE_STATE" by (simp add: u_def)
  from dequeue_total[OF u ui assms(3,4), of now w] st show ?thesis
    by (simp add: HiEthernetMac_handleEndIFGPeriod_def Let_def u_def)
qed

lemma pause_total:
  assumes "mac_inv s" and "endPauseTimer s \<noteq> None" and "holds q" and "mac_cfg_ok cfg"
  shows "\<exists>s' q' es. HiEthernetMac_handleEndPausePeriod cfg can deq now w (s\<lparr>endPauseTimer := None\<rparr>, q) = Inr ((s', q'), es) \<and> holds q'"
proof -
  have st: "transmitState s = PAUSE_STATE" "currentTxFrame s = None" using assms(1,2) by (auto simp: mac_inv_def)
  then have "mac_inv (s\<lparr>endPauseTimer := None, transmitState := TX_IDLE_STATE\<rparr>)" using assms(1) by (auto simp: mac_inv_def)
  from dequeue_total[OF this _ assms(3,4), of now w] st show ?thesis
    by (simp add: HiEthernetMac_handleEndPausePeriod_def Let_def)
qed

lemma event_total:
  assumes "client_inv (s, q)" and "mac_good cfg x"
  shows "\<exists>s' q' es. HiEthernetMac_handleEvent cfg can deq x (s, q) = Inr ((s', q'), es) \<and> client_inv (s', q')"
proof -
  from assms(1) have i: "mac_inv s" "holds q" "mac_cfg_ok cfg" by (auto simp: client_inv_def)
  obtain now w e where x: "x = (now, w, e)" by (cases x)
  have "\<exists>s' q' es. HiEthernetMac_handleEvent cfg can deq x (s, q) = Inr ((s', q'), es) \<and> holds q'"
  proof (cases e)
    case EndTx
    have "\<exists>s' es. lift_mac q (HiEthernetMac_handleEndTxPeriod cfg now (s\<lparr>endTxTimer := None\<rparr>)) = Inr ((s', q), es)"
      if "endTxTimer s \<noteq> None"
      by (rule lift_total[OF endTx_ok[OF i(1,3) that]])
    with EndTx i x show ?thesis by (cases "endTxTimer s = None") auto
  next
    case EndIfg
    with ifg_total[OF i(1) _ i(2,3)] i x show ?thesis by (cases "endIfgTimer s = None") auto
  next
    case EndPause
    with pause_total[OF i(1) _ i(2,3)] i x show ?thesis by (cases "endPauseTimer s = None") auto
  next
    case (FromNetwork sg)
    with lift_total[OF network_ok[OF i(1,3)]] assms(2) i x show ?thesis by fastforce
  next
    case CanPullChanged
    with dequeue_total[OF i(1) _ i(2,3)] i x show ?thesis
      by (auto simp: HiEthernetMac_handleCanPullPacketChanged_def)
  next
    case (PfcCommand oper j pr)
    with lift_total[OF pfc_ok[OF i(1,3)]] assms(2) i x show ?thesis by fastforce
  next
    case (FromUpper f)
    with assms(2) x show ?thesis by simp
  qed
  then show ?thesis using handleEvent_inv[OF _ i(1) mac_good_accepts[OF assms(2)]] i(3)
    by (fastforce simp: client_inv_def)
qed

end

sublocale mac_client \<subseteq> transmitter: total_machine "HiEthernetMac_handleEvent cfg can deq" client_inv "mac_good cfg"
proof (unfold_locales, goal_cases)
  case (1 st x st' es)
  then show ?case using event_total[of "fst st" "snd st" x] by (cases st) auto
next
  case (2 st x)
  then show ?case using event_total[of "fst st" "snd st" x] by (cases st) auto
qed

context mac_client
begin

lemma never_fails:
  assumes "mac_cfg_ok cfg" and "holds q" and "\<forall>x\<in>set xs. mac_good cfg x"
  shows "\<exists>s' q' es. run_out (HiEthernetMac_handleEvent cfg can deq) xs (HiEthernetMac_initial, q) = Inr ((s', q'), es)"
proof -
  have "client_inv (HiEthernetMac_initial, q)"
    using assms by (simp add: client_inv_def mac_inv_def HiEthernetMac_initial_def)
  from transmitter.run_ok[OF this assms(3)] show ?thesis by (auto simp: is_ok_iff)
qed

end

text \<open>The MAC behind its own transmit queue: a switch MAC queue that dequeues from a store of frames.\<close>

interpretation queued_mac: mac_client
    "\<lambda>st. SwitchMacQueue_canPullSomePacket (\<lambda>q. SwitchMacQueue_getNumPackets q \<noteq> 0) (snd st)"
    "SwitchMacQueue_dequeuePacket fifo_insert SwitchMacQueue_pullPacket"
    "\<lambda>st. fst st = [] \<and> (\<forall>p\<in>set (snd st). sendable cfg p)" cfg
    for cfg
  unfolding mac_client_def by (rule storage_mac.dequeuer.packet_source_axioms)

subsection \<open>Properties\<close>

definition sample_mac :: mac_cfg where
  "sample_mac = \<lparr>connected = True, duplexMode = True, promiscuous = False, macAddress = HostAddr 1, interfaceId = 7,
     hostId = 2, txrate = 100, useTIMELY = True, useHPCC = False, usePSD = False, useCoRe = False, stopTime = 1000,
     batchSize = 10, maxInterval = 5, txFinishTime = (\<lambda>now f. now + of_int (p_bits f) / 100), stackPriority = 0\<rparr>"

definition sample_frame :: frame where
  "sample_frame = \<lparr>p_id = 1, p_name = ''DcqcnData-1'', p_len = 800, p_iface = 0, p_ecn = None, p_tags = [],
     p_bfc = None, p_ispause = None, f_src = HostAddr 1, f_dest = HostAddr 9, f_kind = Payload, f_ipsrc = 0,
     f_ipdest = 0, f_int = None, f_psd = None, f_time = 0\<rparr>"

lemma sample_sendable: "sendable sample_mac sample_frame"
  by (simp add: sendable_def stampable_def sample_mac_def sample_frame_def)

lemma sample_mac_ok: "mac_cfg_ok sample_mac"
  by (simp add: mac_cfg_ok_def sample_mac_def)

abbreviation store_can :: "frame list \<times> frame list \<Rightarrow> bool" where
  "store_can st \<equiv> SwitchMacQueue_canPullSomePacket (\<lambda>q. SwitchMacQueue_getNumPackets q \<noteq> 0) (snd st)"

abbreviation store_deq :: "(frame, frame list \<times> frame list) provider" where
  "store_deq \<equiv> SwitchMacQueue_dequeuePacket fifo_insert SwitchMacQueue_pullPacket"

text \<open>C7: The transmitter keeps its invariant.  Over any sequence of timer, network, queue and pause
  events, whatever the transmit queue does, the MAC has a frame and a signal exactly while it
  transmits, and exactly the timer that ends its current state is armed, so no timer is ever
  scheduled twice and no end-of-period event finds the wrong state.\<close>

theorem mac_transmitter_invariant:
  assumes "\<forall>x\<in>set xs. mac_accepts cfg x"
    and "run_out (HiEthernetMac_handleEvent cfg can deq) xs (HiEthernetMac_initial, q) = Inr ((s', q'), es)"
  shows "mac_inv s'"
proof -
  have "mac_inv HiEthernetMac_initial" by (simp add: mac_inv_def HiEthernetMac_initial_def)
  then show ?thesis using mac_tx.inv_run[OF _ assms] by simp
qed

theorem mac_transmitter_invariant_witness:
  "\<exists>s' q' es. run_out (HiEthernetMac_handleEvent sample_mac store_can store_deq)
      [(0, 0, CanPullChanged), (8, 0, EndTx)] (HiEthernetMac_initial, [], [sample_frame]) = Inr ((s', q'), es) \<and>
      mac_inv s'"
proof -
  have g: "\<forall>x\<in>set [(0, 0, CanPullChanged), (8, 0, EndTx)]. mac_good sample_mac x" by simp
  then have a: "\<forall>x\<in>set [(0, 0, CanPullChanged), (8, 0, EndTx)]. mac_accepts sample_mac x" by simp
  have h: "fst ([], [sample_frame]) = [] \<and> (\<forall>p\<in>set (snd ([], [sample_frame])). sendable sample_mac p)"
    by (simp add: sample_sendable)
  from queued_mac.never_fails[OF sample_mac_ok h g] obtain s' q' es where
    r: "run_out (HiEthernetMac_handleEvent sample_mac store_can store_deq)
      [(0, 0, CanPullChanged), (8, 0, EndTx)] (HiEthernetMac_initial, [], [sample_frame]) = Inr ((s', q'), es)" by blast
  from mac_transmitter_invariant[OF a r] r show ?thesis by blast
qed

text \<open>C36: In a well configured network the MAC never fails.  When the transmit queue only gives frames
  that can be sent, no sequence of events makes any of its checks, assertions, array accesses or
  timer requests fail: every run returns.\<close>

theorem mac_never_fails:
  assumes "mac_cfg_ok cfg" and "holds q"
    and "\<forall>q. holds q \<and> can q \<longrightarrow> (\<exists>p q' es. deq q = Inr (p, q', es) \<and> sendable cfg p \<and> holds q')"
    and "\<forall>x\<in>set xs. mac_good cfg x"
  shows "\<exists>s' q' es. run_out (HiEthernetMac_handleEvent cfg can deq) xs (HiEthernetMac_initial, q) = Inr ((s', q'), es)"
proof -
  have "mac_client can deq holds cfg"
    unfolding mac_client_def by unfold_locales (use assms(3) in blast)
  from mac_client.never_fails[OF this assms(1,2,4)] show ?thesis .
qed

theorem mac_never_fails_witness:
  "\<exists>s' q' es. run_out (HiEthernetMac_handleEvent sample_mac store_can store_deq)
      [(0, 0, PfcCommand ETHERNET_PFC_PAUSE 7 3), (0, 0, CanPullChanged), (5, 0, EndTx), (6, 0, EndIfg)]
      (HiEthernetMac_initial, [], [sample_frame]) = Inr ((s', q'), es)"
proof -
  let ?xs = "[(0, 0, PfcCommand ETHERNET_PFC_PAUSE 7 3), (0, 0, CanPullChanged), (5, 0, EndTx), (6, 0, EndIfg)]"
  let ?holds = "\<lambda>st. fst st = [] \<and> (\<forall>p\<in>set (snd st). sendable sample_mac p)"
  have "?holds ([], [sample_frame])" by (simp add: sample_sendable)
  moreover have "\<forall>st. ?holds st \<and> store_can st \<longrightarrow>
      (\<exists>p st' es. store_deq st = Inr (p, st', es) \<and> sendable sample_mac p \<and> ?holds st')"
    using storage_mac.dequeuer.pull_ok[of _ "sendable sample_mac"] by blast
  moreover have "\<forall>x\<in>set ?xs. mac_good sample_mac x" by simp
  ultimately show ?thesis by (rule mac_never_fails[OF sample_mac_ok])
qed

text \<open>A pause or resume command of a queue becomes a frame only when the transmitter is free.  An
  idle MAC sends exactly one PFC frame of the requested kind and priority to the pause address at
  once; any other MAC drops the command without a trace, so the queue's books and the neighbour
  disagree from then on.\<close>

theorem pfc_sent_iff_idle:
  assumes "mac_inv s" and "mac_cfg_ok cfg" and "interfaceId cfg = iface" and "oper \<noteq> OTHER_OP"
  shows "\<exists>s' es. HiEthernetMac_processpfccommand cfg now w oper iface pr s = Inr (s', es) \<and>
     (if transmitState s = TX_IDLE_STATE
      then transmitState s' = TRANSMITTING_STATE \<and>
        (\<exists>g t. es = [MacSend g, ArmEndTx t] \<and> f_dest g = PauseAddr \<and>
           f_kind g = (if oper = ETHERNET_PFC_PAUSE then PfcPauseFrame pr else PfcResumeFrame pr))
      else s' = s \<and> es = [])"
proof -
  obtain s' es where r: "HiEthernetMac_processpfccommand cfg now w oper iface pr s = Inr (s', es)"
    using pfc_ok[OF assms(1,2,4), of now w iface pr] by (auto simp: is_ok_iff)
  show ?thesis
  proof (cases "transmitState s = TX_IDLE_STATE")
    case False
    with r assms(3) show ?thesis by (auto simp: HiEthernetMac_processpfccommand_def)
  next
    case True
    from mac_inv_idle[OF assms(1) True] have f: "mac_free s" "currentTxFrame s = None" by auto
    obtain t nm k where start: "HiEthernetMac_startFrameTransmission cfg now w t = Inr (s', es)"
      and t: "currentTxFrame t = Some (HiEthernetMac_pfcFrame cfg nm k)"
      and k: "k = (if oper = ETHERNET_PFC_PAUSE then PfcPauseFrame pr else PfcResumeFrame pr)"
      using r True f(2) assms(3,4) by (cases oper) (auto simp: HiEthernetMac_processpfccommand_def)
    have "f_kind (HiEthernetMac_pfcFrame cfg nm k) = k" "f_dest (HiEthernetMac_pfcFrame cfg nm k) = PauseAddr"
      by (simp_all add: HiEthernetMac_pfcFrame_def EthernetMacBase_addPaddingAndSetFcs_def Let_def)
    with start t k have "\<exists>g t'. es = [MacSend g, ArmEndTx t'] \<and> f_dest g = PauseAddr \<and> f_kind g = k \<and>
        transmitState s' = TRANSMITTING_STATE"
      by (elim start_Inr) (auto simp: tx_view_def)
    with r True k show ?thesis by auto
  qed
qed

theorem pfc_sent_iff_idle_witness:
  "\<exists>s' es g t. HiEthernetMac_processpfccommand sample_mac 0 0 ETHERNET_PFC_PAUSE 7 3 HiEthernetMac_initial = Inr (s', es) \<and>
     es = [MacSend g, ArmEndTx t] \<and> f_kind g = PfcPauseFrame 3"
proof -
  have "mac_inv HiEthernetMac_initial" by (simp add: mac_inv_def HiEthernetMac_initial_def)
  from pfc_sent_iff_idle[OF this sample_mac_ok, of 7 ETHERNET_PFC_PAUSE 0 0 3] show ?thesis
    by (auto simp: sample_mac_def HiEthernetMac_initial_def)
qed

text \<open>A PAUSE frame received during a transmission is obeyed when it ends: the transmitter then stays
  silent for exactly the requested number of 512 bit times; a later PAUSE with zero time takes
  the request back.\<close>

theorem mac_pause_deferred:
  assumes "mac_inv s" and "mac_cfg_ok cfg" and "transmitState s = TRANSMITTING_STATE" and "0 \<le> u"
    and "HiEthernetMac_processPauseCommand cfg now1 u s = Inr (s1, es1)"
  shows "\<exists>s2 es2. HiEthernetMac_handleEvent cfg can deq (now, w, EndTx) (s1, q) = Inr ((s2, q), es2) \<and>
     currentTxFrame s2 = None \<and>
     (if u > 0 then transmitState s2 = PAUSE_STATE \<and> endPauseTimer s2 = Some (now + 512 * of_int u / txrate cfg) \<and>
                    pauseUnitsRequested s2 = 0
      else transmitState s2 = WAIT_IFG_STATE \<and> endIfgTimer s2 = Some (now + 96 / txrate cfg))"
proof -
  have s1: "s1 = s\<lparr>pauseUnitsRequested := u\<rparr>"
    using assms(3,5) by (simp add: HiEthernetMac_processPauseCommand_def)
  from assms(1,3) obtain f g t where "currentTxFrame s = Some f" "curTxSignal s = Some g" "endTxTimer s = Some t"
    "endIfgTimer s = None" "endPauseTimer s = None"
    by (auto simp: mac_inv_def)
  with assms(2,3,4) show ?thesis
    by (auto simp: s1 lift_mac_def HiEthernetMac_handleEndTxPeriod_def Let_def mac_cfg_ok_def
        HiEthernetMac_scheduleEndIFGPeriod_def HiEthernetMac_scheduleEndPausePeriod_def)
qed

definition sample_busy :: mac where
  "sample_busy = HiEthernetMac_initial\<lparr>transmitState := TRANSMITTING_STATE, currentTxFrame := Some sample_frame,
     curTxSignal := Some sample_frame, endTxTimer := Some 8\<rparr>"

theorem mac_pause_deferred_witness:
  "\<exists>s2 es2. HiEthernetMac_handleEvent sample_mac store_can store_deq (8, 0, EndTx)
       (sample_busy\<lparr>pauseUnitsRequested := 100\<rparr>, [], []) = Inr ((s2, [], []), es2) \<and>
     endPauseTimer s2 = Some 520"
proof -
  have i: "mac_inv sample_busy" by (simp add: mac_inv_def HiEthernetMac_initial_def sample_busy_def)
  have p: "HiEthernetMac_processPauseCommand sample_mac 5 100 sample_busy = Inr (sample_busy\<lparr>pauseUnitsRequested := 100\<rparr>, [])"
    by (simp add: HiEthernetMac_processPauseCommand_def sample_busy_def)
  from mac_pause_deferred[OF i sample_mac_ok _ _ p, of store_can store_deq 8 0 "([], [])"] show ?thesis
    by (auto simp: sample_busy_def sample_mac_def)
qed

text \<open>The link is never left idle with work waiting.  Whenever a frame gap or a pause ends, or the
  queue reports that it has become non-empty while the MAC is idle, a connected MAC before its
  stop time starts transmitting if the queue has a packet.\<close>

theorem mac_work_conserving:
  assumes "mac_inv s" and "connected cfg" and "now \<le> stopTime cfg" and "can q"
    and "(e = EndIfg \<and> endIfgTimer s \<noteq> None) \<or> (e = EndPause \<and> endPauseTimer s \<noteq> None) \<or>
         (e = CanPullChanged \<and> transmitState s = TX_IDLE_STATE)"
    and "HiEthernetMac_handleEvent cfg can deq (now, w, e) (s, q) = Inr ((s', q'), es)"
  shows "transmitState s' = TRANSMITTING_STATE \<and> (\<exists>g. MacSend g \<in> set es)"
proof -
  obtain t where d: "HiEthernetMac_dequeue cfg can deq now w (t, q) = Inr ((s', q'), es)"
    using assms(5,6) mac_inv_idle[OF assms(1)]
    by (auto simp: HiEthernetMac_handleEndIFGPeriod_def HiEthernetMac_handleEndPausePeriod_def Let_def
        HiEthernetMac_handleCanPullPacketChanged_def split: if_splits)
  with assms(4) obtain p qes es1 where es: "es = map MacQueue qes @ es1"
    and u: "HiEthernetMac_handleUpperPacket cfg now w p t = Inr (s', es1)"
    by (auto simp: HiEthernetMac_dequeue_def rbind_eq_Inr)
  then obtain v where "HiEthernetMac_startFrameTransmission cfg now w v = Inr (s', es1)"
    using assms(2,3) by (auto simp: HiEthernetMac_handleUpperPacket_def Let_def split: if_splits)
  then show ?thesis by (rule start_Inr) (auto simp: es tx_view_def)
qed

theorem mac_work_conserving_witness:
  "\<exists>s' q' es. HiEthernetMac_handleEvent sample_mac store_can store_deq (0, 0, CanPullChanged)
       (HiEthernetMac_initial, [], [sample_frame]) = Inr ((s', q'), es) \<and> transmitState s' = TRANSMITTING_STATE"
proof -
  have i: "mac_inv HiEthernetMac_initial" by (simp add: mac_inv_def HiEthernetMac_initial_def)
  have "client": "queued_mac.client_inv sample_mac (HiEthernetMac_initial, [], [sample_frame])"
    by (simp add: queued_mac.client_inv_def i sample_sendable sample_mac_ok)
  obtain s' q' es where r: "HiEthernetMac_handleEvent sample_mac store_can store_deq (0, 0, CanPullChanged)
      (HiEthernetMac_initial, [], [sample_frame]) = Inr ((s', q'), es)"
    using queued_mac.event_total[OF "client", of "(0, 0, CanPullChanged)"] by auto
  from mac_work_conserving[OF i _ _ _ _ r] r show ?thesis
    by (auto simp: sample_mac_def SwitchMacQueue_canPullSomePacket_def SwitchMacQueue_getNumPackets_def
        HiEthernetMac_initial_def)
qed

end
