(* ===== verification/BFC_Queue.thy ===== *)
theory BFC_Queue
  imports RED_PFC_Queue
begin

section \<open>BFCqueue: per-flow backpressure\<close>

text \<open>
  \<open>HiNA/Ethernet/HiQueue/BFCQueue/BFCqueue\<close>.  A queue that, when it is too long, asks the upstream
  queue a packet came from to pause, tags the first such packet of each flow with \<open>isPause\<close>, and
  asks the upstream queue to resume when the tagged packet leaves.  \<open>isPausedFlow\<close> lists the flows
  a tagged packet stands for and \<open>ispaused\<close> the paused pairs of interface and upstream queue (a
  multimap, kept here in the order of insertion, which no operation reads).  The buffer pools are
  \<open>static b sharedBuffer[100][100]\<close>, indexed by the switch and the port number.
\<close>

type_synonym sbuf2 = "int \<times> int \<Rightarrow> int"

record bfc_cfg =
  bfcPacketCapacity :: int
  bfcDataCapacity :: int
  bfcHeadroom :: int
  bfcAlpha :: double
  useBfc :: bool
  bfcXOFF :: int
  bfcKmax :: int
  bfcKmin :: int
  bfcPmax :: double
  bfcUseEcn :: bool
  bfcSwitchid :: int
  bfcNumb :: int
  bfcHasDropper :: bool
  bfcHasCollector :: bool
  bfcInsert :: inserter

record bfcq =
  bqueue :: "packet list"
  isPausedFlow :: "u32 list"
  ispausedUp :: "(int \<times> int) list"
  bmarkNext :: bool
  bredCount :: double
  bmaxSize :: u64
  blastResult :: red_result

datatype beffect = BfcPaused int int | BfcResumed int int | QEff qeffect

abbreviation bfc_pool :: "bfc_cfg \<Rightarrow> int \<times> int" where
  "bfc_pool cfg \<equiv> (bfcSwitchid cfg, bfcNumb cfg)"

definition BFCqueue_initialize :: "bfc_cfg \<Rightarrow> int \<Rightarrow> sbuf2 \<Rightarrow> (bfcq \<times> sbuf2) res" where
  "BFCqueue_initialize cfg parSharedBuffer sb =
     (if bfcSwitchid cfg < 0 \<or> 100 \<le> bfcSwitchid cfg \<or> bfcNumb cfg < 0 \<or> 100 \<le> bfcNumb cfg then Inl OutOfBounds
      else Inr (\<lparr>bqueue = [], isPausedFlow = [], ispausedUp = [], bmarkNext = False, bredCount = -1,
                 bmaxSize = 0, blastResult = BELOW_MIN_LIMIT\<rparr>,
                sb(bfc_pool cfg := parSharedBuffer)))"

definition BFCqueue_getNumPackets :: "bfcq \<Rightarrow> int" where
  "BFCqueue_getNumPackets s = int (length (bqueue s))"

definition BFCqueue_isOverloaded :: "bfc_cfg \<Rightarrow> bfcq \<Rightarrow> bool" where
  "BFCqueue_isOverloaded cfg s \<longleftrightarrow>
     (bfcPacketCapacity cfg \<noteq> -1 \<and> BFCqueue_getNumPackets s > bfcPacketCapacity cfg) \<or>
     (bfcDataCapacity cfg \<noteq> -1 \<and> bitLength (bqueue s) > bfcDataCapacity cfg)"

definition BFCqueue_getPacket :: "bfcq \<Rightarrow> int \<Rightarrow> packet res" where
  "BFCqueue_getPacket s index =
     (if index < 0 \<or> index \<ge> int (length (bqueue s)) then Inl (RuntimeError ''index out of range'')
      else Inr (bqueue s ! nat index))"

definition BFCqueue_BufferManagement ::
    "bfc_cfg \<Rightarrow> packet \<Rightarrow> bfcq \<Rightarrow> sbuf2 \<Rightarrow> (bool \<times> bfcq \<times> sbuf2) res" where
  "BFCqueue_BufferManagement cfg pck s sb =
     (if \<not> BFCqueue_isOverloaded cfg s then Inr (True, s, sb)
      else
        let remaining = sb (bfc_pool cfg) in
        rbind (dbl_to_u64 (bfcAlpha cfg * of_int remaining)) (\<lambda>mx.
          let s' = s\<lparr>bmaxSize := mx\<rparr> in
          if gt_mixed64 (bitLength (bqueue s) + p_bits pck) mx then Inr (False, s', sb)
          else Inr (True, s', sb(bfc_pool cfg := remaining - p_bits pck))))"

definition BFCqueue_tooLong :: "bfc_cfg \<Rightarrow> bfcq \<Rightarrow> sbuf2 \<Rightarrow> bool" where
  "BFCqueue_tooLong cfg s sb \<longleftrightarrow>
     byteLength (bqueue s) \<ge> bfcXOFF cfg \<or>
     (bitLength (bqueue s) > bfcDataCapacity cfg \<and> sb (bfc_pool cfg) < bfcHeadroom cfg)"

text \<open>
  The pause block of \<open>pushPacket\<close>.  The pushed packet is the object in the queue, so a tag added
  to it is added in place: \<open>tag_in_queue\<close>.  \<open>addTag\<close> raises when the tag is present.
\<close>

definition tag_in_queue :: "nat \<Rightarrow> 'm packet_scheme list \<Rightarrow> 'm packet_scheme list" where
  "tag_in_queue i q = map (\<lambda>p. if p_id p = i then p\<lparr>p_ispause := Some True\<rparr> else p) q"

definition BFCqueue_pauseBlock :: "packet \<Rightarrow> bfcq \<Rightarrow> (bfcq \<times> beffect list) res" where
  "BFCqueue_pauseBlock pck s =
     (case p_bfc pck of
        None \<Rightarrow> Inl NullPointer
      | Some hdr \<Rightarrow>
          let upq = upstreamQueueID hdr; iface = p_iface pck in
          rbind (last_tag pck) (\<lambda>tag.
            let flowid = ht_flowid tag in
            rbind (if flowid \<in> set (isPausedFlow s) then Inr s
                   else if p_ispause pck \<noteq> None then Inl (RuntimeError ''addTag: tag already exists'')
                   else Inr (s\<lparr>bqueue := tag_in_queue (p_id pck) (bqueue s),
                               isPausedFlow := isPausedFlow s @ [flowid]\<rparr>)) (\<lambda>s1.
              if (iface, upq) \<in> set (ispausedUp s1) then Inr (s1, [])
              else Inr (s1\<lparr>ispausedUp := ispausedUp s1 @ [(iface, upq)]\<rparr>, [BfcPaused iface upq]))))"

definition BFCqueue_pushPacket ::
    "bfc_cfg \<Rightarrow> packet \<Rightarrow> bfcq \<Rightarrow> sbuf2 \<Rightarrow> (bfcq \<times> beffect list) res" where
  "BFCqueue_pushPacket cfg pck s sb =
     (let s1 = s\<lparr>bqueue := bfcInsert cfg pck (bqueue s)\<rparr> in
      rbind (if contains ''BFC'' (p_name pck) \<and> useBfc cfg \<and> BFCqueue_tooLong cfg s1 sb
             then BFCqueue_pauseBlock pck s1 else Inr (s1, [])) (\<lambda>(s2, pauseEff).
        Inr (s2, [QEff (PushStarted (p_id pck))] @ pauseEff @
                 (if bfcHasCollector cfg \<and> BFCqueue_getNumPackets s2 \<noteq> 0 then [QEff NotifyCollector] else []) @
                 [QEff PushEnded])))"

definition BFCqueue_handleMessage ::
    "bfc_cfg \<Rightarrow> packet \<Rightarrow> bfcq \<times> sbuf2 \<Rightarrow> ((bfcq \<times> sbuf2) \<times> beffect list) res" where
  "BFCqueue_handleMessage cfg pck st =
     rbind (BFCqueue_BufferManagement cfg pck (fst st) (snd st)) (\<lambda>(ok, s, sb).
       if ok then rbind (BFCqueue_pushPacket cfg pck s sb) (\<lambda>(s', es). Inr ((s', sb), es))
       else Inr ((s, sb), [QEff (Dropped (p_id pck))]))"

definition BFCqueue_doRandomEarlyDetection :: "bfc_cfg \<Rightarrow> double \<Rightarrow> bfcq \<Rightarrow> red_result \<times> bfcq" where
  "BFCqueue_doRandomEarlyDetection cfg rnd s =
     (let queueLength = byteLength (bqueue s) in
      if bfcKmin cfg \<le> queueLength \<and> queueLength < bfcKmax cfg then
        (let s1 = s\<lparr>bredCount := bredCount s + 1\<rparr>;
             pb = bfcPmax cfg * of_int (queueLength - bfcKmin cfg) / of_int (bfcKmax cfg - bfcKmin cfg) in
         if rnd < pb then (RANDOMLY_ABOVE_LIMIT, s1\<lparr>bredCount := 0\<rparr>)
         else (RANDOMLY_BELOW_LIMIT, s1))
      else if queueLength \<ge> bfcKmax cfg then (ABOVE_MAX_LIMIT, s\<lparr>bredCount := 0\<rparr>)
      else (BELOW_MIN_LIMIT, s\<lparr>bredCount := -1\<rparr>))"

definition BFCqueue_markEcn :: "packet \<Rightarrow> bfcq \<Rightarrow> packet \<times> bfcq" where
  "BFCqueue_markEcn pck s =
     (let ecn = getEcn pck in
      if ecn \<noteq> NotECT then
        (if bmarkNext s \<and> ecn \<noteq> CE then (setEcn CE pck, s\<lparr>bmarkNext := False\<rparr>)
         else if ecn = CE then (pck, s\<lparr>bmarkNext := True\<rparr>)
         else (setEcn CE pck, s))
      else (pck, s))"

text \<open>
  The resume block of \<open>pullPacket\<close>, run for a packet with the \<open>isPause\<close> tag; its last step sets the
  upstream queue in the packet's own header, and is reached for tagged packets only.
\<close>

definition BFCqueue_resumeBlock :: "packet \<Rightarrow> bfcq \<Rightarrow> (packet \<times> bfcq \<times> beffect list) res" where
  "BFCqueue_resumeBlock pck s =
     (case p_bfc pck of
        None \<Rightarrow> Inl NullPointer
      | Some hdr \<Rightarrow>
          let upq = upstreamQueueID hdr; iface = p_iface pck in
          rbind (if p_ispause pck = Some True then
                   rbind (last_tag pck) (\<lambda>tag.
                     let flowid = ht_flowid tag in
                     if flowid \<in> set (isPausedFlow s) then
                       (let s1 = s\<lparr>isPausedFlow := filter (\<lambda>f. f \<noteq> flowid) (isPausedFlow s)\<rparr> in
                        if (iface, upq) \<in> set (ispausedUp s1)
                        then Inr (s1\<lparr>ispausedUp := filter (\<lambda>e. e \<noteq> (iface, upq)) (ispausedUp s1)\<rparr>,
                                  [BfcResumed iface upq])
                        else Inr (s1, []))
                     else Inr (s, []))
                 else Inr (s, [])) (\<lambda>(s', es).
            Inr (if p_ispause pck \<noteq> None then pck\<lparr>p_bfc := Some (hdr\<lparr>upstreamQueueID := queueID hdr\<rparr>)\<rparr> else pck,
                 s', es)))"

definition BFCqueue_credit :: "int \<Rightarrow> packet \<Rightarrow> packet list \<Rightarrow> int" where
  "BFCqueue_credit cap pck q =
     (if bitLength q - cap \<ge> p_bits pck then p_bits pck
      else if bitLength q \<ge> cap then bitLength q - cap
      else 0)"

definition BFCqueue_pullPacket ::
    "bfc_cfg \<Rightarrow> double \<Rightarrow> bfcq \<times> sbuf2 \<Rightarrow> (packet \<times> (bfcq \<times> sbuf2) \<times> beffect list) res" where
  "BFCqueue_pullPacket cfg rnd st =
     (case bqueue (fst st) of
        [] \<Rightarrow> Inl NullPointer
      | pck # rest \<Rightarrow>
          rbind (if contains ''BFC'' (p_name pck) then BFCqueue_resumeBlock pck (fst st)
                 else Inr (pck, fst st, [])) (\<lambda>(pck1, s1, es).
            let sb = (snd st)(bfc_pool cfg := snd st (bfc_pool cfg) +
                        BFCqueue_credit (bfcDataCapacity cfg) pck (bqueue (fst st)));
                (r, s2) = BFCqueue_doRandomEarlyDetection cfg rnd (s1\<lparr>bqueue := rest\<rparr>);
                s3 = s2\<lparr>blastResult := r\<rparr>;
                (pck2, s4) =
                  (if (r = RANDOMLY_ABOVE_LIMIT \<or> r = ABOVE_MAX_LIMIT) \<and> bfcUseEcn cfg
                   then BFCqueue_markEcn pck1 s3 else (pck1, s3))
            in Inr (pck2, (s4, sb), es @ [QEff (Pulled (p_id pck))])))"

definition BFCqueue_removePacket :: "nat \<Rightarrow> bfcq \<Rightarrow> bfcq \<times> beffect list" where
  "BFCqueue_removePacket i s = (s\<lparr>bqueue := remove_ptr i (bqueue s)\<rparr>, [QEff (Removed i)])"

definition BFCqueue_removeAllPackets :: "bfcq \<Rightarrow> bfcq \<times> beffect list" where
  "BFCqueue_removeAllPackets s =
     (let (q, packets) = pop_loop 0 (bqueue s) [] in
      (s\<lparr>bqueue := q\<rparr>, map (\<lambda>p. QEff (Removed (p_id p))) packets))"

definition BFCqueue_canPushSomePacket :: "bfc_cfg \<Rightarrow> bfcq \<Rightarrow> bool" where
  "BFCqueue_canPushSomePacket cfg s \<longleftrightarrow>
     (if bfcHasDropper cfg then True
      else if bfcPacketCapacity cfg \<noteq> -1 \<and> BFCqueue_getNumPackets s \<ge> bfcPacketCapacity cfg then False
      else if bfcDataCapacity cfg \<noteq> -1 \<and> bitLength (bqueue s) \<ge> bfcDataCapacity cfg then False
      else True)"

definition BFCqueue_canPushPacket :: "bfc_cfg \<Rightarrow> packet \<Rightarrow> bfcq \<Rightarrow> bool" where
  "BFCqueue_canPushPacket cfg pck s \<longleftrightarrow>
     (if bfcHasDropper cfg then True
      else if bfcPacketCapacity cfg \<noteq> -1 \<and> BFCqueue_getNumPackets s \<ge> bfcPacketCapacity cfg then False
      else if bfcDataCapacity cfg \<noteq> -1 \<and> bfcDataCapacity cfg - bitLength (bqueue s) < p_bits pck then False
      else True)"

definition BFCqueue_handlePacketRemoved :: "nat \<Rightarrow> bfcq \<Rightarrow> bfcq \<times> beffect list" where
  "BFCqueue_handlePacketRemoved i s =
     (if i \<in> p_id ` set (bqueue s) then BFCqueue_removePacket i s else (s, []))"

datatype bqop = BArrive packet | BPull double

fun BFCqueue_step :: "bfc_cfg \<Rightarrow> bqop \<Rightarrow> bfcq \<times> sbuf2 \<Rightarrow> ((bfcq \<times> sbuf2) \<times> beffect list) res" where
  "BFCqueue_step cfg (BArrive pck) st = BFCqueue_handleMessage cfg pck st"
| "BFCqueue_step cfg (BPull rnd) st = rbind (BFCqueue_pullPacket cfg rnd st) (\<lambda>(p, st', es). Inr (st', es))"

subsection \<open>Pauses and resumes\<close>

text \<open>
  Where the packets of a flow come from: \<open>src\<close> gives the interface and upstream queue of each
  flow.  A backpressure packet is well formed when it carries its flow's tag and a header that
  says so; it arrives without the \<open>isPause\<close> tag, which queues add.  The names of backpressure packets are a
  parameter, as BCN queues work with the same tags.
\<close>

definition flow_of :: "'m packet_scheme \<Rightarrow> u32" where
  "flow_of p = ht_flowid (last (p_tags p))"

definition bp_from :: "string \<Rightarrow> (u32 \<Rightarrow> int \<times> int) \<Rightarrow> 'm packet_scheme \<Rightarrow> bool" where
  "bp_from nm src p \<longleftrightarrow> (contains nm (p_name p) \<longrightarrow> p_tags p \<noteq> [] \<and>
     (\<exists>h. p_bfc p = Some h \<and> src (flow_of p) = (p_iface p, upstreamQueueID h)))"

definition stands_for :: "string \<Rightarrow> u32 \<Rightarrow> 'm packet_scheme \<Rightarrow> bool" where
  "stands_for nm f p \<longleftrightarrow> contains nm (p_name p) \<and> p_tags p \<noteq> [] \<and> flow_of p = f \<and> p_ispause p = Some True"

text \<open>
  Each listed flow has a tagged packet in the queue, and each paused upstream queue is the source
  of a listed flow: something in the queue will resume it.
\<close>

definition backed :: "string \<Rightarrow> (u32 \<Rightarrow> int \<times> int) \<Rightarrow> 'm packet_scheme list \<Rightarrow> u32 list \<Rightarrow> (int \<times> int) list \<Rightarrow> bool" where
  "backed nm src q fl up \<longleftrightarrow>
     (\<forall>p\<in>set q. bp_from nm src p) \<and> (\<forall>f\<in>set fl. \<exists>p\<in>set q. stands_for nm f p) \<and> set up \<subseteq> src ` set fl"

lemma backed_empty: "backed nm src [] fl up \<Longrightarrow> fl = [] \<and> up = []"
  by (auto simp: backed_def)

lemma backed_start [simp]: "backed nm src [] [] []"
  by (simp add: backed_def)

lemma backedD: "backed nm src q fl up \<Longrightarrow> p \<in> set q \<Longrightarrow> contains nm (p_name p) \<Longrightarrow>
     p_tags p \<noteq> [] \<and> (\<exists>h. p_bfc p = Some h \<and> src (flow_of p) = (p_iface p, upstreamQueueID h))"
  by (simp add: backed_def bp_from_def)

lemma backed_insert:
  assumes "backed nm src q fl up" and "inserts ins" and "bp_from nm src p"
  shows "backed nm src (ins p q) fl up \<and> p \<in> set (ins p q)"
proof -
  have "set (ins p q) = insert p (set q)" using assms(2) by (metis inserts_def set_mset_add_mset_insert set_mset_mset)
  with assms(1,3) show ?thesis by (auto simp: backed_def)
qed

text \<open>The tag is set on the packet that overloads the queue, unless its flow is listed.\<close>

lemma backed_pause:
  assumes "backed nm src q fl up" and "p \<in> set q" and "contains nm (p_name p)"
  defines "f \<equiv> flow_of p"
  shows "backed nm src (if f \<in> set fl then q else tag_in_queue (p_id p) q) (if f \<in> set fl then fl else fl @ [f])
     (if src f \<in> set up then up else up @ [src f])"
proof -
  have t: "p_tags p \<noteq> []" using backedD[OF assms(1-3)] by simp
  have fr: "\<forall>r\<in>set (tag_in_queue i q). bp_from nm src r" for i
    using assms(1) by (auto simp: backed_def tag_in_queue_def bp_from_def flow_of_def split: if_splits)
  have old: "\<exists>r\<in>set (tag_in_queue i q). stands_for nm g r" if "r \<in> set q" "stands_for nm g r" for i g r
    using that by (force simp: tag_in_queue_def stands_for_def flow_of_def)
  have new: "\<exists>r\<in>set (tag_in_queue (p_id p) q). stands_for nm f r"
    by (rule bexI[of _ "p\<lparr>p_ispause := Some True\<rparr>"])
      (use assms(2,3) t in \<open>auto simp: tag_in_queue_def stands_for_def flow_of_def f_def\<close>)
  show ?thesis
    using assms(1) fr new old by (auto simp: backed_def)
qed

text \<open>When the first packet leaves, its flow and the upstream queue are let go if it is tagged.\<close>

lemma backed_pull:
  assumes "backed nm src (p # rest) fl up" and "contains nm (p_name p)" and "p_ispause p = Some True"
  shows "backed nm src rest (filter (\<lambda>f. f \<noteq> flow_of p) fl) (filter (\<lambda>e. e \<noteq> src (flow_of p)) up)"
  using assms by (fastforce simp: backed_def stands_for_def)

lemma backed_drop:
  assumes "backed nm src (p # rest) fl up" and "contains nm (p_name p) \<longrightarrow> p_ispause p \<noteq> Some True \<or> flow_of p \<notin> set fl"
  shows "backed nm src rest fl up"
  using assms by (auto simp: backed_def stands_for_def)

abbreviation bfc_from :: "(u32 \<Rightarrow> int \<times> int) \<Rightarrow> packet \<Rightarrow> bool" where
  "bfc_from \<equiv> bp_from ''BFC''"

fun bfc_accepts :: "(u32 \<Rightarrow> int \<times> int) \<Rightarrow> bqop \<Rightarrow> bool" where
  "bfc_accepts src (BArrive p) \<longleftrightarrow> bfc_from src p \<and> p_ispause p = None"
| "bfc_accepts src (BPull r) \<longleftrightarrow> True"

definition bfc_inv :: "(u32 \<Rightarrow> int \<times> int) \<Rightarrow> bfcq \<Rightarrow> bool" where
  "bfc_inv src s \<longleftrightarrow> backed ''BFC'' src (bqueue s) (isPausedFlow s) (ispausedUp s)"

lemma bfc_inv_empty: "bfc_inv src s \<Longrightarrow> bqueue s = [] \<Longrightarrow> isPausedFlow s = [] \<and> ispausedUp s = []"
  by (auto simp: bfc_inv_def dest: backed_empty)

text \<open>The pauses and resumes sent for one upstream queue.\<close>

fun bfc_log :: "int \<times> int \<Rightarrow> beffect list \<Rightarrow> bool list" where
  "bfc_log e [] = []"
| "bfc_log e (BfcPaused i q # es) = (if (i, q) = e then True # bfc_log e es else bfc_log e es)"
| "bfc_log e (BfcResumed i q # es) = (if (i, q) = e then False # bfc_log e es else bfc_log e es)"
| "bfc_log e (QEff x # es) = bfc_log e es"

lemma bfc_log_append: "bfc_log e (es @ fs) = bfc_log e es @ bfc_log e fs"
  by (induction e es rule: bfc_log.induct) auto

lemma pauseBlock_step:
  assumes "BFCqueue_pauseBlock p s = Inr (s', es)" and "contains ''BFC'' (p_name p)"
    and "p \<in> set (bqueue s)" and "bfc_inv src s"
  shows "bfc_inv src s' \<and> alternates (e \<in> set (ispausedUp s)) (bfc_log e es) (e \<in> set (ispausedUp s'))"
proof -
  from backedD[OF assms(4)[unfolded bfc_inv_def] assms(3,2)] obtain h where h: "p_bfc p = Some h" and t: "p_tags p \<noteq> []"
    and src: "src (flow_of p) = (p_iface p, upstreamQueueID h)" by blast
  let ?f = "flow_of p" and ?e = "(p_iface p, upstreamQueueID h)"
  have s': "bqueue s' = (if ?f \<in> set (isPausedFlow s) then bqueue s else tag_in_queue (p_id p) (bqueue s))"
      "isPausedFlow s' = (if ?f \<in> set (isPausedFlow s) then isPausedFlow s else isPausedFlow s @ [?f])"
      "ispausedUp s' = (if ?e \<in> set (ispausedUp s) then ispausedUp s else ispausedUp s @ [?e])"
    and es: "es = (if ?e \<in> set (ispausedUp s) then [] else [BfcPaused (p_iface p) (upstreamQueueID h)])"
    using assms(1) h t by (auto simp: BFCqueue_pauseBlock_def flow_of_def Let_def rbind_eq_Inr split: if_splits)
  have "bfc_inv src s'" unfolding bfc_inv_def s'
    using backed_pause[OF assms(4)[unfolded bfc_inv_def] assms(3,2)] unfolding src .
  moreover have "alternates (e \<in> set (ispausedUp s)) (bfc_log e es) (e \<in> set (ispausedUp s'))"
    by (auto simp: s' es)
  ultimately show ?thesis ..
qed

lemma push_step:
  assumes "inserts (bfcInsert cfg)" and "BFCqueue_pushPacket cfg p s sb = Inr (s', es)"
    and "bfc_from src p" and "bfc_inv src s"
  shows "bfc_inv src s' \<and> alternates (e \<in> set (ispausedUp s)) (bfc_log e es) (e \<in> set (ispausedUp s'))"
proof -
  let ?s1 = "s\<lparr>bqueue := bfcInsert cfg p (bqueue s)\<rparr>"
  have i1: "bfc_inv src ?s1" "p \<in> set (bqueue ?s1)"
    using backed_insert[OF assms(4)[unfolded bfc_inv_def] assms(1,3)] by (simp_all add: bfc_inv_def)
  obtain s2 es2 where b: "(if contains ''BFC'' (p_name p) \<and> useBfc cfg \<and> BFCqueue_tooLong cfg ?s1 sb
      then BFCqueue_pauseBlock p ?s1 else Inr (?s1, [])) = Inr (s2, es2)"
    and s': "s' = s2" "bfc_log e es = bfc_log e es2"
    using assms(2) by (auto simp: BFCqueue_pushPacket_def Let_def rbind_eq_Inr bfc_log_append)
  show ?thesis
  proof (cases "contains ''BFC'' (p_name p) \<and> useBfc cfg \<and> BFCqueue_tooLong cfg ?s1 sb")
    case True
    with b have "BFCqueue_pauseBlock p ?s1 = Inr (s2, es2)" by simp
    from pauseBlock_step[OF this _ i1(2,1), of e] True s' show ?thesis by simp
  next
    case False
    with b have "s2 = ?s1" "es2 = []" by auto
    with s' i1 show ?thesis by simp
  qed
qed

lemma filter_alternates:
  "alternates (e \<in> set xs) (if x \<in> set xs \<and> x = e then [False] else []) (e \<in> set (filter (\<lambda>y. y \<noteq> x) xs))"
  by auto

lemma resumeBlock_step:
  assumes r: "BFCqueue_resumeBlock p s = Inr (p', s', es)" and n: "contains ''BFC'' (p_name p)"
    and q: "bqueue s = p # rest" and inv: "bfc_inv src s"
  shows "bfc_inv src (s'\<lparr>bqueue := rest\<rparr>) \<and>
     alternates (e \<in> set (ispausedUp s)) (bfc_log e es) (e \<in> set (ispausedUp s'))"
proof -
  have k: "backed ''BFC'' src (p # rest) (isPausedFlow s) (ispausedUp s)" using inv q by (simp add: bfc_inv_def)
  from backedD[OF k _ n] obtain h where h: "p_bfc p = Some h" and t: "p_tags p \<noteq> []"
    and src: "src (flow_of p) = (p_iface p, upstreamQueueID h)" by auto
  let ?f = "flow_of p" and ?e = "(p_iface p, upstreamQueueID h)"
  show ?thesis
  proof (cases "p_ispause p = Some True \<and> ?f \<in> set (isPausedFlow s)")
    case True
    with r h t have s': "isPausedFlow s' = filter (\<lambda>f. f \<noteq> ?f) (isPausedFlow s)"
      "ispausedUp s' = filter (\<lambda>e. e \<noteq> ?e) (ispausedUp s)" "bqueue s' = bqueue s"
      and es: "es = (if ?e \<in> set (ispausedUp s) then [BfcResumed (p_iface p) (upstreamQueueID h)] else [])"
      by (auto simp: BFCqueue_resumeBlock_def flow_of_def Let_def split: if_splits intro!: filter_id_conv[THEN iffD2, symmetric])
    with backed_pull[OF k n] True have "bfc_inv src (s'\<lparr>bqueue := rest\<rparr>)" by (simp add: bfc_inv_def src)
    then show ?thesis by (auto simp: s' es)
  next
    case False
    with r h have s': "s' = s" "es = []"
      by (auto simp: BFCqueue_resumeBlock_def rbind_eq_Inr last_tag_def flow_of_def Let_def split: if_splits)
    have "backed ''BFC'' src rest (isPausedFlow s) (ispausedUp s)" by (rule backed_drop[OF k]) (use False in blast)
    then show ?thesis by (simp add: bfc_inv_def s')
  qed
qed

lemma bfc_red_frame:
  assumes "BFCqueue_doRandomEarlyDetection cfg r s = (x, t)"
  shows "bqueue t = bqueue s \<and> isPausedFlow t = isPausedFlow s \<and> ispausedUp t = ispausedUp s"
  using assms by (auto simp: BFCqueue_doRandomEarlyDetection_def Let_def split: if_splits)

lemma bfc_mark_frame:
  assumes "BFCqueue_markEcn p s = (q, t)"
  shows "bqueue t = bqueue s \<and> isPausedFlow t = isPausedFlow s \<and> ispausedUp t = ispausedUp s \<and> p_bfc q = p_bfc p"
  using assms by (auto simp: BFCqueue_markEcn_def Let_def setEcn_def split: if_splits option.splits)

lemma bfc_pull_Inr:
  assumes "BFCqueue_pullPacket cfg r (s, sb) = Inr (p', (s', sb'), es)"
  obtains p rest p1 s1 es1 where "bqueue s = p # rest"
    and "(if contains ''BFC'' (p_name p) then BFCqueue_resumeBlock p s else Inr (p, s, [])) = Inr (p1, s1, es1)"
    and "bqueue s' = rest" "isPausedFlow s' = isPausedFlow s1" "ispausedUp s' = ispausedUp s1"
    and "p_bfc p' = p_bfc p1" "es = es1 @ [QEff (Pulled (p_id p))]"
    and "sb' = sb(bfc_pool cfg := sb (bfc_pool cfg) + BFCqueue_credit (bfcDataCapacity cfg) p (bqueue s))"
proof (cases "bqueue s")
  case Nil
  with assms show thesis by (simp add: BFCqueue_pullPacket_def)
next
  case (Cons p rest)
  with assms obtain p1 s1 es1 where b: "(if contains ''BFC'' (p_name p) then BFCqueue_resumeBlock p s
      else Inr (p, s, [])) = Inr (p1, s1, es1)"
    by (auto simp: BFCqueue_pullPacket_def rbind_eq_Inr split del: if_split cong: if_cong)
  obtain x s2 where red: "BFCqueue_doRandomEarlyDetection cfg r (s1\<lparr>bqueue := rest\<rparr>) = (x, s2)" by fastforce
  obtain p2 s4 where mark: "(if (x = RANDOMLY_ABOVE_LIMIT \<or> x = ABOVE_MAX_LIMIT) \<and> bfcUseEcn cfg
      then BFCqueue_markEcn p1 (s2\<lparr>blastResult := x\<rparr>) else (p1, s2\<lparr>blastResult := x\<rparr>)) = (p2, s4)" by fastforce
  have f: "bqueue s4 = rest" "isPausedFlow s4 = isPausedFlow s1" "ispausedUp s4 = ispausedUp s1" "p_bfc p2 = p_bfc p1"
    using bfc_red_frame[OF red] mark by (auto split: if_splits dest: bfc_mark_frame)
  from assms Cons b red mark have o: "p' = p2" "s' = s4" "es = es1 @ [QEff (Pulled (p_id p))]"
    "sb' = sb(bfc_pool cfg := sb (bfc_pool cfg) + BFCqueue_credit (bfcDataCapacity cfg) p (bqueue s))"
    by (simp_all add: BFCqueue_pullPacket_def Let_def del: fun_upd_apply cong: if_cong)
  show thesis by (rule that[OF Cons b]) (simp_all add: f o)
qed

lemma bfc_pull_step:
  assumes "BFCqueue_pullPacket cfg r (s, sb) = Inr (p', (s', sb'), es)" and "bfc_inv src s"
  shows "bfc_inv src s' \<and> alternates (e \<in> set (ispausedUp s)) (bfc_log e es) (e \<in> set (ispausedUp s'))"
  using assms(1)
proof (rule bfc_pull_Inr)
  fix p rest p1 s1 es1
  assume q: "bqueue s = p # rest"
    and b: "(if contains ''BFC'' (p_name p) then BFCqueue_resumeBlock p s else Inr (p, s, [])) = Inr (p1, s1, es1)"
    and s': "bqueue s' = rest" "isPausedFlow s' = isPausedFlow s1" "ispausedUp s' = ispausedUp s1"
    and es: "es = es1 @ [QEff (Pulled (p_id p))]"
  have "bfc_inv src (s1\<lparr>bqueue := rest\<rparr>) \<and>
      alternates (e \<in> set (ispausedUp s)) (bfc_log e es1) (e \<in> set (ispausedUp s1))"
  proof (cases "contains ''BFC'' (p_name p)")
    case True
    with b have "BFCqueue_resumeBlock p s = Inr (p1, s1, es1)" by simp
    from resumeBlock_step[OF this True q assms(2)] show ?thesis .
  next
    case False
    with b q have "s1 = s" "es1 = []" by auto
    moreover have "backed ''BFC'' src rest (isPausedFlow s) (ispausedUp s)"
      by (rule backed_drop) (use assms(2) q False in \<open>auto simp: bfc_inv_def\<close>)
    ultimately show ?thesis by (simp add: bfc_inv_def)
  qed
  then show ?thesis by (simp add: es bfc_log_append bfc_inv_def s')
qed

lemma bfc_admission_frame:
  "BFCqueue_BufferManagement cfg p s sb = Inr (ok, s', sb') \<Longrightarrow>
     bqueue s' = bqueue s \<and> isPausedFlow s' = isPausedFlow s \<and> ispausedUp s' = ispausedUp s"
  by (auto simp: BFCqueue_BufferManagement_def Let_def rbind_eq_Inr split: if_splits)

lemma bfc_step:
  assumes "BFCqueue_step cfg x (s, sb) = Inr ((s', sb'), es)" and "inserts (bfcInsert cfg)"
    and "bfc_accepts src x" and "bfc_inv src s"
  shows "bfc_inv src s' \<and> alternates (e \<in> set (ispausedUp s)) (bfc_log e es) (e \<in> set (ispausedUp s'))"
proof (cases x)
  case (BPull r)
  with assms bfc_pull_step[OF _ assms(4), of cfg r sb _ s' sb' es e] show ?thesis
    by (auto simp: rbind_eq_Inr)
next
  case (BArrive p)
  with assms(1) obtain ok t sb1 where bm: "BFCqueue_BufferManagement cfg p s sb = Inr (ok, t, sb1)"
    and rest: "(if ok then rbind (BFCqueue_pushPacket cfg p t sb1) (\<lambda>(s', es). Inr ((s', sb1), es))
         else Inr ((t, sb1), [QEff (Dropped (p_id p))])) = Inr ((s', sb'), es)"
    by (auto simp: BFCqueue_handleMessage_def rbind_eq_Inr simp del: if_split split del: if_split)
  have t: "bfc_inv src t" "ispausedUp t = ispausedUp s"
    using bfc_admission_frame[OF bm] assms(4) by (auto simp: bfc_inv_def)
  show ?thesis
  proof (cases ok)
    case True
    with rest have "BFCqueue_pushPacket cfg p t sb1 = Inr (s', es)" by (auto simp: rbind_eq_Inr)
    from push_step[OF assms(2) this _ t(1), of e] assms(3) BArrive t(2) show ?thesis by simp
  next
    case False
    with rest t show ?thesis by auto
  qed
qed

interpretation bfc_pause: signalled_machine
    "BFCqueue_step cfg" "\<lambda>st. inserts (bfcInsert cfg) \<and> bfc_inv src (fst st)" "bfc_accepts src"
    "bfc_log e" "\<lambda>st. e \<in> set (ispausedUp (fst st))" for cfg src e
proof (unfold_locales, goal_cases)
  case (1 st x st' es)
  then show ?case using bfc_step by (cases st; cases st') auto
next
  case 2
  show ?case by simp
next
  case (3 es fs)
  show ?case by (rule bfc_log_append)
next
  case (4 st x st' es)
  then show ?case using bfc_step by (cases st; cases st') auto
qed

definition sample_bfc_cfg :: bfc_cfg where
  "sample_bfc_cfg = \<lparr>bfcPacketCapacity = -1, bfcDataCapacity = 1000, bfcHeadroom = 0, bfcAlpha = 1, useBfc = True,
     bfcXOFF = 100, bfcKmax = 50, bfcKmin = 20, bfcPmax = 1, bfcUseEcn = True, bfcSwitchid = 3, bfcNumb = 1,
     bfcHasDropper = True, bfcHasCollector = True, bfcInsert = fifo_insert\<rparr>"

definition sample_bfc_pkt :: "nat \<Rightarrow> u32 \<Rightarrow> packet" where
  "sample_bfc_pkt i fl = \<lparr>p_id = i, p_name = ''BFCData-1'', p_len = 900, p_iface = 5, p_ecn = Some ECT0,
     p_tags = [\<lparr>ht_flowid = fl, ht_priority = 0, ht_flowsize = 0, ht_cretime = 0, ht_packetid = 0, ht_last = False,
        ht_queueid = 0, ht_decel = False, ht_speedup = False, ht_sender_priority = -1\<rparr>],
     p_bfc = Some \<lparr>upstreamQueueID = 2, queueID = 4\<rparr>, p_ispause = None\<rparr>"

lemmas bfc_eval = sample_bfc_cfg_def sample_bfc_pkt_def BFCqueue_handleMessage_def BFCqueue_pushPacket_def
  BFCqueue_pauseBlock_def BFCqueue_tooLong_def BFCqueue_pullPacket_def BFCqueue_resumeBlock_def
  BFCqueue_doRandomEarlyDetection_def BFCqueue_markEcn_def BFCqueue_credit_def BFCqueue_BufferManagement_def
  BFCqueue_isOverloaded_def BFCqueue_getNumPackets_def BFCqueue_initialize_def fifo_insert_def tag_in_queue_def
  byteLength_def bytes_of_def getEcn_def setEcn_def Let_def

text \<open>C10: Backpressure always lets go.  When every flow comes from one upstream queue, then from
  initialisation on the pauses and resumes sent to an upstream queue alternate, and whenever the
  queue has drained, every pause has been answered by a resume and no upstream queue is left paused.\<close>

theorem bfc_every_pause_resumed:
  assumes "BFCqueue_initialize cfg par sb0 = Inr (s, sb)" and "inserts (bfcInsert cfg)"
    and "\<forall>x\<in>set ops. bfc_accepts src x"
    and "run_out (BFCqueue_step cfg) ops (s, sb) = Inr ((s', sb'), es)"
  shows "alternates False (bfc_log e es) (e \<in> set (ispausedUp s')) \<and>
     (bqueue s' = [] \<longrightarrow> ispausedUp s' = [] \<and>
        length (filter (\<lambda>b. b) (bfc_log e es)) = length (filter Not (bfc_log e es)))"
proof -
  have s: "isPausedFlow s = []" "ispausedUp s = []" "bqueue s = []"
    using assms(1) by (auto simp: BFCqueue_initialize_def split: if_splits)
  then have i: "inserts (bfcInsert cfg) \<and> bfc_inv src (fst (s, sb))" using assms(2) by (simp add: bfc_inv_def)
  from bfc_pause.signal_run[OF i assms(3,4), of e]
  have a: "alternates False (bfc_log e es) (e \<in> set (ispausedUp s'))" using s by simp
  from bfc_pause.inv_run[OF i assms(3,4)] have "bfc_inv src s'" by simp
  with a alternates_balance[OF a] show ?thesis by (auto dest: bfc_inv_empty)
qed

theorem bfc_every_pause_resumed_witness:
  "\<exists>s sb s' sb' es. BFCqueue_initialize sample_bfc_cfg 500 (\<lambda>_. 0) = Inr (s, sb) \<and>
     run_out (BFCqueue_step sample_bfc_cfg) [BArrive (sample_bfc_pkt 1 9), BPull 0] (s, sb) = Inr ((s', sb'), es) \<and>
     bfc_log (5, 2) es = [True, False] \<and> ispausedUp s' = []"
proof -
  obtain s sb where i: "BFCqueue_initialize sample_bfc_cfg 500 (\<lambda>_. 0) = Inr (s, sb)"
    and s: "s = \<lparr>bqueue = [], isPausedFlow = [], ispausedUp = [], bmarkNext = False, bredCount = -1,
                 bmaxSize = 0, blastResult = BELOW_MIN_LIMIT\<rparr>" "sb = (\<lambda>_. 0)((3, 1) := 500)"
    by (simp add: bfc_eval)
  obtain s' sb' es where r: "run_out (BFCqueue_step sample_bfc_cfg) [BArrive (sample_bfc_pkt 1 9), BPull 0] (s, sb)
      = Inr ((s', sb'), es)" and l: "bfc_log (5, 2) es = [True, False]" and q: "bqueue s' = []"
    unfolding s by (simp add: bfc_eval)
  have "\<forall>x\<in>set [BArrive (sample_bfc_pkt 1 9), BPull 0]. bfc_accepts (\<lambda>_. (5, 2)) x"
    by (simp add: bp_from_def flow_of_def sample_bfc_pkt_def)
  from bfc_every_pause_resumed[OF i _ this r, of "(5, 2)"] i r l q show ?thesis
    by (auto simp: sample_bfc_cfg_def inserts_fifo)
qed

text \<open>The header that tells the next switch which queue to pause is only brought up to date for
  tagged packets: an ordinary packet leaves the switch with the upstream queue it came in with.\<close>

theorem bfc_upstream_only_when_tagged:
  assumes "BFCqueue_pullPacket cfg r (s, sb) = Inr (p', st', es)" and "bqueue s = p # rest"
    and "contains ''BFC'' (p_name p)"
  shows "\<exists>h. p_bfc p = Some h \<and>
     p_bfc p' = Some (if p_ispause p = None then h else h\<lparr>upstreamQueueID := queueID h\<rparr>)"
proof -
  obtain s' sb' where "st' = (s', sb')" by (cases st')
  with assms(1) have "BFCqueue_pullPacket cfg r (s, sb) = Inr (p', (s', sb'), es)" by simp
  then show ?thesis
    by (rule bfc_pull_Inr)
      (use assms(2,3) in \<open>auto simp: BFCqueue_resumeBlock_def rbind_eq_Inr Let_def split: option.splits if_splits\<close>)
qed

theorem bfc_upstream_only_when_tagged_witness:
  "\<exists>p' st' es. BFCqueue_pullPacket sample_bfc_cfg 0
       (\<lparr>bqueue = [sample_bfc_pkt 1 9], isPausedFlow = [], ispausedUp = [], bmarkNext = False, bredCount = -1,
         bmaxSize = 0, blastResult = BELOW_MIN_LIMIT\<rparr>, \<lambda>_. 500) = Inr (p', st', es) \<and>
     p_bfc p' = Some \<lparr>upstreamQueueID = 2, queueID = 4\<rparr>"
proof -
  obtain p' st' es where r: "BFCqueue_pullPacket sample_bfc_cfg 0
       (\<lparr>bqueue = [sample_bfc_pkt 1 9], isPausedFlow = [], ispausedUp = [], bmarkNext = False, bredCount = -1,
         bmaxSize = 0, blastResult = BELOW_MIN_LIMIT\<rparr>, \<lambda>_. 500) = Inr (p', st', es)"
    by (simp add: bfc_eval)
  from bfc_upstream_only_when_tagged[OF r, of "sample_bfc_pkt 1 9" "[]"] r show ?thesis
    by (auto simp: sample_bfc_pkt_def)
qed

end
