(* ===== verification/Flow_Sender.thy ===== *)
theory Flow_Sender
  imports Packets Std_Map Machine
begin

section \<open>What the congestion controls share\<close>

text \<open>
  The modules under \<open>HiNA/CC\<close> sit between UDP and IP.  Each keeps a \<open>std::map\<close> of the flows it is
  sending, an iterator at the flow being sent, a state that says whether the \<open>senddata\<close> timer is
  running, and cuts the flow at the iterator into packets paced by its current rate.  The
  classes repeat this code; the shared parts are here.

  A datagram is a packet with its addresses, ports and the congestion mark of its IP header
  (\<open>EcnInd\<close> or \<open>EcnReq\<close>), and what the control packets of the protocols carry.  The checksum fields
  are copied unread and are left out.
\<close>

record dgram = packet +
  d_src :: int
  d_dest :: int
  d_sport :: int
  d_dport :: int
  d_ecn :: int
  d_recRate :: u32
  d_int :: "int_header option"
  d_psd :: "psd_header option"
  d_sack :: "u32 list option"
  d_time :: simtime

datatype cc_timer = SendDataTimer | RateTimer u32 | AlphaTimer u32 | CnpTimer u32 | TimeoutTimer

datatype cc_effect = SendDown dgram | SendUp dgram | Arm cc_timer simtime | Cancel cc_timer

text \<open>The events of such a module: a timer fires, a packet comes from above or from below.\<close>

datatype cc_op = Fire cc_timer | Upper dgram | Lower dgram

datatype sender_state = SENDING | STOPPING | PAUSING

text \<open>The entry of a flow, which each protocol extends; most pace each flow at a rate of its own.\<close>

record flow =
  flowid :: u32
  remainLength :: int
  cretime :: simtime
  destAddr :: int
  srcPort :: int
  destPort :: int
  flowPriority :: int
  pckseq :: u32

record rated_flow = flow +
  currentRate :: double

text \<open>
  The sender.  \<open>iter\<close> is the key the iterator points at, \<open>None\<close> when it is unassigned or the end
  iterator.  Timers are objects the entries only point to, so copying an entry does not copy
  them: they are kept beside the map.
\<close>

record 'v sender =
  sender_flowMap :: "(u32, 'v) smap"
  iter :: "u32 option"
  SenderState :: sender_state
  timers :: "cc_timer \<Rightarrow> simtime option"
  lastflowid :: u32
  last_creation_time :: simtime
  srcAddr :: int

text \<open>\<open>scheduleAt\<close> refuses a scheduled message and a time in the past; \<open>cancelEvent\<close> takes any message.\<close>

definition scheduleAt :: "cc_timer \<Rightarrow> simtime \<Rightarrow> simtime \<Rightarrow> ('v, 'z) sender_scheme \<Rightarrow> ('v, 'z) sender_scheme res" where
  "scheduleAt tm now t s =
     (if timers s tm \<noteq> None then Inl AlreadyScheduled
      else if t < now then Inl (RuntimeError ''cannot schedule a message to the past'')
      else Inr (s\<lparr>timers := (timers s)(tm := Some t)\<rparr>))"

definition cancelEvent :: "cc_timer \<Rightarrow> ('v, 'z) sender_scheme \<Rightarrow> ('v, 'z) sender_scheme" where
  "cancelEvent tm s = s\<lparr>timers := (timers s)(tm := None)\<rparr>"

lemma scheduleAt_Inr:
  "scheduleAt tm now t s = Inr s' \<longleftrightarrow>
     timers s tm = None \<and> now \<le> t \<and> s' = s\<lparr>timers := (timers s)(tm := Some t)\<rparr>"
  by (auto simp: scheduleAt_def)

text \<open>
  The pause until the next packet: the bytes of the datagram and 58 bytes of headers and frame gap
  below it, at the current rate.  A quotient by a zero rate is no simulation time.
\<close>

definition nxtSendTime :: "simtime \<Rightarrow> int \<Rightarrow> double \<Rightarrow> simtime res" where
  "nxtSendTime now bytes rate =
     (if rate = 0 then Inl SimTimeOverflow else Inr (of_int ((bytes + 58) * 8) / rate + now))"

lemma nxtSendTime_pos: "0 < rate \<Longrightarrow> 0 \<le> bytes \<Longrightarrow> \<exists>t. nxtSendTime now bytes rate = Inr t \<and> now < t"
  by (simp add: nxtSendTime_def)

text \<open>
  The length of the message a tag announces: the field has 64 bits, the senders read it into a \<open>uint\<close>.
\<close>

definition message_length :: "hitag \<Rightarrow> int" where
  "message_length t = uint (ucast (ht_flowsize t) :: u32)"

lemma message_length_nonneg [simp]: "0 \<le> message_length t"
  by (simp add: message_length_def)

text \<open>
  Cutting one packet off a flow: at most \<open>max_pck_size\<close> bytes, and the rest.
\<close>

definition segment :: "int \<Rightarrow> int \<Rightarrow> int \<times> int" where
  "segment max_pck_size remain =
     (if remain > max_pck_size then (max_pck_size, remain - max_pck_size) else (remain, 0))"

text \<open>
  The creation time a packet is stamped with: the one noted when the sender last switched flows.
\<close>

definition note_flow :: "('m flow_scheme) \<Rightarrow> ('v, 'z) sender_scheme \<Rightarrow> ('v, 'z) sender_scheme" where
  "note_flow f s =
     (if lastflowid s \<noteq> flowid f then s\<lparr>last_creation_time := cretime f, lastflowid := flowid f\<rparr> else s)"

text \<open>Packet names are the protocol's prefix, the flow and the sequence number in decimal.\<close>

fun digits :: "nat \<Rightarrow> string" where
  "digits n = (if n < 10 then [char_of (48 + n)] else digits (n div 10) @ [char_of (48 + n mod 10)])"

declare digits.simps [simp del]

definition int_digits :: "int \<Rightarrow> string" where
  "int_digits n = (if n < 0 then ''-'' else []) @ digits (nat \<bar>n\<bar>)"

definition packet_name :: "string \<Rightarrow> 'm flow_scheme \<Rightarrow> string" where
  "packet_name nm f = nm @ ''-'' @ digits (unat (flowid f)) @ ''-'' @ digits (unat (pckseq f))"

text \<open>The data packet built from the entry as it was (\<open>f\<close>) and the rest after the cut (\<open>rest\<close>).\<close>

definition data_packet :: "string \<Rightarrow> ('v, 'z) sender_scheme \<Rightarrow> 'm flow_scheme \<Rightarrow> int \<Rightarrow> int \<Rightarrow> dgram" where
  "data_packet nm s f pcklength rest =
     \<lparr>p_id = 0, p_name = packet_name nm f, p_len = nat (8 * (pcklength + 8)), p_iface = 0, p_ecn = None,
      p_tags = [\<lparr>ht_flowid = flowid f, ht_priority = flowPriority f, ht_flowsize = 0,
                 ht_cretime = last_creation_time s, ht_packetid = uint (pckseq f), ht_last = (rest = 0),
        ht_queueid = 0, ht_decel = False, ht_speedup = False, ht_sender_priority = -1\<rparr>],
      p_bfc = None, p_ispause = None,
      d_src = srcAddr s, d_dest = destAddr f, d_sport = srcPort f, d_dport = destPort f, d_ecn = 1,
      d_recRate = 0, d_int = None, d_psd = None, d_sack = None, d_time = 0\<rparr>"

text \<open>Storing a new flow: the first flow of an empty map is where the iterator is put.\<close>

definition store_flow :: "u32 \<Rightarrow> 'v \<Rightarrow> ('v, 'z) sender_scheme \<Rightarrow> ('v, 'z) sender_scheme" where
  "store_flow k f s =
     (let m = map_put k f (sender_flowMap s) in
      if sender_flowMap s = [] then s\<lparr>sender_flowMap := m, iter := map_begin m\<rparr>
      else s\<lparr>sender_flowMap := m\<rparr>)"

text \<open>\<open>iter++; sender_flowMap.erase(flowid)\<close>\<close>

definition finish_flow :: "u32 \<Rightarrow> u32 \<Rightarrow> ('v, 'z) sender_scheme \<Rightarrow> ('v, 'z) sender_scheme" where
  "finish_flow it k s =
     s\<lparr>iter := map_next it (sender_flowMap s), sender_flowMap := map_erase k (sender_flowMap s)\<rparr>"

definition put_flow :: "u32 \<Rightarrow> 'v \<Rightarrow> ('v, 'z) sender_scheme \<Rightarrow> ('v, 'z) sender_scheme" where
  "put_flow k f s = s\<lparr>sender_flowMap := map_put k f (sender_flowMap s)\<rparr>"

lemma sender_frames [simp]:
  "timers (note_flow f s) = timers s" "sender_flowMap (note_flow f s) = sender_flowMap s"
  "iter (note_flow f s) = iter s" "SenderState (note_flow f s) = SenderState s"
  "timers (store_flow k v s) = timers s" "SenderState (store_flow k v s) = SenderState s"
  "timers (finish_flow it k s) = timers s" "SenderState (finish_flow it k s) = SenderState s"
  "timers (put_flow k v s) = timers s" "SenderState (put_flow k v s) = SenderState s" "iter (put_flow k v s) = iter s"
  "sender_flowMap (cancelEvent tm s) = sender_flowMap s" "iter (cancelEvent tm s) = iter s"
  "SenderState (cancelEvent tm s) = SenderState s" "timers (cancelEvent tm s) = (timers s)(tm := None)"
  "sender_flowMap (put_flow k v s) = map_put k v (sender_flowMap s)"
  "sender_flowMap (finish_flow it k s) = map_erase k (sender_flowMap s)"
  "sender_flowMap (store_flow k v s) = map_put k v (sender_flowMap s)"
  "iter (finish_flow it k s) = map_next it (sender_flowMap s)"
  "iter (store_flow k v s) = (if sender_flowMap s = [] then Some k else iter s)"
  by (simp_all add: note_flow_def store_flow_def finish_flow_def put_flow_def cancelEvent_def Let_def)

lemma note_flow_frames [simp]:
  "srcAddr (note_flow f s) = srcAddr s"
  by (simp add: note_flow_def)

subsection \<open>The iterator\<close>

text \<open>
  The iterator is safe to dereference: when there are flows it points at the first of them.  That
  is what \<open>send_data\<close> relies on; it holds as long as no flow is stored below the iterator.
\<close>

definition cursor_ok :: "('v, 'z) sender_scheme \<Rightarrow> bool" where
  "cursor_ok s \<longleftrightarrow> wf_map (sender_flowMap s) \<and>
     (sender_flowMap s \<noteq> [] \<longrightarrow>
        (\<exists>k v. iter s = Some k \<and> map_get (sender_flowMap s) k = Some v \<and>
           (\<forall>j \<in> fst ` set (sender_flowMap s). k \<le> j)))"

lemma keys_Nil_iff: "m = [] \<longleftrightarrow> fst ` set m = {}"
  by simp

lemma cursor_wf: "cursor_ok s \<Longrightarrow> wf_map (sender_flowMap s)"
  by (simp add: cursor_ok_def)

lemma cursorE:
  assumes "cursor_ok s" and "sender_flowMap s \<noteq> []"
  obtains k v where "iter s = Some k" and "map_get (sender_flowMap s) k = Some v"
    and "\<forall>j \<in> fst ` set (sender_flowMap s). k \<le> j"
  using assms by (auto simp: cursor_ok_def)

lemma cursor_cong:
  "sender_flowMap s = sender_flowMap t \<Longrightarrow> iter s = iter t \<Longrightarrow> cursor_ok s = cursor_ok t"
  by (simp add: cursor_ok_def)

lemma cursor_put:
  assumes "cursor_ok s" and "map_get (sender_flowMap s) k \<noteq> None"
  shows "cursor_ok (put_flow k v s)"
proof -
  have k: "k \<in> fst ` set (sender_flowMap s)" using assms(2) by (auto simp: map_get_None)
  then have "sender_flowMap s \<noteq> []" by auto
  from cursorE[OF assms(1) this] obtain i w where i: "iter s = Some i" "map_get (sender_flowMap s) i = Some w"
    and l: "\<forall>j \<in> fst ` set (sender_flowMap s). i \<le> j" .
  have keys: "fst ` set (map_put k v (sender_flowMap s)) = fst ` set (sender_flowMap s)"
    using k by (auto simp: keys_put)
  have "\<exists>w. map_get (map_put k v (sender_flowMap s)) i = Some w" using i by (simp add: get_put)
  with i l assms(1) keys show ?thesis
    unfolding cursor_ok_def by (auto simp: put_flow_def wf_put simp del: image_iff)
qed

lemma cursor_store:
  assumes "cursor_ok s" and "\<And>i. iter s = Some i \<Longrightarrow> sender_flowMap s \<noteq> [] \<Longrightarrow> i \<le> k"
  shows "cursor_ok (store_flow k v s)"
proof (cases "sender_flowMap s = []")
  case True
  then show ?thesis by (simp add: store_flow_def cursor_ok_def wf_map_def)
next
  case False
  from cursorE[OF assms(1) this] obtain i w where i: "iter s = Some i" "map_get (sender_flowMap s) i = Some w"
    and l: "\<forall>j \<in> fst ` set (sender_flowMap s). i \<le> j" .
  have "\<forall>j \<in> fst ` set (map_put k v (sender_flowMap s)). i \<le> j"
    using l assms(2)[OF i(1) False] by (simp add: keys_put)
  moreover have "\<exists>w. map_get (map_put k v (sender_flowMap s)) i = Some w" using i by (simp add: get_put)
  ultimately show ?thesis
    using i assms(1) False unfolding cursor_ok_def by (auto simp: store_flow_def wf_put simp del: image_iff)
qed

lemma cursor_finish:
  assumes "cursor_ok s" and "iter s = Some k" and "sender_flowMap s \<noteq> []"
  shows "cursor_ok (finish_flow k k s)"
proof -
  from cursorE[OF assms(1,3)] assms(2) have l: "\<forall>j \<in> fst ` set (sender_flowMap s). k \<le> j" by auto
  have w: "wf_map (sender_flowMap s)" using assms(1) by (rule cursor_wf)
  show ?thesis
  proof (cases "map_next k (sender_flowMap s)")
    case None
    then have "\<forall>j \<in> fst ` set (sender_flowMap s). j \<le> k" by (simp add: map_next_None)
    with l have "fst ` set (sender_flowMap s) \<subseteq> {k}" by force
    then have "map_erase k (sender_flowMap s) = []"
      using keys_erase[OF w, of k] by (simp only: keys_Nil_iff) blast
    then show ?thesis by (simp add: cursor_ok_def)
  next
    case (Some j)
    then have "map_get (map_erase k (sender_flowMap s)) j \<noteq> None" by (rule stdmap.advance_erase[OF w])
    moreover have "\<forall>i \<in> fst ` set (map_erase k (sender_flowMap s)). j \<le> i"
    proof
      fix i
      assume "i \<in> fst ` set (map_erase k (sender_flowMap s))"
      then have i: "i \<in> fst ` set (sender_flowMap s)" "i \<noteq> k" by (auto simp: keys_erase[OF w])
      with l have "k < i" by force
      have "map_get (sender_flowMap s) i \<noteq> None" using i(1) by (simp only: map_get_None not_not)
      then show "j \<le> i" using \<open>k < i\<close> by (rule stdmap.succ_least[OF w Some])
    qed
    ultimately show ?thesis using Some w by (auto simp: cursor_ok_def wf_erase)
  qed
qed

text \<open>
  The invariant of a sender: its entries are good, and it is sending exactly while the \<open>senddata\<close>
  timer runs.
\<close>

definition sender_inv :: "(u32 \<Rightarrow> 'v \<Rightarrow> bool) \<Rightarrow> ('v, 'z) sender_scheme \<Rightarrow> bool" where
  "sender_inv P s \<longleftrightarrow> wf_map (sender_flowMap s) \<and>
     (\<forall>k v. map_get (sender_flowMap s) k = Some v \<longrightarrow> P k v) \<and>
     (SenderState s = SENDING \<longleftrightarrow> timers s SendDataTimer \<noteq> None) \<and> SenderState s \<noteq> PAUSING"

subsection \<open>Segmentation\<close>

text \<open>
  What a sender must do with a flow: the packets it sends for it, as sequence number, payload and
  last-packet flag, take the flow from one point (bytes left, next sequence number) to another,
  or to its end.
\<close>

fun delivers :: "(u32 \<times> int \<times> bool) list \<Rightarrow> (int \<times> u32) option \<Rightarrow> (int \<times> u32) option \<Rightarrow> bool" where
  "delivers [] a b = (a = b)"
| "delivers (x # xs) None b = False"
| "delivers ((q, len, lst) # xs) (Some (n, r)) b =
     (q = r \<and> 0 \<le> len \<and> len \<le> n \<and> (lst \<longleftrightarrow> len = n) \<and>
      delivers xs (if len = n then None else Some (n - len, r + 1)) b)"

lemma delivers_append: "delivers xs a b \<Longrightarrow> delivers ys b c \<Longrightarrow> delivers (xs @ ys) a c"
  by (induction xs a b rule: delivers.induct) auto

lemma delivers_None: "delivers xs None b \<longleftrightarrow> xs = [] \<and> b = None"
  by (cases xs) auto

text \<open>A flow taken to its end: every byte once, numbered from the start, the flag on the last packet only.\<close>

lemma delivers_complete:
  assumes "delivers xs (Some (n, q)) None"
  shows "sum_list (map (\<lambda>(_, len, _). len) xs) = n \<and>
     map fst xs = map (\<lambda>i. q + of_nat i) [0..<length xs] \<and>
     map (\<lambda>(_, _, lst). lst) xs = replicate (length xs - 1) False @ [True]"
  using assms
proof (induction xs arbitrary: n q)
  case Nil
  then show ?case by simp
next
  case (Cons x xs)
  obtain r len lst where x: "x = (r, len, lst)" by (cases x)
  show ?case
  proof (cases "len = n")
    case True
    with Cons.prems x show ?thesis by (auto simp: delivers_None)
  next
    case False
    with Cons.prems x have d: "delivers xs (Some (n - len, q + 1)) None" and h: "r = q" "\<not> lst" by auto
    from d have "xs \<noteq> []" by auto
    then obtain m where m: "length xs = Suc m" by (cases xs) auto
    have "map (\<lambda>i. q + 1 + of_nat i) [0..<length xs] = map (\<lambda>i. q + of_nat i) (map Suc [0..<length xs])"
      by (simp add: algebra_simps)
    also have "map Suc [0..<length xs] = [1..<length (x # xs)]" by (simp add: map_Suc_upt)
    finally have "q # map (\<lambda>i. q + 1 + of_nat i) [0..<length xs] = map (\<lambda>i. q + of_nat i) [0..<length (x # xs)]"
      by (simp add: upt_conv_Cons del: upt_Suc)
    with Cons.IH[OF d] x h m show ?thesis by simp
  qed
qed

text \<open>
  The contract: whatever happens, a step takes each flow from where it was to where it is by the
  packets it sends, unless the step is the application's request that starts the flow.
\<close>

locale segmenting_sender = machine +
  fixes sent :: "u32 \<Rightarrow> 'c list \<Rightarrow> (u32 \<times> int \<times> bool) list"
    and left :: "u32 \<Rightarrow> 'b \<Rightarrow> (int \<times> u32) option"
    and starts :: "u32 \<Rightarrow> 'a \<Rightarrow> bool"
  assumes sent_Nil: "sent f [] = []"
    and sent_append: "sent f (es @ es') = sent f es @ sent f es'"
    and delivers_step:
      "inv s \<Longrightarrow> accepts x \<Longrightarrow> step x s = Inr (s', es) \<Longrightarrow> \<not> starts f x \<Longrightarrow> delivers (sent f es) (left f s) (left f s')"
begin

lemma delivers_run:
  "inv s \<Longrightarrow> \<forall>x\<in>set xs. accepts x \<and> \<not> starts f x \<Longrightarrow> run_out step xs s = Inr (s', es) \<Longrightarrow>
     delivers (sent f es) (left f s) (left f s')"
proof (induction xs arbitrary: s es)
  case Nil
  then show ?case by (simp add: sent_Nil)
next
  case (Cons x xs)
  from Cons.prems(3) obtain s1 es1 es2 where s1: "step x s = Inr (s1, es1)"
    and r: "run_out step xs s1 = Inr (s', es2)" and es: "es = es1 @ es2"
    by (auto simp: run_out_Cons_Inr simp del: run_out.simps)
  have x: "accepts x" "\<not> starts f x" using Cons.prems(2) by auto
  have "inv s1" using Cons.prems(1) x(1) s1 by (rule inv_step)
  then have "delivers (sent f es2) (left f s1) (left f s')"
    using _ r by (rule Cons.IH) (simp add: Cons.prems(2))
  with delivers_step[OF Cons.prems(1) x(1) s1 x(2)] show ?case
    by (simp add: es sent_append delivers_append)
qed

lemma flow_complete:
  assumes "inv s" and "\<forall>x\<in>set xs. accepts x \<and> \<not> starts f x" and "run_out step xs s = Inr (s', es)"
    and "left f s = Some (n, q)" and "left f s' = None"
  shows "sum_list (map (\<lambda>(_, len, _). len) (sent f es)) = n \<and>
     map fst (sent f es) = map (\<lambda>i. q + of_nat i) [0..<length (sent f es)] \<and>
     map (\<lambda>(_, _, lst). lst) (sent f es) = replicate (length (sent f es) - 1) False @ [True]"
  using delivers_run[OF assms(1-3)] assms(4,5) by (intro delivers_complete) simp

end

text \<open>The data packets for one flow among the effects of a run.\<close>

definition payload_of :: "dgram \<Rightarrow> int" where
  "payload_of p = bytes_of (p_bits p) - 8"

fun sent_for :: "string \<Rightarrow> u32 \<Rightarrow> cc_effect list \<Rightarrow> (u32 \<times> int \<times> bool) list" where
  "sent_for nm f [] = []"
| "sent_for nm f (SendDown p # es) =
     (if starts_with nm (p_name p) \<and> p_tags p \<noteq> [] \<and> ht_flowid (last (p_tags p)) = f
      then (of_int (ht_packetid (last (p_tags p))), payload_of p, ht_last (last (p_tags p))) # sent_for nm f es
      else sent_for nm f es)"
| "sent_for nm f (_ # es) = sent_for nm f es"

lemma sent_for_append: "sent_for nm f (es @ es') = sent_for nm f es @ sent_for nm f es'"
  by (induction nm f es rule: sent_for.induct) auto

definition left_of :: "u32 \<Rightarrow> ('m flow_scheme, 'z) sender_scheme \<Rightarrow> (int \<times> u32) option" where
  "left_of f s = map_option (\<lambda>v. (remainLength v, pckseq v)) (map_get (sender_flowMap s) f)"

lemma sent_for_data:
  "0 \<le> n \<Longrightarrow> sent_for nm f [SendDown (data_packet nm s v n r)] =
     (if flowid v = f then [(pckseq v, n, r = 0)] else [])"
  by (simp add: data_packet_def packet_name_def starts_with_append payload_of_def bytes_of_def)

lemma left_put:
  assumes "map_get (sender_flowMap s) k = Some f" and "sender_flowMap t = map_put k g (sender_flowMap s)"
    and "remainLength g = remainLength f" and "pckseq g = pckseq f"
  shows "left_of j t = left_of j s"
  using assms by (auto simp: left_of_def get_put)

lemma left_cong: "sender_flowMap t = sender_flowMap s \<Longrightarrow> left_of j t = left_of j s"
  by (simp add: left_of_def)

lemma segment_delivers:
  assumes "segment mx n = (len, r)" and "0 \<le> n" and "0 < mx"
  shows "0 \<le> len \<and> len \<le> n \<and> r = n - len \<and> (r = 0 \<longleftrightarrow> len = n)"
  using assms by (auto simp: segment_def split: if_splits)

lemma delivers_one:
  "0 \<le> len \<Longrightarrow> len \<le> n \<Longrightarrow> r = n - len \<Longrightarrow>
     delivers [(q, len, r = 0)] (Some (n, q)) (if r = 0 then None else Some (r, q + 1))"
  by auto

text \<open>One packet of one flow: the shared step of every \<open>send_data\<close>.\<close>

lemma send_delivers:
  assumes "wf_map (sender_flowMap s)" and "map_get (sender_flowMap s) k = Some f" and "flowid f = k"
    and "segment mx (remainLength f) = (len, rest)" and "0 \<le> remainLength f" and "0 < mx"
    and "sender_flowMap t = (if rest = 0 then map_erase k (sender_flowMap s) else map_put k g (sender_flowMap s))"
    and "remainLength g = rest" and "pckseq g = pckseq f + 1"
  shows "delivers (sent_for nm j [SendDown (data_packet nm u f len rest)]) (left_of j s) (left_of j t)"
proof -
  note sg = segment_delivers[OF assms(4-6)]
  then have l: "0 \<le> len" by simp
  show ?thesis
    unfolding sent_for_data[OF l] assms(3)
  proof (cases "j = k")
    case False
    with assms(7) have "left_of j t = left_of j s"
      by (cases "rest = 0") (simp_all add: left_of_def get_put get_erase[OF assms(1)])
    with False show "delivers (if k = j then [(pckseq f, len, rest = 0)] else []) (left_of j s) (left_of j t)" by simp
  next
    case True
    have "left_of j s = Some (remainLength f, pckseq f)" using True assms(2) by (simp add: left_of_def)
    moreover have "left_of j t = (if rest = 0 then None else Some (rest, pckseq f + 1))"
      using True assms(7-9) by (cases "rest = 0") (simp_all add: left_of_def get_put get_erase[OF assms(1)])
    moreover have "delivers [(pckseq f, len, rest = 0)] (Some (remainLength f, pckseq f))
        (if rest = 0 then None else Some (rest, pckseq f + 1))"
      by (rule delivers_one) (use sg in blast)+
    ultimately show "delivers (if k = j then [(pckseq f, len, rest = 0)] else []) (left_of j s) (left_of j t)"
      by (simp only: True simp_thms if_True)
  qed
qed

subsection \<open>Runs that cannot fail\<close>

text \<open>
  A sender whose step cannot fail as long as no flow is stored below those it has: then no run
  fails in which the application starts flows in ascending order.
\<close>

fun ascending_from :: "('a \<Rightarrow> u32 option) \<Rightarrow> u32 \<Rightarrow> 'a list \<Rightarrow> bool" where
  "ascending_from new b [] = True"
| "ascending_from new b (x # xs) =
     (case new x of None \<Rightarrow> ascending_from new b xs | Some k \<Rightarrow> b \<le> k \<and> ascending_from new k xs)"

locale ordered_sender =
  fixes step :: "'a \<Rightarrow> 'b \<Rightarrow> ('b \<times> 'c list) res"
    and inv :: "'b \<Rightarrow> bool"
    and accepts :: "'a \<Rightarrow> bool"
    and new :: "'a \<Rightarrow> u32 option"
    and keys :: "'b \<Rightarrow> u32 set"
  assumes step_ordered:
    "inv s \<Longrightarrow> accepts x \<Longrightarrow> (\<And>k j. new x = Some k \<Longrightarrow> j \<in> keys s \<Longrightarrow> j \<le> k) \<Longrightarrow>
       \<exists>s' es. step x s = Inr (s', es) \<and> inv s' \<and> keys s' \<subseteq> keys s \<union> set_option (new x)"
begin

lemma ascending_run_ok:
  "inv s \<Longrightarrow> \<forall>x\<in>set xs. accepts x \<Longrightarrow> \<forall>j\<in>keys s. j \<le> b \<Longrightarrow> ascending_from new b xs \<Longrightarrow> is_ok (run_out step xs s)"
proof (induction xs arbitrary: s b)
  case Nil
  then show ?case by simp
next
  case (Cons x xs)
  have x: "accepts x" using Cons.prems(2) by simp
  define c where "c = (case new x of None \<Rightarrow> b | Some k \<Rightarrow> k)"
  have c: "b \<le> c" "ascending_from new c xs" "set_option (new x) \<subseteq> {c}"
    using Cons.prems(4) by (auto simp: c_def split: option.splits)
  have "j \<le> k" if "new x = Some k" "j \<in> keys s" for k j
    using Cons.prems(3) c(1) that by (force simp: c_def)
  from step_ordered[OF Cons.prems(1) x this] obtain s' es where
    s': "step x s = Inr (s', es)" "inv s'" "keys s' \<subseteq> keys s \<union> set_option (new x)" by blast
  have "\<forall>j\<in>keys s'. j \<le> c" using s'(3) Cons.prems(3) c by force
  then have "is_ok (run_out step xs s')"
    using c(2) Cons.prems(2) s'(2) by (intro Cons.IH) auto
  with s' show ?case by (auto simp: is_ok_iff)
qed

end

end
