(* ===== verification/DCQCN.thy ===== *)
theory DCQCN
  imports Flow_Sender
begin

section \<open>DCQCN\<close>

text \<open>
  \<open>HiNA/CC/DCQCN\<close>.  The receiver answers marked packets with congestion notifications (CNP), at
  most one per interval and flow; the sender cuts its rate on a CNP and recovers it by timer and
  byte steps.
\<close>

datatype acc_state = Normal | Fast_Recovery | Additive_Increase | Hyper_Increase

record dcqcn_cfg =
  activate :: bool
  stopTime :: simtime
  linkspeed :: double
  initialrate :: double
  max_pck_size :: int
  gamma :: double
  min_cnp_interval :: simtime
  AlphaTimer_th :: simtime
  RateTimer_th :: simtime
  Rai :: double
  Rhai :: double
  ByteCounter_th :: int
  frSteps_th :: int

record dcqcn_flow = rated_flow +
  SndAccState :: acc_state
  ByteCounter :: int
  targetRate :: double
  maxTxRate :: double
  alphaEst :: double
  iRhai :: int
  ByteFrSteps :: int
  TimeFrSteps :: int

record dcqcn = "dcqcn_flow sender" +
  lastCnpTime :: "u32 \<Rightarrow> simtime"

definition DCQCN_initialize :: dcqcn where
  "DCQCN_initialize =
     \<lparr>sender_flowMap = [], iter = None, SenderState = STOPPING, timers = (\<lambda>_. None), lastflowid = -1,
      last_creation_time = 0, srcAddr = 0, lastCnpTime = (\<lambda>_. 0)\<rparr>"

text \<open>\<open>increaseTxRate\<close> on one entry, and on the map.\<close>

definition dcqcn_recover :: "dcqcn_cfg \<Rightarrow> dcqcn_flow \<Rightarrow> dcqcn_flow" where
  "dcqcn_recover cfg f =
     (let st = (if max (ByteFrSteps f) (TimeFrSteps f) < frSteps_th cfg then Fast_Recovery
                else if min (ByteFrSteps f) (TimeFrSteps f) > frSteps_th cfg then Hyper_Increase
                else Additive_Increase);
          f1 = f\<lparr>SndAccState := st\<rparr>
      in case st of
        Fast_Recovery \<Rightarrow> f1\<lparr>currentRate := (currentRate f1 + targetRate f1) / 2\<rparr>
      | Additive_Increase \<Rightarrow>
          let t0 = targetRate f1 + Rai cfg;
              t = (if t0 > maxTxRate f1 then maxTxRate f1 else t0)
          in f1\<lparr>targetRate := t, currentRate := (currentRate f1 + t) / 2\<rparr>
      | Hyper_Increase \<Rightarrow>
          let i = iRhai f1 + 1;
              t0 = targetRate f1 + of_int i * Rhai cfg;
              t = (if t0 > maxTxRate f1 then maxTxRate f1 else t0)
          in f1\<lparr>iRhai := i, targetRate := t, currentRate := (currentRate f1 + t) / 2\<rparr>
      | Normal \<Rightarrow> f1)"

definition DCQCN_increaseTxRate :: "dcqcn_cfg \<Rightarrow> u32 \<Rightarrow> dcqcn \<Rightarrow> dcqcn res" where
  "DCQCN_increaseTxRate cfg k s =
     (case map_get (sender_flowMap s) k of
        None \<Rightarrow> Inl EndIterator
      | Some f \<Rightarrow> Inr (put_flow k (dcqcn_recover cfg f) s))"

definition DCQCN_updateAlpha :: "dcqcn_cfg \<Rightarrow> simtime \<Rightarrow> u32 \<Rightarrow> dcqcn \<Rightarrow> (dcqcn \<times> cc_effect list) res" where
  "DCQCN_updateAlpha cfg now k s =
     (case map_get (sender_flowMap s) k of
        None \<Rightarrow> Inl EndIterator
      | Some f \<Rightarrow>
          let s1 = put_flow k (f\<lparr>alphaEst := (1 - gamma cfg) * alphaEst f\<rparr>) s;
              t = now + AlphaTimer_th cfg
          in rbind (scheduleAt (AlphaTimer k) now t s1) (\<lambda>s2. Inr (s2, [Arm (AlphaTimer k) t])))"

definition DCQCN_send_data :: "dcqcn_cfg \<Rightarrow> simtime \<Rightarrow> dcqcn \<Rightarrow> (dcqcn \<times> cc_effect list) res" where
  "DCQCN_send_data cfg now s =
     (case iter s of
        None \<Rightarrow> Inl EndIterator
      | Some it \<Rightarrow>
        case map_get (sender_flowMap s) it of
          None \<Rightarrow> Inl EndIterator
        | Some f \<Rightarrow>
          let (pcklength, rest) = segment (max_pck_size cfg) (remainLength f);
              s1 = note_flow f s;
              packet = data_packet ''DcqcnData'' s1 f pcklength rest;
              bytes = bytes_of (p_bits packet);
              f1 = f\<lparr>remainLength := rest, pckseq := pckseq f + 1\<rparr>;
              k = flowid f
          in rbind
              (if rest = 0
               then Inr (finish_flow it k (cancelEvent (AlphaTimer k) (cancelEvent (RateTimer k) s1)))
               else if SndAccState f1 \<noteq> Normal then
                 (let f2 = f1\<lparr>ByteCounter := ByteCounter f1 + bytes\<rparr> in
                  if ByteCounter f2 \<ge> ByteCounter_th cfg then
                    rbind (DCQCN_increaseTxRate cfg k
                             (put_flow k (f\<lparr>ByteFrSteps := ByteFrSteps f + 1, ByteCounter := 0\<rparr>) s1)) (\<lambda>s2.
                      Inr (put_flow k f2 s2))
                  else Inr (put_flow k f2 s1))
               else Inr (put_flow k f1 s1)) (\<lambda>s3.
             rbind (nxtSendTime now bytes (currentRate f1)) (\<lambda>t.
             rbind (scheduleAt SendDataTimer now t s3) (\<lambda>s4.
               Inr (s4, [Arm SendDataTimer t, SendDown packet])))))"

definition DCQCN_processUpperpck :: "dcqcn_cfg \<Rightarrow> simtime \<Rightarrow> dgram \<Rightarrow> dcqcn \<Rightarrow> (dcqcn \<times> cc_effect list) res" where
  "DCQCN_processUpperpck cfg now pck s =
     (if contains ''Data'' (p_name pck) \<and> activate cfg then
        rbind (last_tag (packet.truncate pck)) (\<lambda>tag.
          let k = ht_flowid tag;
              s1 = (if map_get (sender_flowMap s) k = None then
                      store_flow k
                        \<lparr>flowid = k, remainLength = message_length tag, cretime = ht_cretime tag,
                         destAddr = d_dest pck, srcPort = d_sport pck, destPort = d_dport pck,
                         flowPriority = ht_priority tag, pckseq = 0, currentRate = linkspeed cfg * initialrate cfg,
                         SndAccState = Normal, ByteCounter = 0, targetRate = linkspeed cfg * initialrate cfg,
                         maxTxRate = linkspeed cfg, alphaEst = 1, iRhai = 0, ByteFrSteps = 0, TimeFrSteps = 0\<rparr>
                        (s\<lparr>srcAddr := d_src pck\<rparr>)
                    else s)
          in if SenderState s1 = STOPPING then
               rbind (scheduleAt SendDataTimer now now (s1\<lparr>SenderState := SENDING\<rparr>)) (\<lambda>s2.
                 Inr (s2, [Arm SendDataTimer now]))
             else Inr (s1, []))
      else Inr (s, [SendDown pck]))"

definition cnp_packet :: "u32 \<Rightarrow> dgram \<Rightarrow> dgram" where
  "cnp_packet k pck =
     \<lparr>p_id = 0, p_name = ''CNP-'' @ digits (unat k), p_len = 8, p_iface = 0, p_ecn = None,
      p_tags = [\<lparr>ht_flowid = k, ht_priority = -1, ht_flowsize = 0, ht_cretime = 0, ht_packetid = 0, ht_last = False,
        ht_queueid = 0, ht_decel = False, ht_speedup = False, ht_sender_priority = -1\<rparr>],
      p_bfc = None, p_ispause = None, d_src = d_dest pck, d_dest = d_src pck, d_sport = 0, d_dport = 0, d_ecn = 0,
      d_recRate = 0, d_int = None, d_psd = None, d_sack = None, d_time = 0\<rparr>"

definition DCQCN_receive_data :: "dcqcn_cfg \<Rightarrow> simtime \<Rightarrow> dgram \<Rightarrow> dcqcn \<Rightarrow> (dcqcn \<times> cc_effect list) res" where
  "DCQCN_receive_data cfg now pck s =
     rbind (last_tag (packet.truncate pck)) (\<lambda>tag.
       let k = ht_flowid tag in
       if d_ecn pck = 3 \<and> now - lastCnpTime s k > min_cnp_interval cfg
       then Inr (s\<lparr>lastCnpTime := (lastCnpTime s)(k := now)\<rparr>, [SendDown (cnp_packet k pck), SendUp pck])
       else Inr (s, [SendUp pck]))"

definition dcqcn_cut :: "dcqcn_cfg \<Rightarrow> dcqcn_flow \<Rightarrow> dcqcn_flow" where
  "dcqcn_cut cfg f =
     f\<lparr>targetRate := currentRate f, currentRate := currentRate f * (1 - alphaEst f / 2),
       alphaEst := (1 - gamma cfg) * alphaEst f + gamma cfg,
       ByteCounter := 0, ByteFrSteps := 0, TimeFrSteps := 0, iRhai := 0\<rparr>"

definition DCQCN_receive_cnp :: "dcqcn_cfg \<Rightarrow> simtime \<Rightarrow> dgram \<Rightarrow> dcqcn \<Rightarrow> (dcqcn \<times> cc_effect list) res" where
  "DCQCN_receive_cnp cfg now pck s =
     rbind (last_tag (packet.truncate pck)) (\<lambda>tag.
       let k = ht_flowid tag in
       case map_get (sender_flowMap s) k of
         None \<Rightarrow> Inr (s, [])
       | Some f \<Rightarrow>
           let s1 = put_flow k (dcqcn_cut cfg f) s;
               s2 = cancelEvent (RateTimer k) (cancelEvent (AlphaTimer k) s1);
               ta = now + AlphaTimer_th cfg; tr = now + RateTimer_th cfg
           in rbind (scheduleAt (AlphaTimer k) now ta s2) (\<lambda>s3.
              rbind (scheduleAt (RateTimer k) now tr s3) (\<lambda>s4.
                Inr (s4, [Cancel (AlphaTimer k), Cancel (RateTimer k), Arm (AlphaTimer k) ta, Arm (RateTimer k) tr]))))"

definition DCQCN_processLowerpck :: "dcqcn_cfg \<Rightarrow> simtime \<Rightarrow> dgram \<Rightarrow> dcqcn \<Rightarrow> (dcqcn \<times> cc_effect list) res" where
  "DCQCN_processLowerpck cfg now pck s =
     (if contains ''CNP'' (p_name pck) then DCQCN_receive_cnp cfg now pck s
      else if contains ''DcqcnData'' (p_name pck) then DCQCN_receive_data cfg now pck s
      else Inr (s, [SendUp pck]))"

definition DCQCN_rateTimer :: "dcqcn_cfg \<Rightarrow> simtime \<Rightarrow> u32 \<Rightarrow> dcqcn \<Rightarrow> (dcqcn \<times> cc_effect list) res" where
  "DCQCN_rateTimer cfg now k s =
     (case map_get (sender_flowMap s) k of
        None \<Rightarrow> Inl EndIterator
      | Some f \<Rightarrow>
          rbind (DCQCN_increaseTxRate cfg k (put_flow k (f\<lparr>TimeFrSteps := TimeFrSteps f + 1\<rparr>) s)) (\<lambda>s1.
            let t = now + RateTimer_th cfg in
            rbind (scheduleAt (RateTimer k) now t (cancelEvent (RateTimer k) s1)) (\<lambda>s2.
              Inr (s2, [Cancel (RateTimer k), Arm (RateTimer k) t]))))"

fun DCQCN_handleSelfMessage :: "dcqcn_cfg \<Rightarrow> simtime \<Rightarrow> cc_timer \<Rightarrow> dcqcn \<Rightarrow> (dcqcn \<times> cc_effect list) res" where
  "DCQCN_handleSelfMessage cfg now SendDataTimer s =
     (if sender_flowMap s = [] \<or> now \<ge> stopTime cfg then Inr (s\<lparr>SenderState := STOPPING\<rparr>, [])
      else DCQCN_send_data cfg now s)"
| "DCQCN_handleSelfMessage cfg now (RateTimer k) s = DCQCN_rateTimer cfg now k s"
| "DCQCN_handleSelfMessage cfg now (AlphaTimer k) s = DCQCN_updateAlpha cfg now k s"
| "DCQCN_handleSelfMessage cfg now (CnpTimer k) s = Inr (s, [])"
| "DCQCN_handleSelfMessage cfg now TimeoutTimer s = Inr (s, [])"

text \<open>
  One event.  A timer is delivered only while it is armed, and is disarmed by the delivery.
\<close>

fun DCQCN_handleMessage :: "dcqcn_cfg \<Rightarrow> simtime \<times> cc_op \<Rightarrow> dcqcn \<Rightarrow> (dcqcn \<times> cc_effect list) res" where
  "DCQCN_handleMessage cfg (now, Fire tm) s =
     (if timers s tm = None then Inr (s, [])
      else DCQCN_handleSelfMessage cfg now tm (s\<lparr>timers := (timers s)(tm := None)\<rparr>))"
| "DCQCN_handleMessage cfg (now, Upper pck) s = DCQCN_processUpperpck cfg now pck s"
| "DCQCN_handleMessage cfg (now, Lower pck) s = DCQCN_processLowerpck cfg now pck s"

subsection \<open>The parts of a step\<close>

lemma put_put [simp]: "put_flow k v (put_flow k w s) = put_flow k v s"
  by (simp add: put_flow_def)

lemma increase_put: "DCQCN_increaseTxRate cfg k (put_flow k f s) = Inr (put_flow k (dcqcn_recover cfg f) s)"
  by (simp add: DCQCN_increaseTxRate_def get_put)

text \<open>
  The byte-counter block of \<open>send_data\<close> works on the map and is then overwritten by the local copy:
  what is left of it is the copy's counter.
\<close>

lemma send_data_stored:
  "DCQCN_send_data cfg now s =
     (case iter s of
        None \<Rightarrow> Inl EndIterator
      | Some it \<Rightarrow>
        case map_get (sender_flowMap s) it of
          None \<Rightarrow> Inl EndIterator
        | Some f \<Rightarrow>
          let (pcklength, rest) = segment (max_pck_size cfg) (remainLength f);
              s1 = note_flow f s;
              packet = data_packet ''DcqcnData'' s1 f pcklength rest;
              bytes = bytes_of (p_bits packet);
              f1 = f\<lparr>remainLength := rest, pckseq := pckseq f + 1,
                     ByteCounter := (if SndAccState f \<noteq> Normal then ByteCounter f + bytes else ByteCounter f)\<rparr>;
              k = flowid f;
              s3 = (if rest = 0 then finish_flow it k (cancelEvent (AlphaTimer k) (cancelEvent (RateTimer k) s1))
                    else put_flow k f1 s1)
          in rbind (nxtSendTime now bytes (currentRate f)) (\<lambda>t.
             rbind (scheduleAt SendDataTimer now t s3) (\<lambda>s4.
               Inr (s4, [Arm SendDataTimer t, SendDown packet]))))"
  by (simp add: DCQCN_send_data_def increase_put Let_def split: option.split prod.split)

lemma send_data_Inr:
  assumes "DCQCN_send_data cfg now s = Inr (s', es)"
  obtains it f len rest t b where "iter s = Some it" and "map_get (sender_flowMap s) it = Some f"
    and "segment (max_pck_size cfg) (remainLength f) = (len, rest)"
    and "es = [Arm SendDataTimer t, SendDown (data_packet ''DcqcnData'' (note_flow f s) f len rest)]"
    and "sender_flowMap s' = (if rest = 0 then map_erase (flowid f) (sender_flowMap s)
       else map_put (flowid f) (f\<lparr>remainLength := rest, pckseq := pckseq f + 1, ByteCounter := b\<rparr>) (sender_flowMap s))"
    and "iter s' = (if rest = 0 then map_next it (sender_flowMap s) else iter s)"
    and "SenderState s' = SenderState s" and "timers s SendDataTimer = None"
    and "timers s' = (if rest = 0 then (timers s)(RateTimer (flowid f) := None, AlphaTimer (flowid f) := None)
       else timers s)(SendDataTimer := Some t)"
proof -
  obtain it f where f: "iter s = Some it" "map_get (sender_flowMap s) it = Some f"
    using assms by (auto simp: send_data_stored split: option.splits)
  obtain len rest where g: "segment (max_pck_size cfg) (remainLength f) = (len, rest)" by fastforce
  let ?bytes = "bytes_of (p_bits (data_packet ''DcqcnData'' (note_flow f s) f len rest))"
  let ?b = "if SndAccState f \<noteq> Normal then ByteCounter f + ?bytes else ByteCounter f"
  from assms f g obtain t where "nxtSendTime now ?bytes (currentRate f) = Inr t"
    and "scheduleAt SendDataTimer now t
       (if rest = 0 then finish_flow it (flowid f) (cancelEvent (AlphaTimer (flowid f)) (cancelEvent (RateTimer (flowid f)) (note_flow f s)))
        else put_flow (flowid f) (f\<lparr>remainLength := rest, pckseq := pckseq f + 1, ByteCounter := ?b\<rparr>) (note_flow f s)) = Inr s'"
    and es: "es = [Arm SendDataTimer t, SendDown (data_packet ''DcqcnData'' (note_flow f s) f len rest)]"
    by (auto simp: send_data_stored Let_def rbind_eq_Inr)
  then show thesis
    by (intro that[OF f g es, of ?b]) (auto simp: scheduleAt_Inr split: if_splits)
qed

text \<open>What the application starts, and what is left in the map by each handler.\<close>

lemma upper_Inr:
  assumes "DCQCN_processUpperpck cfg now p s = Inr (s', es)"
  obtains (pass) "s' = s" and "es = [SendDown p]" and "\<not> (contains ''Data'' (p_name p) \<and> activate cfg)"
    | (data) k s1 where "p_tags p \<noteq> []" and "k = ht_flowid (last (p_tags p))"
        and "contains ''Data'' (p_name p)" and "activate cfg"
        and "s1 = (if map_get (sender_flowMap s) k = None then
               store_flow k \<lparr>flowid = k, remainLength = message_length (last (p_tags p)),
                   cretime = ht_cretime (last (p_tags p)), destAddr = d_dest p, srcPort = d_sport p,
                   destPort = d_dport p, flowPriority = ht_priority (last (p_tags p)), pckseq = 0,
                   currentRate = linkspeed cfg * initialrate cfg, SndAccState = Normal, ByteCounter = 0,
                   targetRate = linkspeed cfg * initialrate cfg, maxTxRate = linkspeed cfg, alphaEst = 1,
                   iRhai = 0, ByteFrSteps = 0, TimeFrSteps = 0\<rparr> (s\<lparr>srcAddr := d_src p\<rparr>)
             else s)"
        and "if SenderState s = STOPPING
             then timers s SendDataTimer = None \<and> es = [Arm SendDataTimer now] \<and>
                  s' = s1\<lparr>SenderState := SENDING, timers := (timers s1)(SendDataTimer := Some now)\<rparr>
             else s' = s1 \<and> es = []"
proof (cases "contains ''Data'' (p_name p) \<and> activate cfg")
  case False
  with assms show thesis by (intro pass) (auto simp: DCQCN_processUpperpck_def split: if_splits)
next
  case True
  have t: "p_tags p \<noteq> []" "last_tag (packet.truncate p) = Inr (last (p_tags p))"
    using assms True by (auto simp: DCQCN_processUpperpck_def last_tag_def packet.truncate_def split: if_splits)
  show thesis
    by (rule data[OF t(1) refl _ _ refl])
      (use True assms t in \<open>auto simp: DCQCN_processUpperpck_def rbind_eq_Inr scheduleAt_Inr Let_def split: if_splits\<close>)
qed

subsection \<open>The sender invariant\<close>

definition dcqcn_cfg_ok :: "dcqcn_cfg \<Rightarrow> bool" where
  "dcqcn_cfg_ok cfg \<longleftrightarrow> 0 < linkspeed cfg \<and> 0 < initialrate cfg \<and> initialrate cfg \<le> 1 \<and>
     0 \<le> gamma cfg \<and> gamma cfg \<le> 1 \<and> 0 \<le> AlphaTimer_th cfg \<and> 0 \<le> RateTimer_th cfg \<and>
     0 \<le> Rai cfg \<and> 0 \<le> frSteps_th cfg \<and> 0 < max_pck_size cfg"

text \<open>
  A flow's entry: filed under its id, its rate positive, below its target and the link speed, its
  congestion estimate a fraction, and no byte step ever counted.
\<close>

definition dcqcn_flow_ok :: "dcqcn_cfg \<Rightarrow> u32 \<Rightarrow> dcqcn_flow \<Rightarrow> bool" where
  "dcqcn_flow_ok cfg k f \<longleftrightarrow> flowid f = k \<and> 0 \<le> remainLength f \<and>
     0 < currentRate f \<and> currentRate f \<le> targetRate f \<and> targetRate f \<le> linkspeed cfg \<and>
     maxTxRate f = linkspeed cfg \<and> 0 \<le> alphaEst f \<and> alphaEst f \<le> 1 \<and>
     ByteFrSteps f = 0 \<and> iRhai f = 0 \<and> SndAccState f \<noteq> Hyper_Increase"

lemma flow_ok_recover:
  assumes "dcqcn_flow_ok cfg k f" and "dcqcn_cfg_ok cfg"
  shows "dcqcn_flow_ok cfg k (dcqcn_recover cfg f)"
  using assms by (auto simp: dcqcn_flow_ok_def dcqcn_recover_def dcqcn_cfg_ok_def Let_def)

lemma flow_ok_alpha:
  assumes "dcqcn_flow_ok cfg k f" and "dcqcn_cfg_ok cfg"
  shows "dcqcn_flow_ok cfg k (f\<lparr>alphaEst := (1 - gamma cfg) * alphaEst f\<rparr>)"
  using assms by (auto simp: dcqcn_flow_ok_def dcqcn_cfg_ok_def intro: mult_le_one)

lemma flow_ok_cut:
  assumes "dcqcn_flow_ok cfg k f" and "dcqcn_cfg_ok cfg"
  shows "dcqcn_flow_ok cfg k (dcqcn_cut cfg f)"
proof -
  from assms have a: "0 \<le> alphaEst f" "alphaEst f \<le> 1" "0 < currentRate f" "0 \<le> gamma cfg" "gamma cfg \<le> 1"
    by (auto simp: dcqcn_flow_ok_def dcqcn_cfg_ok_def)
  have "(1 - gamma cfg) * alphaEst f + gamma cfg \<le> (1 - gamma cfg) * 1 + gamma cfg"
    using a by (intro add_mono mult_left_mono) auto
  moreover have "currentRate f * (1 - alphaEst f / 2) \<le> currentRate f * 1" using a by (intro mult_left_mono) auto
  moreover have "0 < currentRate f * (1 - alphaEst f / 2)" using a by (intro mult_pos_pos) auto
  moreover have "0 \<le> (1 - gamma cfg) * alphaEst f + gamma cfg" using a by (intro add_nonneg_nonneg mult_nonneg_nonneg) auto
  ultimately show ?thesis
    using assms(1) by (auto simp: dcqcn_flow_ok_def dcqcn_cut_def)
qed

definition dcqcn_inv :: "dcqcn_cfg \<Rightarrow> dcqcn \<Rightarrow> bool" where
  "dcqcn_inv cfg s \<longleftrightarrow> dcqcn_cfg_ok cfg \<and> sender_inv (dcqcn_flow_ok cfg) s \<and>
     (\<forall>k. timers s (RateTimer k) \<noteq> None \<or> timers s (AlphaTimer k) \<noteq> None \<longrightarrow> map_get (sender_flowMap s) k \<noteq> None)"

lemma dcqcn_entry: "dcqcn_inv cfg s \<Longrightarrow> map_get (sender_flowMap s) k = Some f \<Longrightarrow> dcqcn_flow_ok cfg k f"
  by (simp add: dcqcn_inv_def sender_inv_def)

lemma dcqcn_put:
  assumes "dcqcn_inv cfg s" and "dcqcn_flow_ok cfg k f" and "sender_flowMap t = map_put k f (sender_flowMap s)"
    and "SenderState t = SenderState s" and "timers t SendDataTimer = timers s SendDataTimer"
    and "\<And>j. j \<noteq> k \<Longrightarrow> timers t (RateTimer j) = timers s (RateTimer j) \<and> timers t (AlphaTimer j) = timers s (AlphaTimer j)"
  shows "dcqcn_inv cfg t"
  using assms by (auto simp: dcqcn_inv_def sender_inv_def get_put wf_put)

lemma dcqcn_send_inv:
  assumes "DCQCN_send_data cfg now (s\<lparr>timers := (timers s)(SendDataTimer := None)\<rparr>) = Inr (s', es)"
    and "dcqcn_inv cfg s" and "timers s SendDataTimer \<noteq> None"
  shows "dcqcn_inv cfg s'"
  using assms(1)
proof (rule send_data_Inr)
  fix it f len rest t b
  let ?s = "s\<lparr>timers := (timers s)(SendDataTimer := None)\<rparr>"
  assume f: "map_get (sender_flowMap ?s) it = Some f"
    and seg: "segment (max_pck_size cfg) (remainLength f) = (len, rest)"
    and m: "sender_flowMap s' = (if rest = 0 then map_erase (flowid f) (sender_flowMap ?s)
       else map_put (flowid f) (f\<lparr>remainLength := rest, pckseq := pckseq f + 1, ByteCounter := b\<rparr>) (sender_flowMap ?s))"
    and st: "SenderState s' = SenderState ?s"
    and tm: "timers s' = (if rest = 0 then (timers ?s)(RateTimer (flowid f) := None, AlphaTimer (flowid f) := None)
       else timers ?s)(SendDataTimer := Some t)"
  have sending: "SenderState s = SENDING" using assms(2,3) by (simp add: dcqcn_inv_def sender_inv_def)
  have ok: "dcqcn_flow_ok cfg it f" using dcqcn_entry[OF assms(2)] f by simp
  then have k: "flowid f = it" "0 \<le> remainLength f" by (auto simp: dcqcn_flow_ok_def)
  have "0 < max_pck_size cfg" using assms(2) by (simp add: dcqcn_inv_def dcqcn_cfg_ok_def)
  with seg k have r: "0 \<le> rest" using segment_delivers[OF seg] by simp
  show "dcqcn_inv cfg s'"
  proof (cases "rest = 0")
    case True
    with assms(2) k m st tm sending show ?thesis
      by (auto simp: dcqcn_inv_def sender_inv_def get_erase wf_erase)
  next
    case False
    have "dcqcn_flow_ok cfg it (f\<lparr>remainLength := rest, pckseq := pckseq f + 1, ByteCounter := b\<rparr>)"
      using ok r by (simp add: dcqcn_flow_ok_def)
    with False assms(2) k m st tm sending show ?thesis
      by (auto simp: dcqcn_inv_def sender_inv_def get_put wf_put)
  qed
qed

lemma new_flow_ok:
  "dcqcn_cfg_ok cfg \<Longrightarrow> dcqcn_flow_ok cfg k \<lparr>flowid = k, remainLength = message_length tg, cretime = c, destAddr = d,
     srcPort = sp, destPort = dp, flowPriority = pr, pckseq = 0, currentRate = linkspeed cfg * initialrate cfg,
     SndAccState = Normal, ByteCounter = 0, targetRate = linkspeed cfg * initialrate cfg,
     maxTxRate = linkspeed cfg, alphaEst = 1, iRhai = 0, ByteFrSteps = 0, TimeFrSteps = 0\<rparr>"
  by (auto simp: dcqcn_flow_ok_def dcqcn_cfg_ok_def mult_left_le)

lemma dcqcn_store:
  assumes "dcqcn_inv cfg s" and "dcqcn_flow_ok cfg k f"
  shows "dcqcn_inv cfg (store_flow k f (s\<lparr>srcAddr := a\<rparr>))"
  using assms(1) by (intro dcqcn_put[OF assms]) (auto simp: store_flow_def Let_def)

lemma dcqcn_start:
  assumes "dcqcn_inv cfg s"
  shows "dcqcn_inv cfg (s\<lparr>SenderState := SENDING, timers := (timers s)(SendDataTimer := Some t)\<rparr>)"
  using assms by (auto simp: dcqcn_inv_def sender_inv_def)

lemma dcqcn_upper_inv:
  assumes "DCQCN_processUpperpck cfg now p s = Inr (s', es)" and "dcqcn_inv cfg s"
  shows "dcqcn_inv cfg s'"
  using assms(1)
proof (cases rule: upper_Inr)
  case pass
  with assms(2) show ?thesis by simp
next
  case (data k s1)
  have "dcqcn_cfg_ok cfg" using assms(2) by (simp add: dcqcn_inv_def)
  then have "dcqcn_inv cfg s1" unfolding data(5)
    using assms(2) by (auto intro!: dcqcn_store new_flow_ok)
  then show ?thesis using data(6) dcqcn_start[of cfg s1 now] by (auto split: if_splits)
qed

lemma dcqcn_rate_timer_inv:
  assumes "DCQCN_rateTimer cfg now k (s\<lparr>timers := (timers s)(RateTimer k := None)\<rparr>) = Inr (s', es)" and "dcqcn_inv cfg s"
  shows "dcqcn_inv cfg s'"
proof -
  from assms(1) obtain f where f: "map_get (sender_flowMap s) k = Some f"
    by (auto simp: DCQCN_rateTimer_def split: option.splits)
  let ?g = "dcqcn_recover cfg (f\<lparr>TimeFrSteps := TimeFrSteps f + 1\<rparr>)"
  have "dcqcn_flow_ok cfg k (f\<lparr>TimeFrSteps := TimeFrSteps f + 1\<rparr>)"
    using dcqcn_entry[OF assms(2) f] by (simp add: dcqcn_flow_ok_def)
  moreover have "dcqcn_cfg_ok cfg" using assms(2) by (simp add: dcqcn_inv_def)
  ultimately have g: "dcqcn_flow_ok cfg k ?g" by (rule flow_ok_recover)
  show ?thesis
    by (rule dcqcn_put[OF assms(2) g])
      (use assms(1) f in \<open>auto simp: DCQCN_rateTimer_def increase_put rbind_eq_Inr scheduleAt_Inr Let_def\<close>)
qed

lemma dcqcn_alpha_timer_inv:
  assumes "DCQCN_updateAlpha cfg now k (s\<lparr>timers := (timers s)(AlphaTimer k := None)\<rparr>) = Inr (s', es)" and "dcqcn_inv cfg s"
  shows "dcqcn_inv cfg s'"
proof -
  from assms(1) obtain f where f: "map_get (sender_flowMap s) k = Some f"
    by (auto simp: DCQCN_updateAlpha_def split: option.splits)
  have "dcqcn_cfg_ok cfg" using assms(2) by (simp add: dcqcn_inv_def)
  with dcqcn_entry[OF assms(2) f] have g: "dcqcn_flow_ok cfg k (f\<lparr>alphaEst := (1 - gamma cfg) * alphaEst f\<rparr>)"
    by (rule flow_ok_alpha)
  show ?thesis
    by (rule dcqcn_put[OF assms(2) g])
      (use assms(1) f in \<open>auto simp: DCQCN_updateAlpha_def rbind_eq_Inr scheduleAt_Inr Let_def\<close>)
qed

lemma dcqcn_cnp_inv:
  assumes "DCQCN_receive_cnp cfg now p s = Inr (s', es)" and "dcqcn_inv cfg s"
  shows "dcqcn_inv cfg s'"
proof -
  from assms(1) obtain tag where t: "last_tag (packet.truncate p) = Inr tag"
    by (auto simp: DCQCN_receive_cnp_def rbind_eq_Inr)
  show ?thesis
  proof (cases "map_get (sender_flowMap s) (ht_flowid tag)")
    case None
    with assms t show ?thesis by (simp add: DCQCN_receive_cnp_def Let_def)
  next
    case (Some f)
    have "dcqcn_cfg_ok cfg" using assms(2) by (simp add: dcqcn_inv_def)
    with dcqcn_entry[OF assms(2) Some] have g: "dcqcn_flow_ok cfg (ht_flowid tag) (dcqcn_cut cfg f)" by (rule flow_ok_cut)
    show ?thesis
      by (rule dcqcn_put[OF assms(2) g])
        (use assms(1) t Some in \<open>auto simp: DCQCN_receive_cnp_def rbind_eq_Inr scheduleAt_Inr Let_def\<close>)
  qed
qed

lemma dcqcn_inv_lastCnp [simp]: "dcqcn_inv cfg (s\<lparr>lastCnpTime := c\<rparr>) = dcqcn_inv cfg s"
  by (simp add: dcqcn_inv_def sender_inv_def)

lemma dcqcn_lower_inv:
  assumes "DCQCN_processLowerpck cfg now p s = Inr (s', es)" and "dcqcn_inv cfg s"
  shows "dcqcn_inv cfg s'"
  using assms dcqcn_cnp_inv
  by (auto simp: DCQCN_processLowerpck_def DCQCN_receive_data_def rbind_eq_Inr Let_def split: if_splits)

lemma dcqcn_step_inv:
  assumes "DCQCN_handleMessage cfg x s = Inr (s', es)" and "dcqcn_inv cfg s"
  shows "dcqcn_inv cfg s'"
proof -
  obtain now e where x: "x = (now, e)" by (cases x)
  show ?thesis
  proof (cases e)
    case (Upper p)
    with assms x dcqcn_upper_inv show ?thesis by simp
  next
    case (Lower p)
    with assms x dcqcn_lower_inv show ?thesis by simp
  next
    case (Fire tm)
    show ?thesis
    proof (cases "timers s tm")
      case None
      with assms x Fire show ?thesis by simp
    next
      case (Some t)
      let ?s = "s\<lparr>timers := (timers s)(tm := None)\<rparr>"
      have h: "DCQCN_handleSelfMessage cfg now tm ?s = Inr (s', es)" using assms(1) x Fire Some by simp
      show ?thesis
      proof (cases tm)
        case SendDataTimer
        show ?thesis
        proof (cases "sender_flowMap s = [] \<or> now \<ge> stopTime cfg")
          case True
          with h SendDataTimer have "s' = ?s\<lparr>SenderState := STOPPING\<rparr>" by auto
          with assms(2) SendDataTimer show ?thesis by (auto simp: dcqcn_inv_def sender_inv_def)
        next
          case False
          with h SendDataTimer have "DCQCN_send_data cfg now ?s = Inr (s', es)" by auto
          with assms(2) Some SendDataTimer show ?thesis by (auto intro: dcqcn_send_inv)
        qed
      next
        case (RateTimer k)
        with h have "DCQCN_rateTimer cfg now k ?s = Inr (s', es)" by simp
        with assms(2) RateTimer show ?thesis by (auto intro: dcqcn_rate_timer_inv)
      next
        case (AlphaTimer k)
        with h have "DCQCN_updateAlpha cfg now k ?s = Inr (s', es)" by simp
        with assms(2) AlphaTimer show ?thesis by (auto intro: dcqcn_alpha_timer_inv)
      next
        case (CnpTimer k)
        with h assms(2) show ?thesis by (auto simp: dcqcn_inv_def sender_inv_def)
      next
        case TimeoutTimer
        with h assms(2) show ?thesis by (auto simp: dcqcn_inv_def sender_inv_def)
      qed
    qed
  qed
qed

subsection \<open>Steps that cannot fail\<close>

text \<open>Data requests and the protocol's own packets carry the tag of their flow.\<close>

fun dcqcn_accepts :: "dcqcn_cfg \<Rightarrow> simtime \<times> cc_op \<Rightarrow> bool" where
  "dcqcn_accepts cfg (now, Upper p) \<longleftrightarrow> (contains ''Data'' (p_name p) \<and> activate cfg \<longrightarrow> p_tags p \<noteq> [])"
| "dcqcn_accepts cfg (now, Lower p) \<longleftrightarrow> (contains ''CNP'' (p_name p) \<or> contains ''DcqcnData'' (p_name p) \<longrightarrow> p_tags p \<noteq> [])"
| "dcqcn_accepts cfg (now, Fire tm) \<longleftrightarrow> True"

text \<open>The flow an event asks the sender to start.\<close>

fun dcqcn_new :: "dcqcn_cfg \<Rightarrow> simtime \<times> cc_op \<Rightarrow> u32 option" where
  "dcqcn_new cfg (now, Upper p) =
     (if contains ''Data'' (p_name p) \<and> activate cfg then Some (ht_flowid (last (p_tags p))) else None)"
| "dcqcn_new cfg (now, _) = None"

definition flow_keys :: "('v, 'z) sender_scheme \<Rightarrow> u32 set" where
  "flow_keys s = fst ` set (sender_flowMap s)"

definition dcqcn_safe :: "dcqcn_cfg \<Rightarrow> dcqcn \<Rightarrow> bool" where
  "dcqcn_safe cfg s \<longleftrightarrow> dcqcn_inv cfg s \<and> cursor_ok s"

lemma truncate_tag: "p_tags p \<noteq> [] \<Longrightarrow> last_tag (packet.truncate p) = Inr (last (p_tags p))"
  by (simp add: last_tag_def packet.truncate_def)

lemma data_bytes_nonneg: "0 \<le> bytes_of (p_bits (p :: dgram))"
  by (simp add: bytes_of_def)

lemma dcqcn_send_ok:
  assumes "dcqcn_safe cfg s" and "sender_flowMap s \<noteq> []" and "timers s SendDataTimer \<noteq> None"
  shows "\<exists>s' es. DCQCN_send_data cfg now (s\<lparr>timers := (timers s)(SendDataTimer := None)\<rparr>) = Inr (s', es) \<and>
     cursor_ok s' \<and> flow_keys s' \<subseteq> flow_keys s"
proof -
  let ?s = "s\<lparr>timers := (timers s)(SendDataTimer := None)\<rparr>"
  have c: "cursor_ok ?s" and i: "dcqcn_inv cfg s" using assms(1) by (simp_all add: dcqcn_safe_def cursor_ok_def)
  have "sender_flowMap ?s \<noteq> []" using assms(2) by simp
  from cursorE[OF c this] obtain it f where it: "iter ?s = Some it" "map_get (sender_flowMap ?s) it = Some f" .
  have ok: "dcqcn_flow_ok cfg it f" using dcqcn_entry[OF i] it(2) by simp
  obtain len rest where seg: "segment (max_pck_size cfg) (remainLength f) = (len, rest)" by fastforce
  let ?bytes = "bytes_of (p_bits (data_packet ''DcqcnData'' (note_flow f ?s) f len rest))"
  have "0 < currentRate f" using ok by (simp add: dcqcn_flow_ok_def)
  from nxtSendTime_pos[OF this data_bytes_nonneg] obtain t where t: "nxtSendTime now ?bytes (currentRate f) = Inr t" "now < t"
    by blast
  have "is_ok (DCQCN_send_data cfg now ?s)"
    using it seg t by (cases "rest = 0") (simp_all add: send_data_stored Let_def scheduleAt_def)
  then obtain s' es where r: "DCQCN_send_data cfg now ?s = Inr (s', es)" by (auto simp: is_ok_iff)
  have k: "flowid f = it" using ok by (simp add: dcqcn_flow_ok_def)
  have w: "wf_map (sender_flowMap s)" using c by (auto dest: cursor_wf)
  have mem: "it \<in> fst ` set (sender_flowMap s)" using map_get_Some_mem it(2) by fastforce
  from r have "cursor_ok s' \<and> flow_keys s' \<subseteq> flow_keys s"
  proof (rule send_data_Inr)
    fix it' f' len' rest' t' b
    assume a: "iter ?s = Some it'" "map_get (sender_flowMap ?s) it' = Some f'"
      "sender_flowMap s' = (if rest' = 0 then map_erase (flowid f') (sender_flowMap ?s)
         else map_put (flowid f') (f'\<lparr>remainLength := rest', pckseq := pckseq f' + 1, ByteCounter := b\<rparr>) (sender_flowMap ?s))"
      "iter s' = (if rest' = 0 then map_next it' (sender_flowMap ?s) else iter ?s)"
    with it have e: "it' = it" "f' = f" by auto
    show ?thesis
    proof (cases "rest' = 0")
      case True
      have "cursor_ok (finish_flow it it ?s)" by (rule cursor_finish[OF c it(1)]) (use assms(2) in simp)
      then have "cursor_ok s'" using a True e k by (simp add: cursor_ok_def)
      with a True e k show ?thesis by (auto simp: flow_keys_def keys_erase[OF w])
    next
      case False
      have "cursor_ok (put_flow it (f\<lparr>remainLength := rest', pckseq := pckseq f + 1, ByteCounter := b\<rparr>) ?s)"
        by (rule cursor_put[OF c]) (use it(2) in simp)
      then have "cursor_ok s'" using a False e k by (simp add: cursor_ok_def)
      with a False e k mem show ?thesis by (auto simp: flow_keys_def keys_put)
    qed
  qed
  with r show ?thesis by blast
qed

lemma dcqcn_put_cursor:
  assumes "cursor_ok s" and "map_get (sender_flowMap s) k = Some g"
    and "sender_flowMap t = map_put k f (sender_flowMap s)" and "iter t = iter s"
  shows "cursor_ok t \<and> flow_keys t \<subseteq> flow_keys s"
proof -
  have "cursor_ok (put_flow k f s)" by (rule cursor_put[OF assms(1)]) (simp add: assms(2))
  moreover have "k \<in> fst ` set (sender_flowMap s)" using map_get_Some_mem[OF assms(2)] .
  ultimately show ?thesis using assms(3,4) by (auto simp: cursor_ok_def flow_keys_def keys_put)
qed

lemma dcqcn_upper_ok:
  assumes "dcqcn_safe cfg s" and "dcqcn_accepts cfg (now, Upper p)"
    and "\<And>k j. dcqcn_new cfg (now, Upper p) = Some k \<Longrightarrow> j \<in> flow_keys s \<Longrightarrow> j \<le> k"
  shows "\<exists>s' es. DCQCN_processUpperpck cfg now p s = Inr (s', es) \<and> cursor_ok s' \<and>
     flow_keys s' \<subseteq> flow_keys s \<union> set_option (dcqcn_new cfg (now, Upper p))"
proof -
  have c: "cursor_ok s" and i: "dcqcn_inv cfg s" using assms(1) by (simp_all add: dcqcn_safe_def)
  have arm: "SenderState s = STOPPING \<longrightarrow> timers s SendDataTimer = None" using i by (auto simp: dcqcn_inv_def sender_inv_def)
  show ?thesis
  proof (cases "contains ''Data'' (p_name p) \<and> activate cfg")
    case False
    with c show ?thesis by (auto simp: DCQCN_processUpperpck_def)
  next
    case True
    then have t: "p_tags p \<noteq> []" using assms(2) by simp
    let ?k = "ht_flowid (last (p_tags p))"
    have "is_ok (DCQCN_processUpperpck cfg now p s)"
      using True arm
      by (cases "map_get (sender_flowMap s) ?k = None"; cases "SenderState s = STOPPING")
        (simp_all add: DCQCN_processUpperpck_def truncate_tag[OF t] scheduleAt_def Let_def)
    then obtain s' es where r: "DCQCN_processUpperpck cfg now p s = Inr (s', es)" by (auto simp: is_ok_iff)
    have "cursor_ok s' \<and> flow_keys s' \<subseteq> flow_keys s \<union> {?k}"
      using r
    proof (cases rule: upper_Inr)
      case (data k s1)
      have "cursor_ok s1 \<and> flow_keys s1 \<subseteq> flow_keys s \<union> {?k}"
      proof (cases "map_get (sender_flowMap s) k = None")
        case False
        then show ?thesis unfolding data(5) using c by auto
      next
        case new: True
        have "i' \<le> k" if "iter s = Some i'" "sender_flowMap s \<noteq> []" for i'
        proof -
          from cursorE[OF c that(2)] that(1) have "i' \<in> flow_keys s"
            by (auto simp: flow_keys_def dest: map_get_Some_mem)
          with assms(3)[of ?k i'] True data(2) show ?thesis by simp
        qed
        then have "cursor_ok (store_flow k v s)" for v by (rule cursor_store[OF c])
        then show ?thesis unfolding data(5) using new data(2)
          by (auto simp: cursor_ok_def flow_keys_def keys_put store_flow_def Let_def)
      qed
      with data(6) show ?thesis by (auto simp: cursor_ok_def flow_keys_def split: if_splits)
    next
      case pass
      with True show ?thesis by simp
    qed
    with r True show ?thesis by auto
  qed
qed

lemma dcqcn_cnp_ok:
  assumes "dcqcn_safe cfg s" and "p_tags p \<noteq> []"
  shows "\<exists>s' es. DCQCN_receive_cnp cfg now p s = Inr (s', es) \<and> cursor_ok s' \<and> flow_keys s' \<subseteq> flow_keys s"
proof (cases "map_get (sender_flowMap s) (ht_flowid (last (p_tags p)))")
  case None
  with assms show ?thesis by (simp add: DCQCN_receive_cnp_def truncate_tag Let_def dcqcn_safe_def)
next
  case (Some f)
  have c: "cursor_ok s" and "0 \<le> AlphaTimer_th cfg" "0 \<le> RateTimer_th cfg"
    using assms(1) by (simp_all add: dcqcn_safe_def dcqcn_inv_def dcqcn_cfg_ok_def)
  with Some obtain s' es where r: "DCQCN_receive_cnp cfg now p s = Inr (s', es)"
    by (auto simp: DCQCN_receive_cnp_def truncate_tag[OF assms(2)] scheduleAt_def Let_def)
  have "cursor_ok s' \<and> flow_keys s' \<subseteq> flow_keys s"
    by (rule dcqcn_put_cursor[OF c Some, of _ "dcqcn_cut cfg f"])
      (use r Some in \<open>auto simp: DCQCN_receive_cnp_def truncate_tag[OF assms(2)] rbind_eq_Inr scheduleAt_Inr Let_def\<close>)
  with r show ?thesis by blast
qed

lemma dcqcn_rate_ok:
  assumes "dcqcn_safe cfg s" and "timers s (RateTimer k) \<noteq> None"
  shows "\<exists>s' es. DCQCN_rateTimer cfg now k (s\<lparr>timers := (timers s)(RateTimer k := None)\<rparr>) = Inr (s', es) \<and>
     cursor_ok s' \<and> flow_keys s' \<subseteq> flow_keys s"
proof -
  have c: "cursor_ok s" "0 \<le> RateTimer_th cfg" using assms(1) by (simp_all add: dcqcn_safe_def dcqcn_inv_def dcqcn_cfg_ok_def)
  obtain f where f: "map_get (sender_flowMap s) k = Some f" using assms by (force simp: dcqcn_safe_def dcqcn_inv_def)
  let ?s = "s\<lparr>timers := (timers s)(RateTimer k := None)\<rparr>"
  obtain s' es where r: "DCQCN_rateTimer cfg now k ?s = Inr (s', es)"
    using f c by (simp add: DCQCN_rateTimer_def increase_put scheduleAt_def Let_def)
  have "cursor_ok s' \<and> flow_keys s' \<subseteq> flow_keys s"
    by (rule dcqcn_put_cursor[OF c(1) f, of _ "dcqcn_recover cfg (f\<lparr>TimeFrSteps := TimeFrSteps f + 1\<rparr>)"])
      (use r f in \<open>auto simp: DCQCN_rateTimer_def increase_put rbind_eq_Inr scheduleAt_Inr Let_def\<close>)
  with r show ?thesis by blast
qed

lemma dcqcn_alpha_ok:
  assumes "dcqcn_safe cfg s" and "timers s (AlphaTimer k) \<noteq> None"
  shows "\<exists>s' es. DCQCN_updateAlpha cfg now k (s\<lparr>timers := (timers s)(AlphaTimer k := None)\<rparr>) = Inr (s', es) \<and>
     cursor_ok s' \<and> flow_keys s' \<subseteq> flow_keys s"
proof -
  have c: "cursor_ok s" "0 \<le> AlphaTimer_th cfg" using assms(1) by (simp_all add: dcqcn_safe_def dcqcn_inv_def dcqcn_cfg_ok_def)
  obtain f where f: "map_get (sender_flowMap s) k = Some f" using assms by (force simp: dcqcn_safe_def dcqcn_inv_def)
  let ?s = "s\<lparr>timers := (timers s)(AlphaTimer k := None)\<rparr>"
  obtain s' es where r: "DCQCN_updateAlpha cfg now k ?s = Inr (s', es)"
    using f c by (simp add: DCQCN_updateAlpha_def scheduleAt_def Let_def)
  have "cursor_ok s' \<and> flow_keys s' \<subseteq> flow_keys s"
    by (rule dcqcn_put_cursor[OF c(1) f, of _ "f\<lparr>alphaEst := (1 - gamma cfg) * alphaEst f\<rparr>"])
      (use r f in \<open>auto simp: DCQCN_updateAlpha_def rbind_eq_Inr scheduleAt_Inr Let_def\<close>)
  with r show ?thesis by blast
qed

lemma dcqcn_step_ok:
  assumes "dcqcn_safe cfg s" and "dcqcn_accepts cfg x"
    and "\<And>k j. dcqcn_new cfg x = Some k \<Longrightarrow> j \<in> flow_keys s \<Longrightarrow> j \<le> k"
  shows "\<exists>s' es. DCQCN_handleMessage cfg x s = Inr (s', es) \<and> dcqcn_safe cfg s' \<and>
     flow_keys s' \<subseteq> flow_keys s \<union> set_option (dcqcn_new cfg x)"
proof -
  have c: "cursor_ok s" and i: "dcqcn_inv cfg s" using assms(1) by (simp_all add: dcqcn_safe_def)
  obtain now e where x: "x = (now, e)" by (cases x)
  have "\<exists>s' es. DCQCN_handleMessage cfg x s = Inr (s', es) \<and> cursor_ok s' \<and>
     flow_keys s' \<subseteq> flow_keys s \<union> set_option (dcqcn_new cfg x)"
  proof (cases e)
    case (Upper p)
    with dcqcn_upper_ok[OF assms(1), of now p] assms(2,3) x show ?thesis by auto
  next
    case (Lower p)
    show ?thesis
    proof (cases "contains ''CNP'' (p_name p)")
      case True
      with assms(2) x Lower have "p_tags p \<noteq> []" by simp
      from dcqcn_cnp_ok[OF assms(1) this, of now] True x Lower show ?thesis by (simp add: DCQCN_processLowerpck_def)
    next
      case False
      with assms(2) x Lower c show ?thesis
        by (auto simp: DCQCN_processLowerpck_def DCQCN_receive_data_def truncate_tag Let_def cursor_ok_def flow_keys_def)
    qed
  next
    case (Fire tm)
    show ?thesis
    proof (cases "timers s tm")
      case None
      with x Fire c show ?thesis by simp
    next
      case (Some t)
      show ?thesis
      proof (cases tm)
        case SendDataTimer
        with dcqcn_send_ok[OF assms(1), of now] Some x Fire c show ?thesis
          by (cases "sender_flowMap s = [] \<or> now \<ge> stopTime cfg") (auto simp: cursor_ok_def flow_keys_def)
      next
        case (RateTimer k)
        with dcqcn_rate_ok[OF assms(1), of k now] Some x Fire show ?thesis by auto
      next
        case (AlphaTimer k)
        with dcqcn_alpha_ok[OF assms(1), of k now] Some x Fire show ?thesis by auto
      next
        case (CnpTimer k)
        with Some x Fire c show ?thesis by (auto simp: cursor_ok_def flow_keys_def)
      next
        case TimeoutTimer
        with Some x Fire c show ?thesis by (auto simp: cursor_ok_def flow_keys_def)
      qed
    qed
  qed
  with dcqcn_step_inv[OF _ i, of x] show ?thesis by (fastforce simp: dcqcn_safe_def)
qed

interpretation dcqcn_sender: machine "DCQCN_handleMessage cfg" "dcqcn_inv cfg" "\<lambda>_. True" for cfg
  by unfold_locales (rule dcqcn_step_inv)

interpretation dcqcn_ordered: ordered_sender
    "DCQCN_handleMessage cfg" "dcqcn_safe cfg" "dcqcn_accepts cfg" "dcqcn_new cfg" flow_keys for cfg
  by unfold_locales (rule dcqcn_step_ok)

subsection \<open>Segmentation\<close>

lemma data_prefix: "starts_with ''DcqcnData'' n \<Longrightarrow> contains ''Data'' n"
proof -
  assume "starts_with ''DcqcnData'' n"
  then obtain t where "n = ''Dcqcn'' @ ''Data'' @ t" by (auto simp: starts_with_append)
  then show ?thesis by (simp only: contains_append) blast
qed

lemma dcqcn_send_delivers:
  assumes "DCQCN_send_data cfg now s = Inr (s', es)" and "wf_map (sender_flowMap s)" and "0 < max_pck_size cfg"
    and "\<And>k f. map_get (sender_flowMap s) k = Some f \<Longrightarrow> dcqcn_flow_ok cfg k f"
  shows "delivers (sent_for ''DcqcnData'' j es) (left_of j s) (left_of j s')"
  using assms(1)
proof (rule send_data_Inr)
  fix it f len rest t b
  assume f: "map_get (sender_flowMap s) it = Some f"
    and seg: "segment (max_pck_size cfg) (remainLength f) = (len, rest)"
    and es: "es = [Arm SendDataTimer t, SendDown (data_packet ''DcqcnData'' (note_flow f s) f len rest)]"
    and m: "sender_flowMap s' = (if rest = 0 then map_erase (flowid f) (sender_flowMap s)
       else map_put (flowid f) (f\<lparr>remainLength := rest, pckseq := pckseq f + 1, ByteCounter := b\<rparr>) (sender_flowMap s))"
  have ok: "flowid f = it" "0 \<le> remainLength f" using assms(4)[OF f] by (auto simp: dcqcn_flow_ok_def)
  have "delivers (sent_for ''DcqcnData'' j [SendDown (data_packet ''DcqcnData'' (note_flow f s) f len rest)])
      (left_of j s) (left_of j s')"
    by (rule send_delivers[OF assms(2) f ok(1) seg ok(2) assms(3)])
      (use m ok(1) in \<open>auto split: if_splits\<close>)
  then show ?thesis by (simp add: es del: sent_for.simps(2))
qed

lemma dcqcn_other_delivers:
  assumes "sent_for nm j es = []" and "left_of j s' = left_of j s"
  shows "delivers (sent_for nm j es) (left_of j s) (left_of j s')"
  by (simp add: assms)

lemma dcqcn_upper_delivers:
  assumes "DCQCN_processUpperpck cfg now p s = Inr (s', es)" and "activate cfg"
    and "dcqcn_new cfg (now, Upper p) \<noteq> Some j"
  shows "delivers (sent_for ''DcqcnData'' j es) (left_of j s) (left_of j s')"
  using assms(1)
proof (cases rule: upper_Inr)
  case pass
  with assms(2) have "\<not> starts_with ''DcqcnData'' (p_name p)" by (auto dest: data_prefix)
  with pass show ?thesis by simp
next
  case (data k s1)
  then have "j \<noteq> k" using assms(3) by auto
  then have "left_of j s1 = left_of j s" unfolding data(5) by (auto simp: left_of_def get_put)
  with data(6) show ?thesis by (auto simp: left_of_def split: if_splits)
qed

lemma dcqcn_lower_delivers:
  assumes "DCQCN_processLowerpck cfg now p s = Inr (s', es)"
  shows "delivers (sent_for ''DcqcnData'' j es) (left_of j s) (left_of j s')"
proof (cases "contains ''CNP'' (p_name p)")
  case True
  with assms obtain tag where t: "last_tag (packet.truncate p) = Inr tag"
    and r: "DCQCN_receive_cnp cfg now p s = Inr (s', es)"
    by (auto simp: DCQCN_processLowerpck_def DCQCN_receive_cnp_def rbind_eq_Inr)
  show ?thesis
  proof (cases "map_get (sender_flowMap s) (ht_flowid tag)")
    case None
    with r t show ?thesis by (auto simp: DCQCN_receive_cnp_def Let_def)
  next
    case (Some f)
    have "left_of j s' = left_of j s"
      by (rule left_put[OF Some, of _ "dcqcn_cut cfg f"])
        (use r t Some in \<open>auto simp: DCQCN_receive_cnp_def rbind_eq_Inr scheduleAt_Inr Let_def dcqcn_cut_def\<close>)
    moreover have "sent_for ''DcqcnData'' j es = []"
      using r t Some by (auto simp: DCQCN_receive_cnp_def rbind_eq_Inr Let_def)
    ultimately show ?thesis by simp
  qed
next
  case False
  with assms show ?thesis
    by (auto simp: DCQCN_processLowerpck_def DCQCN_receive_data_def rbind_eq_Inr Let_def cnp_packet_def left_of_def
        split: if_splits)
qed

lemma recover_left: "remainLength (dcqcn_recover cfg f) = remainLength f \<and> pckseq (dcqcn_recover cfg f) = pckseq f"
  by (auto simp: dcqcn_recover_def Let_def split: acc_state.splits)

lemma dcqcn_timer_delivers:
  assumes "(case tm of RateTimer k \<Rightarrow> DCQCN_rateTimer cfg now k s | AlphaTimer k \<Rightarrow> DCQCN_updateAlpha cfg now k s
      | _ \<Rightarrow> Inr (s, [])) = Inr (s', es)"
  shows "delivers (sent_for ''DcqcnData'' j es) (left_of j s) (left_of j s')"
proof (cases tm)
  case (RateTimer k)
  with assms obtain f where f: "map_get (sender_flowMap s) k = Some f"
    by (auto simp: DCQCN_rateTimer_def split: option.splits)
  have "left_of j s' = left_of j s"
    by (rule left_put[OF f, of _ "dcqcn_recover cfg (f\<lparr>TimeFrSteps := TimeFrSteps f + 1\<rparr>)"])
      (use assms RateTimer f in \<open>auto simp: DCQCN_rateTimer_def increase_put rbind_eq_Inr scheduleAt_Inr Let_def recover_left\<close>)
  moreover have "sent_for ''DcqcnData'' j es = []"
    using assms RateTimer f by (auto simp: DCQCN_rateTimer_def rbind_eq_Inr Let_def)
  ultimately show ?thesis by simp
next
  case (AlphaTimer k)
  with assms obtain f where f: "map_get (sender_flowMap s) k = Some f"
    by (auto simp: DCQCN_updateAlpha_def split: option.splits)
  have "left_of j s' = left_of j s"
    by (rule left_put[OF f, of _ "f\<lparr>alphaEst := (1 - gamma cfg) * alphaEst f\<rparr>"])
      (use assms AlphaTimer f in \<open>auto simp: DCQCN_updateAlpha_def rbind_eq_Inr scheduleAt_Inr Let_def\<close>)
  moreover have "sent_for ''DcqcnData'' j es = []"
    using assms AlphaTimer f by (auto simp: DCQCN_updateAlpha_def rbind_eq_Inr Let_def)
  ultimately show ?thesis by simp
qed (use assms in auto)

lemma dcqcn_step_delivers:
  assumes "DCQCN_handleMessage cfg x s = Inr (s', es)" and "dcqcn_inv cfg s" and "activate cfg"
    and "dcqcn_new cfg x \<noteq> Some j"
  shows "delivers (sent_for ''DcqcnData'' j es) (left_of j s) (left_of j s')"
proof -
  obtain now e where x: "x = (now, e)" by (cases x)
  show ?thesis
  proof (cases e)
    case (Upper p)
    with assms x dcqcn_upper_delivers show ?thesis by simp
  next
    case (Lower p)
    with assms x dcqcn_lower_delivers show ?thesis by simp
  next
    case (Fire tm)
    let ?s = "s\<lparr>timers := (timers s)(tm := None)\<rparr>"
    have l: "left_of j ?s = left_of j s" by (simp add: left_of_def)
    show ?thesis
    proof (cases "timers s tm = None \<or> tm = SendDataTimer \<and> (sender_flowMap s = [] \<or> now \<ge> stopTime cfg)")
      case True
      with assms(1) x Fire show ?thesis by (auto simp: left_of_def split: if_splits)
    next
      case False
      then have h: "DCQCN_handleSelfMessage cfg now tm ?s = Inr (s', es)" using assms(1) x Fire by auto
      show ?thesis
      proof (cases "tm = SendDataTimer")
        case True
        with h False have r: "DCQCN_send_data cfg now ?s = Inr (s', es)" by auto
        have "delivers (sent_for ''DcqcnData'' j es) (left_of j ?s) (left_of j s')"
          by (rule dcqcn_send_delivers[OF r]) (use assms(2) in \<open>auto simp: dcqcn_inv_def sender_inv_def dcqcn_cfg_ok_def\<close>)
        with l show ?thesis by simp
      next
        case other: False
        with h have "(case tm of RateTimer k \<Rightarrow> DCQCN_rateTimer cfg now k ?s | AlphaTimer k \<Rightarrow> DCQCN_updateAlpha cfg now k ?s
            | _ \<Rightarrow> Inr (?s, [])) = Inr (s', es)" by (cases tm) auto
        from dcqcn_timer_delivers[OF this, of j] l show ?thesis by simp
      qed
    qed
  qed
qed

interpretation dcqcn_segments: segmenting_sender
    "DCQCN_handleMessage cfg" "dcqcn_inv cfg" "\<lambda>_. activate cfg" "sent_for ''DcqcnData''" left_of
    "\<lambda>f x. dcqcn_new cfg x = Some f" for cfg
  by unfold_locales (auto intro: dcqcn_step_inv dcqcn_step_delivers simp: sent_for_append)

subsection \<open>Properties\<close>

lemma dcqcn_init_inv: "dcqcn_cfg_ok cfg \<Longrightarrow> dcqcn_safe cfg DCQCN_initialize"
  by (simp add: dcqcn_safe_def dcqcn_inv_def sender_inv_def cursor_ok_def DCQCN_initialize_def)

definition sample_dcqcn :: dcqcn_cfg where
  "sample_dcqcn = \<lparr>activate = True, stopTime = 1000, linkspeed = 100, initialrate = 1, max_pck_size = 1000,
     gamma = 1/2, min_cnp_interval = 1, AlphaTimer_th = 1, RateTimer_th = 1, Rai = 5, Rhai = 50,
     ByteCounter_th = 1000, frSteps_th = 5\<rparr>"

definition sample_request :: "u32 \<Rightarrow> dgram" where
  "sample_request k = \<lparr>p_id = 1, p_name = ''AppData'', p_len = 64, p_iface = 0, p_ecn = None,
     p_tags = [\<lparr>ht_flowid = k, ht_priority = 2, ht_flowsize = 700, ht_cretime = 0, ht_packetid = 0, ht_last = False,
        ht_queueid = 0, ht_decel = False, ht_speedup = False, ht_sender_priority = -1\<rparr>],
     p_bfc = None, p_ispause = None, d_src = 1, d_dest = 2, d_sport = 10, d_dport = 20, d_ecn = 0,
     d_recRate = 0, d_int = None, d_psd = None, d_sack = None, d_time = 0\<rparr>"

lemma sample_dcqcn_ok: "dcqcn_cfg_ok sample_dcqcn"
  by (simp add: dcqcn_cfg_ok_def sample_dcqcn_def)

definition sample_cnp :: dgram where
  "sample_cnp = cnp_packet 5 (sample_request 5)"

lemmas dcqcn_eval = sample_dcqcn_def message_length_def sample_request_def DCQCN_initialize_def DCQCN_processUpperpck_def
  packet.truncate_def last_tag_def store_flow_def scheduleAt_def Let_def send_data_stored segment_def note_flow_def
  data_packet_def bytes_of_def nxtSendTime_def finish_flow_def put_flow_def cancelEvent_def

text \<open>C32: Rates stay sane.  In every state DCQCN can reach, each flow's rate is positive and at most its
  target, the target is at most the link speed, and the congestion estimate lies between 0 and 1;
  the division of the rate that paces the packets is always defined.\<close>

theorem dcqcn_rates_bounded:
  assumes "dcqcn_cfg_ok cfg" and "run_out (DCQCN_handleMessage cfg) xs DCQCN_initialize = Inr (s, es)"
    and "map_get (sender_flowMap s) k = Some f"
  shows "0 < currentRate f \<and> currentRate f \<le> targetRate f \<and> targetRate f \<le> linkspeed cfg \<and>
     0 \<le> alphaEst f \<and> alphaEst f \<le> 1"
proof -
  have "dcqcn_inv cfg DCQCN_initialize" using dcqcn_init_inv[OF assms(1)] by (simp add: dcqcn_safe_def)
  from dcqcn_sender.inv_run[OF this _ assms(2)] have "dcqcn_inv cfg s" by simp
  from dcqcn_entry[OF this assms(3)] show ?thesis by (simp add: dcqcn_flow_ok_def)
qed

theorem dcqcn_rates_bounded_witness:
  "\<exists>s es f. run_out (DCQCN_handleMessage sample_dcqcn) [(0, Upper (sample_request 5))] DCQCN_initialize = Inr (s, es) \<and>
     map_get (sender_flowMap s) 5 = Some f \<and> currentRate f \<le> 100"
proof -
  obtain s es f where r: "run_out (DCQCN_handleMessage sample_dcqcn) [(0, Upper (sample_request 5))] DCQCN_initialize = Inr (s, es)"
    and f: "map_get (sender_flowMap s) 5 = Some f"
    by (simp add: dcqcn_eval)
  from dcqcn_rates_bounded[OF sample_dcqcn_ok r f] r f show ?thesis by (auto simp: sample_dcqcn_def)
qed

text \<open>DCQCN never fails as long as the application starts flows in ascending order of their ids: no
  timer is scheduled twice or into the past, no iterator past the end is used and no rate is zero,
  whatever packets, notifications and timers come in whatever order.\<close>

theorem dcqcn_never_fails:
  assumes "dcqcn_cfg_ok cfg" and "\<forall>x\<in>set xs. dcqcn_accepts cfg x" and "ascending_from (dcqcn_new cfg) 0 xs"
  shows "\<exists>s es. run_out (DCQCN_handleMessage cfg) xs DCQCN_initialize = Inr (s, es)"
proof -
  have "\<forall>j\<in>flow_keys DCQCN_initialize. j \<le> 0" by (simp add: flow_keys_def DCQCN_initialize_def)
  from dcqcn_ordered.ascending_run_ok[OF dcqcn_init_inv[OF assms(1)] assms(2) this assms(3)]
  show ?thesis by (auto simp: is_ok_iff)
qed

theorem dcqcn_never_fails_witness:
  "\<exists>s es. run_out (DCQCN_handleMessage sample_dcqcn)
     [(0, Upper (sample_request 3)), (0, Upper (sample_request 5)), (0, Fire SendDataTimer), (2, Lower sample_cnp)]
     DCQCN_initialize = Inr (s, es)"
  by (rule dcqcn_never_fails[OF sample_dcqcn_ok])
    (simp_all add: sample_request_def sample_dcqcn_def sample_cnp_def cnp_packet_def)

text \<open>The order matters.  When a flow with a smaller id arrives while a flow is being sent, the
  iterator moves to the end of the map when that flow is done although the smaller one is waiting;
  the next send dereferences the end iterator.\<close>

theorem dcqcn_cursor_dangles:
  assumes "dcqcn_cfg_ok cfg" and "activate cfg" and "j < k" and "0 < stopTime cfg" and "t < stopTime cfg"
    and "contains ''Data'' (p_name p)" and "p_tags p \<noteq> []" and "ht_flowid (last (p_tags p)) = k"
    and "message_length (last (p_tags p)) \<le> max_pck_size cfg"
    and "contains ''Data'' (p_name r)" and "p_tags r \<noteq> []" and "ht_flowid (last (p_tags r)) = j"
  shows "run_out (DCQCN_handleMessage cfg)
     [(0, Upper p), (0, Upper r), (0, Fire SendDataTimer), (t, Fire SendDataTimer)] DCQCN_initialize = Inl EndIterator"
proof -
  have "linkspeed cfg * initialrate cfg \<noteq> 0" "\<not> linkspeed cfg * initialrate cfg < 0"
    using assms(1) by (auto simp: dcqcn_cfg_ok_def mult_less_0_iff)
  moreover have "\<not> (528 + (unsigned w :: real) * 8) / (linkspeed cfg * initialrate cfg) < 0" for w :: u32
  proof -
    have "0 \<le> (unsigned w :: real)" by (metis of_nat_0_le_iff of_nat_unat)
    then have "0 \<le> 528 + (unsigned w :: real) * 8" by linarith
    moreover have "0 < linkspeed cfg * initialrate cfg" using assms(1) by (simp add: dcqcn_cfg_ok_def)
    ultimately show ?thesis by (simp add: divide_less_0_iff)
  qed
  moreover have "\<not> k < j" "j \<noteq> k" using assms(3) by auto
  ultimately show ?thesis
    using assms by (simp add: dcqcn_eval dcqcn_cfg_ok_def zero_le_divide_iff mult_less_0_iff)
qed

theorem dcqcn_cursor_dangles_witness:
  "run_out (DCQCN_handleMessage sample_dcqcn)
     [(0, Upper (sample_request 5)), (0, Upper (sample_request 3)), (0, Fire SendDataTimer), (100, Fire SendDataTimer)]
     DCQCN_initialize = Inl EndIterator"
  by (rule dcqcn_cursor_dangles[OF sample_dcqcn_ok, of 3 5])
    (simp_all add: message_length_def sample_request_def sample_dcqcn_def)

text \<open>C6: Every flow is delivered completely.  From the event that starts a flow to its end, whatever
  other flows, notifications and timers come in between, the payloads of the packets sent for it
  add up to its size, their sequence numbers count up from 0, and exactly the last one carries
  the last-packet flag.\<close>

theorem dcqcn_flow_delivered:
  assumes "dcqcn_cfg_ok cfg" and "activate cfg"
    and "run_out (DCQCN_handleMessage cfg) xs DCQCN_initialize = Inr (s, es0)"
    and "map_get (sender_flowMap s) k = None"
    and "contains ''Data'' (p_name p)" and "ht_flowid (last (p_tags p)) = k"
    and "run_out (DCQCN_handleMessage cfg) ((now, Upper p) # ys) s = Inr (s', es)"
    and "\<forall>y\<in>set ys. dcqcn_new cfg y \<noteq> Some k" and "map_get (sender_flowMap s') k = None"
  shows "sum_list (map (\<lambda>(_, len, _). len) (sent_for ''DcqcnData'' k es)) = message_length (last (p_tags p)) \<and>
     map fst (sent_for ''DcqcnData'' k es) = map of_nat [0..<length (sent_for ''DcqcnData'' k es)] \<and>
     map (\<lambda>(_, _, lst). lst) (sent_for ''DcqcnData'' k es) =
       replicate (length (sent_for ''DcqcnData'' k es) - 1) False @ [True]"
proof -
  have "dcqcn_inv cfg DCQCN_initialize" using dcqcn_init_inv[OF assms(1)] by (simp add: dcqcn_safe_def)
  from dcqcn_sender.inv_run[OF this _ assms(3)] have i: "dcqcn_inv cfg s" by simp
  obtain s1 es1 es2 where u: "DCQCN_processUpperpck cfg now p s = Inr (s1, es1)"
    and r: "run_out (DCQCN_handleMessage cfg) ys s1 = Inr (s', es2)" and es: "es = es1 @ es2"
    using assms(7) by (auto simp: rbind_eq_Inr)
  have i1: "dcqcn_inv cfg s1" by (rule dcqcn_upper_inv[OF u i])
  have l: "left_of k s1 = Some (message_length (last (p_tags p)), 0)" and e1: "sent_for ''DcqcnData'' k es1 = []"
    using u assms(2,4,5,6) by (auto elim!: upper_Inr simp: left_of_def get_put split: if_splits)
  have "left_of k s' = None" using assms(9) by (simp add: left_of_def)
  from dcqcn_segments.flow_complete[OF i1 _ r l this] assms(2,8) e1 show ?thesis
    by (simp add: es sent_for_append)
qed

theorem dcqcn_flow_delivered_witness:
  "\<exists>s' es. run_out (DCQCN_handleMessage sample_dcqcn) [(0, Upper (sample_request 5)), (0, Fire SendDataTimer)]
       DCQCN_initialize = Inr (s', es) \<and>
     sum_list (map (\<lambda>(_, len, _). len) (sent_for ''DcqcnData'' 5 es)) = 700"
proof -
  have i: "run_out (DCQCN_handleMessage sample_dcqcn) [] DCQCN_initialize = Inr (DCQCN_initialize, [])" by simp
  obtain s' es where r: "run_out (DCQCN_handleMessage sample_dcqcn) [(0, Upper (sample_request 5)), (0, Fire SendDataTimer)]
      DCQCN_initialize = Inr (s', es)" and d: "map_get (sender_flowMap s') 5 = None"
    by (simp add: dcqcn_eval)
  from dcqcn_flow_delivered[OF sample_dcqcn_ok _ i _ _ _ r _ d] r show ?thesis
    by (auto simp: message_length_def sample_dcqcn_def sample_request_def DCQCN_initialize_def)
qed

text \<open>The byte counter drives nothing.  The step of the byte counter is made on the map entry and
  overwritten by the stale copy, so the threshold has no influence on what is sent or stored, no
  byte step is ever counted and hyper increase is never entered.\<close>

theorem dcqcn_byte_counter_inert:
  assumes "dcqcn_cfg_ok cfg" and "run_out (DCQCN_handleMessage cfg) xs DCQCN_initialize = Inr (s, es)"
  shows "DCQCN_send_data (cfg\<lparr>ByteCounter_th := B\<rparr>) now s = DCQCN_send_data cfg now s \<and>
     (\<forall>k f. map_get (sender_flowMap s) k = Some f \<longrightarrow> ByteFrSteps f = 0 \<and> SndAccState f \<noteq> Hyper_Increase)"
proof -
  have "dcqcn_inv cfg DCQCN_initialize" using dcqcn_init_inv[OF assms(1)] by (simp add: dcqcn_safe_def)
  from dcqcn_sender.inv_run[OF this _ assms(2)] have i: "dcqcn_inv cfg s" by simp
  have "DCQCN_send_data (cfg\<lparr>ByteCounter_th := B\<rparr>) now s = DCQCN_send_data cfg now s"
  proof -
    have m: "max_pck_size (cfg\<lparr>ByteCounter_th := B\<rparr>) = max_pck_size cfg" by simp
    show ?thesis unfolding send_data_stored m by (rule refl)
  qed
  with dcqcn_entry[OF i] show ?thesis by (simp add: dcqcn_flow_ok_def)
qed

theorem dcqcn_byte_counter_inert_witness:
  "DCQCN_send_data (sample_dcqcn\<lparr>ByteCounter_th := 0\<rparr>) 3 DCQCN_initialize = DCQCN_send_data sample_dcqcn 3 DCQCN_initialize"
  using dcqcn_byte_counter_inert[OF sample_dcqcn_ok, of "[]" DCQCN_initialize "[]" 0 3] by simp

end
