(* ===== verification/Flow_Steps.thy ===== *)
theory Flow_Steps
  imports Flow_Sender
begin

section \<open>The two halves of a flow sender\<close>

text \<open>
  \<open>processUpperpck\<close> and the end of \<open>send_data\<close> are the same code in every congestion control that keeps
  its flows in \<open>sender_flowMap\<close>; only the entry they store differs.  Here they are once, with what a
  congestion control needs to know of them: what they do to the entries, to the iterator and to the
  bytes left of a flow.
\<close>

text \<open>
  A request of the application: a new flow is entered (\<open>mk\<close> makes its entry from the tag and the
  packet), and a stopped sender is started.
\<close>

definition sender_upper ::
    "bool \<Rightarrow> (hitag \<Rightarrow> dgram \<Rightarrow> 'v) \<Rightarrow> simtime \<Rightarrow> dgram \<Rightarrow> ('v, 'z) sender_scheme \<Rightarrow>
       (('v, 'z) sender_scheme \<times> cc_effect list) res" where
  "sender_upper act mk now pck s =
     (if contains ''Data'' (p_name pck) \<and> act then
        rbind (last_tag (packet.truncate pck)) (\<lambda>tag.
          let k = ht_flowid tag;
              s1 = (if map_get (sender_flowMap s) k = None then store_flow k (mk tag pck) (s\<lparr>srcAddr := d_src pck\<rparr>)
                    else s)
          in if SenderState s1 = STOPPING then
               rbind (scheduleAt SendDataTimer now now (s1\<lparr>SenderState := SENDING\<rparr>)) (\<lambda>s2.
                 Inr (s2, [Arm SendDataTimer now]))
             else Inr (s1, []))
      else Inr (s, [SendDown pck]))"

text \<open>After a packet: the entry \<open>g\<close> is stored, or the flow is finished when nothing is left of it.\<close>

definition advance_flow ::
    "u32 \<Rightarrow> 'm flow_scheme \<Rightarrow> int \<Rightarrow> ('m flow_scheme, 'z) sender_scheme \<Rightarrow> ('m flow_scheme, 'z) sender_scheme" where
  "advance_flow it g rest s = (if rest = 0 then finish_flow it (flowid g) s else put_flow (flowid g) g s)"

text \<open>The flow an event asks the sender to start, and the flows it has.\<close>

fun new_flow :: "bool \<Rightarrow> simtime \<times> cc_op \<Rightarrow> u32 option" where
  "new_flow act (now, Upper p) =
     (if contains ''Data'' (p_name p) \<and> act then Some (ht_flowid (last (p_tags p))) else None)"
| "new_flow act (now, _) = None"

definition sender_flows :: "('v, 'z) sender_scheme \<Rightarrow> u32 set" where
  "sender_flows s = fst ` set (sender_flowMap s)"

lemma flows_cong: "sender_flowMap s = sender_flowMap t \<Longrightarrow> sender_flows s = sender_flows t"
  by (simp add: sender_flows_def)

lemma tag_of_truncate: "p_tags p \<noteq> [] \<Longrightarrow> last_tag (packet.truncate p) = Inr (last (p_tags p))"
  by (simp add: last_tag_def packet.truncate_def)

lemma bytes_nonneg [simp]: "0 \<le> bytes_of (p_bits p)"
  by (simp add: bytes_of_def)

lemma sender_inv_entry:
  "sender_inv P s \<Longrightarrow> map_get (sender_flowMap s) k = Some f \<Longrightarrow> P k f"
  by (simp add: sender_inv_def)

lemma sender_inv_cong:
  "sender_flowMap s = sender_flowMap t \<Longrightarrow> SenderState s = SenderState t \<Longrightarrow>
     timers s SendDataTimer = timers t SendDataTimer \<Longrightarrow> sender_inv P s = sender_inv P t"
  by (simp add: sender_inv_def)

lemma sender_inv_note [simp]: "sender_inv P (note_flow f s) = sender_inv P s"
  by (simp add: sender_inv_def)

lemma unsigned_real_nonneg [simp]: "0 \<le> (unsigned (w :: u32) :: real)"
  by (metis of_nat_0_le_iff of_nat_unat)

lemma sender_inv_put:
  "sender_inv P s \<Longrightarrow> P k v \<Longrightarrow> sender_inv P (put_flow k v s)"
  by (auto simp: sender_inv_def get_put wf_put)

subsection \<open>Requests\<close>

lemma sender_upper_cases:
  assumes "sender_upper act mk now p s = Inr (s', es)"
  obtains (pass) "s' = s" and "es = [SendDown p]" and "\<not> (contains ''Data'' (p_name p) \<and> act)"
    | (data) k s1 where "p_tags p \<noteq> []" and "k = ht_flowid (last (p_tags p))"
        and "contains ''Data'' (p_name p)" and "act"
        and "s1 = (if map_get (sender_flowMap s) k = None
                   then store_flow k (mk (last (p_tags p)) p) (s\<lparr>srcAddr := d_src p\<rparr>) else s)"
        and "if SenderState s = STOPPING
             then timers s SendDataTimer = None \<and> es = [Arm SendDataTimer now] \<and>
                  s' = s1\<lparr>SenderState := SENDING, timers := (timers s1)(SendDataTimer := Some now)\<rparr>
             else s' = s1 \<and> es = []"
proof (cases "contains ''Data'' (p_name p) \<and> act")
  case False
  with assms show thesis by (intro pass) (auto simp: sender_upper_def split: if_splits)
next
  case True
  have t: "p_tags p \<noteq> []" "last_tag (packet.truncate p) = Inr (last (p_tags p))"
    using assms True by (auto simp: sender_upper_def last_tag_def packet.truncate_def split: if_splits)
  show thesis
    by (rule data[OF t(1) refl _ _ refl])
      (use True assms t in \<open>auto simp: sender_upper_def rbind_eq_Inr scheduleAt_Inr Let_def split: if_splits\<close>)
qed

lemma sender_upper_inv:
  assumes "sender_upper act mk now p s = Inr (s', es)" and "sender_inv P s"
    and "P (ht_flowid (last (p_tags p))) (mk (last (p_tags p)) p)"
  shows "sender_inv P s'"
  using assms(1)
proof (cases rule: sender_upper_cases)
  case pass
  with assms(2) show ?thesis by simp
next
  case (data k s1)
  have "sender_inv P s1" unfolding data(5) data(2)
    using assms(2,3) by (auto simp: sender_inv_def get_put wf_put)
  with data(6) assms(2) show ?thesis by (auto simp: sender_inv_def split: if_splits)
qed

text \<open>Only the \<open>senddata\<close> timer is touched; what a congestion control adds to the state is not.\<close>

lemma sender_upper_frame:
  assumes "sender_upper act mk now p s = Inr (s', es)"
  shows "sender.more s' = sender.more s \<and> (\<forall>tm. tm \<noteq> SendDataTimer \<longrightarrow> timers s' tm = timers s tm)"
  using assms
proof (cases rule: sender_upper_cases)
  case (data k s1)
  then show ?thesis by (auto simp: store_flow_def Let_def split: if_splits)
qed simp

lemma sender_upper_ok:
  assumes "cursor_ok s" and "sender_inv P s" and "contains ''Data'' (p_name p) \<and> act \<longrightarrow> p_tags p \<noteq> []"
    and "\<And>k j. new_flow act (now, Upper p) = Some k \<Longrightarrow> j \<in> sender_flows s \<Longrightarrow> j \<le> k"
  shows "\<exists>s' es. sender_upper act mk now p s = Inr (s', es) \<and> cursor_ok s' \<and>
     sender_flows s' \<subseteq> sender_flows s \<union> set_option (new_flow act (now, Upper p))"
proof (cases "contains ''Data'' (p_name p) \<and> act")
  case False
  with assms(1) show ?thesis by (auto simp: sender_upper_def)
next
  case True
  then have t: "p_tags p \<noteq> []" using assms(3) by simp
  let ?k = "ht_flowid (last (p_tags p))"
  have arm: "SenderState s = STOPPING \<longrightarrow> timers s SendDataTimer = None" using assms(2) by (auto simp: sender_inv_def)
  have "is_ok (sender_upper act mk now p s)"
    using True arm
    by (cases "map_get (sender_flowMap s) ?k = None"; cases "SenderState s = STOPPING")
      (simp_all add: sender_upper_def tag_of_truncate[OF t] scheduleAt_def Let_def)
  then obtain s' es where r: "sender_upper act mk now p s = Inr (s', es)" by (auto simp: is_ok_iff)
  have "cursor_ok s' \<and> sender_flows s' \<subseteq> sender_flows s \<union> {?k}"
    using r
  proof (cases rule: sender_upper_cases)
    case pass
    with True show ?thesis by simp
  next
    case (data k s1)
    have "cursor_ok s1 \<and> sender_flows s1 \<subseteq> sender_flows s \<union> {?k}"
    proof (cases "map_get (sender_flowMap s) k = None")
      case False
      then show ?thesis unfolding data(5) using assms(1) by auto
    next
      case new: True
      have "i' \<le> k" if "iter s = Some i'" "sender_flowMap s \<noteq> []" for i'
      proof -
        from cursorE[OF assms(1) that(2)] that(1) have "i' \<in> sender_flows s"
          by (auto simp: sender_flows_def dest: map_get_Some_mem)
        with assms(4)[of ?k i'] True data(2) show ?thesis by simp
      qed
      then have "cursor_ok (store_flow k v s)" for v by (rule cursor_store[OF assms(1)])
      then show ?thesis unfolding data(5) using new data(2)
        by (auto simp: cursor_ok_def sender_flows_def keys_put store_flow_def Let_def)
    qed
    with data(6) show ?thesis by (auto simp: cursor_ok_def sender_flows_def split: if_splits)
  qed
  with r True show ?thesis by auto
qed

lemma sender_upper_delivers:
  assumes "sender_upper act mk now p s = Inr (s', es)" and "act" and "new_flow act (now, Upper p) \<noteq> Some j"
    and "starts_with nm (p_name p) \<Longrightarrow> contains ''Data'' (p_name p)"
  shows "sent_for nm j es = [] \<and> left_of j s' = left_of j s"
  using assms(1)
proof (cases rule: sender_upper_cases)
  case pass
  with assms(2,4) show ?thesis by auto
next
  case (data k s1)
  then have "j \<noteq> k" using assms(3) by auto
  then have "left_of j s1 = left_of j s" unfolding data(5) by (auto simp: left_of_def get_put)
  with data(6) show ?thesis by (auto simp: left_of_def split: if_splits)
qed

subsection \<open>Advancing\<close>

lemma advance_frame [simp]:
  "timers (advance_flow it g rest s) = timers s" "SenderState (advance_flow it g rest s) = SenderState s"
  by (simp_all add: advance_flow_def)

lemma advance_more [simp]: "sender.more (advance_flow it g rest s) = sender.more s"
  by (simp add: advance_flow_def finish_flow_def put_flow_def)

lemma advance_map:
  "flowid g = it \<Longrightarrow> sender_flowMap (advance_flow it g rest s) =
     (if rest = 0 then map_erase it (sender_flowMap s) else map_put it g (sender_flowMap s))"
  by (simp add: advance_flow_def)

lemma advance_inv:
  assumes "sender_inv P s" and "flowid g = it" and "rest \<noteq> 0 \<Longrightarrow> P it g"
  shows "sender_inv P (advance_flow it g rest s)"
  using assms by (auto simp: sender_inv_def advance_map get_put get_erase wf_put wf_erase)

lemma advance_cursor:
  assumes "cursor_ok s" and "iter s = Some it" and "map_get (sender_flowMap s) it = Some f" and "flowid g = it"
  shows "cursor_ok (advance_flow it g rest s) \<and> sender_flows (advance_flow it g rest s) \<subseteq> sender_flows s"
proof -
  have w: "wf_map (sender_flowMap s)" using assms(1) by (rule cursor_wf)
  have mem: "it \<in> sender_flows s" using assms(3) by (auto simp: sender_flows_def dest: map_get_Some_mem)
  show ?thesis
  proof (cases "rest = 0")
    case True
    have "sender_flowMap s \<noteq> []" using assms(3) by auto
    with True assms(4) cursor_finish[OF assms(1,2)] show ?thesis
      by (auto simp: advance_flow_def sender_flows_def keys_erase[OF w])
  next
    case False
    with assms(3,4) mem cursor_put[OF assms(1), of it g] show ?thesis
      by (auto simp: advance_flow_def sender_flows_def keys_put)
  qed
qed

text \<open>An update of an entry that is there.\<close>

lemma put_cursor:
  assumes "cursor_ok s" and "map_get (sender_flowMap s) k = Some g"
  shows "cursor_ok (put_flow k f s) \<and> sender_flows (put_flow k f s) \<subseteq> sender_flows s"
proof -
  have "k \<in> sender_flows s" using assms(2) by (auto simp: sender_flows_def dest: map_get_Some_mem)
  with cursor_put[OF assms(1), of k f] assms(2) show ?thesis by (auto simp: sender_flows_def keys_put)
qed

lemma advance_delivers:
  assumes "wf_map (sender_flowMap s)" and "map_get (sender_flowMap s) k = Some f" and "flowid f = k"
    and "segment mx (remainLength f) = (len, rest)" and "0 \<le> remainLength f" and "0 < mx"
    and "sender_flowMap t = sender_flowMap (advance_flow k (f\<lparr>remainLength := rest, pckseq := pckseq f + 1\<rparr>) rest s)"
  shows "delivers (sent_for nm j [Arm tm t0, SendDown (data_packet nm u f len rest)]) (left_of j s) (left_of j t)"
proof -
  have "delivers (sent_for nm j [SendDown (data_packet nm u f len rest)]) (left_of j s) (left_of j t)"
    by (rule send_delivers[OF assms(1-6)]) (use assms(3,7) in \<open>auto simp: advance_map\<close>)
  then show ?thesis by (simp del: sent_for.simps(2))
qed

end
