(* ===== verification/PCN.thy ===== *)
theory PCN
  imports Flow_Steps
begin

section \<open>PCN\<close>

text \<open>
  \<open>HiNA/CC/PCN\<close>.  The receiver counts the packets and bits of each flow and reports once per
  interval: with more than 95 percent of the packets marked it asks the sender to slow down to the
  rate it received at, otherwise to speed up.  The entries of \<open>receiver_flowMap\<close> are never erased.
\<close>

record pcn_cfg =
  activate :: bool
  stopTime :: simtime
  linkspeed :: double
  min_cnp_interval :: simtime
  omega_min :: double
  omega_max :: double
  max_pck_size :: int

record pcn_flow = rated_flow +
  omega :: double

text \<open>\<open>recRate\<close> and \<open>ecnPakcetReceived\<close> are indeterminate in a new entry and written before they are read.\<close>

record pcn_rcv =
  intervaltime :: simtime
  lastPckTime :: simtime
  ecnPakcetReceived :: bool
  recRate :: double
  recNum :: int
  recData :: int
  ecnNum :: int
  Sender_srcAddr :: int
  Sender_destAddr :: int

record pcn = "pcn_flow sender" +
  receiver_flowMap :: "(u32, pcn_rcv) smap"

definition PCN_initialize :: pcn where
  "PCN_initialize =
     \<lparr>sender_flowMap = [], iter = None, SenderState = STOPPING, timers = (\<lambda>_. None), lastflowid = -1,
      last_creation_time = 0, srcAddr = 0, receiver_flowMap = []\<rparr>"

subsection \<open>The sending side\<close>

definition pcn_new_flow :: "pcn_cfg \<Rightarrow> hitag \<Rightarrow> dgram \<Rightarrow> pcn_flow" where
  "pcn_new_flow cfg tag pck =
     \<lparr>flowid = ht_flowid tag, remainLength = message_length tag, cretime = ht_cretime tag,
      destAddr = d_dest pck, srcPort = d_sport pck, destPort = d_dport pck, flowPriority = ht_priority tag,
      pckseq = 0, currentRate = linkspeed cfg, omega = omega_min cfg\<rparr>"

definition PCN_processUpperpck :: "pcn_cfg \<Rightarrow> simtime \<Rightarrow> dgram \<Rightarrow> pcn \<Rightarrow> (pcn \<times> cc_effect list) res" where
  "PCN_processUpperpck cfg = sender_upper (activate cfg) (pcn_new_flow cfg)"

definition PCN_send_data :: "pcn_cfg \<Rightarrow> simtime \<Rightarrow> pcn \<Rightarrow> (pcn \<times> cc_effect list) res" where
  "PCN_send_data cfg now s =
     (case iter s of
        None \<Rightarrow> Inl EndIterator
      | Some it \<Rightarrow>
        case map_get (sender_flowMap s) it of
          None \<Rightarrow> Inl EndIterator
        | Some f \<Rightarrow>
          let (pcklength, rest) = segment (max_pck_size cfg) (remainLength f);
              s1 = note_flow f s;
              packet = data_packet ''PCNData'' s1 f pcklength rest;
              s2 = advance_flow it (f\<lparr>remainLength := rest, pckseq := pckseq f + 1\<rparr>) rest s1
          in rbind (nxtSendTime now (bytes_of (p_bits packet)) (currentRate f)) (\<lambda>t.
             rbind (scheduleAt SendDataTimer now t s2) (\<lambda>s3.
               Inr (s3, [Arm SendDataTimer t, SendDown packet]))))"

text \<open>What a report does to the rate of a flow: down to below the reported rate, or up towards the line.\<close>

definition pcn_cut :: "pcn_cfg \<Rightarrow> u32 \<Rightarrow> pcn_flow \<Rightarrow> pcn_flow" where
  "pcn_cut cfg rate f =
     (let tempRecRate = of_int (uint rate) * (1 - omega_min cfg) in
      f\<lparr>currentRate := (if currentRate f > tempRecRate then tempRecRate else currentRate f),
        omega := omega_min cfg\<rparr>)"

definition pcn_raise :: "pcn_cfg \<Rightarrow> pcn_flow \<Rightarrow> pcn_flow" where
  "pcn_raise cfg f =
     f\<lparr>currentRate := currentRate f * (1 - omega f) + linkspeed cfg * omega f,
       omega := omega f * (1 - omega f) + omega_max cfg * omega f\<rparr>"

definition PCN_receive_cnp :: "pcn_cfg \<Rightarrow> dgram \<Rightarrow> pcn \<Rightarrow> (pcn \<times> cc_effect list) res" where
  "PCN_receive_cnp cfg pck s =
     rbind (last_tag (packet.truncate pck)) (\<lambda>tag.
       case map_get (sender_flowMap s) (ht_flowid tag) of
         None \<Rightarrow> Inr (s, [])
       | Some f \<Rightarrow>
           Inr (put_flow (ht_flowid tag)
                  (if d_ecn pck = 1 then pcn_cut cfg (d_recRate pck) f
                   else if d_ecn pck = 0 then pcn_raise cfg f else f) s, []))"

subsection \<open>The receiving side\<close>

definition PCN_receive_data :: "pcn_cfg \<Rightarrow> simtime \<Rightarrow> dgram \<Rightarrow> pcn \<Rightarrow> (pcn \<times> cc_effect list) res" where
  "PCN_receive_data cfg now pck s =
     rbind (last_tag (packet.truncate pck)) (\<lambda>tag.
       let k = ht_flowid tag; marked = (if d_ecn pck = 3 then 1 else 0) in
       case map_get (receiver_flowMap s) k of
         None \<Rightarrow>
           let t = now + min_cnp_interval cfg;
               r = \<lparr>intervaltime = 0, lastPckTime = now, ecnPakcetReceived = False, recRate = 0, recNum = 1,
                    recData = p_bits pck, ecnNum = marked, Sender_srcAddr = d_src pck, Sender_destAddr = d_dest pck\<rparr>
           in rbind (scheduleAt (CnpTimer k) now t s) (\<lambda>s1.
                Inr (s1\<lparr>receiver_flowMap := map_put k r (receiver_flowMap s1)\<rparr>, [Arm (CnpTimer k) t, SendUp pck]))
       | Some r \<Rightarrow>
           let r1 = r\<lparr>recNum := recNum r + 1, recData := recData r + p_bits pck,
                      intervaltime := now - lastPckTime r, lastPckTime := now, ecnNum := ecnNum r + marked\<rparr>
           in Inr (s\<lparr>receiver_flowMap := map_put k r1 (receiver_flowMap s)\<rparr>, [SendUp pck]))"

text \<open>
  The report of an interval.  The rate is measured over the interval, over the last packet gap
  when only one packet came; a quotient by a zero time is infinite and has no \<open>uint32_t\<close> value.
\<close>

definition pcn_measure :: "pcn_cfg \<Rightarrow> pcn_rcv \<Rightarrow> pcn_rcv res" where
  "pcn_measure cfg r =
     (if (of_int (ecnNum r) / of_int (recNum r) :: double) > 95 / 100 then
        (let d = (if recNum r > 1 then min_cnp_interval cfg else intervaltime r) in
         if d = 0 then Inl FloatConversion
         else Inr (r\<lparr>ecnPakcetReceived := True, recRate := of_int (recData r) / d\<rparr>))
      else Inr (r\<lparr>ecnPakcetReceived := False, recRate := 0\<rparr>))"

definition pcn_cnp :: "u32 \<Rightarrow> pcn_rcv \<Rightarrow> u32 \<Rightarrow> dgram" where
  "pcn_cnp k r rate =
     \<lparr>p_id = 0, p_name = ''CNP'', p_len = 32, p_iface = 0, p_ecn = None,
      p_tags = [\<lparr>ht_flowid = k, ht_priority = -1, ht_flowsize = 0, ht_cretime = 0, ht_packetid = 0, ht_last = False,
        ht_queueid = 0, ht_decel = False, ht_speedup = False, ht_sender_priority = -1\<rparr>],
      p_bfc = None, p_ispause = None, d_src = Sender_destAddr r, d_dest = Sender_srcAddr r, d_sport = 0, d_dport = 0,
      d_ecn = (if ecnPakcetReceived r then 1 else 0), d_recRate = rate, d_int = None, d_psd = None, d_sack = None, d_time = 0\<rparr>"

definition PCN_send_cnp :: "pcn_cfg \<Rightarrow> simtime \<Rightarrow> u32 \<Rightarrow> pcn \<Rightarrow> (pcn \<times> cc_effect list) res" where
  "PCN_send_cnp cfg now k s =
     (case map_get (receiver_flowMap s) k of
        None \<Rightarrow> Inl EndIterator
      | Some r \<Rightarrow>
          rbind (if recNum r > 0 then
                   rbind (pcn_measure cfg r) (\<lambda>r1.
                     rbind (dbl_to_u32 (recRate r1)) (\<lambda>rate. Inr (r1, [SendDown (pcn_cnp k r1 rate)])))
                 else Inr (r, [])) (\<lambda>(r1, es).
            let r2 = r1\<lparr>recNum := 0, recData := 0, ecnNum := 0\<rparr>;
                s1 = s\<lparr>receiver_flowMap := map_put k r2 (receiver_flowMap s)\<rparr>;
                t = now + min_cnp_interval cfg
            in rbind (scheduleAt (CnpTimer k) now t s1) (\<lambda>s2. Inr (s2, es @ [Arm (CnpTimer k) t]))))"

subsection \<open>The module\<close>

definition PCN_processLowerpck :: "pcn_cfg \<Rightarrow> simtime \<Rightarrow> dgram \<Rightarrow> pcn \<Rightarrow> (pcn \<times> cc_effect list) res" where
  "PCN_processLowerpck cfg now pck s =
     (if p_name pck = ''CNP'' then PCN_receive_cnp cfg pck s
      else if contains ''PCNData'' (p_name pck) then PCN_receive_data cfg now pck s
      else Inr (s, [SendUp pck]))"

fun PCN_handleSelfMessage :: "pcn_cfg \<Rightarrow> simtime \<Rightarrow> cc_timer \<Rightarrow> pcn \<Rightarrow> (pcn \<times> cc_effect list) res" where
  "PCN_handleSelfMessage cfg now SendDataTimer s =
     (if sender_flowMap s = [] \<or> now \<ge> stopTime cfg then Inr (s\<lparr>SenderState := STOPPING\<rparr>, [])
      else PCN_send_data cfg now s)"
| "PCN_handleSelfMessage cfg now (CnpTimer k) s = PCN_send_cnp cfg now k s"
| "PCN_handleSelfMessage cfg now _ s = Inr (s, [])"

fun PCN_handleMessage :: "pcn_cfg \<Rightarrow> simtime \<times> cc_op \<Rightarrow> pcn \<Rightarrow> (pcn \<times> cc_effect list) res" where
  "PCN_handleMessage cfg (now, Fire tm) s =
     (if timers s tm = None then Inr (s, [])
      else PCN_handleSelfMessage cfg now tm (s\<lparr>timers := (timers s)(tm := None)\<rparr>))"
| "PCN_handleMessage cfg (now, Upper pck) s = PCN_processUpperpck cfg now pck s"
| "PCN_handleMessage cfg (now, Lower pck) s = PCN_processLowerpck cfg now pck s"

subsection \<open>The parts of a step\<close>

lemma pcn_send_Inr:
  assumes "PCN_send_data cfg now s = Inr (s', es)"
  obtains it f len rest t where "iter s = Some it" and "map_get (sender_flowMap s) it = Some f"
    and "segment (max_pck_size cfg) (remainLength f) = (len, rest)"
    and "es = [Arm SendDataTimer t, SendDown (data_packet ''PCNData'' (note_flow f s) f len rest)]"
    and "s' = (advance_flow it (f\<lparr>remainLength := rest, pckseq := pckseq f + 1\<rparr>) rest (note_flow f s))
           \<lparr>timers := (timers s)(SendDataTimer := Some t)\<rparr>"
    and "timers s SendDataTimer = None"
proof -
  obtain it f where f: "iter s = Some it" "map_get (sender_flowMap s) it = Some f"
    using assms by (auto simp: PCN_send_data_def split: option.splits)
  obtain len rest where g: "segment (max_pck_size cfg) (remainLength f) = (len, rest)" by fastforce
  from assms f g show thesis
    by (auto simp: PCN_send_data_def Let_def rbind_eq_Inr scheduleAt_Inr intro!: that)
qed

lemma pcn_cnp_Inr:
  assumes "PCN_send_cnp cfg now k s = Inr (s', es)"
  obtains r where "map_get (receiver_flowMap s) k = Some r"
    and "sender_flowMap s' = sender_flowMap s" and "SenderState s' = SenderState s" and "iter s' = iter s"
    and "timers s' SendDataTimer = timers s SendDataTimer"
    and "sent_for ''PCNData'' j es = []"
proof -
  obtain r where r: "map_get (receiver_flowMap s) k = Some r"
    using assms by (auto simp: PCN_send_cnp_def split: option.splits)
  from assms r show thesis
    by (intro that[OF r]) (auto simp: PCN_send_cnp_def rbind_eq_Inr scheduleAt_Inr pcn_cnp_def Let_def split: if_splits)
qed

lemma pcn_lower_cases:
  assumes "PCN_processLowerpck cfg now p s = Inr (s', es)"
  obtains (same) "sender_flowMap s' = sender_flowMap s" and "SenderState s' = SenderState s" and "iter s' = iter s"
      and "timers s' SendDataTimer = timers s SendDataTimer" and "\<And>j. sent_for ''PCNData'' j es = []"
    | (cut) k f where "map_get (sender_flowMap s) k = Some f" and "s' = put_flow k (pcn_cut cfg (d_recRate p) f) s" and "es = []"
    | (raise) k f where "map_get (sender_flowMap s) k = Some f" and "s' = put_flow k (pcn_raise cfg f) s" and "es = []"
    | (keep) k f where "map_get (sender_flowMap s) k = Some f" and "s' = put_flow k f s" and "es = []"
proof (cases "p_name p = ''CNP''")
  case True
  with assms have r: "PCN_receive_cnp cfg p s = Inr (s', es)" by (simp add: PCN_processLowerpck_def)
  then obtain tag where t: "last_tag (packet.truncate p) = Inr tag" by (auto simp: PCN_receive_cnp_def rbind_eq_Inr)
  show thesis
  proof (cases "map_get (sender_flowMap s) (ht_flowid tag)")
    case None
    with r t show thesis by (intro same) (auto simp: PCN_receive_cnp_def)
  next
    case (Some f)
    with r t show thesis using cut raise keep by (auto simp: PCN_receive_cnp_def split: if_splits)
  qed
next
  case False
  with assms show thesis
    by (intro same) (auto simp: PCN_processLowerpck_def PCN_receive_data_def rbind_eq_Inr scheduleAt_Inr Let_def
        split: if_splits option.splits)
qed

subsection \<open>The sender invariant\<close>

definition pcn_cfg_ok :: "pcn_cfg \<Rightarrow> bool" where
  "pcn_cfg_ok cfg \<longleftrightarrow> 0 < linkspeed cfg \<and> 0 \<le> omega_min cfg \<and> omega_min cfg \<le> omega_max cfg \<and> omega_max cfg \<le> 1 \<and>
     0 < max_pck_size cfg"

definition pcn_flow_ok :: "pcn_cfg \<Rightarrow> u32 \<Rightarrow> pcn_flow \<Rightarrow> bool" where
  "pcn_flow_ok cfg k f \<longleftrightarrow> flowid f = k \<and> 0 \<le> remainLength f \<and> 0 \<le> currentRate f \<and> currentRate f \<le> linkspeed cfg \<and>
     omega_min cfg \<le> omega f \<and> omega f \<le> omega_max cfg"

definition pcn_inv :: "pcn_cfg \<Rightarrow> pcn \<Rightarrow> bool" where
  "pcn_inv cfg s \<longleftrightarrow> pcn_cfg_ok cfg \<and> sender_inv (pcn_flow_ok cfg) s"

lemma pcn_flow_ok_cut: "pcn_cfg_ok cfg \<Longrightarrow> pcn_flow_ok cfg k f \<Longrightarrow> pcn_flow_ok cfg k (pcn_cut cfg w f)"
  by (auto simp: pcn_flow_ok_def pcn_cfg_ok_def pcn_cut_def Let_def intro!: mult_nonneg_nonneg)

text \<open>The gap to the line speed shrinks by the factor \<open>1 - omega\<close>, and \<open>omega\<close> grows towards its maximum.\<close>

lemma pcn_raise_gap: "linkspeed cfg - currentRate (pcn_raise cfg f) = (1 - omega f) * (linkspeed cfg - currentRate f)"
  by (simp add: pcn_raise_def algebra_simps)

lemma pcn_flow_ok_raise:
  assumes "pcn_cfg_ok cfg" and "pcn_flow_ok cfg k f"
  shows "pcn_flow_ok cfg k (pcn_raise cfg f) \<and> currentRate f \<le> currentRate (pcn_raise cfg f) \<and> omega f \<le> omega (pcn_raise cfg f)"
proof -
  from assms have o: "0 \<le> omega f" "omega f \<le> omega_max cfg" "omega_max cfg \<le> 1" "omega_min cfg \<le> omega f"
    and r: "0 \<le> currentRate f" "currentRate f \<le> linkspeed cfg" by (auto simp: pcn_cfg_ok_def pcn_flow_ok_def)
  have gap: "0 \<le> (1 - omega f) * (linkspeed cfg - currentRate f)" using o r by simp
  have up: "(1 - omega f) * (linkspeed cfg - currentRate f) \<le> 1 * (linkspeed cfg - currentRate f)"
    using o r by (intro mult_right_mono) auto
  have w: "omega (pcn_raise cfg f) = omega f + omega f * (omega_max cfg - omega f)"
    by (simp add: pcn_raise_def algebra_simps)
  have "omega f * (omega_max cfg - omega f) \<le> 1 * (omega_max cfg - omega f)" using o by (intro mult_right_mono) auto
  moreover have "0 \<le> omega f * (omega_max cfg - omega f)" using o by simp
  moreover have "flowid (pcn_raise cfg f) = flowid f" "remainLength (pcn_raise cfg f) = remainLength f"
    by (simp_all add: pcn_raise_def)
  ultimately show ?thesis using pcn_raise_gap[of cfg f] gap up w assms(2) o r
    unfolding pcn_flow_ok_def by (intro conjI; (linarith | simp))
qed

lemma pcn_send_inv:
  assumes "PCN_send_data cfg now (s\<lparr>timers := (timers s)(SendDataTimer := None)\<rparr>) = Inr (s', es)"
    and "pcn_inv cfg s" and "timers s SendDataTimer \<noteq> None"
  shows "pcn_inv cfg s'"
  using assms(1)
proof (rule pcn_send_Inr)
  let ?s = "s\<lparr>timers := (timers s)(SendDataTimer := None)\<rparr>"
  fix it f len rest t
  assume f: "map_get (sender_flowMap ?s) it = Some f"
    and seg: "segment (max_pck_size cfg) (remainLength f) = (len, rest)"
    and s': "s' = (advance_flow it (f\<lparr>remainLength := rest, pckseq := pckseq f + 1\<rparr>) rest (note_flow f ?s))
           \<lparr>timers := (timers ?s)(SendDataTimer := Some t)\<rparr>"
  have i: "sender_inv (pcn_flow_ok cfg) s" and c: "pcn_cfg_ok cfg" using assms(2) by (simp_all add: pcn_inv_def)
  have ok: "pcn_flow_ok cfg it f" using sender_inv_entry[OF i] f by simp
  have "0 \<le> remainLength f" "0 < max_pck_size cfg" using ok c by (auto simp: pcn_flow_ok_def pcn_cfg_ok_def)
  with segment_delivers[OF seg] have "0 \<le> rest" by simp
  with ok have g: "pcn_flow_ok cfg it (f\<lparr>remainLength := rest, pckseq := pckseq f + 1\<rparr>)" and k: "flowid f = it"
    by (auto simp: pcn_flow_ok_def)
  have "sender_inv (pcn_flow_ok cfg) (s\<lparr>timers := (timers s)(SendDataTimer := Some t)\<rparr>)"
    using i assms(3) by (simp add: sender_inv_def)
  then have "sender_inv (pcn_flow_ok cfg) (note_flow f (s\<lparr>timers := (timers s)(SendDataTimer := Some t)\<rparr>))" by simp
  from advance_inv[OF this, of "f\<lparr>remainLength := rest, pckseq := pckseq f + 1\<rparr>" it rest] g k
  have "sender_inv (pcn_flow_ok cfg) (advance_flow it (f\<lparr>remainLength := rest, pckseq := pckseq f + 1\<rparr>) rest
    (note_flow f (s\<lparr>timers := (timers s)(SendDataTimer := Some t)\<rparr>)))" by simp
  then have "sender_inv (pcn_flow_ok cfg) s'"
    by (rule iffD1[OF sender_inv_cong, rotated 3]) (simp_all add: s' k advance_map)
  then show ?thesis using c by (simp add: pcn_inv_def)
qed

lemma pcn_upper_inv:
  assumes "PCN_processUpperpck cfg now p s = Inr (s', es)" and "pcn_inv cfg s"
  shows "pcn_inv cfg s'"
proof -
  have c: "pcn_cfg_ok cfg" "sender_inv (pcn_flow_ok cfg) s" using assms(2) by (simp_all add: pcn_inv_def)
  then have "pcn_flow_ok cfg (ht_flowid tg) (pcn_new_flow cfg tg p)" for tg
    by (auto simp: pcn_flow_ok_def pcn_new_flow_def pcn_cfg_ok_def)
  with sender_upper_inv[OF assms(1)[unfolded PCN_processUpperpck_def] c(2)] c(1) show ?thesis by (simp add: pcn_inv_def)
qed

lemma pcn_lower_inv:
  assumes "PCN_processLowerpck cfg now p s = Inr (s', es)" and "pcn_inv cfg s"
  shows "pcn_inv cfg s'"
proof -
  have c: "pcn_cfg_ok cfg" and i: "sender_inv (pcn_flow_ok cfg) s" using assms(2) by (simp_all add: pcn_inv_def)
  note entry = sender_inv_entry[OF i]
  from assms(1) show ?thesis
  proof (cases rule: pcn_lower_cases)
    case same
    with i c show ?thesis by (simp add: pcn_inv_def sender_inv_def)
  next
    case (cut k f)
    with c sender_inv_put[OF i pcn_flow_ok_cut[OF c entry]] show ?thesis by (simp add: pcn_inv_def)
  next
    case (raise k f)
    with c sender_inv_put[OF i] pcn_flow_ok_raise[OF c entry] show ?thesis by (simp add: pcn_inv_def)
  next
    case (keep k f)
    with c sender_inv_put[OF i entry] show ?thesis by (simp add: pcn_inv_def)
  qed
qed

lemma pcn_step_inv:
  assumes "PCN_handleMessage cfg x s = Inr (s', es)" and "pcn_inv cfg s"
  shows "pcn_inv cfg s'"
proof -
  obtain now e where x: "x = (now, e)" by (cases x)
  show ?thesis
  proof (cases e)
    case (Upper p)
    with assms x pcn_upper_inv show ?thesis by simp
  next
    case (Lower p)
    with assms x pcn_lower_inv show ?thesis by simp
  next
    case (Fire tm)
    show ?thesis
    proof (cases "timers s tm")
      case None
      with assms x Fire show ?thesis by simp
    next
      case (Some t)
      let ?s = "s\<lparr>timers := (timers s)(tm := None)\<rparr>"
      have h: "PCN_handleSelfMessage cfg now tm ?s = Inr (s', es)" using assms(1) x Fire Some by simp
      show ?thesis
      proof (cases tm)
        case SendDataTimer
        show ?thesis
        proof (cases "sender_flowMap s = [] \<or> now \<ge> stopTime cfg")
          case True
          with h SendDataTimer have "s' = ?s\<lparr>SenderState := STOPPING\<rparr>" by auto
          with assms(2) SendDataTimer show ?thesis by (auto simp: pcn_inv_def sender_inv_def)
        next
          case False
          with h SendDataTimer have "PCN_send_data cfg now ?s = Inr (s', es)" by auto
          with assms(2) Some SendDataTimer show ?thesis by (auto intro: pcn_send_inv)
        qed
      next
        case (CnpTimer k)
        with h have "PCN_send_cnp cfg now k ?s = Inr (s', es)" by simp
        then show ?thesis by (rule pcn_cnp_Inr) (use assms(2) CnpTimer in \<open>simp add: pcn_inv_def sender_inv_def\<close>)
      qed (use h assms(2) in \<open>auto simp: pcn_inv_def sender_inv_def\<close>)
    qed
  qed
qed

interpretation pcn_sender: machine "PCN_handleMessage cfg" "pcn_inv cfg" "\<lambda>_. True" for cfg
  by unfold_locales (rule pcn_step_inv)

lemma pcn_init_inv: "pcn_cfg_ok cfg \<Longrightarrow> pcn_inv cfg PCN_initialize"
  by (simp add: pcn_inv_def sender_inv_def PCN_initialize_def)

subsection \<open>Segmentation\<close>

lemma pcn_data_prefix: "starts_with ''PCNData'' n \<Longrightarrow> contains ''Data'' n"
proof -
  assume "starts_with ''PCNData'' n"
  then obtain t where "n = ''PCN'' @ ''Data'' @ t" by (auto simp: starts_with_append)
  then show ?thesis by (simp only: contains_append) blast
qed

lemma put_left:
  assumes "map_get (sender_flowMap s) k = Some f" and "remainLength g = remainLength f" and "pckseq g = pckseq f"
  shows "left_of j (put_flow k g s) = left_of j s"
  by (rule left_put[OF assms(1) _ assms(2,3)]) simp

lemma pcn_lower_delivers:
  assumes "PCN_processLowerpck cfg now p s = Inr (s', es)"
  shows "sent_for ''PCNData'' j es = [] \<and> left_of j s' = left_of j s"
  using assms
proof (cases rule: pcn_lower_cases)
  case same
  then show ?thesis by (simp add: left_of_def)
next
  case (cut k f)
  then show ?thesis by (simp add: put_left pcn_cut_def Let_def)
next
  case (raise k f)
  then show ?thesis by (simp add: put_left pcn_raise_def)
next
  case (keep k f)
  then show ?thesis by (simp add: put_left)
qed

lemma pcn_step_delivers:
  assumes "PCN_handleMessage cfg x s = Inr (s', es)" and "pcn_inv cfg s" and "activate cfg"
    and "new_flow (activate cfg) x \<noteq> Some j"
  shows "delivers (sent_for ''PCNData'' j es) (left_of j s) (left_of j s')"
proof -
  obtain now e where x: "x = (now, e)" by (cases x)
  show ?thesis
  proof (cases e)
    case (Upper p)
    with assms x have "sender_upper (activate cfg) (pcn_new_flow cfg) now p s = Inr (s', es)"
      by (simp add: PCN_processUpperpck_def)
    from sender_upper_delivers[OF this assms(3), of j "''PCNData''"] assms(4) x Upper pcn_data_prefix show ?thesis by simp
  next
    case (Lower p)
    with assms x pcn_lower_delivers show ?thesis by simp
  next
    case (Fire tm)
    let ?s = "s\<lparr>timers := (timers s)(tm := None)\<rparr>"
    have l: "left_of j ?s = left_of j s" by (simp add: left_of_def)
    show ?thesis
    proof (cases "timers s tm = None \<or> tm = SendDataTimer \<and> (sender_flowMap s = [] \<or> now \<ge> stopTime cfg)")
      case True
      with assms(1) x Fire show ?thesis by (auto simp: left_of_def split: if_splits)
    next
      case False
      then have h: "PCN_handleSelfMessage cfg now tm ?s = Inr (s', es)" using assms(1) x Fire by auto
      show ?thesis
      proof (cases tm)
        case SendDataTimer
        with h False have "PCN_send_data cfg now ?s = Inr (s', es)" by auto
        then show ?thesis
        proof (rule pcn_send_Inr)
          fix it f len rest t
          assume a: "map_get (sender_flowMap ?s) it = Some f" "segment (max_pck_size cfg) (remainLength f) = (len, rest)"
            "es = [Arm SendDataTimer t, SendDown (data_packet ''PCNData'' (note_flow f ?s) f len rest)]"
            "s' = (advance_flow it (f\<lparr>remainLength := rest, pckseq := pckseq f + 1\<rparr>) rest (note_flow f ?s))
              \<lparr>timers := (timers ?s)(SendDataTimer := Some t)\<rparr>"
          have ok: "flowid f = it" "0 \<le> remainLength f" "wf_map (sender_flowMap s)" "0 < max_pck_size cfg"
            using assms(2) a(1) by (auto simp: pcn_inv_def pcn_cfg_ok_def sender_inv_def pcn_flow_ok_def)
          have m: "map_get (sender_flowMap s) it = Some f" using a(1) by simp
          show ?thesis unfolding a(3)
            by (rule advance_delivers[OF ok(3) m ok(1) a(2) ok(2) ok(4)]) (simp add: a(4) advance_map ok(1))
        qed
      next
        case (CnpTimer k)
        with h have "PCN_send_cnp cfg now k ?s = Inr (s', es)" by simp
        then show ?thesis by (rule pcn_cnp_Inr[where j = j]) (simp add: left_of_def)
      qed (use h l in auto)
    qed
  qed
qed

interpretation pcn_segments: segmenting_sender
    "PCN_handleMessage cfg" "pcn_inv cfg" "\<lambda>_. activate cfg" "sent_for ''PCNData''" left_of
    "\<lambda>f x. new_flow (activate cfg) x = Some f" for cfg
  by unfold_locales (auto intro: pcn_step_inv pcn_step_delivers simp: sent_for_append)

subsection \<open>Reports\<close>

text \<open>Marked packets of one flow at a receiver that knows the flow: they are counted and passed up.\<close>

definition marked_for :: "u32 \<Rightarrow> dgram \<Rightarrow> bool" where
  "marked_for k p \<longleftrightarrow> contains ''PCNData'' (p_name p) \<and> p_tags p \<noteq> [] \<and> ht_flowid (last (p_tags p)) = k \<and> d_ecn p = 3"

abbreviation arrivals :: "(simtime \<times> dgram) list \<Rightarrow> (simtime \<times> cc_op) list" where
  "arrivals ps \<equiv> map (\<lambda>(t, p). (t, Lower p)) ps"

abbreviation bits_of :: "(simtime \<times> dgram) list \<Rightarrow> int" where
  "bits_of ps \<equiv> sum_list (map (\<lambda>(t, p). p_bits p) ps)"

lemma marked_name: "marked_for k p \<Longrightarrow> p_name p \<noteq> ''CNP''"
  by (auto simp: marked_for_def)

lemma marked_run:
  assumes "map_get (receiver_flowMap s) k = Some r" and "\<forall>(t, p) \<in> set ps. marked_for k p"
  shows "\<exists>s' r'. run_out (PCN_handleMessage cfg) (arrivals ps) s = Inr (s', map (\<lambda>(t, p). SendUp p) ps) \<and>
     map_get (receiver_flowMap s') k = Some r' \<and> timers s' = timers s \<and> recNum r' = recNum r + int (length ps) \<and>
     ecnNum r' = ecnNum r + int (length ps) \<and> recData r' = recData r + bits_of ps"
  using assms
proof (induction ps arbitrary: s r)
  case Nil
  then show ?case by simp
next
  case (Cons x ps)
  obtain t p where x: "x = (t, p)" by (cases x)
  have m: "marked_for k p" using Cons.prems(2) x by simp
  let ?r = "r\<lparr>recNum := recNum r + 1, recData := recData r + p_bits p, intervaltime := t - lastPckTime r,
    lastPckTime := t, ecnNum := ecnNum r + 1\<rparr>"
  let ?s = "s\<lparr>receiver_flowMap := map_put k ?r (receiver_flowMap s)\<rparr>"
  have "PCN_handleMessage cfg (t, Lower p) s = Inr (?s, [SendUp p])"
    using m marked_name[OF m] Cons.prems(1)
    by (simp add: PCN_processLowerpck_def PCN_receive_data_def marked_for_def tag_of_truncate Let_def)
  moreover have "map_get (receiver_flowMap ?s) k = Some ?r" by (simp add: get_put)
  note Cons.IH[OF this]
  ultimately show ?case using Cons.prems(2) x by fastforce
qed

lemma marked_first:
  assumes "map_get (receiver_flowMap s) k = None" and "marked_for k p" and "timers s (CnpTimer k) = None"
    and "0 \<le> min_cnp_interval cfg"
  shows "\<exists>s' r. PCN_handleMessage cfg (t, Lower p) s = Inr (s', [Arm (CnpTimer k) (t + min_cnp_interval cfg), SendUp p]) \<and>
     map_get (receiver_flowMap s') k = Some r \<and> timers s' (CnpTimer k) \<noteq> None \<and>
     recNum r = 1 \<and> ecnNum r = 1 \<and> recData r = p_bits p \<and> intervaltime r = 0"
  using assms marked_name[OF assms(2)]
  by (simp add: PCN_processLowerpck_def PCN_receive_data_def marked_for_def tag_of_truncate Let_def scheduleAt_def get_put)

text \<open>The report of a fully marked interval with at least two packets.\<close>

lemma report_rate:
  assumes "map_get (receiver_flowMap s) k = Some r" and "timers s (CnpTimer k) \<noteq> None" and "1 < recNum r"
    and "ecnNum r = recNum r" and "0 < min_cnp_interval cfg" and "0 \<le> recData r"
    and "of_int (recData r) / min_cnp_interval cfg < 2 ^ 32"
  shows "\<exists>s' r' w. PCN_handleMessage cfg (t, Fire (CnpTimer k)) s =
       Inr (s', [SendDown (pcn_cnp k r' w), Arm (CnpTimer k) (t + min_cnp_interval cfg)]) \<and>
     ecnPakcetReceived r' \<and> of_int (uint w) \<le> of_int (recData r) / min_cnp_interval cfg"
proof -
  let ?x = "of_int (recData r) / min_cnp_interval cfg"
  have "0 \<le> ?x" using assms(5,6) by simp
  from dbl_to_u32_uint[OF this assms(7)] obtain w where w: "dbl_to_u32 ?x = Inr w" "uint w = \<lfloor>?x\<rfloor>" by blast
  have q: "(of_int (ecnNum r) / of_int (recNum r) :: real) = 1" using assms(3,4) by simp
  have m: "pcn_measure cfg r = Inr (r\<lparr>ecnPakcetReceived := True, recRate := ?x\<rparr>)"
    unfolding pcn_measure_def q using assms(3,5) by simp
  have "of_int (uint w) \<le> ?x" unfolding w(2) by (rule of_int_floor_le)
  then show ?thesis
    using assms(1,2,3,5) w(1)
    by (simp add: PCN_send_cnp_def m scheduleAt_def Let_def)
      (rule exI[of _ "r\<lparr>ecnPakcetReceived := True, recRate := ?x\<rparr>"], rule exI[of _ w], simp)
qed

lemma report_fails:
  assumes "map_get (receiver_flowMap s) k = Some r" and "timers s (CnpTimer k) \<noteq> None" and "0 < recNum r"
    and "ecnNum r = recNum r" and "0 < min_cnp_interval cfg"
    and "recNum r = 1 \<and> intervaltime r = 0 \<or> 1 < recNum r \<and> 2 ^ 32 * min_cnp_interval cfg \<le> of_int (recData r)"
  shows "PCN_handleMessage cfg (t, Fire (CnpTimer k)) s = Inl FloatConversion"
proof -
  have q: "(of_int (ecnNum r) / of_int (recNum r) :: real) = 1" using assms(3,4) by simp
  have "2 ^ 32 * min_cnp_interval cfg \<le> of_int (recData r) \<Longrightarrow> \<not> of_int (recData r) / min_cnp_interval cfg < 2 ^ 32"
    using assms(5) by (simp add: divide_less_eq)
  then have "rbind (pcn_measure cfg r) (\<lambda>r1. rbind (dbl_to_u32 (recRate r1)) (f r1)) = Inl FloatConversion" for f :: "pcn_rcv \<Rightarrow> u32 \<Rightarrow> (pcn_rcv \<times> cc_effect list) res"
    unfolding pcn_measure_def q using assms(5,6) by (auto simp: dbl_to_u32_def)
  then show ?thesis using assms(1,2,3) by (auto simp: PCN_send_cnp_def)
qed

subsection \<open>Properties\<close>

definition sample_pcn :: pcn_cfg where
  "sample_pcn = \<lparr>activate = True, stopTime = 1000, linkspeed = 100, min_cnp_interval = 2, omega_min = 1/4,
     omega_max = 1/2, max_pck_size = 1000\<rparr>"

definition sample_flow_request :: dgram where
  "sample_flow_request = \<lparr>p_id = 1, p_name = ''AppData'', p_len = 64, p_iface = 0, p_ecn = None,
     p_tags = [\<lparr>ht_flowid = 5, ht_priority = 2, ht_flowsize = 700, ht_cretime = 0, ht_packetid = 0, ht_last = False,
        ht_queueid = 0, ht_decel = False, ht_speedup = False, ht_sender_priority = -1\<rparr>],
     p_bfc = None, p_ispause = None, d_src = 1, d_dest = 2, d_sport = 10, d_dport = 20, d_ecn = 0,
     d_recRate = 0, d_int = None, d_psd = None, d_sack = None, d_time = 0\<rparr>"

definition sample_marked :: dgram where
  "sample_marked = sample_flow_request\<lparr>p_name := ''PCNData-5-0'', p_len := 80, d_ecn := 3\<rparr>"

definition sample_report :: "int \<Rightarrow> dgram" where
  "sample_report e = sample_flow_request\<lparr>p_name := ''CNP'', d_ecn := e, d_recRate := 40\<rparr>"

lemma sample_pcn_ok: "pcn_cfg_ok sample_pcn"
  by (simp add: pcn_cfg_ok_def sample_pcn_def)

lemma sample_marked_for: "marked_for 5 sample_marked"
  by (simp add: marked_for_def sample_marked_def sample_flow_request_def)

lemmas pcn_eval = sample_pcn_def sample_flow_request_def PCN_initialize_def PCN_processUpperpck_def sender_upper_def
  message_length_def pcn_new_flow_def packet.truncate_def last_tag_def store_flow_def scheduleAt_def Let_def
  PCN_send_data_def segment_def note_flow_def data_packet_def bytes_of_def nxtSendTime_def advance_flow_def finish_flow_def

lemma sample_pcn_started:
  "\<exists>s es f. run_out (PCN_handleMessage sample_pcn) [(0, Upper sample_flow_request)] PCN_initialize = Inr (s, es) \<and>
     map_get (sender_flowMap s) 5 = Some f \<and> currentRate f = 100"
  by (simp add: pcn_eval)

text \<open>Rates stay sane.  In every state PCN can reach, the rate of each flow lies between zero and the
  link speed, and its recovery weight between its two bounds.\<close>

theorem pcn_rates_bounded:
  assumes "pcn_cfg_ok cfg" and "run_out (PCN_handleMessage cfg) xs PCN_initialize = Inr (s, es)"
    and "map_get (sender_flowMap s) k = Some f"
  shows "0 \<le> currentRate f \<and> currentRate f \<le> linkspeed cfg \<and> omega_min cfg \<le> omega f \<and> omega f \<le> omega_max cfg"
proof -
  from pcn_sender.inv_run[OF pcn_init_inv[OF assms(1)] _ assms(2)] have "sender_inv (pcn_flow_ok cfg) s"
    by (simp add: pcn_inv_def)
  from sender_inv_entry[OF this assms(3)] show ?thesis by (simp add: pcn_flow_ok_def)
qed

theorem pcn_rates_bounded_witness:
  "\<exists>s es f. run_out (PCN_handleMessage sample_pcn) [(0, Upper sample_flow_request)] PCN_initialize = Inr (s, es) \<and>
     map_get (sender_flowMap s) 5 = Some f \<and> currentRate f \<le> 100"
proof -
  from sample_pcn_started obtain s es f
    where r: "run_out (PCN_handleMessage sample_pcn) [(0, Upper sample_flow_request)] PCN_initialize = Inr (s, es)"
    and f: "map_get (sender_flowMap s) 5 = Some f" by blast
  from pcn_rates_bounded[OF sample_pcn_ok r f] r f show ?thesis by (auto simp: sample_pcn_def)
qed

text \<open>Recovery is geometric.  From any reachable state, \<open>n\<close> reports without congestion never lower the
  rate of the flow and close the gap to the link speed at least by the factor
  \<open>(1 - omega_min) ^ n\<close>, whenever they come.\<close>

theorem pcn_recovers:
  assumes "pcn_cfg_ok cfg" and "run_out (PCN_handleMessage cfg) xs PCN_initialize = Inr (s0, es0)"
    and "map_get (sender_flowMap s0) k = Some f0"
    and "\<forall>(t, p) \<in> set ys. p_name p = ''CNP'' \<and> p_tags p \<noteq> [] \<and> ht_flowid (last (p_tags p)) = k \<and> d_ecn p = 0"
  shows "\<exists>s f. run_out (PCN_handleMessage cfg) (arrivals ys) s0 = Inr (s, []) \<and> map_get (sender_flowMap s) k = Some f \<and>
     currentRate f0 \<le> currentRate f \<and>
     linkspeed cfg - currentRate f \<le> (1 - omega_min cfg) ^ length ys * (linkspeed cfg - currentRate f0)"
proof -
  have "pcn_inv cfg s0" using pcn_sender.inv_run[OF pcn_init_inv[OF assms(1)] _ assms(2)] by simp
  then show ?thesis using assms(3,4)
  proof (induction ys arbitrary: s0 f0)
    case Nil
    then show ?case by auto
  next
    case (Cons y ys)
    obtain t p where y: "y = (t, p)" by (cases y)
    let ?f = "pcn_raise cfg f0" and ?s = "put_flow k (pcn_raise cfg f0) s0"
    have c: "pcn_cfg_ok cfg" "pcn_flow_ok cfg k f0" using Cons.prems(1,2) by (auto simp: pcn_inv_def dest: sender_inv_entry)
    note up = pcn_flow_ok_raise[OF c]
    have step: "PCN_handleMessage cfg (t, Lower p) s0 = Inr (?s, [])"
      using Cons.prems(2,3) y by (auto simp: PCN_processLowerpck_def PCN_receive_cnp_def tag_of_truncate)
    have i: "pcn_inv cfg ?s" using step Cons.prems(1) by (rule pcn_step_inv)
    have m: "map_get (sender_flowMap ?s) k = Some ?f" by (simp add: get_put)
    from Cons.IH[OF i m] Cons.prems(3) obtain s f where
      r: "run_out (PCN_handleMessage cfg) (arrivals ys) ?s = Inr (s, [])" "map_get (sender_flowMap s) k = Some f"
      and g: "currentRate ?f \<le> currentRate f"
        "linkspeed cfg - currentRate f \<le> (1 - omega_min cfg) ^ length ys * (linkspeed cfg - currentRate ?f)" by auto
    have "(1 - omega f0) * (linkspeed cfg - currentRate f0) \<le> (1 - omega_min cfg) * (linkspeed cfg - currentRate f0)"
      using c by (intro mult_right_mono) (auto simp: pcn_flow_ok_def)
    moreover have "0 \<le> (1 - omega_min cfg) ^ length ys" using c(1) by (simp add: pcn_cfg_ok_def)
    ultimately have "(1 - omega_min cfg) ^ length ys * ((1 - omega f0) * (linkspeed cfg - currentRate f0)) \<le>
        (1 - omega_min cfg) ^ length ys * ((1 - omega_min cfg) * (linkspeed cfg - currentRate f0))"
      by (rule mult_left_mono)
    then have "(1 - omega_min cfg) ^ length ys * (linkspeed cfg - currentRate ?f) \<le>
        (1 - omega_min cfg) ^ length (y # ys) * (linkspeed cfg - currentRate f0)"
      unfolding pcn_raise_gap by (simp only: list.size power_Suc power_add power_0 power_one_right mult_ac add_0_right)
    with g up r step y show ?case by auto
  qed
qed

theorem pcn_recovers_witness:
  "\<exists>s0 s f. run_out (PCN_handleMessage sample_pcn) [(7, Lower (sample_report 0)), (9, Lower (sample_report 0))] s0 =
     Inr (s, []) \<and> map_get (sender_flowMap s) 5 = Some f \<and> 100 \<le> currentRate f"
proof -
  from sample_pcn_started obtain s0 es f0
    where r: "run_out (PCN_handleMessage sample_pcn) [(0, Upper sample_flow_request)] PCN_initialize = Inr (s0, es)"
    and f: "map_get (sender_flowMap s0) 5 = Some f0" "currentRate f0 = 100" by blast
  from pcn_recovers[OF sample_pcn_ok r f(1), of "[(7, sample_report 0), (9, sample_report 0)]"] f(2) show ?thesis
    by (auto simp: sample_report_def sample_flow_request_def)
qed

text \<open>A report that asks for more of flow \<open>k\<close>; without one, and without the flow starting anew, its rate stays below any
  bound it has.\<close>

fun speeds_up :: "u32 \<Rightarrow> simtime \<times> cc_op \<Rightarrow> bool" where
  "speeds_up k (now, Lower p) \<longleftrightarrow> p_name p = ''CNP'' \<and> ht_flowid (last (p_tags p)) = k \<and> d_ecn p = 0"
| "speeds_up k (now, _) \<longleftrightarrow> False"

definition rate_at_most :: "u32 \<Rightarrow> double \<Rightarrow> pcn \<Rightarrow> bool" where
  "rate_at_most k b s \<longleftrightarrow> (\<forall>f. map_get (sender_flowMap s) k = Some f \<longrightarrow> currentRate f \<le> b)"

lemma rate_at_most_cong: "sender_flowMap s = sender_flowMap t \<Longrightarrow> rate_at_most k b s = rate_at_most k b t"
  by (simp add: rate_at_most_def)

lemma cut_lowers: "currentRate (pcn_cut cfg w f) \<le> currentRate f"
  by (simp add: pcn_cut_def Let_def)

lemma pcn_lower_limit:
  assumes "PCN_processLowerpck cfg now p s = Inr (s', es)" and "rate_at_most k b s" and "\<not> speeds_up k (now, Lower p)"
  shows "rate_at_most k b s'"
proof (cases "p_name p = ''CNP''")
  case True
  with assms(1) have r: "PCN_receive_cnp cfg p s = Inr (s', es)" by (simp add: PCN_processLowerpck_def)
  then have t: "last_tag (packet.truncate p) = Inr (last (p_tags p))"
    by (auto simp: PCN_receive_cnp_def rbind_eq_Inr last_tag_def packet.truncate_def split: if_splits)
  show ?thesis
    using r t assms(2,3) True
    by (auto simp: PCN_receive_cnp_def rate_at_most_def get_put intro: order_trans[OF cut_lowers] split: option.splits if_splits)
next
  case False
  from assms(1) show ?thesis
  proof (cases rule: pcn_lower_cases)
    case same
    with assms(2) show ?thesis by (simp add: rate_at_most_def)
  qed (use assms(1) False in \<open>auto simp: PCN_processLowerpck_def PCN_receive_data_def rbind_eq_Inr scheduleAt_Inr Let_def
      split: if_splits option.splits\<close>)
qed

lemma pcn_send_limit:
  assumes "PCN_send_data cfg now s = Inr (s', es)" and "sender_inv (pcn_flow_ok cfg) s0" and "sender_flowMap s = sender_flowMap s0"
    and "rate_at_most k b s"
  shows "rate_at_most k b s'"
  using assms(1)
proof (rule pcn_send_Inr)
  fix it f len rest t
  assume f: "map_get (sender_flowMap s) it = Some f"
    and s': "s' = (advance_flow it (f\<lparr>remainLength := rest, pckseq := pckseq f + 1\<rparr>) rest (note_flow f s))
           \<lparr>timers := (timers s)(SendDataTimer := Some t)\<rparr>"
  have w: "wf_map (sender_flowMap s)" using assms(2,3) by (simp add: sender_inv_def)
  have k: "flowid f = it" using sender_inv_entry[OF assms(2)] f assms(3) by (auto simp: pcn_flow_ok_def)
  have m: "sender_flowMap s' = (if rest = 0 then map_erase it (sender_flowMap s)
      else map_put it (f\<lparr>remainLength := rest, pckseq := pckseq f + 1\<rparr>) (sender_flowMap s))"
    by (simp add: s' advance_map k)
  show ?thesis using assms(4) f by (auto simp: rate_at_most_def m get_put get_erase[OF w])
qed

lemma pcn_step_limit:
  assumes "PCN_handleMessage cfg x s = Inr (s', es)" and "pcn_inv cfg s" and "rate_at_most k b s"
    and "\<not> speeds_up k x" and "new_flow (activate cfg) x \<noteq> Some k"
  shows "rate_at_most k b s'"
proof -
  obtain now e where x: "x = (now, e)" by (cases x)
  show ?thesis
  proof (cases e)
    case (Lower p)
    with assms(1,3,4) x show ?thesis by (auto intro: pcn_lower_limit)
  next
    case (Upper p)
    with assms(1) x have "sender_upper (activate cfg) (pcn_new_flow cfg) now p s = Inr (s', es)" by (simp add: PCN_processUpperpck_def)
    then show ?thesis
    proof (cases rule: sender_upper_cases)
      case pass
      with assms(3) show ?thesis by simp
    next
      case (data j s1)
      with assms(5) x Upper have "j \<noteq> k" by auto
      then have "rate_at_most k b s1" using assms(3) unfolding data(5) by (auto simp: rate_at_most_def get_put)
      with data(6) show ?thesis by (auto simp: rate_at_most_def split: if_splits)
    qed
  next
    case (Fire tm)
    let ?s = "s\<lparr>timers := (timers s)(tm := None)\<rparr>"
    have r: "rate_at_most k b ?s" using assms(3) by (simp add: rate_at_most_def)
    have i: "sender_inv (pcn_flow_ok cfg) s" using assms(2) by (simp add: pcn_inv_def)
    show ?thesis
    proof (cases "timers s tm = None")
      case True
      with assms(1,3) x Fire show ?thesis by simp
    next
      case False
      with assms(1) x Fire have h: "PCN_handleSelfMessage cfg now tm ?s = Inr (s', es)" by simp
      show ?thesis
      proof (cases tm)
        case SendDataTimer
        show ?thesis
        proof (cases "sender_flowMap s = [] \<or> stopTime cfg \<le> now")
          case True
          with h SendDataTimer r show ?thesis by (auto simp: rate_at_most_def)
        next
          case False
          with h SendDataTimer have "PCN_send_data cfg now ?s = Inr (s', es)" by simp
          from pcn_send_limit[OF this i _ r] show ?thesis by simp
        qed
      next
        case (CnpTimer j)
        with h have "PCN_send_cnp cfg now j ?s = Inr (s', es)" by simp
        then show ?thesis by (rule pcn_cnp_Inr) (use r in \<open>simp add: rate_at_most_def\<close>)
      qed (use h r in auto)
    qed
  qed
qed

interpretation pcn_limited: machine "PCN_handleMessage cfg" "\<lambda>s. pcn_inv cfg s \<and> rate_at_most k b s"
  "\<lambda>x. \<not> speeds_up k x \<and> new_flow (activate cfg) x \<noteq> Some k" for cfg k b
  by unfold_locales (auto intro: pcn_step_inv pcn_step_limit)

text \<open>C35: The loop through receiver and sender.  A receiver that got two or more packets of a flow in an
  interval, all marked and at less than 2^32 bits per second, reports once; the sender that gets this report, whatever it
  has done before, sends the flow from then on at most at \<open>1 - omega_min\<close> times the rate the receiver received it at in that
  interval: the rate is at most that after the report and stays so in every further run, until a report for the flow asks
  for more (one with \<open>ecn\<close> 0) or the application asks for the flow anew.  The parameters are sane (\<open>pcn_cfg_ok\<close>).\<close>

theorem pcn_closed_loop:
  assumes "map_get (receiver_flowMap rcv) k = Some r" and "timers rcv (CnpTimer k) \<noteq> None"
    and "recNum r = 0" and "ecnNum r = 0" and "recData r = 0" and "0 < min_cnp_interval cfg"
    and "\<forall>(t, p) \<in> set ps. marked_for k p" and "2 \<le> length ps"
    and "of_int (bits_of ps) / min_cnp_interval cfg < 2 ^ 32"
    and "pcn_cfg_ok cfg" and "run_out (PCN_handleMessage cfg) xs PCN_initialize = Inr (sdr, es0)"
    and "map_get (sender_flowMap sdr) k = Some f"
  shows "\<exists>rcv' cnp sdr' f'.
     run_out (PCN_handleMessage cfg) (arrivals ps @ [(t, Fire (CnpTimer k))]) rcv =
       Inr (rcv', map (\<lambda>(t, p). SendUp p) ps @ [SendDown cnp, Arm (CnpTimer k) (t + min_cnp_interval cfg)]) \<and>
     PCN_handleMessage cfg (t', Lower cnp) sdr = Inr (sdr', []) \<and> map_get (sender_flowMap sdr') k = Some f' \<and>
     currentRate f' \<le> (1 - omega_min cfg) * (of_int (bits_of ps) / min_cnp_interval cfg) \<and>
     (\<forall>ys s2 es2 f2. (\<forall>y\<in>set ys. \<not> speeds_up k y \<and> new_flow (activate cfg) y \<noteq> Some k) \<and>
        run_out (PCN_handleMessage cfg) ys sdr' = Inr (s2, es2) \<and> map_get (sender_flowMap s2) k = Some f2 \<longrightarrow>
        currentRate f2 \<le> (1 - omega_min cfg) * (of_int (bits_of ps) / min_cnp_interval cfg))"
proof -
  let ?b = "(1 - omega_min cfg) * (of_int (bits_of ps) / min_cnp_interval cfg)"
  have i: "pcn_inv cfg sdr" using pcn_sender.inv_run[OF pcn_init_inv[OF assms(10)] _ assms(11)] by simp
  from marked_run[OF assms(1,7), of cfg] assms(3-5) obtain s1 r1 where
    r1: "run_out (PCN_handleMessage cfg) (arrivals ps) rcv = Inr (s1, map (\<lambda>(t, p). SendUp p) ps)"
    and m: "map_get (receiver_flowMap s1) k = Some r1" and tm: "timers s1 = timers rcv"
    and n: "recNum r1 = int (length ps)" "ecnNum r1 = int (length ps)" "recData r1 = bits_of ps" by auto
  have "0 \<le> bits_of ps" by (induction ps) auto
  then obtain rcv' r' w where
    f1: "PCN_handleMessage cfg (t, Fire (CnpTimer k)) s1 =
       Inr (rcv', [SendDown (pcn_cnp k r' w), Arm (CnpTimer k) (t + min_cnp_interval cfg)])"
    and w: "ecnPakcetReceived r'" "of_int (uint w) \<le> of_int (bits_of ps) / min_cnp_interval cfg"
    using report_rate[OF m, of cfg t] assms(2,6,8,9) tm n by auto
  have s: "PCN_handleMessage cfg (t', Lower (pcn_cnp k r' w)) sdr = Inr (put_flow k (pcn_cut cfg w f) sdr, [])"
    using assms(12) w(1)
    by (simp add: PCN_processLowerpck_def PCN_receive_cnp_def pcn_cnp_def last_tag_def packet.truncate_def)
  have "currentRate (pcn_cut cfg w f) \<le> of_int (uint w) * (1 - omega_min cfg)" by (simp add: pcn_cut_def Let_def)
  also have "\<dots> \<le> of_int (bits_of ps) / min_cnp_interval cfg * (1 - omega_min cfg)"
    using w(2) assms(10) by (intro mult_right_mono) (auto simp: pcn_cfg_ok_def)
  finally have c: "currentRate (pcn_cut cfg w f) \<le> ?b" by (simp add: mult.commute)
  have "pcn_inv cfg (put_flow k (pcn_cut cfg w f) sdr) \<and> rate_at_most k ?b (put_flow k (pcn_cut cfg w f) sdr)"
    using pcn_step_inv[OF s i] c by (simp add: rate_at_most_def get_put)
  then have later: "\<forall>ys s2 es2 f2. (\<forall>y\<in>set ys. \<not> speeds_up k y \<and> new_flow (activate cfg) y \<noteq> Some k) \<and>
        run_out (PCN_handleMessage cfg) ys (put_flow k (pcn_cut cfg w f) sdr) = Inr (s2, es2) \<and>
        map_get (sender_flowMap s2) k = Some f2 \<longrightarrow> currentRate f2 \<le> ?b"
    using pcn_limited.inv_run by (meson rate_at_most_def)
  have "run_out (PCN_handleMessage cfg) (arrivals ps @ [(t, Fire (CnpTimer k))]) rcv =
       Inr (rcv', map (\<lambda>(t, p). SendUp p) ps @ [SendDown (pcn_cnp k r' w), Arm (CnpTimer k) (t + min_cnp_interval cfg)])"
    using r1 f1 by (simp add: run_out_append)
  with s c later show ?thesis by (intro exI conjI) (assumption | simp add: get_put)+
qed

theorem pcn_closed_loop_witness:
  "\<exists>s0 es0 cnp sdr' f'. run_out (PCN_handleMessage sample_pcn) [(0, Upper sample_flow_request)] PCN_initialize = Inr (s0, es0) \<and>
     PCN_handleMessage sample_pcn (9, Lower cnp) s0 = Inr (sdr', []) \<and> map_get (sender_flowMap sdr') 5 = Some f' \<and> currentRate f' \<le> 60 \<and>
     (\<forall>s2 es2 f2. run_out (PCN_handleMessage sample_pcn) [(10, Fire SendDataTimer)] sdr' = Inr (s2, es2) \<and>
        map_get (sender_flowMap s2) 5 = Some f2 \<longrightarrow> currentRate f2 \<le> 60)"
proof -
  define r where "r = \<lparr>intervaltime = 0, lastPckTime = 0, ecnPakcetReceived = False, recRate = 0, recNum = 0, recData = 0,
    ecnNum = 0, Sender_srcAddr = 1, Sender_destAddr = 2\<rparr>"
  let ?rcv = "PCN_initialize\<lparr>receiver_flowMap := [(5, r)], timers := (\<lambda>_. Some 2)\<rparr>"
  from sample_pcn_started obtain s0 es0 f0
    where s0: "run_out (PCN_handleMessage sample_pcn) [(0, Upper sample_flow_request)] PCN_initialize = Inr (s0, es0)"
    and f0: "map_get (sender_flowMap s0) 5 = Some f0" by blast
  obtain cnp sdr' f' where c: "PCN_handleMessage sample_pcn (9, Lower cnp) s0 = Inr (sdr', [])" "map_get (sender_flowMap sdr') 5 = Some f'"
    "currentRate f' \<le> 60"
    and l: "\<And>ys s2 es2 f2. \<forall>y\<in>set ys. \<not> speeds_up 5 y \<and> new_flow (activate sample_pcn) y \<noteq> Some 5 \<Longrightarrow>
        run_out (PCN_handleMessage sample_pcn) ys sdr' = Inr (s2, es2) \<Longrightarrow> map_get (sender_flowMap s2) 5 = Some f2 \<Longrightarrow> currentRate f2 \<le> 60"
    using pcn_closed_loop[OF _ _ _ _ _ _ _ _ _ sample_pcn_ok s0 f0, of ?rcv r "[(0, sample_marked), (1, sample_marked)]" 2 9]
      sample_marked_for by (simp add: r_def sample_pcn_def sample_marked_def) blast
  have "\<forall>y\<in>set [(10, Fire SendDataTimer)]. \<not> speeds_up 5 y \<and> new_flow (activate sample_pcn) y \<noteq> Some 5" by simp
  from l[OF this] s0 c show ?thesis by blast
qed

text \<open>A report can bring the receiver down.  When all packets of an interval were marked and either only
  the first packet of the flow came, or they came at \<open>2 ^ 32\<close> bits per second or more, the rate to
  report has no value as the 32-bit integer it is stored in.\<close>

theorem pcn_report_overflow:
  assumes "0 < min_cnp_interval cfg" and "\<forall>(t, p) \<in> set ps. marked_for k p" and "ps \<noteq> []"
    and "length ps = 1 \<or> 2 ^ 32 * min_cnp_interval cfg \<le> of_int (bits_of ps)"
  shows "run_out (PCN_handleMessage cfg) (arrivals ps @ [(t, Fire (CnpTimer k))]) PCN_initialize = Inl FloatConversion"
proof -
  obtain t0 p qs where ps: "ps = (t0, p) # qs" using assms(3) by (cases ps) auto
  have p: "marked_for k p" and qs: "\<forall>(t, p) \<in> set qs. marked_for k p" using assms(2) ps by auto
  from marked_first[OF _ p _ less_imp_le[OF assms(1)], of PCN_initialize t0] obtain s r where
    s: "PCN_handleMessage cfg (t0, Lower p) PCN_initialize = Inr (s, [Arm (CnpTimer k) (t0 + min_cnp_interval cfg), SendUp p])"
    and r: "map_get (receiver_flowMap s) k = Some r" "timers s (CnpTimer k) \<noteq> None" "recNum r = 1" "ecnNum r = 1"
      "recData r = p_bits p" "intervaltime r = 0"
    by (auto simp: PCN_initialize_def)
  from marked_run[OF r(1) qs, of cfg] obtain s' r' where
    s': "run_out (PCN_handleMessage cfg) (arrivals qs) s = Inr (s', map (\<lambda>(t, p). SendUp p) qs)"
    and r': "map_get (receiver_flowMap s') k = Some r'" "timers s' = timers s" "recNum r' = recNum r + int (length qs)"
      "ecnNum r' = ecnNum r + int (length qs)" "recData r' = recData r + bits_of qs" by blast
  have "PCN_handleMessage cfg (t, Fire (CnpTimer k)) s' = Inl FloatConversion"
  proof (cases "qs = []")
    case True
    with s' have "s' = s" by simp
    with True r r' assms(1) show ?thesis by (intro report_fails) auto
  next
    case False
    then have "1 < recNum r'" using r r' by (cases qs) auto
    moreover have "2 ^ 32 * min_cnp_interval cfg \<le> of_int (recData r')" using assms(4) ps False r r' by auto
    ultimately show ?thesis using r r' assms(1) by (intro report_fails[OF r'(1)]) auto
  qed
  with s s' ps show ?thesis by (simp add: run_out_append)
qed

theorem pcn_report_overflow_witness:
  "run_out (PCN_handleMessage sample_pcn) [(0, Lower sample_marked), (2, Fire (CnpTimer 5))] PCN_initialize =
     Inl FloatConversion"
  using pcn_report_overflow[of sample_pcn "[(0, sample_marked)]" 5 2] sample_marked_for by (simp add: sample_pcn_def)

text \<open>Every flow is delivered completely: whatever other flows, reports and timers come in between, the
  payloads of the packets sent for a flow add up to its size, their sequence numbers count up from 0,
  and exactly the last one carries the last-packet flag.\<close>

theorem pcn_flow_delivered:
  assumes "pcn_cfg_ok cfg" and "activate cfg"
    and "run_out (PCN_handleMessage cfg) xs PCN_initialize = Inr (s, es0)"
    and "map_get (sender_flowMap s) k = None"
    and "contains ''Data'' (p_name p)" and "ht_flowid (last (p_tags p)) = k"
    and "run_out (PCN_handleMessage cfg) ((now, Upper p) # ys) s = Inr (s', es)"
    and "\<forall>y\<in>set ys. new_flow (activate cfg) y \<noteq> Some k" and "map_get (sender_flowMap s') k = None"
  shows "sum_list (map (\<lambda>(_, len, _). len) (sent_for ''PCNData'' k es)) = message_length (last (p_tags p)) \<and>
     map fst (sent_for ''PCNData'' k es) = map of_nat [0..<length (sent_for ''PCNData'' k es)] \<and>
     map (\<lambda>(_, _, lst). lst) (sent_for ''PCNData'' k es) =
       replicate (length (sent_for ''PCNData'' k es) - 1) False @ [True]"
proof -
  have i: "pcn_inv cfg s" using pcn_sender.inv_run[OF pcn_init_inv[OF assms(1)] _ assms(3)] by simp
  obtain s1 es1 es2 where u: "PCN_processUpperpck cfg now p s = Inr (s1, es1)"
    and r: "run_out (PCN_handleMessage cfg) ys s1 = Inr (s', es2)" and es: "es = es1 @ es2"
    using assms(7) by (auto simp: rbind_eq_Inr)
  have i1: "pcn_inv cfg s1" by (rule pcn_upper_inv[OF u i])
  have l: "left_of k s1 = Some (message_length (last (p_tags p)), 0)" and e1: "sent_for ''PCNData'' k es1 = []"
    using u assms(2,4,5,6) unfolding PCN_processUpperpck_def
    by (auto elim!: sender_upper_cases simp: left_of_def get_put pcn_new_flow_def split: if_splits)
  have "left_of k s' = None" using assms(9) by (simp add: left_of_def)
  from pcn_segments.flow_complete[OF i1 _ r l this] assms(2,8) e1 show ?thesis
    by (simp add: es sent_for_append)
qed

theorem pcn_flow_delivered_witness:
  "\<exists>s' es. run_out (PCN_handleMessage sample_pcn) [(0, Upper sample_flow_request), (0, Fire SendDataTimer)]
       PCN_initialize = Inr (s', es) \<and> sum_list (map (\<lambda>(_, len, _). len) (sent_for ''PCNData'' 5 es)) = 700"
proof -
  have i: "run_out (PCN_handleMessage sample_pcn) [] PCN_initialize = Inr (PCN_initialize, [])" by simp
  obtain s' es where r: "run_out (PCN_handleMessage sample_pcn) [(0, Upper sample_flow_request), (0, Fire SendDataTimer)]
      PCN_initialize = Inr (s', es)" and d: "map_get (sender_flowMap s') 5 = None"
    by (simp add: pcn_eval)
  from pcn_flow_delivered[OF sample_pcn_ok _ i _ _ _ r _ d] r show ?thesis
    by (auto simp: message_length_def sample_pcn_def sample_flow_request_def PCN_initialize_def)
qed

end
