(* ===== verification/TIMELY.thy ===== *)
theory TIMELY
  imports Flow_Steps
begin

section \<open>TIMELY\<close>

text \<open>
  \<open>HiNA/CC/TIMELY\<close>.  One rate for the whole host, adapted from the round-trip times that the
  acknowledgements carry as their time stamp.  Data goes out in bursts: packets follow each other at
  once until \<open>TIMELYseg\<close> bytes are sent, across flows if need be, and only then comes the pause the
  rate asks for.  The last packet of a burst is flagged; the MAC of the receiver acknowledges
  flagged packets (\<open>HiEthernetMac_receiveTIMELY\<close>).
\<close>

record timely_cfg =
  activate :: bool
  stopTime :: simtime
  minRTT :: simtime
  Tlow :: simtime
  Thigh :: simtime
  linkspeed :: double
  Rai :: double
  max_pck_size :: int
  alpha :: double
  beta :: double
  TIMELYseg :: int

record timely = "flow sender" +
  rtt_diff :: double
  Number :: u32
  currentRTT :: simtime
  lastRTT :: simtime
  hostRate :: double
  accumlength :: int
  segcount :: int

definition TIMELY_initialize :: "timely_cfg \<Rightarrow> timely" where
  "TIMELY_initialize cfg =
     \<lparr>sender_flowMap = [], iter = None, SenderState = STOPPING, timers = (\<lambda>_. None), lastflowid = -1,
      last_creation_time = 0, srcAddr = 0, rtt_diff = 0, Number = 1, currentRTT = 0, lastRTT = 0,
      hostRate = linkspeed cfg, accumlength = 0, segcount = 0\<rparr>"

subsection \<open>Sending\<close>

definition timely_new_flow :: "hitag \<Rightarrow> dgram \<Rightarrow> flow" where
  "timely_new_flow tag pck =
     \<lparr>flowid = ht_flowid tag, remainLength = message_length tag, cretime = ht_cretime tag,
      destAddr = d_dest pck, srcPort = d_sport pck, destPort = d_dport pck, flowPriority = ht_priority tag, pckseq = 0\<rparr>"

definition TIMELY_processUpperpck :: "timely_cfg \<Rightarrow> simtime \<Rightarrow> dgram \<Rightarrow> timely \<Rightarrow> (timely \<times> cc_effect list) res" where
  "TIMELY_processUpperpck cfg = sender_upper (activate cfg) timely_new_flow"

text \<open>The length of the next packet, what is left of the flow, and whether the packet ends a burst.\<close>

definition timely_cut :: "timely_cfg \<Rightarrow> int \<Rightarrow> int \<Rightarrow> int \<times> int \<times> bool" where
  "timely_cut cfg accum remain =
     (if accum + max_pck_size cfg > TIMELYseg cfg then
        (if remain \<le> TIMELYseg cfg - accum then (remain, 0, False)
         else (TIMELYseg cfg - accum, remain - (TIMELYseg cfg - accum), True))
      else if remain \<le> max_pck_size cfg then (remain, 0, False)
      else (max_pck_size cfg, remain - max_pck_size cfg, False))"

text \<open>The data packet carries the burst flag, and no request for congestion marks.\<close>

definition timely_packet :: "timely \<Rightarrow> flow \<Rightarrow> int \<Rightarrow> int \<Rightarrow> bool \<Rightarrow> dgram" where
  "timely_packet s f pcklength rest isLast =
     (let p = data_packet ''TIMELYData'' s f pcklength rest in
      p\<lparr>p_tags := map (\<lambda>t. t\<lparr>ht_last := isLast\<rparr>) (p_tags p), d_ecn := 0\<rparr>)"

text \<open>The burst: at its end the pause for its bytes and 58 bytes of headers and gap per packet, else no pause.\<close>

definition timely_burst :: "timely_cfg \<Rightarrow> simtime \<Rightarrow> int \<Rightarrow> timely \<Rightarrow> (simtime \<times> timely) res" where
  "timely_burst cfg now pcklength s =
     (let s1 = s\<lparr>segcount := segcount s + 1, accumlength := accumlength s + pcklength\<rparr> in
      if accumlength s1 \<ge> TIMELYseg cfg then
        (if hostRate s1 = 0 then Inl SimTimeOverflow
         else Inr (of_int ((TIMELYseg cfg + segcount s1 * 58) * 8) / hostRate s1 + now, s1\<lparr>accumlength := 0, segcount := 0\<rparr>))
      else Inr (now, s1))"

definition TIMELY_send_data :: "timely_cfg \<Rightarrow> simtime \<Rightarrow> timely \<Rightarrow> (timely \<times> cc_effect list) res" where
  "TIMELY_send_data cfg now s =
     (case iter s of
        None \<Rightarrow> Inl EndIterator
      | Some it \<Rightarrow>
        case map_get (sender_flowMap s) it of
          None \<Rightarrow> Inl EndIterator
        | Some f \<Rightarrow>
          let (pcklength, rest, isLastPck) = timely_cut cfg (accumlength s) (remainLength f);
              s1 = note_flow f s;
              packet = timely_packet s1 f pcklength rest isLastPck;
              s2 = advance_flow it (f\<lparr>remainLength := rest, pckseq := pckseq f + 1\<rparr>) rest s1
          in rbind (timely_burst cfg now pcklength s2) (\<lambda>(t, s3).
             rbind (scheduleAt SendDataTimer now t s3) (\<lambda>s4.
               Inr (s4, [Arm SendDataTimer t, SendDown packet]))))"

subsection \<open>Acknowledgements\<close>

text \<open>The change of the rate; the first round-trip time has no gradient.\<close>

definition timely_adapt :: "timely_cfg \<Rightarrow> timely \<Rightarrow> timely res" where
  "timely_adapt cfg s =
     (if lastRTT s = 0 then Inr s
      else if currentRTT s < Tlow cfg then Inr (s\<lparr>hostRate := hostRate s + Rai cfg\<rparr>)
      else if currentRTT s > Thigh cfg then
        (if currentRTT s = 0 then Inl FloatConversion
         else Inr (s\<lparr>hostRate := hostRate s * (1 - beta cfg * (1 - Thigh cfg / currentRTT s))\<rparr>))
      else if minRTT cfg = 0 then Inl FloatConversion
      else if rtt_diff s / minRTT cfg \<le> 0 then
        (if Number s \<ge> 5 then Inr (s\<lparr>hostRate := hostRate s + 5 * Rai cfg\<rparr>)
         else Inr (s\<lparr>hostRate := hostRate s + Rai cfg, Number := Number s + 1\<rparr>))
      else Inr (s\<lparr>hostRate := hostRate s * (1 - beta cfg * (rtt_diff s / minRTT cfg)), Number := 1\<rparr>))"

definition TIMELY_receive_ack :: "timely_cfg \<Rightarrow> dgram \<Rightarrow> timely \<Rightarrow> (timely \<times> cc_effect list) res" where
  "TIMELY_receive_ack cfg pck s =
     (let s1 = s\<lparr>lastRTT := currentRTT s, currentRTT := d_time pck,
                rtt_diff := (1 - alpha cfg) * rtt_diff s + alpha cfg * (d_time pck - currentRTT s)\<rparr>
      in rbind (timely_adapt cfg s1) (\<lambda>s2. Inr (s2, [])))"

definition TIMELY_processLowerpck :: "timely_cfg \<Rightarrow> dgram \<Rightarrow> timely \<Rightarrow> (timely \<times> cc_effect list) res" where
  "TIMELY_processLowerpck cfg pck s =
     (if contains ''TIMELYData'' (p_name pck) then Inr (s, [SendUp pck])
      else if contains ''ACK'' (p_name pck) then TIMELY_receive_ack cfg pck s
      else Inr (s, [SendUp pck]))"

definition TIMELY_handleSelfMessage :: "timely_cfg \<Rightarrow> simtime \<Rightarrow> timely \<Rightarrow> (timely \<times> cc_effect list) res" where
  "TIMELY_handleSelfMessage cfg now s =
     (if sender_flowMap s = [] \<or> now \<ge> stopTime cfg then Inr (s\<lparr>SenderState := STOPPING\<rparr>, [])
      else TIMELY_send_data cfg now s)"

fun TIMELY_handleMessage :: "timely_cfg \<Rightarrow> simtime \<times> cc_op \<Rightarrow> timely \<Rightarrow> (timely \<times> cc_effect list) res" where
  "TIMELY_handleMessage cfg (now, Fire SendDataTimer) s =
     (if timers s SendDataTimer = None then Inr (s, [])
      else TIMELY_handleSelfMessage cfg now (s\<lparr>timers := (timers s)(SendDataTimer := None)\<rparr>))"
| "TIMELY_handleMessage cfg (now, Fire _) s = Inr (s, [])"
| "TIMELY_handleMessage cfg (now, Upper pck) s =
     (if contains ''Data'' (p_name pck) then TIMELY_processUpperpck cfg now pck s else Inr (s, [SendDown pck]))"
| "TIMELY_handleMessage cfg (now, Lower pck) s = TIMELY_processLowerpck cfg pck s"

subsection \<open>The parts of a step\<close>

lemma adapt_frame:
  assumes "timely_adapt cfg s = Inr s'"
  shows "s' = s\<lparr>hostRate := hostRate s', Number := Number s'\<rparr>"
  using assms by (auto simp: timely_adapt_def split: if_splits)

lemma timely_lower_frame:
  assumes "TIMELY_processLowerpck cfg p s = Inr (s', es)"
  obtains r d l n c where "s' = s\<lparr>rtt_diff := d, Number := n, currentRTT := c, lastRTT := l, hostRate := r\<rparr>"
    and "\<forall>q. SendDown q \<notin> set es"
proof -
  have "\<exists>r d l n c. s' = s\<lparr>rtt_diff := d, Number := n, currentRTT := c, lastRTT := l, hostRate := r\<rparr>"
  proof (cases "\<not> contains ''TIMELYData'' (p_name p) \<and> contains ''ACK'' (p_name p)")
    case True
    let ?s1 = "s\<lparr>lastRTT := currentRTT s, currentRTT := d_time p,
        rtt_diff := (1 - alpha cfg) * rtt_diff s + alpha cfg * (d_time p - currentRTT s)\<rparr>"
    from assms True have "timely_adapt cfg ?s1 = Inr s'"
      by (auto simp: TIMELY_processLowerpck_def TIMELY_receive_ack_def rbind_eq_Inr Let_def)
    note adapt_frame[OF this]
    also have "?s1\<lparr>hostRate := hostRate s', Number := Number s'\<rparr> = s\<lparr>rtt_diff := rtt_diff ?s1, Number := Number s',
        currentRTT := d_time p, lastRTT := currentRTT s, hostRate := hostRate s'\<rparr>" by simp
    finally show ?thesis by blast
  next
    case False
    with assms have "s' = s" by (auto simp: TIMELY_processLowerpck_def split: if_splits)
    then have "s' = s\<lparr>rtt_diff := rtt_diff s, Number := Number s, currentRTT := currentRTT s, lastRTT := lastRTT s,
        hostRate := hostRate s\<rparr>" by simp
    then show ?thesis by blast
  qed
  moreover have "\<forall>q. SendDown q \<notin> set es"
    using assms by (auto simp: TIMELY_processLowerpck_def TIMELY_receive_ack_def rbind_eq_Inr Let_def split: if_splits)
  ultimately show thesis using that by blast
qed

lemma timely_send_Inr:
  assumes "TIMELY_send_data cfg now s = Inr (s', es)"
  obtains it f len rest lst t s2 s3 where "iter s = Some it" and "map_get (sender_flowMap s) it = Some f"
    and "timely_cut cfg (accumlength s) (remainLength f) = (len, rest, lst)"
    and "es = [Arm SendDataTimer t, SendDown (timely_packet (note_flow f s) f len rest lst)]"
    and "s2 = advance_flow it (f\<lparr>remainLength := rest, pckseq := pckseq f + 1\<rparr>) rest (note_flow f s)"
    and "timely_burst cfg now len s2 = Inr (t, s3)"
    and "s' = s3\<lparr>timers := (timers s3)(SendDataTimer := Some t)\<rparr>" and "timers s3 SendDataTimer = None"
proof -
  obtain it f where f: "iter s = Some it" "map_get (sender_flowMap s) it = Some f"
    using assms by (auto simp: TIMELY_send_data_def split: option.splits)
  obtain len rest lst where c: "timely_cut cfg (accumlength s) (remainLength f) = (len, rest, lst)" by (rule prod_cases3)
  let ?s2 = "advance_flow it (f\<lparr>remainLength := rest, pckseq := pckseq f + 1\<rparr>) rest (note_flow f s)"
  from assms f c obtain t s3 s4 where "timely_burst cfg now len ?s2 = Inr (t, s3)" "scheduleAt SendDataTimer now t s3 = Inr s4"
    "es = [Arm SendDataTimer t, SendDown (timely_packet (note_flow f s) f len rest lst)]" "s' = s4"
    by (auto simp: TIMELY_send_data_def Let_def rbind_eq_Inr)
  then show thesis using that[OF f c _ refl] by (auto simp: scheduleAt_Inr)
qed

lemma burst_frame:
  assumes "timely_burst cfg now len s = Inr (t, s')"
  shows "s' = s\<lparr>segcount := segcount s', accumlength := accumlength s'\<rparr>"
    and "accumlength s' = (if TIMELYseg cfg \<le> accumlength s + len then 0 else accumlength s + len)"
    and "segcount s' = (if TIMELYseg cfg \<le> accumlength s + len then 0 else segcount s + 1)"
    and "t = (if TIMELYseg cfg \<le> accumlength s + len
              then of_int ((TIMELYseg cfg + (segcount s + 1) * 58) * 8) / hostRate s + now else now)"
  using assms by (auto simp: timely_burst_def Let_def split: if_splits)

text \<open>What the cut makes of a burst that is not full.\<close>

lemma cut_cases:
  assumes "timely_cut cfg accum remain = (len, rest, lst)" and "0 \<le> accum" and "accum < TIMELYseg cfg"
    and "0 \<le> remain" and "0 < max_pck_size cfg"
  shows "0 \<le> len" and "rest = remain - len" and "0 \<le> rest" and "accum + len \<le> TIMELYseg cfg" and "len \<le> max_pck_size cfg"
    and "lst \<longleftrightarrow> accum + len = TIMELYseg cfg \<and> rest \<noteq> 0 \<and> len < max_pck_size cfg" and "rest \<noteq> 0 \<Longrightarrow> 0 < len"
  using assms by (auto simp: timely_cut_def split: if_splits)

subsection \<open>The sender invariant\<close>

definition timely_cfg_ok :: "timely_cfg \<Rightarrow> bool" where
  "timely_cfg_ok cfg \<longleftrightarrow> 0 < max_pck_size cfg \<and> 0 < TIMELYseg cfg"

definition timely_flow_ok :: "u32 \<Rightarrow> flow \<Rightarrow> bool" where
  "timely_flow_ok k f \<longleftrightarrow> flowid f = k \<and> 0 \<le> remainLength f"

definition timely_inv :: "timely_cfg \<Rightarrow> timely \<Rightarrow> bool" where
  "timely_inv cfg s \<longleftrightarrow> timely_cfg_ok cfg \<and> sender_inv timely_flow_ok s \<and> 0 \<le> accumlength s \<and> accumlength s < TIMELYseg cfg \<and>
     0 \<le> segcount s"

lemma timely_upper_inv:
  assumes "TIMELY_processUpperpck cfg now p s = Inr (s', es)" and "timely_inv cfg s"
  shows "timely_inv cfg s'"
proof -
  note u = assms(1)[unfolded TIMELY_processUpperpck_def]
  have "timely_flow_ok (ht_flowid (last (p_tags p))) (timely_new_flow (last (p_tags p)) p)"
    by (simp add: timely_flow_ok_def timely_new_flow_def)
  with sender_upper_inv[OF u] sender_upper_frame[OF u] assms(2) show ?thesis
    by (cases s; cases s') (auto simp: timely_inv_def)
qed

lemma timely_send_inv:
  assumes "TIMELY_send_data cfg now s = Inr (s', es)" and "timely_inv cfg (s\<lparr>timers := T\<rparr>)" and "SenderState s = SENDING"
  shows "timely_inv cfg s'"
  using assms(1)
proof (rule timely_send_Inr)
  fix it f len rest lst t s2 s3
  assume a: "iter s = Some it" "map_get (sender_flowMap s) it = Some f"
    "timely_cut cfg (accumlength s) (remainLength f) = (len, rest, lst)"
    "s2 = advance_flow it (f\<lparr>remainLength := rest, pckseq := pckseq f + 1\<rparr>) rest (note_flow f s)"
    "timely_burst cfg now len s2 = Inr (t, s3)" "s' = s3\<lparr>timers := (timers s3)(SendDataTimer := Some t)\<rparr>"
  from assms(2) have cfg: "0 < max_pck_size cfg" "0 < TIMELYseg cfg" and acc: "0 \<le> accumlength s" "accumlength s < TIMELYseg cfg"
    and seg: "0 \<le> segcount s" and i: "sender_inv timely_flow_ok (s\<lparr>timers := T\<rparr>)"
    by (auto simp: timely_inv_def timely_cfg_ok_def)
  have f: "flowid f = it" "0 \<le> remainLength f"
    using i a(2) by (auto simp: sender_inv_def timely_flow_ok_def)
  note c = cut_cases[OF a(3) acc f(2) cfg(1)]
  have more: "accumlength s2 = accumlength s" "segcount s2 = segcount s" using a(4)
    by (auto simp: advance_flow_def finish_flow_def put_flow_def note_flow_def)
  note b = burst_frame[OF a(5)]
  have m: "sender_flowMap s' = sender_flowMap s2" "SenderState s' = SENDING" "timers s' SendDataTimer = Some t"
  proof -
    have "sender_flowMap s3 = sender_flowMap s2" "SenderState s3 = SenderState s2" by (subst b(1), simp)+
    then show "sender_flowMap s' = sender_flowMap s2" "SenderState s' = SENDING" "timers s' SendDataTimer = Some t"
      using a(4,6) assms(3) by simp_all
  qed
  have "sender_inv timely_flow_ok s'"
    using i f c(3) m a(4) by (auto simp: sender_inv_def advance_map timely_flow_ok_def get_put get_erase wf_put wf_erase)
  moreover have "accumlength s' = accumlength s3" "segcount s' = segcount s3" using a(6) by simp_all
  ultimately show ?thesis using b(2,3) more c(1,4) acc seg cfg
    by (auto simp: timely_inv_def timely_cfg_ok_def)
qed

lemma timely_step_inv:
  assumes "TIMELY_handleMessage cfg x s = Inr (s', es)" and "timely_inv cfg s"
  shows "timely_inv cfg s'"
proof -
  obtain now e where x: "x = (now, e)" by (cases x)
  show ?thesis
  proof (cases e)
    case (Upper p)
    with assms x timely_upper_inv show ?thesis by (auto split: if_splits)
  next
    case (Lower p)
    with assms(1) x have "TIMELY_processLowerpck cfg p s = Inr (s', es)" by simp
    then show ?thesis by (rule timely_lower_frame) (use assms(2) in \<open>auto simp: timely_inv_def sender_inv_def\<close>)
  next
    case (Fire tm)
    show ?thesis
    proof (cases "tm = SendDataTimer \<and> timers s SendDataTimer \<noteq> None")
      case False
      with assms x Fire show ?thesis by (cases tm) auto
    next
      case True
      let ?s = "s\<lparr>timers := (timers s)(SendDataTimer := None)\<rparr>"
      from assms(1) x Fire True have h: "TIMELY_handleSelfMessage cfg now ?s = Inr (s', es)" by auto
      have send: "SenderState s = SENDING" using assms(2) True by (auto simp: timely_inv_def sender_inv_def)
      show ?thesis
      proof (cases "sender_flowMap s = [] \<or> now \<ge> stopTime cfg")
        case True
        with h assms(2) show ?thesis by (auto simp: TIMELY_handleSelfMessage_def timely_inv_def sender_inv_def)
      next
        case False
        with h have "TIMELY_send_data cfg now ?s = Inr (s', es)" by (auto simp: TIMELY_handleSelfMessage_def)
        then show ?thesis by (rule timely_send_inv[where T = "timers s"]) (use assms(2) send in simp_all)
      qed
    qed
  qed
qed

lemma timely_init_inv: "timely_cfg_ok cfg \<Longrightarrow> timely_inv cfg (TIMELY_initialize cfg)"
  by (simp add: timely_inv_def TIMELY_initialize_def sender_inv_def timely_cfg_ok_def)

interpretation timely_sender: machine "TIMELY_handleMessage cfg" "timely_inv cfg" "\<lambda>_. True" for cfg
  by unfold_locales (rule timely_step_inv)

subsection \<open>What has been sent\<close>

fun timely_data :: "cc_effect list \<Rightarrow> dgram list" where
  "timely_data [] = []"
| "timely_data (SendDown p # es) = (if contains ''TIMELYData'' (p_name p) then p # timely_data es else timely_data es)"
| "timely_data (_ # es) = timely_data es"

definition data_bytes :: "cc_effect list \<Rightarrow> int" where
  "data_bytes es = sum_list (map payload_of (timely_data es))"

definition burst_end :: "dgram \<Rightarrow> bool" where
  "burst_end p \<longleftrightarrow> ht_last (last (p_tags p))"

lemma timely_data_append: "timely_data (es @ es') = timely_data es @ timely_data es'"
  by (induction es rule: timely_data.induct) auto

lemma timely_data_none: "\<forall>q. SendDown q \<notin> set es \<Longrightarrow> timely_data es = []"
  by (induction es rule: timely_data.induct) auto

lemma timely_data_prefix: "contains ''TIMELYData'' n \<Longrightarrow> contains ''Data'' n"
proof -
  assume "contains ''TIMELYData'' n"
  then obtain u v where "n = (u @ ''TIMELY'') @ ''Data'' @ v" by (auto simp: contains_append)
  then show ?thesis by (simp only: contains_append) blast
qed

lemma timely_packet_data:
  "timely_data [Arm tm t, SendDown (timely_packet s f len rest lst)] = [timely_packet s f len rest lst]"
proof -
  have "p_name (timely_packet s f len rest lst) = [] @ ''TIMELYData'' @ (''-'' @ digits (unat (flowid f)) @ ''-'' @ digits (unat (pckseq f)))"
    by (simp add: timely_packet_def data_packet_def packet_name_def)
  then have "contains ''TIMELYData'' (p_name (timely_packet s f len rest lst))" by (simp only: contains_append) blast
  then show ?thesis by simp
qed

lemma timely_packet_fields:
  "0 \<le> len \<Longrightarrow> payload_of (timely_packet s f len rest lst) = len" "burst_end (timely_packet s f len rest lst) = lst"
  by (simp_all add: timely_packet_def data_packet_def payload_of_def bytes_of_def burst_end_def)

text \<open>What a step can be, for the bookkeeping of bursts.\<close>

lemma timely_step_cases:
  assumes "TIMELY_handleMessage cfg x s = Inr (s', es)" and "activate cfg"
  obtains (request) now p where "x = (now, Upper p)" and "contains ''Data'' (p_name p)"
      and "sender_upper True timely_new_flow now p s = Inr (s', es)" and "timely_data es = []"
    | (send) now where "x = (now, Fire SendDataTimer)" and "timers s SendDataTimer \<noteq> None"
        and "TIMELY_send_data cfg now (s\<lparr>timers := (timers s)(SendDataTimer := None)\<rparr>) = Inr (s', es)"
    | (other) "timely_data es = []" and "sender_flowMap s' = sender_flowMap s" and "accumlength s' = accumlength s"
proof -
  obtain now e where x: "x = (now, e)" by (cases x)
  show thesis
  proof (cases e)
    case (Upper p)
    show ?thesis
    proof (cases "contains ''Data'' (p_name p)")
      case True
      with assms x Upper have u: "sender_upper True timely_new_flow now p s = Inr (s', es)" by (simp add: TIMELY_processUpperpck_def)
      then have "timely_data es = []" using True by (cases rule: sender_upper_cases) (auto split: if_splits)
      with u x Upper True request show ?thesis by blast
    next
      case False
      then have "\<not> contains ''TIMELYData'' (p_name p)" using timely_data_prefix by blast
      with False assms x Upper other show ?thesis by auto
    qed
  next
    case (Lower p)
    with assms(1) x have "TIMELY_processLowerpck cfg p s = Inr (s', es)" by simp
    then show ?thesis by (rule timely_lower_frame) (rule other, auto intro: timely_data_none)
  next
    case (Fire tm)
    show ?thesis
    proof (cases "tm = SendDataTimer \<and> timers s SendDataTimer \<noteq> None \<and> \<not> (sender_flowMap s = [] \<or> now \<ge> stopTime cfg)")
      case True
      with assms(1) x Fire send[of now] show ?thesis by (auto simp: TIMELY_handleSelfMessage_def)
    next
      case False
      with assms(1) x Fire other show ?thesis
        by (cases tm) (auto simp: TIMELY_handleSelfMessage_def split: if_splits)
    qed
  qed
qed

text \<open>One packet: where it lies in its burst, and what follows it.\<close>

lemma timely_send_burst:
  assumes "TIMELY_send_data cfg now (s\<lparr>timers := T\<rparr>) = Inr (s', es)" and "timely_inv cfg s"
  obtains it f len rest lst t p where "map_get (sender_flowMap s) it = Some f" and "es = [Arm SendDataTimer t, SendDown p]"
    and "timely_data es = [p]" and "payload_of p = len" and "burst_end p = lst"
    and "timely_cut cfg (accumlength s) (remainLength f) = (len, rest, lst)"
    and "accumlength s' = (if TIMELYseg cfg \<le> accumlength s + len then 0 else accumlength s + len)"
    and "t = (if TIMELYseg cfg \<le> accumlength s + len
              then of_int ((TIMELYseg cfg + (segcount s + 1) * 58) * 8) / hostRate s + now else now)"
    and "sender_flowMap s' = (if rest = 0 then map_erase it (sender_flowMap s)
           else map_put it (f\<lparr>remainLength := rest, pckseq := pckseq f + 1\<rparr>) (sender_flowMap s))"
  using assms(1)
proof (rule timely_send_Inr)
  let ?s = "s\<lparr>timers := T\<rparr>"
  fix it f len rest lst t s2 s3
  assume a: "iter ?s = Some it" "map_get (sender_flowMap ?s) it = Some f"
    "timely_cut cfg (accumlength ?s) (remainLength f) = (len, rest, lst)"
    "es = [Arm SendDataTimer t, SendDown (timely_packet (note_flow f ?s) f len rest lst)]"
    "s2 = advance_flow it (f\<lparr>remainLength := rest, pckseq := pckseq f + 1\<rparr>) rest (note_flow f ?s)"
    "timely_burst cfg now len s2 = Inr (t, s3)" "s' = s3\<lparr>timers := (timers s3)(SendDataTimer := Some t)\<rparr>"
  from assms(2) a(2) have f: "flowid f = it" "0 \<le> remainLength f" and acc: "0 \<le> accumlength s" "accumlength s < TIMELYseg cfg"
    and mx: "0 < max_pck_size cfg"
    by (auto simp: timely_inv_def timely_cfg_ok_def sender_inv_def timely_flow_ok_def)
  note c = cut_cases[OF a(3)[simplified] acc f(2) mx]
  note b = burst_frame[OF a(6)]
  have more: "accumlength s2 = accumlength s" "segcount s2 = segcount s" "hostRate s2 = hostRate s"
    "sender_flowMap s2 = (if rest = 0 then map_erase it (sender_flowMap s)
           else map_put it (f\<lparr>remainLength := rest, pckseq := pckseq f + 1\<rparr>) (sender_flowMap s))"
    unfolding a(5) using f(1) by (auto simp: advance_flow_def finish_flow_def put_flow_def note_flow_def)
  have m: "sender_flowMap s' = sender_flowMap s2" unfolding a(7) by (subst b(1)) simp
  let ?p = "timely_packet (note_flow f ?s) f len rest lst"
  show thesis
    using a(2) a(4) timely_packet_data[of SendDataTimer t] timely_packet_fields(1)[OF c(1), of "note_flow f ?s" f rest lst]
      timely_packet_fields(2)[of "note_flow f ?s" f len rest lst] a(3) b(2,4) more m a(7)
    by (intro that[of it f t ?p len lst rest]) simp_all
qed

interpretation timely_bursts: recorded_machine "TIMELY_handleMessage cfg" "timely_inv cfg" "\<lambda>_. activate cfg"
    "\<lambda>s log. accumlength s = data_bytes log mod TIMELYseg cfg" for cfg
proof unfold_locales
  fix s x past s' es
  assume i: "timely_inv cfg s" and act: "activate cfg" and acc: "accumlength s = data_bytes past mod TIMELYseg cfg"
    and st: "TIMELY_handleMessage cfg x s = Inr (s', es)"
  have b: "data_bytes (past @ es) = data_bytes past + data_bytes es" by (simp add: data_bytes_def timely_data_append)
  from st act show "accumlength s' = data_bytes (past @ es) mod TIMELYseg cfg"
  proof (cases rule: timely_step_cases)
    case (request now p)
    with sender_upper_frame[OF request(3)] acc b show ?thesis by (cases s; cases s') (auto simp: data_bytes_def)
  next
    case (send now)
    from send(3) i show ?thesis
    proof (rule timely_send_burst)
      fix it f len rest lst t p
      assume a: "map_get (sender_flowMap s) it = Some f" "timely_data es = [p]" "payload_of p = len"
        "timely_cut cfg (accumlength s) (remainLength f) = (len, rest, lst)"
        "accumlength s' = (if TIMELYseg cfg \<le> accumlength s + len then 0 else accumlength s + len)"
      from i a(1) have acc': "0 \<le> accumlength s" "accumlength s < TIMELYseg cfg" "0 \<le> remainLength f" "0 < max_pck_size cfg"
        by (auto simp: timely_inv_def timely_cfg_ok_def sender_inv_def timely_flow_ok_def)
      note c = cut_cases[OF a(4) acc']
      have e: "data_bytes (past @ es) mod TIMELYseg cfg = (accumlength s + len) mod TIMELYseg cfg"
        using a(2,3) acc b by (simp add: data_bytes_def mod_add_left_eq)
      show ?thesis
      proof (cases "TIMELYseg cfg \<le> accumlength s + len")
        case True
        with c(4) have "accumlength s + len = TIMELYseg cfg" by simp
        with a(5) e show ?thesis by simp
      next
        case False
        with a(5) e c(1) acc'(1) show ?thesis by (simp add: mod_pos_pos_trivial)
      qed
    qed
  next
    case other
    with acc b show ?thesis by (simp add: data_bytes_def)
  qed
qed (rule timely_step_inv)

subsection \<open>Properties\<close>

definition sample_timely :: timely_cfg where
  "sample_timely = \<lparr>activate = True, stopTime = 1000, minRTT = 20, Tlow = 50, Thigh = 500, linkspeed = 100, Rai = 1,
     max_pck_size = 1000, alpha = 7/8, beta = 4/5, TIMELYseg = 4000\<rparr>"

definition sample_rtt :: "simtime \<Rightarrow> dgram" where
  "sample_rtt r = \<lparr>p_id = 1, p_name = ''TIMELYACK'', p_len = 8, p_iface = 0, p_ecn = None, p_tags = [],
     p_bfc = None, p_ispause = None, d_src = 2, d_dest = 1, d_sport = 20, d_dport = 10, d_ecn = 0,
     d_recRate = 0, d_int = None, d_psd = None, d_sack = None, d_time = r\<rparr>"

definition sample_flow_of :: "int \<Rightarrow> dgram" where
  "sample_flow_of n = \<lparr>p_id = 1, p_name = ''AppData'', p_len = 64, p_iface = 0, p_ecn = None,
     p_tags = [\<lparr>ht_flowid = 5, ht_priority = 2, ht_flowsize = word_of_int n, ht_cretime = 0, ht_packetid = 0, ht_last = False,
        ht_queueid = 0, ht_decel = False, ht_speedup = False, ht_sender_priority = -1\<rparr>],
     p_bfc = None, p_ispause = None, d_src = 1, d_dest = 2, d_sport = 10, d_dport = 20, d_ecn = 0,
     d_recRate = 0, d_int = None, d_psd = None, d_sack = None, d_time = 0\<rparr>"

lemma sample_timely_ok: "timely_cfg_ok sample_timely" "activate sample_timely"
  by (simp_all add: timely_cfg_ok_def sample_timely_def)

text \<open>Bursts.  All bytes a host sends, of whatever flows, form one stream that is cut at the multiples of
  \<open>TIMELYseg\<close>: no packet crosses a multiple, the sender pauses exactly where a packet ends on one,
  for the time its rate gives the burst, and goes on at once everywhere else; a packet flagged as
  the end of a burst does end on one.\<close>

theorem timely_burst_boundaries:
  assumes "timely_cfg_ok cfg" and "activate cfg"
    and "run_out (TIMELY_handleMessage cfg) xs (TIMELY_initialize cfg) = Inr (s, es)"
    and "TIMELY_handleMessage cfg (now, Fire SendDataTimer) s = Inr (s', [Arm SendDataTimer t, SendDown p])"
  shows "0 \<le> payload_of p \<and> data_bytes es mod TIMELYseg cfg + payload_of p \<le> TIMELYseg cfg \<and>
     t = (if data_bytes es mod TIMELYseg cfg + payload_of p = TIMELYseg cfg
          then now + of_int ((TIMELYseg cfg + (segcount s + 1) * 58) * 8) / hostRate s else now) \<and>
     (burst_end p \<longrightarrow> data_bytes es mod TIMELYseg cfg + payload_of p = TIMELYseg cfg)"
proof -
  note init = timely_init_inv[OF assms(1)]
  have i: "timely_inv cfg s" using timely_sender.inv_run[OF init _ assms(3)] by simp
  have "accumlength (TIMELY_initialize cfg) = data_bytes [] mod TIMELYseg cfg"
    by (simp add: TIMELY_initialize_def data_bytes_def)
  from timely_bursts.record_run[OF init _ this assms(3)] assms(2) have
    acc: "accumlength s = data_bytes es mod TIMELYseg cfg" by simp
  from assms(4,2) have "TIMELY_send_data cfg now (s\<lparr>timers := (timers s)(SendDataTimer := None)\<rparr>) =
      Inr (s', [Arm SendDataTimer t, SendDown p])"
    by (auto simp: TIMELY_handleSelfMessage_def split: if_splits)
  then show ?thesis using i
  proof (rule timely_send_burst)
    fix it f len rest lst t' p'
    assume a: "map_get (sender_flowMap s) it = Some f" "[Arm SendDataTimer t, SendDown p] = [Arm SendDataTimer t', SendDown p']"
      "payload_of p' = len" "burst_end p' = lst" "timely_cut cfg (accumlength s) (remainLength f) = (len, rest, lst)"
      "t' = (if TIMELYseg cfg \<le> accumlength s + len
              then of_int ((TIMELYseg cfg + (segcount s + 1) * 58) * 8) / hostRate s + now else now)"
    from i a(1) have acc': "0 \<le> accumlength s" "accumlength s < TIMELYseg cfg" "0 \<le> remainLength f" "0 < max_pck_size cfg"
      by (auto simp: timely_inv_def timely_cfg_ok_def sender_inv_def timely_flow_ok_def)
    note c = cut_cases[OF a(5) acc']
    have "TIMELYseg cfg \<le> accumlength s + len \<longleftrightarrow> accumlength s + len = TIMELYseg cfg" using c(4) by auto
    with a(2,3,4,6) c acc show ?thesis by (auto simp: add.commute)
  qed
qed

lemmas timely_eval = TIMELY_initialize_def TIMELY_processUpperpck_def TIMELY_handleSelfMessage_def TIMELY_send_data_def
  timely_new_flow_def timely_cut_def timely_packet_def timely_burst_def sender_upper_def last_tag_def packet.truncate_def
  store_flow_def scheduleAt_def advance_flow_def finish_flow_def put_flow_def note_flow_def data_packet_def
  sample_timely_def sample_flow_of_def message_length_def

theorem timely_burst_boundaries_witness:
  "\<exists>s es s' p. run_out (TIMELY_handleMessage sample_timely) [(0, Upper (sample_flow_of 2500)), (0, Fire SendDataTimer)]
       (TIMELY_initialize sample_timely) = Inr (s, es) \<and>
     TIMELY_handleMessage sample_timely (0, Fire SendDataTimer) s = Inr (s', [Arm SendDataTimer 0, SendDown p]) \<and>
     data_bytes es mod 4000 + payload_of p \<le> 4000"
proof -
  obtain s es s' p where r: "run_out (TIMELY_handleMessage sample_timely) [(0, Upper (sample_flow_of 2500)), (0, Fire SendDataTimer)]
       (TIMELY_initialize sample_timely) = Inr (s, es)"
    and n: "TIMELY_handleMessage sample_timely (0, Fire SendDataTimer) s = Inr (s', [Arm SendDataTimer 0, SendDown p])"
    by (simp add: timely_eval)
  from timely_burst_boundaries[OF sample_timely_ok r n] r n show ?thesis by (auto simp: sample_timely_def)
qed

text \<open>Round-trip times between 0 and \<open>D\<close>, and what the parameters must satisfy for them.\<close>

definition rtt_params :: "timely_cfg \<Rightarrow> simtime \<Rightarrow> bool" where
  "rtt_params cfg D \<longleftrightarrow> 0 < linkspeed cfg \<and> 0 \<le> Rai cfg \<and> 0 \<le> alpha cfg \<and> alpha cfg \<le> 1 \<and> 0 \<le> beta cfg \<and> beta cfg < 1 \<and>
     0 < minRTT cfg \<and> 0 \<le> Thigh cfg \<and> 0 \<le> D \<and> beta cfg * D < minRTT cfg"

definition rtt_within :: "simtime \<Rightarrow> simtime \<times> cc_op \<Rightarrow> bool" where
  "rtt_within D x \<longleftrightarrow> (\<forall>p. snd x = Lower p \<longrightarrow> contains ''ACK'' (p_name p) \<longrightarrow> 0 \<le> d_time p \<and> d_time p \<le> D)"

definition rate_inv :: "timely_cfg \<Rightarrow> simtime \<Rightarrow> timely \<Rightarrow> bool" where
  "rate_inv cfg D s \<longleftrightarrow> rtt_params cfg D \<and> 0 < hostRate s \<and> \<bar>rtt_diff s\<bar> \<le> D \<and> 0 \<le> currentRTT s \<and> currentRTT s \<le> D"

lemma adapt_positive:
  assumes "timely_adapt cfg s = Inr s'" and "rate_inv cfg D s"
  shows "0 < hostRate s'"
proof -
  from assms(2) have p: "0 < hostRate s" "0 \<le> Rai cfg" "0 \<le> beta cfg" "beta cfg < 1" "0 < minRTT cfg" "0 \<le> Thigh cfg"
    "beta cfg * D < minRTT cfg" "rtt_diff s \<le> D"
    by (auto simp: rate_inv_def rtt_params_def)
  have high: "0 < hostRate s * (1 - beta cfg * (1 - Thigh cfg / currentRTT s))" if "Thigh cfg < currentRTT s"
  proof -
    have q: "0 \<le> Thigh cfg / currentRTT s" using that p(6) by simp
    have "beta cfg * (1 - Thigh cfg / currentRTT s) \<le> beta cfg * 1" using q p(3) by (intro mult_left_mono) auto
    with p(1,4) show ?thesis by (intro mult_pos_pos) linarith+
  qed
  have "beta cfg * (rtt_diff s / minRTT cfg) < 1"
  proof -
    have "beta cfg * (rtt_diff s / minRTT cfg) = (beta cfg * rtt_diff s) / minRTT cfg" by simp
    also have "\<dots> \<le> (beta cfg * D) / minRTT cfg" using p(3,5,8) by (intro divide_right_mono mult_left_mono) auto
    also have "\<dots> < 1" using p(5,7) by simp
    finally show ?thesis .
  qed
  then have grad: "0 < hostRate s * (1 - beta cfg * (rtt_diff s / minRTT cfg))" using p(1) by (intro mult_pos_pos) linarith+
  from assms(1) p(1,2) high grad show ?thesis by (auto simp: timely_adapt_def split: if_splits)
qed

lemma rate_step_inv:
  assumes "TIMELY_handleMessage cfg x s = Inr (s', es)" and "rate_inv cfg D s" and "rtt_within D x"
  shows "rate_inv cfg D s'"
proof -
  obtain now e where x: "x = (now, e)" by (cases x)
  have keep: ?thesis if "hostRate s' = hostRate s" "rtt_diff s' = rtt_diff s" "currentRTT s' = currentRTT s"
    using that assms(2) by (simp add: rate_inv_def)
  show ?thesis
  proof (cases e)
    case (Upper p)
    show ?thesis
    proof (cases "contains ''Data'' (p_name p)")
      case True
      with assms(1) x Upper have "sender_upper (activate cfg) timely_new_flow now p s = Inr (s', es)"
        by (simp add: TIMELY_processUpperpck_def)
      from sender_upper_frame[OF this] show ?thesis by (intro keep) (cases s; cases s'; simp)+
    next
      case False
      with assms(1) x Upper show ?thesis by (intro keep) auto
    qed
  next
    case (Lower p)
    show ?thesis
    proof (cases "\<not> contains ''TIMELYData'' (p_name p) \<and> contains ''ACK'' (p_name p)")
      case False
      with assms(1) x Lower show ?thesis by (intro keep) (auto simp: TIMELY_processLowerpck_def split: if_splits)
    next
      case True
      let ?d = "(1 - alpha cfg) * rtt_diff s + alpha cfg * (d_time p - currentRTT s)"
      let ?s1 = "s\<lparr>lastRTT := currentRTT s, currentRTT := d_time p, rtt_diff := ?d\<rparr>"
      have r: "0 \<le> d_time p" "d_time p \<le> D" using assms(3) True x Lower by (auto simp: rtt_within_def)
      have a: "0 \<le> alpha cfg" "alpha cfg \<le> 1" "\<bar>rtt_diff s\<bar> \<le> D" "\<bar>d_time p - currentRTT s\<bar> \<le> D"
        using assms(2) r by (auto simp: rate_inv_def rtt_params_def)
      have "\<bar>?d\<bar> \<le> \<bar>(1 - alpha cfg) * rtt_diff s\<bar> + \<bar>alpha cfg * (d_time p - currentRTT s)\<bar>" by (rule abs_triangle_ineq)
      also have "\<dots> = (1 - alpha cfg) * \<bar>rtt_diff s\<bar> + alpha cfg * \<bar>d_time p - currentRTT s\<bar>" using a(1,2) by (simp add: abs_mult)
      also have "\<dots> \<le> (1 - alpha cfg) * D + alpha cfg * D" using a by (intro add_mono mult_left_mono) auto
      finally have d: "\<bar>?d\<bar> \<le> D" by (simp add: algebra_simps)
      have i: "rate_inv cfg D ?s1" using assms(2) d r by (simp add: rate_inv_def)
      from assms(1) x Lower True have "timely_adapt cfg ?s1 = Inr s'"
        by (auto simp: TIMELY_processLowerpck_def TIMELY_receive_ack_def rbind_eq_Inr Let_def)
      from adapt_positive[OF this i] adapt_frame[OF this] i show ?thesis by (cases s') (auto simp: rate_inv_def)
    qed
  next
    case (Fire tm)
    show ?thesis
    proof (cases "tm = SendDataTimer \<and> timers s SendDataTimer \<noteq> None \<and> \<not> (sender_flowMap s = [] \<or> now \<ge> stopTime cfg)")
      case False
      with assms(1) x Fire show ?thesis by (intro keep) (cases tm; auto simp: TIMELY_handleSelfMessage_def split: if_splits)+
    next
      case True
      with assms(1) x Fire have "TIMELY_send_data cfg now (s\<lparr>timers := (timers s)(SendDataTimer := None)\<rparr>) = Inr (s', es)"
        by (auto simp: TIMELY_handleSelfMessage_def)
      then show ?thesis
      proof (rule timely_send_Inr)
        fix it f len rest lst t s2 s3
        assume a: "s2 = advance_flow it (f\<lparr>remainLength := rest, pckseq := pckseq f + 1\<rparr>) rest
            (note_flow f (s\<lparr>timers := (timers s)(SendDataTimer := None)\<rparr>))"
          "timely_burst cfg now len s2 = Inr (t, s3)" "s' = s3\<lparr>timers := (timers s3)(SendDataTimer := Some t)\<rparr>"
        have "hostRate s2 = hostRate s" "rtt_diff s2 = rtt_diff s" "currentRTT s2 = currentRTT s"
          unfolding a(1) by (auto simp: advance_flow_def finish_flow_def put_flow_def note_flow_def)
        moreover have "hostRate s3 = hostRate s2" "rtt_diff s3 = rtt_diff s2" "currentRTT s3 = currentRTT s2"
          by (subst burst_frame(1)[OF a(2)], simp)+
        ultimately show ?thesis using a(3) by (intro keep) simp_all
      qed
    qed
  qed
qed

interpretation timely_rates: machine "TIMELY_handleMessage cfg" "rate_inv cfg D" "rtt_within D" for cfg D
  by unfold_locales (rule rate_step_inv)

text \<open>The rate stays positive while no round-trip time exceeds \<open>minRTT / beta\<close>.\<close>

theorem timely_rate_positive:
  assumes "rtt_params cfg D" and "\<forall>x\<in>set xs. rtt_within D x"
    and "run_out (TIMELY_handleMessage cfg) xs (TIMELY_initialize cfg) = Inr (s, es)"
  shows "0 < hostRate s"
proof -
  have "rate_inv cfg D (TIMELY_initialize cfg)" using assms(1) by (auto simp: rate_inv_def TIMELY_initialize_def rtt_params_def)
  from timely_rates.inv_run[OF this assms(2,3)] show ?thesis by (simp add: rate_inv_def)
qed

theorem timely_rate_positive_witness:
  "\<exists>s es. run_out (TIMELY_handleMessage sample_timely) [(5, Lower (sample_rtt 24)), (9, Lower (sample_rtt 10))]
     (TIMELY_initialize sample_timely) = Inr (s, es) \<and> 0 < hostRate s"
proof -
  obtain s es where r: "run_out (TIMELY_handleMessage sample_timely) [(5, Lower (sample_rtt 24)), (9, Lower (sample_rtt 10))]
     (TIMELY_initialize sample_timely) = Inr (s, es)"
    by (simp add: TIMELY_processLowerpck_def TIMELY_receive_ack_def timely_adapt_def TIMELY_initialize_def sample_timely_def sample_rtt_def)
  have "0 < hostRate s"
    by (rule timely_rate_positive[OF _ _ r, of 24]) (simp_all add: rtt_params_def sample_timely_def rtt_within_def sample_rtt_def)
  with r show ?thesis by blast
qed

text \<open>The next packet fills the burst.\<close>

definition fills_burst :: "timely_cfg \<Rightarrow> timely \<Rightarrow> bool" where
  "fills_burst cfg u \<longleftrightarrow> (\<exists>it f. iter u = Some it \<and> map_get (sender_flowMap u) it = Some f \<and>
     TIMELYseg cfg \<le> accumlength u + fst (timely_cut cfg (accumlength u) (remainLength f)))"

lemma negative_rate_fails:
  assumes "hostRate u < 0" and "timely_inv cfg u" and "fills_burst cfg u"
  shows "\<exists>e. TIMELY_send_data cfg now u = Inl e"
proof (rule ccontr)
  assume "\<not> ?thesis"
  then obtain r where "TIMELY_send_data cfg now u = Inr r" by (cases "TIMELY_send_data cfg now u") auto
  then obtain u' es where s: "TIMELY_send_data cfg now u = Inr (u', es)" by (cases r) auto
  then obtain it f len rest lst t s2 s3 where a: "iter u = Some it" "map_get (sender_flowMap u) it = Some f"
    "timely_cut cfg (accumlength u) (remainLength f) = (len, rest, lst)"
    "s2 = advance_flow it (f\<lparr>remainLength := rest, pckseq := pckseq f + 1\<rparr>) rest (note_flow f u)"
    "timely_burst cfg now len s2 = Inr (t, s3)"
    by (rule timely_send_Inr)
  from s a have "scheduleAt SendDataTimer now t s3 \<noteq> Inl (RuntimeError ''cannot schedule a message to the past'')"
    by (auto simp: TIMELY_send_data_def Let_def)
  moreover have "timers s3 SendDataTimer = None"
    using s a by (auto simp: TIMELY_send_data_def Let_def rbind_eq_Inr scheduleAt_Inr)
  moreover have "t < now"
  proof -
    have eqs: "accumlength s2 = accumlength u" "hostRate s2 = hostRate u" "segcount s2 = segcount u"
      unfolding a(4) by (auto simp: advance_flow_def finish_flow_def put_flow_def note_flow_def)
    have f: "TIMELYseg cfg \<le> accumlength u + len" using assms(3) a(1-3) by (auto simp: fills_burst_def)
    have "0 < TIMELYseg cfg" "0 \<le> segcount u" using assms(2) by (auto simp: timely_inv_def timely_cfg_ok_def)
    then have "(0 :: real) < of_int ((TIMELYseg cfg + (segcount u + 1) * 58) * 8)" by (simp only: of_int_0_less_iff) simp
    then have "of_int ((TIMELYseg cfg + (segcount u + 1) * 58) * 8) / hostRate u < 0" using assms(1) by (rule divide_pos_neg)
    with burst_frame(4)[OF a(5)] eqs f show ?thesis by simp
  qed
  ultimately show False by (simp add: scheduleAt_def)
qed

text \<open>The first difference of round-trip times is taken to zero, so a host that measures the same time
  \<open>a\<close> twice sees a growing one.  When \<open>a\<close> is above \<open>minRTT / (alpha * (1 - alpha) * beta)\<close> and between the two
  thresholds, its rate is negative after the second acknowledgement, and the simulation ends with
  the burst: the next packet would have to be scheduled in the past.\<close>

theorem timely_constant_rtt_negative:
  assumes "0 < a" and "Tlow cfg \<le> a" and "a \<le> Thigh cfg" and "0 < minRTT cfg" and "0 < linkspeed cfg" and "0 \<le> beta cfg"
    and "minRTT cfg < beta cfg * (alpha cfg * (1 - alpha cfg) * a)"
    and "contains ''ACK'' (p_name p)" and "\<not> contains ''TIMELYData'' (p_name p)" and "d_time p = a"
    and "contains ''ACK'' (p_name q)" and "\<not> contains ''TIMELYData'' (p_name q)" and "d_time q = a"
  shows "\<exists>s. run_out (TIMELY_handleMessage cfg) [(t1, Lower p), (t2, Lower q)] (TIMELY_initialize cfg) = Inr (s, []) \<and>
     hostRate s < 0 \<and>
     (\<forall>u now. hostRate u = hostRate s \<longrightarrow> timely_inv cfg u \<longrightarrow> fills_burst cfg u \<longrightarrow> (\<exists>e. TIMELY_send_data cfg now u = Inl e))"
proof -
  let ?g = "(1 - alpha cfg) * (alpha cfg * a)"
  have g: "minRTT cfg < beta cfg * ?g" using assms(7) by (simp add: mult_ac)
  then have "0 < beta cfg * ?g" using assms(4) by linarith
  then have "0 < ?g" using assms(6) by (simp add: zero_less_mult_iff)
  then have pos: "\<not> ?g / minRTT cfg \<le> 0" using assms(4) by (simp add: not_le)
  have neg: "linkspeed cfg * (1 - beta cfg * (?g / minRTT cfg)) < 0"
  proof -
    have "1 < beta cfg * ?g / minRTT cfg" using g assms(4) by simp
    then show ?thesis using assms(5) by (intro mult_pos_neg) simp_all
  qed
  let ?s1 = "(TIMELY_initialize cfg)\<lparr>currentRTT := a, rtt_diff := alpha cfg * a\<rparr>"
  let ?s2 = "?s1\<lparr>lastRTT := a, rtt_diff := ?g, hostRate := linkspeed cfg * (1 - beta cfg * (?g / minRTT cfg)), Number := 1\<rparr>"
  have s1: "TIMELY_handleMessage cfg (t1, Lower p) (TIMELY_initialize cfg) = Inr (?s1, [])"
    using assms(8-10) by (simp add: TIMELY_processLowerpck_def TIMELY_receive_ack_def timely_adapt_def TIMELY_initialize_def)
  have "TIMELY_handleMessage cfg (t2, Lower q) ?s1 = Inr (?s2, [])"
    using assms(1-3) assms(11-13) pos assms(4)
    by (simp add: TIMELY_processLowerpck_def TIMELY_receive_ack_def timely_adapt_def TIMELY_initialize_def)
  with s1 have "run_out (TIMELY_handleMessage cfg) [(t1, Lower p), (t2, Lower q)] (TIMELY_initialize cfg) = Inr (?s2, [])" by simp
  with neg show ?thesis by (intro exI[of _ ?s2]) (auto intro: negative_rate_fails)
qed

theorem timely_constant_rtt_negative_witness:
  "\<exists>s. run_out (TIMELY_handleMessage sample_timely) [(5, Lower (sample_rtt 400)), (9, Lower (sample_rtt 400))]
     (TIMELY_initialize sample_timely) = Inr (s, []) \<and> hostRate s < 0"
proof -
  have n: "contains ''ACK'' (p_name (sample_rtt 400))" "\<not> contains ''TIMELYData'' (p_name (sample_rtt 400))" "d_time (sample_rtt 400) = 400"
    by (simp_all add: sample_rtt_def)
  from timely_constant_rtt_negative[OF _ _ _ _ _ _ _ n n, of sample_timely 5 9] show ?thesis by (auto simp: sample_timely_def)
qed

text \<open>Sizes in whole packets.\<close>

definition whole :: "timely_cfg \<Rightarrow> timely \<Rightarrow> bool" where
  "whole cfg s \<longleftrightarrow> timely_inv cfg s \<and> max_pck_size cfg dvd TIMELYseg cfg \<and> max_pck_size cfg dvd accumlength s \<and>
     (\<forall>k f. map_get (sender_flowMap s) k = Some f \<longrightarrow> max_pck_size cfg dvd remainLength f)"

fun whole_request :: "timely_cfg \<Rightarrow> simtime \<times> cc_op \<Rightarrow> bool" where
  "whole_request cfg (now, Upper p) =
     (activate cfg \<and> (contains ''Data'' (p_name p) \<longrightarrow> max_pck_size cfg dvd message_length (last (p_tags p))))"
| "whole_request cfg (now, _) = activate cfg"

lemma whole_cut:
  assumes "timely_cut cfg accum remain = (len, rest, lst)" and "0 \<le> accum" and "accum < TIMELYseg cfg"
    and "0 < max_pck_size cfg" and "max_pck_size cfg dvd TIMELYseg cfg" and "max_pck_size cfg dvd accum"
    and "max_pck_size cfg dvd remain"
  shows "\<not> lst" and "max_pck_size cfg dvd rest" and "max_pck_size cfg dvd len"
proof -
  have "max_pck_size cfg dvd TIMELYseg cfg - accum" using assms(5,6) by simp
  then have "max_pck_size cfg \<le> TIMELYseg cfg - accum" using assms(3,4) by (intro zdvd_imp_le) auto
  then have "\<not> accum + max_pck_size cfg > TIMELYseg cfg" by simp
  with assms(1,7) show "\<not> lst" "max_pck_size cfg dvd rest" "max_pck_size cfg dvd len"
    by (auto simp: timely_cut_def split: if_splits)
qed

lemma whole_step:
  assumes "TIMELY_handleMessage cfg x s = Inr (s', es)" and "whole cfg s" and "whole_request cfg x"
  shows "whole cfg s' \<and> (\<forall>p\<in>set (timely_data es). \<not> burst_end p)"
proof -
  have i: "timely_inv cfg s" "timely_inv cfg s'" using assms(1,2) timely_step_inv by (auto simp: whole_def)
  have act: "activate cfg" using assms(3) by (cases "(cfg, x)" rule: whole_request.cases) auto
  from assms(1) act show ?thesis
  proof (cases rule: timely_step_cases)
    case (request now p)
    have m: "accumlength s' = accumlength s" using sender_upper_frame[OF request(3)] by (cases s; cases s') simp
    have d: "max_pck_size cfg dvd message_length (last (p_tags p))" using assms(3) request(1,2) by simp
    from request(3) have "\<forall>k f. map_get (sender_flowMap s') k = Some f \<longrightarrow> max_pck_size cfg dvd remainLength f"
    proof (cases rule: sender_upper_cases)
      case pass
      with request(2) show ?thesis by simp
    next
      case (data k s1)
      have "\<forall>j f. map_get (sender_flowMap s1) j = Some f \<longrightarrow> max_pck_size cfg dvd remainLength f"
        unfolding data(5) using assms(2) d by (auto simp: whole_def get_put timely_new_flow_def)
      with data(6) show ?thesis by (auto split: if_splits)
    qed
    with m i assms(2) request(4) show ?thesis by (simp add: whole_def)
  next
    case (send now)
    from send(3) i(1) show ?thesis
    proof (rule timely_send_burst)
      fix it f len rest lst t p
      assume a: "map_get (sender_flowMap s) it = Some f" "timely_data es = [p]" "burst_end p = lst"
        "timely_cut cfg (accumlength s) (remainLength f) = (len, rest, lst)"
        "accumlength s' = (if TIMELYseg cfg \<le> accumlength s + len then 0 else accumlength s + len)"
        "sender_flowMap s' = (if rest = 0 then map_erase it (sender_flowMap s)
           else map_put it (f\<lparr>remainLength := rest, pckseq := pckseq f + 1\<rparr>) (sender_flowMap s))"
      have w: "0 \<le> accumlength s" "accumlength s < TIMELYseg cfg" "0 < max_pck_size cfg" "wf_map (sender_flowMap s)"
        "max_pck_size cfg dvd TIMELYseg cfg" "max_pck_size cfg dvd accumlength s" "max_pck_size cfg dvd remainLength f"
        using assms(2) a(1) by (auto simp: whole_def timely_inv_def timely_cfg_ok_def sender_inv_def)
      note c = whole_cut[OF a(4) w(1-3,5-7)]
      have "\<forall>j g. map_get (sender_flowMap s') j = Some g \<longrightarrow> max_pck_size cfg dvd remainLength g"
        unfolding a(6) using assms(2) c(2) w(4) by (auto simp: whole_def get_put get_erase)
      moreover have "max_pck_size cfg dvd accumlength s'" using a(5) w(6) c(3) by simp
      ultimately show ?thesis using i(2) w(5) a(2,3) c(1) by (simp add: whole_def)
    qed
  next
    case other
    with assms(2) i show ?thesis by (simp add: whole_def)
  qed
qed

interpretation timely_whole: recorded_machine "TIMELY_handleMessage cfg" "whole cfg" "whole_request cfg"
    "\<lambda>s log. \<forall>p\<in>set (timely_data log). \<not> burst_end p" for cfg
  by unfold_locales (use whole_step in \<open>force simp: timely_data_append\<close>)+

text \<open>No feedback at all.  When the packet size divides \<open>TIMELYseg\<close> and the sizes of all flows, bursts are filled by
  whole packets and the test that flags their last packet never succeeds: no packet asks for an
  acknowledgement, so no round-trip time is ever measured and the rate is never adapted.\<close>

theorem timely_no_feedback:
  assumes "timely_cfg_ok cfg" and "max_pck_size cfg dvd TIMELYseg cfg" and "\<forall>x\<in>set xs. whole_request cfg x"
    and "run_out (TIMELY_handleMessage cfg) xs (TIMELY_initialize cfg) = Inr (s, es)"
  shows "\<forall>p\<in>set (timely_data es). \<not> burst_end p"
proof -
  have "whole cfg (TIMELY_initialize cfg)"
    using timely_init_inv[OF assms(1)] assms(2) by (simp add: whole_def TIMELY_initialize_def)
  from timely_whole.record_run[OF this assms(3) _ assms(4), of "[]"] show ?thesis by simp
qed

theorem timely_no_feedback_witness:
  "\<exists>s p. run_out (TIMELY_handleMessage sample_timely) [(0, Upper (sample_flow_of 4000)), (0, Fire SendDataTimer)]
       (TIMELY_initialize sample_timely) = Inr (s, [Arm SendDataTimer 0, Arm SendDataTimer 0, SendDown p]) \<and>
     timely_data [SendDown p] = [p] \<and> \<not> burst_end p"
proof -
  obtain s p where r: "run_out (TIMELY_handleMessage sample_timely) [(0, Upper (sample_flow_of 4000)), (0, Fire SendDataTimer)]
       (TIMELY_initialize sample_timely) = Inr (s, [Arm SendDataTimer 0, Arm SendDataTimer 0, SendDown p])"
    and n: "contains ''TIMELYData'' (p_name p)"
    by (simp add: timely_eval packet_name_def)
  have "\<forall>p\<in>set (timely_data [Arm SendDataTimer 0, Arm SendDataTimer 0, SendDown p]). \<not> burst_end p"
    by (rule timely_no_feedback[OF sample_timely_ok(1) _ _ r]) (auto simp: sample_timely_def sample_flow_of_def message_length_def)
  with r n show ?thesis by auto
qed

end
