(* ===== verification/Packet_Sender.thy ===== *)
theory Packet_Sender
  imports Flow_Steps
begin

section \<open>Senders that keep packets\<close>

text \<open>
  HPCC and POSEIDON do not cut a flow while sending it, as the flow-based controls do: a message is
  cut at once, its packets are filed in \<open>sender_packetMap\<close> under consecutive numbers and stay there
  until they are acknowledged, so that they can be sent again.  What they share is here: the
  filing of a message, and the bookkeeping that every packet ever filed keeps its number and
  contents.  They differ in the type of the map's keys, which \<open>key\<close> makes of a packet number, and in how a stopped
  sender is started, which is the parameter \<open>start\<close>.
\<close>

record pck_info =
  pi_src :: int
  pi_dest :: int
  pi_flowid :: u32
  pi_sport :: int
  pi_dport :: int
  pi_length :: int
  pi_priority :: int
  pi_cretime :: simtime
  pi_last :: bool


record 'k pck_sender =
  sender_packetMap :: "('k, pck_info) smap"
  pk_state :: sender_state
  senddata :: "simtime option"
  packetid :: u64
  nxtSendpacketid :: u64
  pk_lastflowid :: u32
  pk_last_creation_time :: simtime

text \<open>A packet number read into an \<open>int\<close>; \<open>int packetid = nxtSendpacketid\<close>, read back as a key of the map.\<close>

definition number_of :: "int \<Rightarrow> int" where
  "number_of n = sint (word_of_int n :: u32)"

definition int_packetid :: "u64 \<Rightarrow> u64" where
  "int_packetid n = word_of_int (number_of (uint n))"

lemma int_packetid_small [simp]: "int_packetid 0 = 0" "int_packetid 1 = 1"
  by (simp_all add: int_packetid_def number_of_def)

lemma number_next:
  assumes "number_of (uint x) \<noteq> 2 ^ 31 - 1"
  shows "number_of (uint (int_packetid x + 1)) = number_of (uint x) + 1"
proof -
  let ?k = "number_of (uint x)"
  have k: "- (2 ^ 31) \<le> ?k" "?k < 2 ^ 31"
    unfolding number_of_def using sint_greater_eq[of "word_of_int (uint x) :: u32"] sint_lt[of "word_of_int (uint x) :: u32"] by simp_all
  have w: "int_packetid x + 1 = (word_of_int (?k + 1) :: u64)" by (simp add: int_packetid_def)
  have "uint (int_packetid x + 1) = (?k + 1) mod 2 ^ 64"
    unfolding w uint_word_of_int by simp
  then have "number_of (uint (int_packetid x + 1)) = signed_take_bit 31 ((?k + 1) mod 2 ^ 64)"
    by (simp add: number_of_def sint_sbintrunc')
  also have "\<dots> = signed_take_bit 31 (?k + 1)"
    unfolding take_bit_eq_mod[symmetric] signed_take_bit_take_bit by simp
  also have "\<dots> = ?k + 1" using k assms by (intro signed_take_bit_int_eq_self) simp_all
  finally show ?thesis .
qed

lemma int_packetid_next:
  assumes "number_of (uint x) \<noteq> 2 ^ 31 - 1"
  shows "int_packetid (int_packetid x + 1) = int_packetid x + 1"
  by (subst int_packetid_def) (simp add: number_next[OF assms], simp add: int_packetid_def)

lemma number_of_id: "0 \<le> k \<Longrightarrow> k < 2 ^ 31 \<Longrightarrow> number_of k = k"
  unfolding number_of_def sint_sbintrunc' by (intro signed_take_bit_int_eq_self) simp_all

lemma number_unat:
  fixes x :: u64
  assumes "unat x < 2 ^ 31"
  shows "number_of (uint x) = int (unat x)"
proof -
  have x: "uint x = int (unat x)" by simp
  from assms have "int (unat x) < int (2 ^ 31)" unfolding of_nat_less_iff .
  then show ?thesis unfolding x of_nat_power of_nat_numeral by (rule number_of_id[OF of_nat_0_le_iff])
qed

lemma int_packetid_id:
  fixes x :: u64
  assumes "unat x < 2 ^ 31"
  shows "int_packetid x = x"
  unfolding int_packetid_def number_unat[OF assms] by simp

lemma number_upper: "number_of k < 2 ^ 31"
  unfolding number_of_def using sint_lt[of "word_of_int k :: u32"] by simp

text \<open>\<open>scheduleAt(t, senddata)\<close>, and \<open>cancelEvent(senddata)\<close> before it.\<close>

definition scheduleSenddata :: "simtime \<Rightarrow> simtime \<Rightarrow> ('k, 'z) pck_sender_scheme \<Rightarrow> (('k, 'z) pck_sender_scheme \<times> cc_effect list) res" where
  "scheduleSenddata now t s =
     (if senddata s \<noteq> None then Inl AlreadyScheduled
      else if t < now then Inl (RuntimeError ''cannot schedule a message to the past'')
      else Inr (s\<lparr>senddata := Some t\<rparr>, [Arm SendDataTimer t]))"

definition rescheduleSenddata :: "simtime \<Rightarrow> simtime \<Rightarrow> ('k, 'z) pck_sender_scheme \<Rightarrow> (('k, 'z) pck_sender_scheme \<times> cc_effect list) res" where
  "rescheduleSenddata now t s =
     rbind (scheduleSenddata now t (s\<lparr>senddata := None\<rparr>)) (\<lambda>(s', es). Inr (s', Cancel SendDataTimer # es))"

text \<open>\<open>math::clamp\<close>\<close>

definition clamp :: "double \<Rightarrow> double \<Rightarrow> double \<Rightarrow> double" where
  "clamp v l u = (if v < l then l else if v > u then u else v)"

lemma clamp_bounds: "l \<le> u \<Longrightarrow> l \<le> clamp v l u \<and> clamp v l u \<le> u"
  by (simp add: clamp_def)

lemma shrink:
  fixes x m :: double
  shows "0 < x \<Longrightarrow> x \<le> m \<Longrightarrow> 0 < c \<Longrightarrow> c \<le> 1 \<Longrightarrow> 0 < x * c \<and> x * c \<le> m"
  by (rule conjI, simp, rule order_trans[of _ "x * 1"], rule mult_left_mono) simp_all

subsection \<open>Filing a message\<close>

text \<open>The loop of \<open>processUpperpck\<close> with \<open>n\<close> packets still to enter; the first starts a stopped sender.\<close>

fun enter_packets ::
    "(u64 \<Rightarrow> 'k) \<Rightarrow> (('k::linorder, 'z) pck_sender_scheme \<Rightarrow> (('k::linorder, 'z) pck_sender_scheme \<times> cc_effect list) res) \<Rightarrow> pck_info \<Rightarrow> int \<Rightarrow> int \<Rightarrow> nat \<Rightarrow>
       ('k::linorder, 'z) pck_sender_scheme \<Rightarrow> (('k::linorder, 'z) pck_sender_scheme \<times> cc_effect list) res" where
  "enter_packets key start info maxLen lastLen 0 s = Inr (s, [])"
| "enter_packets key start info maxLen lastLen (Suc n) s =
     (let p = info\<lparr>pi_length := (if n = 0 then lastLen else maxLen), pi_last := (n = 0)\<rparr>;
          s1 = s\<lparr>sender_packetMap := map_put (key (packetid s)) p (sender_packetMap s)\<rparr>
      in rbind (if pk_state s1 = STOPPING then start (s1\<lparr>pk_state := SENDING\<rparr>) else Inr (s1, [])) (\<lambda>(s2, es).
         rbind (enter_packets key start info maxLen lastLen n (s2\<lparr>packetid := packetid s2 + 1\<rparr>)) (\<lambda>(s3, es').
           Inr (s3, es @ es'))))"

text \<open>\<open>maxPckNum\<close> and \<open>lastPckLen\<close>; a message of no bytes makes no packet.\<close>

definition cut_message :: "int \<Rightarrow> int \<Rightarrow> int \<times> int" where
  "cut_message maxLen len =
     (if len mod maxLen = 0 then (len div maxLen, maxLen) else (len div maxLen + 1, len mod maxLen))"

text \<open>What the packets of a message have in common.\<close>

definition message_info :: "hitag \<Rightarrow> dgram \<Rightarrow> pck_info" where
  "message_info tag pck =
     \<lparr>pi_src = d_src pck, pi_dest = d_dest pck, pi_flowid = ht_flowid tag, pi_sport = d_sport pck,
      pi_dport = d_dport pck, pi_length = 0, pi_priority = ht_priority tag, pi_cretime = ht_cretime tag, pi_last = False\<rparr>"

definition packet_upper ::
    "(u64 \<Rightarrow> 'k) \<Rightarrow> (('k::linorder, 'z) pck_sender_scheme \<Rightarrow> (('k::linorder, 'z) pck_sender_scheme \<times> cc_effect list) res) \<Rightarrow> bool \<Rightarrow> int \<Rightarrow> dgram \<Rightarrow>
       ('k::linorder, 'z) pck_sender_scheme \<Rightarrow> (('k::linorder, 'z) pck_sender_scheme \<times> cc_effect list) res" where
  "packet_upper key start act mx pck s =
     (if contains ''Data'' (p_name pck) \<and> act then
        rbind (last_tag (packet.truncate pck)) (\<lambda>tag.
          if mx = 0 then Inl (RuntimeError ''division by zero'')
          else
            let (maxPckNum, lastPckLen) = cut_message mx (payload_of pck)
            in enter_packets key start (message_info tag pck) mx lastPckLen (nat maxPckNum) s)
      else Inr (s, [SendDown pck]))"

subsection \<open>Sending a packet again\<close>

text \<open>
  The datagram made from a filed packet: name and number, the payload and 8 bytes of the UDP header
  below \<open>extra\<close> bytes of the protocol's own header.  The creation time it is stamped with is the one
  noted when the sender last switched flows.
\<close>

definition note_packet :: "pck_info \<Rightarrow> ('k, 'z) pck_sender_scheme \<Rightarrow> ('k, 'z) pck_sender_scheme" where
  "note_packet i s =
     (if pk_lastflowid s \<noteq> pi_flowid i then s\<lparr>pk_last_creation_time := pi_cretime i, pk_lastflowid := pi_flowid i\<rparr> else s)"

definition filed_dgram :: "string \<Rightarrow> int \<Rightarrow> u64 \<Rightarrow> simtime \<Rightarrow> pck_info \<Rightarrow> dgram" where
  "filed_dgram nm extra n cret i =
     \<lparr>p_id = 0, p_name = nm @ ''-'' @ digits (unat n), p_len = nat (8 * (pi_length i + 8 + extra)), p_iface = 0, p_ecn = None,
      p_tags = [\<lparr>ht_flowid = pi_flowid i, ht_priority = pi_priority i, ht_flowsize = 0, ht_cretime = cret,
                 ht_packetid = uint n, ht_last = pi_last i,
        ht_queueid = 0, ht_decel = False, ht_speedup = False, ht_sender_priority = -1\<rparr>],
      p_bfc = None, p_ispause = None, d_src = pi_src i, d_dest = pi_dest i, d_sport = pi_sport i, d_dport = pi_dport i,
      d_ecn = 0, d_recRate = 0, d_int = None, d_psd = None, d_sack = None, d_time = 0\<rparr>"

lemma digits_0: "digits 0 = ''0''"
  by code_simp

lemma note_packet_frame [simp]:
  "sender_packetMap (note_packet i s) = sender_packetMap s" "pk_state (note_packet i s) = pk_state s"
  "senddata (note_packet i s) = senddata s" "packetid (note_packet i s) = packetid s"
  "nxtSendpacketid (note_packet i s) = nxtSendpacketid s" "pck_sender.more (note_packet i s) = pck_sender.more s"
  by (simp_all add: note_packet_def)

subsection \<open>The packets of a message\<close>

lemma key_apart: "0 < i \<Longrightarrow> i < 2 ^ 64 \<Longrightarrow> (x :: u64) + of_nat i \<noteq> x"
  by (auto simp: word_of_nat_eq_0_iff dest: dvd_imp_le)

definition piece :: "pck_info \<Rightarrow> int \<Rightarrow> int \<Rightarrow> nat \<Rightarrow> nat \<Rightarrow> pck_info" where
  "piece info mx lst n i = info\<lparr>pi_length := (if Suc i = n then lst else mx), pi_last := (Suc i = n)\<rparr>"

definition pieces :: "pck_info \<Rightarrow> int \<Rightarrow> int \<Rightarrow> nat \<Rightarrow> pck_info list" where
  "pieces info mx lst n = map (piece info mx lst n) [0..<n]"

lemma pieces_Suc: "pieces info mx lst (Suc n) = piece info mx lst (Suc n) 0 # pieces info mx lst n"
proof -
  have "[0..<Suc n] = 0 # map Suc [0..<n]" by (simp add: map_Suc_upt upt_conv_Cons)
  then show ?thesis by (simp add: pieces_def piece_def comp_def)
qed

lemma length_pieces [simp]: "length (pieces info mx lst n) = n"
  by (simp add: pieces_def)

lemma pieces_nth: "i < n \<Longrightarrow> pieces info mx lst n ! i = piece info mx lst n i"
  by (simp add: pieces_def)

text \<open>The pieces cover the message.\<close>

lemma pieces_cover:
  assumes "cut_message mx len = (n, lst)" and "0 < mx" and "0 < len"
  shows "n = (len + mx - 1) div mx" and "0 < lst" and "lst \<le> mx" and "(n - 1) * mx + lst = len" and "0 < n" and "n \<le> len"
proof -
  have d: "len = len div mx * mx + len mod mx" by simp
  have r: "0 \<le> len mod mx" "len mod mx < mx" using assms(2) by simp_all
  show c: "(n - 1) * mx + lst = len" and l: "0 < lst" and u: "lst \<le> mx"
    using assms d r by (auto simp: cut_message_def algebra_simps split: if_splits)
  show "0 < n"
  proof (rule ccontr)
    assume "\<not> 0 < n"
    then have "(n - 1) * mx \<le> (- 1) * mx" using assms(2) by (intro mult_right_mono) auto
    with c u assms(3) show False by simp
  qed
  then have "(n - 1) * 1 \<le> (n - 1) * mx" using assms(2) by (intro mult_left_mono) auto
  with c l show "n \<le> len" by simp
  have "len + mx - 1 = n * mx + (lst - 1)" using c by (simp add: algebra_simps)
  moreover have "(n * mx + (lst - 1)) div mx = n" using l u assms(2) by (simp add: div_pos_pos_trivial)
  ultimately show "n = (len + mx - 1) div mx" by (simp only:)
qed

lemma single_piece: "0 < len \<Longrightarrow> len \<le> mx \<Longrightarrow> cut_message mx len = (1, len)"
  by (cases "len = mx") (auto simp: cut_message_def)

subsection \<open>Filed packets\<close>

text \<open>
  \<open>F\<close> is every packet filed so far, in order.  The number of a packet is its place in \<open>F\<close>, and the map
  holds some of them under their numbers.
\<close>

definition filed_as :: "pck_info list \<Rightarrow> (u64, 'z) pck_sender_scheme \<Rightarrow> bool" where
  "filed_as F s \<longleftrightarrow> packetid s = of_nat (length F) \<and>
     (\<forall>(n, i) \<in> set (sender_packetMap s). unat n < length F \<and> i = F ! unat n)"

lemma filed_get: "filed_as F s \<Longrightarrow> map_get (sender_packetMap s) n = Some i \<Longrightarrow> unat n < length F \<and> i = F ! unat n"
  by (auto simp: filed_as_def dest: map_get_entry)

lemma note_packet_filed [simp]: "filed_as F (note_packet i s) = filed_as F s"
  by (simp add: filed_as_def)

lemma filed_cong:
  "packetid s' = packetid s \<Longrightarrow> set (sender_packetMap s') \<subseteq> set (sender_packetMap s) \<Longrightarrow> filed_as F s \<Longrightarrow> filed_as F s'"
  by (auto simp: filed_as_def)

lemma filed_put:
  assumes "filed_as F s" and "length F < 2 ^ 64"
  shows "filed_as (F @ [i]) (s\<lparr>sender_packetMap := map_put (packetid s) i (sender_packetMap s), packetid := packetid s + 1\<rparr>)"
proof -
  have u: "unat (of_nat (length F) :: u64) = length F" using assms(2) by (simp add: unat_of_nat take_bit_nat_eq_self)
  have "unat n < length (F @ [i]) \<and> j = (F @ [i]) ! unat n" if "(n, j) \<in> insert (packetid s, i) (set (sender_packetMap s))" for n j
    using that assms(1) u by (auto simp: filed_as_def nth_append)
  then have "unat n < length (F @ [i]) \<and> j = (F @ [i]) ! unat n"
    if "(n, j) \<in> set (map_put (packetid s) i (sender_packetMap s))" for n j
    using that set_put[of "packetid s" i "sender_packetMap s"] by blast
  moreover have "packetid s + 1 = of_nat (length (F @ [i]))" using assms(1) by (simp add: filed_as_def)
  ultimately show ?thesis unfolding filed_as_def by (auto simp del: length_append)
qed

subsection \<open>Starting a sender\<close>

text \<open>Effects that send nothing.\<close>

definition quiet :: "cc_effect list \<Rightarrow> bool" where
  "quiet es \<longleftrightarrow> (\<forall>p. SendDown p \<notin> set es \<and> SendUp p \<notin> set es)"

lemma quiet_simps [simp]:
  "quiet []" "quiet (Arm tm t # es) = quiet es" "quiet (Cancel tm # es) = quiet es" "\<not> quiet (SendDown p # es)"
  "\<not> quiet (SendUp p # es)" "quiet (es @ es') \<longleftrightarrow> quiet es \<and> quiet es'"
  by (auto simp: quiet_def)

lemma reschedule_Inr:
  assumes "rescheduleSenddata now t s = Inr (s', es)"
  shows "s' = s\<lparr>senddata := Some t\<rparr>" and "quiet es"
  using assms by (auto simp: rescheduleSenddata_def scheduleSenddata_def split: if_splits)

text \<open>Starting a sender touches its timer only.\<close>

locale packet_starter =
  fixes key :: "u64 \<Rightarrow> 'k::linorder"
    and start :: "('k::linorder, 'z) pck_sender_scheme \<Rightarrow> (('k::linorder, 'z) pck_sender_scheme \<times> cc_effect list) res"
  assumes start_shape: "start s = Inr (s', es) \<Longrightarrow> (\<exists>d. s' = s\<lparr>senddata := d\<rparr>) \<and> quiet es"
begin

lemma enter_cons:
  assumes "enter_packets key start info mx lst (Suc n) s = Inr (s', es)"
  obtains st d es1 es2 where
    "enter_packets key start info mx lst n (s\<lparr>sender_packetMap := map_put (key (packetid s)) (piece info mx lst (Suc n) 0) (sender_packetMap s),
       packetid := packetid s + 1, pk_state := st, senddata := d\<rparr>) = Inr (s', es2)"
    and "es = es1 @ es2" and "quiet es1" and "st \<noteq> STOPPING"
    and "pk_state s \<noteq> STOPPING \<Longrightarrow> st = pk_state s \<and> d = senddata s \<and> es1 = []"
proof -
  let ?p = "piece info mx lst (Suc n) 0"
  let ?t = "s\<lparr>sender_packetMap := map_put (key (packetid s)) ?p (sender_packetMap s)\<rparr>"
  have p: "?p = info\<lparr>pi_length := (if n = 0 then lst else mx), pi_last := (n = 0)\<rparr>" by (cases n) (simp_all add: piece_def)
  show thesis
  proof (cases "pk_state s = STOPPING")
    case True
    from assms have "rbind (start (?t\<lparr>pk_state := SENDING\<rparr>)) (\<lambda>(s2, es).
         rbind (enter_packets key start info mx lst n (s2\<lparr>packetid := packetid s2 + 1\<rparr>)) (\<lambda>(s3, es'). Inr (s3, es @ es'))) =
         Inr (s', es)" using True by (simp only: enter_packets.simps Let_def p) simp
    then obtain s1 es1 es2 where s1: "start (?t\<lparr>pk_state := SENDING\<rparr>) = Inr (s1, es1)"
      and r: "enter_packets key start info mx lst n (s1\<lparr>packetid := packetid s1 + 1\<rparr>) = Inr (s', es2)" and es: "es = es1 @ es2"
      unfolding rbind_eq_Inr by (auto simp: rbind_eq_Inr)
    from start_shape[OF s1] obtain d where d: "s1 = ?t\<lparr>pk_state := SENDING, senddata := d\<rparr>" and q: "quiet es1" by auto
    have "s1\<lparr>packetid := packetid s1 + 1\<rparr> = s\<lparr>sender_packetMap := map_put (key (packetid s)) ?p (sender_packetMap s),
       packetid := packetid s + 1, pk_state := SENDING, senddata := d\<rparr>" by (simp add: d)
    from that[OF r[unfolded this] es q] True show thesis by simp
  next
    case False
    have "s\<lparr>sender_packetMap := map_put (key (packetid s)) ?p (sender_packetMap s), packetid := packetid s + 1,
        pk_state := pk_state s, senddata := senddata s\<rparr> = ?t\<lparr>packetid := packetid s + 1\<rparr>" by simp
    moreover have "enter_packets key start info mx lst n (?t\<lparr>packetid := packetid s + 1\<rparr>) = Inr (s', es)"
    proof -
      from assms have "rbind (Inr (?t, [])) (\<lambda>(s2, es).
         rbind (enter_packets key start info mx lst n (s2\<lparr>packetid := packetid s2 + 1\<rparr>)) (\<lambda>(s3, es'). Inr (s3, es @ es'))) =
         Inr (s', es)" using False by (simp only: enter_packets.simps Let_def p) simp
      then show ?thesis by (auto simp: rbind_eq_Inr)
    qed
    ultimately show thesis using False by (intro that[of "senddata s" "pk_state s" es "[]"]) simp_all
  qed
qed

lemma enter_shape:
  "enter_packets key start info mx lst n s = Inr (s', es) \<Longrightarrow>
     (\<exists>M st d. s' = s\<lparr>sender_packetMap := M, packetid := packetid s + of_nat n, pk_state := st, senddata := d\<rparr> \<and>
        (pk_state s \<noteq> STOPPING \<longrightarrow> st = pk_state s \<and> d = senddata s \<and> es = []) \<and> (0 < n \<longrightarrow> st \<noteq> STOPPING)) \<and> quiet es"
proof (induction n arbitrary: s es)
  case 0
  then show ?case by (auto intro!: exI[of _ "sender_packetMap s"] exI[of _ "pk_state s"] exI[of _ "senddata s"])
next
  case (Suc n)
  from Suc.prems show ?case
  proof (rule enter_cons)
    fix st d es1 es2
    let ?t = "s\<lparr>sender_packetMap := map_put (key (packetid s)) (piece info mx lst (Suc n) 0) (sender_packetMap s),
       packetid := packetid s + 1, pk_state := st, senddata := d\<rparr>"
    assume a: "enter_packets key start info mx lst n ?t = Inr (s', es2)" "es = es1 @ es2" "quiet es1" "st \<noteq> STOPPING"
      "pk_state s \<noteq> STOPPING \<Longrightarrow> st = pk_state s \<and> d = senddata s \<and> es1 = []"
    from Suc.IH[OF a(1)] obtain M where
      "s' = s\<lparr>sender_packetMap := M, packetid := packetid s + 1 + of_nat n, pk_state := st, senddata := d\<rparr>" "es2 = []"
      using a(4) by auto
    with a show ?case by (auto simp: add.assoc intro!: exI[of _ M] exI[of _ st] exI[of _ d])
  qed
qed

end

text \<open>When the keys are the packet numbers, every packet filed is in its place.\<close>

locale numbered_starter = packet_starter "\<lambda>n. n" start
  for start :: "(u64, 'z) pck_sender_scheme \<Rightarrow> ((u64, 'z) pck_sender_scheme \<times> cc_effect list) res"
begin

lemma enter_filed:
  "enter_packets (\<lambda>n. n) start info mx lst n s = Inr (s', es) \<Longrightarrow> filed_as F s \<Longrightarrow> length F + n < 2 ^ 64 \<Longrightarrow>
     filed_as (F @ pieces info mx lst n) s'"
proof (induction n arbitrary: s es F)
  case 0
  then show ?case by (simp add: pieces_def)
next
  case (Suc n)
  from Suc.prems(1) show ?case
  proof (rule enter_cons)
    fix st d es1 es2
    let ?p = "piece info mx lst (Suc n) 0"
    let ?t = "s\<lparr>sender_packetMap := map_put (packetid s) ?p (sender_packetMap s), packetid := packetid s + 1, pk_state := st, senddata := d\<rparr>"
    assume a: "enter_packets (\<lambda>n. n) start info mx lst n ?t = Inr (s', es2)"
    have "filed_as (F @ [?p]) ?t"
      using filed_put[OF Suc.prems(2), of ?p] Suc.prems(3) by (simp add: filed_as_def)
    from Suc.IH[OF a this] Suc.prems(3) show ?case by (simp add: pieces_Suc)
  qed
qed

lemma enter_entries:
  "enter_packets (\<lambda>n. n) start info mx lst n s = Inr (s', es) \<Longrightarrow> n < 2 ^ 64 \<Longrightarrow>
     (\<forall>i<n. map_get (sender_packetMap s') (packetid s + of_nat i) = Some (piece info mx lst n i)) \<and>
     (\<forall>k. (\<forall>i<n. k \<noteq> packetid s + of_nat i) \<longrightarrow> map_get (sender_packetMap s') k = map_get (sender_packetMap s) k)"
proof (induction n arbitrary: s es)
  case 0
  then show ?case by simp
next
  case (Suc n)
  from Suc.prems(1) show ?case
  proof (rule enter_cons)
    fix st d es1 es2
    let ?p = "piece info mx lst (Suc n) 0"
    let ?t = "s\<lparr>sender_packetMap := map_put (packetid s) ?p (sender_packetMap s), packetid := packetid s + 1, pk_state := st, senddata := d\<rparr>"
    assume a: "enter_packets (\<lambda>n. n) start info mx lst n ?t = Inr (s', es2)"
    from Suc.IH[OF a] Suc.prems(2) have
      M: "\<And>i. i < n \<Longrightarrow> map_get (sender_packetMap s') (packetid s + of_nat (Suc i)) = Some (piece info mx lst n i)"
      "\<And>k. \<forall>i<n. k \<noteq> packetid s + of_nat (Suc i) \<Longrightarrow> map_get (sender_packetMap s') k = map_get (sender_packetMap ?t) k"
      by (simp_all add: add.assoc)
    have "packetid s \<noteq> packetid s + of_nat (Suc i)" if "i < n" for i
      using key_apart[of "Suc i" "packetid s"] that Suc.prems(2) by simp
    then have first: "map_get (sender_packetMap s') (packetid s) = Some ?p" using M(2)[of "packetid s"] by (auto simp: get_put)
    have "map_get (sender_packetMap s') (packetid s + of_nat i) = Some (piece info mx lst (Suc n) i)" if "i < Suc n" for i
      using that first M(1) by (cases i) (auto simp: piece_def)
    moreover have "map_get (sender_packetMap s') k = map_get (sender_packetMap s) k"
      if k: "\<forall>i<Suc n. k \<noteq> packetid s + of_nat i" for k
    proof -
      have "k \<noteq> packetid s" using k[rule_format, of 0] by simp
      moreover have "\<forall>i<n. k \<noteq> packetid s + of_nat (Suc i)" using k by blast
      ultimately show ?thesis using M(2)[of k] by (simp add: get_put)
    qed
    ultimately show ?case by blast
  qed
qed

end

lemma enter_runs: "pk_state s \<noteq> STOPPING \<Longrightarrow> \<exists>s'. enter_packets key start info mx lst n s = Inr (s', []) \<and> senddata s' = senddata s"
proof (induction n arbitrary: s)
  case 0
  then show ?case by simp
next
  case (Suc n)
  let ?t = "s\<lparr>sender_packetMap := map_put (key (packetid s)) (info\<lparr>pi_length := (if n = 0 then lst else mx), pi_last := (n = 0)\<rparr>)
      (sender_packetMap s), packetid := packetid s + 1\<rparr>"
  from Suc.prems have "pk_state ?t \<noteq> STOPPING" by simp
  from Suc.IH[OF this] obtain s' where "enter_packets key start info mx lst n ?t = Inr (s', [])" "senddata s' = senddata s" by auto
  with Suc.prems have "enter_packets key start info mx lst (Suc n) s = Inr (s', []) \<and> senddata s' = senddata s"
    by (simp add: Let_def del: if_split)
  then show ?case by blast
qed

lemma enter_starts:
  assumes "pk_state s = STOPPING" and "0 < n"
    and "\<And>t. senddata t = senddata s \<Longrightarrow> start t = Inr (t\<lparr>senddata := Some now\<rparr>, es)"
  shows "\<exists>s'. enter_packets key start info mx lst n s = Inr (s', es) \<and> senddata s' = Some now"
proof -
  obtain m where n: "n = Suc m" using assms(2) by (cases n) auto
  let ?p = "info\<lparr>pi_length := (if m = 0 then lst else mx), pi_last := (m = 0)\<rparr>"
  let ?s = "s\<lparr>sender_packetMap := map_put (key (packetid s)) ?p (sender_packetMap s), pk_state := SENDING, senddata := Some now,
    packetid := packetid s + 1\<rparr>"
  from enter_runs[of ?s key start info mx lst m] obtain s' where "enter_packets key start info mx lst m ?s = Inr (s', [])" "senddata s' = Some now" by auto
  then show ?thesis using assms(1,3) by (simp add: n Let_def)
qed

subsection \<open>Messages\<close>

definition message_pieces :: "int \<Rightarrow> dgram \<Rightarrow> pck_info list" where
  "message_pieces mx p =
     (case cut_message mx (payload_of p) of (n, lst) \<Rightarrow> pieces (message_info (last (p_tags p)) p) mx lst (nat n))"

text \<open>The packets an event files, and those a run of events files.\<close>

fun files :: "bool \<Rightarrow> int \<Rightarrow> simtime \<times> cc_op \<Rightarrow> pck_info list" where
  "files act mx (now, Upper p) = (if contains ''Data'' (p_name p) \<and> act then message_pieces mx p else [])"
| "files act mx (now, _) = []"

lemma upper_enter:
  assumes "contains ''Data'' (p_name p)" and "act" and "p_tags p \<noteq> []" and "mx \<noteq> 0" and "cut_message mx (payload_of p) = (n, lst)"
  shows "packet_upper key start act mx p s = enter_packets key start (message_info (last (p_tags p)) p) mx lst (nat n) s"
  using assms by (simp add: packet_upper_def tag_of_truncate)

lemma upper_cases:
  assumes "packet_upper key start act mx p s = Inr (s', es)"
  obtains (pass) "\<not> (contains ''Data'' (p_name p) \<and> act)" and "s' = s" and "es = [SendDown p]"
    | (data) n lst where "contains ''Data'' (p_name p)" and "act" and "p_tags p \<noteq> []" and "mx \<noteq> 0"
        and "cut_message mx (payload_of p) = (n, lst)"
        and "enter_packets key start (message_info (last (p_tags p)) p) mx lst (nat n) s = Inr (s', es)"
proof (cases "contains ''Data'' (p_name p) \<and> act")
  case False
  with assms show thesis by (intro pass) (auto simp: packet_upper_def)
next
  case True
  from assms True have t: "p_tags p \<noteq> []" by (auto simp: packet_upper_def last_tag_def packet.truncate_def)
  from assms True t have mx: "mx \<noteq> 0" by (auto simp: packet_upper_def tag_of_truncate)
  obtain n lst where c: "cut_message mx (payload_of p) = (n, lst)" by fastforce
  note e = upper_enter[OF conjunct1[OF True] conjunct2[OF True] t mx c]
  show thesis by (rule data[OF conjunct1[OF True] conjunct2[OF True] t mx c]) (rule assms[unfolded e])
qed

context packet_starter
begin

lemma upper_shape:
  assumes "packet_upper key start act mx p s = Inr (s', es)"
  shows "\<exists>M k st d. s' = s\<lparr>sender_packetMap := M, packetid := k, pk_state := st, senddata := d\<rparr> \<and>
     (pk_state s \<noteq> STOPPING \<longrightarrow> st = pk_state s \<and> d = senddata s)"
  using assms
proof (cases rule: upper_cases)
  case pass
  then show ?thesis by (auto intro!: exI[of _ "sender_packetMap s"] exI[of _ "packetid s"] exI[of _ "pk_state s"] exI[of _ "senddata s"])
next
  case (data n lst)
  from enter_shape[OF data(6)] show ?thesis by blast
qed

lemma upper_sends:
  assumes "packet_upper key start act mx p s = Inr (s', es)"
  shows "quiet es \<or> es = [SendDown p] \<and> \<not> (contains ''Data'' (p_name p) \<and> act)"
  using assms by (cases rule: upper_cases) (auto dest: enter_shape)

end

context numbered_starter
begin

lemma upper_filed:
  assumes "packet_upper (\<lambda>n. n) start act mx p s = Inr (s', es)" and "filed_as F s" and "length (F @ files act mx (now, Upper p)) < 2 ^ 64"
  shows "filed_as (F @ files act mx (now, Upper p)) s'"
  using assms(1)
proof (cases rule: upper_cases)
  case pass
  with assms(2) show ?thesis by auto
next
  case (data n lst)
  with enter_filed[OF data(6) assms(2)] assms(3) show ?thesis by (simp add: message_pieces_def)
qed

end

subsection \<open>What a sender has ever sent\<close>

definition filed :: "bool \<Rightarrow> int \<Rightarrow> (simtime \<times> cc_op) list \<Rightarrow> pck_info list" where
  "filed act mx xs = concat (map (files act mx) xs)"

text \<open>
  A sender whose steps file what is asked of it and send nothing but filed packets, made into
  datagrams: whatever it has sent carries a filed packet under that packet's number.
\<close>

locale filing_sender =
  fixes step :: "simtime \<times> cc_op \<Rightarrow> (u64, 'z) pck_sender_scheme \<Rightarrow> ((u64, 'z) pck_sender_scheme \<times> cc_effect list) res"
    and act :: bool and mx :: int
    and is_data :: "dgram \<Rightarrow> bool" and made :: "u64 \<Rightarrow> pck_info \<Rightarrow> dgram \<Rightarrow> bool"
  assumes step_files: "filed_as F s \<Longrightarrow> length (F @ files act mx x) < 2 ^ 64 \<Longrightarrow> step x s = Inr (s', es) \<Longrightarrow>
      filed_as (F @ files act mx x) s'"
    and step_sends: "filed_as F s \<Longrightarrow> step x s = Inr (s', es) \<Longrightarrow> SendDown q \<in> set es \<Longrightarrow> is_data q \<Longrightarrow>
      \<exists>n<length F. made (of_nat n) (F ! n) q"
begin

lemma run_files:
  "run_out step xs s = Inr (s', es) \<Longrightarrow> filed_as F s \<Longrightarrow> length (F @ filed act mx xs) < 2 ^ 64 \<Longrightarrow>
     filed_as (F @ filed act mx xs) s' \<and>
     (\<forall>q. SendDown q \<in> set es \<longrightarrow> is_data q \<longrightarrow>
        (\<exists>n<length (F @ filed act mx xs). made (of_nat n) ((F @ filed act mx xs) ! n) q))"
proof (induction xs arbitrary: s es F)
  case Nil
  then show ?case by (auto simp: filed_def)
next
  case (Cons x xs)
  let ?F = "F @ files act mx x" and ?G = "F @ filed act mx (x # xs)"
  from Cons.prems(1) obtain s1 es1 es2 where s1: "step x s = Inr (s1, es1)"
    and r: "run_out step xs s1 = Inr (s', es2)" and es: "es = es1 @ es2"
    by (auto simp: run_out_Cons_Inr simp del: run_out.simps)
  have G: "?G = ?F @ filed act mx xs" by (simp add: filed_def)
  have l: "length ?F < 2 ^ 64" "length (?F @ filed act mx xs) < 2 ^ 64" using Cons.prems(3) by (simp_all add: filed_def)
  note rest = Cons.IH[OF r step_files[OF Cons.prems(2) l(1) s1] l(2), folded G]
  have "\<exists>n<length ?G. made (of_nat n) (?G ! n) q" if "SendDown q \<in> set es1" "is_data q" for q
  proof -
    from step_sends[OF Cons.prems(2) s1 that] obtain n where "n < length F" "made (of_nat n) (F ! n) q" by blast
    then show ?thesis by (intro exI[of _ n]) (simp add: nth_append)
  qed
  with rest show ?case by (auto simp: es simp del: length_append)
qed

end

text \<open>Every packet filed has bytes when the packets of a message are given some.\<close>

lemma filed_lengths:
  assumes "0 < mx"
  shows "\<forall>i\<in>set (filed act mx xs). 0 < pi_length i"
proof -
  have "0 < pi_length i" if "i \<in> set (message_pieces mx p)" for i p
  proof -
    obtain n lst where c: "cut_message mx (payload_of p) = (n, lst)" by fastforce
    with that obtain j where j: "j < nat n" "i = piece (message_info (last (p_tags p)) p) mx lst (nat n) j"
      by (auto simp: message_pieces_def pieces_def)
    have "0 < lst" using c assms pos_mod_sign[of mx "payload_of p"]
      by (auto simp: cut_message_def less_le split: if_splits)
    with j assms show ?thesis by (simp add: piece_def)
  qed
  moreover have "\<exists>p. i \<in> set (message_pieces mx p)" if "i \<in> set (files act mx x)" for i x
    using that by (cases "(act, mx, x)" rule: files.cases) (auto split: if_splits)
  ultimately show ?thesis unfolding filed_def set_concat set_map by blast
qed

text \<open>What a packet carries to the application.\<close>

definition contents :: "dgram \<Rightarrow> pck_info" where
  "contents u = \<lparr>pi_src = d_src u, pi_dest = d_dest u, pi_flowid = ht_flowid (last (p_tags u)), pi_sport = d_sport u,
     pi_dport = d_dport u, pi_length = payload_of u, pi_priority = ht_priority (last (p_tags u)), pi_cretime = 0,
     pi_last = ht_last (last (p_tags u))\<rparr>"

subsection \<open>Names\<close>

lemma digits_chars: "set (digits n) \<subseteq> set ''0123456789''"
proof (induction n rule: digits.induct)
  case (1 n)
  have d: "char_of (48 + k) \<in> set ''0123456789''" if "k < 10" for k :: nat
  proof -
    from that have "k \<in> {0, 1, 2, 3, 4, 5, 6, 7, 8, 9}" by auto
    then show ?thesis by (elim insertE emptyE; simp add: char_of_def; code_simp)
  qed
  show ?case
  proof (cases "n < 10")
    case True
    then show ?thesis using d[of n] by (simp add: digits.simps[of n])
  next
    case False
    then show ?thesis using 1[OF False] d[of "n mod 10"] by (simp add: digits.simps[of n])
  qed
qed

lemma contains_set: "contains pat s \<Longrightarrow> set pat \<subseteq> set s"
  by (auto simp: contains_append)

text \<open>A message of \<open>n\<close> bytes from host 1 to host 2.\<close>

definition sample_message :: "nat \<Rightarrow> dgram" where
  "sample_message n = \<lparr>p_id = 1, p_name = ''AppData'', p_len = 8 * (n + 8), p_iface = 0, p_ecn = None,
     p_tags = [\<lparr>ht_flowid = 5, ht_priority = 2, ht_flowsize = 0, ht_cretime = 0, ht_packetid = 0, ht_last = False,
        ht_queueid = 0, ht_decel = False, ht_speedup = False, ht_sender_priority = -1\<rparr>],
     p_bfc = None, p_ispause = None, d_src = 1, d_dest = 2, d_sport = 10, d_dport = 20, d_ecn = 0,
     d_recRate = 0, d_int = None, d_psd = None, d_sack = None, d_time = 0\<rparr>"

lemma sample_payload: "payload_of (sample_message n) = int n"
  by (simp add: payload_of_def sample_message_def bytes_of_def)

end
