(* ===== verification/HPCC.thy ===== *)
theory HPCC
  imports Packet_Sender
begin

section \<open>HPCC\<close>

text \<open>
  \<open>HiNA/CC/HPCC\<close>.  The application's messages are cut into packets at once, which are kept in
  \<open>sender_packetMap\<close> until they are acknowledged.  Each packet carries a telemetry header the MACs on
  its way write to; the receiver takes packets in order, answers each by an ACK or a NACK that
  carries the header back, and the sender computes its window and rate from it.

  The telemetry is evaluated in \<open>double\<close>.  An unused hop has equal time stamps and byte counts, its
  quotient is not a number and the comparison with it fails, so it is skipped; any other quotient by
  zero is an infinite value, which the model does not follow: it is the error \<open>FloatConversion\<close>, as is
  the conversion of a value that does not fit an integer.
\<close>

record hpcc_cfg =
  activate :: bool
  stopTime :: simtime
  linkspeed :: double
  max_pck_size :: int
  baseRTT :: simtime
  expectedFlows :: int

record hpcc = "u64 pck_sender" +
  send_window :: u32
  csend_window :: u32
  hp_rate :: double
  wint :: int
  wai :: int
  isFirstAck :: bool
  lastUpdateSeq :: int
  incstage :: int
  U :: double
  LastInf :: "hop_inf list"
  receiver_packetMap :: "(int, int) smap"

text \<open>A \<open>double\<close> stored in an \<open>int\<close>.\<close>

definition dbl_to_int :: "double \<Rightarrow> int res" where
  "dbl_to_int x = (if - (2 ^ 31) - 1 < x \<and> x < 2 ^ 31 then Inr (trunc_real x) else Inl FloatConversion)"

definition no_hop :: hop_inf where
  "no_hop = \<lparr>TS = 0, hopQueueLength = -1, hopTxBytes = 0, hopTxRate = 0\<rparr>"

definition HPCC_initialize :: "hpcc_cfg \<Rightarrow> hpcc res" where
  "HPCC_initialize cfg =
     rbind (dbl_to_int (linkspeed cfg * baseRTT cfg / 8)) (\<lambda>w.
     if expectedFlows cfg = 0 then Inl FloatConversion else
     rbind (dbl_to_int (of_int w * (1 - 95 / 100) / of_int (expectedFlows cfg))) (\<lambda>a.
       Inr \<lparr>sender_packetMap = [], pk_state = STOPPING, senddata = None, packetid = 0, nxtSendpacketid = 0,
            pk_lastflowid = -1, pk_last_creation_time = 0, send_window = word_of_int w, csend_window = word_of_int w,
            hp_rate = linkspeed cfg, wint = w, wai = a, isFirstAck = True, lastUpdateSeq = -1, incstage = 0, U = 0,
            LastInf = replicate 10 no_hop, receiver_packetMap = []\<rparr>))"

definition HPCC_processUpperpck :: "hpcc_cfg \<Rightarrow> simtime \<Rightarrow> dgram \<Rightarrow> hpcc \<Rightarrow> (hpcc \<times> cc_effect list) res" where
  "HPCC_processUpperpck cfg now pck s =
     packet_upper (\<lambda>n. n) (scheduleSenddata now now) (activate cfg) (max_pck_size cfg) pck s"

subsection \<open>Sending\<close>

definition hpcc_packet :: "u64 \<Rightarrow> simtime \<Rightarrow> pck_info \<Rightarrow> dgram" where
  "hpcc_packet n cret i = (filed_dgram ''HPCCData'' 42 n cret i)\<lparr>d_int := Some \<lparr>nHop = 0, pathID = 0, hopInfs = replicate 5 no_hop\<rparr>\<rparr>"

definition HPCC_send_data :: "hpcc_cfg \<Rightarrow> simtime \<Rightarrow> hpcc \<Rightarrow> (hpcc \<times> cc_effect list) res" where
  "HPCC_send_data cfg now s =
     (let n = int_packetid (nxtSendpacketid s) in
      case map_get (sender_packetMap s) n of
        None \<Rightarrow> Inl EndIterator
      | Some i \<Rightarrow>
          let s1 = note_packet i s;
              packet = hpcc_packet n (pk_last_creation_time s1) i;
              s2 = s1\<lparr>send_window := send_window s1 - word_of_int (pi_length i), nxtSendpacketid := nxtSendpacketid s + 1\<rparr>
          in case map_get (sender_packetMap s2) (nxtSendpacketid s2) of
               None \<Rightarrow> Inr (s2\<lparr>pk_state := STOPPING\<rparr>, [SendDown packet])
             | Some j \<Rightarrow>
                 if send_window s2 \<ge> word_of_int (pi_length j)
                 then rbind (nxtSendTime now (bytes_of (p_bits packet)) (hp_rate s2)) (\<lambda>t.
                      rbind (scheduleSenddata now t s2) (\<lambda>(s3, es). Inr (s3, SendDown packet # es)))
                 else Inr (s2\<lparr>pk_state := PAUSING\<rparr>, [SendDown packet]))"

subsection \<open>Receiving\<close>

text \<open>The answer to a packet: its number for an ACK, the number expected for a NACK, and the header.\<close>

definition hpcc_reply :: "string \<Rightarrow> int \<Rightarrow> dgram \<Rightarrow> int_header \<Rightarrow> dgram" where
  "hpcc_reply nm n pck h =
     \<lparr>p_id = 0, p_name = nm @ digits (nat n), p_len = 8 * 43, p_iface = 0, p_ecn = None,
      p_tags = [\<lparr>ht_flowid = 0, ht_priority = -1, ht_flowsize = 0, ht_cretime = 0, ht_packetid = n, ht_last = False,
        ht_queueid = 0, ht_decel = False, ht_speedup = False, ht_sender_priority = -1\<rparr>],
      p_bfc = None, p_ispause = None, d_src = d_dest pck, d_dest = d_src pck, d_sport = 0, d_dport = 0, d_ecn = 0,
      d_recRate = 0, d_int = Some h, d_psd = None, d_sack = None, d_time = 0\<rparr>"

definition expected_from :: "int \<Rightarrow> hpcc \<Rightarrow> int" where
  "expected_from a s = (case map_get (receiver_packetMap s) a of None \<Rightarrow> 0 | Some n \<Rightarrow> n)"

definition HPCC_receive_data :: "dgram \<Rightarrow> hpcc \<Rightarrow> (hpcc \<times> cc_effect list) res" where
  "HPCC_receive_data pck s =
     (case d_int pck of
        None \<Rightarrow> Inl NullPointer
      | Some h \<Rightarrow>
          rbind (last_tag (packet.truncate pck)) (\<lambda>tag.
            let curRcvNum = number_of (ht_packetid tag);
                n = expected_from (d_src pck) s
            in if curRcvNum = n
               then Inr (s\<lparr>receiver_packetMap := map_put (d_src pck) (n + 1) (receiver_packetMap s)\<rparr>,
                         [SendDown (hpcc_reply ''ACK-'' curRcvNum pck h),
                          SendUp (pck\<lparr>d_int := None, p_len := p_len pck - 8 * 42\<rparr>)])
               else Inr (s\<lparr>receiver_packetMap := map_put (d_src pck) n (receiver_packetMap s)\<rparr>,
                         [SendDown (hpcc_reply ''NACK-'' n pck h)])))"

subsection \<open>Acknowledgements\<close>

text \<open>\<open>MEASUREINFLIGHT\<close>: the utilisation of one hop, and the largest over the hops with its time span.\<close>

definition hpcc_hop :: "hpcc_cfg \<Rightarrow> hop_inf \<Rightarrow> hop_inf \<Rightarrow> double option res" where
  "hpcc_hop cfg c l =
     (let bits = (hopTxBytes c - hopTxBytes l) * 8; dt = TS c - TS l in
      if dt = 0 then (if bits = 0 then Inr None else Inl FloatConversion)
      else if hopTxRate c = 0 \<or> baseRTT cfg = 0 then Inl FloatConversion
      else Inr (Some (of_int (min (hopQueueLength c) (hopQueueLength l)) / (hopTxRate c * baseRTT cfg) +
                      of_int (uint bits) / dt / hopTxRate c)))"

fun hpcc_inflight :: "hpcc_cfg \<Rightarrow> (hop_inf \<times> hop_inf) list \<Rightarrow> double \<Rightarrow> simtime \<Rightarrow> (double \<times> simtime) res" where
  "hpcc_inflight cfg [] u tao = Inr (u, tao)"
| "hpcc_inflight cfg ((c, l) # hs) u tao =
     rbind (hpcc_hop cfg c l) (\<lambda>r.
       case r of
         None \<Rightarrow> hpcc_inflight cfg hs u tao
       | Some u1 \<Rightarrow> if u1 > u then hpcc_inflight cfg hs u1 (TS c - TS l) else hpcc_inflight cfg hs u tao)"

text \<open>\<open>COMPUTEWIND\<close>\<close>

definition hpcc_window :: "int \<Rightarrow> hpcc \<Rightarrow> hpcc res" where
  "hpcc_window ackid s =
     (let seq = number_of (uint (nxtSendpacketid s)) in
      if U s \<ge> 95 / 100 \<or> incstage s \<ge> 5 then
        (if U s = 0 then Inl FloatConversion
         else rbind (dbl_to_u32 (of_int (uint (csend_window s)) / (U s / (95 / 100)) + of_int (wai s))) (\<lambda>w.
           Inr (if ackid > lastUpdateSeq s
                then s\<lparr>send_window := w, incstage := 0, csend_window := w, lastUpdateSeq := seq\<rparr>
                else s\<lparr>send_window := w\<rparr>)))
      else
        (let w0 = csend_window s + word_of_int (wai s);
             w = (if w0 > word_of_int (wint s) then word_of_int (wint s) else w0)
         in Inr (if ackid > lastUpdateSeq s
                 then s\<lparr>send_window := w, incstage := incstage s + 1, csend_window := w, lastUpdateSeq := seq\<rparr>
                 else s\<lparr>send_window := w\<rparr>)))"

text \<open>Going back to the packet a NACK asks for, or forgetting the packet an ACK confirms.\<close>

definition hpcc_goback :: "simtime \<Rightarrow> int \<Rightarrow> hpcc \<Rightarrow> hpcc \<times> cc_effect list" where
  "hpcc_goback now ackid s =
     (let s1 = s\<lparr>nxtSendpacketid := word_of_int ackid\<rparr> in
      if senddata s1 = None then (s1\<lparr>senddata := Some now\<rparr>, [Arm SendDataTimer now]) else (s1, []))"

definition keep_inf :: "int_header \<Rightarrow> hpcc \<Rightarrow> hpcc" where
  "keep_inf h s = s\<lparr>LastInf := hopInfs h @ drop (length (hopInfs h)) (LastInf s)\<rparr>"

definition hpcc_confirm :: "simtime \<Rightarrow> bool \<Rightarrow> int \<Rightarrow> hpcc \<Rightarrow> hpcc \<times> cc_effect list" where
  "hpcc_confirm now nack ackid s =
     (if nack then hpcc_goback now ackid s
      else (s\<lparr>sender_packetMap := map_erase (word_of_int ackid) (sender_packetMap s)\<rparr>, []))"

text \<open>The reaction to the telemetry; the first acknowledgement only starts the record of it.\<close>

definition hpcc_resume :: "simtime \<Rightarrow> hpcc \<Rightarrow> (hpcc \<times> cc_effect list) res" where
  "hpcc_resume now s =
     (if pk_state s = PAUSING then scheduleSenddata now now (s\<lparr>pk_state := SENDING\<rparr>) else Inr (s, []))"

definition hpcc_react :: "hpcc_cfg \<Rightarrow> simtime \<Rightarrow> int \<Rightarrow> int_header \<Rightarrow> hpcc \<Rightarrow> (hpcc \<times> cc_effect list) res" where
  "hpcc_react cfg now ackid h s =
     (if isFirstAck s then Inr (keep_inf h (s\<lparr>isFirstAck := False\<rparr>), [])
      else if baseRTT cfg = 0 then Inl FloatConversion
      else
        rbind (hpcc_inflight cfg (zip (hopInfs h) (LastInf s)) 0 0) (\<lambda>(u, tao0).
          let tao = (if tao0 > baseRTT cfg then baseRTT cfg else tao0);
              U' = (1 - tao / baseRTT cfg) * U s + tao / baseRTT cfg * u
          in rbind (hpcc_window ackid (s\<lparr>U := U'\<rparr>)) (\<lambda>s2.
               hpcc_resume now (keep_inf h (s2\<lparr>hp_rate := of_int (uint (send_window s2 * 8)) / baseRTT cfg\<rparr>)))))"

definition HPCC_receiveAck :: "hpcc_cfg \<Rightarrow> simtime \<Rightarrow> dgram \<Rightarrow> hpcc \<Rightarrow> (hpcc \<times> cc_effect list) res" where
  "HPCC_receiveAck cfg now pck s =
     rbind (last_tag (packet.truncate pck)) (\<lambda>tag.
       let ackid = number_of (ht_packetid tag);
           (s1, es) = hpcc_confirm now (contains ''NACK'' (p_name pck)) ackid s
       in case d_int pck of
            None \<Rightarrow> Inl NullPointer
          | Some h \<Rightarrow> rbind (hpcc_react cfg now ackid h s1) (\<lambda>(s2, es2). Inr (s2, es @ es2)))"

subsection \<open>The module\<close>

definition HPCC_processLowerpck :: "hpcc_cfg \<Rightarrow> simtime \<Rightarrow> dgram \<Rightarrow> hpcc \<Rightarrow> (hpcc \<times> cc_effect list) res" where
  "HPCC_processLowerpck cfg now pck s =
     (if contains ''HPCCData'' (p_name pck) then HPCC_receive_data pck s
      else if contains ''ACK'' (p_name pck) then HPCC_receiveAck cfg now pck s
      else Inr (s, [SendUp pck]))"

definition HPCC_handleSelfMessage :: "hpcc_cfg \<Rightarrow> simtime \<Rightarrow> hpcc \<Rightarrow> (hpcc \<times> cc_effect list) res" where
  "HPCC_handleSelfMessage cfg now s =
     (if now \<ge> stopTime cfg then Inr (s\<lparr>pk_state := STOPPING\<rparr>, []) else HPCC_send_data cfg now s)"

fun HPCC_handleMessage :: "hpcc_cfg \<Rightarrow> simtime \<times> cc_op \<Rightarrow> hpcc \<Rightarrow> (hpcc \<times> cc_effect list) res" where
  "HPCC_handleMessage cfg (now, Fire SendDataTimer) s =
     (if senddata s = None then Inr (s, []) else HPCC_handleSelfMessage cfg now (s\<lparr>senddata := None\<rparr>))"
| "HPCC_handleMessage cfg (now, Fire _) s = Inr (s, [])"
| "HPCC_handleMessage cfg (now, Upper pck) s = HPCC_processUpperpck cfg now pck s"
| "HPCC_handleMessage cfg (now, Lower pck) s = HPCC_processLowerpck cfg now pck s"

subsection \<open>The receiver\<close>

text \<open>The numbers of the packets from one source among those passed up.\<close>

fun up_numbers :: "int \<Rightarrow> cc_effect list \<Rightarrow> int list" where
  "up_numbers a [] = []"
| "up_numbers a (SendUp p # es) =
     (if contains ''HPCCData'' (p_name p) \<and> d_src p = a then number_of (ht_packetid (last (p_tags p))) # up_numbers a es
      else up_numbers a es)"
| "up_numbers a (_ # es) = up_numbers a es"

lemma up_append: "up_numbers a (es @ es') = up_numbers a es @ up_numbers a es'"
  by (induction a es rule: up_numbers.induct) auto

interpretation hpcc_start: numbered_starter "scheduleSenddata now now" for now
  by unfold_locales (auto simp: scheduleSenddata_def split: if_splits)

lemma up_quiet: "quiet es \<Longrightarrow> up_numbers a es = []"
  by (induction a es rule: up_numbers.induct) auto

lemma upper_frame:
  assumes "HPCC_processUpperpck cfg now p s = Inr (s', es)"
  shows "receiver_packetMap s' = receiver_packetMap s \<and> up_numbers a es = [] \<and> nxtSendpacketid s' = nxtSendpacketid s \<and>
     (pk_state s = PAUSING \<longrightarrow> pk_state s' = PAUSING \<and> senddata s' = senddata s)"
proof -
  note u = assms[unfolded HPCC_processUpperpck_def]
  from hpcc_start.upper_shape[OF u] hpcc_start.upper_sends[OF u] show ?thesis by (auto simp: up_quiet)
qed

lemma note_hpcc [simp]:
  "receiver_packetMap (note_packet i s) = receiver_packetMap s" "send_window (note_packet i s) = send_window s"
  "hp_rate (note_packet i s) = hp_rate s" "isFirstAck (note_packet i s) = isFirstAck s"
  by (simp_all add: note_packet_def)

lemma send_frame:
  "HPCC_send_data cfg now s = Inr (s', es) \<Longrightarrow> receiver_packetMap s' = receiver_packetMap s \<and> up_numbers a es = []"
  by (auto simp: HPCC_send_data_def Let_def rbind_eq_Inr scheduleSenddata_def split: option.splits if_splits)

lemma window_fields:
  assumes "hpcc_window ackid s = Inr s'"
  obtains w c i q where "s' = s\<lparr>send_window := w, csend_window := c, incstage := i, lastUpdateSeq := q\<rparr>"
proof -
  let ?seq = "number_of (uint (nxtSendpacketid s))"
  have upd: "\<exists>w c i q. (if b then s\<lparr>send_window := w', incstage := j, csend_window := w', lastUpdateSeq := ?seq\<rparr>
      else s\<lparr>send_window := w'\<rparr>) = s\<lparr>send_window := w, csend_window := c, incstage := i, lastUpdateSeq := q\<rparr>" for b w' j
    by (cases b, rule exI[of _ w'], rule exI[of _ w'], rule exI[of _ j], rule exI[of _ ?seq], simp,
        rule exI[of _ w'], rule exI[of _ "csend_window s"], rule exI[of _ "incstage s"], rule exI[of _ "lastUpdateSeq s"], simp)
  show thesis
  proof (cases "U s \<ge> 95 / 100 \<or> incstage s \<ge> 5")
    case True
    have nz: "U s \<noteq> 0" using assms True by (auto simp: hpcc_window_def Let_def)
    from assms obtain w' where
      "s' = (if lastUpdateSeq s < ackid then s\<lparr>send_window := w', incstage := 0, csend_window := w', lastUpdateSeq := ?seq\<rparr>
         else s\<lparr>send_window := w'\<rparr>)"
      unfolding hpcc_window_def Let_def if_P[OF True] if_not_P[OF nz] rbind_eq_Inr by blast
    with upd that show thesis by blast
  next
    case False
    from assms upd that show thesis unfolding hpcc_window_def Let_def if_not_P[OF False] by blast
  qed
qed

lemma window_frame:
  assumes "hpcc_window ackid s = Inr s'"
  shows "receiver_packetMap s' = receiver_packetMap s \<and> pk_state s' = pk_state s \<and> senddata s' = senddata s"
  using assms by (rule window_fields) simp

lemma goback_frame: "hpcc_goback now n s = (s', es) \<Longrightarrow> receiver_packetMap s' = receiver_packetMap s \<and> up_numbers a es = [] \<and>
     pk_state s' = pk_state s \<and> isFirstAck s' = isFirstAck s \<and> senddata s' \<noteq> None"
  by (auto simp: hpcc_goback_def Let_def split: if_splits)

lemma keep_frame [simp]:
  "receiver_packetMap (keep_inf h s) = receiver_packetMap s" "pk_state (keep_inf h s) = pk_state s"
  "senddata (keep_inf h s) = senddata s" "isFirstAck (keep_inf h s) = isFirstAck s"
  by (simp_all add: keep_inf_def)

lemma resume_frame:
  "hpcc_resume now s = Inr (s', es) \<Longrightarrow> receiver_packetMap s' = receiver_packetMap s \<and> up_numbers a es = []"
  by (auto simp: hpcc_resume_def scheduleSenddata_def split: if_splits)

lemma react_cases:
  assumes "hpcc_react cfg now ackid h s = Inr (s', es)"
  obtains (first) "isFirstAck s" and "s' = keep_inf h (s\<lparr>isFirstAck := False\<rparr>)" and "es = []"
    | (later) s2 u r where "\<not> isFirstAck s" and "hpcc_window ackid (s\<lparr>U := u\<rparr>) = Inr s2"
        and "hpcc_resume now (keep_inf h (s2\<lparr>hp_rate := r\<rparr>)) = Inr (s', es)"
proof (cases "isFirstAck s")
  case True
  with assms show thesis by (intro first) (auto simp: hpcc_react_def)
next
  case False
  have b: "baseRTT cfg \<noteq> 0" using assms False by (auto simp: hpcc_react_def)
  from assms obtain x where "(\<lambda>(u, tao0). rbind (hpcc_window ackid (s\<lparr>U := (1 - (if tao0 > baseRTT cfg then baseRTT cfg else tao0) / baseRTT cfg) * U s +
          (if tao0 > baseRTT cfg then baseRTT cfg else tao0) / baseRTT cfg * u\<rparr>))
         (\<lambda>s2. hpcc_resume now (keep_inf h (s2\<lparr>hp_rate := of_int (uint (send_window s2 * 8)) / baseRTT cfg\<rparr>)))) x = Inr (s', es)"
    unfolding hpcc_react_def Let_def if_not_P[OF False] if_not_P[OF b] rbind_eq_Inr[of "hpcc_inflight _ _ _ _"] by blast
  then show thesis using later[OF False] unfolding split_beta rbind_eq_Inr by blast
qed

lemma react_frame:
  assumes "hpcc_react cfg now ackid h s = Inr (s', es)"
  shows "receiver_packetMap s' = receiver_packetMap s \<and> up_numbers a es = []"
  using assms
proof (cases rule: react_cases)
  case (later s2 u r)
  from window_frame[OF later(2)] resume_frame[OF later(3), of a] show ?thesis by simp
qed simp

lemma confirm_frame:
  "hpcc_confirm now nack ackid s = (s', es) \<Longrightarrow> receiver_packetMap s' = receiver_packetMap s \<and> up_numbers a es = [] \<and>
     pk_state s' = pk_state s \<and> isFirstAck s' = isFirstAck s \<and> (nack \<longrightarrow> senddata s' \<noteq> None)"
  by (auto simp: hpcc_confirm_def dest: goback_frame[where a = a] split: if_splits)

lemma ack_cases:
  assumes "HPCC_receiveAck cfg now p s = Inr (s', es)"
  obtains n h s1 es1 es2 where "hpcc_confirm now (contains ''NACK'' (p_name p)) n s = (s1, es1)"
    and "hpcc_react cfg now n h s1 = Inr (s', es2)" and "es = es1 @ es2"
proof -
  from assms obtain tag where t: "last_tag (packet.truncate p) = Inr tag" by (auto simp: HPCC_receiveAck_def rbind_eq_Inr)
  obtain s1 es1 where c: "hpcc_confirm now (contains ''NACK'' (p_name p)) (number_of (ht_packetid tag)) s = (s1, es1)"
    by fastforce
  from assms t c show thesis
    by (auto simp: HPCC_receiveAck_def Let_def rbind_eq_Inr split: option.splits intro: that[OF c])
qed

lemma ack_frame:
  assumes "HPCC_receiveAck cfg now p s = Inr (s', es)"
  shows "receiver_packetMap s' = receiver_packetMap s \<and> up_numbers a es = []"
  using assms
proof (rule ack_cases)
  fix n h s1 es1 es2
  assume c: "hpcc_confirm now (contains ''NACK'' (p_name p)) n s = (s1, es1)" "hpcc_react cfg now n h s1 = Inr (s', es2)"
    "es = es1 @ es2"
  from confirm_frame[OF c(1), of a] react_frame[OF c(2), of a] c(3) show ?thesis by (simp add: up_append)
qed

lemma upto_join: "i \<le> j \<Longrightarrow> j \<le> k \<Longrightarrow> [i..j - 1] @ [j..k - 1] = [i..k - (1 :: int)]"
  using upto_split1[of i j "k - 1"] by (cases "j = k") auto

text \<open>A step passes up exactly the packets by which the expected number advances.\<close>

lemma receive_advance:
  assumes "HPCC_receive_data p s = Inr (s', es)" and "contains ''HPCCData'' (p_name p)"
  shows "expected_from a s \<le> expected_from a s' \<and> up_numbers a es = [expected_from a s..expected_from a s' - 1]"
proof -
  from assms obtain h tag where h: "d_int p = Some h" "last_tag (packet.truncate p) = Inr tag"
    by (auto simp: HPCC_receive_data_def rbind_eq_Inr split: option.splits)
  then have tag: "tag = last (p_tags p)" by (auto simp: last_tag_def packet.truncate_def split: if_splits)
  show ?thesis
  proof (cases "number_of (ht_packetid tag) = expected_from (d_src p) s")
    case True
    with assms h tag show ?thesis
      by (cases "a = d_src p") (auto simp: HPCC_receive_data_def expected_from_def get_put Let_def)
  next
    case False
    with assms h show ?thesis
      by (cases "a = d_src p") (auto simp: HPCC_receive_data_def expected_from_def get_put Let_def)
  qed
qed

lemma step_advance:
  assumes "HPCC_handleMessage cfg x s = Inr (s', es)"
  shows "expected_from a s \<le> expected_from a s' \<and> up_numbers a es = [expected_from a s..expected_from a s' - 1]"
proof -
  have same: "receiver_packetMap s' = receiver_packetMap s \<Longrightarrow> up_numbers a es = [] \<Longrightarrow> ?thesis"
    by (simp add: expected_from_def)
  obtain now e where x: "x = (now, e)" by (cases x)
  show ?thesis
  proof (cases e)
    case (Upper p)
    with assms x upper_frame[of cfg now p s s' es a] same show ?thesis by auto
  next
    case (Lower p)
    with assms x ack_frame[of cfg now p s s' es a] receive_advance[of p s s' es a] same show ?thesis
      by (auto simp: HPCC_processLowerpck_def split: if_splits)
  next
    case (Fire tm)
    show ?thesis
    proof (cases "tm = SendDataTimer")
      case True
      with assms x Fire send_frame[of cfg now "s\<lparr>senddata := None\<rparr>" s' es a] same show ?thesis
        by (auto simp: HPCC_handleSelfMessage_def expected_from_def split: if_splits)
    next
      case False
      with assms x Fire same show ?thesis by (cases tm) auto
    qed
  qed
qed

lemma run_advance:
  "run_out (HPCC_handleMessage cfg) xs s = Inr (s', es) \<Longrightarrow>
     expected_from a s \<le> expected_from a s' \<and> up_numbers a es = [expected_from a s..expected_from a s' - 1]"
proof (induction xs arbitrary: s es)
  case Nil
  then show ?case by simp
next
  case (Cons x xs)
  from Cons.prems obtain s1 es1 es2 where s1: "HPCC_handleMessage cfg x s = Inr (s1, es1)"
    and r: "run_out (HPCC_handleMessage cfg) xs s1 = Inr (s', es2)" and es: "es = es1 @ es2"
    by (auto simp: run_out_Cons_Inr simp del: run_out.simps)
  from step_advance[OF s1, of a] Cons.IH[OF r] show ?case
    by (simp add: es up_append upto_join)
qed

lemma init_fields:
  assumes "HPCC_initialize cfg = Inr s0"
  obtains w a where "w < 2 ^ 31" and
    "s0 = \<lparr>sender_packetMap = [], pk_state = STOPPING, senddata = None, packetid = 0, nxtSendpacketid = 0,
       pk_lastflowid = -1, pk_last_creation_time = 0, send_window = word_of_int w, csend_window = word_of_int w,
       hp_rate = linkspeed cfg, wint = w, wai = a, isFirstAck = True, lastUpdateSeq = -1, incstage = 0, U = 0,
       LastInf = replicate 10 no_hop, receiver_packetMap = []\<rparr>"
proof -
  from assms obtain w a where w: "dbl_to_int (linkspeed cfg * baseRTT cfg / 8) = Inr w"
    and s0: "s0 = \<lparr>sender_packetMap = [], pk_state = STOPPING, senddata = None, packetid = 0, nxtSendpacketid = 0,
       pk_lastflowid = -1, pk_last_creation_time = 0, send_window = word_of_int w, csend_window = word_of_int w,
       hp_rate = linkspeed cfg, wint = w, wai = a, isFirstAck = True, lastUpdateSeq = -1, incstage = 0, U = 0,
       LastInf = replicate 10 no_hop, receiver_packetMap = []\<rparr>"
    by (auto simp: HPCC_initialize_def rbind_eq_Inr split: if_splits)
  let ?x = "linkspeed cfg * baseRTT cfg / 8"
  have x: "?x < 2 ^ 31" "w = trunc_real ?x" using w by (simp_all add: dbl_to_int_def split: if_splits)
  have "w < 2 ^ 31"
  proof (cases "0 \<le> ?x")
    case True
    then have "w = \<lfloor>?x\<rfloor>" unfolding x(2) trunc_real_def by (rule if_P)
    with x(1) show ?thesis by (simp only: floor_less_iff) simp
  next
    case False
    then have "w = - \<lfloor>- ?x\<rfloor>" unfolding x(2) trunc_real_def by (rule if_not_P)
    moreover have "0 \<le> \<lfloor>- ?x\<rfloor>" using False by (simp only: zero_le_floor)
    ultimately have "w \<le> 0" by linarith
    also have "(0 :: int) < 2 ^ 31" by simp
    finally show ?thesis .
  qed
  then show thesis using s0 by (rule that)
qed

subsection \<open>Properties\<close>

definition sample_hpcc :: hpcc_cfg where
  "sample_hpcc = \<lparr>activate = True, stopTime = 1000, linkspeed = 8, max_pck_size = 1000, baseRTT = 1500, expectedFlows = 1\<rparr>"

definition sample_ack :: "string \<Rightarrow> dgram" where
  "sample_ack nm = hpcc_reply nm 0 (sample_message 0) \<lparr>nHop = 0, pathID = 0, hopInfs = replicate 5 no_hop\<rparr>"

lemma sample_init: "\<exists>s0. HPCC_initialize sample_hpcc = Inr s0 \<and> wint s0 = 1500"
  by (simp add: HPCC_initialize_def sample_hpcc_def dbl_to_int_def trunc_real_def)

lemma run_numbers:
  assumes "HPCC_initialize cfg = Inr s0" and "run_out (HPCC_handleMessage cfg) xs s0 = Inr (s, es)"
  shows "up_numbers a es = [0..expected_from a s - 1]"
proof -
  have "expected_from a s0 = 0" using assms(1) by (rule init_fields) (simp add: expected_from_def)
  with run_advance[OF assms(2), of a] show ?thesis by simp
qed

text \<open>Delivery in order.  Whatever packets, acknowledgements, requests and timers come, the packets a
  receiver passes up from a source are numbered \<open>0, 1, 2, ...\<close> without gap or repetition, up to the
  one it expects next.\<close>

theorem hpcc_in_order:
  assumes "HPCC_initialize cfg = Inr s0" and "run_out (HPCC_handleMessage cfg) xs s0 = Inr (s, es)"
  shows "up_numbers a es = [0..expected_from a s - 1]"
  using assms by (rule run_numbers)

theorem hpcc_in_order_witness:
  "\<exists>s0. HPCC_initialize sample_hpcc = Inr s0 \<and> up_numbers 7 [] = [0..expected_from 7 s0 - 1]"
proof -
  from sample_init obtain s0 where i: "HPCC_initialize sample_hpcc = Inr s0" by blast
  from hpcc_in_order[OF i, of "[]" s0 "[]" 7] i show ?thesis by simp
qed

text \<open>Cutting a message.  A message of \<open>len\<close> bytes becomes the least number of packets of at most
  \<open>max_pck_size\<close> bytes; they are filed under consecutive numbers, their lengths add up to the message,
  none is empty, and exactly the last is flagged as such.\<close>

theorem hpcc_message_cut:
  assumes "HPCC_processUpperpck cfg now p s = Inr (s', es)" and "contains ''Data'' (p_name p)" and "activate cfg"
    and "0 < max_pck_size cfg" and "0 < payload_of p" and "payload_of p < 2 ^ 64"
  shows "\<exists>lens. int (length lens) = (payload_of p + max_pck_size cfg - 1) div max_pck_size cfg \<and>
     sum_list lens = payload_of p \<and> (\<forall>l\<in>set lens. 0 < l \<and> l \<le> max_pck_size cfg) \<and>
     packetid s' = packetid s + of_nat (length lens) \<and>
     (\<forall>i<length lens. map_get (sender_packetMap s') (packetid s + of_nat i) =
        Some ((message_info (last (p_tags p)) p)\<lparr>pi_length := lens ! i, pi_last := (Suc i = length lens)\<rparr>))"
proof -
  obtain n lst where c: "cut_message (max_pck_size cfg) (payload_of p) = (n, lst)" by fastforce
  note cover = pieces_cover[OF c assms(4,5)]
  have e: "enter_packets (\<lambda>n. n) (scheduleSenddata now now) (message_info (last (p_tags p)) p) (max_pck_size cfg) lst (nat n) s = Inr (s', es)"
    using assms(1)[unfolded HPCC_processUpperpck_def] by (rule upper_cases) (use assms(2,3) c in auto)
  have n: "0 < nat n" "nat n < 2 ^ 64" using cover assms(6) by (auto simp: nat_less_iff)
  note entries = hpcc_start.enter_entries[OF e n(2)]
  define lens where "lens = replicate (nat n - 1) (max_pck_size cfg) @ [lst]"
  have l: "length lens = nat n" using n(1) by (simp add: lens_def)
  have "lens ! i = (if Suc i = nat n then lst else max_pck_size cfg)" if "i < nat n" for i
    using that by (auto simp: lens_def nth_append)
  moreover have "sum_list lens = payload_of p"
    using cover(4) n(1) by (simp add: lens_def sum_list_replicate of_nat_diff)
  moreover have "\<forall>x\<in>set lens. 0 < x \<and> x \<le> max_pck_size cfg" using cover(2,3) assms(4) by (auto simp: lens_def)
  moreover have "packetid s' = packetid s + of_nat (nat n)" using hpcc_start.enter_shape[OF e] by auto
  ultimately show ?thesis using l cover(1,5) entries
    by (intro exI[of _ lens]) (auto simp: piece_def)
qed

theorem hpcc_message_cut_witness:
  "\<exists>s0 s' es. HPCC_processUpperpck sample_hpcc 0 (sample_message 2500) s0 = Inr (s', es) \<and> packetid s' = packetid s0 + 3"
proof -
  from sample_init obtain s0 where i: "HPCC_initialize sample_hpcc = Inr s0" by blast
  have p: "cut_message 1000 2500 = (3, 500)" by (simp add: cut_message_def)
  have s: "pk_state s0 = STOPPING" "senddata s0 = None" using i by (auto elim: init_fields)
  let ?I = "message_info (last (p_tags (sample_message 2500))) (sample_message 2500)" and ?st = "scheduleSenddata 0 0"
  have "\<exists>s'. enter_packets (\<lambda>n. n) ?st ?I 1000 500 3 s0 = Inr (s', [Arm SendDataTimer 0])"
    using enter_starts[OF s(1), where n = 3 and start = ?st and now = 0 and es = "[Arm SendDataTimer 0]" and info = ?I and mx = 1000 and lst = 500] s(2)
    by (auto simp: scheduleSenddata_def)
  then obtain s' where "enter_packets (\<lambda>n. n) ?st ?I 1000 500 3 s0 = Inr (s', [Arm SendDataTimer 0])" by blast
  then have r: "HPCC_processUpperpck sample_hpcc 0 (sample_message 2500) s0 = Inr (s', [Arm SendDataTimer 0])"
    using upper_enter[of "sample_message 2500" True 1000 3 500 "\<lambda>n. n" ?st s0] p
    by (simp add: HPCC_processUpperpck_def sample_payload sample_hpcc_def) (simp add: sample_message_def)
  have d: "contains ''Data'' (p_name (sample_message 2500))" by (simp add: sample_message_def)
  have "packetid s' = packetid s0 + 3"
    using hpcc_message_cut[OF r d] by (auto simp: sample_payload sample_hpcc_def)
  with r show ?thesis by blast
qed

text \<open>A NACK to a paused sender brings it down: it arms the timer to go back, and at its end the pause is
  lifted by arming the same timer again.\<close>

theorem hpcc_nack_while_paused:
  assumes "pk_state s = PAUSING" and "\<not> isFirstAck s" and "contains ''NACK'' (p_name p)"
    and "\<not> contains ''HPCCData'' (p_name p)"
  shows "\<exists>e. HPCC_handleMessage cfg (now, Lower p) s = Inl e"
proof (rule ccontr)
  assume "\<not> ?thesis"
  then obtain s' es where r: "HPCC_handleMessage cfg (now, Lower p) s = Inr (s', es)"
    by (cases "HPCC_handleMessage cfg (now, Lower p) s") auto
  have "contains ''ACK'' (p_name p)"
  proof -
    from assms(3) obtain u v where "p_name p = (u @ ''N'') @ ''ACK'' @ v" by (auto simp: contains_append)
    then show ?thesis by (simp only: contains_append) blast
  qed
  with r assms(4) have "HPCC_receiveAck cfg now p s = Inr (s', es)" by (simp add: HPCC_processLowerpck_def)
  then show False
  proof (rule ack_cases)
    fix n h s1 es1 es2
    assume c: "hpcc_confirm now (contains ''NACK'' (p_name p)) n s = (s1, es1)" "hpcc_react cfg now n h s1 = Inr (s', es2)"
    from confirm_frame[OF c(1)] assms have s1: "pk_state s1 = PAUSING" "\<not> isFirstAck s1" "senddata s1 \<noteq> None" by auto
    from c(2) show False
    proof (cases rule: react_cases)
      case first
      with s1 show False by simp
    next
      case (later s2 u r)
      from window_frame[OF later(2)] s1 later(3) show False by (auto simp: hpcc_resume_def scheduleSenddata_def)
    qed
  qed
qed

theorem hpcc_nack_while_paused_witness:
  "\<exists>s0 e. HPCC_handleMessage sample_hpcc (5, Lower (sample_ack ''NACK-''))
     (s0\<lparr>pk_state := PAUSING, isFirstAck := False\<rparr>) = Inl e"
proof -
  have n: "p_name (sample_ack ''NACK-'') = ''NACK-0''" by (simp add: sample_ack_def hpcc_reply_def digits_0)
  have "contains ''NACK'' (p_name (sample_ack ''NACK-''))" "\<not> contains ''HPCCData'' (p_name (sample_ack ''NACK-''))"
    unfolding n by simp_all
  from hpcc_nack_while_paused[OF _ _ this, of "s0\<lparr>pk_state := PAUSING, isFirstAck := False\<rparr>" sample_hpcc 5 for s0]
  show ?thesis by fastforce
qed

lemma paused_stays:
  "run_out (HPCC_handleMessage cfg) ys s = Inr (s', es) \<Longrightarrow> \<forall>y\<in>set ys. \<forall>q. snd y \<noteq> Lower q \<Longrightarrow>
     pk_state s = PAUSING \<Longrightarrow> senddata s = None \<Longrightarrow>
     pk_state s' = PAUSING \<and> senddata s' = None \<and> nxtSendpacketid s' = nxtSendpacketid s"
proof (induction ys arbitrary: s es)
  case Nil
  then show ?case by simp
next
  case (Cons y ys)
  from Cons.prems(1) obtain s1 es1 es2 where s1: "HPCC_handleMessage cfg y s = Inr (s1, es1)"
    and r: "run_out (HPCC_handleMessage cfg) ys s1 = Inr (s', es2)"
    by (auto simp: run_out_Cons_Inr simp del: run_out.simps)
  obtain now e where y: "y = (now, e)" by (cases y)
  have "pk_state s1 = PAUSING \<and> senddata s1 = None \<and> nxtSendpacketid s1 = nxtSendpacketid s"
  proof (cases e)
    case (Upper p)
    with s1 y upper_frame[of cfg now p s s1 es1] Cons.prems(3,4) show ?thesis by auto
  next
    case (Lower p)
    with Cons.prems(2) y show ?thesis by auto
  next
    case (Fire tm)
    with s1 y Cons.prems(3,4) show ?thesis by (cases tm) auto
  qed
  with Cons.IH[OF r] Cons.prems(2) show ?case by simp
qed

lemma send_pauses:
  assumes "int_packetid (nxtSendpacketid s) = nxtSendpacketid s"
    and "map_get (sender_packetMap s) (nxtSendpacketid s) = Some i"
    and "map_get (sender_packetMap s) (nxtSendpacketid s + 1) = Some j"
    and "\<not> send_window s - word_of_int (pi_length i) \<ge> word_of_int (pi_length j)"
  shows "\<exists>s' d. HPCC_send_data cfg now s = Inr (s', [SendDown d]) \<and> pk_state s' = PAUSING \<and> senddata s' = senddata s \<and>
     nxtSendpacketid s' = nxtSendpacketid s + 1 \<and> isFirstAck s' = isFirstAck s"
  using assms by (simp add: HPCC_send_data_def Let_def del: not_le)

lemma window_too_small:
  fixes w a b :: int
  assumes "a \<le> w" and "w < a + b" and "0 \<le> a" and "b \<le> a" and "w < 2 ^ 31"
  shows "\<not> (word_of_int w - word_of_int a :: u32) \<ge> word_of_int b"
proof -
  have fits: "uint (word_of_int x :: u32) = x" if "0 \<le> x" "x < 2 ^ 31" for x
    using that by (simp add: uint_word_of_int)
  have c: "0 \<le> w - a" "w - a < 2 ^ 31" "w - a < b" using assms by simp_all
  have d: "0 \<le> b" "b < 2 ^ 31" using assms c by simp_all
  show ?thesis
    unfolding wi_hom_sub word_le_def fits[OF c(1,2)] fits[OF d] using c(3) by simp
qed

text \<open>The first acknowledgement does not lift a pause.  With a window that holds one packet of a message but
  not two, the sender pauses after the first packet; the acknowledgement of it only starts the
  telemetry record and returns, and nothing the application or a timer does afterwards sends again.\<close>

theorem hpcc_first_ack_deadlock:
  assumes "HPCC_initialize cfg = Inr s0" and "activate cfg" and "0 < max_pck_size cfg" and "t < stopTime cfg"
    and "contains ''Data'' (p_name p)" and "p_tags p \<noteq> []" and "payload_of p < 2 ^ 64"
    and "max_pck_size cfg < payload_of p" and "max_pck_size cfg \<le> wint s0"
    and "wint s0 < max_pck_size cfg + min (max_pck_size cfg) (payload_of p - max_pck_size cfg)"
    and "contains ''ACK'' (p_name a)" and "\<not> contains ''NACK'' (p_name a)" and "\<not> contains ''HPCCData'' (p_name a)"
    and "p_tags a \<noteq> []" and "d_int a = Some h"
  shows "\<exists>s1 es1. run_out (HPCC_handleMessage cfg) [(t, Upper p), (t, Fire SendDataTimer), (t', Lower a)] s0 = Inr (s1, es1) \<and>
     (\<forall>ys s' es'. (\<forall>y\<in>set ys. \<forall>q. snd y \<noteq> Lower q) \<longrightarrow> run_out (HPCC_handleMessage cfg) ys s1 = Inr (s', es') \<longrightarrow>
        pk_state s' = PAUSING \<and> senddata s' = None \<and> nxtSendpacketid s' = 1)"
proof -
  let ?mx = "max_pck_size cfg" and ?L = "payload_of p"
  obtain n lst where c: "cut_message ?mx ?L = (n, lst)" by fastforce
  have "0 < ?L" using assms(3,8) by simp
  note cover = pieces_cover[OF c assms(3) this]
  have n: "2 \<le> n"
  proof (rule ccontr)
    assume "\<not> 2 \<le> n"
    with cover(5) have "n = 1" by simp
    with cover(3,4) assms(8) show False by simp
  qed
  then have nn: "0 < nat n" "nat n < 2 ^ 64" "nat n \<noteq> Suc 0" using cover(6) assms(7) by (auto simp: nat_less_iff)
  from assms(1) obtain w aa where w: "w < 2 ^ 31" and s0: "wint s0 = w" "send_window s0 = word_of_int w"
    "pk_state s0 = STOPPING" "senddata s0 = None" "packetid s0 = 0" "nxtSendpacketid s0 = 0" "isFirstAck s0"
    by (auto elim: init_fields)
  let ?I = "message_info (last (p_tags p)) p" and ?st = "scheduleSenddata t t :: hpcc \<Rightarrow> _"
  have "\<exists>s'. enter_packets (\<lambda>n. n) ?st ?I ?mx lst (nat n) s0 = Inr (s', [Arm SendDataTimer t]) \<and> senddata s' = Some t"
    using s0(4) enter_starts[OF s0(3) nn(1), where start = ?st and now = t and es = "[Arm SendDataTimer t]" and info = ?I and mx = ?mx and lst = lst]
    by (auto simp: scheduleSenddata_def)
  then obtain s1 where e0: "enter_packets (\<lambda>n. n) ?st ?I ?mx lst (nat n) s0 = Inr (s1, [Arm SendDataTimer t])"
    and s1: "senddata s1 = Some t" by blast
  have e: "HPCC_handleMessage cfg (t, Upper p) s0 = Inr (s1, [Arm SendDataTimer t])"
    using upper_enter[OF assms(5,2,6) _ c, of "\<lambda>n. n" ?st s0] assms(3) e0 by (simp add: HPCC_processUpperpck_def)
  have same: "send_window s1 = word_of_int w" "nxtSendpacketid s1 = 0" "isFirstAck s1"
    using hpcc_start.enter_shape[OF e0] s0 by auto
  note entries = conjunct1[OF hpcc_start.enter_entries[OF e0 nn(2)], unfolded s0(5), rule_format]
  have i0: "map_get (sender_packetMap s1) 0 = Some (piece ?I ?mx lst (nat n) 0)"
    and i1: "map_get (sender_packetMap s1) 1 = Some (piece ?I ?mx lst (nat n) 1)"
    using entries[of 0] entries[of 1] n by auto
  have l0: "pi_length (piece ?I ?mx lst (nat n) 0) = ?mx" using nn(3) by (simp add: piece_def)
  have l1: "?mx + min ?mx (?L - ?mx) \<le> ?mx + pi_length (piece ?I ?mx lst (nat n) 1)"
    "pi_length (piece ?I ?mx lst (nat n) 1) \<le> ?mx"
  proof -
    have "n = 2" if "nat n = Suc (Suc 0)" using that n by simp
    then have "?L - ?mx = lst" if "nat n = Suc (Suc 0)" using cover(4) that by simp
    then show "?mx + min ?mx (?L - ?mx) \<le> ?mx + pi_length (piece ?I ?mx lst (nat n) 1)"
      and "pi_length (piece ?I ?mx lst (nat n) 1) \<le> ?mx"
      using cover(3) by (auto simp: piece_def)
  qed
  have "\<not> word_of_int w - (word_of_int ?mx :: u32) \<ge> word_of_int (pi_length (piece ?I ?mx lst (nat n) 1))"
    by (rule window_too_small) (use assms(3,9,10) l1 w s0(1) in auto)
  with send_pauses[of "s1\<lparr>senddata := None\<rparr>" "piece ?I ?mx lst (nat n) 0" "piece ?I ?mx lst (nat n) 1" cfg t]
    i0 i1 l0 same obtain s2 d where
    f: "HPCC_send_data cfg t (s1\<lparr>senddata := None\<rparr>) = Inr (s2, [SendDown d])" "pk_state s2 = PAUSING" "senddata s2 = None"
      "nxtSendpacketid s2 = 1" "isFirstAck s2" by auto
  have "\<exists>s3. HPCC_handleMessage cfg (t', Lower a) s2 = Inr (s3, []) \<and> pk_state s3 = PAUSING \<and> senddata s3 = None \<and>
      nxtSendpacketid s3 = 1"
    using f assms(11-15)
    by (simp add: HPCC_processLowerpck_def HPCC_receiveAck_def hpcc_confirm_def hpcc_react_def tag_of_truncate keep_inf_def)
  then obtain s3 where g: "HPCC_handleMessage cfg (t', Lower a) s2 = Inr (s3, [])" "pk_state s3 = PAUSING" "senddata s3 = None"
    "nxtSendpacketid s3 = 1" by blast
  have "run_out (HPCC_handleMessage cfg) [(t, Upper p), (t, Fire SendDataTimer), (t', Lower a)] s0 =
      Inr (s3, [Arm SendDataTimer t, SendDown d])"
    using e f(1) g(1) assms(4) s1 by (simp add: HPCC_handleSelfMessage_def)
  with paused_stays[OF _ _ g(2,3)] g(4) show ?thesis by auto
qed

theorem hpcc_first_ack_deadlock_witness:
  "\<exists>s0 s1 es1. run_out (HPCC_handleMessage sample_hpcc)
     [(0, Upper (sample_message 2500)), (0, Fire SendDataTimer), (9, Lower (sample_ack ''ACK-''))] s0 = Inr (s1, es1) \<and>
     pk_state s1 = PAUSING \<and> senddata s1 = None"
proof -
  from sample_init obtain s0 where i: "HPCC_initialize sample_hpcc = Inr s0" "wint s0 = 1500" by blast
  have n: "p_name (sample_ack ''ACK-'') = ''ACK-0''" by (simp add: sample_ack_def hpcc_reply_def digits_0)
  have c: "contains ''ACK'' (p_name (sample_ack ''ACK-''))" "\<not> contains ''NACK'' (p_name (sample_ack ''ACK-''))"
    "\<not> contains ''HPCCData'' (p_name (sample_ack ''ACK-''))"
    unfolding n by simp_all
  have d: "contains ''Data'' (p_name (sample_message 2500))" "p_tags (sample_message 2500) \<noteq> []"
    "p_tags (sample_ack ''ACK-'') \<noteq> []" "d_int (sample_ack ''ACK-'') = Some \<lparr>nHop = 0, pathID = 0, hopInfs = replicate 5 no_hop\<rparr>"
    by (simp_all add: sample_message_def sample_ack_def hpcc_reply_def)
  from hpcc_first_ack_deadlock[OF i(1) _ _ _ d(1,2) _ _ _ _ c d(3,4), of 0 9] i(2) obtain s1 es1 where
    r: "run_out (HPCC_handleMessage sample_hpcc)
       [(0, Upper (sample_message 2500)), (0, Fire SendDataTimer), (9, Lower (sample_ack ''ACK-''))] s0 = Inr (s1, es1)"
    and p: "\<And>ys s' es'. \<forall>y\<in>set ys. \<forall>q. snd y \<noteq> Lower q \<Longrightarrow> run_out (HPCC_handleMessage sample_hpcc) ys s1 = Inr (s', es') \<Longrightarrow>
        pk_state s' = PAUSING \<and> senddata s' = None \<and> nxtSendpacketid s' = 1"
    by (auto simp: sample_payload sample_hpcc_def simp del: run_out.simps)
  from p[of "[]" s1 "[]"] r show ?thesis by auto
qed

text \<open>A message of one packet, sent at once by a stopped sender whose packets are all confirmed.\<close>

lemma send_one:
  assumes "contains ''Data'' (p_name p)" and "activate cfg" and "p_tags p \<noteq> []" and "0 < payload_of p"
    and "payload_of p \<le> max_pck_size cfg" and "t < stopTime cfg" and "pk_state s = STOPPING" and "senddata s = None"
    and "sender_packetMap s = []" and "nxtSendpacketid s = packetid s" and "int_packetid (packetid s) = packetid s"
  shows "\<exists>i c f. pi_src i = d_src p \<and> run_out (HPCC_handleMessage cfg) [(t, Upper p), (t, Fire SendDataTimer)] s =
     Inr (s\<lparr>sender_packetMap := [(packetid s, i)], packetid := packetid s + 1, nxtSendpacketid := packetid s + 1,
            pk_last_creation_time := c, pk_lastflowid := f, send_window := send_window s - word_of_int (payload_of p)\<rparr>,
          [Arm SendDataTimer t, SendDown (hpcc_packet (packetid s) c i)])"
proof -
  let ?i = "(message_info (last (p_tags p)) p)\<lparr>pi_length := payload_of p, pi_last := True\<rparr>"
  let ?c = "if pk_lastflowid s \<noteq> pi_flowid ?i then pi_cretime ?i else pk_last_creation_time s"
  have mx: "max_pck_size cfg \<noteq> 0" using assms(4,5) by simp
  have apart: "packetid s + 1 \<noteq> packetid s" by simp
  have u: "HPCC_handleMessage cfg (t, Upper p) s =
      Inr (s\<lparr>sender_packetMap := [(packetid s, ?i)], packetid := packetid s + 1, pk_state := SENDING, senddata := Some t\<rparr>,
           [Arm SendDataTimer t])"
    using upper_enter[OF assms(1-3) mx single_piece[OF assms(4,5)], of "\<lambda>n. n" "scheduleSenddata t t" s] assms(7-9)
    by (simp add: HPCC_processUpperpck_def scheduleSenddata_def Let_def)
  have "run_out (HPCC_handleMessage cfg) [(t, Upper p), (t, Fire SendDataTimer)] s =
     Inr (s\<lparr>sender_packetMap := [(packetid s, ?i)], packetid := packetid s + 1, nxtSendpacketid := packetid s + 1,
            pk_last_creation_time := ?c, pk_lastflowid := pi_flowid ?i,
            send_window := send_window s - word_of_int (payload_of p)\<rparr>,
          [Arm SendDataTimer t, SendDown (hpcc_packet (packetid s) ?c ?i)])"
    using u assms(6-11) apart
    by (cases s) (simp add: HPCC_handleSelfMessage_def HPCC_send_data_def note_packet_def Let_def)
  then show ?thesis by (intro exI[of _ ?i] exI[of _ ?c] exI[of _ "pi_flowid ?i"]) (simp add: message_info_def)
qed

text \<open>A fresh receiver confirms packet 0 and answers any later one by a NACK for packet 0.\<close>

lemma fresh_receiver:
  assumes "receiver_packetMap r = []"
  shows "\<exists>r' u. HPCC_handleMessage cfg (t, Lower (hpcc_packet 0 c i)) r =
      Inr (r', [SendDown (hpcc_reply ''ACK-'' 0 (hpcc_packet 0 c i) \<lparr>nHop = 0, pathID = 0, hopInfs = replicate 5 no_hop\<rparr>), SendUp u])"
    and "\<exists>r'. HPCC_handleMessage cfg (t, Lower (hpcc_packet 1 c i)) r =
      Inr (r', [SendDown (hpcc_reply ''NACK-'' 0 (hpcc_packet 1 c i) \<lparr>nHop = 0, pathID = 0, hopInfs = replicate 5 no_hop\<rparr>)])"
proof -
  have nm: "contains ''HPCCData'' (p_name (hpcc_packet n c i))" for n
  proof -
    have "p_name (hpcc_packet n c i) = [] @ ''HPCCData'' @ (''-'' @ digits (unat n))" by (simp add: hpcc_packet_def filed_dgram_def)
    then show ?thesis by (simp only: contains_append) blast
  qed
  have tag: "last_tag (packet.truncate (hpcc_packet n c i)) = Inr (last (p_tags (hpcc_packet n c i)))" for n
    by (simp add: tag_of_truncate hpcc_packet_def filed_dgram_def)
  have f: "d_int (hpcc_packet n c i) = Some \<lparr>nHop = 0, pathID = 0, hopInfs = replicate 5 no_hop\<rparr>"
    "number_of (ht_packetid (last (p_tags (hpcc_packet n c i)))) = number_of (uint n)" for n
    by (simp_all add: hpcc_packet_def filed_dgram_def)
  have num: "number_of (uint (0 :: u64)) = 0" "number_of (uint (1 :: u64)) = 1" by (simp_all add: number_of_def)
  have e: "expected_from a r = 0" for a using assms by (simp add: expected_from_def)
  show "\<exists>r' u. HPCC_handleMessage cfg (t, Lower (hpcc_packet 0 c i)) r =
      Inr (r', [SendDown (hpcc_reply ''ACK-'' 0 (hpcc_packet 0 c i) \<lparr>nHop = 0, pathID = 0, hopInfs = replicate 5 no_hop\<rparr>), SendUp u])"
    by (simp add: HPCC_processLowerpck_def HPCC_receive_data_def nm tag f num e del: unsigned_0 unsigned_1)
  show "\<exists>r'. HPCC_handleMessage cfg (t, Lower (hpcc_packet 1 c i)) r =
      Inr (r', [SendDown (hpcc_reply ''NACK-'' 0 (hpcc_packet 1 c i) \<lparr>nHop = 0, pathID = 0, hopInfs = replicate 5 no_hop\<rparr>)])"
    by (simp add: HPCC_processLowerpck_def HPCC_receive_data_def nm tag f num e del: unsigned_0 unsigned_1)
qed

lemma reply_names:
  "\<not> contains ''HPCCData'' (p_name (hpcc_reply ''ACK-'' 0 p h))" "contains ''ACK'' (p_name (hpcc_reply ''ACK-'' 0 p h))"
  "\<not> contains ''NACK'' (p_name (hpcc_reply ''ACK-'' 0 p h))"
  "\<not> contains ''HPCCData'' (p_name (hpcc_reply ''NACK-'' 0 p h))" "contains ''ACK'' (p_name (hpcc_reply ''NACK-'' 0 p h))"
  "contains ''NACK'' (p_name (hpcc_reply ''NACK-'' 0 p h))"
proof -
  have n: "p_name (hpcc_reply ''ACK-'' 0 p h) = ''ACK-0''" "p_name (hpcc_reply ''NACK-'' 0 p h) = ''NACK-0''"
    by (simp_all add: hpcc_reply_def digits_0)
  show "\<not> contains ''HPCCData'' (p_name (hpcc_reply ''ACK-'' 0 p h))" "contains ''ACK'' (p_name (hpcc_reply ''ACK-'' 0 p h))"
    "\<not> contains ''NACK'' (p_name (hpcc_reply ''ACK-'' 0 p h))" unfolding n(1) by simp_all
  show "\<not> contains ''HPCCData'' (p_name (hpcc_reply ''NACK-'' 0 p h))" "contains ''ACK'' (p_name (hpcc_reply ''NACK-'' 0 p h))"
    "contains ''NACK'' (p_name (hpcc_reply ''NACK-'' 0 p h))" unfolding n(2) by simp_all
qed

lemma quiet_hops: "hpcc_inflight cfg (zip (replicate m no_hop) (replicate k no_hop)) u tao = Inr (u, tao)"
proof -
  have h: "hpcc_hop cfg no_hop no_hop = Inr None" by (simp add: hpcc_hop_def no_hop_def)
  have "hpcc_inflight cfg (replicate j (no_hop, no_hop)) u tao = Inr (u, tao)" for j by (induction j) (simp_all add: h)
  then show ?thesis by (simp add: zip_replicate)
qed

text \<open>Answers to a stopped sender: its first acknowledgement, and later a NACK with nothing measured.\<close>

lemma first_ack:
  assumes "isFirstAck s" and "sender_packetMap s = [(0, i)]"
  shows "HPCC_handleMessage cfg (t, Lower (hpcc_reply ''ACK-'' 0 p h)) s =
    Inr (keep_inf h (s\<lparr>sender_packetMap := [], isFirstAck := False\<rparr>), [])"
proof -
  have t: "last_tag (packet.truncate (hpcc_reply ''ACK-'' 0 p h)) = Inr (last (p_tags (hpcc_reply ''ACK-'' 0 p h)))"
    by (simp add: tag_of_truncate hpcc_reply_def)
  have f: "d_int (hpcc_reply ''ACK-'' 0 p h) = Some h" "ht_packetid (last (p_tags (hpcc_reply ''ACK-'' 0 p h))) = 0"
    by (simp_all add: hpcc_reply_def)
  show ?thesis
    using assms by (simp add: HPCC_processLowerpck_def HPCC_receiveAck_def reply_names t f hpcc_confirm_def hpcc_react_def number_of_def)
qed

lemma quiet_nack:
  assumes "\<not> isFirstAck s" and "0 < baseRTT cfg" and "U s = 0" and "incstage s = 0" and "LastInf s = replicate 10 no_hop"
    and "pk_state s = STOPPING" and "senddata s = None" and "hopInfs h = replicate 5 no_hop"
  obtains s' where "HPCC_handleMessage cfg (t, Lower (hpcc_reply ''NACK-'' 0 p h)) s = Inr (s', [Arm SendDataTimer t])"
    and "sender_packetMap s' = sender_packetMap s" and "nxtSendpacketid s' = 0" and "senddata s' = Some t"
proof -
  let ?s = "s\<lparr>nxtSendpacketid := 0, senddata := Some t\<rparr>"
  have t: "last_tag (packet.truncate (hpcc_reply ''NACK-'' 0 p h)) = Inr (last (p_tags (hpcc_reply ''NACK-'' 0 p h)))"
    by (simp add: tag_of_truncate hpcc_reply_def)
  have f: "d_int (hpcc_reply ''NACK-'' 0 p h) = Some h" "ht_packetid (last (p_tags (hpcc_reply ''NACK-'' 0 p h))) = 0"
    by (simp_all add: hpcc_reply_def)
  have c: "hpcc_confirm t True 0 s = (?s, [Arm SendDataTimer t])" using assms(7) by (simp add: hpcc_confirm_def hpcc_goback_def)
  have "\<exists>x. hpcc_window 0 (?s\<lparr>U := 0\<rparr>) = Inr x"
    using assms(4) by (simp add: hpcc_window_def Let_def)
  then obtain s2 where w: "hpcc_window 0 (?s\<lparr>U := 0\<rparr>) = Inr s2" by blast
  then have s2: "sender_packetMap s2 = sender_packetMap s" "nxtSendpacketid s2 = 0" "senddata s2 = Some t" "pk_state s2 = STOPPING"
    using assms(6) by (auto elim: window_fields)
  let ?s' = "keep_inf h (s2\<lparr>hp_rate := of_int (uint (send_window s2 * 8)) / baseRTT cfg\<rparr>)"
  have "hpcc_react cfg t 0 h ?s = Inr (?s', [])"
    using assms(1-6,8) w s2(4) quiet_hops[of cfg 5 10 0 0] by (simp add: hpcc_react_def hpcc_resume_def)
  then have "HPCC_handleMessage cfg (t, Lower (hpcc_reply ''NACK-'' 0 p h)) s = Inr (?s', [Arm SendDataTimer t])"
    by (simp add: HPCC_processLowerpck_def HPCC_receiveAck_def reply_names t f number_of_def c)
  then show thesis using that s2 by (simp add: keep_inf_def)
qed

text \<open>A second destination is out of reach.  Packets are numbered per sender, but every receiver expects to
  start at 0: when a sender has delivered a message to one host and sends to another, that host
  answers with a NACK for packet 0, which the sender has already forgotten, and looking it up ends
  the sender.\<close>

theorem hpcc_second_destination_fails:
  assumes "HPCC_initialize cfg = Inr s0" and "activate cfg" and "t < stopTime cfg" and "0 < baseRTT cfg"
    and "contains ''Data'' (p_name p)" and "p_tags p \<noteq> []" and "0 < payload_of p" and "payload_of p \<le> max_pck_size cfg"
    and "contains ''Data'' (p_name q)" and "p_tags q \<noteq> []" and "0 < payload_of q" and "payload_of q \<le> max_pck_size cfg"
  shows "\<exists>s1 d1 r1 a u s2 d2 r2 nak.
     run_out (HPCC_handleMessage cfg) [(t, Upper p), (t, Fire SendDataTimer)] s0 = Inr (s1, [Arm SendDataTimer t, SendDown d1]) \<and>
     HPCC_handleMessage cfg (t, Lower d1) s0 = Inr (r1, [SendDown a, SendUp u]) \<and>
     run_out (HPCC_handleMessage cfg) [(t, Lower a), (t, Upper q), (t, Fire SendDataTimer)] s1 =
       Inr (s2, [Arm SendDataTimer t, SendDown d2]) \<and>
     HPCC_handleMessage cfg (t, Lower d2) s0 = Inr (r2, [SendDown nak]) \<and>
     run_out (HPCC_handleMessage cfg) [(t, Lower nak), (t, Fire SendDataTimer)] s2 = Inl EndIterator"
proof -
  let ?h = "\<lparr>nHop = 0, pathID = 0, hopInfs = replicate 5 no_hop\<rparr>"
  have s0: "pk_state s0 = STOPPING" "senddata s0 = None" "packetid s0 = 0" "nxtSendpacketid s0 = 0" "sender_packetMap s0 = []"
    "isFirstAck s0" "incstage s0 = 0" "U s0 = 0" "LastInf s0 = replicate 10 no_hop" "receiver_packetMap s0 = []"
    using assms(1) by (auto elim: init_fields)
  from send_one[OF assms(5,2,6-8,3) s0(1,2,5)] s0(3,4) obtain i c f where
    a: "run_out (HPCC_handleMessage cfg) [(t, Upper p), (t, Fire SendDataTimer)] s0 =
      Inr (s0\<lparr>sender_packetMap := [(0, i)], packetid := 1, nxtSendpacketid := 1, pk_last_creation_time := c, pk_lastflowid := f,
        send_window := send_window s0 - word_of_int (payload_of p)\<rparr>, [Arm SendDataTimer t, SendDown (hpcc_packet 0 c i)])"
    (is "_ = Inr (?s1, _)") by auto
  from fresh_receiver(1)[OF s0(10)] obtain r1 u where
    b: "HPCC_handleMessage cfg (t, Lower (hpcc_packet 0 c i)) s0 = Inr (r1, [SendDown (hpcc_reply ''ACK-'' 0 (hpcc_packet 0 c i) ?h), SendUp u])"
    by blast
  define s2 where "s2 = keep_inf ?h (?s1\<lparr>sender_packetMap := [], isFirstAck := False\<rparr>)"
  have k: "HPCC_handleMessage cfg (t, Lower (hpcc_reply ''ACK-'' 0 (hpcc_packet 0 c i) ?h)) ?s1 = Inr (s2, [])"
    unfolding s2_def using s0(6) by (intro first_ack) simp_all
  have s2: "pk_state s2 = STOPPING" "senddata s2 = None" "sender_packetMap s2 = []" "nxtSendpacketid s2 = packetid s2"
    "packetid s2 = 1" "int_packetid (packetid s2) = packetid s2" "\<not> isFirstAck s2" "incstage s2 = 0" "U s2 = 0" "LastInf s2 = replicate 10 no_hop"
    using s0 by (simp_all add: s2_def keep_inf_def flip: replicate_add)
  from send_one[OF assms(9,2,10-12,3) s2(1-4) s2(6)] s2(5) obtain j c' f' where
    e: "run_out (HPCC_handleMessage cfg) [(t, Upper q), (t, Fire SendDataTimer)] s2 =
      Inr (s2\<lparr>sender_packetMap := [(1, j)], packetid := 2, nxtSendpacketid := 2, pk_last_creation_time := c', pk_lastflowid := f',
        send_window := send_window s2 - word_of_int (payload_of q)\<rparr>, [Arm SendDataTimer t, SendDown (hpcc_packet 1 c' j)])"
    (is "_ = Inr (?s3, _)") by auto
  from fresh_receiver(2)[OF s0(10)] obtain r2 where
    g: "HPCC_handleMessage cfg (t, Lower (hpcc_packet 1 c' j)) s0 = Inr (r2, [SendDown (hpcc_reply ''NACK-'' 0 (hpcc_packet 1 c' j) ?h)])"
    by blast
  have s3: "\<not> isFirstAck ?s3" "U ?s3 = 0" "incstage ?s3 = 0" "LastInf ?s3 = replicate 10 no_hop" "pk_state ?s3 = STOPPING"
    "senddata ?s3 = None" "hopInfs ?h = replicate 5 no_hop" using s2 by simp_all
  obtain s4 where n: "HPCC_handleMessage cfg (t, Lower (hpcc_reply ''NACK-'' 0 (hpcc_packet 1 c' j) ?h)) ?s3 = Inr (s4, [Arm SendDataTimer t])"
    and s4: "sender_packetMap s4 = [(1, j)]" "nxtSendpacketid s4 = 0" "senddata s4 = Some t"
    by (rule quiet_nack[OF s3(1) assms(4) s3(2-7)]) auto
  have l: "HPCC_handleMessage cfg (t, Fire SendDataTimer) s4 = Inl EndIterator"
    using s4 assms(3) by (simp add: HPCC_handleSelfMessage_def HPCC_send_data_def)
  have m: "run_out (HPCC_handleMessage cfg) [(t, Lower (hpcc_reply ''ACK-'' 0 (hpcc_packet 0 c i) ?h)), (t, Upper q), (t, Fire SendDataTimer)] ?s1 =
      Inr (?s3, [Arm SendDataTimer t, SendDown (hpcc_packet 1 c' j)])"
    using k e by (subst run_out_Cons_Inr) (intro exI conjI, assumption, assumption, simp)
  have o: "run_out (HPCC_handleMessage cfg) [(t, Lower (hpcc_reply ''NACK-'' 0 (hpcc_packet 1 c' j) ?h)), (t, Fire SendDataTimer)] ?s3 =
      Inl EndIterator"
    using n l by simp
  show ?thesis using a b m g o by blast
qed

theorem hpcc_second_destination_fails_witness:
  "\<exists>s0 s2 nak. run_out (HPCC_handleMessage sample_hpcc) [(5, Lower nak), (5, Fire SendDataTimer)] s2 = Inl EndIterator \<and>
     HPCC_initialize sample_hpcc = Inr s0"
proof -
  from sample_init obtain s0 where i: "HPCC_initialize sample_hpcc = Inr s0" by blast
  have d: "contains ''Data'' (p_name (sample_message n))" "p_tags (sample_message n) \<noteq> []" for n
    by (simp_all add: sample_message_def)
  from hpcc_second_destination_fails[OF i _ _ _ d _ _ d, of 5 900 800] i show ?thesis
    by (auto simp: sample_payload sample_hpcc_def simp del: run_out.simps)
qed

end
