(* ===== verification/HPCC_Stream.thy ===== *)
theory HPCC_Stream
  imports HPCC
begin

section \<open>HPCC end to end\<close>

text \<open>
  Two HPCC modules with a network between them that may lose, delay, reorder and repeat packets,
  mark them and write to their telemetry, but does not make packets up.  The abstract view of the
  connection is a stream: the packets the sender's application has filed, in order.  Whatever the
  network does, and whatever acknowledgements and timers reach the sender, the receiver's
  application is given a prefix of that stream.
\<close>

subsection \<open>The sender\<close>

abbreviation hpcc_data :: "dgram \<Rightarrow> bool" where
  "hpcc_data q \<equiv> contains ''HPCCData'' (p_name q)"

definition hpcc_made :: "u64 \<Rightarrow> pck_info \<Rightarrow> dgram \<Rightarrow> bool" where
  "hpcc_made n i q \<longleftrightarrow> (\<exists>c. q = hpcc_packet n c i)"

lemma reply_no_data:
  assumes "nm \<in> {''ACK-'', ''NACK-''}"
  shows "\<not> hpcc_data (hpcc_reply nm n p h)"
proof
  assume "hpcc_data (hpcc_reply nm n p h)"
  from contains_set[OF this] have "CHR ''H'' \<in> set nm \<union> set (digits (nat n))" by (simp add: hpcc_reply_def)
  with assms digits_chars[of "nat n"] show False by auto
qed

lemma receive_sends:
  assumes "HPCC_receive_data p s = Inr (s', es)" and "SendDown q \<in> set es"
  shows "\<not> hpcc_data q"
proof -
  from assms obtain nm n h where "q = hpcc_reply nm n p h" "nm \<in> {''ACK-'', ''NACK-''}"
    by (auto simp: HPCC_receive_data_def rbind_eq_Inr Let_def split: option.splits if_splits)
  then show ?thesis using reply_no_data by blast
qed

lemma confirm_filed:
  assumes "hpcc_confirm now nack n s = (s', es)"
  shows "packetid s' = packetid s \<and> set (sender_packetMap s') \<subseteq> set (sender_packetMap s) \<and> quiet es"
  using assms set_erase[of "word_of_int n" "sender_packetMap s"]
  by (auto simp: hpcc_confirm_def hpcc_goback_def Let_def split: if_splits)

lemma react_filed:
  assumes "hpcc_react cfg now n h s = Inr (s', es)"
  shows "packetid s' = packetid s \<and> sender_packetMap s' = sender_packetMap s \<and> quiet es"
  using assms
proof (cases rule: react_cases)
  case first
  then show ?thesis by (simp add: keep_inf_def)
next
  case (later s2 u r)
  from later(2) have "packetid s2 = packetid s \<and> sender_packetMap s2 = sender_packetMap s"
    by (rule window_fields) simp
  with later(3) show ?thesis
    by (auto simp: hpcc_resume_def scheduleSenddata_def keep_inf_def split: if_splits)
qed

lemma ack_filed:
  assumes "HPCC_receiveAck cfg now p s = Inr (s', es)"
  shows "packetid s' = packetid s \<and> set (sender_packetMap s') \<subseteq> set (sender_packetMap s) \<and> quiet es"
  using assms
proof (rule ack_cases)
  fix n h s1 es1 es2
  assume c: "hpcc_confirm now (contains ''NACK'' (p_name p)) n s = (s1, es1)"
    and r: "hpcc_react cfg now n h s1 = Inr (s', es2)" and e: "es = es1 @ es2"
  from confirm_filed[OF c] react_filed[OF r] show ?thesis by (simp add: e)
qed

lemma send_filed:
  assumes "HPCC_send_data cfg now s = Inr (s', es)"
  shows "packetid s' = packetid s \<and> sender_packetMap s' = sender_packetMap s \<and>
     (\<forall>q. SendDown q \<in> set es \<longrightarrow> (\<exists>n i c. map_get (sender_packetMap s) n = Some i \<and> q = hpcc_packet n c i))"
  using assms
  by (auto simp: HPCC_send_data_def Let_def rbind_eq_Inr scheduleSenddata_def split: option.splits if_splits) blast+

interpretation hpcc_sender: filing_sender "HPCC_handleMessage cfg" "activate cfg" "max_pck_size cfg"
  "\<lambda>q. activate cfg \<and> hpcc_data q" hpcc_made for cfg
proof unfold_locales
  fix F s x s' es
  assume F: "filed_as F s" and l: "length (F @ files (activate cfg) (max_pck_size cfg) x) < 2 ^ 64"
    and r: "HPCC_handleMessage cfg x s = Inr (s', es)"
  obtain now e where x: "x = (now, e)" by (cases x)
  show "filed_as (F @ files (activate cfg) (max_pck_size cfg) x) s'"
  proof (cases e)
    case (Upper p)
    with r x hpcc_start.upper_filed[of now "activate cfg" "max_pck_size cfg" p s s' es F now] F l show ?thesis
      by (simp add: HPCC_processUpperpck_def)
  next
    case (Lower p)
    then have "packetid s' = packetid s \<and> set (sender_packetMap s') \<subseteq> set (sender_packetMap s)"
      using r x ack_filed[of cfg now p s s' es]
      by (auto simp: HPCC_processLowerpck_def HPCC_receive_data_def rbind_eq_Inr Let_def split: if_splits option.splits)
    with F x Lower show ?thesis by (auto intro: filed_cong)
  next
    case (Fire tm)
    then have "packetid s' = packetid s \<and> sender_packetMap s' = sender_packetMap s"
      using r x send_filed[of cfg now "s\<lparr>senddata := None\<rparr>" s' es]
      by (cases tm) (auto simp: HPCC_handleSelfMessage_def split: if_splits)
    with F x Fire show ?thesis by (auto intro: filed_cong)
  qed
next
  fix F s x s' es q
  assume F: "filed_as F s" and r: "HPCC_handleMessage cfg x s = Inr (s', es)" and q0: "SendDown q \<in> set es" "activate cfg \<and> hpcc_data q"
  then have q: "SendDown q \<in> set es" "hpcc_data q" and act: "activate cfg" by simp_all
  obtain now e where x: "x = (now, e)" by (cases x)
  show "\<exists>n<length F. hpcc_made (of_nat n) (F ! n) q"
  proof (cases e)
    case (Upper p)
    have "contains ''Data'' (p_name q)"
    proof -
      from q(2) obtain u v where "p_name q = (u @ ''HPCC'') @ ''Data'' @ v" by (auto simp: contains_append)
      then show ?thesis by (simp only: contains_append) blast
    qed
    with r x Upper hpcc_start.upper_sends[of now "activate cfg" "max_pck_size cfg" p s s' es] q act show ?thesis
      by (auto simp: HPCC_processUpperpck_def quiet_def)
  next
    case (Lower p)
    with r x q receive_sends[of p s s' es q] ack_filed[of cfg now p s s' es] show ?thesis
      by (auto simp: HPCC_processLowerpck_def quiet_def split: if_splits)
  next
    case (Fire tm)
    then have "tm = SendDataTimer" using r x q(1) by (cases tm) auto
    with r x Fire q(1) send_filed[of cfg now "s\<lparr>senddata := None\<rparr>" s' es] obtain n i c where
      "map_get (sender_packetMap s) n = Some i" "q = hpcc_packet n c i"
      by (auto simp: HPCC_handleSelfMessage_def split: if_splits)
    with filed_get[OF F] show ?thesis by (intro exI[of _ "unat n"]) (auto simp: hpcc_made_def)
  qed
qed

subsection \<open>The receiver\<close>

text \<open>What the network may do to a packet.\<close>

definition in_transit :: "dgram \<Rightarrow> dgram \<Rightarrow> bool" where
  "in_transit q p \<longleftrightarrow> (\<exists>h m. p = q\<lparr>d_int := h, d_ecn := m\<rparr>)"

text \<open>The data packets from host \<open>a\<close> passed up.\<close>

fun passed_up :: "int \<Rightarrow> cc_effect list \<Rightarrow> dgram list" where
  "passed_up a [] = []"
| "passed_up a (SendUp u # es) = (if hpcc_data u \<and> d_src u = a then u # passed_up a es else passed_up a es)"
| "passed_up a (_ # es) = passed_up a es"

lemma passed_append: "passed_up a (es @ es') = passed_up a es @ passed_up a es'"
  by (induction a es rule: passed_up.induct) auto

lemma passed_mem: "u \<in> set (passed_up a es) \<longleftrightarrow> SendUp u \<in> set es \<and> hpcc_data u \<and> d_src u = a"
  by (induction a es rule: passed_up.induct) auto

lemma passed_numbers: "up_numbers a es = map (\<lambda>u. number_of (ht_packetid (last (p_tags u)))) (passed_up a es)"
  by (induction a es rule: passed_up.induct) auto

lemma step_passes:
  assumes "HPCC_handleMessage cfg y r = Inr (r', es)" and "u \<in> set (passed_up a es)"
  shows "\<exists>now p. y = (now, Lower p) \<and> hpcc_data p \<and> d_src p = a \<and> u = p\<lparr>d_int := None, p_len := p_len p - 8 * 42\<rparr>"
proof -
  obtain now e where y: "y = (now, e)" by (cases y)
  from assms(2) have u: "SendUp u \<in> set es" "hpcc_data u" "d_src u = a" by (simp_all add: passed_mem)
  show ?thesis
  proof (cases e)
    case (Upper p)
    with assms(1) y hpcc_start.upper_sends[of now "activate cfg" "max_pck_size cfg" p r r' es] u(1) show ?thesis
      by (auto simp: HPCC_processUpperpck_def quiet_def)
  next
    case (Lower p)
    show ?thesis
    proof (cases "hpcc_data p")
      case True
      with Lower assms(1) y u show ?thesis
        by (auto simp: HPCC_processLowerpck_def HPCC_receive_data_def rbind_eq_Inr Let_def split: option.splits if_splits)
    next
      case False
      with Lower assms(1) y u ack_filed[of cfg now p r r' es] show ?thesis
        by (auto simp: HPCC_processLowerpck_def quiet_def split: if_splits)
    qed
  next
    case (Fire tm)
    with assms(1) y u(1) show ?thesis
      by (cases tm) (auto simp: HPCC_handleSelfMessage_def HPCC_send_data_def Let_def rbind_eq_Inr scheduleSenddata_def
          split: option.splits if_splits)
  qed
qed

lemma run_passes:
  "run_out (HPCC_handleMessage cfg) ys r = Inr (r', es) \<Longrightarrow> u \<in> set (passed_up a es) \<Longrightarrow>
     \<exists>now p. (now, Lower p) \<in> set ys \<and> hpcc_data p \<and> d_src p = a \<and> u = p\<lparr>d_int := None, p_len := p_len p - 8 * 42\<rparr>"
proof (induction ys arbitrary: r es)
  case Nil
  then show ?case by simp
next
  case (Cons y ys)
  from Cons.prems(1) obtain r1 es1 es2 where s1: "HPCC_handleMessage cfg y r = Inr (r1, es1)"
    and r: "run_out (HPCC_handleMessage cfg) ys r1 = Inr (r', es2)" and es: "es = es1 @ es2"
    by (auto simp: run_out_Cons_Inr simp del: run_out.simps)
  from Cons.prems(2) consider "u \<in> set (passed_up a es1)" | "u \<in> set (passed_up a es2)" by (auto simp: es passed_append)
  then show ?case
  proof cases
    case 1
    from step_passes[OF s1 this] show ?thesis by auto
  next
    case 2
    from Cons.IH[OF r this] show ?thesis by auto
  qed
qed

lemma received_contents:
  assumes "in_transit (hpcc_packet (of_nat n) c i) p" and "n < 2 ^ 31" and "0 < pi_length i"
  shows "number_of (ht_packetid (last (p_tags p))) = int n"
    and "contents (p\<lparr>d_int := None, p_len := p_len p - 8 * 42\<rparr>) = i\<lparr>pi_cretime := 0\<rparr>"
proof -
  from assms(1) obtain h m where p: "p = (hpcc_packet (of_nat n) c i)\<lparr>d_int := h, d_ecn := m\<rparr>" by (auto simp: in_transit_def)
  have "uint (of_nat n :: u64) = int n" using assms(2) by (simp add: uint_nat unat_of_nat take_bit_nat_eq_self)
  moreover have "number_of (int n) = int n"
    unfolding number_of_def sint_sbintrunc' using assms(2) by (intro signed_take_bit_int_eq_self) simp_all
  ultimately show "number_of (ht_packetid (last (p_tags p))) = int n" by (simp add: p hpcc_packet_def filed_dgram_def)
  show "contents (p\<lparr>d_int := None, p_len := p_len p - 8 * 42\<rparr>) = i\<lparr>pi_cretime := 0\<rparr>"
    using assms(3) by (simp add: p hpcc_packet_def filed_dgram_def contents_def payload_of_def bytes_of_def)
qed

subsection \<open>The stream\<close>

lemma take_by_index:
  assumes "\<forall>m\<in>set [0..k - 1]. nat m < length F"
  shows "map (\<lambda>m. f (F ! nat m)) [0..k - 1] = map f (take (nat k) F)"
proof -
  have "nat k \<le> length F"
  proof (cases "0 < k")
    case True
    with assms have "nat (k - 1) < length F" by simp
    with True show ?thesis by simp
  qed simp
  then show ?thesis by (intro nth_equalityI) auto
qed

text \<open>C1: Reliable delivery.  Let a sender and a receiver each run on any events, and let every data packet that
  reaches the receiver from host \<open>a\<close> be one the sender has sent, changed at most in its telemetry
  and congestion mark; packets may be lost, reordered and repeated at will.  Then the receiver's
  application is given, in order and exactly once, the first packets of what the sender's
  application asked to send: the same bytes, ports, flow, priority and end flag, with nothing
  missing in between.\<close>

theorem hpcc_reliable_stream:
  assumes "HPCC_initialize cfg = Inr s0" and "run_out (HPCC_handleMessage cfg) xs s0 = Inr (s, sent)"
    and "HPCC_initialize cfg' = Inr r0" and "run_out (HPCC_handleMessage cfg') ys r0 = Inr (r, got)"
    and "activate cfg" and "0 < max_pck_size cfg" and "length (filed (activate cfg) (max_pck_size cfg) xs) < 2 ^ 31"
    and "\<And>t p. (t, Lower p) \<in> set ys \<Longrightarrow> hpcc_data p \<Longrightarrow> d_src p = a \<Longrightarrow> \<exists>q. SendDown q \<in> set sent \<and> in_transit q p"
  shows "map contents (passed_up a got) =
     map (\<lambda>i. i\<lparr>pi_cretime := 0\<rparr>) (take (nat (expected_from a r)) (filed (activate cfg) (max_pck_size cfg) xs))"
proof -
  let ?F = "filed (activate cfg) (max_pck_size cfg) xs"
  have "filed_as [] s0" using assms(1) by (rule init_fields) (simp add: filed_as_def)
  from hpcc_sender.run_files[OF assms(2) this] assms(5,7) have
    sent: "\<And>q. SendDown q \<in> set sent \<Longrightarrow> hpcc_data q \<Longrightarrow> \<exists>n<length ?F. hpcc_made (of_nat n) (?F ! n) q" by auto
  have up: "\<exists>n<length ?F. number_of (ht_packetid (last (p_tags u))) = int n \<and> contents u = (?F ! n)\<lparr>pi_cretime := 0\<rparr>"
    if "u \<in> set (passed_up a got)" for u
  proof -
    from run_passes[OF assms(4) that] obtain t p where p: "(t, Lower p) \<in> set ys" "hpcc_data p" "d_src p = a"
      and u: "u = p\<lparr>d_int := None, p_len := p_len p - 8 * 42\<rparr>" by blast
    from assms(8)[OF p] obtain q where q: "SendDown q \<in> set sent" "in_transit q p" by blast
    then have "hpcc_data q" using p(2) by (auto simp: in_transit_def)
    with sent[OF q(1)] obtain n c where n: "n < length ?F" "q = hpcc_packet (of_nat n) c (?F ! n)" by (auto simp: hpcc_made_def)
    have "0 < pi_length (?F ! n)" using filed_lengths[OF assms(6)] n(1) by (meson nth_mem)
    with received_contents[OF q(2)[unfolded n(2)]] n(1) assms(7) show ?thesis by (intro exI[of _ n]) (auto simp: u)
  qed
  let ?num = "\<lambda>u. number_of (ht_packetid (last (p_tags u)))"
  have "map ?num (passed_up a got) = [0..expected_from a r - 1]"
    using run_numbers[OF assms(3,4)] by (simp add: passed_numbers)
  moreover have "map contents (passed_up a got) = map (\<lambda>m. (?F ! nat m)\<lparr>pi_cretime := 0\<rparr>) (map ?num (passed_up a got))"
    using up by force
  moreover have "\<forall>m\<in>set (map ?num (passed_up a got)). nat m < length ?F" using up by force
  ultimately show ?thesis by (simp add: take_by_index)
qed

theorem hpcc_reliable_stream_witness:
  "\<exists>s0 s sent p r got. HPCC_initialize sample_hpcc = Inr s0 \<and>
     run_out (HPCC_handleMessage sample_hpcc) [(0, Upper (sample_message 900)), (0, Fire SendDataTimer)] s0 = Inr (s, sent) \<and>
     SendDown p \<in> set sent \<and> run_out (HPCC_handleMessage sample_hpcc) [(5, Lower p)] s0 = Inr (r, got) \<and>
     map contents (passed_up 1 got) = map (\<lambda>i. i\<lparr>pi_cretime := 0\<rparr>)
       (take (nat (expected_from 1 r)) (filed True 1000 [(0, Upper (sample_message 900)), (0, Fire SendDataTimer)]))"
proof -
  let ?xs = "[(0, Upper (sample_message 900)), (0, Fire SendDataTimer)]"
  from sample_init obtain s0 where i: "HPCC_initialize sample_hpcc = Inr s0" by blast
  have f: "pk_state s0 = STOPPING" "senddata s0 = None" "sender_packetMap s0 = []" "nxtSendpacketid s0 = packetid s0"
    "int_packetid (packetid s0) = packetid s0" "packetid s0 = 0" "receiver_packetMap s0 = []"
    using i by (auto elim: init_fields)
  have m: "contains ''Data'' (p_name (sample_message 900))" "p_tags (sample_message 900) \<noteq> []"
    by (simp_all add: sample_message_def)
  have c: "activate sample_hpcc" "max_pck_size sample_hpcc = 1000" "stopTime sample_hpcc = 1000" by (simp_all add: sample_hpcc_def)
  have "\<exists>s j k. run_out (HPCC_handleMessage sample_hpcc) ?xs s0 = Inr (s, [Arm SendDataTimer 0, SendDown (hpcc_packet 0 k j)])"
    using send_one[OF m(1) c(1) m(2) _ _ _ f(1-5), of 0] f(6) by (auto simp: sample_payload c simp del: run_out.simps)
  then obtain s j k where s: "run_out (HPCC_handleMessage sample_hpcc) ?xs s0 =
      Inr (s, [Arm SendDataTimer 0, SendDown (hpcc_packet 0 k j)])" by blast
  let ?p = "hpcc_packet 0 k j"
  from fresh_receiver(1)[OF f(7), of sample_hpcc 5 k j] obtain r got where "HPCC_handleMessage sample_hpcc (5, Lower ?p) s0 = Inr (r, got)"
    by blast
  then have r: "run_out (HPCC_handleMessage sample_hpcc) [(5, Lower ?p)] s0 = Inr (r, got)" by simp
  have l: "length (filed (activate sample_hpcc) (max_pck_size sample_hpcc) ?xs) < 2 ^ 31"
    using m(1) by (simp add: filed_def message_pieces_def c sample_payload single_piece)
  have t: "in_transit q q" for q by (auto simp: in_transit_def intro!: exI[of _ "d_int q"] exI[of _ "d_ecn q"])
  have "map contents (passed_up 1 got) =
      map (\<lambda>i. i\<lparr>pi_cretime := 0\<rparr>) (take (nat (expected_from 1 r)) (filed (activate sample_hpcc) (max_pck_size sample_hpcc) ?xs))"
    by (rule hpcc_reliable_stream[OF i s i r c(1) _ l]) (auto simp: c intro!: exI[of _ ?p] t)
  then have "map contents (passed_up 1 got) = map (\<lambda>i. i\<lparr>pi_cretime := 0\<rparr>) (take (nat (expected_from 1 r)) (filed True 1000 ?xs))"
    by (simp only: c)
  with i s r show ?thesis by (intro exI conjI) (assumption | simp)+
qed

end
