(* ===== verification/POSEIDON.thy ===== *)
theory POSEIDON
  imports Packet_Sender
begin

section \<open>POSEIDON\<close>

text \<open>
  \<open>HiNA/CC/POSEIDON\<close>.  A window of packets, adapted from the largest queueing delay (\<open>MPD\<close>) the
  switches write to the header of each packet.  Packets stay filed until they are acknowledged; a
  timeout goes back to the first packet not acknowledged.  The receiver acknowledges every packet
  by its own number and passes it up.

  Logarithm and exponential are the real functions; where their C versions give an infinite value
  or none at all, the model has the error \<open>FloatConversion\<close>.  Recorded vectors and the count of
  timeouts are left out.
\<close>

record psd_cfg =
  activate :: bool
  stopTime :: simtime
  linkspeed :: double
  max_pck_size :: int
  maxInterval :: simtime
  baseRTT :: simtime
  PARA_P :: double
  PARA_K :: double
  psd_m :: double
  min_md :: double

record psd = "u64 pck_sender" +
  psd_timeout :: "simtime option"
  snd_una :: u64
  retransmit_cnt :: int
  can_decrease :: bool
  RTT_S :: simtime
  RTT_D :: simtime
  RTO :: simtime
  num_dupack :: int
  currentRTT :: simtime
  t_last_decrease :: simtime
  pacing_delay :: simtime
  psd_bitlength :: int
  lasttime :: simtime
  snd_cwnd :: double
  psd_rate :: double
  max_cwnd :: double
  num_acked :: int

definition min_cwnd :: double where
  "min_cwnd = 1 / 10000"

definition min_rate :: "psd_cfg \<Rightarrow> double" where
  "min_rate cfg = min_cwnd * 1526 * 8 / baseRTT cfg"

text \<open>\<open>num_acked\<close> is indeterminate at first; the first acknowledgement sets it before it is read.\<close>

definition POSEIDON_initialize :: "psd_cfg \<Rightarrow> psd" where
  "POSEIDON_initialize cfg =
     (let w = linkspeed cfg * baseRTT cfg / (1526 * 8) in
      \<lparr>sender_packetMap = [], pk_state = STOPPING, senddata = None, packetid = 0, nxtSendpacketid = 0,
       pk_lastflowid = -1, pk_last_creation_time = 0, psd_timeout = None, snd_una = 0, retransmit_cnt = 0,
       can_decrease = True, RTT_S = 0, RTT_D = 0, RTO = 1 / 10, num_dupack = 0, currentRTT = 0, t_last_decrease = 0,
       pacing_delay = 0, psd_bitlength = 0, lasttime = 0, snd_cwnd = w, psd_rate = linkspeed cfg, max_cwnd = w,
       num_acked = 0\<rparr>)"

text \<open>\<open>cancelEvent(timeout); scheduleAt(now + RTO, timeout)\<close>\<close>

definition rearm_timeout :: "simtime \<Rightarrow> psd \<Rightarrow> (psd \<times> cc_effect list) res" where
  "rearm_timeout now s =
     (if now + RTO s < now then Inl (RuntimeError ''cannot schedule a message to the past'')
      else Inr (s\<lparr>psd_timeout := Some (now + RTO s)\<rparr>, [Cancel TimeoutTimer, Arm TimeoutTimer (now + RTO s)]))"

definition POSEIDON_processUpperpck :: "psd_cfg \<Rightarrow> simtime \<Rightarrow> dgram \<Rightarrow> psd \<Rightarrow> (psd \<times> cc_effect list) res" where
  "POSEIDON_processUpperpck cfg now pck s =
     packet_upper (\<lambda>n. n) (rescheduleSenddata now now) (activate cfg) (max_pck_size cfg) pck s"

subsection \<open>Sending\<close>

definition psd_packet :: "simtime \<Rightarrow> u64 \<Rightarrow> simtime \<Rightarrow> pck_info \<Rightarrow> dgram" where
  "psd_packet now n cret i = (filed_dgram ''PSDData'' 2 n cret i)\<lparr>d_psd := Some \<lparr>psdTS = now, psdMPD = 0\<rparr>, d_time := now\<rparr>"

text \<open>The measured rate: the bits sent since the last measurement, once \<open>maxInterval\<close> has passed.\<close>

definition psd_measure :: "psd_cfg \<Rightarrow> simtime \<Rightarrow> pck_info \<Rightarrow> psd \<Rightarrow> psd res" where
  "psd_measure cfg now i s =
     (let bits = psd_bitlength s + (pi_length i + 58) * 8 in
      if now - lasttime s \<ge> maxInterval cfg then
        (if now = lasttime s then Inl FloatConversion
         else Inr (s\<lparr>psd_rate := of_int bits / (now - lasttime s), psd_bitlength := 0, lasttime := now\<rparr>))
      else Inr (s\<lparr>psd_bitlength := bits\<rparr>))"

text \<open>One packet of the window, and the timeout started again.\<close>

definition psd_transmit :: "psd_cfg \<Rightarrow> simtime \<Rightarrow> u64 \<Rightarrow> pck_info \<Rightarrow> psd \<Rightarrow> (psd \<times> cc_effect list) res" where
  "psd_transmit cfg now n i s =
     (let s1 = note_packet i s; packet = psd_packet now n (pk_last_creation_time s1) i in
      rbind (psd_measure cfg now i s1) (\<lambda>s2.
      rbind (rearm_timeout now (s2\<lparr>nxtSendpacketid := n + 1\<rparr>)) (\<lambda>(s3, es). Inr (s3, SendDown packet # es))))"

text \<open>
  \<open>send_data\<close> calls itself while the window has room.  The number of the next packet is an \<open>int\<close>
  that grows with each call, and \<open>packetid+1\<close> is undefined at its end.
\<close>

function POSEIDON_send_data :: "psd_cfg \<Rightarrow> simtime \<Rightarrow> psd \<Rightarrow> (psd \<times> cc_effect list) res" where
  "POSEIDON_send_data cfg now s =
     (let n = int_packetid (nxtSendpacketid s) in
      case map_get (sender_packetMap s) n of
        None \<Rightarrow> Inl EndIterator
      | Some i \<Rightarrow>
          if number_of (uint (nxtSendpacketid s)) = 2 ^ 31 - 1 then Inl (RuntimeError ''integer overflow'')
          else
          rbind (psd_transmit cfg now n i s) (\<lambda>(s1, es).
            if map_get (sender_packetMap s1) (n + 1) = None then Inr (s1\<lparr>pk_state := STOPPING\<rparr>, es)
            else if snd_cwnd s1 \<ge> 1 then
              (if snd_cwnd s1 - of_nat (unat (n + 1 - snd_una s1)) > 0
               then rbind (POSEIDON_send_data cfg now (s1\<lparr>nxtSendpacketid := n + 1\<rparr>)) (\<lambda>(s2, es2). Inr (s2, es @ es2))
               else Inr (s1\<lparr>pk_state := PAUSING\<rparr>, es))
            else rbind (rescheduleSenddata now (now + pacing_delay s1) s1) (\<lambda>(s2, es2). Inr (s2, es @ es2))))"
  by pat_completeness auto
termination
proof (relation "measure (\<lambda>(cfg, now, s). nat (2 ^ 31 - number_of (uint (nxtSendpacketid s))))", goal_cases)
  case 1
  show ?case by simp
next
  case (2 cfg now s n i v s1 es)
  have "number_of (uint (nxtSendpacketid s)) < 2 ^ 31"
    unfolding number_of_def using sint_lt[of "word_of_int (uint (nxtSendpacketid s)) :: u32"] by simp
  with 2 number_next[of "nxtSendpacketid s"] show ?case by auto
qed

declare POSEIDON_send_data.simps [simp del]

subsection \<open>Receiving\<close>

text \<open>The acknowledgement of a packet returns its header and its time stamp.\<close>

definition psd_reply :: "int \<Rightarrow> dgram \<Rightarrow> psd_header \<Rightarrow> dgram" where
  "psd_reply n pck h =
     \<lparr>p_id = 0, p_name = ''ACK-'' @ digits (nat n), p_len = 8 * 28, p_iface = 0, p_ecn = None,
      p_tags = [\<lparr>ht_flowid = 0, ht_priority = -1, ht_flowsize = 0, ht_cretime = 0, ht_packetid = n, ht_last = False,
        ht_queueid = 0, ht_decel = False, ht_speedup = False, ht_sender_priority = -1\<rparr>],
      p_bfc = None, p_ispause = None, d_src = d_dest pck, d_dest = d_src pck, d_sport = 0, d_dport = 0, d_ecn = 0,
      d_recRate = 0, d_int = None, d_psd = Some h, d_sack = None, d_time = d_time pck\<rparr>"

definition POSEIDON_receive_data :: "dgram \<Rightarrow> psd \<Rightarrow> (psd \<times> cc_effect list) res" where
  "POSEIDON_receive_data pck s =
     (case d_psd pck of
        None \<Rightarrow> Inl NullPointer
      | Some h \<Rightarrow>
          rbind (last_tag (packet.truncate pck)) (\<lambda>tag.
            Inr (s, [SendDown (psd_reply (number_of (ht_packetid tag)) pck h),
                     SendUp (pck\<lparr>d_psd := None, p_len := p_len pck - 8 * 2\<rparr>)])))"

subsection \<open>Acknowledgements\<close>

text \<open>The packets up to the acknowledged one count as received; three acknowledgements of older ones shrink the window.\<close>

definition psd_confirm :: "psd_cfg \<Rightarrow> int \<Rightarrow> psd \<Rightarrow> psd" where
  "psd_confirm cfg ackid s =
     (if (word_of_int ackid :: u64) \<ge> snd_una s then
        s\<lparr>snd_una := word_of_int (ackid + 1), num_dupack := 0, num_acked := 0, retransmit_cnt := 0,
          sender_packetMap := map_erase (word_of_int ackid) (sender_packetMap s)\<rparr>
      else if num_dupack s + 1 = 3 then
        s\<lparr>retransmit_cnt := 0, num_dupack := 0, num_acked := 0,
          snd_cwnd := (if can_decrease s then snd_cwnd s * min_md cfg else snd_cwnd s)\<rparr>
      else s\<lparr>num_dupack := num_dupack s + 1\<rparr>)"

text \<open>The smoothed round-trip time, its deviation, and the retransmission timeout.\<close>

definition psd_rto :: "psd \<Rightarrow> psd" where
  "psd_rto s =
     (let srtt = (1 - 125 / 1000) * RTT_S s + 125 / 1000 * currentRTT s;
          dev = (1 - 25 / 100) * RTT_D s + 25 / 100 * \<bar>RTT_S s - currentRTT s\<bar>
      in s\<lparr>RTT_S := srtt, RTT_D := dev, RTO := srtt + 4 * dev\<rparr>)"

text \<open>
  The delay aimed at for the current rate, and the factor the window is changed by.  \<open>log(max_rate) -
  log(min_rate)\<close> is a divisor.
\<close>

definition psd_target :: "psd_cfg \<Rightarrow> psd \<Rightarrow> double res" where
  "psd_target cfg s =
     (if baseRTT cfg = 0 \<or> linkspeed cfg \<le> 0 \<or> psd_rate s \<le> 0 \<or> min_rate cfg \<le> 0 \<or> linkspeed cfg = min_rate cfg
      then Inl FloatConversion
      else Inr (PARA_P cfg * (ln (linkspeed cfg) - ln (psd_rate s)) / (ln (linkspeed cfg) - ln (min_rate cfg)) + PARA_K cfg))"

definition psd_ratio :: "psd_cfg \<Rightarrow> double \<Rightarrow> double \<Rightarrow> double res" where
  "psd_ratio cfg target mpd =
     (if PARA_P cfg = 0 then Inl FloatConversion
      else Inr (clamp (exp ((target - mpd) / PARA_P cfg * (ln (linkspeed cfg) - ln (min_rate cfg)) * psd_m cfg)) (4 / 10) (25 / 10)))"

definition psd_pace :: "psd \<Rightarrow> psd res" where
  "psd_pace s =
     (if snd_cwnd s < 1 then
        (if snd_cwnd s = 0 then Inl FloatConversion else Inr (s\<lparr>pacing_delay := currentRTT s / snd_cwnd s\<rparr>))
      else Inr (s\<lparr>pacing_delay := 0\<rparr>))"

text \<open>The new window, never outside of its bounds.\<close>

definition psd_adapt :: "psd_cfg \<Rightarrow> psd_header \<Rightarrow> psd \<Rightarrow> psd res" where
  "psd_adapt cfg h s =
     (let mpd = psdMPD h in
      rbind (psd_target cfg s) (\<lambda>target.
      rbind (psd_ratio cfg target mpd) (\<lambda>ratio.
        if mpd \<le> target then
          (if snd_cwnd s = 0 then Inl FloatConversion
           else Inr (s\<lparr>snd_cwnd := clamp (snd_cwnd s * (1 + (ratio - 1) * of_int (num_acked s) / snd_cwnd s)) min_cwnd (max_cwnd s)\<rparr>))
        else if can_decrease s then
          Inr (s\<lparr>snd_cwnd := clamp (snd_cwnd s * ratio) min_cwnd (max_cwnd s), can_decrease := False\<rparr>)
        else Inr (s\<lparr>snd_cwnd := clamp (snd_cwnd s) min_cwnd (max_cwnd s)\<rparr>))))"

definition psd_resume :: "simtime \<Rightarrow> psd \<Rightarrow> (psd \<times> cc_effect list) res" where
  "psd_resume now s =
     (if pk_state s = PAUSING then scheduleSenddata now now (s\<lparr>pk_state := SENDING\<rparr>) else Inr (s, []))"

definition POSEIDON_receiveAck :: "psd_cfg \<Rightarrow> simtime \<Rightarrow> dgram \<Rightarrow> psd \<Rightarrow> (psd \<times> cc_effect list) res" where
  "POSEIDON_receiveAck cfg now pck s =
     rbind (last_tag (packet.truncate pck)) (\<lambda>tag.
       let s1 = s\<lparr>currentRTT := now - d_time pck, can_decrease := (if d_time pck > t_last_decrease s then True else can_decrease s)\<rparr>;
           cwnd_prev = snd_cwnd s;
           s2 = psd_rto (psd_confirm cfg (number_of (ht_packetid tag)) s1)
       in rbind (rearm_timeout now s2) (\<lambda>(s3, es).
          case d_psd pck of
            None \<Rightarrow> Inl NullPointer
          | Some h \<Rightarrow>
              rbind (psd_adapt cfg h (s3\<lparr>num_acked := num_acked s3 + 1\<rparr>)) (\<lambda>s4.
              rbind (psd_pace (if snd_cwnd s4 < cwnd_prev then s4\<lparr>t_last_decrease := now\<rparr> else s4)) (\<lambda>s5.
              rbind (psd_resume now s5) (\<lambda>(s6, es2). Inr (s6, es @ es2))))))"

subsection \<open>Timeouts\<close>

definition POSEIDON_time_out :: "psd_cfg \<Rightarrow> simtime \<Rightarrow> psd \<Rightarrow> (psd \<times> cc_effect list) res" where
  "POSEIDON_time_out cfg now s =
     (let s1 = s\<lparr>retransmit_cnt := retransmit_cnt s + 1\<rparr>;
          s2 = (if retransmit_cnt s1 > 5 then s1\<lparr>snd_cwnd := min_cwnd\<rparr>
                else if can_decrease s1 then s1\<lparr>snd_cwnd := (1 - min_md cfg) * snd_cwnd s1, can_decrease := False\<rparr>
                else s1)
      in rbind (psd_pace s2) (\<lambda>s3.
           let s4 = s3\<lparr>RTO := RTO s3 * 2\<rparr> in
           if pk_state s4 \<noteq> STOPPING then
             rbind (rescheduleSenddata now now (s4\<lparr>nxtSendpacketid := snd_una s4\<rparr>)) (\<lambda>(s5, es).
             rbind (rearm_timeout now s5) (\<lambda>(s6, es2). Inr (s6, es @ es2)))
           else Inr (s4, [])))"

subsection \<open>The module\<close>

definition POSEIDON_processLowerpck :: "psd_cfg \<Rightarrow> simtime \<Rightarrow> dgram \<Rightarrow> psd \<Rightarrow> (psd \<times> cc_effect list) res" where
  "POSEIDON_processLowerpck cfg now pck s =
     (if contains ''PSDData'' (p_name pck) then POSEIDON_receive_data pck s
      else if contains ''ACK'' (p_name pck) then POSEIDON_receiveAck cfg now pck s
      else Inr (s, [SendUp pck]))"

fun POSEIDON_handleSelfMessage :: "psd_cfg \<Rightarrow> simtime \<Rightarrow> cc_timer \<Rightarrow> psd \<Rightarrow> (psd \<times> cc_effect list) res" where
  "POSEIDON_handleSelfMessage cfg now SendDataTimer s =
     (if now \<ge> stopTime cfg then Inr (s\<lparr>pk_state := STOPPING\<rparr>, []) else POSEIDON_send_data cfg now s)"
| "POSEIDON_handleSelfMessage cfg now TimeoutTimer s = POSEIDON_time_out cfg now s"
| "POSEIDON_handleSelfMessage cfg now _ s = Inr (s, [])"

fun POSEIDON_handleMessage :: "psd_cfg \<Rightarrow> simtime \<times> cc_op \<Rightarrow> psd \<Rightarrow> (psd \<times> cc_effect list) res" where
  "POSEIDON_handleMessage cfg (now, Fire SendDataTimer) s =
     (if senddata s = None then Inr (s, []) else POSEIDON_handleSelfMessage cfg now SendDataTimer (s\<lparr>senddata := None\<rparr>))"
| "POSEIDON_handleMessage cfg (now, Fire TimeoutTimer) s =
     (if psd_timeout s = None then Inr (s, []) else POSEIDON_handleSelfMessage cfg now TimeoutTimer (s\<lparr>psd_timeout := None\<rparr>))"
| "POSEIDON_handleMessage cfg (now, Fire _) s = Inr (s, [])"
| "POSEIDON_handleMessage cfg (now, Upper pck) s = POSEIDON_processUpperpck cfg now pck s"
| "POSEIDON_handleMessage cfg (now, Lower pck) s = POSEIDON_processLowerpck cfg now pck s"

subsection \<open>What a send does\<close>

text \<open>The fields of the window; sending touches none of them.\<close>

definition same_window :: "psd \<Rightarrow> psd \<Rightarrow> bool" where
  "same_window s s' \<longleftrightarrow> sender_packetMap s' = sender_packetMap s \<and> packetid s' = packetid s \<and> snd_una s' = snd_una s \<and>
     snd_cwnd s' = snd_cwnd s \<and> max_cwnd s' = max_cwnd s"

lemma same_window_trans: "same_window s t \<Longrightarrow> same_window t u \<Longrightarrow> same_window s u"
  by (simp add: same_window_def)

fun psd_numbers :: "cc_effect list \<Rightarrow> u64 list" where
  "psd_numbers [] = []"
| "psd_numbers (SendDown q # es) =
     (if contains ''PSDData'' (p_name q) then word_of_int (ht_packetid (last (p_tags q))) # psd_numbers es else psd_numbers es)"
| "psd_numbers (_ # es) = psd_numbers es"

lemma psd_numbers_append: "psd_numbers (es @ es') = psd_numbers es @ psd_numbers es'"
  by (induction es rule: psd_numbers.induct) auto

lemma psd_numbers_quiet: "quiet es \<Longrightarrow> psd_numbers es = []"
  by (induction es rule: psd_numbers.induct) auto

lemma psd_numbers_mem: "n \<in> set (psd_numbers es) \<Longrightarrow>
    \<exists>q. SendDown q \<in> set es \<and> contains ''PSDData'' (p_name q) \<and> n = word_of_int (ht_packetid (last (p_tags q)))"
  by (induction es rule: psd_numbers.induct) (auto split: if_splits)

lemma psd_packet_facts:
  "contains ''PSDData'' (p_name (psd_packet now n c i))" "p_tags (psd_packet now n c i) \<noteq> []"
  "ht_packetid (last (p_tags (psd_packet now n c i))) = uint n"
proof -
  have "p_name (psd_packet now n c i) = [] @ ''PSDData'' @ (''-'' @ digits (unat n))" by (simp add: psd_packet_def filed_dgram_def)
  then show "contains ''PSDData'' (p_name (psd_packet now n c i))" by (simp only: contains_append) blast
  show "p_tags (psd_packet now n c i) \<noteq> []" "ht_packetid (last (p_tags (psd_packet now n c i))) = uint n"
    by (simp_all add: psd_packet_def filed_dgram_def)
qed

lemma rearm_Inr:
  assumes "rearm_timeout now s = Inr (s', es)"
  shows "s' = s\<lparr>psd_timeout := psd_timeout s'\<rparr>" and "psd_timeout s' \<noteq> None" and "quiet es"
  using assms by (auto simp: rearm_timeout_def split: if_splits)

lemma transmit_Inr:
  assumes "psd_transmit cfg now n i s = Inr (s', es)"
  obtains c es1 where "es = SendDown (psd_packet now n c i) # es1" and "quiet es1" and "same_window s s'"
    and "nxtSendpacketid s' = n + 1" and "senddata s' = senddata s" and "pk_state s' = pk_state s"
    and "psd_timeout s' \<noteq> None" and "pacing_delay s' = pacing_delay s"
proof -
  let ?s1 = "note_packet i s"
  from assms obtain s2 s3 es1 where m: "psd_measure cfg now i ?s1 = Inr s2"
    and r: "rearm_timeout now (s2\<lparr>nxtSendpacketid := n + 1\<rparr>) = Inr (s3, es1)"
    and e: "s' = s3" "es = SendDown (psd_packet now n (pk_last_creation_time ?s1) i) # es1"
    by (auto simp: psd_transmit_def rbind_eq_Inr Let_def)
  have n: "snd_una ?s1 = snd_una s" "snd_cwnd ?s1 = snd_cwnd s" "max_cwnd ?s1 = max_cwnd s" "pacing_delay ?s1 = pacing_delay s"
    by (simp_all add: note_packet_def)
  from m have w: "same_window s s2 \<and> senddata s2 = senddata s \<and> pk_state s2 = pk_state s \<and> pacing_delay s2 = pacing_delay s"
    using n by (auto simp: psd_measure_def Let_def same_window_def split: if_splits)
  note s3 = rearm_Inr[OF r]
  have "same_window s s' \<and> nxtSendpacketid s' = n + 1 \<and> senddata s' = senddata s \<and> pk_state s' = pk_state s \<and>
      pacing_delay s' = pacing_delay s"
    unfolding e(1) by (subst s3(1), use w in \<open>simp add: same_window_def\<close>)+
  with s3(2,3) e that show thesis by blast
qed

text \<open>One step of the recursion.\<close>

lemma psd_send_cases:
  assumes "POSEIDON_send_data cfg now s = Inr (s', es)"
  obtains i s1 es1 es2 where "map_get (sender_packetMap s) (int_packetid (nxtSendpacketid s)) = Some i"
    and "number_of (uint (nxtSendpacketid s)) \<noteq> 2 ^ 31 - 1"
    and "psd_transmit cfg now (int_packetid (nxtSendpacketid s)) i s = Inr (s1, es1)" and "es = es1 @ es2"
    and "(s' = s1\<lparr>pk_state := STOPPING\<rparr> \<and> es2 = []) \<or> (s' = s1\<lparr>pk_state := PAUSING\<rparr> \<and> es2 = []) \<or>
         (rescheduleSenddata now (now + pacing_delay s1) s1 = Inr (s', es2)) \<or>
         (of_nat (unat (int_packetid (nxtSendpacketid s) + 1 - snd_una s)) < snd_cwnd s \<and>
          POSEIDON_send_data cfg now (s1\<lparr>nxtSendpacketid := int_packetid (nxtSendpacketid s) + 1\<rparr>) = Inr (s', es2))"
proof -
  let ?n = "int_packetid (nxtSendpacketid s)"
  obtain i where i: "map_get (sender_packetMap s) ?n = Some i" and o: "number_of (uint (nxtSendpacketid s)) \<noteq> 2 ^ 31 - 1"
    using assms by (subst (asm) POSEIDON_send_data.simps) (auto simp: Let_def split: option.splits if_splits)
  have "rbind (psd_transmit cfg now ?n i s) (\<lambda>(s1, es).
            if map_get (sender_packetMap s1) (?n + 1) = None then Inr (s1\<lparr>pk_state := STOPPING\<rparr>, es)
            else if snd_cwnd s1 \<ge> 1 then
              (if snd_cwnd s1 - of_nat (unat (?n + 1 - snd_una s1)) > 0
               then rbind (POSEIDON_send_data cfg now (s1\<lparr>nxtSendpacketid := ?n + 1\<rparr>)) (\<lambda>(s2, es2). Inr (s2, es @ es2))
               else Inr (s1\<lparr>pk_state := PAUSING\<rparr>, es))
            else rbind (rescheduleSenddata now (now + pacing_delay s1) s1) (\<lambda>(s2, es2). Inr (s2, es @ es2))) = Inr (s', es)"
    using assms i o by (subst (asm) POSEIDON_send_data.simps) (simp add: Let_def)
  then obtain s1 es1 where t: "psd_transmit cfg now ?n i s = Inr (s1, es1)"
    and r: "(if map_get (sender_packetMap s1) (?n + 1) = None then Inr (s1\<lparr>pk_state := STOPPING\<rparr>, es1)
            else if snd_cwnd s1 \<ge> 1 then
              (if snd_cwnd s1 - of_nat (unat (?n + 1 - snd_una s1)) > 0
               then rbind (POSEIDON_send_data cfg now (s1\<lparr>nxtSendpacketid := ?n + 1\<rparr>)) (\<lambda>(s2, es2). Inr (s2, es1 @ es2))
               else Inr (s1\<lparr>pk_state := PAUSING\<rparr>, es1))
            else rbind (rescheduleSenddata now (now + pacing_delay s1) s1) (\<lambda>(s2, es2). Inr (s2, es1 @ es2))) = Inr (s', es)"
    unfolding rbind_eq_Inr by auto
  have w: "snd_una s1 = snd_una s" "snd_cwnd s1 = snd_cwnd s" using t by (auto elim!: transmit_Inr simp: same_window_def)
  show thesis
  proof (cases "map_get (sender_packetMap s1) (?n + 1) = None")
    case True
    with r show ?thesis by (intro that[OF i o t, of "[]"]) auto
  next
    case False
    note r = r[unfolded if_not_P[OF False]]
    show ?thesis
    proof (cases "snd_cwnd s1 \<ge> 1")
      case True
      note r = r[unfolded if_P[OF True]]
      show ?thesis
      proof (cases "snd_cwnd s1 - of_nat (unat (?n + 1 - snd_una s1)) > 0")
        case True
        from r[unfolded if_P[OF True]] obtain es2 where
          "POSEIDON_send_data cfg now (s1\<lparr>nxtSendpacketid := ?n + 1\<rparr>) = Inr (s', es2)" "es = es1 @ es2"
          unfolding rbind_eq_Inr by auto
        with True w show ?thesis by (intro that[OF i o t, of es2]) auto
      next
        case False
        from r[unfolded if_not_P[OF False]] show ?thesis by (intro that[OF i o t, of "[]"]) auto
      qed
    next
      case False
      from r[unfolded if_not_P[OF False]] obtain es2 where
        "rescheduleSenddata now (now + pacing_delay s1) s1 = Inr (s', es2)" "es = es1 @ es2"
        unfolding rbind_eq_Inr by auto
      then show ?thesis by (intro that[OF i o t, of es2]) auto
    qed
  qed
qed

text \<open>A whole send: consecutive filed packets, each after the first one within the window.\<close>

definition in_window :: "psd \<Rightarrow> u64 \<Rightarrow> bool" where
  "in_window s n \<longleftrightarrow> of_nat (unat (n - snd_una s)) < snd_cwnd s"

lemma in_window_cong: "same_window s t \<Longrightarrow> in_window t n = in_window s n"
  by (simp add: in_window_def same_window_def)

definition sends_filed :: "simtime \<Rightarrow> psd \<Rightarrow> cc_effect list \<Rightarrow> bool" where
  "sends_filed now s es \<longleftrightarrow> (\<forall>q. SendUp q \<notin> set es \<and>
     (SendDown q \<in> set es \<longrightarrow> (\<exists>n i c. map_get (sender_packetMap s) n = Some i \<and> q = psd_packet now n c i)))"

lemma psd_send_run:
  "POSEIDON_send_data cfg now s = Inr (s', es) \<Longrightarrow>
     \<exists>k. 0 < k \<and> psd_numbers es = map (\<lambda>j. int_packetid (nxtSendpacketid s) + of_nat j) [0..<k] \<and>
       nxtSendpacketid s' = int_packetid (nxtSendpacketid s) + of_nat k \<and>
       number_of (uint (nxtSendpacketid s)) + int k < 2 ^ 31 \<and>
       (\<forall>j. 0 < j \<and> j < k \<longrightarrow> in_window s (int_packetid (nxtSendpacketid s) + of_nat j)) \<and>
       same_window s s' \<and> sends_filed now s es"
proof (induction s arbitrary: es rule: measure_induct_rule[of "\<lambda>s. nat (2 ^ 31 - number_of (uint (nxtSendpacketid s)))"])
  case (less s)
  let ?n = "int_packetid (nxtSendpacketid s)"
  from less.prems show ?case
  proof (rule psd_send_cases)
    fix i s1 es1 es2
    assume i: "map_get (sender_packetMap s) ?n = Some i" and o: "number_of (uint (nxtSendpacketid s)) \<noteq> 2 ^ 31 - 1"
      and t: "psd_transmit cfg now ?n i s = Inr (s1, es1)" and es: "es = es1 @ es2"
      and r: "(s' = s1\<lparr>pk_state := STOPPING\<rparr> \<and> es2 = []) \<or> (s' = s1\<lparr>pk_state := PAUSING\<rparr> \<and> es2 = []) \<or>
         (rescheduleSenddata now (now + pacing_delay s1) s1 = Inr (s', es2)) \<or>
         (of_nat (unat (?n + 1 - snd_una s)) < snd_cwnd s \<and>
          POSEIDON_send_data cfg now (s1\<lparr>nxtSendpacketid := ?n + 1\<rparr>) = Inr (s', es2))"
    have lt: "number_of (uint (nxtSendpacketid s)) < 2 ^ 31 - 1" using number_upper[of "uint (nxtSendpacketid s)"] o by linarith
    from t obtain c es0 where s1: "es1 = SendDown (psd_packet now ?n c i) # es0" "quiet es0" "same_window s s1"
      "nxtSendpacketid s1 = ?n + 1" "senddata s1 = senddata s"
      by (rule transmit_Inr)
    have one: "psd_numbers es1 = [?n]" using s1(1,2) by (simp add: psd_packet_facts psd_numbers_quiet)
    have filed1: "sends_filed now s es1" using s1(1,2) i by (auto simp: sends_filed_def quiet_def)
    consider (stop) "nxtSendpacketid s' = ?n + 1" "psd_numbers es2 = []" "same_window s s'" "sends_filed now s es2"
      | (again) "in_window s (?n + 1)" "POSEIDON_send_data cfg now (s1\<lparr>nxtSendpacketid := ?n + 1\<rparr>) = Inr (s', es2)"
    proof -
      have q: "quiet es2 \<Longrightarrow> psd_numbers es2 = [] \<and> sends_filed now s es2"
        by (simp add: psd_numbers_quiet sends_filed_def quiet_def)
      have p: "same_window s s' \<and> nxtSendpacketid s' = ?n + 1 \<and> quiet es2"
        if "rescheduleSenddata now (now + pacing_delay s1) s1 = Inr (s', es2)"
        using reschedule_Inr[OF that] s1(3,4) by (simp add: same_window_def)
      have e: "s' = s1\<lparr>pk_state := st\<rparr> \<Longrightarrow> same_window s s' \<and> nxtSendpacketid s' = ?n + 1" for st
        using s1(3,4) by (simp add: same_window_def)
      from r show thesis
      proof (elim disjE conjE)
        assume "s' = s1\<lparr>pk_state := STOPPING\<rparr>" "es2 = []"
        with e[of STOPPING] q show thesis by (intro stop) simp_all
      next
        assume "s' = s1\<lparr>pk_state := PAUSING\<rparr>" "es2 = []"
        with e[of PAUSING] q show thesis by (intro stop) simp_all
      next
        assume "rescheduleSenddata now (now + pacing_delay s1) s1 = Inr (s', es2)"
        from p[OF this] q show thesis by (intro stop) blast+
      next
        assume "of_nat (unat (?n + 1 - snd_una s)) < snd_cwnd s"
          "POSEIDON_send_data cfg now (s1\<lparr>nxtSendpacketid := ?n + 1\<rparr>) = Inr (s', es2)"
        then show thesis by (intro again) (simp_all only: in_window_def)
      qed
    qed
    then show ?case
    proof cases
      case stop
      with one lt filed1 show ?thesis
        by (intro exI[of _ 1]) (auto simp: es psd_numbers_append sends_filed_def)
    next
      case again
      let ?s2 = "s1\<lparr>nxtSendpacketid := ?n + 1\<rparr>"
      have next_n: "int_packetid (nxtSendpacketid ?s2) = ?n + 1" "number_of (uint (nxtSendpacketid ?s2)) = number_of (uint (nxtSendpacketid s)) + 1"
        using int_packetid_next[OF o] number_next[OF o] by simp_all
      have w2: "same_window s ?s2" using s1(3) by (simp add: same_window_def)
      from less.IH[OF _ again(2)] next_n lt obtain k where
        k: "0 < k" "psd_numbers es2 = map (\<lambda>j. ?n + 1 + of_nat j) [0..<k]" "nxtSendpacketid s' = ?n + 1 + of_nat k"
          "number_of (uint (nxtSendpacketid s)) + 1 + int k < 2 ^ 31"
          "\<And>j. 0 < j \<Longrightarrow> j < k \<Longrightarrow> in_window ?s2 (?n + 1 + of_nat j)" "same_window ?s2 s'" "sends_filed now ?s2 es2" by auto
      have nums: "psd_numbers es = map (\<lambda>j. ?n + of_nat j) [0..<Suc k]"
      proof -
        have "[0..<Suc k] = 0 # map Suc [0..<k]" by (simp add: map_Suc_upt upt_conv_Cons)
        then show ?thesis using one k(2) by (simp add: es psd_numbers_append comp_def add.assoc)
      qed
      moreover have "in_window s (?n + of_nat j)" if "0 < j" "j < Suc k" for j
      proof -
        from that(1) obtain j' where j: "j = Suc j'" by (cases j) auto
        show ?thesis
        proof (cases j')
          case 0
          with j again(1) show ?thesis by simp
        next
          case (Suc m)
          with j that(2) k(5)[of j'] in_window_cong[OF w2] show ?thesis by (simp add: add.assoc)
        qed
      qed
      moreover have "sends_filed now s es" using filed1 k(7) w2 by (auto simp: es sends_filed_def same_window_def)
      moreover have "same_window s s'" using w2 k(6) by (rule same_window_trans)
      ultimately show ?thesis using k(3,4) by (intro exI[of _ "Suc k"]) (auto simp: add.assoc)
    qed
  qed
qed

subsection \<open>What an acknowledgement does\<close>

text \<open>The fields an acknowledgement does not touch once the packets are confirmed.\<close>

definition after_confirm :: "psd \<Rightarrow> psd \<Rightarrow> bool" where
  "after_confirm s s' \<longleftrightarrow> sender_packetMap s' = sender_packetMap s \<and> packetid s' = packetid s \<and> snd_una s' = snd_una s \<and>
     nxtSendpacketid s' = nxtSendpacketid s \<and> max_cwnd s' = max_cwnd s"

lemma adapt_Inr:
  assumes "psd_adapt cfg h s = Inr s'"
  shows "after_confirm s s' \<and> senddata s' = senddata s \<and> pk_state s' = pk_state s \<and>
     (\<exists>v. snd_cwnd s' = clamp v min_cwnd (max_cwnd s))"
proof -
  from assms obtain target ratio where r: "(if psdMPD h \<le> target then
          (if snd_cwnd s = 0 then Inl FloatConversion
           else Inr (s\<lparr>snd_cwnd := clamp (snd_cwnd s * (1 + (ratio - 1) * of_int (num_acked s) / snd_cwnd s)) min_cwnd (max_cwnd s)\<rparr>))
        else if can_decrease s then
          Inr (s\<lparr>snd_cwnd := clamp (snd_cwnd s * ratio) min_cwnd (max_cwnd s), can_decrease := False\<rparr>)
        else Inr (s\<lparr>snd_cwnd := clamp (snd_cwnd s) min_cwnd (max_cwnd s)\<rparr>)) = Inr s'"
    unfolding psd_adapt_def Let_def rbind_eq_Inr by blast
  define v1 v2 where "v1 = snd_cwnd s * (1 + (ratio - 1) * of_int (num_acked s) / snd_cwnd s)" and "v2 = snd_cwnd s * ratio"
  have "s' = s\<lparr>snd_cwnd := clamp v1 min_cwnd (max_cwnd s)\<rparr> \<or>
      s' = s\<lparr>snd_cwnd := clamp v2 min_cwnd (max_cwnd s), can_decrease := False\<rparr> \<or>
      s' = s\<lparr>snd_cwnd := clamp (snd_cwnd s) min_cwnd (max_cwnd s)\<rparr>"
    using r unfolding v1_def[symmetric] v2_def[symmetric] by (simp split: if_split_asm)
  then show ?thesis unfolding after_confirm_def by (elim disjE) (simp, blast)+
qed

lemma pace_Inr:
  assumes "psd_pace s = Inr s'"
  shows "s' = s\<lparr>pacing_delay := pacing_delay s'\<rparr>"
  using assms by (auto simp: psd_pace_def split: if_splits)

lemma resume_Inr:
  assumes "psd_resume now s = Inr (s', es)"
  shows "after_confirm s s' \<and> snd_cwnd s' = snd_cwnd s \<and> quiet es \<and> \<not> (pk_state s = PAUSING \<and> senddata s \<noteq> None)"
  using assms by (auto simp: psd_resume_def scheduleSenddata_def after_confirm_def split: if_splits)

lemma psd_ack_Inr:
  assumes "POSEIDON_receiveAck cfg now p s = Inr (s', es)"
  obtains s2 v where "p_tags p \<noteq> []"
    and "s2 = psd_confirm cfg (number_of (ht_packetid (last (p_tags p))))
       (s\<lparr>currentRTT := now - d_time p, can_decrease := (if d_time p > t_last_decrease s then True else can_decrease s)\<rparr>)"
    and "after_confirm s2 s'" and "quiet es" and "snd_cwnd s' = clamp v min_cwnd (max_cwnd s2)"
    and "\<not> (pk_state s = PAUSING \<and> senddata s \<noteq> None)"
proof -
  from assms have t: "p_tags p \<noteq> []" by (auto simp: POSEIDON_receiveAck_def last_tag_def packet.truncate_def)
  let ?s1 = "s\<lparr>currentRTT := now - d_time p, can_decrease := (if d_time p > t_last_decrease s then True else can_decrease s)\<rparr>"
  let ?s2 = "psd_confirm cfg (number_of (ht_packetid (last (p_tags p)))) ?s1"
  from assms obtain s3 es1 h s4 s5 es2 where
    r: "rearm_timeout now (psd_rto ?s2) = Inr (s3, es1)"
    and a: "psd_adapt cfg h (s3\<lparr>num_acked := num_acked s3 + 1\<rparr>) = Inr s4"
    and c: "psd_pace (if snd_cwnd s4 < snd_cwnd s then s4\<lparr>t_last_decrease := now\<rparr> else s4) = Inr s5"
    and u: "psd_resume now s5 = Inr (s', es2)" and e: "es = es1 @ es2"
    by (auto simp: POSEIDON_receiveAck_def tag_of_truncate[OF t] Let_def rbind_eq_Inr split: option.splits)
  have s3: "after_confirm ?s2 s3 \<and> senddata s3 = senddata ?s2 \<and> pk_state s3 = pk_state ?s2"
    by (subst rearm_Inr(1)[OF r], simp add: after_confirm_def psd_rto_def Let_def)+
  have s2: "senddata ?s2 = senddata s" "pk_state ?s2 = pk_state s" by (simp_all add: psd_confirm_def)
  from adapt_Inr[OF a] obtain v where s4: "after_confirm s3 s4" "senddata s4 = senddata s3" "pk_state s4 = pk_state s3"
    "snd_cwnd s4 = clamp v min_cwnd (max_cwnd s3)" by (auto simp: after_confirm_def)
  have s5: "after_confirm s4 s5 \<and> senddata s5 = senddata s4 \<and> pk_state s5 = pk_state s4 \<and> snd_cwnd s5 = snd_cwnd s4"
    by (subst pace_Inr[OF c], simp add: after_confirm_def)+
  from resume_Inr[OF u] s2 s3 s4 s5 rearm_Inr(3)[OF r] show thesis
    by (intro that[OF t refl]) (auto simp: after_confirm_def e)
qed

lemma psd_confirm_frame:
  "packetid (psd_confirm cfg n s) = packetid s" "nxtSendpacketid (psd_confirm cfg n s) = nxtSendpacketid s"
  "max_cwnd (psd_confirm cfg n s) = max_cwnd s" "set (sender_packetMap (psd_confirm cfg n s)) \<subseteq> set (sender_packetMap s)"
  "snd_una (psd_confirm cfg n s) = (if (word_of_int n :: u64) \<ge> snd_una s then word_of_int (n + 1) else snd_una s)"
  using set_erase[of "word_of_int n" "sender_packetMap s"] by (auto simp: psd_confirm_def)

lemma psd_timeout_Inr:
  assumes "POSEIDON_time_out cfg now s = Inr (s', es)"
  shows "sender_packetMap s' = sender_packetMap s \<and> packetid s' = packetid s \<and> snd_una s' = snd_una s \<and>
     max_cwnd s' = max_cwnd s \<and> nxtSendpacketid s' \<in> {nxtSendpacketid s, snd_una s} \<and> quiet es \<and>
     snd_cwnd s' \<in> {min_cwnd, (1 - min_md cfg) * snd_cwnd s, snd_cwnd s} \<and> pk_state s' = pk_state s \<and>
     (pk_state s \<noteq> STOPPING \<longrightarrow> nxtSendpacketid s' = snd_una s \<and> senddata s' \<noteq> None)"
proof -
  let ?s1 = "s\<lparr>retransmit_cnt := retransmit_cnt s + 1\<rparr>"
  let ?s2 = "if retransmit_cnt ?s1 > 5 then ?s1\<lparr>snd_cwnd := min_cwnd\<rparr>
     else if can_decrease ?s1 then ?s1\<lparr>snd_cwnd := (1 - min_md cfg) * snd_cwnd ?s1, can_decrease := False\<rparr> else ?s1"
  from assms obtain s3 where p: "psd_pace ?s2 = Inr s3"
    and r: "(let s4 = s3\<lparr>RTO := RTO s3 * 2\<rparr> in
           if pk_state s4 \<noteq> STOPPING then
             rbind (rescheduleSenddata now now (s4\<lparr>nxtSendpacketid := snd_una s4\<rparr>)) (\<lambda>(s5, es).
             rbind (rearm_timeout now s5) (\<lambda>(s6, es2). Inr (s6, es @ es2)))
           else Inr (s4, [])) = Inr (s', es)"
    unfolding POSEIDON_time_out_def Let_def rbind_eq_Inr[of "psd_pace _"] by blast
  have s3: "sender_packetMap s3 = sender_packetMap s \<and> packetid s3 = packetid s \<and> snd_una s3 = snd_una s \<and>
     max_cwnd s3 = max_cwnd s \<and> nxtSendpacketid s3 = nxtSendpacketid s \<and> pk_state s3 = pk_state s \<and>
     snd_cwnd s3 \<in> {min_cwnd, (1 - min_md cfg) * snd_cwnd s, snd_cwnd s}"
    by (subst pace_Inr[OF p], simp)+
  show ?thesis
  proof (cases "pk_state s3 \<noteq> STOPPING")
    case False
    with r s3 show ?thesis by auto
  next
    case True
    with r obtain s5 es1 es2 where
      a: "rescheduleSenddata now now (s3\<lparr>RTO := RTO s3 * 2, nxtSendpacketid := snd_una s3\<rparr>) = Inr (s5, es1)"
      and b: "rearm_timeout now s5 = Inr (s', es2)" and e: "es = es1 @ es2"
      by (auto simp: rbind_eq_Inr)
    note s5 = reschedule_Inr[OF a]
    have "sender_packetMap s' = sender_packetMap s5 \<and> packetid s' = packetid s5 \<and> snd_una s' = snd_una s5 \<and>
       max_cwnd s' = max_cwnd s5 \<and> nxtSendpacketid s' = nxtSendpacketid s5 \<and> snd_cwnd s' = snd_cwnd s5 \<and>
       pk_state s' = pk_state s5 \<and> senddata s' = senddata s5"
      by (subst rearm_Inr(1)[OF b], simp)+
    with s5 s3 rearm_Inr(3)[OF b] show ?thesis by (simp add: e)
  qed
qed

subsection \<open>The cases of a step\<close>

interpretation psd_start: numbered_starter "rescheduleSenddata now now" for now
  by unfold_locales (auto simp: rescheduleSenddata_def scheduleSenddata_def split: if_splits)

lemma psd_step_cases:
  assumes "POSEIDON_handleMessage cfg x s = Inr (s', es)"
  obtains (request) now p where "x = (now, Upper p)"
      and "packet_upper (\<lambda>n. n) (rescheduleSenddata now now) (activate cfg) (max_pck_size cfg) p s = Inr (s', es)"
    | (receive) now p where "x = (now, Lower p)" and "contains ''PSDData'' (p_name p)" and "POSEIDON_receive_data p s = Inr (s', es)"
    | (ack) now p where "x = (now, Lower p)" and "\<not> contains ''PSDData'' (p_name p)" and "contains ''ACK'' (p_name p)"
        and "POSEIDON_receiveAck cfg now p s = Inr (s', es)"
    | (pass) now p where "x = (now, Lower p)" and "\<not> contains ''PSDData'' (p_name p)" and "s' = s" and "es = [SendUp p]"
    | (send) now where "x = (now, Fire SendDataTimer)" and "POSEIDON_send_data cfg now (s\<lparr>senddata := None\<rparr>) = Inr (s', es)"
    | (timeout) now where "x = (now, Fire TimeoutTimer)" and "POSEIDON_time_out cfg now (s\<lparr>psd_timeout := None\<rparr>) = Inr (s', es)"
    | (idle) now tm st d where "x = (now, Fire tm)" and "s' = s\<lparr>senddata := d, pk_state := st\<rparr>" and "es = []"
proof -
  obtain now e where x: "x = (now, e)" by (cases x)
  show thesis
  proof (cases e)
    case (Upper p)
    with assms x request show ?thesis by (simp add: POSEIDON_processUpperpck_def)
  next
    case (Lower p)
    with assms x receive ack pass show ?thesis by (auto simp: POSEIDON_processLowerpck_def split: if_splits)
  next
    case (Fire tm)
    have same: "s = s\<lparr>senddata := senddata s, pk_state := pk_state s\<rparr>" by simp
    show ?thesis
    proof (cases tm)
      case SendDataTimer
      show ?thesis
      proof (cases "senddata s = None \<or> now \<ge> stopTime cfg")
        case False
        with assms x Fire SendDataTimer show ?thesis by (intro send) auto
      next
        case True
        show ?thesis
        proof (cases "senddata s = None")
          case True
          with assms x Fire SendDataTimer same show ?thesis by (intro idle[of now tm "pk_state s" "senddata s"]) auto
        next
          case False
          with True assms x Fire SendDataTimer have "s' = s\<lparr>senddata := None, pk_state := STOPPING\<rparr>" "es = []" by auto
          with x Fire show ?thesis by (intro idle[of now tm STOPPING None]) simp_all
        qed
      qed
    next
      case TimeoutTimer
      show ?thesis
      proof (cases "psd_timeout s = None")
        case True
        with assms x Fire TimeoutTimer same show ?thesis by (intro idle[of now tm "pk_state s" "senddata s"]) auto
      next
        case False
        with assms x Fire TimeoutTimer show ?thesis by (intro timeout) auto
      qed
    next
      case (RateTimer k)
      with assms x Fire same show ?thesis by (intro idle[of now tm "pk_state s" "senddata s"]) auto
    next
      case (AlphaTimer k)
      with assms x Fire same show ?thesis by (intro idle[of now tm "pk_state s" "senddata s"]) auto
    next
      case (CnpTimer k)
      with assms x Fire same show ?thesis by (intro idle[of now tm "pk_state s" "senddata s"]) auto
    qed
  qed
qed

lemma psd_reply_no_data: "\<not> contains ''PSDData'' (p_name (psd_reply n p h))"
proof
  assume "contains ''PSDData'' (p_name (psd_reply n p h))"
  from contains_set[OF this] have "CHR ''S'' \<in> set ''ACK-'' \<union> set (digits (nat n))" by (simp add: psd_reply_def)
  with digits_chars[of "nat n"] show False by auto
qed

lemma psd_receive_Inr:
  assumes "POSEIDON_receive_data p s = Inr (s', es)"
  obtains h n where "s' = s" and "es = [SendDown (psd_reply n p h), SendUp (p\<lparr>d_psd := None, p_len := p_len p - 8 * 2\<rparr>)]"
  using assms by (auto simp: POSEIDON_receive_data_def rbind_eq_Inr split: option.splits)

definition psd_made :: "u64 \<Rightarrow> pck_info \<Rightarrow> dgram \<Rightarrow> bool" where
  "psd_made n i q \<longleftrightarrow> (\<exists>now c. q = psd_packet now n c i)"

lemma psd_data_prefix: "contains ''PSDData'' n \<Longrightarrow> contains ''Data'' n"
proof -
  assume "contains ''PSDData'' n"
  then obtain u v where "n = (u @ ''PSD'') @ ''Data'' @ v" by (auto simp: contains_append)
  then show ?thesis by (simp only: contains_append) blast
qed

interpretation psd_sender: filing_sender "POSEIDON_handleMessage cfg" "activate cfg" "max_pck_size cfg"
  "\<lambda>q. activate cfg \<and> contains ''PSDData'' (p_name q)" psd_made for cfg
proof unfold_locales
  fix F s x s' es
  assume F: "filed_as F s" and l: "length (F @ files (activate cfg) (max_pck_size cfg) x) < 2 ^ 64"
    and r: "POSEIDON_handleMessage cfg x s = Inr (s', es)"
  from r show "filed_as (F @ files (activate cfg) (max_pck_size cfg) x) s'"
  proof (cases rule: psd_step_cases)
    case (request now p)
    with psd_start.upper_filed[OF request(2) F, of now] l show ?thesis by simp
  next
    case (receive now p)
    from receive(3) show ?thesis by (rule psd_receive_Inr) (use F receive(1) in simp)
  next
    case (ack now p)
    from ack(4) show ?thesis
    proof (rule psd_ack_Inr)
      fix s2
      assume a: "s2 = psd_confirm cfg (number_of (ht_packetid (last (p_tags p))))
         (s\<lparr>currentRTT := now - d_time p, can_decrease := (if d_time p > t_last_decrease s then True else can_decrease s)\<rparr>)"
        "after_confirm s2 s'"
      have "packetid s' = packetid s \<and> set (sender_packetMap s') \<subseteq> set (sender_packetMap s)"
        using a(2) psd_confirm_frame(1,4)[of cfg "number_of (ht_packetid (last (p_tags p)))"
           "s\<lparr>currentRTT := now - d_time p, can_decrease := (if d_time p > t_last_decrease s then True else can_decrease s)\<rparr>"]
        unfolding a(1)[symmetric] by (simp add: after_confirm_def)
      with F ack(1) show ?thesis by (auto intro: filed_cong)
    qed
  next
    case (pass now p)
    with F show ?thesis by simp
  next
    case (send now)
    with psd_send_run[OF send(2)] F show ?thesis by (auto intro: filed_cong simp: same_window_def)
  next
    case (timeout now)
    with psd_timeout_Inr[OF timeout(2)] F show ?thesis by (auto intro: filed_cong)
  next
    case (idle now tm st d)
    with F show ?thesis by (simp add: filed_as_def)
  qed
next
  fix F s x s' es q
  assume F: "filed_as F s" and r: "POSEIDON_handleMessage cfg x s = Inr (s', es)" and q0: "SendDown q \<in> set es"
    "activate cfg \<and> contains ''PSDData'' (p_name q)"
  then have q: "contains ''PSDData'' (p_name q)" and act: "activate cfg" by simp_all
  from r show "\<exists>n<length F. psd_made (of_nat n) (F ! n) q"
  proof (cases rule: psd_step_cases)
    case (request now p)
    from psd_start.upper_sends[OF request(2)] q0(1) have "q = p" "\<not> contains ''Data'' (p_name p)" using act by (auto simp: quiet_def)
    with psd_data_prefix q show ?thesis by auto
  next
    case (receive now p)
    from receive(3) show ?thesis by (rule psd_receive_Inr) (use q0(1) q psd_reply_no_data in auto)
  next
    case (ack now p)
    from ack(4) show ?thesis by (rule psd_ack_Inr) (use q0(1) in \<open>auto simp: quiet_def\<close>)
  next
    case (pass now p)
    with q0(1) show ?thesis by simp
  next
    case (send now)
    from psd_send_run[OF send(2)] q0(1) obtain n i c where "map_get (sender_packetMap s) n = Some i" "q = psd_packet now n c i"
      by (auto simp: sends_filed_def)
    with filed_get[OF F] show ?thesis by (intro exI[of _ "unat n"]) (auto simp: psd_made_def)
  next
    case (timeout now)
    with psd_timeout_Inr[OF timeout(2)] q0(1) show ?thesis by (auto simp: quiet_def)
  next
    case (idle now tm st d)
    with q0(1) show ?thesis by simp
  qed
qed

subsection \<open>The bounds of the window\<close>

definition psd_cfg_ok :: "psd_cfg \<Rightarrow> bool" where
  "psd_cfg_ok cfg \<longleftrightarrow> 0 < min_md cfg \<and> min_md cfg < 1 \<and> min_cwnd \<le> linkspeed cfg * baseRTT cfg / (1526 * 8)"

definition window_inv :: "psd_cfg \<Rightarrow> psd \<Rightarrow> bool" where
  "window_inv cfg s \<longleftrightarrow> psd_cfg_ok cfg \<and> max_cwnd s = linkspeed cfg * baseRTT cfg / (1526 * 8) \<and>
     0 < snd_cwnd s \<and> snd_cwnd s \<le> max_cwnd s"

lemma ack_window:
  assumes "POSEIDON_receiveAck cfg now p s = Inr (s', es)" and "window_inv cfg s"
  shows "window_inv cfg s' \<and> min_cwnd \<le> snd_cwnd s'"
  using assms(1)
proof (rule psd_ack_Inr)
  fix s2 v
  assume a: "s2 = psd_confirm cfg (number_of (ht_packetid (last (p_tags p))))
       (s\<lparr>currentRTT := now - d_time p, can_decrease := (if d_time p > t_last_decrease s then True else can_decrease s)\<rparr>)"
    "after_confirm s2 s'" "snd_cwnd s' = clamp v min_cwnd (max_cwnd s2)"
  have m: "max_cwnd s2 = max_cwnd s" unfolding a(1) psd_confirm_frame(3) by simp
  have "min_cwnd \<le> max_cwnd s" using assms(2) by (simp add: window_inv_def psd_cfg_ok_def)
  with clamp_bounds[OF this, of v] a m assms(2) show ?thesis
    by (auto simp: window_inv_def after_confirm_def min_cwnd_def)
qed

lemma window_step:
  assumes "POSEIDON_handleMessage cfg x s = Inr (s', es)" and "window_inv cfg s"
  shows "window_inv cfg s'"
  using assms(1)
proof (cases rule: psd_step_cases)
  case (request now p)
  from psd_start.upper_shape[OF request(2)] assms(2) show ?thesis by (auto simp: window_inv_def)
next
  case (receive now p)
  from receive(3) show ?thesis by (rule psd_receive_Inr) (use assms(2) in simp)
next
  case (ack now p)
  from ack_window[OF ack(4) assms(2)] show ?thesis by simp
next
  case (pass now p)
  with assms(2) show ?thesis by simp
next
  case (send now)
  with psd_send_run[OF send(2)] assms(2) show ?thesis by (auto simp: window_inv_def same_window_def)
next
  case (timeout now)
  have w: "0 < snd_cwnd s" "snd_cwnd s \<le> max_cwnd s" "0 < 1 - min_md cfg" "1 - min_md cfg \<le> 1" "min_cwnd \<le> max_cwnd s"
    using assms(2) by (auto simp: window_inv_def psd_cfg_ok_def)
  have "0 < snd_cwnd s' \<and> snd_cwnd s' \<le> max_cwnd s"
    using psd_timeout_Inr[OF timeout(2)] w shrink[OF w(1-4)] by (auto simp: min_cwnd_def mult.commute)
  with psd_timeout_Inr[OF timeout(2)] assms(2) show ?thesis by (simp add: window_inv_def)
next
  case (idle now tm st d)
  with assms(2) show ?thesis by (simp add: window_inv_def)
qed

interpretation psd_window: machine "POSEIDON_handleMessage cfg" "window_inv cfg" "\<lambda>_. True" for cfg
  by unfold_locales (rule window_step)

lemma psd_init_window: "psd_cfg_ok cfg \<Longrightarrow> window_inv cfg (POSEIDON_initialize cfg)"
  by (auto simp: window_inv_def psd_cfg_ok_def POSEIDON_initialize_def Let_def min_cwnd_def)

subsection \<open>Packets given up\<close>

text \<open>The packets up to \<open>m\<close> lie behind both the first unacknowledged and the next packet.\<close>

definition behind :: "nat \<Rightarrow> psd \<Rightarrow> bool" where
  "behind m s \<longleftrightarrow> m < unat (snd_una s) \<and> unat (snd_una s) < 2 ^ 31 \<and> m < unat (nxtSendpacketid s) \<and> unat (nxtSendpacketid s) < 2 ^ 31"

text \<open>Acknowledgements of packets numbered below \<open>2 ^ 31 - 1\<close>.\<close>

fun ack_number_ok :: "simtime \<times> cc_op \<Rightarrow> bool" where
  "ack_number_ok (now, Lower p) =
     (contains ''ACK'' (p_name p) \<and> \<not> contains ''PSDData'' (p_name p) \<longrightarrow>
        0 \<le> ht_packetid (last (p_tags p)) \<and> ht_packetid (last (p_tags p)) < 2 ^ 31 - 1)"
| "ack_number_ok (now, _) = True"

lemma small_word: "0 \<le> k \<Longrightarrow> k < 2 ^ 31 \<Longrightarrow> unat (word_of_int k :: u64) = nat k"
  by (simp add: unat_eq_nat_uint uint_word_of_int)

lemma ack_una:
  assumes "0 \<le> k" and "k < 2 ^ 31 - 1"
  shows "unat (snd_una (psd_confirm cfg (number_of k) s)) = (if unat (snd_una s) \<le> nat k then nat k + 1 else unat (snd_una s))"
proof -
  have n: "number_of k = k" using assms by (intro number_of_id) auto
  have "unat (word_of_int (k + 1) :: u64) = nat k + 1" using assms by (subst small_word) auto
  moreover have "(word_of_int k :: u64) \<ge> snd_una s \<longleftrightarrow> unat (snd_una s) \<le> nat k"
    using assms by (simp add: word_le_nat_alt small_word)
  ultimately show ?thesis unfolding psd_confirm_frame(5) n by simp
qed

lemma behind_step:
  assumes "POSEIDON_handleMessage cfg x s = Inr (s', es)" and "behind m s" and "ack_number_ok x" and "activate cfg"
  shows "behind m s' \<and> (\<forall>n\<in>set (psd_numbers es). m < unat n)"
  using assms(1)
proof (cases rule: psd_step_cases)
  case (request now p)
  have "psd_numbers es = []"
    using psd_start.upper_sends[OF request(2)] assms(4) psd_data_prefix by (auto simp: psd_numbers_quiet)
  with psd_start.upper_shape[OF request(2)] assms(2) show ?thesis by (auto simp: behind_def)
next
  case (receive now p)
  from receive(3) show ?thesis by (rule psd_receive_Inr) (use assms(2) psd_reply_no_data in auto)
next
  case (ack now p)
  have k: "0 \<le> ht_packetid (last (p_tags p))" "ht_packetid (last (p_tags p)) < 2 ^ 31 - 1" using assms(3) ack by auto
  from ack(4) show ?thesis
  proof (rule psd_ack_Inr)
    fix s2
    assume a: "s2 = psd_confirm cfg (number_of (ht_packetid (last (p_tags p))))
         (s\<lparr>currentRTT := now - d_time p, can_decrease := (if d_time p > t_last_decrease s then True else can_decrease s)\<rparr>)"
      "after_confirm s2 s'" "quiet es"
    let ?k = "ht_packetid (last (p_tags p))"
    have u: "unat (snd_una s') = (if unat (snd_una s) \<le> nat ?k then nat ?k + 1 else unat (snd_una s))"
      using a(2) ack_una[OF k] unfolding a(1) after_confirm_def by simp
    have n: "nxtSendpacketid s' = nxtSendpacketid s" using a(2) unfolding a(1) after_confirm_def psd_confirm_frame(2) by simp
    have "m < unat (snd_una s') \<and> unat (snd_una s') < 2 ^ 31" using u k assms(2) by (auto simp: behind_def)
    with n a(3) assms(2) show ?thesis by (simp add: behind_def psd_numbers_quiet)
  qed
next
  case (pass now p)
  with assms(2) show ?thesis by simp
next
  case (send now)
  let ?n = "nxtSendpacketid s"
  have small: "unat ?n < 2 ^ 31" using assms(2) by (simp add: behind_def)
  note i = int_packetid_id[OF small] and v = number_unat[OF small]
  from psd_send_run[OF send(2)] i v obtain k where k: "psd_numbers es = map (\<lambda>j. ?n + of_nat j) [0..<k]"
    "nxtSendpacketid s' = ?n + of_nat k" "int (unat ?n) + int k < 2 ^ 31" "same_window (s\<lparr>senddata := None\<rparr>) s'" by auto
  from k(3) have "int (unat ?n + k) < int (2 ^ 31)" unfolding of_nat_add of_nat_power of_nat_numeral .
  then have nat_k: "unat ?n + k < 2 ^ 31" unfolding of_nat_less_iff .
  have sum: "unat (?n + of_nat j) = unat ?n + j" if "j \<le> k" for j
  proof -
    have "unat (of_nat j :: u64) = j" using that nat_k by (simp add: unat_of_nat take_bit_nat_eq_self)
    then show ?thesis using that nat_k by (subst unat_add_lem[THEN iffD1]) auto
  qed
  have "m < unat n" if "n \<in> set (psd_numbers es)" for n
    using that k(1) sum assms(2) by (auto simp: behind_def)
  moreover have "behind m s'" using k(2,4) sum[of k] nat_k assms(2) by (auto simp: behind_def same_window_def)
  ultimately show ?thesis by blast
next
  case (timeout now)
  with psd_timeout_Inr[OF timeout(2)] assms(2) show ?thesis by (auto simp: behind_def psd_numbers_quiet)
next
  case (idle now tm st d)
  with assms(2) show ?thesis by (simp add: behind_def)
qed

interpretation psd_behind: recorded_machine "POSEIDON_handleMessage cfg" "behind m" "\<lambda>x. ack_number_ok x \<and> activate cfg"
    "\<lambda>s log. \<forall>n\<in>set (psd_numbers log). m < unat n" for cfg m
  by unfold_locales (use behind_step in \<open>force simp: psd_numbers_append\<close>)+

subsection \<open>The receiver\<close>

abbreviation psd_data :: "dgram \<Rightarrow> bool" where
  "psd_data q \<equiv> contains ''PSDData'' (p_name q)"

text \<open>The data packets from host \<open>a\<close> passed up, and those an event brings.\<close>

fun psd_passed :: "int \<Rightarrow> cc_effect list \<Rightarrow> dgram list" where
  "psd_passed a [] = []"
| "psd_passed a (SendUp u # es) = (if psd_data u \<and> d_src u = a then u # psd_passed a es else psd_passed a es)"
| "psd_passed a (_ # es) = psd_passed a es"

definition psd_strip :: "dgram \<Rightarrow> dgram" where
  "psd_strip p = p\<lparr>d_psd := None, p_len := p_len p - 8 * 2\<rparr>"

fun psd_arrivals :: "int \<Rightarrow> simtime \<times> cc_op \<Rightarrow> dgram list" where
  "psd_arrivals a (now, Lower p) = (if psd_data p \<and> d_src p = a then [p] else [])"
| "psd_arrivals a (now, _) = []"

lemma psd_passed_append: "psd_passed a (es @ es') = psd_passed a es @ psd_passed a es'"
  by (induction a es rule: psd_passed.induct) auto

lemma psd_passed_none: "(\<And>u. SendUp u \<in> set es \<Longrightarrow> \<not> psd_data u) \<Longrightarrow> psd_passed a es = []"
  by (induction a es rule: psd_passed.induct) auto

interpretation psd_receiver: observed_machine "POSEIDON_handleMessage cfg" "psd_passed a" "\<lambda>x. map psd_strip (psd_arrivals a x)" for cfg a
proof unfold_locales
  fix x s s' es
  assume "POSEIDON_handleMessage cfg x s = Inr (s', es)"
  then show "psd_passed a es = map psd_strip (psd_arrivals a x)"
  proof (cases rule: psd_step_cases)
    case (request now p)
    from psd_start.upper_sends[OF request(2)] request(1) show ?thesis by (auto simp: quiet_def intro!: psd_passed_none)
  next
    case (receive now p)
    from receive(3) show ?thesis by (rule psd_receive_Inr) (use receive(1,2) in \<open>simp add: psd_strip_def\<close>)
  next
    case (ack now p)
    from ack(4) show ?thesis by (rule psd_ack_Inr) (use ack(1,2) in \<open>auto simp: quiet_def intro!: psd_passed_none\<close>)
  next
    case (send now)
    from psd_send_run[OF send(2)] send(1) show ?thesis by (auto simp: sends_filed_def intro!: psd_passed_none)
  next
    case (timeout now)
    with psd_timeout_Inr[OF timeout(2)] show ?thesis by (auto simp: quiet_def intro!: psd_passed_none)
  qed simp_all
qed (simp_all add: psd_passed_append)

text \<open>What the network may do to a packet: write its header and mark it.\<close>

definition psd_in_transit :: "dgram \<Rightarrow> dgram \<Rightarrow> bool" where
  "psd_in_transit q p \<longleftrightarrow> (\<exists>h m. p = q\<lparr>d_psd := h, d_ecn := m\<rparr>)"

lemma psd_received_contents:
  assumes "psd_in_transit (psd_packet now n c i) p" and "0 < pi_length i"
  shows "contents (psd_strip p) = i\<lparr>pi_cretime := 0\<rparr>"
  using assms by (auto simp: psd_in_transit_def psd_strip_def psd_packet_def filed_dgram_def contents_def payload_of_def bytes_of_def)

subsection \<open>Properties\<close>

definition sample_psd :: psd_cfg where
  "sample_psd = \<lparr>activate = True, stopTime = 1000, linkspeed = 122080, max_pck_size = 1000, maxInterval = 1, baseRTT = 1,
     PARA_P = 1, PARA_K = 1, psd_m = 1, min_md = 1 / 2\<rparr>"

text \<open>A packet of 900 bytes of the sample message, the acknowledgement of number \<open>n\<close>, and a sender in the midst of a
  message of which the packets \<open>ks\<close> are filed.\<close>

definition sample_piece :: pck_info where
  "sample_piece = (message_info (last (p_tags (sample_message 900))) (sample_message 900))\<lparr>pi_length := 900, pi_last := True\<rparr>"

definition sample_psd_ack :: "int \<Rightarrow> dgram" where
  "sample_psd_ack n = psd_reply n (sample_message 0) \<lparr>psdTS = 0, psdMPD = 1\<rparr>"

definition sample_sender :: "u64 list \<Rightarrow> psd" where
  "sample_sender ks = (POSEIDON_initialize sample_psd)\<lparr>sender_packetMap := map (\<lambda>k. (k, sample_piece)) ks,
     packetid := of_nat (length ks), pk_state := PAUSING\<rparr>"

lemma sample_psd_ok: "psd_cfg_ok sample_psd"
  by (simp add: psd_cfg_ok_def sample_psd_def min_cwnd_def)

lemma sample_ack_name: "contains ''ACK'' (p_name (sample_psd_ack n))" "\<not> psd_data (sample_psd_ack n)"
proof -
  have "p_name (sample_psd_ack n) = [] @ ''ACK'' @ (''-'' @ digits (nat n))" by (simp add: sample_psd_ack_def psd_reply_def)
  then show "contains ''ACK'' (p_name (sample_psd_ack n))" by (simp only: contains_append) blast
  show "\<not> psd_data (sample_psd_ack n)" unfolding sample_psd_ack_def by (rule psd_reply_no_data)
qed

text \<open>Once started, the congestion window stays positive and never above what the link carries in a round
  trip; after every acknowledgement it is at least the minimum.\<close>

theorem psd_window_bounds:
  assumes "psd_cfg_ok cfg" and "run_out (POSEIDON_handleMessage cfg) xs (POSEIDON_initialize cfg) = Inr (s, es)"
  shows "0 < snd_cwnd s \<and> snd_cwnd s \<le> linkspeed cfg * baseRTT cfg / (1526 * 8) \<and>
    (\<forall>now p s' es'. POSEIDON_receiveAck cfg now p s = Inr (s', es') \<longrightarrow>
       min_cwnd \<le> snd_cwnd s' \<and> snd_cwnd s' \<le> linkspeed cfg * baseRTT cfg / (1526 * 8))"
proof -
  have w: "window_inv cfg s" using psd_init_window[OF assms(1)] _ assms(2) by (rule psd_window.inv_run) simp
  have "min_cwnd \<le> snd_cwnd s' \<and> snd_cwnd s' \<le> linkspeed cfg * baseRTT cfg / (1526 * 8)"
    if "POSEIDON_receiveAck cfg now p s = Inr (s', es')" for now p s' es'
    using ack_window[OF that w] by (simp add: window_inv_def)
  with w show ?thesis by (simp add: window_inv_def)
qed

text \<open>One firing of the send timer sends filed packets with consecutive numbers from the next one, all of them but the
  first within the window.\<close>

theorem psd_sends_in_window:
  assumes "POSEIDON_handleMessage cfg (now, Fire SendDataTimer) s = Inr (s', es)" and "senddata s \<noteq> None" and "now < stopTime cfg"
  shows "\<exists>k>0. psd_numbers es = map (\<lambda>j. int_packetid (nxtSendpacketid s) + of_nat j) [0..<k] \<and>
     nxtSendpacketid s' = int_packetid (nxtSendpacketid s) + of_nat k \<and>
     (\<forall>j\<in>{1..<k}. of_nat (unat (int_packetid (nxtSendpacketid s) + of_nat j - snd_una s)) < snd_cwnd s)"
proof -
  from assms have "POSEIDON_send_data cfg now (s\<lparr>senddata := None\<rparr>) = Inr (s', es)" by simp
  from psd_send_run[OF this] show ?thesis unfolding in_window_def by auto
qed

lemmas sample_psd_defs = sample_psd_ack_def psd_reply_def sample_message_def sample_sender_def sample_piece_def message_info_def
  POSEIDON_initialize_def Let_def sample_psd_def packet.truncate_def last_tag_def

lemmas psd_ack_defs = POSEIDON_processLowerpck_def POSEIDON_receiveAck_def psd_confirm_def psd_rto_def
  psd_adapt_def psd_target_def psd_ratio_def psd_resume_def scheduleSenddata_def min_rate_def min_cwnd_def clamp_def

lemmas psd_send_defs = POSEIDON_send_data.simps psd_transmit_def note_packet_def psd_measure_def rearm_timeout_def psd_pace_def
  int_packetid_id number_unat number_of_id

theorem psd_sends_in_window_witness:
  "\<exists>s' es k. POSEIDON_handleMessage sample_psd (0, Fire SendDataTimer) ((sample_sender [0, 1, 2])\<lparr>senddata := Some 0\<rparr>) = Inr (s', es) \<and>
     0 < k \<and> psd_numbers es = map (\<lambda>j. of_nat j) [0..<k] \<and> psd_numbers es = [0, 1, 2]"
proof -
  let ?s = "(sample_sender [0, 1, 2])\<lparr>senddata := Some 0\<rparr>"
  have "\<exists>s' es. POSEIDON_handleMessage sample_psd (0, Fire SendDataTimer) ?s = Inr (s', es) \<and> psd_numbers es = [0, 1, 2]"
    by (simp add: sample_psd_defs psd_send_defs psd_packet_facts)
  then obtain s' es where r: "POSEIDON_handleMessage sample_psd (0, Fire SendDataTimer) ?s = Inr (s', es)" "psd_numbers es = [0, 1, 2]" by blast
  have "int_packetid (nxtSendpacketid ?s) = 0" "senddata ?s \<noteq> None" "0 < stopTime sample_psd"
    by (simp_all add: sample_psd_defs int_packetid_id)
  with psd_sends_in_window[OF r(1)] r show ?thesis by auto
qed

theorem psd_window_bounds_witness:
  "\<exists>s es s' es'. run_out (POSEIDON_handleMessage sample_psd) [(0, Upper (sample_message 900))] (POSEIDON_initialize sample_psd) = Inr (s, es) \<and>
     POSEIDON_receiveAck sample_psd 5 (sample_psd_ack 0) s = Inr (s', es') \<and>
     0 < snd_cwnd s \<and> 1 / 10000 \<le> snd_cwnd s' \<and> snd_cwnd s' \<le> 10"
proof -
  let ?m = "sample_message 900"
  have "cut_message 1000 (payload_of ?m) = (1, 900)" by (simp add: sample_payload single_piece)
  then have "\<exists>s es s' es'. run_out (POSEIDON_handleMessage sample_psd) [(0, Upper ?m)] (POSEIDON_initialize sample_psd) = Inr (s, es) \<and>
     POSEIDON_receiveAck sample_psd 5 (sample_psd_ack 0) s = Inr (s', es')"
    by (simp add: POSEIDON_processUpperpck_def packet_upper_def rescheduleSenddata_def psd_ack_defs psd_send_defs sample_psd_defs)
  then obtain s es s' es' where r: "run_out (POSEIDON_handleMessage sample_psd) [(0, Upper ?m)] (POSEIDON_initialize sample_psd) = Inr (s, es)"
    "POSEIDON_receiveAck sample_psd 5 (sample_psd_ack 0) s = Inr (s', es')" by blast
  from psd_window_bounds[OF sample_psd_ok r(1)] r(2) have
    "0 < snd_cwnd s" "min_cwnd \<le> snd_cwnd s' \<and> snd_cwnd s' \<le> linkspeed sample_psd * baseRTT sample_psd / (1526 * 8)" by blast+
  with r show ?thesis by (auto simp: min_cwnd_def sample_psd_def)
qed

text \<open>C30: Packets lost for good.  An acknowledgement of packet \<open>m\<close>, one that is not yet acknowledged and lies below the next packet to
  be sent, counts for all packets below it, although the receiver acknowledges each packet by its own number.  After it,
  whatever reaches the module and whatever timer fires, no packet numbered \<open>m\<close> or lower is ever sent again, lost or not.  (Packet
  \<open>m\<close> lies below the next one to be sent unless a timeout has meanwhile gone back to the first that is not acknowledged; what a
  late acknowledgement does then is not stated here.  Numbers and acknowledgements are below 2^31.)\<close>

theorem psd_loss_forgotten:
  assumes "run_out (POSEIDON_handleMessage cfg) ((t, Lower p) # ys) s = Inr (s', es)" and "activate cfg"
    and "contains ''ACK'' (p_name p)" and "\<not> psd_data p" and "ht_packetid (last (p_tags p)) = int m"
    and "unat (snd_una s) \<le> m" and "m < unat (nxtSendpacketid s)" and "unat (nxtSendpacketid s) < 2 ^ 31"
    and "\<forall>y\<in>set ys. ack_number_ok y"
  shows "\<forall>n\<in>set (psd_numbers es). m < unat n"
proof -
  from assms(1) obtain s1 es1 es2 where s1: "POSEIDON_handleMessage cfg (t, Lower p) s = Inr (s1, es1)"
    and r: "run_out (POSEIDON_handleMessage cfg) ys s1 = Inr (s', es2)" and es: "es = es1 @ es2"
    by (auto simp: run_out_Cons_Inr simp del: run_out.simps)
  from s1 assms(3,4) have a: "POSEIDON_receiveAck cfg t p s = Inr (s1, es1)" by (simp add: POSEIDON_processLowerpck_def)
  have "int m < 2 ^ 31 - 1" using assms(7,8) by simp
  note k = ack_una[OF of_nat_0_le_iff this]
  from a have b: "behind m s1 \<and> quiet es1"
  proof (rule psd_ack_Inr)
    fix s2
    assume s2: "s2 = psd_confirm cfg (number_of (ht_packetid (last (p_tags p))))
         (s\<lparr>currentRTT := t - d_time p, can_decrease := (if d_time p > t_last_decrease s then True else can_decrease s)\<rparr>)"
      and c: "after_confirm s2 s1" and q: "quiet es1"
    have "unat (snd_una s1) = m + 1" using c k assms(6) unfolding after_confirm_def s2 assms(5) by simp
    moreover have "nxtSendpacketid s1 = nxtSendpacketid s" using c unfolding after_confirm_def s2 psd_confirm_frame(2) by simp
    ultimately show ?thesis using q assms(7,8) by (simp add: behind_def)
  qed
  have "\<forall>n\<in>set (psd_numbers ([] @ es2)). m < unat n"
    by (rule psd_behind.record_run[OF conjunct1[OF b] _ _ r]) (use assms(2,9) in auto)
  with b show ?thesis by (simp add: es psd_numbers_append psd_numbers_quiet)
qed

text \<open>Packet 0 of the sample is lost, packet 1 acknowledged; the sender goes on to packet 2 with packet 0 still filed.\<close>

theorem psd_loss_forgotten_witness:
  "\<exists>s' es. run_out (POSEIDON_handleMessage sample_psd) [(5, Lower (sample_psd_ack 1)), (5, Fire SendDataTimer)]
       ((sample_sender [0, 1, 2])\<lparr>nxtSendpacketid := 2\<rparr>) = Inr (s', es) \<and>
     map_get (sender_packetMap s') 0 = Some sample_piece \<and> psd_numbers es = [2] \<and> (\<forall>n\<in>set (psd_numbers es). 1 < unat n)"
proof -
  let ?s = "(sample_sender [0, 1, 2])\<lparr>nxtSendpacketid := 2\<rparr>" and ?ys = "[(5, Fire SendDataTimer)]"
  have "\<exists>s' es. run_out (POSEIDON_handleMessage sample_psd) ((5, Lower (sample_psd_ack 1)) # ?ys) ?s = Inr (s', es) \<and>
     map_get (sender_packetMap s') 0 = Some sample_piece \<and> psd_numbers es = [2]"
    apply (simp add: psd_ack_defs sample_ack_name)
    apply (simp add: psd_ack_defs psd_send_defs sample_psd_defs psd_packet_facts psd_numbers_append)
    done
  then obtain s' es where r: "run_out (POSEIDON_handleMessage sample_psd) ((5, Lower (sample_psd_ack 1)) # ?ys) ?s = Inr (s', es)"
     "map_get (sender_packetMap s') 0 = Some sample_piece" "psd_numbers es = [2]" by blast
  have "\<forall>n\<in>set (psd_numbers es). 1 < unat n"
    by (rule psd_loss_forgotten[OF r(1)]) (simp_all add: sample_ack_name, simp_all add: sample_psd_defs)
  with r show ?thesis by blast
qed

text \<open>What the receiver's application is given: every data packet that arrives, in the order of arrival, each one of the
  packets the sender's application filed, if the network makes no packets up.  Packets are neither put in order
  nor told apart: one that arrives twice is passed up twice.\<close>

theorem psd_passes_arrivals:
  assumes "run_out (POSEIDON_handleMessage cfg) xs (POSEIDON_initialize cfg) = Inr (s, sent)"
    and "run_out (POSEIDON_handleMessage cfg') ys r0 = Inr (r, got)"
    and "activate cfg" and "0 < max_pck_size cfg" and "length (filed (activate cfg) (max_pck_size cfg) xs) < 2 ^ 64"
    and "\<And>t p. (t, Lower p) \<in> set ys \<Longrightarrow> psd_data p \<Longrightarrow> d_src p = a \<Longrightarrow> \<exists>q. SendDown q \<in> set sent \<and> psd_in_transit q p"
  shows "psd_passed a got = map psd_strip (concat (map (psd_arrivals a) ys)) \<and>
     (\<forall>u\<in>set (psd_passed a got). \<exists>i\<in>set (filed (activate cfg) (max_pck_size cfg) xs). contents u = i\<lparr>pi_cretime := 0\<rparr>)"
proof -
  let ?F = "filed (activate cfg) (max_pck_size cfg) xs"
  have up: "psd_passed a got = map psd_strip (concat (map (psd_arrivals a) ys))"
    using psd_receiver.observe_run[OF assms(2), of a] by (simp add: map_concat comp_def)
  have "filed_as [] (POSEIDON_initialize cfg)" by (simp add: filed_as_def POSEIDON_initialize_def Let_def)
  from psd_sender.run_files[OF assms(1) this] assms(3,5) have
    sent: "\<And>q. SendDown q \<in> set sent \<Longrightarrow> psd_data q \<Longrightarrow> \<exists>n<length ?F. psd_made (of_nat n) (?F ! n) q" by auto
  have "\<exists>i\<in>set ?F. contents u = i\<lparr>pi_cretime := 0\<rparr>" if "u \<in> set (psd_passed a got)" for u
  proof -
    from that obtain y p where y: "y \<in> set ys" "p \<in> set (psd_arrivals a y)" and u: "u = psd_strip p" unfolding up by auto
    then obtain t where p: "(t, Lower p) \<in> set ys" "psd_data p" "d_src p = a"
      by (cases "(a, y)" rule: psd_arrivals.cases) (auto split: if_splits)
    from assms(6)[OF p] obtain q where q: "SendDown q \<in> set sent" "psd_in_transit q p" by blast
    then have "psd_data q" using p(2) by (auto simp: psd_in_transit_def)
    with sent[OF q(1)] obtain n now c where n: "n < length ?F" "q = psd_packet now (of_nat n) c (?F ! n)" by (auto simp: psd_made_def)
    have "0 < pi_length (?F ! n)" using filed_lengths[OF assms(4)] n(1) by (meson nth_mem)
    with psd_received_contents[OF q(2)[unfolded n(2)]] n(1) show ?thesis by (auto simp: u)
  qed
  with up show ?thesis by blast
qed

text \<open>The only packet of the sample message reaches the receiver twice and is passed up twice.\<close>

theorem psd_passes_arrivals_witness:
  "\<exists>s sent r got p. run_out (POSEIDON_handleMessage sample_psd) [(0, Upper (sample_message 900)), (0, Fire SendDataTimer)]
       (POSEIDON_initialize sample_psd) = Inr (s, sent) \<and> SendDown p \<in> set sent \<and>
     run_out (POSEIDON_handleMessage sample_psd) [(1, Lower p), (2, Lower p)] (POSEIDON_initialize sample_psd) = Inr (r, got) \<and>
     psd_passed 1 got = [psd_strip p, psd_strip p]"
proof -
  let ?m = "sample_message 900" and ?xs = "[(0, Upper (sample_message 900)), (0, Fire SendDataTimer)]"
  let ?p = "psd_packet 0 0 0 sample_piece" and ?i = "POSEIDON_initialize sample_psd"
  let ?ys = "[(1, Lower ?p), (2, Lower ?p)]"
  have c: "cut_message 1000 (payload_of ?m) = (1, 900)" by (simp add: sample_payload single_piece)
  have "\<exists>s sent. run_out (POSEIDON_handleMessage sample_psd) ?xs ?i = Inr (s, sent) \<and> SendDown ?p \<in> set sent \<and>
      (\<forall>q. SendDown q \<in> set sent \<longrightarrow> q = ?p)" using c
    by (simp add: POSEIDON_processUpperpck_def packet_upper_def rescheduleSenddata_def psd_ack_defs psd_send_defs sample_psd_defs)
  then obtain s sent where s: "run_out (POSEIDON_handleMessage sample_psd) ?xs ?i = Inr (s, sent)" "SendDown ?p \<in> set sent" by blast
  have d: "psd_data ?p" "d_src ?p = 1" by (simp_all add: psd_packet_facts) (simp add: psd_packet_def filed_dgram_def sample_psd_defs)
  have "\<exists>r got. run_out (POSEIDON_handleMessage sample_psd) ?ys ?i = Inr (r, got)"
    using d(1) psd_packet_facts(2)
    by (simp add: POSEIDON_processLowerpck_def POSEIDON_receive_data_def) (simp add: psd_packet_def filed_dgram_def sample_psd_defs)
  then obtain r got where r: "run_out (POSEIDON_handleMessage sample_psd) ?ys ?i = Inr (r, got)" by blast
  have "length (filed (activate sample_psd) (max_pck_size sample_psd) ?xs) < 2 ^ 64"
    using c by (simp add: filed_def message_pieces_def sample_psd_defs)
  note l = this
  have t: "psd_in_transit ?p ?p" by (auto simp: psd_in_transit_def intro!: exI[of _ "d_psd ?p"] exI[of _ "d_ecn ?p"])
  have "psd_passed 1 got = map psd_strip (concat (map (psd_arrivals 1) ?ys))"
    by (rule conjunct1[OF psd_passes_arrivals[OF s(1) r _ _ l]]) (use s(2) t in \<open>auto simp: sample_psd_def\<close>)
  with d have "psd_passed 1 got = [psd_strip ?p, psd_strip ?p]" by simp
  with s r show ?thesis by blast
qed

lemma send_paced:
  assumes "POSEIDON_send_data cfg now s = Inr (s', es)" and "snd_cwnd s' < 1"
    and "map_get (sender_packetMap s) (int_packetid (nxtSendpacketid s) + 1) \<noteq> None"
  shows "senddata s' \<noteq> None \<and> pk_state s' = pk_state s"
proof -
  let ?n = "int_packetid (nxtSendpacketid s)"
  have w: "snd_cwnd s' = snd_cwnd s" using psd_send_run[OF assms(1)] by (auto simp: same_window_def)
  obtain i s1 es1 where i: "map_get (sender_packetMap s) ?n = Some i" and o: "number_of (uint (nxtSendpacketid s)) \<noteq> 2 ^ 31 - 1"
    and t: "psd_transmit cfg now ?n i s = Inr (s1, es1)"
    using assms(1) by (rule psd_send_cases)
  have s1: "sender_packetMap s1 = sender_packetMap s" "snd_cwnd s1 = snd_cwnd s" "pk_state s1 = pk_state s"
    using t by (auto elim!: transmit_Inr simp: same_window_def)
  have "\<not> snd_cwnd s1 \<ge> 1" "map_get (sender_packetMap s1) (?n + 1) \<noteq> None" using w s1 assms(2,3) by simp_all
  with assms(1)[unfolded POSEIDON_send_data.simps[of cfg now s]] i o t
  obtain es2 where "rescheduleSenddata now (now + pacing_delay s1) s1 = Inr (s', es2)"
    by (simp add: Let_def) (auto simp: rbind_eq_Inr)
  with reschedule_Inr(1)[OF this] s1(3) show ?thesis by simp
qed

text \<open>A timeout in a pause.  The timeout resumes sending but leaves the state at PAUSING.  If the window has shrunk
  below one packet, sending arms the send timer for the next packet; an acknowledgement that comes before the
  timer fires finds the state PAUSING, schedules the timer a second time and the simulation stops with an error.\<close>

theorem psd_paused_timeout_fails:
  assumes "run_out (POSEIDON_handleMessage cfg) [(t, Fire TimeoutTimer), (t, Fire SendDataTimer)] s = Inr (s', es)"
    and "psd_timeout s \<noteq> None" and "pk_state s = PAUSING" and "t < stopTime cfg" and "snd_cwnd s' < 1"
    and "map_get (sender_packetMap s) (int_packetid (snd_una s) + 1) \<noteq> None"
    and "contains ''ACK'' (p_name p)" and "\<not> psd_data p"
  shows "\<not> is_ok (POSEIDON_handleMessage cfg (t', Lower p) s')"
proof
  let ?s = "s\<lparr>psd_timeout := None\<rparr>" and ?n = "int_packetid (snd_una s)"
  from assms(1,2) obtain s1 es1 es2 where o: "POSEIDON_time_out cfg t ?s = Inr (s1, es1)"
    and r: "POSEIDON_handleMessage cfg (t, Fire SendDataTimer) s1 = Inr (s', es2)" by (auto simp: rbind_eq_Inr)
  have s1: "nxtSendpacketid s1 = snd_una s \<and> senddata s1 \<noteq> None \<and> pk_state s1 = PAUSING" 
    using psd_timeout_Inr[OF o] assms(3) by simp
  have m: "sender_packetMap s1 = sender_packetMap s" using psd_timeout_Inr[OF o] by simp
  assume "is_ok (POSEIDON_handleMessage cfg (t', Lower p) s')"
  then obtain u fs where "POSEIDON_receiveAck cfg t' p s' = Inr (u, fs)"
    using assms(7,8) by (auto simp: is_ok_iff POSEIDON_processLowerpck_def)
  then have "\<not> (pk_state s' = PAUSING \<and> senddata s' \<noteq> None)" by (rule psd_ack_Inr)
  moreover have "pk_state s' = PAUSING \<and> senddata s' \<noteq> None"
  proof -
    let ?s1 = "s1\<lparr>senddata := None\<rparr>"
    have "POSEIDON_send_data cfg t ?s1 = Inr (s', es2)" using r s1 assms(4) by simp
    from send_paced[OF this assms(5)] s1 m assms(6) show ?thesis by simp
  qed
  ultimately show False by blast
qed

theorem psd_paused_timeout_fails_witness:
  "\<exists>s s' es. pk_state s = PAUSING \<and>
     run_out (POSEIDON_handleMessage sample_psd) [(5, Fire TimeoutTimer), (5, Fire SendDataTimer)] s = Inr (s', es) \<and>
     \<not> is_ok (POSEIDON_handleMessage sample_psd (6, Lower (sample_psd_ack 0)) s')"
proof -
  let ?s = "(sample_sender [0, 1, 2])\<lparr>nxtSendpacketid := 2, psd_timeout := Some 5, snd_cwnd := 1\<rparr>"
  have "\<exists>s' es. run_out (POSEIDON_handleMessage sample_psd) [(5, Fire TimeoutTimer), (5, Fire SendDataTimer)] ?s = Inr (s', es) \<and> snd_cwnd s' < 1"
    by (simp add: POSEIDON_time_out_def rescheduleSenddata_def psd_ack_defs psd_send_defs sample_psd_defs)
  then obtain s' es where r: "run_out (POSEIDON_handleMessage sample_psd) [(5, Fire TimeoutTimer), (5, Fire SendDataTimer)] ?s = Inr (s', es)"
    "snd_cwnd s' < 1" by blast
  have "\<not> is_ok (POSEIDON_handleMessage sample_psd (6, Lower (sample_psd_ack 0)) s')"
    by (rule psd_paused_timeout_fails[OF r(1) _ _ _ r(2)]) (simp_all add: sample_ack_name, simp_all add: sample_psd_defs int_packetid_id)
  moreover have "pk_state ?s = PAUSING" by (simp add: sample_sender_def)
  ultimately show ?thesis using r(1) by blast
qed

end
