(* ===== verification/SWIFT.thy ===== *)
theory SWIFT
  imports Packet_Sender
begin

section \<open>SWIFT\<close>

text \<open>
  \<open>HiNA/CC/SWIFT\<close>.  A window of packets, adapted from the round-trip time.  The receiver passes every
  packet up when it comes, acknowledges the packets it has without a gap by the number of the last
  one, and answers a packet behind a gap with a selective acknowledgement, the numbers of up to four
  packets it has behind the gap.  The sender keeps the gaps in \<open>sacks_array_snd\<close>; the third selective
  acknowledgement in a row starts a recovery, in which the packets of the gaps are sent again.

  The map of the sender has keys of 32 bits, the packet numbers have 64.  The square root is the real
  function; where it or a quotient has no value the model has the error \<open>FloatConversion\<close>.  Recorded
  vectors, the measured rate, which is only recorded, and the count of timeouts are left out.
\<close>

record swift_cfg =
  activate :: bool
  stopTime :: simtime
  linkspeed :: double
  max_pck_size :: int
  baseRTT :: simtime
  hop_scaler :: double
  hops :: int
  ai :: double
  swift_beta :: double
  max_mdf :: double
  fs_min_cwnd :: double
  fs_max_cwnd :: double

text \<open>What the receiver keeps of a source.\<close>

record receiver_info =
  rcv_nxt :: u32
  sacks_array :: "u32 list"
  acksequence :: "u32 list"

record swift = "u32 pck_sender" +
  sw_timeout :: "simtime option"
  FAST_RECOVERY :: bool
  sacks_array_snd :: "u32 list"
  sw_alpha :: double
  RTT_S :: simtime
  RTT_D :: simtime
  RTO :: simtime
  t_last_decrease :: simtime
  num_acked :: int
  num_dupack :: int
  snd_una :: u64
  currentRTT :: simtime
  retransmit_cnt :: int
  pacing_delay :: simtime
  pre_snd :: double
  can_decrease :: bool
  snd_cwnd :: double
  max_cwnd :: double
  receiver_Map :: "(int, receiver_info) smap"

definition swift_min_cwnd :: double where
  "swift_min_cwnd = 1 / 10000"

definition swift_fs_range :: "swift_cfg \<Rightarrow> double" where
  "swift_fs_range cfg = 4 * baseRTT cfg"

text \<open>\<open>alpha\<close>, the scale of the part of the delay target that depends on the window.\<close>

definition swift_alpha :: "swift_cfg \<Rightarrow> double res" where
  "swift_alpha cfg =
     (if fs_min_cwnd cfg \<le> 0 \<or> fs_max_cwnd cfg \<le> 0 \<or> fs_min_cwnd cfg = fs_max_cwnd cfg then Inl FloatConversion
      else Inr (swift_fs_range cfg / (1 / sqrt (fs_min_cwnd cfg) - 1 / sqrt (fs_max_cwnd cfg))))"

definition SWIFT_initialize :: "swift_cfg \<Rightarrow> swift res" where
  "SWIFT_initialize cfg =
     rbind (swift_alpha cfg) (\<lambda>alpha.
       let w = linkspeed cfg * baseRTT cfg / (1526 * 8) in
       Inr \<lparr>sender_packetMap = [], pk_state = STOPPING, senddata = None, packetid = 0, nxtSendpacketid = 0,
            pk_lastflowid = -1, pk_last_creation_time = 0, sw_timeout = None, FAST_RECOVERY = False,
            sacks_array_snd = [], sw_alpha = alpha, RTT_S = 0, RTT_D = 0, RTO = 1 / 10, t_last_decrease = 0,
            num_acked = 0, num_dupack = 0, snd_una = 0, currentRTT = 0, retransmit_cnt = 0, pacing_delay = 0,
            pre_snd = 0, can_decrease = True, snd_cwnd = w, max_cwnd = w, receiver_Map = []\<rparr>)"

text \<open>\<open>cancelEvent(timeout); scheduleAt(now + RTO, timeout)\<close>\<close>

definition swift_rearm_timeout :: "simtime \<Rightarrow> swift \<Rightarrow> (swift \<times> cc_effect list) res" where
  "swift_rearm_timeout now s =
     (if now + RTO s < now then Inl (RuntimeError ''cannot schedule a message to the past'')
      else Inr (s\<lparr>sw_timeout := Some (now + RTO s)\<rparr>, [Cancel TimeoutTimer, Arm TimeoutTimer (now + RTO s)]))"

text \<open>The key of a packet number in the map.\<close>

definition map_key :: "u64 \<Rightarrow> u32" where
  "map_key n = ucast n"

definition SWIFT_processUpperpck :: "swift_cfg \<Rightarrow> simtime \<Rightarrow> dgram \<Rightarrow> swift \<Rightarrow> (swift \<times> cc_effect list) res" where
  "SWIFT_processUpperpck cfg now pck s =
     packet_upper map_key (rescheduleSenddata now now) (activate cfg) (max_pck_size cfg) pck s"

subsection \<open>Sending\<close>

definition swift_packet :: "simtime \<Rightarrow> u64 \<Rightarrow> simtime \<Rightarrow> pck_info \<Rightarrow> dgram" where
  "swift_packet now n cret i = (filed_dgram ''SWIFTData'' 0 n cret i)\<lparr>d_time := now\<rparr>"

text \<open>
  The packet sent after this one: in a recovery the packet of the next gap, and the packet at which the
  recovery began once no gap is left.  \<open>front()\<close> of the list is read before it is tested for
  being empty.
\<close>

definition swift_next :: "swift \<Rightarrow> swift res" where
  "swift_next s =
     (if FAST_RECOVERY s then
        (case sacks_array_snd s of
           [] \<Rightarrow> Inr s
         | g # gs \<Rightarrow>
             if gs = [] then Inl OutOfBounds
             else Inr (s\<lparr>sacks_array_snd := gs, nxtSendpacketid := ucast (hd gs)\<rparr>))
      else Inr (s\<lparr>nxtSendpacketid := nxtSendpacketid s + 1\<rparr>))"

text \<open>One activation of \<open>send_data\<close>: the flag says whether it calls itself again.\<close>

definition swift_send_one :: "simtime \<Rightarrow> swift \<Rightarrow> (bool \<times> swift \<times> cc_effect list) res" where
  "swift_send_one now s =
     (let n = int_packetid (nxtSendpacketid s) in
      case map_get (sender_packetMap s) (map_key n) of
        None \<Rightarrow> Inl EndIterator
      | Some i \<Rightarrow>
          let s1 = note_packet i s; packet = swift_packet now n (pk_last_creation_time s1) i in
          rbind (swift_rearm_timeout now s1) (\<lambda>(s2, es).
            if map_get (sender_packetMap s2) (map_key (nxtSendpacketid s2 + 1)) = None then
              Inr (False, s2\<lparr>pk_state := STOPPING\<rparr>, SendDown packet # es)
            else
              rbind (swift_next s2) (\<lambda>s3.
                if snd_cwnd s3 \<ge> 1 then
                  (if snd_cwnd s3 - of_nat (unat (nxtSendpacketid s3 - snd_una s3)) > 0 then Inr (True, s3, SendDown packet # es)
                   else Inr (False, s3\<lparr>pk_state := PAUSING\<rparr>, SendDown packet # es))
                else
                  rbind (rescheduleSenddata now (now + pacing_delay s3) s3) (\<lambda>(s4, es4).
                    Inr (False, s4, SendDown packet # es @ es4)))))"

text \<open>
  The recursion of \<open>send_data\<close>.  It need not come to an end, and \<open>None\<close> is the value then.
\<close>

partial_function (option) swift_sends :: "simtime \<Rightarrow> swift \<Rightarrow> (swift \<times> cc_effect list) res option" where
  "swift_sends now s =
     (case swift_send_one now s of
        Inl e \<Rightarrow> Some (Inl e)
      | Inr (again, s1, es) \<Rightarrow>
          if again then
            Option.bind (swift_sends now s1) (\<lambda>r. Some (rbind r (\<lambda>(s2, es2). Inr (s2, es @ es2))))
          else Some (Inr (s1, es)))"

definition SWIFT_send_data :: "simtime \<Rightarrow> swift \<Rightarrow> (swift \<times> cc_effect list) res" where
  "SWIFT_send_data now s = (case swift_sends now s of None \<Rightarrow> Inl NoProgress | Some r \<Rightarrow> r)"

subsection \<open>Receiving\<close>

text \<open>An acknowledgement: \<open>ACK\<close> or \<open>SACK\<close>, a number, the gaps' far sides, and the time stamp of the packet.\<close>

definition swift_reply :: "string \<Rightarrow> nat \<Rightarrow> u32 \<Rightarrow> u32 list option \<Rightarrow> dgram \<Rightarrow> dgram" where
  "swift_reply nm bytes n items pck =
     \<lparr>p_id = 0, p_name = nm @ digits (unat n), p_len = 8 * bytes, p_iface = 0, p_ecn = None,
      p_tags = [\<lparr>ht_flowid = 0, ht_priority = -1, ht_flowsize = 0, ht_cretime = 0, ht_packetid = uint n, ht_last = False,
        ht_queueid = 0, ht_decel = False, ht_speedup = False, ht_sender_priority = -1\<rparr>],
      p_bfc = None, p_ispause = None, d_src = d_dest pck, d_dest = d_src pck, d_sport = 0, d_dport = 0, d_ecn = 0,
      d_recRate = 0, d_int = None, d_psd = None, d_sack = items, d_time = d_time pck\<rparr>"

text \<open>\<open>SACK-\<close> with the first four of the numbers kept.\<close>

definition swift_sack :: "receiver_info \<Rightarrow> dgram \<Rightarrow> dgram" where
  "swift_sack r pck = swift_reply ''SACK-'' 3 (rcv_nxt r) (Some (take 4 (sacks_array r))) pck"

definition swift_ack :: "u32 \<Rightarrow> dgram \<Rightarrow> dgram" where
  "swift_ack n pck = swift_reply ''ACK-'' 26 n None pck"

text \<open>\<open>rcv_nxt\<close> moves on over the packets that came early; each is removed from \<open>acksequence\<close> once.\<close>

function advance_rcv :: "u32 \<Rightarrow> u32 list \<Rightarrow> u32 \<times> u32 list" where
  "advance_rcv n seq = (if n \<in> set seq then advance_rcv (n + 1) (remove1 n seq) else (n, seq))"
  by pat_completeness auto
termination
  by (relation "measure (\<lambda>(n, seq). length seq)") (auto simp: length_remove1 dest: length_pos_if_in_set)

declare advance_rcv.simps [simp del]

text \<open>The loops over \<open>sacks_array\<close>: what lies below \<open>rcv_nxt\<close> is dropped; of equal numbers the first is kept.\<close>

definition drop_old :: "u32 \<Rightarrow> u32 list \<Rightarrow> u32 list" where
  "drop_old n = filter (\<lambda>i. \<not> i < n)"

fun drop_repeated :: "u32 list \<Rightarrow> u32 list" where
  "drop_repeated [] = []"
| "drop_repeated (i # is) = i # drop_repeated (filter (\<lambda>j. j \<noteq> i) is)"

definition SWIFT_receive_data :: "dgram \<Rightarrow> swift \<Rightarrow> (swift \<times> cc_effect list) res" where
  "SWIFT_receive_data pck s =
     rbind (last_tag (packet.truncate pck)) (\<lambda>tag.
       let cur = word_of_int (number_of (ht_packetid tag)) in
       case map_get (receiver_Map s) (d_src pck) of
         None \<Rightarrow>
           if cur = 0 then
             Inr (s\<lparr>receiver_Map := map_put (d_src pck) \<lparr>rcv_nxt = 1, sacks_array = [], acksequence = []\<rparr> (receiver_Map s)\<rparr>,
                  [SendDown (swift_ack cur pck), SendUp pck])
           else
             let r = \<lparr>rcv_nxt = 0, sacks_array = [cur], acksequence = []\<rparr>
             in Inr (s\<lparr>receiver_Map := map_put (d_src pck) r (receiver_Map s)\<rparr>, [SendDown (swift_sack r pck), SendUp pck])
       | Some r \<Rightarrow>
           if cur = rcv_nxt r then
             let (nxt, seq) = advance_rcv (rcv_nxt r + 1) (acksequence r)
             in Inr (s\<lparr>receiver_Map := map_put (d_src pck) (r\<lparr>rcv_nxt := nxt, acksequence := seq\<rparr>) (receiver_Map s)\<rparr>,
                     [SendDown (swift_ack (nxt - 1) pck), SendUp pck])
           else if cur > rcv_nxt r then
             let r' = r\<lparr>acksequence := acksequence r @ [cur],
                        sacks_array := drop_repeated (cur # drop_old (rcv_nxt r) (sacks_array r))\<rparr>
             in Inr (s\<lparr>receiver_Map := map_put (d_src pck) r' (receiver_Map s)\<rparr>, [SendDown (swift_sack r' pck), SendUp pck])
           else Inr (s, []))"

subsection \<open>Acknowledgements\<close>

text \<open>
  The gaps a selective acknowledgement tells of: from \<open>ackid\<close> to each of its numbers, which themselves
  have arrived.
\<close>

definition add_gap :: "u32 \<Rightarrow> u32 list \<Rightarrow> u32 list" where
  "add_gap g gs = (if g \<in> set gs then gs else gs @ [g])"

definition gaps_below :: "u32 \<Rightarrow> u32 \<Rightarrow> u32 list" where
  "gaps_below ackid i = map of_nat [unat ackid..<unat i]"

definition note_sack :: "u32 \<Rightarrow> u32 list \<Rightarrow> u32 list \<Rightarrow> u32 list" where
  "note_sack ackid items gs =
     (let gs1 = fold (\<lambda>i. fold add_gap (gaps_below ackid i)) items gs
      in fold (\<lambda>i. filter (\<lambda>g. i \<noteq> g)) items gs1)"

definition swift_note_sack :: "u32 \<Rightarrow> u32 list \<Rightarrow> swift \<Rightarrow> swift" where
  "swift_note_sack ackid items s =
     (if items = [] then s
      else s\<lparr>num_dupack := num_dupack s + 1, sacks_array_snd := note_sack ackid items (sacks_array_snd s)\<rparr>)"

text \<open>The recovery begins with the packet of the first gap.\<close>

definition swift_recover :: "simtime \<Rightarrow> swift \<Rightarrow> (swift \<times> cc_effect list) res" where
  "swift_recover now s =
     (case sacks_array_snd s of
        [] \<Rightarrow> Inl OutOfBounds
      | g # gs \<Rightarrow>
          SWIFT_send_data now
            (s\<lparr>retransmit_cnt := 0, num_dupack := 0, num_acked := 0, FAST_RECOVERY := True,
               pre_snd := of_nat (unat (nxtSendpacketid s)), nxtSendpacketid := ucast g\<rparr>))"

definition swift_sacked :: "simtime \<Rightarrow> u32 \<Rightarrow> u32 list \<Rightarrow> swift \<Rightarrow> (swift \<times> cc_effect list) res" where
  "swift_sacked now ackid items s =
     (let s1 = swift_note_sack ackid items s in if num_dupack s1 = 3 then swift_recover now s1 else Inr (s1, []))"

text \<open>The packets up to the acknowledged one count as received.\<close>

definition swift_acked :: "int \<Rightarrow> swift \<Rightarrow> swift" where
  "swift_acked ackid s =
     (if (word_of_int ackid :: u64) \<ge> snd_una s then
        let una = word_of_int (ackid + 1) in
        s\<lparr>snd_una := una, num_dupack := 0, num_acked := 0, retransmit_cnt := 0,
          sender_packetMap := map_erase (word_of_int ackid) (sender_packetMap s),
          sacks_array_snd := filter (\<lambda>g. \<not> (word_of_int ackid :: u32) \<ge> g) (sacks_array_snd s),
          nxtSendpacketid := (if nxtSendpacketid s < una then una else nxtSendpacketid s),
          pre_snd := (if pre_snd s < of_nat (unat una) then of_nat (unat una) else pre_snd s)\<rparr>
      else s)"

text \<open>The smoothed round-trip time, its deviation, and the retransmission timeout; the timeout is cancelled.\<close>

definition swift_rto :: "swift \<Rightarrow> swift" where
  "swift_rto s =
     (let srtt = (1 - 125 / 1000) * RTT_S s + 125 / 1000 * currentRTT s;
          dev = (1 - 25 / 100) * RTT_D s + 25 / 100 * \<bar>RTT_S s - currentRTT s\<bar>
      in s\<lparr>RTT_S := srtt, RTT_D := dev, RTO := srtt + 4 * dev, sw_timeout := None, num_acked := num_acked s + 1\<rparr>)"

definition swift_target :: "swift_cfg \<Rightarrow> swift \<Rightarrow> simtime res" where
  "swift_target cfg s =
     (if snd_cwnd s \<le> 0 \<or> fs_max_cwnd cfg \<le> 0 then Inl FloatConversion
      else Inr (baseRTT cfg + of_int (hops cfg) * hop_scaler cfg +
             max 0 (min (sw_alpha s / sqrt (snd_cwnd s) - sw_alpha s / sqrt (fs_max_cwnd cfg)) (swift_fs_range cfg))))"

text \<open>The new window, never outside of its bounds.\<close>

definition swift_adapt :: "swift_cfg \<Rightarrow> swift \<Rightarrow> swift res" where
  "swift_adapt cfg s =
     rbind (swift_target cfg s) (\<lambda>target.
       let w = snd_cwnd s in
       if currentRTT s < target then
         Inr (s\<lparr>snd_cwnd := clamp (if w \<ge> 1 then w + ai cfg / w * of_int (num_acked s) else w + ai cfg * of_int (num_acked s))
                swift_min_cwnd (max_cwnd s)\<rparr>)
       else if can_decrease s then
         (if currentRTT s = 0 then Inl FloatConversion
          else Inr (s\<lparr>snd_cwnd := clamp (max (1 - swift_beta cfg * (currentRTT s - target) / currentRTT s) (1 - max_mdf cfg) * w)
                 swift_min_cwnd (max_cwnd s), can_decrease := False\<rparr>))
       else Inr (s\<lparr>snd_cwnd := clamp w swift_min_cwnd (max_cwnd s)\<rparr>))"

definition swift_pace :: "swift \<Rightarrow> swift res" where
  "swift_pace s =
     (if snd_cwnd s < 1 then
        (if snd_cwnd s = 0 then Inl FloatConversion else Inr (s\<lparr>pacing_delay := currentRTT s / snd_cwnd s\<rparr>))
      else Inr (s\<lparr>pacing_delay := 0\<rparr>))"

definition swift_resume :: "simtime \<Rightarrow> swift \<Rightarrow> (swift \<times> cc_effect list) res" where
  "swift_resume now s =
     (if pk_state s = PAUSING then rescheduleSenddata now now (s\<lparr>pk_state := SENDING\<rparr>) else Inr (s, []))"

text \<open>The first half of \<open>receive_ack\<close>, which sorts the acknowledgement, and the second, which adapts the window.\<close>

definition swift_sort_ack :: "simtime \<Rightarrow> dgram \<Rightarrow> int \<Rightarrow> swift \<Rightarrow> (swift \<times> cc_effect list) res" where
  "swift_sort_ack now pck ackid s =
     (if contains ''SACK'' (p_name pck) then
        (case d_sack pck of None \<Rightarrow> Inl NullPointer | Some items \<Rightarrow> swift_sacked now (word_of_int ackid) items s)
      else if ackid = 2 ^ 31 - 1 then Inl (RuntimeError ''integer overflow'')
      else Inr (swift_acked ackid s, []))"

definition swift_react :: "swift_cfg \<Rightarrow> simtime \<Rightarrow> double \<Rightarrow> swift \<Rightarrow> (swift \<times> cc_effect list) res" where
  "swift_react cfg now cwnd_prev s =
     rbind (swift_adapt cfg (swift_rto s)) (\<lambda>s1.
     rbind (swift_pace (if snd_cwnd s1 < cwnd_prev then s1\<lparr>t_last_decrease := now\<rparr> else s1)) (\<lambda>s2.
     rbind (swift_resume now s2) (\<lambda>(s3, es). Inr (s3, Cancel TimeoutTimer # es))))"

definition SWIFT_receive_ack :: "swift_cfg \<Rightarrow> simtime \<Rightarrow> dgram \<Rightarrow> swift \<Rightarrow> (swift \<times> cc_effect list) res" where
  "SWIFT_receive_ack cfg now pck s =
     rbind (last_tag (packet.truncate pck)) (\<lambda>tag.
       let s1 = s\<lparr>currentRTT := now - d_time pck, can_decrease := (if d_time pck \<ge> t_last_decrease s then True else can_decrease s)\<rparr>
       in rbind (swift_sort_ack now pck (number_of (ht_packetid tag)) s1) (\<lambda>(s2, es).
          rbind (swift_react cfg now (snd_cwnd s) s2) (\<lambda>(s3, es2). Inr (s3, es @ es2))))"

subsection \<open>Timeouts\<close>

definition SWIFT_time_out :: "swift_cfg \<Rightarrow> simtime \<Rightarrow> swift \<Rightarrow> (swift \<times> cc_effect list) res" where
  "SWIFT_time_out cfg now s =
     (let s1 = s\<lparr>retransmit_cnt := retransmit_cnt s + 1\<rparr>;
          s2 = (if retransmit_cnt s1 > 5 then s1\<lparr>snd_cwnd := swift_min_cwnd\<rparr> else s1);
          s3 = (if can_decrease s2 then s2\<lparr>snd_cwnd := (1 - max_mdf cfg) * snd_cwnd s2, can_decrease := False\<rparr> else s2)
      in rbind (swift_pace s3) (\<lambda>s4.
           let s5 = s4\<lparr>RTO := RTO s4 * 2\<rparr> in
           if pk_state s5 \<noteq> STOPPING then
             rbind (scheduleSenddata now now (s5\<lparr>nxtSendpacketid := snd_una s5, senddata := None, sw_timeout := None\<rparr>)) (\<lambda>(s6, es).
               Inr (s6, Cancel SendDataTimer # Cancel TimeoutTimer # es))
           else Inr (s5, [])))"

subsection \<open>The module\<close>

definition SWIFT_processLowerpck :: "swift_cfg \<Rightarrow> simtime \<Rightarrow> dgram \<Rightarrow> swift \<Rightarrow> (swift \<times> cc_effect list) res" where
  "SWIFT_processLowerpck cfg now pck s =
     (if contains ''SWIFTData'' (p_name pck) then SWIFT_receive_data pck s
      else if contains ''ACK'' (p_name pck) then SWIFT_receive_ack cfg now pck s
      else Inr (s, [SendUp pck]))"

fun SWIFT_handleSelfMessage :: "swift_cfg \<Rightarrow> simtime \<Rightarrow> cc_timer \<Rightarrow> swift \<Rightarrow> (swift \<times> cc_effect list) res" where
  "SWIFT_handleSelfMessage cfg now SendDataTimer s =
     (if now \<ge> stopTime cfg then Inr (s\<lparr>pk_state := STOPPING\<rparr>, []) else SWIFT_send_data now s)"
| "SWIFT_handleSelfMessage cfg now TimeoutTimer s = SWIFT_time_out cfg now s"
| "SWIFT_handleSelfMessage cfg now _ s = Inr (s, [])"

text \<open>A packet from above whose name lacks \<open>Data\<close> is sent on unread.\<close>

fun SWIFT_handleMessage :: "swift_cfg \<Rightarrow> simtime \<times> cc_op \<Rightarrow> swift \<Rightarrow> (swift \<times> cc_effect list) res" where
  "SWIFT_handleMessage cfg (now, Fire SendDataTimer) s =
     (if senddata s = None then Inr (s, []) else SWIFT_handleSelfMessage cfg now SendDataTimer (s\<lparr>senddata := None\<rparr>))"
| "SWIFT_handleMessage cfg (now, Fire TimeoutTimer) s =
     (if sw_timeout s = None then Inr (s, []) else SWIFT_handleSelfMessage cfg now TimeoutTimer (s\<lparr>sw_timeout := None\<rparr>))"
| "SWIFT_handleMessage cfg (now, Fire _) s = Inr (s, [])"
| "SWIFT_handleMessage cfg (now, Upper pck) s =
     (if contains ''Data'' (p_name pck) then SWIFT_processUpperpck cfg now pck s else Inr (s, [SendDown pck]))"
| "SWIFT_handleMessage cfg (now, Lower pck) s = SWIFT_processLowerpck cfg now pck s"

subsection \<open>When sending comes to an end\<close>

lemma send_data_unfold:
  "SWIFT_send_data now s =
     (case swift_send_one now s of
        Inl e \<Rightarrow> Inl e
      | Inr (again, s1, es) \<Rightarrow>
          if again then rbind (SWIFT_send_data now s1) (\<lambda>(s2, es2). Inr (s2, es @ es2)) else Inr (s1, es))"
  unfolding SWIFT_send_data_def
  by (subst swift_sends.simps) (auto split: sum.splits prod.splits option.splits simp: Option.bind_eq_None_conv)

text \<open>The packet to be sent and the one behind it are filed.\<close>

definition swift_next_filed :: "swift \<Rightarrow> bool" where
  "swift_next_filed s \<longleftrightarrow> map_get (sender_packetMap s) (map_key (int_packetid (nxtSendpacketid s))) \<noteq> None \<and>
     map_get (sender_packetMap s) (map_key (nxtSendpacketid s + 1)) \<noteq> None"

definition swift_room :: "swift \<Rightarrow> bool" where
  "swift_room s \<longleftrightarrow> of_nat (unat (nxtSendpacketid s - snd_una s)) < snd_cwnd s"

text \<open>A recovery without gaps, a packet to send again and again, and swift_room in the window for it.\<close>

definition swift_stuck :: "swift \<Rightarrow> bool" where
  "swift_stuck s \<longleftrightarrow> FAST_RECOVERY s \<and> sacks_array_snd s = [] \<and> swift_next_filed s \<and> 1 \<le> snd_cwnd s \<and> swift_room s \<and> 0 \<le> RTO s"

lemma note_packet_swift [simp]:
  "FAST_RECOVERY (note_packet i s) = FAST_RECOVERY s" "sacks_array_snd (note_packet i s) = sacks_array_snd s"
  "snd_cwnd (note_packet i s) = snd_cwnd s" "RTO (note_packet i s) = RTO s" "snd_una (note_packet i s) = snd_una s"
  "max_cwnd (note_packet i s) = max_cwnd s" "receiver_Map (note_packet i s) = receiver_Map s"
  "pacing_delay (note_packet i s) = pacing_delay s"
  by (simp_all add: note_packet_def)

text \<open>What one activation leaves alone.\<close>

definition swift_same_window :: "swift \<Rightarrow> swift \<Rightarrow> bool" where
  "swift_same_window s s' \<longleftrightarrow> sender_packetMap s' = sender_packetMap s \<and> packetid s' = packetid s \<and> snd_una s' = snd_una s \<and>
     snd_cwnd s' = snd_cwnd s \<and> max_cwnd s' = max_cwnd s \<and> FAST_RECOVERY s' = FAST_RECOVERY s \<and> RTO s' = RTO s \<and>
     receiver_Map s' = receiver_Map s"

lemma swift_same_window_trans: "swift_same_window s t \<Longrightarrow> swift_same_window t u \<Longrightarrow> swift_same_window s u"
  by (simp add: swift_same_window_def)

lemma swift_rearm_Inr:
  assumes "swift_rearm_timeout now s = Inr (s', es)"
  shows "s' = s\<lparr>sw_timeout := sw_timeout s'\<rparr>" and "quiet es" and "0 \<le> RTO s"
  using assms by (auto simp: swift_rearm_timeout_def split: if_splits)

lemma swift_next_Inr:
  assumes "swift_next s = Inr s'"
  shows "s' = s\<lparr>sacks_array_snd := sacks_array_snd s', nxtSendpacketid := nxtSendpacketid s'\<rparr>"
    and "FAST_RECOVERY s \<Longrightarrow> sacks_array_snd s = [] \<Longrightarrow> s' = s"
    and "FAST_RECOVERY s \<Longrightarrow> sacks_array_snd s \<noteq> [] \<Longrightarrow>
      sacks_array_snd s' \<noteq> [] \<and> sacks_array_snd s = hd (sacks_array_snd s) # sacks_array_snd s' \<and>
      nxtSendpacketid s' = ucast (hd (sacks_array_snd s'))"
    and "\<not> FAST_RECOVERY s \<Longrightarrow> s' = s\<lparr>nxtSendpacketid := nxtSendpacketid s + 1\<rparr>"
  using assms by (auto simp: swift_next_def split: list.splits if_splits)

text \<open>The cases of an activation that returns.\<close>

lemma swift_send_one_cases:
  assumes "swift_send_one now s = Inr (again, s', es)"
  obtains i c es1 es2 s2 where "map_get (sender_packetMap s) (map_key (int_packetid (nxtSendpacketid s))) = Some i"
    and "es = SendDown (swift_packet now (int_packetid (nxtSendpacketid s)) c i) # es1 @ es2" and "quiet es1" and "quiet es2"
    and "s2 = (note_packet i s)\<lparr>sw_timeout := sw_timeout s2\<rparr>" and "0 \<le> RTO s"
    and "\<not> again \<and> s' = s2\<lparr>pk_state := STOPPING\<rparr> \<and> map_get (sender_packetMap s) (map_key (nxtSendpacketid s + 1)) = None \<or>
         map_get (sender_packetMap s) (map_key (nxtSendpacketid s + 1)) \<noteq> None \<and>
         (\<exists>s3. swift_next s2 = Inr s3 \<and>
            (again \<and> s' = s3 \<and> 1 \<le> snd_cwnd s \<and> swift_room s3 \<or>
             \<not> again \<and> s' = s3\<lparr>pk_state := PAUSING\<rparr> \<and> 1 \<le> snd_cwnd s \<and> \<not> swift_room s3 \<or>
             \<not> again \<and> snd_cwnd s < 1 \<and> s' = s3\<lparr>senddata := Some (now + pacing_delay s3)\<rparr>))"
proof -
  let ?n = "int_packetid (nxtSendpacketid s)"
  from assms obtain i where i: "map_get (sender_packetMap s) (map_key ?n) = Some i"
    by (auto simp: swift_send_one_def Let_def split: option.splits)
  let ?s1 = "note_packet i s" and ?p = "swift_packet now ?n (pk_last_creation_time (note_packet i s)) i"
  from assms i obtain s2 es1 where r: "swift_rearm_timeout now ?s1 = Inr (s2, es1)"
    and t: "(if map_get (sender_packetMap s2) (map_key (nxtSendpacketid s2 + 1)) = None then
              Inr (False, s2\<lparr>pk_state := STOPPING\<rparr>, SendDown ?p # es1)
            else
              rbind (swift_next s2) (\<lambda>s3.
                if snd_cwnd s3 \<ge> 1 then
                  (if snd_cwnd s3 - of_nat (unat (nxtSendpacketid s3 - snd_una s3)) > 0 then Inr (True, s3, SendDown ?p # es1)
                   else Inr (False, s3\<lparr>pk_state := PAUSING\<rparr>, SendDown ?p # es1))
                else
                  rbind (rescheduleSenddata now (now + pacing_delay s3) s3) (\<lambda>(s4, es4).
                    Inr (False, s4, SendDown ?p # es1 @ es4)))) = Inr (again, s', es)"
    by (auto simp: swift_send_one_def Let_def rbind_eq_Inr)
  note s2 = swift_rearm_Inr[OF r]
  have f: "sender_packetMap s2 = sender_packetMap s" "nxtSendpacketid s2 = nxtSendpacketid s" "snd_cwnd s2 = snd_cwnd s"
    by (subst s2(1), simp)+
  have R: "0 \<le> RTO s" using s2(3) by simp
  show thesis
  proof (cases "map_get (sender_packetMap s2) (map_key (nxtSendpacketid s2 + 1)) = None")
    case True
    with t show thesis by (intro that[OF i _ s2(2) _ s2(1) R, of _ "[]"]) (auto simp: f(1,2))
  next
    case False
    with t obtain s3 where n: "swift_next s2 = Inr s3" and
      u: "(if snd_cwnd s3 \<ge> 1 then
            (if snd_cwnd s3 - of_nat (unat (nxtSendpacketid s3 - snd_una s3)) > 0 then Inr (True, s3, SendDown ?p # es1)
             else Inr (False, s3\<lparr>pk_state := PAUSING\<rparr>, SendDown ?p # es1))
          else rbind (rescheduleSenddata now (now + pacing_delay s3) s3) (\<lambda>(s4, es4).
                 Inr (False, s4, SendDown ?p # es1 @ es4))) = Inr (again, s', es)"
      by (auto simp: rbind_eq_Inr)
    have w: "snd_cwnd s3 = snd_cwnd s" by (subst swift_next_Inr(1)[OF n]) (simp add: f)
    show thesis
    proof (cases "snd_cwnd s3 \<ge> 1")
      case True
      with u n False w show thesis
        by (intro that[OF i _ s2(2) _ s2(1) R, of _ "[]"]) (auto simp: f(1,2) swift_room_def split: if_splits)
    next
      case nw: False
      with u obtain s4 es4 where a: "rescheduleSenddata now (now + pacing_delay s3) s3 = Inr (s4, es4)"
        and e: "again = False" "s' = s4" "es = SendDown ?p # es1 @ es4" by (auto simp: rbind_eq_Inr)
      from reschedule_Inr[OF a] e n False w nw show thesis
        by (intro that[OF i e(3) s2(2) _ s2(1) R]) (auto simp: f(1,2))
    qed
  qed
qed

lemma swift_send_one_window:
  assumes "swift_send_one now s = Inr (again, s', es)"
  shows "swift_same_window s s'"
  using assms
proof (rule swift_send_one_cases)
  fix i s2
  assume s2: "s2 = (note_packet i s)\<lparr>sw_timeout := sw_timeout s2\<rparr>"
    and t: "\<not> again \<and> s' = s2\<lparr>pk_state := STOPPING\<rparr> \<and> map_get (sender_packetMap s) (map_key (nxtSendpacketid s + 1)) = None \<or>
         map_get (sender_packetMap s) (map_key (nxtSendpacketid s + 1)) \<noteq> None \<and>
         (\<exists>s3. swift_next s2 = Inr s3 \<and>
            (again \<and> s' = s3 \<and> 1 \<le> snd_cwnd s \<and> swift_room s3 \<or>
             \<not> again \<and> s' = s3\<lparr>pk_state := PAUSING\<rparr> \<and> 1 \<le> snd_cwnd s \<and> \<not> swift_room s3 \<or>
             \<not> again \<and> snd_cwnd s < 1 \<and> s' = s3\<lparr>senddata := Some (now + pacing_delay s3)\<rparr>))"
  have a: "swift_same_window s s2" by (subst s2) (simp add: swift_same_window_def)
  have b: "swift_next s2 = Inr s3 \<Longrightarrow> swift_same_window s2 s3" for s3
    by (drule swift_next_Inr(1), erule ssubst) (simp add: swift_same_window_def)
  have c: "swift_same_window s s3 \<Longrightarrow> swift_same_window s (s3\<lparr>pk_state := st\<rparr>)" "swift_same_window s s3 \<Longrightarrow> swift_same_window s (s3\<lparr>senddata := d\<rparr>)" for s3 st d
    by (simp_all add: swift_same_window_def)
  from t swift_same_window_trans[OF a b] a c show ?thesis by blast
qed

text \<open>A swift_stuck activation calls itself in a swift_stuck state, so that no call returns.\<close>

lemma stuck_again:
  assumes "swift_stuck s"
  shows "\<exists>s' es. swift_send_one now s = Inr (True, s', es) \<and> swift_stuck s'"
proof -
  from assms obtain i j where
    i: "map_get (sender_packetMap s) (map_key (int_packetid (nxtSendpacketid s))) = Some i"
    and j: "map_get (sender_packetMap s) (map_key (nxtSendpacketid s + 1)) = Some j"
    by (auto simp: swift_stuck_def swift_next_filed_def)
  let ?s = "(note_packet i s)\<lparr>sw_timeout := Some (now + RTO s)\<rparr>"
  have "swift_stuck ?s" using assms by (simp add: swift_stuck_def swift_next_filed_def swift_room_def)
  moreover have "\<exists>es. swift_send_one now s = Inr (True, ?s, es)"
    using assms i j by (simp add: swift_send_one_def swift_rearm_timeout_def swift_next_def swift_stuck_def swift_room_def Let_def)
  ultimately show ?thesis by blast
qed

lemma stuck_diverges: "swift_stuck s \<Longrightarrow> swift_sends now s = None"
proof (rule ccontr)
  assume "swift_stuck s" "swift_sends now s \<noteq> None"
  then obtain r where "swift_sends now s = Some r" by auto
  then have "\<not> swift_stuck s"
  proof (rule swift_sends.raw_induct[rotated])
    fix f now s r
    assume ih: "\<And>now s r. f now s = Some r \<Longrightarrow> \<not> swift_stuck s"
      and r: "(case swift_send_one now s of Inl e \<Rightarrow> Some (Inl e)
        | Inr (again, s1, es) \<Rightarrow> if again then Option.bind (f now s1) (\<lambda>r. Some (rbind r (\<lambda>(s2, es2). Inr (s2, es @ es2))))
            else Some (Inr (s1, es))) = Some r"
    show "\<not> swift_stuck s"
    proof
      assume "swift_stuck s"
      from stuck_again[OF this] obtain s' es where "swift_send_one now s = Inr (True, s', es)" "swift_stuck s'" by blast
      with r ih show False by (auto simp: bind_eq_Some_conv)
    qed
  qed
  with \<open>swift_stuck s\<close> show False by blast
qed

text \<open>Every other call returns: without a recovery the window fills up, in a recovery the gaps run out.\<close>

definition calls_left :: "swift \<Rightarrow> nat" where
  "calls_left s = (if FAST_RECOVERY s then length (sacks_array_snd s) else unat (snd_una s - 2 - nxtSendpacketid s))"

lemma room_calls:
  fixes n u :: u64
  assumes "of_nat (unat (n + 1 - u)) < w" and "w \<le> 2 ^ 64 - (1 :: double)"
  shows "unat (u - 2 - (n + 1)) < unat (u - 2 - n)"
proof -
  let ?e = "u - 2 - (n + 1)"
  have "1 + ?e \<noteq> 0"
  proof
    assume "1 + ?e = 0"
    then have d: "n + 1 - u = - 1" by (simp add: algebra_simps)
    have "(of_nat (unat (- 1 :: u64)) :: double) = 2 ^ 64 - 1" by (simp add: unsigned_minus_1_eq_mask mask_eq_exp_minus_1)
    with assms show False unfolding d by linarith
  qed
  then have S: "unat (1 + ?e) = Suc (unat ?e)" by (rule unatSuc)
  have e: "u - 2 - n = 1 + ?e" by simp
  show ?thesis by (subst e) (simp only: S lessI)
qed

lemma call_descends:
  assumes "swift_send_one now s = Inr (True, s', es)" and "snd_cwnd s \<le> 2 ^ 64 - 1" and "\<not> (FAST_RECOVERY s \<and> sacks_array_snd s = [])"
  shows "calls_left s' < calls_left s \<and> \<not> (FAST_RECOVERY s' \<and> sacks_array_snd s' = [])"
  using assms(1)
proof (rule swift_send_one_cases)
  fix i s2
  assume s2: "s2 = (note_packet i s)\<lparr>sw_timeout := sw_timeout s2\<rparr>"
    and t: "\<not> True \<and> s' = s2\<lparr>pk_state := STOPPING\<rparr> \<and> map_get (sender_packetMap s) (map_key (nxtSendpacketid s + 1)) = None \<or>
         map_get (sender_packetMap s) (map_key (nxtSendpacketid s + 1)) \<noteq> None \<and>
         (\<exists>s3. swift_next s2 = Inr s3 \<and>
            (True \<and> s' = s3 \<and> 1 \<le> snd_cwnd s \<and> swift_room s3 \<or>
             \<not> True \<and> s' = s3\<lparr>pk_state := PAUSING\<rparr> \<and> 1 \<le> snd_cwnd s \<and> \<not> swift_room s3 \<or>
             \<not> True \<and> snd_cwnd s < 1 \<and> s' = s3\<lparr>senddata := Some (now + pacing_delay s3)\<rparr>))"
  then have n: "swift_next s2 = Inr s'" and r: "swift_room s'" by auto
  have f: "FAST_RECOVERY s2 = FAST_RECOVERY s" "sacks_array_snd s2 = sacks_array_snd s" "nxtSendpacketid s2 = nxtSendpacketid s"
    by (subst s2, simp)+
  have w: "FAST_RECOVERY s' = FAST_RECOVERY s" "snd_cwnd s' = snd_cwnd s" "snd_una s' = snd_una s"
    using swift_send_one_window[OF assms(1)] by (simp_all add: swift_same_window_def)
  show ?thesis
  proof (cases "FAST_RECOVERY s")
    case True
    with swift_next_Inr(3)[OF n] f assms(3) have "sacks_array_snd s = hd (sacks_array_snd s) # sacks_array_snd s'" "sacks_array_snd s' \<noteq> []" by auto
    then show ?thesis using True w(1) by (metis calls_left_def length_Cons lessI)
  next
    case False
    with swift_next_Inr(4)[OF n] f have "nxtSendpacketid s' = nxtSendpacketid s + 1" by simp
    with False w r room_calls[of "nxtSendpacketid s" "snd_una s" "snd_cwnd s"] assms(2) show ?thesis
      by (simp add: calls_left_def swift_room_def)
  qed
qed

lemma send_returns:
  "snd_cwnd s \<le> 2 ^ 64 - 1 \<Longrightarrow> \<not> (FAST_RECOVERY s \<and> sacks_array_snd s = []) \<Longrightarrow> swift_sends now s \<noteq> None"
proof (induction s rule: measure_induct_rule[of calls_left])
  case (less s)
  show ?case
  proof (cases "swift_send_one now s")
    case (Inl e)
    then show ?thesis by (subst swift_sends.simps) simp
  next
    case (Inr r)
    then obtain again s1 es where r: "swift_send_one now s = Inr (again, s1, es)" by (cases r) auto
    show ?thesis
    proof (cases again)
      case True
      note r = r[unfolded eqTrueI[OF True]]
      from call_descends[OF r less.prems] less.IH[of s1] less.prems(1) swift_send_one_window[OF r]
      have "swift_sends now s1 \<noteq> None" by (simp add: swift_same_window_def)
      with r show ?thesis by (subst swift_sends.simps) (auto simp: Option.bind_eq_None_conv)
    next
      case False
      with r show ?thesis by (subst swift_sends.simps) simp
    qed
  qed
qed

lemma send_one_progress: "swift_send_one now s \<noteq> Inl NoProgress"
  by (auto simp: swift_send_one_def swift_rearm_timeout_def swift_next_def rescheduleSenddata_def scheduleSenddata_def Let_def
      split: option.splits list.splits)

lemma sends_progress:
  assumes "swift_sends now s = Some r"
  shows "r \<noteq> Inl NoProgress"
  using assms
proof (rule swift_sends.raw_induct[rotated])
  fix f now s r
  assume ih: "\<And>now s r. f now s = Some r \<Longrightarrow> r \<noteq> Inl NoProgress"
    and r: "(case swift_send_one now s of Inl e \<Rightarrow> Some (Inl e)
      | Inr (again, s1, es) \<Rightarrow> if again then Option.bind (f now s1) (\<lambda>r. Some (rbind r (\<lambda>(s2, es2). Inr (s2, es @ es2))))
          else Some (Inr (s1, es))) = Some r"
  show "r \<noteq> Inl NoProgress"
  proof (cases "swift_send_one now s")
    case (Inl e)
    with r send_one_progress[of now s] show ?thesis by auto
  next
    case (Inr q)
    obtain again s1 es where q: "q = (again, s1, es)" by (cases q)
    show ?thesis
    proof (cases again)
      case True
      with r Inr q obtain v where v: "f now s1 = Some v" "r = rbind v (\<lambda>(s2, es2). Inr (s2, es @ es2))"
        by (auto simp: bind_eq_Some_conv)
      from ih[OF v(1)] v(2) show ?thesis by (cases v) auto
    next
      case False
      with r Inr q show ?thesis by auto
    qed
  qed
qed

lemma send_data_progress: "SWIFT_send_data now s = Inl NoProgress \<longleftrightarrow> swift_sends now s = None"
  using sends_progress[of now s] by (auto simp: SWIFT_send_data_def split: option.splits)

text \<open>Outside of a swift_stuck state, an activation in a recovery without gaps is the last one.\<close>

lemma idle_recovery_returns:
  assumes "FAST_RECOVERY s" and "sacks_array_snd s = []" and "\<not> swift_stuck s"
  shows "swift_sends now s \<noteq> None"
proof (cases "swift_send_one now s")
  case (Inl e)
  then show ?thesis by (subst swift_sends.simps) simp
next
  case (Inr r)
  then obtain again s1 es where r: "swift_send_one now s = Inr (again, s1, es)" by (cases r) auto
  have "\<not> again"
    using r
  proof (rule swift_send_one_cases, goal_cases)
    case (1 i c es1 es2 s2)
    show ?case
    proof
      assume again
      with 1 obtain s3 where n: "swift_next s2 = Inr s3" "swift_room s3" "1 \<le> snd_cwnd s" by auto
      have f: "FAST_RECOVERY s2 = FAST_RECOVERY s" "sacks_array_snd s2 = sacks_array_snd s" "swift_room s2 = swift_room s"
        by (subst 1(5), simp add: swift_room_def)+
      with swift_next_Inr(2)[OF n(1)] assms(1,2) n(2) have "swift_room s" by simp
      with assms n(3) 1 \<open>again\<close> show False by (auto simp: swift_stuck_def swift_next_filed_def)
    qed
  qed
  with r show ?thesis by (subst swift_sends.simps) simp
qed

lemma swift_send_ends: "snd_cwnd s \<le> 2 ^ 64 - 1 \<Longrightarrow> SWIFT_send_data now s = Inl NoProgress \<longleftrightarrow> swift_stuck s"
  unfolding send_data_progress using send_returns stuck_diverges idle_recovery_returns by blast

subsection \<open>What a send does\<close>

text \<open>Data packets go down, nothing goes up.\<close>

definition sends_data :: "cc_effect list \<Rightarrow> bool" where
  "sends_data es \<longleftrightarrow> (\<forall>u. SendUp u \<notin> set es) \<and> (\<forall>q. SendDown q \<in> set es \<longrightarrow> (\<exists>now n c i. q = swift_packet now n c i))"

lemma sends_data_simps [simp]:
  "sends_data []" "sends_data (es @ es') \<longleftrightarrow> sends_data es \<and> sends_data es'" "sends_data (Cancel tm # es) = sends_data es"
  "sends_data (Arm tm t # es) = sends_data es"
  by (auto simp: sends_data_def)

lemma quiet_sends: "quiet es \<Longrightarrow> sends_data es"
  by (simp add: quiet_def sends_data_def)

lemma swift_send_one_run:
  assumes "swift_send_one now s = Inr (again, s', es)"
  shows "sends_data es"
  using assms
proof (rule swift_send_one_cases)
  fix c i es1 es2
  assume e: "es = SendDown (swift_packet now (int_packetid (nxtSendpacketid s)) c i) # es1 @ es2" "quiet es1" "quiet es2"
  then show ?thesis using quiet_sends[of "es1 @ es2"] by (auto simp: sends_data_def)
qed

lemma swift_send_data_run:
  assumes "SWIFT_send_data now s = Inr (s', es)"
  shows "swift_same_window s s' \<and> sends_data es"
proof -
  from assms have "swift_sends now s = Some (Inr (s', es))" by (auto simp: SWIFT_send_data_def split: option.splits)
  moreover have "swift_sends now s = Some r \<Longrightarrow> (case r of Inl e \<Rightarrow> True | Inr (s', es) \<Rightarrow> swift_same_window s s' \<and> sends_data es)" for r
  proof (rule swift_sends.raw_induct[rotated], assumption)
    fix f now s r
    assume ih: "\<And>now s r. f now s = Some r \<Longrightarrow> (case r of Inl e \<Rightarrow> True | Inr (s', es) \<Rightarrow> swift_same_window s s' \<and> sends_data es)"
      and r: "(case swift_send_one now s of Inl e \<Rightarrow> Some (Inl e)
        | Inr (again, s1, es) \<Rightarrow> if again then Option.bind (f now s1) (\<lambda>r. Some (rbind r (\<lambda>(s2, es2). Inr (s2, es @ es2))))
            else Some (Inr (s1, es))) = Some r"
    show "(case r of Inl e \<Rightarrow> True | Inr (s', es) \<Rightarrow> swift_same_window s s' \<and> sends_data es)"
    proof (cases "swift_send_one now s")
      case (Inl e)
      with r show ?thesis by auto
    next
      case (Inr q)
      obtain again s1 es where q: "q = (again, s1, es)" by (cases q)
      note one = swift_send_one_window[OF Inr[unfolded q]] swift_send_one_run[OF Inr[unfolded q]]
      show ?thesis
      proof (cases again)
        case True
        with r Inr q obtain v where v: "f now s1 = Some v" "r = rbind v (\<lambda>(s2, es2). Inr (s2, es @ es2))"
          by (auto simp: bind_eq_Some_conv)
        from ih[OF v(1)] v(2) one show ?thesis by (cases v) (auto intro: swift_same_window_trans)
      next
        case False
        with r Inr q one show ?thesis by auto
      qed
    qed
  qed
  ultimately show ?thesis by fastforce
qed

subsection \<open>What an acknowledgement does\<close>

text \<open>What acknowledgements and timeouts leave alone; a recovery is never left.\<close>

definition sender_frame :: "swift \<Rightarrow> swift \<Rightarrow> bool" where
  "sender_frame s s' \<longleftrightarrow> receiver_Map s' = receiver_Map s \<and> max_cwnd s' = max_cwnd s \<and> (FAST_RECOVERY s \<longrightarrow> FAST_RECOVERY s')"

lemma sender_frame_trans: "sender_frame s t \<Longrightarrow> sender_frame t u \<Longrightarrow> sender_frame s u"
  by (simp add: sender_frame_def)

lemma swift_same_window_frame: "swift_same_window s s' \<Longrightarrow> sender_frame s s'"
  by (simp add: swift_same_window_def sender_frame_def)

lemma swift_recover_Inr:
  assumes "swift_recover now s = Inr (s', es)"
  shows "sender_frame s s' \<and> FAST_RECOVERY s' \<and> snd_cwnd s' = snd_cwnd s \<and> sends_data es"
proof -
  from assms obtain g :: u32 where "SWIFT_send_data now
      (s\<lparr>retransmit_cnt := 0, num_dupack := 0, num_acked := 0, FAST_RECOVERY := True,
         pre_snd := of_nat (unat (nxtSendpacketid s)), nxtSendpacketid := ucast g\<rparr>) = Inr (s', es)"
    by (auto simp: swift_recover_def split: list.splits)
  from swift_send_data_run[OF this] show ?thesis by (auto simp: swift_same_window_def sender_frame_def)
qed

lemma swift_sacked_Inr:
  assumes "swift_sacked now ackid items s = Inr (s', es)"
  shows "sender_frame s s' \<and> snd_cwnd s' = snd_cwnd s \<and> sends_data es"
proof -
  have n: "sender_frame s (swift_note_sack ackid items s)" "snd_cwnd (swift_note_sack ackid items s) = snd_cwnd s"
    by (simp_all add: swift_note_sack_def sender_frame_def)
  from assms swift_recover_Inr[of now "swift_note_sack ackid items s" s' es] n show ?thesis
    by (auto simp: swift_sacked_def Let_def split: if_splits intro: sender_frame_trans)
qed

lemma swift_adapt_Inr:
  assumes "swift_adapt cfg s = Inr s'"
  shows "sender_frame s s' \<and> sacks_array_snd s' = sacks_array_snd s \<and> (\<exists>v. snd_cwnd s' = clamp v swift_min_cwnd (max_cwnd s))"
proof -
  define a b where "a = (if snd_cwnd s \<ge> 1 then snd_cwnd s + ai cfg / snd_cwnd s * of_int (num_acked s) else snd_cwnd s + ai cfg * of_int (num_acked s))"
    and "b t = max (1 - swift_beta cfg * (currentRTT s - t) / currentRTT s) (1 - max_mdf cfg) * snd_cwnd s" for t
  from assms obtain t where "s' = s\<lparr>snd_cwnd := clamp a swift_min_cwnd (max_cwnd s)\<rparr> \<or>
      s' = s\<lparr>snd_cwnd := clamp (b t) swift_min_cwnd (max_cwnd s), can_decrease := False\<rparr> \<or>
      s' = s\<lparr>snd_cwnd := clamp (snd_cwnd s) swift_min_cwnd (max_cwnd s)\<rparr>"
    unfolding swift_adapt_def Let_def a_def[symmetric] b_def[symmetric] rbind_eq_Inr by (auto split: if_splits)
  then show ?thesis unfolding sender_frame_def by (elim disjE) (simp, blast)+
qed

lemma swift_pace_Inr:
  assumes "swift_pace s = Inr s'"
  shows "s' = s\<lparr>pacing_delay := pacing_delay s'\<rparr>"
  using assms by (auto simp: swift_pace_def split: if_splits)

lemma swift_react_Inr:
  assumes "swift_react cfg now w s = Inr (s', es)"
  shows "sender_frame s s' \<and> sacks_array_snd s' = sacks_array_snd s \<and> (\<exists>v. snd_cwnd s' = clamp v swift_min_cwnd (max_cwnd s)) \<and> quiet es"
proof -
  from assms obtain s1 s2 es1 where a: "swift_adapt cfg (swift_rto s) = Inr s1"
    and p: "swift_pace (if snd_cwnd s1 < w then s1\<lparr>t_last_decrease := now\<rparr> else s1) = Inr s2"
    and r: "swift_resume now s2 = Inr (s', es1)" and e: "es = Cancel TimeoutTimer # es1"
    by (auto simp: swift_react_def rbind_eq_Inr)
  have s0: "sender_frame s (swift_rto s)" "max_cwnd (swift_rto s) = max_cwnd s" "sacks_array_snd (swift_rto s) = sacks_array_snd s" by (simp_all add: swift_rto_def Let_def sender_frame_def)
  have s2: "sender_frame s1 s2" "snd_cwnd s2 = snd_cwnd s1" "sacks_array_snd s2 = sacks_array_snd s1" by (subst swift_pace_Inr[OF p], simp add: sender_frame_def)+
  have s3: "sender_frame s2 s' \<and> snd_cwnd s' = snd_cwnd s2 \<and> sacks_array_snd s' = sacks_array_snd s2 \<and> quiet es1"
  proof (cases "pk_state s2 = PAUSING")
    case True
    with r reschedule_Inr[of now now "s2\<lparr>pk_state := SENDING\<rparr>" s' es1] show ?thesis by (simp add: swift_resume_def sender_frame_def)
  next
    case False
    with r show ?thesis by (simp add: swift_resume_def sender_frame_def)
  qed
  from swift_adapt_Inr[OF a] s0 s2 s3 show ?thesis by (auto simp: e intro: sender_frame_trans)
qed

lemma swift_ack_Inr:
  assumes "SWIFT_receive_ack cfg now p s = Inr (s', es)"
  shows "p_tags p \<noteq> []" and "sender_frame s s'" and "sends_data es" and "\<exists>v. snd_cwnd s' = clamp v swift_min_cwnd (max_cwnd s)"
proof -
  from assms show t: "p_tags p \<noteq> []" by (auto simp: SWIFT_receive_ack_def last_tag_def packet.truncate_def)
  let ?s1 = "s\<lparr>currentRTT := now - d_time p, can_decrease := (if d_time p \<ge> t_last_decrease s then True else can_decrease s)\<rparr>"
  from assms obtain s2 es1 es2 where o: "swift_sort_ack now p (number_of (ht_packetid (last (p_tags p)))) ?s1 = Inr (s2, es1)"
    and r: "swift_react cfg now (snd_cwnd s) s2 = Inr (s', es2)" and e: "es = es1 @ es2"
    by (auto simp: SWIFT_receive_ack_def tag_of_truncate[OF t] Let_def rbind_eq_Inr)
  have s1: "sender_frame s ?s1" by (simp add: sender_frame_def)
  have s2: "sender_frame ?s1 s2 \<and> sends_data es1"
    using o swift_sacked_Inr[of now "word_of_int (number_of (ht_packetid (last (p_tags p))))" _ ?s1 s2 es1]
    by (auto simp: swift_sort_ack_def swift_acked_def sender_frame_def Let_def split: if_splits option.splits)
  from s1 s2 swift_react_Inr[OF r] show "sender_frame s s'" by (blast intro: sender_frame_trans)
  from s2 swift_react_Inr[OF r] show "sends_data es" by (simp add: e quiet_sends)
  from s2 swift_react_Inr[OF r] show "\<exists>v. snd_cwnd s' = clamp v swift_min_cwnd (max_cwnd s)" by (simp add: sender_frame_def)
qed

lemma swift_timeout_Inr:
  assumes "SWIFT_time_out cfg now s = Inr (s', es)"
  shows "sender_frame s s' \<and> quiet es \<and>
     snd_cwnd s' \<in> {snd_cwnd s, swift_min_cwnd, (1 - max_mdf cfg) * snd_cwnd s, (1 - max_mdf cfg) * swift_min_cwnd}"
proof -
  let ?s1 = "s\<lparr>retransmit_cnt := retransmit_cnt s + 1\<rparr>"
  let ?s2 = "if retransmit_cnt ?s1 > 5 then ?s1\<lparr>snd_cwnd := swift_min_cwnd\<rparr> else ?s1"
  let ?s3 = "if can_decrease ?s2 then ?s2\<lparr>snd_cwnd := (1 - max_mdf cfg) * snd_cwnd ?s2, can_decrease := False\<rparr> else ?s2"
  from assms obtain s4 where p: "swift_pace ?s3 = Inr s4"
    and r: "(let s5 = s4\<lparr>RTO := RTO s4 * 2\<rparr> in
           if pk_state s5 \<noteq> STOPPING then
             rbind (scheduleSenddata now now (s5\<lparr>nxtSendpacketid := snd_una s5, senddata := None, sw_timeout := None\<rparr>)) (\<lambda>(s6, es).
               Inr (s6, Cancel SendDataTimer # Cancel TimeoutTimer # es))
           else Inr (s5, [])) = Inr (s', es)"
    unfolding SWIFT_time_out_def Let_def rbind_eq_Inr[of "swift_pace _"] by blast
  have s4: "sender_frame s s4 \<and> snd_cwnd s4 \<in> {snd_cwnd s, swift_min_cwnd, (1 - max_mdf cfg) * snd_cwnd s, (1 - max_mdf cfg) * swift_min_cwnd}"
    by (subst swift_pace_Inr[OF p], simp add: sender_frame_def)+
  from r have "sender_frame s4 s' \<and> snd_cwnd s' = snd_cwnd s4 \<and> quiet es"
    by (auto simp: Let_def rbind_eq_Inr scheduleSenddata_def sender_frame_def split: if_splits)
  with s4 show ?thesis by (auto intro: sender_frame_trans)
qed

subsection \<open>The cases of a step\<close>

interpretation swift_start: packet_starter map_key "rescheduleSenddata now now" for now
  by unfold_locales (auto simp: rescheduleSenddata_def scheduleSenddata_def split: if_splits)

lemma swift_step_cases:
  assumes "SWIFT_handleMessage cfg x s = Inr (s', es)"
  obtains (request) now p M k st d where "x = (now, Upper p)"
      and "s' = s\<lparr>sender_packetMap := M, packetid := k, pk_state := st, senddata := d\<rparr>" and "quiet es \<or> es = [SendDown p]"
    | (receive) now p where "x = (now, Lower p)" and "contains ''SWIFTData'' (p_name p)" and "SWIFT_receive_data p s = Inr (s', es)"
    | (ack) now p where "x = (now, Lower p)" and "\<not> contains ''SWIFTData'' (p_name p)" and "contains ''ACK'' (p_name p)"
        and "SWIFT_receive_ack cfg now p s = Inr (s', es)"
    | (pass) now p where "x = (now, Lower p)" and "\<not> contains ''SWIFTData'' (p_name p)" and "s' = s" and "es = [SendUp p]"
    | (send) now where "x = (now, Fire SendDataTimer)" and "SWIFT_send_data now (s\<lparr>senddata := None\<rparr>) = Inr (s', es)"
    | (timeout) now where "x = (now, Fire TimeoutTimer)" and "SWIFT_time_out cfg now (s\<lparr>sw_timeout := None\<rparr>) = Inr (s', es)"
    | (idle) now tm st d where "x = (now, Fire tm)" and "s' = s\<lparr>senddata := d, pk_state := st\<rparr>" and "es = []"
proof -
  obtain now e where x: "x = (now, e)" by (cases x)
  show thesis
  proof (cases e)
    case (Upper p)
    show ?thesis
    proof (cases "contains ''Data'' (p_name p)")
      case True
      with assms x Upper have u: "packet_upper map_key (rescheduleSenddata now now) (activate cfg) (max_pck_size cfg) p s = Inr (s', es)"
        by (simp add: SWIFT_processUpperpck_def)
      from swift_start.upper_shape[OF u] swift_start.upper_sends[OF u] x Upper request show ?thesis by blast
    next
      case False
      with assms x Upper have "s' = s" "es = [SendDown p]" by auto
      with x Upper show ?thesis
        by (intro request[where now = now and p = p and M = "sender_packetMap s" and k = "packetid s" and st = "pk_state s" and d = "senddata s"]) simp_all
    qed
  next
    case (Lower p)
    with assms x receive ack pass show ?thesis by (auto simp: SWIFT_processLowerpck_def split: if_splits)
  next
    case (Fire tm)
    have same: "s = s\<lparr>senddata := senddata s, pk_state := pk_state s\<rparr>" by simp
    show ?thesis
    proof (cases tm)
      case SendDataTimer
      consider "senddata s = None" | "senddata s \<noteq> None" "now \<ge> stopTime cfg" | "senddata s \<noteq> None" "now < stopTime cfg" by linarith
      then show ?thesis
      proof cases
        case 1
        with assms x Fire SendDataTimer same show ?thesis by (intro idle[of now tm "pk_state s" "senddata s"]) auto
      next
        case 2
        with assms x Fire SendDataTimer have "s' = s\<lparr>senddata := None, pk_state := STOPPING\<rparr>" "es = []" by auto
        with x Fire show ?thesis by (intro idle[of now tm STOPPING None]) simp_all
      next
        case 3
        with assms x Fire SendDataTimer show ?thesis by (intro send) auto
      qed
    next
      case TimeoutTimer
      show ?thesis
      proof (cases "sw_timeout s = None")
        case True
        with assms x Fire TimeoutTimer same show ?thesis by (intro idle[of now tm "pk_state s" "senddata s"]) auto
      next
        case False
        with assms x Fire TimeoutTimer show ?thesis by (intro timeout) auto
      qed
    next
      case (RateTimer k)
      with assms x Fire same show ?thesis by (intro idle[of now tm "pk_state s" "senddata s"]) auto
    next
      case (AlphaTimer k)
      with assms x Fire same show ?thesis by (intro idle[of now tm "pk_state s" "senddata s"]) auto
    next
      case (CnpTimer k)
      with assms x Fire same show ?thesis by (intro idle[of now tm "pk_state s" "senddata s"]) auto
    qed
  qed
qed

subsection \<open>What a data packet does\<close>

text \<open>The number of a data packet, as the receiver keeps it.\<close>

definition number_in :: "dgram \<Rightarrow> u32" where
  "number_in p = word_of_int (number_of (ht_packetid (last (p_tags p))))"

lemma swift_receive_cases:
  assumes "SWIFT_receive_data p s = Inr (s', es)"
  obtains (known) r r' q where "p_tags p \<noteq> []" and "s' = s\<lparr>receiver_Map := map_put (d_src p) r' (receiver_Map s)\<rparr>"
      and "es = [SendDown q, SendUp p]"
      and "map_get (receiver_Map s) (d_src p) = None \<and> r = \<lparr>rcv_nxt = 0, sacks_array = [], acksequence = []\<rparr> \<and>
             number_in p \<noteq> 0 \<and> r' = r\<lparr>sacks_array := [number_in p]\<rparr> \<and> q = swift_sack r' p \<or>
           (map_get (receiver_Map s) (d_src p) = Some r \<or>
            map_get (receiver_Map s) (d_src p) = None \<and> r = \<lparr>rcv_nxt = 0, sacks_array = [], acksequence = []\<rparr>) \<and>
             number_in p = rcv_nxt r \<and>
             (\<exists>nxt seq. advance_rcv (rcv_nxt r + 1) (acksequence r) = (nxt, seq) \<and>
                r' = r\<lparr>rcv_nxt := nxt, acksequence := seq\<rparr> \<and> q = swift_ack (nxt - 1) p) \<or>
           map_get (receiver_Map s) (d_src p) = Some r \<and> number_in p > rcv_nxt r \<and>
             r' = r\<lparr>acksequence := acksequence r @ [number_in p],
                sacks_array := drop_repeated (number_in p # drop_old (rcv_nxt r) (sacks_array r))\<rparr> \<and> q = swift_sack r' p"
    | (old) r where "p_tags p \<noteq> []" and "map_get (receiver_Map s) (d_src p) = Some r" and "number_in p < rcv_nxt r"
        and "s' = s" and "es = []"
proof -
  from assms have t: "p_tags p \<noteq> []" by (auto simp: SWIFT_receive_data_def last_tag_def packet.truncate_def)
  note a = assms[unfolded SWIFT_receive_data_def tag_of_truncate[OF t] rbind_Inr Let_def, folded number_in_def]
  show thesis
  proof (cases "map_get (receiver_Map s) (d_src p)")
    case None
    have adv: "advance_rcv 1 [] = (1, [])" by (simp add: advance_rcv.simps)
    show thesis
    proof (cases "number_in p = 0")
      case True
      with a None have e: "s' = s\<lparr>receiver_Map := map_put (d_src p) \<lparr>rcv_nxt = 1, sacks_array = [], acksequence = []\<rparr> (receiver_Map s)\<rparr>"
        "es = [SendDown (swift_ack 0 p), SendUp p]" by (auto simp: True)
      show thesis by (rule known[OF t e]) (use None True adv in auto)
    next
      case False
      let ?r = "\<lparr>rcv_nxt = 0, sacks_array = [number_in p], acksequence = []\<rparr>"
      from a None False have e: "s' = s\<lparr>receiver_Map := map_put (d_src p) ?r (receiver_Map s)\<rparr>"
        "es = [SendDown (swift_sack ?r p), SendUp p]" by auto
      show thesis by (rule known[OF t e, of "\<lparr>rcv_nxt = 0, sacks_array = [], acksequence = []\<rparr>"]) (use None False in auto)
    qed
  next
    case (Some r)
    obtain nxt seq where adv: "advance_rcv (rcv_nxt r + 1) (acksequence r) = (nxt, seq)" by fastforce
    consider "number_in p = rcv_nxt r" | "number_in p > rcv_nxt r" | "number_in p < rcv_nxt r" by (rule linorder_cases)
    then show thesis
    proof cases
      case 1
      let ?r = "r\<lparr>rcv_nxt := nxt, acksequence := seq\<rparr>"
      from a Some 1 adv have e: "s' = s\<lparr>receiver_Map := map_put (d_src p) ?r (receiver_Map s)\<rparr>"
        "es = [SendDown (swift_ack (nxt - 1) p), SendUp p]" by auto
      show thesis by (rule known[OF t e, of r]) (use Some 1 adv in auto)
    next
      case 2
      let ?r = "r\<lparr>acksequence := acksequence r @ [number_in p],
                sacks_array := drop_repeated (number_in p # drop_old (rcv_nxt r) (sacks_array r))\<rparr>"
      have ne: "number_in p \<noteq> rcv_nxt r" using less_imp_neq[OF 2] by simp
      from a 2 have e: "s' = s\<lparr>receiver_Map := map_put (d_src p) ?r (receiver_Map s)\<rparr>"
        "es = [SendDown (swift_sack ?r p), SendUp p]"
        by (simp_all add: Some ne del: drop_repeated.simps)
      show thesis by (rule known[OF t e, of r]) (use Some 2 in blast)
    next
      case 3
      have "number_in p \<noteq> rcv_nxt r" "\<not> number_in p > rcv_nxt r" using less_imp_neq[OF 3] less_not_sym[OF 3] by simp_all
      with a have "s' = s" "es = []" by (simp_all add: Some)
      with old[OF t Some 3] show thesis by blast
    qed
  qed
qed

lemma swift_receive_Inr:
  assumes "SWIFT_receive_data p s = Inr (s', es)"
  obtains M where "s' = s\<lparr>receiver_Map := M\<rparr>"
  using assms
proof (cases rule: swift_receive_cases)
  case (known r r' q)
  from that[OF known(2)] show thesis .
next
  case (old r)
  then show thesis by (intro that[of "receiver_Map s"]) simp
qed

subsection \<open>The window and the recovery\<close>

definition swift_cfg_ok :: "swift_cfg \<Rightarrow> bool" where
  "swift_cfg_ok cfg \<longleftrightarrow> 0 < max_mdf cfg \<and> max_mdf cfg < 1 \<and> swift_min_cwnd \<le> linkspeed cfg * baseRTT cfg / (1526 * 8)"

definition swift_window_inv :: "swift_cfg \<Rightarrow> swift \<Rightarrow> bool" where
  "swift_window_inv cfg s \<longleftrightarrow> swift_cfg_ok cfg \<and> max_cwnd s = linkspeed cfg * baseRTT cfg / (1526 * 8) \<and>
     0 < snd_cwnd s \<and> snd_cwnd s \<le> max_cwnd s"

lemma swift_ack_window:
  assumes "SWIFT_receive_ack cfg now p s = Inr (s', es)" and "swift_window_inv cfg s"
  shows "swift_window_inv cfg s' \<and> swift_min_cwnd \<le> snd_cwnd s'"
proof -
  from swift_ack_Inr(4)[OF assms(1)] obtain v where v: "snd_cwnd s' = clamp v swift_min_cwnd (max_cwnd s)" by blast
  have "swift_min_cwnd \<le> max_cwnd s" using assms(2) by (simp add: swift_window_inv_def swift_cfg_ok_def)
  with clamp_bounds[OF this, of v] v swift_ack_Inr(2)[OF assms(1)] assms(2) show ?thesis
    by (auto simp: swift_window_inv_def sender_frame_def swift_min_cwnd_def)
qed

lemma swift_window_step:
  assumes "SWIFT_handleMessage cfg x s = Inr (s', es)" and "swift_window_inv cfg s"
  shows "swift_window_inv cfg s' \<and> (FAST_RECOVERY s \<longrightarrow> FAST_RECOVERY s')"
  using assms(1)
proof (cases rule: swift_step_cases)
  case (request now p M k st d)
  with assms(2) show ?thesis by (simp add: swift_window_inv_def)
next
  case (receive now p)
  from receive(3) show ?thesis by (rule swift_receive_Inr) (use assms(2) in \<open>simp add: swift_window_inv_def\<close>)
next
  case (ack now p)
  from swift_ack_window[OF ack(4) assms(2)] swift_ack_Inr(2)[OF ack(4)] show ?thesis by (simp add: sender_frame_def)
next
  case (pass now p)
  with assms(2) show ?thesis by simp
next
  case (send now)
  with swift_send_data_run[OF send(2)] assms(2) show ?thesis by (auto simp: swift_window_inv_def swift_same_window_def)
next
  case (timeout now)
  have w: "0 < snd_cwnd s" "snd_cwnd s \<le> max_cwnd s" "0 < 1 - max_mdf cfg" "1 - max_mdf cfg \<le> 1" "swift_min_cwnd \<le> max_cwnd s" "0 < swift_min_cwnd"
    using assms(2) by (auto simp: swift_window_inv_def swift_cfg_ok_def swift_min_cwnd_def)
  note sh = shrink[OF w(1,2,3,4)] shrink[OF w(6,5,3,4)]
  from swift_timeout_Inr[OF timeout(2)] w sh have "0 < snd_cwnd s' \<and> snd_cwnd s' \<le> max_cwnd s" by (auto simp: mult.commute)
  with swift_timeout_Inr[OF timeout(2)] assms(2) show ?thesis by (simp add: swift_window_inv_def sender_frame_def)
next
  case (idle now tm st d)
  with assms(2) show ?thesis by (simp add: swift_window_inv_def)
qed

interpretation swift_window: machine "SWIFT_handleMessage cfg" "\<lambda>s. swift_window_inv cfg s \<and> (b \<longrightarrow> FAST_RECOVERY s)" "\<lambda>_. True" for cfg b
  by unfold_locales (use swift_window_step in blast)

lemma swift_init_window: "swift_cfg_ok cfg \<Longrightarrow> SWIFT_initialize cfg = Inr s \<Longrightarrow> swift_window_inv cfg s"
  by (auto simp: swift_window_inv_def swift_cfg_ok_def SWIFT_initialize_def Let_def swift_min_cwnd_def rbind_eq_Inr)

subsection \<open>What the receiver has passed up\<close>

abbreviation swift_data :: "dgram \<Rightarrow> bool" where
  "swift_data p \<equiv> contains ''SWIFTData'' (p_name p)"

text \<open>The numbers of the data packets from host \<open>a\<close> that went up.\<close>

fun swift_passed :: "int \<Rightarrow> cc_effect list \<Rightarrow> u32 list" where
  "swift_passed a [] = []"
| "swift_passed a (SendUp u # es) = (if swift_data u \<and> d_src u = a then number_in u # swift_passed a es else swift_passed a es)"
| "swift_passed a (_ # es) = swift_passed a es"

lemma swift_passed_append: "swift_passed a (es @ es') = swift_passed a es @ swift_passed a es'"
  by (induction a es rule: swift_passed.induct) auto

lemma less_le_pred: "j < n \<Longrightarrow> j \<le> n - (1 :: u32)"
  using unat_dec[of n] by (cases "n = 0") (auto simp: word_le_nat_alt word_less_nat_alt word_gt_0)

lemma advance_sound:
  "advance_rcv n seq = (nxt, seq') \<Longrightarrow> \<forall>j\<le>n - 1. P j \<Longrightarrow> \<forall>j\<in>set seq. P j \<Longrightarrow> (\<forall>j\<le>nxt - 1. P j) \<and> (\<forall>j\<in>set seq'. P j)"
proof (induction n seq rule: advance_rcv.induct)
  case (1 n seq)
  show ?case
  proof (cases "n \<in> set seq")
    case True
    have "\<forall>j\<le>n + 1 - 1. P j"
    proof (intro allI impI)
      fix j
      assume "j \<le> n + 1 - 1"
      then have "j \<le> n" by simp
      then consider "j = n" | "j < n" by (auto simp: order_le_less)
      then show "P j" using True 1(3,4) less_le_pred by cases blast+
    qed
    moreover have "\<forall>j\<in>set (remove1 n seq). P j" using 1(4) set_remove1_subset[of n seq] by blast
    moreover have "advance_rcv (n + 1) (remove1 n seq) = (nxt, seq')" using True 1(2) by (subst (asm) advance_rcv.simps) simp
    ultimately show ?thesis using True 1(1) by blast
  next
    case False
    with 1(2-4) show ?thesis by (subst (asm) advance_rcv.simps) simp
  qed
qed

lemma drop_repeated_set [simp]: "set (drop_repeated xs) = set xs"
  by (induction xs rule: drop_repeated.induct) auto

lemma drop_repeated_distinct: "distinct (drop_repeated xs)"
  by (induction xs rule: drop_repeated.induct) auto

text \<open>The names of what is sent.\<close>

lemma swift_packet_name: "p_name (swift_packet now n c i) = ''SWIFTData'' @ ''-'' @ digits (unat n)"
  by (simp add: swift_packet_def filed_dgram_def)

lemma swift_packet_no_ack: "\<not> contains ''ACK'' (p_name (swift_packet now n c i))"
proof
  assume "contains ''ACK'' (p_name (swift_packet now n c i))"
  from contains_set[OF this] digits_chars[of "unat n"] show False by (auto simp: swift_packet_name)
qed

lemma swift_ack_facts:
  "contains ''ACK'' (p_name (swift_ack n p))" "\<not> contains ''SACK'' (p_name (swift_ack n p))" "d_dest (swift_ack n p) = d_src p"
  "d_sack (swift_ack n p) = None" "number_in (swift_ack n p) = n" "\<not> swift_data (swift_ack n p)"
proof -
  have nm: "p_name (swift_ack n p) = [] @ ''ACK'' @ (''-'' @ digits (unat n))" by (simp add: swift_ack_def swift_reply_def)
  then show "contains ''ACK'' (p_name (swift_ack n p))" by (simp only: contains_append) blast
  show "\<not> contains ''SACK'' (p_name (swift_ack n p))"
    using contains_set[of "''SACK''" "p_name (swift_ack n p)"] digits_chars[of "unat n"] by (auto simp: nm)
  show "\<not> swift_data (swift_ack n p)"
    using contains_set[of "''SWIFTData''" "p_name (swift_ack n p)"] digits_chars[of "unat n"] by (auto simp: nm)
qed (simp_all add: swift_ack_def swift_reply_def number_in_def number_of_def)

lemma swift_sack_facts:
  "contains ''SACK'' (p_name (swift_sack r p))" "contains ''ACK'' (p_name (swift_sack r p))" "d_dest (swift_sack r p) = d_src p"
  "d_sack (swift_sack r p) = Some (take 4 (sacks_array r))" "number_in (swift_sack r p) = rcv_nxt r" "\<not> swift_data (swift_sack r p)"
proof -
  have nm: "p_name (swift_sack r p) = [] @ ''SACK'' @ (''-'' @ digits (unat (rcv_nxt r)))"
    "p_name (swift_sack r p) = ''S'' @ ''ACK'' @ (''-'' @ digits (unat (rcv_nxt r)))" by (simp_all add: swift_sack_def swift_reply_def)
  from nm(1) show "contains ''SACK'' (p_name (swift_sack r p))" by (simp only: contains_append) blast
  from nm(2) show "contains ''ACK'' (p_name (swift_sack r p))" by (simp only: contains_append) blast
  show "\<not> swift_data (swift_sack r p)"
    using contains_set[of "''SWIFTData''" "p_name (swift_sack r p)"] digits_chars[of "unat (rcv_nxt r)"] by (auto simp: nm(1))
qed (simp_all add: swift_sack_def swift_reply_def number_in_def number_of_def)

text \<open>
  What a receiver knows of a source has been passed up: all below \<open>rcv_nxt\<close>, and the packets it keeps
  the numbers of.  Its acknowledgements say nothing else.
\<close>

definition received_ok :: "swift \<Rightarrow> cc_effect list \<Rightarrow> bool" where
  "received_ok s past \<longleftrightarrow> (\<forall>a r. map_get (receiver_Map s) a = Some r \<longrightarrow>
     (\<forall>j<rcv_nxt r. j \<in> set (swift_passed a past)) \<and> set (acksequence r) \<subseteq> set (swift_passed a past) \<and>
     set (sacks_array r) \<subseteq> set (swift_passed a past))"

definition ack_ok :: "cc_effect list \<Rightarrow> dgram \<Rightarrow> bool" where
  "ack_ok past q \<longleftrightarrow> (\<forall>j<number_in q. j \<in> set (swift_passed (d_dest q) past)) \<and>
     (\<not> contains ''SACK'' (p_name q) \<longrightarrow> number_in q \<in> set (swift_passed (d_dest q) past)) \<and>
     (\<forall>items. d_sack q = Some items \<longrightarrow> (\<forall>j\<in>set items. j \<in> set (swift_passed (d_dest q) past)))"

definition acks_ok :: "cc_effect list \<Rightarrow> bool" where
  "acks_ok past \<longleftrightarrow> (\<forall>q. SendDown q \<in> set past \<longrightarrow> contains ''ACK'' (p_name q) \<longrightarrow> ack_ok past q)"

lemma ack_ok_more: "ack_ok past q \<Longrightarrow> ack_ok (past @ es) q"
  unfolding ack_ok_def swift_passed_append set_append by blast

lemma acks_ok_more:
  assumes "acks_ok past" and "\<And>q. SendDown q \<in> set es \<Longrightarrow> contains ''ACK'' (p_name q) \<Longrightarrow> ack_ok (past @ es) q"
  shows "acks_ok (past @ es)"
  using assms ack_ok_more unfolding acks_ok_def set_append by blast

lemma records_cong:
  assumes "received_ok s past" and "acks_ok past" and "receiver_Map s' = receiver_Map s"
    and "\<And>q. SendDown q \<in> set es \<Longrightarrow> \<not> contains ''ACK'' (p_name q)"
  shows "received_ok s' (past @ es) \<and> acks_ok (past @ es)"
proof
  show "received_ok s' (past @ es)"
    using assms(1) unfolding received_ok_def assms(3) swift_passed_append set_append by blast
  show "acks_ok (past @ es)"
    using assms(2,4) by (blast intro: acks_ok_more)
qed

lemma receive_records:
  assumes "SWIFT_receive_data p s = Inr (s', es)" and "received_ok s past" and "acks_ok past" and "swift_data p"
  shows "received_ok s' (past @ es) \<and> acks_ok (past @ es)"
  using assms(1)
proof (cases rule: swift_receive_cases)
  case (old r)
  with assms(2,3) show ?thesis by simp
next
  case (known r r' q)
  let ?a = "d_src p" and ?P = "\<lambda>j. j \<in> set (swift_passed (d_src p) (past @ es))"
  have up: "swift_passed b es = (if b = ?a then [number_in p] else [])" for b using known(3) assms(4) by simp
  have now: "?P (number_in p)" by (simp add: swift_passed_append up)
  have r: "(\<forall>j<rcv_nxt r. ?P j) \<and> (\<forall>j\<in>set (acksequence r). ?P j) \<and> (\<forall>j\<in>set (sacks_array r). ?P j)"
  proof (cases "map_get (receiver_Map s) ?a = Some r")
    case True
    with assms(2) show ?thesis by (auto simp: received_ok_def swift_passed_append)
  next
    case False
    with known(4) have "r = \<lparr>rcv_nxt = 0, sacks_array = [], acksequence = []\<rparr>" by auto
    then show ?thesis by simp
  qed
  have "((\<forall>j<rcv_nxt r'. ?P j) \<and> (\<forall>j\<in>set (acksequence r'). ?P j) \<and> (\<forall>j\<in>set (sacks_array r'). ?P j)) \<and>
      ack_ok (past @ es) q"
    using known(4)
  proof (elim disjE)
    assume k: "map_get (receiver_Map s) ?a = None \<and> r = \<lparr>rcv_nxt = 0, sacks_array = [], acksequence = []\<rparr> \<and>
             number_in p \<noteq> 0 \<and> r' = r\<lparr>sacks_array := [number_in p]\<rparr> \<and> q = swift_sack r' p"
    with now show ?thesis by (auto simp: swift_sack_facts ack_ok_def)
  next
    assume k: "(map_get (receiver_Map s) ?a = Some r \<or>
            map_get (receiver_Map s) ?a = None \<and> r = \<lparr>rcv_nxt = 0, sacks_array = [], acksequence = []\<rparr>) \<and>
             number_in p = rcv_nxt r \<and>
             (\<exists>nxt seq. advance_rcv (rcv_nxt r + 1) (acksequence r) = (nxt, seq) \<and>
                r' = r\<lparr>rcv_nxt := nxt, acksequence := seq\<rparr> \<and> q = swift_ack (nxt - 1) p)"
    then obtain nxt seq where adv: "advance_rcv (rcv_nxt r + 1) (acksequence r) = (nxt, seq)"
      and r': "r' = r\<lparr>rcv_nxt := nxt, acksequence := seq\<rparr>" and q: "q = swift_ack (nxt - 1) p" by blast
    have "\<forall>j\<le>rcv_nxt r + 1 - 1. ?P j" using r now k by (auto simp: order_le_less)
    from advance_sound[OF adv this] r have a: "\<forall>j\<le>nxt - 1. ?P j" "\<forall>j\<in>set seq. ?P j" by blast+
    have "\<forall>j<nxt. ?P j" "\<forall>j<nxt - 1. ?P j" "?P (nxt - 1)" using a(1) less_le_pred by (blast intro: less_imp_le order_refl)+
    with a(2) r show ?thesis by (simp add: r' q swift_ack_facts ack_ok_def)
  next
    assume k: "map_get (receiver_Map s) ?a = Some r \<and> number_in p > rcv_nxt r \<and>
             r' = r\<lparr>acksequence := acksequence r @ [number_in p],
                sacks_array := drop_repeated (number_in p # drop_old (rcv_nxt r) (sacks_array r))\<rparr> \<and> q = swift_sack r' p"
    let ?l = "drop_repeated (number_in p # drop_old (rcv_nxt r) (sacks_array r))"
    have l: "\<forall>j\<in>set ?l. ?P j" unfolding drop_repeated_set using r now by (auto simp: drop_old_def)
    then have "\<forall>j\<in>set (take 4 ?l). ?P j" using set_take_subset[of 4 ?l] by blast
    with k r now l show ?thesis by (simp add: swift_sack_facts ack_ok_def del: drop_repeated.simps)
  qed
  note new = this
  have "received_ok s' (past @ es)"
    unfolding received_ok_def known(2)
  proof (intro allI impI)
    fix b t
    assume "map_get (receiver_Map (s\<lparr>receiver_Map := map_put (d_src p) r' (receiver_Map s)\<rparr>)) b = Some t"
    then have g: "map_get (map_put ?a r' (receiver_Map s)) b = Some t" by simp
    show "(\<forall>j<rcv_nxt t. j \<in> set (swift_passed b (past @ es))) \<and> set (acksequence t) \<subseteq> set (swift_passed b (past @ es)) \<and>
        set (sacks_array t) \<subseteq> set (swift_passed b (past @ es))"
    proof (cases "b = ?a")
      case True
      with g have "t = r'" by (simp add: get_put)
      with True new show ?thesis by blast
    next
      case False
      with g have "map_get (receiver_Map s) b = Some t" by (simp add: get_put)
      with assms(2) show ?thesis unfolding received_ok_def swift_passed_append set_append by blast
    qed
  qed
  moreover have "acks_ok (past @ es)"
    using assms(3) by (rule acks_ok_more) (use new known(3) in auto)
  ultimately show ?thesis by blast
qed

text \<open>Events of a receiver none of whose messages from above bears the name of an acknowledgement.\<close>

fun no_ack_request :: "simtime \<times> cc_op \<Rightarrow> bool" where
  "no_ack_request (now, Upper p) = (\<not> contains ''ACK'' (p_name p))"
| "no_ack_request (now, _) = True"

lemma swift_record_step:
  assumes "SWIFT_handleMessage cfg x s = Inr (s', es)" and "received_ok s past" and "acks_ok past" and "no_ack_request x"
  shows "received_ok s' (past @ es) \<and> acks_ok (past @ es)"
  using assms(1)
proof (cases rule: swift_step_cases)
  case (request now p M k st d)
  with assms(4) show ?thesis by (intro records_cong[OF assms(2,3)]) (auto simp: quiet_def)
next
  case (receive now p)
  from receive_records[OF receive(3) assms(2,3) receive(2)] show ?thesis .
next
  case (ack now p)
  from swift_ack_Inr(2,3)[OF ack(4)] show ?thesis
    by (intro records_cong[OF assms(2,3)]) (auto simp: sender_frame_def sends_data_def swift_packet_no_ack)
next
  case (pass now p)
  then show ?thesis by (intro records_cong[OF assms(2,3)]) auto
next
  case (send now)
  from swift_send_data_run[OF send(2)] show ?thesis
    by (intro records_cong[OF assms(2,3)]) (auto simp: swift_same_window_def sends_data_def swift_packet_no_ack)
next
  case (timeout now)
  from swift_timeout_Inr[OF timeout(2)] show ?thesis
    by (intro records_cong[OF assms(2,3)]) (auto simp: sender_frame_def quiet_def)
next
  case (idle now tm st d)
  then show ?thesis by (intro records_cong[OF assms(2,3)]) auto
qed

interpretation swift_receiver: recorded_machine "SWIFT_handleMessage cfg" "\<lambda>_. True" no_ack_request
    "\<lambda>s past. received_ok s past \<and> acks_ok past" for cfg
  by unfold_locales (use swift_record_step in blast)+

lemma swift_init_records: "SWIFT_initialize cfg = Inr s \<Longrightarrow> received_ok s [] \<and> acks_ok []"
  by (auto simp: received_ok_def acks_ok_def SWIFT_initialize_def rbind_eq_Inr Let_def)

lemma swift_run_acks_ok:
  assumes "SWIFT_initialize cfg = Inr s0" and "run_out (SWIFT_handleMessage cfg) xs s0 = Inr (s, es)" and "\<forall>x\<in>set xs. no_ack_request x"
  shows "received_ok s es \<and> acks_ok es"
  using swift_receiver.record_run[OF TrueI, of xs s0 "[]" cfg s es] assms swift_init_records[OF assms(1)] by simp

subsection \<open>The gaps\<close>

lemma add_gap_set [simp]: "set (add_gap g gs) = insert g (set gs)"
  by (auto simp: add_gap_def)

lemma fold_add_gap: "set (fold add_gap xs gs) = set gs \<union> set xs"
  by (induction xs arbitrary: gs) auto

lemma gaps_below_set: "set (gaps_below a i) = {g. a \<le> g \<and> g < i}"
proof -
  have "g \<in> of_nat ` {unat a..<unat i}" if "a \<le> g" "g < i" for g :: u32
    using that by (intro image_eqI[of _ _ "unat g"]) (auto simp: word_le_nat_alt word_less_nat_alt)
  moreover have "a \<le> of_nat n \<and> of_nat n < i" if "unat a \<le> n" "n < unat i" for n
  proof -
    have "unat i < 2 ^ LENGTH(32)" by (rule unsigned_less)
    then have "unat i < 2 ^ 32" by simp
    with that(2) have "n < 2 ^ 32" by (rule less_trans)
    then have "unat (of_nat n :: u32) = n" by (simp add: unat_of_nat take_bit_nat_eq_self)
    with that show ?thesis by (simp add: word_le_nat_alt word_less_nat_alt)
  qed
  ultimately show ?thesis by (auto simp: gaps_below_def)
qed

lemma note_sack_set:
  "set (note_sack a items gs) = (set gs \<union> {g. a \<le> g \<and> (\<exists>i\<in>set items. g < i)}) - set items"
proof -
  have add: "set (fold (\<lambda>i. fold add_gap (gaps_below a i)) items gs) = set gs \<union> {g. a \<le> g \<and> (\<exists>i\<in>set items. g < i)}" for gs
    by (induction items arbitrary: gs) (auto simp: fold_add_gap gaps_below_set)
  have del: "set (fold (\<lambda>i. filter (\<lambda>g. i \<noteq> g)) items gs) = set gs - set items" for gs :: "u32 list"
    by (induction items arbitrary: gs) auto
  show ?thesis unfolding note_sack_def Let_def del add ..
qed

subsection \<open>Samples\<close>

definition sample_swift :: swift_cfg where
  "sample_swift = \<lparr>activate = True, stopTime = 1000, linkspeed = 122080, max_pck_size = 1000, baseRTT = 1, hop_scaler = 0,
     hops = 0, ai = 1, swift_beta = 1 / 2, max_mdf = 1 / 2, fs_min_cwnd = 1, fs_max_cwnd = 4\<rparr>"

text \<open>A sender with the packets 0 to 5 of 900 bytes filed, packet 0 acknowledged, in a pause; data packet \<open>n\<close>.\<close>

definition sample_data :: "u64 \<Rightarrow> dgram" where
  "sample_data n = swift_packet 0 n 0 ((message_info (last (p_tags (sample_message 900))) (sample_message 900))\<lparr>pi_length := 900\<rparr>)"

definition sample_start :: swift where
  "sample_start = \<lparr>sender_packetMap = map (\<lambda>k. (k, message_info (last (p_tags (sample_message 900))) (sample_message 900))) [0, 1, 2, 3, 4, 5],
     pk_state = PAUSING, senddata = None, packetid = 6, nxtSendpacketid = 1,
     pk_lastflowid = -1, pk_last_creation_time = 0, sw_timeout = None, FAST_RECOVERY = False,
     sacks_array_snd = [], sw_alpha = 8, RTT_S = 0, RTT_D = 0, RTO = 1 / 10, t_last_decrease = 0,
     num_acked = 0, num_dupack = 0, snd_una = 1, currentRTT = 0, retransmit_cnt = 0, pacing_delay = 0,
     pre_snd = 0, can_decrease = True, snd_cwnd = 4, max_cwnd = 10, receiver_Map = []\<rparr>"

lemma sample_swift_init: "SWIFT_initialize sample_swift = Inr (sample_start\<lparr>sender_packetMap := [], pk_state := STOPPING, packetid := 0,
   nxtSendpacketid := 0, snd_una := 0, snd_cwnd := 10\<rparr>)"
  by (simp add: SWIFT_initialize_def swift_alpha_def swift_fs_range_def sample_swift_def sample_start_def)

lemma sample_data_facts: "swift_data (sample_data n)" "p_tags (sample_data n) \<noteq> []" "d_src (sample_data n) = 1"
    "unat n < 2 ^ 31 \<Longrightarrow> number_in (sample_data n) = ucast n"
proof -
  have "p_name (sample_data n) = [] @ ''SWIFTData'' @ (''-'' @ digits (unat n))" by (simp add: sample_data_def swift_packet_name)
  then show "swift_data (sample_data n)" by (simp only: contains_append) blast
  show "p_tags (sample_data n) \<noteq> []" "d_src (sample_data n) = 1"
    by (simp_all add: sample_data_def swift_packet_def filed_dgram_def message_info_def sample_message_def)
  assume "unat n < 2 ^ 31"
  note k = number_unat[OF this]
  have "ht_packetid (last (p_tags (sample_data n))) = uint n" by (simp add: sample_data_def swift_packet_def filed_dgram_def)
  then show "number_in (sample_data n) = ucast n" unfolding number_in_def by (simp add: k)
qed

text \<open>C22: Sending comes to an end, with one exception: a call of \<open>send_data\<close> runs forever exactly when the sender is in a recovery
  without gaps, the next packet and the one behind it are filed, and the window has room.\<close>

theorem swift_send_ends_iff:
  assumes "snd_cwnd s \<le> 2 ^ 64 - 1" and "0 \<le> RTO s"
  shows "SWIFT_send_data now s = Inl NoProgress \<longleftrightarrow>
     FAST_RECOVERY s \<and> sacks_array_snd s = [] \<and> 1 \<le> snd_cwnd s \<and>
     of_nat (unat (nxtSendpacketid s - snd_una s)) < snd_cwnd s \<and>
     map_get (sender_packetMap s) (map_key (int_packetid (nxtSendpacketid s))) \<noteq> None \<and>
     map_get (sender_packetMap s) (map_key (nxtSendpacketid s + 1)) \<noteq> None"
  unfolding swift_send_ends[OF assms(1)] swift_stuck_def swift_next_filed_def swift_room_def using assms(2) by blast

text \<open>C21: Acknowledgements say only what is true.  Whatever reaches a host, in any order, an acknowledgement it sends for
  packets from some source tells of packets from that source it has passed up: all packets below its number, its number
  itself unless it is selective, and every number it lists.\<close>

theorem swift_acks_sound:
  assumes "SWIFT_initialize cfg = Inr s0" and "run_out (SWIFT_handleMessage cfg) xs s0 = Inr (s, es)"
    and "\<forall>x\<in>set xs. no_ack_request x" and "SendDown q \<in> set es" and "contains ''ACK'' (p_name q)"
  shows "(\<forall>j<number_in q. j \<in> set (swift_passed (d_dest q) es)) \<and>
     (\<not> contains ''SACK'' (p_name q) \<longrightarrow> number_in q \<in> set (swift_passed (d_dest q) es)) \<and>
     (\<forall>items. d_sack q = Some items \<longrightarrow> (\<forall>j\<in>set items. j \<in> set (swift_passed (d_dest q) es)))"
  using swift_run_acks_ok[OF assms(1-3)] assms(4,5) unfolding acks_ok_def ack_ok_def by blast

text \<open>The gaps.  When a selective acknowledgement of a receiver reaches a sender that does not begin a recovery with it, the
  numbers the sender will send again in a recovery are those it had before and all from the acknowledgement's number to one
  of the listed, less the listed ones.  Every packet in that range that the receiver has not passed up is
  among them; no listed packet is.\<close>

theorem swift_gaps_known:
  assumes "SWIFT_initialize cfg = Inr s0" and "run_out (SWIFT_handleMessage cfg) xs s0 = Inr (s, es)"
    and "\<forall>x\<in>set xs. no_ack_request x" and "SendDown q \<in> set es" and "contains ''SACK'' (p_name q)" and "d_sack q = Some items"
    and "SWIFT_receive_ack cfg' now q t = Inr (t', fs)" and "num_dupack t < 2"
  shows "set (sacks_array_snd t') =
       (set (sacks_array_snd t) \<union> {g. number_in q \<le> g \<and> (\<exists>i\<in>set items. g < i)}) - set items \<and>
     (\<forall>g i. number_in q \<le> g \<and> g < i \<and> i \<in> set items \<and> g \<notin> set (swift_passed (d_dest q) es) \<longrightarrow> g \<in> set (sacks_array_snd t'))"
proof -
  let ?t1 = "t\<lparr>currentRTT := now - d_time q, can_decrease := (if d_time q \<ge> t_last_decrease t then True else can_decrease t)\<rparr>"
  note tg = swift_ack_Inr(1)[OF assms(7)]
  from assms(7) obtain t2 es1 es2 where o: "swift_sort_ack now q (number_of (ht_packetid (last (p_tags q)))) ?t1 = Inr (t2, es1)"
    and r: "swift_react cfg' now (snd_cwnd t) t2 = Inr (t', es2)"
    by (auto simp: SWIFT_receive_ack_def tag_of_truncate[OF tg] Let_def rbind_eq_Inr)
  from o assms(5,6) have "swift_sacked now (number_in q) items ?t1 = Inr (t2, es1)" by (simp add: swift_sort_ack_def number_in_def)
  moreover have "num_dupack (swift_note_sack (number_in q) items ?t1) \<noteq> 3" using assms(8) by (simp add: swift_note_sack_def)
  ultimately have "t2 = swift_note_sack (number_in q) items ?t1" by (simp add: swift_sacked_def Let_def)
  then have g: "set (sacks_array_snd t') = (set (sacks_array_snd t) \<union> {g. number_in q \<le> g \<and> (\<exists>i\<in>set items. g < i)}) - set items"
    using swift_react_Inr[OF r] by (cases "items = []") (simp_all add: swift_note_sack_def note_sack_set)
  have "contains ''ACK'' (p_name q)" using assms(5) unfolding contains_append by (metis append_Cons append_Nil append_assoc)
  then have "\<forall>j\<in>set items. j \<in> set (swift_passed (d_dest q) es)"
    using swift_run_acks_ok[OF assms(1-3)] assms(4,6) unfolding acks_ok_def ack_ok_def by blast
  with g show ?thesis by blast
qed

text \<open>A recovery is never left, and may hang.  Once a recovery has begun, whatever happens, the flag stays set.  When
  acknowledgements have then covered all gaps, and the window has room and two packets are filed from the next one on, the next
  firing of the send timer sends one and the same packet without end.\<close>

theorem swift_recovery_hangs:
  assumes "run_out (SWIFT_handleMessage cfg) xs s = Inr (s', es)" and "swift_window_inv cfg s" and "FAST_RECOVERY s"
  shows "FAST_RECOVERY s' \<and>
    (sacks_array_snd s' = [] \<and> senddata s' \<noteq> None \<and> t < stopTime cfg \<and> 0 \<le> RTO s' \<and> 1 \<le> snd_cwnd s' \<and>
     of_nat (unat (nxtSendpacketid s' - snd_una s')) < snd_cwnd s' \<and>
     map_get (sender_packetMap s') (map_key (int_packetid (nxtSendpacketid s'))) \<noteq> None \<and>
     map_get (sender_packetMap s') (map_key (nxtSendpacketid s' + 1)) \<noteq> None \<longrightarrow>
       SWIFT_handleMessage cfg (t, Fire SendDataTimer) s' = Inl NoProgress)"
proof -
  have r: "FAST_RECOVERY s'"
    using swift_window.inv_run[of cfg s True xs s' es] assms by simp
  have "SWIFT_handleMessage cfg (t, Fire SendDataTimer) s' = Inl NoProgress"
    if "swift_stuck (s'\<lparr>senddata := None\<rparr>)" "senddata s' \<noteq> None" "t < stopTime cfg"
    using stuck_diverges[OF that(1)] that(2,3) by (simp add: SWIFT_send_data_def)
  with r show ?thesis by (simp add: swift_stuck_def swift_next_filed_def swift_room_def)
qed

theorem swift_send_ends_iff_witness:
  "SWIFT_send_data 5 (sample_start\<lparr>FAST_RECOVERY := True\<rparr>) = Inl NoProgress \<and> is_ok (SWIFT_send_data 5 (sample_start\<lparr>nxtSendpacketid := 5\<rparr>))"
proof
  show "SWIFT_send_data 5 (sample_start\<lparr>FAST_RECOVERY := True\<rparr>) = Inl NoProgress"
    by (subst swift_send_ends_iff) (simp_all add: sample_start_def map_key_def)
  show "is_ok (SWIFT_send_data 5 (sample_start\<lparr>nxtSendpacketid := 5\<rparr>))"
    by (subst send_data_unfold)
      (simp add: sample_start_def map_key_def int_packetid_def number_of_def swift_send_one_def note_packet_def swift_rearm_timeout_def Let_def)
qed

lemmas swift_receive_defs = SWIFT_processLowerpck_def SWIFT_receive_data_def tag_of_truncate sample_data_facts

theorem swift_acks_sound_witness:
  "\<exists>s0 s es q. SWIFT_initialize sample_swift = Inr s0 \<and>
     run_out (SWIFT_handleMessage sample_swift) [(0, Lower (sample_data 0)), (1, Lower (sample_data 2)), (2, Lower (sample_data 1))] s0 = Inr (s, es) \<and>
     SendDown q \<in> set es \<and> number_in q = 2 \<and> (\<forall>j\<le>2. j \<in> set (swift_passed 1 es))"
proof -
  let ?xs = "[(0, Lower (sample_data 0)), (1, Lower (sample_data 2)), (2, Lower (sample_data 1))]"
  obtain s0 where s0: "SWIFT_initialize sample_swift = Inr s0" "receiver_Map s0 = []" using sample_swift_init by (simp add: sample_start_def)
  have adv: "advance_rcv 1 [] = (1, [])" "advance_rcv 2 [2] = (3, [])" by (simp_all add: advance_rcv.simps)
  have n: "word_of_int (number_of (ht_packetid (last (p_tags (sample_data k))))) = (ucast k :: u32)" if "unat k < 2 ^ 31" for k
    using sample_data_facts(4)[OF that] by (simp add: number_in_def)
  have "\<exists>s es. run_out (SWIFT_handleMessage sample_swift) ?xs s0 = Inr (s, es) \<and> SendDown (swift_ack 2 (sample_data 1)) \<in> set es"
    by (simp add: swift_receive_defs n adv s0 Let_def drop_old_def)
  then obtain s es where r: "run_out (SWIFT_handleMessage sample_swift) ?xs s0 = Inr (s, es)" "SendDown (swift_ack 2 (sample_data 1)) \<in> set es"
    by blast
  have "(\<forall>j<2. j \<in> set (swift_passed 1 es)) \<and> 2 \<in> set (swift_passed 1 es)"
    using swift_acks_sound[OF s0(1) r(1) _ r(2)] by (simp add: swift_ack_facts sample_data_facts)
  then have "\<forall>j\<le>2. j \<in> set (swift_passed 1 es)" by (auto simp: order_le_less)
  with s0(1) r show ?thesis by (auto intro!: exI[of _ s0] exI[of _ s] exI[of _ es] exI[of _ "swift_ack 2 (sample_data 1)"] simp: swift_ack_facts)
qed

text \<open>An acknowledgement after a round trip of 5 shrinks the window of the sample to 12 / 5.\<close>

lemma sample_react:
  assumes "snd_cwnd t = 4" and "max_cwnd t = 10" and "sw_alpha t = 8" and "currentRTT t = 5" and "can_decrease t" and "pk_state t = PAUSING"
  shows "\<exists>es. swift_react sample_swift 5 4 t = Inr ((swift_rto t)\<lparr>snd_cwnd := 12 / 5, can_decrease := False, t_last_decrease := 5,
      pacing_delay := 0, pk_state := SENDING, senddata := Some 5\<rparr>, es)"
proof -
  let ?t = "swift_rto t" and ?u = "(swift_rto t)\<lparr>snd_cwnd := 12 / 5, can_decrease := False\<rparr>"
  have f: "snd_cwnd ?t = 4" "max_cwnd ?t = 10" "sw_alpha ?t = 8" "currentRTT ?t = 5" "can_decrease ?t" "pk_state ?t = PAUSING"
    using assms by (simp_all add: swift_rto_def Let_def)
  have c: "baseRTT sample_swift = 1" "hops sample_swift = 0" "fs_max_cwnd sample_swift = 4" "swift_beta sample_swift = 1 / 2"
      "max_mdf sample_swift = 1 / 2" by (simp_all add: sample_swift_def)
  have "swift_target sample_swift ?t = Inr 1" by (simp add: swift_target_def swift_fs_range_def f c)
  moreover have "clamp (max (1 - 1 / 2 * (5 - 1) / 5) (1 - 1 / 2) * 4) swift_min_cwnd 10 = 12 / 5"
    by (simp add: clamp_def swift_min_cwnd_def max_def)
  ultimately have a: "swift_adapt sample_swift ?t = Inr ?u" by (simp only: swift_adapt_def Let_def f c rbind_Inr) simp
  have p: "swift_pace (?u\<lparr>t_last_decrease := 5\<rparr>) = Inr (?u\<lparr>t_last_decrease := 5, pacing_delay := 0\<rparr>)" by (simp add: swift_pace_def)
  have "snd_cwnd ?u < 4" by simp
  with a p f show ?thesis
    by (simp add: swift_react_def swift_resume_def rescheduleSenddata_def scheduleSenddata_def)
qed

text \<open>Packet 1 is lost; the acknowledgement of packet 2 tells the sender of the gap.\<close>

theorem swift_gaps_known_witness:
  "\<exists>s0 s es q t' fs. SWIFT_initialize sample_swift = Inr s0 \<and>
     run_out (SWIFT_handleMessage sample_swift) [(0, Lower (sample_data 0)), (1, Lower (sample_data 2))] s0 = Inr (s, es) \<and>
     SendDown q \<in> set es \<and> SWIFT_receive_ack sample_swift 5 q sample_start = Inr (t', fs) \<and> set (sacks_array_snd t') = {1}"
proof -
  let ?xs = "[(0, Lower (sample_data 0)), (1, Lower (sample_data 2))]"
  let ?q = "swift_sack \<lparr>rcv_nxt = 1, sacks_array = [2], acksequence = [2]\<rparr> (sample_data 2)"
  obtain s0 where s0: "SWIFT_initialize sample_swift = Inr s0" "receiver_Map s0 = []" using sample_swift_init by (simp add: sample_start_def)
  have adv: "advance_rcv 1 [] = (1, [])" by (simp add: advance_rcv.simps)
  have n: "word_of_int (number_of (ht_packetid (last (p_tags (sample_data k))))) = (ucast k :: u32)" if "unat k < 2 ^ 31" for k
    using sample_data_facts(4)[OF that] by (simp add: number_in_def)
  have "\<exists>s es. run_out (SWIFT_handleMessage sample_swift) ?xs s0 = Inr (s, es) \<and> SendDown ?q \<in> set es"
    by (simp add: swift_receive_defs n adv s0 Let_def drop_old_def)
  then obtain s es where r: "run_out (SWIFT_handleMessage sample_swift) ?xs s0 = Inr (s, es)" "SendDown ?q \<in> set es" by blast
  have q: "p_tags ?q \<noteq> []" "d_time ?q = 0"
    by (simp_all add: swift_sack_def swift_reply_def sample_data_def swift_packet_def)
  let ?t1 = "sample_start\<lparr>currentRTT := 5, can_decrease := True\<rparr>"
  let ?t2 = "swift_note_sack (number_in ?q) [2] ?t1"
  have t2: "snd_cwnd ?t2 = 4 \<and> max_cwnd ?t2 = 10 \<and> sw_alpha ?t2 = 8 \<and> currentRTT ?t2 = 5 \<and> can_decrease ?t2 \<and> pk_state ?t2 = PAUSING \<and> num_dupack ?t2 = 1"
    by (simp add: swift_note_sack_def sample_start_def)
  have "swift_sort_ack 5 ?q (number_of (ht_packetid (last (p_tags ?q)))) ?t1 = Inr (?t2, [])"
    using t2 by (simp add: swift_sort_ack_def swift_sack_facts swift_sacked_def number_in_def)
  moreover have "t_last_decrease sample_start = 0" "snd_cwnd sample_start = 4" by (simp_all add: sample_start_def)
  ultimately have "\<exists>t' fs. SWIFT_receive_ack sample_swift 5 ?q sample_start = Inr (t', fs)"
    using sample_react[of ?t2] t2 by (auto simp: SWIFT_receive_ack_def tag_of_truncate[OF q(1)] q(2))
  then obtain t' fs where a: "SWIFT_receive_ack sample_swift 5 ?q sample_start = Inr (t', fs)" by blast
  have "set (sacks_array_snd t') = (set (sacks_array_snd sample_start) \<union> {g. number_in ?q \<le> g \<and> (\<exists>i\<in>set [2]. g < i)}) - set [2]"
    by (rule conjunct1[OF swift_gaps_known[OF s0(1) r(1) _ r(2) _ _ a]]) (simp_all add: swift_sack_facts sample_start_def)
  also have "\<dots> = {g. 1 \<le> g \<and> g < 2}" by (auto simp: swift_sack_facts sample_start_def)
  also have "\<dots> = {1 :: u32}"
  proof -
    have "g = 1" if "1 \<le> g" "g < 2" for g :: u32
    proof -
      from that have "unat g = unat (1 :: u32)" by (simp add: word_le_nat_alt word_less_nat_alt)
      then show ?thesis by (simp only: word_unat_eq_iff)
    qed
    then show ?thesis by (auto simp: word_less_nat_alt)
  qed
  finally show ?thesis using s0(1) r a by blast
qed

text \<open>Packet 1 was the only gap; the acknowledgement of packet 2 covers it, and the sender hangs at packet 3.\<close>

theorem swift_recovery_hangs_witness:
  "\<exists>s' es. run_out (SWIFT_handleMessage sample_swift) [(5, Lower (swift_ack 2 (sample_data 2)))]
       (sample_start\<lparr>FAST_RECOVERY := True, sacks_array_snd := [1]\<rparr>) = Inr (s', es) \<and>
     SWIFT_handleMessage sample_swift (5, Fire SendDataTimer) s' = Inl NoProgress"
proof -
  let ?s = "sample_start\<lparr>FAST_RECOVERY := True, sacks_array_snd := [1]\<rparr>" and ?q = "swift_ack 2 (sample_data 2)"
  have q: "p_tags ?q \<noteq> []" "d_time ?q = 0" "ht_packetid (last (p_tags ?q)) = 2"
    by (simp_all add: swift_ack_def swift_reply_def sample_data_def swift_packet_def)
  let ?t1 = "?s\<lparr>currentRTT := 5, can_decrease := True\<rparr>"
  let ?t2 = "swift_acked 2 ?t1"
  have t2: "snd_cwnd ?t2 = 4 \<and> max_cwnd ?t2 = 10 \<and> sw_alpha ?t2 = 8 \<and> currentRTT ?t2 = 5 \<and> can_decrease ?t2 \<and> pk_state ?t2 = PAUSING"
    by (simp add: swift_acked_def sample_start_def)
  have g: "sacks_array_snd ?t2 = []" "nxtSendpacketid ?t2 = 3" "snd_una ?t2 = 3"
      "map_get (sender_packetMap ?t2) 3 \<noteq> None" "map_get (sender_packetMap ?t2) 4 \<noteq> None" "RTT_S ?t2 = 0" "RTT_D ?t2 = 0"
    by (simp_all add: swift_acked_def sample_start_def)
  have k: "number_of (ht_packetid (last (p_tags ?q))) = 2" by (simp add: q number_of_id)
  have "swift_sort_ack 5 ?q (number_of (ht_packetid (last (p_tags ?q)))) ?t1 = Inr (?t2, [])"
    unfolding k by (simp add: swift_sort_ack_def swift_ack_facts)
  moreover have "t_last_decrease ?s = 0" "snd_cwnd ?s = 4" by (simp_all add: sample_start_def)
  moreover obtain es2 where "swift_react sample_swift 5 4 ?t2 = Inr ((swift_rto ?t2)\<lparr>snd_cwnd := 12 / 5, can_decrease := False,
      t_last_decrease := 5, pacing_delay := 0, pk_state := SENDING, senddata := Some 5\<rparr>, es2)" using sample_react[of ?t2] t2 by blast
  ultimately have "SWIFT_receive_ack sample_swift 5 ?q ?s = Inr ((swift_rto ?t2)\<lparr>snd_cwnd := 12 / 5, can_decrease := False,
      t_last_decrease := 5, pacing_delay := 0, pk_state := SENDING, senddata := Some 5\<rparr>, es2)"
    by (simp add: SWIFT_receive_ack_def tag_of_truncate[OF q(1)] q(2))
  with t2 g have "\<exists>s' es. run_out (SWIFT_handleMessage sample_swift) [(5, Lower ?q)] ?s = Inr (s', es) \<and>
      sacks_array_snd s' = [] \<and> senddata s' \<noteq> None \<and> 0 \<le> RTO s' \<and> snd_cwnd s' = 12 / 5 \<and> nxtSendpacketid s' = 3 \<and> snd_una s' = 3 \<and>
      map_get (sender_packetMap s') 3 \<noteq> None \<and> map_get (sender_packetMap s') 4 \<noteq> None"
    by (simp add: SWIFT_processLowerpck_def swift_ack_facts swift_rto_def Let_def)
  then obtain s' es where r: "run_out (SWIFT_handleMessage sample_swift) [(5, Lower ?q)] ?s = Inr (s', es)"
    and f: "sacks_array_snd s' = []" "senddata s' \<noteq> None" "0 \<le> RTO s'" "snd_cwnd s' = 12 / 5" "nxtSendpacketid s' = 3" "snd_una s' = 3"
      "map_get (sender_packetMap s') 3 \<noteq> None" "map_get (sender_packetMap s') 4 \<noteq> None" by blast
  have "swift_window_inv sample_swift ?s" "FAST_RECOVERY ?s" "5 < stopTime sample_swift"
    by (simp_all add: swift_window_inv_def swift_cfg_ok_def sample_swift_def sample_start_def swift_min_cwnd_def)
  with swift_recovery_hangs[OF r, of 5] f r show ?thesis by (simp add: map_key_def int_packetid_def number_of_def)
qed

text \<open>
  Two more facts.  When the last gap has been sent again the list of gaps is empty and its front is
  read.  A packet below \<open>rcv_nxt\<close> is not answered, so that an acknowledgement that was lost is not
  repeated when the packet is sent again.
\<close>

lemma swift_last_gap_undefined:
  assumes "FAST_RECOVERY s" and "sacks_array_snd s = [g]" and "swift_next_filed s" and "0 \<le> RTO s"
  shows "SWIFT_send_data now s = Inl OutOfBounds"
  using assms by (subst send_data_unfold)
    (auto simp: swift_send_one_def swift_next_filed_def swift_rearm_timeout_def swift_next_def Let_def)

lemma swift_old_packet_unanswered:
  assumes "p_tags p \<noteq> []" and "map_get (receiver_Map s) (d_src p) = Some r" and "number_in p < rcv_nxt r"
  shows "SWIFT_receive_data p s = Inr (s, [])"
proof -
  have "number_in p \<noteq> rcv_nxt r" "\<not> rcv_nxt r < number_in p" using less_imp_neq[OF assms(3)] less_not_sym[OF assms(3)] by simp_all
  then show ?thesis
    by (simp add: SWIFT_receive_data_def tag_of_truncate[OF assms(1)] assms(2) Let_def flip: number_in_def)
qed

end
