(* ===== verification/XPASS.thy ===== *)
theory XPASS
  imports Packet_Sender "HOL-Library.Sublist"
begin

section \<open>XPASS\<close>

text \<open>
  \<open>HiNA/CC/XPASS\<close>.  Sending is clocked by the receiver: a sender with data asks a destination for
  credits, the destination sends credits at a rate it adapts from the credits that came back as
  data, and the sender answers every credit with one data packet, until it has nothing left and
  asks the destination to stop.

  \<open>long\<close> and \<open>uint64_t\<close> are mixed in the arithmetic of the sizes, which is that of \<open>uint64_t\<close>; so the
  sizes are words.  The timers of a source are kept beside its entry, the requests to stop, a new
  message each, as the list of the hosts they are for.  The random bytes of a credit are an
  argument of the event that sends it.  Two fields of an entry are never set: the model has no value
  for \<open>normalized_gradient\<close> and the error \<open>Uninitialized\<close> where it is read; \<open>modeflag\<close> is only copied and left out.
\<close>

datatype xp_timer = SendCredit int | XRateTimer int | XAlphaTimer int | SendStop int

datatype xp_effect = XDown dgram | XUp dgram | XArm xp_timer simtime | XCancel xp_timer

datatype xp_op = CreditDue int nat | RateDue int | AlphaDue int | StopDue int | XUpper dgram | XLower dgram

datatype accel_state = Normal | Fast_Recovery | Additive_Increase | Hyper_Increase

datatype xs_state = CREDIT_RECEIVING | CSTOP_SENT

datatype xr_state = CREDIT_STOP | CREDIT_SENDING

record xp_cfg =
  activate :: bool
  stopTime :: simtime
  linkspeed :: double
  targetratio :: double
  wmax :: double
  max_pck_size :: u64
  initialrate :: double
  wmin :: double
  xp_alpha :: double
  thigh :: simtime
  tlow :: simtime
  useECN :: bool
  useRTT :: bool
  Rai :: double
  Rhai :: double
  gamma :: double
  rtt_beta :: double

definition maxrate :: "xp_cfg \<Rightarrow> double" where
  "maxrate cfg = 5 / 100 * linkspeed cfg"

definition currate :: "xp_cfg \<Rightarrow> double" where
  "currate cfg = maxrate cfg * initialrate cfg"

record xp_rcv =
  xr_dest :: int
  max_speed :: double
  current_speed :: double
  last_Fbtime :: simtime
  xr_nowRTT :: simtime
  pck_in_rtt :: int
  last_received_data_seq :: int
  now_received_data_seq :: int
  now_send_cdt_seq :: int
  sumlost :: int
  ecn_in_rtt :: int
  previousincrease :: bool
  ByteCounter :: int
  iRhai :: int
  ByteFrSteps :: int
  TimeFrSteps :: int
  xr_state :: accel_state
  preRTT :: simtime
  omega :: double
  xr_alpha :: double
  targetRate :: double

record xp_flow =
  xf_flowid :: u32
  xf_cretime :: simtime
  flowsize :: u64
  xf_priority :: int
  xf_dest :: int
  xf_sport :: int
  xf_dport :: int

record xpass =
  sender_StateMap :: "(int, xs_state) smap"
  receiver_StateMap :: "(int, xr_state) smap"
  xp_flows :: "(u32, xp_flow) smap"
  xp_receivers :: "(int, xp_rcv) smap"
  credit_timer :: "int \<Rightarrow> simtime option"
  rate_timer :: "int \<Rightarrow> simtime option"
  alpha_timer :: "int \<Rightarrow> simtime option"
  stop_timers :: "int list"
  remainSize :: u64
  xp_last_creation_time :: simtime
  xp_lastflowid :: u32
  xp_srcaddr :: int
  xp_nowRTT :: simtime

definition XPASS_initialize :: xpass where
  "XPASS_initialize =
     \<lparr>sender_StateMap = [], receiver_StateMap = [], xp_flows = [], xp_receivers = [], credit_timer = (\<lambda>_. None),
      rate_timer = (\<lambda>_. None), alpha_timer = (\<lambda>_. None), stop_timers = [], remainSize = 0,
      xp_last_creation_time = 0, xp_lastflowid = -1, xp_srcaddr = 0, xp_nowRTT = 0\<rparr>"

text \<open>A packet of the protocol: no ports, and the tag given.\<close>

definition xp_packet :: "string \<Rightarrow> int \<Rightarrow> hitag list \<Rightarrow> int \<Rightarrow> int \<Rightarrow> simtime \<Rightarrow> dgram" where
  "xp_packet nm bytes tags src dest ts =
     \<lparr>p_id = 0, p_name = nm, p_len = nat (8 * bytes), p_iface = 0, p_ecn = None, p_tags = tags,
      p_bfc = None, p_ispause = None, d_src = src, d_dest = dest, d_sport = 0, d_dport = 0, d_ecn = 0,
      d_recRate = 0, d_int = None, d_psd = None, d_sack = None, d_time = ts\<rparr>"

definition plain_tag :: hitag where
  "plain_tag = \<lparr>ht_flowid = 0, ht_priority = -1, ht_flowsize = 0, ht_cretime = 0, ht_packetid = 0, ht_last = False,
        ht_queueid = 0, ht_decel = False, ht_speedup = False, ht_sender_priority = -1\<rparr>"

subsection \<open>Asking for credits\<close>

definition XPASS_send_credreq :: "simtime \<Rightarrow> u32 \<Rightarrow> xpass \<Rightarrow> (xpass \<times> xp_effect list) res" where
  "XPASS_send_credreq now k s =
     (case map_get (xp_flows s) k of
        None \<Rightarrow> Inl EndIterator
      | Some f \<Rightarrow>
          Inr (s\<lparr>sender_StateMap := map_put (xf_dest f) CREDIT_RECEIVING (sender_StateMap s)\<rparr>,
               [XDown (xp_packet ''credit_req'' 26 [plain_tag\<lparr>ht_flowid := k\<rparr>] (xp_srcaddr s) (xf_dest f) now)]))"

definition xp_new_flow :: "hitag \<Rightarrow> dgram \<Rightarrow> xp_flow" where
  "xp_new_flow tag pck =
     \<lparr>xf_flowid = ht_flowid tag, xf_cretime = ht_cretime tag, flowsize = ucast (ucast (ht_flowsize tag) :: u32),
      xf_priority = ht_priority tag, xf_dest = d_dest pck, xf_sport = d_sport pck, xf_dport = d_dport pck\<rparr>"

definition XPASS_processUpperpck :: "xp_cfg \<Rightarrow> simtime \<Rightarrow> dgram \<Rightarrow> xpass \<Rightarrow> (xpass \<times> xp_effect list) res" where
  "XPASS_processUpperpck cfg now pck s =
     (if contains ''Data'' (p_name pck) \<and> activate cfg then
        rbind (last_tag (packet.truncate pck)) (\<lambda>tag.
          let k = ht_flowid tag; f = xp_new_flow tag pck; dest = d_dest pck;
              s1 = s\<lparr>xp_srcaddr := d_src pck\<rparr>;
              s2 = (if map_get (sender_StateMap s1) dest = None
                    then s1\<lparr>sender_StateMap := map_put dest CSTOP_SENT (sender_StateMap s1)\<rparr> else s1);
              s3 = (if map_get (xp_flows s2) k = None
                    then s2\<lparr>xp_flows := map_put k f (xp_flows s2), remainSize := remainSize s2 + flowsize f\<rparr> else s2)
          in if map_get (sender_StateMap s3) dest = Some CSTOP_SENT then XPASS_send_credreq now k s3 else Inr (s3, []))
      else Inr (s, [XDown pck]))"

subsection \<open>Sending credits\<close>

definition xp_new_rcv :: "xp_cfg \<Rightarrow> simtime \<Rightarrow> dgram \<Rightarrow> xp_rcv" where
  "xp_new_rcv cfg now pck =
     \<lparr>xr_dest = d_src pck, max_speed = maxrate cfg, current_speed = currate cfg, last_Fbtime = now,
      xr_nowRTT = 2 * (now - d_time pck), pck_in_rtt = 0, last_received_data_seq = -1, now_received_data_seq = 0,
      now_send_cdt_seq = 0, sumlost = 0, ecn_in_rtt = 0, previousincrease = False, ByteCounter = 0, iRhai = 0,
      ByteFrSteps = 0, TimeFrSteps = 0, xr_state = Normal, preRTT = 0, omega = 1 / 2, xr_alpha = xp_alpha cfg,
      targetRate = maxrate cfg\<rparr>"

definition XPASS_receive_credreq :: "xp_cfg \<Rightarrow> simtime \<Rightarrow> dgram \<Rightarrow> xpass \<Rightarrow> (xpass \<times> xp_effect list) res" where
  "XPASS_receive_credreq cfg now pck s =
     (let a = d_src pck;
          s1 = s\<lparr>xp_srcaddr := d_dest pck\<rparr>;
          s2 = (if map_get (receiver_StateMap s1) a = None
                then s1\<lparr>receiver_StateMap := map_put a CREDIT_STOP (receiver_StateMap s1)\<rparr> else s1)
      in if map_get (receiver_StateMap s2) a = Some CREDIT_SENDING then Inr (s2, [])
         else
           let s3 = (if map_get (xp_receivers s2) a = None
                     then s2\<lparr>xp_receivers := map_put a (xp_new_rcv cfg now pck) (xp_receivers s2)\<rparr> else s2)
           in Inr (s3\<lparr>credit_timer := (credit_timer s3)(a := Some now),
                     receiver_StateMap := map_put a CREDIT_SENDING (receiver_StateMap s3)\<rparr>,
                   [XCancel (SendCredit a), XArm (SendCredit a) now]))"

text \<open>
  A credit has between 1 and 8 random bytes beyond its 26; the pause after it counts 58 bytes of
  headers and gap, as for data.  A quotient by a zero rate is no simulation time.
\<close>

definition credit_size :: int where
  "credit_size = 208"

definition XPASS_send_credit :: "simtime \<Rightarrow> nat \<Rightarrow> int \<Rightarrow> xpass \<Rightarrow> (xpass \<times> xp_effect list) res" where
  "XPASS_send_credit now jitter a s =
     (case map_get (xp_receivers s) a of
        None \<Rightarrow> Inl NullPointer
      | Some r \<Rightarrow>
          let credit = xp_packet ''credit'' (credit_size div 8 + int jitter) [plain_tag\<lparr>ht_packetid := now_send_cdt_seq r\<rparr>]
                (xp_srcaddr s) (xr_dest r) now;
              s1 = s\<lparr>xp_receivers := map_put a (r\<lparr>now_send_cdt_seq := now_send_cdt_seq r + 1\<rparr>) (xp_receivers s)\<rparr>
          in if map_get (receiver_StateMap s1) a = Some CREDIT_SENDING then
               (if current_speed r = 0 then Inl SimTimeOverflow
                else
                  let t = now + of_int (credit_size + (int jitter + 58) * 8) / current_speed r
                  in if t < now then Inl (RuntimeError ''cannot schedule a message to the past'')
                     else Inr (s1\<lparr>credit_timer := (credit_timer s1)(a := Some t)\<rparr>, [XDown credit, XArm (SendCredit a) t]))
             else Inr (s1, [XDown credit]))"

definition XPASS_receive_stopcred :: "dgram \<Rightarrow> xpass \<Rightarrow> (xpass \<times> xp_effect list) res" where
  "XPASS_receive_stopcred pck s =
     Inr (s\<lparr>receiver_StateMap := map_put (d_src pck) CREDIT_STOP (receiver_StateMap s)\<rparr>, [])"

subsection \<open>Answering credits\<close>

definition long_of :: "int \<Rightarrow> int" where
  "long_of n = sint (word_of_int n :: u64)"

text \<open>
  What a credit takes off the first flow: the first flow, whether the packet is its last, and the state
  after.  The packet always has \<open>max_pck_size\<close> bytes.  A flow with less is filled up with bytes of the
  flow behind it, if all flows together have enough; if not, everything is sent.
\<close>

definition xp_take :: "xp_cfg \<Rightarrow> xpass \<Rightarrow> (u32 \<times> xp_flow \<times> bool \<times> xpass) res" where
  "xp_take cfg s =
     (case xp_flows s of
        [] \<Rightarrow> Inl EndIterator
      | (k, f) # fs \<Rightarrow>
          let mx = max_pck_size cfg in
          if flowsize f \<ge> mx then
            Inr (k, f, False, s\<lparr>remainSize := remainSize s - mx, xp_flows := (k, f\<lparr>flowsize := flowsize f - mx\<rparr>) # fs\<rparr>)
          else if remainSize s \<ge> mx then
            (case fs of
               [] \<Rightarrow> Inl EndIterator
             | (k2, f2) # fs2 \<Rightarrow>
                 Inr (k, f, True, s\<lparr>remainSize := remainSize s - mx,
                                   xp_flows := (k2, f2\<lparr>flowsize := flowsize f2 - (mx - flowsize f)\<rparr>) # fs2\<rparr>))
          else Inr (k, f, True, s\<lparr>remainSize := 0\<rparr>))"

definition xp_note_flow :: "xp_flow \<Rightarrow> xpass \<Rightarrow> xpass" where
  "xp_note_flow f s =
     (if xp_lastflowid s \<noteq> xf_flowid f then s\<lparr>xp_last_creation_time := xf_cretime f, xp_lastflowid := xf_flowid f\<rparr> else s)"

text \<open>The data packet answers to the credit's source, with the credit's number and time stamp.\<close>

definition xp_data :: "xp_cfg \<Rightarrow> dgram \<Rightarrow> int \<Rightarrow> u32 \<Rightarrow> xp_flow \<Rightarrow> bool \<Rightarrow> simtime \<Rightarrow> dgram" where
  "xp_data cfg pck n k f lst cret =
     (xp_packet (''XPASSData-'' @ int_digits (sint k) @ ''-'' @ int_digits n) (uint (max_pck_size cfg) + 8)
        [\<lparr>ht_flowid = k, ht_priority = xf_priority f, ht_flowsize = 0, ht_cretime = cret, ht_packetid = n, ht_last = lst,
        ht_queueid = 0, ht_decel = False, ht_speedup = False, ht_sender_priority = -1\<rparr>]
        (d_dest pck) (d_src pck) (d_time pck))
       \<lparr>d_sport := xf_sport f, d_dport := xf_dport f, d_ecn := (if useECN cfg then 1 else 0)\<rparr>"

definition max_idletime :: simtime where
  "max_idletime = 2 / 100000"

definition XPASS_receive_credit :: "xp_cfg \<Rightarrow> simtime \<Rightarrow> dgram \<Rightarrow> xpass \<Rightarrow> (xpass \<times> xp_effect list) res" where
  "XPASS_receive_credit cfg now pck s =
     (if now \<ge> stopTime cfg \<or> remainSize s = 0 then
        Inr (s\<lparr>stop_timers := d_src pck # stop_timers s\<rparr>, [XArm (SendStop (d_src pck)) (now + max_idletime)])
      else
        rbind (last_tag (packet.truncate pck)) (\<lambda>tag.
        rbind (xp_take cfg s) (\<lambda>(k, f, lst, s1).
          let s2 = xp_note_flow f s1
          in Inr (s2, [XDown (xp_data cfg pck (long_of (ht_packetid tag)) k f lst (xp_last_creation_time s2))]))))"

definition XPASS_send_stop :: "int \<Rightarrow> xpass \<Rightarrow> (xpass \<times> xp_effect list) res" where
  "XPASS_send_stop a s =
     Inr (s\<lparr>sender_StateMap := map_put a CSTOP_SENT (sender_StateMap s)\<rparr>,
          [XDown (xp_packet ''credit_stop'' 0 [] (xp_srcaddr s) a 0)])"

subsection \<open>Adapting the rate of the credits\<close>

text \<open>
  The share of credits that were lost: outside of 0 to 1, as when packets come out of order, it counts as
  1.  The quotient by zero is infinite.
\<close>

definition xp_loss :: "int \<Rightarrow> int \<Rightarrow> double res" where
  "xp_loss lost pcks =
     (if pcks + lost = 0 then (if lost = 0 then Inl FloatConversion else Inr 1)
      else
        let q = of_int lost / of_int (pcks + lost) in Inr (if q < 0 \<or> q > 1 then 1 else q))"

definition halve_omega :: "xp_cfg \<Rightarrow> double \<Rightarrow> double" where
  "halve_omega cfg w = (if w / 2 > wmin cfg then w / 2 else wmin cfg)"

definition XPASS_feedback_control :: "xp_cfg \<Rightarrow> xp_rcv \<Rightarrow> xp_rcv res" where
  "XPASS_feedback_control cfg t =
     rbind (xp_loss (sumlost t) (pck_in_rtt t)) (\<lambda>loss.
       let w0 = omega t;
           (rate, w, inc) =
             (if loss \<le> targetratio cfg then
                let w = (if previousincrease t then (w0 + wmax cfg) / 2 else w0)
                in ((1 - w) * current_speed t + w * maxrate cfg * (1 + targetratio cfg), w, True)
              else (current_speed t * (1 - loss) * (1 + targetratio cfg), halve_omega cfg w0, False))
       in Inr (t\<lparr>omega := w, previousincrease := inc, current_speed := (if rate > maxrate cfg then maxrate cfg else rate)\<rparr>))"

text \<open>The correction by the round-trip time, if it is used: the rate and the loss after it.\<close>

definition xp_rtt_control :: "xp_cfg \<Rightarrow> simtime \<Rightarrow> double \<Rightarrow> double \<Rightarrow> (double \<times> double) res" where
  "xp_rtt_control cfg rtt loss rate =
     (if \<not> useRTT cfg then Inr (rate, loss)
      else if rtt < tlow cfg then Inr (rate, 0)
      else if rtt > thigh cfg then
        (if rtt = 0 then Inl FloatConversion else Inr (rate * (1 - rtt_beta cfg * (1 - thigh cfg / rtt)), loss))
      else Inl Uninitialized)"

definition XPASS_ecnbased_control :: "xp_cfg \<Rightarrow> xp_rcv \<Rightarrow> xp_rcv res" where
  "XPASS_ecnbased_control cfg t =
     rbind (xp_loss (sumlost t) (pck_in_rtt t)) (\<lambda>loss0.
       if pck_in_rtt t = 0 then Inl FloatConversion
       else
         let ecnratio = of_int (ecn_in_rtt t) / of_int (pck_in_rtt t);
             a = (1 - gamma cfg) * xr_alpha t + gamma cfg * ecnratio;
             rate1 = (if ecnratio > 0 then current_speed t * (1 - (0 + a) / 2) else current_speed t * (1 + (0 + a) / 2))
         in rbind (xp_rtt_control cfg (xr_nowRTT t) loss0 rate1) (\<lambda>(rate2, loss).
              let (rate3, w, inc) =
                    (if loss \<le> targetratio cfg then (rate2, omega t, previousincrease t)
                     else (rate2 * (1 - loss) * (1 + targetratio cfg), halve_omega cfg (omega t), False));
                  rate4 = (if rate3 < 20000 then 20000 else rate3);
                  rate5 = (if rate4 > maxrate cfg then maxrate cfg else rate4)
              in Inr (t\<lparr>omega := w, previousincrease := inc, xr_alpha := a, current_speed := rate5,
                        targetRate := (if rate5 > current_speed t then rate5 else current_speed t)\<rparr>)))"

text \<open>The steps of the increase timers.\<close>

definition frSteps_th :: int where
  "frSteps_th = 5"

definition xp_accel :: "xp_rcv \<Rightarrow> accel_state" where
  "xp_accel t =
     (if max (ByteFrSteps t) (TimeFrSteps t) < frSteps_th then Fast_Recovery
      else if min (ByteFrSteps t) (TimeFrSteps t) > frSteps_th then Hyper_Increase
      else Additive_Increase)"

definition xp_raise :: "xp_cfg \<Rightarrow> double \<Rightarrow> xp_rcv \<Rightarrow> xp_rcv" where
  "xp_raise cfg d t =
     (let target = (if targetRate t + d > maxrate cfg then maxrate cfg else targetRate t + d)
      in t\<lparr>targetRate := target, current_speed := (current_speed t + target) / 2\<rparr>)"

definition XPASS_increaseTxRate :: "xp_cfg \<Rightarrow> int \<Rightarrow> xpass \<Rightarrow> xpass res" where
  "XPASS_increaseTxRate cfg a s =
     (case map_get (xp_receivers s) a of
        None \<Rightarrow> Inl EndIterator
      | Some t \<Rightarrow>
          let t1 = t\<lparr>xr_state := xp_accel t\<rparr>;
              t2 = (case xr_state t1 of
                      Fast_Recovery \<Rightarrow> t1\<lparr>current_speed := (current_speed t1 + targetRate t1) / 2\<rparr>
                    | Additive_Increase \<Rightarrow> xp_raise cfg (Rai cfg) t1
                    | Hyper_Increase \<Rightarrow> xp_raise cfg (of_int (iRhai t1 + 1) * Rhai cfg) (t1\<lparr>iRhai := iRhai t1 + 1\<rparr>)
                    | Normal \<Rightarrow> t1)
          in Inr (s\<lparr>xp_receivers := map_put a t2 (xp_receivers s)\<rparr>))"

definition XPASS_updateAlpha :: "xp_cfg \<Rightarrow> simtime \<Rightarrow> int \<Rightarrow> xpass \<Rightarrow> (xpass \<times> xp_effect list) res" where
  "XPASS_updateAlpha cfg now a s =
     (case map_get (xp_receivers s) a of
        None \<Rightarrow> Inl EndIterator
      | Some t \<Rightarrow>
          let tm = now + xp_nowRTT s + 5 / 1000000
          in if tm < now then Inl (RuntimeError ''cannot schedule a message to the past'')
             else Inr (s\<lparr>xp_receivers := map_put a (t\<lparr>xr_alpha := (1 - gamma cfg) * xr_alpha t\<rparr>) (xp_receivers s),
                         alpha_timer := (alpha_timer s)(a := Some tm)\<rparr>, [XArm (XAlphaTimer a) tm]))"

subsection \<open>Data\<close>

text \<open>The number of a data packet; without a tag the number of the packet before it stays.\<close>

definition data_seq :: "dgram \<Rightarrow> xp_rcv \<Rightarrow> int" where
  "data_seq pck t = (if p_tags pck = [] then now_received_data_seq t else number_of (ht_packetid (last (p_tags pck))))"

text \<open>The end of a round trip: the credits lost in it, and the reaction.\<close>

definition ecn_round :: "xp_cfg \<Rightarrow> simtime \<Rightarrow> dgram \<Rightarrow> xp_rcv \<Rightarrow> xp_rcv res" where
  "ecn_round cfg now pck t =
     rbind (XPASS_ecnbased_control cfg
              (t\<lparr>preRTT := xr_nowRTT t, xr_nowRTT := now - d_time pck,
                 sumlost := now_received_data_seq t - last_received_data_seq t - pck_in_rtt t\<rparr>)) (\<lambda>t1.
       Inr (t1\<lparr>last_received_data_seq := now_received_data_seq t1, last_Fbtime := now, pck_in_rtt := 0, ecn_in_rtt := 0\<rparr>))"

definition loss_round :: "xp_cfg \<Rightarrow> simtime \<Rightarrow> dgram \<Rightarrow> xp_rcv \<Rightarrow> xp_rcv res" where
  "loss_round cfg now pck t =
     rbind (XPASS_feedback_control cfg
              (t\<lparr>sumlost := now_received_data_seq t - last_received_data_seq t - pck_in_rtt t\<rparr>)) (\<lambda>t1.
       Inr (t1\<lparr>xr_nowRTT := now - d_time pck, last_Fbtime := now, sumlost := 0,
               last_received_data_seq := now_received_data_seq t1, pck_in_rtt := 0\<rparr>))"

text \<open>The byte counter, in use once the entry has left the state \<open>Normal\<close>.\<close>

definition count_bytes :: "xp_cfg \<Rightarrow> dgram \<Rightarrow> xp_rcv \<Rightarrow> xpass \<Rightarrow> (xp_rcv \<times> xpass) res" where
  "count_bytes cfg pck t s =
     (if xr_state t = Normal then Inr (t, s)
      else
        let a = d_src pck; t1 = t\<lparr>ByteCounter := ByteCounter t + bytes_of (p_bits pck)\<rparr>
        in if ByteCounter t1 \<ge> 10000000 then
             rbind (XPASS_increaseTxRate cfg a s) (\<lambda>s1.
               Inr (t1\<lparr>ByteFrSteps := ByteFrSteps t1 + 1, ByteCounter := ByteCounter t1 - 10000000\<rparr>, s1))
           else Inr (t1, s\<lparr>xp_receivers := map_put a t1 (xp_receivers s)\<rparr>))"

definition XPASS_receive_data :: "xp_cfg \<Rightarrow> simtime \<Rightarrow> dgram \<Rightarrow> xpass \<Rightarrow> (xpass \<times> xp_effect list) res" where
  "XPASS_receive_data cfg now pck s =
     (let a = d_src pck in
      case map_get (xp_receivers s) a of
        None \<Rightarrow> Inr (s, [XUp pck])
      | Some t0 \<Rightarrow>
          let t = t0\<lparr>now_received_data_seq := data_seq pck t0\<rparr> in
          if useECN cfg then
            rbind (count_bytes cfg pck t s) (\<lambda>(t1, s1).
              let t2 = t1\<lparr>pck_in_rtt := pck_in_rtt t1 + 1, ecn_in_rtt := ecn_in_rtt t1 + (if d_ecn pck = 3 then 1 else 0)\<rparr>
              in rbind (if now - last_Fbtime t2 \<ge> xr_nowRTT t2 then
                          rbind (ecn_round cfg now pck t2) (\<lambda>t3. Inr (t3, s1\<lparr>xp_nowRTT := now - d_time pck\<rparr>))
                        else Inr (t2, s1)) (\<lambda>(t3, s2).
                   Inr (s2\<lparr>xp_receivers := map_put a t3 (xp_receivers s2)\<rparr>, [XUp pck])))
          else
            let t1 = t\<lparr>pck_in_rtt := pck_in_rtt t + 1\<rparr>
            in rbind (if now - last_Fbtime t1 < xr_nowRTT t1 then Inr t1 else loss_round cfg now pck t1) (\<lambda>t2.
                 Inr (s\<lparr>xp_receivers := map_put a t2 (xp_receivers s)\<rparr>, [XUp pck])))"

subsection \<open>The module\<close>

definition XPASS_processLowerpck :: "xp_cfg \<Rightarrow> simtime \<Rightarrow> dgram \<Rightarrow> xpass \<Rightarrow> (xpass \<times> xp_effect list) res" where
  "XPASS_processLowerpck cfg now pck s =
     (if p_name pck = ''credit_req'' then XPASS_receive_credreq cfg now pck s
      else if p_name pck = ''credit'' then XPASS_receive_credit cfg now pck s
      else if p_name pck = ''credit_stop'' then XPASS_receive_stopcred pck s
      else if contains ''XPASSData'' (p_name pck) then XPASS_receive_data cfg now pck s
      else Inr (s, [XUp pck]))"

text \<open>The rate timer takes a step and is started again, at \<open>nowRTT\<close> and five microseconds.\<close>

definition xp_rate_timer :: "xp_cfg \<Rightarrow> simtime \<Rightarrow> int \<Rightarrow> xpass \<Rightarrow> (xpass \<times> xp_effect list) res" where
  "xp_rate_timer cfg now a s =
     (case map_get (xp_receivers s) a of
        None \<Rightarrow> Inl EndIterator
      | Some t \<Rightarrow>
          rbind (XPASS_increaseTxRate cfg a
                   (s\<lparr>xp_receivers := map_put a (t\<lparr>TimeFrSteps := TimeFrSteps t + 1\<rparr>) (xp_receivers s)\<rparr>)) (\<lambda>s1.
            let tm = now + xp_nowRTT s1 + 5 / 1000000
            in if tm < now then Inl (RuntimeError ''cannot schedule a message to the past'')
               else Inr (s1\<lparr>rate_timer := (rate_timer s1)(a := Some tm)\<rparr>, [XCancel (XRateTimer a), XArm (XRateTimer a) tm])))"

text \<open>Each event: a timer that is not armed does not fire.\<close>

fun XPASS_handleMessage :: "xp_cfg \<Rightarrow> simtime \<times> xp_op \<Rightarrow> xpass \<Rightarrow> (xpass \<times> xp_effect list) res" where
  "XPASS_handleMessage cfg (now, CreditDue a jitter) s =
     (if credit_timer s a = None then Inr (s, [])
      else XPASS_send_credit now jitter a (s\<lparr>credit_timer := (credit_timer s)(a := None)\<rparr>))"
| "XPASS_handleMessage cfg (now, AlphaDue a) s =
     (if alpha_timer s a = None then Inr (s, [])
      else XPASS_updateAlpha cfg now a (s\<lparr>alpha_timer := (alpha_timer s)(a := None)\<rparr>))"
| "XPASS_handleMessage cfg (now, RateDue a) s =
     (if rate_timer s a = None then Inr (s, [])
      else xp_rate_timer cfg now a (s\<lparr>rate_timer := (rate_timer s)(a := None)\<rparr>))"
| "XPASS_handleMessage cfg (now, StopDue a) s =
     (if a \<notin> set (stop_timers s) then Inr (s, [])
      else XPASS_send_stop a (s\<lparr>stop_timers := remove1 a (stop_timers s)\<rparr>))"
| "XPASS_handleMessage cfg (now, XUpper pck) s = XPASS_processUpperpck cfg now pck s"
| "XPASS_handleMessage cfg (now, XLower pck) s = XPASS_processLowerpck cfg now pck s"

subsection \<open>Data answers credits\<close>

abbreviation xp_is_data :: "dgram \<Rightarrow> bool" where
  "xp_is_data q \<equiv> contains ''XPASSData'' (p_name q)"

text \<open>The credits an event brings, and the data packets among effects: the other host and the number.\<close>

fun credits_in :: "simtime \<times> xp_op \<Rightarrow> (int \<times> int) list" where
  "credits_in (now, XLower p) = (if p_name p = ''credit'' then [(d_src p, long_of (ht_packetid (last (p_tags p))))] else [])"
| "credits_in (now, _) = []"

fun data_out :: "xp_effect list \<Rightarrow> (int \<times> int) list" where
  "data_out [] = []"
| "data_out (XDown q # es) = (if xp_is_data q then (d_dest q, ht_packetid (last (p_tags q))) # data_out es else data_out es)"
| "data_out (_ # es) = data_out es"

lemma data_out_append: "data_out (es @ es') = data_out es @ data_out es'"
  by (induction es rule: data_out.induct) auto

lemma xp_packet_fields [simp]:
  "p_name (xp_packet nm b tags src dest ts) = nm" "d_dest (xp_packet nm b tags src dest ts) = dest"
  "p_tags (xp_packet nm b tags src dest ts) = tags" "d_src (xp_packet nm b tags src dest ts) = src"
  by (simp_all add: xp_packet_def)

lemma xp_data_name: "p_name (xp_data cfg p n k f lst c) = ''XPASSData-'' @ int_digits (sint k) @ ''-'' @ int_digits n"
  by (simp add: xp_data_def)

lemma xp_data_is_data [simp]: "xp_is_data (xp_data cfg p n k f lst c)"
proof -
  have "p_name (xp_data cfg p n k f lst c) = [] @ ''XPASSData'' @ (''-'' @ int_digits (sint k) @ ''-'' @ int_digits n)"
    by (simp add: xp_data_name)
  then show ?thesis by (simp only: contains_append) blast
qed

lemma xp_data_fields [simp]:
  "d_dest (xp_data cfg p n k f lst c) = d_src p" "ht_packetid (last (p_tags (xp_data cfg p n k f lst c))) = n"
  "ht_flowid (last (p_tags (xp_data cfg p n k f lst c))) = k" "ht_last (last (p_tags (xp_data cfg p n k f lst c))) = lst"
  "p_tags (xp_data cfg p n k f lst c) \<noteq> []"
  by (simp_all add: xp_data_def)

lemma control_names [simp]: "\<not> contains ''XPASSData'' ''credit_req''" "\<not> contains ''XPASSData'' ''credit''" "\<not> contains ''XPASSData'' ''credit_stop''"
  by code_simp+

lemma xp_data_prefix: "contains ''XPASSData'' n \<Longrightarrow> contains ''Data'' n"
proof -
  assume "contains ''XPASSData'' n"
  then obtain u v where "n = (u @ ''XPASS'') @ ''Data'' @ v" by (auto simp: contains_append)
  then show ?thesis by (simp only: contains_append) blast
qed

text \<open>The parts of the state each handler of the receiving side may change; they send no data.\<close>

definition sender_part :: "xpass \<Rightarrow> xpass \<Rightarrow> bool" where
  "sender_part s s' \<longleftrightarrow> xp_flows s' = xp_flows s \<and> remainSize s' = remainSize s"

lemma sender_part_simps [simp]: "sender_part s s" 
  by (simp add: sender_part_def)

lemma credit_Inr:
  assumes "XPASS_receive_credit cfg now p s = Inr (s', es)"
  obtains (stop) "now \<ge> stopTime cfg \<or> remainSize s = 0" and "sender_part s s'" and "es = [XArm (SendStop (d_src p)) (now + max_idletime)]"
    and "xp_receivers s' = xp_receivers s"
    | (data) k f lst s1 where "now < stopTime cfg" and "remainSize s \<noteq> 0" and "p_tags p \<noteq> []" and "xp_take cfg s = Inr (k, f, lst, s1)"
      and "s' = xp_note_flow f s1"
      and "es = [XDown (xp_data cfg p (long_of (ht_packetid (last (p_tags p)))) k f lst (xp_last_creation_time s'))]"
proof (cases "now \<ge> stopTime cfg \<or> remainSize s = 0")
  case True
  with assms stop show thesis by (auto simp: XPASS_receive_credit_def sender_part_def)
next
  case False
  with assms have t: "p_tags p \<noteq> []" by (auto simp: XPASS_receive_credit_def last_tag_def packet.truncate_def split: if_splits)
  with False assms obtain k f lst s1 where "xp_take cfg s = Inr (k, f, lst, s1)" "s' = xp_note_flow f s1"
    "es = [XDown (xp_data cfg p (long_of (ht_packetid (last (p_tags p)))) k f lst (xp_last_creation_time s'))]"
    by (auto simp: XPASS_receive_credit_def tag_of_truncate rbind_eq_Inr Let_def)
  with False t data show thesis by force
qed

lemma take_frame:
  assumes "xp_take cfg s = Inr (k, f, lst, s')"
  shows "s' = s\<lparr>remainSize := remainSize s', xp_flows := xp_flows s'\<rparr>"
  using assms by (auto simp: xp_take_def Let_def split: list.splits if_splits)

text \<open>The other packets from below.\<close>

lemma receive_data_Inr:
  assumes "XPASS_receive_data cfg now p s = Inr (s', es)"
  shows "es = [XUp p] \<and> sender_part s s' \<and> receiver_StateMap s' = receiver_StateMap s \<and> credit_timer s' = credit_timer s"
proof (cases "map_get (xp_receivers s) (d_src p)")
  case None
  with assms show ?thesis by (simp add: XPASS_receive_data_def)
next
  case (Some t0)
  have inc: "XPASS_increaseTxRate cfg a u = Inr u' \<Longrightarrow> \<exists>M. u' = u\<lparr>xp_receivers := M\<rparr>" for a u u'
    by (auto simp: XPASS_increaseTxRate_def Let_def split: option.splits)
  have cnt: "count_bytes cfg p t s = Inr (t1, s1) \<Longrightarrow> \<exists>M. s1 = s\<lparr>xp_receivers := M\<rparr>" for t t1 s1
    using inc by (auto simp: count_bytes_def Let_def rbind_eq_Inr split: if_splits intro: exI[of _ "xp_receivers s"])
  show ?thesis
  proof (cases "useECN cfg")
    case True
    let ?t = "t0\<lparr>now_received_data_seq := data_seq p t0\<rparr>"
    let ?f = "\<lambda>(t1, s1). let t2 = t1\<lparr>pck_in_rtt := pck_in_rtt t1 + 1, ecn_in_rtt := ecn_in_rtt t1 + (if d_ecn p = 3 then 1 else 0)\<rparr>
              in if now - last_Fbtime t2 \<ge> xr_nowRTT t2 then
                          rbind (ecn_round cfg now p t2) (\<lambda>t3. Inr (t3, s1\<lparr>xp_nowRTT := now - d_time p\<rparr>))
                        else Inr (t2, s1)"
    from True assms Some obtain c r where c: "count_bytes cfg p ?t s = Inr c" and r: "?f c = Inr r"
      and s': "s' = (snd r)\<lparr>xp_receivers := map_put (d_src p) (fst r) (xp_receivers (snd r))\<rparr>" "es = [XUp p]"
      by (auto simp: XPASS_receive_data_def Let_def rbind_eq_Inr)
    obtain t1 s1 where c2: "c = (t1, s1)" by (cases c)
    have "snd r = s1 \<or> snd r = s1\<lparr>xp_nowRTT := now - d_time p\<rparr>"
      using r unfolding c2 by (auto simp: Let_def rbind_eq_Inr split: if_splits)
    with cnt[OF c[unfolded c2]] s' show ?thesis by (auto simp: sender_part_def)
  next
    case False
    with assms Some show ?thesis by (auto simp: XPASS_receive_data_def Let_def rbind_eq_Inr sender_part_def)
  qed
qed

text \<open>What a step is, seen from the sending side.\<close>

lemma xp_step_data:
  assumes "XPASS_handleMessage cfg x s = Inr (s', es)" and "activate cfg"
  shows "subseq (data_out es) (credits_in x)"
proof -
  obtain now e where x: "x = (now, e)" by (cases x)
  show ?thesis
  proof (cases e)
    case (XUpper p)
    have "data_out es = []"
    proof (cases "contains ''Data'' (p_name p)")
      case True
      with assms x XUpper show ?thesis
        by (auto simp: XPASS_processUpperpck_def XPASS_send_credreq_def rbind_eq_Inr Let_def split: if_splits option.splits)
    next
      case False
      then have "\<not> xp_is_data p" using xp_data_prefix by blast
      with False assms x XUpper show ?thesis by (auto simp: XPASS_processUpperpck_def)
    qed
    then show ?thesis by simp
  next
    case (XLower p)
    show ?thesis
    proof (cases "p_name p = ''credit''")
      case True
      with assms(1) x XLower have "XPASS_receive_credit cfg now p s = Inr (s', es)" by (simp add: XPASS_processLowerpck_def)
      then show ?thesis by (cases rule: credit_Inr) (use True x XLower in auto)
    next
      case False
      with assms(1) x XLower have "data_out es = []"
        by (auto simp: XPASS_processLowerpck_def XPASS_receive_credreq_def XPASS_receive_stopcred_def Let_def
            dest: receive_data_Inr split: if_splits)
      then show ?thesis by simp
    qed
  qed (use assms(1) x in \<open>auto simp: XPASS_send_credit_def XPASS_updateAlpha_def xp_rate_timer_def XPASS_send_stop_def
        rbind_eq_Inr Let_def split: if_splits option.splits\<close>)
qed


text \<open>The machine whose observed output answers the input: each output is that of one input, in their order.\<close>

locale answering_machine =
  fixes step :: "'op \<Rightarrow> 's \<Rightarrow> ('s \<times> 'e list) res"
    and observe :: "'e list \<Rightarrow> 'o list" and asked :: "'op \<Rightarrow> 'o list" and accepts :: bool
  assumes answer_append: "observe (es @ fs) = observe es @ observe fs"
    and answer_step: "accepts \<Longrightarrow> step x s = Inr (s', es) \<Longrightarrow> subseq (observe es) (asked x)"
begin

lemma answer_run: "accepts \<Longrightarrow> run_out step xs s = Inr (s', es) \<Longrightarrow> subseq (observe es) (concat (map asked xs))"
proof (induction xs arbitrary: s es)
  case Nil
  have "observe [] = []" using answer_append[of "[]" "[]"] by simp
  then show ?case using Nil by simp
next
  case (Cons x xs)
  from Cons.prems(2) obtain s1 es1 es2 where "step x s = Inr (s1, es1)" "run_out step xs s1 = Inr (s', es2)" "es = es1 @ es2"
    by (auto simp: run_out_Cons_Inr simp del: run_out.simps)
  with Cons.IH[OF Cons.prems(1)] answer_step[OF Cons.prems(1)] show ?case by (auto simp: answer_append intro: list_emb_append_mono)
qed

end

interpretation xp_answers: answering_machine "XPASS_handleMessage cfg" data_out credits_in "activate cfg" for cfg
  by unfold_locales (simp_all add: data_out_append xp_step_data)

text \<open>C23: The protocol.  Whatever reaches a host where the module is active (\<open>activate\<close>, the default), the data packets it sends answer the credits it received, one credit each: the
  sequence of the hosts and numbers of the data packets is a subsequence of that of the credits.\<close>

theorem xpass_data_answers_credits:
  assumes "activate cfg" and "run_out (XPASS_handleMessage cfg) xs s = Inr (s', es)"
  shows "subseq (data_out es) (concat (map credits_in xs))"
  using assms by (rule xp_answers.answer_run)

subsection \<open>Credits\<close>

text \<open>The credits for a host among effects, by their numbers.\<close>

fun credits_out :: "int \<Rightarrow> xp_effect list \<Rightarrow> int list" where
  "credits_out a [] = []"
| "credits_out a (XDown q # es) =
     (if p_name q = ''credit'' \<and> d_dest q = a then ht_packetid (last (p_tags q)) # credits_out a es else credits_out a es)"
| "credits_out a (_ # es) = credits_out a es"

lemma credits_out_append [simp]: "credits_out a (es @ es') = credits_out a es @ credits_out a es'"
  by (induction a es rule: credits_out.induct) auto


text \<open>What every entry, and the timers, satisfy in a run.\<close>

definition xp_cfg_ok :: "xp_cfg \<Rightarrow> bool" where
  "xp_cfg_ok cfg \<longleftrightarrow> 0 < linkspeed cfg \<and> 0 < initialrate cfg \<and> initialrate cfg \<le> 1 \<and> 0 \<le> targetratio cfg \<and> targetratio cfg < 1 \<and>
     0 \<le> wmin cfg \<and> wmin cfg \<le> 1 \<and> 0 \<le> wmax cfg \<and> wmax cfg \<le> 1"

definition xp_rcv_ok :: "xp_cfg \<Rightarrow> int \<Rightarrow> xp_rcv \<Rightarrow> bool" where
  "xp_rcv_ok cfg a r \<longleftrightarrow> xr_dest r = a \<and> xr_state r = Normal \<and> 0 \<le> pck_in_rtt r \<and> 0 \<le> omega r \<and> omega r \<le> 1 \<and>
     0 \<le> current_speed r \<and> current_speed r \<le> maxrate cfg \<and> (useECN cfg \<longrightarrow> 0 < current_speed r)"

definition xp_inv :: "xp_cfg \<Rightarrow> xpass \<Rightarrow> bool" where
  "xp_inv cfg s \<longleftrightarrow> (\<forall>a r. map_get (xp_receivers s) a = Some r \<longrightarrow> xp_rcv_ok cfg a r) \<and>
     (\<forall>a. rate_timer s a = None \<and> alpha_timer s a = None) \<and>
     (\<forall>a. credit_timer s a \<noteq> None \<longrightarrow> map_get (xp_receivers s) a \<noteq> None)"

definition rcv_part :: "xpass \<Rightarrow> xpass \<Rightarrow> bool" where
  "rcv_part s s' \<longleftrightarrow> xp_receivers s' = xp_receivers s \<and> rate_timer s' = rate_timer s \<and> alpha_timer s' = alpha_timer s \<and>
     credit_timer s' = credit_timer s"

lemma xp_inv_part: "xp_inv cfg s \<Longrightarrow> rcv_part s s' \<Longrightarrow> xp_inv cfg s'"
  by (simp add: xp_inv_def rcv_part_def)

lemma xp_inv_put:
  assumes "xp_inv cfg s" and "xp_rcv_ok cfg a r" and "xp_receivers s' = map_put a r (xp_receivers s)"
    and "rate_timer s' = rate_timer s" and "alpha_timer s' = alpha_timer s" and "\<forall>b. b \<noteq> a \<longrightarrow> credit_timer s' b = credit_timer s b"
  shows "xp_inv cfg s'"
  using assms by (auto simp: xp_inv_def get_put)

text \<open>The steps of the sending side, and what happens in an entry of the receiving side.\<close>

lemma upper_part:
  "XPASS_processUpperpck cfg now p s = Inr (s', es) \<Longrightarrow> rcv_part s s' \<and> (p_name p \<noteq> ''credit'' \<longrightarrow> credits_out a es = [])"
  by (auto simp: XPASS_processUpperpck_def XPASS_send_credreq_def rbind_eq_Inr Let_def rcv_part_def split: if_splits option.splits)

lemma credit_part:
  assumes "XPASS_receive_credit cfg now p s = Inr (s', es)"
  shows "rcv_part s s' \<and> credits_out a es = []"
  using assms
proof (cases rule: credit_Inr)
  case (data k f lst s1)
  have "rcv_part s s1" by (subst take_frame[OF data(4)]) (simp add: rcv_part_def)
  moreover have "p_name (xp_data cfg p n k f lst c) \<noteq> ''credit''" for n c by (simp add: xp_data_name)
  ultimately show ?thesis by (simp add: data(5,6) rcv_part_def xp_note_flow_def)
qed (use assms in \<open>auto simp: XPASS_receive_credit_def rcv_part_def rbind_eq_Inr Let_def split: if_splits\<close>)

lemma new_rcv_ok: "xp_cfg_ok cfg \<Longrightarrow> xp_rcv_ok cfg (d_src p) (xp_new_rcv cfg now p)"
  by (simp add: xp_cfg_ok_def xp_rcv_ok_def xp_new_rcv_def currate_def maxrate_def mult_le_one)

lemma credreq_part:
  assumes "XPASS_receive_credreq cfg now p s = Inr (s', es)" and "xp_inv cfg s" and "xp_cfg_ok cfg"
  shows "xp_inv cfg s' \<and> credits_out b es = [] \<and>
     (\<forall>a. map_get (xp_receivers s') a = map_get (xp_receivers s) a \<or>
          map_get (xp_receivers s) a = None \<and> map_get (xp_receivers s') a = Some (xp_new_rcv cfg now p) \<and> a = d_src p)"
proof (cases "map_get (receiver_StateMap s) (d_src p) = Some CREDIT_SENDING")
  case True
  with assms show ?thesis by (auto simp: XPASS_receive_credreq_def Let_def xp_inv_def)
next
  case False
  let ?R = "if map_get (xp_receivers s) (d_src p) = None then map_put (d_src p) (xp_new_rcv cfg now p) (xp_receivers s) else xp_receivers s"
  from False assms(1) have s': "xp_receivers s' = ?R" "rate_timer s' = rate_timer s" "alpha_timer s' = alpha_timer s"
      "credit_timer s' = (credit_timer s)(d_src p := Some now)" "es = [XCancel (SendCredit (d_src p)), XArm (SendCredit (d_src p)) now]"
    by (auto simp: XPASS_receive_credreq_def Let_def get_put split: if_splits)
  with assms(2,3) new_rcv_ok[OF assms(3)] show ?thesis by (auto simp: xp_inv_def get_put)
qed

text \<open>The reactions to a round trip.\<close>

lemma loss_range: "xp_loss l n = Inr x \<Longrightarrow> 0 \<le> x \<and> x \<le> 1"
  by (auto simp: xp_loss_def Let_def split: if_splits)

lemma halve_range: "xp_cfg_ok cfg \<Longrightarrow> 0 \<le> w \<Longrightarrow> w \<le> 1 \<Longrightarrow> 0 \<le> halve_omega cfg w \<and> halve_omega cfg w \<le> 1"
  by (auto simp: halve_omega_def xp_cfg_ok_def)

lemma maxrate_pos: "xp_cfg_ok cfg \<Longrightarrow> 0 < maxrate cfg"
  by (simp add: maxrate_def xp_cfg_ok_def)

lemma feedback_Inr:
  assumes "XPASS_feedback_control cfg t = Inr t'" and "xp_cfg_ok cfg" and "xp_rcv_ok cfg a t" and "\<not> useECN cfg"
  shows "xp_rcv_ok cfg a t' \<and> now_send_cdt_seq t' = now_send_cdt_seq t \<and>
     (0 < current_speed t \<longrightarrow> (current_speed t' = 0 \<longleftrightarrow> xp_loss (sumlost t) (pck_in_rtt t) = Inr 1))"
proof -
  from assms(1) obtain l where l: "xp_loss (sumlost t) (pck_in_rtt t) = Inr l"
    by (auto simp: XPASS_feedback_control_def rbind_eq_Inr)
  note r = loss_range[OF l] and m = maxrate_pos[OF assms(2)]
  have c: "0 \<le> current_speed t" "current_speed t \<le> maxrate cfg" "0 \<le> omega t" "omega t \<le> 1" "xr_dest t = a" "xr_state t = Normal" "0 \<le> pck_in_rtt t"
    using assms(3) by (simp_all add: xp_rcv_ok_def)
  have g: "0 \<le> targetratio cfg" "targetratio cfg < 1" "0 \<le> wmax cfg" "wmax cfg \<le> 1" using assms(2) by (simp_all add: xp_cfg_ok_def)
  show ?thesis
  proof (cases "l \<le> targetratio cfg")
    case True
    define w where "w = (if previousincrease t then (omega t + wmax cfg) / 2 else omega t)"
    define x where "x = (1 - w) * current_speed t + w * maxrate cfg * (1 + targetratio cfg)"
    have w: "0 \<le> w" "w \<le> 1" using c g by (simp_all add: w_def)
    have x: "0 \<le> x" using w c m g by (simp add: x_def)
    have xp: "0 < x" if "0 < current_speed t"
    proof (cases "w = 1")
      case True
      with m g show ?thesis by (simp add: x_def)
    next
      case False
      with w that have "0 < (1 - w) * current_speed t" by simp
      moreover have "0 \<le> w * maxrate cfg * (1 + targetratio cfg)" using w m g by simp
      ultimately show ?thesis by (simp add: x_def)
    qed
    note t' = assms(1)[unfolded XPASS_feedback_control_def l rbind_Inr Let_def if_P[OF True] prod.case sum.inject, folded w_def,
        folded x_def, symmetric]
    from True g have "l \<noteq> 1" by simp
    with x xp w m c l assms(4) show ?thesis by (auto simp: t' xp_rcv_ok_def)
  next
    case False
    define x where "x = current_speed t * (1 - l) * (1 + targetratio cfg)"
    have x: "0 \<le> x" using r c g by (simp add: x_def)
    have x0: "x = 0 \<longleftrightarrow> l = 1" if "0 < current_speed t" using that g by (auto simp: x_def)
    note t' = assms(1)[unfolded XPASS_feedback_control_def l rbind_Inr Let_def if_not_P[OF False] prod.case sum.inject, folded x_def, symmetric]
    from x x0 halve_range[OF assms(2) c(3,4)] m c l assms(4) show ?thesis by (auto simp: t' xp_rcv_ok_def)
  qed
qed

lemma ecnbased_Inr:
  assumes "XPASS_ecnbased_control cfg t = Inr t'" and "xp_cfg_ok cfg" and "xp_rcv_ok cfg a t"
  shows "xp_rcv_ok cfg a t' \<and> now_send_cdt_seq t' = now_send_cdt_seq t"
proof -
  have c: "0 \<le> omega t" "omega t \<le> 1" "xr_dest t = a" "xr_state t = Normal" "0 \<le> pck_in_rtt t" using assms(3) by (simp_all add: xp_rcv_ok_def)
  have "\<exists>r w inc al tg. t' = t\<lparr>omega := w, previousincrease := inc, xr_alpha := al,
      current_speed := (let r4 = (if r < 20000 then 20000 else r) in if r4 > maxrate cfg then maxrate cfg else r4), targetRate := tg\<rparr> \<and>
      (w = omega t \<or> w = halve_omega cfg (omega t))"
  proof -
    let ?q = "of_int (ecn_in_rtt t) / of_int (pck_in_rtt t) :: double"
    define al where "al = (1 - gamma cfg) * xr_alpha t + gamma cfg * ?q"
    define r1 where "r1 = (if ?q > 0 then current_speed t * (1 - (0 + al) / 2) else current_speed t * (1 + (0 + al) / 2))"
    from assms(1) obtain l0 where l0: "xp_loss (sumlost t) (pck_in_rtt t) = Inr l0" and n: "pck_in_rtt t \<noteq> 0"
      by (cases "xp_loss (sumlost t) (pck_in_rtt t)") (auto simp: XPASS_ecnbased_control_def split: if_splits)
    note d = assms(1)[unfolded XPASS_ecnbased_control_def l0 rbind_Inr if_not_P[OF n] Let_def, folded al_def, folded r1_def]
    obtain r2 l where rt: "xp_rtt_control cfg (xr_nowRTT t) l0 r1 = Inr (r2, l)"
      using d by (cases "xp_rtt_control cfg (xr_nowRTT t) l0 r1") auto
    note e = d[unfolded rt rbind_Inr prod.case]
    show ?thesis
    proof (cases "l \<le> targetratio cfg")
      case True
      note f = e[unfolded if_P[OF True] prod.case sum.inject]
      show ?thesis unfolding f[symmetric] Let_def by (intro exI conjI disjI1) (rule refl)+
    next
      case False
      note f = e[unfolded if_not_P[OF False] prod.case sum.inject]
      show ?thesis unfolding f[symmetric] Let_def by (intro exI conjI disjI2) (rule refl)+
    qed
  qed
  then obtain r w inc al tg where t': "t' = t\<lparr>omega := w, previousincrease := inc, xr_alpha := al,
      current_speed := (let r4 = (if r < 20000 then 20000 else r) in if r4 > maxrate cfg then maxrate cfg else r4), targetRate := tg\<rparr>"
    and w: "w = omega t \<or> w = halve_omega cfg (omega t)" by blast
  have "0 \<le> w \<and> w \<le> 1" using w c halve_range[OF assms(2)] by auto
  with c maxrate_pos[OF assms(2)] show ?thesis by (auto simp: t' xp_rcv_ok_def Let_def)
qed


text \<open>Packets of the applications are not called credits.\<close>

fun not_a_credit :: "simtime \<times> xp_op \<Rightarrow> bool" where
  "not_a_credit (_, XUpper p) = (p_name p \<noteq> ''credit'')"
| "not_a_credit (_, _) = True"

lemma ecn_round_Inr:
  assumes "ecn_round cfg now p t = Inr t'" and "xp_cfg_ok cfg" and "xp_rcv_ok cfg a t"
  shows "xp_rcv_ok cfg a t' \<and> now_send_cdt_seq t' = now_send_cdt_seq t"
proof -
  let ?u = "t\<lparr>preRTT := xr_nowRTT t, xr_nowRTT := now - d_time p,
                 sumlost := now_received_data_seq t - last_received_data_seq t - pck_in_rtt t\<rparr>"
  from assms(1) obtain t1 where t1: "XPASS_ecnbased_control cfg ?u = Inr t1"
    and t': "t' = t1\<lparr>last_received_data_seq := now_received_data_seq t1, last_Fbtime := now, pck_in_rtt := 0, ecn_in_rtt := 0\<rparr>"
    by (auto simp: ecn_round_def rbind_eq_Inr)
  have "xp_rcv_ok cfg a ?u" using assms(3) by (simp add: xp_rcv_ok_def)
  from ecnbased_Inr[OF t1 assms(2) this] show ?thesis by (simp add: t' xp_rcv_ok_def)
qed

lemma loss_round_Inr:
  assumes "loss_round cfg now p t = Inr t'" and "xp_cfg_ok cfg" and "xp_rcv_ok cfg a t" and "\<not> useECN cfg"
  shows "xp_rcv_ok cfg a t' \<and> now_send_cdt_seq t' = now_send_cdt_seq t \<and>
     (0 < current_speed t \<longrightarrow> (current_speed t' = 0 \<longleftrightarrow>
        xp_loss (now_received_data_seq t - last_received_data_seq t - pck_in_rtt t) (pck_in_rtt t) = Inr 1))"
proof -
  let ?u = "t\<lparr>sumlost := now_received_data_seq t - last_received_data_seq t - pck_in_rtt t\<rparr>"
  from assms(1) obtain t1 where t1: "XPASS_feedback_control cfg ?u = Inr t1"
    and t': "t' = t1\<lparr>xr_nowRTT := now - d_time p, last_Fbtime := now, sumlost := 0,
               last_received_data_seq := now_received_data_seq t1, pck_in_rtt := 0\<rparr>"
    by (auto simp: loss_round_def rbind_eq_Inr)
  have "xp_rcv_ok cfg a ?u" using assms(3) by (simp add: xp_rcv_ok_def)
  from feedback_Inr[OF t1 assms(2) this assms(4)] show ?thesis by (simp add: t' xp_rcv_ok_def)
qed

lemma receive_data_entry:
  assumes "XPASS_receive_data cfg now p s = Inr (s', es)" and "xp_inv cfg s" and "xp_cfg_ok cfg"
    and "map_get (xp_receivers s) (d_src p) = Some t0"
  shows "\<exists>t'. xp_receivers s' = map_put (d_src p) t' (xp_receivers s) \<and> xp_rcv_ok cfg (d_src p) t' \<and>
     now_send_cdt_seq t' = now_send_cdt_seq t0 \<and> rate_timer s' = rate_timer s \<and> alpha_timer s' = alpha_timer s \<and>
     (\<not> useECN cfg \<and> now - last_Fbtime t0 \<ge> xr_nowRTT t0 \<and> 0 < current_speed t0 \<longrightarrow>
        (current_speed t' = 0 \<longleftrightarrow>
          xp_loss (data_seq p t0 - last_received_data_seq t0 - (pck_in_rtt t0 + 1)) (pck_in_rtt t0 + 1) = Inr 1))"
proof -
  let ?a = "d_src p" and ?t = "t0\<lparr>now_received_data_seq := data_seq p t0\<rparr>"
  have ok: "xp_rcv_ok cfg ?a ?t" using assms(2,4) by (auto simp: xp_inv_def xp_rcv_ok_def)
  then have n: "count_bytes cfg p ?t s = Inr (?t, s)" by (simp add: count_bytes_def xp_rcv_ok_def)
  show ?thesis
  proof (cases "useECN cfg")
    case True
    let ?t2 = "?t\<lparr>pck_in_rtt := pck_in_rtt ?t + 1, ecn_in_rtt := ecn_in_rtt ?t + (if d_ecn p = 3 then 1 else 0)\<rparr>"
    have ok2: "xp_rcv_ok cfg ?a ?t2" using ok by (simp add: xp_rcv_ok_def)
    note d = assms(1)[unfolded XPASS_receive_data_def Let_def assms(4) option.case if_P[OF True] n rbind_Inr prod.case]
    show ?thesis
    proof (cases "now - last_Fbtime ?t2 \<ge> xr_nowRTT ?t2")
      case True
      with d obtain t3 where t3: "ecn_round cfg now p ?t2 = Inr t3"
        and s': "s' = s\<lparr>xp_nowRTT := now - d_time p, xp_receivers := map_put ?a t3 (xp_receivers s)\<rparr>"
        by (auto simp: rbind_eq_Inr)
      from ecn_round_Inr[OF t3 assms(3) ok2] show ?thesis using \<open>useECN cfg\<close> by (intro exI[of _ t3]) (simp add: s')
    next
      case False
      with d have s': "s' = s\<lparr>xp_receivers := map_put ?a ?t2 (xp_receivers s)\<rparr>" by simp
      show ?thesis using ok2 \<open>useECN cfg\<close> by (intro exI[of _ ?t2]) (simp add: s')
    qed
  next
    case False
    let ?t2 = "?t\<lparr>pck_in_rtt := pck_in_rtt ?t + 1\<rparr>"
    have ok2: "xp_rcv_ok cfg ?a ?t2" using ok by (simp add: xp_rcv_ok_def)
    note d = assms(1)[unfolded XPASS_receive_data_def Let_def assms(4) option.case if_not_P[OF False]]
    show ?thesis
    proof (cases "now - last_Fbtime ?t2 < xr_nowRTT ?t2")
      case True
      with d have s': "s' = s\<lparr>xp_receivers := map_put ?a ?t2 (xp_receivers s)\<rparr>" by simp
      show ?thesis using ok2 True by (intro exI[of _ ?t2]) (simp add: s')
    next
      case rnd: False
      with d obtain t3 where t3: "loss_round cfg now p ?t2 = Inr t3" and s': "s' = s\<lparr>xp_receivers := map_put ?a t3 (xp_receivers s)\<rparr>"
        by (auto simp: rbind_eq_Inr)
      from loss_round_Inr[OF t3 assms(3) ok2 False] show ?thesis by (intro exI[of _ t3]) (simp add: s')
    qed
  qed
qed

text \<open>A credit is sent unless the rate is zero; its number is the entry's.\<close>

lemma send_credit_cases:
  assumes "map_get (xp_receivers s) a = Some r" and "0 \<le> current_speed r"
  shows "XPASS_send_credit now j a s = Inl SimTimeOverflow \<and> current_speed r = 0 \<and> map_get (receiver_StateMap s) a = Some CREDIT_SENDING \<or>
     (\<exists>s' es. XPASS_send_credit now j a s = Inr (s', es) \<and> xp_receivers s' = map_put a (r\<lparr>now_send_cdt_seq := now_send_cdt_seq r + 1\<rparr>) (xp_receivers s) \<and>
        rate_timer s' = rate_timer s \<and> alpha_timer s' = alpha_timer s \<and> (\<forall>b. b \<noteq> a \<longrightarrow> credit_timer s' b = credit_timer s b) \<and>
        (\<forall>b. credits_out b es = (if b = xr_dest r then [now_send_cdt_seq r] else [])) \<and>
        (map_get (receiver_StateMap s) a = Some CREDIT_SENDING \<longrightarrow> 0 < current_speed r))"
proof -
  let ?t = "of_int (credit_size + (int j + 58) * 8) / current_speed r"
  have "0 \<le> ?t" using assms(2) by (simp add: credit_size_def)
  then show ?thesis using assms(1,2)
    by (cases "current_speed r = 0") (auto simp: XPASS_send_credit_def Let_def plain_tag_def not_less)
qed

text \<open>What any step does to an entry: it appears, or keeps its place in the numbering.\<close>

definition credits_step :: "xpass \<Rightarrow> xpass \<Rightarrow> xp_effect list \<Rightarrow> bool" where
  "credits_step s s' es \<longleftrightarrow>
     (\<forall>a. let old = (case map_get (xp_receivers s) a of None \<Rightarrow> 0 | Some r \<Rightarrow> now_send_cdt_seq r);
              new = (case map_get (xp_receivers s') a of None \<Rightarrow> 0 | Some r \<Rightarrow> now_send_cdt_seq r)
          in credits_out a es = [] \<and> new = old \<or> credits_out a es = [old] \<and> new = old + 1)"

lemma credits_same:
  "(\<forall>a. credits_out a es = []) \<Longrightarrow>
   (\<forall>a. map_option now_send_cdt_seq (map_get (xp_receivers s') a) = map_option now_send_cdt_seq (map_get (xp_receivers s) a)) \<Longrightarrow>
   credits_step s s' es"
  unfolding credits_step_def Let_def by (metis (no_types, lifting) map_option_case option.case_eq_if option.map_disc_iff option.map_sel option.sel)

lemma xp_new_rcv_seq: "now_send_cdt_seq (xp_new_rcv cfg now p) = 0"
  by (simp add: xp_new_rcv_def)

lemma xp_step_inv:
  assumes "XPASS_handleMessage cfg x s = Inr (s', es)" and "xp_inv cfg s" and "xp_cfg_ok cfg" and "not_a_credit x"
  shows "xp_inv cfg s' \<and> credits_step s s' es"
proof -
  have part: ?thesis if "rcv_part s s'" and "\<forall>a. credits_out a es = []"
    using that xp_inv_part[OF assms(2)] by (auto intro!: credits_same simp: rcv_part_def)
  obtain now e where x: "x = (now, e)" by (cases x)
  show ?thesis
  proof (cases e)
    case (CreditDue a j)
    show ?thesis
    proof (cases "credit_timer s a")
      case None
      with assms(1) x CreditDue show ?thesis by (intro part) (simp_all add: rcv_part_def)
    next
      case (Some tm)
      let ?s = "s\<lparr>credit_timer := (credit_timer s)(a := None)\<rparr>"
      from assms(2) Some obtain r where r: "map_get (xp_receivers s) a = Some r" and ok: "xp_rcv_ok cfg a r" by (fastforce simp: xp_inv_def)
      then have "map_get (xp_receivers ?s) a = Some r" "0 \<le> current_speed r" by (simp_all add: xp_rcv_ok_def)
      from send_credit_cases[OF this, of now j] assms(1) Some x CreditDue
      have s': "xp_receivers s' = map_put a (r\<lparr>now_send_cdt_seq := now_send_cdt_seq r + 1\<rparr>) (xp_receivers s)" "rate_timer s' = rate_timer s"
          "alpha_timer s' = alpha_timer s" "\<forall>b. b \<noteq> a \<longrightarrow> credit_timer s' b = credit_timer s b"
        and es: "\<forall>b. credits_out b es = (if b = xr_dest r then [now_send_cdt_seq r] else [])" by auto
      have "xp_inv cfg s'" by (rule xp_inv_put[OF assms(2) _ s'(1-4)]) (use ok in \<open>simp add: xp_rcv_ok_def\<close>)
      moreover have "xr_dest r = a" using ok by (simp add: xp_rcv_ok_def)
      ultimately show ?thesis using es r by (simp add: credits_step_def s'(1) get_put Let_def)
    qed
  next
    case (RateDue a)
    with assms(1,2) x show ?thesis by (intro part) (simp_all add: rcv_part_def xp_inv_def)
  next
    case (AlphaDue a)
    with assms(1,2) x show ?thesis by (intro part) (simp_all add: rcv_part_def xp_inv_def)
  next
    case (StopDue a)
    with assms(1) x show ?thesis by (intro part) (auto simp: rcv_part_def XPASS_send_stop_def split: if_splits)
  next
    case (XUpper p)
    with assms(1) x have u: "XPASS_processUpperpck cfg now p s = Inr (s', es)" by simp
    show ?thesis
    proof (rule part)
      show "rcv_part s s'" using upper_part[OF u] by blast
      show "\<forall>a. credits_out a es = []" using upper_part[OF u] assms(4) x XUpper by simp
    qed
  next
    case (XLower p)
    with assms(1) x have l: "XPASS_processLowerpck cfg now p s = Inr (s', es)" by simp
    consider (req) "XPASS_receive_credreq cfg now p s = Inr (s', es)" | (credit) "XPASS_receive_credit cfg now p s = Inr (s', es)"
      | (data) "XPASS_receive_data cfg now p s = Inr (s', es)" | (none) "rcv_part s s'" "\<forall>a. credits_out a es = []"
      using l by (auto simp: XPASS_processLowerpck_def XPASS_receive_stopcred_def rcv_part_def split: if_splits)
    then show ?thesis
    proof cases
      case req
      note c = credreq_part[OF req assms(2,3)]
      show ?thesis unfolding credits_step_def Let_def using c
        by (metis (no_types, lifting) option.simps(4,5) xp_new_rcv_seq)
    next
      case data
      show ?thesis
      proof (cases "map_get (xp_receivers s) (d_src p)")
        case None
        with data show ?thesis by (intro part) (auto simp: XPASS_receive_data_def rcv_part_def)
      next
        case (Some t0)
        from receive_data_entry[OF data assms(2,3) Some] obtain t' where t': "xp_receivers s' = map_put (d_src p) t' (xp_receivers s)"
          "xp_rcv_ok cfg (d_src p) t'" "now_send_cdt_seq t' = now_send_cdt_seq t0" "rate_timer s' = rate_timer s" "alpha_timer s' = alpha_timer s" by blast
        note d = receive_data_Inr[OF data]
        have "xp_inv cfg s'" by (rule xp_inv_put[OF assms(2) t'(2,1,4,5)]) (use d in simp)
        moreover have "credits_step s s' es" by (rule credits_same) (use d t' Some in \<open>simp_all add: get_put\<close>)
        ultimately show ?thesis by simp
      qed
    qed (use part credit_part in blast)+
  qed
qed


definition credits_numbered :: "xpass \<Rightarrow> xp_effect list \<Rightarrow> bool" where
  "credits_numbered s past \<longleftrightarrow>
     (\<forall>a. \<exists>n. credits_out a past = map int [0..<n] \<and> (case map_get (xp_receivers s) a of None \<Rightarrow> 0 | Some r \<Rightarrow> now_send_cdt_seq r) = int n)"

lemma credits_numbered_step:
  assumes "credits_numbered s past" and "credits_step s s' es"
  shows "credits_numbered s' (past @ es)"
  unfolding credits_numbered_def
proof
  fix a
  let ?n = "\<lambda>s. case map_get (xp_receivers s) a of None \<Rightarrow> 0 | Some r \<Rightarrow> now_send_cdt_seq r"
  from assms(1) obtain n where n: "credits_out a past = map int [0..<n]" "?n s = int n" unfolding credits_numbered_def by blast
  have "credits_out a es = [] \<and> ?n s' = ?n s \<or> credits_out a es = [?n s] \<and> ?n s' = ?n s + 1"
    using assms(2) unfolding credits_step_def Let_def by blast
  then show "\<exists>n. credits_out a (past @ es) = map int [0..<n] \<and> ?n s' = int n"
  proof
    assume "credits_out a es = [] \<and> ?n s' = ?n s"
    with n show ?thesis by (intro exI[of _ n]) simp
  next
    assume "credits_out a es = [?n s] \<and> ?n s' = ?n s + 1"
    with n show ?thesis by (intro exI[of _ "Suc n"]) simp
  qed
qed

interpretation xp_credits: recorded_machine "XPASS_handleMessage cfg" "\<lambda>s. xp_inv cfg s \<and> xp_cfg_ok cfg" not_a_credit credits_numbered for cfg
  using xp_step_inv by unfold_locales (blast intro: credits_numbered_step)+

lemma xp_start: "xp_inv cfg XPASS_initialize" "credits_numbered XPASS_initialize []"
  by (simp_all add: xp_inv_def credits_numbered_def XPASS_initialize_def)

text \<open>Credits are numbered.  In a run of any events, the credits sent to each host bear the numbers 0, 1, 2 and so on, in
  this order and none left out, however requests, stops and the credits for other hosts come between.\<close>

theorem xpass_credits_numbered:
  assumes "xp_cfg_ok cfg" and "\<forall>x\<in>set xs. not_a_credit x" and "run_out (XPASS_handleMessage cfg) xs XPASS_initialize = Inr (s, es)"
  shows "\<exists>n. credits_out a es = map int [0..<n]"
  using xp_credits.record_run[where s = XPASS_initialize and cfg = cfg and xs = xs and past = "[]" and s' = s and es = es] assms xp_start unfolding credits_numbered_def by fastforce

text \<open>C31: The rate of the credits.  It stays between 0 and 5 percent of the link's speed; with ECN it is never 0, so that the timer of
  the credits does not fail.  The steps of the increase timers are never taken: every entry stays in the state \<open>Normal\<close>, and
  no rate or alpha timer is armed.\<close>

theorem xpass_rate_bounds:
  assumes "xp_cfg_ok cfg" and "\<forall>x\<in>set xs. not_a_credit x" and "run_out (XPASS_handleMessage cfg) xs XPASS_initialize = Inr (s, es)"
  shows "(\<forall>a r. map_get (xp_receivers s) a = Some r \<longrightarrow>
       0 \<le> current_speed r \<and> current_speed r \<le> maxrate cfg \<and> xr_state r = Normal) \<and>
     (\<forall>a. rate_timer s a = None \<and> alpha_timer s a = None) \<and>
     (useECN cfg \<longrightarrow> (\<forall>now a j. is_ok (XPASS_handleMessage cfg (now, CreditDue a j) s)))"
proof -
  have i: "xp_inv cfg s" using xp_credits.inv_run[where s = XPASS_initialize and cfg = cfg and xs = xs and s' = s and es = es] assms xp_start(1) by simp
  then have "(\<forall>a r. map_get (xp_receivers s) a = Some r \<longrightarrow>
       0 \<le> current_speed r \<and> current_speed r \<le> maxrate cfg \<and> xr_state r = Normal) \<and>
     (\<forall>a. rate_timer s a = None \<and> alpha_timer s a = None)" by (simp add: xp_inv_def xp_rcv_ok_def)
  moreover have "is_ok (XPASS_handleMessage cfg (now, CreditDue a j) s)" if "useECN cfg" for now a j
  proof (cases "credit_timer s a")
    case None
    then show ?thesis by simp
  next
    case (Some tm)
    let ?s = "s\<lparr>credit_timer := (credit_timer s)(a := None)\<rparr>"
    from i Some obtain r where r: "map_get (xp_receivers s) a = Some r" "xp_rcv_ok cfg a r" by (fastforce simp: xp_inv_def)
    with that have "map_get (xp_receivers ?s) a = Some r" "0 < current_speed r" by (simp_all add: xp_rcv_ok_def)
    with send_credit_cases[OF this(1), of now j] have "is_ok (XPASS_send_credit now j a ?s)" by (auto simp: is_ok_iff)
    with Some show ?thesis by simp
  qed
  ultimately show ?thesis by blast
qed

text \<open>The share of the lost credits is 1 exactly if more packets came than the numbers since the last round trip.\<close>

lemma loss_one: "0 < n \<Longrightarrow> xp_loss (d - n) n = Inr 1 \<longleftrightarrow> d < n"
proof -
  assume n: "0 < n"
  show ?thesis
  proof (cases "d = 0")
    case True
    with n show ?thesis by (simp add: xp_loss_def)
  next
    case False
    have "of_int (d - n) / of_int d = (1 - of_int n / of_int d :: double)" using False by (simp add: diff_divide_distrib)
    moreover have "of_int n / of_int d > (0 :: double) \<longleftrightarrow> d > 0" using n by (simp add: zero_less_divide_iff)
    moreover have "of_int n / of_int d > (1 :: double) \<longleftrightarrow> 0 < d \<and> d < n" using n by (auto simp: less_divide_eq)
    moreover have "of_int n / of_int d \<noteq> (0 :: double)" using n False by simp
    ultimately show ?thesis using False n by (auto simp: xp_loss_def Let_def)
  qed
qed

text \<open>The rate falls to 0.  Without ECN, when the data that ends a round trip makes more packets in it than the numbers since the
  last one, as when packets were reordered across its end, and only then, the rate of the credits becomes 0.  Then the next credit
  for that source is an error.\<close>

theorem xpass_rate_zero_iff:
  assumes "xp_cfg_ok cfg" and "\<forall>x\<in>set xs. not_a_credit x" and "run_out (XPASS_handleMessage cfg) xs XPASS_initialize = Inr (s, es)"
    and "\<not> useECN cfg" and "map_get (xp_receivers s) (d_src p) = Some t" and "0 < current_speed t" and "xr_nowRTT t \<le> now - last_Fbtime t"
    and "contains ''XPASSData'' (p_name p)" and "XPASS_handleMessage cfg (now, XLower p) s = Inr (s', fs)"
  shows "\<exists>t'. map_get (xp_receivers s') (d_src p) = Some t' \<and>
     (current_speed t' = 0 \<longleftrightarrow> data_seq p t - last_received_data_seq t < pck_in_rtt t + 1) \<and>
     (current_speed t' = 0 \<and> credit_timer s' (d_src p) \<noteq> None \<and> map_get (receiver_StateMap s') (d_src p) = Some CREDIT_SENDING \<longrightarrow>
        XPASS_handleMessage cfg (now', CreditDue (d_src p) j) s' = Inl SimTimeOverflow)"
proof -
  have i: "xp_inv cfg s" using xp_credits.inv_run[where s = XPASS_initialize and cfg = cfg and xs = xs and s' = s and es = es] assms(1-3) xp_start(1) by simp
  have "p_name p \<noteq> ''credit_req''" "p_name p \<noteq> ''credit''" "p_name p \<noteq> ''credit_stop''"
    using assms(8) control_names by fastforce+
  with assms(8,9) have d: "XPASS_receive_data cfg now p s = Inr (s', fs)" by (simp add: XPASS_processLowerpck_def)
  from receive_data_entry[OF d i assms(1,5)] assms(4,6,7) obtain t' where
    t': "xp_receivers s' = map_put (d_src p) t' (xp_receivers s)" and ok: "xp_rcv_ok cfg (d_src p) t'"
    and z: "current_speed t' = 0 \<longleftrightarrow> xp_loss (data_seq p t - last_received_data_seq t - (pck_in_rtt t + 1)) (pck_in_rtt t + 1) = Inr 1"
    by blast
  have n: "0 \<le> pck_in_rtt t" using i assms(5) by (simp add: xp_inv_def xp_rcv_ok_def)
  have "map_get (xp_receivers s') (d_src p) = Some t'" by (simp add: t' get_put)
  moreover have "current_speed t' = 0 \<longleftrightarrow> data_seq p t - last_received_data_seq t < pck_in_rtt t + 1"
    unfolding z by (rule loss_one) (use n in simp)
  moreover have "XPASS_handleMessage cfg (now', CreditDue (d_src p) j) s' = Inl SimTimeOverflow"
    if "current_speed t' = 0" "credit_timer s' (d_src p) \<noteq> None" "map_get (receiver_StateMap s') (d_src p) = Some CREDIT_SENDING"
    using that calculation(1) by (simp add: XPASS_send_credit_def)
  ultimately show ?thesis by blast
qed


subsection \<open>Flows\<close>

text \<open>The data packets among effects: where to, of which flow, and whether marked the last of it.\<close>

fun data_flows :: "xp_effect list \<Rightarrow> (int \<times> u32 \<times> bool) list" where
  "data_flows [] = []"
| "data_flows (XDown q # es) =
     (if xp_is_data q then (d_dest q, ht_flowid (last (p_tags q)), ht_last (last (p_tags q))) # data_flows es else data_flows es)"
| "data_flows (_ # es) = data_flows es"

lemma data_flows_append: "data_flows (es @ es') = data_flows es @ data_flows es'"
  by (induction es rule: data_flows.induct) auto

lemma credit_takes:
  assumes "XPASS_handleMessage cfg (now, XLower p) s = Inr (s', es)" and "p_name p = ''credit''" and "now < stopTime cfg"
    and "remainSize s \<noteq> 0" and "xp_take cfg s = Inr (k, f, lst, s1)"
  shows "data_flows es = [(d_src p, k, lst)] \<and> xp_flows s' = xp_flows s1 \<and> remainSize s' = remainSize s1"
proof -
  from assms(1,2) have "XPASS_receive_credit cfg now p s = Inr (s', es)" by (simp add: XPASS_processLowerpck_def)
  then show ?thesis by (cases rule: credit_Inr) (use assms(3-5) in \<open>simp_all add: xp_note_flow_def\<close>)
qed

text \<open>The first packet of a flow, from above.\<close>

lemma upper_adds:
  assumes "XPASS_handleMessage cfg (now, XUpper u) s = Inr (s', es)" and "activate cfg" and "contains ''Data'' (p_name u)"
    and "map_get (xp_flows s) (ht_flowid (last (p_tags u))) = None"
  shows "data_flows es = [] \<and> xp_flows s' = map_put (ht_flowid (last (p_tags u))) (xp_new_flow (last (p_tags u)) u) (xp_flows s) \<and>
     remainSize s' = remainSize s + ucast (ucast (ht_flowsize (last (p_tags u))) :: u32)"
proof -
  from assms(1-3) have t: "p_tags u \<noteq> []"
    by (auto simp: XPASS_processUpperpck_def last_tag_def packet.truncate_def split: if_splits)
  show ?thesis using assms
    by (auto simp: XPASS_processUpperpck_def XPASS_send_credreq_def tag_of_truncate[OF t] Let_def get_put xp_new_flow_def split: if_splits option.splits)
qed

text \<open>C29: A finished flow is sent again, to the wrong host.  When a credit has taken the rest of the only flow, which is less than
  a packet, the flow is marked finished but kept.  If a flow of any size with a greater number then comes from above, the credit of that
  flow's host is answered with the finished flow, marked its last packet again; no packet of the new flow is sent.  A new flow of
  at least a packet loses the bytes by which the packet is longer than the rest of the finished flow, which is now removed.  A smaller
  one stays, with all its bytes, behind the finished flow, which is kept once more, but nothing counts as left to be sent.\<close>

theorem xpass_finished_flow_again:
  assumes "activate cfg" and "xp_flows s = [(k, f)]" and "flowsize f < max_pck_size cfg" and "0 < remainSize s" and "remainSize s < max_pck_size cfg"
    and "p_name p1 = ''credit''" and "t1 < stopTime cfg"
    and "contains ''Data'' (p_name u)" and "last (p_tags u) = tag" and "k < ht_flowid tag" and "ucast (ucast (ht_flowsize tag) :: u32) = sz"
    and "0 < sz" and "p_name p2 = ''credit''" and "d_src p2 = d_dest u" and "t3 < stopTime cfg"
    and "run_out (XPASS_handleMessage cfg) [(t1, XLower p1), (t2, XUpper u), (t3, XLower p2)] s = Inr (s', es)"
  shows "data_flows es = [(d_src p1, k, True), (d_dest u, k, True)] \<and>
     (\<exists>g. if max_pck_size cfg \<le> sz
          then xp_flows s' = [(ht_flowid tag, g)] \<and> flowsize g = sz - (max_pck_size cfg - flowsize f) \<and> remainSize s' = sz - max_pck_size cfg
          else xp_flows s' = [(k, f), (ht_flowid tag, g)] \<and> flowsize g = sz \<and> remainSize s' = 0)"
proof -
  from assms(16) obtain s1 e1 s2 e2 e3 where r1: "XPASS_handleMessage cfg (t1, XLower p1) s = Inr (s1, e1)"
    and r2: "XPASS_handleMessage cfg (t2, XUpper u) s1 = Inr (s2, e2)" and r3: "XPASS_handleMessage cfg (t3, XLower p2) s2 = Inr (s', e3)"
    and es: "es = e1 @ e2 @ e3"
    by (auto simp: run_out_Cons_Inr simp del: run_out.simps XPASS_handleMessage.simps) (auto simp del: XPASS_handleMessage.simps)
  have nz: "0 < max_pck_size cfg" using assms(4,5) by (rule order.strict_trans)
  have c1: "xp_take cfg s = Inr (k, f, True, s\<lparr>remainSize := 0\<rparr>)" using assms(2,3,5) by (simp add: xp_take_def Let_def not_le)
  have z: "remainSize s \<noteq> 0" using assms(4) by auto
  have a1: "data_flows e1 = [(d_src p1, k, True)]" "xp_flows s1 = [(k, f)]" "remainSize s1 = 0"
    using credit_takes[OF r1 assms(6,7) z c1] assms(2) by simp_all
  have kn: "k \<noteq> ht_flowid tag" using assms(10) by auto
  have n1: "map_get (xp_flows s1) (ht_flowid (last (p_tags u))) = None" using kn by (simp add: a1(2) assms(9))
  have a2: "data_flows e2 = []" "xp_flows s2 = [(k, f), (ht_flowid tag, xp_new_flow tag u)]" "remainSize s2 = sz"
    using upper_adds[OF r2 assms(1,8) n1] assms(9-11) kn by (simp_all add: a1 less_not_sym)
  have z2: "remainSize s2 \<noteq> 0" using assms(12) by (auto simp: a2(3))
  have fz: "flowsize (xp_new_flow tag u) = sz" using assms(11) by (simp add: xp_new_flow_def)
  show ?thesis
  proof (cases "max_pck_size cfg \<le> sz")
    case True
    let ?g = "(xp_new_flow tag u)\<lparr>flowsize := flowsize (xp_new_flow tag u) - (max_pck_size cfg - flowsize f)\<rparr>"
    have c2: "xp_take cfg s2 = Inr (k, f, True, s2\<lparr>remainSize := sz - max_pck_size cfg, xp_flows := [(ht_flowid tag, ?g)]\<rparr>)"
      using assms(3) True by (simp add: xp_take_def a2 Let_def not_le)
    have "data_flows e3 = [(d_src p2, k, True)]" "xp_flows s' = [(ht_flowid tag, ?g)]" "remainSize s' = sz - max_pck_size cfg"
      using credit_takes[OF r3 assms(13,15) z2 c2] by simp_all
    then show ?thesis using True fz by (simp add: es data_flows_append a1(1) a2(1) assms(14))
  next
    case False
    have c2: "xp_take cfg s2 = Inr (k, f, True, s2\<lparr>remainSize := 0\<rparr>)"
      using assms(3) False by (simp add: xp_take_def a2 Let_def not_le)
    have "data_flows e3 = [(d_src p2, k, True)]" "xp_flows s' = [(k, f), (ht_flowid tag, xp_new_flow tag u)]" "remainSize s' = 0"
      using credit_takes[OF r3 assms(13,15) z2 c2] a2(2) by simp_all
    then show ?thesis using False fz by (simp add: es data_flows_append a1(1) a2(1) assms(14))
  qed
qed

subsection \<open>A sample\<close>

definition sample_xp :: "bool \<Rightarrow> xp_cfg" where
  "sample_xp ecn =
     \<lparr>activate = True, stopTime = 100, linkspeed = 13600, targetratio = 1 / 8, wmax = 1 / 2, max_pck_size = 1000, initialrate = 1,
      wmin = 1 / 100, xp_alpha = 1 / 2, thigh = 10, tlow = 1, useECN = ecn, useRTT = False, Rai = 1, Rhai = 1, gamma = 1 / 2, rtt_beta = 1 / 2\<rparr>"

lemma sample_xp_facts [simp]:
  "activate (sample_xp e)" "stopTime (sample_xp e) = 100" "maxrate (sample_xp e) = 680" "currate (sample_xp e) = 680"
  "max_pck_size (sample_xp e) = 1000" "useECN (sample_xp e) = e" "xp_alpha (sample_xp e) = 1 / 2"
  by (simp_all add: sample_xp_def maxrate_def currate_def)

lemma sample_xp_ok: "xp_cfg_ok (sample_xp e)"
  by (simp add: xp_cfg_ok_def sample_xp_def)

definition sample_xp_request :: dgram where
  "sample_xp_request = xp_packet ''credit_req'' 26 [plain_tag] 1 2 0"

definition sample_xp_credit :: "int \<Rightarrow> int \<Rightarrow> dgram" where
  "sample_xp_credit a n = xp_packet ''credit'' 27 [plain_tag\<lparr>ht_packetid := n\<rparr>] a 2 0"

definition sample_xp_data :: "int \<Rightarrow> dgram" where
  "sample_xp_data n = xp_packet ''XPASSData-0'' 1008 [plain_tag\<lparr>ht_packetid := n\<rparr>] 1 2 1"

definition sample_xp_flow :: "u32 \<Rightarrow> int \<Rightarrow> int \<Rightarrow> dgram" where
  "sample_xp_flow k bytes dest = xp_packet ''UdpBasicAppData'' 1000 [plain_tag\<lparr>ht_flowid := k, ht_flowsize := word_of_int bytes\<rparr>] 2 dest 0"

lemma sample_xp_names: "contains ''Data'' ''UdpBasicAppData''" "contains ''XPASSData'' ''XPASSData-0''"
  by code_simp+

text \<open>Host 1 asks for credits; a credit is sent; its data arrive.\<close>

definition sample_xp_run :: "(simtime \<times> xp_op) list" where
  "sample_xp_run = [(1, XLower sample_xp_request), (1, CreditDue 1 1), (2, CreditDue 1 1), (5 / 2, XLower (sample_xp_data 1))]"

lemmas sample_xp_defs = sample_xp_run_def XPASS_initialize_def sample_xp_request_def XPASS_processLowerpck_def XPASS_receive_credreq_def
  XPASS_send_credit_def xp_packet_def Let_def get_put plain_tag_def xp_new_rcv_def credit_size_def

lemma sample_xp_run_ok: "\<forall>x\<in>set sample_xp_run. not_a_credit x"
  by (simp add: sample_xp_run_def)

lemma sample_xp_run_Inr:
  "\<exists>s es r. run_out (XPASS_handleMessage (sample_xp e)) sample_xp_run XPASS_initialize = Inr (s, es) \<and> map_get (xp_receivers s) 1 = Some r \<and>
     credit_timer s 1 = Some 3 \<and> map_get (receiver_StateMap s) 1 = Some CREDIT_SENDING \<and> current_speed r = 680 \<and> xr_nowRTT r = 2 \<and>
     last_Fbtime r = 1 \<and> last_received_data_seq r = -1 \<and> pck_in_rtt r = 1 \<and> credits_out 1 es = [0, 1]"
  by (simp add: sample_xp_defs sample_xp_data_def XPASS_receive_data_def sample_xp_names count_bytes_def data_seq_def number_of_def)


lemma sample_xp_data_facts [simp]: "d_src (sample_xp_data n) = 1" "p_name (sample_xp_data n) = ''XPASSData-0''" "d_time (sample_xp_data n) = 1"
  by (simp_all add: sample_xp_data_def xp_packet_def)

lemma sample_xp_credit_facts [simp]: "d_src (sample_xp_credit a n) = a" "p_name (sample_xp_credit a n) = ''credit''"
  "last (p_tags (sample_xp_credit a n)) = plain_tag\<lparr>ht_packetid := n\<rparr>" "p_tags (sample_xp_credit a n) \<noteq> []"
  by (simp_all add: sample_xp_credit_def xp_packet_def)

theorem xpass_credits_numbered_witness:
  "\<exists>s es. run_out (XPASS_handleMessage (sample_xp True)) sample_xp_run XPASS_initialize = Inr (s, es) \<and>
     (\<exists>n. credits_out 1 es = map int [0..<n]) \<and> length (credits_out 1 es) = 2"
proof -
  obtain s es where r: "run_out (XPASS_handleMessage (sample_xp True)) sample_xp_run XPASS_initialize = Inr (s, es)" "credits_out 1 es = [0, 1]"
    using sample_xp_run_Inr[of True] by blast
  with xpass_credits_numbered[OF sample_xp_ok sample_xp_run_ok r(1), of 1] show ?thesis by simp
qed

theorem xpass_rate_bounds_witness:
  "\<exists>s es r. run_out (XPASS_handleMessage (sample_xp True)) sample_xp_run XPASS_initialize = Inr (s, es) \<and> map_get (xp_receivers s) 1 = Some r \<and>
     current_speed r \<le> 680 \<and> is_ok (XPASS_handleMessage (sample_xp True) (3, CreditDue 1 1) s)"
proof -
  obtain s es r where r: "run_out (XPASS_handleMessage (sample_xp True)) sample_xp_run XPASS_initialize = Inr (s, es)"
      "map_get (xp_receivers s) 1 = Some r"
    using sample_xp_run_Inr[of True] by blast
  note b = xpass_rate_bounds[OF sample_xp_ok sample_xp_run_ok r(1)]
  have "current_speed r \<le> 680" using b r(2) by simp
  moreover have "is_ok (XPASS_handleMessage (sample_xp True) (3, CreditDue 1 1) s)" using b by (simp del: XPASS_handleMessage.simps)
  ultimately show ?thesis using r by blast
qed

text \<open>Data 1 and 0 come in this order; 0 ends the round trip, the rate becomes 0 and the credit due next fails.\<close>

theorem xpass_rate_zero_iff_witness:
  "\<exists>s es s' fs. run_out (XPASS_handleMessage (sample_xp False)) sample_xp_run XPASS_initialize = Inr (s, es) \<and>
     XPASS_handleMessage (sample_xp False) (3, XLower (sample_xp_data 0)) s = Inr (s', fs) \<and>
     XPASS_handleMessage (sample_xp False) (3, CreditDue 1 1) s' = Inl SimTimeOverflow"
proof -
  let ?f = "XPASS_handleMessage (sample_xp False)"
  obtain s es r where run: "run_out ?f sample_xp_run XPASS_initialize = Inr (s, es)"
    and r: "map_get (xp_receivers s) 1 = Some r" "credit_timer s 1 = Some 3" "map_get (receiver_StateMap s) 1 = Some CREDIT_SENDING"
      "current_speed r = 680" "xr_nowRTT r = 2" "last_Fbtime r = 1" "last_received_data_seq r = -1" "pck_in_rtt r = 1"
    using sample_xp_run_Inr[of False] by blast
  have q: "data_seq (sample_xp_data 0) r = 0" by (simp add: data_seq_def sample_xp_data_def xp_packet_def plain_tag_def number_of_def)
  have l: "xp_loss (0 - (- 1) - (1 + 1)) (1 + 1) = Inr 1" by (simp add: xp_loss_def)
  have "\<exists>s' fs. ?f (3, XLower (sample_xp_data 0)) s = Inr (s', fs)"
    using q l by (simp add: XPASS_processLowerpck_def XPASS_receive_data_def sample_xp_names r Let_def loss_round_def XPASS_feedback_control_def)
  then obtain s' fs where s': "?f (3, XLower (sample_xp_data 0)) s = Inr (s', fs)" by blast
  then have d: "XPASS_receive_data (sample_xp False) 3 (sample_xp_data 0) s = Inr (s', fs)"
    by (simp add: XPASS_processLowerpck_def sample_xp_names)
  have "credit_timer s' 1 \<noteq> None" "map_get (receiver_StateMap s') 1 = Some CREDIT_SENDING" using receive_data_Inr[OF d] r(2,3) by simp_all
  moreover have "data_seq (sample_xp_data 0) r - last_received_data_seq r < pck_in_rtt r + 1" by (simp add: q r)
  ultimately have "?f (3, CreditDue 1 1) s' = Inl SimTimeOverflow"
    using xpass_rate_zero_iff[OF sample_xp_ok sample_xp_run_ok run, of "sample_xp_data 0" r 3 s' fs 3 1] s' r(1,4-6)
    by (auto simp add: sample_xp_names simp del: XPASS_handleMessage.simps)
  with run s' show ?thesis by blast
qed

lemma sample_xp_flow_facts [simp]: "p_name (sample_xp_flow k b dest) = ''UdpBasicAppData''" "d_dest (sample_xp_flow k b dest) = dest"
  "last (p_tags (sample_xp_flow k b dest)) = plain_tag\<lparr>ht_flowid := k, ht_flowsize := word_of_int b\<rparr>" "p_tags (sample_xp_flow k b dest) \<noteq> []"
  "d_src (sample_xp_flow k b dest) = 2"
  by (simp_all add: sample_xp_flow_def xp_packet_def)

lemma sample_xp_first_flow:
  "\<exists>s es f. run_out (XPASS_handleMessage (sample_xp False)) [(0, XUpper (sample_xp_flow 0 10 1))] XPASS_initialize = Inr (s, es) \<and>
     xp_flows s = [(0, f)] \<and> flowsize f = 10 \<and> remainSize s = 10"
  by (simp add: XPASS_processUpperpck_def tag_of_truncate sample_xp_names Let_def XPASS_initialize_def XPASS_send_credreq_def xp_new_flow_def plain_tag_def)

text \<open>Flow 0, of 10 bytes, for host 1 and then flow 1, of 5000 bytes or of 20, for host 3.\<close>

lemma sample_xp_second_flow:
  assumes "xp_flows s0 = [(0, f)]" and "flowsize f = 10" and "remainSize s0 = 10" and "z = 5000 \<or> z = 20"
  shows "\<exists>s es. run_out (XPASS_handleMessage (sample_xp False))
     [(1, XLower (sample_xp_credit 1 0)), (2, XUpper (sample_xp_flow 1 z 3)), (3, XLower (sample_xp_credit 3 0))] s0 = Inr (s, es)"
  using assms(4) by (auto simp add: XPASS_processLowerpck_def XPASS_receive_credit_def tag_of_truncate xp_take_def assms(1-3) Let_def xp_note_flow_def
      XPASS_processUpperpck_def sample_xp_names XPASS_send_credreq_def xp_new_flow_def plain_tag_def get_put split: option.split)

theorem xpass_finished_flow_again_witness:
  "\<exists>s0 es0. run_out (XPASS_handleMessage (sample_xp False)) [(0, XUpper (sample_xp_flow 0 10 1))] XPASS_initialize = Inr (s0, es0) \<and>
     (\<exists>s es g. run_out (XPASS_handleMessage (sample_xp False))
       [(1, XLower (sample_xp_credit 1 0)), (2, XUpper (sample_xp_flow 1 5000 3)), (3, XLower (sample_xp_credit 3 0))] s0 = Inr (s, es) \<and>
       data_flows es = [(1, 0, True), (3, 0, True)] \<and> xp_flows s = [(1, g)] \<and> flowsize g = 4010) \<and>
     (\<exists>s es f g. run_out (XPASS_handleMessage (sample_xp False))
       [(1, XLower (sample_xp_credit 1 0)), (2, XUpper (sample_xp_flow 1 20 3)), (3, XLower (sample_xp_credit 3 0))] s0 = Inr (s, es) \<and>
       data_flows es = [(1, 0, True), (3, 0, True)] \<and> xp_flows s = [(0, f), (1, g)] \<and> flowsize g = 20 \<and> remainSize s = 0)"
proof -
  let ?f = "XPASS_handleMessage (sample_xp False)"
  let ?xs = "\<lambda>z. [(1, XLower (sample_xp_credit 1 0)), (2, XUpper (sample_xp_flow 1 z 3)), (3, XLower (sample_xp_credit 3 0))]"
  obtain s0 es0 f where s0: "run_out ?f [(0, XUpper (sample_xp_flow 0 10 1))] XPASS_initialize = Inr (s0, es0)"
    and f: "xp_flows s0 = [(0, f)]" "flowsize f = 10" "remainSize s0 = 10"
    using sample_xp_first_flow by blast
  obtain s es where s: "run_out ?f (?xs 5000) s0 = Inr (s, es)" using sample_xp_second_flow[OF f] by blast
  obtain t fs where t: "run_out ?f (?xs 20) s0 = Inr (t, fs)" using sample_xp_second_flow[OF f] by blast
  have "data_flows es = [(d_src (sample_xp_credit 1 0), 0, True), (d_dest (sample_xp_flow 1 5000 3), 0, True)] \<and>
     (\<exists>g. if max_pck_size (sample_xp False) \<le> 5000
        then xp_flows s = [(ht_flowid (plain_tag\<lparr>ht_flowid := 1, ht_flowsize := word_of_int 5000\<rparr>), g)] \<and>
          flowsize g = 5000 - (max_pck_size (sample_xp False) - flowsize f) \<and> remainSize s = 5000 - max_pck_size (sample_xp False)
        else xp_flows s = [(0, f), (ht_flowid (plain_tag\<lparr>ht_flowid := 1, ht_flowsize := word_of_int 5000\<rparr>), g)] \<and> flowsize g = 5000 \<and> remainSize s = 0)"
    by (rule xpass_finished_flow_again[OF _ f(1) _ _ _ _ _ _ _ _ _ _ _ _ _ s]) (simp_all add: f sample_xp_names plain_tag_def)
  then have a: "data_flows es = [(1, 0, True), (3, 0, True)]" "\<exists>g. xp_flows s = [(1, g)] \<and> flowsize g = 4010" by (auto simp add: f)
  have "data_flows fs = [(d_src (sample_xp_credit 1 0), 0, True), (d_dest (sample_xp_flow 1 20 3), 0, True)] \<and>
     (\<exists>g. if max_pck_size (sample_xp False) \<le> 20
        then xp_flows t = [(ht_flowid (plain_tag\<lparr>ht_flowid := 1, ht_flowsize := word_of_int 20\<rparr>), g)] \<and>
          flowsize g = 20 - (max_pck_size (sample_xp False) - flowsize f) \<and> remainSize t = 20 - max_pck_size (sample_xp False)
        else xp_flows t = [(0, f), (ht_flowid (plain_tag\<lparr>ht_flowid := 1, ht_flowsize := word_of_int 20\<rparr>), g)] \<and> flowsize g = 20 \<and> remainSize t = 0)"
    by (rule xpass_finished_flow_again[OF _ f(1) _ _ _ _ _ _ _ _ _ _ _ _ _ t]) (simp_all add: f sample_xp_names plain_tag_def)
  then have b: "data_flows fs = [(1, 0, True), (3, 0, True)]" "\<exists>g. xp_flows t = [(0, f), (1, g)] \<and> flowsize g = 20 \<and> remainSize t = 0"
    by (simp_all add: f)
  from s0 s t a b show ?thesis by blast
qed

theorem xpass_data_answers_credits_witness:
  "\<exists>s0 es0 s es. run_out (XPASS_handleMessage (sample_xp False)) [(0, XUpper (sample_xp_flow 0 10 1))] XPASS_initialize = Inr (s0, es0) \<and>
     run_out (XPASS_handleMessage (sample_xp False)) [(1, XLower (sample_xp_credit 1 0)), (2, XLower (sample_xp_credit 1 1))] s0 = Inr (s, es) \<and>
     subseq (data_out es) [(1, 0), (1, 1)] \<and> data_out es = [(1, 0)]"
proof -
  let ?f = "XPASS_handleMessage (sample_xp False)"
  let ?xs = "[(1, XLower (sample_xp_credit 1 0)), (2, XLower (sample_xp_credit 1 1))]"
  obtain s0 es0 f where s0: "run_out ?f [(0, XUpper (sample_xp_flow 0 10 1))] XPASS_initialize = Inr (s0, es0)"
    and f: "xp_flows s0 = [(0, f)]" "flowsize f = 10" "remainSize s0 = 10"
    using sample_xp_first_flow by blast
  have "\<exists>s es. run_out ?f ?xs s0 = Inr (s, es) \<and> data_out es = [(1, 0)]"
    by (simp add: XPASS_processLowerpck_def XPASS_receive_credit_def tag_of_truncate xp_take_def f Let_def xp_note_flow_def plain_tag_def long_of_def)
  then obtain s es where s: "run_out ?f ?xs s0 = Inr (s, es)" "data_out es = [(1, 0)]" by blast
  from xpass_data_answers_credits[OF _ s(1)] have "subseq (data_out es) [(1, 0), (1, 1)]" by (simp add: plain_tag_def long_of_def)
  with s0 s show ?thesis by blast
qed

end
