(* ===== verification/HOMA.thy ===== *)
theory HOMA
  imports Flow_Steps
begin

section \<open>HOMA\<close>

text \<open>
  \<open>HiNA/CC/HOMA\<close>.  The first bytes of a message, as many as fit in a round trip, are sent at once; the rest
  is sent packet by packet, each on a grant of the receiver, who answers every packet of a message but
  the last with a grant.  A receiver gives each message one of eight priorities and watches for timeouts.

  The state keeps what the module does.  A \<open>receiver_flowinfo\<close> that is made as a local variable has the array
  \<open>if_get\<close> uninitialised (\<open>None\<close> at an index never written); one made by \<open>operator[]\<close> of the map has
  all its members zero, its two timers null and the priority -1 (\<open>no_rcv\<close>).  The timers of a flow
  are kept beside the map, for the entries only point to them.  One uninitialised value is an argument and
  not an error, for it decides nothing: the size \<open>processUpperpck\<close> looks up the unscheduled priority for.
\<close>

record homa_cfg =
  activate :: bool
  stopTime :: simtime
  linkspeed :: double
  max_pck_size :: int
  baseRTT :: simtime

datatype rcv_state = GRANT_STOP | GRANT_SENDING

record homa_rcv =
  hr_destAddr :: int
  hr_flowid :: u32
  if_get :: "nat \<Rightarrow> bool option"
  now_received_data_seq :: int
  now_send_grt_seq :: int
  RcvState :: rcv_state
  SenderPriority :: int
  has_timers :: bool

record homa_snd =
  hs_flowid :: u32
  hs_destAddr :: int
  hs_srcPort :: int
  hs_destPort :: int
  hs_cretime :: simtime
  hs_pckseq :: int
  hs_flowsize :: int
  sendRtt :: int
  unsSize :: int
  sSize :: int
  unscheduledPrio :: nat

datatype homa_timer = SendUnschedule u32 | SendBusy u32 | SendResend u32 | Timeout u32

record homa =
  ho_senders :: "(u32, homa_snd) smap"
  ho_receivers :: "(u32, homa_rcv) smap"
  rttbytes :: int
  ho_srcAddr :: int
  ho_lastflowid :: u32
  ho_last_creation_time :: simtime
  priorityUse :: "bool list"
  ho_timers :: "homa_timer \<Rightarrow> simtime option"
  timer_seq :: "homa_timer \<Rightarrow> int"

datatype homa_effect = HDown dgram | HUp dgram | HArm homa_timer simtime | HCancel homa_timer

datatype homa_op = HFire homa_timer | HUpper u32 dgram | HLower dgram

definition grant_timeout :: simtime where
  "grant_timeout = 2 / 100000"

definition no_rcv :: homa_rcv where
  "no_rcv = \<lparr>hr_destAddr = 0, hr_flowid = 0, if_get = (\<lambda>_. Some False), now_received_data_seq = 0, now_send_grt_seq = 0,
     RcvState = GRANT_STOP, SenderPriority = -1, has_timers = False\<rparr>"

definition no_snd :: homa_snd where
  "no_snd = \<lparr>hs_flowid = 0, hs_destAddr = 0, hs_srcPort = 0, hs_destPort = 0, hs_cretime = 0, hs_pckseq = 0,
     hs_flowsize = 0, sendRtt = 0, unsSize = 0, sSize = 0, unscheduledPrio = 0\<rparr>"

definition HOMA_initialize :: "homa_cfg \<Rightarrow> homa res" where
  "HOMA_initialize cfg =
     (let x = baseRTT cfg * linkspeed cfg / 8 in
      if - (2 ^ 31) - 1 < x \<and> x < 2 ^ 31 then
        Inr \<lparr>ho_senders = [], ho_receivers = [], rttbytes = trunc_real x, ho_srcAddr = 0, ho_lastflowid = -1,
             ho_last_creation_time = 0, priorityUse = replicate 8 False, ho_timers = (\<lambda>_. None), timer_seq = (\<lambda>_. 0)\<rparr>
      else Inl FloatConversion)"

subsection \<open>Priorities\<close>

definition HOMA_setPrioCutOffs :: "u32 list" where
  "HOMA_setPrioCutOffs = [0, 50, 70, 100, 200, 10000]"

function prio_search :: "u32 list \<Rightarrow> u32 \<Rightarrow> nat \<Rightarrow> nat \<Rightarrow> nat" where
  "prio_search cuts msgSize low high =
     (if low < high then
        let mid = (high + low) div 2 in
        if msgSize \<le> cuts ! mid then prio_search cuts msgSize low mid else prio_search cuts msgSize (mid + 1) high
      else high)"
  by pat_completeness auto
termination by (relation "measure (\<lambda>(cuts, msgSize, low, high). high - low)") (auto simp: Let_def)

declare prio_search.simps [simp del]

definition HOMA_getMesgPrio :: "u32 \<Rightarrow> nat" where
  "HOMA_getMesgPrio msgSize = prio_search HOMA_setPrioCutOffs msgSize 0 (length HOMA_setPrioCutOffs - 1)"

text \<open>A write to \<open>priorityUse\<close>, and the first free priority; without one the entry keeps its -1.\<close>

definition free_priority :: "int \<Rightarrow> homa \<Rightarrow> homa res" where
  "free_priority i s =
     (if 0 \<le> i \<and> i < 8 then Inr (s\<lparr>priorityUse := (priorityUse s)[nat i := False]\<rparr>) else Inl OutOfBounds)"

definition take_priority :: "homa \<Rightarrow> int \<times> homa" where
  "take_priority s =
     (case find_idx (\<lambda>i. \<not> priorityUse s ! i) [0..<8] of
        None \<Rightarrow> (-1, s)
      | Some i \<Rightarrow> (int i, s\<lparr>priorityUse := (priorityUse s)[i := True]\<rparr>))"

subsection \<open>Sending\<close>

text \<open>A datagram with a UDP header; \<open>k\<close>, \<open>n\<close>, \<open>prio\<close>, \<open>lst\<close>, \<open>cret\<close> and \<open>fsize\<close> are set in its tag.\<close>

definition homa_data :: "string \<Rightarrow> int \<Rightarrow> homa_snd \<Rightarrow> u32 \<Rightarrow> int \<Rightarrow> int \<Rightarrow> bool \<Rightarrow> simtime \<Rightarrow> int \<Rightarrow> dgram" where
  "homa_data nm src f k bytes prio lst cret fsize =
     \<lparr>p_id = 0, p_name = nm @ int_digits (sint k) @ ''-'' @ int_digits (hs_pckseq f), p_len = nat (8 * (bytes + 8)),
      p_iface = 0, p_ecn = None,
      p_tags = [\<lparr>ht_flowid = k, ht_priority = prio, ht_flowsize = word_of_int fsize, ht_cretime = cret,
                 ht_packetid = hs_pckseq f, ht_last = lst, ht_queueid = 0, ht_decel = False, ht_speedup = False,
                 ht_sender_priority = -1\<rparr>],
      p_bfc = None, p_ispause = None, d_src = src, d_dest = hs_destAddr f, d_sport = hs_srcPort f,
      d_dport = hs_destPort f, d_ecn = 0, d_recRate = 0, d_int = None, d_psd = None, d_sack = None, d_time = 0\<rparr>"

text \<open>One call of \<open>send_unschedule\<close> up to the call of itself, with whether it makes that call.\<close>

definition homa_send_one :: "homa_cfg \<Rightarrow> u32 \<Rightarrow> homa \<Rightarrow> (bool \<times> homa \<times> homa_effect list) res" where
  "homa_send_one cfg k s =
     (case map_get (ho_senders s) k of
        None \<Rightarrow> Inl EndIterator
      | Some f \<Rightarrow>
          let bytes = (if sendRtt f + max_pck_size cfg \<le> unsSize f then max_pck_size cfg else unsSize f - sendRtt f);
              sent = sendRtt f + bytes;
              s1 = (if ho_lastflowid s \<noteq> hs_flowid f
                    then s\<lparr>ho_last_creation_time := hs_cretime f, ho_lastflowid := hs_flowid f\<rparr> else s);
              packet = homa_data ''homaUData-'' (ho_srcAddr s1) f (hs_flowid f) bytes 0 (sent = unsSize f \<and> sSize f = 0)
                         (ho_last_creation_time s1) (hs_flowsize f);
              s2 = s1\<lparr>ho_senders := map_put k (f\<lparr>sendRtt := sent, hs_pckseq := hs_pckseq f + 1\<rparr>) (ho_senders s1)\<rparr>
          in Inr (sent < unsSize f, s2, [HDown packet]))"

text \<open>The recursion; it need not come to an end, and \<open>None\<close> is the value then.\<close>

partial_function (option) homa_sends :: "homa_cfg \<Rightarrow> u32 \<Rightarrow> homa \<Rightarrow> (homa \<times> homa_effect list) res option" where
  "homa_sends cfg k s =
     (case homa_send_one cfg k s of
        Inl e \<Rightarrow> Some (Inl e)
      | Inr (again, s1, es) \<Rightarrow>
          if again then
            Option.bind (homa_sends cfg k s1) (\<lambda>r. Some (rbind r (\<lambda>(s2, es2). Inr (s2, es @ es2))))
          else Some (Inr (s1, es)))"

definition HOMA_send_unschedule :: "homa_cfg \<Rightarrow> u32 \<Rightarrow> homa \<Rightarrow> (homa \<times> homa_effect list) res" where
  "HOMA_send_unschedule cfg k s = (case homa_sends cfg k s of None \<Rightarrow> Inl NoProgress | Some r \<Rightarrow> r)"

text \<open>A new message: what fits in a round trip is unscheduled.  \<open>junk\<close> is what \<open>unsSize\<close> holds before it is set.\<close>

definition homa_new_flow :: "u32 \<Rightarrow> hitag \<Rightarrow> dgram \<Rightarrow> homa \<Rightarrow> homa_snd" where
  "homa_new_flow junk tag pck s =
     (let size = message_length tag in
      \<lparr>hs_flowid = ht_flowid tag, hs_destAddr = d_dest pck, hs_srcPort = d_sport pck, hs_destPort = d_dport pck,
       hs_cretime = ht_cretime tag, hs_pckseq = 0, hs_flowsize = size, sendRtt = 0,
       unsSize = (if size < rttbytes s then size else rttbytes s),
       sSize = (if size < rttbytes s then 0 else size - rttbytes s),
       unscheduledPrio = HOMA_getMesgPrio junk\<rparr>)"

definition HOMA_processUpperpck :: "homa_cfg \<Rightarrow> u32 \<Rightarrow> dgram \<Rightarrow> homa \<Rightarrow> (homa \<times> homa_effect list) res" where
  "HOMA_processUpperpck cfg junk pck s =
     (if contains ''Data'' (p_name pck) \<and> activate cfg then
        rbind (last_tag (packet.truncate pck)) (\<lambda>tag.
          let k = ht_flowid tag in
          if map_get (ho_senders s) k = None then
            HOMA_send_unschedule cfg k
              (s\<lparr>ho_senders := map_put k (homa_new_flow junk tag pck s) (ho_senders s), ho_srcAddr := d_src pck\<rparr>)
          else Inr (s, []))
      else Inr (s, [HDown pck]))"

text \<open>A grant is answered with one packet, at the priority it names.\<close>

definition HOMA_receive_grant :: "homa_cfg \<Rightarrow> simtime \<Rightarrow> dgram \<Rightarrow> homa \<Rightarrow> (homa \<times> homa_effect list) res" where
  "HOMA_receive_grant cfg now pck s =
     rbind (last_tag (packet.truncate pck)) (\<lambda>tag.
       let k = ht_flowid tag in
       case map_get (ho_senders s) k of
         None \<Rightarrow> Inl EndIterator
       | Some f \<Rightarrow>
           if now < stopTime cfg \<and> sSize f > 0 then
             let (bytes, rest) = segment (max_pck_size cfg) (sSize f);
                 packet = homa_data ''homaSData-'' (ho_srcAddr s) f k bytes (ht_sender_priority tag) (rest = 0) (hs_cretime f) 0
             in Inr (s\<lparr>ho_senders := map_put k (f\<lparr>hs_flowid := k, sSize := rest, hs_pckseq := hs_pckseq f + 1\<rparr>) (ho_senders s)\<rparr>,
                     [HDown packet])
           else Inr (s, []))"

subsection \<open>Receiving\<close>

text \<open>\<open>receiver_flowMap[k]\<close>: the entry, made if it is not there.\<close>

definition rcv_at :: "u32 \<Rightarrow> homa \<Rightarrow> homa_rcv \<times> homa" where
  "rcv_at k s =
     (case map_get (ho_receivers s) k of
        Some r \<Rightarrow> (r, s)
      | None \<Rightarrow> (no_rcv, s\<lparr>ho_receivers := map_put k no_rcv (ho_receivers s)\<rparr>))"

text \<open>A packet of the control messages \<open>Grant\<close>, \<open>Resend\<close> and \<open>Busy\<close>.\<close>

definition homa_control :: "string \<Rightarrow> nat \<Rightarrow> int \<Rightarrow> u32 \<Rightarrow> int \<Rightarrow> int \<Rightarrow> int \<Rightarrow> int \<Rightarrow> simtime \<Rightarrow> dgram" where
  "homa_control nm bytes prio k n sprio src dest now =
     \<lparr>p_id = 0, p_name = nm, p_len = 8 * bytes, p_iface = 0, p_ecn = None,
      p_tags = [\<lparr>ht_flowid = k, ht_priority = prio, ht_flowsize = 0, ht_cretime = 0, ht_packetid = n, ht_last = False,
                 ht_queueid = 0, ht_decel = False, ht_speedup = False, ht_sender_priority = sprio\<rparr>],
      p_bfc = None, p_ispause = None, d_src = src, d_dest = dest, d_sport = 0, d_dport = 0, d_ecn = 0, d_recRate = 0,
      d_int = None, d_psd = None, d_sack = None, d_time = now\<rparr>"

text \<open>A grant; the timeout is started anew. \<open>cancelEvent\<close> refuses a null timer.\<close>

definition HOMA_send_grant :: "homa_cfg \<Rightarrow> simtime \<Rightarrow> u32 \<Rightarrow> homa \<Rightarrow> (homa \<times> homa_effect list) res" where
  "HOMA_send_grant cfg now k s =
     (let (r, s1) = rcv_at k s in
      if \<not> has_timers r then Inl NullPointer
      else if now < stopTime cfg then
        let n = now_send_grt_seq r + 1
        in Inr (s1\<lparr>ho_receivers := map_put k (r\<lparr>now_send_grt_seq := n\<rparr>) (ho_receivers s1),
                   ho_timers := (ho_timers s1)(Timeout k := Some (now + grant_timeout))\<rparr>,
                [HDown (homa_control ''Grant'' 26 0 (hr_flowid r) n (SenderPriority r) (ho_srcAddr s1) (hr_destAddr r) now),
                 HCancel (Timeout k), HArm (Timeout k) (now + grant_timeout)])
      else Inr (s1\<lparr>ho_timers := (ho_timers s1)(Timeout k := None)\<rparr>, [HCancel (Timeout k)]))"

text \<open>The end of a message at the receiver: its priority is freed, its timers and its entry deleted.\<close>

definition homa_finish :: "u32 \<Rightarrow> int \<Rightarrow> homa_rcv \<Rightarrow> homa \<Rightarrow> (homa \<times> homa_effect list) res" where
  "homa_finish k prio r s =
     rbind (free_priority prio s) (\<lambda>s1.
       if \<not> has_timers r then Inl NullPointer
       else Inr (s1\<lparr>ho_timers := (ho_timers s1)(SendResend k := None, Timeout k := None),
                    ho_receivers := map_erase k (ho_receivers s1)\<rparr>,
                 [HCancel (SendResend k), HCancel (Timeout k)]))"

definition homa_new_rcv :: "u32 \<Rightarrow> int \<Rightarrow> homa \<Rightarrow> homa_rcv \<times> homa" where
  "homa_new_rcv k dest s =
     (let (prio, s1) = take_priority s in
      (\<lparr>hr_destAddr = dest, hr_flowid = k, if_get = (\<lambda>_. None), now_received_data_seq = 0, now_send_grt_seq = 0,
        RcvState = GRANT_STOP, SenderPriority = prio, has_timers = True\<rparr>, s1))"

text \<open>
  The first members of the new entry are set before they are read.  After the last packet the entry is erased,
  and made again by the reading of its state.
\<close>

definition HOMA_receive_unscheduledata :: "homa_cfg \<Rightarrow> simtime \<Rightarrow> dgram \<Rightarrow> homa \<Rightarrow> (homa \<times> homa_effect list) res" where
  "HOMA_receive_unscheduledata cfg now pck s =
     rbind (last_tag (packet.truncate pck)) (\<lambda>tag.
       let k = ht_flowid tag; n = ht_packetid tag; s0 = s\<lparr>ho_srcAddr := d_dest pck\<rparr>;
           (r0, s1) = (case map_get (ho_receivers s0) k of Some r \<Rightarrow> (r, s0) | None \<Rightarrow> homa_new_rcv k (d_src pck) s0)
       in if n < 0 \<or> 10000 \<le> n then Inl OutOfBounds
          else
            let r = r0\<lparr>now_received_data_seq := n, now_send_grt_seq := -1, if_get := (if_get r0)(nat n := Some True)\<rparr>
            in if ht_last tag then
                 rbind (homa_finish k (SenderPriority r) r s1) (\<lambda>(s2, es).
                   Inr (snd (rcv_at k s2), es @ [HUp pck]))
               else
                 rbind (HOMA_send_grant cfg now k
                          (s1\<lparr>ho_receivers := map_put k (r\<lparr>RcvState := GRANT_SENDING\<rparr>) (ho_receivers s1)\<rparr>)) (\<lambda>(s2, es).
                   Inr (s2, es @ [HUp pck])))"

definition HOMA_receive_scheduledata :: "homa_cfg \<Rightarrow> simtime \<Rightarrow> dgram \<Rightarrow> homa \<Rightarrow> (homa \<times> homa_effect list) res" where
  "HOMA_receive_scheduledata cfg now pck s =
     rbind (last_tag (packet.truncate pck)) (\<lambda>tag.
       let k = ht_flowid tag; n = ht_packetid tag in
       case map_get (ho_receivers s) k of
         None \<Rightarrow> Inl EndIterator
       | Some r0 \<Rightarrow>
           if n < 0 \<or> 10000 \<le> n then Inl OutOfBounds
           else
             let r = r0\<lparr>now_received_data_seq := n, if_get := (if_get r0)(nat n := Some True)\<rparr>
             in if ht_last tag then
                  rbind (homa_finish k (ht_priority tag) r s) (\<lambda>(s1, es). Inr (s1, es @ [HUp pck]))
                else
                  let s1 = s\<lparr>ho_receivers := map_put k r (ho_receivers s)\<rparr>
                  in rbind (if RcvState r = GRANT_SENDING then HOMA_send_grant cfg now k s1 else Inr (s1, [])) (\<lambda>(s2, es).
                       Inr (s2, es @ [HUp pck])))"

subsection \<open>Repetitions\<close>

definition HOMA_send_resend :: "simtime \<Rightarrow> u32 \<Rightarrow> int \<Rightarrow> homa \<Rightarrow> (homa \<times> homa_effect list) res" where
  "HOMA_send_resend now k n s =
     (let (r, s1) = rcv_at k s in
      Inr (s1, [HDown (homa_control ''Resend'' 1 0 (hr_flowid r) n (-1) (ho_srcAddr s1) (hr_destAddr r) now)]))"

text \<open>The packet that is asked for, with a name of its own and no UDP header.\<close>

definition HOMA_receive_resend :: "homa_cfg \<Rightarrow> simtime \<Rightarrow> dgram \<Rightarrow> homa \<Rightarrow> (homa \<times> homa_effect list) res" where
  "HOMA_receive_resend cfg now pck s =
     rbind (last_tag (packet.truncate pck)) (\<lambda>tag.
       case map_get (ho_senders s) (ht_flowid tag) of
         None \<Rightarrow> Inl EndIterator
       | Some f \<Rightarrow>
           Inr (s, [HDown
             \<lparr>p_id = 0,
              p_name = ''homaScheduleData-'' @ int_digits (sint (ht_flowid tag)) @ ''-'' @ int_digits (ht_packetid tag),
              p_len = nat (8 * max_pck_size cfg), p_iface = 0, p_ecn = None,
              p_tags = [\<lparr>ht_flowid = hs_flowid f, ht_priority = 7, ht_flowsize = 0, ht_cretime = now,
                         ht_packetid = ht_packetid tag, ht_last = False, ht_queueid = 0, ht_decel = False,
                         ht_speedup = False, ht_sender_priority = -1\<rparr>],
              p_bfc = None, p_ispause = None, d_src = ho_srcAddr s, d_dest = hs_destAddr f, d_sport = 0, d_dport = 0,
              d_ecn = 0, d_recRate = 0, d_int = None, d_psd = None, d_sack = None, d_time = now\<rparr>]))"

definition HOMA_send_busy :: "simtime \<Rightarrow> u32 \<Rightarrow> int \<Rightarrow> homa \<Rightarrow> (homa \<times> homa_effect list) res" where
  "HOMA_send_busy now k n s =
     (let (f, s1) = (case map_get (ho_senders s) k of
                       Some f \<Rightarrow> (f, s)
                     | None \<Rightarrow> (no_snd, s\<lparr>ho_senders := map_put k no_snd (ho_senders s)\<rparr>))
      in Inr (s1, [HDown (homa_control ''Busy'' 1 7 (hs_flowid f) n (-1) (ho_srcAddr s1) (hs_destAddr f) now)]))"

definition HOMA_receive_busy :: "simtime \<Rightarrow> dgram \<Rightarrow> homa \<Rightarrow> (homa \<times> homa_effect list) res" where
  "HOMA_receive_busy now pck s =
     rbind (last_tag (packet.truncate pck)) (\<lambda>tag.
       let k = ht_flowid tag; (r, s1) = rcv_at k s in
       if \<not> has_timers r then Inl NullPointer
       else if ho_timers s1 (SendResend k) \<noteq> None then Inl AlreadyScheduled
       else Inr (s1\<lparr>timer_seq := (timer_seq s1)(SendResend k := ht_packetid tag),
                    ho_timers := (ho_timers s1)(SendResend k := Some (now + grant_timeout))\<rparr>,
                 [HArm (SendResend k) (now + grant_timeout)]))"

text \<open>The first packet that has not come; the loop runs to 10000 and the array has 10000 elements.\<close>

fun first_missing :: "(nat \<Rightarrow> bool option) \<Rightarrow> nat list \<Rightarrow> nat option res" where
  "first_missing got [] = Inr None"
| "first_missing got (i # is) =
     (if 10000 \<le> i then Inl OutOfBounds
      else case got i of
        None \<Rightarrow> Inl Uninitialized
      | Some True \<Rightarrow> first_missing got is
      | Some False \<Rightarrow> Inr (Some i))"

definition HOMA_time_out :: "simtime \<Rightarrow> u32 \<Rightarrow> homa \<Rightarrow> (homa \<times> homa_effect list) res" where
  "HOMA_time_out now k s =
     (case map_get (ho_receivers s) k of
        None \<Rightarrow> Inl EndIterator
      | Some r \<Rightarrow>
          if RcvState r \<noteq> GRANT_STOP then
            rbind (first_missing (if_get r) [0..<10001]) (\<lambda>m.
              case m of None \<Rightarrow> Inr (s, []) | Some i \<Rightarrow> HOMA_send_resend now k (int i) s)
          else Inr (s, []))"

subsection \<open>The module\<close>

definition HOMA_processLowerpck :: "homa_cfg \<Rightarrow> simtime \<Rightarrow> dgram \<Rightarrow> homa \<Rightarrow> (homa \<times> homa_effect list) res" where
  "HOMA_processLowerpck cfg now pck s =
     (if p_name pck = ''Grant'' then HOMA_receive_grant cfg now pck s
      else if p_name pck = ''Resend'' then HOMA_receive_resend cfg now pck s
      else if p_name pck = ''Busy'' then HOMA_receive_busy now pck s
      else if contains ''homaUData'' (p_name pck) then HOMA_receive_unscheduledata cfg now pck s
      else if contains ''homaSData'' (p_name pck) then HOMA_receive_scheduledata cfg now pck s
      else Inr (s, [HUp pck]))"

fun HOMA_handleSelfMessage :: "homa_cfg \<Rightarrow> simtime \<Rightarrow> homa_timer \<Rightarrow> homa \<Rightarrow> (homa \<times> homa_effect list) res" where
  "HOMA_handleSelfMessage cfg now (SendUnschedule k) s = HOMA_send_unschedule cfg k s"
| "HOMA_handleSelfMessage cfg now (SendBusy k) s = HOMA_send_busy now k (timer_seq s (SendBusy k)) s"
| "HOMA_handleSelfMessage cfg now (SendResend k) s = HOMA_send_resend now k (timer_seq s (SendResend k)) s"
| "HOMA_handleSelfMessage cfg now (Timeout k) s = HOMA_time_out now k s"

text \<open>Each event: a timer that is not armed does not fire.\<close>

fun HOMA_handleMessage :: "homa_cfg \<Rightarrow> simtime \<times> homa_op \<Rightarrow> homa \<Rightarrow> (homa \<times> homa_effect list) res" where
  "HOMA_handleMessage cfg (now, HFire tm) s =
     (if ho_timers s tm = None then Inr (s, [])
      else HOMA_handleSelfMessage cfg now tm (s\<lparr>ho_timers := (ho_timers s)(tm := None)\<rparr>))"
| "HOMA_handleMessage cfg (now, HUpper junk pck) s = HOMA_processUpperpck cfg junk pck s"
| "HOMA_handleMessage cfg (now, HLower pck) s = HOMA_processLowerpck cfg now pck s"


subsection \<open>The priority of a size\<close>

text \<open>The search finds the first cutoff a message does not exceed, and the last when it exceeds all.\<close>

lemma prio_search_first:
  assumes "high < length cuts" and "low \<le> high" and "sorted cuts" and "\<forall>i<low. cuts ! i < m"
    and "high + 1 < length cuts \<longrightarrow> m \<le> cuts ! high"
  shows "prio_search cuts m low high = (LEAST i. i = length cuts - 1 \<or> m \<le> cuts ! i)"
  using assms
proof (induction cuts m low high rule: prio_search.induct)
  case (1 cuts m low high)
  show ?case
  proof (cases "low < high")
    case False
    then have "prio_search cuts m low high = high" and h: "low = high" using "1.prems"(2) by (simp_all add: prio_search.simps)
    moreover have "(LEAST i. i = length cuts - 1 \<or> m \<le> cuts ! i) = high"
    proof (rule Least_equality)
      show "high = length cuts - 1 \<or> m \<le> cuts ! high" using "1.prems"(1,5) by auto
      show "high \<le> y" if "y = length cuts - 1 \<or> m \<le> cuts ! y" for y
      proof (rule ccontr)
        assume "\<not> high \<le> y"
        then have "y < low" using h by simp
        then have "cuts ! y < m" using "1.prems"(4) by simp
        with that \<open>\<not> high \<le> y\<close> "1.prems"(1) show False by auto
      qed
    qed
    ultimately show ?thesis by simp
  next
    case True
    let ?mid = "(high + low) div 2"
    have mid: "low \<le> ?mid" "?mid < high" using True by auto
    show ?thesis
    proof (cases "m \<le> cuts ! ?mid")
      case le: True
      with "1.IH"(1)[OF True refl le] "1.prems" mid show ?thesis using True by (simp add: prio_search.simps Let_def)
    next
      case gt: False
      have "\<forall>i<?mid + 1. cuts ! i < m"
      proof (intro allI impI)
        fix i assume "i < ?mid + 1"
        then have "cuts ! i \<le> cuts ! ?mid" using "1.prems"(1,3) mid by (intro sorted_nth_mono) auto
        with gt show "cuts ! i < m" by auto
      qed
      with "1.IH"(2)[OF True refl gt] "1.prems" mid gt show ?thesis using True by (simp add: prio_search.simps Let_def)
    qed
  qed
qed

lemma getMesgPrio_first: "HOMA_getMesgPrio m = (LEAST i. i = 5 \<or> m \<le> HOMA_setPrioCutOffs ! i)"
proof -
  have five: "length HOMA_setPrioCutOffs - 1 = 5" by (simp add: HOMA_setPrioCutOffs_def)
  have "HOMA_getMesgPrio m = (LEAST i. i = length HOMA_setPrioCutOffs - 1 \<or> m \<le> HOMA_setPrioCutOffs ! i)"
    unfolding HOMA_getMesgPrio_def by (rule prio_search_first) (simp_all add: HOMA_setPrioCutOffs_def)
  then show ?thesis unfolding five .
qed

subsection \<open>Names\<close>

lemma digits_code: "c \<in> set (digits n) \<Longrightarrow> of_char c < (58 :: nat)"
proof (induction n rule: digits.induct)
  case (1 n)
  from "1.prems" have "c = char_of (48 + n mod 10) \<or> (10 \<le> n \<and> c \<in> set (digits (n div 10)))"
    by (subst (asm) digits.simps) (auto split: if_splits)
  then show ?case
  proof
    assume "c = char_of (48 + n mod 10)"
    then have "of_char c = (48 + n mod 10) mod (256 :: nat)" by simp
    then show ?thesis by simp
  qed (use "1.IH" in simp)
qed

lemma int_digits_code: "c \<in> set (int_digits n) \<Longrightarrow> of_char c < (58 :: nat)"
  by (auto simp: int_digits_def dest: digits_code split: if_splits)

lemma contains_subset: "contains pat s \<Longrightarrow> set pat \<subseteq> set s"
  by (auto simp: contains_append)

lemma sdata_not_udata: "\<not> contains ''homaUData'' (''homaSData-'' @ int_digits a @ ''-'' @ int_digits b)"
proof
  assume "contains ''homaUData'' (''homaSData-'' @ int_digits a @ ''-'' @ int_digits b)"
  from contains_subset[OF this] have "CHR ''U'' \<in> set (int_digits a) \<or> CHR ''U'' \<in> set (int_digits b)" by auto
  then show False by (auto dest: int_digits_code)
qed

lemma schedule_not_data:
  "\<not> contains ''homaUData'' (''homaScheduleData-'' @ int_digits a @ ''-'' @ int_digits b)"
  "\<not> contains ''homaSData'' (''homaScheduleData-'' @ int_digits a @ ''-'' @ int_digits b)"
proof -
  have d: "set (int_digits x) \<inter> {CHR ''U'', CHR ''h'', CHR ''o''} = {}" for x by (auto dest: int_digits_code)
  have "\<not> contains ''homaUData'' (''homaScheduleData-'' @ int_digits a @ ''-'' @ int_digits b)"
    using contains_subset[of "''homaUData''" "''homaScheduleData-'' @ int_digits a @ ''-'' @ int_digits b"] d[of a] d[of b] by auto
  moreover have n: "\<not> contains ''homaSData'' t" if "set t \<inter> {CHR ''o''} = {}" for t
    using contains_subset[of "''homaSData''" t] that by auto
  have "\<not> contains ''homaSData'' (''homaScheduleData-'' @ int_digits a @ ''-'' @ int_digits b)"
    using n[of "''meScheduleData-'' @ int_digits a @ ''-'' @ int_digits b"] d[of a] d[of b] n[of "int_digits a @ ''-'' @ int_digits b"]
    by (auto simp: n)
  ultimately show "\<not> contains ''homaUData'' (''homaScheduleData-'' @ int_digits a @ ''-'' @ int_digits b)"
    "\<not> contains ''homaSData'' (''homaScheduleData-'' @ int_digits a @ ''-'' @ int_digits b)" by simp_all
qed

subsection \<open>What a sender sends\<close>

text \<open>The data packets of a message among effects; what is left of it.\<close>

fun homa_sent :: "u32 \<Rightarrow> homa_effect list \<Rightarrow> (u32 \<times> int \<times> bool) list" where
  "homa_sent k [] = []"
| "homa_sent k (HDown p # es) =
     (if (starts_with ''homaUData'' (p_name p) \<or> starts_with ''homaSData'' (p_name p)) \<and> p_tags p \<noteq> [] \<and> ht_flowid (last (p_tags p)) = k
      then (of_int (ht_packetid (last (p_tags p))), payload_of p, ht_last (last (p_tags p))) # homa_sent k es
      else homa_sent k es)"
| "homa_sent k (_ # es) = homa_sent k es"

lemma homa_sent_append: "homa_sent k (es @ es') = homa_sent k es @ homa_sent k es'"
  by (induction k es rule: homa_sent.induct) auto

definition todo :: "homa_snd \<Rightarrow> int" where
  "todo f = unsSize f - sendRtt f + sSize f"

definition homa_left :: "u32 \<Rightarrow> homa \<Rightarrow> (int \<times> u32) option" where
  "homa_left k s =
     (case map_get (ho_senders s) k of
        None \<Rightarrow> None
      | Some f \<Rightarrow> if todo f = 0 then None else Some (todo f, of_int (hs_pckseq f)))"

lemma homa_left_cong: "map_get (ho_senders t) k = map_get (ho_senders s) k \<Longrightarrow> homa_left k t = homa_left k s"
  by (simp add: homa_left_def)

lemma homa_data_fields [simp]:
  "p_tags (homa_data nm s f k b prio lst c z) =
     [\<lparr>ht_flowid = k, ht_priority = prio, ht_flowsize = word_of_int z, ht_cretime = c, ht_packetid = hs_pckseq f, ht_last = lst,
       ht_queueid = 0, ht_decel = False, ht_speedup = False, ht_sender_priority = -1\<rparr>]"
  "p_name (homa_data nm s f k b prio lst c z) = nm @ int_digits (sint k) @ ''-'' @ int_digits (hs_pckseq f)"
  "d_src (homa_data nm s f k b prio lst c z) = s" "d_dest (homa_data nm s f k b prio lst c z) = hs_destAddr f"
  by (simp_all add: homa_data_def)

lemma homa_data_payload [simp]: "0 \<le> b \<Longrightarrow> payload_of (homa_data nm s f k b prio lst c z) = b"
  by (simp add: homa_data_def payload_of_def bytes_of_def)

text \<open>The effect of the unscheduled part: the entry is brought to its end, all else is as it was.\<close>

definition others_same :: "u32 \<Rightarrow> homa \<Rightarrow> homa \<Rightarrow> bool" where
  "others_same k s t \<longleftrightarrow> (\<forall>j. j \<noteq> k \<longrightarrow> map_get (ho_senders t) j = map_get (ho_senders s) j) \<and>
     ho_receivers t = ho_receivers s \<and> rttbytes t = rttbytes s \<and> ho_srcAddr t = ho_srcAddr s \<and>
     priorityUse t = priorityUse s \<and> ho_timers t = ho_timers s \<and> timer_seq t = timer_seq s"

lemma others_same_trans: "others_same k s t \<Longrightarrow> others_same k t u \<Longrightarrow> others_same k s u"
  by (simp add: others_same_def)

lemma others_same_refl [simp]: "others_same k s s"
  by (simp add: others_same_def)

lemma homa_send_one_step:
  assumes "map_get (ho_senders s) k = Some f" and "hs_flowid f = k" and "sendRtt f \<le> unsSize f" and "0 < max_pck_size cfg" and "0 \<le> sSize f"
  obtains s1 b p where "homa_send_one cfg k s = Inr (sendRtt f + b < unsSize f, s1, [HDown p])"
    and "0 \<le> b" and "b \<le> unsSize f - sendRtt f" and "b \<le> max_pck_size cfg"
    and "sendRtt f + b < unsSize f \<longrightarrow> b = max_pck_size cfg"
    and "map_get (ho_senders s1) k = Some (f\<lparr>sendRtt := sendRtt f + b, hs_pckseq := hs_pckseq f + 1\<rparr>)"
    and "others_same k s s1"
    and "p = homa_data ''homaUData-'' (ho_srcAddr s) f k b 0 (sendRtt f + b = unsSize f \<and> sSize f = 0) (ho_last_creation_time s1) (hs_flowsize f)"
proof -
  let ?b = "if sendRtt f + max_pck_size cfg \<le> unsSize f then max_pck_size cfg else unsSize f - sendRtt f"
  let ?t = "if ho_lastflowid s \<noteq> hs_flowid f then s\<lparr>ho_last_creation_time := hs_cretime f, ho_lastflowid := hs_flowid f\<rparr> else s"
  let ?s1 = "?t\<lparr>ho_senders := map_put k (f\<lparr>sendRtt := sendRtt f + ?b, hs_pckseq := hs_pckseq f + 1\<rparr>) (ho_senders ?t)\<rparr>"
  show thesis
  proof (rule that[of ?b ?s1])
    show "homa_send_one cfg k s = Inr (sendRtt f + ?b < unsSize f, ?s1,
       [HDown (homa_data ''homaUData-'' (ho_srcAddr s) f k ?b 0 (sendRtt f + ?b = unsSize f \<and> sSize f = 0) (ho_last_creation_time ?s1) (hs_flowsize f))])"
      using assms(1,2) by (auto simp: homa_send_one_def Let_def)
  qed (use assms in \<open>auto simp: others_same_def get_put\<close>)
qed


text \<open>
  A data packet of message \<open>k\<close> with number \<open>n\<close>, scheduled ones at priority \<open>pr\<close>; and a sequence of them numbered from
  \<open>n\<close> on, of which the last has the flag if \<open>fin\<close>.
\<close>

definition is_piece :: "u32 \<Rightarrow> int \<Rightarrow> int \<Rightarrow> bool \<Rightarrow> dgram \<Rightarrow> bool" where
  "is_piece k pr n lst p \<longleftrightarrow> p_name p \<noteq> ''Grant'' \<and> p_name p \<noteq> ''Resend'' \<and> p_name p \<noteq> ''Busy'' \<and>
     p_tags p \<noteq> [] \<and> ht_flowid (last (p_tags p)) = k \<and> ht_packetid (last (p_tags p)) = n \<and> ht_last (last (p_tags p)) = lst \<and>
     (contains ''homaUData'' (p_name p) \<or>
      \<not> contains ''homaUData'' (p_name p) \<and> contains ''homaSData'' (p_name p) \<and> ht_priority (last (p_tags p)) = pr)"

fun flight :: "u32 \<Rightarrow> int \<Rightarrow> int \<Rightarrow> bool \<Rightarrow> dgram list \<Rightarrow> bool" where
  "flight k pr n fin [] = (\<not> fin)"
| "flight k pr n fin [p] = is_piece k pr n fin p"
| "flight k pr n fin (p # q # ps) = (is_piece k pr n False p \<and> flight k pr (n + 1) fin (q # ps))"

lemma flight_snoc: "flight k pr n False ps \<Longrightarrow> is_piece k pr (n + int (length ps)) fin p \<Longrightarrow> flight k pr n fin (ps @ [p])"
  by (induction k pr n False ps arbitrary: fin rule: flight.induct) (auto simp: algebra_simps)

lemma flight_Cons: "flight k pr n fin (p # ps) \<longleftrightarrow> is_piece k pr n (fin \<and> ps = []) p \<and> (ps \<noteq> [] \<longrightarrow> flight k pr (n + 1) fin ps)"
  by (cases ps) auto

lemma udata_piece: "is_piece k pr (hs_pckseq f) lst (homa_data ''homaUData-'' a f k b prio lst c z)"
proof -
  have "contains ''homaUData'' (''homaUData-'' @ int_digits (sint k) @ ''-'' @ int_digits (hs_pckseq f))" by simp
  then show ?thesis by (simp add: is_piece_def)
qed

lemma sdata_piece: "is_piece k pr (hs_pckseq f) lst (homa_data ''homaSData-'' a f k b pr lst c z)"
proof -
  have "contains ''homaSData'' (''homaSData-'' @ int_digits (sint k) @ ''-'' @ int_digits (hs_pckseq f))" by simp
  then show ?thesis using sdata_not_udata[of "sint k" "hs_pckseq f"] by (simp add: is_piece_def)
qed

lemma homa_sends_unfold:
  "homa_send_one cfg k s = Inr (again, s1, es) \<Longrightarrow>
     homa_sends cfg k s = (if again then Option.bind (homa_sends cfg k s1) (\<lambda>r. Some (rbind r (\<lambda>(s2, es2). Inr (s2, es @ es2))))
       else Some (Inr (s1, es)))"
  by (subst homa_sends.simps) simp

lemma homa_sent_udata:
  "0 \<le> b \<Longrightarrow> homa_sent j [HDown (homa_data ''homaUData-'' a f k b prio lst c z)] =
     (if k = j then [(of_int (hs_pckseq f), b, lst)] else [])"
  by simp

lemma homa_sends_run:
  assumes "map_get (ho_senders s) k = Some f" and "hs_flowid f = k" and "sendRtt f \<le> unsSize f" and "0 < max_pck_size cfg"
    and "0 \<le> sSize f"
  shows "\<exists>s' ps. homa_sends cfg k s = Some (Inr (s', map HDown ps)) \<and> ps \<noteq> [] \<and> others_same k s s' \<and>
     map_get (ho_senders s') k = Some (f\<lparr>sendRtt := unsSize f, hs_pckseq := hs_pckseq f + int (length ps)\<rparr>) \<and>
     flight k pr (hs_pckseq f) (sSize f = 0) ps \<and> (\<forall>j. j \<noteq> k \<longrightarrow> homa_sent j (map HDown ps) = []) \<and>
     (\<forall>p\<in>set ps. contains ''homaUData'' (p_name p) \<and> payload_of p \<le> max_pck_size cfg) \<and>
     sum_list (map payload_of ps) = unsSize f - sendRtt f \<and> (int (length ps) - 1) * max_pck_size cfg \<le> unsSize f - sendRtt f \<and>
     (0 < todo f \<longrightarrow> delivers (homa_sent k (map HDown ps)) (Some (todo f, of_int (hs_pckseq f))) (homa_left k s'))"
  using assms
proof (induction "nat (unsSize f - sendRtt f)" arbitrary: s f rule: less_induct)
  case less
  obtain s1 b p where one: "homa_send_one cfg k s = Inr (sendRtt f + b < unsSize f, s1, [HDown p])"
    and b: "0 \<le> b" "b \<le> unsSize f - sendRtt f" "b \<le> max_pck_size cfg" "sendRtt f + b < unsSize f \<longrightarrow> b = max_pck_size cfg"
    and s1: "map_get (ho_senders s1) k = Some (f\<lparr>sendRtt := sendRtt f + b, hs_pckseq := hs_pckseq f + 1\<rparr>)"
    and same: "others_same k s s1"
    and p: "p = homa_data ''homaUData-'' (ho_srcAddr s) f k b 0 (sendRtt f + b = unsSize f \<and> sSize f = 0)
           (ho_last_creation_time s1) (hs_flowsize f)"
    by (rule homa_send_one_step[OF less.prems])
  let ?f = "f\<lparr>sendRtt := sendRtt f + b, hs_pckseq := hs_pckseq f + 1\<rparr>"
  have pk: "homa_sent j [HDown p] = (if k = j then [(of_int (hs_pckseq f), b, sendRtt f + b = unsSize f \<and> sSize f = 0)] else [])" for j
    unfolding p by (rule homa_sent_udata[OF b(1)])
  have u: "contains ''homaUData'' (p_name p)" "payload_of p = b" using b(1) by (simp_all add: p)
  show ?case
  proof (cases "sendRtt f + b < unsSize f")
    case False
    with b have e: "sendRtt f + b = unsSize f" by simp
    have "homa_sends cfg k s = Some (Inr (s1, map HDown [p]))" using homa_sends_unfold[OF one] False by simp
    moreover have "flight k pr (hs_pckseq f) (sSize f = 0) [p]" using udata_piece e by (simp add: p)
    moreover have "homa_left k s1 = (if sSize f = 0 then None else Some (sSize f, of_int (hs_pckseq f) + 1))"
      using s1 e by (simp add: homa_left_def todo_def)
    then have "0 < todo f \<longrightarrow> delivers (homa_sent k (map HDown [p])) (Some (todo f, of_int (hs_pckseq f))) (homa_left k s1)"
      using pk[of k] e b less.prems(5) by (auto simp: todo_def)
    ultimately show ?thesis using s1 same pk e u b
      by (intro exI[of _ s1] exI[of _ "[p]"]) (simp del: homa_sent.simps)
  next
    case True
    have "nat (unsSize ?f - sendRtt ?f) < nat (unsSize f - sendRtt f)" using True b(4) less.prems(4) by simp
    from less.hyps[OF this s1] less.prems True obtain s2 ps where
      r: "homa_sends cfg k s1 = Some (Inr (s2, map HDown ps))" and ne: "ps \<noteq> []" and same2: "others_same k s1 s2"
      and s2: "map_get (ho_senders s2) k = Some (?f\<lparr>sendRtt := unsSize ?f, hs_pckseq := hs_pckseq ?f + int (length ps)\<rparr>)"
      and fl: "flight k pr (hs_pckseq ?f) (sSize ?f = 0) ps" and oth: "\<forall>j. j \<noteq> k \<longrightarrow> homa_sent j (map HDown ps) = []"
      and un: "\<forall>p\<in>set ps. contains ''homaUData'' (p_name p) \<and> payload_of p \<le> max_pck_size cfg"
      and sm: "sum_list (map payload_of ps) = unsSize ?f - sendRtt ?f" and ln: "(int (length ps) - 1) * max_pck_size cfg \<le> unsSize ?f - sendRtt ?f"
      and d: "0 < todo ?f \<longrightarrow> delivers (homa_sent k (map HDown ps)) (Some (todo ?f, of_int (hs_pckseq ?f))) (homa_left k s2)"
      by auto
    have "homa_sends cfg k s = Some (Inr (s2, map HDown (p # ps)))" using homa_sends_unfold[OF one] True r by simp
    moreover have "flight k pr (hs_pckseq f) (sSize f = 0) (p # ps)"
      using fl ne udata_piece True by (simp add: flight_Cons p)
    moreover have sent: "homa_sent j (map HDown (p # ps)) = homa_sent j [HDown p] @ homa_sent j (map HDown ps)" for j
      using homa_sent_append[of j "[HDown p]" "map HDown ps"] by simp
    moreover have t: "todo ?f = todo f - b" "0 < todo ?f" using True less.prems(5) by (simp_all add: todo_def)
    with d have "delivers (homa_sent k (map HDown ps)) (Some (todo f - b, of_int (hs_pckseq f) + 1)) (homa_left k s2)" by simp
    then have "delivers (homa_sent k (map HDown (p # ps))) (Some (todo f, of_int (hs_pckseq f))) (homa_left k s2)"
      unfolding sent pk using True b(1) t by (simp del: homa_sent.simps)
    moreover have "sum_list (map payload_of (p # ps)) = unsSize f - sendRtt f" using sm u by simp
    moreover have "(int (length (p # ps)) - 1) * max_pck_size cfg \<le> unsSize f - sendRtt f" using ln b(4) True by (simp add: algebra_simps)
    ultimately show ?thesis using s2 others_same_trans[OF same same2] pk oth True un u b(3)
      by (intro exI[of _ s2] exI[of _ "p # ps"] conjI) (auto simp del: homa_sent.simps simp: add.assoc)
  qed
qed


subsection \<open>The receiving side leaves the sending side alone\<close>

definition sending_same :: "homa \<Rightarrow> homa \<Rightarrow> homa_effect list \<Rightarrow> bool" where
  "sending_same s t es \<longleftrightarrow> ho_senders t = ho_senders s \<and> rttbytes t = rttbytes s \<and>
     (\<forall>k. ho_timers t (SendUnschedule k) = ho_timers s (SendUnschedule k) \<and> ho_timers t (SendBusy k) = ho_timers s (SendBusy k)) \<and>
     (\<forall>k. homa_sent k es = [])"

lemma sending_same_trans:
  "sending_same s t es \<Longrightarrow> sending_same t u es' \<Longrightarrow> sending_same s u (es @ es')"
  by (simp add: sending_same_def homa_sent_append)

lemma sending_up: "sending_same s t es \<Longrightarrow> sending_same s t (es @ [HUp p])"
  by (simp add: sending_same_def homa_sent_append)

lemma sending_same_up [simp]: "sending_same s s [HUp p]"
  by (simp add: sending_same_def)

lemma control_not_sent [simp]:
  "p_name (homa_control nm b prio k n sp src dest now) = nm"
  "p_tags (homa_control nm b prio k n sp src dest now) =
     [\<lparr>ht_flowid = k, ht_priority = prio, ht_flowsize = 0, ht_cretime = 0, ht_packetid = n, ht_last = False,
                 ht_queueid = 0, ht_decel = False, ht_speedup = False, ht_sender_priority = sp\<rparr>]"
  by (simp_all add: homa_control_def)

lemma rcv_at_sending: "rcv_at k s = (r, t) \<Longrightarrow> sending_same s t []"
  by (auto simp: rcv_at_def sending_same_def split: option.splits)

lemma grant_sending: "HOMA_send_grant cfg now k s = Inr (t, es) \<Longrightarrow> sending_same s t es"
  by (auto simp: HOMA_send_grant_def rcv_at_def sending_same_def Let_def split: option.splits if_splits)

lemma finish_sending: "homa_finish k prio r s = Inr (t, es) \<Longrightarrow> sending_same s t es"
  by (auto simp: homa_finish_def free_priority_def rbind_eq_Inr sending_same_def split: if_splits)

lemma new_rcv_sending: "homa_new_rcv k a s = (r, t) \<Longrightarrow> sending_same s t []"
  by (auto simp: homa_new_rcv_def take_priority_def sending_same_def split: option.splits)

lemma resend_sending: "HOMA_send_resend now k n s = Inr (t, es) \<Longrightarrow> sending_same s t es"
  by (auto simp: HOMA_send_resend_def rcv_at_def sending_same_def split: option.splits)

lemma udata_sending:
  assumes "HOMA_receive_unscheduledata cfg now p s = Inr (t, es)"
  shows "sending_same s t es"
proof -
  obtain tag where tag: "last_tag (packet.truncate p) = Inr tag"
    using assms by (auto simp: HOMA_receive_unscheduledata_def rbind_eq_Inr)
  let ?k = "ht_flowid tag" and ?n = "ht_packetid tag" and ?s0 = "s\<lparr>ho_srcAddr := d_dest p\<rparr>"
  obtain r0 s1 where m: "(case map_get (ho_receivers ?s0) ?k of Some r \<Rightarrow> (r, ?s0) | None \<Rightarrow> homa_new_rcv ?k (d_src p) ?s0) = (r0, s1)"
    by fastforce
  let ?r = "r0\<lparr>now_received_data_seq := ?n, now_send_grt_seq := -1, if_get := (if_get r0)(nat ?n := Some True)\<rparr>"
  have "sending_same ?s0 s1 []" using m by (auto simp: sending_same_def dest: new_rcv_sending split: option.splits)
  then have 0: "sending_same s s1 []" by (simp add: sending_same_def)
  show ?thesis
  proof (cases "ht_last tag")
    case True
    with assms tag m obtain s2 fs where f: "homa_finish ?k (SenderPriority ?r) ?r s1 = Inr (s2, fs)"
      and t: "t = snd (rcv_at ?k s2)" "es = fs @ [HUp p]"
      by (auto simp: HOMA_receive_unscheduledata_def rbind_eq_Inr Let_def split: if_splits)
    obtain x where "rcv_at ?k s2 = (x, t)" using t(1) by (cases "rcv_at ?k s2") simp
    from sending_same_trans[OF sending_same_trans[OF 0 finish_sending[OF f]] rcv_at_sending[OF this]]
    show ?thesis unfolding t(2) by (intro sending_up) simp
  next
    case False
    let ?s1 = "s1\<lparr>ho_receivers := map_put ?k (?r\<lparr>RcvState := GRANT_SENDING\<rparr>) (ho_receivers s1)\<rparr>"
    from False assms tag m obtain fs where g: "HOMA_send_grant cfg now ?k ?s1 = Inr (t, fs)" and t: "es = fs @ [HUp p]"
      by (auto simp: HOMA_receive_unscheduledata_def rbind_eq_Inr Let_def split: if_splits)
    have "sending_same s ?s1 []" using 0 by (simp add: sending_same_def)
    from sending_same_trans[OF this grant_sending[OF g]] show ?thesis unfolding t by (intro sending_up) simp
  qed
qed

lemma sdata_sending:
  assumes "HOMA_receive_scheduledata cfg now p s = Inr (t, es)"
  shows "sending_same s t es"
proof -
  obtain tag where tag: "last_tag (packet.truncate p) = Inr tag"
    using assms by (auto simp: HOMA_receive_scheduledata_def rbind_eq_Inr)
  let ?k = "ht_flowid tag" and ?n = "ht_packetid tag"
  obtain r0 where m: "map_get (ho_receivers s) ?k = Some r0"
    using assms tag by (cases "map_get (ho_receivers s) ?k") (auto simp: HOMA_receive_scheduledata_def)
  let ?r = "r0\<lparr>now_received_data_seq := ?n, if_get := (if_get r0)(nat ?n := Some True)\<rparr>"
  let ?s1 = "s\<lparr>ho_receivers := map_put ?k ?r (ho_receivers s)\<rparr>"
  have 0: "sending_same s ?s1 []" by (simp add: sending_same_def)
  consider (fin) fs where "homa_finish ?k (ht_priority tag) ?r s = Inr (t, fs)" "es = fs @ [HUp p]"
    | (grant) fs where "HOMA_send_grant cfg now ?k ?s1 = Inr (t, fs)" "es = fs @ [HUp p]"
    | (none) "t = ?s1" "es = [HUp p]"
    using assms tag m by (auto simp: HOMA_receive_scheduledata_def rbind_eq_Inr Let_def split: if_splits)
  then show ?thesis
  proof cases
    case fin
    from finish_sending[OF fin(1)] show ?thesis unfolding fin(2) by (rule sending_up)
  next
    case grant
    from sending_same_trans[OF 0 grant_sending[OF grant(1)]] show ?thesis unfolding grant(2) by (intro sending_up) simp
  next
    case none
    with 0 show ?thesis by (simp add: sending_same_def)
  qed
qed

lemma busy_sending: "HOMA_receive_busy now p s = Inr (t, es) \<Longrightarrow> sending_same s t es"
  by (auto simp: HOMA_receive_busy_def rcv_at_def rbind_eq_Inr Let_def sending_same_def split: option.splits if_splits)

lemma resend_in_sending: "HOMA_receive_resend cfg now p s = Inr (t, es) \<Longrightarrow> sending_same s t es"
  by (auto simp: HOMA_receive_resend_def rbind_eq_Inr sending_same_def split: option.splits)

lemma time_out_sending: "HOMA_time_out now k s = Inr (t, es) \<Longrightarrow> sending_same s t es"
  by (auto simp: HOMA_time_out_def rbind_eq_Inr dest: resend_sending split: option.splits if_splits) (auto simp: sending_same_def)

subsection \<open>Segmentation\<close>

definition homa_snd_ok :: "u32 \<Rightarrow> homa_snd \<Rightarrow> bool" where
  "homa_snd_ok k f \<longleftrightarrow> hs_flowid f = k \<and> sendRtt f = unsSize f \<and> 0 \<le> sSize f"

definition homa_inv :: "homa_cfg \<Rightarrow> homa \<Rightarrow> bool" where
  "homa_inv cfg s \<longleftrightarrow> 0 < max_pck_size cfg \<and> 0 \<le> rttbytes s \<and>
     (\<forall>k f. map_get (ho_senders s) k = Some f \<longrightarrow> homa_snd_ok k f) \<and>
     (\<forall>k. ho_timers s (SendUnschedule k) = None \<and> ho_timers s (SendBusy k) = None)"

fun homa_accepts :: "homa_cfg \<Rightarrow> simtime \<times> homa_op \<Rightarrow> bool" where
  "homa_accepts cfg (now, HUpper junk p) \<longleftrightarrow> activate cfg \<and>
     (starts_with ''homaUData'' (p_name p) \<or> starts_with ''homaSData'' (p_name p) \<longrightarrow> contains ''Data'' (p_name p))"
| "homa_accepts cfg (now, _) \<longleftrightarrow> True"

text \<open>The message an event asks for.\<close>

fun homa_new :: "simtime \<times> homa_op \<Rightarrow> u32 option" where
  "homa_new (now, HUpper junk p) = (if contains ''Data'' (p_name p) then Some (ht_flowid (last (p_tags p))) else None)"
| "homa_new (now, _) = None"

lemma sending_inv: "sending_same s t es \<Longrightarrow> homa_inv cfg s \<Longrightarrow> homa_inv cfg t"
  by (simp add: sending_same_def homa_inv_def)

lemma sending_delivers: "sending_same s t es \<Longrightarrow> delivers (homa_sent k es) (homa_left k s) (homa_left k t)"
  by (simp add: sending_same_def homa_left_def)

lemma todo_bounds: "homa_snd_ok k f \<Longrightarrow> todo f = sSize f"
  by (simp add: todo_def homa_snd_ok_def)

definition small :: "homa_cfg \<Rightarrow> homa_effect list \<Rightarrow> bool" where
  "small cfg es \<longleftrightarrow> (\<forall>k. \<forall>(q, len, lst)\<in>set (homa_sent k es). len \<le> max_pck_size cfg)"

lemma small_append: "small cfg (es @ es') \<longleftrightarrow> small cfg es \<and> small cfg es'"
  by (simp add: small_def homa_sent_append ball_Un all_conj_distrib)

lemma sending_small: "sending_same s t es \<Longrightarrow> small cfg es"
  by (simp add: sending_same_def small_def)

lemma small_downs: "\<forall>p\<in>set ps. payload_of p \<le> max_pck_size cfg \<Longrightarrow> small cfg (map HDown ps)"
proof (induction ps)
  case Nil
  then show ?case by (simp add: small_def)
next
  case (Cons p ps)
  then have "small cfg (map HDown ps)" "payload_of p \<le> max_pck_size cfg" by simp_all
  then show ?case by (auto simp: small_def)
qed

lemma homa_sent_sdata:
  "0 \<le> b \<Longrightarrow> homa_sent j [HDown (homa_data ''homaSData-'' a f k b prio lst c z)] =
     (if k = j then [(of_int (hs_pckseq f), b, lst)] else [])"
  by simp

lemma grant_in_step:
  assumes "HOMA_receive_grant cfg now p s = Inr (t, es)" and "homa_inv cfg s"
  shows "homa_inv cfg t \<and> small cfg es \<and> delivers (homa_sent j es) (homa_left j s) (homa_left j t)"
proof -
  obtain tag where tag: "last_tag (packet.truncate p) = Inr tag" using assms(1) by (auto simp: HOMA_receive_grant_def rbind_eq_Inr)
  let ?k = "ht_flowid tag"
  obtain f where f: "map_get (ho_senders s) ?k = Some f"
    using assms(1) tag by (cases "map_get (ho_senders s) ?k") (auto simp: HOMA_receive_grant_def)
  have ok: "homa_snd_ok ?k f" and mx: "0 < max_pck_size cfg" using assms(2) f by (simp_all add: homa_inv_def)
  show ?thesis
  proof (cases "now < stopTime cfg \<and> sSize f > 0")
    case False
    with assms tag f show ?thesis by (auto simp: HOMA_receive_grant_def small_def)
  next
    case True
    obtain b rest where seg: "segment (max_pck_size cfg) (sSize f) = (b, rest)" by fastforce
    let ?g = "f\<lparr>hs_flowid := ?k, sSize := rest, hs_pckseq := hs_pckseq f + 1\<rparr>"
    from True assms(1) tag f seg have t: "t = s\<lparr>ho_senders := map_put ?k ?g (ho_senders s)\<rparr>"
      and es: "es = [HDown (homa_data ''homaSData-'' (ho_srcAddr s) f ?k b (ht_sender_priority tag) (rest = 0) (hs_cretime f) 0)]"
      by (simp_all add: HOMA_receive_grant_def Let_def)
    have d: "0 \<le> b" "b \<le> sSize f" "rest = sSize f - b" "rest = 0 \<longleftrightarrow> b = sSize f"
      using segment_delivers[OF seg] True mx by auto
    have "b \<le> max_pck_size cfg" using seg by (auto simp: segment_def split: if_splits)
    then have "small cfg es" using small_downs[of "[homa_data ''homaSData-'' (ho_srcAddr s) f ?k b (ht_sender_priority tag) (rest = 0) (hs_cretime f) 0]"] d(1)
      by (simp add: es)
    have "homa_snd_ok ?k ?g" using ok d by (simp add: homa_snd_ok_def)
    then have "homa_inv cfg t" using assms(2) by (auto simp: homa_inv_def t get_put)
    moreover have "homa_sent j es = (if ?k = j then [(of_int (hs_pckseq f), b, rest = 0)] else [])"
      unfolding es by (rule homa_sent_sdata[OF d(1)])
    moreover have "homa_left j t = (if j = ?k then if rest = 0 then None else Some (rest, of_int (hs_pckseq f) + 1) else homa_left j s)"
      using ok by (simp add: homa_left_def t get_put todo_def homa_snd_ok_def)
    moreover have "homa_left ?k s = Some (sSize f, of_int (hs_pckseq f))" using f True ok by (simp add: homa_left_def todo_bounds)
    ultimately show ?thesis using d \<open>small cfg es\<close> by auto
  qed
qed

lemma upper_step:
  assumes "HOMA_processUpperpck cfg junk p s = Inr (t, es)" and "homa_inv cfg s" and "homa_accepts cfg (now, HUpper junk p)"
  shows "homa_inv cfg t \<and> small cfg es \<and> (homa_new (now, HUpper junk p) \<noteq> Some j \<longrightarrow> delivers (homa_sent j es) (homa_left j s) (homa_left j t))"
proof (cases "contains ''Data'' (p_name p)")
  case False
  with assms have "t = s" "es = [HDown p]" by (simp_all add: HOMA_processUpperpck_def)
  with False assms show ?thesis by (simp add: small_def)
next
  case True
  have act: "activate cfg" using assms(3) by simp
  have tags: "p_tags p \<noteq> []"
    using assms(1) True act by (auto simp: HOMA_processUpperpck_def last_tag_def packet.truncate_def split: if_splits)
  let ?tag = "last (p_tags p)"
  let ?k = "ht_flowid ?tag" and ?f = "homa_new_flow junk ?tag p s"
  let ?s = "s\<lparr>ho_senders := map_put ?k ?f (ho_senders s), ho_srcAddr := d_src p\<rparr>"
  have r: "(if map_get (ho_senders s) ?k = None then HOMA_send_unschedule cfg ?k ?s else Inr (s, [])) = Inr (t, es)"
    using assms(1) True act by (simp add: HOMA_processUpperpck_def tag_of_truncate[OF tags] Let_def)
  show ?thesis
  proof (cases "map_get (ho_senders s) ?k = None")
    case False
    with r assms(2) show ?thesis by (auto simp: small_def)
  next
    case new: True
    have f: "hs_flowid ?f = ?k" "sendRtt ?f \<le> unsSize ?f" "0 \<le> sSize ?f" "sendRtt ?f = 0"
      using assms(2) by (auto simp: homa_new_flow_def Let_def homa_inv_def)
    have mx: "0 < max_pck_size cfg" using assms(2) by (simp add: homa_inv_def)
    have g: "map_get (ho_senders ?s) ?k = Some ?f" by (simp add: get_put)
    from homa_sends_run[OF g f(1,2) mx f(3)] obtain u ps where run: "homa_sends cfg ?k ?s = Some (Inr (u, map HDown ps))"
      and same: "others_same ?k ?s u" and e: "map_get (ho_senders u) ?k = Some (?f\<lparr>sendRtt := unsSize ?f, hs_pckseq := hs_pckseq ?f + int (length ps)\<rparr>)"
      and oth: "\<forall>j. j \<noteq> ?k \<longrightarrow> homa_sent j (map HDown ps) = []" and sz: "\<forall>p\<in>set ps. payload_of p \<le> max_pck_size cfg"
      by blast
    have t: "t = u" "es = map HDown ps" using r new run by (simp_all add: HOMA_send_unschedule_def)
    have m: "map_get (ho_senders u) j = (if j = ?k then Some (?f\<lparr>sendRtt := unsSize ?f, hs_pckseq := hs_pckseq ?f + int (length ps)\<rparr>) else map_get (ho_senders s) j)" for j
      using same e by (simp add: others_same_def get_put)
    have "homa_snd_ok ?k (?f\<lparr>sendRtt := unsSize ?f, hs_pckseq := hs_pckseq ?f + int (length ps)\<rparr>)" using f by (simp add: homa_snd_ok_def)
    then have "homa_inv cfg u" using assms(2) same by (auto simp: homa_inv_def m others_same_def)
    moreover have "delivers (homa_sent j es) (homa_left j s) (homa_left j u)" if "j \<noteq> ?k"
      using oth that by (simp add: t(2) homa_left_def m)
    moreover have "small cfg es" using small_downs[OF sz] by (simp add: t(2))
    ultimately show ?thesis using True by (auto simp: t(1))
  qed
qed

lemma homa_step:
  assumes "HOMA_handleMessage cfg x s = Inr (t, es)" and "homa_inv cfg s" and "homa_accepts cfg x"
  shows "homa_inv cfg t \<and> small cfg es \<and> (homa_new x \<noteq> Some j \<longrightarrow> delivers (homa_sent j es) (homa_left j s) (homa_left j t))"
proof -
  obtain now e where x: "x = (now, e)" by (cases x)
  have same: ?thesis if "sending_same s t es" using sending_inv[OF that assms(2)] sending_small[OF that] sending_delivers[OF that] by simp
  show ?thesis
  proof (cases e)
    case (HUpper junk p)
    with assms upper_step[of cfg junk p s t es now j] x show ?thesis by simp
  next
    case (HFire tm)
    show ?thesis
    proof (cases "ho_timers s tm = None")
      case True
      with assms(1) x HFire have "sending_same s t es" by (simp add: sending_same_def)
      then show ?thesis by (rule same)
    next
      case False
      let ?s = "s\<lparr>ho_timers := (ho_timers s)(tm := None)\<rparr>"
      have h: "HOMA_handleSelfMessage cfg now tm ?s = Inr (t, es)" using assms(1) x HFire False by simp
      have "sending_same ?s t es" if "tm = SendResend k \<or> tm = Timeout k" for k
        using h that by (auto dest: resend_sending time_out_sending)
      moreover have "\<exists>k. tm = SendResend k \<or> tm = Timeout k" using False assms(2) by (cases tm) (auto simp: homa_inv_def)
      ultimately have "sending_same ?s t es" and "\<exists>k. tm = SendResend k \<or> tm = Timeout k" by blast+
      then have "sending_same s t es" by (auto simp: sending_same_def)
      then show ?thesis by (rule same)
    qed
  next
    case (HLower p)
    have h: "HOMA_processLowerpck cfg now p s = Inr (t, es)" using assms(1) x HLower by simp
    show ?thesis
    proof (cases "p_name p = ''Grant''")
      case True
      with h have "HOMA_receive_grant cfg now p s = Inr (t, es)" by (simp add: HOMA_processLowerpck_def)
      from grant_in_step[OF this assms(2)] show ?thesis by simp
    next
      case False
      with h have "sending_same s t es"
        by (auto simp: HOMA_processLowerpck_def split: if_splits
            dest: resend_in_sending busy_sending udata_sending sdata_sending)
      then show ?thesis by (rule same)
    qed
  qed
qed

interpretation homa_segments: segmenting_sender
    "HOMA_handleMessage cfg" "homa_inv cfg" "homa_accepts cfg" homa_sent homa_left "\<lambda>k x. homa_new x = Some k" for cfg
  using homa_step by unfold_locales (auto simp: homa_sent_append)


lemma homa_init_inv:
  assumes "HOMA_initialize cfg = Inr s" and "0 < max_pck_size cfg" and "0 \<le> baseRTT cfg * linkspeed cfg"
  shows "homa_inv cfg s"
proof -
  have "0 \<le> trunc_real (baseRTT cfg * linkspeed cfg / 8)" using assms(3) by (simp add: trunc_real_nonneg)
  with assms(1,2) show ?thesis by (auto simp: HOMA_initialize_def homa_inv_def Let_def split: if_splits)
qed

text \<open>With packets of no size the unscheduled part is never finished.\<close>

lemma homa_sends_hangs:
  assumes "homa_sends cfg k s = Some r" and "max_pck_size cfg \<le> 0" and "map_get (ho_senders s) k = Some f"
  shows "unsSize f \<le> sendRtt f"
proof -
  have "\<forall>f. max_pck_size cfg \<le> 0 \<and> map_get (ho_senders s) k = Some f \<longrightarrow> unsSize f \<le> sendRtt f"
    using assms(1)
  proof (rule homa_sends.raw_induct[rotated])
    fix sends cfg k s r
    assume ih: "\<And>cfg k s r. sends cfg k s = Some r \<Longrightarrow>
        \<forall>f. max_pck_size cfg \<le> 0 \<and> map_get (ho_senders s) k = Some f \<longrightarrow> unsSize f \<le> sendRtt f"
      and r: "(case homa_send_one cfg k s of Inl e \<Rightarrow> Some (Inl e)
        | Inr (again, s1, es) \<Rightarrow> if again then Option.bind (sends cfg k s1) (\<lambda>r. Some (rbind r (\<lambda>(s2, es2). Inr (s2, es @ es2))))
            else Some (Inr (s1, es))) = Some r"
    show "\<forall>f. max_pck_size cfg \<le> 0 \<and> map_get (ho_senders s) k = Some f \<longrightarrow> unsSize f \<le> sendRtt f"
    proof (intro allI impI, rule ccontr)
      fix f
      assume p: "max_pck_size cfg \<le> 0 \<and> map_get (ho_senders s) k = Some f" and "\<not> unsSize f \<le> sendRtt f"
      then have lt: "sendRtt f < unsSize f" by simp
      with p obtain s1 es where one: "homa_send_one cfg k s = Inr (True, s1, es)"
        and g: "map_get (ho_senders s1) k = Some (f\<lparr>sendRtt := sendRtt f + max_pck_size cfg, hs_pckseq := hs_pckseq f + 1\<rparr>)"
        by (auto simp: homa_send_one_def Let_def get_put)
      from r one obtain r1 where "sends cfg k s1 = Some r1" by (auto simp: bind_eq_Some_conv)
      from ih[OF this] p g lt show False by auto
    qed
  qed
  with assms(2,3) show ?thesis by blast
qed

text \<open>Every message is sent completely.  From the request on, whatever packets, grants, timeouts and other requests
  come, once nothing of a message is left its unscheduled and scheduled packets together carry its length, each byte
  once; they are numbered from 0 and exactly the last one has the last-packet flag.\<close>

theorem homa_flow_delivered:
  assumes "HOMA_initialize cfg = Inr s0" and "0 < max_pck_size cfg" and "0 \<le> baseRTT cfg * linkspeed cfg"
    and "\<forall>x\<in>set xs. homa_accepts cfg x" and "run_out (HOMA_handleMessage cfg) xs s0 = Inr (s, es0)"
    and "map_get (ho_senders s) k = None" and "activate cfg"
    and "homa_new (now, HUpper junk p) = Some k" and "0 < message_length (last (p_tags p))"
    and "run_out (HOMA_handleMessage cfg) ((now, HUpper junk p) # ys) s = Inr (s', es)"
    and "\<forall>y\<in>set ys. homa_accepts cfg y \<and> homa_new y \<noteq> Some k" and "homa_left k s' = None"
  shows "sum_list (map (\<lambda>(_, len, _). len) (homa_sent k es)) = message_length (last (p_tags p)) \<and>
     map fst (homa_sent k es) = map of_nat [0..<length (homa_sent k es)] \<and>
     map (\<lambda>(_, _, lst). lst) (homa_sent k es) = replicate (length (homa_sent k es) - 1) False @ [True]"
proof -
  have i: "homa_inv cfg s" by (rule homa_segments.inv_run[OF homa_init_inv[OF assms(1-3)] assms(4,5)])
  have d: "contains ''Data'' (p_name p)" "ht_flowid (last (p_tags p)) = k" using assms(8) by (auto split: if_splits)
  obtain s1 es1 es2 where u: "HOMA_processUpperpck cfg junk p s = Inr (s1, es1)"
    and r: "run_out (HOMA_handleMessage cfg) ys s1 = Inr (s', es2)" and es: "es = es1 @ es2"
    using assms(10) by (auto simp: rbind_eq_Inr)
  have tags: "p_tags p \<noteq> []"
    using u d assms(7) by (auto simp: HOMA_processUpperpck_def last_tag_def packet.truncate_def split: if_splits)
  let ?f = "homa_new_flow junk (last (p_tags p)) p s"
  let ?s = "s\<lparr>ho_senders := map_put k ?f (ho_senders s), ho_srcAddr := d_src p\<rparr>"
  have f: "hs_flowid ?f = k" "sendRtt ?f \<le> unsSize ?f" "0 \<le> sSize ?f" "hs_pckseq ?f = 0" "todo ?f = message_length (last (p_tags p))"
    using i d(2) by (auto simp: homa_new_flow_def Let_def homa_inv_def todo_def)
  have g: "map_get (ho_senders ?s) k = Some ?f" by (simp add: get_put)
  have "HOMA_send_unschedule cfg k ?s = Inr (s1, es1)"
    using u d assms(6,7) by (simp add: HOMA_processUpperpck_def tag_of_truncate[OF tags] Let_def)
  moreover obtain u ps where "homa_sends cfg k ?s = Some (Inr (u, map HDown ps))"
    and "0 < todo ?f \<longrightarrow> delivers (homa_sent k (map HDown ps)) (Some (todo ?f, of_int (hs_pckseq ?f))) (homa_left k u)"
    using homa_sends_run[OF g f(1,2) assms(2) f(3)] by blast
  ultimately have "delivers (homa_sent k es1) (Some (message_length (last (p_tags p)), 0)) (homa_left k s1)"
    using assms(9) f(4,5) by (auto simp: HOMA_send_unschedule_def)
  moreover have "homa_inv cfg s1" using upper_step[OF u i, of now k] assms(7) d by simp
  then have "delivers (homa_sent k es2) (homa_left k s1) None"
    using homa_segments.delivers_run[OF _ assms(11) r] assms(12) by simp
  ultimately have "delivers (homa_sent k es) (Some (message_length (last (p_tags p)), 0)) None"
    unfolding es homa_sent_append by (rule delivers_append)
  from delivers_complete[OF this] show ?thesis by simp
qed


definition sample_homa :: homa_cfg where
  "sample_homa = \<lparr>activate = True, stopTime = 100, linkspeed = 8, max_pck_size = 1000, baseRTT = 1500\<rparr>"

definition sample_homa_init :: homa where
  "sample_homa_init = \<lparr>ho_senders = [], ho_receivers = [], rttbytes = 1500, ho_srcAddr = 0, ho_lastflowid = -1,
     ho_last_creation_time = 0, priorityUse = replicate 8 False, ho_timers = (\<lambda>_. None), timer_seq = (\<lambda>_. 0)\<rparr>"

definition sample_homa_request :: "u32 \<Rightarrow> u64 \<Rightarrow> dgram" where
  "sample_homa_request k n =
     \<lparr>p_id = 1, p_name = ''UdpData-1'', p_len = 800, p_iface = 0, p_ecn = None,
      p_tags = [\<lparr>ht_flowid = k, ht_priority = 0, ht_flowsize = n, ht_cretime = 0, ht_packetid = 0, ht_last = False,
                 ht_queueid = 0, ht_decel = False, ht_speedup = False, ht_sender_priority = -1\<rparr>],
      p_bfc = None, p_ispause = None, d_src = 11, d_dest = 12, d_sport = 0, d_dport = 0, d_ecn = 0,
      d_recRate = 0, d_int = None, d_psd = None, d_sack = None, d_time = 0\<rparr>"

lemma sample_homa_start: "HOMA_initialize sample_homa = Inr sample_homa_init"
  by (simp add: HOMA_initialize_def sample_homa_def sample_homa_init_def Let_def trunc_real_def)

text \<open>A request that fits in the unscheduled part is sent at once.\<close>

lemma homa_request_run:
  assumes "homa_inv cs S" and "activate cs" and "map_get (ho_senders S) k = None" and "homa_new (now, HUpper junk p) = Some k"
    and "p_tags p \<noteq> []" and "message_length (last (p_tags p)) \<le> rttbytes S"
  shows "\<exists>S1 ps. run_out (HOMA_handleMessage cs) [(now, HUpper junk p)] S = Inr (S1, map HDown ps) \<and> homa_left k S1 = None"
proof -
  have d: "contains ''Data'' (p_name p)" "ht_flowid (last (p_tags p)) = k" using assms(4) by (auto split: if_splits)
  let ?f = "homa_new_flow junk (last (p_tags p)) p S"
  let ?S = "S\<lparr>ho_senders := map_put k ?f (ho_senders S), ho_srcAddr := d_src p\<rparr>"
  have f: "hs_flowid ?f = k" "sendRtt ?f \<le> unsSize ?f" "sSize ?f = 0" "0 \<le> sSize ?f" using assms(1,6) d(2) by (auto simp: homa_new_flow_def Let_def homa_inv_def)
  have mx: "0 < max_pck_size cs" using assms(1) by (simp add: homa_inv_def)
  have g: "map_get (ho_senders ?S) k = Some ?f" by (simp add: get_put)
  obtain S1 ps where run: "homa_sends cs k ?S = Some (Inr (S1, map HDown ps))"
    and e: "map_get (ho_senders S1) k = Some (?f\<lparr>sendRtt := unsSize ?f, hs_pckseq := hs_pckseq ?f + int (length ps)\<rparr>)"
    using homa_sends_run[OF g f(1,2) mx f(4), of 0] by blast
  have "run_out (HOMA_handleMessage cs) [(now, HUpper junk p)] S = Inr (S1, map HDown ps)"
    using d assms(2,3) run by (simp add: HOMA_processUpperpck_def tag_of_truncate[OF assms(5)] Let_def HOMA_send_unschedule_def)
  moreover have "homa_left k S1 = None" using e f(3) by (simp add: homa_left_def todo_def)
  ultimately show ?thesis by blast
qed

theorem homa_flow_delivered_witness:
  "\<exists>s' es. run_out (HOMA_handleMessage sample_homa) [(0, HUpper 0 (sample_homa_request 9 700))] sample_homa_init = Inr (s', es) \<and>
     sum_list (map (\<lambda>(_, len, _). len) (homa_sent 9 es)) = 700"
proof -
  let ?p = "sample_homa_request 9 700"
  have c: "0 < max_pck_size sample_homa" "0 \<le> baseRTT sample_homa * linkspeed sample_homa" "activate sample_homa" by (simp_all add: sample_homa_def)
  have p: "homa_new (0, HUpper 0 ?p) = Some 9" "p_tags ?p \<noteq> []" "message_length (last (p_tags ?p)) = 700"
    by (simp_all add: sample_homa_request_def message_length_def)
  have n: "map_get (ho_senders sample_homa_init) 9 = None" by (simp add: sample_homa_init_def)
  obtain s' ps where r: "run_out (HOMA_handleMessage sample_homa) [(0, HUpper 0 ?p)] sample_homa_init = Inr (s', map HDown ps)"
    and l: "homa_left 9 s' = None"
    using homa_request_run[OF homa_init_inv[OF sample_homa_start c(1,2)] c(3) n p(1,2)] p(3) by (auto simp: sample_homa_init_def)
  from homa_flow_delivered[OF sample_homa_start c(1,2), of "[]" sample_homa_init "[]" 9 0 0 ?p "[]" s' "map HDown ps"] c(3) n p r l
  show ?thesis by auto
qed

end
