(* ===== verification/HOMA_Network.thy ===== *)
theory HOMA_Network
  imports HOMA
begin

section \<open>HOMA hosts and the network between them\<close>

text \<open>
  What becomes of the messages of \<open>HOMA\<close> on their way: with a lossless network that keeps the order and whose delays stay below the
  timeout they arrive (a sender and a receiver run against each other, the timers with them); a packet that is overtaken, a message that is too long and a timeout each
  end in an error of the receiver.
\<close>

subsection \<open>Packets out of order\<close>

text \<open>An entry made by reading the map has no timers, and none is ever given to it.\<close>

definition ghost :: "u32 \<Rightarrow> homa \<Rightarrow> bool" where
  "ghost k s \<longleftrightarrow> (\<exists>r. map_get (ho_receivers s) k = Some r \<and> \<not> has_timers r)"

lemma get_erase_other: "k \<noteq> j \<Longrightarrow> map_get (map_erase j m) k = map_get m k"
  by (induction j m rule: map_erase.induct) auto

lemma ghost_cong: "ho_receivers t = ho_receivers s \<Longrightarrow> ghost k t = ghost k s"
  by (simp add: ghost_def)

lemma ghost_put: "ghost k s \<Longrightarrow> j \<noteq> k \<or> \<not> has_timers r \<Longrightarrow> ho_receivers t = map_put j r (ho_receivers s) \<Longrightarrow> ghost k t"
  by (auto simp: ghost_def get_put)

lemma ghost_rcv_at: "rcv_at j s = (r, t) \<Longrightarrow> ghost k s \<Longrightarrow> ghost k t \<and> (j = k \<longrightarrow> \<not> has_timers r)"
  by (auto simp: rcv_at_def ghost_def get_put split: option.splits)

lemma ghost_grant:
  assumes "HOMA_send_grant cfg now j s = Inr (t, es)" and "ghost k s"
  shows "ghost k t \<and> j \<noteq> k"
proof -
  obtain r s1 where m: "rcv_at j s = (r, s1)" by fastforce
  with ghost_rcv_at[OF m assms(2)] assms(1) show ?thesis
    by (auto simp: HOMA_send_grant_def Let_def ghost_def get_put split: if_splits)
qed

lemma ghost_finish:
  assumes "homa_finish j prio r s = Inr (t, es)" and "ghost k s" and "j \<noteq> k"
  shows "ghost k t"
  using assms by (auto simp: homa_finish_def free_priority_def rbind_eq_Inr ghost_def get_erase_other split: if_splits)

lemma ghost_udata:
  assumes "HOMA_receive_unscheduledata cfg now p s = Inr (t, es)" and "ghost k s"
  shows "ghost k t \<and> ht_flowid (last (p_tags p)) \<noteq> k"
proof -
  have tags: "p_tags p \<noteq> []"
    using assms(1) by (auto simp: HOMA_receive_unscheduledata_def last_tag_def packet.truncate_def split: if_splits)
  let ?tag = "last (p_tags p)" and ?s0 = "s\<lparr>ho_srcAddr := d_dest p\<rparr>"
  let ?j = "ht_flowid ?tag" and ?n = "ht_packetid ?tag"
  have g0: "ghost k ?s0" using assms(2) by (simp add: ghost_def)
  obtain r0 s1 where m: "(case map_get (ho_receivers ?s0) ?j of Some r \<Rightarrow> (r, ?s0) | None \<Rightarrow> homa_new_rcv ?j (d_src p) ?s0) = (r0, s1)"
    by fastforce
  then have rc: "ho_receivers s1 = ho_receivers s"
    by (auto simp: homa_new_rcv_def take_priority_def split: option.splits)
  have gh: "?j = k \<longrightarrow> \<not> has_timers r0" using m g0 by (auto simp: ghost_def)
  let ?r = "r0\<lparr>now_received_data_seq := ?n, now_send_grt_seq := -1, if_get := (if_get r0)(nat ?n := Some True)\<rparr>"
  show ?thesis
  proof (cases "ht_last ?tag")
    case True
    with assms(1) m obtain s2 fs where f: "homa_finish ?j (SenderPriority ?r) ?r s1 = Inr (s2, fs)" and t: "t = snd (rcv_at ?j s2)"
      by (auto simp: HOMA_receive_unscheduledata_def tag_of_truncate[OF tags] rbind_eq_Inr Let_def split: if_splits)
    from f have "has_timers r0" by (auto simp: homa_finish_def rbind_eq_Inr split: if_splits)
    with gh have j: "?j \<noteq> k" by auto
    have "ghost k s1" using assms(2) rc by (simp add: ghost_def)
    from ghost_finish[OF f this j] have "ghost k s2" .
    then have "ghost k t" using ghost_rcv_at[of ?j s2 "fst (rcv_at ?j s2)" t k] by (simp add: t)
    with j show ?thesis by simp
  next
    case False
    let ?s1 = "s1\<lparr>ho_receivers := map_put ?j (?r\<lparr>RcvState := GRANT_SENDING\<rparr>) (ho_receivers s1)\<rparr>"
    from False assms(1) m obtain fs where g: "HOMA_send_grant cfg now ?j ?s1 = Inr (t, fs)"
      by (auto simp: HOMA_receive_unscheduledata_def tag_of_truncate[OF tags] rbind_eq_Inr Let_def split: if_splits)
    have "ghost k ?s1"
    proof (rule ghost_put[OF assms(2)])
      show "?j \<noteq> k \<or> \<not> has_timers (?r\<lparr>RcvState := GRANT_SENDING\<rparr>)" using gh by auto
    qed (simp add: rc)
    from ghost_grant[OF g this] show ?thesis by simp
  qed
qed

lemma ghost_sdata:
  assumes "HOMA_receive_scheduledata cfg now p s = Inr (t, es)" and "ghost k s"
  shows "ghost k t"
proof -
  obtain tag where tag: "last_tag (packet.truncate p) = Inr tag"
    using assms by (auto simp: HOMA_receive_scheduledata_def rbind_eq_Inr)
  let ?j = "ht_flowid tag" and ?n = "ht_packetid tag"
  obtain r0 where m: "map_get (ho_receivers s) ?j = Some r0"
    using assms tag by (cases "map_get (ho_receivers s) ?j") (auto simp: HOMA_receive_scheduledata_def)
  have gh: "?j = k \<longrightarrow> \<not> has_timers r0" using m assms(2) by (auto simp: ghost_def)
  let ?r = "r0\<lparr>now_received_data_seq := ?n, if_get := (if_get r0)(nat ?n := Some True)\<rparr>"
  let ?s1 = "s\<lparr>ho_receivers := map_put ?j ?r (ho_receivers s)\<rparr>"
  have g1: "ghost k ?s1" by (rule ghost_put[OF assms(2), of ?j ?r]) (use gh in auto)
  consider (fin) fs where "homa_finish ?j (ht_priority tag) ?r s = Inr (t, fs)"
    | (grant) fs where "HOMA_send_grant cfg now ?j ?s1 = Inr (t, fs)" | (none) "t = ?s1"
    using assms(1) tag m by (auto simp: HOMA_receive_scheduledata_def rbind_eq_Inr Let_def split: if_splits)
  then show ?thesis
  proof cases
    case fin
    then have "has_timers r0" by (auto simp: homa_finish_def rbind_eq_Inr split: if_splits)
    with gh ghost_finish[OF fin assms(2)] show ?thesis by auto
  qed (use ghost_grant g1 in auto)
qed

lemma sends_receivers:
  assumes "HOMA_send_unschedule cfg k s = Inr (t, es)"
  shows "ho_receivers t = ho_receivers s \<and> ho_timers t = ho_timers s"
proof -
  have "homa_sends cfg k s = Some (Inr (t, es))" using assms by (auto simp: HOMA_send_unschedule_def split: option.splits)
  moreover have "homa_sends cfg k s = Some r \<Longrightarrow> \<forall>t es. r = Inr (t, es) \<longrightarrow> ho_receivers t = ho_receivers s \<and> ho_timers t = ho_timers s" for r
  proof (rule homa_sends.raw_induct[rotated], assumption)
    fix sends cfg k s r
    assume ih: "\<And>cfg k s r. sends cfg k s = Some r \<Longrightarrow> \<forall>t es. r = Inr (t, es) \<longrightarrow> ho_receivers t = ho_receivers s \<and> ho_timers t = ho_timers s"
      and r: "(case homa_send_one cfg k s of Inl e \<Rightarrow> Some (Inl e)
        | Inr (again, s1, es) \<Rightarrow> if again then Option.bind (sends cfg k s1) (\<lambda>r. Some (rbind r (\<lambda>(s2, es2). Inr (s2, es @ es2))))
            else Some (Inr (s1, es))) = Some r"
    show "\<forall>t es. r = Inr (t, es) \<longrightarrow> ho_receivers t = ho_receivers s \<and> ho_timers t = ho_timers s"
    proof (intro allI impI)
      fix t es
      assume rt: "r = Inr (t, es)"
      with r obtain again s1 es1 where one: "homa_send_one cfg k s = Inr (again, s1, es1)"
        by (cases "homa_send_one cfg k s") auto
      then have s1: "ho_receivers s1 = ho_receivers s \<and> ho_timers s1 = ho_timers s" by (auto simp: homa_send_one_def Let_def split: option.splits)
      show "ho_receivers t = ho_receivers s \<and> ho_timers t = ho_timers s"
      proof (cases again)
        case False
        with r one rt s1 show ?thesis by simp
      next
        case True
        with r one rt obtain v where v: "sends cfg k s1 = Some v" and "rbind v (\<lambda>(s2, es2). Inr (s2, es1 @ es2)) = Inr (t, es)"
          by (auto simp: bind_eq_Some_conv)
        then obtain es2 where "v = Inr (t, es2)" by (auto simp: rbind_eq_Inr)
        with ih[OF v] s1 show ?thesis by simp
      qed
    qed
  qed
  ultimately show ?thesis by blast
qed

lemma grant_receivers:
  assumes "HOMA_receive_grant cfg now p s = Inr (t, es)"
  shows "ho_receivers t = ho_receivers s \<and> ho_timers t = ho_timers s"
proof -
  obtain tag where tag: "last_tag (packet.truncate p) = Inr tag" using assms by (auto simp: HOMA_receive_grant_def rbind_eq_Inr)
  obtain f where f: "map_get (ho_senders s) (ht_flowid tag) = Some f"
    using assms tag by (cases "map_get (ho_senders s) (ht_flowid tag)") (auto simp: HOMA_receive_grant_def)
  obtain b rest where "segment (max_pck_size cfg) (sSize f) = (b, rest)" by fastforce
  with assms tag f show ?thesis by (auto simp: HOMA_receive_grant_def Let_def split: if_splits)
qed

lemma ghost_step:
  assumes "HOMA_handleMessage cfg x s = Inr (t, es)" and "ghost k s"
  shows "ghost k t"
proof -
  have resend: "HOMA_send_resend now j n s = Inr (t, es) \<Longrightarrow> ghost k s \<Longrightarrow> ghost k t" for now j n s t es
    by (cases "rcv_at j s") (auto simp: HOMA_send_resend_def dest: ghost_rcv_at)
  note sends = conjunct1[OF sends_receivers]
  obtain now e where x: "x = (now, e)" by (cases x)
  show ?thesis
  proof (cases e)
    case (HFire tm)
    let ?s = "s\<lparr>ho_timers := (ho_timers s)(tm := None)\<rparr>"
    have g: "ghost k ?s" using assms(2) by (simp add: ghost_def)
    show ?thesis
    proof (cases "ho_timers s tm = None")
      case False
      with assms(1) x HFire have h: "HOMA_handleSelfMessage cfg now tm ?s = Inr (t, es)" by simp
      show ?thesis
      proof (cases tm)
        case (SendUnschedule j)
        with h sends[of cfg j ?s t es] show ?thesis using g by (simp add: ghost_def)
      next
        case (SendBusy j)
        with h show ?thesis using g by (auto simp: HOMA_send_busy_def ghost_def split: option.splits)
      next
        case (SendResend j)
        with h have "HOMA_send_resend now j (timer_seq ?s (SendResend j)) ?s = Inr (t, es)" by simp
        then show ?thesis using g by (rule resend)
      next
        case (Timeout j)
        with h have "HOMA_time_out now j ?s = Inr (t, es)" by simp
        then have "t = ?s \<or> (\<exists>i. HOMA_send_resend now j i ?s = Inr (t, es))"
          by (auto simp: HOMA_time_out_def rbind_eq_Inr split: option.splits if_splits)
        then show ?thesis using g resend by blast
      qed
    qed (use assms x HFire in simp)
  next
    case (HUpper junk p)
    with assms(1) x have "HOMA_processUpperpck cfg junk p s = Inr (t, es)" by simp
    then have "ho_receivers t = ho_receivers s"
      by (auto simp: HOMA_processUpperpck_def Let_def rbind_eq_Inr split: if_splits dest!: sends)
    then show ?thesis using assms(2) by (simp add: ghost_def)
  next
    case (HLower p)
    with assms(1) x have h: "HOMA_processLowerpck cfg now p s = Inr (t, es)" by simp
    have grant: "HOMA_receive_grant cfg now p s = Inr (t, es) \<Longrightarrow> ho_receivers t = ho_receivers s" using grant_receivers by blast
    have rs: "HOMA_receive_resend cfg now p s = Inr (t, es) \<Longrightarrow> t = s"
      by (auto simp: HOMA_receive_resend_def rbind_eq_Inr split: option.splits)
    have busy: "HOMA_receive_busy now p s = Inr (t, es) \<Longrightarrow> ghost k t"
      using assms(2) by (auto simp: HOMA_receive_busy_def rbind_eq_Inr Let_def ghost_def rcv_at_def get_put split: option.splits if_splits)
    show ?thesis
      using h assms(2) by (auto simp: HOMA_processLowerpck_def ghost_def split: if_splits
        dest!: grant rs busy ghost_udata[OF _ assms(2)] ghost_sdata[OF _ assms(2)])
  qed
qed

interpretation homa_ghost: machine "HOMA_handleMessage cfg" "ghost k" "\<lambda>_. True" for cfg k
  by unfold_locales (rule ghost_step)


lemma udata_low:
  assumes "contains ''homaUData'' (p_name p)"
  shows "HOMA_handleMessage cfg (now, HLower p) s = HOMA_receive_unscheduledata cfg now p s"
proof -
  have "p_name p \<noteq> ''Grant'' \<and> p_name p \<noteq> ''Resend'' \<and> p_name p \<noteq> ''Busy''" using assms by auto
  with assms show ?thesis by (simp add: HOMA_processLowerpck_def)
qed

lemma last_makes_ghost:
  assumes "HOMA_receive_unscheduledata cfg now p s = Inr (t, es)" and "ht_last (last (p_tags p))" and "wf_map (ho_receivers s)"
  shows "ghost (ht_flowid (last (p_tags p))) t"
proof -
  have tags: "p_tags p \<noteq> []"
    using assms(1) by (auto simp: HOMA_receive_unscheduledata_def last_tag_def packet.truncate_def split: if_splits)
  let ?tag = "last (p_tags p)" and ?s0 = "s\<lparr>ho_srcAddr := d_dest p\<rparr>"
  let ?k = "ht_flowid ?tag" and ?n = "ht_packetid ?tag"
  obtain r0 s1 where m: "(case map_get (ho_receivers ?s0) ?k of Some r \<Rightarrow> (r, ?s0) | None \<Rightarrow> homa_new_rcv ?k (d_src p) ?s0) = (r0, s1)"
    by fastforce
  then have rc: "ho_receivers s1 = ho_receivers s"
    by (auto simp: homa_new_rcv_def take_priority_def split: option.splits)
  let ?r = "r0\<lparr>now_received_data_seq := ?n, now_send_grt_seq := -1, if_get := (if_get r0)(nat ?n := Some True)\<rparr>"
  from assms(1,2) m obtain s2 fs where f: "homa_finish ?k (SenderPriority ?r) ?r s1 = Inr (s2, fs)" and t: "t = snd (rcv_at ?k s2)"
    by (auto simp: HOMA_receive_unscheduledata_def tag_of_truncate[OF tags] rbind_eq_Inr Let_def split: if_splits)
  from f have "ho_receivers s2 = map_erase ?k (ho_receivers s)"
    by (auto simp: homa_finish_def free_priority_def rbind_eq_Inr rc split: if_splits)
  then have "map_get (ho_receivers s2) ?k = None" using assms(3) by (simp add: get_erase)
  then show ?thesis by (simp add: t rcv_at_def ghost_def get_put no_rcv_def)
qed

text \<open>C19: A packet that is overtaken ends the simulation.  Once the last packet of an unscheduled message has been
  taken, the reading of the erased entry makes a new one without timers; whatever happens in between, an unscheduled
  packet of that message that arrives later is an error.\<close>

theorem homa_reordering_fails:
  assumes "contains ''homaUData'' (p_name p)" and "ht_last (last (p_tags p))" and "wf_map (ho_receivers s)"
    and "contains ''homaUData'' (p_name q)" and "ht_flowid (last (p_tags q)) = ht_flowid (last (p_tags p))"
  shows "\<not> is_ok (run_out (HOMA_handleMessage cfg) ((t1, HLower p) # xs @ [(t2, HLower q)]) s)"
proof
  let ?k = "ht_flowid (last (p_tags p))"
  assume "is_ok (run_out (HOMA_handleMessage cfg) ((t1, HLower p) # xs @ [(t2, HLower q)]) s)"
  then obtain s1 es1 s2 es2 s3 es3 where
    p: "HOMA_receive_unscheduledata cfg t1 p s = Inr (s1, es1)"
    and r: "run_out (HOMA_handleMessage cfg) xs s1 = Inr (s2, es2)"
    and q: "HOMA_receive_unscheduledata cfg t2 q s2 = Inr (s3, es3)"
    by (auto simp: is_ok_iff rbind_eq_Inr run_out_append udata_low[OF assms(1)] udata_low[OF assms(4)] simp del: HOMA_handleMessage.simps)
  have "ghost ?k s2" by (rule homa_ghost.inv_run[OF last_makes_ghost[OF p assms(2,3)] _ r]) simp
  with ghost_udata[OF q this] assms(5) show False by simp
qed

text \<open>The flags of the packets that have come are an array of ten thousand.\<close>

lemma homa_number_fails:
  assumes "starts_with ''homaUData'' (p_name p) \<or> starts_with ''homaSData'' (p_name p)" and "p_tags p \<noteq> []"
    and "\<not> (0 \<le> ht_packetid (last (p_tags p)) \<and> ht_packetid (last (p_tags p)) < 10000)"
  shows "\<not> is_ok (HOMA_handleMessage cfg (now, HLower p) s)"
proof -
  from assms(1) have n: "p_name p \<noteq> ''Grant'' \<and> p_name p \<noteq> ''Resend'' \<and> p_name p \<noteq> ''Busy''" by auto
  have u: "\<not> is_ok (HOMA_receive_unscheduledata cfg now p s)"
    using assms(3) by (auto simp: HOMA_receive_unscheduledata_def tag_of_truncate[OF assms(2)] Let_def split: prod.splits)
  have d: "\<not> is_ok (HOMA_receive_scheduledata cfg now p s)"
    using assms(3) by (auto simp: HOMA_receive_scheduledata_def tag_of_truncate[OF assms(2)] Let_def split: option.splits)
  have "contains ''homaUData'' (p_name p) \<or> contains ''homaSData'' (p_name p)"
    using assms(1) by (cases "p_name p") auto
  with n u d show ?thesis by (auto simp: HOMA_processLowerpck_def)
qed

text \<open>No packet carries more than \<open>max_pck_size\<close> bytes, so a long message needs many.\<close>

interpretation homa_sizes: recorded_machine
    "HOMA_handleMessage cfg" "homa_inv cfg" "homa_accepts cfg" "\<lambda>s es. small cfg es" for cfg
  using homa_step by unfold_locales (auto simp: small_append)

lemma small_count:
  assumes "\<forall>(q, len, lst)\<in>set xs. len \<le> (m :: int)"
  shows "sum_list (map (\<lambda>(_, len, _). len) xs) \<le> int (length xs) * m"
  using assms by (induction xs) (auto simp: algebra_simps)

lemma homa_sent_mem:
  "x \<in> set (homa_sent k es) \<Longrightarrow> \<exists>p. HDown p \<in> set es \<and> (starts_with ''homaUData'' (p_name p) \<or> starts_with ''homaSData'' (p_name p)) \<and>
     p_tags p \<noteq> [] \<and> fst x = of_int (ht_packetid (last (p_tags p)))"
  by (induction k es rule: homa_sent.induct) (auto split: if_splits)

text \<open>C18: Long messages cannot be received.  A message of more than ten thousand full packets is sent as all others, but among
  its packets is one that is an error at any receiver at any time: an access beyond the array of the flags of
  the packets that have come.\<close>

theorem homa_long_message_fails:
  assumes "HOMA_initialize cfg = Inr s0" and "0 < max_pck_size cfg" and "0 \<le> baseRTT cfg * linkspeed cfg"
    and "\<forall>x\<in>set xs. homa_accepts cfg x" and "run_out (HOMA_handleMessage cfg) xs s0 = Inr (s, es0)"
    and "map_get (ho_senders s) k = None" and "activate cfg"
    and "homa_new (now, HUpper junk p) = Some k" and "10000 * max_pck_size cfg < message_length (last (p_tags p))"
    and "run_out (HOMA_handleMessage cfg) ((now, HUpper junk p) # ys) s = Inr (s', es)"
    and "\<forall>y\<in>set ys. homa_accepts cfg y \<and> homa_new y \<noteq> Some k" and "homa_left k s' = None"
  shows "\<exists>q. HDown q \<in> set es \<and> (\<forall>cfg' t r. \<not> is_ok (HOMA_handleMessage cfg' (t, HLower q) r))"
proof -
  have "0 < message_length (last (p_tags p))" using assms(2,9) by linarith
  note d = homa_flow_delivered[OF assms(1-8) this assms(10-12)]
  have i: "homa_inv cfg s" by (rule homa_segments.inv_run[OF homa_init_inv[OF assms(1-3)] assms(4,5)])
  have acc: "\<forall>y\<in>set ((now, HUpper junk p) # ys). homa_accepts cfg y" using assms(7,8,11) by (auto split: if_splits)
  have "small cfg es" using homa_sizes.record_run[OF i acc _ assms(10), of "[]"] by (simp add: small_def)
  then have "message_length (last (p_tags p)) \<le> int (length (homa_sent k es)) * max_pck_size cfg"
    using small_count[of "homa_sent k es" "max_pck_size cfg"] d by (simp add: small_def)
  with assms(9) have "10000 * max_pck_size cfg < int (length (homa_sent k es)) * max_pck_size cfg" by linarith
  with assms(2) have "10000 < length (homa_sent k es)" by simp
  then have "(10000 :: u32) \<in> set (map fst (homa_sent k es))" using d by (auto intro!: image_eqI[of _ _ 10000])
  then obtain x where x: "x \<in> set (homa_sent k es)" "fst x = 10000" by auto
  from homa_sent_mem[OF x(1)] x(2) obtain q where q: "HDown q \<in> set es"
    "starts_with ''homaUData'' (p_name q) \<or> starts_with ''homaSData'' (p_name q)" "p_tags q \<noteq> []"
    "(of_int (ht_packetid (last (p_tags q))) :: u32) = 10000" by auto
  let ?n = "ht_packetid (last (p_tags q))"
  have "\<not> (0 \<le> ?n \<and> ?n < 10000)"
  proof
    assume n: "0 \<le> ?n \<and> ?n < 10000"
    then have "uint (word_of_int ?n :: u32) = ?n" by (simp add: uint_word_of_int_eq take_bit_int_eq_self)
    moreover have "uint (10000 :: u32) = 10000" by simp
    ultimately show False using q(4) n by simp
  qed
  from homa_number_fails[OF q(2,3) this] q(1) show ?thesis by (intro exI[of _ q] conjI allI)
qed


subsection \<open>A sender and a receiver\<close>

text \<open>
  Two modules and the network between them.  A way is a link in one direction: the packets on it with the times they
  arrive at, the number of packets sent over it so far, and the arrival of the last one.  A packet arrives after a delay
  of its own, and not before its transmission is over, that begins when the last one's is: nothing is lost or overtaken.
\<close>

fun downs :: "homa_effect list \<Rightarrow> dgram list" where
  "downs [] = []"
| "downs (HDown p # es) = p # downs es"
| "downs (_ # es) = downs es"

fun ups :: "homa_effect list \<Rightarrow> dgram list" where
  "ups [] = []"
| "ups (HUp p # es) = p # ups es"
| "ups (_ # es) = ups es"

record way =
  on_way :: "(simtime \<times> dgram) list"
  way_sent :: nat
  way_busy :: simtime

fun way_put :: "(nat \<Rightarrow> simtime) \<Rightarrow> (nat \<Rightarrow> simtime) \<Rightarrow> simtime \<Rightarrow> dgram list \<Rightarrow> way \<Rightarrow> way" where
  "way_put delay gap t [] w = w"
| "way_put delay gap t (p # ps) w =
     (let a = max (t + delay (way_sent w)) (way_busy w + gap (way_sent w)) in
      way_put delay gap t ps \<lparr>on_way = on_way w @ [(a, p)], way_sent = Suc (way_sent w), way_busy = a\<rparr>)"

record homa_links =
  data_delay :: "nat \<Rightarrow> simtime"
  data_gap :: "nat \<Rightarrow> simtime"
  grant_delay :: "nat \<Rightarrow> simtime"

record homa_net =
  data_way :: way
  grant_way :: way
  net_snd :: homa
  net_rcv :: homa

definition way_next :: "way \<Rightarrow> simtime option" where
  "way_next w = (if on_way w = [] then None else Some (fst (hd (on_way w))))"

text \<open>A timer of message \<open>k\<close> that fires before the next packet arrives, or at the same time.\<close>

definition due_by :: "simtime option \<Rightarrow> simtime option \<Rightarrow> simtime \<Rightarrow> bool" where
  "due_by a b T \<longleftrightarrow> (case a of None \<Rightarrow> True | Some t \<Rightarrow> T \<le> t) \<and> (case b of None \<Rightarrow> True | Some t \<Rightarrow> T \<le> t)"

definition homa_due :: "u32 \<Rightarrow> way \<Rightarrow> way \<Rightarrow> homa \<Rightarrow> homa_timer option" where
  "homa_due k w w' s =
     find (\<lambda>tm. case ho_timers s tm of None \<Rightarrow> False | Some T \<Rightarrow> due_by (way_next w) (way_next w') T)
       [Timeout k, SendResend k, SendUnschedule k, SendBusy k]"

text \<open>The next event: a timer of the receiver or the sender, or the packet that arrives first, where \<open>d\<close> decides
  between two at the same time; with nothing left there is no event.  What the receiver passes up is put out.\<close>

definition data_first :: "bool \<Rightarrow> homa_net \<Rightarrow> bool" where
  "data_first d nt =
     (case (way_next (data_way nt), way_next (grant_way nt)) of
        (None, _) \<Rightarrow> False
      | (Some t, None) \<Rightarrow> True
      | (Some t, Some t') \<Rightarrow> t < t' \<or> t = t' \<and> d)"

definition receiver_does ::
    "homa_links \<Rightarrow> homa_cfg \<Rightarrow> simtime \<Rightarrow> homa_op \<Rightarrow> homa_net \<Rightarrow> (homa_net \<times> dgram list) res" where
  "receiver_does lk cr t x nt =
     rbind (HOMA_handleMessage cr (t, x) (net_rcv nt)) (\<lambda>(R, es).
       Inr (nt\<lparr>net_rcv := R, grant_way := way_put (grant_delay lk) (\<lambda>_. 0) t (downs es) (grant_way nt)\<rparr>, ups es))"

definition sender_does ::
    "homa_links \<Rightarrow> homa_cfg \<Rightarrow> simtime \<Rightarrow> homa_op \<Rightarrow> homa_net \<Rightarrow> (homa_net \<times> dgram list) res" where
  "sender_does lk cs t x nt =
     rbind (HOMA_handleMessage cs (t, x) (net_snd nt)) (\<lambda>(S, es).
       Inr (nt\<lparr>net_snd := S, data_way := way_put (data_delay lk) (data_gap lk) t (downs es) (data_way nt)\<rparr>, []))"

definition homa_net_step ::
    "homa_links \<Rightarrow> homa_cfg \<Rightarrow> homa_cfg \<Rightarrow> u32 \<Rightarrow> bool \<Rightarrow> homa_net \<Rightarrow> (homa_net \<times> dgram list) res" where
  "homa_net_step lk cs cr k d nt =
     (case homa_due k (data_way nt) (grant_way nt) (net_rcv nt) of
        Some tm \<Rightarrow> receiver_does lk cr (the (ho_timers (net_rcv nt) tm)) (HFire tm) nt
      | None \<Rightarrow>
     (case homa_due k (data_way nt) (grant_way nt) (net_snd nt) of
        Some tm \<Rightarrow> sender_does lk cs (the (ho_timers (net_snd nt) tm)) (HFire tm) nt
      | None \<Rightarrow>
        if data_first d nt then
          (case on_way (data_way nt) of
             [] \<Rightarrow> Inr (nt, [])
           | (t, p) # q \<Rightarrow> receiver_does lk cr t (HLower p) (nt\<lparr>data_way := (data_way nt)\<lparr>on_way := q\<rparr>\<rparr>))
        else
          (case on_way (grant_way nt) of
             [] \<Rightarrow> Inr (nt, [])
           | (t, g) # q \<Rightarrow> sender_does lk cs t (HLower g) (nt\<lparr>grant_way := (grant_way nt)\<lparr>on_way := q\<rparr>\<rparr>))))"

text \<open>The network when the sender has just sent the packets \<open>ps\<close>.\<close>

definition homa_net_start :: "homa_links \<Rightarrow> simtime \<Rightarrow> dgram list \<Rightarrow> homa \<Rightarrow> homa \<Rightarrow> homa_net" where
  "homa_net_start lk now ps S R =
     \<lparr>data_way = way_put (data_delay lk) (data_gap lk) now ps \<lparr>on_way = [], way_sent = 0, way_busy = now\<rparr>,
      grant_way = \<lparr>on_way = [], way_sent = 0, way_busy = now\<rparr>, net_snd = S, net_rcv = R\<rparr>"

text \<open>A data packet takes at most \<open>D\<close> when the link is free, and comes at most \<open>G\<close> behind the one before it when it
  is not; a grant takes at most \<open>E\<close>.\<close>

definition links_within :: "homa_links \<Rightarrow> simtime \<Rightarrow> simtime \<Rightarrow> simtime \<Rightarrow> bool" where
  "links_within lk D G E \<longleftrightarrow>
     (\<forall>n. 0 \<le> data_delay lk n \<and> data_delay lk n \<le> D \<and> 0 \<le> data_gap lk n \<and> data_gap lk n \<le> G \<and>
          0 \<le> grant_delay lk n \<and> grant_delay lk n \<le> E)"

lemma downs_map [simp]: "downs (map HDown ps) = ps"
  by (induction ps) auto

lemma downs_append: "downs (es @ es') = downs es @ downs es'"
  by (induction es rule: downs.induct) auto

lemma ups_append: "ups (es @ es') = ups es @ ups es'"
  by (induction es rule: ups.induct) auto

text \<open>The receiver knows the message, at priority \<open>pr\<close>; or it does not, and \<open>pr\<close> is the first free priority.\<close>

definition knows :: "u32 \<Rightarrow> int \<Rightarrow> homa \<Rightarrow> bool" where
  "knows k pr R \<longleftrightarrow> (\<exists>r. map_get (ho_receivers R) k = Some r \<and> has_timers r \<and> RcvState r = GRANT_SENDING \<and>
     hr_flowid r = k \<and> SenderPriority r = pr)"

definition fresh :: "u32 \<Rightarrow> int \<Rightarrow> homa \<Rightarrow> bool" where
  "fresh k pr R \<longleftrightarrow> map_get (ho_receivers R) k = None \<and> fst (take_priority R) = pr"

text \<open>What is sent on a grant.\<close>

definition grant_for :: "u32 \<Rightarrow> int \<Rightarrow> dgram \<Rightarrow> bool" where
  "grant_for k pr g \<longleftrightarrow> p_name g = ''Grant'' \<and> p_tags g \<noteq> [] \<and> ht_flowid (last (p_tags g)) = k \<and> ht_sender_priority (last (p_tags g)) = pr"

lemma send_grant_known:
  assumes "map_get (ho_receivers s) k = Some r" and "has_timers r" and "RcvState r = GRANT_SENDING" and "hr_flowid r = k"
    and "SenderPriority r = pr" and "now < stopTime cfg"
  shows "\<exists>t es g. HOMA_send_grant cfg now k s = Inr (t, es) \<and> knows k pr t \<and> downs es = [g] \<and> grant_for k pr g \<and> ups es = [] \<and>
     ho_timers t = (ho_timers s)(Timeout k := Some (now + grant_timeout))"
proof -
  let ?n = "now_send_grt_seq r + 1"
  let ?t = "s\<lparr>ho_receivers := map_put k (r\<lparr>now_send_grt_seq := ?n\<rparr>) (ho_receivers s),
              ho_timers := (ho_timers s)(Timeout k := Some (now + grant_timeout))\<rparr>"
  let ?g = "homa_control ''Grant'' 26 0 (hr_flowid r) ?n (SenderPriority r) (ho_srcAddr s) (hr_destAddr r) now"
  show ?thesis
  proof (intro exI conjI)
    show "HOMA_send_grant cfg now k s = Inr (?t, [HDown ?g, HCancel (Timeout k), HArm (Timeout k) (now + grant_timeout)])"
      using assms by (simp add: HOMA_send_grant_def rcv_at_def Let_def)
    show "knows k pr ?t" using assms by (simp add: knows_def get_put)
    show "downs [HDown ?g, HCancel (Timeout k), HArm (Timeout k) (now + grant_timeout)] = [?g]" by simp
    show "grant_for k pr ?g" using assms by (simp add: grant_for_def)
  qed simp_all
qed

lemma receive_more:
  assumes "is_piece k pr n False p" and "knows k pr R \<or> fresh k pr R \<and> contains ''homaUData'' (p_name p)"
    and "0 \<le> n" and "n < 10000" and "now < stopTime cfg"
  obtains R' es g where "HOMA_handleMessage cfg (now, HLower p) R = Inr (R', es)" and "knows k pr R'" and "downs es = [g]"
    and "grant_for k pr g" and "ups es = [p]" and "ho_timers R' = (ho_timers R)(Timeout k := Some (now + grant_timeout))"
proof -
  have tags: "p_tags p \<noteq> []" and tg: "ht_flowid (last (p_tags p)) = k" "ht_packetid (last (p_tags p)) = n" "\<not> ht_last (last (p_tags p))"
    and nm: "p_name p \<noteq> ''Grant''" "p_name p \<noteq> ''Resend''" "p_name p \<noteq> ''Busy''"
    using assms(1) by (simp_all add: is_piece_def)
  show thesis
  proof (cases "contains ''homaUData'' (p_name p)")
    case True
    let ?R0 = "R\<lparr>ho_srcAddr := d_dest p\<rparr>"
    obtain r0 s1 where m: "(case map_get (ho_receivers ?R0) k of Some r \<Rightarrow> (r, ?R0) | None \<Rightarrow> homa_new_rcv (ht_flowid (last (p_tags p))) (d_src p) ?R0) = (r0, s1)"
      by fastforce
    have r0: "has_timers r0" "hr_flowid r0 = k" "SenderPriority r0 = pr"
      using assms(2) m tg by (auto simp: knows_def fresh_def homa_new_rcv_def take_priority_def split: option.splits)
    let ?r = "r0\<lparr>now_received_data_seq := n, now_send_grt_seq := -1, if_get := (if_get r0)(nat n := Some True)\<rparr>"
    let ?s1 = "s1\<lparr>ho_receivers := map_put k (?r\<lparr>RcvState := GRANT_SENDING\<rparr>) (ho_receivers s1)\<rparr>"
    have g: "map_get (ho_receivers ?s1) k = Some (?r\<lparr>RcvState := GRANT_SENDING\<rparr>)" by (simp add: get_put)
    obtain t es gr where sg: "HOMA_send_grant cfg now k ?s1 = Inr (t, es)" "knows k pr t" "downs es = [gr]" "grant_for k pr gr" "ups es = []"
      "ho_timers t = (ho_timers ?s1)(Timeout k := Some (now + grant_timeout))"
      using send_grant_known[OF g _ _ _ _ assms(5), of pr] r0 by auto
    have tm: "ho_timers s1 = ho_timers R" using m by (auto simp: homa_new_rcv_def take_priority_def split: option.splits)
    have "HOMA_handleMessage cfg (now, HLower p) R = Inr (t, es @ [HUp p])"
      using m sg(1) tg assms(3,4)
      by (simp add: udata_low[OF True] HOMA_receive_unscheduledata_def tag_of_truncate[OF tags] Let_def del: HOMA_handleMessage.simps)
    then show thesis by (rule that) (use sg tm in \<open>simp_all add: downs_append ups_append\<close>)
  next
    case False
    then have sd: "contains ''homaSData'' (p_name p)" using assms(1) by (simp add: is_piece_def)
    obtain r0 where m: "map_get (ho_receivers R) k = Some r0" and r0: "has_timers r0" "hr_flowid r0 = k" "SenderPriority r0 = pr" "RcvState r0 = GRANT_SENDING"
      using assms(2) False by (auto simp: knows_def)
    let ?r = "r0\<lparr>now_received_data_seq := n, if_get := (if_get r0)(nat n := Some True)\<rparr>"
    let ?s1 = "R\<lparr>ho_receivers := map_put k ?r (ho_receivers R)\<rparr>"
    have g: "map_get (ho_receivers ?s1) k = Some ?r" by (simp add: get_put)
    obtain t es gr where sg: "HOMA_send_grant cfg now k ?s1 = Inr (t, es)" "knows k pr t" "downs es = [gr]" "grant_for k pr gr" "ups es = []"
      "ho_timers t = (ho_timers ?s1)(Timeout k := Some (now + grant_timeout))"
      using send_grant_known[OF g _ _ _ _ assms(5), of pr] r0 by auto
    have "HOMA_handleMessage cfg (now, HLower p) R = Inr (t, es @ [HUp p])"
      using m sg(1) tg assms(3,4) False sd nm r0
      by (simp add: HOMA_processLowerpck_def HOMA_receive_scheduledata_def tag_of_truncate[OF tags] Let_def)
    then show thesis by (rule that) (use sg in \<open>simp_all add: downs_append ups_append\<close>)
  qed
qed

lemma receive_last:
  assumes "is_piece k pr n True p" and "knows k pr R \<or> fresh k pr R \<and> contains ''homaUData'' (p_name p)"
    and "0 \<le> n" and "n < 10000" and "0 \<le> pr" and "pr < 8"
  obtains R' es where "HOMA_handleMessage cfg (now, HLower p) R = Inr (R', es)" and "downs es = []" and "ups es = [p]"
    and "ho_timers R' = (ho_timers R)(SendResend k := None, Timeout k := None)"
proof -
  have tags: "p_tags p \<noteq> []" and tg: "ht_flowid (last (p_tags p)) = k" "ht_packetid (last (p_tags p)) = n" "ht_last (last (p_tags p))"
    and nm: "p_name p \<noteq> ''Grant''" "p_name p \<noteq> ''Resend''" "p_name p \<noteq> ''Busy''"
    using assms(1) by (simp_all add: is_piece_def)
  show thesis
  proof (cases "contains ''homaUData'' (p_name p)")
    case True
    let ?R0 = "R\<lparr>ho_srcAddr := d_dest p\<rparr>"
    obtain r0 s1 where m: "(case map_get (ho_receivers ?R0) k of Some r \<Rightarrow> (r, ?R0) | None \<Rightarrow> homa_new_rcv (ht_flowid (last (p_tags p))) (d_src p) ?R0) = (r0, s1)"
      by fastforce
    have r0: "has_timers r0" "SenderPriority r0 = pr"
      using assms(2) m tg by (auto simp: knows_def fresh_def homa_new_rcv_def take_priority_def split: option.splits)
    have tm: "ho_timers s1 = ho_timers R" using m by (auto simp: homa_new_rcv_def take_priority_def split: option.splits)
    obtain t where t: "HOMA_handleMessage cfg (now, HLower p) R = Inr (t, [HCancel (SendResend k), HCancel (Timeout k), HUp p])"
      "ho_timers t = (ho_timers R)(SendResend k := None, Timeout k := None)"
      using m tm tg assms(3-6) r0
      by (simp add: udata_low[OF True] HOMA_receive_unscheduledata_def tag_of_truncate[OF tags] Let_def homa_finish_def
          free_priority_def rcv_at_def del: HOMA_handleMessage.simps split: option.splits)
    show thesis by (rule that[OF t(1) _ _ t(2)]) simp_all
  next
    case False
    then have sd: "contains ''homaSData'' (p_name p)" "ht_priority (last (p_tags p)) = pr" using assms(1) by (simp_all add: is_piece_def)
    obtain r0 where m: "map_get (ho_receivers R) k = Some r0" and r0: "has_timers r0"
      using assms(2) False by (auto simp: knows_def)
    obtain t where t: "HOMA_handleMessage cfg (now, HLower p) R = Inr (t, [HCancel (SendResend k), HCancel (Timeout k), HUp p])"
      "ho_timers t = (ho_timers R)(SendResend k := None, Timeout k := None)"
      using m tg assms(3-6) False sd nm r0
      by (simp add: HOMA_processLowerpck_def HOMA_receive_scheduledata_def tag_of_truncate[OF tags] Let_def homa_finish_def free_priority_def)
    show thesis by (rule that[OF t(1) _ _ t(2)]) simp_all
  qed
qed


lemma sender_on_grant:
  assumes "grant_for k pr g" and "homa_inv cs S" and "map_get (ho_senders S) k = Some f" and "t < stopTime cs"
  shows "\<exists>S' es f'. HOMA_handleMessage cs (t, HLower g) S = Inr (S', es) \<and> homa_inv cs S' \<and> ho_timers S' = ho_timers S \<and>
     map_get (ho_senders S') k = Some f' \<and>
     (sSize f = 0 \<and> f' = f \<and> downs es = [] \<or>
      (\<exists>p. downs es = [p] \<and> 0 < sSize f \<and> payload_of p = (if sSize f > max_pck_size cs then max_pck_size cs else sSize f) \<and>
         sSize f' = sSize f - payload_of p \<and> hs_pckseq f' = hs_pckseq f + 1 \<and> is_piece k pr (hs_pckseq f) (sSize f' = 0) p))"
proof -
  have tags: "p_tags g \<noteq> []" and g: "p_name g = ''Grant''" "ht_flowid (last (p_tags g)) = k" "ht_sender_priority (last (p_tags g)) = pr"
    using assms(1) by (simp_all add: grant_for_def)
  have ok: "0 \<le> sSize f" "0 < max_pck_size cs" using assms(2,3) by (auto simp: homa_inv_def homa_snd_ok_def)
  have h: "HOMA_handleMessage cs (t, HLower g) S = HOMA_receive_grant cs t g S" using g(1) by (simp add: HOMA_processLowerpck_def)
  show ?thesis
  proof (cases "sSize f = 0")
    case True
    then have "HOMA_receive_grant cs t g S = Inr (S, [])"
      using assms(3) g by (simp add: HOMA_receive_grant_def tag_of_truncate[OF tags] Let_def)
    with True h assms(2,3) show ?thesis by simp
  next
    case False
    obtain b rest where seg: "segment (max_pck_size cs) (sSize f) = (b, rest)" by fastforce
    let ?f = "f\<lparr>hs_flowid := k, sSize := rest, hs_pckseq := hs_pckseq f + 1\<rparr>"
    let ?S = "S\<lparr>ho_senders := map_put k ?f (ho_senders S)\<rparr>"
    let ?p = "homa_data ''homaSData-'' (ho_srcAddr S) f k b pr (rest = 0) (hs_cretime f) 0"
    have b: "b = (if sSize f > max_pck_size cs then max_pck_size cs else sSize f)" "rest = sSize f - b" "0 \<le> b"
      using seg ok by (auto simp: segment_def split: if_splits)
    have r: "HOMA_receive_grant cs t g S = Inr (?S, [HDown ?p])"
      using False ok assms(3,4) g seg by (simp add: HOMA_receive_grant_def tag_of_truncate[OF tags] Let_def)
    have "homa_inv cs ?S" using grant_in_step[OF r assms(2)] by simp
    moreover have "payload_of ?p = b" using b(3) by simp
    moreover have "is_piece k pr (hs_pckseq f) (rest = 0) ?p" by (rule sdata_piece)
    ultimately show ?thesis using h r b False ok
      by (intro exI[of _ ?S] exI[of _ "[HDown ?p]"] exI[of _ ?f]) (simp add: get_put)
  qed
qed

text \<open>How many packets a rest takes.\<close>

definition packets :: "int \<Rightarrow> int \<Rightarrow> nat" where
  "packets m n = nat ((n + m - 1) div m)"

lemma packets_zero [simp]: "0 < m \<Longrightarrow> packets m 0 = 0"
  by (simp add: packets_def)

lemma packets_step:
  assumes "0 < m" and "0 < n"
  shows "packets m n = Suc (packets m (n - (if n > m then m else n)))"
proof -
  have "(n + m - 1) div m = (n - 1) div m + 1" using assms(1) div_add_self2[of m "n - 1"] by (simp add: algebra_simps)
  moreover have "0 \<le> (n - 1) div m" using assms by (simp add: pos_imp_zdiv_nonneg_iff)
  moreover have "(n - 1) div m = 0" if "\<not> n > m" using that assms by (simp add: div_pos_pos_trivial)
  ultimately show ?thesis using assms by (auto simp: packets_def nat_add_distrib)
qed

lemma packets_bound: "0 < m \<Longrightarrow> 0 \<le> n \<Longrightarrow> (int (packets m n) - 1) * m \<le> n"
proof -
  assume m: "0 < m" and n: "0 \<le> n"
  have "0 \<le> (n + m - 1) div m" using m n by (simp add: pos_imp_zdiv_nonneg_iff)
  then have "(int (packets m n) - 1) * m = (n + m - 1) div m * m - m" by (simp add: packets_def algebra_simps)
  also have "\<dots> \<le> n" using m div_mult_mod_eq[of "n + m - 1" m] pos_mod_sign[OF m, of "n + m - 1"] by linarith
  finally show ?thesis .
qed


text \<open>Arrivals at most \<open>B\<close> apart, from \<open>t\<close> on.\<close>

fun paced :: "simtime \<Rightarrow> simtime \<Rightarrow> (simtime \<times> dgram) list \<Rightarrow> bool" where
  "paced B t [] = True"
| "paced B t (x # q) = (t \<le> fst x \<and> fst x \<le> t + B \<and> paced B (fst x) q)"

definition ends :: "simtime \<Rightarrow> (simtime \<times> dgram) list \<Rightarrow> simtime" where
  "ends t q = (if q = [] then t else fst (last q))"

lemma ends_simps [simp]: "ends t [] = t" "ends t (x # q) = ends (fst x) q" "ends t (q @ [x]) = fst x"
  by (simp_all add: ends_def)

lemma paced_snoc [simp]: "paced B t (q @ [x]) \<longleftrightarrow> paced B t q \<and> ends t q \<le> fst x \<and> fst x \<le> ends t q + B"
  by (induction q arbitrary: t) auto

lemma paced_ends: "paced B t q \<Longrightarrow> t \<le> ends t q"
  by (induction q arbitrary: t) force+

lemma way_put_packets [simp]: "map snd (on_way (way_put delay gap t ps w)) = map snd (on_way w) @ ps"
  by (induction ps arbitrary: w) (simp_all add: Let_def)

lemma way_put_paced:
  assumes "\<forall>n. delay n \<le> D \<and> 0 \<le> gap n \<and> gap n \<le> B" and "paced B t0 (on_way w)" and "way_busy w = ends t0 (on_way w)"
    and "t + D \<le> way_busy w + B"
  shows "paced B t0 (on_way (way_put delay gap t ps w)) \<and>
     way_busy (way_put delay gap t ps w) = ends t0 (on_way (way_put delay gap t ps w))"
  using assms(2-4)
proof (induction ps arbitrary: w)
  case (Cons p ps)
  let ?a = "max (t + delay (way_sent w)) (way_busy w + gap (way_sent w))"
  have dl: "delay (way_sent w) \<le> D" and gp: "0 \<le> gap (way_sent w)" "gap (way_sent w) \<le> B" using assms(1) by simp_all
  have a: "way_busy w \<le> ?a" "?a \<le> way_busy w + B" using dl gp Cons.prems(3) by (auto simp: max_def)
  then have "t + D \<le> ?a + B" using Cons.prems(3) by linarith
  moreover define w' where "w' = \<lparr>on_way = on_way w @ [(?a, p)], way_sent = Suc (way_sent w), way_busy = ?a\<rparr>"
  ultimately have "paced B t0 (on_way (way_put delay gap t ps w')) \<and>
     way_busy (way_put delay gap t ps w') = ends t0 (on_way (way_put delay gap t ps w'))"
    by (intro Cons.IH) (use Cons.prems(1,2) a in simp_all)
  moreover have "way_put delay gap t (p # ps) w = way_put delay gap t ps w'" by (simp add: w'_def Let_def)
  ultimately show ?case by simp
qed simp

text \<open>
  The packets on the two ways are in time, counted from the last arrival of a data packet at \<open>t0\<close>: the next comes
  within \<open>B\<close>, the grants within \<open>E\<close>.
\<close>

definition on_time :: "simtime \<Rightarrow> simtime \<Rightarrow> simtime \<Rightarrow> homa_net \<Rightarrow> bool" where
  "on_time B E t0 nt \<longleftrightarrow> paced B t0 (on_way (data_way nt)) \<and> way_busy (data_way nt) = ends t0 (on_way (data_way nt)) \<and>
     sorted (map fst (on_way (grant_way nt))) \<and>
     (\<forall>x\<in>set (on_way (grant_way nt)). t0 \<le> fst x \<and> fst x \<le> way_busy (grant_way nt)) \<and> way_busy (grant_way nt) \<le> t0 + E"

text \<open>The message is under way: \<open>a\<close> is the number of the next data packet to arrive.\<close>

definition homa_going :: "homa_cfg \<Rightarrow> u32 \<Rightarrow> int \<Rightarrow> int \<Rightarrow> simtime \<Rightarrow> homa_snd \<Rightarrow> homa_net \<Rightarrow> bool" where
  "homa_going cs k pr a t0 f nt \<longleftrightarrow>
     homa_inv cs (net_snd nt) \<and> map_get (ho_senders (net_snd nt)) k = Some f \<and> (\<forall>tm. ho_timers (net_snd nt) tm = None) \<and>
     flight k pr a (sSize f = 0) (map snd (on_way (data_way nt))) \<and> 0 \<le> a \<and>
     hs_pckseq f = a + int (length (on_way (data_way nt))) \<and>
     (\<forall>x\<in>set (on_way (grant_way nt)). grant_for k pr (snd x)) \<and> (on_way (data_way nt) = [] \<longrightarrow> on_way (grant_way nt) \<noteq> []) \<and>
     (knows k pr (net_rcv nt) \<and> ho_timers (net_rcv nt) = (\<lambda>_. None)(Timeout k := Some (t0 + grant_timeout)) \<or>
      fresh k pr (net_rcv nt) \<and> (\<forall>tm. ho_timers (net_rcv nt) tm = None) \<and> on_way (grant_way nt) = [] \<and>
      on_way (data_way nt) \<noteq> [] \<and> contains ''homaUData'' (p_name (snd (hd (on_way (data_way nt))))))"

definition homa_over :: "u32 \<Rightarrow> homa_net \<Rightarrow> bool" where
  "homa_over k nt \<longleftrightarrow> on_way (data_way nt) = [] \<and> on_way (grant_way nt) = [] \<and> homa_left k (net_snd nt) = None \<and>
     (\<forall>tm. ho_timers (net_snd nt) tm = None) \<and> (\<forall>tm. ho_timers (net_rcv nt) tm = None)"

lemma homa_due_None:
  assumes "\<And>tm T. ho_timers s tm = Some T \<Longrightarrow> \<not> due_by (way_next w) (way_next w') T"
  shows "homa_due k w w' s = None"
  using assms by (auto simp: homa_due_def find_None_iff split: option.splits)

text \<open>After the last data packet: the grants that are left ask for nothing.\<close>

lemma homa_net_drain:
  assumes "homa_inv cs (net_snd nt)" and "map_get (ho_senders (net_snd nt)) k = Some f" and "sSize f = 0"
    and "\<forall>tm. ho_timers (net_snd nt) tm = None" and "\<forall>tm. ho_timers (net_rcv nt) tm = None"
    and "on_way (data_way nt) = []" and "\<forall>x\<in>set (on_way (grant_way nt)). grant_for k pr (snd x) \<and> fst x < stopTime cs"
    and "length (on_way (grant_way nt)) \<le> length ds"
  shows "\<exists>nt'. run_out (homa_net_step lk cs cr k) ds nt = Inr (nt', []) \<and> homa_over k nt'"
  using assms
proof (induction ds arbitrary: nt f)
  case Nil
  then show ?case by (auto simp: homa_over_def homa_left_def todo_def homa_inv_def homa_snd_ok_def)
next
  case (Cons d ds)
  have none: "homa_due k (data_way nt) (grant_way nt) s = None" if "s = net_snd nt \<or> s = net_rcv nt" for s
    by (rule homa_due_None) (use that Cons.prems(4,5) in auto)
  have df: "\<not> data_first d nt" using Cons.prems(6) by (simp add: data_first_def way_next_def)
  show ?case
  proof (cases "on_way (grant_way nt)")
    case Nil
    then have "homa_net_step lk cs cr k d nt = Inr (nt, [])" using none df by (simp add: homa_net_step_def)
    moreover obtain nt' where "run_out (homa_net_step lk cs cr k) ds nt = Inr (nt', [])" "homa_over k nt'"
      using Cons.IH[OF Cons.prems(1-7)] Nil by auto
    ultimately show ?thesis by simp
  next
    case gl: (Cons x q)
    then have g: "grant_for k pr (snd x)" "fst x < stopTime cs" using Cons.prems(7) by simp_all
    from sender_on_grant[OF g(1) Cons.prems(1,2) g(2)] Cons.prems(3) obtain S' es where
      s: "HOMA_handleMessage cs (fst x, HLower (snd x)) (net_snd nt) = Inr (S', es)" "homa_inv cs S'" "ho_timers S' = ho_timers (net_snd nt)"
        "map_get (ho_senders S') k = Some f" "downs es = []" by auto
    let ?nt = "nt\<lparr>grant_way := (grant_way nt)\<lparr>on_way := q\<rparr>, net_snd := S'\<rparr>"
    have "homa_net_step lk cs cr k d nt = Inr (?nt, [])"
      using none df s(1,5) gl by (cases x) (simp add: homa_net_step_def sender_does_def)
    moreover have "\<exists>nt'. run_out (homa_net_step lk cs cr k) ds ?nt = Inr (nt', []) \<and> homa_over k nt'"
      by (rule Cons.IH[of _ f]) (use s Cons.prems gl in auto)
    ultimately show ?thesis by auto
  qed
qed

text \<open>No timer of the message comes before the next packet.\<close>

lemma homa_going_due:
  assumes "homa_going cs k pr a t0 f nt" and "on_time B E t0 nt" and "B < grant_timeout" and "E < grant_timeout"
  shows "homa_due k (data_way nt) (grant_way nt) (net_rcv nt) = None" and "homa_due k (data_way nt) (grant_way nt) (net_snd nt) = None"
proof -
  have nx: "\<not> due_by (way_next (data_way nt)) (way_next (grant_way nt)) (t0 + grant_timeout)"
  proof (cases "on_way (data_way nt)")
    case Nil
    with assms(1,2) obtain x q where "on_way (grant_way nt) = x # q" "fst x \<le> t0 + E"
      by (cases "on_way (grant_way nt)") (auto simp: homa_going_def on_time_def)
    with assms(4) show ?thesis by (simp add: due_by_def way_next_def)
  next
    case (Cons x q)
    with assms(2) have "fst x \<le> t0 + B" by (simp add: on_time_def)
    with assms(3) Cons show ?thesis by (simp add: due_by_def way_next_def)
  qed
  show "homa_due k (data_way nt) (grant_way nt) (net_rcv nt) = None"
    by (rule homa_due_None) (use assms(1) nx in \<open>auto simp: homa_going_def split: if_splits\<close>)
  show "homa_due k (data_way nt) (grant_way nt) (net_snd nt) = None"
    by (rule homa_due_None) (use assms(1) in \<open>simp add: homa_going_def\<close>)
qed

lemma homa_step_data:
  assumes "homa_going cs k pr a t0 f nt" and "on_time B E t0 nt" and "B < grant_timeout" and "E < grant_timeout" and "0 \<le> E"
    and "links_within lk D G E" and "t0 + grant_timeout \<le> stopTime cr" and "data_first d nt" and "a < 10000" and "0 \<le> pr" and "pr < 8"
  obtains t p q nt' where "on_way (data_way nt) = (t, p) # q" and "homa_net_step lk cs cr k d nt = Inr (nt', [p])"
    and "t0 \<le> t" and "t \<le> t0 + B" and "on_way (data_way nt') = q" and "net_snd nt' = net_snd nt"
    and "ht_packetid (last (p_tags p)) = a"
    and "sSize f = 0 \<and> q = [] \<and> (\<forall>tm. ho_timers (net_rcv nt') tm = None) \<and> on_way (grant_way nt') = on_way (grant_way nt) \<or>
      \<not> (sSize f = 0 \<and> q = []) \<and> homa_going cs k pr (a + 1) t f nt' \<and> on_time B E t nt' \<and>
      length (on_way (grant_way nt')) = Suc (length (on_way (grant_way nt)))"
proof -
  let ?gl = "on_way (grant_way nt)"
  have "on_way (data_way nt) \<noteq> []" using assms(8) by (auto simp: data_first_def way_next_def)
  then obtain t p q where dw: "on_way (data_way nt) = (t, p) # q" by (cases "on_way (data_way nt)") auto
  have due: "homa_due k (data_way nt) (grant_way nt) (net_rcv nt) = None" "homa_due k (data_way nt) (grant_way nt) (net_snd nt) = None"
    using homa_going_due[OF assms(1-4)] by simp_all
  have first: "t \<le> fst x" if x: "x \<in> set ?gl" for x
  proof -
    obtain y l where yl: "?gl = y # l" using x by (cases ?gl) auto
    then have "t \<le> fst y" using assms(8) dw by (auto simp: data_first_def way_next_def)
    moreover have "fst y \<le> fst x" using x yl assms(2) by (auto simp: on_time_def)
    ultimately show ?thesis by simp
  qed
  have t: "t0 \<le> t" "t \<le> t0 + B" and pq: "paced B t q" and bd: "way_busy (data_way nt) = ends t q"
    using assms(2) by (simp_all add: on_time_def dw)
  have ts: "t < stopTime cr" using t assms(3,7) by linarith
  have fl: "flight k pr a (sSize f = 0) (p # map snd q)" and a: "0 \<le> a" using assms(1) by (simp_all add: homa_going_def dw)
  then have pc: "is_piece k pr a (sSize f = 0 \<and> q = []) p" and rest: "q \<noteq> [] \<longrightarrow> flight k pr (a + 1) (sSize f = 0) (map snd q)"
    by (simp_all add: flight_Cons)
  have R: "knows k pr (net_rcv nt) \<or> fresh k pr (net_rcv nt) \<and> contains ''homaUData'' (p_name p)"
    using assms(1) by (auto simp: homa_going_def dw)
  have tm0: "ho_timers (net_rcv nt) tm = None" if "tm \<noteq> Timeout k" for tm using assms(1) that by (auto simp: homa_going_def)
  have id: "ht_packetid (last (p_tags p)) = a" using pc by (simp add: is_piece_def)
  show thesis
  proof (cases "sSize f = 0 \<and> q = []")
    case True
    with pc have pT: "is_piece k pr a True p" by simp
    obtain R' es where r: "HOMA_handleMessage cr (t, HLower p) (net_rcv nt) = Inr (R', es)" "downs es = []" "ups es = [p]"
      "ho_timers R' = (ho_timers (net_rcv nt))(SendResend k := None, Timeout k := None)"
      by (rule receive_last[OF pT R a assms(9-11)])
    let ?nt = "nt\<lparr>data_way := (data_way nt)\<lparr>on_way := q\<rparr>, net_rcv := R'\<rparr>"
    have "homa_net_step lk cs cr k d nt = Inr (?nt, [p])"
      using due assms(8) r(1-3) by (simp add: homa_net_step_def dw receiver_does_def del: HOMA_handleMessage.simps)
    then show thesis by (rule that[OF dw _ t]) (use True id r(4) tm0 in auto)
  next
    case False
    with pc have pF: "is_piece k pr a False p" by (simp add: False)
    obtain R' es g where r: "HOMA_handleMessage cr (t, HLower p) (net_rcv nt) = Inr (R', es)" and kn: "knows k pr R'"
      and d: "downs es = [g]" "grant_for k pr g" "ups es = [p]" and tm: "ho_timers R' = (ho_timers (net_rcv nt))(Timeout k := Some (t + grant_timeout))"
      by (rule receive_more[OF pF R a assms(9) ts])
    let ?x = "max (t + grant_delay lk (way_sent (grant_way nt))) (way_busy (grant_way nt))"
    let ?nt = "nt\<lparr>data_way := (data_way nt)\<lparr>on_way := q\<rparr>, net_rcv := R',
      grant_way := \<lparr>on_way = ?gl @ [(?x, g)], way_sent = Suc (way_sent (grant_way nt)), way_busy = ?x\<rparr>\<rparr>"
    have st: "homa_net_step lk cs cr k d nt = Inr (?nt, [p])"
      using due assms(8) r d(1,3) by (simp add: homa_net_step_def dw receiver_does_def Let_def del: HOMA_handleMessage.simps)
    have dl: "0 \<le> grant_delay lk (way_sent (grant_way nt))" "grant_delay lk (way_sent (grant_way nt)) \<le> E"
      using assms(6) by (simp_all add: links_within_def)
    have gl: "sorted (map fst ?gl)" "\<forall>x\<in>set ?gl. fst x \<le> way_busy (grant_way nt)" "way_busy (grant_way nt) \<le> t0 + E"
      using assms(2) by (simp_all add: on_time_def)
    have "t \<le> ?x" "?x \<le> t + E" "way_busy (grant_way nt) \<le> ?x" using dl gl(3) t(1) by auto
    moreover from this(3) gl(2) have "\<forall>x\<in>set ?gl. fst x \<le> ?x" by (meson order_trans)
    ultimately have ot: "on_time B E t ?nt"
      using gl(1) pq bd first by (simp add: on_time_def sorted_append del: max.bounded_iff le_max_iff_disj)
    have tms: "ho_timers R' = (\<lambda>_. None)(Timeout k := Some (t + grant_timeout))" using tm tm0 by auto
    have going: "homa_going cs k pr (a + 1) t f ?nt"
      using assms(1) False rest kn tms d(2) by (auto simp: homa_going_def dw)
    show thesis by (rule that[OF dw st t]) (use False id going ot in auto)
  qed
qed

lemma homa_step_grant:
  assumes "homa_going cs k pr a t0 f nt" and "on_time B E t0 nt" and "B < grant_timeout" and "E < grant_timeout"
    and "links_within lk D G E" and "D + E \<le> B" and "G \<le> B" and "t0 + grant_timeout \<le> stopTime cs" and "\<not> data_first d nt"
  obtains f' nt' where "homa_net_step lk cs cr k d nt = Inr (nt', [])" and "homa_going cs k pr a t0 f' nt'" and "on_time B E t0 nt'"
    and "length (on_way (grant_way nt)) = Suc (length (on_way (grant_way nt')))"
    and "sum_list (map payload_of (map snd (on_way (data_way nt')))) + sSize f' = sum_list (map payload_of (map snd (on_way (data_way nt)))) + sSize f"
    and "length (on_way (data_way nt')) + packets (max_pck_size cs) (sSize f') = length (on_way (data_way nt)) + packets (max_pck_size cs) (sSize f)"
proof -
  let ?fl = "on_way (data_way nt)"
  have "on_way (grant_way nt) \<noteq> []"
    using assms(1,9) by (cases ?fl) (auto simp: homa_going_def data_first_def way_next_def split: if_splits)
  then obtain t g q where gl: "on_way (grant_way nt) = (t, g) # q" by (cases "on_way (grant_way nt)") auto
  have due: "homa_due k (data_way nt) (grant_way nt) (net_rcv nt) = None" "homa_due k (data_way nt) (grant_way nt) (net_snd nt) = None"
    using homa_going_due[OF assms(1-4)] by simp_all
  have t: "t0 \<le> t" "t \<le> t0 + E" using assms(2) by (auto simp: on_time_def gl)
  have ts: "t < stopTime cs" using t assms(4,8) by linarith
  have S: "homa_inv cs (net_snd nt)" "map_get (ho_senders (net_snd nt)) k = Some f" and g: "grant_for k pr g"
    and fl: "flight k pr a (sSize f = 0) (map snd ?fl)" and sq: "hs_pckseq f = a + int (length ?fl)"
    using assms(1) by (simp_all add: homa_going_def gl)
  have mx: "0 < max_pck_size cs" using S(1) by (simp add: homa_inv_def)
  have kn: "knows k pr (net_rcv nt) \<and> ho_timers (net_rcv nt) = (\<lambda>_. None)(Timeout k := Some (t0 + grant_timeout))"
    using assms(1) by (simp add: homa_going_def gl)
  from sender_on_grant[OF g S ts] obtain S' es f' where
    h: "HOMA_handleMessage cs (t, HLower g) (net_snd nt) = Inr (S', es)" and S': "homa_inv cs S'" "ho_timers S' = ho_timers (net_snd nt)"
      "map_get (ho_senders S') k = Some f'"
    and dn: "sSize f = 0 \<and> f' = f \<and> downs es = [] \<or>
      (\<exists>p. downs es = [p] \<and> 0 < sSize f \<and> payload_of p = (if sSize f > max_pck_size cs then max_pck_size cs else sSize f) \<and>
         sSize f' = sSize f - payload_of p \<and> hs_pckseq f' = hs_pckseq f + 1 \<and> is_piece k pr (hs_pckseq f) (sSize f' = 0) p)"
    by blast
  let ?dw = "way_put (data_delay lk) (data_gap lk) t (downs es) (data_way nt)"
  let ?nt = "nt\<lparr>grant_way := (grant_way nt)\<lparr>on_way := q\<rparr>, net_snd := S', data_way := ?dw\<rparr>"
  have st: "homa_net_step lk cs cr k d nt = Inr (?nt, [])"
    using due assms(9) h by (simp add: homa_net_step_def gl sender_does_def del: HOMA_handleMessage.simps)
  have pd: "paced B t0 ?fl" "way_busy (data_way nt) = ends t0 ?fl" using assms(2) by (simp_all add: on_time_def)
  have "t + D \<le> way_busy (data_way nt) + B" using t(2) assms(6) pd paced_ends[OF pd(1)] by simp
  then have "paced B t0 (on_way ?dw) \<and> way_busy ?dw = ends t0 (on_way ?dw)"
    by (intro way_put_paced[where D = D] pd) (use assms(5,7) in \<open>auto simp: links_within_def intro: order_trans\<close>)
  then have ot: "on_time B E t0 ?nt" using assms(2) by (simp add: on_time_def gl)
  have pk: "map snd (on_way ?dw) = map snd ?fl @ downs es" by simp
  then have ln: "length (on_way ?dw) = length ?fl + length (downs es)" by (metis length_append length_map)
  from dn have main: "flight k pr a (sSize f' = 0) (map snd ?fl @ downs es) \<and> hs_pckseq f' = a + int (length ?fl + length (downs es)) \<and>
      (?fl = [] \<longrightarrow> downs es \<noteq> []) \<and>
      sum_list (map payload_of (map snd ?fl @ downs es)) + sSize f' = sum_list (map payload_of (map snd ?fl)) + sSize f \<and>
      length ?fl + length (downs es) + packets (max_pck_size cs) (sSize f') = length ?fl + packets (max_pck_size cs) (sSize f)"
  proof
    assume "sSize f = 0 \<and> f' = f \<and> downs es = []"
    with fl sq show ?thesis by auto
  next
    assume "\<exists>p. downs es = [p] \<and> 0 < sSize f \<and> payload_of p = (if sSize f > max_pck_size cs then max_pck_size cs else sSize f) \<and>
       sSize f' = sSize f - payload_of p \<and> hs_pckseq f' = hs_pckseq f + 1 \<and> is_piece k pr (hs_pckseq f) (sSize f' = 0) p"
    then obtain p where p: "downs es = [p]" "0 < sSize f" "payload_of p = (if sSize f > max_pck_size cs then max_pck_size cs else sSize f)"
      "sSize f' = sSize f - payload_of p" "hs_pckseq f' = hs_pckseq f + 1" "is_piece k pr (hs_pckseq f) (sSize f' = 0) p" by blast
    from fl p(2) have "flight k pr a False (map snd ?fl)" by simp
    from flight_snoc[OF this, of "sSize f' = 0" p] p(6) sq have "flight k pr a (sSize f' = 0) (map snd ?fl @ [p])" by simp
    moreover have "packets (max_pck_size cs) (sSize f) = Suc (packets (max_pck_size cs) (sSize f'))"
      using packets_step[OF mx p(2)] p(3,4) by simp
    moreover have "payload_of p + sSize f' = sSize f" using p(4) by simp
    ultimately show ?thesis using p(1,5) sq by simp
  qed
  have ne: "on_way ?dw = [] \<longrightarrow> False" using main ln by (metis add_is_0 length_0_conv)
  have going: "homa_going cs k pr a t0 f' ?nt" using assms(1) S' main ln pk kn ne by (simp add: homa_going_def gl)
  show thesis by (rule that[OF st going ot]) (use main ln pk in \<open>simp_all add: gl\<close>)
qed

lemma homa_net_run:
  assumes "homa_going cs k pr a t0 f nt" and "on_time B E t0 nt" and "B < grant_timeout" and "E < grant_timeout" and "0 \<le> E"
    and "links_within lk D G E" and "D + E \<le> B" and "G \<le> B" and "0 \<le> pr" and "pr < 8"
    and "n = length (on_way (data_way nt)) + packets (max_pck_size cs) (sSize f)" and "a + int n \<le> 10000"
    and "t0 + (real n + 1) * grant_timeout \<le> stopTime cs" and "t0 + (real n + 1) * grant_timeout \<le> stopTime cr"
    and "2 * n + length (on_way (grant_way nt)) \<le> length ds"
  shows "\<exists>nt' up. run_out (homa_net_step lk cs cr k) ds nt = Inr (nt', up) \<and> homa_over k nt' \<and>
     sum_list (map payload_of up) = sum_list (map payload_of (map snd (on_way (data_way nt)))) + sSize f \<and>
     map (\<lambda>p. ht_packetid (last (p_tags p))) up = map (\<lambda>i. a + int i) [0..<length up]"
  using assms
proof (induction ds arbitrary: nt a t0 f n)
  case Nil
  then show ?case by (auto simp: homa_going_def)
next
  case (Cons d ds)
  note ot = Cons.prems(1,2) and gt = Cons.prems(3,4)
  have gp: "0 < grant_timeout" by (simp add: grant_timeout_def)
  then have "0 \<le> real n * grant_timeout" "(real n + 1) * grant_timeout = real n * grant_timeout + grant_timeout"
    by (simp_all add: distrib_right)
  then have st: "t0 + grant_timeout \<le> stopTime cs" "t0 + grant_timeout \<le> stopTime cr" using Cons.prems(13,14) by linarith+
  show ?case
  proof (cases "data_first d nt")
    case False
    obtain f' nt' where s: "homa_net_step lk cs cr k d nt = Inr (nt', [])" and i: "homa_going cs k pr a t0 f' nt'" "on_time B E t0 nt'"
      and l: "length (on_way (grant_way nt)) = Suc (length (on_way (grant_way nt')))"
      and sm: "sum_list (map payload_of (map snd (on_way (data_way nt')))) + sSize f' = sum_list (map payload_of (map snd (on_way (data_way nt)))) + sSize f"
      and n: "length (on_way (data_way nt')) + packets (max_pck_size cs) (sSize f') = length (on_way (data_way nt)) + packets (max_pck_size cs) (sSize f)"
      by (rule homa_step_grant[OF ot gt Cons.prems(6-8) st(1) False])
    have "2 * n + length (on_way (grant_way nt')) \<le> length ds" using Cons.prems(15) l by simp
    with Cons.IH[OF i Cons.prems(3-10) _ Cons.prems(12-14)] n Cons.prems(11) obtain nt'' up where
      r: "run_out (homa_net_step lk cs cr k) ds nt' = Inr (nt'', up)" "homa_over k nt''"
      "sum_list (map payload_of up) = sum_list (map payload_of (map snd (on_way (data_way nt')))) + sSize f'"
      "map (\<lambda>p. ht_packetid (last (p_tags p))) up = map (\<lambda>i. a + int i) [0..<length up]" by auto
    then show ?thesis using s sm by simp
  next
    case True
    have "data_first d nt \<Longrightarrow> on_way (data_way nt) \<noteq> []" by (auto simp: data_first_def way_next_def)
    with True Cons.prems(11,12) have a: "a < 10000" by (cases "on_way (data_way nt)") auto
    obtain t p q nt' where dw: "on_way (data_way nt) = (t, p) # q" and s: "homa_net_step lk cs cr k d nt = Inr (nt', [p])"
      and t: "t0 \<le> t" "t \<le> t0 + B" and nt': "on_way (data_way nt') = q" "net_snd nt' = net_snd nt"
      and id: "ht_packetid (last (p_tags p)) = a"
      and c: "sSize f = 0 \<and> q = [] \<and> (\<forall>tm. ho_timers (net_rcv nt') tm = None) \<and> on_way (grant_way nt') = on_way (grant_way nt) \<or>
        \<not> (sSize f = 0 \<and> q = []) \<and> homa_going cs k pr (a + 1) t f nt' \<and> on_time B E t nt' \<and>
        length (on_way (grant_way nt')) = Suc (length (on_way (grant_way nt)))"
      by (rule homa_step_data[OF ot gt Cons.prems(5,6) st(2) True a Cons.prems(9,10)])
    have numbered: "map (\<lambda>p. ht_packetid (last (p_tags p))) (p # up) = map (\<lambda>i. a + int i) [0..<length (p # up)]"
      if "map (\<lambda>p. ht_packetid (last (p_tags p))) up = map (\<lambda>i. a + 1 + int i) [0..<length up]" for up
    proof -
      have "map (\<lambda>i. a + 1 + int i) [0..<length up] = map (\<lambda>i. a + int i) (map Suc [0..<length up])" by (simp add: algebra_simps)
      then show ?thesis using that id by (simp add: map_Suc_upt upt_conv_Cons del: upt_Suc)
    qed
    from c show ?thesis
    proof
      assume c: "sSize f = 0 \<and> q = [] \<and> (\<forall>tm. ho_timers (net_rcv nt') tm = None) \<and> on_way (grant_way nt') = on_way (grant_way nt)"
      have gl: "\<forall>x\<in>set (on_way (grant_way nt)). grant_for k pr (snd x) \<and> fst x < stopTime cs"
        using ot st(1) gt(2) by (fastforce simp: homa_going_def on_time_def)
      have "\<exists>nt''. run_out (homa_net_step lk cs cr k) ds nt' = Inr (nt'', []) \<and> homa_over k nt''"
        by (rule homa_net_drain[where f = f and pr = pr])
          (use c gl nt' ot(1) Cons.prems(11,15) in \<open>auto simp: homa_going_def dw\<close>)
      then show ?thesis using s c id by (auto simp: dw)
    next
      assume c: "\<not> (sSize f = 0 \<and> q = []) \<and> homa_going cs k pr (a + 1) t f nt' \<and> on_time B E t nt' \<and>
        length (on_way (grant_way nt')) = Suc (length (on_way (grant_way nt)))"
      then have i: "homa_going cs k pr (a + 1) t f nt'" "on_time B E t nt'" by simp_all
      define m where "m = length (on_way (data_way nt')) + packets (max_pck_size cs) (sSize f)"
      have n: "n = Suc m" using Cons.prems(11) nt'(1) by (simp add: m_def dw)
      have am: "a + 1 + int m \<le> 10000" using Cons.prems(12) n by simp
      have "t + (real m + 1) * grant_timeout \<le> t0 + (real n + 1) * grant_timeout" using t(2) gt(1) n by (simp add: algebra_simps)
      then have e: "t + (real m + 1) * grant_timeout \<le> stopTime cs" "t + (real m + 1) * grant_timeout \<le> stopTime cr"
        using Cons.prems(13,14) by linarith+
      have "2 * m + length (on_way (grant_way nt')) \<le> length ds" using Cons.prems(15) c n by simp
      from Cons.IH[OF i Cons.prems(3-10) m_def am e this] obtain nt'' up where
        r: "run_out (homa_net_step lk cs cr k) ds nt' = Inr (nt'', up)" "homa_over k nt''"
        "sum_list (map payload_of up) = sum_list (map payload_of (map snd q)) + sSize f"
        "map (\<lambda>p. ht_packetid (last (p_tags p))) up = map (\<lambda>i. a + 1 + int i) [0..<length up]" by (auto simp: nt'(1))
      have "run_out (homa_net_step lk cs cr k) (d # ds) nt = Inr (nt'', p # up)" using s r(1) by simp
      moreover have "sum_list (map payload_of (p # up)) = sum_list (map payload_of (map snd (on_way (data_way nt)))) + sSize f"
        using r(3) by (simp add: dw)
      ultimately show ?thesis using r(2) numbered[OF r(4)] by blast
    qed
  qed
qed

lemma homa_net_start_ways:
  "length (on_way (data_way (homa_net_start lk now ps S R))) = length ps"
  "map snd (on_way (data_way (homa_net_start lk now ps S R))) = ps"
  "on_way (grant_way (homa_net_start lk now ps S R)) = []"
proof -
  show m: "map snd (on_way (data_way (homa_net_start lk now ps S R))) = ps" by (simp add: homa_net_start_def)
  show "length (on_way (data_way (homa_net_start lk now ps S R))) = length ps" using arg_cong[OF m, of length] by simp
qed (simp add: homa_net_start_def)

lemma homa_net_start_on_time:
  assumes "links_within lk D G E" and "D + E \<le> B" and "G \<le> B" and "0 \<le> E"
  shows "on_time B E now (homa_net_start lk now ps S R)"
proof -
  let ?w = "\<lparr>on_way = [], way_sent = 0, way_busy = now\<rparr>"
  have "paced B now (on_way (way_put (data_delay lk) (data_gap lk) now ps ?w)) \<and>
     way_busy (way_put (data_delay lk) (data_gap lk) now ps ?w) = ends now (on_way (way_put (data_delay lk) (data_gap lk) now ps ?w))"
    by (rule way_put_paced[where D = D]) (use assms in \<open>auto simp: links_within_def intro: order_trans\<close>)
  with assms(4) show ?thesis by (simp add: on_time_def homa_net_start_def)
qed

text \<open>The message is taken over, and its first packets are on their way.\<close>

lemma homa_net_begins:
  assumes "HOMA_initialize cs = Inr S0" and "0 < max_pck_size cs" and "0 \<le> baseRTT cs * linkspeed cs"
    and "\<forall>x\<in>set xs. homa_accepts cs x" and "run_out (HOMA_handleMessage cs) xs S0 = Inr (S, es0)"
    and "map_get (ho_senders S) k = None" and "activate cs" and "\<forall>tm. ho_timers S tm = None"
    and "homa_new (now, HUpper junk p) = Some k" and "p_tags p \<noteq> []"
    and "message_length (last (p_tags p)) \<le> 9998 * max_pck_size cs"
    and "map_get (ho_receivers R) k = None" and "\<exists>i<8. \<not> priorityUse R ! i" and "\<forall>tm. ho_timers R tm = None"
  obtains S1 ps f pr where "HOMA_handleMessage cs (now, HUpper junk p) S = Inr (S1, map HDown ps)" and "ps \<noteq> []"
    and "homa_going cs k pr 0 now f (homa_net_start lk now ps S1 R)" and "0 \<le> pr" and "pr < 8"
    and "int (length ps + packets (max_pck_size cs) (sSize f)) \<le> 10000"
    and "sum_list (map payload_of ps) + sSize f = message_length (last (p_tags p))"
proof -
  have i: "homa_inv cs S" by (rule homa_segments.inv_run[OF homa_init_inv[OF assms(1-3)] assms(4,5)])
  have d: "contains ''Data'' (p_name p)" "ht_flowid (last (p_tags p)) = k" using assms(9) by (auto split: if_splits)
  let ?f = "homa_new_flow junk (last (p_tags p)) p S" and ?m = "max_pck_size cs"
  let ?S = "S\<lparr>ho_senders := map_put k ?f (ho_senders S), ho_srcAddr := d_src p\<rparr>"
  have f: "hs_flowid ?f = k" "sendRtt ?f \<le> unsSize ?f" "0 \<le> sSize ?f" "hs_pckseq ?f = 0" "sendRtt ?f = 0"
    "unsSize ?f + sSize ?f = message_length (last (p_tags p))"
    using i d(2) by (auto simp: homa_new_flow_def Let_def homa_inv_def)
  have g: "map_get (ho_senders ?S) k = Some ?f" by (simp add: get_put)
  define pr where "pr = fst (take_priority R)"
  from assms(13) have "find_idx (\<lambda>i. \<not> priorityUse R ! i) [0..<8] \<noteq> None" by (auto simp: find_idx_None)
  then obtain j where "find_idx (\<lambda>i. \<not> priorityUse R ! i) [0..<8] = Some j" by blast
  then have pr: "0 \<le> pr" "pr < 8" using find_idx_Some by (fastforce simp: pr_def take_priority_def)+
  from homa_sends_run[OF g f(1,2) assms(2) f(3), of pr] obtain S1 ps where run: "homa_sends cs k ?S = Some (Inr (S1, map HDown ps))"
    and ne: "ps \<noteq> []" and same: "others_same k ?S S1" and e: "map_get (ho_senders S1) k = Some (?f\<lparr>sendRtt := unsSize ?f, hs_pckseq := hs_pckseq ?f + int (length ps)\<rparr>)"
    and fl: "flight k pr (hs_pckseq ?f) (sSize ?f = 0) ps"
    and un: "\<forall>p\<in>set ps. contains ''homaUData'' (p_name p) \<and> payload_of p \<le> ?m"
    and sm: "sum_list (map payload_of ps) = unsSize ?f - sendRtt ?f" and ln: "(int (length ps) - 1) * ?m \<le> unsSize ?f - sendRtt ?f"
    by blast
  have u: "HOMA_handleMessage cs (now, HUpper junk p) S = Inr (S1, map HDown ps)"
    using d assms(6,7) run by (simp add: HOMA_processUpperpck_def tag_of_truncate[OF assms(10)] Let_def HOMA_send_unschedule_def)
  have i1: "homa_inv cs S1" using upper_step[of cs junk p S S1 "map HDown ps" now k] u i d assms(7) by simp
  have "(int (length ps) - 1) * ?m + (int (packets ?m (sSize ?f)) - 1) * ?m \<le> 9998 * ?m"
    using ln packets_bound[OF assms(2) f(3)] f(5,6) assms(11) by linarith
  then have "(int (length ps + packets ?m (sSize ?f)) - 2) * ?m \<le> 9998 * ?m" by (simp add: algebra_simps)
  then have n: "int (length ps + packets ?m (sSize ?f)) \<le> 10000" using assms(2) by simp
  let ?f1 = "?f\<lparr>sendRtt := unsSize ?f, hs_pckseq := hs_pckseq ?f + int (length ps)\<rparr>"
  have w: "length (on_way (data_way (homa_net_start lk now ps S1 R))) = length ps" "map snd (on_way (data_way (homa_net_start lk now ps S1 R))) = ps"
    by (rule homa_net_start_ways)+
  then have hd: "contains ''homaUData'' (p_name (snd (hd (on_way (data_way (homa_net_start lk now ps S1 R))))))" "on_way (data_way (homa_net_start lk now ps S1 R)) \<noteq> []"
    using ne un by (metis hd_in_set hd_map list.map_disc_iff, auto)
  have tmS: "\<forall>tm. ho_timers S1 tm = None" using same assms(8) by (simp add: others_same_def)
  have fr: "fresh k pr R" using assms(12) by (simp add: fresh_def pr_def)
  have st: "net_snd (homa_net_start lk now ps S1 R) = S1" "net_rcv (homa_net_start lk now ps S1 R) = R"
    "on_way (grant_way (homa_net_start lk now ps S1 R)) = []" by (simp_all add: homa_net_start_def)
  have "homa_going cs k pr 0 now ?f1 (homa_net_start lk now ps S1 R)"
    using i1 e tmS fl f(4) w hd fr st assms(14) by (simp add: homa_going_def)
  then show thesis by (rule that[OF u ne _ pr]) (use n sm f(5,6) in simp_all)
qed

text \<open>C17: Over a network that loses and reorders nothing every message arrives, as long as the timeout of 20 microseconds is longer
  than a round trip: a data packet takes at most \<open>D\<close>, or comes at most \<open>G\<close> behind the one before it, a grant takes at most
  \<open>E\<close>, and \<open>D + E\<close> and \<open>G\<close> are below the timeout.  Every delay is the network's choice within that, and so is which of two
  packets arriving at the same time is first; a timer of the message that runs out before or with the next arrival
  fires.  A message of up to 9998 full packets, sent by a host in any reachable state to one that does not know it and
  has a free priority, is passed up completely and in order; then nothing is on its way, the sender is done with it and no timer is
  left.  It is alone: no timer is pending at the start at either host, and nothing else happens there; the simulation goes on for
  another 10001 timeouts.\<close>

theorem homa_lossless_completes:
  assumes "HOMA_initialize cs = Inr S0" and "0 < max_pck_size cs" and "0 \<le> baseRTT cs * linkspeed cs"
    and "\<forall>x\<in>set xs. homa_accepts cs x" and "run_out (HOMA_handleMessage cs) xs S0 = Inr (S, es0)"
    and "map_get (ho_senders S) k = None" and "activate cs" and "\<forall>tm. ho_timers S tm = None"
    and "homa_new (now, HUpper junk p) = Some k" and "p_tags p \<noteq> []"
    and "message_length (last (p_tags p)) \<le> 9998 * max_pck_size cs"
    and "map_get (ho_receivers R) k = None" and "\<exists>i<8. \<not> priorityUse R ! i" and "\<forall>tm. ho_timers R tm = None"
    and "links_within lk D G E" and "D + E < grant_timeout" and "G < grant_timeout"
    and "now + 10001 * grant_timeout \<le> stopTime cs" and "now + 10001 * grant_timeout \<le> stopTime cr" and "20000 \<le> length ds"
  shows "\<exists>S1 es nt up. HOMA_handleMessage cs (now, HUpper junk p) S = Inr (S1, es) \<and>
     run_out (homa_net_step lk cs cr k) ds (homa_net_start lk now (downs es) S1 R) = Inr (nt, up) \<and>
     on_way (data_way nt) = [] \<and> on_way (grant_way nt) = [] \<and> homa_left k (net_snd nt) = None \<and>
     (\<forall>tm. ho_timers (net_snd nt) tm = None) \<and> (\<forall>tm. ho_timers (net_rcv nt) tm = None) \<and>
     sum_list (map payload_of up) = message_length (last (p_tags p)) \<and>
     map (\<lambda>p. ht_packetid (last (p_tags p))) up = map int [0..<length up]"
proof -
  obtain S1 ps f pr where u: "HOMA_handleMessage cs (now, HUpper junk p) S = Inr (S1, map HDown ps)" and ne: "ps \<noteq> []"
    and going: "homa_going cs k pr 0 now f (homa_net_start lk now ps S1 R)" and pr: "0 \<le> pr" "pr < 8"
    and n: "int (length ps + packets (max_pck_size cs) (sSize f)) \<le> 10000"
    and sm: "sum_list (map payload_of ps) + sSize f = message_length (last (p_tags p))"
    by (rule homa_net_begins[OF assms(1-14)])
  have b: "0 \<le> D" "0 \<le> G" "0 \<le> E" using assms(15) order_trans unfolding links_within_def by blast+
  define B where "B = max (D + E) G"
  have B: "B < grant_timeout" "D + E \<le> B" "G \<le> B" and E: "E < grant_timeout" using assms(16,17) b by (auto simp: B_def)
  have ot: "on_time B E now (homa_net_start lk now ps S1 R)" by (rule homa_net_start_on_time[OF assms(15) B(2,3) b(3)])
  let ?n = "length ps + packets (max_pck_size cs) (sSize f)"
  have w: "length (on_way (data_way (homa_net_start lk now ps S1 R))) = length ps"
    "map snd (on_way (data_way (homa_net_start lk now ps S1 R))) = ps" "on_way (grant_way (homa_net_start lk now ps S1 R)) = []"
    by (rule homa_net_start_ways)+
  have "(real ?n + 1) * grant_timeout \<le> 10001 * grant_timeout" using n by (intro mult_right_mono) (simp_all add: grant_timeout_def)
  with assms(18,19) have e: "now + (real ?n + 1) * grant_timeout \<le> stopTime cs" "now + (real ?n + 1) * grant_timeout \<le> stopTime cr" by linarith+
  have "\<exists>nt up. run_out (homa_net_step lk cs cr k) ds (homa_net_start lk now ps S1 R) = Inr (nt, up) \<and> homa_over k nt \<and>
     sum_list (map payload_of up) = sum_list (map payload_of ps) + sSize f \<and>
     map (\<lambda>p. ht_packetid (last (p_tags p))) up = map (\<lambda>i. 0 + int i) [0..<length up]"
    using homa_net_run[OF going ot B(1) E b(3) assms(15) B(2,3) pr _ _ e, of ds] n w assms(20) by simp
  then show ?thesis using u sm by (auto simp: homa_over_def)
qed

text \<open>A link of 5 microseconds with a packet every microsecond, grants taking between 6 and 9 microseconds.\<close>

definition sample_links :: homa_links where
  "sample_links = \<lparr>data_delay = (\<lambda>_. 5 / 1000000), data_gap = (\<lambda>_. 1 / 1000000), grant_delay = (\<lambda>n. (if even n then 6 else 9) / 1000000)\<rparr>"

theorem homa_lossless_completes_witness:
  "\<exists>S1 es nt up. HOMA_handleMessage sample_homa (0, HUpper 0 (sample_homa_request 9 2500)) sample_homa_init = Inr (S1, es) \<and>
     run_out (homa_net_step sample_links sample_homa sample_homa 9) (replicate 20000 True)
       (homa_net_start sample_links 0 (downs es) S1 sample_homa_init) = Inr (nt, up) \<and>
     on_way (data_way nt) = [] \<and> sum_list (map payload_of up) = 2500"
proof -
  have lk: "links_within sample_links (5 / 1000000) (1 / 1000000) (9 / 1000000)"
    by (simp add: links_within_def sample_links_def)
  have run: "\<exists>S1 es nt up. HOMA_handleMessage sample_homa (0, HUpper 0 (sample_homa_request 9 2500)) sample_homa_init = Inr (S1, es) \<and>
     run_out (homa_net_step sample_links sample_homa sample_homa 9) (replicate 20000 True)
       (homa_net_start sample_links 0 (downs es) S1 sample_homa_init) = Inr (nt, up) \<and>
     on_way (data_way nt) = [] \<and> on_way (grant_way nt) = [] \<and> homa_left 9 (net_snd nt) = None \<and>
     (\<forall>tm. ho_timers (net_snd nt) tm = None) \<and> (\<forall>tm. ho_timers (net_rcv nt) tm = None) \<and>
     sum_list (map payload_of up) = message_length (last (p_tags (sample_homa_request 9 2500))) \<and>
     map (\<lambda>p. ht_packetid (last (p_tags p))) up = map int [0..<length up]"
    by (rule homa_lossless_completes[OF sample_homa_start, where xs = "[]" and k = 9, OF _ _ _ _ _ _ _ _ _ _ _ _ _ lk])
      (simp_all add: sample_homa_def sample_homa_init_def sample_homa_request_def message_length_def exI[of _ 0] grant_timeout_def)
  then show ?thesis by (auto simp: sample_homa_request_def message_length_def)
qed


definition long_homa :: homa_cfg where
  "long_homa = sample_homa\<lparr>max_pck_size := 1, baseRTT := 20000\<rparr>"

theorem homa_long_message_fails_witness:
  "\<exists>s' es q. run_out (HOMA_handleMessage long_homa) [(0, HUpper 0 (sample_homa_request 9 10001))]
       (sample_homa_init\<lparr>rttbytes := 20000\<rparr>) = Inr (s', es) \<and>
     HDown q \<in> set es \<and> \<not> is_ok (HOMA_handleMessage sample_homa (1, HLower q) sample_homa_init)"
proof -
  let ?p = "sample_homa_request 9 10001" and ?s = "sample_homa_init\<lparr>rttbytes := 20000\<rparr>"
  have st: "HOMA_initialize long_homa = Inr ?s"
    by (simp add: HOMA_initialize_def long_homa_def sample_homa_def sample_homa_init_def Let_def trunc_real_def)
  have c: "0 < max_pck_size long_homa" "0 \<le> baseRTT long_homa * linkspeed long_homa" "activate long_homa"
    by (simp_all add: long_homa_def sample_homa_def)
  have p: "homa_new (0, HUpper 0 ?p) = Some 9" "p_tags ?p \<noteq> []" "message_length (last (p_tags ?p)) = 10001"
    by (simp_all add: sample_homa_request_def message_length_def)
  have n: "map_get (ho_senders ?s) 9 = None" by (simp add: sample_homa_init_def)
  obtain s' ps where r: "run_out (HOMA_handleMessage long_homa) [(0, HUpper 0 ?p)] ?s = Inr (s', map HDown ps)"
    and l: "homa_left 9 s' = None"
    using homa_request_run[OF homa_init_inv[OF st c(1,2)] c(3) n p(1,2)] p(3) by auto
  have "10000 * max_pck_size long_homa < message_length (last (p_tags ?p))" using p(3) by (simp add: long_homa_def)
  from homa_long_message_fails[OF st c(1,2) _ _ n c(3) p(1) this r _ l, of "[]" "[]"]
  obtain q where "HDown q \<in> set (map HDown ps)" "\<forall>cfg' t r. \<not> is_ok (HOMA_handleMessage cfg' (t, HLower q) r)"
    by auto
  with r show ?thesis by blast
qed

definition sample_udata :: "int \<Rightarrow> bool \<Rightarrow> dgram" where
  "sample_udata n lst =
     \<lparr>p_id = 1, p_name = ''homaUData-9-'', p_len = 800, p_iface = 0, p_ecn = None,
      p_tags = [\<lparr>ht_flowid = 9, ht_priority = 0, ht_flowsize = 700, ht_cretime = 0, ht_packetid = n, ht_last = lst,
                 ht_queueid = 0, ht_decel = False, ht_speedup = False, ht_sender_priority = -1\<rparr>],
      p_bfc = None, p_ispause = None, d_src = 11, d_dest = 12, d_sport = 0, d_dport = 0, d_ecn = 0,
      d_recRate = 0, d_int = None, d_psd = None, d_sack = None, d_time = 0\<rparr>"

theorem homa_reordering_fails_witness:
  "is_ok (run_out (HOMA_handleMessage sample_homa) [(1, HLower (sample_udata 0 False)), (2, HLower (sample_udata 1 True))] sample_homa_init) \<and>
   \<not> is_ok (run_out (HOMA_handleMessage sample_homa) [(1, HLower (sample_udata 1 True)), (2, HLower (sample_udata 0 False))] sample_homa_init)"
proof
  show "is_ok (run_out (HOMA_handleMessage sample_homa) [(1, HLower (sample_udata 0 False)), (2, HLower (sample_udata 1 True))] sample_homa_init)"
    by (simp add: sample_udata_def sample_homa_def sample_homa_init_def HOMA_processLowerpck_def HOMA_receive_unscheduledata_def last_tag_def
        packet.truncate_def homa_new_rcv_def take_priority_def HOMA_send_grant_def rcv_at_def homa_finish_def free_priority_def Let_def upt_rec)
  show "\<not> is_ok (run_out (HOMA_handleMessage sample_homa) [(1, HLower (sample_udata 1 True)), (2, HLower (sample_udata 0 False))] sample_homa_init)"
    using homa_reordering_fails[of "sample_udata 1 True" sample_homa_init "sample_udata 0 False" sample_homa 1 "[]" 2]
    by (simp add: sample_udata_def sample_homa_init_def)
qed


subsection \<open>Timeouts\<close>

text \<open>
  The flags of an entry with timers are true or were never written; a timeout that runs belongs to such an entry.
\<close>

definition watched :: "u32 \<Rightarrow> homa \<Rightarrow> bool" where
  "watched k s \<longleftrightarrow> (\<exists>r. map_get (ho_receivers s) k = Some r \<and> has_timers r)"

definition flags_ok :: "homa_rcv \<Rightarrow> bool" where
  "flags_ok r \<longleftrightarrow> (has_timers r \<longrightarrow> RcvState r = GRANT_SENDING \<and> (\<forall>i. if_get r i \<noteq> Some False))"

definition flags_inv :: "homa \<Rightarrow> bool" where
  "flags_inv s \<longleftrightarrow> wf_map (ho_receivers s) \<and> (\<forall>k r. map_get (ho_receivers s) k = Some r \<longrightarrow> flags_ok r) \<and>
     (\<forall>k. ho_timers s (Timeout k) \<noteq> None \<longrightarrow> watched k s)"

lemma flags_cong: "ho_receivers t = ho_receivers s \<Longrightarrow> ho_timers t = ho_timers s \<Longrightarrow> flags_inv t = flags_inv s"
  by (simp add: flags_inv_def watched_def)

lemma flags_put:
  assumes "flags_inv s" and "flags_ok r" and "watched k s \<longrightarrow> has_timers r"
    and "ho_receivers t = map_put k r (ho_receivers s)" and "\<forall>j. ho_timers t (Timeout j) \<noteq> None \<longrightarrow> ho_timers s (Timeout j) \<noteq> None \<or> j = k \<and> has_timers r"
  shows "flags_inv t"
  using assms by (fastforce simp: flags_inv_def watched_def get_put wf_put)

lemma no_rcv_ok [simp]: "flags_ok no_rcv" "\<not> has_timers no_rcv"
  by (simp_all add: flags_ok_def no_rcv_def)

lemma flags_rcv_at:
  assumes "rcv_at k s = (r, t)" and "flags_inv s"
  shows "flags_inv t \<and> map_get (ho_receivers t) k = Some r \<and> ho_timers t = ho_timers s"
proof (cases "map_get (ho_receivers s) k")
  case None
  then have t: "r = no_rcv" "t = s\<lparr>ho_receivers := map_put k no_rcv (ho_receivers s)\<rparr>" using assms(1) by (simp_all add: rcv_at_def)
  have "flags_inv t" by (rule flags_put[OF assms(2), of no_rcv k]) (use None in \<open>auto simp: t watched_def\<close>)
  then show ?thesis by (simp add: t get_put)
qed (use assms in \<open>auto simp: rcv_at_def\<close>)

lemma flags_grant:
  assumes "HOMA_send_grant cfg now k s = Inr (t, es)" and "flags_inv s"
  shows "flags_inv t"
proof -
  obtain r s1 where m: "rcv_at k s = (r, s1)" by fastforce
  note i = flags_rcv_at[OF m assms(2)]
  have ht: "has_timers r" using assms(1) m by (auto simp: HOMA_send_grant_def Let_def split: if_splits)
  then have ok: "flags_ok (r\<lparr>now_send_grt_seq := n\<rparr>)" for n using i by (auto simp: flags_inv_def flags_ok_def)
  show ?thesis
  proof (cases "now < stopTime cfg")
    case True
    with assms(1) m ht have t: "t = s1\<lparr>ho_receivers := map_put k (r\<lparr>now_send_grt_seq := now_send_grt_seq r + 1\<rparr>) (ho_receivers s1),
        ho_timers := (ho_timers s1)(Timeout k := Some (now + grant_timeout))\<rparr>"
      by (simp add: HOMA_send_grant_def Let_def)
    show ?thesis by (rule flags_put[OF conjunct1[OF i] ok]) (use ht in \<open>auto simp: t\<close>)
  next
    case False
    with assms(1) m ht have "t = s1\<lparr>ho_timers := (ho_timers s1)(Timeout k := None)\<rparr>" by (simp add: HOMA_send_grant_def Let_def)
    with i show ?thesis by (auto simp: flags_inv_def watched_def)
  qed
qed

lemma flags_finish:
  assumes "homa_finish k prio r s = Inr (t, es)" and "flags_inv s"
  shows "flags_inv t"
proof -
  from assms(1) obtain p where t: "t = s\<lparr>priorityUse := p, ho_timers := (ho_timers s)(SendResend k := None, Timeout k := None),
      ho_receivers := map_erase k (ho_receivers s)\<rparr>"
    by (auto simp: homa_finish_def free_priority_def rbind_eq_Inr split: if_splits)
  have w: "wf_map (ho_receivers s)" using assms(2) by (simp add: flags_inv_def)
  have g: "map_get (ho_receivers t) j = (if j = k then None else map_get (ho_receivers s) j)"
    and m: "ho_timers t (Timeout j) = (if j = k then None else ho_timers s (Timeout j))" for j
    by (simp_all add: t get_erase[OF w])
  have "wf_map (ho_receivers t)" using w by (simp add: t wf_erase)
  moreover have "\<forall>j r. map_get (ho_receivers t) j = Some r \<longrightarrow> flags_ok r" using assms(2) by (simp add: g flags_inv_def)
  moreover have "watched j t" if "ho_timers t (Timeout j) \<noteq> None" for j
  proof -
    have "j \<noteq> k" "ho_timers s (Timeout j) \<noteq> None" using that by (auto simp: m split: if_splits)
    then have "watched j s" using assms(2) by (simp add: flags_inv_def)
    with \<open>j \<noteq> k\<close> show ?thesis by (simp add: watched_def g)
  qed
  ultimately show ?thesis by (simp add: flags_inv_def)
qed

lemma flags_udata:
  assumes "HOMA_receive_unscheduledata cfg now p s = Inr (t, es)" and "flags_inv s"
  shows "flags_inv t"
proof -
  have tags: "p_tags p \<noteq> []"
    using assms(1) by (auto simp: HOMA_receive_unscheduledata_def last_tag_def packet.truncate_def split: if_splits)
  let ?tag = "last (p_tags p)" and ?s0 = "s\<lparr>ho_srcAddr := d_dest p\<rparr>"
  let ?j = "ht_flowid ?tag" and ?n = "ht_packetid ?tag"
  obtain r0 s1 where m: "(case map_get (ho_receivers ?s0) ?j of Some r \<Rightarrow> (r, ?s0) | None \<Rightarrow> homa_new_rcv ?j (d_src p) ?s0) = (r0, s1)"
    by fastforce
  then have rc: "ho_receivers s1 = ho_receivers s" "ho_timers s1 = ho_timers s"
    by (auto simp: homa_new_rcv_def take_priority_def split: option.splits)
  have i1: "flags_inv s1" using assms(2) flags_cong[OF rc] by simp
  let ?r = "r0\<lparr>now_received_data_seq := ?n, now_send_grt_seq := -1, if_get := (if_get r0)(nat ?n := Some True)\<rparr>"
  have fl: "has_timers r0 \<longrightarrow> (\<forall>i. if_get r0 i \<noteq> Some False)" and w: "watched ?j s \<longrightarrow> has_timers r0"
    using m assms(2) by (auto simp: homa_new_rcv_def flags_inv_def flags_ok_def watched_def split: option.splits prod.splits)
  show ?thesis
  proof (cases "ht_last ?tag")
    case True
    with assms(1) m obtain s2 fs where f: "homa_finish ?j (SenderPriority ?r) ?r s1 = Inr (s2, fs)" and t: "t = snd (rcv_at ?j s2)"
      by (auto simp: HOMA_receive_unscheduledata_def tag_of_truncate[OF tags] rbind_eq_Inr Let_def split: if_splits)
    from flags_rcv_at[of ?j s2 "fst (rcv_at ?j s2)" t] flags_finish[OF f i1] show ?thesis by (simp add: t)
  next
    case False
    let ?s1 = "s1\<lparr>ho_receivers := map_put ?j (?r\<lparr>RcvState := GRANT_SENDING\<rparr>) (ho_receivers s1)\<rparr>"
    from False assms(1) m obtain fs where g: "HOMA_send_grant cfg now ?j ?s1 = Inr (t, fs)"
      by (auto simp: HOMA_receive_unscheduledata_def tag_of_truncate[OF tags] rbind_eq_Inr Let_def split: if_splits)
    have "flags_inv ?s1"
      by (rule flags_put[OF i1, of "?r\<lparr>RcvState := GRANT_SENDING\<rparr>" ?j]) (use fl w rc in \<open>auto simp: flags_ok_def watched_def\<close>)
    from flags_grant[OF g this] show ?thesis .
  qed
qed

lemma flags_sdata:
  assumes "HOMA_receive_scheduledata cfg now p s = Inr (t, es)" and "flags_inv s"
  shows "flags_inv t"
proof -
  obtain tag where tag: "last_tag (packet.truncate p) = Inr tag"
    using assms by (auto simp: HOMA_receive_scheduledata_def rbind_eq_Inr)
  let ?j = "ht_flowid tag" and ?n = "ht_packetid tag"
  obtain r0 where m: "map_get (ho_receivers s) ?j = Some r0"
    using assms tag by (cases "map_get (ho_receivers s) ?j") (auto simp: HOMA_receive_scheduledata_def)
  let ?r = "r0\<lparr>now_received_data_seq := ?n, if_get := (if_get r0)(nat ?n := Some True)\<rparr>"
  let ?s1 = "s\<lparr>ho_receivers := map_put ?j ?r (ho_receivers s)\<rparr>"
  have i1: "flags_inv ?s1"
    by (rule flags_put[OF assms(2), of ?r ?j]) (use m assms(2) in \<open>auto simp: flags_ok_def flags_inv_def watched_def\<close>)
  consider (fin) fs where "homa_finish ?j (ht_priority tag) ?r s = Inr (t, fs)"
    | (grant) fs where "HOMA_send_grant cfg now ?j ?s1 = Inr (t, fs)" | (none) "t = ?s1"
    using assms(1) tag m by (auto simp: HOMA_receive_scheduledata_def rbind_eq_Inr Let_def split: if_splits)
  then show ?thesis by cases (use flags_finish[OF _ assms(2)] flags_grant[OF _ i1] i1 in auto)
qed

lemma flags_resend: "HOMA_send_resend now k n s = Inr (t, es) \<Longrightarrow> flags_inv s \<Longrightarrow> flags_inv t"
  by (cases "rcv_at k s") (auto simp: HOMA_send_resend_def dest: flags_rcv_at)

lemma flags_busy:
  assumes "HOMA_receive_busy now p s = Inr (t, es)" and "flags_inv s"
  shows "flags_inv t"
proof -
  obtain tag where tag: "last_tag (packet.truncate p) = Inr tag" using assms(1) by (auto simp: HOMA_receive_busy_def rbind_eq_Inr)
  obtain r s1 where m: "rcv_at (ht_flowid tag) s = (r, s1)" by fastforce
  with assms(1) tag have t: "ho_receivers t = ho_receivers s1" "\<And>j. ho_timers t (Timeout j) = ho_timers s1 (Timeout j)"
    by (auto simp: HOMA_receive_busy_def Let_def split: if_splits)
  from flags_rcv_at[OF m assms(2)] show ?thesis by (simp add: flags_inv_def watched_def t)
qed

lemma flags_step:
  assumes "HOMA_handleMessage cfg x s = Inr (t, es)" and "flags_inv s"
  shows "flags_inv t"
proof -
  obtain now e where x: "x = (now, e)" by (cases x)
  show ?thesis
  proof (cases e)
    case (HUpper junk p)
    with assms(1) x have u: "HOMA_processUpperpck cfg junk p s = Inr (t, es)" by simp
    have "ho_receivers t = ho_receivers s \<and> ho_timers t = ho_timers s"
      using u by (auto simp: HOMA_processUpperpck_def Let_def rbind_eq_Inr split: if_splits dest!: sends_receivers)
    with assms(2) flags_cong[of t s] show ?thesis by simp
  next
    case (HFire tm)
    let ?s = "s\<lparr>ho_timers := (ho_timers s)(tm := None)\<rparr>"
    have g: "flags_inv ?s" using assms(2) by (auto simp: flags_inv_def watched_def)
    show ?thesis
    proof (cases "ho_timers s tm = None")
      case False
      with assms(1) x HFire have h: "HOMA_handleSelfMessage cfg now tm ?s = Inr (t, es)" by simp
      show ?thesis
      proof (cases tm)
        case (SendUnschedule j)
        with h sends_receivers[of cfg j ?s t es] flags_cong[of t ?s] g show ?thesis by simp
      next
        case (SendBusy j)
        with h have "ho_receivers t = ho_receivers ?s" "ho_timers t = ho_timers ?s" by (auto simp: HOMA_send_busy_def split: option.splits)
        with flags_cong[of t ?s] g show ?thesis by simp
      next
        case (SendResend j)
        with h have "HOMA_send_resend now j (timer_seq ?s (SendResend j)) ?s = Inr (t, es)" by simp
        then show ?thesis using g by (rule flags_resend)
      next
        case (Timeout j)
        with h have "HOMA_time_out now j ?s = Inr (t, es)" by simp
        then have "t = ?s \<or> (\<exists>i. HOMA_send_resend now j i ?s = Inr (t, es))"
          by (auto simp: HOMA_time_out_def rbind_eq_Inr split: option.splits if_splits)
        then show ?thesis using g flags_resend by blast
      qed
    qed (use assms x HFire in simp)
  next
    case (HLower p)
    with assms(1) x have h: "HOMA_processLowerpck cfg now p s = Inr (t, es)" by simp
    have grant: "HOMA_receive_grant cfg now p s = Inr (t, es) \<Longrightarrow> flags_inv t"
      using assms(2) flags_cong[of t s] grant_receivers[of cfg now p s t es] by simp
    have rs: "HOMA_receive_resend cfg now p s = Inr (t, es) \<Longrightarrow> flags_inv t"
      using assms(2) by (auto simp: HOMA_receive_resend_def rbind_eq_Inr split: option.splits)
    show ?thesis
      using h assms(2) by (auto simp: HOMA_processLowerpck_def split: if_splits
        intro: grant rs flags_busy flags_udata flags_sdata)
  qed
qed

interpretation homa_flags: machine "HOMA_handleMessage cfg" flags_inv "\<lambda>_. True" for cfg
  by unfold_locales (rule flags_step)

lemma first_missing_fails: "\<forall>i. got i \<noteq> Some False \<Longrightarrow> 10000 \<in> set is \<Longrightarrow> \<not> is_ok (first_missing got is)"
  by (induction got "is" rule: first_missing.induct) (auto split: option.splits bool.splits)

text \<open>C20: There is no recovery of a loss.  In every state a host can reach, whatever has come, a timeout of a message that runs out
  is an error: the flag of the first missing packet was never written, so what is read is not defined.\<close>

theorem homa_timeout_fails:
  assumes "HOMA_initialize cfg = Inr s0" and "run_out (HOMA_handleMessage cfg) xs s0 = Inr (s, es)"
    and "ho_timers s (Timeout k) \<noteq> None"
  shows "\<not> is_ok (HOMA_handleMessage cfg (now, HFire (Timeout k)) s)"
proof -
  have "flags_inv s0" using assms(1) by (auto simp: HOMA_initialize_def Let_def flags_inv_def split: if_splits)
  from homa_flags.inv_run[OF this _ assms(2)] have i: "flags_inv s" by simp
  let ?s = "s\<lparr>ho_timers := (ho_timers s)(Timeout k := None)\<rparr>"
  obtain r where r: "map_get (ho_receivers s) k = Some r" "has_timers r"
    using i assms(3) by (auto simp: flags_inv_def watched_def)
  with i have "RcvState r = GRANT_SENDING" "\<forall>i. if_get r i \<noteq> Some False" by (auto simp: flags_inv_def flags_ok_def)
  with first_missing_fails[of "if_get r" "[0..<10001]"] have f: "\<not> is_ok (first_missing (if_get r) [0..<10001])" and st: "RcvState r \<noteq> GRANT_STOP"
    by (simp_all del: upt_Suc)
  have "\<not> is_ok (HOMA_time_out now k ?s)"
    using f st r(1) by (cases "first_missing (if_get r) [0..<10001]") (simp_all add: HOMA_time_out_def del: upt_Suc)
  then show ?thesis using assms(3) by simp
qed

theorem homa_timeout_fails_witness:
  "\<exists>s es. run_out (HOMA_handleMessage sample_homa) [(1, HLower (sample_udata 0 False))] sample_homa_init = Inr (s, es) \<and>
     ho_timers s (Timeout 9) = Some (1 + 2 / 100000) \<and>
     \<not> is_ok (HOMA_handleMessage sample_homa (1 + 2 / 100000, HFire (Timeout 9)) s)"
proof -
  obtain s es where r: "run_out (HOMA_handleMessage sample_homa) [(1, HLower (sample_udata 0 False))] sample_homa_init = Inr (s, es)"
    and t: "ho_timers s (Timeout 9) = Some (1 + 2 / 100000)"
    by (simp add: sample_udata_def sample_homa_def sample_homa_init_def HOMA_processLowerpck_def HOMA_receive_unscheduledata_def last_tag_def
        packet.truncate_def homa_new_rcv_def take_priority_def HOMA_send_grant_def rcv_at_def grant_timeout_def Let_def upt_rec)
  with homa_timeout_fails[OF sample_homa_start r, of 9] show ?thesis by auto
qed

text \<open>A packet that is sent again is not taken for one: the receiver passes it up as it is.\<close>

lemma homa_repetition_not_taken:
  assumes "HOMA_receive_resend cfg now p s = Inr (s', es)"
  shows "s' = s \<and> (\<exists>q. es = [HDown q] \<and> (\<forall>cfg' t r. HOMA_handleMessage cfg' (t, HLower q) r = Inr (r, [HUp q])))"
proof -
  obtain tag where tag: "last_tag (packet.truncate p) = Inr tag" using assms by (auto simp: HOMA_receive_resend_def rbind_eq_Inr)
  obtain f where f: "map_get (ho_senders s) (ht_flowid tag) = Some f"
    using assms tag by (cases "map_get (ho_senders s) (ht_flowid tag)") (auto simp: HOMA_receive_resend_def)
  from assms tag f obtain q where q: "s' = s" "es = [HDown q]"
    "p_name q = ''homaScheduleData-'' @ int_digits (sint (ht_flowid tag)) @ ''-'' @ int_digits (ht_packetid tag)"
    by (auto simp: HOMA_receive_resend_def)
  have "HOMA_processLowerpck cfg' t q r = Inr (r, [HUp q])" for cfg' t r
    unfolding HOMA_processLowerpck_def q(3) using schedule_not_data[of "sint (ht_flowid tag)" "ht_packetid tag"] by simp
  with q show ?thesis by simp
qed

end
