(* ===== verification/Backpressure_Senders.thy ===== *)
theory Backpressure_Senders
  imports Flow_Steps
begin

section \<open>The senders of the backpressure schemes\<close>

text \<open>
  \<open>HiNA/CC/BFC\<close> and \<open>HiNA/CC/BCN\<close>: the same module but for its name and what it does with what comes from
  below.  Data for a flow that is being sent is added to it, and the tag of a packet carries the queue and the
  size of its flow.  A BCN sender changes its rate when a router tells it to.  Of an entry the fields \<open>alpha\<close>,
  \<open>flow_maxTxRate\<close> and the step counters are never read, nor are most of the parameters; they are left out.
\<close>

record bp_cfg =
  activate :: bool
  stopTime :: simtime
  linkspeed :: double
  initialrate :: double
  max_pck_size :: int

record bp_flow = rated_flow +
  targetRate :: double
  flow_queueid :: u32
  flow_size :: u64

type_synonym bp = "bp_flow sender"

definition bp_initialize :: bp where
  "bp_initialize =
     \<lparr>sender_flowMap = [], iter = None, SenderState = STOPPING, timers = (\<lambda>_. None), lastflowid = -1,
      last_creation_time = 0, srcAddr = 0\<rparr>"

subsection \<open>Sending\<close>

text \<open>A new flow has the bytes below the UDP header; those of a flow that is there are counted with it.\<close>

definition bp_new_flow :: "bp_cfg \<Rightarrow> hitag \<Rightarrow> dgram \<Rightarrow> bp_flow" where
  "bp_new_flow cfg tag pck =
     \<lparr>flowid = ht_flowid tag, remainLength = payload_of pck, cretime = ht_cretime tag, destAddr = d_dest pck,
      srcPort = d_sport pck, destPort = d_dport pck, flowPriority = ht_priority tag, pckseq = 0,
      currentRate = linkspeed cfg * initialrate cfg, targetRate = linkspeed cfg * initialrate cfg,
      flow_queueid = ht_queueid tag, flow_size = ht_flowsize tag\<rparr>"

definition bp_grow :: "dgram \<Rightarrow> bp \<Rightarrow> bp" where
  "bp_grow pck s =
     (if p_tags pck = [] then s
      else
        let k = ht_flowid (last (p_tags pck)) in
        case map_get (sender_flowMap s) k of
          None \<Rightarrow> s
        | Some f \<Rightarrow> put_flow k (f\<lparr>remainLength := remainLength f + bytes_of (p_bits pck)\<rparr>) s)"

definition bp_upper :: "bp_cfg \<Rightarrow> simtime \<Rightarrow> dgram \<Rightarrow> bp \<Rightarrow> (bp \<times> cc_effect list) res" where
  "bp_upper cfg now pck s =
     sender_upper (activate cfg) (bp_new_flow cfg) now pck
       (if contains ''Data'' (p_name pck) \<and> activate cfg then bp_grow pck s else s)"

text \<open>The creation time is the time at which the sender last switched flows.\<close>

definition bp_note :: "simtime \<Rightarrow> bp_flow \<Rightarrow> bp \<Rightarrow> bp" where
  "bp_note now f s = note_flow (f\<lparr>cretime := now\<rparr>) s"

definition bp_packet :: "string \<Rightarrow> bp \<Rightarrow> bp_flow \<Rightarrow> int \<Rightarrow> int \<Rightarrow> dgram" where
  "bp_packet nm s f pcklength rest =
     (let p = data_packet nm s f pcklength rest
      in p\<lparr>p_tags := map (\<lambda>t. t\<lparr>ht_queueid := flow_queueid f, ht_flowsize := flow_size f\<rparr>) (p_tags p)\<rparr>)"

definition bp_send_data :: "string \<Rightarrow> bp_cfg \<Rightarrow> simtime \<Rightarrow> bp \<Rightarrow> (bp \<times> cc_effect list) res" where
  "bp_send_data packetName cfg now s =
     (case iter s of
        None \<Rightarrow> Inl EndIterator
      | Some it \<Rightarrow>
        case map_get (sender_flowMap s) it of
          None \<Rightarrow> Inl EndIterator
        | Some f \<Rightarrow>
          let (pcklength, rest) = segment (max_pck_size cfg) (remainLength f);
              s1 = bp_note now f s;
              packet = bp_packet packetName s1 f pcklength rest;
              s2 = advance_flow it (f\<lparr>remainLength := rest, pckseq := pckseq f + 1\<rparr>) rest s1
          in rbind (nxtSendTime now (bytes_of (p_bits packet)) (currentRate f)) (\<lambda>t.
             rbind (scheduleAt SendDataTimer now t s2) (\<lambda>s3.
               Inr (s3, [Arm SendDataTimer t, SendDown packet]))))"

definition bp_timer :: "string \<Rightarrow> bp_cfg \<Rightarrow> simtime \<Rightarrow> bp \<Rightarrow> (bp \<times> cc_effect list) res" where
  "bp_timer packetName cfg now s =
     (if sender_flowMap s = [] \<or> now \<ge> stopTime cfg then Inr (s\<lparr>SenderState := STOPPING\<rparr>, [])
      else bp_send_data packetName cfg now s)"

text \<open>The module, given its name and what it does with a packet from below.\<close>

fun bp_handle ::
    "string \<Rightarrow> (dgram \<Rightarrow> bp \<Rightarrow> (bp \<times> cc_effect list) res) \<Rightarrow> bp_cfg \<Rightarrow> simtime \<times> cc_op \<Rightarrow> bp \<Rightarrow> (bp \<times> cc_effect list) res" where
  "bp_handle nm low cfg (now, Fire tm) s =
     (if timers s tm = None then Inr (s, [])
      else
        let s1 = s\<lparr>timers := (timers s)(tm := None)\<rparr>
        in if tm = SendDataTimer then bp_timer nm cfg now s1 else Inr (s1, []))"
| "bp_handle nm low cfg (now, Upper pck) s = bp_upper cfg now pck s"
| "bp_handle nm low cfg (now, Lower pck) s = low pck s"

subsection \<open>BFC\<close>

definition BFC_initialize :: bp where
  "BFC_initialize = bp_initialize"

definition BFC_processUpperpck :: "bp_cfg \<Rightarrow> simtime \<Rightarrow> dgram \<Rightarrow> bp \<Rightarrow> (bp \<times> cc_effect list) res" where
  "BFC_processUpperpck = bp_upper"

definition BFC_send_data :: "bp_cfg \<Rightarrow> simtime \<Rightarrow> bp \<Rightarrow> (bp \<times> cc_effect list) res" where
  "BFC_send_data = bp_send_data ''BFC''"

text \<open>A \<open>routerCNP\<close> is taken without effect; all else goes up.\<close>

definition BFC_receive_data :: "dgram \<Rightarrow> bp \<Rightarrow> (bp \<times> cc_effect list) res" where
  "BFC_receive_data pck s = Inr (s, [SendUp pck])"

definition BFC_processLowerpck :: "dgram \<Rightarrow> bp \<Rightarrow> (bp \<times> cc_effect list) res" where
  "BFC_processLowerpck pck s =
     (if p_name pck = ''routerCNP'' then Inr (s, [])
      else if contains ''BFC'' (p_name pck) then BFC_receive_data pck s
      else Inr (s, [SendUp pck]))"

definition BFC_handleMessage :: "bp_cfg \<Rightarrow> simtime \<times> cc_op \<Rightarrow> bp \<Rightarrow> (bp \<times> cc_effect list) res" where
  "BFC_handleMessage = bp_handle ''BFC'' BFC_processLowerpck"

subsection \<open>BCN\<close>

definition BCN_initialize :: bp where
  "BCN_initialize = bp_initialize"

definition BCN_processUpperpck :: "bp_cfg \<Rightarrow> simtime \<Rightarrow> dgram \<Rightarrow> bp \<Rightarrow> (bp \<times> cc_effect list) res" where
  "BCN_processUpperpck = bp_upper"

definition BCN_send_data :: "bp_cfg \<Rightarrow> simtime \<Rightarrow> bp \<Rightarrow> (bp \<times> cc_effect list) res" where
  "BCN_send_data = bp_send_data ''BCN''"

definition BCN_receive_data :: "dgram \<Rightarrow> bp \<Rightarrow> (bp \<times> cc_effect list) res" where
  "BCN_receive_data pck s = Inr (s, [SendUp pck])"

text \<open>
  Less than half of the flow is left: an \<open>int64_t\<close> against a \<open>uint64_t\<close>, compared as \<open>uint64_t\<close>.
\<close>

definition below_half :: "bp_flow \<Rightarrow> bool" where
  "below_half f \<longleftrightarrow> (word_of_int (remainLength f) :: u64) < flow_size f div 2"

definition bcn_decelerate :: "bp_flow \<Rightarrow> bp_flow" where
  "bcn_decelerate f =
     f\<lparr>targetRate := currentRate f, currentRate := currentRate f * (if below_half f then 95 / 100 else 99 / 100)\<rparr>"

definition bcn_speedup :: "bp_flow \<Rightarrow> bp_flow" where
  "bcn_speedup f = f\<lparr>currentRate := targetRate f * (if below_half f then 1 else 12 / 10)\<rparr>"

definition BCN_receive_bfccnp :: "dgram \<Rightarrow> bp \<Rightarrow> (bp \<times> cc_effect list) res" where
  "BCN_receive_bfccnp pck s =
     rbind (last_tag (packet.truncate pck)) (\<lambda>tag.
       case map_get (sender_flowMap s) (ht_flowid tag) of
         None \<Rightarrow> Inr (s, [])
       | Some f \<Rightarrow>
           Inr (if (word_of_int (remainLength f) :: u64) = 0 then s
                else put_flow (ht_flowid tag)
                       (if ht_decel tag then bcn_decelerate f else if ht_speedup tag then bcn_speedup f else f) s, []))"

definition BCN_processLowerpck :: "dgram \<Rightarrow> bp \<Rightarrow> (bp \<times> cc_effect list) res" where
  "BCN_processLowerpck pck s =
     (if contains ''routerCNP'' (p_name pck) then BCN_receive_bfccnp pck s
      else if contains ''BCN'' (p_name pck) then BCN_receive_data pck s
      else Inr (s, [SendUp pck]))"

definition BCN_handleMessage :: "bp_cfg \<Rightarrow> simtime \<times> cc_op \<Rightarrow> bp \<Rightarrow> (bp \<times> cc_effect list) res" where
  "BCN_handleMessage = bp_handle ''BCN'' BCN_processLowerpck"

subsection \<open>Segmentation\<close>

definition bp_flow_ok :: "u32 \<Rightarrow> bp_flow \<Rightarrow> bool" where
  "bp_flow_ok k f \<longleftrightarrow> flowid f = k \<and> 0 \<le> remainLength f \<and> 0 < currentRate f \<and> 0 < targetRate f"

definition bp_cfg_ok :: "bp_cfg \<Rightarrow> bool" where
  "bp_cfg_ok cfg \<longleftrightarrow> 0 < max_pck_size cfg \<and> 0 < linkspeed cfg * initialrate cfg"

definition bp_inv :: "bp_cfg \<Rightarrow> bp \<Rightarrow> bool" where
  "bp_inv cfg s \<longleftrightarrow> bp_cfg_ok cfg \<and> sender_inv bp_flow_ok s"

text \<open>What comes from above: a UDP header at least, and no name of the module's own packets unless it is data.\<close>

fun bp_accepts :: "string \<Rightarrow> bp_cfg \<Rightarrow> simtime \<times> cc_op \<Rightarrow> bool" where
  "bp_accepts nm cfg (now, Upper p) \<longleftrightarrow>
     activate cfg \<and> 0 \<le> payload_of p \<and> (starts_with nm (p_name p) \<longrightarrow> contains ''Data'' (p_name p))"
| "bp_accepts nm cfg (now, _) \<longleftrightarrow> activate cfg"

lemma bp_packet_sent [simp]:
  "sent_for nm j [SendDown (bp_packet nm s f len rest)] = sent_for nm j [SendDown (data_packet nm s f len rest)]"
  by (simp add: bp_packet_def Let_def data_packet_def payload_of_def)

lemma bp_grow_inv: "bp_inv cfg s \<Longrightarrow> bp_inv cfg (bp_grow p s)"
  by (auto simp: bp_grow_def bp_inv_def bp_flow_ok_def Let_def intro!: sender_inv_put dest: sender_inv_entry split: option.splits)

lemma bp_grow_left: "p_tags p \<noteq> [] \<Longrightarrow> ht_flowid (last (p_tags p)) \<noteq> j \<Longrightarrow> left_of j (bp_grow p s) = left_of j s"
  by (auto simp: bp_grow_def Let_def left_of_def get_put split: option.splits)

lemma bp_upper_inv:
  assumes "bp_upper cfg now p s = Inr (s', es)" and "bp_inv cfg s" and "0 \<le> payload_of p"
  shows "bp_inv cfg s'"
proof -
  define s0 where "s0 = (if contains ''Data'' (p_name p) \<and> activate cfg then bp_grow p s else s)"
  have i: "bp_inv cfg s0" using assms(2) bp_grow_inv by (simp add: s0_def)
  have u: "sender_upper (activate cfg) (bp_new_flow cfg) now p s0 = Inr (s', es)" using assms(1) by (simp add: bp_upper_def s0_def)
  from sender_upper_inv[OF u, of bp_flow_ok] i assms(3) show ?thesis
    by (simp add: bp_inv_def bp_flow_ok_def bp_cfg_ok_def bp_new_flow_def)
qed

lemma bp_upper_delivers:
  assumes "bp_upper cfg now p s = Inr (s', es)" and "bp_accepts nm cfg (now, Upper p)" and "new_flow (activate cfg) (now, Upper p) \<noteq> Some j"
  shows "sent_for nm j es = [] \<and> left_of j s' = left_of j s"
proof -
  define s0 where "s0 = (if contains ''Data'' (p_name p) \<and> activate cfg then bp_grow p s else s)"
  have u: "sender_upper (activate cfg) (bp_new_flow cfg) now p s0 = Inr (s', es)" using assms(1) by (simp add: bp_upper_def s0_def)
  have "left_of j s0 = left_of j s"
  proof (cases "p_tags p = []")
    case True
    then show ?thesis by (simp add: s0_def bp_grow_def)
  next
    case False
    then show ?thesis using assms(3) bp_grow_left[of p j s] by (auto simp: s0_def)
  qed
  with sender_upper_delivers[OF u _ assms(3), of nm] assms(2) show ?thesis by simp
qed

lemma bp_send_Inr:
  assumes "bp_send_data nm cfg now s = Inr (s', es)"
  obtains it f len rest t where "iter s = Some it" and "map_get (sender_flowMap s) it = Some f"
    and "segment (max_pck_size cfg) (remainLength f) = (len, rest)"
    and "es = [Arm SendDataTimer t, SendDown (bp_packet nm (bp_note now f s) f len rest)]"
    and "s' = (advance_flow it (f\<lparr>remainLength := rest, pckseq := pckseq f + 1\<rparr>) rest (bp_note now f s))
           \<lparr>timers := (timers s)(SendDataTimer := Some t)\<rparr>"
proof -
  obtain it f where f: "iter s = Some it" "map_get (sender_flowMap s) it = Some f"
    using assms by (auto simp: bp_send_data_def split: option.splits)
  obtain len rest where g: "segment (max_pck_size cfg) (remainLength f) = (len, rest)" by fastforce
  from assms f g show thesis
    by (auto simp: bp_send_data_def bp_note_def Let_def rbind_eq_Inr scheduleAt_Inr intro!: that)
qed

lemma bp_send_step:
  assumes "bp_send_data nm cfg now s = Inr (s', es)" and "bp_inv cfg (s\<lparr>timers := (timers s)(SendDataTimer := Some u)\<rparr>)"
  shows "bp_inv cfg s' \<and> delivers (sent_for nm j es) (left_of j s) (left_of j s')"
  using assms(1)
proof (rule bp_send_Inr)
  fix it f len rest t
  assume f: "map_get (sender_flowMap s) it = Some f"
    and seg: "segment (max_pck_size cfg) (remainLength f) = (len, rest)"
    and es: "es = [Arm SendDataTimer t, SendDown (bp_packet nm (bp_note now f s) f len rest)]"
    and s': "s' = (advance_flow it (f\<lparr>remainLength := rest, pckseq := pckseq f + 1\<rparr>) rest (bp_note now f s))
           \<lparr>timers := (timers s)(SendDataTimer := Some t)\<rparr>"
  let ?g = "f\<lparr>remainLength := rest, pckseq := pckseq f + 1\<rparr>"
  have i: "sender_inv bp_flow_ok (s\<lparr>timers := (timers s)(SendDataTimer := Some u)\<rparr>)" and mx: "0 < max_pck_size cfg"
    using assms(2) by (simp_all add: bp_inv_def bp_cfg_ok_def)
  have ok: "flowid f = it" "0 \<le> remainLength f" "wf_map (sender_flowMap s)" and ok': "bp_flow_ok it f"
    using sender_inv_entry[OF i, of it f] f i by (simp_all add: sender_inv_def bp_flow_ok_def)
  have r: "0 \<le> rest" using segment_delivers[OF seg ok(2) mx] by simp
  from i have "sender_inv bp_flow_ok (bp_note now f (s\<lparr>timers := (timers s)(SendDataTimer := Some t)\<rparr>))"
    by (simp add: bp_note_def sender_inv_def)
  from advance_inv[OF this, of ?g it rest] ok' r ok(1)
  have "sender_inv bp_flow_ok (advance_flow it ?g rest (bp_note now f (s\<lparr>timers := (timers s)(SendDataTimer := Some t)\<rparr>)))" by (simp add: bp_flow_ok_def)
  then have "sender_inv bp_flow_ok s'"
    by (rule iffD1[OF sender_inv_cong, rotated 3]) (simp_all add: s' ok(1) advance_map bp_note_def)
  moreover have "delivers (sent_for nm j [Arm SendDataTimer t, SendDown (data_packet nm (bp_note now f s) f len rest)]) (left_of j s) (left_of j s')"
    by (rule advance_delivers[OF ok(3) f ok(1) seg ok(2) mx]) (simp add: s' advance_map ok(1) bp_note_def)
  ultimately show ?thesis using assms(2) by (simp add: bp_inv_def es del: sent_for.simps(2))
qed

text \<open>A step of either module, when what it does with packets from below sends and takes nothing of a flow.\<close>

definition bp_lower_ok :: "string \<Rightarrow> (dgram \<Rightarrow> bp \<Rightarrow> (bp \<times> cc_effect list) res) \<Rightarrow> bool" where
  "bp_lower_ok nm low \<longleftrightarrow>
     (\<forall>p s s' es cfg j. low p s = Inr (s', es) \<and> bp_inv cfg s \<longrightarrow> bp_inv cfg s' \<and> sent_for nm j es = [] \<and> left_of j s' = left_of j s)"

lemma bp_step:
  assumes "bp_handle nm low cfg x s = Inr (s', es)" and "bp_lower_ok nm low" and "bp_inv cfg s" and "bp_accepts nm cfg x"
  shows "bp_inv cfg s' \<and> (new_flow (activate cfg) x \<noteq> Some j \<longrightarrow> delivers (sent_for nm j es) (left_of j s) (left_of j s'))"
proof -
  obtain now e where x: "x = (now, e)" by (cases x)
  show ?thesis
  proof (cases e)
    case (Upper p)
    with assms(1) x have u: "bp_upper cfg now p s = Inr (s', es)" by simp
    show ?thesis using bp_upper_inv[OF u assms(3)] bp_upper_delivers[OF u, of nm j] assms(4) x Upper by auto
  next
    case (Lower p)
    with assms x show ?thesis by (auto simp: bp_lower_ok_def)
  next
    case (Fire tm)
    let ?s = "s\<lparr>timers := (timers s)(tm := None)\<rparr>"
    have l: "left_of j ?s = left_of j s" by (simp add: left_of_def)
    show ?thesis
    proof (cases "timers s tm = None \<or> tm \<noteq> SendDataTimer")
      case True
      with assms(1,3) x Fire have "s' = s \<and> es = [] \<or> tm \<noteq> SendDataTimer \<and> s' = ?s \<and> es = []" by (auto split: if_splits)
      with assms(3) l show ?thesis by (auto simp: bp_inv_def sender_inv_def)
    next
      case False
      then obtain u where tm: "tm = SendDataTimer" "timers s SendDataTimer = Some u" by auto
      have t: "bp_timer nm cfg now ?s = Inr (s', es)" using assms(1) x Fire tm by (simp add: Let_def)
      have eq: "?s\<lparr>timers := (timers ?s)(SendDataTimer := Some u)\<rparr> = s" using tm by (simp add: fun_upd_idem)
      show ?thesis
      proof (cases "sender_flowMap s = [] \<or> now \<ge> stopTime cfg")
        case True
        with t have "s' = ?s\<lparr>SenderState := STOPPING\<rparr> \<and> es = []" by (auto simp: bp_timer_def)
        with assms(3) tm l show ?thesis by (auto simp: bp_inv_def sender_inv_def left_of_def)
      next
        case False
        with t have "bp_send_data nm cfg now ?s = Inr (s', es)" by (simp add: bp_timer_def)
        from bp_send_step[OF this, of u j] assms(3) eq l show ?thesis by simp
      qed
    qed
  qed
qed

lemma BFC_lower_ok: "bp_lower_ok ''BFC'' BFC_processLowerpck"
  by (auto simp: bp_lower_ok_def BFC_processLowerpck_def BFC_receive_data_def split: if_splits)

lemma bcn_change_frame [simp]:
  "flowid (bcn_decelerate f) = flowid f" "remainLength (bcn_decelerate f) = remainLength f" "pckseq (bcn_decelerate f) = pckseq f"
  "flowid (bcn_speedup f) = flowid f" "remainLength (bcn_speedup f) = remainLength f" "pckseq (bcn_speedup f) = pckseq f"
  "flow_size (bcn_decelerate f) = flow_size f" "flow_size (bcn_speedup f) = flow_size f"
  by (simp_all add: bcn_decelerate_def bcn_speedup_def)

lemma BCN_lower_ok: "bp_lower_ok ''BCN'' BCN_processLowerpck"
proof -
  have cnp: "bp_inv cfg s' \<and> left_of j s' = left_of j s \<and> sent_for ''BCN'' j es = []" if r: "BCN_receive_bfccnp p s = Inr (s', es)" and i: "bp_inv cfg s" for p s s' es cfg j
  proof -
    from r obtain tag where tag: "last_tag (packet.truncate p) = Inr tag" by (auto simp: BCN_receive_bfccnp_def rbind_eq_Inr)
    let ?k = "ht_flowid tag"
    define new where "new f = (if ht_decel tag then bcn_decelerate f else if ht_speedup tag then bcn_speedup f else f)" for f
    have n: "remainLength (new f) = remainLength f" "pckseq (new f) = pckseq f" "bp_flow_ok j f \<longrightarrow> bp_flow_ok j (new f)" for j f
      by (simp_all add: new_def bp_flow_ok_def bcn_decelerate_def bcn_speedup_def)
    from r tag have es: "es = []" by (auto simp: BCN_receive_bfccnp_def split: option.splits)
    from r tag consider "s' = s" | f where "map_get (sender_flowMap s) ?k = Some f" "s' = put_flow ?k (new f) s"
      by (auto simp: BCN_receive_bfccnp_def new_def split: option.splits if_splits)
    then have "(s' = s \<or> (\<exists>k f g. map_get (sender_flowMap s) k = Some f \<and> s' = put_flow k g s \<and>
        (bp_flow_ok k f \<longrightarrow> bp_flow_ok k g) \<and> remainLength g = remainLength f \<and> pckseq g = pckseq f)) \<and> es = []"
      using es n by cases blast+
    with i show ?thesis
      by (auto simp: bp_inv_def left_put intro!: sender_inv_put dest: sender_inv_entry)
  qed
  then show ?thesis
    unfolding bp_lower_ok_def using cnp by (auto simp: BCN_processLowerpck_def BCN_receive_data_def split: if_splits)
qed

interpretation bfc_segments: segmenting_sender
    "BFC_handleMessage cfg" "bp_inv cfg" "bp_accepts ''BFC'' cfg" "sent_for ''BFC''" left_of
    "\<lambda>f x. new_flow (activate cfg) x = Some f" for cfg
  using bp_step[OF _ BFC_lower_ok] by unfold_locales (auto simp: BFC_handleMessage_def sent_for_append)

interpretation bcn_segments: segmenting_sender
    "BCN_handleMessage cfg" "bp_inv cfg" "bp_accepts ''BCN'' cfg" "sent_for ''BCN''" left_of
    "\<lambda>f x. new_flow (activate cfg) x = Some f" for cfg
  using bp_step[OF _ BCN_lower_ok] by unfold_locales (auto simp: BCN_handleMessage_def sent_for_append)


subsection \<open>What notifications do to the rate\<close>

text \<open>The notifications of a flow among events: decelerations as \<open>True\<close>.\<close>

fun notices :: "u32 \<Rightarrow> (simtime \<times> cc_op) list \<Rightarrow> bool list" where
  "notices k [] = []"
| "notices k ((now, Lower p) # xs) =
     (if contains ''routerCNP'' (p_name p) \<and> p_tags p \<noteq> [] \<and> ht_flowid (last (p_tags p)) = k \<and>
         (ht_decel (last (p_tags p)) \<or> ht_speedup (last (p_tags p)))
      then ht_decel (last (p_tags p)) # notices k xs else notices k xs)"
| "notices k (_ # xs) = notices k xs"

lemma notices_Cons: "notices k (x # xs) = notices k [x] @ notices k xs"
  by (cases x; cases "snd x") auto

lemma notices_one: "notices k [x] = [] \<or> (\<exists>c. notices k [x] = [c])"
  by (cases x; cases "snd x") auto

text \<open>The entry of a flow over an event that neither finishes nor starts it.\<close>

definition entry_follows :: "bool list \<Rightarrow> bp_flow \<Rightarrow> bp_flow \<Rightarrow> bool" where
  "entry_follows bs f f' \<longleftrightarrow> remainLength f' \<le> remainLength f \<and> flow_size f' = flow_size f \<and>
     (bs = [] \<longrightarrow> currentRate f' = currentRate f \<and> targetRate f' = targetRate f) \<and>
     (\<forall>b. bs = [b] \<and> (word_of_int (remainLength f) :: u64) \<noteq> 0 \<longrightarrow> f' = (if b then bcn_decelerate f else bcn_speedup f))"

lemma entry_same: "entry_follows [] f f"
  by (simp add: entry_follows_def)

lemma upper_entry:
  assumes "bp_upper cfg now p s = Inr (s', es)" and "new_flow (activate cfg) (now, Upper p) \<noteq> Some k"
  shows "map_get (sender_flowMap s') k = map_get (sender_flowMap s) k"
proof -
  define s0 where "s0 = (if contains ''Data'' (p_name p) \<and> activate cfg then bp_grow p s else s)"
  have u: "sender_upper (activate cfg) (bp_new_flow cfg) now p s0 = Inr (s', es)" using assms(1) by (simp add: bp_upper_def s0_def)
  have g: "map_get (sender_flowMap s0) k = map_get (sender_flowMap s) k"
    using assms(2) by (auto simp: s0_def bp_grow_def Let_def get_put split: option.split)
  from u show ?thesis
  proof (cases rule: sender_upper_cases)
    case pass
    with g show ?thesis by simp
  next
    case (data j s1)
    with assms(2) have "j \<noteq> k" by auto
    then have "map_get (sender_flowMap s1) k = map_get (sender_flowMap s0) k" unfolding data(5) by (simp add: get_put)
    with data(6) g show ?thesis by (auto split: if_splits)
  qed
qed

lemma send_entry:
  assumes "bp_send_data nm cfg now s = Inr (s', es)" and "bp_inv cfg (s\<lparr>timers := (timers s)(SendDataTimer := Some u)\<rparr>)"
    and "map_get (sender_flowMap s) k = Some f" and "map_get (sender_flowMap s') k = Some f'"
  shows "entry_follows [] f f'"
  using assms(1)
proof (rule bp_send_Inr)
  fix it g len rest t
  assume g: "map_get (sender_flowMap s) it = Some g"
    and seg: "segment (max_pck_size cfg) (remainLength g) = (len, rest)"
    and s': "s' = (advance_flow it (g\<lparr>remainLength := rest, pckseq := pckseq g + 1\<rparr>) rest (bp_note now g s))
           \<lparr>timers := (timers s)(SendDataTimer := Some t)\<rparr>"
  have i: "sender_inv bp_flow_ok (s\<lparr>timers := (timers s)(SendDataTimer := Some u)\<rparr>)" and mx: "0 < max_pck_size cfg"
    using assms(2) by (simp_all add: bp_inv_def bp_cfg_ok_def)
  have ok: "flowid g = it" "0 \<le> remainLength g" and w: "wf_map (sender_flowMap s)"
    using sender_inv_entry[OF i, of it g] g i by (simp_all add: sender_inv_def bp_flow_ok_def)
  have r: "rest \<le> remainLength g" using segment_delivers[OF seg ok(2) mx] by auto
  have m: "sender_flowMap s' = (if rest = 0 then map_erase it (sender_flowMap s)
      else map_put it (g\<lparr>remainLength := rest, pckseq := pckseq g + 1\<rparr>) (sender_flowMap s))"
    by (simp add: s' advance_map ok(1) bp_note_def)
  show ?thesis
    using assms(3,4) g r by (cases "k = it"; cases "rest = 0") (auto simp: m get_put get_erase[OF w] entry_follows_def)
qed

lemma bcn_step_entry:
  assumes "BCN_handleMessage cfg x s = Inr (s', es)" and "bp_inv cfg s" and "new_flow (activate cfg) x \<noteq> Some k"
    and "map_get (sender_flowMap s) k = Some f" and "map_get (sender_flowMap s') k = Some f'"
  shows "entry_follows (notices k [x]) f f'"
proof -
  obtain now e where x: "x = (now, e)" by (cases x)
  note h = assms(1)[unfolded BCN_handleMessage_def x]
  show ?thesis
  proof (cases e)
    case (Upper p)
    with h have u: "bp_upper cfg now p s = Inr (s', es)" by simp
    from upper_entry[OF u] assms(3-5) x Upper show ?thesis by (simp add: entry_same)
  next
    case (Fire tm)
    let ?s = "s\<lparr>timers := (timers s)(tm := None)\<rparr>"
    have n: "notices k [x] = []" by (simp add: x Fire)
    show ?thesis
    proof (cases "timers s tm = None \<or> tm \<noteq> SendDataTimer")
      case True
      with h Fire have "s' = s \<or> s' = ?s" by (auto split: if_splits)
      with assms(4,5) show ?thesis unfolding n by (auto simp: entry_same)
    next
      case False
      then obtain u where tm: "tm = SendDataTimer" "timers s SendDataTimer = Some u" by auto
      have t: "bp_timer ''BCN'' cfg now ?s = Inr (s', es)" using h Fire tm by (simp add: Let_def)
      have eq: "?s\<lparr>timers := (timers ?s)(SendDataTimer := Some u)\<rparr> = s" using tm by (simp add: fun_upd_idem)
      show ?thesis
      proof (cases "sender_flowMap s = [] \<or> now \<ge> stopTime cfg")
        case True
        with t have "s' = ?s\<lparr>SenderState := STOPPING\<rparr>" by (auto simp: bp_timer_def)
        with assms(4,5) show ?thesis unfolding n by (auto simp: entry_same)
      next
        case False
        with t have b: "bp_send_data ''BCN'' cfg now ?s = Inr (s', es)" by (simp add: bp_timer_def)
        show ?thesis unfolding n by (rule send_entry[OF b _ _ assms(5), where u = u]) (use assms(2,4) eq in auto)
      qed
    qed
  next
    case (Lower p)
    with h have l: "BCN_processLowerpck p s = Inr (s', es)" by simp
    show ?thesis
    proof (cases "contains ''routerCNP'' (p_name p)")
      case False
      with l have "s' = s" by (auto simp: BCN_processLowerpck_def BCN_receive_data_def split: if_splits)
      with False assms(4,5) show ?thesis by (simp add: x Lower entry_same)
    next
      case True
      with l have r: "BCN_receive_bfccnp p s = Inr (s', es)" by (simp add: BCN_processLowerpck_def)
      then have t: "p_tags p \<noteq> []" by (auto simp: BCN_receive_bfccnp_def last_tag_def packet.truncate_def split: if_splits)
      let ?t = "last (p_tags p)"
      show ?thesis
      proof (cases "ht_flowid ?t = k")
        case False
        with r t have "map_get (sender_flowMap s') k = map_get (sender_flowMap s) k"
          by (auto simp: BCN_receive_bfccnp_def tag_of_truncate get_put split: option.splits if_splits)
        with False assms(4,5) show ?thesis by (simp add: x Lower entry_same)
      next
        case eq: True
        show ?thesis
        proof (cases "(word_of_int (remainLength f) :: u64) = 0")
          case z: True
          with r t eq assms(4,5) have "f' = f" by (auto simp: BCN_receive_bfccnp_def tag_of_truncate)
          with z True t eq show ?thesis by (auto simp: x Lower entry_follows_def)
        next
          case nz: False
          with r t eq assms(4,5) have "f' = (if ht_decel ?t then bcn_decelerate f else if ht_speedup ?t then bcn_speedup f else f)"
            by (auto simp: BCN_receive_bfccnp_def tag_of_truncate get_put)
          with True t eq nz show ?thesis by (auto simp: x Lower entry_follows_def)
        qed
      qed
    qed
  qed
qed

lemma delivers_left: "delivers xs (Some (n, q)) (Some (m, r)) \<Longrightarrow> m \<le> n"
proof (induction xs arbitrary: n q)
  case Nil
  then show ?case by simp
next
  case (Cons x xs)
  obtain q' len lst where x: "x = (q', len, lst)" by (cases x)
  with Cons.prems have l: "0 \<le> len" "delivers xs (if len = n then None else Some (n - len, q + 1)) (Some (m, r))" by auto
  then have "len \<noteq> n" by (auto simp: delivers_None)
  with l Cons.IH[of "n - len" "q + 1"] show ?case by simp
qed

lemma half_mono:
  assumes "\<not> below_half f'" and "0 \<le> remainLength f'" and "remainLength f' \<le> remainLength f" and "remainLength f < 2 ^ 64"
    and "flow_size f' = flow_size f"
  shows "\<not> below_half f"
proof -
  have "(word_of_int (remainLength f') :: u64) \<le> word_of_int (remainLength f)"
    using assms(2-4) by (simp add: word_le_def uint_word_of_int_eq take_bit_int_eq_self)
  with assms(1,5) show ?thesis by (simp add: below_half_def not_less)
qed

lemma remain_nonzero: "0 < n \<Longrightarrow> n < 2 ^ 64 \<Longrightarrow> (word_of_int n :: u64) \<noteq> 0"
proof -
  assume "0 < n" "n < 2 ^ 64"
  then have "uint (word_of_int n :: u64) = n" by (simp add: uint_word_of_int_eq take_bit_int_eq_self)
  then show ?thesis using \<open>0 < n\<close> by auto
qed

text \<open>A flow that is there in the end was there after each event.\<close>

lemma bcn_run_Cons:
  assumes "run_out (BCN_handleMessage cfg) (x # xs) s = Inr (s', es)" and "bp_inv cfg s"
    and "\<forall>x\<in>set (x # xs). bp_accepts ''BCN'' cfg x \<and> new_flow (activate cfg) x \<noteq> Some k"
    and "map_get (sender_flowMap s) k = Some f" and "map_get (sender_flowMap s') k = Some f'"
  obtains s1 es2 f1 where "run_out (BCN_handleMessage cfg) xs s1 = Inr (s', es2)" and "bp_inv cfg s1"
    and "map_get (sender_flowMap s1) k = Some f1" and "entry_follows (notices k [x]) f f1" and "remainLength f' \<le> remainLength f1"
proof -
  from assms(1) obtain s1 es1 es2 where s1: "BCN_handleMessage cfg x s = Inr (s1, es1)"
    and run: "run_out (BCN_handleMessage cfg) xs s1 = Inr (s', es2)"
    by (auto simp: run_out_Cons_Inr simp del: run_out.simps)
  have ax: "bp_accepts ''BCN'' cfg x" "new_flow (activate cfg) x \<noteq> Some k" and axs: "\<forall>x\<in>set xs. bp_accepts ''BCN'' cfg x \<and> new_flow (activate cfg) x \<noteq> Some k"
    using assms(3) by simp_all
  have i1: "bp_inv cfg s1" using bcn_segments.inv_step[OF assms(2) ax(1) s1] .
  have fin: "left_of k s' = Some (remainLength f', pckseq f')" using assms(5) by (simp add: left_of_def)
  have d: "delivers (sent_for ''BCN'' k es2) (left_of k s1) (left_of k s')" using bcn_segments.delivers_run[OF i1 axs run] .
  with fin obtain f1 where f1: "map_get (sender_flowMap s1) k = Some f1"
    by (cases "map_get (sender_flowMap s1) k") (auto simp: left_of_def delivers_None)
  have "remainLength f' \<le> remainLength f1" using d fin f1 by (auto simp: left_of_def dest: delivers_left)
  with that[OF run i1 f1 bcn_step_entry[OF s1 assms(2) ax(2) assms(4) f1]] show thesis .
qed

lemma bcn_run_size:
  assumes "run_out (BCN_handleMessage cfg) xs s = Inr (s', es)" and "bp_inv cfg s" and "\<forall>x\<in>set xs. bp_accepts ''BCN'' cfg x \<and> new_flow (activate cfg) x \<noteq> Some k"
    and "map_get (sender_flowMap s) k = Some f" and "map_get (sender_flowMap s') k = Some f'"
  shows "flow_size f' = flow_size f \<and> remainLength f' \<le> remainLength f"
  using assms
proof (induction xs arbitrary: s es f)
  case Nil
  then show ?case by simp
next
  case (Cons x xs)
  from Cons.prems obtain s1 es2 f1 where run: "run_out (BCN_handleMessage cfg) xs s1 = Inr (s', es2)" and i1: "bp_inv cfg s1"
    and f1: "map_get (sender_flowMap s1) k = Some f1" and st: "entry_follows (notices k [x]) f f1"
    by (rule bcn_run_Cons)
  from Cons.IH[OF run i1 _ f1 Cons.prems(5)] Cons.prems(3) st show ?case by (auto simp: entry_follows_def)
qed

definition speedups :: "bool list \<Rightarrow> nat" where
  "speedups bs = length (filter Not bs)"

text \<open>While at least half of the flow is left: a speedup goes beyond the rate before the deceleration by a fifth.\<close>

lemma bcn_run_rate:
  assumes "run_out (BCN_handleMessage cfg) xs s = Inr (s', es)" and "bp_inv cfg s" and "\<forall>x\<in>set xs. bp_accepts ''BCN'' cfg x \<and> new_flow (activate cfg) x \<noteq> Some k"
    and "map_get (sender_flowMap s) k = Some f" and "remainLength f < 2 ^ 64"
    and "map_get (sender_flowMap s') k = Some f'" and "0 < remainLength f'" and "\<not> below_half f'"
    and "alternates b (notices k xs) b'" and "currentRate f = r * (if b then 99 / 100 else 1)" and "b \<longrightarrow> targetRate f = r"
  shows "currentRate f' = r * (12 / 10) ^ speedups (notices k xs) * (if b' then 99 / 100 else 1)"
  using assms
proof (induction xs arbitrary: s es f b r)
  case Nil
  then show ?case by (simp add: speedups_def)
next
  case (Cons x xs)
  from Cons.prems(1-4,6) obtain s1 es2 f1 where run: "run_out (BCN_handleMessage cfg) xs s1 = Inr (s', es2)" and i1: "bp_inv cfg s1"
    and f1: "map_get (sender_flowMap s1) k = Some f1" and st: "entry_follows (notices k [x]) f f1" and m1: "remainLength f' \<le> remainLength f1"
    by (rule bcn_run_Cons)
  note IH = Cons.IH[OF run i1 _ f1 _ Cons.prems(6-8)]
  have ax: "\<forall>x\<in>set xs. bp_accepts ''BCN'' cfg x \<and> new_flow (activate cfg) x \<noteq> Some k" using Cons.prems(3) by simp
  have m: "remainLength f1 \<le> remainLength f" "flow_size f1 = flow_size f" using st by (simp_all add: entry_follows_def)
  then have mx: "remainLength f1 < 2 ^ 64" using Cons.prems(5) by simp
  have fs: "flow_size f' = flow_size f1" using bcn_run_size[OF run i1 ax f1 Cons.prems(6)] by simp
  have half: "\<not> below_half f" by (rule half_mono[OF Cons.prems(8) _ _ Cons.prems(5)]) (use Cons.prems(7) m1 m fs in auto)
  have nz: "(word_of_int (remainLength f) :: u64) \<noteq> 0" by (rule remain_nonzero) (use Cons.prems(5,7) m1 m in auto)
  have split: "notices k (x # xs) = notices k [x] @ notices k xs" by (rule notices_Cons)
  consider (none) "notices k [x] = []" | (one) c where "notices k [x] = [c]" using notices_one[of k x] by blast
  then show ?case
  proof cases
    case none
    with st have "currentRate f1 = currentRate f" "targetRate f1 = targetRate f" by (simp_all add: entry_follows_def)
    with IH[OF ax mx, of b r] none split Cons.prems(9-11) show ?thesis by simp
  next
    case (one c)
    have al: "c \<noteq> b" "alternates c (notices k xs) b'" using Cons.prems(9) unfolding split one by auto
    have f1d: "f1 = (if c then bcn_decelerate f else bcn_speedup f)" using st nz by (simp add: entry_follows_def one)
    show ?thesis
    proof (cases c)
      case True
      with al Cons.prems(10) have "currentRate f1 = r * (99 / 100)" "targetRate f1 = r" using half by (simp_all add: f1d bcn_decelerate_def)
      with IH[OF ax mx, of True r] al True show ?thesis by (simp add: split one speedups_def)
    next
      case False
      with al have "currentRate f1 = r * (12 / 10)" using half Cons.prems(11) by (simp add: f1d bcn_speedup_def)
      with IH[OF ax mx, of False "r * (12 / 10)"] al False show ?thesis by (simp add: split one speedups_def)
    qed
  qed
qed


subsection \<open>The state\<close>

definition sample_bp_cfg :: bp_cfg where
  "sample_bp_cfg = \<lparr>activate = True, stopTime = 100, linkspeed = 10, initialrate = 1, max_pck_size = 500\<rparr>"

definition sample_bp_flow :: bp_flow where
  "sample_bp_flow = \<lparr>flowid = 9, remainLength = 1000, cretime = 0, destAddr = 12, srcPort = 0, destPort = 0,
     flowPriority = 0, pckseq = 0, currentRate = 10, targetRate = 10, flow_queueid = 0, flow_size = 1000\<rparr>"

definition sample_bp :: bp where
  "sample_bp = BCN_initialize\<lparr>sender_flowMap := [(9, sample_bp_flow)], iter := Some 9, SenderState := SENDING,
     timers := (\<lambda>_. None)(SendDataTimer := Some 1)\<rparr>"

lemma sample_bp_inv: "bp_inv sample_bp_cfg sample_bp"
  by (simp add: bp_inv_def bp_cfg_ok_def bp_flow_ok_def sender_inv_def wf_map_def sample_bp_def sample_bp_cfg_def sample_bp_flow_def
      BCN_initialize_def bp_initialize_def)

lemma bcn_init_inv: "bp_cfg_ok cfg \<Longrightarrow> bp_inv cfg BCN_initialize"
  by (simp add: bp_inv_def BCN_initialize_def bp_initialize_def sender_inv_def wf_map_def)

definition sample_bp_request :: "u32 \<Rightarrow> dgram" where
  "sample_bp_request k =
     \<lparr>p_id = 1, p_name = ''UdpData-1'', p_len = 1664, p_iface = 0, p_ecn = None,
      p_tags = [\<lparr>ht_flowid = k, ht_priority = 0, ht_flowsize = 200, ht_cretime = 0, ht_packetid = 0, ht_last = False,
                 ht_queueid = 0, ht_decel = False, ht_speedup = False, ht_sender_priority = -1\<rparr>],
      p_bfc = None, p_ispause = None, d_src = 11, d_dest = 12, d_sport = 0, d_dport = 0, d_ecn = 0,
      d_recRate = 0, d_int = None, d_psd = None, d_sack = None, d_time = 0\<rparr>"

lemmas bp_eval = sample_bp_cfg_def sample_bp_request_def BCN_initialize_def bp_initialize_def BCN_handleMessage_def
  bp_upper_def bp_grow_def bp_new_flow_def sender_upper_def packet.truncate_def last_tag_def store_flow_def put_flow_def
  scheduleAt_def bp_timer_def bp_send_data_def bp_note_def note_flow_def segment_def advance_flow_def finish_flow_def
  bp_packet_def data_packet_def nxtSendTime_def bytes_of_def payload_of_def Let_def

text \<open>C33: The state of a BCN host is well formed at all times: whatever requests, notifications and timers come, each flow is
  found under its own id and in ascending order, with no negative rest and a positive rate, so that no pause between
  packets is a division by zero, and the send timer runs exactly while the module is sending.\<close>

theorem bcn_state_well_formed:
  assumes "bp_cfg_ok cfg" and "\<forall>x\<in>set xs. bp_accepts ''BCN'' cfg x"
    and "run_out (BCN_handleMessage cfg) xs BCN_initialize = Inr (s, es)"
  shows "wf_map (sender_flowMap s) \<and>
     (\<forall>k f. map_get (sender_flowMap s) k = Some f \<longrightarrow>
        flowid f = k \<and> 0 \<le> remainLength f \<and> 0 < currentRate f \<and> is_ok (nxtSendTime now n (currentRate f))) \<and>
     (SenderState s = SENDING \<longleftrightarrow> timers s SendDataTimer \<noteq> None) \<and> SenderState s \<noteq> PAUSING"
proof -
  have "bp_inv cfg s" by (rule bcn_segments.inv_run[OF bcn_init_inv[OF assms(1)] assms(2,3)])
  then have i: "sender_inv bp_flow_ok s" by (simp add: bp_inv_def)
  have "flowid f = k \<and> 0 \<le> remainLength f \<and> 0 < currentRate f \<and> is_ok (nxtSendTime now n (currentRate f))"
    if "map_get (sender_flowMap s) k = Some f" for k f
    using sender_inv_entry[OF i that] by (simp add: bp_flow_ok_def nxtSendTime_def)
  with i show ?thesis by (simp add: sender_inv_def)
qed

text \<open>C34: Bytes from nowhere.  When data of a flow arrive while the flow is being sent, the length that is added to it
  includes the 8 bytes of the UDP header: until the flow is finished BCN sends 8 bytes more than it was given.\<close>

theorem bcn_added_data_overcounted:
  assumes "bp_cfg_ok cfg" and "\<forall>x\<in>set xs. bp_accepts ''BCN'' cfg x"
    and "run_out (BCN_handleMessage cfg) xs BCN_initialize = Inr (s, es0)"
    and "map_get (sender_flowMap s) k = Some f"
    and "bp_accepts ''BCN'' cfg (now, Upper p)" and "new_flow (activate cfg) (now, Upper p) = Some k"
    and "run_out (BCN_handleMessage cfg) ((now, Upper p) # ys) s = Inr (s', es)"
    and "\<forall>y\<in>set ys. bp_accepts ''BCN'' cfg y \<and> new_flow (activate cfg) y \<noteq> Some k"
    and "map_get (sender_flowMap s') k = None"
  shows "sum_list (map (\<lambda>(_, len, _). len) (sent_for ''BCN'' k es)) = remainLength f + payload_of p + 8"
proof -
  have i: "bp_inv cfg s" by (rule bcn_segments.inv_run[OF bcn_init_inv[OF assms(1)] assms(2,3)])
  obtain s1 es1 es2 where st: "BCN_handleMessage cfg (now, Upper p) s = Inr (s1, es1)"
    and r: "run_out (BCN_handleMessage cfg) ys s1 = Inr (s', es2)" and es: "es = es1 @ es2"
    using assms(7) by (auto simp: run_out_Cons_Inr simp del: run_out.simps)
  have i1: "bp_inv cfg s1" using bcn_segments.inv_step[OF i assms(5) st] .
  have d: "contains ''Data'' (p_name p)" "activate cfg" "ht_flowid (last (p_tags p)) = k" using assms(6) by (auto split: if_splits)
  have u: "sender_upper True (bp_new_flow cfg) now p (bp_grow p s) = Inr (s1, es1)"
    using st d by (simp add: BCN_handleMessage_def bp_upper_def)
  then have l: "left_of k s1 = Some (remainLength f + bytes_of (p_bits p), pckseq f) \<and> sent_for ''BCN'' k es1 = []"
  proof (cases rule: sender_upper_cases)
    case pass
    with d show ?thesis by simp
  next
    case (data j s2)
    have g: "map_get (sender_flowMap (bp_grow p s)) k = Some (f\<lparr>remainLength := remainLength f + bytes_of (p_bits p)\<rparr>)"
      using data(1) d assms(4) by (simp add: bp_grow_def Let_def get_put)
    have "s2 = bp_grow p s" using g d data(2,5) by simp
    then have "sender_flowMap s1 = sender_flowMap (bp_grow p s)" "sent_for ''BCN'' k es1 = []"
      using data(6) by (simp_all split: if_splits)
    with g show ?thesis by (simp add: left_of_def)
  qed
  have "left_of k s' = None" using assms(9) by (simp add: left_of_def)
  from bcn_segments.flow_complete[OF i1 assms(8) r conjunct1[OF l] this] l
  show ?thesis by (simp add: es sent_for_append payload_of_def)
qed

lemma sample_bp_ok: "bp_cfg_ok sample_bp_cfg"
  by (simp add: bp_cfg_ok_def sample_bp_cfg_def)

theorem bcn_state_well_formed_witness:
  "\<exists>s es f. run_out (BCN_handleMessage sample_bp_cfg) [(0, Upper (sample_bp_request 9))] BCN_initialize = Inr (s, es) \<and>
     map_get (sender_flowMap s) 9 = Some f \<and> remainLength f = 200 \<and> currentRate f = 10 \<and>
     SenderState s = SENDING \<and> timers s SendDataTimer \<noteq> None"
proof -
  obtain s es f where r: "run_out (BCN_handleMessage sample_bp_cfg) [(0, Upper (sample_bp_request 9))] BCN_initialize = Inr (s, es)"
    and f: "map_get (sender_flowMap s) 9 = Some f" "remainLength f = 200" "currentRate f = 10" and st: "SenderState s = SENDING"
    by (simp add: bp_eval)
  from bcn_state_well_formed[OF sample_bp_ok _ r] st
  have "timers s SendDataTimer \<noteq> None" by (auto simp: bp_eval)
  with r f st show ?thesis by blast
qed

theorem bcn_added_data_overcounted_witness:
  "\<exists>s es s' es'. run_out (BCN_handleMessage sample_bp_cfg) [(0, Upper (sample_bp_request 9))] BCN_initialize = Inr (s, es) \<and>
     run_out (BCN_handleMessage sample_bp_cfg) [(0, Upper (sample_bp_request 9)), (1, Fire SendDataTimer)] s = Inr (s', es') \<and>
     sum_list (map (\<lambda>(_, len, _). len) (sent_for ''BCN'' 9 es')) = 200 + 200 + 8"
proof -
  obtain s es f s' es' where r: "run_out (BCN_handleMessage sample_bp_cfg) [(0, Upper (sample_bp_request 9))] BCN_initialize = Inr (s, es)"
    and f: "map_get (sender_flowMap s) 9 = Some f" "remainLength f = 200"
    and r': "run_out (BCN_handleMessage sample_bp_cfg) [(0, Upper (sample_bp_request 9)), (1, Fire SendDataTimer)] s = Inr (s', es')"
    and d: "map_get (sender_flowMap s') 9 = None"
    by (simp add: bp_eval)
  from bcn_added_data_overcounted[OF sample_bp_ok _ r f(1) _ _ r' _ d] r r' f(2) show ?thesis
    by (auto simp: bp_eval)
qed

end
