(* ===== verification/BCN_Queue.thy ===== *)
theory BCN_Queue
  imports BFC_Queue Backpressure_Senders
begin

section \<open>BCNqueue: backpressure with notifications\<close>

text \<open>
  \<open>HiNA/Ethernet/HiQueue/BCNQueue/BCNqueue\<close>, and of \<open>HiNA/Ethernet/BCNMac\<close> the handler that makes a packet of
  a notification.  The queue pauses and resumes upstream queues as \<open>BFCqueue\<close> does.  Besides, when a flow
  is listed the source of the packet is told to slow down and when it is taken off the list, to speed
  up.  The headers are read in the packet: the model gives the addresses of an IPv4 header in the fields
  of the datagram, and a packet whose \<open>p_ecn\<close> is None has none.
\<close>

record bcn_cfg =
  bcnPacketCapacity :: int
  bcnDataCapacity :: int
  bcnHeadroom :: int
  bcnAlpha :: double
  bcnUseBfc :: bool
  bcnXOFF :: int
  bcnKmax :: int
  bcnKmin :: int
  bcnPmax :: double
  bcnUseEcn :: bool
  bcnSwitchid :: int
  bcnNumb :: int
  bcnInterface :: int
  bcnHasDropper :: bool
  bcnHasCollector :: bool
  bcnInsert :: "dgram inserter_of"

record bcnq =
  nqueue :: "dgram list"
  nPausedFlow :: "u32 list"
  nPausedUp :: "(int \<times> int) list"
  nmarkNext :: bool
  nredCount :: double
  nmaxSize :: u64
  nlastResult :: red_result
  sendcnpdel :: int
  sendcnpspe :: int

datatype neffect = BcnPaused int int | BcnResumed int int
  | Decelerate int u32 int int | Speedup int u32 int int | NEff qeffect

abbreviation bcn_pool :: "bcn_cfg \<Rightarrow> int \<times> int" where
  "bcn_pool cfg \<equiv> (bcnSwitchid cfg, bcnNumb cfg)"

definition BCNqueue_initialize :: "bcn_cfg \<Rightarrow> int \<Rightarrow> sbuf2 \<Rightarrow> (bcnq \<times> sbuf2) res" where
  "BCNqueue_initialize cfg parSharedBuffer sb =
     (if bcnSwitchid cfg < 0 \<or> 100 \<le> bcnSwitchid cfg \<or> bcnNumb cfg < 0 \<or> 100 \<le> bcnNumb cfg then Inl OutOfBounds
      else Inr (\<lparr>nqueue = [], nPausedFlow = [], nPausedUp = [], nmarkNext = False, nredCount = -1,
                 nmaxSize = 0, nlastResult = BELOW_MIN_LIMIT, sendcnpdel = 0, sendcnpspe = 0\<rparr>,
                sb(bcn_pool cfg := parSharedBuffer)))"

definition BCNqueue_getNumPackets :: "bcnq \<Rightarrow> int" where
  "BCNqueue_getNumPackets s = int (length (nqueue s))"

definition BCNqueue_isOverloaded :: "bcn_cfg \<Rightarrow> bcnq \<Rightarrow> bool" where
  "BCNqueue_isOverloaded cfg s \<longleftrightarrow>
     (bcnPacketCapacity cfg \<noteq> -1 \<and> BCNqueue_getNumPackets s > bcnPacketCapacity cfg) \<or>
     (bcnDataCapacity cfg \<noteq> -1 \<and> bitLength (nqueue s) > bcnDataCapacity cfg)"

definition BCNqueue_getPacket :: "bcnq \<Rightarrow> int \<Rightarrow> dgram res" where
  "BCNqueue_getPacket s index =
     (if index < 0 \<or> index \<ge> int (length (nqueue s)) then Inl (RuntimeError ''index out of range'')
      else Inr (nqueue s ! nat index))"

definition BCNqueue_BufferManagement ::
    "bcn_cfg \<Rightarrow> dgram \<Rightarrow> bcnq \<Rightarrow> sbuf2 \<Rightarrow> (bool \<times> bcnq \<times> sbuf2) res" where
  "BCNqueue_BufferManagement cfg pck s sb =
     (if \<not> BCNqueue_isOverloaded cfg s then Inr (True, s, sb)
      else
        let remaining = sb (bcn_pool cfg) in
        rbind (dbl_to_u64 (bcnAlpha cfg * of_int remaining)) (\<lambda>mx.
          let s' = s\<lparr>nmaxSize := mx\<rparr> in
          if gt_mixed64 (bitLength (nqueue s) + p_bits pck) mx then Inr (False, s', sb)
          else Inr (True, s', sb(bcn_pool cfg := remaining - p_bits pck))))"

definition BCNqueue_tooLong :: "bcn_cfg \<Rightarrow> bcnq \<Rightarrow> sbuf2 \<Rightarrow> bool" where
  "BCNqueue_tooLong cfg s sb \<longleftrightarrow>
     byteLength (nqueue s) \<ge> bcnXOFF cfg \<or>
     (bitLength (nqueue s) > bcnDataCapacity cfg \<and> sb (bcn_pool cfg) < bcnHeadroom cfg)"

text \<open>A flow not listed yet: its packet is tagged, the flow is listed, and its source is notified.\<close>

definition bcn_list_flow :: "bcn_cfg \<Rightarrow> dgram \<Rightarrow> u32 \<Rightarrow> bcnq \<Rightarrow> (bcnq \<times> neffect list) res" where
  "bcn_list_flow cfg pck k s =
     (if k \<in> set (nPausedFlow s) then Inr (s, [])
      else if p_ispause pck \<noteq> None then Inl (RuntimeError ''addTag: tag already exists'')
      else Inr (s\<lparr>nqueue := tag_in_queue (p_id pck) (nqueue s), nPausedFlow := nPausedFlow s @ [k],
                  sendcnpdel := sendcnpdel s + 1\<rparr>,
                [Decelerate (bcnInterface cfg) k (d_src pck) (d_dest pck)]))"

definition BCNqueue_pauseBlock :: "bcn_cfg \<Rightarrow> dgram \<Rightarrow> bcnq \<Rightarrow> (bcnq \<times> neffect list) res" where
  "BCNqueue_pauseBlock cfg pck s =
     (case p_bfc pck of
        None \<Rightarrow> Inl NullPointer
      | Some hdr \<Rightarrow>
          if p_ecn pck = None then Inl NullPointer
          else
            let upq = upstreamQueueID hdr; iface = p_iface pck in
            rbind (last_tag pck) (\<lambda>tag.
            rbind (bcn_list_flow cfg pck (ht_flowid tag) s) (\<lambda>(s1, es).
              if (iface, upq) \<in> set (nPausedUp s1) then Inr (s1, es)
              else Inr (s1\<lparr>nPausedUp := nPausedUp s1 @ [(iface, upq)]\<rparr>, es @ [BcnPaused iface upq]))))"

definition BCNqueue_pushPacket ::
    "bcn_cfg \<Rightarrow> dgram \<Rightarrow> bcnq \<Rightarrow> sbuf2 \<Rightarrow> (bcnq \<times> neffect list) res" where
  "BCNqueue_pushPacket cfg pck s sb =
     (let s1 = s\<lparr>nqueue := bcnInsert cfg pck (nqueue s)\<rparr> in
      rbind (if contains ''BCN'' (p_name pck) \<and> bcnUseBfc cfg \<and> BCNqueue_tooLong cfg s1 sb
             then BCNqueue_pauseBlock cfg pck s1 else Inr (s1, [])) (\<lambda>(s2, pauseEff).
        Inr (s2, [NEff (PushStarted (p_id pck))] @ pauseEff @
                 (if bcnHasCollector cfg \<and> BCNqueue_getNumPackets s2 \<noteq> 0 then [NEff NotifyCollector] else []) @
                 [NEff PushEnded])))"

definition BCNqueue_handleMessage ::
    "bcn_cfg \<Rightarrow> dgram \<Rightarrow> bcnq \<times> sbuf2 \<Rightarrow> ((bcnq \<times> sbuf2) \<times> neffect list) res" where
  "BCNqueue_handleMessage cfg pck st =
     rbind (BCNqueue_BufferManagement cfg pck (fst st) (snd st)) (\<lambda>(ok, s, sb).
       if ok then rbind (BCNqueue_pushPacket cfg pck s sb) (\<lambda>(s', es). Inr ((s', sb), es))
       else Inr ((s, sb), [NEff (Dropped (p_id pck))]))"

definition BCNqueue_doRandomEarlyDetection :: "bcn_cfg \<Rightarrow> double \<Rightarrow> bcnq \<Rightarrow> red_result \<times> bcnq" where
  "BCNqueue_doRandomEarlyDetection cfg rnd s =
     (let queueLength = byteLength (nqueue s) in
      if bcnKmin cfg \<le> queueLength \<and> queueLength < bcnKmax cfg then
        (let s1 = s\<lparr>nredCount := nredCount s + 1\<rparr>;
             pb = bcnPmax cfg * of_int (queueLength - bcnKmin cfg) / of_int (bcnKmax cfg - bcnKmin cfg) in
         if rnd < pb then (RANDOMLY_ABOVE_LIMIT, s1\<lparr>nredCount := 0\<rparr>)
         else (RANDOMLY_BELOW_LIMIT, s1))
      else if queueLength \<ge> bcnKmax cfg then (ABOVE_MAX_LIMIT, s\<lparr>nredCount := 0\<rparr>)
      else (BELOW_MIN_LIMIT, s\<lparr>nredCount := -1\<rparr>))"

definition BCNqueue_markEcn :: "dgram \<Rightarrow> bcnq \<Rightarrow> dgram \<times> bcnq" where
  "BCNqueue_markEcn pck s =
     (let ecn = getEcn pck in
      if ecn \<noteq> NotECT then
        (if nmarkNext s \<and> ecn \<noteq> CE then (setEcn CE pck, s\<lparr>nmarkNext := False\<rparr>)
         else if ecn = CE then (pck, s\<lparr>nmarkNext := True\<rparr>)
         else (setEcn CE pck, s))
      else (pck, s))"

text \<open>A tagged packet takes its flow off the list and tells its source, and lets its upstream queue go.\<close>

definition bcn_unlist_flow :: "bcn_cfg \<Rightarrow> dgram \<Rightarrow> u32 \<Rightarrow> bcnq \<Rightarrow> (bcnq \<times> neffect list) res" where
  "bcn_unlist_flow cfg pck k s =
     (if k \<in> set (nPausedFlow s) then
        (if p_ecn pck = None then Inl NullPointer
         else Inr (s\<lparr>nPausedFlow := filter (\<lambda>f. f \<noteq> k) (nPausedFlow s), sendcnpspe := sendcnpspe s + 1\<rparr>,
                   [Speedup (bcnInterface cfg) k (d_src pck) (d_dest pck)]))
      else Inr (s, []))"

definition BCNqueue_resumeBlock :: "bcn_cfg \<Rightarrow> dgram \<Rightarrow> bcnq \<Rightarrow> (dgram \<times> bcnq \<times> neffect list) res" where
  "BCNqueue_resumeBlock cfg pck s =
     (case p_bfc pck of
        None \<Rightarrow> Inl NullPointer
      | Some hdr \<Rightarrow>
          let upq = upstreamQueueID hdr; iface = p_iface pck in
          rbind (if p_ispause pck = Some True then
                   rbind (last_tag pck) (\<lambda>tag.
                   rbind (bcn_unlist_flow cfg pck (ht_flowid tag) s) (\<lambda>(s1, es).
                     if (iface, upq) \<in> set (nPausedUp s1)
                     then Inr (s1\<lparr>nPausedUp := filter (\<lambda>e. e \<noteq> (iface, upq)) (nPausedUp s1)\<rparr>, es @ [BcnResumed iface upq])
                     else Inr (s1, es)))
                 else Inr (s, [])) (\<lambda>(s', es).
            Inr (pck\<lparr>p_bfc := Some (hdr\<lparr>upstreamQueueID := queueID hdr\<rparr>)\<rparr>, s', es)))"

definition BCNqueue_credit :: "int \<Rightarrow> dgram \<Rightarrow> dgram list \<Rightarrow> int" where
  "BCNqueue_credit cap pck q =
     (if bitLength q - cap \<ge> p_bits pck then p_bits pck
      else if bitLength q \<ge> cap then bitLength q - cap
      else 0)"

definition BCNqueue_pullPacket ::
    "bcn_cfg \<Rightarrow> double \<Rightarrow> bcnq \<times> sbuf2 \<Rightarrow> (dgram \<times> (bcnq \<times> sbuf2) \<times> neffect list) res" where
  "BCNqueue_pullPacket cfg rnd st =
     (case nqueue (fst st) of
        [] \<Rightarrow> Inl NullPointer
      | pck # rest \<Rightarrow>
          rbind (if contains ''BCN'' (p_name pck) then BCNqueue_resumeBlock cfg pck (fst st)
                 else Inr (pck, fst st, [])) (\<lambda>(pck1, s1, es).
            let sb = (snd st)(bcn_pool cfg := snd st (bcn_pool cfg) +
                        BCNqueue_credit (bcnDataCapacity cfg) pck (nqueue (fst st)));
                (r, s2) = BCNqueue_doRandomEarlyDetection cfg rnd (s1\<lparr>nqueue := rest\<rparr>);
                s3 = s2\<lparr>nlastResult := r\<rparr>;
                (pck2, s4) =
                  (if (r = RANDOMLY_ABOVE_LIMIT \<or> r = ABOVE_MAX_LIMIT) \<and> bcnUseEcn cfg
                   then BCNqueue_markEcn pck1 s3 else (pck1, s3))
            in Inr (pck2, (s4, sb), es @ [NEff (Pulled (p_id pck))])))"

definition BCNqueue_removePacket :: "nat \<Rightarrow> bcnq \<Rightarrow> bcnq \<times> neffect list" where
  "BCNqueue_removePacket i s = (s\<lparr>nqueue := remove_ptr i (nqueue s)\<rparr>, [NEff (Removed i)])"

definition BCNqueue_removeAllPackets :: "bcnq \<Rightarrow> bcnq \<times> neffect list" where
  "BCNqueue_removeAllPackets s =
     (let (q, packets) = pop_loop 0 (nqueue s) [] in
      (s\<lparr>nqueue := q\<rparr>, map (\<lambda>p. NEff (Removed (p_id p))) packets))"

definition BCNqueue_canPushSomePacket :: "bcn_cfg \<Rightarrow> bcnq \<Rightarrow> bool" where
  "BCNqueue_canPushSomePacket cfg s \<longleftrightarrow>
     (if bcnHasDropper cfg then True
      else if bcnPacketCapacity cfg \<noteq> -1 \<and> BCNqueue_getNumPackets s \<ge> bcnPacketCapacity cfg then False
      else if bcnDataCapacity cfg \<noteq> -1 \<and> bitLength (nqueue s) \<ge> bcnDataCapacity cfg then False
      else True)"

definition BCNqueue_canPushPacket :: "bcn_cfg \<Rightarrow> dgram \<Rightarrow> bcnq \<Rightarrow> bool" where
  "BCNqueue_canPushPacket cfg pck s \<longleftrightarrow>
     (if bcnHasDropper cfg then True
      else if bcnPacketCapacity cfg \<noteq> -1 \<and> BCNqueue_getNumPackets s \<ge> bcnPacketCapacity cfg then False
      else if bcnDataCapacity cfg \<noteq> -1 \<and> bcnDataCapacity cfg - bitLength (nqueue s) < p_bits pck then False
      else True)"

definition BCNqueue_handlePacketRemoved :: "nat \<Rightarrow> bcnq \<Rightarrow> bcnq \<times> neffect list" where
  "BCNqueue_handlePacketRemoved i s =
     (if i \<in> p_id ` set (nqueue s) then BCNqueue_removePacket i s else (s, []))"

datatype nqop = NArrive dgram | NPull double

fun BCNqueue_step :: "bcn_cfg \<Rightarrow> nqop \<Rightarrow> bcnq \<times> sbuf2 \<Rightarrow> ((bcnq \<times> sbuf2) \<times> neffect list) res" where
  "BCNqueue_step cfg (NArrive pck) st = BCNqueue_handleMessage cfg pck st"
| "BCNqueue_step cfg (NPull rnd) st = rbind (BCNqueue_pullPacket cfg rnd st) (\<lambda>(p, st', es). Inr (st', es))"

text \<open>
  \<open>BCNMac::processsendbfccnp\<close>: the MAC of the interface the notification names, \<open>iface\<close> with address \<open>addr\<close>, makes
  a packet of one byte for the source of the flow.
\<close>

definition router_cnp :: "string \<Rightarrow> int \<Rightarrow> u32 \<Rightarrow> int \<Rightarrow> bool \<Rightarrow> dgram" where
  "router_cnp nm addr k src decel =
     \<lparr>p_id = 0, p_name = nm @ digits (unat k), p_len = 8, p_iface = 0, p_ecn = None,
      p_tags = [\<lparr>ht_flowid = k, ht_priority = -1, ht_flowsize = 0, ht_cretime = 0, ht_packetid = 0, ht_last = False,
                 ht_queueid = 0, ht_decel = decel, ht_speedup = \<not> decel, ht_sender_priority = -1\<rparr>],
      p_bfc = None, p_ispause = None, d_src = addr, d_dest = src, d_sport = 0, d_dport = 0, d_ecn = 0,
      d_recRate = 0, d_int = None, d_psd = None, d_sack = None, d_time = 0\<rparr>"

fun BCNMac_processsendbfccnp :: "int \<Rightarrow> int \<Rightarrow> neffect \<Rightarrow> dgram list" where
  "BCNMac_processsendbfccnp iface addr (Decelerate i k src dest) =
     (if i = iface then [router_cnp ''routerCNP_del_'' addr k src True] else [])"
| "BCNMac_processsendbfccnp iface addr (Speedup i k src dest) =
     (if i = iface then [router_cnp ''routerCNP_spe_'' addr k src False] else [])"
| "BCNMac_processsendbfccnp iface addr _ = []"


subsection \<open>What the queue signals\<close>

text \<open>
  A packet of flow \<open>k\<close> comes from the upstream queue \<open>src k\<close> and from the host with address \<open>home k\<close>; its
  header says so, and it arrives without the \<open>isPause\<close> tag.
\<close>

definition from_home :: "(u32 \<Rightarrow> int) \<Rightarrow> dgram \<Rightarrow> bool" where
  "from_home home p \<longleftrightarrow> (contains ''BCN'' (p_name p) \<longrightarrow> d_src p = home (flow_of p))"

fun bcn_accepts :: "(u32 \<Rightarrow> int \<times> int) \<Rightarrow> (u32 \<Rightarrow> int) \<Rightarrow> nqop \<Rightarrow> bool" where
  "bcn_accepts src home (NArrive p) \<longleftrightarrow> bp_from ''BCN'' src p \<and> p_ispause p = None \<and> from_home home p"
| "bcn_accepts src home (NPull r) \<longleftrightarrow> True"

definition bcn_inv :: "bcn_cfg \<Rightarrow> (u32 \<Rightarrow> int \<times> int) \<Rightarrow> (u32 \<Rightarrow> int) \<Rightarrow> bcnq \<Rightarrow> bool" where
  "bcn_inv cfg src home s \<longleftrightarrow> inserts (bcnInsert cfg) \<and> (\<forall>p\<in>set (nqueue s). from_home home p) \<and>
     backed ''BCN'' src (nqueue s) (nPausedFlow s) (nPausedUp s)"

text \<open>The signals to an upstream queue, those to the source of a flow, and whom a signal is for.\<close>

fun pause_signal :: "int \<times> int \<Rightarrow> neffect \<Rightarrow> bool option" where
  "pause_signal e (BcnPaused i q) = (if (i, q) = e then Some True else None)"
| "pause_signal e (BcnResumed i q) = (if (i, q) = e then Some False else None)"
| "pause_signal e _ = None"

fun rate_signal :: "u32 \<Rightarrow> neffect \<Rightarrow> bool option" where
  "rate_signal k (Decelerate i f a d) = (if f = k then Some True else None)"
| "rate_signal k (Speedup i f a d) = (if f = k then Some False else None)"
| "rate_signal k _ = None"

fun directed :: "int \<Rightarrow> (u32 \<Rightarrow> int) \<Rightarrow> neffect \<Rightarrow> bool" where
  "directed iface home (Decelerate i f a d) \<longleftrightarrow> i = iface \<and> a = home f"
| "directed iface home (Speedup i f a d) \<longleftrightarrow> i = iface \<and> a = home f"
| "directed iface home _ \<longleftrightarrow> True"

abbreviation pause_log :: "int \<times> int \<Rightarrow> neffect list \<Rightarrow> bool list" where
  "pause_log e \<equiv> List.map_filter (pause_signal e)"

abbreviation rate_log :: "u32 \<Rightarrow> neffect list \<Rightarrow> bool list" where
  "rate_log k \<equiv> List.map_filter (rate_signal k)"

lemma map_filter_append: "List.map_filter f (xs @ ys) = List.map_filter f xs @ List.map_filter f ys"
  by (induction xs) (auto simp: map_filter_simps split: option.split)

definition signals_right :: "bcn_cfg \<Rightarrow> (u32 \<Rightarrow> int) \<Rightarrow> bcnq \<Rightarrow> neffect list \<Rightarrow> bcnq \<Rightarrow> bool" where
  "signals_right cfg home s es s' \<longleftrightarrow>
     (\<forall>e. alternates (e \<in> set (nPausedUp s)) (pause_log e es) (e \<in> set (nPausedUp s'))) \<and>
     (\<forall>k. alternates (k \<in> set (nPausedFlow s)) (rate_log k es) (k \<in> set (nPausedFlow s'))) \<and>
     (\<forall>x\<in>set es. directed (bcnInterface cfg) home x)"

lemma signals_none [simp]: "signals_right cfg home s [] s"
  by (simp add: signals_right_def map_filter_simps)

lemma signals_other [simp]:
  "signals_right cfg home s (NEff x # es) s' \<longleftrightarrow> signals_right cfg home s es s'"
  "signals_right cfg home s (es @ [NEff x]) s' \<longleftrightarrow> signals_right cfg home s es s'"
  by (simp_all add: signals_right_def map_filter_append map_filter_simps)

lemma signals_push [simp]:
  "signals_right cfg home s (es @ (if c then [NEff b] else []) @ [NEff d]) s' \<longleftrightarrow> signals_right cfg home s es s'"
  by (cases c) (simp_all add: signals_right_def map_filter_append map_filter_simps)

lemma signals_rightD:
  assumes "signals_right cfg home s es s'"
  shows "alternates (e \<in> set (nPausedUp s)) (pause_log e es) (e \<in> set (nPausedUp s'))"
    and "alternates (k \<in> set (nPausedFlow s)) (rate_log k es) (k \<in> set (nPausedFlow s'))"
    and "\<forall>x\<in>set es. directed (bcnInterface cfg) home x"
  using assms unfolding signals_right_def by blast+

lemma signals_cong:
  "nPausedUp s = nPausedUp t \<Longrightarrow> nPausedFlow s = nPausedFlow t \<Longrightarrow> nPausedUp s' = nPausedUp t' \<Longrightarrow>
   nPausedFlow s' = nPausedFlow t' \<Longrightarrow> signals_right cfg home s es s' \<longleftrightarrow> signals_right cfg home t es t'"
  by (simp add: signals_right_def)

lemma bcn_pauseBlock_step:
  assumes "BCNqueue_pauseBlock cfg p s = Inr (s', es)" and "contains ''BCN'' (p_name p)"
    and "p \<in> set (nqueue s)" and "bcn_inv cfg src home s"
  shows "bcn_inv cfg src home s' \<and> signals_right cfg home s es s'"
proof -
  have b: "backed ''BCN'' src (nqueue s) (nPausedFlow s) (nPausedUp s)" using assms(4) by (simp add: bcn_inv_def)
  have a: "d_src p = home (flow_of p)" using assms(2-4) by (simp add: bcn_inv_def from_home_def)
  from backedD[OF b assms(3,2)] obtain h where h: "p_bfc p = Some h" and t: "p_tags p \<noteq> []"
    and src: "src (flow_of p) = (p_iface p, upstreamQueueID h)" by blast
  let ?f = "flow_of p" and ?e = "(p_iface p, upstreamQueueID h)"
  have s': "nqueue s' = (if ?f \<in> set (nPausedFlow s) then nqueue s else tag_in_queue (p_id p) (nqueue s))"
      "nPausedFlow s' = (if ?f \<in> set (nPausedFlow s) then nPausedFlow s else nPausedFlow s @ [?f])"
      "nPausedUp s' = (if ?e \<in> set (nPausedUp s) then nPausedUp s else nPausedUp s @ [?e])"
    and es: "es = (if ?f \<in> set (nPausedFlow s) then [] else [Decelerate (bcnInterface cfg) ?f (d_src p) (d_dest p)]) @
       (if ?e \<in> set (nPausedUp s) then [] else [BcnPaused (p_iface p) (upstreamQueueID h)])"
    using assms(1) h t
    by (auto simp: BCNqueue_pauseBlock_def bcn_list_flow_def flow_of_def Let_def rbind_eq_Inr split: if_splits)
  have "backed ''BCN'' src (nqueue s') (nPausedFlow s') (nPausedUp s')"
    using backed_pause[OF b assms(3,2)] unfolding src s' .
  moreover have "\<forall>p\<in>set (nqueue s'). from_home home p"
    using assms(4) by (auto simp: s' bcn_inv_def tag_in_queue_def from_home_def flow_of_def)
  moreover have "signals_right cfg home s es s'"
    by (auto simp: signals_right_def s' es a map_filter_simps)
  ultimately show ?thesis using assms(4) by (simp add: bcn_inv_def)
qed

lemma bcn_push_step:
  assumes "BCNqueue_pushPacket cfg p s sb = Inr (s', es)" and "bp_from ''BCN'' src p" and "from_home home p"
    and "bcn_inv cfg src home s"
  shows "bcn_inv cfg src home s' \<and> signals_right cfg home s es s'"
proof -
  let ?s1 = "s\<lparr>nqueue := bcnInsert cfg p (nqueue s)\<rparr>"
  have ins: "inserts (bcnInsert cfg)" and b: "backed ''BCN'' src (nqueue s) (nPausedFlow s) (nPausedUp s)"
    using assms(4) by (simp_all add: bcn_inv_def)
  have set: "set (nqueue ?s1) = insert p (set (nqueue s))"
    using ins by (simp add: inserts_def) (metis set_mset_add_mset_insert set_mset_mset)
  have i1: "bcn_inv cfg src home ?s1" and p: "p \<in> set (nqueue ?s1)"
    using backed_insert[OF b ins assms(2)] assms(3,4) set by (simp_all add: bcn_inv_def del: bcnq.select_convs(1))
  obtain s2 es2 where bl: "(if contains ''BCN'' (p_name p) \<and> bcnUseBfc cfg \<and> BCNqueue_tooLong cfg ?s1 sb
      then BCNqueue_pauseBlock cfg p ?s1 else Inr (?s1, [])) = Inr (s2, es2)"
    and s': "s' = s2" "signals_right cfg home s es s' \<longleftrightarrow> signals_right cfg home s es2 s2"
    using assms(1) by (auto simp: BCNqueue_pushPacket_def Let_def rbind_eq_Inr)
  have same: "signals_right cfg home s es2 s2 \<longleftrightarrow> signals_right cfg home ?s1 es2 s2" by (rule signals_cong) simp_all
  show ?thesis
  proof (cases "contains ''BCN'' (p_name p) \<and> bcnUseBfc cfg \<and> BCNqueue_tooLong cfg ?s1 sb")
    case True
    with bl have "BCNqueue_pauseBlock cfg p ?s1 = Inr (s2, es2)" by simp
    from bcn_pauseBlock_step[OF this _ p i1] True s' same show ?thesis by simp
  next
    case False
    with bl have "s2 = ?s1" "es2 = []" by auto
    with s' same i1 show ?thesis by simp
  qed
qed

lemma bcn_resumeBlock_step:
  assumes r: "BCNqueue_resumeBlock cfg p s = Inr (p', s', es)" and n: "contains ''BCN'' (p_name p)"
    and q: "nqueue s = p # rest" and inv: "bcn_inv cfg src home s"
  shows "bcn_inv cfg src home (s'\<lparr>nqueue := rest\<rparr>) \<and> signals_right cfg home s es s'"
proof -
  have k: "backed ''BCN'' src (p # rest) (nPausedFlow s) (nPausedUp s)" and a: "d_src p = home (flow_of p)"
    using inv q n by (simp_all add: bcn_inv_def from_home_def)
  from backedD[OF k _ n] obtain h where h: "p_bfc p = Some h" and t: "p_tags p \<noteq> []"
    and src: "src (flow_of p) = (p_iface p, upstreamQueueID h)" by auto
  let ?f = "flow_of p" and ?e = "(p_iface p, upstreamQueueID h)"
  show ?thesis
  proof (cases "p_ispause p = Some True")
    case True
    with r h t have s': "nPausedFlow s' = filter (\<lambda>f. f \<noteq> ?f) (nPausedFlow s)"
      "nPausedUp s' = filter (\<lambda>e. e \<noteq> ?e) (nPausedUp s)" "nqueue s' = nqueue s"
      and es: "es = (if ?f \<in> set (nPausedFlow s) then [Speedup (bcnInterface cfg) ?f (d_src p) (d_dest p)] else []) @
         (if ?e \<in> set (nPausedUp s) then [BcnResumed (p_iface p) (upstreamQueueID h)] else [])"
      by (auto simp: BCNqueue_resumeBlock_def bcn_unlist_flow_def flow_of_def Let_def rbind_eq_Inr split: if_splits
          intro!: filter_id_conv[THEN iffD2, symmetric])
    with backed_pull[OF k n True] inv q have "bcn_inv cfg src home (s'\<lparr>nqueue := rest\<rparr>)" by (simp add: bcn_inv_def src)
    moreover have "signals_right cfg home s es s'" by (auto simp: signals_right_def s' es a map_filter_simps)
    ultimately show ?thesis ..
  next
    case False
    with r h have s': "s' = s" "es = []" by (auto simp: BCNqueue_resumeBlock_def rbind_eq_Inr Let_def split: if_splits)
    have "backed ''BCN'' src rest (nPausedFlow s) (nPausedUp s)" by (rule backed_drop[OF k]) (use False in blast)
    with inv q show ?thesis by (simp add: bcn_inv_def s')
  qed
qed

lemma bcn_red_frame:
  "BCNqueue_doRandomEarlyDetection cfg r s = (x, t) \<Longrightarrow>
     nqueue t = nqueue s \<and> nPausedFlow t = nPausedFlow s \<and> nPausedUp t = nPausedUp s"
  by (auto simp: BCNqueue_doRandomEarlyDetection_def Let_def split: if_splits)

lemma bcn_mark_frame:
  "BCNqueue_markEcn p s = (q, t) \<Longrightarrow>
     nqueue t = nqueue s \<and> nPausedFlow t = nPausedFlow s \<and> nPausedUp t = nPausedUp s \<and> p_bfc q = p_bfc p"
  by (auto simp: BCNqueue_markEcn_def Let_def setEcn_def split: if_splits option.splits)

lemma bcn_pull_Inr:
  assumes "BCNqueue_pullPacket cfg r (s, sb) = Inr (p', (s', sb'), es)"
  obtains p rest p1 s1 es1 where "nqueue s = p # rest"
    and "(if contains ''BCN'' (p_name p) then BCNqueue_resumeBlock cfg p s else Inr (p, s, [])) = Inr (p1, s1, es1)"
    and "nqueue s' = rest" "nPausedFlow s' = nPausedFlow s1" "nPausedUp s' = nPausedUp s1"
    and "p_bfc p' = p_bfc p1" "es = es1 @ [NEff (Pulled (p_id p))]"
proof (cases "nqueue s")
  case Nil
  with assms show thesis by (simp add: BCNqueue_pullPacket_def)
next
  case (Cons p rest)
  with assms obtain p1 s1 es1 where b: "(if contains ''BCN'' (p_name p) then BCNqueue_resumeBlock cfg p s
      else Inr (p, s, [])) = Inr (p1, s1, es1)"
    by (auto simp: BCNqueue_pullPacket_def rbind_eq_Inr split del: if_split cong: if_cong)
  obtain x s2 where red: "BCNqueue_doRandomEarlyDetection cfg r (s1\<lparr>nqueue := rest\<rparr>) = (x, s2)" by fastforce
  obtain p2 s4 where mark: "(if (x = RANDOMLY_ABOVE_LIMIT \<or> x = ABOVE_MAX_LIMIT) \<and> bcnUseEcn cfg
      then BCNqueue_markEcn p1 (s2\<lparr>nlastResult := x\<rparr>) else (p1, s2\<lparr>nlastResult := x\<rparr>)) = (p2, s4)" by fastforce
  have f: "nqueue s4 = rest" "nPausedFlow s4 = nPausedFlow s1" "nPausedUp s4 = nPausedUp s1" "p_bfc p2 = p_bfc p1"
    using bcn_red_frame[OF red] mark by (auto split: if_splits dest: bcn_mark_frame)
  from assms Cons b red mark have o: "p' = p2" "s' = s4" "es = es1 @ [NEff (Pulled (p_id p))]"
    by (simp_all add: BCNqueue_pullPacket_def Let_def del: fun_upd_apply cong: if_cong)
  show thesis by (rule that[OF Cons b]) (simp_all add: f o)
qed

lemma bcn_pull_step:
  assumes "BCNqueue_pullPacket cfg r (s, sb) = Inr (p', (s', sb'), es)" and "bcn_inv cfg src home s"
  shows "bcn_inv cfg src home s' \<and> signals_right cfg home s es s'"
  using assms(1)
proof (rule bcn_pull_Inr)
  fix p rest p1 s1 es1
  assume q: "nqueue s = p # rest"
    and b: "(if contains ''BCN'' (p_name p) then BCNqueue_resumeBlock cfg p s else Inr (p, s, [])) = Inr (p1, s1, es1)"
    and s': "nqueue s' = rest" "nPausedFlow s' = nPausedFlow s1" "nPausedUp s' = nPausedUp s1"
    and es: "es = es1 @ [NEff (Pulled (p_id p))]"
  have "bcn_inv cfg src home (s1\<lparr>nqueue := rest\<rparr>) \<and> signals_right cfg home s es1 s1"
  proof (cases "contains ''BCN'' (p_name p)")
    case True
    with b have "BCNqueue_resumeBlock cfg p s = Inr (p1, s1, es1)" by simp
    from bcn_resumeBlock_step[OF this True q assms(2)] show ?thesis .
  next
    case False
    with b q have "s1 = s" "es1 = []" by auto
    moreover have "backed ''BCN'' src rest (nPausedFlow s) (nPausedUp s)"
      by (rule backed_drop) (use assms(2) q False in \<open>auto simp: bcn_inv_def\<close>)
    ultimately show ?thesis using assms(2) q by (simp add: bcn_inv_def)
  qed
  moreover have "signals_right cfg home s es1 s1 \<longleftrightarrow> signals_right cfg home s es1 s'" by (rule signals_cong) (simp_all add: s')
  ultimately show ?thesis by (simp add: es bcn_inv_def s')
qed

lemma bcn_admission_frame:
  "BCNqueue_BufferManagement cfg p s sb = Inr (ok, s', sb') \<Longrightarrow>
     nqueue s' = nqueue s \<and> nPausedFlow s' = nPausedFlow s \<and> nPausedUp s' = nPausedUp s"
  by (auto simp: BCNqueue_BufferManagement_def Let_def rbind_eq_Inr split: if_splits)

lemma bcn_step:
  assumes "BCNqueue_step cfg x (s, sb) = Inr ((s', sb'), es)" and "bcn_accepts src home x" and "bcn_inv cfg src home s"
  shows "bcn_inv cfg src home s' \<and> signals_right cfg home s es s'"
proof (cases x)
  case (NPull r)
  with assms bcn_pull_step[OF _ assms(3), of r sb _ s' sb' es] show ?thesis by (auto simp: rbind_eq_Inr)
next
  case (NArrive p)
  with assms(1) obtain ok t sb1 where bm: "BCNqueue_BufferManagement cfg p s sb = Inr (ok, t, sb1)"
    and rest: "(if ok then rbind (BCNqueue_pushPacket cfg p t sb1) (\<lambda>(s', es). Inr ((s', sb1), es))
         else Inr ((t, sb1), [NEff (Dropped (p_id p))])) = Inr ((s', sb'), es)"
    by (auto simp: BCNqueue_handleMessage_def rbind_eq_Inr simp del: if_split split del: if_split)
  note f = bcn_admission_frame[OF bm]
  have t: "bcn_inv cfg src home t" "signals_right cfg home s fs u \<longleftrightarrow> signals_right cfg home t fs u" for fs u
    using f assms(3) by (auto simp: bcn_inv_def signals_right_def)
  show ?thesis
  proof (cases ok)
    case True
    with rest have "BCNqueue_pushPacket cfg p t sb1 = Inr (s', es)" by (auto simp: rbind_eq_Inr)
    from bcn_push_step[OF this _ _ t(1)] assms(2) NArrive t(2) show ?thesis by simp
  next
    case False
    with rest t show ?thesis by auto
  qed
qed

interpretation bcn_pause: signalled_machine
    "BCNqueue_step cfg" "\<lambda>st. bcn_inv cfg src home (fst st)" "bcn_accepts src home"
    "pause_log e" "\<lambda>st. e \<in> set (nPausedUp (fst st))" for cfg src home e
  by unfold_locales (auto simp: map_filter_append map_filter_simps dest!: bcn_step intro: signals_rightD(1,2))

interpretation bcn_rate: signalled_machine
    "BCNqueue_step cfg" "\<lambda>st. bcn_inv cfg src home (fst st)" "bcn_accepts src home"
    "rate_log k" "\<lambda>st. k \<in> set (nPausedFlow (fst st))" for cfg src home k
  by unfold_locales (auto simp: map_filter_append map_filter_simps dest!: bcn_step intro: signals_rightD(1,2))

interpretation bcn_directed: recorded_machine
    "BCNqueue_step cfg" "\<lambda>st. bcn_inv cfg src home (fst st)" "bcn_accepts src home"
    "\<lambda>st es. \<forall>x\<in>set es. directed (bcnInterface cfg) home x" for cfg src home
  by unfold_locales (auto dest!: bcn_step dest: signals_rightD(3))

text \<open>C16: Each flow told to slow down is told to speed up again.  When every flow comes from one upstream queue
  and one host, then from initialisation on the decelerations and speedups of a flow alternate, as do the pauses
  and resumes of an upstream queue, and once the queue has drained each has had its answer.\<close>

theorem bcn_every_deceleration_answered:
  assumes "BCNqueue_initialize cfg par sb0 = Inr (s, sb)" and "inserts (bcnInsert cfg)"
    and "\<forall>x\<in>set ops. bcn_accepts src home x"
    and "run_out (BCNqueue_step cfg) ops (s, sb) = Inr ((s', sb'), es)"
  shows "alternates False (rate_log k es) (k \<in> set (nPausedFlow s')) \<and>
     alternates False (pause_log e es) (e \<in> set (nPausedUp s')) \<and>
     (nqueue s' = [] \<longrightarrow> nPausedFlow s' = [] \<and> nPausedUp s' = [] \<and>
        length (filter (\<lambda>b. b) (rate_log k es)) = length (filter Not (rate_log k es)))"
proof -
  have s: "nPausedFlow s = []" "nPausedUp s = []" "nqueue s = []"
    using assms(1) by (auto simp: BCNqueue_initialize_def split: if_splits)
  then have i: "bcn_inv cfg src home (fst (s, sb))" using assms(2) by (simp add: bcn_inv_def)
  have a: "alternates False (rate_log k es) (k \<in> set (nPausedFlow s'))"
    using bcn_rate.signal_run[OF i assms(3,4), of k] s by simp
  have p: "alternates False (pause_log e es) (e \<in> set (nPausedUp s'))"
    using bcn_pause.signal_run[OF i assms(3,4), of e] s by simp
  have "bcn_inv cfg src home s'" using bcn_pause.inv_run[OF i assms(3,4)] by simp
  then have "nqueue s' = [] \<longrightarrow> nPausedFlow s' = [] \<and> nPausedUp s' = []" by (auto simp: bcn_inv_def dest: backed_empty)
  with a p alternates_balance[OF a] show ?thesis by auto
qed


definition sample_bcn_cfg :: bcn_cfg where
  "sample_bcn_cfg = \<lparr>bcnPacketCapacity = -1, bcnDataCapacity = 1000, bcnHeadroom = 0, bcnAlpha = 1, bcnUseBfc = True,
     bcnXOFF = 100, bcnKmax = 50, bcnKmin = 20, bcnPmax = 1, bcnUseEcn = True, bcnSwitchid = 3, bcnNumb = 1,
     bcnInterface = 7, bcnHasDropper = True, bcnHasCollector = True, bcnInsert = fifo_insert\<rparr>"

definition sample_bcn_pkt :: "nat \<Rightarrow> u32 \<Rightarrow> dgram" where
  "sample_bcn_pkt i fl = \<lparr>p_id = i, p_name = ''BCNData-1'', p_len = 900, p_iface = 5, p_ecn = Some ECT0,
     p_tags = [\<lparr>ht_flowid = fl, ht_priority = 0, ht_flowsize = 0, ht_cretime = 0, ht_packetid = 0, ht_last = False,
        ht_queueid = 0, ht_decel = False, ht_speedup = False, ht_sender_priority = -1\<rparr>],
     p_bfc = Some \<lparr>upstreamQueueID = 2, queueID = 4\<rparr>, p_ispause = None, d_src = 11, d_dest = 12, d_sport = 0,
     d_dport = 0, d_ecn = 0, d_recRate = 0, d_int = None, d_psd = None, d_sack = None, d_time = 0\<rparr>"

definition sample_bcnq :: bcnq where
  "sample_bcnq = \<lparr>nqueue = [], nPausedFlow = [], nPausedUp = [], nmarkNext = False, nredCount = -1,
     nmaxSize = 0, nlastResult = BELOW_MIN_LIMIT, sendcnpdel = 0, sendcnpspe = 0\<rparr>"

lemmas bcn_eval = sample_bcn_cfg_def sample_bcn_pkt_def sample_bcnq_def BCNqueue_handleMessage_def BCNqueue_pushPacket_def
  BCNqueue_pauseBlock_def BCNqueue_tooLong_def BCNqueue_pullPacket_def BCNqueue_resumeBlock_def bcn_list_flow_def
  bcn_unlist_flow_def BCNqueue_doRandomEarlyDetection_def BCNqueue_markEcn_def BCNqueue_credit_def
  BCNqueue_BufferManagement_def BCNqueue_isOverloaded_def BCNqueue_getNumPackets_def BCNqueue_initialize_def
  fifo_insert_def tag_in_queue_def byteLength_def bytes_of_def getEcn_def setEcn_def Let_def

lemma bcn_sample_run:
  obtains s sb s' sb' es where "BCNqueue_initialize sample_bcn_cfg 500 (\<lambda>_. 0) = Inr (s, sb)"
    and "run_out (BCNqueue_step sample_bcn_cfg) [NArrive (sample_bcn_pkt 1 9), NPull 0] (s, sb) = Inr ((s', sb'), es)"
    and "es = [NEff (PushStarted 1), Decelerate 7 9 11 12, BcnPaused 5 2, NEff NotifyCollector, NEff PushEnded,
               Speedup 7 9 11 12, BcnResumed 5 2, NEff (Pulled 1)]"
    and "nqueue s' = []"
proof -
  have "BCNqueue_initialize sample_bcn_cfg 500 (\<lambda>_. 0) = Inr (sample_bcnq, (\<lambda>_. 0)((3, 1) := 500))"
    by (simp add: bcn_eval)
  then show thesis by (rule that) ((simp add: bcn_eval)+)
qed

lemma bcn_sample_accepts:
  "inserts (bcnInsert sample_bcn_cfg) \<and> (\<forall>x\<in>set [NArrive (sample_bcn_pkt 1 9), NPull 0]. bcn_accepts (\<lambda>_. (5, 2)) (\<lambda>_. 11) x)"
  by (simp add: bp_from_def flow_of_def from_home_def sample_bcn_pkt_def sample_bcn_cfg_def inserts_fifo)

theorem bcn_every_deceleration_answered_witness:
  "\<exists>s sb s' sb' es. BCNqueue_initialize sample_bcn_cfg 500 (\<lambda>_. 0) = Inr (s, sb) \<and>
     run_out (BCNqueue_step sample_bcn_cfg) [NArrive (sample_bcn_pkt 1 9), NPull 0] (s, sb) = Inr ((s', sb'), es) \<and>
     rate_log 9 es = [True, False] \<and> nPausedFlow s' = []"
proof (rule bcn_sample_run)
  fix s sb s' sb' es
  assume i: "BCNqueue_initialize sample_bcn_cfg 500 (\<lambda>_. 0) = Inr (s, sb)"
    and r: "run_out (BCNqueue_step sample_bcn_cfg) [NArrive (sample_bcn_pkt 1 9), NPull 0] (s, sb) = Inr ((s', sb'), es)"
    and es: "es = [NEff (PushStarted 1), Decelerate 7 9 11 12, BcnPaused 5 2, NEff NotifyCollector, NEff PushEnded,
               Speedup 7 9 11 12, BcnResumed 5 2, NEff (Pulled 1)]" and q: "nqueue s' = []"
  from bcn_every_deceleration_answered[OF i _ _ r, of "\<lambda>_. (5, 2)" "\<lambda>_. 11"] bcn_sample_accepts q
  have "nPausedFlow s' = []" by simp
  moreover have "rate_log 9 es = [True, False]" by (simp add: es map_filter_simps)
  ultimately show ?thesis using i r by blast
qed


subsection \<open>From the queue to the source\<close>

text \<open>The notifications a source receives, and what one says of flow \<open>k\<close>.\<close>

fun received_cnps :: "(simtime \<times> cc_op) list \<Rightarrow> dgram list" where
  "received_cnps [] = []"
| "received_cnps ((now, Lower p) # xs) = (if contains ''routerCNP'' (p_name p) then p # received_cnps xs else received_cnps xs)"
| "received_cnps (_ # xs) = received_cnps xs"

definition cnp_says :: "u32 \<Rightarrow> dgram \<Rightarrow> bool option" where
  "cnp_says k p =
     (if p_tags p \<noteq> [] \<and> ht_flowid (last (p_tags p)) = k \<and> (ht_decel (last (p_tags p)) \<or> ht_speedup (last (p_tags p)))
      then Some (ht_decel (last (p_tags p))) else None)"

lemma notices_received: "notices k xs = List.map_filter (cnp_says k) (received_cnps xs)"
  by (induction k xs rule: notices.induct) (auto simp: cnp_says_def map_filter_simps)

text \<open>The packets the MAC makes of the signals, and those of them for one host.\<close>

abbreviation cnps_to :: "int \<Rightarrow> int \<Rightarrow> int \<Rightarrow> neffect list \<Rightarrow> dgram list" where
  "cnps_to host iface addr es \<equiv> filter (\<lambda>p. d_dest p = host) (concat (map (BCNMac_processsendbfccnp iface addr) es))"

lemma cnps_say:
  assumes "\<forall>x\<in>set es. directed iface home x"
  shows "List.map_filter (cnp_says k) (cnps_to (home k) iface addr es) = rate_log k es"
  using assms
proof (induction es)
  case Nil
  then show ?case by (simp add: map_filter_simps)
next
  case (Cons x es)
  then have IH: "List.map_filter (cnp_says k) (cnps_to (home k) iface addr es) = rate_log k es" and d: "directed iface home x" by simp_all
  have one: "List.map_filter (cnp_says k) (filter (\<lambda>p. d_dest p = home k) (BCNMac_processsendbfccnp iface addr x)) = rate_log k [x]"
    using d by (cases x) (auto simp: map_filter_simps cnp_says_def router_cnp_def)
  have "cnps_to (home k) iface addr (x # es) =
      filter (\<lambda>p. d_dest p = home k) (BCNMac_processsendbfccnp iface addr x) @ cnps_to (home k) iface addr es" by simp
  then show ?case using IH one map_filter_append[of "rate_signal k" "[x]" es] by (simp only: map_filter_append append_Cons append_Nil)
qed

lemma cnps_named: "\<forall>p\<in>set (cnps_to host iface addr es). contains ''routerCNP'' (p_name p)"
proof -
  have "contains ''routerCNP'' (p_name p)" if "p \<in> set (BCNMac_processsendbfccnp iface addr x)" for p x
    using that by (cases x) (auto simp: router_cnp_def split: if_splits)
  then show ?thesis by auto
qed

text \<open>C15: Congestion raises the rate of a BCN flow.  Let a queue run from initialisation until it has drained, its MAC
  make packets of its signals and the source of flow \<open>k\<close> receive those for it, in order and among other events.
  While at least half of the flow is left, its rate has then grown by a fifth for each time the queue told it to
  slow down, whatever the rate of the link.\<close>

theorem bcn_congestion_raises_rate:
  assumes "BCNqueue_initialize qcfg par sb0 = Inr (q, sb)" and "inserts (bcnInsert qcfg)"
    and "\<forall>x\<in>set ops. bcn_accepts src home x"
    and "run_out (BCNqueue_step qcfg) ops (q, sb) = Inr ((q', sb'), es)" and "nqueue q' = []"
    and "received_cnps xs = cnps_to (home k) (bcnInterface qcfg) addr es"
    and "run_out (BCN_handleMessage cfg) xs s = Inr (s', out)" and "bp_inv cfg s"
    and "\<forall>x\<in>set xs. bp_accepts ''BCN'' cfg x \<and> new_flow (activate cfg) x \<noteq> Some k"
    and "map_get (sender_flowMap s) k = Some f" and "remainLength f < 2 ^ 64"
    and "map_get (sender_flowMap s') k = Some f'" and "0 < remainLength f'" and "\<not> below_half f'"
  shows "currentRate f' = currentRate f * (12 / 10) ^ length (filter (\<lambda>b. b) (rate_log k es))"
proof -
  have q: "nPausedFlow q = []" "nPausedUp q = []" "nqueue q = []"
    using assms(1) by (auto simp: BCNqueue_initialize_def split: if_splits)
  then have i: "bcn_inv qcfg src home (fst (q, sb))" using assms(2) by (simp add: bcn_inv_def)
  have "\<forall>x\<in>set es. directed (bcnInterface qcfg) home x"
    using bcn_directed.record_run[OF i assms(3) _ assms(4), of "[]"] by simp
  from cnps_say[OF this] have n: "notices k xs = rate_log k es" by (simp add: notices_received assms(6))
  have "bcn_inv qcfg src home q'" using bcn_pause.inv_run[OF i assms(3,4)] by simp
  then have "nPausedFlow q' = []" using assms(5) by (auto simp: bcn_inv_def dest: backed_empty)
  with bcn_rate.signal_run[OF i assms(3,4), of k] q have a: "alternates False (rate_log k es) False" by simp
  from bcn_run_rate[OF assms(7-14), of False False "currentRate f"] a n
  have "currentRate f' = currentRate f * (12 / 10) ^ speedups (rate_log k es)" by simp
  with alternates_balance[OF a] show ?thesis by (simp add: speedups_def)
qed


definition sample_cnps :: "(simtime \<times> cc_op) list" where
  "sample_cnps = [(0, Lower (router_cnp ''routerCNP_del_'' 20 9 11 True)), (0, Lower (router_cnp ''routerCNP_spe_'' 20 9 11 False))]"

lemma sample_bp_run:
  obtains s' out f' where "run_out (BCN_handleMessage sample_bp_cfg) sample_cnps sample_bp = Inr (s', out)"
    and "map_get (sender_flowMap s') 9 = Some f'" and "remainLength f' = 1000" and "flow_size f' = 1000" and "currentRate f' = 12"
proof -
  show thesis
    by (rule that) ((simp add: sample_cnps_def sample_bp_def sample_bp_flow_def BCN_initialize_def bp_initialize_def router_cnp_def
      BCN_handleMessage_def BCN_processLowerpck_def BCN_receive_bfccnp_def last_tag_def packet.truncate_def
      put_flow_def bcn_decelerate_def bcn_speedup_def below_half_def)+)
qed


theorem bcn_congestion_raises_rate_witness:
  "\<exists>s' out f'. run_out (BCN_handleMessage sample_bp_cfg) sample_cnps sample_bp = Inr (s', out) \<and>
     map_get (sender_flowMap s') 9 = Some f' \<and> currentRate f' = 10 * (12 / 10) ^ 1 \<and> 10 < currentRate f'"
proof (rule bcn_sample_run)
  fix q sb q' sb' es
  assume i: "BCNqueue_initialize sample_bcn_cfg 500 (\<lambda>_. 0) = Inr (q, sb)"
    and r: "run_out (BCNqueue_step sample_bcn_cfg) [NArrive (sample_bcn_pkt 1 9), NPull 0] (q, sb) = Inr ((q', sb'), es)"
    and es: "es = [NEff (PushStarted 1), Decelerate 7 9 11 12, BcnPaused 5 2, NEff NotifyCollector, NEff PushEnded,
               Speedup 7 9 11 12, BcnResumed 5 2, NEff (Pulled 1)]" and q: "nqueue q' = []"
  obtain s' out f' where run: "run_out (BCN_handleMessage sample_bp_cfg) sample_cnps sample_bp = Inr (s', out)"
    and f': "map_get (sender_flowMap s') 9 = Some f'" "remainLength f' = 1000" "flow_size f' = 1000"
    by (rule sample_bp_run)
  have got: "received_cnps sample_cnps = cnps_to 11 (bcnInterface sample_bcn_cfg) 20 es"
    by (simp add: sample_cnps_def es sample_bcn_cfg_def router_cnp_def)
  have log: "rate_log 9 es = [True, False]" by (simp add: es map_filter_simps)
  have f: "map_get (sender_flowMap sample_bp) 9 = Some sample_bp_flow" by (simp add: sample_bp_def)
  have acc: "\<forall>x\<in>set sample_cnps. bp_accepts ''BCN'' sample_bp_cfg x \<and> new_flow (activate sample_bp_cfg) x \<noteq> Some 9"
    by (simp add: sample_cnps_def sample_bp_cfg_def)
  have "currentRate f' = currentRate sample_bp_flow * (12 / 10) ^ length (filter (\<lambda>b. b) (rate_log 9 es))"
    by (rule bcn_congestion_raises_rate[OF i _ _ r q, where src = "\<lambda>_. (5, 2)" and home = "\<lambda>_. 11" and xs = sample_cnps
          and addr = 20 and cfg = sample_bp_cfg and s = sample_bp and s' = s' and out = out])
      (use bcn_sample_accepts got run sample_bp_inv acc f f' in \<open>simp_all add: sample_bp_flow_def below_half_def\<close>)
  with run f' log show ?thesis by (auto simp: sample_bp_flow_def)
qed

end
