(* ===== verification/BFC_Mac.thy ===== *)
theory BFC_Mac
  imports Ethernet_Mac BFC_Queue Pause_Schedulers
begin

section \<open>BFCMac: the MAC that carries the commands of the backpressure queues\<close>

text \<open>
  \<open>HiNA/Ethernet/BFCMac\<close>, whose code \<open>BCNMac\<close> repeats up to the notifications (in \<open>BCN_Queue\<close>).  The
  transmitter is the one of \<open>HiEthernetMac\<close> without the telemetry; its statistics end an interval while a
  frame is being sent.  The signals of the queues become frames of 20 bytes with the number of the
  queue to pause or resume, an \<open>int16_t\<close>.  The class has the members of \<open>mac\<close> but \<open>deqrate\<close>, which nothing
  here touches, and its own \<open>pribitpersec\<close>, an array of \<open>unsigned long\<close>.
\<close>

record bfcmac = mac +
  pribitpersec :: "u64 list"
  senddeceleration :: int
  sendspeedup :: int


text \<open>The rates of an interval; a quotient by an empty interval is not a number an \<open>unsigned long\<close> can hold.\<close>

fun bfc_rates :: "simtime \<Rightarrow> int list \<Rightarrow> u64 list res" where
  "bfc_rates duration [] = Inr []"
| "bfc_rates duration (bits # bs) =
     (if duration = 0 then Inl FloatConversion
      else rbind (dbl_to_u64 (of_int bits / duration)) (\<lambda>r. rbind (bfc_rates duration bs) (\<lambda>rs. Inr (r # rs))))"

definition BFCMac_beginNewInterval :: "simtime \<Rightarrow> bfcmac \<Rightarrow> bfcmac res" where
  "BFCMac_beginNewInterval now s =
     rbind (bfc_rates (now - intvlStartTime s) (intvlPriBits s)) (\<lambda>rs.
       Inr (s\<lparr>pribitpersec := rs, intvlPriBits := map (\<lambda>_. 0) (intvlPriBits s),
              intvlStartTime := now, intvlNumPackets := 0, intvlNumBits := 0\<rparr>))"

text \<open>The local \<open>priority\<close> is never set: it holds \<open>stackPriority\<close>.\<close>

definition BFCMac_updateStats :: "mac_cfg \<Rightarrow> simtime \<Rightarrow> frame \<Rightarrow> bfcmac \<Rightarrow> bfcmac res" where
  "BFCMac_updateStats cfg now f s =
     (let bits = p_bits f;
          priority = (if stackPriority cfg > 11 \<or> stackPriority cfg < 0 then 10 else stackPriority cfg)
      in if nat priority \<ge> length (intvlPriBits s) then Inl OutOfBounds
         else
           let s1 = s\<lparr>numPackets := numPackets s + 1, numBits := numBits s + bits,
                      intvlNumPackets := intvlNumPackets s + 1, intvlNumBits := intvlNumBits s + bits,
                      intvlPriBits := (intvlPriBits s)[nat priority := intvlPriBits s ! nat priority + bits]\<rparr>
           in if intvlNumPackets s1 \<ge> uint (batchSize cfg) \<or> now - intvlStartTime s1 \<ge> maxInterval cfg
              then BFCMac_beginNewInterval now s1 else Inr s1)"

definition BFCMac_startFrameTransmission :: "mac_cfg \<Rightarrow> simtime \<Rightarrow> bfcmac \<Rightarrow> (bfcmac \<times> meffect list) res" where
  "BFCMac_startFrameTransmission cfg now s =
     (case currentTxFrame s of
        None \<Rightarrow> Inl (RuntimeError ''ASSERT: currentTxFrame'')
      | Some frame \<Rightarrow>
          if f_src frame = Unspecified then Inl (RuntimeError ''ASSERT: source address'')
          else
            let f = EthernetMacBase_encapsulate frame in
            rbind (BFCMac_updateStats cfg now f s) (\<lambda>s1.
              if curTxSignal s1 \<noteq> None then Inl (RuntimeError ''ASSERT: curTxSignal'')
              else if endTxTimer s1 \<noteq> None then Inl AlreadyScheduled
              else
                let t = txFinishTime cfg now f in
                Inr (s1\<lparr>curTxSignal := Some f, endTxTimer := Some t, transmitState := TRANSMITTING_STATE\<rparr>,
                     [MacSend f, ArmEndTx t])))"

definition BFCMac_handleUpperPacket :: "mac_cfg \<Rightarrow> simtime \<Rightarrow> frame \<Rightarrow> bfcmac \<Rightarrow> (bfcmac \<times> meffect list) res" where
  "BFCMac_handleUpperPacket cfg now pck s =
     (let s1 = s\<lparr>numFramesFromHL := numFramesFromHL s + 1\<rparr> in
      if f_dest pck = macAddress cfg then Inl (RuntimeError ''logic error: frame has local MAC address as dest'')
      else if p_bits pck > 8 * 1526 then Inl (RuntimeError ''packet from higher layer exceeds maximum Ethernet frame size'')
      else if \<not> connected cfg then
        Inr (s1\<lparr>numDroppedPkFromHLIfaceDown := numDroppedPkFromHLIfaceDown s1 + 1\<rparr>, [MacDrop pck])
      else
        let pck1 = (if f_src pck = Unspecified then pck\<lparr>f_src := macAddress cfg\<rparr> else pck) in
        if transmitState s1 \<noteq> TX_IDLE_STATE then Inl (RuntimeError ''not in TX_IDLE_STATE when packet arrived from upper layer'')
        else if currentTxFrame s1 \<noteq> None then Inl (RuntimeError ''already has a transmit packet'')
        else BFCMac_startFrameTransmission cfg now
               (s1\<lparr>currentTxFrame := Some (EthernetMacBase_addPaddingAndSetFcs pck1 64)\<rparr>))"

definition BFCMac_scheduleEndIFGPeriod :: "mac_cfg \<Rightarrow> simtime \<Rightarrow> bfcmac \<Rightarrow> (bfcmac \<times> meffect list) res" where
  "BFCMac_scheduleEndIFGPeriod cfg now s =
     (if currentTxFrame s \<noteq> None then Inl (RuntimeError ''ASSERT: currentTxFrame is null'')
      else if txrate cfg = 0 then Inl SimTimeOverflow
      else if endIfgTimer s \<noteq> None then Inl AlreadyScheduled
      else
        let t = now + 96 / txrate cfg in
        Inr (s\<lparr>transmitState := WAIT_IFG_STATE, endIfgTimer := Some t\<rparr>, [ArmEndIfg t]))"

definition BFCMac_scheduleEndPausePeriod ::
    "mac_cfg \<Rightarrow> simtime \<Rightarrow> int \<Rightarrow> bfcmac \<Rightarrow> (bfcmac \<times> meffect list) res" where
  "BFCMac_scheduleEndPausePeriod cfg now pauseUnits s =
     (if currentTxFrame s \<noteq> None then Inl (RuntimeError ''ASSERT: currentTxFrame is null'')
      else if txrate cfg = 0 then Inl SimTimeOverflow
      else if pauseUnits < 0 then Inl (RuntimeError ''cannot schedule a message to the past'')
      else if endPauseTimer s \<noteq> None then Inl AlreadyScheduled
      else
        let t = now + of_int (pauseUnits * 512) / txrate cfg in
        Inr (s\<lparr>endPauseTimer := Some t, transmitState := PAUSE_STATE\<rparr>, [ArmEndPause t]))"

definition BFCMac_processPauseCommand ::
    "mac_cfg \<Rightarrow> simtime \<Rightarrow> int \<Rightarrow> bfcmac \<Rightarrow> (bfcmac \<times> meffect list) res" where
  "BFCMac_processPauseCommand cfg now pauseUnits s =
     (case transmitState s of
        TX_IDLE_STATE \<Rightarrow>
          (if pauseUnits > 0 then BFCMac_scheduleEndPausePeriod cfg now pauseUnits s else Inr (s, []))
      | PAUSE_STATE \<Rightarrow> BFCMac_scheduleEndPausePeriod cfg now pauseUnits (s\<lparr>endPauseTimer := None\<rparr>)
      | _ \<Rightarrow> Inr (s\<lparr>pauseUnitsRequested := pauseUnits\<rparr>, []))"

definition BFCMac_dequeue ::
    "mac_cfg \<Rightarrow> ('q \<Rightarrow> bool) \<Rightarrow> (frame, 'q) provider \<Rightarrow> simtime \<Rightarrow> bfcmac \<times> 'q \<Rightarrow>
       ((bfcmac \<times> 'q) \<times> meffect list) res" where
  "BFCMac_dequeue cfg can deq now st =
     (if can (snd st) then
        rbind (deq (snd st)) (\<lambda>(pck, q, qes).
          rbind (BFCMac_handleUpperPacket cfg now pck (fst st)) (\<lambda>(s, es).
            Inr ((s, q), map MacQueue qes @ es)))
      else Inr (st, []))"

definition BFCMac_handleEndIFGPeriod ::
    "mac_cfg \<Rightarrow> ('q \<Rightarrow> bool) \<Rightarrow> (frame, 'q) provider \<Rightarrow> simtime \<Rightarrow> bfcmac \<times> 'q \<Rightarrow>
       ((bfcmac \<times> 'q) \<times> meffect list) res" where
  "BFCMac_handleEndIFGPeriod cfg can deq now st =
     (let s = fst st in
      if currentTxFrame s \<noteq> None then Inl (RuntimeError ''ASSERT: currentTxFrame is null'')
      else if transmitState s \<noteq> WAIT_IFG_STATE then Inl (RuntimeError ''Not in WAIT_IFG_STATE at the end of IFG period'')
      else BFCMac_dequeue cfg can deq now (s\<lparr>transmitState := TX_IDLE_STATE\<rparr>, snd st))"

definition BFCMac_handleEndPausePeriod ::
    "mac_cfg \<Rightarrow> ('q \<Rightarrow> bool) \<Rightarrow> (frame, 'q) provider \<Rightarrow> simtime \<Rightarrow> bfcmac \<times> 'q \<Rightarrow>
       ((bfcmac \<times> 'q) \<times> meffect list) res" where
  "BFCMac_handleEndPausePeriod cfg can deq now st =
     (let s = fst st in
      if currentTxFrame s \<noteq> None then Inl (RuntimeError ''ASSERT: currentTxFrame is null'')
      else if transmitState s \<noteq> PAUSE_STATE then Inl (RuntimeError ''End of PAUSE event occurred when not in PAUSE_STATE!'')
      else BFCMac_dequeue cfg can deq now (s\<lparr>transmitState := TX_IDLE_STATE\<rparr>, snd st))"

definition BFCMac_handleEndTxPeriod :: "mac_cfg \<Rightarrow> simtime \<Rightarrow> bfcmac \<Rightarrow> (bfcmac \<times> meffect list) res" where
  "BFCMac_handleEndTxPeriod cfg now s =
     (if transmitState s \<noteq> TRANSMITTING_STATE then Inl (RuntimeError ''End of transmission, and incorrect state detected'')
      else case currentTxFrame s of
        None \<Rightarrow> Inl (RuntimeError ''Frame under transmission cannot be found'')
      | Some f \<Rightarrow>
          if curTxSignal s = None then Inl (RuntimeError ''ASSERT: curTxSignal'')
          else
            let s1 = s\<lparr>numFramesSent := numFramesSent s + 1, numBytesSent := numBytesSent s + EthernetMacBase_frameBytes f,
                       curTxSignal := None,
                       numPauseFramesSent := numPauseFramesSent s + (case f_kind f of PauseFrame _ \<Rightarrow> 1 | _ \<Rightarrow> 0),
                       currentTxFrame := None, lastTxFinishTime := now\<rparr>
            in if pauseUnitsRequested s1 > 0
               then rbind (BFCMac_scheduleEndPausePeriod cfg now (pauseUnitsRequested s1) s1) (\<lambda>(s2, es).
                      Inr (s2\<lparr>pauseUnitsRequested := 0\<rparr>, es))
               else BFCMac_scheduleEndIFGPeriod cfg now s1)"

definition BFCMac_handleCanPullPacketChanged ::
    "mac_cfg \<Rightarrow> ('q \<Rightarrow> bool) \<Rightarrow> (frame, 'q) provider \<Rightarrow> simtime \<Rightarrow> bfcmac \<times> 'q \<Rightarrow>
       ((bfcmac \<times> 'q) \<times> meffect list) res" where
  "BFCMac_handleCanPullPacketChanged cfg can deq now st =
     (if currentTxFrame (fst st) = None \<and> transmitState (fst st) = TX_IDLE_STATE
      then BFCMac_dequeue cfg can deq now st else Inr (st, []))"

text \<open>
  \<open>processbfccommand\<close>.  \<open>setQueueID\<close> takes an \<open>int16_t\<close>.  The loop runs while the transmitter is free; a command
  that finds it busy is forgotten.
\<close>

definition to_int16 :: "int \<Rightarrow> int" where
  "to_int16 q = sint (word_of_int q :: 16 word)"

definition BFCMac_bfcFrame :: "mac_cfg \<Rightarrow> string \<Rightarrow> frame_kind \<Rightarrow> frame" where
  "BFCMac_bfcFrame cfg nm k =
     EthernetMacBase_addPaddingAndSetFcs
       \<lparr>p_id = 0, p_name = nm, p_len = 304, p_iface = 0, p_ecn = None, p_tags = [], p_bfc = None, p_ispause = None,
        f_src = macAddress cfg, f_dest = PauseAddr, f_kind = k, f_ipsrc = 0, f_ipdest = 0,
        f_int = None, f_psd = None, f_time = 0\<rparr> 64"

fun BFCMac_processbfccommand :: "mac_cfg \<Rightarrow> simtime \<Rightarrow> beffect \<Rightarrow> bfcmac \<Rightarrow> (bfcmac \<times> meffect list) res" where
  "BFCMac_processbfccommand cfg now (BfcPaused iface q) s =
     (if interfaceId cfg \<noteq> iface then Inr (s, [])
      else if currentTxFrame s \<noteq> None \<or> transmitState s \<noteq> TX_IDLE_STATE then Inr (s, [])
      else BFCMac_startFrameTransmission cfg now
             (s\<lparr>sendpause := sendpause s + 1,
                currentTxFrame := Some (BFCMac_bfcFrame cfg ''Pause'' (BfcPauseFrame (to_int16 q)))\<rparr>))"
| "BFCMac_processbfccommand cfg now (BfcResumed iface q) s =
     (if interfaceId cfg \<noteq> iface then Inr (s, [])
      else if currentTxFrame s \<noteq> None \<or> transmitState s \<noteq> TX_IDLE_STATE then Inr (s, [])
      else BFCMac_startFrameTransmission cfg now
             (s\<lparr>sendresume := sendresume s + 1,
                currentTxFrame := Some (BFCMac_bfcFrame cfg ''Resume'' (BfcResumeFrame (to_int16 q)))\<rparr>))"
| "BFCMac_processbfccommand cfg now (QEff x) s = Inr (s, [])"

text \<open>\<open>receiveSignal\<close> is subscribed to the pause and resume signals of the queues of the switch alone.\<close>

definition BFCMac_receiveSignal :: "mac_cfg \<Rightarrow> simtime \<Rightarrow> beffect \<Rightarrow> bfcmac \<Rightarrow> (bfcmac \<times> meffect list) res" where
  "BFCMac_receiveSignal cfg now x s =
     (case x of QEff _ \<Rightarrow> Inr (s, []) | _ \<Rightarrow> BFCMac_processbfccommand cfg now x s)"

subsection \<open>Reception and events\<close>

definition BFCMac_processReceivedDataFrame :: "mac_cfg \<Rightarrow> frame \<Rightarrow> bfcmac \<Rightarrow> bfcmac \<times> meffect list" where
  "BFCMac_processReceivedDataFrame cfg f s =
     (s\<lparr>numFramesReceivedOK := numFramesReceivedOK s + 1, numFramesPassedToHL := numFramesPassedToHL s + 1\<rparr>,
      [MacUp (f\<lparr>p_iface := interfaceId cfg\<rparr>)])"

definition BFCMac_receiveFrame :: "mac_cfg \<Rightarrow> simtime \<Rightarrow> frame \<Rightarrow> bfcmac \<Rightarrow> (bfcmac \<times> meffect list) res" where
  "BFCMac_receiveFrame cfg now f s =
     (if EthernetMacBase_dropFrameNotForUs cfg f
      then Inr (s\<lparr>numDroppedNotForUs := numDroppedNotForUs s + 1\<rparr>, [MacDrop f])
      else case f_kind f of
        PauseFrame u \<Rightarrow>
          BFCMac_processPauseCommand cfg now u (s\<lparr>numPauseFramesRcvd := numPauseFramesRcvd s + 1\<rparr>)
      | BfcPauseFrame q \<Rightarrow> Inr (s\<lparr>receivepause := receivepause s + 1\<rparr>, [BfcPausedFrame q])
      | BfcResumeFrame q \<Rightarrow> Inr (s\<lparr>receiveresume := receiveresume s + 1\<rparr>, [BfcResumedFrame q])
      | Payload \<Rightarrow> Inr (BFCMac_processReceivedDataFrame cfg f s)
      | _ \<Rightarrow> Inr (s, []))"

definition BFCMac_processMsgFromNetwork ::
    "mac_cfg \<Rightarrow> simtime \<Rightarrow> wire_signal \<Rightarrow> bfcmac \<Rightarrow> (bfcmac \<times> meffect list) res" where
  "BFCMac_processMsgFromNetwork cfg now sg s =
     (if \<not> connected cfg then
        (if sg_kind sg = EthernetSignal
         then rbind (EthernetMacBase_decapsulate (sg_frame sg)) (\<lambda>f.
                Inr (s\<lparr>numDroppedIfaceDown := numDroppedIfaceDown s + 1\<rparr>, [MacDrop f]))
         else Inr (s, []))
      else
        let s1 = s\<lparr>totalSuccessfulRxTime := totalSuccessfulRxTime s + sg_duration sg\<rparr> in
        if sg_fullDuplex sg \<noteq> duplexMode cfg then Inl (RuntimeError ''Ethernet misconfiguration: duplex mode'')
        else if sg_kind sg = EthernetFilledIfgSignal then Inl (RuntimeError ''There is no burst mode in full-duplex operation'')
        else if sg_kind sg = EthernetJamSignal then Inl (RuntimeError ''There is no JAM signal in full-duplex operation'')
        else
          rbind (EthernetMacBase_decapsulate (sg_frame sg)) (\<lambda>f.
            if sg_bitError sg \<or> \<not> sg_crcOk sg
            then Inr (s1\<lparr>numDroppedBitError := numDroppedBitError s1 + 1\<rparr>, [MacDrop f])
            else BFCMac_receiveFrame cfg now f s1))"

datatype bfcmac_event =
    BfcEndTx
  | BfcEndIfg
  | BfcEndPause
  | BfcFromUpper frame
  | BfcFromNetwork wire_signal
  | BfcCanPullChanged
  | BfcSignal beffect

definition lift_bfc :: "'q \<Rightarrow> (bfcmac \<times> meffect list) res \<Rightarrow> ((bfcmac \<times> 'q) \<times> meffect list) res" where
  "lift_bfc q r = rbind r (\<lambda>(s, es). Inr ((s, q), es))"

fun BFCMac_handleEvent ::
    "mac_cfg \<Rightarrow> ('q \<Rightarrow> bool) \<Rightarrow> (frame, 'q) provider \<Rightarrow> simtime \<times> bfcmac_event \<Rightarrow> bfcmac \<times> 'q \<Rightarrow>
       ((bfcmac \<times> 'q) \<times> meffect list) res" where
  "BFCMac_handleEvent cfg can deq (now, BfcEndTx) (s, q) =
     (if endTxTimer s = None then Inr ((s, q), [])
      else lift_bfc q (BFCMac_handleEndTxPeriod cfg now (s\<lparr>endTxTimer := None\<rparr>)))"
| "BFCMac_handleEvent cfg can deq (now, BfcEndIfg) (s, q) =
     (if endIfgTimer s = None then Inr ((s, q), [])
      else BFCMac_handleEndIFGPeriod cfg can deq now (s\<lparr>endIfgTimer := None\<rparr>, q))"
| "BFCMac_handleEvent cfg can deq (now, BfcEndPause) (s, q) =
     (if endPauseTimer s = None then Inr ((s, q), [])
      else BFCMac_handleEndPausePeriod cfg can deq now (s\<lparr>endPauseTimer := None\<rparr>, q))"
| "BFCMac_handleEvent cfg can deq (now, BfcFromUpper f) (s, q) = lift_bfc q (BFCMac_handleUpperPacket cfg now f s)"
| "BFCMac_handleEvent cfg can deq (now, BfcFromNetwork sg) (s, q) = lift_bfc q (BFCMac_processMsgFromNetwork cfg now sg s)"
| "BFCMac_handleEvent cfg can deq (now, BfcCanPullChanged) (s, q) = BFCMac_handleCanPullPacketChanged cfg can deq now (s, q)"
| "BFCMac_handleEvent cfg can deq (now, BfcSignal x) (s, q) = lift_bfc q (BFCMac_receiveSignal cfg now x s)"


subsection \<open>The transmitter is that of HiEthernetMac\<close>

text \<open>The copied handlers are the originals, so their lemmas hold of the copies.\<close>

lemma bfc_scheduleEndIFG [simp]: "BFCMac_scheduleEndIFGPeriod = HiEthernetMac_scheduleEndIFGPeriod"
  by (intro ext) (simp add: BFCMac_scheduleEndIFGPeriod_def HiEthernetMac_scheduleEndIFGPeriod_def)

lemma bfc_scheduleEndPause [simp]: "BFCMac_scheduleEndPausePeriod = HiEthernetMac_scheduleEndPausePeriod"
  by (intro ext) (simp add: BFCMac_scheduleEndPausePeriod_def HiEthernetMac_scheduleEndPausePeriod_def)

lemma bfc_processPauseCommand [simp]: "BFCMac_processPauseCommand = HiEthernetMac_processPauseCommand"
  by (intro ext) (simp add: BFCMac_processPauseCommand_def HiEthernetMac_processPauseCommand_def
      split: tx_state.split)

lemma bfc_handleEndTx [simp]: "BFCMac_handleEndTxPeriod = HiEthernetMac_handleEndTxPeriod"
  by (intro ext) (auto simp: BFCMac_handleEndTxPeriod_def HiEthernetMac_handleEndTxPeriod_def Let_def
      split: option.split)

lemma bfc_rates_length: "bfc_rates d bs = Inr rs \<Longrightarrow> length rs = length bs"
  by (induction bs arbitrary: rs) (auto simp: rbind_eq_Inr split: if_splits)

lemma bfc_stats_Inr: "BFCMac_updateStats cfg now f s = Inr t \<Longrightarrow> tx_view t = tx_view s"
  by (auto simp: BFCMac_updateStats_def BFCMac_beginNewInterval_def rbind_eq_Inr tx_view_def Let_def split: if_splits)

lemma bfc_start_Inr:
  assumes "BFCMac_startFrameTransmission cfg now s = Inr (s', es)"
  obtains f t where "currentTxFrame s = Some f" and "f_src f \<noteq> Unspecified"
    and "es = [MacSend (EthernetMacBase_encapsulate f), ArmEndTx t]"
    and "tx_view s' = (TRANSMITTING_STATE, Some f, Some (EthernetMacBase_encapsulate f), Some t, endIfgTimer s,
        endPauseTimer s, pauseUnitsRequested s, length (intvlPriBits s))"
proof -
  obtain f where f: "currentTxFrame s = Some f" "f_src f \<noteq> Unspecified"
    using assms by (auto simp: BFCMac_startFrameTransmission_def split: option.splits if_splits)
  let ?f = "EthernetMacBase_encapsulate f"
  obtain s1 where s1: "BFCMac_updateStats cfg now ?f s = Inr s1"
    using assms f by (auto simp: BFCMac_startFrameTransmission_def rbind_eq_Inr Let_def)
  with assms f have o: "es = [MacSend ?f, ArmEndTx (txFinishTime cfg now ?f)]"
    "s' = s1\<lparr>curTxSignal := Some ?f, endTxTimer := Some (txFinishTime cfg now ?f), transmitState := TRANSMITTING_STATE\<rparr>"
    by (auto simp: BFCMac_startFrameTransmission_def Let_def split: if_splits)
  from bfc_stats_Inr[OF s1] f o(2) have "tx_view s' = (TRANSMITTING_STATE, Some f, Some ?f, Some (txFinishTime cfg now ?f),
      endIfgTimer s, endPauseTimer s, pauseUnitsRequested s, length (intvlPriBits s))"
    by (simp add: tx_view_def)
  from that[OF f o(1) this] show thesis .
qed

lemma bfc_start_inv:
  assumes "BFCMac_startFrameTransmission cfg now s = Inr (s', es)" and "mac_free s"
  shows "mac_inv s'"
  using assms(1) by (rule bfc_start_Inr) (use assms(2) in \<open>auto simp: tx_view_def mac_inv_def mac_free_def\<close>)

lemma bfc_upper_inv:
  assumes "BFCMac_handleUpperPacket cfg now p s = Inr (s', es)" and "mac_inv s"
  shows "mac_inv s'"
proof -
  consider (down) "\<exists>n m. s' = s\<lparr>numFramesFromHL := n, numDroppedPkFromHLIfaceDown := m\<rparr>"
    | (sent) n f where "BFCMac_startFrameTransmission cfg now
         (s\<lparr>numFramesFromHL := n, currentTxFrame := Some f\<rparr>) = Inr (s', es)" and "transmitState s = TX_IDLE_STATE"
    using assms(1) by (auto simp: BFCMac_handleUpperPacket_def Let_def split: if_splits)
  then show ?thesis
  proof cases
    case down
    then show ?thesis using assms(2) by (auto simp: mac_inv_def)
  next
    case sent
    have "mac_free (s\<lparr>numFramesFromHL := n, currentTxFrame := Some f\<rparr>)"
      using mac_inv_idle[OF assms(2) sent(2)] by (simp add: mac_free_def)
    from bfc_start_inv[OF sent(1) this] show ?thesis .
  qed
qed

lemma bfc_dequeue_inv:
  "BFCMac_dequeue cfg can deq now (s, q) = Inr ((s', q'), es) \<Longrightarrow> mac_inv s \<Longrightarrow> mac_inv s'"
  by (auto simp: BFCMac_dequeue_def rbind_eq_Inr split: if_splits dest: bfc_upper_inv)

lemma bfc_receive_inv:
  "BFCMac_receiveFrame cfg now f s = Inr (s', es) \<Longrightarrow> mac_inv s \<Longrightarrow> pause_ok f \<Longrightarrow> mac_inv s'"
  by (auto simp: BFCMac_receiveFrame_def BFCMac_processReceivedDataFrame_def pause_ok_def
      split: if_splits frame_kind.splits elim!: pauseCommand_inv)

lemma bfc_network_inv:
  assumes "BFCMac_processMsgFromNetwork cfg now sg s = Inr (s', es)" and "mac_inv s" and "pause_ok (sg_frame sg)"
  shows "mac_inv s'"
proof -
  have "pause_ok f" if "EthernetMacBase_decapsulate (sg_frame sg) = Inr f" for f
    using that assms(3) by (auto simp: EthernetMacBase_decapsulate_def pause_ok_def split: if_splits)
  with assms(1,2) show ?thesis
    by (auto simp: BFCMac_processMsgFromNetwork_def rbind_eq_Inr Let_def split: if_splits elim!: bfc_receive_inv)
qed

text \<open>What becomes of a command.\<close>

definition bfc_idle :: "bfcmac \<Rightarrow> bool" where
  "bfc_idle s \<longleftrightarrow> currentTxFrame s = None \<and> transmitState s = TX_IDLE_STATE"

lemma bfc_signal_cases:
  assumes "BFCMac_receiveSignal cfg now x s = Inr (s', es)"
  obtains (none) "s' = s" "es = []" "bfc_idle s \<longrightarrow> (\<forall>q. x \<noteq> BfcPaused (interfaceId cfg) q \<and> x \<noteq> BfcResumed (interfaceId cfg) q)"
  | (pause) q t where "x = BfcPaused (interfaceId cfg) q" "bfc_idle s"
      "BFCMac_startFrameTransmission cfg now t = Inr (s', es)"
      "tx_view t = tx_view (s\<lparr>currentTxFrame := Some (BFCMac_bfcFrame cfg ''Pause'' (BfcPauseFrame (to_int16 q)))\<rparr>)"
  | (resume) q t where "x = BfcResumed (interfaceId cfg) q" "bfc_idle s"
      "BFCMac_startFrameTransmission cfg now t = Inr (s', es)"
      "tx_view t = tx_view (s\<lparr>currentTxFrame := Some (BFCMac_bfcFrame cfg ''Resume'' (BfcResumeFrame (to_int16 q)))\<rparr>)"
proof (cases x)
  case (BfcPaused i q)
  show thesis
  proof (cases "i = interfaceId cfg \<and> bfc_idle s")
    case True
    with assms BfcPaused show thesis
      by (intro pause[of q]) (auto simp: BFCMac_receiveSignal_def bfc_idle_def tx_view_def)
  qed (use assms BfcPaused in \<open>auto intro!: none simp: BFCMac_receiveSignal_def bfc_idle_def split: if_splits\<close>)
next
  case (BfcResumed i q)
  show thesis
  proof (cases "i = interfaceId cfg \<and> bfc_idle s")
    case True
    with assms BfcResumed show thesis
      by (intro resume[of q]) (auto simp: BFCMac_receiveSignal_def bfc_idle_def tx_view_def)
  qed (use assms BfcResumed in \<open>auto intro!: none simp: BFCMac_receiveSignal_def bfc_idle_def split: if_splits\<close>)
qed (use assms in \<open>auto intro!: none simp: BFCMac_receiveSignal_def\<close>)

lemma bfc_signal_inv:
  assumes "BFCMac_receiveSignal cfg now x s = Inr (s', es)" and "mac_inv s"
  shows "mac_inv s'"
proof -
  have free: "mac_free t" if "bfc_idle s" and "tx_view t = tx_view (s\<lparr>currentTxFrame := f\<rparr>)" for t f
  proof -
    have "mac_free (s\<lparr>currentTxFrame := f\<rparr>)"
      using mac_inv_idle[OF assms(2)] that(1) by (simp add: bfc_idle_def mac_free_def)
    then show ?thesis unfolding mac_free_view[OF that(2)] .
  qed
  from assms(1) show ?thesis
    by (rule bfc_signal_cases) (use assms(2) free bfc_start_inv in blast)+
qed

fun bfcmac_accepts :: "simtime \<times> bfcmac_event \<Rightarrow> bool" where
  "bfcmac_accepts (now, BfcFromNetwork sg) \<longleftrightarrow> pause_ok (sg_frame sg)"
| "bfcmac_accepts (now, e) \<longleftrightarrow> True"

lemma bfc_event_inv:
  assumes "BFCMac_handleEvent cfg can deq x (s, q) = Inr ((s', q'), es)" and "mac_inv s" and "bfcmac_accepts x"
  shows "mac_inv s'"
proof -
  obtain now e where x: "x = (now, e)" by (cases x)
  have ifg: "mac_inv (s\<lparr>endIfgTimer := None, transmitState := TX_IDLE_STATE\<rparr>)" if "transmitState s = WAIT_IFG_STATE"
    using that assms(2) by (auto simp: mac_inv_def)
  have pause: "mac_inv (s\<lparr>endPauseTimer := None, transmitState := TX_IDLE_STATE\<rparr>)" if "transmitState s = PAUSE_STATE"
    using that assms(2) by (auto simp: mac_inv_def)
  show ?thesis
  proof (cases e)
    case BfcEndIfg
    with assms x have "s' = s \<or> (transmitState s = WAIT_IFG_STATE \<and>
        BFCMac_dequeue cfg can deq now (s\<lparr>endIfgTimer := None, transmitState := TX_IDLE_STATE\<rparr>, q) = Inr ((s', q'), es))"
      by (auto simp: BFCMac_handleEndIFGPeriod_def Let_def split: if_splits)
    then show ?thesis using assms(2) by (elim disjE conjE) (simp, erule bfc_dequeue_inv, erule ifg)
  next
    case BfcEndPause
    with assms x have "s' = s \<or> (transmitState s = PAUSE_STATE \<and>
        BFCMac_dequeue cfg can deq now (s\<lparr>endPauseTimer := None, transmitState := TX_IDLE_STATE\<rparr>, q) = Inr ((s', q'), es))"
      by (auto simp: BFCMac_handleEndPausePeriod_def Let_def split: if_splits)
    then show ?thesis using assms(2) by (elim disjE conjE) (simp, erule bfc_dequeue_inv, erule pause)
  qed (use assms x in \<open>auto simp: lift_bfc_def rbind_eq_Inr BFCMac_handleCanPullPacketChanged_def split: if_splits
        elim: endTx_inv bfc_upper_inv bfc_network_inv bfc_signal_inv bfc_dequeue_inv\<close>)
qed

text \<open>The events of a MAC keep the transmitter's invariant.\<close>

interpretation bfc_tx: machine
    "BFCMac_handleEvent cfg can deq" "\<lambda>st. mac_inv (fst st)" bfcmac_accepts for cfg can deq
proof (unfold_locales, goal_cases)
  case (1 st x st' es)
  then show ?case using bfc_event_inv[of cfg can deq x "fst st" "snd st" "fst st'" "snd st'" es] by simp
qed

subsection \<open>From the queue to the scheduler upstream\<close>















definition bfc_commands :: "(simtime \<times> bfcmac \<times> beffect) list \<Rightarrow> beffect list" where
  "bfc_commands ys = map (\<lambda>(now, m, y). y) ys"

lemma bfc_commands_simps [simp]: "bfc_commands [] = []" "bfc_commands ((now, m, x) # ys) = x # bfc_commands ys"
  by (simp_all add: bfc_commands_def)











end
