(* ===== verification/Ethernet_Encap.thy ===== *)
theory Ethernet_Encap
  imports Ethernet_Mac BFC_Queue Std_Map
begin

section \<open>HiEthernetEncapsulation: frames from packets and back\<close>

text \<open>
  \<open>HiNA/Ethernet/HiEthernetEncap/HiEthernetEncapsulation\<close>.  A packet from above gets its Ethernet header and check
  sequence, and a packet of the backpressure protocols a \<open>BFCHeader\<close> before, which says what queue of the
  upstream switch it came from: a switch remembers it per flow when the flow's first packet comes in.
  A frame from the MAC loses them again and is given to the sockets that match and to the layer above.
  The packet library refuses to take a header off a packet that does not begin with it.  Protocols are known
  by their names, and the table of \<open>common/ProtocolGroup.cc\<close> gives their numbers.
\<close>

type_synonym protocol = string

record eth_header =
  eh_src :: mac_addr
  eh_dest :: mac_addr
  typeOrLength :: "16 word"

text \<open>
  The tags: \<open>PacketProtocolTag\<close> (absent, or present with a protocol or none), \<open>DispatchProtocolReq\<close>, the source and
  destination of \<open>MacAddressReq\<close> and of \<open>MacAddressInd\<close>, \<open>SocketInd\<close>.  \<open>InterfaceInd\<close> is \<open>p_iface\<close>.
\<close>

record epacket = packet +
  e_protocol :: "protocol option option"
  e_dispatch :: "protocol option"
  e_req :: "(mac_addr \<times> mac_addr) option"
  e_ind :: "(mac_addr \<times> mac_addr) option"
  e_socket :: "int option"
  e_header :: "eth_header option"
  e_fcs :: bool
  e_pause :: "int option"

record esocket =
  sk_interfaceId :: int
  sk_local :: mac_addr
  sk_remote :: mac_addr
  sk_protocol :: "protocol option"
  sk_steal :: bool

record encap_cfg =
  nodeName :: string
  nicAddress :: "mac_addr option"

record encap =
  upperProtocols :: "protocol set"
  anyUpperProtocols :: bool
  flow_upstreamQueue :: "(u64, u32) smap"
  socketIdToSocketMap :: "(int, esocket) smap"
  seqNum :: int
  totalFromHigherLayer :: int
  totalFromMAC :: int
  totalPauseSent :: int

datatype eeffect = EncDown epacket | EncUp epacket | EncNoProtocol epacket

definition HiEthernetEncapsulation_initial :: encap where
  "HiEthernetEncapsulation_initial =
     \<lparr>upperProtocols = {}, anyUpperProtocols = False, flow_upstreamQueue = [], socketIdToSocketMap = [], seqNum = 0,
      totalFromHigherLayer = 0, totalFromMAC = 0, totalPauseSent = 0\<rparr>"

definition ethertype_group :: "(int \<times> protocol) list" where
  "ethertype_group =
     [(0x0800, ''ipv4''), (0x0806, ''arp''), (0x2000, ''cdp''), (0x22EA, ''srp''), (0x22F0, ''tsn''), (0x22F3, ''trill''),
      (0x22F4, ''l2isis''), (0x36FC, ''flooding''), (0x8100, ''ieee8021qctag''), (0x86DD, ''ipv6''),
      (0x86FD, ''probabilistic''), (0x86F0, ''unknown''), (0x86FE, ''wiseroute''), (0x86FF, ''nexthopforwarding''),
      (0x8808, ''ethernetflowctrl''), (0x8847, ''mpls''), (0x88A8, ''ieee8021qstag''), (0x88CC, ''lldp''), (0x88F7, ''gptp''),
      (0x88E5, ''ieee8021ae''), (0x891D, ''tteth''), (0xF1C1, ''ieee8021rtag'')]"

definition ProtocolGroup_findProtocol :: "int \<Rightarrow> protocol option" where
  "ProtocolGroup_findProtocol n = map_of ethertype_group n"

definition ProtocolGroup_getProtocolNumber :: "protocol \<Rightarrow> int res" where
  "ProtocolGroup_getProtocolNumber p =
     (case map_of (map (\<lambda>(n, p). (p, n)) ethertype_group) p of
        None \<Rightarrow> Inl (RuntimeError ''Unknown protocol'') | Some n \<Rightarrow> Inr n)"

definition isEth2Type :: "int \<Rightarrow> bool" where
  "isEth2Type t \<longleftrightarrow> t \<ge> 0x600 \<or> t = 0"

definition isIeee8023Length :: "int \<Rightarrow> bool" where
  "isIeee8023Length t \<longleftrightarrow> t > 0 \<and> t < 0x600"

text \<open>The names of backpressure packets, and the key of a flow: its number through an \<open>int\<close> to a \<open>uint64_t\<close>.\<close>

definition backpressure_named :: "string \<Rightarrow> bool" where
  "backpressure_named nm \<longleftrightarrow> contains ''BCN'' nm \<or> contains ''BFC'' nm \<or> contains ''AFC'' nm"

definition upstream_key :: "u32 \<Rightarrow> u64" where
  "upstream_key f = word_of_int (sint f)"

subsection \<open>From above\<close>

text \<open>
  The header of a backpressure packet.  A node with an \<open>s\<close> in its name is taken for a sender.  The number of
  the upstream queue is an uninitialised local when the flow is not known; the last packet of a flow
  takes its entry away.  Packets come down without such a header.
\<close>

definition HiEthernetEncapsulation_insertBFCHeader :: "encap_cfg \<Rightarrow> epacket \<Rightarrow> encap \<Rightarrow> (epacket \<times> encap) res" where
  "HiEthernetEncapsulation_insertBFCHeader cfg pck s =
     (if contains ''s'' (nodeName cfg)
      then Inr (pck\<lparr>p_bfc := Some \<lparr>upstreamQueueID = 0, queueID = 0\<rparr>, p_len := p_len pck + 64\<rparr>, s)
      else
        rbind (last_tag pck) (\<lambda>tag.
          case map_get (flow_upstreamQueue s) (upstream_key (ht_flowid tag)) of
            None \<Rightarrow> Inl Uninitialized
          | Some q \<Rightarrow>
              Inr (pck\<lparr>p_bfc := Some \<lparr>upstreamQueueID = sint q, queueID = 0\<rparr>, p_len := p_len pck + 64\<rparr>,
                   if ht_last tag
                   then s\<lparr>flow_upstreamQueue := map_erase (upstream_key (ht_flowid tag)) (flow_upstreamQueue s)\<rparr> else s)))"

definition HiEthernetEncapsulation_typeOrLength :: "epacket \<Rightarrow> int res" where
  "HiEthernetEncapsulation_typeOrLength pck =
     (case e_protocol pck of
        Some (Some p) \<Rightarrow>
          if p \<noteq> ''ieee8022llc'' then ProtocolGroup_getProtocolNumber p else Inr (bytes_of (p_bits pck))
      | _ \<Rightarrow> Inr (bytes_of (p_bits pck)))"

text \<open>The source a packet names, or the address of the interface the module is in.\<close>

definition HiEthernetEncapsulation_srcAddr :: "encap_cfg \<Rightarrow> mac_addr \<Rightarrow> mac_addr" where
  "HiEthernetEncapsulation_srcAddr cfg src =
     (if src = Unspecified then (case nicAddress cfg of None \<Rightarrow> src | Some a \<Rightarrow> a) else src)"

definition HiEthernetEncapsulation_addHeader :: "eth_header \<Rightarrow> epacket \<Rightarrow> epacket" where
  "HiEthernetEncapsulation_addHeader hdr pck =
     pck\<lparr>e_header := Some hdr, e_fcs := True, p_len := p_len pck + 112 + 32,
         e_protocol := Some (Some ''ethernetmac''), e_dispatch := None\<rparr>"

definition HiEthernetEncapsulation_processPacketFromHigherLayer ::
    "encap_cfg \<Rightarrow> epacket \<Rightarrow> encap \<Rightarrow> (encap \<times> eeffect list) res" where
  "HiEthernetEncapsulation_processPacketFromHigherLayer cfg pck s =
     (if p_bits pck > 8 * 1500 then Inl (RuntimeError ''packet length from higher layer exceeds maximum Ethernet payload length'')
      else
        rbind (if backpressure_named (p_name pck)
               then HiEthernetEncapsulation_insertBFCHeader cfg pck (s\<lparr>totalFromHigherLayer := totalFromHigherLayer s + 1\<rparr>)
               else Inr (pck, s\<lparr>totalFromHigherLayer := totalFromHigherLayer s + 1\<rparr>)) (\<lambda>(pck1, s2).
        rbind (HiEthernetEncapsulation_typeOrLength pck1) (\<lambda>tl.
          case e_req pck1 of
            None \<Rightarrow> Inl (RuntimeError ''Tag MacAddressReq is absent'')
          | Some (src, dest) \<Rightarrow>
              Inr (s2, [EncDown (HiEthernetEncapsulation_addHeader
                \<lparr>eh_src = HiEthernetEncapsulation_srcAddr cfg src, eh_dest = dest, typeOrLength = word_of_int tl\<rparr> pck1)]))))"

text \<open>\<open>handleSendPause\<close>.  The name of the frame also numbers it, which nothing reads.\<close>

definition HiEthernetEncapsulation_handleSendPause ::
    "encap_cfg \<Rightarrow> mac_addr \<Rightarrow> int \<Rightarrow> encap \<Rightarrow> encap \<times> eeffect list" where
  "HiEthernetEncapsulation_handleSendPause cfg dest pauseUnits s =
     (let hdr = \<lparr>eh_src = Unspecified, eh_dest = (if dest = Unspecified then PauseAddr else dest),
                 typeOrLength = word_of_int 0x8808\<rparr>
      in (s\<lparr>seqNum := seqNum s + 1, totalPauseSent := totalPauseSent s + 1\<rparr>,
          [EncDown \<lparr>p_id = 0, p_name = ''pause'', p_len = 176, p_iface = 0, p_ecn = None, p_tags = [], p_bfc = None,
                    p_ispause = None, e_protocol = Some (Some ''ethernetmac''), e_dispatch = None, e_req = None, e_ind = None,
                    e_socket = None, e_header = Some hdr, e_fcs = True, e_pause = Some pauseUnits\<rparr>]))"

text \<open>
  Socket commands.  A closed socket is confirmed through the gate \<open>transportOut\<close>, which the module does not have;
  commands for sockets that are not open are ignored.
\<close>

datatype encap_command =
    Ieee802PauseCommand mac_addr int
  | EthernetBindCommand int esocket
  | SocketCloseCommand int
  | SocketDestroyCommand int
  | OtherCommand

fun HiEthernetEncapsulation_processCommandFromHigherLayer ::
    "encap_cfg \<Rightarrow> encap_command \<Rightarrow> encap \<Rightarrow> (encap \<times> eeffect list) res" where
  "HiEthernetEncapsulation_processCommandFromHigherLayer cfg (Ieee802PauseCommand dest pauseUnits) s =
     Inr (HiEthernetEncapsulation_handleSendPause cfg dest pauseUnits s)"
| "HiEthernetEncapsulation_processCommandFromHigherLayer cfg (EthernetBindCommand socketId socket) s =
     Inr (s\<lparr>socketIdToSocketMap := map_put socketId socket (socketIdToSocketMap s)\<rparr>, [])"
| "HiEthernetEncapsulation_processCommandFromHigherLayer cfg (SocketCloseCommand socketId) s =
     (if map_get (socketIdToSocketMap s) socketId = None then Inr (s, [])
      else Inl (RuntimeError ''has no gate named transportOut''))"
| "HiEthernetEncapsulation_processCommandFromHigherLayer cfg (SocketDestroyCommand socketId) s =
     (if map_get (socketIdToSocketMap s) socketId = None then Inr (s, [])
      else Inr (s\<lparr>socketIdToSocketMap := map_erase socketId (socketIdToSocketMap s)\<rparr>, []))"
| "HiEthernetEncapsulation_processCommandFromHigherLayer cfg OtherCommand s = Inl (RuntimeError ''Unknown command'')"

subsection \<open>From the MAC\<close>

definition Socket_matches :: "esocket \<Rightarrow> epacket \<Rightarrow> int \<Rightarrow> eth_header \<Rightarrow> bool res" where
  "Socket_matches sk pck ifaceId hdr =
     (if sk_interfaceId sk \<noteq> -1 \<and> sk_interfaceId sk \<noteq> ifaceId then Inr False
      else if sk_remote sk \<noteq> Unspecified \<and> eh_src hdr \<noteq> BroadcastAddr \<and> eh_src hdr \<noteq> sk_remote sk then Inr False
      else if sk_local sk \<noteq> Unspecified \<and> eh_dest hdr \<noteq> BroadcastAddr \<and> eh_dest hdr \<noteq> sk_local sk then Inr False
      else case sk_protocol sk of
        None \<Rightarrow> Inr True
      | Some p \<Rightarrow>
          (case e_protocol pck of
             None \<Rightarrow> Inl (RuntimeError ''Tag PacketProtocolTag is absent'')
           | Some q \<Rightarrow> Inr (q = Some p)))"

fun HiEthernetEncapsulation_socketLoop ::
    "epacket \<Rightarrow> int \<Rightarrow> eth_header \<Rightarrow> (int \<times> esocket) list \<Rightarrow> (bool \<times> eeffect list) res" where
  "HiEthernetEncapsulation_socketLoop pck iface hdr [] = Inr (False, [])"
| "HiEthernetEncapsulation_socketLoop pck iface hdr ((i, sk) # rest) =
     rbind (Socket_matches sk pck iface hdr) (\<lambda>b.
     rbind (HiEthernetEncapsulation_socketLoop pck iface hdr rest) (\<lambda>(steal, es).
       Inr (if b then (sk_steal sk \<or> steal, EncUp (pck\<lparr>e_socket := Some i\<rparr>) # es) else (steal, es))))"

text \<open>The header of a backpressure packet taken off; its flow's upstream queue is kept if none is yet.\<close>

definition HiEthernetEncapsulation_removeBFCHeader :: "epacket \<Rightarrow> encap \<Rightarrow> (epacket \<times> encap) res" where
  "HiEthernetEncapsulation_removeBFCHeader pck s =
     (case p_bfc pck of
        None \<Rightarrow> Inl (RuntimeError ''no BFCHeader at the front'')
      | Some hdr \<Rightarrow>
          rbind (last_tag pck) (\<lambda>tag.
            let k = upstream_key (ht_flowid tag) in
            Inr (pck\<lparr>p_bfc := None, p_len := p_len pck - 64\<rparr>,
                 if map_get (flow_upstreamQueue s) k \<noteq> None then s
                 else s\<lparr>flow_upstreamQueue := map_put k (word_of_int (upstreamQueueID hdr)) (flow_upstreamQueue s)\<rparr>)))"

text \<open>The payload's protocol, and the padding cut off where the header says how long the payload is.\<close>

definition HiEthernetEncapsulation_payload :: "eth_header \<Rightarrow> epacket \<Rightarrow> (epacket \<times> protocol option) res" where
  "HiEthernetEncapsulation_payload hdr pck =
     (let tl = uint (typeOrLength hdr) in
      if isIeee8023Length tl then
        (if p_bits pck < 8 * tl then Inl (RuntimeError ''incorrect payload length in ethernet frame'')
         else Inr (pck\<lparr>p_len := 8 * nat tl\<rparr>, Some ''ieee8022llc''))
      else if isEth2Type tl then Inr (pck, ProtocolGroup_findProtocol tl)
      else Inl (RuntimeError ''Unknown ethernet header''))"

definition HiEthernetEncapsulation_popHeader :: "eth_header \<Rightarrow> epacket \<Rightarrow> epacket" where
  "HiEthernetEncapsulation_popHeader hdr pck =
     pck\<lparr>e_header := None, e_fcs := False, p_len := p_len pck - 112 - 32, e_ind := Some (eh_src hdr, eh_dest hdr)\<rparr>"

definition HiEthernetEncapsulation_setProtocol :: "protocol option \<Rightarrow> epacket \<Rightarrow> epacket" where
  "HiEthernetEncapsulation_setProtocol payloadProtocol pck =
     (case payloadProtocol of
        Some p \<Rightarrow> pck\<lparr>e_protocol := Some (Some p), e_dispatch := Some p\<rparr>
      | None \<Rightarrow> pck\<lparr>e_protocol := None, e_dispatch := None\<rparr>)"

definition HiEthernetEncapsulation_processPacketFromMac :: "epacket \<Rightarrow> encap \<Rightarrow> (encap \<times> eeffect list) res" where
  "HiEthernetEncapsulation_processPacketFromMac pck s =
     (case e_header pck of
        None \<Rightarrow> Inl (RuntimeError ''no EthernetMacHeader at the front'')
      | Some hdr \<Rightarrow>
          if \<not> e_fcs pck then Inl (RuntimeError ''no EthernetFcs at the back'')
          else
            let pck1 = HiEthernetEncapsulation_popHeader hdr pck in
            rbind (if backpressure_named (p_name pck1) then HiEthernetEncapsulation_removeBFCHeader pck1 s
                   else Inr (pck1, s)) (\<lambda>(pck2, s1).
            rbind (HiEthernetEncapsulation_payload hdr pck2) (\<lambda>(pck3, payloadProtocol).
            let pck4 = HiEthernetEncapsulation_setProtocol payloadProtocol pck3 in
            rbind (HiEthernetEncapsulation_socketLoop pck4 (p_iface pck4) hdr (socketIdToSocketMap s1)) (\<lambda>(steal, es).
              if steal then Inr (s1, es)
              else if anyUpperProtocols s1 \<or> (\<exists>p\<in>upperProtocols s1. payloadProtocol = Some p)
              then Inr (s1\<lparr>totalFromMAC := totalFromMAC s1 + 1\<rparr>, es @ [EncUp pck4])
              else Inr (s1, es @ [EncNoProtocol pck4])))))"

subsection \<open>Messages\<close>

text \<open>
  \<open>handleMessageWhenUp\<close>, registration and the lifecycle.  A notification of a BCN switch is looked at before: a
  packet that does not begin with an Ethernet header cannot be looked at as one.
\<close>

datatype encap_event =
    UpperLayerIn epacket
  | UpperLayerCommand encap_command
  | LowerLayerIn epacket
  | RegisterProtocol protocol
  | RegisterAnyProtocol string
  | StartOperation
  | StopOperation
  | CrashOperation

definition HiEthernetEncapsulation_clearSockets :: "encap \<Rightarrow> encap" where
  "HiEthernetEncapsulation_clearSockets s = s\<lparr>socketIdToSocketMap := []\<rparr>"

fun HiEthernetEncapsulation_handleMessage :: "encap_cfg \<Rightarrow> encap_event \<Rightarrow> encap \<Rightarrow> (encap \<times> eeffect list) res" where
  "HiEthernetEncapsulation_handleMessage cfg (UpperLayerIn pck) s =
     HiEthernetEncapsulation_processPacketFromHigherLayer cfg pck s"
| "HiEthernetEncapsulation_handleMessage cfg (UpperLayerCommand c) s =
     HiEthernetEncapsulation_processCommandFromHigherLayer cfg c s"
| "HiEthernetEncapsulation_handleMessage cfg (LowerLayerIn pck) s =
     (if contains ''routerCNP'' (p_name pck) \<and> e_header pck = None
      then Inl (RuntimeError ''Returning an incomplete chunk is not allowed'')
      else HiEthernetEncapsulation_processPacketFromMac pck s)"
| "HiEthernetEncapsulation_handleMessage cfg (RegisterProtocol p) s =
     Inr (s\<lparr>upperProtocols := insert p (upperProtocols s)\<rparr>, [])"
| "HiEthernetEncapsulation_handleMessage cfg (RegisterAnyProtocol gate) s =
     Inr (if gate = ''upperLayerOut'' then s\<lparr>anyUpperProtocols := True\<rparr> else s, [])"
| "HiEthernetEncapsulation_handleMessage cfg StartOperation s = Inr (HiEthernetEncapsulation_clearSockets s, [])"
| "HiEthernetEncapsulation_handleMessage cfg StopOperation s = Inr (HiEthernetEncapsulation_clearSockets s, [])"
| "HiEthernetEncapsulation_handleMessage cfg CrashOperation s = Inr (HiEthernetEncapsulation_clearSockets s, [])"


subsection \<open>There and back\<close>





lemma insertBFC_Inr:
  assumes "HiEthernetEncapsulation_insertBFCHeader cfg p s = Inr (q, s')"
  shows "\<exists>h. q = p\<lparr>p_bfc := Some h, p_len := p_len p + 64\<rparr>"
  using assms by (auto simp: HiEthernetEncapsulation_insertBFCHeader_def rbind_eq_Inr split: if_splits option.splits)

text \<open>What a frame made of a packet is.\<close>

lemma encap_Inr:
  assumes "HiEthernetEncapsulation_processPacketFromHigherLayer cfg p s = Inr (s', es)"
  obtains q tl src dest where "p_bits p \<le> 8 * 1500" and "e_req p = Some (src, dest)"
    and "if backpressure_named (p_name p)
         then HiEthernetEncapsulation_insertBFCHeader cfg p (s\<lparr>totalFromHigherLayer := totalFromHigherLayer s + 1\<rparr>) = Inr (q, s')
           \<and> (\<exists>h. q = p\<lparr>p_bfc := Some h, p_len := p_len p + 64\<rparr>)
         else q = p \<and> s' = s\<lparr>totalFromHigherLayer := totalFromHigherLayer s + 1\<rparr>"
    and "HiEthernetEncapsulation_typeOrLength q = Inr tl"
    and "es = [EncDown (HiEthernetEncapsulation_addHeader
           \<lparr>eh_src = HiEthernetEncapsulation_srcAddr cfg src, eh_dest = dest, typeOrLength = word_of_int tl\<rparr> q)]"
proof -
  let ?b = "backpressure_named (p_name p)" and ?s = "s\<lparr>totalFromHigherLayer := totalFromHigherLayer s + 1\<rparr>"
  obtain q tl src dest where len: "p_bits p \<le> 8 * 1500"
    and q: "(if ?b then HiEthernetEncapsulation_insertBFCHeader cfg p ?s else Inr (p, ?s)) = Inr (q, s')"
    and tl: "HiEthernetEncapsulation_typeOrLength q = Inr tl" and req: "e_req q = Some (src, dest)"
    and es: "es = [EncDown (HiEthernetEncapsulation_addHeader
           \<lparr>eh_src = HiEthernetEncapsulation_srcAddr cfg src, eh_dest = dest, typeOrLength = word_of_int tl\<rparr> q)]"
    using assms unfolding HiEthernetEncapsulation_processPacketFromHigherLayer_def
    by (auto simp: rbind_eq_Inr split: option.splits prod.splits if_split_asm simp del: if_split)
  have "if ?b then HiEthernetEncapsulation_insertBFCHeader cfg p ?s = Inr (q, s') \<and> (\<exists>h. q = p\<lparr>p_bfc := Some h, p_len := p_len p + 64\<rparr>)
      else q = p \<and> s' = ?s"
    using q insertBFC_Inr[of cfg p ?s q s'] by auto
  moreover from this req have "e_req p = Some (src, dest)" by (auto split: if_splits)
  ultimately show thesis using that[OF len _ _ tl es] by blast
qed

text \<open>A frame crosses a link: padded by its MAC, without the tags, and marked by the MAC that receives it.\<close>

definition over_link :: "int \<Rightarrow> epacket \<Rightarrow> epacket" where
  "over_link i f = (EthernetMacBase_addPaddingAndSetFcs f 64)\<lparr>p_iface := i, e_req := None,
     e_ind := (case e_header f of None \<Rightarrow> None | Some h \<Rightarrow> Some (eh_src h, eh_dest h)), e_socket := None,
     e_protocol := Some (Some ''ethernetmac''), e_dispatch := Some ''ethernetmac''\<rparr>"


lemma over_link_fields [simp]:
  "p_name (over_link i f) = p_name f" "p_tags (over_link i f) = p_tags f" "p_bfc (over_link i f) = p_bfc f"
  "e_header (over_link i f) = e_header f" "e_fcs (over_link i f) = e_fcs f" "p_iface (over_link i f) = i"
  "p_id (over_link i f) = p_id f" "p_ecn (over_link i f) = p_ecn f"
  by (simp_all add: over_link_def EthernetMacBase_addPaddingAndSetFcs_def Let_def)






subsection \<open>The upstream queues of a switch\<close>

text \<open>
  What a switch should know of a flow: the upstream queue its first packet came from, from that packet to the
  last one that goes on.
\<close>

fun note_event :: "encap_event \<Rightarrow> (u32 \<Rightarrow> int option) \<Rightarrow> (u32 \<Rightarrow> int option)" where
  "note_event (LowerLayerIn p) m =
     (if backpressure_named (p_name p) \<and> m (flow_of p) = None
      then m(flow_of p := map_option upstreamQueueID (p_bfc p)) else m)"
| "note_event (UpperLayerIn p) m =
     (if backpressure_named (p_name p) \<and> ht_last (last (p_tags p)) then m(flow_of p := None) else m)"
| "note_event _ m = m"

definition encap_flows :: "encap \<Rightarrow> u32 \<Rightarrow> int option" where
  "encap_flows s f = map_option sint (map_get (flow_upstreamQueue s) (upstream_key f))"

fun encap_ids_fit :: "encap_event \<Rightarrow> bool" where
  "encap_ids_fit (LowerLayerIn p) \<longleftrightarrow> (case p_bfc p of None \<Rightarrow> True | Some h \<Rightarrow> - (2 ^ 31) \<le> upstreamQueueID h \<and> upstreamQueueID h < 2 ^ 31)"
| "encap_ids_fit _ \<longleftrightarrow> True"

lemma upstream_key_inj [simp]: "upstream_key a = upstream_key b \<longleftrightarrow> a = b"
proof -
  have "sint (upstream_key f) = sint f" for f
    unfolding upstream_key_def scast_eq[symmetric]
    by (rule sint_up_scast) (simp add: is_up)
  then show ?thesis by (metis signed_word_eqI)
qed

lemma sint_fits: "- (2 ^ 31) \<le> q \<Longrightarrow> q < 2 ^ 31 \<Longrightarrow> sint (word_of_int q :: u32) = q"
  by (simp add: signed_of_int signed_take_bit_int_eq_self)

lemma fromMac_flows:
  assumes "HiEthernetEncapsulation_processPacketFromMac p s = Inr (s', es)"
  shows "if backpressure_named (p_name p)
     then \<exists>h. p_bfc p = Some h \<and> p_tags p \<noteq> [] \<and> flow_upstreamQueue s' =
       (if map_get (flow_upstreamQueue s) (upstream_key (flow_of p)) \<noteq> None then flow_upstreamQueue s
        else map_put (upstream_key (flow_of p)) (word_of_int (upstreamQueueID h)) (flow_upstreamQueue s))
     else flow_upstreamQueue s' = flow_upstreamQueue s"
proof -
  obtain hdr q s1 where "e_header p = Some hdr" and q: "(if backpressure_named (p_name p)
       then HiEthernetEncapsulation_removeBFCHeader (HiEthernetEncapsulation_popHeader hdr p) s
       else Inr (HiEthernetEncapsulation_popHeader hdr p, s)) = Inr (q, s1)"
    and s': "flow_upstreamQueue s' = flow_upstreamQueue s1"
    using assms unfolding HiEthernetEncapsulation_processPacketFromMac_def
    by (auto simp: rbind_eq_Inr Let_def HiEthernetEncapsulation_popHeader_def split: option.splits prod.splits if_split_asm
        simp del: if_split)
  from q show ?thesis
    by (auto simp: s' HiEthernetEncapsulation_removeBFCHeader_def HiEthernetEncapsulation_popHeader_def rbind_eq_Inr
        last_tag_def flow_of_def Let_def split: if_splits option.splits)
qed

lemma fromUpper_flows:
  assumes "HiEthernetEncapsulation_processPacketFromHigherLayer cfg p s = Inr (s', es)" and "\<not> contains ''s'' (nodeName cfg)"
    and "backpressure_named (p_name p)"
  shows "\<exists>q f. map_get (flow_upstreamQueue s) (upstream_key (flow_of p)) = Some q \<and> es = [EncDown f] \<and>
     p_bfc f = Some \<lparr>upstreamQueueID = sint q, queueID = 0\<rparr> \<and> flow_upstreamQueue s' =
       (if ht_last (last (p_tags p)) then map_erase (upstream_key (flow_of p)) (flow_upstreamQueue s) else flow_upstreamQueue s)"
  using assms(1)
proof (rule encap_Inr)
  fix q tl src dest
  assume es: "es = [EncDown (HiEthernetEncapsulation_addHeader
       \<lparr>eh_src = HiEthernetEncapsulation_srcAddr cfg src, eh_dest = dest, typeOrLength = word_of_int tl\<rparr> q)]"
    and q: "if backpressure_named (p_name p)
         then HiEthernetEncapsulation_insertBFCHeader cfg p (s\<lparr>totalFromHigherLayer := totalFromHigherLayer s + 1\<rparr>) = Inr (q, s')
           \<and> (\<exists>h. q = p\<lparr>p_bfc := Some h, p_len := p_len p + 64\<rparr>)
         else q = p \<and> s' = s\<lparr>totalFromHigherLayer := totalFromHigherLayer s + 1\<rparr>"
  from q assms(3) have "HiEthernetEncapsulation_insertBFCHeader cfg p (s\<lparr>totalFromHigherLayer := totalFromHigherLayer s + 1\<rparr>) = Inr (q, s')"
    by simp
  with assms(2) es show ?thesis
    by (auto simp: HiEthernetEncapsulation_insertBFCHeader_def HiEthernetEncapsulation_addHeader_def rbind_eq_Inr last_tag_def
        flow_of_def split: if_splits option.splits)
qed

lemma fromUpper_other:
  assumes "HiEthernetEncapsulation_processPacketFromHigherLayer cfg p s = Inr (s', es)" and "\<not> backpressure_named (p_name p)"
  shows "flow_upstreamQueue s' = flow_upstreamQueue s"
  using assms(1) by (rule encap_Inr) (use assms(2) in simp)

lemma command_flows:
  "HiEthernetEncapsulation_processCommandFromHigherLayer cfg c s = Inr (s', es) \<Longrightarrow> flow_upstreamQueue s' = flow_upstreamQueue s"
  by (cases c) (auto simp: HiEthernetEncapsulation_handleSendPause_def split: if_splits)

definition encap_sim :: "encap \<Rightarrow> (u32 \<Rightarrow> int option) \<Rightarrow> bool" where
  "encap_sim s m \<longleftrightarrow> wf_map (flow_upstreamQueue s) \<and> encap_flows s = m"

lemma encap_step:
  assumes "HiEthernetEncapsulation_handleMessage cfg e s = Inr (s', es)" and "\<not> contains ''s'' (nodeName cfg)"
    and "encap_ids_fit e" and "encap_sim s m"
  shows "encap_sim s' (note_event e m)"
proof -
  have keep: ?thesis if "flow_upstreamQueue s' = flow_upstreamQueue s" "note_event e m = m"
    using that assms(4) by (auto simp: encap_sim_def encap_flows_def fun_eq_iff)
  have w: "wf_map (flow_upstreamQueue s)" and m: "m = encap_flows s" using assms(4) by (auto simp: encap_sim_def)
  show ?thesis
  proof (cases e)
    case (UpperLayerIn p)
    with assms(1) have r: "HiEthernetEncapsulation_processPacketFromHigherLayer cfg p s = Inr (s', es)" by simp
    show ?thesis
    proof (cases "backpressure_named (p_name p)")
      case True
      with fromUpper_flows[OF r assms(2)] w m UpperLayerIn show ?thesis
        by (auto simp: encap_sim_def encap_flows_def wf_erase get_erase fun_eq_iff)
    next
      case False
      with fromUpper_other[OF r] UpperLayerIn show ?thesis by (intro keep) auto
    qed
  next
    case (LowerLayerIn p)
    with assms(1) have r: "HiEthernetEncapsulation_processPacketFromMac p s = Inr (s', es)" by (simp split: if_splits)
    note f = fromMac_flows[OF r]
    show ?thesis
    proof (cases "backpressure_named (p_name p) \<and> map_get (flow_upstreamQueue s) (upstream_key (flow_of p)) = None")
      case True
      with f obtain h where "p_bfc p = Some h" "flow_upstreamQueue s' =
          map_put (upstream_key (flow_of p)) (word_of_int (upstreamQueueID h)) (flow_upstreamQueue s)" by auto
      with True w m LowerLayerIn assms(3) show ?thesis
        by (simp add: encap_sim_def encap_flows_def wf_put get_put fun_eq_iff sint_fits)
    next
      case False
      with f have "flow_upstreamQueue s' = flow_upstreamQueue s" by (auto split: if_splits)
      with False m LowerLayerIn show ?thesis by (intro keep) (auto simp: encap_flows_def)
    qed
  next
    case (UpperLayerCommand c)
    with assms(1) show ?thesis by (intro keep) (auto dest: command_flows)
  qed (intro keep; insert assms(1); auto simp: HiEthernetEncapsulation_clearSockets_def split: if_splits)+
qed

lemma encap_sim_run:
  assumes "run_out (HiEthernetEncapsulation_handleMessage cfg) evs s = Inr (s', es)" and "\<not> contains ''s'' (nodeName cfg)"
    and "\<forall>e\<in>set evs. encap_ids_fit e" and "encap_sim s m"
  shows "encap_sim s' (fold note_event evs m)"
  using assms(1,3,4)
proof (induction evs arbitrary: s m es)
  case (Cons e evs)
  from Cons.prems(1) obtain s1 es1 es2 where s1: "HiEthernetEncapsulation_handleMessage cfg e s = Inr (s1, es1)"
    and r: "run_out (HiEthernetEncapsulation_handleMessage cfg) evs s1 = Inr (s', es2)"
    by (auto simp: run_out_Cons_Inr simp del: run_out.simps)
  have "encap_sim s1 (note_event e m)" by (rule encap_step[OF s1 assms(2)]) (use Cons.prems in simp_all)
  from Cons.IH[OF r _ this] Cons.prems(2) show ?case by simp
qed simp

text \<open>C12: The upstream queue a switch tells.  Whatever came and went before, a backpressure packet that a switch sends
  on names in its header the upstream queue that the first packet of its flow came from, the first since
  the flow's last packet went on, also when later packets of the flow came from another queue.\<close>

theorem encap_first_upstream:
  assumes "run_out (HiEthernetEncapsulation_handleMessage cfg) (evs @ [UpperLayerIn p]) HiEthernetEncapsulation_initial = Inr (s', es)"
    and "\<not> contains ''s'' (nodeName cfg)" and "\<forall>e\<in>set evs. encap_ids_fit e" and "backpressure_named (p_name p)"
  shows "\<exists>f q. last es = EncDown f \<and> fold note_event evs (\<lambda>_. None) (flow_of p) = Some q \<and>
     p_bfc f = Some \<lparr>upstreamQueueID = q, queueID = 0\<rparr>"
proof -
  obtain s es1 es2 where r: "run_out (HiEthernetEncapsulation_handleMessage cfg) evs HiEthernetEncapsulation_initial = Inr (s, es1)"
    and p: "HiEthernetEncapsulation_processPacketFromHigherLayer cfg p s = Inr (s', es2)" and es: "es = es1 @ es2"
    using assms(1) by (auto simp: run_out_append rbind_eq_Inr)
  have "encap_sim HiEthernetEncapsulation_initial (\<lambda>_. None)"
    by (simp add: encap_sim_def encap_flows_def HiEthernetEncapsulation_initial_def fun_eq_iff)
  from encap_sim_run[OF r assms(2,3) this] have "encap_flows s (flow_of p) = fold note_event evs (\<lambda>_. None) (flow_of p)"
    by (simp add: encap_sim_def)
  with fromUpper_flows[OF p assms(2,4)] es show ?thesis by (auto simp: encap_flows_def)
qed

text \<open>C14: A frame of unknown type.  When its type is in no table and a socket that is bound to a protocol would otherwise
  take it, the frame ends the simulation: the tag the socket asks for has just been removed.\<close>

theorem encap_unknown_type_fails:
  assumes "e_header p = Some hdr" and "e_fcs p" and "\<not> backpressure_named (p_name p)"
    and "isEth2Type (uint (typeOrLength hdr))" and "ProtocolGroup_findProtocol (uint (typeOrLength hdr)) = None"
    and "map_get (socketIdToSocketMap s) i = Some sk" and "sk_protocol sk \<noteq> None"
    and "sk_interfaceId sk \<in> {-1, p_iface p}" and "sk_remote sk \<in> {Unspecified, eh_src hdr}"
    and "sk_local sk \<in> {Unspecified, eh_dest hdr}"
  shows "HiEthernetEncapsulation_processPacketFromMac p s = Inl (RuntimeError ''Tag PacketProtocolTag is absent'')"
proof -
  let ?q = "HiEthernetEncapsulation_setProtocol None (HiEthernetEncapsulation_popHeader hdr p)"
  have q: "e_protocol ?q = None" "p_iface ?q = p_iface p"
    by (simp_all add: HiEthernetEncapsulation_setProtocol_def HiEthernetEncapsulation_popHeader_def)
  have only: "Socket_matches k ?q j hdr \<in> {Inr True, Inr False, Inl (RuntimeError ''Tag PacketProtocolTag is absent'')}" for k j
    by (auto simp: Socket_matches_def q split: option.splits)
  have bad: "Socket_matches sk ?q (p_iface p) hdr = Inl (RuntimeError ''Tag PacketProtocolTag is absent'')"
    using assms(7-10) by (auto simp: Socket_matches_def q split: option.splits)
  have "HiEthernetEncapsulation_socketLoop ?q (p_iface p) hdr m = Inl (RuntimeError ''Tag PacketProtocolTag is absent'')"
    if "(i, sk) \<in> set m" for m
    using that
  proof (induction m)
    case (Cons y m)
    obtain j k where y: "y = (j, k)" by (cases y)
    show ?case
    proof (cases "(j, k) = (i, sk)")
      case True
      then show ?thesis using bad by (simp add: y)
    next
      case False
      with Cons y show ?thesis using only[of k "p_iface p"] by auto
    qed
  qed simp
  note loop = this[OF map_get_entry[OF assms(6)]]
  have "\<not> isIeee8023Length (uint (typeOrLength hdr))" using assms(4) by (auto simp: isEth2Type_def isIeee8023Length_def)
  then have "HiEthernetEncapsulation_payload hdr (HiEthernetEncapsulation_popHeader hdr p) =
      Inr (HiEthernetEncapsulation_popHeader hdr p, None)"
    using assms(4,5) by (simp add: HiEthernetEncapsulation_payload_def)
  moreover have "p_name (HiEthernetEncapsulation_popHeader hdr p) = p_name p" by (simp add: HiEthernetEncapsulation_popHeader_def)
  ultimately show ?thesis
    using assms(1-3) loop q(2) by (simp add: HiEthernetEncapsulation_processPacketFromMac_def Let_def)
qed

definition sample_epacket :: "string \<Rightarrow> nat \<Rightarrow> u32 \<Rightarrow> bool \<Rightarrow> epacket" where
  "sample_epacket nm len fl lst = \<lparr>p_id = 1, p_name = nm, p_len = len, p_iface = 3, p_ecn = Some ECT0,
     p_tags = [\<lparr>ht_flowid = fl, ht_priority = 0, ht_flowsize = 0, ht_cretime = 0, ht_packetid = 0, ht_last = lst,
        ht_queueid = 0, ht_decel = False, ht_speedup = False, ht_sender_priority = -1\<rparr>],
     p_bfc = None, p_ispause = None, e_protocol = Some (Some ''ipv4''), e_dispatch = None,
     e_req = Some (Unspecified, HostAddr 2), e_ind = None, e_socket = None, e_header = None, e_fcs = False, e_pause = None\<rparr>"

definition sample_arrival :: "int \<Rightarrow> u32 \<Rightarrow> epacket" where
  "sample_arrival q fl = (sample_epacket ''BFCData-1'' 800 fl False)\<lparr>p_bfc := Some \<lparr>upstreamQueueID = q, queueID = 0\<rparr>,
     e_header := Some \<lparr>eh_src = HostAddr 1, eh_dest = HostAddr 2, typeOrLength = 0x0800\<rparr>, e_fcs := True\<rparr>"

lemmas encap_eval = sample_epacket_def sample_arrival_def HiEthernetEncapsulation_processPacketFromHigherLayer_def
  HiEthernetEncapsulation_insertBFCHeader_def HiEthernetEncapsulation_typeOrLength_def ProtocolGroup_getProtocolNumber_def
  ProtocolGroup_findProtocol_def ethertype_group_def HiEthernetEncapsulation_processPacketFromMac_def
  HiEthernetEncapsulation_removeBFCHeader_def HiEthernetEncapsulation_payload_def HiEthernetEncapsulation_popHeader_def
  HiEthernetEncapsulation_setProtocol_def HiEthernetEncapsulation_addHeader_def HiEthernetEncapsulation_srcAddr_def
  HiEthernetEncapsulation_initial_def backpressure_named_def isEth2Type_def isIeee8023Length_def Let_def

definition sample_encap :: encap_cfg where
  "sample_encap = \<lparr>nodeName = ''router'', nicAddress = Some (HostAddr 7)\<rparr>"


text \<open>The second packet of a flow came from queue 7, and is said to come from queue 2.\<close>

theorem encap_first_upstream_witness:
  "\<exists>s' es f. run_out (HiEthernetEncapsulation_handleMessage sample_encap)
       [LowerLayerIn (sample_arrival 2 9), LowerLayerIn (sample_arrival 7 9), UpperLayerIn (sample_epacket ''BFCData-1'' 800 9 False)]
       HiEthernetEncapsulation_initial = Inr (s', es) \<and>
     last es = EncDown f \<and> p_bfc f = Some \<lparr>upstreamQueueID = 2, queueID = 0\<rparr>"
proof -
  let ?evs = "[LowerLayerIn (sample_arrival 2 9), LowerLayerIn (sample_arrival 7 9)]"
  let ?p = "sample_epacket ''BFCData-1'' 800 9 False"
  obtain s' es where r: "run_out (HiEthernetEncapsulation_handleMessage sample_encap) (?evs @ [UpperLayerIn ?p])
      HiEthernetEncapsulation_initial = Inr (s', es)"
    by (simp add: encap_eval sample_encap_def)
  have "\<not> contains ''s'' (nodeName sample_encap)" "backpressure_named (p_name ?p)" "\<forall>e\<in>set ?evs. encap_ids_fit e"
    by (simp_all add: sample_encap_def sample_epacket_def sample_arrival_def backpressure_named_def)
  moreover have "fold note_event ?evs (\<lambda>_. None) (flow_of ?p) = Some 2"
    by (simp add: sample_epacket_def sample_arrival_def flow_of_def backpressure_named_def)
  ultimately show ?thesis using encap_first_upstream[OF r] r by auto
qed

theorem encap_unknown_type_fails_witness:
  "HiEthernetEncapsulation_processPacketFromMac
     (sample_epacket ''frame'' 800 9 False\<lparr>e_header := Some \<lparr>eh_src = HostAddr 1, eh_dest = HostAddr 2, typeOrLength = 0x9000\<rparr>,
        e_fcs := True\<rparr>)
     (HiEthernetEncapsulation_initial\<lparr>socketIdToSocketMap :=
        [(4, \<lparr>sk_interfaceId = -1, sk_local = Unspecified, sk_remote = Unspecified, sk_protocol = Some ''ipv4'', sk_steal = False\<rparr>)]\<rparr>) =
     Inl (RuntimeError ''Tag PacketProtocolTag is absent'')"
  by (rule encap_unknown_type_fails[where i = 4 and hdr = "\<lparr>eh_src = HostAddr 1, eh_dest = HostAddr 2, typeOrLength = 0x9000\<rparr>"
      and sk = "\<lparr>sk_interfaceId = -1, sk_local = Unspecified, sk_remote = Unspecified, sk_protocol = Some ''ipv4'', sk_steal = False\<rparr>"])
    (simp_all add: encap_eval)

end
