(* ===== verification/Send_Script.thy ===== *)
theory Send_Script
  imports Flow_Sender
begin

section \<open>The send script of an application\<close>

text \<open>
  \<open>HiNA/App/HiUdpApp.cc\<close> and \<open>TcpApp.cc\<close> hold the same \<open>parseScript\<close>: a script is a sequence of
  commands "time bytes" that are separated by semicolons.  This theory models it with what it uses
  of the C library: \<open>isspace\<close>, \<open>isdigit\<close>, \<open>strtod\<close> and \<open>strtol\<close> in the C locale.

  The text is the array the code reads, with the terminating NUL where there is one.  A constant
  script ends in a NUL; the buffer a file is read into does not.  A scanner that needs a character
  past the end of the array fails with \<open>OutOfBounds\<close>.  \<open>strtod\<close> finds the decimal number exactly.  What it becomes, rounded
  to a \<open>double\<close> and converted into a \<open>simtime_t\<close> of the simulation library, is the parameter \<open>conv\<close>; nothing is assumed of it,
  and it may fail.
\<close>

abbreviation NUL :: char where "NUL \<equiv> CHR 0x00"

definition isspace :: "char \<Rightarrow> bool" where
  "isspace c \<longleftrightarrow> (let n = (of_char c :: nat) in n = 32 \<or> 9 \<le> n \<and> n \<le> 13)"

definition tolower :: "char \<Rightarrow> char" where
  "tolower c = (let n = (of_char c :: nat) in if 65 \<le> n \<and> n \<le> 90 then char_of (n + 32) else c)"

text \<open>The value of a digit, hexadecimal digits included.\<close>

definition digit_value :: "char \<Rightarrow> nat option" where
  "digit_value c =
     (let n = (of_char c :: nat) in
      if 48 \<le> n \<and> n \<le> 57 then Some (n - 48)
      else if 97 \<le> n \<and> n \<le> 102 then Some (n - 87)
      else if 65 \<le> n \<and> n \<le> 70 then Some (n - 55)
      else None)"

definition is_digit_of :: "nat \<Rightarrow> char \<Rightarrow> bool" where
  "is_digit_of b c \<longleftrightarrow> (case digit_value c of None \<Rightarrow> False | Some v \<Rightarrow> v < b)"

abbreviation isdigit :: "char \<Rightarrow> bool" where
  "isdigit \<equiv> is_digit_of 10"

text \<open>\<open>while (isspace(*s)) s++;\<close>\<close>

fun skip_spaces :: "string \<Rightarrow> string res" where
  "skip_spaces [] = Inl OutOfBounds"
| "skip_spaces (c # s) = (if isspace c then skip_spaces s else Inr (c # s))"

text \<open>The longest sequence of digits in base \<open>b\<close>, and what follows it.\<close>

fun scan_digits :: "nat \<Rightarrow> string \<Rightarrow> (nat list \<times> string) res" where
  "scan_digits b [] = Inl OutOfBounds"
| "scan_digits b (c # s) =
     (if is_digit_of b c then rbind (scan_digits b s) (\<lambda>(ds, r). Inr (the (digit_value c) # ds, r))
      else Inr ([], c # s))"

definition digits_value :: "nat \<Rightarrow> nat list \<Rightarrow> nat" where
  "digits_value b ds = foldl (\<lambda>n d. b * n + d) 0 ds"

fun scan_sign :: "string \<Rightarrow> (int \<times> string) res" where
  "scan_sign [] = Inl OutOfBounds"
| "scan_sign (c # s) =
     (if c = CHR ''-'' then Inr (-1, s) else if c = CHR ''+'' then Inr (1, s) else Inr (1, c # s))"

text \<open>A word of lower-case letters, in any case; what follows it when it is there.\<close>

fun scan_word :: "string \<Rightarrow> string \<Rightarrow> string option res" where
  "scan_word [] s = Inr (Some s)"
| "scan_word (k # ks) [] = Inl OutOfBounds"
| "scan_word (k # ks) (c # s) = (if tolower c = k then scan_word ks s else Inr None)"

text \<open>
  The optional fraction, the optional exponent, and a number in base \<open>b\<close> whose exponent is marked
  by \<open>e\<close>; \<open>None\<close> when there is no digit at all.
\<close>

definition scan_fraction :: "nat \<Rightarrow> string \<Rightarrow> (nat list \<times> string) res" where
  "scan_fraction b s =
     (case s of [] \<Rightarrow> Inl OutOfBounds
      | c # r \<Rightarrow> if c = CHR ''.'' then scan_digits b r else Inr ([], s))"

definition scan_exponent :: "char \<Rightarrow> string \<Rightarrow> (int \<times> string) res" where
  "scan_exponent e s =
     (case s of [] \<Rightarrow> Inl OutOfBounds
      | c # r \<Rightarrow>
          if tolower c \<noteq> e then Inr (0, s)
          else rbind (scan_sign r) (\<lambda>(g, r1). rbind (scan_digits 10 r1) (\<lambda>(ds, r2).
                 if ds = [] then Inr (0, s) else Inr (g * int (digits_value 10 ds), r2))))"

definition scaled :: "real \<Rightarrow> int \<Rightarrow> real \<Rightarrow> real" where
  "scaled x n base = (if 0 \<le> n then x * base ^ nat n else x / base ^ nat (- n))"

definition scan_number :: "nat \<Rightarrow> char \<Rightarrow> string \<Rightarrow> (double \<times> string) option res" where
  "scan_number b e s =
     rbind (scan_digits b s) (\<lambda>(ip, s1). rbind (scan_fraction b s1) (\<lambda>(fp, s2).
       if ip = [] \<and> fp = [] then Inr None
       else rbind (scan_exponent e s2) (\<lambda>(n, s3).
         Inr (Some (scaled (real (digits_value b (ip @ fp)) / real b ^ length fp) n (if b = 16 then 2 else 10), s3)))))"

text \<open>
  \<open>strtod(s, &s)\<close> after white space: the value and where the scan ended, which is where it began
  when there is no number.  (A \<open>nan\<close> may be followed by a bracket, which is left unread here: the
  only caller fails with the value.)
\<close>

datatype float_value = Finite double | Infinite | NaN

definition strtod_decimal :: "int \<Rightarrow> string \<Rightarrow> string \<Rightarrow> (float_value \<times> string) res" where
  "strtod_decimal g s s1 =
     rbind (scan_number 10 (CHR ''e'') s1) (\<lambda>d. case d of
       Some (v, r) \<Rightarrow> Inr (Finite (of_int g * v), r)
     | None \<Rightarrow> Inr (Finite 0, s))"

definition strtod_hex :: "int \<Rightarrow> string \<Rightarrow> string \<Rightarrow> (float_value \<times> string) res" where
  "strtod_hex g s s1 =
     rbind (scan_word ''0x'' s1) (\<lambda>hex. case hex of
       None \<Rightarrow> strtod_decimal g s s1
     | Some r \<Rightarrow> rbind (scan_number 16 (CHR ''p'') r) (\<lambda>h. case h of
         Some (v, r') \<Rightarrow> Inr (Finite (of_int g * v), r')
       | None \<Rightarrow> strtod_decimal g s s1))"

definition strtod_nan :: "int \<Rightarrow> string \<Rightarrow> string \<Rightarrow> (float_value \<times> string) res" where
  "strtod_nan g s s1 =
     rbind (scan_word ''nan'' s1) (\<lambda>nan. case nan of Some r \<Rightarrow> Inr (NaN, r) | None \<Rightarrow> strtod_hex g s s1)"

definition strtod :: "string \<Rightarrow> (float_value \<times> string) res" where
  "strtod s =
     rbind (scan_sign s) (\<lambda>(g, s1).
     rbind (scan_word ''inf'' s1) (\<lambda>inf. case inf of
       Some r \<Rightarrow> rbind (scan_word ''inity'' r) (\<lambda>w. Inr (Infinite, case w of None \<Rightarrow> r | Some r' \<Rightarrow> r'))
     | None \<Rightarrow> strtod_nan g s s1))"

subsection \<open>No scanner returns more than it got\<close>

named_theorems shorter "the rest a scanner leaves is no longer than its input"

lemma skip_spaces_shorter [shorter]: "skip_spaces s = Inr r \<Longrightarrow> length r \<le> length s"
  by (induction s) (auto split: if_splits)

lemma skip_spaces_stop: "skip_spaces s = Inr r \<Longrightarrow> \<exists>c t. r = c # t \<and> \<not> isspace c"
  by (induction s) (auto split: if_splits)

lemma scan_digits_shorter [shorter]: "scan_digits b s = Inr (ds, r) \<Longrightarrow> length r \<le> length s"
  by (induction s arbitrary: ds) (fastforce simp: rbind_eq_Inr split: if_splits)+

lemma scan_sign_shorter [shorter]: "scan_sign s = Inr (g, r) \<Longrightarrow> length r \<le> length s"
  by (cases s) (auto split: if_splits)

lemma scan_word_shorter [shorter]: "scan_word w s = Inr (Some r) \<Longrightarrow> length r \<le> length s"
  by (induction w s rule: scan_word.induct) (auto split: if_splits)

lemma scan_fraction_shorter [shorter]: "scan_fraction b s = Inr (ds, r) \<Longrightarrow> length r \<le> length s"
  by (fastforce simp: scan_fraction_def split: list.splits if_splits dest: scan_digits_shorter)

lemma scan_exponent_shorter [shorter]:
  assumes "scan_exponent e s = Inr (n, r)"
  shows "length r \<le> length s"
proof (cases s)
  case Nil
  with assms show ?thesis by (simp add: scan_exponent_def)
next
  case (Cons c t)
  with assms show ?thesis
    by (auto simp: scan_exponent_def rbind_eq_Inr split: if_splits dest!: scan_sign_shorter scan_digits_shorter)
qed

lemma scan_number_shorter [shorter]: "scan_number b e s = Inr (Some (v, r)) \<Longrightarrow> length r \<le> length s"
  by (auto simp: scan_number_def rbind_eq_Inr split: if_splits
      dest!: scan_exponent_shorter scan_digits_shorter scan_fraction_shorter)

lemma strtod_decimal_shorter:
  "strtod_decimal g s s1 = Inr (v, r) \<Longrightarrow> length s1 \<le> length s \<Longrightarrow> length r \<le> length s"
  unfolding strtod_decimal_def rbind_eq_Inr by (force split: option.splits dest: scan_number_shorter)

lemma strtod_hex_shorter:
  assumes "strtod_hex g s s1 = Inr (v, r)" and "length s1 \<le> length s"
  shows "length r \<le> length s"
proof -
  from assms(1) obtain hex where w: "scan_word ''0x'' s1 = Inr hex"
    and k: "(case hex of None \<Rightarrow> strtod_decimal g s s1
     | Some r \<Rightarrow> rbind (scan_number 16 (CHR ''p'') r) (\<lambda>h. case h of
         Some (v, r') \<Rightarrow> Inr (Finite (of_int g * v), r') | None \<Rightarrow> strtod_decimal g s s1)) = Inr (v, r)"
    unfolding strtod_hex_def rbind_eq_Inr by blast
  show ?thesis
  proof (cases hex)
    case None
    with k assms(2) show ?thesis by (auto dest: strtod_decimal_shorter)
  next
    case (Some t)
    with w have t: "length t \<le> length s1" by (auto dest: scan_word_shorter)
    obtain h where h: "scan_number 16 (CHR ''p'') t = Inr h"
      and k': "(case h of Some (v, r') \<Rightarrow> Inr (Finite (of_int g * v), r') | None \<Rightarrow> strtod_decimal g s s1) = Inr (v, r)"
      using k unfolding Some option.case rbind_eq_Inr by blast
    show ?thesis
      using h k' t assms(2) by (cases h) (auto dest!: strtod_decimal_shorter scan_number_shorter)
  qed
qed

lemma strtod_nan_shorter:
  assumes "strtod_nan g s s1 = Inr (v, r)" and "length s1 \<le> length s"
  shows "length r \<le> length s"
proof -
  from assms(1) obtain nan where w: "scan_word ''nan'' s1 = Inr nan"
    and k: "(case nan of Some r \<Rightarrow> Inr (NaN, r) | None \<Rightarrow> strtod_hex g s s1) = Inr (v, r)"
    unfolding strtod_nan_def rbind_eq_Inr by blast
  then show ?thesis using assms(2) by (cases nan) (auto dest!: strtod_hex_shorter scan_word_shorter)
qed

lemma strtod_shorter [shorter]:
  assumes "strtod s = Inr (v, r)"
  shows "length r \<le> length s"
proof -
  from assms obtain g s1 inf where s1: "scan_sign s = Inr (g, s1)" and w: "scan_word ''inf'' s1 = Inr inf"
    and k: "(case inf of
       Some r \<Rightarrow> rbind (scan_word ''inity'' r) (\<lambda>w. Inr (Infinite, case w of None \<Rightarrow> r | Some r' \<Rightarrow> r'))
     | None \<Rightarrow> strtod_nan g s s1) = Inr (v, r)"
    by (cases "scan_sign s") (auto simp: strtod_def rbind_eq_Inr[where r = "scan_word _ _"] simp del: scan_word.simps)
  show ?thesis
  proof (cases inf)
    case (Some t)
    with k obtain u where "scan_word ''inity'' t = Inr u" and "r = (case u of None \<Rightarrow> t | Some r' \<Rightarrow> r')"
      by (auto simp: rbind_eq_Inr)
    with w Some scan_sign_shorter[OF s1] show ?thesis
      by (cases u) (auto dest!: scan_word_shorter)
  next
    case None
    with k scan_sign_shorter[OF s1] show ?thesis by (auto dest: strtod_nan_shorter)
  qed
qed

subsection \<open>parseScript\<close>

record command =
  tSend :: simtime
  numBytes :: int

text \<open>\<open>strtol\<close> stops at the largest \<open>long\<close>.\<close>

definition strtol :: "nat list \<Rightarrow> int" where
  "strtol ds = min (2 ^ 63 - 1) (int (digits_value 10 ds))"

function parse_commands :: "(float_value \<Rightarrow> simtime res) \<Rightarrow> string \<Rightarrow> command list res" where
  "parse_commands conv s =
     (if s = [] then Inl OutOfBounds
      else if hd s = NUL then Inr []
      else rbind (skip_spaces s) (\<lambda>s0.
        if hd s0 = NUL \<or> hd s0 = CHR '';'' then Inr []
        else rbind (strtod s0) (\<lambda>(v, s1). rbind (conv v) (\<lambda>t.
          if s1 = s0 then Inl (RuntimeError ''Syntax error in script: simulation time expected'')
          else rbind (skip_spaces s1) (\<lambda>s2.
            if \<not> isdigit (hd s2) then Inl (RuntimeError ''Syntax error in script: number of bytes expected'')
            else rbind (scan_digits 10 s2) (\<lambda>(ds, s3).
              let cmd = \<lparr>tSend = t, numBytes = strtol ds\<rparr> in
              rbind (skip_spaces s3) (\<lambda>s4.
                if hd s4 = NUL then Inr [cmd]
                else if hd s4 \<noteq> CHR '';'' then Inl (RuntimeError ''Syntax error in script: separator missing'')
                else rbind (skip_spaces (tl s4)) (\<lambda>s5.
                  rbind (parse_commands conv s5) (\<lambda>cs. Inr (cmd # cs))))))))))"
  by pat_completeness auto
termination
proof (relation "measure (length \<circ> snd)", simp)
  fix conv :: "float_value \<Rightarrow> simtime res" and s s0 v s1 t s2 ds s3 s4 s5 :: string and d :: float_value and x :: simtime and l :: "nat list"
  fix y y'
  assume "skip_spaces s = Inr s0" and "strtod s0 = Inr y" and "(d, s1) = y"
    and "skip_spaces s1 = Inr s2" and "scan_digits 10 s2 = Inr y'" and "(l, s3) = y'"
    and s4: "skip_spaces s3 = Inr s4" and "skip_spaces (tl s4) = Inr s5"
  then have "length s0 \<le> length s" "length s1 \<le> length s0" "length s2 \<le> length s1" "length s3 \<le> length s2"
    "length s4 \<le> length s3" "length s5 \<le> length (tl s4)"
    by (auto dest: shorter)
  moreover have "length (tl s4) < length s4" using skip_spaces_stop[OF s4] by auto
  ultimately show "((conv, s5), (conv, s)) \<in> measure (length \<circ> snd)" by simp
qed

declare parse_commands.simps [simp del]

text \<open>
  \<open>parseScript\<close>: an empty parameter is an empty script; else it names a file, or is itself the script
  when no such file can be opened.  \<open>file\<close> is the content of the file.
\<close>

definition HiUdpApp_parseScript :: "(float_value \<Rightarrow> simtime res) \<Rightarrow> string option \<Rightarrow> string \<Rightarrow> command list res" where
  "HiUdpApp_parseScript conv file script =
     (if script = [] then parse_commands conv [NUL]
      else case file of
        None \<Rightarrow> parse_commands conv (script @ [NUL])
      | Some buffer \<Rightarrow> if buffer = [] then parse_commands conv [NUL] else parse_commands conv buffer)"

subsection \<open>Printed scripts\<close>

text \<open>
  A reference printer: each command is a time in decimal, with an optional fraction, and a number of
  bytes, followed by a semicolon.
\<close>

record printed =
  whole_part :: nat
  fraction :: "nat list"
  amount :: nat

definition digit_char :: "nat \<Rightarrow> char" where
  "digit_char d = char_of (48 + d)"

definition print_time :: "printed \<Rightarrow> string" where
  "print_time c = digits (whole_part c) @ (if fraction c = [] then [] else CHR ''.'' # map digit_char (fraction c))"

definition print_command :: "printed \<Rightarrow> string" where
  "print_command c = print_time c @ CHR '' '' # digits (amount c) @ '';''"

definition print_script :: "printed list \<Rightarrow> string" where
  "print_script cs = concat (map print_command cs)"

definition printable :: "printed \<Rightarrow> bool" where
  "printable c \<longleftrightarrow> (\<forall>d\<in>set (fraction c). d < 10) \<and> amount c < 2 ^ 63"

text \<open>The number that is printed, and the command it stands for when its time is converted by \<open>conv\<close>.\<close>

definition printed_time :: "printed \<Rightarrow> real" where
  "printed_time c = real (whole_part c) + real (digits_value 10 (fraction c)) / 10 ^ length (fraction c)"

definition command_of :: "(float_value \<Rightarrow> simtime res) \<Rightarrow> printed \<Rightarrow> command res" where
  "command_of conv c = rbind (conv (Finite (printed_time c))) (\<lambda>t. Inr \<lparr>tSend = t, numBytes = int (amount c)\<rparr>)"

text \<open>All results, or the first error.\<close>

fun collect :: "'a res list \<Rightarrow> 'a list res" where
  "collect [] = Inr []"
| "collect (r # rs) = rbind r (\<lambda>x. rbind (collect rs) (\<lambda>xs. Inr (x # xs)))"

lemma digit_char_simps [simp]:
  assumes "d < 10"
  shows "digit_value (digit_char d) = Some d" "isdigit (digit_char d)" "\<not> isspace (digit_char d)"
    "digit_char d \<noteq> NUL" "digit_char d \<noteq> CHR '';''" "digit_char d \<noteq> CHR ''-''" "digit_char d \<noteq> CHR ''+''"
    "tolower (digit_char d) = digit_char d" "digit_char d \<noteq> CHR ''i''" "digit_char d \<noteq> CHR ''n''"
    "digit_char d \<noteq> CHR ''x''" "digit_char d = CHR ''0'' \<longleftrightarrow> d = 0"
proof -
  have n: "(of_char (digit_char d) :: nat) = 48 + d" using assms by (simp add: digit_char_def)
  have eq: "digit_char d = c \<longleftrightarrow> 48 + d = of_char c" for c
    using n by (metis char_of_char)
  have "digit_value (digit_char d) = Some d" using assms by (simp add: digit_value_def n)
  then show "digit_value (digit_char d) = Some d" "isdigit (digit_char d)" using assms by (simp_all add: is_digit_of_def)
  show "\<not> isspace (digit_char d)" "tolower (digit_char d) = digit_char d"
    using assms by (simp_all add: isspace_def tolower_def n)
  show "digit_char d \<noteq> NUL" "digit_char d \<noteq> CHR '';''" "digit_char d \<noteq> CHR ''-''" "digit_char d \<noteq> CHR ''+''"
    "digit_char d \<noteq> CHR ''i''" "digit_char d \<noteq> CHR ''n''" "digit_char d \<noteq> CHR ''x''" "digit_char d = CHR ''0'' \<longleftrightarrow> d = 0"
    using assms by (simp_all add: eq)
qed

lemma digits_printed: "\<exists>ds. digits n = map digit_char ds \<and> ds \<noteq> [] \<and> (\<forall>d\<in>set ds. d < 10) \<and> digits_value 10 ds = n"
proof (induction n rule: digits.induct)
  case (1 n)
  show ?case
  proof (cases "n < 10")
    case True
    then show ?thesis
      by (intro exI[of _ "[n]"]) (subst digits.simps, simp add: digit_char_def digits_value_def)
  next
    case False
    then obtain ds where "digits (n div 10) = map digit_char ds" "\<forall>d\<in>set ds. d < 10" "digits_value 10 ds = n div 10"
      using 1 by blast
    with False show ?thesis
      by (intro exI[of _ "ds @ [n mod 10]"]) (subst digits.simps, simp add: digit_char_def digits_value_def)
  qed
qed

lemma scan_printed:
  "\<forall>d\<in>set ds. d < 10 \<Longrightarrow> \<not> isdigit c \<Longrightarrow> scan_digits 10 (map digit_char ds @ c # s) = Inr (ds, c # s)"
  by (induction ds) auto

lemma scan_printed_end: "\<forall>d\<in>set ds. d < 10 \<Longrightarrow> scan_digits 10 (map digit_char ds) = Inl OutOfBounds"
  by (induction ds) auto

lemma digits_value_append: "digits_value b (xs @ ys) = digits_value b xs * b ^ length ys + digits_value b ys"
proof (induction ys rule: rev_induct)
  case Nil
  then show ?case by (simp add: digits_value_def)
next
  case (snoc y ys)
  have "digits_value b (zs @ [y]) = b * digits_value b zs + y" for zs by (simp add: digits_value_def)
  from this[of "xs @ ys"] this[of ys] snoc show ?case by (simp add: algebra_simps)
qed

text \<open>\<open>strtod\<close> reads a printed time, whatever stands before the semicolon.\<close>

lemma strtod_printed:
  assumes "\<forall>d\<in>set (fraction c). d < 10"
  shows "strtod (print_time c @ CHR '' '' # s) =
     Inr (Finite (printed_time c), CHR '' '' # s)"
proof -
  obtain ds where ds: "digits (whole_part c) = map digit_char ds" "ds \<noteq> []" "\<forall>d\<in>set ds. d < 10"
    "digits_value 10 ds = whole_part c" using digits_printed by blast
  then obtain d es where c: "ds = d # es" "d < 10" by (cases ds) auto
  let ?fp = "if fraction c = [] then [] else CHR ''.'' # map digit_char (fraction c)"
  let ?t = "map digit_char ds @ ?fp @ CHR '' '' # s"
  have dot: "\<not> isdigit (CHR ''.'')" "\<not> isdigit (CHR '' '')" "tolower (CHR '' '') = CHR '' ''" "tolower (CHR ''.'') = CHR ''.''"
    by (simp_all add: is_digit_of_def digit_value_def tolower_def Let_def)
  have sign: "scan_sign ?t = Inr (1, ?t)" and inf: "scan_word ''inf'' ?t = Inr None" and nan: "scan_word ''nan'' ?t = Inr None"
    using c by simp_all
  have hex: "scan_word ''0x'' ?t = Inr None"
  proof (cases es)
    case Nil
    with c dot show ?thesis by (simp split: if_splits)
  next
    case (Cons e es')
    with c ds(3) show ?thesis by (simp split: if_splits)
  qed
  have ip: "scan_digits 10 ?t = Inr (ds, ?fp @ CHR '' '' # s)"
    using scan_printed[OF ds(3), of "CHR ''.''" "map digit_char (fraction c) @ CHR '' '' # s"]
      scan_printed[OF ds(3), of "CHR '' ''" s] dot by simp
  have fp: "scan_fraction 10 (?fp @ CHR '' '' # s) = Inr (fraction c, CHR '' '' # s)"
    using scan_printed[OF assms, of "CHR '' ''" s] dot by (simp add: scan_fraction_def)
  have ex: "scan_exponent (CHR ''e'') (CHR '' '' # s) = Inr (0, CHR '' '' # s)"
    using dot by (simp add: scan_exponent_def)
  have v: "real (digits_value 10 (ds @ fraction c)) / 10 ^ length (fraction c) =
      real (whole_part c) + real (digits_value 10 (fraction c)) / 10 ^ length (fraction c)"
    by (simp add: digits_value_append ds(4) add_divide_distrib)
  have "scan_number 10 (CHR ''e'') ?t =
     Inr (Some (real (whole_part c) + real (digits_value 10 (fraction c)) / 10 ^ length (fraction c), CHR '' '' # s))"
    using ds(2) v by (simp add: scan_number_def ip fp ex scaled_def)
  then show ?thesis
    using sign inf nan hex
    by (simp add: strtod_def strtod_nan_def strtod_hex_def strtod_decimal_def print_time_def printed_time_def ds(1))
qed

lemma print_time_head: "\<exists>d r. print_time c = digit_char d # r \<and> d < 10"
proof -
  obtain ds where "digits (whole_part c) = map digit_char ds" "ds \<noteq> []" "\<forall>d\<in>set ds. d < 10"
    using digits_printed by blast
  then show ?thesis by (cases ds) (auto simp: print_time_def)
qed

text \<open>One command of a printed script, with what follows it.\<close>

lemma parse_printed:
  assumes "printable c"
  shows "parse_commands conv (print_command c @ s) =
     rbind (command_of conv c) (\<lambda>cmd. rbind (skip_spaces s) (\<lambda>s'. rbind (parse_commands conv s') (\<lambda>cs. Inr (cmd # cs))))"
proof -
  obtain d r where h: "print_time c = digit_char d # r" "d < 10" using print_time_head by blast
  obtain ds where ds: "digits (amount c) = map digit_char ds" "ds \<noteq> []" "\<forall>d\<in>set ds. d < 10"
    "digits_value 10 ds = amount c" using digits_printed by blast
  then obtain e es where e: "ds = e # es" "e < 10" by (cases ds) auto
  let ?b = "map digit_char ds @ CHR '';'' # s"
  have semi: "\<not> isdigit (CHR '';'')" "\<not> isspace (CHR '';'')" "isspace (CHR '' '')"
    by (simp_all add: is_digit_of_def digit_value_def isspace_def Let_def)
  have t: "print_command c @ s = print_time c @ CHR '' '' # ?b" by (simp add: print_command_def ds(1))
  have n: "strtol ds = int (amount c)" using assms by (simp add: strtol_def ds(4) printable_def)
  have st: "strtod (print_time c @ CHR '' '' # ?b) =
      Inr (Finite (printed_time c), CHR '' '' # ?b)"
    using assms by (intro strtod_printed) (simp add: printable_def)
  have ne: "CHR '' '' # ?b \<noteq> print_time c @ CHR '' '' # ?b"
    by (rule notI, drule arg_cong[where f = length]) (simp add: h(1))
  have pt: "print_time c \<noteq> []" using h by simp
  have sk: "skip_spaces (print_time c @ CHR '' '' # ?b) = Inr (print_time c @ CHR '' '' # ?b)"
    using h by simp
  have hd: "hd (print_time c) \<noteq> NUL" "hd (print_time c) \<noteq> CHR '';''"
    using h by simp_all
  have sb: "skip_spaces (CHR '' '' # ?b) = Inr ?b" "isdigit (hd ?b)"
    using semi e by simp_all
  have sd: "scan_digits 10 ?b = Inr (ds, CHR '';'' # s)" by (rule scan_printed[OF ds(3) semi(1)])
  have ss: "skip_spaces (CHR '';'' # s) = Inr (CHR '';'' # s)" using semi by simp
  show ?thesis
    by (subst parse_commands.simps, cases "conv (Finite (printed_time c))")
      (simp_all add: t sk hd st ne pt sb sd ss n command_of_def Let_def del: skip_spaces.simps)
qed

lemma print_script_head: "cs \<noteq> [] \<Longrightarrow> skip_spaces (print_script cs @ s) = Inr (print_script cs @ s)"
  using print_time_head[of "hd cs"] by (cases cs) (auto simp: print_script_def print_command_def)

lemma parse_print_script:
  assumes "\<forall>c\<in>set cs. printable c"
  shows "parse_commands conv (print_script cs @ [NUL]) = collect (map (command_of conv) cs)"
  using assms
proof (induction cs)
  case Nil
  then show ?case by (subst parse_commands.simps) (simp add: print_script_def)
next
  case (Cons c cs)
  have nul: "skip_spaces (print_script cs @ [NUL]) = Inr (print_script cs @ [NUL])"
    by (cases cs) (simp add: print_script_def isspace_def, use print_script_head in simp)
  have "print_script (c # cs) @ [NUL] = print_command c @ print_script cs @ [NUL]" by (simp add: print_script_def)
  then show ?case using Cons parse_printed[of c conv "print_script cs @ [NUL]"] nul by simp
qed

lemma parse_print_unterminated:
  assumes "\<forall>c\<in>set cs. printable c"
  shows "parse_commands conv (print_script cs) = rbind (collect (map (command_of conv) cs)) (\<lambda>_. Inl OutOfBounds)"
  using assms
proof (induction cs)
  case Nil
  then show ?case by (subst parse_commands.simps) (simp add: print_script_def)
next
  case (Cons c cs)
  have "print_script (c # cs) = print_command c @ print_script cs" by (simp add: print_script_def)
  moreover have "skip_spaces (print_script cs) = (if cs = [] then Inl OutOfBounds else Inr (print_script cs))"
    using print_script_head[of cs "[]"] by (auto simp: print_script_def)
  ultimately show ?case using Cons parse_printed[of c conv "print_script cs"]
    by (cases "command_of conv c"; cases "collect (map (command_of conv) cs)") (auto simp: print_script_def)
qed

subsection \<open>Property\<close>

text \<open>C28: A script and the file it is kept in.  A script that was printed, with times of any number of decimals and amounts of
  up to 2^63 - 1 bytes, is read back when it is given as the parameter: the same commands in the same order with the
  same amounts, each time being what the conversion \<open>conv\<close> into a \<open>simtime_t\<close> makes of exactly the decimal number printed; a time
  it does not convert is the error of the script.  When the same text is the content of a file that the parameter names, the code reads
  past the end of the buffer, for which no terminating NUL is written, once every time is converted.\<close>

theorem script_round_trip:
  assumes "\<forall>c\<in>set cs. printable c" and "cs \<noteq> []" and "name \<noteq> []"
  shows "HiUdpApp_parseScript conv None (print_script cs) = collect (map (command_of conv) cs) \<and>
    HiUdpApp_parseScript conv (Some (print_script cs)) name = rbind (collect (map (command_of conv) cs)) (\<lambda>_. Inl OutOfBounds)"
proof -
  have "print_script cs \<noteq> []" using assms(2) by (cases cs) (simp_all add: print_script_def print_command_def)
  with parse_print_script[OF assms(1)] parse_print_unterminated[OF assms(1)] assms(3) show ?thesis
    by (simp add: HiUdpApp_parseScript_def)
qed

text \<open>A fixed-point time of 64 bits that counts picoseconds: decimals beyond the twelfth are rounded, a time of 10^7 seconds is out of
  range.\<close>

definition picoseconds :: "float_value \<Rightarrow> simtime res" where
  "picoseconds v =
     (case v of
        Finite x \<Rightarrow> if \<bar>round (x * 10 ^ 12)\<bar> < 2 ^ 63 then Inr (of_int (round (x * 10 ^ 12)) / 10 ^ 12) else Inl SimTimeOverflow
      | Infinite \<Rightarrow> Inl SimTimeOverflow
      | NaN \<Rightarrow> Inl FloatConversion)"

lemma picoseconds_samples:
  "picoseconds (Finite (1/4)) = Inr (1/4)"
  "picoseconds (Finite (12 + 1 / 10 ^ 13)) = Inr 12"
  "picoseconds (Finite (10 ^ 7)) = Inl SimTimeOverflow"
proof -
  have "round ((12 + 1 / 10 ^ 13) * 10 ^ 12 :: real) = 12 * 10 ^ 12" by (rule round_unique') (simp add: field_simps)
  then show "picoseconds (Finite (12 + 1 / 10 ^ 13)) = Inr 12" by (simp add: picoseconds_def)
qed (simp_all add: picoseconds_def)

theorem script_round_trip_witness:
  "HiUdpApp_parseScript picoseconds None (print_script [\<lparr>whole_part = 0, fraction = [2, 5], amount = 1000\<rparr>,
       \<lparr>whole_part = 12, fraction = [0, 0, 0, 0, 0, 0, 0, 0, 0, 0, 0, 0, 1], amount = 70000\<rparr>]) =
     Inr [\<lparr>tSend = 1/4, numBytes = 1000\<rparr>, \<lparr>tSend = 12, numBytes = 70000\<rparr>] \<and>
   HiUdpApp_parseScript picoseconds None (print_script [\<lparr>whole_part = 10 ^ 7, fraction = [], amount = 1000\<rparr>]) = Inl SimTimeOverflow"
  using script_round_trip[of "[\<lparr>whole_part = 0, fraction = [2, 5], amount = 1000\<rparr>,
      \<lparr>whole_part = 12, fraction = [0, 0, 0, 0, 0, 0, 0, 0, 0, 0, 0, 0, 1], amount = 70000\<rparr>]" "''commands.txt''" picoseconds]
    script_round_trip[of "[\<lparr>whole_part = 10 ^ 7, fraction = [], amount = 1000\<rparr>]" "''commands.txt''" picoseconds] picoseconds_samples
  by (simp add: printable_def command_of_def printed_time_def digits_value_def)

end
