(* ===== verification/Udp_App.thy ===== *)
theory Udp_App
  imports Send_Script
begin

section \<open>HiUdpApp\<close>

text \<open>
  The traffic source and sink of \<open>HiNA/App/HiUdpApp.cc\<close>, with the counter of flow ids of
  \<open>GlobalFlowId.h\<close>.  The application draws the size of a flow from the table of its traffic mode, a
  parameter or a script, sends the flow as messages of at most 65527 bytes to one of its destinations,
  and waits until the flow would have been sent at the given load of the link.

  \<^item> \<open>rand\<close> of the C library is a function from the last seed and the number of calls since (\<open>libc_rand\<close>);
    the seed, the calls and the flow id counter are shared by the whole simulation (\<open>sim_env\<close>), and
    \<open>Elsewhere\<close> is what other modules do to them between two events.  The other random draw, \<open>exponential\<close>
    of the simulator, comes with the event.
  \<^item> \<open>L3AddressResolver::tryResolve\<close> is a function of the time and the name; an address that cannot be
    resolved is \<open>NoAddr\<close>.  \<open>destTokens\<close> are the words of the parameter \<open>connectAddresses\<close>.
  \<^item> \<open>chunk_checks\<close> says whether the checks of the packet library are compiled in, as they are without
    \<open>NDEBUG\<close>.
  \<^item> A timer fires at the time it is set to.  The socket's options, recorded vectors and the display
    are left out.
\<close>

datatype l3addr = NoAddr | LinkLocal nat | GlobalAddr nat

type_synonym libc_rand = "u32 \<Rightarrow> nat \<Rightarrow> nat"

record sim_env =
  rand_seed :: u32
  rand_calls :: nat
  next_flowid :: u64

definition c_srand :: "u32 \<Rightarrow> sim_env \<Rightarrow> sim_env" where
  "c_srand w e = e\<lparr>rand_seed := w, rand_calls := 0\<rparr>"

definition c_rand :: "libc_rand \<Rightarrow> sim_env \<Rightarrow> nat \<times> sim_env" where
  "c_rand R e = (R (rand_seed e) (rand_calls e), e\<lparr>rand_calls := Suc (rand_calls e)\<rparr>)"

definition GlobalFlowId_getflowid :: "sim_env \<Rightarrow> u64" where
  "GlobalFlowId_getflowid e = next_flowid e"

definition GlobalFlowId_flowidadd :: "sim_env \<Rightarrow> sim_env" where
  "GlobalFlowId_flowidadd e = e\<lparr>next_flowid := next_flowid e + 1\<rparr>"

record udp_cfg =
  workLoad :: double
  trafficMode :: string
  linkSpeed :: double
  startTime :: simtime
  stopTime :: simtime
  packetName :: string
  AppPriority :: int
  longflow :: u32
  Enablepoisson :: bool
  destTokens :: "string list"
  tryResolve :: "simtime \<Rightarrow> string \<Rightarrow> l3addr"
  libc :: libc_rand
  chunk_checks :: bool

datatype udp_kind = START | SEND | STOP

record udp_app =
  commands :: "command list"
  commandIndex :: nat
  connectAddresses :: "l3addr list"
  destAddressStr :: "string list"
  messageLength :: u32
  app_flowid :: u64
  num :: nat
  count :: nat
  selfMsg :: "(udp_kind \<times> simtime) option"
  numSent :: nat
  numReceived :: nat
  BytesSent :: int
  BytesRcvd :: int
  flow_completion_time :: "nat \<Rightarrow> simtime option"
  sumFct :: simtime
  last_pck_time :: simtime

datatype udp_effect = SendTo packet l3addr

subsection \<open>Flow sizes\<close>

text \<open>
  The branches of a traffic mode in \<open>updateNextFlow\<close>: the bound the seed is compared with, and the
  size, either fixed or \<open>rand() % m * k + b\<close>.  The seed is a multiple of 1/9999, so the comparison of
  doubles agrees with that of the numbers.
\<close>

datatype flow_size = Fixed nat | Drawn nat nat nat

type_synonym flow_table = "(real \<times> flow_size) list"

definition flow_CacheFollower :: flow_table where
  "flow_CacheFollower =
    [(1 / 100, Fixed 70), (15 / 1000, Drawn (150 - 71) 1 71), (4 / 100, Fixed 150),
     (8 / 100, Drawn (300 - 151) 1 151), (1 / 10, Drawn (350 - 301) 1 301), (19 / 100, Fixed 350),
     (2 / 10, Drawn (450 - 351) 1 351), (28 / 100, Drawn (500 - 451) 1 451),
     (3 / 10, Drawn (600 - 501) 1 501), (35 / 100, Drawn (700 - 601) 1 601),
     (4 / 10, Drawn (1100 - 701) 1 701), (42 / 100, Drawn (2000 - 1101) 1 1101),
     (48 / 100, Drawn (10000 - 2001) 1 2001), (5 / 10, Drawn (30000 - 10001) 1 10001),
     (52 / 100, Drawn (100000 - 30001) 1 30001), (6 / 10, Drawn (200000 - 100001) 1 100001),
     (68 / 100, Drawn (400000 - 200001) 1 200001), (7 / 10, Drawn (600000 - 400001) 1 400001),
     (701 / 1000, Drawn (15000 - 6001) 100 600001), (8 / 10, Drawn (20000 - 15001) 100 1500001),
     (9 / 10, Drawn (24000 - 20001) 100 2000001), (1, Drawn (30000 - 24001) 100 2400001)]"

definition flow_DataMining :: flow_table where
  "flow_DataMining =
    [(8 / 10, Drawn (10000 - 101) 1 101), (8346 / 10000, Drawn (15252 - 1001) 10 10001),
     (9 / 10, Drawn (39054 - 15253) 10 152523), (953846 / 1000000, Drawn (32235 - 3906) 100 390542),
     (99 / 100, Drawn (10000 - 323) 10000 3223543), (1, Drawn (10000 - 1001) 100000 100000001)]"

definition flow_WebServer :: flow_table where
  "flow_WebServer =
    [(12 / 100, Drawn (300 - 151) 1 151), (2 / 10, Fixed 300), (3 / 10, Drawn (1000 - 601) 1 601),
     (4 / 10, Drawn (2000 - 1001) 1 1001), (5 / 10, Drawn (3100 - 2001) 1 2001),
     (6 / 10, Drawn (6000 - 3101) 1 3101), (71 / 100, Drawn (20000 - 6001) 1 6001),
     (8 / 10, Drawn (6000 - 2001) 10 20001), (82 / 100, Drawn (15000 - 6001) 10 60001),
     (9 / 10, Drawn (30000 - 15001) 10 150001), (1, Drawn (50000 - 30001) 10 300001)]"

definition flow_WebSearch :: flow_table where
  "flow_WebSearch =
    [(15 / 100, Fixed 9000), (2 / 10, Drawn (18582 - 9001) 1 9001), (3 / 10, Drawn (28140 - 18583) 1 18583),
     (4 / 10, Drawn (38913 - 28141) 1 28141), (53 / 100, Drawn (7747 - 3892) 10 38914),
     (6 / 10, Drawn (20000 - 7747) 10 77469), (7 / 10, Drawn (10000 - 2001) 100 200001),
     (8 / 10, Drawn (20000 - 10001) 100 1000001), (9 / 10, Drawn (50000 - 20001) 100 2000001),
     (97 / 100, Drawn (10000 - 5001) 1000 5000001), (1, Drawn (30000 - 10001) 1000 10000001)]"

definition flow_HPCep :: flow_table where
  "flow_HPCep =
    [(4436 / 10000, Fixed 48), (7265 / 10000, Fixed 56), (1, Fixed 128)]"

definition flow_HPCcg :: flow_table where
  "flow_HPCcg =
    [(6316 / 10000, Fixed 48), (6345 / 10000, Fixed 128), (8172 / 10000, Fixed 3544), (1, Fixed 3552)]"

definition flow_HPCft :: flow_table where
  "flow_HPCft =
    [(226 / 10000, Fixed 48), (234 / 10000, Fixed 56), (242 / 10000, Fixed 64), (25 / 1000, Fixed 80),
     (258 / 10000, Fixed 112), (9115 / 10000, Fixed 128), (9123 / 10000, Fixed 176),
     (9131 / 10000, Fixed 304), (921 / 1000, Fixed 308), (9218 / 10000, Fixed 560),
     (9889 / 10000, Fixed 1072), (9697 / 10000, Fixed 2096), (9905 / 10000, Fixed 4144), (1, Fixed 16432)]"

definition flow_HPCmg :: flow_table where
  "flow_HPCmg =
    [(978 / 10000, Fixed 48), (4065 / 10000, Fixed 56), (6638 / 10000, Fixed 64), (6747 / 10000, Fixed 72),
     (6954 / 10000, Fixed 80), (6980 / 10000, Fixed 96), (7180 / 10000, Fixed 112),
     (7316 / 10000, Fixed 120), (7445 / 10000, Fixed 128), (7664 / 10000, Fixed 144),
     (7873 / 10000, Fixed 176), (7900 / 10000, Fixed 192), (8109 / 10000, Fixed 304),
     (8302 / 10000, Fixed 336), (8495 / 10000, Fixed 368), (8688 / 10000, Fixed 848),
     (8881 / 10000, Fixed 1072), (9074 / 10000, Fixed 1200), (9267 / 10000, Fixed 2640),
     (9511 / 10000, Fixed 4144), (9756 / 10000, Fixed 4400), (1, Fixed 9296)]"

text \<open>The names of the modes are searched for in this order.\<close>

definition mode_table :: "string \<Rightarrow> flow_table option" where
  "mode_table TM =
     (if contains ''CacheFollower'' TM then Some flow_CacheFollower
      else if contains ''DataMining'' TM then Some flow_DataMining
      else if contains ''WebServer'' TM then Some flow_WebServer
      else if contains ''WebSearch'' TM then Some flow_WebSearch
      else if contains ''HPCep'' TM then Some flow_HPCep
      else if contains ''HPCcg'' TM then Some flow_HPCcg
      else if contains ''HPCft'' TM then Some flow_HPCft
      else if contains ''HPCmg'' TM then Some flow_HPCmg
      else None)"

text \<open>The chain of comparisons: the first bound the seed does not exceed.\<close>

fun flow_pick :: "real \<Rightarrow> flow_table \<Rightarrow> flow_size res" where
  "flow_pick seed [] = Inl (RuntimeError ''Wrong flow information'')"
| "flow_pick seed ((bound, sz) # tb) = (if seed \<le> bound then Inr sz else flow_pick seed tb)"

fun flow_draw :: "libc_rand \<Rightarrow> flow_size \<Rightarrow> sim_env \<Rightarrow> nat \<times> sim_env" where
  "flow_draw R (Fixed n) e = (n, e)"
| "flow_draw R (Drawn m k b) e = (let (r, e') = c_rand R e in (r mod m * k + b, e'))"

definition HiUdpApp_updateNextFlow :: "udp_cfg \<Rightarrow> sim_env \<times> udp_app \<Rightarrow> (sim_env \<times> udp_app) res" where
  "HiUdpApp_updateNextFlow cfg = (\<lambda>(e, s).
     let (r, e1) = c_rand (libc cfg) e;
         seed = real (r mod 9999) / 9999;
         TM = trafficMode cfg in
     case mode_table TM of
       Some tb \<Rightarrow> rbind (flow_pick seed tb) (\<lambda>sz.
         let (n, e2) = flow_draw (libc cfg) sz e1 in Inr (e2, s\<lparr>messageLength := of_nat n\<rparr>))
     | None \<Rightarrow>
         if contains ''LongFlow'' TM then Inr (e1, s\<lparr>messageLength := longflow cfg\<rparr>)
         else if contains ''sendscript'' TM then
           (if commandIndex s < length (commands s)
            then Inr (e1, s\<lparr>messageLength := word_of_int (numBytes (commands s ! commandIndex s))\<rparr>)
            else Inl OutOfBounds)
         else Inl (RuntimeError ''Unrecognized traffic mode!''))"

subsection \<open>Sending\<close>

text \<open>\<open>scheduleAt(t, selfMsg)\<close>\<close>

definition set_timer :: "udp_kind \<Rightarrow> simtime \<Rightarrow> simtime \<Rightarrow> udp_app \<Rightarrow> udp_app res" where
  "set_timer k t now s =
     (if selfMsg s \<noteq> None then Inl AlreadyScheduled
      else if t < now then Inl (RuntimeError ''cannot schedule a message to the past'')
      else Inr (s\<lparr>selfMsg := Some (k, t)\<rparr>))"

definition HiUdpApp_chooseDestAddr :: "udp_cfg \<Rightarrow> simtime \<Rightarrow> nat \<Rightarrow> udp_app \<Rightarrow> l3addr \<times> udp_app" where
  "HiUdpApp_chooseDestAddr cfg now k s =
     (case connectAddresses s ! k of
        GlobalAddr a \<Rightarrow> (GlobalAddr a, s)
      | _ \<Rightarrow> let a = tryResolve cfg now (destAddressStr s ! k) in
           (a, s\<lparr>connectAddresses := (connectAddresses s)[k := a]\<rparr>))"

text \<open>The message: the flow id and the length are cut to the 32 bits of the tag's field and of the variable.\<close>

definition udp_message :: "udp_cfg \<Rightarrow> u64 \<Rightarrow> u32 \<Rightarrow> simtime \<Rightarrow> nat \<Rightarrow> packet" where
  "udp_message cfg fid len now packetlength =
     \<lparr>p_id = 0, p_name = packetName cfg @ ''-'' @ digits (unat fid), p_len = 8 * packetlength, p_iface = 0, p_ecn = None,
      p_tags = [\<lparr>ht_flowid = ucast fid, ht_priority = AppPriority cfg, ht_flowsize = ucast len, ht_cretime = now,
        ht_packetid = 0, ht_last = False, ht_queueid = 0, ht_decel = False, ht_speedup = False, ht_sender_priority = -1\<rparr>],
      p_bfc = None, p_ispause = None\<rparr>"

definition HiUdpApp_sendPacket ::
  "udp_cfg \<Rightarrow> simtime \<Rightarrow> nat \<Rightarrow> sim_env \<times> udp_app \<Rightarrow> ((sim_env \<times> udp_app) \<times> udp_effect list) res" where
  "HiUdpApp_sendPacket cfg now packetlength = (\<lambda>(e, s).
     let (r, e1) = c_rand (libc cfg) (c_srand (ucast (app_flowid s)) e) in
     if connectAddresses s = [] then Inl (RuntimeError ''division by zero'')
     else
       let (a, s1) = HiUdpApp_chooseDestAddr cfg now (r mod length (connectAddresses s)) s in
       if chunk_checks cfg \<and> packetlength = 0 then Inl (RuntimeError ''chunk is empty'')
       else Inr ((e1, s1\<lparr>numSent := Suc (numSent s1), BytesSent := BytesSent s1 + int packetlength\<rparr>),
         [SendTo (udp_message cfg (app_flowid s1) (messageLength s1) now packetlength) a]))"

text \<open>
  The time a flow takes on the link, with 66 bytes of headers and gap for each 1472 bytes, and the next
  timer when a flow has been sent.  The code for a flow of one message steps to the next command
  twice (\<open>twice\<close>), the code for the last of several messages once.
\<close>

definition udp_txTime :: "udp_cfg \<Rightarrow> u32 \<Rightarrow> simtime" where
  "udp_txTime cfg len = (real (unat len) + of_int \<lceil>real (unat len) / 1472\<rceil> * 66) * 8 / linkSpeed cfg"

definition udp_next :: "bool \<Rightarrow> udp_cfg \<Rightarrow> (simtime \<Rightarrow> simtime) \<Rightarrow> simtime \<Rightarrow> udp_app \<Rightarrow> udp_app res" where
  "udp_next twice cfg exponential now s =
     (if linkSpeed cfg = 0 \<or> workLoad cfg = 0 then Inl SimTimeOverflow
      else
        let tx = udp_txTime cfg (messageLength s);
            d = now + (if Enablepoisson cfg then exponential tx else tx) / workLoad cfg in
        if contains ''sendscript'' (trafficMode cfg) then
          let i = Suc (commandIndex s); s1 = s\<lparr>commandIndex := i\<rparr> in
          if i < length (commands s) then
            set_timer SEND (max (tSend (commands s ! i)) now) now (if twice then s1\<lparr>commandIndex := Suc i\<rparr> else s1)
          else set_timer STOP (stopTime cfg) now s1
        else if d < stopTime cfg then set_timer SEND d now s
        else set_timer STOP (stopTime cfg) now s)"

definition udp_then ::
  "((sim_env \<times> udp_app) \<times> udp_effect list) res \<Rightarrow> (udp_app \<Rightarrow> udp_app res) \<Rightarrow> ((sim_env \<times> udp_app) \<times> udp_effect list) res" where
  "udp_then r f = rbind r (\<lambda>((e, s), es). rbind (f s) (\<lambda>s'. Inr ((e, s'), es)))"

definition HiUdpApp_processSend ::
  "udp_cfg \<Rightarrow> (simtime \<Rightarrow> simtime) \<Rightarrow> simtime \<Rightarrow> sim_env \<times> udp_app \<Rightarrow> ((sim_env \<times> udp_app) \<times> udp_effect list) res" where
  "HiUdpApp_processSend cfg exponential now = (\<lambda>(e, s).
     if count s = 0 then
       rbind (HiUdpApp_updateNextFlow cfg (e, s)) (\<lambda>(e1, s1).
         let s2 = s1\<lparr>app_flowid := GlobalFlowId_getflowid e1\<rparr>;
             e2 = GlobalFlowId_flowidadd e1 in
         if 65527 < messageLength s2 then
           let n = unat (messageLength s2 div 65527) in
           udp_then (HiUdpApp_sendPacket cfg now 65527 (e2, s2\<lparr>num := n, count := n\<rparr>)) (set_timer SEND now now)
         else udp_then (HiUdpApp_sendPacket cfg now (unat (messageLength s2)) (e2, s2)) (udp_next True cfg exponential now))
     else
       let s1 = s\<lparr>count := count s - 1\<rparr> in
       if count s1 = 0 then
         if 2 ^ 31 \<le> num s1 * 65527 then Inl (RuntimeError ''integer overflow'')
         else udp_then
           (HiUdpApp_sendPacket cfg now (unat (messageLength s1 - of_nat (num s1 * 65527))) (e, s1))
           (udp_next False cfg exponential now)
       else udp_then (HiUdpApp_sendPacket cfg now 65527 (e, s1)) (set_timer SEND now now))"

subsection \<open>The module\<close>

definition HiUdpApp_initialize :: "udp_cfg \<Rightarrow> (float_value \<Rightarrow> simtime res) \<Rightarrow> string option \<Rightarrow> string \<Rightarrow> udp_app res" where
  "HiUdpApp_initialize cfg conv file script =
     rbind (HiUdpApp_parseScript conv file script) (\<lambda>cs.
       if 0 \<le> stopTime cfg \<and> stopTime cfg < startTime cfg then Inl (RuntimeError ''Invalid startTime/stopTime parameters'')
       else Inr \<lparr>commands = cs, commandIndex = 0, connectAddresses = [], destAddressStr = [], messageLength = 0,
         app_flowid = 0, num = 0, count = 0, selfMsg = None, numSent = 0, numReceived = 0, BytesSent = 0, BytesRcvd = 0,
         flow_completion_time = (\<lambda>_. None), sumFct = 0, last_pck_time = 0\<rparr>)"

definition HiUdpApp_handleStartOperation :: "udp_cfg \<Rightarrow> simtime \<Rightarrow> udp_app \<Rightarrow> udp_app res" where
  "HiUdpApp_handleStartOperation cfg now s =
     (let start = max (startTime cfg) now in
      if 0 \<le> startTime cfg \<and> start \<le> stopTime cfg then set_timer START start now s else Inr s)"

definition HiUdpApp_processStart :: "udp_cfg \<Rightarrow> simtime \<Rightarrow> udp_app \<Rightarrow> udp_app res" where
  "HiUdpApp_processStart cfg now s =
     (let s1 = s\<lparr>destAddressStr := destAddressStr s @ destTokens cfg,
                 connectAddresses := connectAddresses s @ map (tryResolve cfg now) (destTokens cfg)\<rparr> in
      if connectAddresses s1 \<noteq> [] then set_timer SEND now now s1
      else if 0 \<le> stopTime cfg then set_timer STOP (stopTime cfg) now s1
      else Inr s1)"

text \<open>\<open>processPacket\<close>: without a tag \<open>last\<close> keeps its initial value and the other variables are not used.\<close>

definition HiUdpApp_processPacket :: "simtime \<Rightarrow> packet \<Rightarrow> udp_app \<Rightarrow> udp_app" where
  "HiUdpApp_processPacket now pck s =
     (let s1 =
        (if p_tags pck \<noteq> [] \<and> ht_last (last (p_tags pck)) then
           let fct = now - ht_cretime (last (p_tags pck)) in
           s\<lparr>flow_completion_time := (flow_completion_time s)(numReceived s := Some fct),
             sumFct := sumFct s + fct, numReceived := Suc (numReceived s)\<rparr>
         else s) in
      s1\<lparr>last_pck_time := now, BytesRcvd := BytesRcvd s1 + bytes_of (p_bits pck)\<rparr>)"

text \<open>The average completion time \<open>finish\<close> records, when there is one.\<close>

definition HiUdpApp_finish :: "udp_app \<Rightarrow> double option" where
  "HiUdpApp_finish s = (if numReceived s = 0 then None else Some (sumFct s / real (numReceived s)))"

datatype udp_op =
    StartOperation simtime
  | StopOperation
  | SelfMessage "simtime \<Rightarrow> simtime"
  | Arrival simtime packet
  | Elsewhere u32 nat nat

fun HiUdpApp_handleMessage ::
  "udp_cfg \<Rightarrow> udp_op \<Rightarrow> sim_env \<times> udp_app \<Rightarrow> ((sim_env \<times> udp_app) \<times> udp_effect list) res" where
  "HiUdpApp_handleMessage cfg (StartOperation now) (e, s) =
     rbind (HiUdpApp_handleStartOperation cfg now s) (\<lambda>s'. Inr ((e, s'), []))"
| "HiUdpApp_handleMessage cfg StopOperation (e, s) = Inr ((e, s\<lparr>selfMsg := None\<rparr>), [])"
| "HiUdpApp_handleMessage cfg (SelfMessage exponential) (e, s) =
     (case selfMsg s of
        None \<Rightarrow> Inr ((e, s), [])
      | Some (k, now) \<Rightarrow>
          (let s1 = s\<lparr>selfMsg := None\<rparr> in
           case k of
             START \<Rightarrow> rbind (HiUdpApp_processStart cfg now s1) (\<lambda>s'. Inr ((e, s'), []))
           | SEND \<Rightarrow> HiUdpApp_processSend cfg exponential now (e, s1)
           | STOP \<Rightarrow> Inr ((e, s1), [])))"
| "HiUdpApp_handleMessage cfg (Arrival now pck) (e, s) = Inr ((e, HiUdpApp_processPacket now pck s), [])"
| "HiUdpApp_handleMessage cfg (Elsewhere w calls flows) (e, s) =
     Inr ((\<lparr>rand_seed = w, rand_calls = calls, next_flowid = next_flowid e + of_nat flows\<rparr>, s), [])"

subsection \<open>One message\<close>

text \<open>The destination of a flow is drawn from the generator seeded with its id.\<close>

definition udp_dest :: "udp_cfg \<Rightarrow> simtime \<Rightarrow> udp_app \<Rightarrow> l3addr" where
  "udp_dest cfg now s =
     fst (HiUdpApp_chooseDestAddr cfg now (libc cfg (ucast (app_flowid s)) 0 mod length (connectAddresses s)) s)"

definition udp_sent :: "udp_cfg \<Rightarrow> simtime \<Rightarrow> nat \<Rightarrow> udp_app \<Rightarrow> udp_app" where
  "udp_sent cfg now len s =
     (let s1 = snd (HiUdpApp_chooseDestAddr cfg now (libc cfg (ucast (app_flowid s)) 0 mod length (connectAddresses s)) s)
      in s1\<lparr>numSent := Suc (numSent s1), BytesSent := BytesSent s1 + int len\<rparr>)"

definition seeded :: "u64 \<Rightarrow> sim_env \<Rightarrow> sim_env" where
  "seeded fid e = e\<lparr>rand_seed := ucast fid, rand_calls := 1\<rparr>"

lemma seeded_flowid [simp]: "next_flowid (seeded fid e) = next_flowid e" "seeded fid (seeded fid e) = seeded fid e"
  by (simp_all add: seeded_def)

lemma choose_frame:
  "HiUdpApp_chooseDestAddr cfg now k s = (a, s') \<Longrightarrow>
     \<exists>as. s' = s\<lparr>connectAddresses := as\<rparr> \<and> length as = length (connectAddresses s)"
  by (auto simp: HiUdpApp_chooseDestAddr_def Let_def split: l3addr.splits intro: exI[of _ "connectAddresses s"])

lemma udp_sent_frame:
  "\<exists>as. udp_sent cfg now len s =
     s\<lparr>connectAddresses := as, numSent := Suc (numSent s), BytesSent := BytesSent s + int len\<rparr> \<and>
     length as = length (connectAddresses s)"
proof -
  obtain a s' where c: "HiUdpApp_chooseDestAddr cfg now
      (libc cfg (ucast (app_flowid s)) 0 mod length (connectAddresses s)) s = (a, s')" by fastforce
  from choose_frame[OF c] c show ?thesis by (auto simp: udp_sent_def)
qed

lemma udp_sent_simps [simp]:
  "count (udp_sent cfg now len s) = count s" "num (udp_sent cfg now len s) = num s"
  "messageLength (udp_sent cfg now len s) = messageLength s" "app_flowid (udp_sent cfg now len s) = app_flowid s"
  "selfMsg (udp_sent cfg now len s) = selfMsg s" "commands (udp_sent cfg now len s) = commands s"
  "commandIndex (udp_sent cfg now len s) = commandIndex s"
  "connectAddresses (udp_sent cfg now len s) = [] \<longleftrightarrow> connectAddresses s = []"
  "length (connectAddresses (udp_sent cfg now len s)) = length (connectAddresses s)"
  using udp_sent_frame[of cfg now len s] by auto

text \<open>An address that was looked up at a time is the one that is found at that time.\<close>

lemma udp_dest_sent [simp]:
  assumes "connectAddresses s \<noteq> []"
  shows "udp_dest cfg now (udp_sent cfg now len s) = udp_dest cfg now s"
proof -
  let ?k = "libc cfg (ucast (app_flowid s)) 0 mod length (connectAddresses s)"
  have "?k < length (connectAddresses s)" using assms by simp
  then show ?thesis
    unfolding udp_dest_def udp_sent_def
    by (simp add: HiUdpApp_chooseDestAddr_def Let_def split: l3addr.splits)
qed

lemma udp_dest_cong:
  "app_flowid s = app_flowid t \<Longrightarrow> connectAddresses s = connectAddresses t \<Longrightarrow> destAddressStr s = destAddressStr t \<Longrightarrow>
     udp_dest cfg now s = udp_dest cfg now t"
  by (simp add: udp_dest_def HiUdpApp_chooseDestAddr_def Let_def split: l3addr.splits)

lemma sendPacket_Inr:
  assumes "connectAddresses s \<noteq> []" and "chunk_checks cfg \<longrightarrow> len \<noteq> 0"
  shows "HiUdpApp_sendPacket cfg now len (e, s) =
     Inr ((seeded (app_flowid s) e, udp_sent cfg now len s),
       [SendTo (udp_message cfg (app_flowid s) (messageLength s) now len) (udp_dest cfg now s)])"
proof -
  let ?k = "libc cfg (ucast (app_flowid s)) 0 mod length (connectAddresses s)"
  obtain a s' where c: "HiUdpApp_chooseDestAddr cfg now ?k s = (a, s')" by fastforce
  from choose_frame[OF c] have "app_flowid s' = app_flowid s" "messageLength s' = messageLength s" by auto
  with c assms show ?thesis
    by (simp add: HiUdpApp_sendPacket_def c_rand_def c_srand_def udp_sent_def udp_dest_def seeded_def)
qed

lemma sendPacket_empty:
  "connectAddresses s \<noteq> [] \<Longrightarrow> chunk_checks cfg \<Longrightarrow>
     HiUdpApp_sendPacket cfg now 0 (e, s) = Inl (RuntimeError ''chunk is empty'')"
  by (simp add: HiUdpApp_sendPacket_def c_rand_def c_srand_def Let_def split: prod.splits)

subsection \<open>One flow\<close>

definition udp_chunks :: "nat \<Rightarrow> nat list" where
  "udp_chunks n = (if n \<le> 65527 then [n] else replicate (n div 65527) 65527 @ [n mod 65527])"

lemma udp_chunks_sum: "sum_list (udp_chunks n) = n"
  by (simp add: udp_chunks_def sum_list_replicate)

lemma udp_chunks_le: "\<forall>c\<in>set (udp_chunks n). c \<le> 65527"
  by (auto simp: udp_chunks_def less_imp_le)

text \<open>Of the messages of a flow only the last can be empty.\<close>

lemma udp_chunks_zero: "0 \<in> set (udp_chunks n) \<longleftrightarrow> n = 0 \<or> 65527 < n \<and> 65527 dvd n"
  by (auto simp: udp_chunks_def)

text \<open>The timer after a flow when the sizes do not come from a script.\<close>

definition udp_timer :: "udp_cfg \<Rightarrow> (simtime \<Rightarrow> simtime) \<Rightarrow> u32 \<Rightarrow> simtime \<Rightarrow> udp_kind \<times> simtime" where
  "udp_timer cfg exponential len now =
     (let tx = udp_txTime cfg len;
          d = now + (if Enablepoisson cfg then exponential tx else tx) / workLoad cfg in
      if d < stopTime cfg then (SEND, d) else (STOP, stopTime cfg))"

definition udp_cfg_ok :: "udp_cfg \<Rightarrow> bool" where
  "udp_cfg_ok cfg \<longleftrightarrow> 0 < linkSpeed cfg \<and> 0 < workLoad cfg \<and> \<not> contains ''sendscript'' (trafficMode cfg)"

definition draws_ok :: "(simtime \<Rightarrow> simtime) \<Rightarrow> bool" where
  "draws_ok exponential \<longleftrightarrow> (\<forall>mean\<ge>0. 0 \<le> exponential mean)"

lemma txTime_nonneg: "0 < linkSpeed cfg \<Longrightarrow> 0 \<le> udp_txTime cfg len"
proof -
  have c: "0 \<le> (r + of_int \<lceil>r / 1472\<rceil> * 66) * 8" if "0 \<le> r" for r :: real
    using that by (simp add: order.strict_trans2[of "-1" 0])
  show "0 < linkSpeed cfg \<Longrightarrow> 0 \<le> udp_txTime cfg len"
    unfolding udp_txTime_def by (rule divide_nonneg_pos, rule c, rule of_nat_0_le_iff)
qed

lemma udp_next_Inr:
  assumes "udp_cfg_ok cfg" and "draws_ok exponential" and "selfMsg s = None" and "now \<le> stopTime cfg"
  shows "udp_next twice cfg exponential now s = Inr (s\<lparr>selfMsg := Some (udp_timer cfg exponential (messageLength s) now)\<rparr>)"
proof -
  let ?tx = "udp_txTime cfg (messageLength s)"
  have "0 \<le> ?tx" using assms(1) by (simp add: udp_cfg_ok_def txTime_nonneg)
  then have "0 \<le> (if Enablepoisson cfg then exponential ?tx else ?tx) / workLoad cfg"
    using assms(1,2) by (simp add: udp_cfg_ok_def draws_ok_def)
  with assms show ?thesis
    by (auto simp: udp_next_def udp_timer_def set_timer_def udp_cfg_ok_def Let_def)
qed

text \<open>
  In the middle of a flow: \<open>j\<close> messages are left of the \<open>n + 1\<close> that make up the flow, the last of
  \<open>last_len\<close> bytes, and the timer is set to the present.
\<close>

definition udp_mid :: "udp_cfg \<Rightarrow> simtime \<Rightarrow> u64 \<Rightarrow> u32 \<Rightarrow> l3addr \<Rightarrow> nat \<Rightarrow> udp_app \<Rightarrow> bool" where
  "udp_mid cfg now fid len a j s \<longleftrightarrow> count s = j \<and> 0 < j \<and> num s = unat (len div 65527) \<and> messageLength s = len \<and>
     app_flowid s = fid \<and> selfMsg s = Some (SEND, now) \<and> connectAddresses s \<noteq> [] \<and> udp_dest cfg now s = a"

lemma last_chunk_length:
  "unat (len - of_nat (unat ((len :: u32) div 65527) * 65527)) = unat len mod 65527"
proof -
  have u: "unat (len div 65527) = unat len div 65527" by (simp add: unat_div)
  have "of_nat (unat (len div 65527) * 65527) = len div 65527 * 65527" by simp
  then have "len - of_nat (unat (len div 65527) * 65527) = len mod 65527"
    by (metis minus_div_mult_eq_mod)
  then show ?thesis by (simp add: unat_mod)
qed

lemma mid_step:
  assumes "udp_mid cfg now fid len a (Suc (Suc j)) s"
  shows "\<exists>s'. HiUdpApp_handleMessage cfg (SelfMessage x) (e, s) =
       Inr ((seeded fid e, s'), [SendTo (udp_message cfg fid len now 65527) a]) \<and> udp_mid cfg now fid len a (Suc j) s' \<and>
     commands s' = commands s \<and> commandIndex s' = commandIndex s"
proof -
  let ?s1 = "s\<lparr>selfMsg := None, count := Suc j\<rparr>"
  have d: "udp_dest cfg now ?s1 = a" using assms udp_dest_cong[of ?s1 s] by (simp add: udp_mid_def)
  have p: "HiUdpApp_sendPacket cfg now 65527 (e, ?s1) =
      Inr ((seeded fid e, udp_sent cfg now 65527 ?s1), [SendTo (udp_message cfg fid len now 65527) a])"
    using assms by (subst sendPacket_Inr) (simp_all add: udp_mid_def d)
  let ?s2 = "(udp_sent cfg now 65527 ?s1)\<lparr>selfMsg := Some (SEND, now)\<rparr>"
  have "udp_dest cfg now ?s2 = a"
    using udp_dest_cong[of ?s2 "udp_sent cfg now 65527 ?s1"] assms d by (simp add: udp_mid_def)
  then have "udp_mid cfg now fid len a (Suc j) ?s2" using assms by (simp add: udp_mid_def)
  with p assms show ?thesis
    by (intro exI[of _ ?s2]) (simp add: udp_mid_def HiUdpApp_processSend_def udp_then_def set_timer_def Let_def)
qed

lemma mid_last:
  assumes "udp_mid cfg now fid len a 1 s" and "unat len < 2 ^ 31"
  shows "HiUdpApp_handleMessage cfg (SelfMessage x) (e, s) =
    udp_then (HiUdpApp_sendPacket cfg now (unat len mod 65527) (e, s\<lparr>selfMsg := None, count := 0\<rparr>)) (udp_next False cfg x now)"
proof -
  have "unat (len div 65527) * 65527 \<le> unat len" by (simp add: unat_div)
  then have "\<not> 2 ^ 31 \<le> unat (len div 65527) * 65527" using assms(2) by linarith
  then show ?thesis using assms(1) last_chunk_length[of len]
    by (simp add: udp_mid_def HiUdpApp_processSend_def Let_def)
qed

abbreviation udp_messages :: "udp_cfg \<Rightarrow> u64 \<Rightarrow> u32 \<Rightarrow> simtime \<Rightarrow> l3addr \<Rightarrow> nat list \<Rightarrow> udp_effect list" where
  "udp_messages cfg fid len now a cs \<equiv> map (\<lambda>c. SendTo (udp_message cfg fid len now c) a) cs"

lemma mid_prefix:
  assumes "udp_mid cfg now fid len a (Suc j) s" and "length xs = j" and "next_flowid e = f"
  shows "\<exists>e' s'. run_out (HiUdpApp_handleMessage cfg) (map SelfMessage xs) (e, s) =
       Inr ((e', s'), udp_messages cfg fid len now a (replicate j 65527)) \<and> udp_mid cfg now fid len a 1 s' \<and> next_flowid e' = f"
  using assms
proof (induction j arbitrary: s xs e)
  case 0
  then show ?case by simp
next
  case (Suc j)
  from Suc.prems(2) obtain x ys where xs: "xs = x # ys" "length ys = j" by (cases xs) auto
  from mid_step[OF Suc.prems(1)] obtain s1 where s1: "HiUdpApp_handleMessage cfg (SelfMessage x) (e, s) =
       Inr ((seeded fid e, s1), [SendTo (udp_message cfg fid len now 65527) a])" "udp_mid cfg now fid len a (Suc j) s1"
    by blast
  from Suc.IH[OF s1(2) xs(2), of "seeded fid e"] Suc.prems(3) s1(1) xs(1) show ?case by auto
qed

lemma updateNextFlow_frame:
  assumes "HiUdpApp_updateNextFlow cfg (e, s) = Inr (e1, s1)"
  shows "next_flowid e1 = next_flowid e" and "\<exists>L. s1 = s\<lparr>messageLength := L\<rparr>"
proof -
  have d: "next_flowid (snd (flow_draw R sz e0)) = next_flowid e0" for R sz e0
    by (cases sz) (simp_all add: c_rand_def)
  have "next_flowid e1 = next_flowid e \<and> (\<exists>L. s1 = s\<lparr>messageLength := L\<rparr>)"
  proof (cases "mode_table (trafficMode cfg)")
    case None
    with assms show ?thesis by (auto simp: HiUdpApp_updateNextFlow_def c_rand_def Let_def split: if_splits)
  next
    case (Some tb)
    with assms obtain sz where "e1 = snd (flow_draw (libc cfg) sz (snd (c_rand (libc cfg) e)))"
      and "s1 = s\<lparr>messageLength := of_nat (fst (flow_draw (libc cfg) sz (snd (c_rand (libc cfg) e))))\<rparr>"
      by (auto simp: HiUdpApp_updateNextFlow_def rbind_eq_Inr Let_def case_prod_beta)
    with d[of "libc cfg" sz "snd (c_rand (libc cfg) e)"] show ?thesis by (auto simp: c_rand_def)
  qed
  then show "next_flowid e1 = next_flowid e" and "\<exists>L. s1 = s\<lparr>messageLength := L\<rparr>" by auto
qed

text \<open>The application when the timer starts a flow.\<close>

definition udp_ready :: "simtime \<Rightarrow> udp_app \<Rightarrow> bool" where
  "udp_ready now s \<longleftrightarrow> count s = 0 \<and> selfMsg s = Some (SEND, now) \<and> connectAddresses s \<noteq> []"

lemma first_of_many:
  assumes "udp_ready now s" and "HiUdpApp_updateNextFlow cfg (e, s\<lparr>selfMsg := None\<rparr>) = Inr (e1, s1)"
    and "65527 < unat (messageLength s1)"
  shows "\<exists>e' s' a. HiUdpApp_handleMessage cfg (SelfMessage x) (e, s) =
       Inr ((e', s'), [SendTo (udp_message cfg (next_flowid e) (messageLength s1) now 65527) a]) \<and>
     next_flowid e' = next_flowid e + 1 \<and>
     udp_mid cfg now (next_flowid e) (messageLength s1) a (unat (messageLength s1) div 65527) s'"
proof -
  from updateNextFlow_frame[OF assms(2)] obtain L where f: "next_flowid e1 = next_flowid e"
    and s1: "s1 = s\<lparr>selfMsg := None, messageLength := L\<rparr>" by auto
  have L: "65527 < L" using assms(3) by (simp add: s1 word_less_nat_alt)
  let ?n = "unat L div 65527"
  let ?s2 = "s1\<lparr>app_flowid := next_flowid e, num := ?n, count := ?n\<rparr>"
  let ?e2 = "GlobalFlowId_flowidadd e1"
  have u: "unat (L div 65527) = ?n" by (simp add: unat_div)
  have p: "HiUdpApp_sendPacket cfg now 65527 (?e2, ?s2) =
      Inr ((seeded (next_flowid e) ?e2, udp_sent cfg now 65527 ?s2),
        [SendTo (udp_message cfg (next_flowid e) L now 65527) (udp_dest cfg now ?s2)])"
    using assms(1) by (subst sendPacket_Inr) (simp_all add: s1 udp_ready_def)
  let ?s3 = "(udp_sent cfg now 65527 ?s2)\<lparr>selfMsg := Some (SEND, now)\<rparr>"
  have c: "connectAddresses ?s2 \<noteq> []" using assms(1) by (simp add: s1 udp_ready_def)
  have "udp_dest cfg now ?s3 = udp_dest cfg now (udp_sent cfg now 65527 ?s2)" by (rule udp_dest_cong) simp_all
  also have "\<dots> = udp_dest cfg now ?s2" using c by (rule udp_dest_sent)
  finally have "udp_mid cfg now (next_flowid e) L (udp_dest cfg now ?s2) ?n ?s3"
    using assms(1,3) by (simp add: udp_mid_def s1 udp_ready_def u)
  moreover have "HiUdpApp_handleMessage cfg (SelfMessage x) (e, s) =
      Inr ((seeded (next_flowid e) ?e2, ?s3), [SendTo (udp_message cfg (next_flowid e) L now 65527) (udp_dest cfg now ?s2)])"
    using assms(1,2) L p
    by (simp add: udp_ready_def HiUdpApp_processSend_def udp_then_def set_timer_def Let_def s1 f u GlobalFlowId_getflowid_def)
  ultimately show ?thesis
    by (intro exI[of _ "seeded (next_flowid e) ?e2"] exI[of _ ?s3] exI[of _ "udp_dest cfg now ?s2"])
      (simp add: s1 f GlobalFlowId_flowidadd_def)
qed

text \<open>A flow of one message.\<close>

lemma only_one:
  assumes "udp_ready now s" and "HiUdpApp_updateNextFlow cfg (e, s\<lparr>selfMsg := None\<rparr>) = Inr (e1, s1)"
    and "unat (messageLength s1) \<le> 65527"
  shows "\<exists>e2 s2. next_flowid e2 = next_flowid e + 1 \<and> app_flowid s2 = next_flowid e \<and> messageLength s2 = messageLength s1 \<and>
     count s2 = 0 \<and> selfMsg s2 = None \<and> connectAddresses s2 \<noteq> [] \<and> commands s2 = commands s \<and> commandIndex s2 = commandIndex s \<and>
     HiUdpApp_handleMessage cfg (SelfMessage x) (e, s) =
       udp_then (HiUdpApp_sendPacket cfg now (unat (messageLength s1)) (e2, s2)) (udp_next True cfg x now)"
proof -
  from updateNextFlow_frame[OF assms(2)] obtain L where f: "next_flowid e1 = next_flowid e"
    and s1: "s1 = s\<lparr>selfMsg := None, messageLength := L\<rparr>" by auto
  have L: "\<not> 65527 < L" using assms(3) by (simp add: s1 word_less_nat_alt)
  then show ?thesis using assms(1,2)
    by (intro exI[of _ "GlobalFlowId_flowidadd e1"] exI[of _ "s1\<lparr>app_flowid := next_flowid e\<rparr>"])
      (simp add: udp_ready_def HiUdpApp_processSend_def Let_def s1 f GlobalFlowId_getflowid_def GlobalFlowId_flowidadd_def)
qed

subsection \<open>Whole flows\<close>

text \<open>The messages before the last, whatever their number; then the last is to be sent.\<close>

lemma flow_prefix:
  assumes "udp_ready now s" and "HiUdpApp_updateNextFlow cfg (e, s\<lparr>selfMsg := None\<rparr>) = Inr (e1, s1)"
    and "65527 < unat (messageLength s1)" and "length xs = unat (messageLength s1) div 65527"
  shows "\<exists>e' s' a. run_out (HiUdpApp_handleMessage cfg) (map SelfMessage xs) (e, s) =
       Inr ((e', s'), udp_messages cfg (next_flowid e) (messageLength s1) now a (replicate (length xs) 65527)) \<and>
     udp_mid cfg now (next_flowid e) (messageLength s1) a 1 s' \<and> next_flowid e' = next_flowid e + 1"
proof -
  obtain j where j: "unat (messageLength s1) div 65527 = Suc j"
    using assms(3) by (cases "unat (messageLength s1) div 65527") (auto simp: div_eq_0_iff)
  with assms(4) obtain x ys where xs: "xs = x # ys" "length ys = j" by (cases xs) auto
  from first_of_many[OF assms(1-3), of x] obtain e2 s2 a where f: "HiUdpApp_handleMessage cfg (SelfMessage x) (e, s) =
       Inr ((e2, s2), [SendTo (udp_message cfg (next_flowid e) (messageLength s1) now 65527) a])"
    "next_flowid e2 = next_flowid e + 1" "udp_mid cfg now (next_flowid e) (messageLength s1) a (Suc j) s2"
    unfolding j by blast
  from mid_prefix[OF f(3) xs(2) f(2)] obtain e' s' where
    "run_out (HiUdpApp_handleMessage cfg) (map SelfMessage ys) (e2, s2) =
       Inr ((e', s'), udp_messages cfg (next_flowid e) (messageLength s1) now a (replicate j 65527))"
    "udp_mid cfg now (next_flowid e) (messageLength s1) a 1 s'" "next_flowid e' = next_flowid e + 1" by blast
  with f(1) xs show ?thesis by auto
qed

lemma chunks_cases:
  obtains (one) "n \<le> 65527" "udp_chunks n = [n]"
  | (many) "65527 < n" "udp_chunks n = replicate (n div 65527) 65527 @ [n mod 65527]"
  by (cases "n \<le> 65527") (simp_all add: udp_chunks_def)

lemma list_snoc_length: "length xs = Suc n \<Longrightarrow> \<exists>ys x. xs = ys @ [x] \<and> length ys = n"
  by (metis append_butlast_last_id diff_Suc_1 length_0_conv length_butlast nat.simps(3))

text \<open>The last message of a flow, whichever it is.\<close>

lemma udp_last:
  assumes "udp_cfg_ok cfg" and "now \<le> stopTime cfg" and "draws_ok x"
    and "selfMsg s = None" and "connectAddresses s \<noteq> []" and "count s = 0" and "chunk_checks cfg \<longrightarrow> len \<noteq> 0"
  shows "\<exists>s'. udp_then (HiUdpApp_sendPacket cfg now len (e, s)) (udp_next b cfg x now) =
       Inr ((seeded (app_flowid s) e, s'), [SendTo (udp_message cfg (app_flowid s) (messageLength s) now len) (udp_dest cfg now s)]) \<and>
     count s' = 0 \<and> connectAddresses s' \<noteq> [] \<and> selfMsg s' = Some (udp_timer cfg x (messageLength s) now)"
  using sendPacket_Inr[OF assms(5,7), of now e] udp_next_Inr[OF assms(1,3) _ assms(2), of "udp_sent cfg now len s" b] assms(4-6)
  by (simp add: udp_then_def)

text \<open>C24: A flow is sent whole.  Unless a message of the flow would be empty where that is an error, the
  application cuts the size it has drawn into messages that add up to it, none of more than 65527 bytes,
  sends them one after the other without a pause to one and the same destination under the next flow id and
  with the size of the whole flow, and then sets the timer for the next flow to the time the link needs
  for this one at the given load, or stops when that is after the stop time.  The generator is seeded with the flow id before
  each draw of a destination, so the choice is one for the flow and not, as the NED file says, for each packet.  This
  is for flows of less than 2^31 bytes (the product of two ints overflows beyond), with positive link speed and load, in a
  traffic mode other than the script, started not after the stop time, and with an exponential distribution that draws no negative
  times.\<close>

theorem udp_flow_sent:
  assumes "udp_cfg_ok cfg" and "udp_ready now s" and "now \<le> stopTime cfg"
    and "HiUdpApp_updateNextFlow cfg (e, s\<lparr>selfMsg := None\<rparr>) = Inr (e1, s1)" and "unat (messageLength s1) < 2 ^ 31"
    and "chunk_checks cfg \<longrightarrow> 0 \<notin> set (udp_chunks (unat (messageLength s1)))"
    and "length xs = length (udp_chunks (unat (messageLength s1)))" and "draws_ok (last xs)"
  shows "\<exists>e' s' a. run_out (HiUdpApp_handleMessage cfg) (map SelfMessage xs) (e, s) =
       Inr ((e', s'), map (\<lambda>c. SendTo (udp_message cfg (next_flowid e) (messageLength s1) now c) a)
                        (udp_chunks (unat (messageLength s1)))) \<and>
     sum_list (udp_chunks (unat (messageLength s1))) = unat (messageLength s1) \<and>
     (\<forall>c\<in>set (udp_chunks (unat (messageLength s1))). c \<le> 65527) \<and>
     next_flowid e' = next_flowid e + 1 \<and> count s' = 0 \<and> connectAddresses s' \<noteq> [] \<and>
     selfMsg s' = Some (udp_timer cfg (last xs) (messageLength s1) now)"
proof (cases rule: chunks_cases[of "unat (messageLength s1)"])
  case one
  with assms(7) obtain x where xs: "xs = [x]" by (cases xs) auto
  from only_one[OF assms(2,4) one(1), of x] obtain e2 s2 where s2: "next_flowid e2 = next_flowid e + 1"
    "app_flowid s2 = next_flowid e" "messageLength s2 = messageLength s1" "count s2 = 0" "selfMsg s2 = None"
    "connectAddresses s2 \<noteq> []"
    and r: "HiUdpApp_handleMessage cfg (SelfMessage x) (e, s) =
       udp_then (HiUdpApp_sendPacket cfg now (unat (messageLength s1)) (e2, s2)) (udp_next True cfg x now)" by blast
  from udp_last[OF assms(1,3) _ s2(5,6,4), of x "unat (messageLength s1)" e2 True] assms(6,8) one s2 r xs
  show ?thesis by (auto simp: udp_chunks_sum)
next
  case many
  then have l: "length xs = Suc (unat (messageLength s1) div 65527)" using assms(7) by simp
  from list_snoc_length[OF l] obtain ys x where xs: "xs = ys @ [x]" "length ys = unat (messageLength s1) div 65527" by blast
  from flow_prefix[OF assms(2,4) many(1) xs(2)] obtain e2 s2 a where
    r: "run_out (HiUdpApp_handleMessage cfg) (map SelfMessage ys) (e, s) =
       Inr ((e2, s2), udp_messages cfg (next_flowid e) (messageLength s1) now a (replicate (length ys) 65527))"
    and m: "udp_mid cfg now (next_flowid e) (messageLength s1) a 1 s2" and f: "next_flowid e2 = next_flowid e + 1" by blast
  let ?s3 = "s2\<lparr>selfMsg := None, count := 0\<rparr>"
  have d: "udp_dest cfg now ?s3 = a" using m udp_dest_cong[of ?s3 s2] by (simp add: udp_mid_def)
  have "\<exists>s'. HiUdpApp_handleMessage cfg (SelfMessage x) (e2, s2) =
       Inr ((seeded (next_flowid e) e2, s'), [SendTo (udp_message cfg (next_flowid e) (messageLength s1) now (unat (messageLength s1) mod 65527)) a]) \<and>
     count s' = 0 \<and> connectAddresses s' \<noteq> [] \<and> selfMsg s' = Some (udp_timer cfg x (messageLength s1) now)"
    unfolding mid_last[OF m assms(5)]
    using udp_last[OF assms(1,3), of x ?s3 "unat (messageLength s1) mod 65527" e2 False] m assms(6,8) many(2) xs(1) d
    by (simp add: udp_mid_def)
  then obtain s' where "HiUdpApp_handleMessage cfg (SelfMessage x) (e2, s2) =
       Inr ((seeded (next_flowid e) e2, s'), [SendTo (udp_message cfg (next_flowid e) (messageLength s1) now (unat (messageLength s1) mod 65527)) a])"
    "count s' = 0" "connectAddresses s' \<noteq> []" "selfMsg s' = Some (udp_timer cfg x (messageLength s1) now)" by blast
  with r xs f many(2) udp_chunks_le[of "unat (messageLength s1)"] show ?thesis
    by (simp add: run_out_append sum_list_replicate del: HiUdpApp_handleMessage.simps)
qed

text \<open>C27: Sizes that cannot be sent.  With the checks of the packet library, a flow with an empty message, that is an
  empty flow or one whose size is a multiple of 65527 beyond it (below 2^31), ends the simulation with its last message.\<close>

theorem udp_exact_multiple_fails:
  assumes "udp_ready now s" and "HiUdpApp_updateNextFlow cfg (e, s\<lparr>selfMsg := None\<rparr>) = Inr (e1, s1)"
    and "unat (messageLength s1) < 2 ^ 31" and "chunk_checks cfg"
    and "unat (messageLength s1) = 0 \<or> 65527 < unat (messageLength s1) \<and> 65527 dvd unat (messageLength s1)"
    and "length xs = length (udp_chunks (unat (messageLength s1)))"
  shows "run_out (HiUdpApp_handleMessage cfg) (map SelfMessage xs) (e, s) = Inl (RuntimeError ''chunk is empty'')"
proof (cases rule: chunks_cases[of "unat (messageLength s1)"])
  case one
  with assms(6) obtain x where xs: "xs = [x]" by (cases xs) auto
  from one(1) assms(5) have z: "unat (messageLength s1) = 0" by auto
  from only_one[OF assms(1,2) one(1), of x] obtain e2 s2 where "connectAddresses s2 \<noteq> []"
    and r: "HiUdpApp_handleMessage cfg (SelfMessage x) (e, s) =
       udp_then (HiUdpApp_sendPacket cfg now (unat (messageLength s1)) (e2, s2)) (udp_next True cfg x now)" by blast
  then have "HiUdpApp_handleMessage cfg (SelfMessage x) (e, s) = Inl (RuntimeError ''chunk is empty'')"
    unfolding z using assms(4) by (simp add: udp_then_def sendPacket_empty del: HiUdpApp_handleMessage.simps)
  with xs show ?thesis by (simp del: HiUdpApp_handleMessage.simps)
next
  case many
  then have l: "length xs = Suc (unat (messageLength s1) div 65527)" using assms(6) by simp
  from list_snoc_length[OF l] obtain ys x where xs: "xs = ys @ [x]" "length ys = unat (messageLength s1) div 65527" by blast
  from flow_prefix[OF assms(1,2) many(1) xs(2)] obtain e2 s2 a where
    r: "run_out (HiUdpApp_handleMessage cfg) (map SelfMessage ys) (e, s) =
       Inr ((e2, s2), udp_messages cfg (next_flowid e) (messageLength s1) now a (replicate (length ys) 65527))"
    and m: "udp_mid cfg now (next_flowid e) (messageLength s1) a 1 s2" by blast
  have z: "unat (messageLength s1) mod 65527 = 0" using assms(5) many(1) by auto
  have "connectAddresses (s2\<lparr>selfMsg := None, count := 0\<rparr>) \<noteq> []" using m by (simp add: udp_mid_def)
  then have "HiUdpApp_handleMessage cfg (SelfMessage x) (e2, s2) = Inl (RuntimeError ''chunk is empty'')"
    unfolding mid_last[OF m assms(3)] z using assms(4) by (simp add: udp_then_def sendPacket_empty)
  with r xs show ?thesis by (simp add: run_out_append del: HiUdpApp_handleMessage.simps)
qed

subsection \<open>Flows from a script\<close>

definition script_cfg :: "udp_cfg \<Rightarrow> bool" where
  "script_cfg cfg \<longleftrightarrow> linkSpeed cfg \<noteq> 0 \<and> workLoad cfg \<noteq> 0 \<and> contains ''sendscript'' (trafficMode cfg) \<and>
     mode_table (trafficMode cfg) = None \<and> \<not> contains ''LongFlow'' (trafficMode cfg)"

text \<open>The size of a command, cut to 32 bits.\<close>

definition script_size :: "command \<Rightarrow> nat" where
  "script_size c = unat (word_of_int (numBytes c) :: u32)"

definition short_command :: "udp_cfg \<Rightarrow> command \<Rightarrow> bool" where
  "short_command cfg c \<longleftrightarrow> 0 < script_size c \<and> script_size c \<le> 65527 \<and> tSend c \<le> stopTime cfg"

definition udp_sizes :: "udp_effect list \<Rightarrow> nat list" where
  "udp_sizes es = map (\<lambda>f. case f of SendTo p a \<Rightarrow> p_len p div 8) es"

lemma script_update:
  assumes "script_cfg cfg"
  shows "HiUdpApp_updateNextFlow cfg (e, s) =
    (if commandIndex s < length (commands s)
     then Inr (snd (c_rand (libc cfg) e), s\<lparr>messageLength := word_of_int (numBytes (commands s ! commandIndex s))\<rparr>)
     else Inl OutOfBounds)"
  using assms by (simp add: HiUdpApp_updateNextFlow_def script_cfg_def Let_def case_prod_beta)

lemma script_past_end:
  "script_cfg cfg \<Longrightarrow> udp_ready now s \<Longrightarrow> length (commands s) \<le> commandIndex s \<Longrightarrow>
     HiUdpApp_handleMessage cfg (SelfMessage x) (e, s) = Inl OutOfBounds"
  by (simp add: udp_ready_def HiUdpApp_processSend_def script_update)

lemma script_next:
  assumes "script_cfg cfg" and "selfMsg s = None" and "now \<le> stopTime cfg"
  shows "udp_next True cfg x now s =
    (if Suc (commandIndex s) < length (commands s)
     then Inr (s\<lparr>commandIndex := Suc (Suc (commandIndex s)),
                 selfMsg := Some (SEND, max (tSend (commands s ! Suc (commandIndex s))) now)\<rparr>)
     else Inr (s\<lparr>commandIndex := Suc (commandIndex s), selfMsg := Some (STOP, stopTime cfg)\<rparr>))"
  using assms by (simp add: udp_next_def script_cfg_def set_timer_def Let_def)

lemma script_step:
  assumes "script_cfg cfg" and "udp_ready now s" and "now \<le> stopTime cfg"
    and "commandIndex s < length (commands s)" and "short_command cfg (commands s ! commandIndex s)"
  shows "\<exists>e' s' es. HiUdpApp_handleMessage cfg (SelfMessage x) (e, s) = Inr ((e', s'), es) \<and>
    udp_sizes es = [script_size (commands s ! commandIndex s)] \<and> commands s' = commands s \<and>
    (if Suc (commandIndex s) < length (commands s)
     then commandIndex s' = Suc (Suc (commandIndex s)) \<and> udp_ready (max (tSend (commands s ! Suc (commandIndex s))) now) s'
     else selfMsg s' = Some (STOP, stopTime cfg))"
proof -
  let ?L = "word_of_int (numBytes (commands s ! commandIndex s)) :: u32"
  let ?s1 = "s\<lparr>selfMsg := None, messageLength := ?L\<rparr>"
  have u: "HiUdpApp_updateNextFlow cfg (e, s\<lparr>selfMsg := None\<rparr>) = Inr (snd (c_rand (libc cfg) e), ?s1)"
    using assms(4) by (simp add: script_update[OF assms(1)])
  have L: "unat (messageLength ?s1) = script_size (commands s ! commandIndex s)" by (simp add: script_size_def)
  have le: "unat (messageLength ?s1) \<le> 65527" using assms(5) unfolding L short_command_def by blast
  from only_one[OF assms(2) u le, of x] obtain e2 s2 where s2: "messageLength s2 = ?L"
    "count s2 = 0" "selfMsg s2 = None" "connectAddresses s2 \<noteq> []" "commands s2 = commands s" "commandIndex s2 = commandIndex s"
    and r: "HiUdpApp_handleMessage cfg (SelfMessage x) (e, s) =
       udp_then (HiUdpApp_sendPacket cfg now (script_size (commands s ! commandIndex s)) (e2, s2)) (udp_next True cfg x now)"
    unfolding L by (auto simp del: HiUdpApp_handleMessage.simps)
  let ?s3 = "udp_sent cfg now (script_size (commands s ! commandIndex s)) s2"
  have p: "HiUdpApp_sendPacket cfg now (script_size (commands s ! commandIndex s)) (e2, s2) =
      Inr ((seeded (app_flowid s2) e2, ?s3),
        [SendTo (udp_message cfg (app_flowid s2) ?L now (script_size (commands s ! commandIndex s))) (udp_dest cfg now s2)])"
    using sendPacket_Inr[OF s2(4), of cfg "script_size (commands s ! commandIndex s)"] assms(5) s2(1)
    by (simp add: short_command_def)
  have n: "udp_next True cfg x now ?s3 =
    (if Suc (commandIndex s) < length (commands s)
     then Inr (?s3\<lparr>commandIndex := Suc (Suc (commandIndex s)),
                 selfMsg := Some (SEND, max (tSend (commands s ! Suc (commandIndex s))) now)\<rparr>)
     else Inr (?s3\<lparr>commandIndex := Suc (commandIndex s), selfMsg := Some (STOP, stopTime cfg)\<rparr>))"
    using script_next[OF assms(1) _ assms(3), of ?s3 x] s2 by simp
  show ?thesis unfolding r p udp_then_def using s2
    by (cases "Suc (commandIndex s) < length (commands s)")
      (simp_all add: n udp_sizes_def udp_message_def udp_ready_def)
qed

lemma script_run:
  assumes "script_cfg cfg" and "\<forall>c\<in>set cs. short_command cfg c"
  shows "udp_ready now s \<Longrightarrow> now \<le> stopTime cfg \<Longrightarrow> commands s = cs \<Longrightarrow> commandIndex s = i \<Longrightarrow> i \<le> length cs \<Longrightarrow>
     length xs = (length cs - i + 1) div 2 \<Longrightarrow>
     \<exists>e' s' es. run_out (HiUdpApp_handleMessage cfg) (map SelfMessage xs) (e, s) = Inr ((e', s'), es) \<and>
       udp_sizes es = map (\<lambda>j. script_size (cs ! (i + 2 * j))) [0..<length xs] \<and>
       (odd (length cs - i) \<longrightarrow> selfMsg s' = Some (STOP, stopTime cfg)) \<and>
       (even (length cs - i) \<longrightarrow> (\<forall>x. HiUdpApp_handleMessage cfg (SelfMessage x) (e', s') = Inl OutOfBounds))"
proof (induction xs arbitrary: e s i now)
  case Nil
  then have "i = length cs" by (simp add: div_eq_0_iff)
  with Nil script_past_end[OF assms(1) Nil.prems(1)] show ?case by (simp add: udp_sizes_def)
next
  case (Cons x xs)
  then have i: "i < length cs" by (cases "length cs = i") simp_all
  then have "short_command cfg (commands s ! commandIndex s)" using assms(2) Cons.prems(3,4) by simp
  from script_step[OF assms(1) Cons.prems(1,2) _ this, of x e] Cons.prems(3,4) i obtain e1 s1 es1 where
    s1: "HiUdpApp_handleMessage cfg (SelfMessage x) (e, s) = Inr ((e1, s1), es1)"
    "udp_sizes es1 = [script_size (cs ! i)]" "commands s1 = cs"
    and n: "if Suc i < length cs then commandIndex s1 = Suc (Suc i) \<and> udp_ready (max (tSend (cs ! Suc i)) now) s1
      else selfMsg s1 = Some (STOP, stopTime cfg)" by auto
  show ?case
  proof (cases "Suc i < length cs")
    case False
    with i have l: "length cs - i = 1" by simp
    with Cons.prems(6) have "xs = []" by simp
    with s1 n l False show ?thesis by (simp add: udp_sizes_def del: HiUdpApp_handleMessage.simps)
  next
    case True
    let ?t = "max (tSend (cs ! Suc i)) now"
    have t: "?t \<le> stopTime cfg" using assms(2) True Cons.prems(2) by (auto simp: short_command_def)
    have l: "length xs = (length cs - Suc (Suc i) + 1) div 2" using Cons.prems(6) True by simp
    from n True have "udp_ready ?t s1" "commandIndex s1 = Suc (Suc i)" by auto
    from Cons.IH[OF this(1) t s1(3) this(2) _ l, of e1] True obtain e' s' es where
      r: "run_out (HiUdpApp_handleMessage cfg) (map SelfMessage xs) (e1, s1) = Inr ((e', s'), es)"
      "udp_sizes es = map (\<lambda>j. script_size (cs ! (Suc (Suc i) + 2 * j))) [0..<length xs]"
      "odd (length cs - Suc (Suc i)) \<longrightarrow> selfMsg s' = Some (STOP, stopTime cfg)"
      "even (length cs - Suc (Suc i)) \<longrightarrow> (\<forall>x. HiUdpApp_handleMessage cfg (SelfMessage x) (e', s') = Inl OutOfBounds)"
      by auto
    have "map (\<lambda>j. script_size (cs ! (i + 2 * j))) [0..<length (x # xs)] =
      script_size (cs ! i) # map (\<lambda>j. script_size (cs ! (Suc (Suc i) + 2 * j))) [0..<length xs]"
      by (simp add: upt_conv_Cons map_Suc_upt[symmetric] del: upt_Suc)
    moreover have "udp_sizes (es1 @ es) = udp_sizes es1 @ udp_sizes es" by (simp add: udp_sizes_def)
    moreover have "odd (length cs - i) = odd (length cs - Suc (Suc i))"
    proof -
      have "length cs - i = Suc (Suc (length cs - Suc (Suc i)))" using True by simp
      then show ?thesis by simp
    qed
    ultimately show ?thesis using s1 r by (simp del: HiUdpApp_handleMessage.simps upt_Suc)
  qed
qed

text \<open>C26: Every other command.  A script whose commands each fit into one message and are due before the stop time
  plays its first, third, fifth command and so on, because the index is stepped twice: the even-numbered ones
  only give the time.  After an odd number of commands the application stops; after an even number the
  timer fires once more and reads past the end of the list.\<close>

theorem udp_script_skips:
  assumes "script_cfg cfg" and "\<forall>c\<in>set (commands s). short_command cfg c"
    and "udp_ready now s" and "now \<le> stopTime cfg" and "commandIndex s = 0"
    and "length xs = (length (commands s) + 1) div 2"
  shows "\<exists>e' s' es. run_out (HiUdpApp_handleMessage cfg) (map SelfMessage xs) (e, s) = Inr ((e', s'), es) \<and>
       udp_sizes es = map (\<lambda>j. script_size (commands s ! (2 * j))) [0..<length xs] \<and>
       (odd (length (commands s)) \<longrightarrow> selfMsg s' = Some (STOP, stopTime cfg)) \<and>
       (even (length (commands s)) \<longrightarrow> (\<forall>x. HiUdpApp_handleMessage cfg (SelfMessage x) (e', s') = Inl OutOfBounds))"
  using script_run[OF assms(1,2,3,4) refl assms(5), of xs e] assms(6) by (simp del: HiUdpApp_handleMessage.simps)

subsection \<open>Sizes from a table\<close>

fun size_range :: "flow_size \<Rightarrow> nat \<times> nat" where
  "size_range (Fixed n) = (n, n)"
| "size_range (Drawn m k b) = (b, (m - 1) * k + b)"

fun rows_ok :: "flow_table \<Rightarrow> bool" where
  "rows_ok [] = True"
| "rows_ok ((b, Fixed n) # tb) = (48 \<le> n \<and> n < 2 ^ 30 \<and> rows_ok tb)"
| "rows_ok ((b, Drawn m k l) # tb) = (0 < m \<and> 48 \<le> l \<and> (m - 1) * k + l < 2 ^ 30 \<and> rows_ok tb)"

lemma flow_draw_range:
  assumes "rows_ok tb" and "(b, sz) \<in> set tb"
  shows "fst (size_range sz) \<le> fst (flow_draw R sz e) \<and> fst (flow_draw R sz e) \<le> snd (size_range sz) \<and>
     48 \<le> fst (size_range sz) \<and> snd (size_range sz) < 2 ^ 30"
  using assms
proof (induction tb rule: rows_ok.induct)
  case (3 b' m k l tb)
  have "0 < m \<Longrightarrow> r mod m * k \<le> (m - 1) * k" for r :: nat
    by (intro mult_right_mono) (auto simp: Suc_leI less_imp_le_nat[OF mod_less_divisor] simp flip: less_Suc_eq_le)
  with 3 show ?case by (auto simp: c_rand_def)
qed auto

lemma flow_pick_Inr: "tb \<noteq> [] \<Longrightarrow> seed \<le> fst (last tb) \<Longrightarrow> \<exists>b sz. flow_pick seed tb = Inr sz \<and> (b, sz) \<in> set tb \<and> seed \<le> b"
  by (induction seed tb rule: flow_pick.induct) (auto split: if_splits)

lemmas flow_tables = flow_CacheFollower_def flow_DataMining_def flow_WebServer_def flow_WebSearch_def
  flow_HPCep_def flow_HPCcg_def flow_HPCft_def flow_HPCmg_def

lemma tables_ok: "mode_table TM = Some tb \<Longrightarrow> rows_ok tb \<and> tb \<noteq> [] \<and> fst (last tb) = 1"
  by (auto simp: mode_table_def flow_tables split: if_splits)

text \<open>The sizes of the traffic modes.  Whatever the generator of the C library yields, a mode with a table always finds a
  row, so the error after the last comparison is never raised; the size lies in the range of a row whose bound the
  seed does not exceed, between 48 bytes and 2^30, and is stored without wrap-around.\<close>

theorem udp_mode_sizes:
  assumes "mode_table (trafficMode cfg) = Some tb"
  shows "\<exists>e' s' b sz. HiUdpApp_updateNextFlow cfg (e, s) = Inr (e', s') \<and> (b, sz) \<in> set tb \<and>
     real (libc cfg (rand_seed e) (rand_calls e) mod 9999) / 9999 \<le> b \<and>
     fst (size_range sz) \<le> unat (messageLength s') \<and> unat (messageLength s') \<le> snd (size_range sz) \<and>
     48 \<le> unat (messageLength s') \<and> unat (messageLength s') < 2 ^ 30"
proof -
  let ?seed = "real (libc cfg (rand_seed e) (rand_calls e) mod 9999) / 9999"
  let ?e1 = "snd (c_rand (libc cfg) e)"
  from tables_ok[OF assms] have tb: "rows_ok tb" "tb \<noteq> []" "fst (last tb) = 1" by auto
  have "?seed \<le> fst (last tb)" by (simp add: tb(3) less_imp_le_nat)
  from flow_pick_Inr[OF tb(2) this] obtain b sz where p: "flow_pick ?seed tb = Inr sz" "(b, sz) \<in> set tb" "?seed \<le> b" by blast
  let ?n = "fst (flow_draw (libc cfg) sz ?e1)"
  from flow_draw_range[OF tb(1) p(2), of "libc cfg" ?e1] have r: "fst (size_range sz) \<le> ?n" "?n \<le> snd (size_range sz)"
    "48 \<le> ?n" "?n < 2 ^ 30" by auto
  then have n: "unat (of_nat ?n :: u32) = ?n" by (simp add: unat_of_nat)
  have "HiUdpApp_updateNextFlow cfg (e, s) = Inr (snd (flow_draw (libc cfg) sz ?e1), s\<lparr>messageLength := of_nat ?n\<rparr>)"
    using assms p(1) by (simp add: HiUdpApp_updateNextFlow_def c_rand_def Let_def case_prod_beta)
  with p(2,3) r n show ?thesis by (auto simp del: of_nat_unat)
qed

text \<open>The row of 2096 bytes of the mode HPCft stands behind a larger bound and is never chosen.\<close>

lemma hpcft_2096_unreachable: "flow_pick seed flow_HPCft \<noteq> Inr (Fixed 2096)"
  by (simp add: flow_HPCft_def)

subsection \<open>Examples\<close>

definition sample_udp :: "string \<Rightarrow> u32 \<Rightarrow> udp_cfg" where
  "sample_udp mode n = \<lparr>workLoad = 1, trafficMode = mode, linkSpeed = 8, startTime = 0, stopTime = 1000000,
     packetName = ''HiUdpData'', AppPriority = 0, longflow = n, Enablepoisson = False, destTokens = [''a'', ''b''],
     tryResolve = (\<lambda>t nm. if nm = ''a'' then GlobalAddr 1 else GlobalAddr 2), libc = (\<lambda>w n. unat w + n), chunk_checks = True\<rparr>"

definition sample_app :: "command list \<Rightarrow> udp_app" where
  "sample_app cs = \<lparr>commands = cs, commandIndex = 0, connectAddresses = [GlobalAddr 1, GlobalAddr 2],
     destAddressStr = [''a'', ''b''], messageLength = 0, app_flowid = 0, num = 0, count = 0, selfMsg = Some (SEND, 5),
     numSent = 0, numReceived = 0, BytesSent = 0, BytesRcvd = 0, flow_completion_time = (\<lambda>_. None), sumFct = 0, last_pck_time = 0\<rparr>"

definition sample_env :: sim_env where
  "sample_env = \<lparr>rand_seed = 1, rand_calls = 0, next_flowid = 41\<rparr>"

lemma sample_long_update:
  "HiUdpApp_updateNextFlow (sample_udp ''LongFlow'' n) (sample_env, (sample_app [])\<lparr>selfMsg := None\<rparr>) =
     Inr (sample_env\<lparr>rand_calls := 1\<rparr>, (sample_app [])\<lparr>selfMsg := None, messageLength := n\<rparr>)"
  by (simp add: HiUdpApp_updateNextFlow_def mode_table_def sample_udp_def c_rand_def sample_env_def)

lemma sample_ready: "udp_ready 5 (sample_app cs)"
  by (simp add: udp_ready_def sample_app_def)

theorem udp_flow_sent_witness:
  "\<exists>e' s' a. run_out (HiUdpApp_handleMessage (sample_udp ''LongFlow'' 70000)) (map SelfMessage [\<lambda>x. x, \<lambda>x. x]) (sample_env, sample_app []) =
       Inr ((e', s'), map (\<lambda>c. SendTo (udp_message (sample_udp ''LongFlow'' 70000) 41 70000 5 c) a) [65527, 4473]) \<and>
     next_flowid e' = 42 \<and> selfMsg s' = Some (SEND, 73173)"
proof -
  have c: "udp_cfg_ok (sample_udp ''LongFlow'' 70000)" "5 \<le> stopTime (sample_udp ''LongFlow'' 70000)"
    by (simp_all add: udp_cfg_ok_def sample_udp_def)
  have l: "udp_chunks 70000 = [65527, 4473]" by (simp add: udp_chunks_def)
  have ce: "\<lceil>70000 / 1472 :: real\<rceil> = 48" by (simp add: ceiling_eq_iff)
  have t: "udp_timer (sample_udp ''LongFlow'' 70000) (\<lambda>x. x) 70000 5 = (SEND, 73173)"
    by (simp add: udp_timer_def udp_txTime_def sample_udp_def ce)
  show ?thesis
    using udp_flow_sent[OF c(1) sample_ready c(2) sample_long_update, of "[\<lambda>x. x, \<lambda>x. x]"]
    by (simp add: l t draws_ok_def sample_env_def del: HiUdpApp_handleMessage.simps) blast
qed

theorem udp_exact_multiple_fails_witness:
  "run_out (HiUdpApp_handleMessage (sample_udp ''LongFlow'' 131054)) (map SelfMessage [\<lambda>x. x, \<lambda>x. x, \<lambda>x. x]) (sample_env, sample_app []) =
     Inl (RuntimeError ''chunk is empty'')"
  by (rule udp_exact_multiple_fails[OF sample_ready sample_long_update])
    (simp_all add: udp_chunks_def sample_udp_def)

definition sample_commands :: "command list" where
  "sample_commands = [\<lparr>tSend = 0, numBytes = 100\<rparr>, \<lparr>tSend = 7, numBytes = 200\<rparr>, \<lparr>tSend = 8, numBytes = 300\<rparr>, \<lparr>tSend = 9, numBytes = 400\<rparr>]"

theorem udp_script_skips_witness:
  "\<exists>e' s' es. run_out (HiUdpApp_handleMessage (sample_udp ''sendscript'' 0)) (map SelfMessage [\<lambda>x. x, \<lambda>x. x]) (sample_env, sample_app sample_commands) =
       Inr ((e', s'), es) \<and> udp_sizes es = [100, 300] \<and>
     HiUdpApp_handleMessage (sample_udp ''sendscript'' 0) (SelfMessage (\<lambda>x. x)) (e', s') = Inl OutOfBounds"
proof -
  have c: "script_cfg (sample_udp ''sendscript'' 0)" "5 \<le> stopTime (sample_udp ''sendscript'' 0)"
    by (simp_all add: script_cfg_def sample_udp_def mode_table_def)
  have k: "commands (sample_app sample_commands) = sample_commands" "commandIndex (sample_app sample_commands) = 0"
    by (simp_all add: sample_app_def)
  have s: "\<forall>c\<in>set (commands (sample_app sample_commands)). short_command (sample_udp ''sendscript'' 0) c"
    unfolding k by (simp add: sample_commands_def short_command_def script_size_def sample_udp_def)
  have z: "script_size (sample_commands ! 0) = 100" "script_size (sample_commands ! 2) = 300"
    by (simp_all add: sample_commands_def script_size_def)
  have n: "length sample_commands = 4" by (simp add: sample_commands_def)
  show ?thesis
    using udp_script_skips[OF c(1) s sample_ready c(2) k(2), of "[\<lambda>x. x, \<lambda>x. x]" sample_env]
    by (simp add: k(1) n z del: HiUdpApp_handleMessage.simps) blast
qed

theorem udp_mode_sizes_witness:
  "\<exists>e' s'. HiUdpApp_updateNextFlow (sample_udp ''WebSearch'' 0) (sample_env, sample_app []) = Inr (e', s') \<and>
     48 \<le> unat (messageLength s')"
proof -
  have "mode_table (trafficMode (sample_udp ''WebSearch'' 0)) = Some flow_WebSearch"
    by (simp add: mode_table_def sample_udp_def)
  from udp_mode_sizes[OF this, of sample_env "sample_app []"] show ?thesis by blast
qed

end
