(* ===== verification/App_DCQCN.thy ===== *)
theory App_DCQCN
  imports Udp_App DCQCN
begin

section \<open>An application on top of DCQCN\<close>

text \<open>
  DCQCN does not fail as long as flows reach it in ascending order of their ids.  Here is why one
  \<open>HiUdpApp\<close> on a host keeps that order, whatever the rest of the simulation does to the counter of
  flow ids meanwhile, as long as fewer than 2^32 flows are started: the tag has 32 bits for the id.

  UDP stands between the two: it is a parameter of which the proofs use that it keeps the name and
  the tags of a message.
\<close>

subsection \<open>The ids an application uses\<close>

text \<open>The flows an event starts, and the smallest id the application may still send under.\<close>

fun op_flows :: "udp_op \<Rightarrow> nat" where
  "op_flows (SelfMessage x) = 1"
| "op_flows (Elsewhere w calls flows) = flows"
| "op_flows _ = 0"

definition id_floor :: "sim_env \<times> udp_app \<Rightarrow> nat" where
  "id_floor = (\<lambda>(e, s). if 0 < count s then unat (app_flowid s) else unat (next_flowid e))"

definition ids_inv :: "sim_env \<times> udp_app \<Rightarrow> bool" where
  "ids_inv = (\<lambda>(e, s). 0 < count s \<longrightarrow> unat (app_flowid s) < unat (next_flowid e))"

definition sent_id :: "udp_effect \<Rightarrow> u32" where
  "sent_id f = (case f of SendTo p a \<Rightarrow> ht_flowid (last (p_tags p)))"

lemma sendPacket_effect:
  assumes "HiUdpApp_sendPacket cfg now len (e, s) = Inr ((e', s'), es)"
  shows "next_flowid e' = next_flowid e \<and> count s' = count s \<and> app_flowid s' = app_flowid s \<and>
     map sent_id es = [ucast (app_flowid s)]"
proof -
  let ?r = "libc cfg (ucast (app_flowid s)) 0 mod length (connectAddresses s)"
  obtain a s1 where c: "HiUdpApp_chooseDestAddr cfg now ?r s = (a, s1)" by fastforce
  from choose_frame[OF c] have "count s1 = count s" "app_flowid s1 = app_flowid s" by auto
  with c assms show ?thesis
    by (auto simp: HiUdpApp_sendPacket_def c_rand_def c_srand_def sent_id_def udp_message_def split: if_splits)
qed

lemma set_timer_frame:
  "set_timer k t now s = Inr s' \<Longrightarrow> count s' = count s \<and> app_flowid s' = app_flowid s"
  by (auto simp: set_timer_def split: if_splits)

lemma udp_next_frame:
  "udp_next b cfg x now s = Inr s' \<Longrightarrow> count s' = count s \<and> app_flowid s' = app_flowid s"
  by (auto simp: udp_next_def Let_def split: if_splits dest!: set_timer_frame)

lemma udp_then_Inr:
  assumes "udp_then (HiUdpApp_sendPacket cfg now len (e, s)) f = Inr ((e', s'), es)"
    and "\<And>t t'. f t = Inr t' \<Longrightarrow> count t' = count t \<and> app_flowid t' = app_flowid t"
  shows "next_flowid e' = next_flowid e \<and> count s' = count s \<and> app_flowid s' = app_flowid s \<and>
     map sent_id es = [ucast (app_flowid s)]"
proof -
  from assms(1) obtain e1 s1 where "HiUdpApp_sendPacket cfg now len (e, s) = Inr ((e1, s1), es)" "f s1 = Inr s'" "e' = e1"
    by (auto simp: udp_then_def rbind_eq_Inr)
  with sendPacket_effect assms(2) show ?thesis by metis
qed

lemma udp_then_timer:
  "udp_then (HiUdpApp_sendPacket cfg now len (e, s)) (set_timer k u v) = Inr ((e', s'), es) \<Longrightarrow>
     next_flowid e' = next_flowid e \<and> count s' = count s \<and> app_flowid s' = app_flowid s \<and> map sent_id es = [ucast (app_flowid s)]"
  "udp_then (HiUdpApp_sendPacket cfg now len (e, s)) (udp_next b cfg x v) = Inr ((e', s'), es) \<Longrightarrow>
     next_flowid e' = next_flowid e \<and> count s' = count s \<and> app_flowid s' = app_flowid s \<and> map sent_id es = [ucast (app_flowid s)]"
  by (erule udp_then_Inr, erule set_timer_frame) (erule udp_then_Inr, erule udp_next_frame)

text \<open>One call of \<open>processSend\<close>: the id of its message, and the flow id counter.\<close>

lemma processSend_ids:
  assumes "HiUdpApp_processSend cfg x now (e, s) = Inr ((e', s'), es)"
  shows "\<exists>f. map sent_id es = [ucast f] \<and>
    (if count s = 0 then f = next_flowid e \<and> next_flowid e' = next_flowid e + 1
     else f = app_flowid s \<and> next_flowid e' = next_flowid e) \<and> (0 < count s' \<longrightarrow> app_flowid s' = f)"
proof (cases "count s = 0")
  case True
  with assms obtain e1 s1 where u: "HiUdpApp_updateNextFlow cfg (e, s) = Inr (e1, s1)"
    and r: "(if 65527 < messageLength s1 then
        let n = unat (messageLength s1 div 65527) in
        udp_then (HiUdpApp_sendPacket cfg now 65527 (GlobalFlowId_flowidadd e1, s1\<lparr>app_flowid := next_flowid e1, num := n, count := n\<rparr>)) (set_timer SEND now now)
      else udp_then (HiUdpApp_sendPacket cfg now (unat (messageLength s1)) (GlobalFlowId_flowidadd e1, s1\<lparr>app_flowid := next_flowid e1\<rparr>))
        (udp_next True cfg x now)) = Inr ((e', s'), es)"
    by (auto simp: HiUdpApp_processSend_def rbind_eq_Inr Let_def GlobalFlowId_getflowid_def split: if_splits)
  from updateNextFlow_frame[OF u] have "next_flowid e1 = next_flowid e" by simp
  with r True show ?thesis
    by (auto simp: Let_def GlobalFlowId_flowidadd_def split: if_splits dest!: udp_then_timer)
next
  case False
  with assms show ?thesis
    by (auto simp: HiUdpApp_processSend_def Let_def split: if_splits dest!: udp_then_timer)
qed

text \<open>An event sends at most one message, under an id from the floor on, and the floor never sinks.\<close>

lemma udp_step_ids:
  assumes "HiUdpApp_handleMessage cfg x (e, s) = Inr ((e', s'), es)" and "ids_inv (e, s)"
    and "unat (next_flowid e) + op_flows x \<le> 2 ^ 32"
  shows "ids_inv (e', s') \<and> unat (next_flowid e') \<le> unat (next_flowid e) + op_flows x \<and> id_floor (e, s) \<le> id_floor (e', s') \<and>
    (\<forall>k\<in>set (map sent_id es). id_floor (e, s) \<le> unat k \<and> unat k \<le> id_floor (e', s')) \<and> length es \<le> 1"
proof -
  have plus: "unat (next_flowid e + of_nat n) = unat (next_flowid e) + n" if "unat (next_flowid e) + n \<le> 2 ^ 32" for n
    using that by (simp add: unat_add_lem[THEN iffD1] unat_of_nat)
  show ?thesis
  proof (cases "\<exists>y now. x = SelfMessage y \<and> selfMsg s = Some (SEND, now)")
    case True
    then obtain y now where x: "x = SelfMessage y" "selfMsg s = Some (SEND, now)" by blast
    with assms(1) have p: "HiUdpApp_processSend cfg y now (e, s\<lparr>selfMsg := None\<rparr>) = Inr ((e', s'), es)" by simp
    from processSend_ids[OF p] obtain f where f: "map sent_id es = [ucast f]"
      "if count s = 0 then f = next_flowid e \<and> next_flowid e' = next_flowid e + 1
       else f = app_flowid s \<and> next_flowid e' = next_flowid e" "0 < count s' \<longrightarrow> app_flowid s' = f" by auto
    have one: "unat (next_flowid e + 1) = unat (next_flowid e) + 1" using plus[of 1] assms(3) x by simp
    have l: "unat f < 2 ^ 32"
      using f(2) assms(2,3) x by (auto simp: ids_inv_def split: if_splits)
    then have k: "unat (ucast f :: u32) = unat f" by (simp add: unsigned_ucast_eq unsigned_take_bit_eq take_bit_nat_eq_self)
    have "length es = 1" using f(1) by (metis length_map length_Cons list.size(3) One_nat_def)
    then show ?thesis
      using f assms(2) one by (auto simp: ids_inv_def id_floor_def k x split: if_splits)
  next
    case False
    then have "es = [] \<and> count s' = count s \<and> app_flowid s' = app_flowid s \<and>
      (next_flowid e' = next_flowid e \<or> next_flowid e' = next_flowid e + of_nat (op_flows x))"
      using assms(1)
      by (cases x) (auto simp: rbind_eq_Inr HiUdpApp_handleStartOperation_def HiUdpApp_processStart_def
          HiUdpApp_processPacket_def Let_def split: option.splits udp_kind.splits if_splits dest!: set_timer_frame)
    then show ?thesis
      using assms(2,3) plus[of "op_flows x"] by (auto simp: ids_inv_def id_floor_def)
  qed
qed

lemma udp_run_ids:
  assumes "run_out (HiUdpApp_handleMessage cfg) xs (e, s) = Inr (t, es)" and "ids_inv (e, s)"
    and "unat (next_flowid e) + sum_list (map op_flows xs) \<le> 2 ^ 32"
  shows "sorted (map (\<lambda>f. unat (sent_id f)) es) \<and> (\<forall>f\<in>set es. id_floor (e, s) \<le> unat (sent_id f))"
  using assms
proof (induction xs arbitrary: e s es)
  case Nil
  then show ?case by simp
next
  case (Cons x xs)
  from Cons.prems(1) obtain e1 s1 es1 es2 where s1: "HiUdpApp_handleMessage cfg x (e, s) = Inr ((e1, s1), es1)"
    and r: "run_out (HiUdpApp_handleMessage cfg) xs (e1, s1) = Inr (t, es2)" and es: "es = es1 @ es2"
    by (auto simp: run_out_Cons_Inr simp del: run_out.simps HiUdpApp_handleMessage.simps)
  have "unat (next_flowid e) + op_flows x \<le> 2 ^ 32" using Cons.prems(3) by simp
  from udp_step_ids[OF s1 Cons.prems(2) this] have h: "ids_inv (e1, s1)"
    "unat (next_flowid e1) \<le> unat (next_flowid e) + op_flows x" "id_floor (e, s) \<le> id_floor (e1, s1)"
    "\<forall>f\<in>set es1. id_floor (e, s) \<le> unat (sent_id f) \<and> unat (sent_id f) \<le> id_floor (e1, s1)" "length es1 \<le> 1" by auto
  from Cons.IH[OF r h(1)] h(2) Cons.prems(3)
  have i: "sorted (map (\<lambda>f. unat (sent_id f)) es2)" "\<forall>f\<in>set es2. id_floor (e1, s1) \<le> unat (sent_id f)" by auto
  from h(5) have "sorted (map (\<lambda>f. unat (sent_id f)) es1)" by (cases es1) auto
  with h(3,4) i show ?case unfolding es by (fastforce simp: sorted_append)
qed

subsection \<open>On top of DCQCN\<close>

text \<open>The messages that reach DCQCN from above.\<close>

fun from_above :: "(simtime \<times> cc_op) list \<Rightarrow> dgram list" where
  "from_above [] = []"
| "from_above ((now, Upper p) # xs) = p # from_above xs"
| "from_above ((now, _) # xs) = from_above xs"

definition keeps_tags :: "(packet \<Rightarrow> l3addr \<Rightarrow> dgram) \<Rightarrow> bool" where
  "keeps_tags udp \<longleftrightarrow> (\<forall>p a. p_name (udp p a) = p_name p \<and> p_tags (udp p a) = p_tags p)"

definition through_udp :: "(packet \<Rightarrow> l3addr \<Rightarrow> dgram) \<Rightarrow> udp_effect \<Rightarrow> dgram" where
  "through_udp udp f = (case f of SendTo p a \<Rightarrow> udp p a)"

lemma ascending_uppers:
  assumes "sorted (map (\<lambda>p. unat (ht_flowid (last (p_tags p)))) (from_above xs))"
    and "\<forall>p\<in>set (from_above xs). b \<le> ht_flowid (last (p_tags p))"
  shows "ascending_from (dcqcn_new cfg) b xs"
  using assms
proof (induction xs arbitrary: b rule: from_above.induct)
  case (2 now p xs)
  from 2(2) have "\<forall>q\<in>set (from_above xs). ht_flowid (last (p_tags p)) \<le> ht_flowid (last (p_tags q))"
    by (auto simp: word_le_nat_alt)
  with 2 show ?case by auto
qed auto

text \<open>An application's messages carry a tag, also after UDP.\<close>

lemma sent_tags:
  "HiUdpApp_handleMessage cfg x (e, s) = Inr (t, es) \<Longrightarrow> SendTo p a \<in> set es \<Longrightarrow> p_tags p \<noteq> []"
  by (cases x) (auto simp: rbind_eq_Inr HiUdpApp_processSend_def HiUdpApp_sendPacket_def udp_then_def udp_message_def Let_def
      split: option.splits udp_kind.splits if_splits prod.splits)

lemma run_tags:
  "run_out (HiUdpApp_handleMessage cfg) ops (e, s) = Inr (t, es) \<Longrightarrow> SendTo p a \<in> set es \<Longrightarrow> p_tags p \<noteq> []"
proof (induction ops arbitrary: e s es)
  case (Cons x ops)
  from Cons.prems(1) obtain e1 s1 es1 es2 where "HiUdpApp_handleMessage cfg x (e, s) = Inr ((e1, s1), es1)"
    and "run_out (HiUdpApp_handleMessage cfg) ops (e1, s1) = Inr (t, es2)" and "es = es1 @ es2"
    by (auto simp: run_out_Cons_Inr simp del: run_out.simps HiUdpApp_handleMessage.simps)
  with Cons.IH Cons.prems(2) sent_tags show ?case by fastforce
qed simp

fun not_from_above :: "simtime \<times> cc_op \<Rightarrow> bool" where
  "not_from_above (now, Upper p) = False"
| "not_from_above (now, _) = True"

lemma in_from_above: "(now, Upper p) \<in> set xs \<Longrightarrow> p \<in> set (from_above xs)"
  by (induction xs rule: from_above.induct) auto

text \<open>C25: An application on top of DCQCN.  Whatever traffic mode a host's application runs, with flows of any number of
  messages, and whatever other applications do to the generator and to the flow id counter between its events,
  DCQCN below it never fails: no iterator past the end is used and no timer is scheduled twice or into the past,
  whatever notifications and timers come between its messages.  This holds until 2^32 flows have been started.\<close>

theorem app_dcqcn_never_fails:
  assumes "dcqcn_cfg_ok dcfg" and "keeps_tags udp"
    and "run_out (HiUdpApp_handleMessage cfg) ops (e, s) = Inr (t, es)" and "count s = 0"
    and "unat (next_flowid e) + sum_list (map op_flows ops) \<le> 2 ^ 32"
    and "from_above xs = map (through_udp udp) es"
    and "\<forall>x\<in>set xs. not_from_above x \<longrightarrow> dcqcn_accepts dcfg x"
  shows "\<exists>s' es'. run_out (DCQCN_handleMessage dcfg) xs DCQCN_initialize = Inr (s', es')"
proof -
  have i: "ids_inv (e, s)" using assms(4) by (simp add: ids_inv_def)
  have id: "ht_flowid (last (p_tags (through_udp udp f))) = sent_id f" for f
    using assms(2) by (cases f) (simp add: through_udp_def sent_id_def keeps_tags_def)
  have tags: "p_tags p \<noteq> []" if p: "p \<in> set (from_above xs)" for p
  proof -
    from p obtain q a where q: "SendTo q a \<in> set es" "p = udp q a"
      unfolding assms(6) by (auto simp: through_udp_def split: udp_effect.splits)
    with run_tags[OF assms(3) q(1)] assms(2) show ?thesis by (simp add: keeps_tags_def)
  qed
  have "sorted (map (\<lambda>p. unat (ht_flowid (last (p_tags p)))) (from_above xs))"
    unfolding assms(6) map_map comp_def id using udp_run_ids[OF assms(3) i assms(5)] by simp
  then have asc: "ascending_from (dcqcn_new dcfg) 0 xs" by (rule ascending_uppers) simp
  have acc: "\<forall>x\<in>set xs. dcqcn_accepts dcfg x"
  proof
    fix x
    assume x: "x \<in> set xs"
    show "dcqcn_accepts dcfg x"
    proof (cases "not_from_above x")
      case True
      with assms(7) x show ?thesis by blast
    next
      case False
      then obtain now p where xp: "x = (now, Upper p)" by (cases x rule: not_from_above.cases) auto
      with x have "p_tags p \<noteq> []" by (intro tags in_from_above) simp
      with xp show ?thesis by simp
    qed
  qed
  have "\<forall>j\<in>flow_keys DCQCN_initialize. j \<le> 0" by (simp add: flow_keys_def DCQCN_initialize_def)
  from dcqcn_ordered.ascending_run_ok[OF dcqcn_init_inv[OF assms(1)] acc this asc]
  show ?thesis by (auto simp: is_ok_iff)
qed

definition sample_over_udp :: "packet \<Rightarrow> l3addr \<Rightarrow> dgram" where
  "sample_over_udp p a = \<lparr>p_id = 1, p_name = p_name p, p_len = p_len p + 64, p_iface = 0, p_ecn = None, p_tags = p_tags p,
     p_bfc = None, p_ispause = None, d_src = 9, d_dest = 1, d_sport = 100, d_dport = 100, d_ecn = 0, d_recRate = 0,
     d_int = None, d_psd = None, d_sack = None, d_time = 0\<rparr>"

theorem app_dcqcn_never_fails_witness:
  "\<exists>t p q a. run_out (HiUdpApp_handleMessage (sample_udp ''LongFlow'' 70000)) [SelfMessage (\<lambda>x. x), Elsewhere 7 3 10, SelfMessage (\<lambda>x. x)]
       (sample_env, sample_app []) = Inr (t, [SendTo p a, SendTo q a]) \<and>
     (\<exists>s' es'. run_out (DCQCN_handleMessage sample_dcqcn)
       [(5, Upper (sample_over_udp p a)), (5, Fire SendDataTimer), (5, Upper (sample_over_udp q a))] DCQCN_initialize = Inr (s', es'))"
proof -
  let ?ops = "[SelfMessage (\<lambda>x. x), Elsewhere 7 3 10, SelfMessage (\<lambda>x. x)]"
  have m: "41 mod Suc (Suc 0) = 1" by (simp flip: numeral_2_eq_2)
  have ce: "\<lceil>70000 / 1472 :: real\<rceil> = 48" by (simp add: ceiling_eq_iff)
  obtain t p q a where r: "run_out (HiUdpApp_handleMessage (sample_udp ''LongFlow'' 70000)) ?ops (sample_env, sample_app []) =
      Inr (t, [SendTo p a, SendTo q a])"
    by (simp add: sample_app_def sample_env_def sample_udp_def HiUdpApp_processSend_def HiUdpApp_updateNextFlow_def mode_table_def
        c_rand_def c_srand_def HiUdpApp_sendPacket_def HiUdpApp_chooseDestAddr_def udp_then_def set_timer_def udp_next_def
        udp_txTime_def ce m GlobalFlowId_getflowid_def GlobalFlowId_flowidadd_def Let_def)
  have "\<exists>s' es'. run_out (DCQCN_handleMessage sample_dcqcn)
       [(5, Upper (sample_over_udp p a)), (5, Fire SendDataTimer), (5, Upper (sample_over_udp q a))] DCQCN_initialize = Inr (s', es')"
    by (rule app_dcqcn_never_fails[where udp = sample_over_udp, OF sample_dcqcn_ok _ r])
      (simp_all add: keeps_tags_def sample_over_udp_def through_udp_def sample_app_def sample_env_def)
  with r show ?thesis by blast
qed

end
