(* ===== verification/Memory_Streams.thy ===== *)
theory Memory_Streams
  imports Machine
begin

unbundle bit_operations_syntax

section \<open>Bit streams in memory\<close>

text \<open>
  \<open>common/MemoryOutputStream.h\<close> and \<open>common/MemoryInputStream.h\<close>: the streams the header serializers write
  and read.  A stream is a vector of bytes and a length in bits; bytes may be written and read at
  any bit position.  The abstract view of a stream is the list of its bits.
\<close>

type_synonym u8 = "8 word"
type_synonym u16 = "16 word"

record out_stream =
  out_data :: "u8 list"
  out_length :: nat

record in_stream =
  in_data :: "u8 list"
  in_length :: nat
  position :: nat
  isReadBeyondEnd :: bool

definition MemoryOutputStream :: out_stream where
  "MemoryOutputStream = \<lparr>out_data = [], out_length = 0\<rparr>"

definition MemoryInputStream :: "u8 list \<Rightarrow> nat \<Rightarrow> nat \<Rightarrow> in_stream res" where
  "MemoryInputStream d len pos =
     (if pos \<le> len then Inr \<lparr>in_data = d, in_length = len, position = pos, isReadBeyondEnd = False\<rparr>
      else Inl (RuntimeError ''assertion failed''))"

definition getRemainingLength :: "in_stream \<Rightarrow> nat" where
  "getRemainingLength s = in_length s - position s"

definition seek :: "nat \<Rightarrow> in_stream \<Rightarrow> in_stream res" where
  "seek pos s = (if pos \<le> in_length s then Inr (s\<lparr>position := pos\<rparr>) else Inl (RuntimeError ''assertion failed''))"

subsection \<open>Writing\<close>

definition writeBit :: "bool \<Rightarrow> out_stream \<Rightarrow> out_stream" where
  "writeBit value s =
     (let byteIndex = out_length s div 8; bitIndex = out_length s mod 8;
          d = (if bitIndex = 0 then out_data s @ [0] else out_data s)
      in s\<lparr>out_data := (if value then d[byteIndex := d ! byteIndex OR push_bit (7 - bitIndex) 1] else d),
           out_length := out_length s + 1\<rparr>)"

fun writeBitRepeatedly :: "bool \<Rightarrow> nat \<Rightarrow> out_stream \<Rightarrow> out_stream" where
  "writeBitRepeatedly value 0 s = s"
| "writeBitRepeatedly value (Suc n) s = writeBitRepeatedly value n (writeBit value s)"

fun writeBits :: "bool list \<Rightarrow> out_stream \<Rightarrow> out_stream" where
  "writeBits [] s = s"
| "writeBits (b # bs) s = writeBits bs (writeBit b s)"

text \<open>A byte at a position that is not a multiple of 8 goes partly to the last byte and partly to a new one.\<close>

definition writeByte :: "u8 \<Rightarrow> out_stream \<Rightarrow> out_stream" where
  "writeByte value s =
     (let d = out_data s; l1 = out_length s mod 8; l2 = 8 - l1 in
      s\<lparr>out_data :=
          (if l1 = 0 then d @ [value]
           else d[length d - 1 := last d OR drop_bit l2 (value AND push_bit l2 0xFF)] @ [push_bit l1 (value AND drop_bit l1 0xFF)]),
        out_length := out_length s + 8\<rparr>)"

fun writeByteRepeatedly :: "u8 \<Rightarrow> nat \<Rightarrow> out_stream \<Rightarrow> out_stream" where
  "writeByteRepeatedly value 0 s = s"
| "writeByteRepeatedly value (Suc n) s = writeByteRepeatedly value n (writeByte value s)"

definition writeBytes :: "u8 list \<Rightarrow> out_stream \<Rightarrow> out_stream res" where
  "writeBytes bytes s =
     (if out_length s mod 8 = 0 then Inr (s\<lparr>out_data := out_data s @ bytes, out_length := out_length s + 8 * length bytes\<rparr>)
      else Inl (RuntimeError ''assertion failed''))"

definition writeUint2 :: "u8 \<Rightarrow> out_stream \<Rightarrow> out_stream" where
  "writeUint2 value s = writeBit (bit value 0) (writeBit (bit value 1) s)"

definition writeUint4 :: "u8 \<Rightarrow> out_stream \<Rightarrow> out_stream" where
  "writeUint4 value s = writeBit (bit value 0) (writeBit (bit value 1) (writeBit (bit value 2) (writeBit (bit value 3) s)))"

definition writeUint8 :: "u8 \<Rightarrow> out_stream \<Rightarrow> out_stream" where
  "writeUint8 value s = writeByte value s"

definition writeUint16Be :: "u16 \<Rightarrow> out_stream \<Rightarrow> out_stream" where
  "writeUint16Be value s = writeByte (ucast value) (writeByte (ucast (drop_bit 8 value)) s)"

definition writeUint16Le :: "u16 \<Rightarrow> out_stream \<Rightarrow> out_stream" where
  "writeUint16Le value s = writeByte (ucast (drop_bit 8 value)) (writeByte (ucast value) s)"

definition writeUint24Be :: "u32 \<Rightarrow> out_stream \<Rightarrow> out_stream" where
  "writeUint24Be value s = writeByte (ucast value) (writeByte (ucast (drop_bit 8 value)) (writeByte (ucast (drop_bit 16 value)) s))"

definition writeUint24Le :: "u32 \<Rightarrow> out_stream \<Rightarrow> out_stream" where
  "writeUint24Le value s = writeByte (ucast (drop_bit 16 value)) (writeByte (ucast (drop_bit 8 value)) (writeByte (ucast value) s))"

definition writeUint32Be :: "u32 \<Rightarrow> out_stream \<Rightarrow> out_stream" where
  "writeUint32Be value s = writeByte (ucast value) (writeByte (ucast (drop_bit 8 value)) (writeByte (ucast (drop_bit 16 value)) (writeByte (ucast (drop_bit 24 value)) s)))"

definition writeUint32Le :: "u32 \<Rightarrow> out_stream \<Rightarrow> out_stream" where
  "writeUint32Le value s = writeByte (ucast (drop_bit 24 value)) (writeByte (ucast (drop_bit 16 value)) (writeByte (ucast (drop_bit 8 value)) (writeByte (ucast value) s)))"

definition writeUint48Be :: "u64 \<Rightarrow> out_stream \<Rightarrow> out_stream" where
  "writeUint48Be value s = writeByte (ucast value) (writeByte (ucast (drop_bit 8 value)) (writeByte (ucast (drop_bit 16 value)) (writeByte (ucast (drop_bit 24 value)) (writeByte (ucast (drop_bit 32 value)) (writeByte (ucast (drop_bit 40 value)) s)))))"

definition writeUint48Le :: "u64 \<Rightarrow> out_stream \<Rightarrow> out_stream" where
  "writeUint48Le value s = writeByte (ucast (drop_bit 40 value)) (writeByte (ucast (drop_bit 32 value)) (writeByte (ucast (drop_bit 24 value)) (writeByte (ucast (drop_bit 16 value)) (writeByte (ucast (drop_bit 8 value)) (writeByte (ucast value) s)))))"

definition writeUint64Be :: "u64 \<Rightarrow> out_stream \<Rightarrow> out_stream" where
  "writeUint64Be value s = writeByte (ucast value) (writeByte (ucast (drop_bit 8 value)) (writeByte (ucast (drop_bit 16 value)) (writeByte (ucast (drop_bit 24 value)) (writeByte (ucast (drop_bit 32 value)) (writeByte (ucast (drop_bit 40 value)) (writeByte (ucast (drop_bit 48 value)) (writeByte (ucast (drop_bit 56 value)) s)))))))"

definition writeUint64Le :: "u64 \<Rightarrow> out_stream \<Rightarrow> out_stream" where
  "writeUint64Le value s = writeByte (ucast (drop_bit 56 value)) (writeByte (ucast (drop_bit 48 value)) (writeByte (ucast (drop_bit 40 value)) (writeByte (ucast (drop_bit 32 value)) (writeByte (ucast (drop_bit 24 value)) (writeByte (ucast (drop_bit 16 value)) (writeByte (ucast (drop_bit 8 value)) (writeByte (ucast value) s)))))))"

text \<open>MAC addresses are kept in the lower 48 bits of a word; \<open>getAddressByte(0)\<close> is the most significant byte.\<close>

definition getAddressByte :: "u64 \<Rightarrow> nat \<Rightarrow> u8" where
  "getAddressByte address k = ucast (0xFF AND drop_bit ((6 - k - 1) * 8) address)"

definition setAddressByte :: "u64 \<Rightarrow> nat \<Rightarrow> u8 \<Rightarrow> u64" where
  "setAddressByte address k addrbyte =
     (address AND NOT (push_bit ((6 - k - 1) * 8) 0xFF)) OR push_bit ((6 - k - 1) * 8) (ucast addrbyte)"

definition writeMacAddress :: "u64 \<Rightarrow> out_stream \<Rightarrow> out_stream" where
  "writeMacAddress address s = fold (\<lambda>i. writeByte (getAddressByte address i)) [0..<6] s"

definition writeIpv4Address :: "u32 \<Rightarrow> out_stream \<Rightarrow> out_stream" where
  "writeIpv4Address address s = writeUint32Be address s"

definition writeIpv6Address :: "u32 list \<Rightarrow> out_stream \<Rightarrow> out_stream" where
  "writeIpv6Address ws s = fold writeUint32Be (take 4 ws) s"

definition writeString :: "u8 list \<Rightarrow> out_stream \<Rightarrow> out_stream res" where
  "writeString cs s = rbind (writeBytes cs s) (\<lambda>s. Inr (writeByte 0 s))"

text \<open>
  \<open>uint64_t mul = 1 << (n - 1)\<close> shifts an \<open>int\<close>: the shift of 31 places gives the most negative \<open>int\<close>,
  which is extended with its sign; a wider shift is undefined.
\<close>

definition nbits_mask :: "nat \<Rightarrow> u64 res" where
  "nbits_mask n =
     (if n = 0 \<or> n > 64 then Inl (RuntimeError ''Can not write 0 bit or more than 64 bits.'')
      else if n \<le> 32 then Inr (scast (push_bit (n - 1) 1 :: u32)) else Inl (RuntimeError ''shift exceeds the width of int''))"

fun nbits_write :: "u64 \<Rightarrow> nat \<Rightarrow> u64 \<Rightarrow> out_stream \<Rightarrow> out_stream" where
  "nbits_write value 0 mul s = s"
| "nbits_write value (Suc n) mul s = nbits_write value n (drop_bit 1 mul) (writeBit (value AND mul \<noteq> 0) s)"

definition writeNBitsOfUint64Be :: "u64 \<Rightarrow> nat \<Rightarrow> out_stream \<Rightarrow> out_stream res" where
  "writeNBitsOfUint64Be value n s = rbind (nbits_mask n) (\<lambda>mul. Inr (nbits_write value n mul s))"

subsection \<open>Reading\<close>

text \<open>\<open>data.at\<close> and \<open>data[]\<close> beyond the vector are the error \<open>OutOfBounds\<close>; a stream made with a length beyond its
  vector reaches it.  Reading beyond the end of the stream only sets a flag.\<close>

definition data_at :: "u8 list \<Rightarrow> nat \<Rightarrow> u8 res" where
  "data_at d i = (if i < length d then Inr (d ! i) else Inl OutOfBounds)"

definition readBit :: "in_stream \<Rightarrow> (bool \<times> in_stream) res" where
  "readBit s =
     (if position s = in_length s then Inr (False, s\<lparr>isReadBeyondEnd := True\<rparr>)
      else rbind (data_at (in_data s) (position s div 8)) (\<lambda>byte.
             Inr (byte AND push_bit (7 - position s mod 8) 1 \<noteq> 0, s\<lparr>position := position s + 1\<rparr>)))"

fun readBitRepeatedly :: "bool \<Rightarrow> nat \<Rightarrow> in_stream \<Rightarrow> (bool \<times> in_stream) res" where
  "readBitRepeatedly value 0 s = Inr (True, s)"
| "readBitRepeatedly value (Suc n) s =
     rbind (readBit s) (\<lambda>(b, s). rbind (readBitRepeatedly value n s) (\<lambda>(ok, s). Inr (value = b \<and> ok, s)))"

text \<open>\<open>readBits\<close> stops once a read has gone beyond the end; the bit of that read is still pushed.\<close>

fun readBits :: "nat \<Rightarrow> in_stream \<Rightarrow> (bool list \<times> in_stream) res" where
  "readBits 0 s = Inr ([], s)"
| "readBits (Suc n) s =
     (if isReadBeyondEnd s then Inr ([], s)
      else rbind (readBit s) (\<lambda>(b, s). rbind (readBits n s) (\<lambda>(bs, s). Inr (b # bs, s))))"

definition readByte :: "in_stream \<Rightarrow> (u8 \<times> in_stream) res" where
  "readByte s =
     (if position s + 8 > in_length s then Inr (0, s\<lparr>isReadBeyondEnd := True, position := in_length s\<rparr>)
      else
        let l1 = position s mod 8; l2 = 8 - l1 in
        rbind (if l1 = 0 then data_at (in_data s) (position s div 8)
               else rbind (data_at (in_data s) ((position s - l1) div 8)) (\<lambda>x.
                    rbind (data_at (in_data s) ((position s + l2) div 8)) (\<lambda>y.
                      Inr (push_bit l1 x OR drop_bit l2 y)))) (\<lambda>result.
          Inr (result, s\<lparr>position := position s + 8\<rparr>)))"

fun readByteRepeatedly :: "u8 \<Rightarrow> nat \<Rightarrow> in_stream \<Rightarrow> (bool \<times> in_stream) res" where
  "readByteRepeatedly value 0 s = Inr (True, s)"
| "readByteRepeatedly value (Suc n) s =
     rbind (readByte s) (\<lambda>(b, s). rbind (readByteRepeatedly value n s) (\<lambda>(ok, s). Inr (value = b \<and> ok, s)))"

text \<open>\<open>readBytes\<close> takes as many bytes as there are up to the end of the stream; a rest that is not a number of bytes
  cannot be converted to the unit \<open>B\<close>.\<close>

definition readBytes :: "nat \<Rightarrow> in_stream \<Rightarrow> (u8 list \<times> in_stream) res" where
  "readBytes n s =
     (if position s mod 8 \<noteq> 0 then Inl (RuntimeError ''assertion failed'')
      else if position s + 8 * n > in_length s \<and> (in_length s - position s) mod 8 \<noteq> 0
      then Inl (RuntimeError ''Cannot convert between integer units'')
      else
        let m = (if position s + 8 * n > in_length s then (in_length s - position s) div 8 else n);
            beyond = isReadBeyondEnd s \<or> position s + 8 * n > in_length s
        in if position s div 8 + m \<le> length (in_data s)
           then Inr (take m (drop (position s div 8) (in_data s)), s\<lparr>position := position s + 8 * m, isReadBeyondEnd := beyond\<rparr>)
           else Inl (RuntimeError ''assertion failed''))"

definition readUint2 :: "in_stream \<Rightarrow> (u8 \<times> in_stream) res" where
  "readUint2 s = rbind (readBit s) (\<lambda>(b1, s). rbind (readBit s) (\<lambda>(b0, s).
     Inr ((if b1 then 2 else 0) OR (if b0 then 1 else 0), s)))"

definition readUint4 :: "in_stream \<Rightarrow> (u8 \<times> in_stream) res" where
  "readUint4 s = rbind (readBit s) (\<lambda>(b3, s). rbind (readBit s) (\<lambda>(b2, s). rbind (readBit s) (\<lambda>(b1, s). rbind (readBit s) (\<lambda>(b0, s).
     Inr ((if b3 then 8 else 0) OR (if b2 then 4 else 0) OR (if b1 then 2 else 0) OR (if b0 then 1 else 0), s)))))"

definition readUint8 :: "in_stream \<Rightarrow> (u8 \<times> in_stream) res" where
  "readUint8 s = readByte s"

definition readUint16Be :: "in_stream \<Rightarrow> (u16 \<times> in_stream) res" where
  "readUint16Be s = rbind (readByte s) (\<lambda>(b0, s). rbind (readByte s) (\<lambda>(b1, s). Inr (push_bit 8 (ucast b0) OR ucast b1, s)))"

definition readUint16Le :: "in_stream \<Rightarrow> (u16 \<times> in_stream) res" where
  "readUint16Le s = rbind (readByte s) (\<lambda>(b0, s). rbind (readByte s) (\<lambda>(b1, s). Inr (ucast b0 OR push_bit 8 (ucast b1), s)))"

definition readUint24Be :: "in_stream \<Rightarrow> (u32 \<times> in_stream) res" where
  "readUint24Be s = rbind (readByte s) (\<lambda>(b0, s). rbind (readByte s) (\<lambda>(b1, s). rbind (readByte s) (\<lambda>(b2, s). Inr (push_bit 16 (ucast b0) OR push_bit 8 (ucast b1) OR ucast b2, s))))"

definition readUint24Le :: "in_stream \<Rightarrow> (u32 \<times> in_stream) res" where
  "readUint24Le s = rbind (readByte s) (\<lambda>(b0, s). rbind (readByte s) (\<lambda>(b1, s). rbind (readByte s) (\<lambda>(b2, s). Inr (ucast b0 OR push_bit 8 (ucast b1) OR push_bit 16 (ucast b2), s))))"

definition readUint32Be :: "in_stream \<Rightarrow> (u32 \<times> in_stream) res" where
  "readUint32Be s = rbind (readByte s) (\<lambda>(b0, s). rbind (readByte s) (\<lambda>(b1, s). rbind (readByte s) (\<lambda>(b2, s). rbind (readByte s) (\<lambda>(b3, s). Inr (push_bit 24 (ucast b0) OR push_bit 16 (ucast b1) OR push_bit 8 (ucast b2) OR ucast b3, s)))))"

definition readUint32Le :: "in_stream \<Rightarrow> (u32 \<times> in_stream) res" where
  "readUint32Le s = rbind (readByte s) (\<lambda>(b0, s). rbind (readByte s) (\<lambda>(b1, s). rbind (readByte s) (\<lambda>(b2, s). rbind (readByte s) (\<lambda>(b3, s). Inr (ucast b0 OR push_bit 8 (ucast b1) OR push_bit 16 (ucast b2) OR push_bit 24 (ucast b3), s)))))"

definition readUint48Be :: "in_stream \<Rightarrow> (u64 \<times> in_stream) res" where
  "readUint48Be s = rbind (readByte s) (\<lambda>(b0, s). rbind (readByte s) (\<lambda>(b1, s). rbind (readByte s) (\<lambda>(b2, s). rbind (readByte s) (\<lambda>(b3, s). rbind (readByte s) (\<lambda>(b4, s). rbind (readByte s) (\<lambda>(b5, s). Inr (push_bit 40 (ucast b0) OR push_bit 32 (ucast b1) OR push_bit 24 (ucast b2) OR push_bit 16 (ucast b3) OR push_bit 8 (ucast b4) OR ucast b5, s)))))))"

definition readUint48Le :: "in_stream \<Rightarrow> (u64 \<times> in_stream) res" where
  "readUint48Le s = rbind (readByte s) (\<lambda>(b0, s). rbind (readByte s) (\<lambda>(b1, s). rbind (readByte s) (\<lambda>(b2, s). rbind (readByte s) (\<lambda>(b3, s). rbind (readByte s) (\<lambda>(b4, s). rbind (readByte s) (\<lambda>(b5, s). Inr (ucast b0 OR push_bit 8 (ucast b1) OR push_bit 16 (ucast b2) OR push_bit 24 (ucast b3) OR push_bit 32 (ucast b4) OR push_bit 40 (ucast b5), s)))))))"

definition readUint64Be :: "in_stream \<Rightarrow> (u64 \<times> in_stream) res" where
  "readUint64Be s = rbind (readByte s) (\<lambda>(b0, s). rbind (readByte s) (\<lambda>(b1, s). rbind (readByte s) (\<lambda>(b2, s). rbind (readByte s) (\<lambda>(b3, s). rbind (readByte s) (\<lambda>(b4, s). rbind (readByte s) (\<lambda>(b5, s). rbind (readByte s) (\<lambda>(b6, s). rbind (readByte s) (\<lambda>(b7, s). Inr (push_bit 56 (ucast b0) OR push_bit 48 (ucast b1) OR push_bit 40 (ucast b2) OR push_bit 32 (ucast b3) OR push_bit 24 (ucast b4) OR push_bit 16 (ucast b5) OR push_bit 8 (ucast b6) OR ucast b7, s)))))))))"

definition readUint64Le :: "in_stream \<Rightarrow> (u64 \<times> in_stream) res" where
  "readUint64Le s = rbind (readByte s) (\<lambda>(b0, s). rbind (readByte s) (\<lambda>(b1, s). rbind (readByte s) (\<lambda>(b2, s). rbind (readByte s) (\<lambda>(b3, s). rbind (readByte s) (\<lambda>(b4, s). rbind (readByte s) (\<lambda>(b5, s). rbind (readByte s) (\<lambda>(b6, s). rbind (readByte s) (\<lambda>(b7, s). Inr (ucast b0 OR push_bit 8 (ucast b1) OR push_bit 16 (ucast b2) OR push_bit 24 (ucast b3) OR push_bit 32 (ucast b4) OR push_bit 40 (ucast b5) OR push_bit 48 (ucast b6) OR push_bit 56 (ucast b7), s)))))))))"

fun mac_bytes :: "nat list \<Rightarrow> u64 \<Rightarrow> in_stream \<Rightarrow> (u64 \<times> in_stream) res" where
  "mac_bytes [] a s = Inr (a, s)"
| "mac_bytes (i # is) a s = rbind (readByte s) (\<lambda>(b, s). mac_bytes is (setAddressByte a i b) s)"

definition readMacAddress :: "in_stream \<Rightarrow> (u64 \<times> in_stream) res" where
  "readMacAddress s = mac_bytes [0..<6] 0 s"

definition readIpv4Address :: "in_stream \<Rightarrow> (u32 \<times> in_stream) res" where
  "readIpv4Address s = readUint32Be s"

definition readIpv6Address :: "in_stream \<Rightarrow> (u32 list \<times> in_stream) res" where
  "readIpv6Address s = rbind (readUint32Be s) (\<lambda>(d0, s). rbind (readUint32Be s) (\<lambda>(d1, s). rbind (readUint32Be s) (\<lambda>(d2, s).
     rbind (readUint32Be s) (\<lambda>(d3, s). Inr ([d0, d1, d2, d3], s)))))"

text \<open>\<open>readString\<close> reads to the next zero byte; the end of the stream reads as zero.\<close>

lemma readByte_advances: "readByte s = Inr (b, s') \<Longrightarrow> b \<noteq> 0 \<Longrightarrow> in_length s' - position s' < in_length s - position s"
  by (auto simp: readByte_def rbind_eq_Inr Let_def split: if_splits)

function readString :: "in_stream \<Rightarrow> (u8 list \<times> in_stream) res" where
  "readString s = rbind (readByte s) (\<lambda>(b, s). if b = 0 then Inr ([], s) else rbind (readString s) (\<lambda>(cs, s). Inr (b # cs, s)))"
  by pat_completeness auto
termination
  by (relation "measure (\<lambda>s. in_length s - position s)") (auto dest: readByte_advances)

declare readString.simps [simp del]

fun nbits_read :: "nat \<Rightarrow> u64 \<Rightarrow> u64 \<Rightarrow> in_stream \<Rightarrow> (u64 \<times> in_stream) res" where
  "nbits_read 0 mul num s = Inr (num, s)"
| "nbits_read (Suc n) mul num s =
     rbind (readBit s) (\<lambda>(b, s). nbits_read n (drop_bit 1 mul) (if b then num OR mul else num) s)"

definition readNBitsToUint64Be :: "nat \<Rightarrow> in_stream \<Rightarrow> (u64 \<times> in_stream) res" where
  "readNBitsToUint64Be n s = rbind (nbits_mask n) (\<lambda>mul. nbits_read n mul 0 s)"

subsection \<open>The bits of a stream\<close>

definition bit_at :: "u8 list \<Rightarrow> nat \<Rightarrow> bool" where
  "bit_at d i = bit (d ! (i div 8)) (7 - i mod 8)"

definition byte_bits :: "u8 \<Rightarrow> bool list" where
  "byte_bits v = map (\<lambda>j. bit v (7 - j)) [0..<8]"

lemma byte_bits_nth: "j < 8 \<Longrightarrow> byte_bits v ! j = bit v (7 - j)"
  by (simp add: byte_bits_def nth_map nth_upt del: upt_Suc upt_rec_numeral)

lemma u8_bit: "8 \<le> n \<Longrightarrow> \<not> bit (w :: u8) n"
  by (auto dest: bit_imp_le_length)

lemma low_bits: "k < 4 \<Longrightarrow> bit (15 :: u8) k"
proof -
  have "15 = (mask 4 :: u8)" by (simp add: mask_eq_exp_minus_1)
  then show "k < 4 \<Longrightarrow> bit (15 :: u8) k" by (simp only: bit_mask_iff) simp
qed

lemma high_bits: "4 \<le> k \<Longrightarrow> k < 8 \<Longrightarrow> bit (240 :: u8) k"
proof -
  have "240 = push_bit 4 (15 :: u8)" by simp
  moreover assume "4 \<le> k" "k < 8"
  ultimately show "bit (240 :: u8) k" using low_bits[of "k - 4"] by (simp only: bit_push_bit_iff) auto
qed

lemma bit_at_8: "t < 8 \<Longrightarrow> bit_at d (8 * q + t) = bit (d ! q) (7 - t)"
  by (simp add: bit_at_def)

definition out_bits :: "out_stream \<Rightarrow> bool list" where
  "out_bits s = map (bit_at (out_data s)) [0..<out_length s]"

text \<open>As many bytes as the bits need, and zeros after the last bit.\<close>

definition out_ok :: "out_stream \<Rightarrow> bool" where
  "out_ok s \<longleftrightarrow> length (out_data s) = (out_length s + 7) div 8 \<and>
     (\<forall>i. out_length s \<le> i \<and> i < 8 * length (out_data s) \<longrightarrow> \<not> bit_at (out_data s) i)"

definition in_ok :: "in_stream \<Rightarrow> bool" where
  "in_ok s \<longleftrightarrow> position s \<le> in_length s \<and> in_length s \<le> 8 * length (in_data s)"

definition in_rest :: "in_stream \<Rightarrow> bool list" where
  "in_rest s = map (bit_at (in_data s)) [position s..<in_length s]"

lemma length_byte_bits [simp]: "length (byte_bits v) = 8"
  by (simp add: byte_bits_def)

lemma bit_at_old: "i < 8 * length d \<Longrightarrow> bit_at (d @ e) i = bit_at d i"
  by (simp add: bit_at_def nth_append less_mult_imp_div_less mult.commute)

lemma split8: "\<exists>q r. (n::nat) = 8 * q + r \<and> r < 8"
  by (intro exI[of _ "n div 8"] exI[of _ "n mod 8"]) simp

lemma bits_grow:
  assumes "\<And>i. i < n \<Longrightarrow> bit_at d' i = bit_at d i" and "\<And>j. j < length bs \<Longrightarrow> bit_at d' (n + j) = bs ! j"
  shows "map (bit_at d') [0..<n + length bs] = map (bit_at d) [0..<n] @ bs"
proof (rule nth_equalityI)
  fix i
  assume "i < length (map (bit_at d') [0..<n + length bs])"
  with assms(1)[of i] assms(2)[of "i - n"] show "map (bit_at d') [0..<n + length bs] ! i = (map (bit_at d) [0..<n] @ bs) ! i"
    by (cases "i < n") (simp_all add: nth_append)
qed simp

lemma bytes_needed: "r < 8 \<Longrightarrow> (8 * q + r + 7) div 8 = (if r = 0 then q else q + 1)" for q r :: nat
  by auto

lemma writeBit_bits:
  assumes "out_ok s"
  shows "out_ok (writeBit b s)" and "out_bits (writeBit b s) = out_bits s @ [b]"
proof -
  obtain q r where n: "out_length s = 8 * q + r" "r < 8" using split8 by blast
  let ?d = "if r = 0 then out_data s @ [0] else out_data s"
  let ?d' = "out_data (writeBit b s)"
  have len: "length ?d = q + 1" and qd: "8 * q + r < 8 * length ?d"
    using assms n by (auto simp: out_ok_def bytes_needed)
  have zero: "\<not> bit_at ?d i" if "8 * q + r \<le> i" "i < 8 * length ?d" for i
  proof (cases "r = 0")
    case True
    with that n assms have "i div 8 = q" "length (out_data s) = q" by (auto simp: out_ok_def)
    with True show ?thesis by (simp add: bit_at_def nth_append)
  next
    case False
    with that assms n show ?thesis by (auto simp: out_ok_def)
  qed
  have d': "?d' = (if b then ?d[q := ?d ! q OR push_bit (7 - r) 1] else ?d)" "out_length (writeBit b s) = 8 * q + r + 1"
    using n by (auto simp: writeBit_def Let_def)
  have at: "bit_at ?d' i = (bit_at ?d i \<or> (b \<and> i = 8 * q + r))" if "i < 8 * length ?d" for i
  proof (cases "i div 8 = q")
    case True
    then have "i = 8 * q + i mod 8" "i mod 8 < 8" by auto
    then obtain t where t: "i = 8 * q + t" "t < 8" by blast
    have "7 - t = 7 - r \<longleftrightarrow> t = r" using t(2) n(2) by arith
    then show ?thesis using t n(2) len unfolding d' by (auto simp: bit_at_def bit_simps nth_list_update)
  next
    case False
    with n(2) show ?thesis unfolding d' by (auto simp: bit_at_def nth_list_update)
  qed
  have old: "bit_at ?d i = bit_at (out_data s) i" if "i < 8 * q + r" for i
    using that n assms by (auto simp: out_ok_def bit_at_old)
  have l': "length ?d' = q + 1" using len unfolding d' by auto
  show "out_bits (writeBit b s) = out_bits s @ [b]"
    using bits_grow[of "8 * q + r" ?d' "out_data s" "[b]"] at old zero qd
    by (simp add: out_bits_def d'(2) n(1))
  show "out_ok (writeBit b s)"
    unfolding out_ok_def l' d'(2) using at zero n(2) len by auto
qed

text \<open>The parts of a byte go to the right places only at a multiple of four bits.\<close>

lemma writeByte_at:
  fixes v :: u8
  assumes "out_ok s" and "out_length s = 8 * q + r" and "0 < r" and "r < 8"
  defines "x \<equiv> out_data s ! q OR drop_bit (8 - r) (v AND push_bit (8 - r) 0xFF)" and "y \<equiv> push_bit r (v AND drop_bit r 0xFF)"
  shows "length (out_data (writeByte v s)) = q + 2"
    and "i < 8 * q \<Longrightarrow> bit_at (out_data (writeByte v s)) i = bit_at (out_data s) i"
    and "t < 8 \<Longrightarrow> bit_at (out_data (writeByte v s)) (8 * q + t) = bit x (7 - t)"
    and "t < 8 \<Longrightarrow> bit_at (out_data (writeByte v s)) (8 * (q + 1) + t) = bit y (7 - t)"
proof -
  have len: "length (out_data s) = q + 1" using assms(1-4) by (simp add: out_ok_def bytes_needed)
  then have "last (out_data s) = out_data s ! q" by (subst last_conv_nth) auto
  then have d': "out_data (writeByte v s) = (out_data s)[q := x] @ [y]"
    using assms(2-4) len by (simp add: writeByte_def x_def y_def Let_def)
  have pos: "t < 8 \<Longrightarrow> (8 * a + t) div 8 = a" "t < 8 \<Longrightarrow> (8 * a + t) mod 8 = t" for a t :: nat by simp_all
  show "length (out_data (writeByte v s)) = q + 2" by (simp add: d' len)
  show "i < 8 * q \<Longrightarrow> bit_at (out_data (writeByte v s)) i = bit_at (out_data s) i"
    using len by (simp add: d' bit_at_def nth_append less_mult_imp_div_less mult.commute)
  assume t: "t < 8"
  show "bit_at (out_data (writeByte v s)) (8 * q + t) = bit x (7 - t)"
    "bit_at (out_data (writeByte v s)) (8 * (q + 1) + t) = bit y (7 - t)"
    using len unfolding bit_at_def d' pos[OF t] by (simp_all add: nth_append)
qed

lemma writeByte_length [simp]: "out_length (writeByte v s) = out_length s + 8"
  by (simp add: writeByte_def Let_def)

lemma writeByte_bits:
  assumes "out_ok s" and "4 dvd out_length s"
  shows "out_ok (writeByte v s)" and "out_bits (writeByte v s) = out_bits s @ byte_bits v"
proof -
  obtain q r where n: "out_length s = 8 * q + r" "r < 8" using split8 by blast
  let ?d = "out_data s" and ?d' = "out_data (writeByte v s)"
  have r: "r = 0 \<or> r = 4" using assms(2) n by presburger
  have zero: "\<not> bit_at ?d i" if "8 * q + r \<le> i" "i < 8 * length ?d" for i using that n assms by (simp add: out_ok_def)
  have "length ?d' = (8 * q + r + 15) div 8 \<and>
     (\<forall>i. i < 8 * q + r \<longrightarrow> bit_at ?d' i = bit_at ?d i) \<and> (\<forall>j<8. bit_at ?d' (8 * q + r + j) = bit v (7 - j)) \<and>
     (\<forall>i. 8 * q + r + 8 \<le> i \<and> i < 8 * length ?d' \<longrightarrow> \<not> bit_at ?d' i)"
  proof (cases "r = 0")
    case True
    then have d': "?d' = ?d @ [v]" and len: "length ?d = q" using n assms(1) by (simp_all add: writeByte_def out_ok_def)
    with True show ?thesis by (auto simp: bit_at_old) (simp_all add: bit_at_def nth_append)
  next
    case False
    with r have r4: "r = 4" by simp
    note at = writeByte_at[OF assms(1) n(1)[unfolded r4], where v = v, simplified]
    have len: "length ?d = q + 1" using assms(1) n r4 by (simp add: out_ok_def)
    have half: "\<not> bit (?d ! q) k" if "k < 4" for k
    proof -
      have "k = 7 - (7 - k)" "4 \<le> 7 - k" "7 - k < 8" using that by auto
      then obtain t where "k = 7 - t" "4 \<le> t" "t < 8" by blast
      with zero[of "8 * q + t"] r4 len show ?thesis by (simp add: bit_at_def)
    qed
    have "bit_at ?d' i = bit_at ?d i" if "i < 8 * q + 4" for i
    proof (cases "i < 8 * q")
      case False
      then obtain t where t: "i = 8 * q + t" using le_Suc_ex not_less by blast
      with that show ?thesis using at(3)[of t] by (auto simp: bit_at_def bit_simps u8_bit)
    qed (use at in simp)
    moreover have "bit_at ?d' (8 * q + 4 + j) = bit v (7 - j)" if "j < 8" for j
    proof (cases "j < 4")
      case True
      with at(3)[of "4 + j"] half[of "3 - j"] low_bits[of "3 - j"] show ?thesis by (auto simp: bit_simps add.assoc)
    next
      case False
      then obtain k where k: "j = 4 + k" using le_Suc_ex not_less by blast
      with that at(4)[of k] high_bits[of "7 - k"] show ?thesis by (auto simp: bit_simps ac_simps)
    qed
    moreover have "\<not> bit_at ?d' i" if "8 * q + 12 \<le> i" "i < 8 * (q + 2)" for i
    proof -
      from that obtain t where "i = 8 * (q + 1) + (4 + t)" "t < 4" 
        by (intro that[of "i - (8 * q + 12)"]) auto
      with at(4)[of "4 + t"] show ?thesis by (simp add: bit_simps)
    qed
    ultimately show ?thesis using at(1) r4 by simp
  qed
  then show "out_ok (writeByte v s)" "out_bits (writeByte v s) = out_bits s @ byte_bits v"
    using bits_grow[of "8 * q + r" ?d' ?d "byte_bits v"]
    by (auto simp: out_ok_def out_bits_def n(1) byte_bits_def simp del: upt_Suc)
qed

text \<open>At any other position a byte with only its last bit set already goes wrong.\<close>

lemma writeByte_misplaced:
  assumes "out_ok s" and "\<not> 4 dvd out_length s"
  shows "out_bits (writeByte 1 s) \<noteq> out_bits s @ byte_bits 1"
proof
  obtain q r where n: "out_length s = 8 * q + r" "r < 8" using split8 by blast
  from assms(2) n have r: "0 < r" "r \<noteq> 4" by presburger+
  assume "out_bits (writeByte 1 s) = out_bits s @ byte_bits 1"
  then have "out_bits (writeByte 1 s) ! (8 * q + r + 7) = (out_bits s @ byte_bits 1) ! (8 * q + r + 7)" by simp
  then have "bit_at (out_data (writeByte 1 s)) (8 * q + r + 7)"
    using n by (simp add: out_bits_def nth_append byte_bits_nth)
  moreover obtain t where t: "r = Suc t" using r(1) by (cases r) auto
  ultimately have "bit (push_bit r ((1 :: u8) AND drop_bit r 0xFF)) (7 - t)"
    using writeByte_at(4)[OF assms(1) n(1) r(1) n(2), of t 1] n(2) by (simp add: add.commute add.left_commute)
  then show False using t n(2) r(2) by (auto simp: bit_simps)
qed

subsection \<open>Reading bits back\<close>

lemma in_rest_Cons:
  assumes "in_ok s" and "in_rest s = b # bs"
  shows "position s < in_length s" and "bit_at (in_data s) (position s) = b" and "in_rest (s\<lparr>position := position s + 1\<rparr>) = bs"
proof -
  show l: "position s < in_length s" using assms(2) by (cases "position s < in_length s") (simp_all add: in_rest_def)
  then show "bit_at (in_data s) (position s) = b" "in_rest (s\<lparr>position := position s + 1\<rparr>) = bs"
    using assms(2) by (auto simp: in_rest_def upt_conv_Cons)
qed

lemma readBit_bits:
  assumes "in_ok s" and "in_rest s = b # bs"
  shows "\<exists>s'. readBit s = Inr (b, s') \<and> in_ok s' \<and> in_rest s' = bs \<and> isReadBeyondEnd s' = isReadBeyondEnd s"
proof -
  note r = in_rest_Cons[OF assms]
  have i: "position s div 8 < length (in_data s)" using assms(1) r(1) by (simp add: in_ok_def less_mult_imp_div_less mult.commute)
  have "(in_data s ! (position s div 8) AND push_bit (7 - position s mod 8) 1 \<noteq> 0) = b"
    using r(2) unfolding bit_at_def bit_iff_and_push_bit_not_eq_0 .
  with r i assms(1) show ?thesis by (simp add: readBit_def data_at_def in_ok_def in_rest_def)
qed

lemma byte_bits_inj: "byte_bits v = byte_bits w \<Longrightarrow> v = w"
proof (rule bit_word_eqI)
  fix n
  assume "byte_bits v = byte_bits w" and "n < LENGTH(8)"
  then have "byte_bits v ! (7 - n) = byte_bits w ! (7 - n)" "n < 8" by simp_all
  then show "bit v n = bit w n" by (simp add: byte_bits_nth)
qed

lemma readByte_bits:
  assumes "in_ok s" and "in_rest s = byte_bits v @ bs"
  shows "\<exists>s'. readByte s = Inr (v, s') \<and> in_ok s' \<and> in_rest s' = bs \<and> isReadBeyondEnd s' = isReadBeyondEnd s"
proof -
  let ?d = "in_data s" and ?p = "position s"
  have "length (in_rest s) = 8 + length bs" using assms(2) by simp
  then have l: "?p + 8 \<le> in_length s" by (simp add: in_rest_def)
  have split: "[?p..<in_length s] = [?p..<?p + 8] @ [?p + 8..<in_length s]" using l upt_add_eq_append[of ?p "?p + 8" "in_length s - (?p + 8)"] by simp
  have v: "map (bit_at ?d) [?p..<?p + 8] = byte_bits v" and rest: "in_rest (s\<lparr>position := ?p + 8\<rparr>) = bs"
    using assms(2) by (auto simp: in_rest_def split append_eq_append_conv)
  obtain q r where p: "?p = 8 * q + r" "r < 8" using split8 by blast
  have q: "q < length ?d" "r \<noteq> 0 \<Longrightarrow> q + 1 < length ?d" using l p assms(1) by (auto simp: in_ok_def)
  have bits: "bit_at ?d (?p + j) = bit v (7 - j)" if "j < 8" for j
  proof -
    have "map (bit_at ?d) [?p..<?p + 8] ! j = byte_bits v ! j" by (simp only: v)
    with that show ?thesis by (simp add: byte_bits_nth)
  qed
  have "(if r = 0 then ?d ! q else push_bit r (?d ! q) OR drop_bit (8 - r) (?d ! (q + 1))) = v" (is "?w = v")
  proof (rule byte_bits_inj, rule nth_equalityI)
    fix j
    assume "j < length (byte_bits ?w)"
    then have j: "j < 8" by simp
    show "byte_bits ?w ! j = byte_bits v ! j"
    proof (cases "j + r < 8")
      case True
      with bits[OF j] p have "bit v (7 - j) = bit (?d ! q) (7 - (r + j))" by (simp add: bit_at_def add.assoc)
      with j True show ?thesis by (auto simp: byte_bits_nth bit_simps add.commute u8_bit)
    next
      case False
      then have "8 - r \<le> j" by simp
      then obtain t where t: "j = 8 - r + t" using le_Suc_ex by blast
      with p j have "?p + j = 8 * (q + 1) + t" "t < 8" by auto
      with bits[OF j] bit_at_8[of t ?d "q + 1"] have "bit v (7 - j) = bit (?d ! (q + 1)) (7 - t)" by simp
      with j t p(2) show ?thesis by (auto simp: byte_bits_nth bit_simps u8_bit)
    qed
  qed simp
  moreover have "(8 * q + r - r) div 8 = q" "r \<noteq> 0 \<Longrightarrow> (8 * q + r + (8 - r)) div 8 = q + 1" using p(2) by simp_all
  ultimately have "readByte s = Inr (v, s\<lparr>position := ?p + 8\<rparr>)"
    using l q p by (auto simp: readByte_def data_at_def Let_def)
  with rest l assms(1) show ?thesis by (simp add: in_ok_def)
qed

subsection \<open>Composing writers and readers\<close>

text \<open>
  \<open>writes u f bs\<close>: at every multiple of \<open>u\<close> bits \<open>f\<close> appends the bits \<open>bs\<close>.  \<open>reads g bs x\<close>: where the bits
  \<open>bs\<close> come next, \<open>g\<close> takes them and returns \<open>x\<close>.
\<close>

definition writes :: "nat \<Rightarrow> (out_stream \<Rightarrow> out_stream) \<Rightarrow> bool list \<Rightarrow> bool" where
  "writes u f bs \<longleftrightarrow> (\<forall>s. out_ok s \<and> u dvd out_length s \<longrightarrow> out_ok (f s) \<and> out_bits (f s) = out_bits s @ bs)"

definition reads :: "(in_stream \<Rightarrow> ('a \<times> in_stream) res) \<Rightarrow> bool list \<Rightarrow> 'a \<Rightarrow> bool" where
  "reads g bs x \<longleftrightarrow> (\<forall>s rest. in_ok s \<and> in_rest s = bs @ rest \<longrightarrow>
     (\<exists>s'. g s = Inr (x, s') \<and> in_ok s' \<and> in_rest s' = rest \<and> isReadBeyondEnd s' = isReadBeyondEnd s))"

lemma length_out_bits [simp]: "length (out_bits s) = out_length s"
  by (simp add: out_bits_def)

lemma writes_seq:
  assumes "writes u f bs" and "writes u g cs" and "u dvd length bs"
  shows "writes u (\<lambda>s. g (f s)) (bs @ cs)"
  unfolding writes_def
proof (intro allI impI)
  fix s
  assume s: "out_ok s \<and> u dvd out_length s"
  with assms(1) have f: "out_ok (f s)" "out_bits (f s) = out_bits s @ bs" by (auto simp: writes_def)
  from f(2) have "length (out_bits (f s)) = length (out_bits s @ bs)" by (rule arg_cong)
  then have "out_length (f s) = out_length s + length bs" by simp
  with s assms(3) have "u dvd out_length (f s)" by simp
  with f assms(2) show "out_ok (g (f s)) \<and> out_bits (g (f s)) = out_bits s @ bs @ cs" by (auto simp: writes_def)
qed

lemma writes_id: "writes u (\<lambda>s. s) []"
  by (simp add: writes_def)

lemma reads_return: "reads (\<lambda>s. Inr (x, s)) [] x"
  by (simp add: reads_def)

lemma reads_bind:
  assumes "reads g bs x" and "reads (h x) cs y"
  shows "reads (\<lambda>s. rbind (g s) (\<lambda>(x, s). h x s)) (bs @ cs) y"
  unfolding reads_def
proof (intro allI impI)
  fix s rest
  assume "in_ok s \<and> in_rest s = (bs @ cs) @ rest"
  then have "in_ok s \<and> in_rest s = bs @ (cs @ rest)" by simp
  with assms(1) obtain s1 where s1: "g s = Inr (x, s1)" "in_ok s1 \<and> in_rest s1 = cs @ rest" "isReadBeyondEnd s1 = isReadBeyondEnd s"
    unfolding reads_def by blast
  with assms(2) show "\<exists>s'. rbind (g s) (\<lambda>(x, s). h x s) = Inr (y, s') \<and> in_ok s' \<and> in_rest s' = rest \<and> isReadBeyondEnd s' = isReadBeyondEnd s"
    unfolding reads_def by fastforce
qed

lemma reads_map:
  assumes "reads g bs x" and "f x = y"
  shows "reads (\<lambda>s. rbind (g s) (\<lambda>(x, s). Inr (f x, s))) bs y"
  using reads_bind[OF assms(1), of "\<lambda>x s. Inr (f x, s)" "[]" y] reads_return[of y] unfolding assms(2)[symmetric] by simp

lemma writes_bit: "writes 1 (writeBit b) [b]"
  by (simp add: writes_def writeBit_bits)

lemma reads_bit: "reads readBit [b] b"
  by (simp add: reads_def readBit_bits)

lemma writes_byte: "writes 4 (writeByte v) (byte_bits v)"
  by (simp add: writes_def writeByte_bits)

lemma reads_byte: "reads readByte (byte_bits v) v"
  by (simp add: reads_def readByte_bits)

text \<open>
  A field as a pair of a writer and a reader with a common encoding.  What is written into an empty
  stream is read back by a new stream over its bytes, with nothing left over.
\<close>

definition reopen :: "out_stream \<Rightarrow> in_stream res" where
  "reopen s = MemoryInputStream (out_data s) (out_length s) 0"

lemma reopen_written:
  assumes "writes u f bs"
  shows "out_length (f MemoryOutputStream) = length bs \<and>
    (\<exists>s. reopen (f MemoryOutputStream) = Inr s \<and> in_ok s \<and> in_rest s = bs \<and> \<not> isReadBeyondEnd s)"
proof -
  let ?o = "f MemoryOutputStream"
  let ?s = "\<lparr>in_data = out_data ?o, in_length = out_length ?o, position = 0, isReadBeyondEnd = False\<rparr>"
  have "out_ok MemoryOutputStream" "u dvd out_length MemoryOutputStream" "out_bits MemoryOutputStream = []"
    by (simp_all add: MemoryOutputStream_def out_ok_def out_bits_def)
  with assms have o: "out_ok ?o" "out_bits ?o = bs" by (auto simp: writes_def)
  have "out_length ?o \<le> 8 * length (out_data ?o)" using o(1) unfolding out_ok_def by linarith
  then have "in_ok ?s" by (simp add: in_ok_def)
  moreover have "in_rest ?s = bs" using o(2) by (simp add: in_rest_def out_bits_def)
  moreover have "out_length ?o = length bs" using arg_cong[OF o(2), of length] by simp
  ultimately show ?thesis by (auto simp: reopen_def MemoryInputStream_def)
qed

lemma rest_empty: "in_ok s \<Longrightarrow> in_rest s = [] \<Longrightarrow> getRemainingLength s = 0"
  by (auto simp: getRemainingLength_def in_rest_def)

lemma rest_length: "length (in_rest s) = getRemainingLength s"
  by (simp add: getRemainingLength_def in_rest_def)

locale codec =
  fixes unit :: nat and valid :: "'a \<Rightarrow> bool" and put :: "'a \<Rightarrow> out_stream \<Rightarrow> out_stream"
    and get :: "in_stream \<Rightarrow> ('a \<times> in_stream) res" and enc :: "'a \<Rightarrow> bool list"
  assumes write_enc: "valid x \<Longrightarrow> writes unit (put x) (enc x)"
    and read_enc: "valid x \<Longrightarrow> reads get (enc x) x"
begin

lemma round_trip:
  assumes "valid x"
  shows "\<exists>s s'. reopen (put x MemoryOutputStream) = Inr s \<and> get s = Inr (x, s') \<and> getRemainingLength s' = 0 \<and> \<not> isReadBeyondEnd s'"
proof -
  from reopen_written[OF write_enc[OF assms]] obtain s where
    s: "reopen (put x MemoryOutputStream) = Inr s" "in_ok s" "in_rest s = enc x @ []" "\<not> isReadBeyondEnd s" by auto
  with read_enc[OF assms] obtain s' where s': "get s = Inr (x, s')" "in_ok s'" "in_rest s' = []" "\<not> isReadBeyondEnd s'"
    unfolding reads_def by blast
  with s rest_empty show ?thesis by blast
qed

lemma size_written: "valid x \<Longrightarrow> out_length (put x MemoryOutputStream) = length (enc x)"
  using reopen_written[OF write_enc] by blast

text \<open>With other data written behind it: the reader stops where the value ends.\<close>

lemma round_trip_followed:
  assumes "valid x" and "writes unit f bs" and "unit dvd length (enc x)"
  shows "\<exists>s s'. reopen (f (put x MemoryOutputStream)) = Inr s \<and> get s = Inr (x, s') \<and> in_ok s' \<and> in_rest s' = bs \<and>
    \<not> isReadBeyondEnd s'"
proof -
  have "writes unit (\<lambda>s. f (put x s)) (enc x @ bs)" by (rule writes_seq[OF write_enc[OF assms(1)] assms(2,3)])
  from reopen_written[OF this] obtain s where
    s: "reopen (f (put x MemoryOutputStream)) = Inr s" "in_ok s" "in_rest s = enc x @ bs" "\<not> isReadBeyondEnd s" by auto
  with read_enc[OF assms(1)] show ?thesis unfolding reads_def by blast
qed

end

text \<open>One field after another.\<close>

lemma codec_pair:
  assumes "codec u P w r e" and "codec u Q w' r' e'" and "\<And>x. P x \<Longrightarrow> u dvd length (e x)"
  shows "codec u (\<lambda>(x, y). P x \<and> Q y) (\<lambda>(x, y) s. w' y (w x s))
    (\<lambda>s. rbind (r s) (\<lambda>(x, s). rbind (r' s) (\<lambda>(y, s). Inr ((x, y), s)))) (\<lambda>(x, y). e x @ e' y)"
proof (unfold_locales, goal_cases)
  case (1 z)
  obtain x y where z: "z = (x, y)" by (cases z)
  have "writes u (\<lambda>s. w' y (w x s)) (e x @ e' y)"
    by (rule writes_seq) (use 1 assms in \<open>auto simp: codec_def z\<close>)
  then show ?case by (simp add: z)
next
  case (2 z)
  obtain x y where z: "z = (x, y)" by (cases z)
  have "reads (\<lambda>s. rbind (r' s) (\<lambda>(y, s). Inr ((x, y), s))) (e' y) (x, y)"
    using 2 assms(2) unfolding z by (auto simp: codec_def intro!: reads_map)
  then have "reads (\<lambda>s. rbind (r s) (\<lambda>(x, s). rbind (r' s) (\<lambda>(y, s). Inr ((x, y), s)))) (e x @ e' y) (x, y)"
    by (intro reads_bind) (use 2 assms(1) in \<open>auto simp: codec_def z\<close>)
  then show ?case by (simp add: z)
qed

subsection \<open>Integers as bytes\<close>

definition bytes_bits :: "u8 list \<Rightarrow> bool list" where
  "bytes_bits vs = concat (map byte_bits vs)"

lemma bytes_bits_simps [simp]: "bytes_bits [] = []" "bytes_bits (v # vs) = byte_bits v @ bytes_bits vs"
  by (simp_all add: bytes_bits_def)

lemma length_bytes_bits [simp]: "length (bytes_bits vs) = 8 * length vs"
  by (induction vs) simp_all

lemma writes_bytes: "writes 4 (fold writeByte vs) (bytes_bits vs)"
proof (induction vs)
  case (Cons v vs)
  have "writes 4 (\<lambda>s. fold writeByte vs (writeByte v s)) (byte_bits v @ bytes_bits vs)"
    by (rule writes_seq[OF writes_byte Cons.IH]) simp
  then show ?case by (simp add: comp_def)
qed (simp add: writes_id id_def)

text \<open>On a byte boundary \<open>writeBytes\<close> appends its bytes one after another; the bytes that are next in a stream are taken
  one by one.\<close>

lemma writeBytes_fold: "8 dvd out_length s \<Longrightarrow> writeBytes vs s = Inr (fold writeByte vs s)"
proof (induction vs arbitrary: s)
  case (Cons v vs)
  have w: "writeByte v s = s\<lparr>out_data := out_data s @ [v], out_length := out_length s + 8\<rparr>"
    using Cons.prems by (auto simp: writeByte_def)
  have "writeBytes vs (writeByte v s) = Inr (fold writeByte vs (writeByte v s))" by (rule Cons.IH) (use Cons.prems in \<open>simp add: w\<close>)
  moreover have "writeBytes vs (writeByte v s) = writeBytes (v # vs) s" using Cons.prems by (simp add: writeBytes_def w)
  ultimately show ?case by simp
qed (simp add: writeBytes_def mod_eq_0_iff_dvd)

fun take_bytes :: "nat \<Rightarrow> in_stream \<Rightarrow> (u8 list \<times> in_stream) res" where
  "take_bytes 0 s = Inr ([], s)"
| "take_bytes (Suc n) s = rbind (readByte s) (\<lambda>(b, s). rbind (take_bytes n s) (\<lambda>(bs, s). Inr (b # bs, s)))"

lemma reads_take_bytes: "reads (take_bytes (length vs)) (bytes_bits vs) vs"
proof (induction vs)
  case (Cons v vs)
  have "reads (\<lambda>s. rbind (readByte s) (\<lambda>(b, s). rbind (take_bytes (length vs) s) (\<lambda>(bs, s). Inr (b # bs, s)))) (byte_bits v @ bytes_bits vs) (v # vs)"
    by (intro reads_bind[OF reads_byte] reads_map[OF Cons.IH] refl)
  then show ?case by simp
qed (simp add: reads_return)

lemma reads_done: "y = x \<Longrightarrow> reads (\<lambda>s. Inr (y, s)) [] x"
  by (simp add: reads_return)

lemmas reads_bytes = reads_bind[OF reads_byte]

text \<open>The bytes of a number, put together again.\<close>

lemma byte_piece:
  fixes v :: "'a::len word"
  shows "bit (push_bit k (ucast (ucast (drop_bit k v) :: u8)) :: 'a word) n \<longleftrightarrow> k \<le> n \<and> n < k + 8 \<and> bit v n"
    and "bit (ucast (ucast v :: u8) :: 'a word) n \<longleftrightarrow> n < 8 \<and> bit v n"
  by (auto simp: bit_simps dest: bit_imp_le_length)

lemma no_high_bit:
  fixes v :: "'a::len word"
  assumes "drop_bit k v = 0" and "bit v n"
  shows "n < k"
proof (rule ccontr)
  assume "\<not> n < k"
  then have "k + (n - k) = n" by simp
  with assms(2) have "bit (drop_bit k v) (n - k)" by (simp add: bit_drop_bit_eq)
  with assms(1) show False by simp
qed

lemmas joined_bits = bit_or_iff byte_piece

lemma in_byte: "n < 8 * Suc m \<Longrightarrow> (8 * m \<le> n \<and> n < 8 * m + 8) \<or> n < 8 * m"
  by auto

lemmas byte_ranges = in_byte[of _ 7, simplified] in_byte[of _ 6, simplified] in_byte[of _ 5, simplified] in_byte[of _ 4, simplified]
  in_byte[of _ 3, simplified] in_byte[of _ 2, simplified] in_byte[of _ 1, simplified]

lemma joinI:
  fixes v w :: "'a::len word"
  assumes "\<And>n. n < LENGTH('a) \<Longrightarrow> bit v n \<Longrightarrow> bit w n" and "\<And>n. bit w n \<Longrightarrow> bit v n"
  shows "w = v"
  using assms by (intro bit_word_eqI) blast

lemma joined16be: "push_bit 8 (ucast (ucast (drop_bit 8 v) :: u8)) OR ucast (ucast v :: u8) = (v :: u16)"
  by (rule joinI, simp add: joined_bits, blast dest: byte_ranges, simp only: joined_bits, blast)

lemma joined16le: "ucast (ucast v :: u8) OR push_bit 8 (ucast (ucast (drop_bit 8 v) :: u8)) = (v :: u16)"
  by (rule joinI, simp add: joined_bits, blast dest: byte_ranges, simp only: joined_bits, blast)

lemma joined24be: "drop_bit 24 v = 0 \<Longrightarrow> push_bit 16 (ucast (ucast (drop_bit 16 v) :: u8)) OR push_bit 8 (ucast (ucast (drop_bit 8 v) :: u8)) OR ucast (ucast v :: u8) = (v :: u32)"
  by (rule joinI, drule (1) no_high_bit, simp add: joined_bits, blast dest: byte_ranges, simp only: joined_bits, blast)

lemma joined24le: "drop_bit 24 v = 0 \<Longrightarrow> ucast (ucast v :: u8) OR push_bit 8 (ucast (ucast (drop_bit 8 v) :: u8)) OR push_bit 16 (ucast (ucast (drop_bit 16 v) :: u8)) = (v :: u32)"
  by (rule joinI, drule (1) no_high_bit, simp add: joined_bits, blast dest: byte_ranges, simp only: joined_bits, blast)

lemma joined32be: "push_bit 24 (ucast (ucast (drop_bit 24 v) :: u8)) OR push_bit 16 (ucast (ucast (drop_bit 16 v) :: u8)) OR push_bit 8 (ucast (ucast (drop_bit 8 v) :: u8)) OR ucast (ucast v :: u8) = (v :: u32)"
  by (rule joinI, simp add: joined_bits, blast dest: byte_ranges, simp only: joined_bits, blast)

lemma joined32le: "ucast (ucast v :: u8) OR push_bit 8 (ucast (ucast (drop_bit 8 v) :: u8)) OR push_bit 16 (ucast (ucast (drop_bit 16 v) :: u8)) OR push_bit 24 (ucast (ucast (drop_bit 24 v) :: u8)) = (v :: u32)"
  by (rule joinI, simp add: joined_bits, blast dest: byte_ranges, simp only: joined_bits, blast)

lemma joined48be: "drop_bit 48 v = 0 \<Longrightarrow> push_bit 40 (ucast (ucast (drop_bit 40 v) :: u8)) OR push_bit 32 (ucast (ucast (drop_bit 32 v) :: u8)) OR push_bit 24 (ucast (ucast (drop_bit 24 v) :: u8)) OR push_bit 16 (ucast (ucast (drop_bit 16 v) :: u8)) OR push_bit 8 (ucast (ucast (drop_bit 8 v) :: u8)) OR ucast (ucast v :: u8) = (v :: u64)"
  by (rule joinI, drule (1) no_high_bit, simp add: joined_bits, blast dest: byte_ranges, simp only: joined_bits, blast)

lemma joined48le: "drop_bit 48 v = 0 \<Longrightarrow> ucast (ucast v :: u8) OR push_bit 8 (ucast (ucast (drop_bit 8 v) :: u8)) OR push_bit 16 (ucast (ucast (drop_bit 16 v) :: u8)) OR push_bit 24 (ucast (ucast (drop_bit 24 v) :: u8)) OR push_bit 32 (ucast (ucast (drop_bit 32 v) :: u8)) OR push_bit 40 (ucast (ucast (drop_bit 40 v) :: u8)) = (v :: u64)"
  by (rule joinI, drule (1) no_high_bit, simp add: joined_bits, blast dest: byte_ranges, simp only: joined_bits, blast)

lemma joined64be: "push_bit 56 (ucast (ucast (drop_bit 56 v) :: u8)) OR push_bit 48 (ucast (ucast (drop_bit 48 v) :: u8)) OR push_bit 40 (ucast (ucast (drop_bit 40 v) :: u8)) OR push_bit 32 (ucast (ucast (drop_bit 32 v) :: u8)) OR push_bit 24 (ucast (ucast (drop_bit 24 v) :: u8)) OR push_bit 16 (ucast (ucast (drop_bit 16 v) :: u8)) OR push_bit 8 (ucast (ucast (drop_bit 8 v) :: u8)) OR ucast (ucast v :: u8) = (v :: u64)"
  by (rule joinI, simp add: joined_bits, blast dest: byte_ranges, simp only: joined_bits, blast)

lemma joined64le: "ucast (ucast v :: u8) OR push_bit 8 (ucast (ucast (drop_bit 8 v) :: u8)) OR push_bit 16 (ucast (ucast (drop_bit 16 v) :: u8)) OR push_bit 24 (ucast (ucast (drop_bit 24 v) :: u8)) OR push_bit 32 (ucast (ucast (drop_bit 32 v) :: u8)) OR push_bit 40 (ucast (ucast (drop_bit 40 v) :: u8)) OR push_bit 48 (ucast (ucast (drop_bit 48 v) :: u8)) OR push_bit 56 (ucast (ucast (drop_bit 56 v) :: u8)) = (v :: u64)"
  by (rule joinI, simp add: joined_bits, blast dest: byte_ranges, simp only: joined_bits, blast)


text \<open>Every field of the streams is a codec.\<close>

lemma codec_bytes:
  assumes "\<And>v. P v \<Longrightarrow> f v = fold writeByte (e v)" and "\<And>v. P v \<Longrightarrow> reads g (bytes_bits (e v)) v"
  shows "codec 4 P f g (\<lambda>v. bytes_bits (e v))"
  using assms writes_bytes by unfold_locales auto

interpretation uint16Be: codec 4 "\<lambda>_. True" writeUint16Be readUint16Be "\<lambda>v :: u16. bytes_bits [ucast (drop_bit 8 v), ucast v]"
  by (rule codec_bytes, simp add: writeUint16Be_def fun_eq_iff, simp only: readUint16Be_def[abs_def] bytes_bits_simps, (rule reads_bytes)+,
      rule reads_done, simp only: joined16be)

interpretation uint16Le: codec 4 "\<lambda>_. True" writeUint16Le readUint16Le "\<lambda>v :: u16. bytes_bits [ucast v, ucast (drop_bit 8 v)]"
  by (rule codec_bytes, simp add: writeUint16Le_def fun_eq_iff, simp only: readUint16Le_def[abs_def] bytes_bits_simps, (rule reads_bytes)+,
      rule reads_done, simp only: joined16le)

interpretation uint24Be: codec 4 "\<lambda>v. drop_bit 24 v = 0" writeUint24Be readUint24Be "\<lambda>v :: u32. bytes_bits [ucast (drop_bit 16 v), ucast (drop_bit 8 v), ucast v]"
  by (rule codec_bytes, simp add: writeUint24Be_def fun_eq_iff, simp only: readUint24Be_def[abs_def] bytes_bits_simps, (rule reads_bytes)+,
      rule reads_done, simp only: joined24be)

interpretation uint24Le: codec 4 "\<lambda>v. drop_bit 24 v = 0" writeUint24Le readUint24Le "\<lambda>v :: u32. bytes_bits [ucast v, ucast (drop_bit 8 v), ucast (drop_bit 16 v)]"
  by (rule codec_bytes, simp add: writeUint24Le_def fun_eq_iff, simp only: readUint24Le_def[abs_def] bytes_bits_simps, (rule reads_bytes)+,
      rule reads_done, simp only: joined24le)

interpretation uint32Be: codec 4 "\<lambda>_. True" writeUint32Be readUint32Be "\<lambda>v :: u32. bytes_bits [ucast (drop_bit 24 v), ucast (drop_bit 16 v), ucast (drop_bit 8 v), ucast v]"
  by (rule codec_bytes, simp add: writeUint32Be_def fun_eq_iff, simp only: readUint32Be_def[abs_def] bytes_bits_simps, (rule reads_bytes)+,
      rule reads_done, simp only: joined32be)

interpretation uint32Le: codec 4 "\<lambda>_. True" writeUint32Le readUint32Le "\<lambda>v :: u32. bytes_bits [ucast v, ucast (drop_bit 8 v), ucast (drop_bit 16 v), ucast (drop_bit 24 v)]"
  by (rule codec_bytes, simp add: writeUint32Le_def fun_eq_iff, simp only: readUint32Le_def[abs_def] bytes_bits_simps, (rule reads_bytes)+,
      rule reads_done, simp only: joined32le)

interpretation uint48Be: codec 4 "\<lambda>v. drop_bit 48 v = 0" writeUint48Be readUint48Be "\<lambda>v :: u64. bytes_bits [ucast (drop_bit 40 v), ucast (drop_bit 32 v), ucast (drop_bit 24 v), ucast (drop_bit 16 v), ucast (drop_bit 8 v), ucast v]"
  by (rule codec_bytes, simp add: writeUint48Be_def fun_eq_iff, simp only: readUint48Be_def[abs_def] bytes_bits_simps, (rule reads_bytes)+,
      rule reads_done, simp only: joined48be)

interpretation uint48Le: codec 4 "\<lambda>v. drop_bit 48 v = 0" writeUint48Le readUint48Le "\<lambda>v :: u64. bytes_bits [ucast v, ucast (drop_bit 8 v), ucast (drop_bit 16 v), ucast (drop_bit 24 v), ucast (drop_bit 32 v), ucast (drop_bit 40 v)]"
  by (rule codec_bytes, simp add: writeUint48Le_def fun_eq_iff, simp only: readUint48Le_def[abs_def] bytes_bits_simps, (rule reads_bytes)+,
      rule reads_done, simp only: joined48le)

interpretation uint64Be: codec 4 "\<lambda>_. True" writeUint64Be readUint64Be "\<lambda>v :: u64. bytes_bits [ucast (drop_bit 56 v), ucast (drop_bit 48 v), ucast (drop_bit 40 v), ucast (drop_bit 32 v), ucast (drop_bit 24 v), ucast (drop_bit 16 v), ucast (drop_bit 8 v), ucast v]"
  by (rule codec_bytes, simp add: writeUint64Be_def fun_eq_iff, simp only: readUint64Be_def[abs_def] bytes_bits_simps, (rule reads_bytes)+,
      rule reads_done, simp only: joined64be)

interpretation uint64Le: codec 4 "\<lambda>_. True" writeUint64Le readUint64Le "\<lambda>v :: u64. bytes_bits [ucast v, ucast (drop_bit 8 v), ucast (drop_bit 16 v), ucast (drop_bit 24 v), ucast (drop_bit 32 v), ucast (drop_bit 40 v), ucast (drop_bit 48 v), ucast (drop_bit 56 v)]"
  by (rule codec_bytes, simp add: writeUint64Le_def fun_eq_iff, simp only: readUint64Le_def[abs_def] bytes_bits_simps, (rule reads_bytes)+,
      rule reads_done, simp only: joined64le)


text \<open>The smaller fields, at any bit.\<close>

interpretation single_bit: codec 1 "\<lambda>_. True" writeBit readBit "\<lambda>b. [b]"
  by unfold_locales (rule writes_bit reads_bit)+

lemma writes_bits2: "writes 1 (\<lambda>s. writeBit c (writeBit b s)) [b, c]"
  using writes_seq[OF writes_bit writes_bit, of b c] by simp

lemma nibble_bits:
  fixes v :: u8
  assumes "drop_bit 4 v = 0"
  shows "(if bit v 3 then 8 else 0) OR (if bit v 2 then 4 else 0) OR (if bit v 1 then 2 else 0) OR (if bit v 0 then 1 else 0) = v"
    (is "?w = v")
proof (rule bit_word_eqI)
  fix n
  assume "n < LENGTH(8)"
  then have "n \<in> {0, 1, 2, 3} \<or> 4 \<le> n \<and> n \<in> {4, 5, 6, 7}" by auto
  then show "bit ?w n = bit v n"
  proof
    assume "n \<in> {0, 1, 2, 3}"
    then show ?thesis by (elim insertE emptyE) (simp_all add: bit_or_iff)
  next
    assume n: "4 \<le> n \<and> n \<in> {4, 5, 6, 7}"
    then have "\<not> bit v n" using no_high_bit[OF assms, of n] by auto
    with n show ?thesis by (elim conjE insertE emptyE) (simp_all add: bit_or_iff)
  qed
qed

lemma reads_bit_Cons: "reads (h b) bs y \<Longrightarrow> reads (\<lambda>s. rbind (readBit s) (\<lambda>(x, s). h x s)) (b # bs) y"
  using reads_bind[OF reads_bit, of h b bs y] by simp

interpretation uint4: codec 1 "\<lambda>v. drop_bit 4 v = 0" writeUint4 readUint4 "\<lambda>v. [bit v 3, bit v 2, bit v 1, bit v 0]"
proof unfold_locales
  fix v :: u8
  show "writes 1 (writeUint4 v) [bit v 3, bit v 2, bit v 1, bit v 0]"
    using writes_seq[OF writes_bits2[where b = "bit v 3" and c = "bit v 2"] writes_bits2[where b = "bit v 1" and c = "bit v 0"]] by (simp add: writeUint4_def[abs_def])
  assume "drop_bit 4 v = 0"
  then show "reads readUint4 [bit v 3, bit v 2, bit v 1, bit v 0] v"
    unfolding readUint4_def[abs_def] by (intro reads_bit_Cons reads_done nibble_bits)
qed

interpretation uint2: codec 1 "\<lambda>v. drop_bit 2 v = 0" writeUint2 readUint2 "\<lambda>v. [bit v 1, bit v 0]"
proof unfold_locales
  fix v :: u8
  show "writes 1 (writeUint2 v) [bit v 1, bit v 0]" using writes_bits2[where b = "bit v 1" and c = "bit v 0"] by (simp add: writeUint2_def[abs_def])
  assume v: "drop_bit 2 v = 0"
  have "drop_bit 4 v = drop_bit 2 (drop_bit 2 v)" by (simp add: drop_bit_drop_bit)
  with v have "drop_bit 4 v = 0" by simp
  moreover have "\<not> bit v 2" "\<not> bit v 3" using no_high_bit[OF v, of 2] no_high_bit[OF v, of 3] by auto
  ultimately have "(if bit v 1 then 2 else 0) OR (if bit v 0 then 1 else 0) = v" using nibble_bits[of v] by simp
  then show "reads readUint2 [bit v 1, bit v 0] v"
    unfolding readUint2_def[abs_def] by (intro reads_bit_Cons reads_done)
qed

interpretation uint8: codec 4 "\<lambda>_. True" writeUint8 readUint8 byte_bits
  by unfold_locales (simp_all add: writeUint8_def[abs_def] readUint8_def[abs_def] writes_byte reads_byte)

text \<open>Addresses.\<close>

lemma mac_bytes_reads:
  assumes "\<And>i. i \<in> set is \<Longrightarrow> i < 6" and "distinct is"
  shows "reads (mac_bytes is a) (bytes_bits (map (getAddressByte v) is)) (fold (\<lambda>i a. setAddressByte a i (getAddressByte v i)) is a)"
  using assms
proof (induction "is" arbitrary: a)
  case (Cons i "is")
  then show ?case by (auto intro: reads_bytes)
qed (simp add: reads_def)

lemma set_get_bit:
  assumes "i < 6" and "n < 64"
  shows "bit (setAddressByte a i (getAddressByte v i)) n =
    (if (5 - i) * 8 \<le> n \<and> n < (5 - i) * 8 + 8 then bit v n else bit a n)"
proof -
  have m: "(0xFF :: u64) = mask 8" by (simp add: mask_eq_exp_minus_1)
  have s: "6 - i - 1 = 5 - i" by simp
  show ?thesis unfolding setAddressByte_def getAddressByte_def s m using assms by (auto simp: bit_simps)
qed

lemma mac_rebuilt:
  assumes "drop_bit 48 v = 0"
  shows "fold (\<lambda>i a. setAddressByte a i (getAddressByte v i)) [0..<6] 0 = v"
proof (rule bit_word_eqI)
  fix n
  assume "n < LENGTH(64)"
  then have n: "n < 64" by simp
  have e: "[0..<6] = [0, 1, 2, 3, 4, 5]" by (simp add: upt_conv_Cons)
  have "bit (fold (\<lambda>i a. setAddressByte a i (getAddressByte v i)) [0..<6] 0) n = (n < 48 \<and> bit v n)"
    unfolding e using n by (simp add: set_get_bit)
  then show "bit (fold (\<lambda>i a. setAddressByte a i (getAddressByte v i)) [0..<6] 0) n = bit v n"
    using no_high_bit[OF assms, of n] by blast
qed

interpretation mac_address: codec 4 "\<lambda>v. drop_bit 48 v = 0" writeMacAddress readMacAddress "\<lambda>v. bytes_bits (map (getAddressByte v) [0..<6])"
proof (rule codec_bytes)
  fix v :: u64
  show "writeMacAddress v = fold writeByte (map (getAddressByte v) [0..<6])"
    by (simp add: writeMacAddress_def fun_eq_iff fold_map comp_def)
  assume "drop_bit 48 v = 0"
  with mac_bytes_reads[of "[0..<6]" 0 v] mac_rebuilt[of v] show "reads readMacAddress (bytes_bits (map (getAddressByte v) [0..<6])) v"
    by (simp add: readMacAddress_def[abs_def] del: upt_rec_numeral)
qed

interpretation ipv4_address: codec 4 "\<lambda>_. True" writeIpv4Address readIpv4Address
    "\<lambda>v. bytes_bits [ucast (drop_bit 24 v), ucast (drop_bit 16 v), ucast (drop_bit 8 v), ucast v]"
  using uint32Be.codec_axioms by (simp add: writeIpv4Address_def[abs_def] readIpv4Address_def[abs_def])

subsection \<open>Bit fields and strings\<close>

text \<open>The \<open>n\<close> low bits of a number, most significant first.\<close>

fun low_field :: "u64 \<Rightarrow> nat \<Rightarrow> bool list" where
  "low_field v 0 = []"
| "low_field v (Suc n) = bit v n # low_field v n"

lemma length_low_field [simp]: "length (low_field v n) = n"
  by (induction n) simp_all

lemma nbits_mask_small: "0 < n \<Longrightarrow> n \<le> 31 \<Longrightarrow> nbits_mask n = Inr (push_bit (n - 1) 1)"
proof -
  assume n: "0 < n" "n \<le> 31"
  have "scast (push_bit (n - 1) 1 :: u32) = (push_bit (n - 1) 1 :: u64)"
    by (rule bit_word_eqI) (use n in \<open>auto simp: bit_simps\<close>)
  with n show ?thesis by (simp add: nbits_mask_def)
qed

lemma drop_single: "drop_bit 1 (push_bit (Suc n) 1 :: u64) = push_bit n 1" if "n < 63"
  by (rule bit_word_eqI) (use that in \<open>auto simp: bit_simps\<close>)

lemma nbits_writes: "n \<le> 63 \<Longrightarrow> writes 1 (nbits_write v n (push_bit (n - 1) 1)) (low_field v n)"
proof (induction n)
  case 0
  then show ?case by (simp add: writes_def)
next
  case (Suc n)
  have b: "(v AND push_bit n 1 \<noteq> 0) = bit v n" by (simp only: bit_iff_and_push_bit_not_eq_0)
  have d: "nbits_write v n (drop_bit 1 (push_bit n 1)) = nbits_write v n (push_bit (n - 1) 1)"
    using Suc.prems drop_single[of "n - 1"] by (cases n) (auto simp: fun_eq_iff)
  have "nbits_write v (Suc n) (push_bit (Suc n - 1) 1) = (\<lambda>s. nbits_write v n (push_bit (n - 1) 1) (writeBit (bit v n) s))"
    by (rule ext) (simp only: diff_Suc_1 nbits_write.simps b d)
  moreover have "writes 1 (\<lambda>s. nbits_write v n (push_bit (n - 1) 1) (writeBit (bit v n) s)) ([bit v n] @ low_field v n)"
    by (rule writes_seq[OF writes_bit Suc.IH]) (use Suc.prems in simp_all)
  ultimately show ?case by simp
qed

lemma take_bit_Suc_or: "(if bit v n then num OR push_bit n 1 else num) OR take_bit n v = num OR take_bit (Suc n) v" for v :: u64
  by (rule bit_word_eqI) (auto simp: bit_simps less_Suc_eq)

lemma nbits_reads: "n \<le> 63 \<Longrightarrow> reads (nbits_read n (push_bit (n - 1) 1) num) (low_field v n) (num OR take_bit n v)"
proof (induction n arbitrary: num)
  case 0
  then show ?case by (simp add: reads_def)
next
  case (Suc n)
  let ?num = "if bit v n then num OR push_bit n 1 else num"
  have d: "nbits_read n (drop_bit 1 (push_bit n 1)) = nbits_read n (push_bit (n - 1) 1)"
    using Suc.prems drop_single[of "n - 1"] by (cases n) (auto simp: fun_eq_iff)
  have "reads (\<lambda>s. rbind (readBit s) (\<lambda>(b, s). nbits_read n (push_bit (n - 1) 1) (if b then num OR push_bit n 1 else num) s))
      (bit v n # low_field v n) (?num OR take_bit n v)"
    by (rule reads_bit_Cons) (use Suc in simp)
  moreover have "nbits_read (Suc n) (push_bit (Suc n - 1) 1) num =
      (\<lambda>s. rbind (readBit s) (\<lambda>(b, s). nbits_read n (push_bit (n - 1) 1) (if b then num OR push_bit n 1 else num) s))"
    by (rule ext) (simp only: diff_Suc_1 nbits_read.simps d)
  ultimately show ?case unfolding take_bit_Suc_or by simp
qed

interpretation nbits: codec 1 "\<lambda>v. drop_bit n v = 0 \<and> n \<le> 63" "\<lambda>v. nbits_write v n (push_bit (n - 1) 1)"
    "nbits_read n (push_bit (n - 1) 1) 0" "\<lambda>v. low_field v n" for n
proof unfold_locales
  fix v :: u64
  assume v: "drop_bit n v = 0 \<and> n \<le> 63"
  have "0 OR take_bit n v = v" using no_high_bit[OF conjunct1[OF v]] by (intro bit_word_eqI) (auto simp: bit_simps)
  with nbits_reads[of n 0 v] v show "reads (nbits_read n (push_bit (n - 1) 1) 0) (low_field v n) v" by simp
qed (rule nbits_writes, rule conjunct2)

lemma readString_reads: "0 \<notin> set cs \<Longrightarrow> reads readString (bytes_bits (cs @ [0])) cs"
proof (induction cs)
  case Nil
  have "reads (\<lambda>s. rbind (readByte s) (\<lambda>(b, s). if b = 0 then Inr ([], s) else rbind (readString s) (\<lambda>(cs, s). Inr (b # cs, s)))) (byte_bits 0 @ []) []"
    by (rule reads_bytes) (simp add: reads_return)
  then show ?case by (simp add: readString.simps[abs_def])
next
  case (Cons c cs)
  have "reads (\<lambda>s. rbind (readByte s) (\<lambda>(b, s). if b = 0 then Inr ([], s) else rbind (readString s) (\<lambda>(cs, s). Inr (b # cs, s))))
      (byte_bits c @ bytes_bits (cs @ [0])) (c # cs)"
    by (rule reads_bytes) (use Cons in \<open>auto intro: reads_map\<close>)
  moreover have "readString = (\<lambda>s. rbind (readByte s) (\<lambda>(b, s). if b = 0 then Inr ([], s) else rbind (readString s) (\<lambda>(cs, s). Inr (b # cs, s))))"
    by (rule ext) (rule readString.simps)
  ultimately show ?case by simp
qed

subsection \<open>Properties\<close>

text \<open>C3: A byte written at a bit position is appended as its eight bits, most significant first, exactly when the position
  is a multiple of four: elsewhere the two shifts of \<open>writeByte\<close> are exchanged and put the parts of the byte in the
  wrong places.\<close>

theorem writeByte_appends_iff:
  assumes "out_ok s"
  shows "(\<forall>v. out_bits (writeByte v s) = out_bits s @ byte_bits v) \<longleftrightarrow> 4 dvd out_length s"
  using writeByte_bits[OF assms] writeByte_misplaced[OF assms] by blast

theorem writeByte_appends_iff_witness:
  "out_ok (writeBit True MemoryOutputStream) \<and>
   \<not> (\<forall>v. out_bits (writeByte v (writeBit True MemoryOutputStream)) = out_bits (writeBit True MemoryOutputStream) @ byte_bits v)"
proof -
  have ok: "out_ok (writeBit True MemoryOutputStream)"
    by (rule writeBit_bits(1)) (simp add: out_ok_def MemoryOutputStream_def)
  have "\<not> 4 dvd out_length (writeBit True MemoryOutputStream)" by (simp add: writeBit_def MemoryOutputStream_def Let_def)
  with ok writeByte_appends_iff[OF ok] show ?thesis by blast
qed

text \<open>A number of at most 31 bits written as a field of \<open>n\<close> bits is read back, and takes \<open>n\<close> bits.\<close>

theorem nbits_round_trip:
  assumes "0 < n" and "n \<le> 31" and "drop_bit n v = 0"
  shows "\<exists>out s s'. writeNBitsOfUint64Be v n MemoryOutputStream = Inr out \<and> out_length out = n \<and>
     reopen out = Inr s \<and> readNBitsToUint64Be n s = Inr (v, s') \<and> getRemainingLength s' = 0 \<and> \<not> isReadBeyondEnd s'"
proof -
  have v: "drop_bit n v = 0 \<and> n \<le> 63" using assms by simp
  from nbits.round_trip[OF v] nbits.size_written[OF v] show ?thesis
    by (simp add: writeNBitsOfUint64Be_def readNBitsToUint64Be_def nbits_mask_small[OF assms(1,2)])
qed

theorem nbits_round_trip_witness:
  "\<exists>out s s'. writeNBitsOfUint64Be 1000 10 MemoryOutputStream = Inr out \<and> out_length out = 10 \<and>
     reopen out = Inr s \<and> readNBitsToUint64Be 10 s = Inr (1000, s') \<and> getRemainingLength s' = 0 \<and> \<not> isReadBeyondEnd s'"
  by (rule nbits_round_trip) simp_all

text \<open>A field of 32 bits is written wrongly, since the mask \<open>1 << 31\<close> is negative and keeps its sign: every number with bit
  31 set comes out as 32 ones.\<close>

theorem nbits_32_wrong:
  assumes "bit v 31"
  shows "\<exists>out. writeNBitsOfUint64Be v 32 MemoryOutputStream = Inr out \<and> out_bits out = replicate 32 True"
proof -
  let ?mul = "scast (push_bit 31 1 :: u32) :: u64"
  have w: "(\<And>j. j < n \<Longrightarrow> bit mul (31 + j)) \<Longrightarrow> writes 1 (nbits_write v n mul) (replicate n True)" for n mul
  proof (induction n arbitrary: mul)
    case 0
    then show ?case by (simp add: writes_def)
  next
    case (Suc n)
    have "bit (v AND mul) 31" using assms Suc.prems[of 0] by (simp add: bit_and_iff)
    then have "v AND mul \<noteq> 0" by auto
    then have "nbits_write v (Suc n) mul = (\<lambda>s. nbits_write v n (drop_bit 1 mul) (writeBit True s))" by (simp add: fun_eq_iff)
    moreover have "writes 1 (\<lambda>s. nbits_write v n (drop_bit 1 mul) (writeBit True s)) ([True] @ replicate n True)"
      by (rule writes_seq[OF writes_bit Suc.IH]) (use Suc.prems[of "Suc j" for j] in \<open>simp_all add: bit_drop_bit_eq\<close>)
    ultimately show ?case by simp
  qed
  have "bit ?mul (31 + j)" if "j < 32" for j
  proof (cases j)
    case 0
    have "bit (push_bit 31 1 :: u32) 31" by simp
    then show ?thesis using 0 unfolding bit_word_scast_iff by simp
  next
    case (Suc k)
    have "bit (push_bit 31 1 :: u32) (LENGTH(32) - Suc 0)" by simp
    then show ?thesis unfolding bit_word_scast_iff using Suc that by (intro conjI disjI2) simp_all
  qed
  from w[OF this] have "out_bits (nbits_write v 32 ?mul MemoryOutputStream) = replicate 32 True"
    by (simp add: writes_def MemoryOutputStream_def out_ok_def out_bits_def)
  then show ?thesis by (simp add: writeNBitsOfUint64Be_def nbits_mask_def)
qed

theorem nbits_32_wrong_witness:
  "bit (0x80000000 :: u64) 31 \<and> (\<exists>out. writeNBitsOfUint64Be 0x80000000 32 MemoryOutputStream = Inr out \<and> out_bits out = replicate 32 True)"
proof -
  have b: "bit (0x80000000 :: u64) 31" by simp
  with nbits_32_wrong[OF b] show ?thesis by blast
qed

end
