(* ===== verification/Header_Serializers.thy ===== *)
theory Header_Serializers
  imports Memory_Streams Packets
begin

section \<open>Header serializers\<close>

text \<open>
  The serializers of the headers the modelled modules put on packets: \<open>BFCHeader\<close>, \<open>INTHeader\<close> and
  \<open>PSDINTHeader\<close> under \<open>HiNA/Messages\<close>, and of INET the Ethernet MAC header with padding and frame check
  sequence, the Ethernet control frame and the UDP header.  A field is converted to the width of
  the stream function it is passed to.  \<open>double\<close> values out of range of the integer they are
  converted to are the error \<open>FloatConversion\<close>.
\<close>

definition dbl_to_u8 :: "double \<Rightarrow> u8 res" where
  "dbl_to_u8 x = (if -1 < x \<and> x < 2 ^ 8 then Inr (word_of_int (trunc_real x)) else Inl FloatConversion)"

subsection \<open>Backpressure header\<close>

definition BFCHeader_serialize :: "bfc_header \<Rightarrow> out_stream \<Rightarrow> out_stream" where
  "BFCHeader_serialize h s = writeUint32Be (word_of_int (upstreamQueueID h)) (writeUint32Be (word_of_int (queueID h)) s)"

definition BFCHeader_deserialize :: "in_stream \<Rightarrow> (bfc_header \<times> in_stream) res" where
  "BFCHeader_deserialize s = rbind (readUint32Be s) (\<lambda>(q, s). rbind (readUint32Be s) (\<lambda>(u, s).
     Inr (\<lparr>upstreamQueueID = sint u, queueID = sint q\<rparr>, s)))"

subsection \<open>Telemetry headers\<close>

definition hopInf_serialize :: "hop_inf \<Rightarrow> out_stream \<Rightarrow> out_stream res" where
  "hopInf_serialize h s =
     rbind (dbl_to_u8 (hopTxRate h)) (\<lambda>rate. rbind (dbl_to_u32 (TS h)) (\<lambda>ts.
       Inr (writeUint16Be (word_of_int (hopQueueLength h)) (writeUint16Be (ucast (hopTxBytes h))
         (writeUint24Be ts (writeUint8 rate s))))))"

fun hops_serialize :: "hop_inf list \<Rightarrow> out_stream \<Rightarrow> out_stream res" where
  "hops_serialize [] s = Inr s"
| "hops_serialize (h # hs) s = rbind (hopInf_serialize h s) (hops_serialize hs)"

definition INTHeader_serialize :: "int_header \<Rightarrow> out_stream \<Rightarrow> out_stream res" where
  "INTHeader_serialize h s =
     hops_serialize (hopInfs h) (writeUint8 (word_of_int (pathID h)) (writeUint8 (word_of_int (nHop h)) s))"

definition hopInf_deserialize :: "in_stream \<Rightarrow> (hop_inf \<times> in_stream) res" where
  "hopInf_deserialize s = rbind (readUint8 s) (\<lambda>(rate, s). rbind (readUint24Be s) (\<lambda>(ts, s). rbind (readUint16Be s) (\<lambda>(bytes, s).
     rbind (readUint16Be s) (\<lambda>(len, s).
       Inr (\<lparr>TS = of_int (uint ts), hopQueueLength = uint len, hopTxBytes = ucast bytes, hopTxRate = of_int (uint rate)\<rparr>, s)))))"

text \<open>
  The loop over the remaining length counts 64 bits for a hop; a sixth hop is refused by \<open>setHopInfs\<close>.
  \<open>hops_deserialize len k hs\<close> is the loop with \<open>len\<close> bits to go and \<open>k\<close> hops set in the array \<open>hs\<close>.
\<close>

function hops_deserialize :: "nat \<Rightarrow> nat \<Rightarrow> hop_inf list \<Rightarrow> in_stream \<Rightarrow> (hop_inf list \<times> in_stream) res" where
  "hops_deserialize len k hs s =
     (if len = 0 then Inr (hs, s)
      else rbind (hopInf_deserialize s) (\<lambda>(h, s).
        if k < 5 then hops_deserialize (len - 64) (k + 1) (hs[k := h]) s
        else Inl (RuntimeError ''Array of size 5 indexed'')))"
  by pat_completeness auto
termination
  by (relation "measure (\<lambda>(len, k, hs, s). len)") auto

declare hops_deserialize.simps [simp del]

definition initial_hop :: hop_inf where
  "initial_hop = \<lparr>TS = 0, hopQueueLength = -1, hopTxBytes = 0, hopTxRate = 0\<rparr>"

definition INTHeader_deserialize :: "in_stream \<Rightarrow> (int_header \<times> in_stream) res" where
  "INTHeader_deserialize s = rbind (readUint8 s) (\<lambda>(n, s). rbind (readUint8 s) (\<lambda>(p, s).
     rbind (hops_deserialize (getRemainingLength s) 0 (replicate 5 initial_hop) s) (\<lambda>(hs, s).
       Inr (\<lparr>nHop = uint n, pathID = uint p, hopInfs = hs\<rparr>, s))))"

definition PSDINTHeader_serialize :: "psd_header \<Rightarrow> out_stream \<Rightarrow> out_stream res" where
  "PSDINTHeader_serialize h s = rbind (dbl_to_u8 (psdTS h)) (\<lambda>ts. rbind (dbl_to_u8 (psdMPD h)) (\<lambda>mpd.
     Inr (writeByte mpd (writeByte ts s))))"

definition PSDINTHeader_deserialize :: "in_stream \<Rightarrow> (psd_header \<times> in_stream) res" where
  "PSDINTHeader_deserialize s = rbind (readByte s) (\<lambda>(ts, s). rbind (readByte s) (\<lambda>(mpd, s).
     Inr (\<lparr>psdTS = of_int (uint ts), psdMPD = of_int (uint mpd)\<rparr>, s)))"

subsection \<open>Ethernet\<close>

record mac_header =
  mac_dest :: u64
  mac_src :: u64
  typeOrLength :: u16

definition EthernetMacHeader_serialize :: "mac_header \<Rightarrow> out_stream \<Rightarrow> out_stream" where
  "EthernetMacHeader_serialize h s = writeUint16Be (typeOrLength h) (writeMacAddress (mac_src h) (writeMacAddress (mac_dest h) s))"

definition EthernetMacHeader_deserialize :: "in_stream \<Rightarrow> (mac_header \<times> in_stream) res" where
  "EthernetMacHeader_deserialize s = rbind (readMacAddress s) (\<lambda>(d, s). rbind (readMacAddress s) (\<lambda>(a, s).
     rbind (readUint16Be s) (\<lambda>(t, s). Inr (\<lparr>mac_dest = d, mac_src = a, typeOrLength = t\<rparr>, s))))"

definition EthernetMacAddressFields_serialize :: "u64 \<times> u64 \<Rightarrow> out_stream \<Rightarrow> out_stream" where
  "EthernetMacAddressFields_serialize = (\<lambda>(dest, src) s. writeMacAddress src (writeMacAddress dest s))"

definition EthernetMacAddressFields_deserialize :: "in_stream \<Rightarrow> ((u64 \<times> u64) \<times> in_stream) res" where
  "EthernetMacAddressFields_deserialize s = rbind (readMacAddress s) (\<lambda>(d, s). rbind (readMacAddress s) (\<lambda>(a, s). Inr ((d, a), s)))"

definition EthernetTypeOrLengthField_serialize :: "u16 \<Rightarrow> out_stream \<Rightarrow> out_stream" where
  "EthernetTypeOrLengthField_serialize t s = writeUint16Be t s"

definition EthernetTypeOrLengthField_deserialize :: "in_stream \<Rightarrow> (u16 \<times> in_stream) res" where
  "EthernetTypeOrLengthField_deserialize s = readUint16Be s"

definition EthernetPadding_serialize :: "nat \<Rightarrow> out_stream \<Rightarrow> out_stream" where
  "EthernetPadding_serialize n s = writeByteRepeatedly 0 n s"

definition EthernetPadding_deserialize :: "in_stream \<Rightarrow> (nat \<times> in_stream) res" where
  "EthernetPadding_deserialize s = Inl (RuntimeError ''Invalid operation'')"

datatype fcs_mode = FCS_MODE_UNDEFINED | FCS_DISABLED | FCS_DECLARED_CORRECT | FCS_DECLARED_INCORRECT | FCS_COMPUTED

definition EthernetFcs_serialize :: "u32 \<times> fcs_mode \<Rightarrow> out_stream \<Rightarrow> out_stream res" where
  "EthernetFcs_serialize = (\<lambda>(fcs, mode) s.
     if mode \<noteq> FCS_COMPUTED then Inl (RuntimeError ''Cannot serialize Ethernet FCS without a properly computed FCS'')
     else Inr (writeUint32Be fcs s))"

definition EthernetFcs_deserialize :: "in_stream \<Rightarrow> ((u32 \<times> fcs_mode) \<times> in_stream) res" where
  "EthernetFcs_deserialize s = rbind (readUint32Be s) (\<lambda>(fcs, s). Inr ((fcs, FCS_COMPUTED), s))"

text \<open>A control frame is its operation code, with the time to pause for a PAUSE frame.\<close>

record control_frame =
  opCode :: int
  pauseTime :: "int option"

definition EthernetControlFrame_serialize :: "control_frame \<Rightarrow> out_stream \<Rightarrow> out_stream res" where
  "EthernetControlFrame_serialize f s =
     (let s1 = writeUint16Be (word_of_int (opCode f)) s in
      if opCode f = 1 then
        (case pauseTime f of None \<Rightarrow> Inl (RuntimeError ''assertion failed'') | Some t \<Rightarrow> Inr (writeUint16Be (word_of_int t) s1))
      else Inl (RuntimeError ''Cannot serialize''))"

definition EthernetControlFrame_deserialize :: "in_stream \<Rightarrow> (control_frame \<times> in_stream) res" where
  "EthernetControlFrame_deserialize s = rbind (readUint16Be s) (\<lambda>(c, s).
     if c = 1 then rbind (readUint16Be s) (\<lambda>(t, s). Inr (\<lparr>opCode = uint c, pauseTime = Some (uint t)\<rparr>, s))
     else Inr (\<lparr>opCode = uint c, pauseTime = None\<rparr>, s))"

subsection \<open>UDP\<close>

datatype crc_mode = CRC_MODE_UNDEFINED | CRC_DISABLED | CRC_DECLARED_CORRECT | CRC_DECLARED_INCORRECT | CRC_COMPUTED

record udp_header =
  sourcePort :: u16
  destinationPort :: u16
  totalLengthField :: int
  crc :: u16
  crcMode :: crc_mode

definition UdpHeader_serialize :: "udp_header \<Rightarrow> out_stream \<Rightarrow> out_stream res" where
  "UdpHeader_serialize h s =
     (let s1 = writeUint16Be (word_of_int (totalLengthField h)) (writeUint16Be (destinationPort h) (writeUint16Be (sourcePort h) s)) in
      if crcMode h \<noteq> CRC_DISABLED \<and> crcMode h \<noteq> CRC_COMPUTED then Inl (RuntimeError ''Cannot serialize UDP header'')
      else Inr (writeUint16Be (crc h) s1))"

definition UdpHeader_deserialize :: "in_stream \<Rightarrow> (udp_header \<times> in_stream) res" where
  "UdpHeader_deserialize s = rbind (readUint16Be s) (\<lambda>(sp, s). rbind (readUint16Be s) (\<lambda>(dp, s). rbind (readUint16Be s) (\<lambda>(len, s).
     rbind (readUint16Be s) (\<lambda>(c, s).
       Inr (\<lparr>sourcePort = sp, destinationPort = dp, totalLengthField = uint len, crc = c,
             crcMode = (if c = 0 then CRC_DISABLED else CRC_COMPUTED)\<rparr>, s)))))"

subsection \<open>Round trips\<close>

definition be16 :: "u16 \<Rightarrow> bool list" where
  "be16 v = bytes_bits [ucast (drop_bit 8 v), ucast v]"

definition be24 :: "u32 \<Rightarrow> bool list" where
  "be24 v = bytes_bits [ucast (drop_bit 16 v), ucast (drop_bit 8 v), ucast v]"

definition be32 :: "u32 \<Rightarrow> bool list" where
  "be32 v = bytes_bits [ucast (drop_bit 24 v), ucast (drop_bit 16 v), ucast (drop_bit 8 v), ucast v]"

definition mac48 :: "u64 \<Rightarrow> bool list" where
  "mac48 v = bytes_bits (map (getAddressByte v) [0..<6])"

lemma field_lengths [simp]: "length (be16 v) = 16" "length (be24 w) = 24" "length (be32 w) = 32" "length (mac48 a) = 48"
  by (simp_all add: be16_def be24_def be32_def mac48_def)

lemmas field_writes = uint8.write_enc[OF TrueI] uint16Be.write_enc[OF TrueI, folded be16_def] uint24Be.write_enc[folded be24_def]
  uint32Be.write_enc[OF TrueI, folded be32_def] mac_address.write_enc[folded mac48_def] writes_byte

lemmas field_reads = uint8.read_enc[OF TrueI] uint16Be.read_enc[OF TrueI, folded be16_def] uint24Be.read_enc[folded be24_def]
  uint32Be.read_enc[OF TrueI, folded be32_def] mac_address.read_enc[folded mac48_def] reads_byte

lemmas field_binds = field_reads[THEN reads_bind]

lemmas field_maps = field_reads[THEN reads_map]

lemma sint_word_of_int: "- (2 ^ 31) \<le> k \<Longrightarrow> k < 2 ^ 31 \<Longrightarrow> sint (word_of_int k :: u32) = k"
  unfolding sint_sbintrunc' by (intro signed_take_bit_int_eq_self) simp_all

interpretation bfc_header: codec 4 "\<lambda>h. {upstreamQueueID h, queueID h} \<subseteq> {- (2 ^ 31)..<2 ^ 31}" BFCHeader_serialize BFCHeader_deserialize
    "\<lambda>h. be32 (word_of_int (queueID h)) @ be32 (word_of_int (upstreamQueueID h))"
proof (unfold_locales, goal_cases)
  case (1 h)
  show ?case unfolding BFCHeader_serialize_def[abs_def] by (intro writes_seq field_writes) simp
next
  case (2 h)
  then have "\<lparr>upstreamQueueID = sint (word_of_int (upstreamQueueID h) :: u32), queueID = sint (word_of_int (queueID h) :: u32)\<rparr> = h"
    by (simp add: sint_word_of_int)
  note e = this
  show ?case unfolding BFCHeader_deserialize_def[abs_def] by (rule reads_bind[OF field_reads(4)], rule reads_map[OF field_reads(4)], rule e)
qed

interpretation mac_header: codec 4 "\<lambda>h. drop_bit 48 (mac_dest h) = 0 \<and> drop_bit 48 (mac_src h) = 0"
    EthernetMacHeader_serialize EthernetMacHeader_deserialize "\<lambda>h. (mac48 (mac_dest h) @ mac48 (mac_src h)) @ be16 (typeOrLength h)"
proof (unfold_locales, goal_cases)
  case (1 h)
  then show ?case unfolding EthernetMacHeader_serialize_def[abs_def] by (intro writes_seq field_writes) simp_all
next
  case (2 h)
  show ?case unfolding EthernetMacHeader_deserialize_def[abs_def] append_assoc
    by (rule field_binds, simp add: 2, rule field_binds, simp add: 2, rule field_maps, simp)
qed

interpretation ethernet_fcs: codec 4 "\<lambda>(f, m). m = FCS_COMPUTED" "\<lambda>(f, m). writeUint32Be f" EthernetFcs_deserialize "\<lambda>(f, m). be32 f"
proof (unfold_locales, goal_cases)
  case (1 h)
  then show ?case by (auto intro: field_writes)
next
  case (2 h)
  then obtain f where h: "h = (f, FCS_COMPUTED)" by (cases h) auto
  show ?case unfolding h EthernetFcs_deserialize_def[abs_def] prod.case by (rule field_maps) simp
qed

definition pause_ok :: "control_frame \<Rightarrow> bool" where
  "pause_ok f \<longleftrightarrow> opCode f = 1 \<and> (\<exists>t. pauseTime f = Some t \<and> 0 \<le> t \<and> t < 2 ^ 16)"

interpretation pause_frame: codec 4 pause_ok "\<lambda>f s. writeUint16Be (word_of_int (the (pauseTime f))) (writeUint16Be 1 s)"
    EthernetControlFrame_deserialize "\<lambda>f. be16 1 @ be16 (word_of_int (the (pauseTime f)))"
proof (unfold_locales, goal_cases)
  case (1 f)
  show ?case by (intro writes_seq field_writes) simp
next
  case (2 f)
  then obtain t where f: "f = \<lparr>opCode = 1, pauseTime = Some t\<rparr>" "0 \<le> t" "t < 2 ^ 16" by (cases f) (auto simp: pause_ok_def)
  have "\<lparr>opCode = uint (1 :: u16), pauseTime = Some (uint (word_of_int t :: u16))\<rparr> = f"
    using f by (simp add: uint_word_of_int_eq take_bit_int_eq_self)
  then show ?case unfolding EthernetControlFrame_deserialize_def[abs_def] f(1)
    by (intro reads_bind[OF field_reads(2)]) (simp, rule field_maps, simp)
qed

definition udp_ok :: "udp_header \<Rightarrow> bool" where
  "udp_ok h \<longleftrightarrow> 0 \<le> totalLengthField h \<and> totalLengthField h < 2 ^ 16 \<and> crcMode h = (if crc h = 0 then CRC_DISABLED else CRC_COMPUTED)"

interpretation udp_header: codec 4 udp_ok
    "\<lambda>h s. writeUint16Be (crc h) (writeUint16Be (word_of_int (totalLengthField h)) (writeUint16Be (destinationPort h) (writeUint16Be (sourcePort h) s)))"
    UdpHeader_deserialize
    "\<lambda>h. ((be16 (sourcePort h) @ be16 (destinationPort h)) @ be16 (word_of_int (totalLengthField h))) @ be16 (crc h)"
proof (unfold_locales, goal_cases)
  case (1 h)
  show ?case by (intro writes_seq field_writes) simp_all
next
  case (2 h)
  then have "\<lparr>sourcePort = sourcePort h, destinationPort = destinationPort h, totalLengthField = uint (word_of_int (totalLengthField h) :: u16),
      crc = crc h, crcMode = (if crc h = 0 then CRC_DISABLED else CRC_COMPUTED)\<rparr> = h"
    by (simp add: udp_ok_def uint_word_of_int_eq take_bit_int_eq_self)
  note e = this
  show ?case unfolding UdpHeader_deserialize_def[abs_def] append_assoc
    by (rule reads_bind[OF field_reads(2)], rule reads_bind[OF field_reads(2)], rule reads_bind[OF field_reads(2)],
        rule reads_map[OF field_reads(2)], rule e)
qed

text \<open>A hop of the telemetry header, with whole numbers in the range of its fields.\<close>

definition hop_ok :: "hop_inf \<Rightarrow> bool" where
  "hop_ok h \<longleftrightarrow> 0 \<le> hopTxRate h \<and> hopTxRate h < 2 ^ 8 \<and> hopTxRate h = of_int \<lfloor>hopTxRate h\<rfloor> \<and>
     0 \<le> TS h \<and> TS h < 2 ^ 24 \<and> TS h = of_int \<lfloor>TS h\<rfloor> \<and> drop_bit 16 (hopTxBytes h) = 0 \<and>
     0 \<le> hopQueueLength h \<and> hopQueueLength h < 2 ^ 16"

definition hop_put :: "hop_inf \<Rightarrow> out_stream \<Rightarrow> out_stream" where
  "hop_put h s = writeUint16Be (word_of_int (hopQueueLength h)) (writeUint16Be (ucast (hopTxBytes h))
     (writeUint24Be (word_of_int \<lfloor>TS h\<rfloor>) (writeUint8 (word_of_int \<lfloor>hopTxRate h\<rfloor>) s)))"

definition hop_bits :: "hop_inf \<Rightarrow> bool list" where
  "hop_bits h = byte_bits (word_of_int \<lfloor>hopTxRate h\<rfloor>) @ be24 (word_of_int \<lfloor>TS h\<rfloor>) @
     be16 (ucast (hopTxBytes h)) @ be16 (word_of_int (hopQueueLength h))"

lemma length_hop_bits [simp]: "length (hop_bits h) = 64"
  by (simp add: hop_bits_def)

lemma small_24: "0 \<le> k \<Longrightarrow> k < 2 ^ 24 \<Longrightarrow> drop_bit 24 (word_of_int k :: u32) = 0"
proof (rule bit_word_eqI)
  fix n
  assume k: "0 \<le> k" "k < 2 ^ 24"
  have "k < 2 ^ (24 + n)" using k(2) by (rule less_le_trans) (simp add: power_add)
  with k(1) have "\<not> bit k (24 + n)" by (simp add: bit_iff_odd div_pos_pos_trivial)
  then show "bit (drop_bit 24 (word_of_int k :: u32)) n = bit 0 n" by (simp add: bit_drop_bit_eq bit_word_of_int_iff)
qed

interpretation hop: codec 4 hop_ok hop_put hopInf_deserialize hop_bits
proof (unfold_locales, goal_cases)
  case (1 h)
  then have t: "drop_bit 24 (word_of_int \<lfloor>TS h\<rfloor> :: u32) = 0" by (intro small_24) (auto simp: hop_ok_def floor_less_iff)
  have "writes 4 (hop_put h) (((byte_bits (word_of_int \<lfloor>hopTxRate h\<rfloor>) @ be24 (word_of_int \<lfloor>TS h\<rfloor>)) @
     be16 (ucast (hopTxBytes h))) @ be16 (word_of_int (hopQueueLength h)))"
    unfolding hop_put_def[abs_def] by (intro writes_seq field_writes t) simp_all
  then show ?case by (simp add: hop_bits_def)
next
  case (2 h)
  then have t: "drop_bit 24 (word_of_int \<lfloor>TS h\<rfloor> :: u32) = 0" by (intro small_24) (auto simp: hop_ok_def floor_less_iff)
  have "uint (word_of_int \<lfloor>TS h\<rfloor> :: u32) = \<lfloor>TS h\<rfloor>" "uint (word_of_int \<lfloor>hopTxRate h\<rfloor> :: u8) = \<lfloor>hopTxRate h\<rfloor>"
    "uint (word_of_int (hopQueueLength h) :: u16) = hopQueueLength h"
    using 2 by (auto simp: hop_ok_def uint_word_of_int_eq take_bit_int_eq_self floor_less_iff)
  moreover have "ucast (ucast (hopTxBytes h) :: u16) = hopTxBytes h"
    using no_high_bit[of 16 "hopTxBytes h"] 2 by (intro bit_word_eqI) (auto simp: bit_simps hop_ok_def)
  ultimately have e: "\<lparr>TS = of_int (uint (word_of_int \<lfloor>TS h\<rfloor> :: u32)), hopQueueLength = uint (word_of_int (hopQueueLength h) :: u16),
      hopTxBytes = ucast (ucast (hopTxBytes h) :: u16), hopTxRate = of_int (uint (word_of_int \<lfloor>hopTxRate h\<rfloor> :: u8))\<rparr> = h"
    using 2 by (simp add: hop_ok_def)
  show ?case unfolding hopInf_deserialize_def[abs_def] hop_bits_def
    by (rule reads_bind[OF field_reads(1)], rule reads_bind[OF field_reads(3)[OF t]], rule reads_bind[OF field_reads(2)],
        rule reads_map[OF field_reads(2)], rule e)
qed

lemma hop_serialize: "hop_ok h \<Longrightarrow> hopInf_serialize h s = Inr (hop_put h s)"
  by (auto simp: hop_ok_def hopInf_serialize_def hop_put_def dbl_to_u8_def dbl_to_u32_def trunc_real_nonneg)

lemma hops_serialize_put: "\<forall>h\<in>set hs. hop_ok h \<Longrightarrow> hops_serialize hs s = Inr (fold hop_put hs s)"
  by (induction hs arbitrary: s) (simp_all add: hop_serialize)

lemma hops_writes: "\<forall>h\<in>set hs. hop_ok h \<Longrightarrow> writes 4 (fold hop_put hs) (concat (map hop_bits hs))"
proof (induction hs)
  case (Cons h hs)
  have "writes 4 (\<lambda>s. fold hop_put hs (hop_put h s)) (hop_bits h @ concat (map hop_bits hs))"
    by (rule writes_seq[OF hop.write_enc Cons.IH]) (use Cons.prems in simp_all)
  then show ?case by (simp add: comp_def)
qed (simp add: writes_id id_def)

lemma hops_reads:
  "\<forall>h\<in>set xs. hop_ok h \<Longrightarrow> k + length xs \<le> 5 \<Longrightarrow> length hs = 5 \<Longrightarrow>
     reads (hops_deserialize (64 * length xs) k hs) (concat (map hop_bits xs)) (take k hs @ xs @ drop (k + length xs) hs)"
proof (induction xs arbitrary: k hs)
  case Nil
  have "hops_deserialize 0 k hs = (\<lambda>s. Inr (hs, s))" by (rule ext) (simp add: hops_deserialize.simps)
  then show ?case by (simp add: reads_return)
next
  case (Cons x xs)
  have k: "k < 5" using Cons.prems(2) by simp
  have u: "hops_deserialize (64 * length (x # xs)) k hs =
      (\<lambda>s. rbind (hopInf_deserialize s) (\<lambda>(h, s). hops_deserialize (64 * length xs) (k + 1) (hs[k := h]) s))"
    by (rule ext, subst hops_deserialize.simps) (simp add: k)
  have "reads (hops_deserialize (64 * length xs) (k + 1) (hs[k := x])) (concat (map hop_bits xs))
      (take (k + 1) (hs[k := x]) @ xs @ drop (k + 1 + length xs) (hs[k := x]))"
    by (rule Cons.IH) (use Cons.prems in auto)
  moreover have "take (k + 1) (hs[k := x]) = take k hs @ [x]" using k Cons.prems(3) by (simp add: take_Suc_conv_app_nth)
  ultimately have "reads (hops_deserialize (64 * length xs) (k + 1) (hs[k := x])) (concat (map hop_bits xs))
      (take k hs @ (x # xs) @ drop (k + length (x # xs)) hs)" by simp
  then show ?case unfolding u list.map concat.simps
    by (intro reads_bind[OF hop.read_enc]) (use Cons.prems(1) in auto)
qed

definition int_ok :: "int_header \<Rightarrow> bool" where
  "int_ok h \<longleftrightarrow> 0 \<le> nHop h \<and> nHop h < 2 ^ 8 \<and> 0 \<le> pathID h \<and> pathID h < 2 ^ 8 \<and> length (hopInfs h) = 5 \<and> (\<forall>i\<in>set (hopInfs h). hop_ok i)"

lemma hops_length: "length (concat (map hop_bits hs)) = 64 * length hs"
  by (induction hs) simp_all

text \<open>C2: The telemetry header is 42 bytes long, as its declared length, and is read back as it was written if its values are
  whole numbers in the range of their fields.\<close>

theorem int_header_round_trip:
  assumes "int_ok h"
  shows "\<exists>out s s'. INTHeader_serialize h MemoryOutputStream = Inr out \<and> out_length out = 8 * 42 \<and> reopen out = Inr s \<and>
     INTHeader_deserialize s = Inr (h, s') \<and> getRemainingLength s' = 0 \<and> \<not> isReadBeyondEnd s'"
proof -
  let ?n = "word_of_int (nHop h) :: u8" and ?p = "word_of_int (pathID h) :: u8" and ?hs = "hopInfs h"
  let ?f = "\<lambda>s. fold hop_put ?hs (writeUint8 ?p (writeUint8 ?n s))"
  let ?b = "concat (map hop_bits ?hs)"
  have hs: "\<forall>i\<in>set ?hs. hop_ok i" "length ?hs = 5" using assms by (auto simp: int_ok_def)
  have "writes 4 ?f ((byte_bits ?n @ byte_bits ?p) @ ?b)"
    by (intro writes_seq hops_writes hs field_writes(1)) simp_all
  from reopen_written[OF this] obtain s where s: "out_length (?f MemoryOutputStream) = 8 * 42" "reopen (?f MemoryOutputStream) = Inr s"
    "in_ok s" "in_rest s = byte_bits ?n @ (byte_bits ?p @ ?b)" "\<not> isReadBeyondEnd s" by (auto simp: hops_length hs)
  from field_reads(1)[of ?n] s(3,4) obtain s1 where s1: "readUint8 s = Inr (?n, s1)" "in_ok s1" "in_rest s1 = byte_bits ?p @ ?b"
    "isReadBeyondEnd s1 = isReadBeyondEnd s" unfolding reads_def by blast
  from field_reads(1)[of ?p] s1(2,3) obtain s2 where s2: "readUint8 s1 = Inr (?p, s2)" "in_ok s2" "in_rest s2 = ?b @ []"
    "isReadBeyondEnd s2 = isReadBeyondEnd s1" unfolding reads_def by auto
  have l: "getRemainingLength s2 = 64 * length ?hs" using s2(3) by (simp add: rest_length[symmetric] hops_length)
  have "reads (hops_deserialize (64 * length ?hs) 0 (replicate 5 initial_hop)) ?b ?hs"
    using hops_reads[OF hs(1), of 0 "replicate 5 initial_hop"] hs(2) by simp
  with s2 l obtain s3 where s3: "hops_deserialize (getRemainingLength s2) 0 (replicate 5 initial_hop) s2 = Inr (?hs, s3)"
    "in_ok s3" "in_rest s3 = []" "isReadBeyondEnd s3 = isReadBeyondEnd s2" unfolding reads_def by metis
  have "uint ?n = nHop h" "uint ?p = pathID h" using assms by (auto simp: int_ok_def uint_word_of_int_eq take_bit_int_eq_self)
  with s1(1) s2(1) s3(1) have "INTHeader_deserialize s = Inr (h, s3)" by (simp add: INTHeader_deserialize_def)
  moreover have "INTHeader_serialize h MemoryOutputStream = Inr (?f MemoryOutputStream)"
    by (simp add: INTHeader_serialize_def hops_serialize_put hs)
  ultimately show ?thesis using s s1(4) s2(4) s3 rest_empty[of s3] by auto
qed

theorem int_header_round_trip_witness:
  "\<exists>h out s s'. nHop h = 1 \<and> INTHeader_serialize h MemoryOutputStream = Inr out \<and> out_length out = 8 * 42 \<and> reopen out = Inr s \<and>
     INTHeader_deserialize s = Inr (h, s') \<and> getRemainingLength s' = 0 \<and> \<not> isReadBeyondEnd s'"
proof -
  let ?i = "\<lparr>TS = 3, hopQueueLength = 1500, hopTxBytes = 700, hopTxRate = 100\<rparr>"
  let ?h = "\<lparr>nHop = 1, pathID = 7, hopInfs = replicate 5 ?i\<rparr>"
  have "int_ok ?h" by (simp add: int_ok_def hop_ok_def)
  from int_header_round_trip[OF this] show ?thesis by (intro exI[of _ ?h]) simp
qed

text \<open>Reading a byte never fails in a stream that is no longer than its vector.\<close>

definition total_read :: "(in_stream \<Rightarrow> ('a \<times> in_stream) res) \<Rightarrow> bool" where
  "total_read g \<longleftrightarrow> (\<forall>s. in_ok s \<longrightarrow> (\<exists>x s'. g s = Inr (x, s') \<and> in_ok s'))"

lemma total_bind:
  assumes "total_read g" and "\<And>x. total_read (h x)"
  shows "total_read (\<lambda>s. rbind (g s) (\<lambda>(x, s). h x s))"
  unfolding total_read_def
proof (intro allI impI)
  fix s
  assume "in_ok s"
  with assms(1) obtain x s1 where "g s = Inr (x, s1)" "in_ok s1" unfolding total_read_def by blast
  with assms(2)[of x] show "\<exists>y s'. rbind (g s) (\<lambda>(x, s). h x s) = Inr (y, s') \<and> in_ok s'" unfolding total_read_def by auto
qed

lemma total_return: "total_read (\<lambda>s. Inr (x, s))"
  by (simp add: total_read_def)

lemma readByte_total: "total_read readByte"
  by (auto simp: total_read_def readByte_def in_ok_def data_at_def Let_def)

lemma hop_total: "total_read hopInf_deserialize"
  unfolding hopInf_deserialize_def[abs_def] readUint8_def[abs_def] readUint16Be_def[abs_def] readUint24Be_def[abs_def]
  by (intro total_bind readByte_total total_return)

lemma hops_skip:
  "\<forall>h\<in>set xs. hop_ok h \<Longrightarrow> k + length xs \<le> 5 \<Longrightarrow> in_ok s \<Longrightarrow> in_rest s = concat (map hop_bits xs) @ r \<Longrightarrow>
     \<exists>hs' s'. hops_deserialize (64 * length xs + m) k hs s = hops_deserialize m (k + length xs) hs' s' \<and> in_ok s' \<and> in_rest s' = r"
proof (induction xs arbitrary: k hs s)
  case Nil
  then show ?case by auto
next
  case (Cons x xs)
  from Cons.prems hop.read_enc[of x] obtain s1 where s1: "hopInf_deserialize s = Inr (x, s1)" "in_ok s1"
    "in_rest s1 = concat (map hop_bits xs) @ r" unfolding reads_def by fastforce
  from Cons.IH[OF _ _ s1(2,3), of "k + 1" "hs[k := x]"] Cons.prems(1,2) obtain hs' s' where
    "hops_deserialize (64 * length xs + m) (k + 1) (hs[k := x]) s1 = hops_deserialize m (k + 1 + length xs) hs' s'" "in_ok s'" "in_rest s' = r"
    by auto
  moreover have "hops_deserialize (64 * length (x # xs) + m) k hs s = hops_deserialize (64 * length xs + m) (k + 1) (hs[k := x]) s1"
    using s1(1) Cons.prems(2) by (subst hops_deserialize.simps) simp
  ultimately show ?case by auto
qed

text \<open>The telemetry header cannot be read from a packet: its reader takes everything that remains in the stream for hops, so
  it fails as soon as a single bit follows the header.\<close>

theorem int_header_greedy:
  assumes "int_ok h" and "bs \<noteq> []" and "in_ok s"
    and "in_rest s = byte_bits (word_of_int (nHop h)) @ byte_bits (word_of_int (pathID h)) @ concat (map hop_bits (hopInfs h)) @ bs"
  shows "INTHeader_deserialize s = Inl (RuntimeError ''Array of size 5 indexed'')"
proof -
  let ?n = "word_of_int (nHop h) :: u8" and ?p = "word_of_int (pathID h) :: u8" and ?hs = "hopInfs h"
  have hs: "\<forall>i\<in>set ?hs. hop_ok i" "length ?hs = 5" using assms(1) by (auto simp: int_ok_def)
  from field_reads(1)[of ?n] assms(3,4) obtain s1 where s1: "readUint8 s = Inr (?n, s1)" "in_ok s1"
    "in_rest s1 = byte_bits ?p @ concat (map hop_bits ?hs) @ bs" unfolding reads_def by blast
  from field_reads(1)[of ?p] s1(2,3) obtain s2 where s2: "readUint8 s1 = Inr (?p, s2)" "in_ok s2"
    "in_rest s2 = concat (map hop_bits ?hs) @ bs" unfolding reads_def by blast
  have l: "getRemainingLength s2 = 64 * length ?hs + length bs" using s2(3) by (simp add: rest_length[symmetric] hops_length)
  from hops_skip[OF hs(1) _ s2(2,3), of 0 "length bs" "replicate 5 initial_hop"] hs(2) obtain hs' s3 where
    s3: "hops_deserialize (64 * length ?hs + length bs) 0 (replicate 5 initial_hop) s2 = hops_deserialize (length bs) 5 hs' s3" "in_ok s3"
    by auto
  from hop_total s3(2) obtain x s4 where "hopInf_deserialize s3 = Inr (x, s4)" unfolding total_read_def by blast
  with assms(2) have "hops_deserialize (length bs) 5 hs' s3 = Inl (RuntimeError ''Array of size 5 indexed'')"
    by (subst hops_deserialize.simps) auto
  with s1(1) s2(1) s3(1) l show ?thesis by (simp add: INTHeader_deserialize_def)
qed

theorem int_header_greedy_witness:
  "\<exists>out s. INTHeader_serialize \<lparr>nHop = 0, pathID = 0, hopInfs = replicate 5 (initial_hop\<lparr>hopQueueLength := 0\<rparr>)\<rparr> MemoryOutputStream = Inr out \<and>
     reopen (writeByte 0 out) = Inr s \<and> INTHeader_deserialize s = Inl (RuntimeError ''Array of size 5 indexed'')"
proof -
  let ?hs = "replicate 5 (initial_hop\<lparr>hopQueueLength := 0\<rparr>)"
  let ?h = "\<lparr>nHop = 0, pathID = 0, hopInfs = ?hs\<rparr>"
  let ?f = "\<lambda>s. fold hop_put ?hs (writeUint8 0 (writeUint8 0 s))"
  have ok: "int_ok ?h" by (simp add: int_ok_def hop_ok_def initial_hop_def)
  then have hs: "\<forall>i\<in>set ?hs. hop_ok i" by (simp add: int_ok_def)
  have "writes 4 (\<lambda>s. writeByte 0 (?f s)) (((byte_bits 0 @ byte_bits 0) @ concat (map hop_bits ?hs)) @ byte_bits 0)"
    by (rule writes_seq[OF writes_seq[OF writes_seq[OF field_writes(1) field_writes(1)] hops_writes[OF hs]] writes_byte])
      (simp_all only: length_append length_byte_bits hops_length, simp_all)
  from reopen_written[OF this] obtain s where s: "reopen (writeByte 0 (?f MemoryOutputStream)) = Inr s" "in_ok s"
    "in_rest s = byte_bits 0 @ byte_bits 0 @ concat (map hop_bits ?hs) @ byte_bits 0" by auto
  have "INTHeader_deserialize s = Inl (RuntimeError ''Array of size 5 indexed'')"
    by (rule int_header_greedy[OF ok _ s(2), of "byte_bits 0"]) (use s(3) in \<open>simp_all add: byte_bits_def\<close>)
  moreover have "INTHeader_serialize ?h MemoryOutputStream = Inr (?f MemoryOutputStream)"
    by (simp add: INTHeader_serialize_def hops_serialize_put hs del: replicate.simps replicate_Suc)
  ultimately show ?thesis using s(1) by blast
qed

text \<open>A header stamped with the rate of a real link is not serialized: the rate, in bits per second, does not fit the byte it is
  converted to.\<close>

theorem int_header_rate_overflow:
  assumes "i \<in> set (hopInfs h)" and "256 \<le> hopTxRate i"
  shows "\<not> is_ok (INTHeader_serialize h s)"
proof -
  have "\<not> is_ok (hops_serialize hs s)" if "i \<in> set hs" for hs s
    using that
  proof (induction hs arbitrary: s)
    case (Cons x hs)
    have "hopInf_serialize i s = Inl FloatConversion" using assms(2) by (simp add: hopInf_serialize_def dbl_to_u8_def)
    with Cons show ?case by (cases "hopInf_serialize x s") auto
  qed simp
  with assms(1) show ?thesis by (simp add: INTHeader_serialize_def)
qed

theorem int_header_rate_overflow_witness:
  "\<not> is_ok (INTHeader_serialize \<lparr>nHop = 1, pathID = 0, hopInfs = replicate 5 (initial_hop\<lparr>hopTxRate := 10 ^ 10\<rparr>)\<rparr> MemoryOutputStream)"
  by (rule int_header_rate_overflow[of "initial_hop\<lparr>hopTxRate := 10 ^ 10\<rparr>"]) (simp_all add: initial_hop_def)

text \<open>C4: An Ethernet header takes 14 bytes, and in front of any other bytes it is read back as it was written, addresses and
  type: what is left in the stream is exactly the bytes that follow, which are read next, and no read goes beyond the end.\<close>

theorem mac_header_round_trip:
  assumes "drop_bit 48 (mac_dest h) = 0" and "drop_bit 48 (mac_src h) = 0"
  shows "\<exists>out s s' s''. out_length (EthernetMacHeader_serialize h MemoryOutputStream) = 8 * 14 \<and>
     writeBytes bs (EthernetMacHeader_serialize h MemoryOutputStream) = Inr out \<and> reopen out = Inr s \<and>
     EthernetMacHeader_deserialize s = Inr (h, s') \<and> getRemainingLength s' = 8 * length bs \<and> \<not> isReadBeyondEnd s' \<and>
     take_bytes (length bs) s' = Inr (bs, s'') \<and> getRemainingLength s'' = 0 \<and> \<not> isReadBeyondEnd s''"
proof -
  have h: "drop_bit 48 (mac_dest h) = 0 \<and> drop_bit 48 (mac_src h) = 0" using assms by simp
  let ?o = "EthernetMacHeader_serialize h MemoryOutputStream"
  have o: "out_length ?o = 8 * 14" using mac_header.size_written[OF h] by simp
  then have w: "writeBytes bs ?o = Inr (fold writeByte bs ?o)" by (simp add: writeBytes_fold)
  from mac_header.round_trip_followed[OF h writes_bytes, of bs] obtain s s' where
    s: "reopen (fold writeByte bs ?o) = Inr s" "EthernetMacHeader_deserialize s = Inr (h, s')" "\<not> isReadBeyondEnd s'"
    and s': "in_ok s'" "in_rest s' = bytes_bits bs @ []" by auto
  have "getRemainingLength s' = 8 * length bs" using s'(2) by (simp add: rest_length[symmetric])
  moreover from reads_take_bytes[of bs] s' s(3) obtain s'' where
    "take_bytes (length bs) s' = Inr (bs, s'')" "in_ok s''" "in_rest s'' = []" "\<not> isReadBeyondEnd s''" unfolding reads_def by blast
  ultimately show ?thesis using o w s rest_empty by blast
qed

theorem mac_header_round_trip_witness:
  "\<exists>out s s' s''. writeBytes [0x01, 0x01, 0xFF] (EthernetMacHeader_serialize \<lparr>mac_dest = 0x0180C2000001, mac_src = 0x0AAA00000001, typeOrLength = 0x8808\<rparr> MemoryOutputStream) = Inr out \<and>
     reopen out = Inr s \<and>
     EthernetMacHeader_deserialize s = Inr (\<lparr>mac_dest = 0x0180C2000001, mac_src = 0x0AAA00000001, typeOrLength = 0x8808\<rparr>, s') \<and>
     take_bytes 3 s' = Inr ([0x01, 0x01, 0xFF], s'')"
proof -
  let ?h = "\<lparr>mac_dest = 0x0180C2000001, mac_src = 0x0AAA00000001, typeOrLength = 0x8808\<rparr>"
  have "drop_bit 48 (mac_dest ?h) = 0" "drop_bit 48 (mac_src ?h) = 0" by (simp_all add: drop_bit_eq_div)
  from mac_header_round_trip[OF this, of "[0x01, 0x01, 0xFF]"] show ?thesis by (simp add: numeral_3_eq_3) blast
qed

end
