(* ===== verification/Spec2Isabelle.thy ===== *)
theory Spec2Isabelle
  imports RED_PFC_Subclasses Std_Map Rate_Limit_Queue Pause_Schedulers Classifiers Ethernet_Mac BFC_Queue DCQCN PCN TIMELY HPCC_Stream POSEIDON SWIFT XPASS HOMA_Network BCN_Queue BFC_Mac Ethernet_Encap App_DCQCN Header_Serializers
begin

text \<open>
  HiNA-DCN is a simulator of data centre networks on top of INET and OMNeT++.  Its own code, under
  \<open>src/HiNA\<close>, is a set of modules that make up the network interface of a switch or host and the
  congestion controls of a host.  This development models those modules and proves what makes them
  correct, or states where they are not.

  The path of a packet.  An application hands a flow to a congestion control (\<open>HiNA/CC\<close>, between UDP
  and IP), which cuts it into packets paced by its rate.  Below IP the encapsulation makes a frame of it.  In an interface (\<open>HiNA/Ethernet\<close>) a
  classifier chooses one of several queues, a queue admits, stores and marks, a scheduler chooses the
  queue to serve, a one-packet MAC queue takes the packet over and the MAC transmits it.  Queues send
  pause and resume commands to the MAC of the interface a packet came in on; the MAC of the
  neighbour hands received pause frames to its scheduler.

  Theories.
  \<^item> \<open>Prelude\<close>: errors as values (\<open>sim_error\<close>, \<open>'a res\<close>, \<open>rbind\<close>), conversions between \<open>double\<close> and unsigned
    integers, substring search on names, scans over indices.
  \<^item> \<open>Std_Map\<close>: \<open>std::map\<close> as a sorted association list, with its laws as the locale \<open>ordered_map\<close>.
  \<^item> \<open>Machine\<close>: runs of a module (\<open>run_out\<close>) and the shapes of argument all components share, as locales:
    an invariant of every run (\<open>machine\<close>), a machine that never fails (\<open>total_machine\<close>), one whose
    account changes by a known amount (\<open>accounted_machine\<close>), one whose signals alternate
    (\<open>signalled_machine\<close>), one whose state is tied to all it has done (\<open>recorded_machine\<close>), one with an output
    that only depends on its inputs (\<open>observed_machine\<close>).
  \<^item> \<open>Packets\<close>: packets, \<open>HiTag\<close>, \<open>EcnMarker\<close>, lengths, insertion and removal, the \<open>removeAllPackets\<close> loop.
  \<^item> \<open>RED_PFC_Queue\<close> (\<open>REDPFCQueue\<close>), \<open>RED_PFC_Subclasses\<close> (\<open>ABMQueue\<close>, with all such queues of a network
    on their static counters, and \<open>PCNQueue\<close>), \<open>Rate_Limit_Queue\<close>
    (\<open>RateLimitQueue\<close>), \<open>BFC_Queue\<close> (\<open>BFCqueue\<close>), \<open>BCN_Queue\<close> (\<open>BCNqueue\<close>, the notifications of \<open>BCNMac\<close> and what they do to
    a sender), \<open>Switch_Mac_Queue\<close> (\<open>SwitchMacQueue\<close>).
  \<^item> \<open>Wrr_Scheduler\<close> (\<open>WrrScheduler\<close>), \<open>Pause_Schedulers\<close> (\<open>HiPriorityScheduler\<close>, \<open>BFCScheduler\<close>, \<open>BCNScheduler\<close>).
  \<^item> \<open>Classifiers\<close> (\<open>HiClassifier\<close>, \<open>BFCClassifier\<close>, \<open>BCNClassifier\<close>).
  \<^item> \<open>Ethernet_Mac\<close> (\<open>HiEthernetMac\<close> and what it uses of \<open>EthernetMacBase\<close> and \<open>MacProtocolBase\<close>); \<open>BFC_Mac\<close> (\<open>BFCMac\<close>,
    which \<open>BCNMac\<close> repeats, and the way of a command from a BFC queue to the scheduler upstream);
    \<open>Ethernet_Encap\<close> (\<open>HiEthernetEncapsulation\<close> and the table of protocol numbers it uses).
  \<^item> \<open>Flow_Sender\<close>: what the congestion controls share, and two locales that carry their proofs
    (\<open>segmenting_sender\<close>, \<open>ordered_sender\<close>); \<open>Flow_Steps\<close>: the two halves of a sender they repeat word for
    word; \<open>DCQCN\<close> (\<open>CC/DCQCN\<close>), \<open>PCN\<close> (\<open>CC/PCN\<close>), \<open>TIMELY\<close> (\<open>CC/TIMELY\<close>),
    \<open>Backpressure_Senders\<close> (\<open>CC/BFC\<close>, \<open>CC/BCN\<close>).
  \<^item> \<open>Packet_Sender\<close>: what the congestion controls share that cut a message into packets filed by number, with
    the locales \<open>packet_starter\<close> and \<open>filing_sender\<close>; \<open>HPCC\<close> (\<open>CC/HPCC\<close>), \<open>HPCC_Stream\<close> (two HPCC modules with
    a network between them refine a stream), \<open>POSEIDON\<close> (\<open>CC/POSEIDON\<close>), \<open>SWIFT\<close> (\<open>CC/SWIFT\<close>).
  \<^item> \<open>XPASS\<close> (\<open>CC/XPASS\<close>): data sent on credits of the receiver, with the locale \<open>answering_machine\<close> for a module whose
    outputs answer its inputs; \<open>HOMA\<close> (\<open>CC/HOMA\<close>): data sent on grants of the receiver; \<open>HOMA_Network\<close>: a sender and a
    receiver of it with a network between them that delays each packet as it likes and fires the timers that run out.
  \<^item> \<open>Send_Script\<close>: the send script of the applications (\<open>HiUdpApp::parseScript\<close>, which \<open>TcpApp\<close> repeats) with
    the number scanners of the C library it uses, the conversion of a number into a \<open>simtime_t\<close> being a parameter; \<open>Udp_App\<close> (\<open>HiUdpApp\<close> and \<open>GlobalFlowId\<close>): flow sizes, messages,
    timers and reception, with theorems on one flow, on scripts and on the traffic modes; \<open>App_DCQCN\<close>: such an
    application on top of DCQCN.
  \<^item> \<open>Memory_Streams\<close> (\<open>MemoryOutputStream\<close>, \<open>MemoryInputStream\<close>): bit streams, with the locale \<open>codec\<close> for a field that
    is read back as written; \<open>Header_Serializers\<close>: the headers built of such fields.

  Conventions.  A module's state is a record named after the class, its parameters a second record, a
  method \<open>C::m\<close> a definition \<open>C_m\<close> that takes and returns the state.  What a method causes outside of its
  module (a packet sent, a signal emitted, a timer armed, a callback made) is a list of effects in the
  order of the code.  Exceptions, failed assertions, null and past-the-end dereferences, reads of
  uninitialised variables, indices out of range and conversions without a defined result are values
  of \<open>sim_error\<close> and end the step, so a proof that a step returns is a proof that none of them occurs.
  Integers whose wrap-around matters are words; \<open>double\<close> and \<open>simtime_t\<close> are real numbers, so rounding
  is not modelled (what a script's numbers become as times is left open) and a quotient by zero is an error where it becomes a time; \<open>log\<close> and \<open>exp\<close> are the real functions.  Random draws, the
  lengths other modules report, the channel's transmission time and the comparator of a library
  queue are arguments.  Static arrays of the simulation (the shared buffer of a switch, the counters
  of congested queues) are part of the state that is passed along.  No fuel is used: every loop of the
  modelled code is structural or has a termination proof, except three.  The loop of \<open>processpfccommand\<close> on an
  unknown operation does not end and is the error \<open>NoProgress\<close>.  The recursion of SWIFT's \<open>send_data\<close> is a
  \<open>partial_function (option)\<close>, whose value \<open>None\<close> is turned into the same error; \<open>swift_send_ends_iff\<close> says
  exactly when that is.  HOMA's \<open>send_unschedule\<close> is treated likewise; it ends whenever packets have a positive size
  (\<open>homa_sends_run\<close>), and only then (\<open>homa_sends_hangs\<close>).

  Not modelled.  Statistics vectors, signals only recorded, display strings and the life cycle of
  modules, which influence nothing that is modelled.  Of \<open>src/HiNA\<close>: \<open>TcpApp\<close>, which hands its
  flows to the TCP of INET, and the wiring of modules.  A packet is a record of what the code
  reads, not a tree of chunks: asking for a header that is not in front is an error, reinterpreting bytes as a header
  is not modelled.  INET itself (everything under \<open>src\<close> but \<open>HiNA\<close>) is vendored; of it the
  operations the modelled classes inherit or call are modelled with them.
\<close>

end
